(* ===== verification/Prelude.thy ===== *)
theory Prelude
  imports Main "HOL-Library.Word" "HOL-Library.Multiset"
begin

text \<open>
  Shared vocabulary of the development: machine integers, byte buffers, the outcome of a Rust
  function (a value, an error value, or a panic), bounds-checked slicing, little-endian codecs,
  UTF-8 validation, comparison-based sorting, and the generic lemmas and contracts (locales) the
  component theories instantiate.

  Conventions. A \<^verbatim>\<open>uN\<close> is an \<open>N word\<close>; a \<^verbatim>\<open>usize\<close> is a \<open>nat\<close> whose 64-bit
  overflow checks (\<^verbatim>\<open>checked_add\<close>, \<^verbatim>\<open>checked_mul\<close>) are written out; a \<^verbatim>\<open>&[u8]\<close>, a
  \<^verbatim>\<open>Vec<u8>\<close> and a \<^verbatim>\<open>String\<close> are lists of bytes (a \<^verbatim>\<open>String\<close> is one that satisfies
  \<open>utf8_valid\<close>). A function that appends to \<^verbatim>\<open>out: &mut Vec<u8>\<close> is modelled by the
  bytes it appends.
\<close>

unbundle bit_operations_syntax

section \<open>Machine types\<close>

type_synonym u8 = "8 word"
type_synonym u16 = "16 word"
type_synonym u32 = "32 word"
type_synonym u64 = "64 word"
type_synonym i32 = "32 word"
type_synonym i64 = "64 word"
type_synonym bytes = "u8 list"
type_synonym str = "u8 list"

named_theorems no_panic \<open>introduction rules for the absence of panics\<close>
named_theorems wire \<open>rewriting of wire readers applied to written bytes\<close>

section \<open>Outcomes\<close>

text \<open>
  A fallible Rust function returns a value or an error; every indexing or slicing operation of
  the source may in addition panic. All three are values of the model.
\<close>

datatype ('e, 'a) result = Ok 'a | Err 'e | Panic

definition rbind :: "('e, 'a) result \<Rightarrow> ('a \<Rightarrow> ('e, 'b) result) \<Rightarrow> ('e, 'b) result" where
  "rbind m f = (case m of Ok x \<Rightarrow> f x | Err e \<Rightarrow> Err e | Panic \<Rightarrow> Panic)"

definition rmap :: "('a \<Rightarrow> 'b) \<Rightarrow> ('e, 'a) result \<Rightarrow> ('e, 'b) result" where
  "rmap f m = rbind m (\<lambda>x. Ok (f x))"

definition rmap_err :: "('e \<Rightarrow> 'f) \<Rightarrow> ('e, 'a) result \<Rightarrow> ('f, 'a) result" where
  "rmap_err f m = (case m of Ok x \<Rightarrow> Ok x | Err e \<Rightarrow> Err (f e) | Panic \<Rightarrow> Panic)"

definition ok_or :: "'e \<Rightarrow> 'a option \<Rightarrow> ('e, 'a) result" where
  "ok_or e m = (case m of None \<Rightarrow> Err e | Some x \<Rightarrow> Ok x)"

definition expect :: "'a option \<Rightarrow> ('e, 'a) result" where
  "expect m = (case m of None \<Rightarrow> Panic | Some x \<Rightarrow> Ok x)"

fun mapM :: "('a \<Rightarrow> ('e, 'b) result) \<Rightarrow> 'a list \<Rightarrow> ('e, 'b list) result" where
  "mapM f [] = Ok []"
| "mapM f (x # xs) = rbind (f x) (\<lambda>y. rbind (mapM f xs) (\<lambda>ys. Ok (y # ys)))"

lemma rbind_simps [simp]:
  "rbind (Ok x) f = f x" "rbind (Err e) f = Err e" "rbind Panic f = Panic"
  by (simp_all add: rbind_def)

lemma rmap_simps [simp]:
  "rmap f (Ok x) = Ok (f x)" "rmap f (Err e) = Err e" "rmap f Panic = Panic"
  by (simp_all add: rmap_def)

lemma rmap_err_simps [simp]:
  "rmap_err f (Ok x) = Ok x" "rmap_err f (Err e) = Err (f e)" "rmap_err f Panic = Panic"
  by (simp_all add: rmap_err_def)

lemma ok_or_simps [simp]: "ok_or e None = Err e" "ok_or e (Some x) = Ok x"
  by (simp_all add: ok_or_def)

lemma ok_or_Ok_iff [simp]: "ok_or e m = Ok x \<longleftrightarrow> m = Some x"
  by (cases m) auto

lemma expect_simps [simp]: "expect None = Panic" "expect (Some x) = Ok x"
  by (simp_all add: expect_def)

lemma rbind_assoc: "rbind (rbind m f) g = rbind m (\<lambda>x. rbind (f x) g)"
  by (cases m) auto

lemma rbind_Ok_iff: "rbind m f = Ok y \<longleftrightarrow> (\<exists>x. m = Ok x \<and> f x = Ok y)"
  by (cases m) auto

lemma rbind_cong [fundef_cong]:
  "m = m' \<Longrightarrow> (\<And>x. m' = Ok x \<Longrightarrow> f x = g x) \<Longrightarrow> rbind m f = rbind m' g"
  by (cases m') auto

lemma rbind_Ok_right [simp]: "rbind m Ok = m"
  by (cases m) auto

lemma mapM_append:
  "mapM f (xs @ ys) = rbind (mapM f xs) (\<lambda>us. rbind (mapM f ys) (\<lambda>vs. Ok (us @ vs)))"
  by (induction xs) (auto simp: rbind_assoc)

lemma mapM_Ok_map: "(\<And>x. x \<in> set xs \<Longrightarrow> f x = Ok (g x)) \<Longrightarrow> mapM f xs = Ok (map g xs)"
  by (induction xs) auto

lemma mapM_Ok_length: "mapM f xs = Ok ys \<Longrightarrow> length ys = length xs"
  by (induction xs arbitrary: ys) (auto simp: rbind_Ok_iff)

lemma mapM_Ok_nth:
  "mapM f xs = Ok ys \<Longrightarrow> i < length xs \<Longrightarrow> f (xs ! i) = Ok (ys ! i)"
  by (induction xs arbitrary: ys i) (auto simp: rbind_Ok_iff nth_Cons split: nat.splits)

lemma mapM_cong [fundef_cong]:
  "xs = ys \<Longrightarrow> (\<And>x. x \<in> set ys \<Longrightarrow> f x = g x) \<Longrightarrow> mapM f xs = mapM g ys"
proof (induction ys arbitrary: xs)
  case (Cons y ys)
  then show ?case by (auto intro!: rbind_cong)
qed simp

definition safe :: "('e, 'a) result \<Rightarrow> bool" where
  "safe m \<longleftrightarrow> m \<noteq> Panic"

lemma safe_simps [simp]: "safe (Ok x)" "safe (Err e)" "\<not> safe Panic"
  by (simp_all add: safe_def)

lemma rbind_safe [no_panic]: "safe m \<Longrightarrow> (\<And>x. m = Ok x \<Longrightarrow> safe (f x)) \<Longrightarrow> safe (rbind m f)"
  by (cases m) auto

lemma mapM_safe [no_panic]: "(\<And>x. x \<in> set xs \<Longrightarrow> safe (f x)) \<Longrightarrow> safe (mapM f xs)"
  by (induction xs) (auto intro!: rbind_safe)

lemma rmap_safe [no_panic]: "safe m \<Longrightarrow> safe (rmap f m)"
  by (cases m) auto

lemma rmap_err_safe [no_panic]: "safe m \<Longrightarrow> safe (rmap_err f m)"
  by (cases m) auto

lemma ok_or_safe [no_panic, simp]: "safe (ok_or e m)"
  by (cases m) auto

lemma if_safe [no_panic]: "(b \<Longrightarrow> safe x) \<Longrightarrow> (\<not> b \<Longrightarrow> safe y) \<Longrightarrow> safe (if b then x else y)"
  by simp

lemma safeD: "safe m \<Longrightarrow> (\<exists>x. m = Ok x) \<or> (\<exists>e. m = Err e)"
  by (cases m) auto

section \<open>Checked 64-bit size arithmetic and slices\<close>

definition usize_max :: nat where
  "usize_max = 2 ^ 64 - 1"

definition checked_add :: "nat \<Rightarrow> nat \<Rightarrow> nat option" where
  "checked_add a b = (if a + b \<le> usize_max then Some (a + b) else None)"

definition checked_mul :: "nat \<Rightarrow> nat \<Rightarrow> nat option" where
  "checked_mul a b = (if a * b \<le> usize_max then Some (a * b) else None)"

definition slice :: "nat \<Rightarrow> nat \<Rightarrow> 'a list \<Rightarrow> ('e, 'a list) result" where
  "slice a b xs = (if a \<le> b \<and> b \<le> length xs then Ok (take (b - a) (drop a xs)) else Panic)"

definition index :: "'a list \<Rightarrow> nat \<Rightarrow> ('e, 'a) result" where
  "index xs i = (if i < length xs then Ok (xs ! i) else Panic)"

fun position :: "('a \<Rightarrow> bool) \<Rightarrow> 'a list \<Rightarrow> nat option" where
  "position p [] = None"
| "position p (x # xs) = (if p x then Some 0 else map_option Suc (position p xs))"

lemma checked_add_eq_Some: "checked_add a b = Some c \<longleftrightarrow> c = a + b \<and> a + b \<le> usize_max"
  by (auto simp: checked_add_def)

lemma checked_add_None: "checked_add a b = None \<longleftrightarrow> usize_max < a + b"
  by (auto simp: checked_add_def)

text \<open>For evaluation the 64-bit bounds are compared as integers, whose numerals are binary.\<close>

lemma checked_add_code [code]:
  "checked_add a b = (if int a + int b \<le> 18446744073709551615 then Some (a + b) else None)"
  by (auto simp: checked_add_def usize_max_def)

lemma checked_mul_code [code]:
  "checked_mul a b = (if int a * int b \<le> 18446744073709551615 then Some (a * b) else None)"
  by (auto simp: checked_mul_def usize_max_def simp flip: of_nat_mult)

lemma checked_mul_eq_Some: "checked_mul a b = Some c \<longleftrightarrow> c = a * b \<and> a * b \<le> usize_max"
  by (auto simp: checked_mul_def)

lemma slice_ok [simp]: "a \<le> b \<Longrightarrow> b \<le> length xs \<Longrightarrow> slice a b xs = Ok (take (b - a) (drop a xs))"
  by (simp add: slice_def)

lemma slice_safe [no_panic]: "a \<le> b \<Longrightarrow> b \<le> length xs \<Longrightarrow> safe (slice a b xs)"
  by simp

lemma slice_Ok_iff:
  "slice a b xs = Ok ys \<longleftrightarrow> a \<le> b \<and> b \<le> length xs \<and> ys = take (b - a) (drop a xs)"
  by (auto simp: slice_def)

lemma index_ok [simp]: "i < length xs \<Longrightarrow> index xs i = Ok (xs ! i)"
  by (simp add: index_def)

lemma index_safe [no_panic]: "i < length xs \<Longrightarrow> safe (index xs i)"
  by simp

lemma slice_append_mid:
  "a = length pre \<Longrightarrow> b = a + length mid \<Longrightarrow> slice a b (pre @ mid @ post) = Ok mid"
  by simp

lemma position_SomeD:
  assumes "position p xs = Some n"
  shows "n < length xs" "p (xs ! n)" "\<forall>i < n. \<not> p (xs ! i)"
proof -
  have "n < length xs \<and> p (xs ! n) \<and> (\<forall>i < n. \<not> p (xs ! i))"
    using assms
    by (induction xs arbitrary: n) (auto simp: nth_Cons split: if_splits nat.splits)
  then show "n < length xs" "p (xs ! n)" "\<forall>i < n. \<not> p (xs ! i)" by auto
qed

lemma position_prefix:
  "\<forall>x \<in> set xs. \<not> p x \<Longrightarrow> p y \<Longrightarrow> position p (xs @ y # ys) = Some (length xs)"
  by (induction xs) auto

lemma position_None: "position p xs = None \<longleftrightarrow> (\<forall>x \<in> set xs. \<not> p x)"
  by (induction xs) auto

section \<open>Signed ranges of words\<close>

text \<open>A word whose signed value fits in \<open>k + 1\<close> bits is the sign extension of them.\<close>

lemma sint_signed_take_bit:
  fixes w :: "'a::len word"
  assumes "k < LENGTH('a)"
  shows "sint (signed_take_bit k w) = signed_take_bit k (sint w)"
proof (rule bit_eqI)
  fix n
  have "LENGTH('a) - Suc 0 \<le> k \<Longrightarrow> k = LENGTH('a) - Suc 0" using assms by simp
  then show "bit (sint (signed_take_bit k w)) n = bit (signed_take_bit k (sint w)) n"
    using assms by (auto simp: bit_simps min_def)
qed

lemma signed_fits:
  fixes w :: "'a::len word"
  assumes "- (2 ^ k) \<le> sint w" and "sint w < 2 ^ k"
  shows "signed_take_bit k w = w"
proof -
  have "sint (signed_take_bit k w) = sint w"
  proof (cases "k < LENGTH('a)")
    case True
    then show ?thesis using assms by (simp add: sint_signed_take_bit signed_take_bit_int_eq_self)
  next
    case False
    then show ?thesis by (intro bit_eqI) (auto simp: bit_simps min_def)
  qed
  then show ?thesis by (rule signed_word_eqI)
qed

lemma signed_take_bit_range:
  fixes w :: "'a::len word"
  assumes "signed_take_bit k w = w" and "k < LENGTH('a)"
  shows "- (2 ^ k) \<le> sint w" and "sint w < 2 ^ k"
proof -
  have "sint w = signed_take_bit k (sint w)" using sint_signed_take_bit [OF assms(2), of w] assms(1) by simp
  then show "- (2 ^ k) \<le> sint w" "sint w < 2 ^ k"
    by (metis signed_take_bit_int_greater_eq_minus_exp, metis signed_take_bit_int_less_exp)
qed

lemma bit_signed_fits:
  fixes w :: "'a::len word"
  assumes "- (2 ^ k) \<le> sint w" and "sint w < 2 ^ k" and "k \<le> n" and "n < LENGTH('a)"
  shows "bit w n \<longleftrightarrow> bit w k"
proof -
  have "bit (signed_take_bit k w) n = bit w k" using assms(3,4) by (simp add: bit_simps)
  then show ?thesis by (simp only: signed_fits [OF assms(1,2)])
qed

section \<open>Overflow-checked 64-bit arithmetic\<close>

text \<open>Additions and multiplications on \<^verbatim>\<open>u64\<close> panic when they overflow.\<close>

definition add64 :: "u64 \<Rightarrow> u64 \<Rightarrow> ('e, u64) result" where
  "add64 a b = (if uint a + uint b < 2 ^ 64 then Ok (a + b) else Panic)"

definition mul64 :: "u64 \<Rightarrow> u64 \<Rightarrow> ('e, u64) result" where
  "mul64 a b = (if uint a * uint b < 2 ^ 64 then Ok (a * b) else Panic)"

lemma int_below_2p64: "n < 2 ^ 64 \<longleftrightarrow> int n < 2 ^ 64"
  by simp

lemma add64_cond: "uint (a :: u64) + uint b < 2 ^ 64 \<longleftrightarrow> unat a + unat b < 2 ^ 64"
proof -
  have "uint a + uint b = int (unat a + unat b)" by simp
  then show ?thesis by (simp only: int_below_2p64)
qed

lemma add64_ok: "unat a + unat b < 2 ^ 64 \<Longrightarrow> add64 a b = Ok (a + b)"
  by (simp only: add64_def add64_cond if_True)

lemma add64_Ok_iff: "add64 a b = Ok c \<longleftrightarrow> unat a + unat b < 2 ^ 64 \<and> c = a + b"
  by (simp only: add64_def add64_cond) auto

lemma add64_unat: "add64 a b = Ok c \<Longrightarrow> unat c = unat a + unat b"
  by (auto simp: add64_Ok_iff unat_word_ariths)

lemma mul64_ok:
  assumes "unat a * unat b < 2 ^ 64"
  shows "mul64 a b = Ok (a * b)"
proof -
  have "uint a * uint b = int (unat a * unat b)" by simp
  then have "uint a * uint b < 2 ^ 64" using assms by (simp only: int_below_2p64)
  then show ?thesis by (simp only: mul64_def if_True)
qed

text \<open>A string constant of the source, as bytes.\<close>

definition bstr :: "string \<Rightarrow> str" where
  "bstr s = map of_char s"

lemma bstr_inj [simp]: "bstr s = bstr t \<longleftrightarrow> s = t"
proof -
  have "inj (of_char :: char \<Rightarrow> u8)"
  proof (rule injI)
    fix c d :: char
    assume "(of_char c :: u8) = of_char d"
    then have "unat (of_nat (of_char c) :: u8) = unat (of_nat (of_char d) :: u8)" by (simp only: of_nat_of_char)
    then have "(of_char c :: nat) = of_char d" by (simp add: unat_of_nat)
    then show "c = d" by simp
  qed
  then show ?thesis by (simp add: bstr_def inj_map_eq_map)
qed

end
