(* ===== verification/Bytes.thy ===== *)
theory Bytes
  imports Prelude
begin

text \<open>
  Byte-level wire formats: fixed-width little-endian integers (\<^verbatim>\<open>to_le_bytes\<close>,
  \<^verbatim>\<open>from_le_bytes\<close>, the primitive readers \<^verbatim>\<open>u32_le\<close>/\<^verbatim>\<open>u64_le\<close> of
  \<^verbatim>\<open>src/macho/reader.rs\<close>), tables of fixed-size records, and UTF-8 strings. Two locales state
  the contracts the readers and writers of the linker rely on: \<open>record_codec\<close> for fixed-size
  records and \<open>prefix_codec\<close> for self-delimiting encodings.
\<close>

section \<open>Little-endian integers\<close>

fun from_le :: "bytes \<Rightarrow> 'a::len word" where
  "from_le [] = 0"
| "from_le (b # bs) = ucast b OR push_bit 8 (from_le bs)"

fun to_le :: "nat \<Rightarrow> 'a::len word \<Rightarrow> bytes" where
  "to_le 0 w = []"
| "to_le (Suc n) w = ucast w # to_le n (drop_bit 8 w)"

definition from_be :: "bytes \<Rightarrow> 'a::len word" where
  "from_be bs = from_le (rev bs)"

definition to_be :: "nat \<Rightarrow> 'a::len word \<Rightarrow> bytes" where
  "to_be n w = rev (to_le n w)"

abbreviation le16 :: "u16 \<Rightarrow> bytes" where "le16 \<equiv> to_le 2"
abbreviation le32 :: "u32 \<Rightarrow> bytes" where "le32 \<equiv> to_le 4"
abbreviation le64 :: "u64 \<Rightarrow> bytes" where "le64 \<equiv> to_le 8"

definition u32_le :: "bytes \<Rightarrow> ('e, u32) result" where
  "u32_le b = (if 4 \<le> length b then Ok (from_le (take 4 b)) else Panic)"

definition u64_le :: "bytes \<Rightarrow> ('e, u64) result" where
  "u64_le b = (if 8 \<le> length b then Ok (from_le (take 8 b)) else Panic)"

definition u16_le :: "bytes \<Rightarrow> ('e, u16) result" where
  "u16_le b = (if 2 \<le> length b then Ok (from_le (take 2 b)) else Panic)"

text \<open>The recurring expressions \<^verbatim>\<open>u32_le(&b[k..k + 4])\<close> and \<^verbatim>\<open>u64_le(&b[k..k + 8])\<close>.\<close>

definition rd32 :: "nat \<Rightarrow> bytes \<Rightarrow> ('e, u32) result" where
  "rd32 k b = rbind (slice k (k + 4) b) u32_le"

definition rd64 :: "nat \<Rightarrow> bytes \<Rightarrow> ('e, u64) result" where
  "rd64 k b = rbind (slice k (k + 8) b) u64_le"

definition rd16 :: "nat \<Rightarrow> bytes \<Rightarrow> ('e, u16) result" where
  "rd16 k b = rbind (slice k (k + 2) b) u16_le"

lemma length_to_le [simp]: "length (to_le n w) = n"
  by (induction n arbitrary: w) auto

lemma length_to_be [simp]: "length (to_be n w) = n"
  by (simp add: to_be_def)

lemma bit_u8_less: "bit (b :: u8) n \<Longrightarrow> n < 8"
  using bit_imp_le_length [of b n] by simp

lemma from_le_to_le_take:
  "from_le (to_le n w) = take_bit (8 * n) (w :: 'a::len word)"
proof (induction n arbitrary: w)
  case 0
  then show ?case by simp
next
  case (Suc n)
  have "from_le (to_le (Suc n) w) = ucast (ucast w :: u8) OR push_bit 8 (take_bit (8 * n) (drop_bit 8 w))"
    by (simp add: Suc.IH)
  also have "\<dots> = take_bit (8 * Suc n) w"
    by (rule bit_word_eqI) (auto simp: bit_simps)
  finally show ?case .
qed

lemma from_le_to_le [simp]: "LENGTH('a) \<le> 8 * n \<Longrightarrow> from_le (to_le n w) = (w :: 'a::len word)"
  by (simp add: from_le_to_le_take take_bit_word_eq_self)

lemma from_be_to_be [simp]: "LENGTH('a) \<le> 8 * n \<Longrightarrow> from_be (to_be n w) = (w :: 'a::len word)"
  by (simp add: from_be_def to_be_def)

lemma from_le_head:
  "8 \<le> LENGTH('a) \<Longrightarrow> ucast (ucast b OR push_bit 8 x :: 'a::len word) = (b :: u8)"
  by (rule bit_word_eqI) (auto simp: bit_simps)

lemma drop_bit_from_le_step:
  fixes x :: "'a::len word"
  assumes "take_bit (LENGTH('a) - 8) x = x"
  shows "drop_bit 8 (ucast (b :: u8) OR push_bit 8 x) = x"
proof (rule bit_word_eqI)
  fix n assume "n < LENGTH('a)"
  have "bit x n \<longrightarrow> n < LENGTH('a) - 8"
    using assms by (metis bit_take_bit_iff)
  then show "bit (drop_bit 8 (ucast b OR push_bit 8 x)) n = bit x n"
    using \<open>n < LENGTH('a)\<close> by (auto simp: bit_simps dest!: bit_u8_less)
qed

lemma take_bit_from_le:
  "take_bit (8 * length bs) (from_le bs) = (from_le bs :: 'a::len word)"
proof (induction bs)
  case (Cons b bs)
  have bnd: "bit (from_le bs :: 'a word) n \<Longrightarrow> n < 8 * length bs" for n
    using Cons.IH by (metis bit_take_bit_iff)
  show ?case
  proof (rule bit_word_eqI)
    fix n assume "n < LENGTH('a)"
    then show "bit (take_bit (8 * length (b # bs)) (from_le (b # bs) :: 'a word)) n
        = bit (from_le (b # bs) :: 'a word) n"
      using bnd [of "n - 8"] bit_u8_less [of b n] by (auto simp: bit_simps)
  qed
qed simp

lemma to_le_from_le [simp]:
  "n = length bs \<Longrightarrow> 8 * n \<le> LENGTH('a) \<Longrightarrow> to_le n (from_le bs :: 'a::len word) = bs"
proof (induction bs arbitrary: n)
  case (Cons b bs)
  have "8 * length bs \<le> LENGTH('a) - 8" using Cons.prems by simp
  then have "take_bit (LENGTH('a) - 8) (take_bit (8 * length bs) (from_le bs :: 'a word))
      = take_bit (8 * length bs) (from_le bs)"
    by (simp only: take_bit_take_bit min.absorb2)
  then have "take_bit (LENGTH('a) - 8) (from_le bs :: 'a word) = from_le bs"
    by (simp add: take_bit_from_le)
  then have d: "drop_bit 8 (from_le (b # bs) :: 'a word) = from_le bs"
    unfolding from_le.simps by (rule drop_bit_from_le_step)
  have h: "ucast (from_le (b # bs) :: 'a word) = b"
    unfolding from_le.simps using Cons.prems by (intro from_le_head) simp
  have "to_le n (from_le (b # bs) :: 'a word) = b # to_le (length bs) (from_le bs :: 'a word)"
    using Cons.prems(1) by (simp only: list.size add_Suc_right add_0_right to_le.simps d h)
  then show ?case using Cons by simp
qed simp

lemma u32_le_le32 [wire, simp]: "u32_le (le32 w @ r) = Ok w"
  by (simp add: u32_le_def)

lemma u64_le_le64 [wire, simp]: "u64_le (le64 w @ r) = Ok w"
  by (simp add: u64_le_def)

lemma u16_le_le16 [wire, simp]: "u16_le (le16 w @ r) = Ok w"
  by (simp add: u16_le_def)

lemma rd32_ok: "k + 4 \<le> length b \<Longrightarrow> rd32 k b = Ok (from_le (take 4 (drop k b)))"
  by (simp add: rd32_def u32_le_def)

lemma rd64_ok: "k + 8 \<le> length b \<Longrightarrow> rd64 k b = Ok (from_le (take 8 (drop k b)))"
  by (simp add: rd64_def u64_le_def)

lemma rd16_ok: "k + 2 \<le> length b \<Longrightarrow> rd16 k b = Ok (from_le (take 2 (drop k b)))"
  by (simp add: rd16_def u16_le_def)

lemmas rd_ok = rd16_ok rd32_ok rd64_ok

lemma rd32_safe [no_panic]: "k + 4 \<le> length b \<Longrightarrow> safe (rd32 k b)"
  by (simp add: rd32_ok)

lemma rd64_safe [no_panic]: "k + 8 \<le> length b \<Longrightarrow> safe (rd64 k b)"
  by (simp add: rd64_ok)

lemma rd16_safe [no_panic]: "k + 2 \<le> length b \<Longrightarrow> safe (rd16 k b)"
  by (simp add: rd16_ok)

section \<open>Tables of fixed-size records\<close>

text \<open>
  The loop \<^verbatim>\<open>for i in 0..n { out.push(parse(&bytes[start + i * SIZE..][..SIZE])?) }\<close> that reads
  symbol tables, relocation tables, section headers and build-tool records.
\<close>

definition read_records ::
  "nat \<Rightarrow> (bytes \<Rightarrow> ('e, 'a) result) \<Rightarrow> bytes \<Rightarrow> nat \<Rightarrow> nat \<Rightarrow> ('e, 'a list) result" where
  "read_records sz parse b start n =
     mapM (\<lambda>i. rbind (slice (start + i * sz) (start + i * sz + sz) b) parse) [0..<n]"

lemma read_records_safe [no_panic]:
  assumes "start + n * sz \<le> length b"
    and "\<And>c. length c = sz \<Longrightarrow> safe (parse c)"
  shows "safe (read_records sz parse b start n)"
  unfolding read_records_def
proof (rule mapM_safe)
  fix i assume "i \<in> set [0..<n]"
  then have "i * sz + sz \<le> n * sz" by (metis atLeastLessThan_iff atLeast_upt mult_Suc
        add.commute Suc_leI mult_le_mono1 set_upt)
  with assms show "safe (rbind (slice (start + i * sz) (start + i * sz + sz) b) parse)"
    by simp
qed

text \<open>
  A fixed-size record format: what the writer promises (every record occupies \<open>sz\<close> bytes) and
  what the reader promises (it inverts the writer on the records \<open>ok\<close> admits).
\<close>

locale record_codec =
  fixes enc :: "'a \<Rightarrow> bytes"
    and dec :: "bytes \<Rightarrow> ('e, 'a) result"
    and sz :: nat
    and ok :: "'a \<Rightarrow> bool"
  assumes enc_length: "ok x \<Longrightarrow> length (enc x) = sz"
    and dec_enc: "ok x \<Longrightarrow> dec (enc x) = Ok x"
begin

lemma length_table: "list_all ok xs \<Longrightarrow> length (concat (map enc xs)) = length xs * sz"
  by (induction xs) (auto simp: enc_length)

lemma table_slot:
  "i < length xs \<Longrightarrow> list_all ok xs \<Longrightarrow>
   take sz (drop (length pre + i * sz) (pre @ concat (map enc xs) @ post)) = enc (xs ! i)"
proof (induction xs arbitrary: i pre)
  case (Cons x xs)
  show ?case
  proof (cases i)
    case 0
    then show ?thesis using Cons.prems by (simp add: enc_length)
  next
    case (Suc j)
    have "take sz (drop (length (pre @ enc x) + j * sz) ((pre @ enc x) @ concat (map enc xs) @ post))
        = enc (xs ! j)"
      using Cons.prems Suc by (intro Cons.IH) simp_all
    then show ?thesis using Suc Cons.prems by (simp add: enc_length add.assoc)
  qed
qed simp

lemma read_written_table:
  assumes "list_all ok xs" and "start = length pre" and "n = length xs"
  shows "read_records sz dec (pre @ concat (map enc xs) @ post) start n = Ok xs"
proof -
  let ?b = "pre @ concat (map enc xs) @ post"
  have slot: "rbind (slice (start + i * sz) (start + i * sz + sz) ?b) dec = Ok (xs ! i)"
    if "i \<in> set [0..<n]" for i
  proof -
    from that assms(3) have i: "i < length xs" by simp
    then have "i * sz + sz \<le> length xs * sz"
      by (metis Suc_leI add.commute mult_Suc mult_le_mono1)
    then have "slice (start + i * sz) (start + i * sz + sz) ?b = (Ok (enc (xs ! i)) :: ('e, bytes) result)"
      using assms(1,2) i table_slot [of i xs pre post] by (simp add: length_table)
    moreover have "ok (xs ! i)" using assms(1) i by (simp add: list_all_length)
    ultimately show ?thesis by (simp add: dec_enc)
  qed
  have "read_records sz dec ?b start n = Ok (map (\<lambda>i. xs ! i) [0..<n])"
    unfolding read_records_def by (rule mapM_Ok_map) (rule slot)
  then show ?thesis using assms(3) by (simp add: map_nth)
qed

end

text \<open>
  A self-delimiting encoding: decoding a buffer that starts with an encoded value returns that
  value and the number of bytes it occupies, whatever follows.
\<close>

locale prefix_codec =
  fixes enc :: "'a \<Rightarrow> bytes"
    and dec :: "bytes \<Rightarrow> ('e, 'a \<times> nat) result"
  assumes dec_prefix: "dec (enc x @ rest) = Ok (x, length (enc x))"
    and enc_nonempty: "enc x \<noteq> []"
begin

lemma dec_at: "n = length pre \<Longrightarrow> dec (drop n (pre @ enc x @ rest)) = Ok (x, length (enc x))"
  by (simp add: dec_prefix)

lemma enc_inj_prefix:
  assumes "enc x @ r = enc y @ s"
  shows "x = y" and "r = s"
proof -
  have "Ok (x, length (enc x)) = (Ok (y, length (enc y)) :: ('e, 'a \<times> nat) result)"
    using dec_prefix [of x r] dec_prefix [of y s] assms by simp
  then show "x = y" by simp
  with assms show "r = s" by simp
qed

end

section \<open>UTF-8\<close>

text \<open>
  \<^verbatim>\<open>std::str::from_utf8\<close> and \<^verbatim>\<open>String::from_utf8_lossy\<close>. One decoding step at a non-empty
  buffer: whether a well-formed character starts here, and how many bytes are consumed (the whole
  character, or the maximal ill-formed prefix that one replacement character stands for).
\<close>

definition is_cont :: "u8 \<Rightarrow> bool" where
  "is_cont b \<longleftrightarrow> 0x80 \<le> b \<and> b \<le> 0xBF"

definition utf8_second :: "u8 \<Rightarrow> u8 \<Rightarrow> bool" where
  "utf8_second b0 b1 =
     (if b0 = 0xE0 then 0xA0 \<le> b1 \<and> b1 \<le> 0xBF
      else if b0 = 0xED then 0x80 \<le> b1 \<and> b1 \<le> 0x9F
      else if b0 = 0xF0 then 0x90 \<le> b1 \<and> b1 \<le> 0xBF
      else if b0 = 0xF4 then 0x80 \<le> b1 \<and> b1 \<le> 0x8F
      else is_cont b1)"

fun utf8_step :: "u8 \<Rightarrow> bytes \<Rightarrow> bool \<times> nat" where
  "utf8_step b0 r =
     (if b0 < 0x80 then (True, 1)
      else if 0xC2 \<le> b0 \<and> b0 \<le> 0xDF then
        (case r of b1 # _ \<Rightarrow> if is_cont b1 then (True, 2) else (False, 1) | [] \<Rightarrow> (False, 1))
      else if 0xE0 \<le> b0 \<and> b0 \<le> 0xEF then
        (case r of
           b1 # r1 \<Rightarrow>
             if utf8_second b0 b1 then
               (case r1 of b2 # _ \<Rightarrow> if is_cont b2 then (True, 3) else (False, 2) | [] \<Rightarrow> (False, 2))
             else (False, 1)
         | [] \<Rightarrow> (False, 1))
      else if 0xF0 \<le> b0 \<and> b0 \<le> 0xF4 then
        (case r of
           b1 # r1 \<Rightarrow>
             if utf8_second b0 b1 then
               (case r1 of
                  b2 # r2 \<Rightarrow>
                    if is_cont b2 then
                      (case r2 of b3 # _ \<Rightarrow> if is_cont b3 then (True, 4) else (False, 3)
                       | [] \<Rightarrow> (False, 3))
                    else (False, 2)
                | [] \<Rightarrow> (False, 2))
             else (False, 1)
         | [] \<Rightarrow> (False, 1))
      else (False, 1))"

declare utf8_step.simps [simp del]

function utf8_valid :: "bytes \<Rightarrow> bool" where
  "utf8_valid [] = True"
| "utf8_valid (b # r) = (fst (utf8_step b r) \<and> utf8_valid (drop (snd (utf8_step b r) - 1) r))"
  by pat_completeness auto
termination
  by (relation "measure length") auto

function from_utf8_lossy :: "bytes \<Rightarrow> str" where
  "from_utf8_lossy [] = []"
| "from_utf8_lossy (b # r) =
     (let n = snd (utf8_step b r) - 1 in
      if fst (utf8_step b r) then b # take n r @ from_utf8_lossy (drop n r)
      else [0xEF, 0xBF, 0xBD] @ from_utf8_lossy (drop n r))"
  by pat_completeness auto
termination
  by (relation "measure length") auto

lemma utf8_valid_ascii: "\<forall>b \<in> set bs. b < 0x80 \<Longrightarrow> utf8_valid bs"
  by (induction bs) (auto simp: utf8_step.simps)

lemma from_utf8_lossy_valid: "utf8_valid bs \<Longrightarrow> from_utf8_lossy bs = bs"
  by (induction bs rule: utf8_valid.induct) (auto simp: Let_def)

end
