(* ===== verification/Constants.thy ===== *)
theory Constants
  imports Bytes
begin

text \<open>
  The numeric constants of \<^verbatim>\<open>src/macho/constants.rs\<close> the modelled code uses, the CPU-subtype
  predicate, and the reader's error type \<^verbatim>\<open>ReadError\<close> of \<^verbatim>\<open>src/macho/reader.rs\<close>. The error
  payloads are kept: sizes and offsets as numbers, the static context strings as text.
\<close>

datatype read_error =
    Truncated (need: nat) (have_bytes: nat) (ctxt: string)
  | BadMagic u32
  | UnsupportedCpu u32
  | UnsupportedCpuSubtype u32
  | UnexpectedFiletype (got: u32) (expected: u32)
  | BadDylibIdentity string
  | BadCmdsize (err_cmd: u32) (err_cmdsize: u32) (at_offset: nat) (reason: string)
  | BadRelocation u32 string

type_synonym 'a read = "(read_error, 'a) result"

section \<open>Header constants\<close>

abbreviation (input) MH_MAGIC_64 :: u32 where "MH_MAGIC_64 \<equiv> 0xFEEDFACF"
abbreviation (input) CPU_TYPE_ARM64 :: u32 where "CPU_TYPE_ARM64 \<equiv> 0x0100000C"
abbreviation (input) CPU_SUBTYPE_MASK :: u32 where "CPU_SUBTYPE_MASK \<equiv> 0xFF000000"
abbreviation (input) CPU_SUBTYPE_LIB64 :: u32 where "CPU_SUBTYPE_LIB64 \<equiv> 0x80000000"
abbreviation (input) CPU_SUBTYPE_ARM64_ALL :: u32 where "CPU_SUBTYPE_ARM64_ALL \<equiv> 0"
abbreviation (input) CPU_SUBTYPE_ARM64_V8 :: u32 where "CPU_SUBTYPE_ARM64_V8 \<equiv> 1"
abbreviation (input) CPU_SUBTYPE_ARM64E :: u32 where "CPU_SUBTYPE_ARM64E \<equiv> 2"

definition CPU_SUBTYPE_ARM64E_CAPABILITY_MASK :: u32 where
  "CPU_SUBTYPE_ARM64E_CAPABILITY_MASK = 0x80000000 OR 0x40000000 OR 0x0F000000"

definition is_supported_arm64_cpu_subtype :: "u32 \<Rightarrow> bool" where
  "is_supported_arm64_cpu_subtype cpu_subtype =
     (let base = cpu_subtype AND NOT CPU_SUBTYPE_MASK;
          capabilities = cpu_subtype AND CPU_SUBTYPE_MASK
      in if base = CPU_SUBTYPE_ARM64_ALL \<or> base = CPU_SUBTYPE_ARM64_V8 then
           capabilities = 0 \<or> capabilities = CPU_SUBTYPE_LIB64
         else if base = CPU_SUBTYPE_ARM64E then
           capabilities AND NOT CPU_SUBTYPE_ARM64E_CAPABILITY_MASK = 0
         else False)"

abbreviation (input) MH_OBJECT :: u32 where "MH_OBJECT \<equiv> 1"
abbreviation (input) MH_EXECUTE :: u32 where "MH_EXECUTE \<equiv> 2"
abbreviation (input) MH_DYLIB :: u32 where "MH_DYLIB \<equiv> 6"

section \<open>Load commands\<close>

abbreviation (input) LC_SEGMENT_64 :: u32 where "LC_SEGMENT_64 \<equiv> 0x19"
abbreviation (input) LC_SYMTAB :: u32 where "LC_SYMTAB \<equiv> 0x02"
abbreviation (input) LC_DYSYMTAB :: u32 where "LC_DYSYMTAB \<equiv> 0x0B"
abbreviation (input) LC_LOAD_DYLIB :: u32 where "LC_LOAD_DYLIB \<equiv> 0x0C"
abbreviation (input) LC_ID_DYLIB :: u32 where "LC_ID_DYLIB \<equiv> 0x0D"
abbreviation (input) LC_LOAD_WEAK_DYLIB :: u32 where "LC_LOAD_WEAK_DYLIB \<equiv> 0x80000018"
abbreviation (input) LC_REEXPORT_DYLIB :: u32 where "LC_REEXPORT_DYLIB \<equiv> 0x8000001F"
abbreviation (input) LC_RPATH :: u32 where "LC_RPATH \<equiv> 0x8000001C"
abbreviation (input) LC_LINKER_OPTIMIZATION_HINT :: u32 where "LC_LINKER_OPTIMIZATION_HINT \<equiv> 0x2E"
abbreviation (input) LC_BUILD_VERSION :: u32 where "LC_BUILD_VERSION \<equiv> 0x32"
abbreviation (input) LC_DYLD_INFO_ONLY :: u32 where "LC_DYLD_INFO_ONLY \<equiv> 0x80000022"
abbreviation (input) LC_DYLD_CHAINED_FIXUPS :: u32 where "LC_DYLD_CHAINED_FIXUPS \<equiv> 0x80000034"
abbreviation (input) LC_DYLD_EXPORTS_TRIE :: u32 where "LC_DYLD_EXPORTS_TRIE \<equiv> 0x80000033"
abbreviation (input) LC_LOAD_UPWARD_DYLIB :: u32 where "LC_LOAD_UPWARD_DYLIB \<equiv> 0x80000023"

section \<open>Section types and attributes\<close>

abbreviation (input) SECTION_TYPE_MASK :: u32 where "SECTION_TYPE_MASK \<equiv> 0xff"
abbreviation (input) S_REGULAR :: u32 where "S_REGULAR \<equiv> 0x0"
abbreviation (input) S_ZEROFILL :: u32 where "S_ZEROFILL \<equiv> 0x1"
abbreviation (input) S_CSTRING_LITERALS :: u32 where "S_CSTRING_LITERALS \<equiv> 0x2"
abbreviation (input) S_4BYTE_LITERALS :: u32 where "S_4BYTE_LITERALS \<equiv> 0x3"
abbreviation (input) S_8BYTE_LITERALS :: u32 where "S_8BYTE_LITERALS \<equiv> 0x4"
abbreviation (input) S_NON_LAZY_SYMBOL_POINTERS :: u32 where "S_NON_LAZY_SYMBOL_POINTERS \<equiv> 0x6"
abbreviation (input) S_LAZY_SYMBOL_POINTERS :: u32 where "S_LAZY_SYMBOL_POINTERS \<equiv> 0x7"
abbreviation (input) S_SYMBOL_STUBS :: u32 where "S_SYMBOL_STUBS \<equiv> 0x8"
abbreviation (input) S_MOD_INIT_FUNC_POINTERS :: u32 where "S_MOD_INIT_FUNC_POINTERS \<equiv> 0x9"
abbreviation (input) S_MOD_TERM_FUNC_POINTERS :: u32 where "S_MOD_TERM_FUNC_POINTERS \<equiv> 0xA"
abbreviation (input) S_COALESCED :: u32 where "S_COALESCED \<equiv> 0xB"
abbreviation (input) S_GB_ZEROFILL :: u32 where "S_GB_ZEROFILL \<equiv> 0xC"
abbreviation (input) S_16BYTE_LITERALS :: u32 where "S_16BYTE_LITERALS \<equiv> 0xE"
abbreviation (input) S_THREAD_LOCAL_REGULAR :: u32 where "S_THREAD_LOCAL_REGULAR \<equiv> 0x11"
abbreviation (input) S_THREAD_LOCAL_ZEROFILL :: u32 where "S_THREAD_LOCAL_ZEROFILL \<equiv> 0x12"
abbreviation (input) S_THREAD_LOCAL_VARIABLES :: u32 where "S_THREAD_LOCAL_VARIABLES \<equiv> 0x13"
abbreviation (input) S_THREAD_LOCAL_VARIABLE_POINTERS :: u32
  where "S_THREAD_LOCAL_VARIABLE_POINTERS \<equiv> 0x14"
abbreviation (input) S_THREAD_LOCAL_INIT_FUNCTION_POINTERS :: u32
  where "S_THREAD_LOCAL_INIT_FUNCTION_POINTERS \<equiv> 0x15"
abbreviation (input) S_ATTR_PURE_INSTRUCTIONS :: u32 where "S_ATTR_PURE_INSTRUCTIONS \<equiv> 0x80000000"
abbreviation (input) S_ATTR_NO_DEAD_STRIP :: u32 where "S_ATTR_NO_DEAD_STRIP \<equiv> 0x10000000"
abbreviation (input) S_ATTR_LIVE_SUPPORT :: u32 where "S_ATTR_LIVE_SUPPORT \<equiv> 0x08000000"
abbreviation (input) S_ATTR_DEBUG :: u32 where "S_ATTR_DEBUG \<equiv> 0x02000000"
abbreviation (input) S_ATTR_EXT_RELOC :: u32 where "S_ATTR_EXT_RELOC \<equiv> 0x00000200"
abbreviation (input) S_ATTR_LOC_RELOC :: u32 where "S_ATTR_LOC_RELOC \<equiv> 0x00000100"

section \<open>Symbol table entries\<close>

abbreviation (input) N_STAB :: u8 where "N_STAB \<equiv> 0xe0"
abbreviation (input) N_PEXT :: u8 where "N_PEXT \<equiv> 0x10"
abbreviation (input) N_TYPE :: u8 where "N_TYPE \<equiv> 0x0e"
abbreviation (input) N_EXT :: u8 where "N_EXT \<equiv> 0x01"
abbreviation (input) N_UNDF :: u8 where "N_UNDF \<equiv> 0x0"
abbreviation (input) N_ABS :: u8 where "N_ABS \<equiv> 0x2"
abbreviation (input) N_SECT :: u8 where "N_SECT \<equiv> 0xe"
abbreviation (input) N_INDR :: u8 where "N_INDR \<equiv> 0xa"
abbreviation (input) MAX_LIBRARY_ORDINAL :: u16 where "MAX_LIBRARY_ORDINAL \<equiv> 0xfd"
abbreviation (input) N_NO_DEAD_STRIP :: u16 where "N_NO_DEAD_STRIP \<equiv> 0x0020"
abbreviation (input) N_WEAK_REF :: u16 where "N_WEAK_REF \<equiv> 0x0040"
abbreviation (input) N_WEAK_DEF :: u16 where "N_WEAK_DEF \<equiv> 0x0080"
abbreviation (input) N_ALT_ENTRY :: u16 where "N_ALT_ENTRY \<equiv> 0x0200"

section \<open>Relocation types\<close>

abbreviation (input) ARM64_RELOC_UNSIGNED :: u8 where "ARM64_RELOC_UNSIGNED \<equiv> 0"
abbreviation (input) ARM64_RELOC_SUBTRACTOR :: u8 where "ARM64_RELOC_SUBTRACTOR \<equiv> 1"
abbreviation (input) ARM64_RELOC_BRANCH26 :: u8 where "ARM64_RELOC_BRANCH26 \<equiv> 2"
abbreviation (input) ARM64_RELOC_PAGE21 :: u8 where "ARM64_RELOC_PAGE21 \<equiv> 3"
abbreviation (input) ARM64_RELOC_PAGEOFF12 :: u8 where "ARM64_RELOC_PAGEOFF12 \<equiv> 4"
abbreviation (input) ARM64_RELOC_GOT_LOAD_PAGE21 :: u8 where "ARM64_RELOC_GOT_LOAD_PAGE21 \<equiv> 5"
abbreviation (input) ARM64_RELOC_GOT_LOAD_PAGEOFF12 :: u8 where "ARM64_RELOC_GOT_LOAD_PAGEOFF12 \<equiv> 6"
abbreviation (input) ARM64_RELOC_POINTER_TO_GOT :: u8 where "ARM64_RELOC_POINTER_TO_GOT \<equiv> 7"
abbreviation (input) ARM64_RELOC_TLVP_LOAD_PAGE21 :: u8 where "ARM64_RELOC_TLVP_LOAD_PAGE21 \<equiv> 8"
abbreviation (input) ARM64_RELOC_TLVP_LOAD_PAGEOFF12 :: u8 where "ARM64_RELOC_TLVP_LOAD_PAGEOFF12 \<equiv> 9"
abbreviation (input) ARM64_RELOC_ADDEND :: u8 where "ARM64_RELOC_ADDEND \<equiv> 10"

section \<open>Export trie flags and dyld opcodes\<close>

abbreviation (input) EXPORT_SYMBOL_FLAGS_KIND_MASK :: u64 where "EXPORT_SYMBOL_FLAGS_KIND_MASK \<equiv> 0x03"
abbreviation (input) EXPORT_SYMBOL_FLAGS_KIND_THREAD_LOCAL :: u64
  where "EXPORT_SYMBOL_FLAGS_KIND_THREAD_LOCAL \<equiv> 0x01"
abbreviation (input) EXPORT_SYMBOL_FLAGS_KIND_ABSOLUTE :: u64
  where "EXPORT_SYMBOL_FLAGS_KIND_ABSOLUTE \<equiv> 0x02"
abbreviation (input) EXPORT_SYMBOL_FLAGS_WEAK_DEFINITION :: u64
  where "EXPORT_SYMBOL_FLAGS_WEAK_DEFINITION \<equiv> 0x04"
abbreviation (input) EXPORT_SYMBOL_FLAGS_REEXPORT :: u64 where "EXPORT_SYMBOL_FLAGS_REEXPORT \<equiv> 0x08"
abbreviation (input) EXPORT_SYMBOL_FLAGS_STUB_AND_RESOLVER :: u64
  where "EXPORT_SYMBOL_FLAGS_STUB_AND_RESOLVER \<equiv> 0x10"

abbreviation (input) REBASE_IMMEDIATE_MASK :: u8 where "REBASE_IMMEDIATE_MASK \<equiv> 0x0F"
abbreviation (input) REBASE_OPCODE_DO_REBASE_IMM_TIMES :: u8
  where "REBASE_OPCODE_DO_REBASE_IMM_TIMES \<equiv> 0x50"
abbreviation (input) REBASE_OPCODE_DO_REBASE_ULEB_TIMES :: u8
  where "REBASE_OPCODE_DO_REBASE_ULEB_TIMES \<equiv> 0x60"

abbreviation (input) BIND_TYPE_POINTER :: u8 where "BIND_TYPE_POINTER \<equiv> 1"
abbreviation (input) BIND_SYMBOL_FLAGS_WEAK_IMPORT :: u8 where "BIND_SYMBOL_FLAGS_WEAK_IMPORT \<equiv> 0x1"
abbreviation (input) BIND_OPCODE_MASK :: u8 where "BIND_OPCODE_MASK \<equiv> 0xF0"
abbreviation (input) BIND_IMMEDIATE_MASK :: u8 where "BIND_IMMEDIATE_MASK \<equiv> 0x0F"
abbreviation (input) BIND_OPCODE_DONE :: u8 where "BIND_OPCODE_DONE \<equiv> 0x00"
abbreviation (input) BIND_OPCODE_SET_DYLIB_ORDINAL_IMM :: u8
  where "BIND_OPCODE_SET_DYLIB_ORDINAL_IMM \<equiv> 0x10"
abbreviation (input) BIND_OPCODE_SET_DYLIB_ORDINAL_ULEB :: u8
  where "BIND_OPCODE_SET_DYLIB_ORDINAL_ULEB \<equiv> 0x20"
abbreviation (input) BIND_OPCODE_SET_DYLIB_SPECIAL_IMM :: u8
  where "BIND_OPCODE_SET_DYLIB_SPECIAL_IMM \<equiv> 0x30"
abbreviation (input) BIND_OPCODE_SET_SYMBOL_TRAILING_FLAGS_IMM :: u8
  where "BIND_OPCODE_SET_SYMBOL_TRAILING_FLAGS_IMM \<equiv> 0x40"
abbreviation (input) BIND_OPCODE_SET_TYPE_IMM :: u8 where "BIND_OPCODE_SET_TYPE_IMM \<equiv> 0x50"
abbreviation (input) BIND_OPCODE_SET_ADDEND_SLEB :: u8 where "BIND_OPCODE_SET_ADDEND_SLEB \<equiv> 0x60"
abbreviation (input) BIND_OPCODE_SET_SEGMENT_AND_OFFSET_ULEB :: u8
  where "BIND_OPCODE_SET_SEGMENT_AND_OFFSET_ULEB \<equiv> 0x70"
abbreviation (input) BIND_OPCODE_ADD_ADDR_ULEB :: u8 where "BIND_OPCODE_ADD_ADDR_ULEB \<equiv> 0x80"
abbreviation (input) BIND_OPCODE_DO_BIND :: u8 where "BIND_OPCODE_DO_BIND \<equiv> 0x90"
abbreviation (input) BIND_OPCODE_DO_BIND_ULEB_TIMES_SKIPPING_ULEB :: u8
  where "BIND_OPCODE_DO_BIND_ULEB_TIMES_SKIPPING_ULEB \<equiv> 0xC0"

end
