(* ===== verification/Leb.thy ===== *)
theory Leb
  imports Constants
begin

text \<open>
  The ULEB128 / SLEB128 codec of \<^verbatim>\<open>src/leb.rs\<close>. The two decoders are loops over the buffer that
  carry the accumulated value and the shift; the two encoders loop until the remaining value is
  exhausted (their termination is proved). Both pairs are interpreted as a \<open>prefix_codec\<close>, which
  is what the export trie and the opcode streams rely on.
\<close>

section \<open>Decoders\<close>

fun read_uleb_loop :: "nat \<Rightarrow> nat \<Rightarrow> nat \<Rightarrow> u64 \<Rightarrow> bytes \<Rightarrow> (u64 \<times> nat) read" where
  "read_uleb_loop n i shift value [] = Err (Truncated (n + 1) n ''ULEB128 (unterminated)'')"
| "read_uleb_loop n i shift value (b # bs) =
     (if 64 \<le> shift then Err (BadRelocation 0 ''ULEB128 overflows u64'')
      else
        let value' = value OR push_bit shift (ucast (b AND 0x7f)) in
        if b AND 0x80 = 0 then Ok (value', i + 1)
        else read_uleb_loop n (i + 1) (shift + 7) value' bs)"

definition read_uleb :: "bytes \<Rightarrow> (u64 \<times> nat) read" where
  "read_uleb bs = read_uleb_loop (length bs) 0 0 0 bs"

fun read_sleb_loop :: "nat \<Rightarrow> nat \<Rightarrow> nat \<Rightarrow> i64 \<Rightarrow> bytes \<Rightarrow> (i64 \<times> nat) read" where
  "read_sleb_loop n i shift value [] = Err (Truncated (n + 1) n ''SLEB128 (unterminated)'')"
| "read_sleb_loop n i shift value (b # bs) =
     (if 64 \<le> shift then Err (BadRelocation 0 ''SLEB128 overflows i64'')
      else
        let value' = value OR push_bit shift (ucast (b AND 0x7f));
            shift' = shift + 7 in
        if b AND 0x80 = 0 then
          Ok (if shift' < 64 \<and> b AND 0x40 \<noteq> 0 then value' OR push_bit shift' (NOT 0) else value',
              i + 1)
        else read_sleb_loop n (i + 1) shift' value' bs)"

definition read_sleb :: "bytes \<Rightarrow> (i64 \<times> nat) read" where
  "read_sleb bs = read_sleb_loop (length bs) 0 0 0 bs"

section \<open>Bit facts about one group of seven\<close>

lemma and_7f: "(w :: 'a::len word) AND 0x7f = take_bit 7 w"
  by (simp add: take_bit_eq_mask mask_eq_exp_minus_1)

lemma and_80: "(b :: u8) AND 0x80 = 0 \<longleftrightarrow> \<not> bit b 7"
  using bit_iff_and_push_bit_not_eq_0 [of b 7] by simp

lemma and_40: "(b :: u8) AND 0x40 = 0 \<longleftrightarrow> \<not> bit b 6"
  using bit_iff_and_push_bit_not_eq_0 [of b 6] by simp

lemma bit_80: "bit (0x80 :: u8) n \<longleftrightarrow> n = 7"
  using bit_push_bit_iff [of 7 "1 :: u8" n] by (auto simp: bit_simps)

lemma group_bits:
  fixes v :: u64
  shows "bit (ucast (v AND 0x7f) :: u8) n \<longleftrightarrow> n < 7 \<and> bit v n"
    and "ucast ((ucast (v AND 0x7f) :: u8) AND 0x7f) = (v AND 0x7f)"
    and "ucast (((ucast (v AND 0x7f) :: u8) OR 0x80) AND 0x7f) = (v AND 0x7f)"
    and "((ucast (v AND 0x7f) :: u8) OR 0x80) AND 0x80 \<noteq> 0"
    and "(ucast (v AND 0x7f) :: u8) AND 0x80 = 0"
  by (auto simp: and_7f and_80 bit_80 bit_simps intro!: bit_word_eqI)

lemma sint_next: "sint (signed_drop_bit 7 (v :: i64)) = sint v div 128"
  by (simp add: sint_signed_drop_bit_eq drop_bit_eq_div)

lemma group_sign: "(ucast ((v :: i64) AND 0x7f) :: u8) AND 0x40 \<noteq> 0 \<longleftrightarrow> odd (sint v div 64)"
proof -
  have "(ucast (v AND 0x7f) :: u8) AND 0x40 \<noteq> 0 \<longleftrightarrow> bit v 6"
    by (simp add: and_40 group_bits)
  also have "\<dots> \<longleftrightarrow> bit (sint v) 6" by (simp add: bit_sint_iff)
  finally show ?thesis by (simp add: bit_iff_odd)
qed

lemma next_cases:
  fixes v :: i64
  shows "signed_drop_bit 7 v = 0 \<longleftrightarrow> 0 \<le> sint v \<and> sint v < 128"
    and "signed_drop_bit 7 v = - 1 \<longleftrightarrow> - 128 \<le> sint v \<and> sint v < 0"
proof -
  have "signed_drop_bit 7 v = 0 \<longleftrightarrow> sint v div 128 = 0"
    by (metis sint_next signed_0 signed_word_eqI)
  then show "signed_drop_bit 7 v = 0 \<longleftrightarrow> 0 \<le> sint v \<and> sint v < 128" by presburger
  have "signed_drop_bit 7 v = - 1 \<longleftrightarrow> sint v div 128 = - 1"
    by (metis sint_next signed_minus_1 signed_word_eqI)
  then show "signed_drop_bit 7 v = - 1 \<longleftrightarrow> - 128 \<le> sint v \<and> sint v < 0" by presburger
qed

lemma div128_shrinks:
  fixes k :: int
  assumes "\<not> (- 64 \<le> k \<and> k < 64)"
  shows "\<bar>k div 128\<bar> < \<bar>k\<bar>"
proof -
  define q where "q = k div 128"
  have "128 * q \<le> k" and "k < 128 * q + 128" unfolding q_def by presburger+
  with assms show ?thesis unfolding q_def [symmetric] by linarith
qed

lemma sleb_finished:
  fixes v :: i64
  shows "(signed_drop_bit 7 v = 0 \<and> \<not> (ucast (v AND 0x7f) :: u8) AND 0x40 \<noteq> 0
        \<or> signed_drop_bit 7 v = - 1 \<and> (ucast (v AND 0x7f) :: u8) AND 0x40 \<noteq> 0)
    \<longleftrightarrow> - 64 \<le> sint v \<and> sint v < 64"
  unfolding group_sign next_cases by presburger

section \<open>Encoders\<close>

function write_uleb :: "u64 \<Rightarrow> bytes" where
  "write_uleb value =
     (let byte = ucast (value AND 0x7f); value' = drop_bit 7 value in
      if value' = 0 then [byte] else (byte OR 0x80) # write_uleb value')"
  by pat_completeness auto
termination
proof (relation "measure unat")
  fix v :: u64 and byte :: u8 and v'
  assume v': "v' = drop_bit 7 v" and "v' \<noteq> 0"
  then have "unat v \<noteq> 0" by (metis drop_bit_of_0 unat_eq_zero)
  moreover have "unat v' = unat v div 128"
    by (simp add: v' drop_bit_eq_div unat_div_distrib)
  ultimately show "(v', v) \<in> measure unat" by simp
qed simp

declare write_uleb.simps [simp del]

function write_sleb :: "i64 \<Rightarrow> bytes" where
  "write_sleb value =
     (let byte = ucast (value AND 0x7f) :: u8;
          next = signed_drop_bit 7 value;
          sign_bit = (byte AND 0x40 \<noteq> 0);
          finished = (next = 0 \<and> \<not> sign_bit \<or> next = - 1 \<and> sign_bit) in
      if finished then [byte] else (byte OR 0x80) # write_sleb next)"
  by pat_completeness auto
termination
proof (relation "measure (\<lambda>v. nat \<bar>sint v\<bar>)")
  fix v :: i64 and byte :: u8 and v' sb fin
  assume h: "byte = ucast (v AND 0x7f)" "v' = signed_drop_bit 7 v" "sb = (byte AND 0x40 \<noteq> 0)"
    "fin = (v' = 0 \<and> \<not> sb \<or> v' = - 1 \<and> sb)" "\<not> fin"
  from h(5) have "\<not> (- 64 \<le> sint v \<and> sint v < 64)"
    unfolding h(4) h(3) h(2) h(1) sleb_finished .
  moreover have "sint v' = sint v div 128" unfolding h(2) by (rule sint_next)
  ultimately have "\<bar>sint v'\<bar> < \<bar>sint v\<bar>" using div128_shrinks by metis
  then show "(v', v) \<in> measure (\<lambda>v. nat \<bar>sint v\<bar>)" by simp
qed simp

declare write_sleb.simps [simp del]

section \<open>Round trips\<close>

lemma write_uleb_last: "drop_bit 7 v = 0 \<Longrightarrow> write_uleb v = [ucast (v AND 0x7f)]"
  by (subst write_uleb.simps) (simp add: Let_def)

lemma write_uleb_step:
  "drop_bit 7 v \<noteq> 0 \<Longrightarrow> write_uleb v = (ucast (v AND 0x7f) OR 0x80) # write_uleb (drop_bit 7 v)"
  by (subst write_uleb.simps) (simp add: Let_def)

lemma write_uleb_nonempty: "write_uleb v \<noteq> []"
  by (subst write_uleb.simps) (simp add: Let_def)

lemma join_group:
  "(acc OR push_bit s (v AND 0x7f)) OR push_bit (s + 7) (drop_bit 7 v) = acc OR push_bit s (v :: u64)"
proof (rule bit_word_eqI)
  fix n
  have "\<not> n < s + 7 \<Longrightarrow> 7 + (n - (s + 7)) = n - s" by simp
  then show "bit ((acc OR push_bit s (v AND 0x7f)) OR push_bit (s + 7) (drop_bit 7 v)) n
      = bit (acc OR push_bit s v) n"
    by (cases "n < s + 7") (auto simp: and_7f bit_simps)
qed

lemma high_bits_shift:
  fixes v :: u64
  assumes "drop_bit (64 - s) v = 0" and "drop_bit 7 v \<noteq> 0" and "s < 64"
  shows "s + 7 < 64" and "drop_bit (64 - (s + 7)) (drop_bit 7 v) = 0"
proof -
  have "\<not> 64 - s \<le> 7"
  proof
    assume "64 - s \<le> 7"
    then have "drop_bit 7 v = drop_bit (7 - (64 - s)) (drop_bit (64 - s) v)" by simp
    with assms(1,2) show False by simp
  qed
  then show "s + 7 < 64" by simp
  then have "64 - (s + 7) + 7 = 64 - s" by simp
  then show "drop_bit (64 - (s + 7)) (drop_bit 7 v) = 0"
    using assms(1) by simp
qed

lemma read_write_uleb_loop:
  "s < 64 \<Longrightarrow> drop_bit (64 - s) v = 0 \<Longrightarrow>
   read_uleb_loop n i s acc (write_uleb v @ rest) = Ok (acc OR push_bit s v, i + length (write_uleb v))"
proof (induction v arbitrary: s acc i rule: write_uleb.induct)
  case (1 v)
  show ?case
  proof (cases "drop_bit 7 v = 0")
    case True
    then show ?thesis
      using 1 join_group [of acc s v] by (simp add: write_uleb_last group_bits Let_def)
  next
    case False
    note step = high_bits_shift [OF "1.prems"(2) False "1.prems"(1)]
    have "read_uleb_loop n (i + 1) (s + 7) (acc OR push_bit s (v AND 0x7f)) (write_uleb (drop_bit 7 v) @ rest)
        = Ok ((acc OR push_bit s (v AND 0x7f)) OR push_bit (s + 7) (drop_bit 7 v),
              i + 1 + length (write_uleb (drop_bit 7 v)))"
      by (rule "1.IH" [OF refl refl False step])
    then show ?thesis
      using "1.prems" False join_group [of acc s v]
      by (simp add: write_uleb_step group_bits Let_def)
  qed
qed

lemma read_write_uleb: "read_uleb (write_uleb v @ rest) = Ok (v, length (write_uleb v))"
  by (simp add: read_uleb_def read_write_uleb_loop)

interpretation uleb: prefix_codec write_uleb read_uleb
  by unfold_locales (simp_all add: read_write_uleb write_uleb_nonempty)

lemma write_sleb_unfold:
  "write_sleb v =
     (if - 64 \<le> sint v \<and> sint v < 64 then [ucast (v AND 0x7f)]
      else (ucast (v AND 0x7f) OR 0x80) # write_sleb (signed_drop_bit 7 v))"
  unfolding write_sleb.simps [of v] Let_def sleb_finished ..

lemma write_sleb_last:
  "- 64 \<le> sint v \<Longrightarrow> sint v < 64 \<Longrightarrow> write_sleb v = [ucast (v AND 0x7f)]"
  by (simp add: write_sleb_unfold [of v])

lemma write_sleb_step:
  "\<not> (- 64 \<le> sint v \<and> sint v < 64) \<Longrightarrow>
   write_sleb v = (ucast (v AND 0x7f) OR 0x80) # write_sleb (signed_drop_bit 7 v)"
  by (subst write_sleb_unfold) (simp only: if_False)

lemma write_sleb_nonempty: "write_sleb v \<noteq> []"
  by (subst write_sleb.simps) (simp add: Let_def)

text \<open>A value in the range of the remaining bits: after \<open>s\<close> bits were consumed, 64 - s are left.\<close>

definition sleb_fits :: "nat \<Rightarrow> i64 \<Rightarrow> bool" where
  "sleb_fits s v \<longleftrightarrow> s < 64 \<and> - (2 ^ (63 - s)) \<le> sint v \<and> sint v < 2 ^ (63 - s)"

lemma sleb_fits_0: "sleb_fits 0 v"
  using sint_greater_eq [of v] sint_less [of v] by (simp add: sleb_fits_def)

lemma sleb_fits_step:
  assumes "sleb_fits s v" and "\<not> (- 64 \<le> sint v \<and> sint v < 64)"
  shows "sleb_fits (s + 7) (signed_drop_bit 7 v)"
proof -
  have "6 < 63 - s"
  proof (rule ccontr)
    assume "\<not> 6 < 63 - s"
    then have "(2::int) ^ (63 - s) \<le> 2 ^ 6" by (intro power_increasing) auto
    with assms show False by (auto simp: sleb_fits_def)
  qed
  then have s: "s + 7 < 64" and "63 - s = (63 - (s + 7)) + 7" by simp_all
  then have e: "(2::int) ^ (63 - s) = 2 ^ (63 - (s + 7)) * 128"
    by (simp only: power_add) simp
  from assms(1) have "- (2 ^ (63 - (s + 7)) * 128) \<le> sint v" "sint v < 2 ^ (63 - (s + 7)) * 128"
    by (simp_all add: sleb_fits_def e)
  then have "- (2 ^ (63 - (s + 7))) \<le> sint v div 128 \<and> sint v div 128 < 2 ^ (63 - (s + 7))"
    by linarith
  with s show ?thesis by (simp add: sleb_fits_def sint_next)
qed

lemma bit_small_signed:
  fixes v :: i64
  assumes "- 64 \<le> sint v" and "sint v < 64" and "7 \<le> n" and "n < 64"
  shows "bit v n \<longleftrightarrow> bit v 6"
proof -
  have "\<not> 58 \<le> n - 6" using assms by simp
  then have "bit v n = bit (signed_drop_bit 6 v) (n - 6)"
    using assms by (simp add: bit_signed_drop_bit_iff)
  moreover have q: "sint (signed_drop_bit 6 v) = sint v div 64"
    by (simp add: sint_signed_drop_bit_eq drop_bit_eq_div)
  have "sint v div 64 = 0 \<or> sint v div 64 = - 1" using assms(1,2) by presburger
  then have "signed_drop_bit 6 v = 0 \<or> signed_drop_bit 6 v = - 1"
    by (metis q signed_0 signed_minus_1 signed_word_eqI)
  moreover have "bit v 6 = bit (signed_drop_bit 6 v) 0"
    by (simp add: bit_signed_drop_bit_iff)
  ultimately show ?thesis using assms by auto
qed

lemma sleb_last_group:
  fixes v :: i64
  assumes "- 64 \<le> sint v" and "sint v < 64"
  shows "(if s + 7 < 64 \<and> bit v 6
          then (acc OR push_bit s (v AND 0x7f)) OR push_bit (s + 7) (NOT 0)
          else acc OR push_bit s (v AND 0x7f)) = acc OR push_bit s v"
proof (rule bit_word_eqI)
  fix n assume n: "n < LENGTH(64)"
  have "s + 7 \<le> n \<Longrightarrow> bit v (n - s) = bit v 6"
    using n by (intro bit_small_signed [OF assms]) auto
  with n show "bit (if s + 7 < 64 \<and> bit v 6
          then (acc OR push_bit s (v AND 0x7f)) OR push_bit (s + 7) (NOT 0)
          else acc OR push_bit s (v AND 0x7f)) n = bit (acc OR push_bit s v) n"
    by (cases "s + 7 \<le> n") (auto simp: and_7f bit_simps)
qed

lemma sleb_join_group:
  fixes v :: i64
  assumes "s + 7 < 64"
  shows "(acc OR push_bit s (v AND 0x7f)) OR push_bit (s + 7) (signed_drop_bit 7 v) = acc OR push_bit s v"
proof (rule bit_word_eqI)
  fix n assume "n < LENGTH(64)"
  moreover have "s + 7 \<le> n \<Longrightarrow> 7 + (n - (s + 7)) = n - s" by simp
  ultimately show "bit ((acc OR push_bit s (v AND 0x7f)) OR push_bit (s + 7) (signed_drop_bit 7 v)) n
      = bit (acc OR push_bit s v) n"
    using assms by (cases "s + 7 \<le> n") (auto simp: and_7f bit_simps)
qed

lemma read_write_sleb_loop:
  "sleb_fits s v \<Longrightarrow>
   read_sleb_loop n i s acc (write_sleb v @ rest) = Ok (acc OR push_bit s v, i + length (write_sleb v))"
proof (induction v arbitrary: s acc i rule: write_sleb.induct)
  case (1 v)
  then have s: "s < 64" by (simp add: sleb_fits_def)
  show ?case
  proof (cases "- 64 \<le> sint v \<and> sint v < 64")
    case True
    then show ?thesis
      using s sleb_last_group [of v s acc]
      by (cases "s + 7 < 64 \<and> bit v 6") (auto simp: write_sleb_last group_bits and_40 Let_def)
  next
    case False
    note fits = sleb_fits_step [OF "1.prems" False]
    have "read_sleb_loop n (i + 1) (s + 7) (acc OR push_bit s (v AND 0x7f))
          (write_sleb (signed_drop_bit 7 v) @ rest)
        = Ok ((acc OR push_bit s (v AND 0x7f)) OR push_bit (s + 7) (signed_drop_bit 7 v),
              i + 1 + length (write_sleb (signed_drop_bit 7 v)))"
      using False by (intro "1.IH" [OF refl refl refl refl _ fits]) (simp only: sleb_finished not_False_eq_True)
    moreover have "s + 7 < 64" using fits by (simp add: sleb_fits_def)
    ultimately show ?thesis
      using s False sleb_join_group [of s acc v]
      by (simp add: write_sleb_step group_bits Let_def)
  qed
qed

lemma read_write_sleb: "read_sleb (write_sleb v @ rest) = Ok (v, length (write_sleb v))"
  by (simp add: read_sleb_def read_write_sleb_loop sleb_fits_0)

interpretation sleb: prefix_codec write_sleb read_sleb
  by unfold_locales (simp_all add: read_write_sleb write_sleb_nonempty)

section \<open>Safety and bounds\<close>

lemma read_uleb_loop_safe: "safe (read_uleb_loop n i s acc bs)"
  by (induction bs arbitrary: i s acc) (auto simp: Let_def)

lemma read_uleb_safe [no_panic, simp]: "safe (read_uleb bs)"
  by (simp add: read_uleb_def read_uleb_loop_safe)

lemma read_sleb_loop_safe: "safe (read_sleb_loop n i s acc bs)"
  by (induction bs arbitrary: i s acc) (auto simp: Let_def)

lemma read_sleb_safe [no_panic, simp]: "safe (read_sleb bs)"
  by (simp add: read_sleb_def read_sleb_loop_safe)

lemma read_uleb_loop_consumed:
  "read_uleb_loop n i s acc bs = Ok (v, k) \<Longrightarrow> i < k \<and> k \<le> i + length bs \<and> 7 * (k - 1 - i) + s < 64"
proof (induction bs arbitrary: i s acc)
  case (Cons b bs)
  show ?case
  proof (cases "b AND 0x80 = 0")
    case True
    then show ?thesis using Cons.prems by (auto simp: Let_def split: if_splits)
  next
    case False
    with Cons.prems have "read_uleb_loop n (i + 1) (s + 7) (acc OR push_bit s (ucast (b AND 0x7f))) bs = Ok (v, k)"
      by (auto simp: Let_def split: if_splits)
    from Cons.IH [OF this] show ?thesis by auto
  qed
qed simp

text \<open>A decoded ULEB128 occupies between one and ten bytes of the buffer.\<close>

lemma read_uleb_consumed:
  assumes "read_uleb bs = Ok (v, k)"
  shows "0 < k" and "k \<le> length bs" and "k \<le> 10"
  using read_uleb_loop_consumed [of "length bs" 0 0 0 bs v k] assms
  by (auto simp: read_uleb_def)

lemma write_uleb_length_le: "length (write_uleb v) \<le> 10"
  using read_uleb_consumed(3) [of "write_uleb v" v "length (write_uleb v)"]
    read_write_uleb [of v "[]"] by simp

section \<open>Properties\<close>

text \<open>
  an unsigned LEB128 number written by \<^verbatim>\<open>write_uleb\<close> takes at most ten bytes and is read back by
  \<^verbatim>\<open>read_uleb\<close> for every 64-bit value, whatever bytes follow; a signed one written by \<^verbatim>\<open>write_sleb\<close> is
  read back by \<^verbatim>\<open>read_sleb\<close>.
\<close>

theorem leb_round_trip:
  "read_uleb (write_uleb u @ rest) = Ok (u, length (write_uleb u)) \<and> length (write_uleb u) \<le> 10
    \<and> read_sleb (write_sleb v @ rest) = Ok (v, length (write_sleb v))"
  by (simp add: read_write_uleb read_write_sleb write_uleb_length_le)

end
