(* ===== verification/Order.thy ===== *)
theory Order
  imports Prelude
begin

text \<open>
  \<^verbatim>\<open>std::cmp::Ordering\<close>, \<^verbatim>\<open>sort_by\<close> (a stable sort) and \<^verbatim>\<open>partition_point\<close> of the Rust
  standard library, and the contract \<open>comparator\<close> a comparison function must satisfy for the
  sorted result to mean anything.
\<close>

datatype ordering = Less | Equal | Greater

fun then_with :: "ordering \<Rightarrow> ordering \<Rightarrow> ordering" where
  "then_with Equal o2 = o2"
| "then_with o1 o2 = o1"

definition cmp :: "'a::linorder \<Rightarrow> 'a \<Rightarrow> ordering" where
  "cmp a b = (if a < b then Less else if a = b then Equal else Greater)"

text \<open>\<^verbatim>\<open>str::cmp\<close>: lexicographic order on bytes.\<close>

fun cmp_bytes :: "'a::linorder list \<Rightarrow> 'a list \<Rightarrow> ordering" where
  "cmp_bytes [] [] = Equal"
| "cmp_bytes [] (y # ys) = Less"
| "cmp_bytes (x # xs) [] = Greater"
| "cmp_bytes (x # xs) (y # ys) = then_with (cmp x y) (cmp_bytes xs ys)"

fun insert_by :: "('a \<Rightarrow> 'a \<Rightarrow> ordering) \<Rightarrow> 'a \<Rightarrow> 'a list \<Rightarrow> 'a list" where
  "insert_by c x [] = [x]"
| "insert_by c x (y # ys) = (if c x y = Greater then y # insert_by c x ys else x # y # ys)"

fun sort_by :: "('a \<Rightarrow> 'a \<Rightarrow> ordering) \<Rightarrow> 'a list \<Rightarrow> 'a list" where
  "sort_by c [] = []"
| "sort_by c (x # xs) = insert_by c x (sort_by c xs)"

definition sorted_by :: "('a \<Rightarrow> 'a \<Rightarrow> ordering) \<Rightarrow> 'a list \<Rightarrow> bool" where
  "sorted_by c = sorted_wrt (\<lambda>x y. c x y \<noteq> Greater)"

text \<open>
  The index of the first element that fails \<open>p\<close>. The library function is a binary search,
  specified for lists that \<open>p\<close> partitions.
\<close>

definition partition_point :: "('a \<Rightarrow> bool) \<Rightarrow> 'a list \<Rightarrow> nat" where
  "partition_point p xs = length (takeWhile p xs)"

lemma mset_insert_by [simp]: "mset (insert_by c x xs) = add_mset x (mset xs)"
  by (induction xs) auto

lemma mset_sort_by [simp]: "mset (sort_by c xs) = mset xs"
  by (induction xs) auto

lemma set_insert_by [simp]: "set (insert_by c x xs) = insert x (set xs)"
  by (induction xs) auto

lemma set_sort_by [simp]: "set (sort_by c xs) = set xs"
  by (induction xs) auto

lemma length_sort_by [simp]: "length (sort_by c xs) = length xs"
  by (metis mset_sort_by size_mset)

lemma distinct_sort_by [simp]: "distinct (sort_by c xs) = distinct xs"
  by (metis distinct_count_atmost_1 mset_sort_by set_sort_by)

lemma cmp_simps [simp]:
  "cmp a b = Equal \<longleftrightarrow> a = b" "cmp a b = Less \<longleftrightarrow> a < b" "cmp a b = Greater \<longleftrightarrow> b < a"
  by (auto simp: cmp_def)

lemma then_with_simps [simp]:
  "then_with a b = Equal \<longleftrightarrow> a = Equal \<and> b = Equal"
  "then_with a b = Less \<longleftrightarrow> a = Less \<or> a = Equal \<and> b = Less"
  "then_with a b = Greater \<longleftrightarrow> a = Greater \<or> a = Equal \<and> b = Greater"
  by (cases a; cases b; simp)+

locale comparator =
  fixes c :: "'a \<Rightarrow> 'a \<Rightarrow> ordering"
  assumes cmp_refl: "c x x = Equal"
    and cmp_flip: "c x y = Greater \<longleftrightarrow> c y x = Less"
    and cmp_trans: "c x y \<noteq> Greater \<Longrightarrow> c y z \<noteq> Greater \<Longrightarrow> c x z \<noteq> Greater"
begin

lemma cmp_total: "c x y = Greater \<Longrightarrow> c y x \<noteq> Greater"
  using cmp_flip by auto

lemma sorted_insert_by: "sorted_by c xs \<Longrightarrow> sorted_by c (insert_by c x xs)"
proof (induction xs)
  case (Cons y ys)
  then show ?case
    using cmp_total [of x y] cmp_trans [of x y]
    by (auto simp: sorted_by_def)
qed (simp add: sorted_by_def)

lemma sorted_sort_by: "sorted_by c (sort_by c xs)"
  by (induction xs) (simp_all add: sorted_insert_by, simp add: sorted_by_def)

text \<open>Stability: elements that compare equal keep their relative order.\<close>

lemma filter_insert_by:
  "(\<And>y. P y \<Longrightarrow> P x \<Longrightarrow> c x y = Equal) \<Longrightarrow>
   filter P (insert_by c x xs) = (if P x then x # filter P xs else filter P xs)"
proof (induction xs)
  case (Cons y ys)
  then show ?case by (cases "P x"; cases "P y") auto
qed simp

lemma sort_by_stable: "filter (\<lambda>y. c a y = Equal) (sort_by c xs) = filter (\<lambda>y. c a y = Equal) xs"
proof (induction xs)
  case (Cons x xs)
  have eq: "c x y = Equal" if "c a y = Equal" "c a x = Equal" for y
  proof -
    have "c x a \<noteq> Greater" and "c y a \<noteq> Greater"
      using that cmp_flip by (metis ordering.distinct(1))+
    then have "c x y \<noteq> Greater" and "c y x \<noteq> Greater"
      using cmp_trans [of x a y] cmp_trans [of y a x] that by auto
    then show ?thesis using cmp_flip ordering.exhaust by metis
  qed
  show ?case using filter_insert_by [of "\<lambda>y. c a y = Equal" x] eq Cons.IH by auto
qed simp

lemma Less_antimono:
  assumes "c y z = Less" and "c x y \<noteq> Greater"
  shows "c x z = Less"
proof (rule ccontr)
  assume "c x z \<noteq> Less"
  then have "c z x \<noteq> Greater" by (simp add: cmp_flip)
  then have "c z y \<noteq> Greater" using assms(2) by (rule cmp_trans)
  then show False using assms(1) by (simp add: cmp_flip)
qed

lemma dropWhile_not_Less:
  "sorted_by c xs \<Longrightarrow> \<forall>y \<in> set (dropWhile (\<lambda>y. c y x = Less) xs). c y x \<noteq> Less"
proof (induction xs)
  case (Cons y ys)
  from Cons.prems have s: "sorted_by c ys" and le: "\<forall>z \<in> set ys. c y z \<noteq> Greater"
    by (simp_all add: sorted_by_def)
  show ?case
  proof (cases "c y x = Less")
    case True
    then have "dropWhile (\<lambda>y. c y x = Less) (y # ys) = dropWhile (\<lambda>y. c y x = Less) ys" by simp
    then show ?thesis using Cons.IH [OF s] by (simp only:)
  next
    case False
    then have "\<forall>z \<in> set ys. c z x \<noteq> Less" using le Less_antimono by blast
    with False show ?thesis by simp
  qed
qed simp

lemma partition_point_split:
  assumes "sorted_by c xs"
  shows "\<forall>y \<in> set (take (partition_point (\<lambda>y. c y x = Less) xs) xs). c y x = Less"
    and "\<forall>y \<in> set (drop (partition_point (\<lambda>y. c y x = Less) xs) xs). c y x \<noteq> Less"
proof -
  let ?p = "\<lambda>y. c y x = Less"
  have "take (partition_point ?p xs) xs = takeWhile ?p xs"
    unfolding partition_point_def by (rule takeWhile_eq_take [symmetric])
  then show "\<forall>y \<in> set (take (partition_point ?p xs) xs). ?p y"
    by (metis set_takeWhileD)
  have "drop (partition_point ?p xs) xs = dropWhile ?p xs"
    unfolding partition_point_def by (rule dropWhile_eq_drop [symmetric])
  with dropWhile_not_Less [OF assms, of x] show "\<forall>y \<in> set (drop (partition_point ?p xs) xs). \<not> ?p y"
    by (simp only:)
qed

end

lemma cmp_bytes_Equal [simp]: "cmp_bytes xs ys = Equal \<longleftrightarrow> xs = ys"
  by (induction xs ys rule: cmp_bytes.induct) auto

lemma cmp_bytes_flip: "cmp_bytes xs ys = Greater \<longleftrightarrow> cmp_bytes ys xs = Less"
  by (induction xs ys rule: cmp_bytes.induct) auto

lemma cmp_bytes_trans:
  "cmp_bytes xs ys \<noteq> Greater \<Longrightarrow> cmp_bytes ys zs \<noteq> Greater \<Longrightarrow> cmp_bytes xs zs \<noteq> Greater"
proof (induction xs zs arbitrary: ys rule: cmp_bytes.induct)
  case (3 x xs)
  then show ?case by (cases ys) auto
next
  case (4 x xs z zs)
  then show ?case by (cases ys) auto
qed auto

interpretation name_order: comparator "cmp_bytes :: 'a::linorder list \<Rightarrow> 'a list \<Rightarrow> ordering"
proof (unfold_locales, goal_cases)
  case 1 show ?case by simp
next
  case 2 show ?case by (rule cmp_bytes_flip)
next
  case 3 then show ?case by (rule cmp_bytes_trans)
qed

end
