(* ===== verification/String_Table.thy ===== *)
theory String_Table
  imports Constants Order "HOL-Library.Sublist"
begin

text \<open>
  The Mach-O string table of \<^verbatim>\<open>src/string_table.rs\<close>: the reader (\<open>from_file\<close>, \<open>get\<close>) and
  the suffix-sharing builder (\<open>build_with_name_offsets\<close>, \<open>finish\<close>). The builder sorts the
  names by their reversed bytes with longer names first, so that a name which is a suffix of
  another one directly follows a name it is a suffix of; the offset of such a name points into
  the tail of the earlier one.
\<close>

section \<open>Reader\<close>

record string_table =
  raw :: bytes

definition from_file :: "bytes \<Rightarrow> u32 \<Rightarrow> u32 \<Rightarrow> string_table read" where
  "from_file file stroff strsize =
     (let start = unat stroff in
      rbind (ok_or (Truncated usize_max (length file) ''string table (stroff + strsize overflows)'')
               (checked_add start (unat strsize))) (\<lambda>end.
      if end > length file then Err (Truncated end (length file) ''string table'')
      else rbind (slice start end file) (\<lambda>bs. Ok \<lparr>raw = bs\<rparr>)))"

definition st_get :: "string_table \<Rightarrow> u32 \<Rightarrow> str read" where
  "st_get t strx =
     (let start = unat strx in
      if start \<ge> length (raw t) then Err (BadCmdsize 0 0 start ''strx out of bounds'')
      else
        rbind (slice start (length (raw t)) (raw t)) (\<lambda>tail.
        rbind (ok_or (BadCmdsize 0 0 start ''unterminated string (no null byte before end)'')
                 (position (\<lambda>b. b = 0) tail)) (\<lambda>n.
        rbind (slice start (start + n) (raw t)) (\<lambda>name.
        if utf8_valid name then Ok name
        else Err (BadCmdsize 0 0 start ''non-UTF-8 bytes in symbol name'')))))"

section \<open>Builder\<close>

record root_string =
  name :: str
  offset :: u32

text \<open>
  \<^verbatim>\<open>reverse_suffix_order\<close>: compare from the last byte; when one name runs out it is the greater
  one. The \<^verbatim>\<open>(None, None)\<close> arm compares the (then equal) names once more.
\<close>

fun rev_order :: "str \<Rightarrow> str \<Rightarrow> ordering \<Rightarrow> ordering" where
  "rev_order (a # l) (b # r) z = (case cmp a b of Equal \<Rightarrow> rev_order l r z | other \<Rightarrow> other)"
| "rev_order (a # l) [] z = Less"
| "rev_order [] (b # r) z = Greater"
| "rev_order [] [] z = z"

definition reverse_suffix_order :: "str \<Rightarrow> str \<Rightarrow> ordering" where
  "reverse_suffix_order lhs rhs = rev_order (rev lhs) (rev rhs) (cmp_bytes lhs rhs)"

definition ends_with :: "'a list \<Rightarrow> 'a list \<Rightarrow> bool" where
  "ends_with xs ys \<longleftrightarrow> length ys \<le> length xs \<and> drop (length xs - length ys) xs = ys"

definition find_suffix_offset :: "root_string list \<Rightarrow> str \<Rightarrow> u32 option" where
  "find_suffix_offset roots nm =
     (if nm = [] then Some 0
      else
        let insert_at = partition_point (\<lambda>r. reverse_suffix_order (name r) nm = Less) roots in
        if insert_at = 0 then None
        else if insert_at - 1 \<ge> length roots then None
        else
          let existing = roots ! (insert_at - 1) in
          if length (name existing) \<ge> length nm \<and> ends_with (name existing) nm
          then Some (offset existing + of_nat (length (name existing) - length nm))
          else None)"

text \<open>
  The emission loop shared by both builders: \<open>raw\<close> grows by every name that is not a suffix of
  the preceding root; every name is recorded with its offset.
\<close>

fun emit_names ::
  "(str \<times> 'k) list \<Rightarrow> bytes \<Rightarrow> root_string list \<Rightarrow> bytes \<times> ('k \<times> u32) list" where
  "emit_names [] rw roots = (rw, [])"
| "emit_names ((nm, k) # es) rw roots =
     (case find_suffix_offset roots nm of
        Some off \<Rightarrow> (let (rw', offs) = emit_names es rw roots in (rw', (k, off) # offs))
      | None \<Rightarrow>
          let off = of_nat (length rw);
              (rw', offs) = emit_names es (rw @ nm @ [0]) (roots @ [\<lparr>name = nm, offset = off\<rparr>])
          in (rw', (k, off) # offs))"

lemma pad_measure: "n mod 8 \<noteq> 0 \<Longrightarrow> (8 - Suc n mod 8) mod 8 < (8 - n mod 8) mod (8::nat)"
proof -
  assume "n mod 8 \<noteq> 0"
  moreover have "n mod 8 < 8" by simp
  ultimately have "n mod 8 \<in> {1, 2, 3, 4, 5, 6, 7}" by (simp, linarith)
  then show ?thesis by (auto simp: mod_Suc)
qed

function pad_to_8 :: "bytes \<Rightarrow> bytes" where
  "pad_to_8 rw = (if 8 dvd length rw then rw else pad_to_8 (rw @ [0]))"
  by pat_completeness auto
termination
  by (relation "measure (\<lambda>rw. (8 - length rw mod 8) mod 8)")
    (simp_all only: wf_measure in_measure length_append list.size add_Suc_right add_0_right
      dvd_eq_mod_eq_0 pad_measure not_False_eq_True)

declare pad_to_8.simps [simp del]

definition indexed_order :: "str \<times> nat \<Rightarrow> str \<times> nat \<Rightarrow> ordering" where
  "indexed_order l r = then_with (reverse_suffix_order (fst l) (fst r)) (cmp (snd l) (snd r))"

fun store_offsets :: "(nat \<times> u32) list \<Rightarrow> u32 list \<Rightarrow> u32 list" where
  "store_offsets [] offs = offs"
| "store_offsets ((i, o') # es) offs = store_offsets es (offs[i := o'])"

definition build_with_name_offsets :: "str list \<Rightarrow> bytes \<times> u32 list" where
  "build_with_name_offsets names =
     (let entries = sort_by indexed_order (zip names [0..<length names]);
          (rw, offs) = emit_names entries [0] []
      in (pad_to_8 rw, store_offsets offs (replicate (length names) 0)))"

text \<open>
  \<open>finish\<close> consumes a builder whose \<^verbatim>\<open>offsets\<close> map has the inserted names as keys; the iteration
  order of the hash map is the parameter \<open>keys\<close> (any duplicate-free list).
\<close>

definition finish :: "str list \<Rightarrow> bytes \<times> (str \<rightharpoonup> u32)" where
  "finish keys =
     (let names = sort_by reverse_suffix_order keys;
          (rw, offs) = emit_names (zip names names) [0] []
      in (pad_to_8 rw, map_of offs))"

section \<open>The order\<close>

lemma rev_order_Equal: "rev_order l r z = Equal \<longleftrightarrow> l = r \<and> z = Equal"
  by (induction l r z rule: rev_order.induct) (auto split: ordering.splits simp: cmp_def)

lemma rev_order_cmp: "rev_order l r Equal = (if l = r then Equal else rev_order l r z)"
  by (induction l r z rule: rev_order.induct) (auto split: ordering.splits simp: cmp_def)

lemma reverse_suffix_order_eq: "reverse_suffix_order l r = rev_order (rev l) (rev r) Equal"
  unfolding reverse_suffix_order_def
  by (subst rev_order_cmp [where z = "cmp_bytes l r"]) (auto simp: rev_order_Equal)

lemma rev_order_flip: "rev_order l r Equal = Greater \<longleftrightarrow> rev_order r l Equal = Less"
  by (induction l r "Equal" rule: rev_order.induct) (auto split: ordering.splits simp: cmp_def)

lemma rev_order_trans:
  "rev_order l r Equal \<noteq> Greater \<Longrightarrow> rev_order r s Equal \<noteq> Greater \<Longrightarrow> rev_order l s Equal \<noteq> Greater"
proof (induction l arbitrary: r s)
  case Nil
  then show ?case by (cases r; cases s) auto
next
  case (Cons a l)
  then show ?case
    by (cases r; cases s) (auto split: ordering.splits if_splits simp: cmp_def)
qed

interpretation suffix_order: comparator reverse_suffix_order
proof (unfold_locales, goal_cases)
  case 1 show ?case by (simp add: reverse_suffix_order_eq rev_order_Equal)
next
  case 2 show ?case by (simp add: reverse_suffix_order_eq rev_order_flip)
next
  case 3 then show ?case unfolding reverse_suffix_order_eq by (rule rev_order_trans)
qed

lemma reverse_suffix_order_Equal [simp]: "reverse_suffix_order l r = Equal \<longleftrightarrow> l = r"
  by (simp add: reverse_suffix_order_eq rev_order_Equal)

lemma indexed_order_trans:
  assumes "indexed_order x y \<noteq> Greater" and "indexed_order y z \<noteq> Greater"
  shows "indexed_order x z \<noteq> Greater"
proof (cases "fst x = fst y \<or> fst y = fst z")
  case True
  then show ?thesis
    using assms suffix_order.cmp_refl by (auto simp: indexed_order_def)
next
  case False
  then have "reverse_suffix_order (fst x) (fst y) = Less" "reverse_suffix_order (fst y) (fst z) = Less"
    using assms
    by (cases "reverse_suffix_order (fst x) (fst y)"; cases "reverse_suffix_order (fst y) (fst z)";
        simp add: indexed_order_def)+
  then have "reverse_suffix_order (fst x) (fst z) = Less"
    by (metis ordering.distinct(3) suffix_order.Less_antimono)
  then show ?thesis by (simp add: indexed_order_def)
qed

interpretation indexed: comparator indexed_order
proof (unfold_locales, goal_cases)
  case 1 show ?case by (simp add: indexed_order_def suffix_order.cmp_refl)
next
  case 2 show ?case by (auto simp: indexed_order_def suffix_order.cmp_flip)
next
  case 3 then show ?case by (rule indexed_order_trans)
qed

section \<open>Every name is stored at its offset\<close>

definition stored_at :: "bytes \<Rightarrow> nat \<Rightarrow> str \<Rightarrow> bool" where
  "stored_at rw k nm \<longleftrightarrow> (\<exists>pre post. rw = pre @ nm @ 0 # post \<and> length pre = k)"

definition roots_stored :: "bytes \<Rightarrow> root_string list \<Rightarrow> bool" where
  "roots_stored rw roots \<longleftrightarrow>
     stored_at rw 0 [] \<and> (\<forall>r \<in> set roots. stored_at rw (unat (offset r)) (name r))"

lemma stored_at_append: "stored_at rw k nm \<Longrightarrow> stored_at (rw @ ext) k nm"
  unfolding stored_at_def by (metis append.assoc append_Cons)

lemma stored_at_new: "stored_at (rw @ nm @ [0]) (length rw) nm"
  unfolding stored_at_def by fastforce

lemma stored_at_bound: "stored_at rw k nm \<Longrightarrow> k + length nm < length rw"
  by (auto simp: stored_at_def)

lemma ends_with_suffix: "ends_with xs ys \<longleftrightarrow> suffix ys xs"
proof
  assume "ends_with xs ys"
  then have "xs = take (length xs - length ys) xs @ ys"
    unfolding ends_with_def by (metis append_take_drop_id)
  then show "suffix ys xs" unfolding suffix_def by blast
next
  assume "suffix ys xs"
  then show "ends_with xs ys" by (auto simp: suffix_def ends_with_def)
qed

lemma stored_at_suffix:
  assumes "stored_at rw k xs" and "suffix ys xs"
  shows "stored_at rw (k + (length xs - length ys)) ys"
proof -
  from assms obtain pre post zs where "rw = (pre @ zs) @ ys @ 0 # post" "xs = zs @ ys" "length pre = k"
    by (auto simp: stored_at_def suffix_def)
  moreover have "length (pre @ zs) = k + (length xs - length ys)" using calculation by simp
  ultimately show ?thesis unfolding stored_at_def by blast
qed

lemma find_suffix_offset_SomeD:
  assumes "find_suffix_offset roots nm = Some off"
  shows "nm = [] \<and> off = 0 \<or>
    (\<exists>r \<in> set roots. suffix nm (name r) \<and> off = offset r + of_nat (length (name r) - length nm))"
  using assms
  by (auto simp: find_suffix_offset_def Let_def ends_with_suffix split: if_splits intro!: nth_mem)

lemma find_suffix_offset_stored:
  assumes "roots_stored rw roots" and "find_suffix_offset roots nm = Some off" and "length rw < 2 ^ 32"
  shows "stored_at rw (unat off) nm"
proof -
  consider "nm = []" "off = 0"
    | r where "r \<in> set roots" "suffix nm (name r)" "off = offset r + of_nat (length (name r) - length nm)"
    using find_suffix_offset_SomeD [OF assms(2)] by blast
  then show ?thesis
  proof cases
    case 1
    then show ?thesis using assms(1) by (simp add: roots_stored_def)
  next
    case 2
    let ?d = "length (name r) - length nm"
    have st: "stored_at rw (unat (offset r)) (name r)"
      using assms(1) 2(1) by (simp add: roots_stored_def)
    then have "unat (offset r) + ?d < 2 ^ 32"
      using stored_at_bound [OF st] assms(3) by linarith
    then have "unat off = unat (offset r) + ?d"
      unfolding 2(3) by (simp add: unat_word_ariths unat_of_nat)
    then show ?thesis using stored_at_suffix [OF st 2(2)] by simp
  qed
qed

lemma roots_stored_push:
  assumes "roots_stored rw roots" and "length rw < 2 ^ 32"
  shows "roots_stored (rw @ nm @ [0]) (roots @ [\<lparr>name = nm, offset = of_nat (length rw)\<rparr>])"
  using assms stored_at_new [of rw nm]
  by (auto simp: roots_stored_def unat_of_nat intro: stored_at_append)

lemma emit_names_extends: "\<exists>ext. fst (emit_names es rw roots) = rw @ ext"
proof (induction es rw roots rule: emit_names.induct)
  case (2 nm k es rw roots)
  then show ?case
    by (cases "find_suffix_offset roots nm") (fastforce simp: Let_def split: prod.splits)+
qed simp

lemma emit_names_keys: "map fst (snd (emit_names es rw roots)) = map snd es"
proof (induction es rw roots rule: emit_names.induct)
  case (2 nm k es rw roots)
  then show ?case
    by (cases "find_suffix_offset roots nm") (auto simp: Let_def split: prod.splits)
qed simp

lemma emit_names_stored:
  assumes "roots_stored rw roots" and "length (fst (emit_names es rw roots)) < 2 ^ 32"
  shows "list_all2 (\<lambda>e ko. stored_at (fst (emit_names es rw roots)) (unat (snd ko)) (fst e))
           es (snd (emit_names es rw roots))"
  using assms
proof (induction es rw roots rule: emit_names.induct)
  case (2 nm k es rw roots)
  obtain ext where ext: "fst (emit_names ((nm, k) # es) rw roots) = rw @ ext"
    using emit_names_extends by blast
  with "2.prems"(2) have l: "length rw < 2 ^ 32" by simp
  show ?case
  proof (cases "find_suffix_offset roots nm")
    case None
    let ?roots = "roots @ [\<lparr>name = nm, offset = of_nat (length rw)\<rparr>]"
    obtain ext' where ext': "fst (emit_names es (rw @ nm @ [0]) ?roots) = (rw @ nm @ [0]) @ ext'"
      using emit_names_extends by blast
    have "stored_at (fst (emit_names es (rw @ nm @ [0]) ?roots)) (length rw) nm"
      unfolding ext' by (rule stored_at_append) (rule stored_at_new)
    with None 2 roots_stored_push [OF "2.prems"(1) l, of nm] l show ?thesis
      by (simp add: Let_def unat_of_nat split: prod.splits)
  next
    case (Some off)
    have "stored_at (fst (emit_names ((nm, k) # es) rw roots)) (unat off) nm"
      unfolding ext using find_suffix_offset_stored [OF "2.prems"(1) Some l] by (rule stored_at_append)
    with Some 2 show ?thesis by (simp add: Let_def split: prod.splits)
  qed
qed simp

lemma roots_stored_init: "roots_stored [0] []"
  by (simp add: roots_stored_def stored_at_def)

section \<open>Reading a stored name\<close>

lemma st_get_stored:
  assumes "stored_at rw (unat off) nm" and "0 \<notin> set nm" and "utf8_valid nm"
  shows "st_get \<lparr>raw = rw\<rparr> off = Ok nm"
proof -
  from assms(1) obtain pre post where rw: "rw = pre @ nm @ 0 # post" "length pre = unat off"
    by (auto simp: stored_at_def)
  have "position (\<lambda>b. b = 0) (nm @ 0 # post) = Some (length nm)"
    using assms(2) by (intro position_prefix) auto
  then show ?thesis using rw assms(3) by (simp add: st_get_def Let_def)
qed

lemma st_get_safe [no_panic]: "safe (st_get t strx)"
  unfolding st_get_def Let_def
  by (auto intro!: no_panic dest!: position_SomeD(1))

lemma from_file_safe [no_panic]: "safe (from_file file stroff strsize)"
  unfolding from_file_def Let_def
  by (auto intro!: no_panic simp: checked_add_eq_Some ok_or_def split: option.splits)

section \<open>Builders\<close>

lemma pad_to_8_extends: "\<exists>ext. pad_to_8 rw = rw @ ext \<and> length ext < 8 \<and> 8 dvd length (rw @ ext)"
proof (induction rw rule: pad_to_8.induct)
  case (1 rw)
  show ?case
  proof (cases "8 dvd length rw")
    case True
    then show ?thesis by (simp add: pad_to_8.simps [of rw])
  next
    case False
    with "1.IH" obtain ext where e: "pad_to_8 (rw @ [0]) = (rw @ [0]) @ ext" "length ext < 8"
        "8 dvd length (rw @ [0]) + length ext" by auto
    from e(2,3) False have "Suc (length ext) < 8"
      by (simp, presburger)
    with e False show ?thesis
      by (intro exI [of _ "0 # ext"]) (simp add: pad_to_8.simps [of rw])
  qed
qed

lemma store_offsets_length [simp]: "length (store_offsets es offs) = length offs"
  by (induction es offs rule: store_offsets.induct) auto

lemma store_offsets_other: "i \<notin> fst ` set es \<Longrightarrow> store_offsets es offs ! i = offs ! i"
  by (induction es offs rule: store_offsets.induct) (auto simp: image_iff)

lemma store_offsets_nth:
  "distinct (map fst es) \<Longrightarrow> (i, o') \<in> set es \<Longrightarrow> i < length offs \<Longrightarrow> store_offsets es offs ! i = o'"
  by (induction es offs rule: store_offsets.induct) (auto simp: store_offsets_other)

lemma emit_names_lookup:
  assumes "(nm, k) \<in> set es" and "length (fst (emit_names es [0] [])) < 2 ^ 32"
  shows "\<exists>off. (k, off) \<in> set (snd (emit_names es [0] []))
    \<and> stored_at (fst (emit_names es [0] [])) (unat off) nm"
proof -
  let ?r = "emit_names es [0] []"
  from assms(1) obtain i where i: "i < length es" "es ! i = (nm, k)" by (auto simp: in_set_conv_nth)
  have "list_all2 (\<lambda>e ko. stored_at (fst ?r) (unat (snd ko)) (fst e)) es (snd ?r)"
    using roots_stored_init assms(2) by (rule emit_names_stored)
  moreover from this have len: "length (snd ?r) = length es" by (simp add: list_all2_lengthD)
  ultimately have "stored_at (fst ?r) (unat (snd (snd ?r ! i))) nm"
    using i list_all2_nthD by fastforce
  moreover have "fst (snd ?r ! i) = k"
    using emit_names_keys [of es "[0]" "[]"] i len by (metis nth_map snd_conv)
  ultimately show ?thesis using i len by (metis nth_mem prod.collapse)
qed

lemma build_offsets_stored:
  assumes "length (fst (build_with_name_offsets names)) < 2 ^ 32" and "i < length names"
  shows "stored_at (fst (build_with_name_offsets names))
           (unat (snd (build_with_name_offsets names) ! i)) (names ! i)"
proof -
  define es where "es = sort_by indexed_order (zip names [0..<length names])"
  let ?r = "emit_names es [0] []"
  have b: "build_with_name_offsets names = (pad_to_8 (fst ?r), store_offsets (snd ?r) (replicate (length names) 0))"
    by (simp add: build_with_name_offsets_def es_def case_prod_unfold Let_def)
  obtain ext where ext: "pad_to_8 (fst ?r) = fst ?r @ ext" using pad_to_8_extends by blast
  have "mset (map snd es) = mset [0..<length names]"
    unfolding es_def by (metis length_upt map_snd_zip minus_nat.diff_0 mset_map mset_sort_by)
  then have d: "distinct (map fst (snd ?r))"
    unfolding emit_names_keys by (metis distinct_upt mset_eq_imp_distinct_iff)
  have "(names ! i, i) \<in> set es"
    using assms(2) by (auto simp: es_def set_zip)
  from emit_names_lookup [OF this] obtain off where
    off: "(i, off) \<in> set (snd ?r)" "stored_at (fst ?r) (unat off) (names ! i)"
    using assms(1) b ext by auto
  then show ?thesis
    using d assms(2) b ext by (simp add: store_offsets_nth stored_at_append)
qed

lemma finish_stored:
  assumes "length (fst (finish keys)) < 2 ^ 32" and "nm \<in> set keys" and "distinct keys"
  shows "\<exists>off. snd (finish keys) nm = Some off \<and> stored_at (fst (finish keys)) (unat off) nm"
proof -
  define names where "names = sort_by reverse_suffix_order keys"
  let ?r = "emit_names (zip names names) [0] []"
  have b: "finish keys = (pad_to_8 (fst ?r), map_of (snd ?r))"
    by (simp add: finish_def names_def case_prod_unfold Let_def)
  obtain ext where ext: "pad_to_8 (fst ?r) = fst ?r @ ext" using pad_to_8_extends by blast
  have k: "map fst (snd ?r) = names" by (simp add: emit_names_keys)
  have "nm \<in> set names" using assms(2) by (simp add: names_def)
  then have "(nm, nm) \<in> set (zip names names)" by (auto simp: set_zip in_set_conv_nth)
  from emit_names_lookup [OF this] obtain off where
    "(nm, off) \<in> set (snd ?r)" "stored_at (fst ?r) (unat off) nm"
    using assms(1) b ext by auto
  then show ?thesis
    using assms(3) b ext k by (auto simp: names_def stored_at_append)
qed

section \<open>Suffix sharing is optimal\<close>

text \<open>
  The names that must be stored in full: those that are not a proper suffix of another name.
\<close>

definition root_names :: "str list \<Rightarrow> str list" where
  "root_names ns = filter (\<lambda>n. n \<noteq> [] \<and> \<not> (\<exists>m \<in> set ns. strict_suffix n m)) ns"

lemma rev_order_prefix: "rev_order (p @ q) p Equal \<noteq> Greater"
  by (induction p) (auto simp: cmp_def, cases q, auto)

lemma suffix_before: "suffix n m \<Longrightarrow> reverse_suffix_order m n \<noteq> Greater"
  by (auto simp: reverse_suffix_order_eq suffix_def rev_order_prefix)

lemma strict_suffix_before: "strict_suffix n m \<Longrightarrow> reverse_suffix_order m n = Less"
  using suffix_before [of n m] ordering.exhaust [of "reverse_suffix_order m n"]
  by (auto simp: strict_suffix_def)

lemma rev_order_between:
  "rev_order (p @ q) x Equal \<noteq> Greater \<Longrightarrow> rev_order x p Equal \<noteq> Greater \<Longrightarrow> \<exists>r. x = p @ r"
proof (induction p arbitrary: x)
  case (Cons a p)
  then show ?case
    by (cases x) (auto simp: cmp_def split: if_splits)
qed simp

lemma suffix_between:
  assumes "suffix n m" and "reverse_suffix_order m x \<noteq> Greater" and "reverse_suffix_order x n \<noteq> Greater"
  shows "suffix n x"
proof -
  from assms(1) obtain zs where "rev m = rev n @ zs" by (auto simp: suffix_def)
  then obtain r where "rev x = rev n @ r"
    using assms(2,3) rev_order_between [of "rev n" zs "rev x"] by (auto simp: reverse_suffix_order_eq)
  then have "x = rev r @ n" by (metis rev_append rev_rev_ident)
  then show ?thesis by (simp add: suffix_def)
qed

lemma find_suffix_offset_last:
  assumes "nm \<noteq> []" and "\<forall>r \<in> set roots. reverse_suffix_order (name r) nm = Less"
  shows "find_suffix_offset roots nm \<noteq> None \<longleftrightarrow> roots \<noteq> [] \<and> suffix nm (name (last roots))"
proof -
  have "takeWhile (\<lambda>r. reverse_suffix_order (name r) nm = Less) roots = roots"
    unfolding takeWhile_eq_all_conv by (rule assms(2))
  then have "partition_point (\<lambda>r. reverse_suffix_order (name r) nm = Less) roots = length roots"
    unfolding partition_point_def by (simp only:)
  then show ?thesis
    using assms(1)
    by (cases roots rule: rev_cases)
      (auto simp: find_suffix_offset_def Let_def ends_with_suffix suffix_length_le)
qed

text \<open>
  \<open>emit_inv ps roots\<close>: after the names \<open>ps\<close> have been processed, the roots are among them and
  the last processed name is a suffix of the last root.
\<close>

definition emit_inv :: "str list \<Rightarrow> root_string list \<Rightarrow> bool" where
  "emit_inv ps roots \<longleftrightarrow> name ` set roots \<subseteq> set ps \<and>
     (ps \<noteq> [] \<and> last ps \<noteq> [] \<longrightarrow> roots \<noteq> [] \<and> suffix (last ps) (name (last roots)))"

definition strict_names :: "str list \<Rightarrow> bool" where
  "strict_names = sorted_wrt (\<lambda>x y. reverse_suffix_order x y = Less)"

lemma strict_namesI: "sorted_by reverse_suffix_order ns \<Longrightarrow> distinct ns \<Longrightarrow> strict_names ns"
  unfolding sorted_by_def strict_names_def
proof (induction ns)
  case (Cons n ns)
  then show ?case using reverse_suffix_order_Equal ordering.exhaust by (simp, metis)
qed simp

lemma Nil_greatest: "reverse_suffix_order [] n \<noteq> Less"
  by (cases "rev n") (auto simp: reverse_suffix_order_eq)

lemma shared_iff:
  assumes sorted: "strict_names (ps @ nm # qs)" and inv: "emit_inv ps roots" and ne: "nm \<noteq> []"
  shows "find_suffix_offset roots nm \<noteq> None \<longleftrightarrow> (\<exists>m \<in> set (ps @ nm # qs). strict_suffix nm m)"
proof -
  have before: "\<forall>p \<in> set ps. reverse_suffix_order p nm = Less"
    using sorted by (auto simp: strict_names_def sorted_wrt_append)
  then have rl: "\<forall>r \<in> set roots. reverse_suffix_order (name r) nm = Less"
    using inv by (auto simp: emit_inv_def)
  have strict: "strict_suffix nm p" if "suffix nm p" "p \<in> set ps" for p
    using that before by (auto simp: strict_suffix_def suffix_order.cmp_refl)
  show ?thesis
  proof
    assume "find_suffix_offset roots nm \<noteq> None"
    then have "roots \<noteq> []" "suffix nm (name (last roots))"
      using find_suffix_offset_last [OF ne rl] by auto
    then show "\<exists>m \<in> set (ps @ nm # qs). strict_suffix nm m"
      using inv strict by (metis (no_types) Un_iff emit_inv_def image_subset_iff last_in_set set_append)
  next
    assume "\<exists>m \<in> set (ps @ nm # qs). strict_suffix nm m"
    then obtain m where m: "m \<in> set (ps @ nm # qs)" "strict_suffix nm m" by blast
    have "m \<noteq> nm" "m \<notin> set qs"
      using m(2) sorted strict_suffix_before [OF m(2)] suffix_order.cmp_flip [of m nm]
      by (auto simp: strict_names_def sorted_wrt_append)
    then have "m \<in> set ps" using m(1) by simp
    then have psne: "ps \<noteq> []" by auto
    then have lp: "last ps \<in> set ps" by simp
    have l: "reverse_suffix_order m (last ps) \<noteq> Greater"
      using \<open>m \<in> set ps\<close> sorted psne
      by (cases ps rule: rev_cases) (auto simp: strict_names_def sorted_wrt_append suffix_order.cmp_refl)
    have sm: "suffix nm m" using m(2) by (simp only: strict_suffix_def)
    have r: "reverse_suffix_order (last ps) nm \<noteq> Greater"
      using bspec [OF before lp] by (simp only: ordering.distinct not_False_eq_True)
    have s: "suffix nm (last ps)" by (rule suffix_between [OF sm l r])
    with ne have "last ps \<noteq> []" by (auto simp: suffix_def)
    then have "roots \<noteq> []" "suffix (last ps) (name (last roots))"
      using inv psne by (simp_all add: emit_inv_def)
    with s have "roots \<noteq> []" "suffix nm (name (last roots))"
      by (simp_all add: suffix_order.order_trans)
    then show "find_suffix_offset roots nm \<noteq> None" using find_suffix_offset_last [OF ne rl] by auto
  qed
qed

lemma emit_inv_step:
  assumes "strict_names (ps @ nm # qs)" and "emit_inv ps roots"
  shows "find_suffix_offset roots nm \<noteq> None \<Longrightarrow> emit_inv (ps @ [nm]) roots"
    and "emit_inv (ps @ [nm]) (roots @ [\<lparr>name = nm, offset = off\<rparr>])"
proof -
  have rl: "\<forall>r \<in> set roots. reverse_suffix_order (name r) nm = Less"
    using assms by (fastforce simp: emit_inv_def strict_names_def sorted_wrt_append)
  show "emit_inv (ps @ [nm]) roots" if "find_suffix_offset roots nm \<noteq> None"
    using assms(2) that find_suffix_offset_last [OF _ rl] by (auto simp: emit_inv_def)
  show "emit_inv (ps @ [nm]) (roots @ [\<lparr>name = nm, offset = off\<rparr>])"
    using assms(2) by (auto simp: emit_inv_def)
qed

definition stored_size :: "str list \<Rightarrow> str list \<Rightarrow> nat" where
  "stored_size ns qs =
     sum_list (map (\<lambda>n. Suc (length n)) (filter (\<lambda>n. n \<noteq> [] \<and> \<not> (\<exists>m \<in> set ns. strict_suffix n m)) qs))"

lemma emit_names_size:
  assumes "strict_names (ps @ map fst es)" and "emit_inv ps roots"
  shows "length (fst (emit_names es rw roots)) = length rw + stored_size (ps @ map fst es) (map fst es)"
  using assms
proof (induction es rw roots arbitrary: ps rule: emit_names.induct)
  case (1 rw roots)
  then show ?case by (simp add: stored_size_def)
next
  case (2 nm k es rw roots)
  let ?all = "ps @ nm # map fst es"
  have sn: "strict_names ?all" "strict_names ((ps @ [nm]) @ map fst es)" using "2.prems"(1) by simp_all
  have split: "stored_size ?all (map fst ((nm, k) # es)) =
      (if nm = [] \<or> (\<exists>m \<in> set ?all. strict_suffix nm m) then 0 else Suc (length nm))
      + stored_size ((ps @ [nm]) @ map fst es) (map fst es)"
    by (simp add: stored_size_def)
  show ?case
  proof (cases "find_suffix_offset roots nm")
    case None
    have "nm \<noteq> []" using None by (auto simp: find_suffix_offset_def)
    moreover from this have "\<not> (\<exists>m \<in> set ?all. strict_suffix nm m)"
      using shared_iff [OF sn(1) "2.prems"(2)] None by blast
    ultimately have "\<not> (nm = [] \<or> (\<exists>m \<in> set ?all. strict_suffix nm m))" by blast
    with split have "stored_size ?all (map fst ((nm, k) # es))
        = Suc (length nm) + stored_size ((ps @ [nm]) @ map fst es) (map fst es)" by (simp only: if_False)
    then show ?thesis
      using None "2.IH"(1) [OF None refl sn(2) emit_inv_step(2) [OF sn(1) "2.prems"(2)]]
      by (auto simp: Let_def case_prod_unfold)
  next
    case (Some off)
    then have "nm = [] \<or> (\<exists>m \<in> set ?all. strict_suffix nm m)"
      using shared_iff [OF sn(1) "2.prems"(2)] by blast
    with split have "stored_size ?all (map fst ((nm, k) # es))
        = stored_size ((ps @ [nm]) @ map fst es) (map fst es)" by (simp only: if_True add_0)
    then show ?thesis
      using Some "2.IH"(2) [OF Some sn(2) emit_inv_step(1) [OF sn(1) "2.prems"(2)]]
      by (auto simp: Let_def case_prod_unfold)
  qed
qed

lemma stored_size_mset:
  assumes "mset ns = mset ms"
  shows "stored_size ns ns = sum_list (map (\<lambda>n. Suc (length n)) (root_names ms))"
proof -
  have "set ns = set ms" using assms by (metis set_mset_mset)
  then have "mset (root_names ns) = mset (root_names ms)"
    unfolding root_names_def mset_filter using assms by (simp only:)
  then have "mset (map (\<lambda>n. Suc (length n)) (root_names ns)) = mset (map (\<lambda>n. Suc (length n)) (root_names ms))"
    unfolding mset_map by (simp only:)
  then have "sum_list (map (\<lambda>n. Suc (length n)) (root_names ns)) = sum_list (map (\<lambda>n. Suc (length n)) (root_names ms))"
    by (metis sum_mset_sum_list)
  then show ?thesis unfolding stored_size_def by (simp only: root_names_def [symmetric])
qed

lemma finish_size:
  assumes "distinct keys"
  shows "\<exists>pad < 8. length (fst (finish keys))
    = 1 + sum_list (map (\<lambda>n. Suc (length n)) (root_names keys)) + pad
    \<and> 8 dvd length (fst (finish keys))"
proof -
  define names where "names = sort_by reverse_suffix_order keys"
  have sn: "strict_names names"
    unfolding names_def by (rule strict_namesI [OF suffix_order.sorted_sort_by]) (simp add: assms)
  have "length (fst (emit_names (zip names names) [0] [])) = 1 + stored_size names names"
    using emit_names_size [of "[]" "zip names names" "[]" "[0]"] sn by (simp add: emit_inv_def)
  moreover have "stored_size names names = sum_list (map (\<lambda>n. Suc (length n)) (root_names keys))"
    by (rule stored_size_mset) (simp add: names_def)
  moreover obtain ext where "pad_to_8 (fst (emit_names (zip names names) [0] []))
      = fst (emit_names (zip names names) [0] []) @ ext" "length ext < 8"
      "8 dvd length (fst (emit_names (zip names names) [0] []) @ ext)"
    using pad_to_8_extends by blast
  ultimately show ?thesis
    by (intro exI [of _ "length ext"]) (simp add: finish_def names_def case_prod_unfold Let_def)
qed

section \<open>Properties\<close>

text \<open>
  C5: every name handed to \<^verbatim>\<open>build_with_name_offsets\<close> is read back by \<^verbatim>\<open>StringTable::get\<close> at the
  offset returned for it, shared suffixes and duplicates included, as long as the table stays
  below the 4 GiB a 32-bit \<^verbatim>\<open>strx\<close> can address.
\<close>

theorem build_then_get:
  assumes "i < length names" and "0 \<notin> set (names ! i)" and "utf8_valid (names ! i)"
    and "length (fst (build_with_name_offsets names)) < 2 ^ 32"
  shows "st_get \<lparr>raw = fst (build_with_name_offsets names)\<rparr> (snd (build_with_name_offsets names) ! i)
    = Ok (names ! i)"
  using st_get_stored [OF build_offsets_stored [OF assms(4,1)] assms(2,3)] .

theorem build_then_get_witness:
  "st_get \<lparr>raw = fst (build_with_name_offsets [[111, 111], [102, 111, 111]])\<rparr>
     (snd (build_with_name_offsets [[111, 111], [102, 111, 111]]) ! 0) = Ok [111, 111]"
proof -
  have "fst (build_with_name_offsets [[111, 111], [102, 111, 111]]) = [0, 102, 111, 111, 0, 0, 0, 0]"
    by code_simp
  moreover have "utf8_valid [111, 111]" by code_simp
  ultimately show ?thesis
    using build_then_get [of 0 "[[111, 111], [102, 111, 111]]"] by simp
qed

text \<open>
  C6: \<^verbatim>\<open>finish\<close> on a builder holding the (distinct) names \<open>keys\<close>, in whatever order the hash map
  yields them, produces an 8-byte aligned table that stores in full exactly the names that are not
  a proper suffix of another name, and whose offset map gives back every name.
\<close>

theorem finish_shares_suffixes:
  assumes "distinct keys" and "\<forall>n \<in> set keys. 0 \<notin> set n \<and> utf8_valid n"
    and "length (fst (finish keys)) < 2 ^ 32"
  shows "8 dvd length (fst (finish keys))
    \<and> length (fst (finish keys)) < 9 + (\<Sum>n \<leftarrow> root_names keys. Suc (length n))
    \<and> length (fst (finish keys)) \<ge> 1 + (\<Sum>n \<leftarrow> root_names keys. Suc (length n))
    \<and> (\<forall>n \<in> set keys. \<exists>off. snd (finish keys) n = Some off
          \<and> st_get \<lparr>raw = fst (finish keys)\<rparr> off = Ok n)"
proof (intro conjI ballI)
  from finish_size [OF assms(1)] show "8 dvd length (fst (finish keys))"
    "length (fst (finish keys)) < 9 + (\<Sum>n \<leftarrow> root_names keys. Suc (length n))"
    "length (fst (finish keys)) \<ge> 1 + (\<Sum>n \<leftarrow> root_names keys. Suc (length n))" by auto
  show "\<exists>off. snd (finish keys) n = Some off \<and> st_get \<lparr>raw = fst (finish keys)\<rparr> off = Ok n"
    if "n \<in> set keys" for n
    using finish_stored [OF assms(3) that assms(1)] st_get_stored assms(2) that by fastforce
qed

theorem finish_shares_suffixes_witness:
  "\<exists>off. snd (finish [[111, 111], [102, 111, 111]]) [111, 111] = Some off
     \<and> st_get \<lparr>raw = fst (finish [[111, 111], [102, 111, 111]])\<rparr> off = Ok [111, 111]"
proof -
  have "fst (finish [[111, 111], [102, 111, 111]]) = [0, 102, 111, 111, 0, 0, 0, 0]"
    by code_simp
  moreover have "utf8_valid [111, 111]" "utf8_valid [102, 111, 111]" by code_simp+
  ultimately show ?thesis
    using finish_shares_suffixes [of "[[111, 111], [102, 111, 111]]"] by simp
qed

end
