(* ===== verification/Nlist.thy ===== *)
theory Nlist
  imports Constants
begin

text \<open>
  The symbol-table reader of \<^verbatim>\<open>src/symbol.rs\<close>: the 16-byte \<^verbatim>\<open>nlist_64\<close> record, its codec, the
  classification accessors of \<^verbatim>\<open>InputSymbol\<close>, and the table reader and writer.
\<close>

section \<open>Records\<close>

abbreviation (input) NLIST_SIZE :: nat where "NLIST_SIZE \<equiv> 16"

record raw_nlist =
  strx :: u32
  n_type :: u8
  n_sect :: u8
  n_desc :: u16
  n_value :: u64

definition parse_nlist :: "bytes \<Rightarrow> raw_nlist read" where
  "parse_nlist b =
     (if length b < NLIST_SIZE then Err (Truncated NLIST_SIZE (length b) ''nlist_64'')
      else
        rbind (rd32 0 b) (\<lambda>sx.
        rbind (index b 4) (\<lambda>ty.
        rbind (index b 5) (\<lambda>sect.
        rbind (rd16 6 b) (\<lambda>desc.
        rbind (rd64 8 b) (\<lambda>val.
          Ok \<lparr>strx = sx, n_type = ty, n_sect = sect, n_desc = desc, n_value = val\<rparr>))))))"

definition write_nlist :: "raw_nlist \<Rightarrow> bytes" where
  "write_nlist r =
     le32 (strx r) @ [n_type r] @ [n_sect r] @ le16 (n_desc r) @ le64 (n_value r)"

section \<open>Classification\<close>

datatype sym_kind = Undef | Abs | Sect | Indirect

definition stab_kind :: "raw_nlist \<Rightarrow> u8 option" where
  "stab_kind r = (if n_type r AND N_STAB \<noteq> 0 then Some (n_type r) else None)"

definition nlist_kind :: "raw_nlist \<Rightarrow> sym_kind" where
  "nlist_kind r =
     (let t = n_type r AND N_TYPE in
      if t = N_UNDF then Undef
      else if t = N_ABS then Abs
      else if t = N_SECT then Sect
      else if t = N_INDR then Indirect
      else Undef)"

definition is_ext :: "raw_nlist \<Rightarrow> bool" where
  "is_ext r \<longleftrightarrow> n_type r AND N_EXT \<noteq> 0"

definition is_private_ext :: "raw_nlist \<Rightarrow> bool" where
  "is_private_ext r \<longleftrightarrow> n_type r AND N_PEXT \<noteq> 0"

definition participates_in_global_resolution :: "raw_nlist \<Rightarrow> bool" where
  "participates_in_global_resolution r \<longleftrightarrow> is_ext r \<or> is_private_ext r"

definition weak_ref :: "raw_nlist \<Rightarrow> bool" where
  "weak_ref r \<longleftrightarrow> n_desc r AND N_WEAK_REF \<noteq> 0"

definition weak_def :: "raw_nlist \<Rightarrow> bool" where
  "weak_def r \<longleftrightarrow> n_desc r AND N_WEAK_DEF \<noteq> 0"

definition no_dead_strip :: "raw_nlist \<Rightarrow> bool" where
  "no_dead_strip r \<longleftrightarrow> n_desc r AND N_NO_DEAD_STRIP \<noteq> 0"

definition alt_entry :: "raw_nlist \<Rightarrow> bool" where
  "alt_entry r \<longleftrightarrow> n_desc r AND N_ALT_ENTRY \<noteq> 0"

definition is_common :: "raw_nlist \<Rightarrow> bool" where
  "is_common r \<longleftrightarrow> nlist_kind r = Undef \<and> is_ext r \<and> n_value r > 0"

definition common_size :: "raw_nlist \<Rightarrow> u64 option" where
  "common_size r = (if is_common r then Some (n_value r) else None)"

definition common_align_pow2 :: "raw_nlist \<Rightarrow> u8 option" where
  "common_align_pow2 r =
     (if is_common r then Some (ucast (drop_bit 8 (n_desc r) AND 0x0f)) else None)"

definition library_ordinal :: "raw_nlist \<Rightarrow> u8 option" where
  "library_ordinal r =
     (if nlist_kind r = Undef \<and> \<not> is_common r then Some (ucast (drop_bit 8 (n_desc r))) else None)"

definition indirect_target_strx :: "raw_nlist \<Rightarrow> u32 option" where
  "indirect_target_strx r = (if nlist_kind r = Indirect then Some (ucast (n_value r)) else None)"

section \<open>Tables\<close>

definition parse_nlist_table :: "bytes \<Rightarrow> u32 \<Rightarrow> u32 \<Rightarrow> raw_nlist list read" where
  "parse_nlist_table file symoff nsyms =
     (let start = unat symoff in
      rbind (ok_or (Truncated usize_max (length file) ''symbol table (nsyms x 16 overflows)'')
               (checked_mul (unat nsyms) NLIST_SIZE)) (\<lambda>total.
      rbind (ok_or (Truncated usize_max (length file) ''symbol table (symoff + size overflows)'')
               (checked_add start total)) (\<lambda>end.
      if end > length file then Err (Truncated end (length file) ''symbol table (nlist region)'')
      else read_records NLIST_SIZE parse_nlist file start (unat nsyms))))"

definition write_nlist_table :: "raw_nlist list \<Rightarrow> bytes" where
  "write_nlist_table syms = concat (map write_nlist syms)"

section \<open>Codec laws\<close>

lemma length_write_nlist [simp]: "length (write_nlist r) = 16"
  by (simp add: write_nlist_def)

lemma parse_write_nlist: "parse_nlist (write_nlist r) = Ok r"
  by (simp add: parse_nlist_def write_nlist_def rd_ok nth_append)

interpretation nlist: record_codec write_nlist parse_nlist 16 "\<lambda>_. True"
  by unfold_locales (simp_all add: parse_write_nlist)

lemma parse_nlist_safe [no_panic]: "safe (parse_nlist b)"
  unfolding parse_nlist_def by (auto intro!: no_panic)

lemma write_parse_nlist:
  assumes "length b = 16" and "parse_nlist b = Ok r"
  shows "write_nlist r = b"
proof -
  have "drop 4 b = b ! 4 # b ! 5 # drop 6 b"
    using assms(1) Cons_nth_drop_Suc [of 4 b] Cons_nth_drop_Suc [of 5 b] by simp
  moreover have "drop 6 b = take 2 (drop 6 b) @ take 8 (drop 8 b)"
    using assms(1) append_take_drop_id [of 2 "drop 6 b"] by simp
  ultimately have "b = take 4 b @ [b ! 4] @ [b ! 5] @ take 2 (drop 6 b) @ take 8 (drop 8 b)"
    using append_take_drop_id [of 4 b] by simp
  moreover have "r = \<lparr>strx = from_le (take 4 b), n_type = b ! 4, n_sect = b ! 5,
      n_desc = from_le (take 2 (drop 6 b)), n_value = from_le (take 8 (drop 8 b))\<rparr>"
    using assms by (simp add: parse_nlist_def rd_ok)
  ultimately show ?thesis using assms(1) by (simp add: write_nlist_def)
qed

text \<open>With 32-bit table locators neither size computation overflows a 64-bit \<^verbatim>\<open>usize\<close>.\<close>

lemma nlist_bounds:
  "checked_mul (unat (n :: u32)) 16 = Some (unat n * 16)"
  "checked_add (unat (o' :: u32)) (unat n * 16) = Some (unat o' + unat n * 16)"
  using unsigned_less [of n, where ?'a = nat] unsigned_less [of o', where ?'a = nat]
  by (simp_all add: checked_mul_def checked_add_def usize_max_def)

lemma parse_nlist_table_unfold:
  "parse_nlist_table file symoff nsyms =
     (if unat symoff + unat nsyms * 16 > length file
      then Err (Truncated (unat symoff + unat nsyms * 16) (length file) ''symbol table (nlist region)'')
      else read_records 16 parse_nlist file (unat symoff) (unat nsyms))"
  by (simp add: parse_nlist_table_def nlist_bounds Let_def)

lemma parse_nlist_table_safe [no_panic]: "safe (parse_nlist_table file symoff nsyms)"
  unfolding parse_nlist_table_unfold by (auto intro!: no_panic)

text \<open>A symbol table written anywhere in an image and located by \<^verbatim>\<open>LC_SYMTAB\<close>'s
  32-bit offset and count is read back entry by entry, whatever surrounds it.\<close>

theorem nlist_table_round_trip:
  assumes "length pre = unat symoff" and "length syms = unat nsyms"
  shows "parse_nlist_table (pre @ write_nlist_table syms @ post) symoff nsyms = Ok syms"
proof -
  have "list_all (\<lambda>_. True) syms" by (simp add: list_all_iff)
  from nlist.read_written_table [OF this, of "unat symoff" pre "unat nsyms" post]
    nlist.length_table [OF this] assms
  show ?thesis by (simp add: parse_nlist_table_unfold write_nlist_table_def)
qed

theorem nlist_table_round_trip_witness:
  "parse_nlist_table ([9, 9] @ write_nlist_table
      [\<lparr>strx = 42, n_type = 15, n_sect = 3, n_desc = 0x80, n_value = 0x100000040\<rparr>] @ [7]) 2 1
   = Ok [\<lparr>strx = 42, n_type = 15, n_sect = 3, n_desc = 0x80, n_value = 0x100000040\<rparr>]"
  by (rule nlist_table_round_trip) simp_all

end
