(* ===== verification/Interner.thy ===== *)
theory Interner
  imports Bytes
begin

text \<open>
  \<^verbatim>\<open>StringInterner\<close> of \<^verbatim>\<open>src/resolve.rs\<close>: a vector of the distinct names seen so far and a hash map
  from a name to its position. Handles are 32-bit; the counter is cast with \<^verbatim>\<open>as u32\<close>, so the
  guarantees hold as long as at most \<open>2 ^ 32\<close> names were interned (\<open>interner_fits\<close>).
\<close>

section \<open>Registries with stable handles\<close>

text \<open>
  The contract between a registry that hands out handles and its clients: a handle returned for
  a value resolves to that value, and keeps resolving to it whatever is added later.
\<close>

locale stable_handles =
  fixes add :: "'v \<Rightarrow> 's \<Rightarrow> 'h \<times> 's"
    and get :: "'s \<Rightarrow> 'h \<Rightarrow> 'v option"
    and wf :: "'s \<Rightarrow> bool"
    and fits :: "'s \<Rightarrow> bool"
  assumes wf_add: "wf s \<Longrightarrow> fits (snd (add v s)) \<Longrightarrow> wf (snd (add v s))"
    and fits_back: "fits (snd (add v s)) \<Longrightarrow> fits s"
    and get_added: "wf s \<Longrightarrow> fits (snd (add v s)) \<Longrightarrow> get (snd (add v s)) (fst (add v s)) = Some v"
    and get_kept: "wf s \<Longrightarrow> get s h = Some w \<Longrightarrow> get (snd (add v s)) h = Some w"
begin

fun add_all :: "'v list \<Rightarrow> 's \<Rightarrow> 'h list \<times> 's" where
  "add_all [] s = ([], s)"
| "add_all (v # vs) s =
     (let (h, s1) = add v s; (hs, s2) = add_all vs s1 in (h # hs, s2))"

lemma add_all_fits: "fits (snd (add_all vs s)) \<Longrightarrow> fits s"
  by (induction vs arbitrary: s) (auto simp: case_prod_unfold Let_def dest: fits_back)

lemma add_all_wf: "wf s \<Longrightarrow> fits (snd (add_all vs s)) \<Longrightarrow> wf (snd (add_all vs s))"
proof (induction vs arbitrary: s)
  case (Cons v vs)
  then show ?case
    using wf_add [of s v] add_all_fits by (simp add: case_prod_unfold Let_def)
qed simp

lemma add_all_kept:
  "wf s \<Longrightarrow> fits (snd (add_all vs s)) \<Longrightarrow> get s h = Some w \<Longrightarrow> get (snd (add_all vs s)) h = Some w"
proof (induction vs arbitrary: s)
  case (Cons v vs)
  then show ?case
    using wf_add [of s v] add_all_fits get_kept by (simp add: case_prod_unfold Let_def)
qed simp

lemma add_all_get:
  "wf s \<Longrightarrow> fits (snd (add_all vs s)) \<Longrightarrow>
   map (get (snd (add_all vs s))) (fst (add_all vs s)) = map Some vs"
proof (induction vs arbitrary: s)
  case (Cons v vs)
  let ?s1 = "snd (add v s)"
  have f: "fits (snd (add_all vs ?s1))" using Cons.prems(2) by (simp add: case_prod_unfold Let_def)
  then have f1: "fits ?s1" by (rule add_all_fits)
  then have w1: "wf ?s1" using Cons.prems(1) by (intro wf_add)
  have "get (snd (add_all vs ?s1)) (fst (add v s)) = Some v"
    using get_added [OF Cons.prems(1) f1] by (rule add_all_kept [OF w1 f])
  then show ?case using Cons.IH [OF w1 f] by (simp add: case_prod_unfold Let_def)
qed simp

text \<open>Two positions of a batch get the same handle only if they hold the same value.\<close>

lemma add_all_inj:
  assumes "wf s" and "fits (snd (add_all vs s))" and "i < length vs" and "j < length vs"
    and "fst (add_all vs s) ! i = fst (add_all vs s) ! j"
  shows "vs ! i = vs ! j"
proof -
  have m: "map (get (snd (add_all vs s))) (fst (add_all vs s)) = map Some vs"
    using assms(1,2) by (rule add_all_get)
  then have len: "length (fst (add_all vs s)) = length vs" by (metis length_map)
  have "Some (vs ! i) = get (snd (add_all vs s)) (fst (add_all vs s) ! i)"
    using assms(3) len m by (metis nth_map)
  also have "\<dots> = Some (vs ! j)"
    using assms(4,5) len m by (metis nth_map)
  finally show ?thesis by simp
qed

end

section \<open>The interner\<close>

type_synonym istr = u32

record string_interner =
  strings :: "str list"
  str_index :: "str \<rightharpoonup> u32"

definition interner_new :: string_interner where
  "interner_new = \<lparr>strings = [], str_index = Map.empty\<rparr>"

definition intern :: "str \<Rightarrow> string_interner \<Rightarrow> istr \<times> string_interner" where
  "intern s it =
     (case str_index it s of
        Some i \<Rightarrow> (i, it)
      | None \<Rightarrow>
          let id = of_nat (length (strings it)) in
          (id, it\<lparr>strings := strings it @ [s], str_index := (str_index it)(s \<mapsto> id)\<rparr>))"

definition interner_get :: "string_interner \<Rightarrow> str \<Rightarrow> istr option" where
  "interner_get it s = str_index it s"

definition interner_resolve :: "string_interner \<Rightarrow> istr \<Rightarrow> ('e, str) result" where
  "interner_resolve it i = index (strings it) (unat i)"

definition interner_fits :: "string_interner \<Rightarrow> bool" where
  "interner_fits it \<longleftrightarrow> length (strings it) \<le> 2 ^ 32"

text \<open>The map is exactly the inverse of the vector.\<close>

definition wf_interner :: "string_interner \<Rightarrow> bool" where
  "wf_interner it \<longleftrightarrow> interner_fits it \<and> distinct (strings it) \<and>
     (\<forall>s i. str_index it s = Some i \<longleftrightarrow> unat i < length (strings it) \<and> strings it ! unat i = s)"

definition resolve_opt :: "string_interner \<Rightarrow> istr \<Rightarrow> str option" where
  "resolve_opt it i = (if unat i < length (strings it) then Some (strings it ! unat i) else None)"

lemma interner_resolve_opt: "resolve_opt it i = Some s \<longleftrightarrow> interner_resolve it i = Ok s"
  by (auto simp: resolve_opt_def interner_resolve_def index_def)

lemma wf_interner_new: "wf_interner interner_new"
  by (simp add: wf_interner_def interner_new_def interner_fits_def)

lemma unat_of_nat_u32: "n < 2 ^ 32 \<Longrightarrow> unat (of_nat n :: u32) = n"
  by (simp add: unat_of_nat)

lemma wf_interner_intern:
  assumes wf: "wf_interner it" and fits: "interner_fits (snd (intern s it))"
  shows "wf_interner (snd (intern s it))"
proof (cases "str_index it s")
  case None
  let ?n = "length (strings it)"
  have n: "?n < 2 ^ 32" using fits None by (simp add: interner_fits_def intern_def Let_def)
  have new: "s \<notin> set (strings it)"
  proof
    assume "s \<in> set (strings it)"
    then obtain k where k: "k < ?n" "strings it ! k = s" by (auto simp: in_set_conv_nth)
    then have "str_index it s = Some (of_nat k)"
      using wf n unat_of_nat_u32 [of k] by (auto simp: wf_interner_def)
    with None show False by simp
  qed
  have eq: "i = of_nat ?n \<longleftrightarrow> unat i = ?n" for i :: u32
    using n by (simp add: word_unat_eq_iff unat_of_nat_u32)
  show ?thesis
    using wf None fits new n
    by (auto simp: wf_interner_def intern_def Let_def nth_append eq [symmetric] in_set_conv_nth
        less_Suc_eq unat_of_nat_u32)
next
  case (Some i)
  then show ?thesis using wf by (simp add: intern_def)
qed

interpretation names: stable_handles intern resolve_opt wf_interner interner_fits
proof (unfold_locales, goal_cases)
  case (1 it s)
  then show ?case by (rule wf_interner_intern)
next
  case (2 s it)
  then show ?case by (simp add: interner_fits_def intern_def Let_def split: option.splits)
next
  case (3 it s)
  show ?case
  proof (cases "str_index it s")
    case None
    with 3 show ?thesis by (simp add: resolve_opt_def intern_def Let_def interner_fits_def unat_of_nat_u32)
  next
    case (Some i)
    with 3(1) have "unat i < length (strings it)" "strings it ! unat i = s"
      by (simp_all add: wf_interner_def)
    with Some show ?thesis by (simp add: resolve_opt_def intern_def)
  qed
next
  case (4 it i w s)
  then show ?case
    by (auto simp: resolve_opt_def intern_def Let_def nth_append split: option.splits if_splits)
qed

text \<open>A sequence of \<^verbatim>\<open>intern\<close> calls on one interner.\<close>

fun intern_all :: "str list \<Rightarrow> string_interner \<Rightarrow> istr list \<times> string_interner" where
  "intern_all [] it = ([], it)"
| "intern_all (s # ss) it = (let (h, it1) = intern s it; (hs, it2) = intern_all ss it1 in (h # hs, it2))"

lemma intern_all_eq: "intern_all ss it = names.add_all ss it"
  by (induction ss arbitrary: it) (auto simp: Let_def case_prod_unfold)

lemma resolve_opt_inj:
  assumes "wf_interner it" and "resolve_opt it i = Some s" and "resolve_opt it j = Some s"
  shows "i = j"
  using assms
  by (auto simp: wf_interner_def resolve_opt_def word_unat_eq_iff nth_eq_iff_index_eq split: if_splits)

text \<open>
  interning is a faithful naming of strings: after any sequence of \<^verbatim>\<open>intern\<close> calls every
  returned handle resolves to its string, and two handles are equal exactly when the strings are,
  as long as the 32-bit handle space is not exhausted.
\<close>

theorem intern_faithful:
  assumes "wf_interner it" and "interner_fits (snd (intern_all names it))"
    and "i < length names" and "j < length names"
  shows "interner_resolve (snd (intern_all names it)) (fst (intern_all names it) ! i) = Ok (names ! i)
    \<and> (fst (intern_all names it) ! i = fst (intern_all names it) ! j \<longleftrightarrow> names ! i = names ! j)"
proof -
  let ?it = "snd (intern_all names it)" and ?hs = "fst (intern_all names it)"
  have m: "map (resolve_opt ?it) ?hs = map Some names" and w: "wf_interner ?it"
    using assms(1,2) names.add_all_get names.add_all_wf unfolding intern_all_eq by blast+
  from m have "length ?hs = length names" by (metis length_map)
  with m assms(3,4) have r: "resolve_opt ?it (?hs ! i) = Some (names ! i)"
    "resolve_opt ?it (?hs ! j) = Some (names ! j)" by (metis nth_map)+
  then show ?thesis using resolve_opt_inj [OF w] interner_resolve_opt by (metis option.inject)
qed

theorem intern_faithful_witness:
  "interner_resolve (snd (intern_all [[97], [98], [97]] interner_new))
     (fst (intern_all [[97], [98], [97]] interner_new) ! 2) = (Ok [97] :: (unit, str) result)
   \<and> fst (intern_all [[97], [98], [97]] interner_new) ! 2
     = fst (intern_all [[97], [98], [97]] interner_new) ! 0"
proof -
  have "interner_fits (snd (intern_all [[97], [98], [97 :: u8]] interner_new))"
    by (simp add: interner_fits_def intern_def interner_new_def Let_def)
  from intern_faithful [OF wf_interner_new this, of 2 0] show ?thesis by simp
qed

end
