(* ===== verification/Symbol_Table.thy ===== *)
theory Symbol_Table
  imports Interner
begin

text \<open>
  \<^verbatim>\<open>SymbolTable\<close> of \<^verbatim>\<open>src/resolve.rs\<close>: the eight states a name can be in, the resolution matrix
  run by \<^verbatim>\<open>insert\<close>, the alias-cycle guard, and the alias walk \<^verbatim>\<open>resolve_chain\<close>. An operation that
  returns an error leaves the table as it was (every early return of the source precedes the first
  write), so the table is part of the successful outcome only. \<^verbatim>\<open>unreachable!()\<close> and out-of-range
  indexing are \<^const>\<open>Panic\<close>.
\<close>

section \<open>Symbols\<close>

type_synonym input_id = u32
type_synonym atom_id = u32
type_synonym dylib_id = u32
type_synonym archive_id = u32
type_synonym member_id = u64
type_synonym symbol_id = u32

text \<open>
  Arguments in the order of the source's fields: \<^verbatim>\<open>name, origin, weak_ref\<close>;
  \<^verbatim>\<open>name, origin, atom, value, weak, private_extern, no_dead_strip\<close>;
  \<^verbatim>\<open>name, origin, value, weak, private_extern, no_dead_strip\<close>;
  \<^verbatim>\<open>name, origin, size, align_pow2, private_extern, no_dead_strip\<close>;
  \<^verbatim>\<open>name, dylib, ordinal, weak_import\<close>; \<^verbatim>\<open>name, archive, member\<close>; \<^verbatim>\<open>name, origin\<close>;
  \<^verbatim>\<open>name, aliased, origin, private_extern\<close>.
\<close>

datatype symbol =
    Undefined istr input_id bool
  | Defined istr input_id atom_id u64 bool bool bool
  | Absolute istr input_id u64 bool bool bool
  | Common istr input_id u64 u8 bool bool
  | DylibImport istr dylib_id u16 bool
  | LazyArchive istr archive_id member_id
  | LazyObject istr input_id
  | Alias istr istr input_id bool

datatype symbol_kind_tag =
  KUndefined | KDefined | KCommon | KDylibImport | KLazyArchive | KLazyObject | KAlias

fun sym_name :: "symbol \<Rightarrow> istr" where
  "sym_name (Undefined n _ _) = n"
| "sym_name (Defined n _ _ _ _ _ _) = n"
| "sym_name (Absolute n _ _ _ _ _) = n"
| "sym_name (Common n _ _ _ _ _) = n"
| "sym_name (DylibImport n _ _ _) = n"
| "sym_name (LazyArchive n _ _) = n"
| "sym_name (LazyObject n _) = n"
| "sym_name (Alias n _ _ _) = n"

fun sym_kind :: "symbol \<Rightarrow> symbol_kind_tag" where
  "sym_kind (Undefined _ _ _) = KUndefined"
| "sym_kind (Defined _ _ _ _ _ _ _) = KDefined"
| "sym_kind (Absolute _ _ _ _ _ _) = KDefined"
| "sym_kind (Common _ _ _ _ _ _) = KCommon"
| "sym_kind (DylibImport _ _ _ _) = KDylibImport"
| "sym_kind (LazyArchive _ _ _) = KLazyArchive"
| "sym_kind (LazyObject _ _) = KLazyObject"
| "sym_kind (Alias _ _ _ _) = KAlias"

fun is_strong_defined :: "symbol \<Rightarrow> bool" where
  "is_strong_defined (Defined _ _ _ _ weak _ _) = (\<not> weak)"
| "is_strong_defined (Absolute _ _ _ weak _ _) = (\<not> weak)"
| "is_strong_defined _ = False"

fun is_weak_defined :: "symbol \<Rightarrow> bool" where
  "is_weak_defined (Defined _ _ _ _ weak _ _) = weak"
| "is_weak_defined (Absolute _ _ _ weak _ _) = weak"
| "is_weak_defined _ = False"

definition is_strong_definition :: "symbol \<Rightarrow> bool" where
  "is_strong_definition s \<longleftrightarrow> is_strong_defined s \<or> (case s of Alias _ _ _ _ \<Rightarrow> True | _ \<Rightarrow> False)"

section \<open>The table\<close>

datatype insert_outcome =
    Inserted symbol_id
  | Replaced symbol_id symbol_kind_tag symbol_kind_tag
  | Kept symbol_id
  | CommonCoalesced symbol_id
  | PendingArchiveFetch symbol_id archive_id member_id
  | PendingObjectLoad symbol_id input_id

datatype insert_error =
    DuplicateStrong istr symbol_id symbol
  | AliasCycle istr

datatype resolve_error = Unknown istr | ChainCycle istr

datatype transition_cause = CInserted | CReplaced | CCommonCoalesced

record transition =
  tr_id :: symbol_id
  tr_from :: symbol_kind_tag
  tr_to :: symbol_kind_tag
  tr_cause :: transition_cause

record symbol_table =
  interner :: string_interner
  symbols :: "symbol list"
  by_name :: "istr \<rightharpoonup> symbol_id"
  transitions :: "transition list"

datatype action =
    AKeep
  | ACoalesceUndefined
  | AReplace
  | AReplaceAndPendingArchiveFetch
  | ACoalesceCommon
  | APendingArchiveFetch
  | APendingObjectLoad

abbreviation (input) MAX_ALIAS_DEPTH :: nat where "MAX_ALIAS_DEPTH \<equiv> 32"

definition table_new :: symbol_table where
  "table_new = \<lparr>interner = interner_new, symbols = [], by_name = Map.empty, transitions = []\<rparr>"

definition table_intern :: "str \<Rightarrow> symbol_table \<Rightarrow> istr \<times> symbol_table" where
  "table_intern s t = (let (i, it) = intern s (interner t) in (i, t\<lparr>interner := it\<rparr>))"

definition lookup :: "symbol_table \<Rightarrow> istr \<Rightarrow> symbol_id option" where
  "lookup t n = by_name t n"

definition lookup_str :: "symbol_table \<Rightarrow> str \<Rightarrow> symbol_id option" where
  "lookup_str t s = (case interner_get (interner t) s of None \<Rightarrow> None | Some n \<Rightarrow> lookup t n)"

definition get_sym :: "symbol_table \<Rightarrow> symbol_id \<Rightarrow> ('e, symbol) result" where
  "get_sym t sid = index (symbols t) (unat sid)"

definition set_sym :: "symbol_id \<Rightarrow> symbol \<Rightarrow> symbol_table \<Rightarrow> ('e, symbol_table) result" where
  "set_sym sid s t =
     (if unat sid < length (symbols t) then Ok (t\<lparr>symbols := (symbols t)[unat sid := s]\<rparr>) else Panic)"

definition push_transition ::
  "symbol_id \<Rightarrow> symbol_kind_tag \<Rightarrow> symbol_kind_tag \<Rightarrow> transition_cause \<Rightarrow> symbol_table \<Rightarrow> symbol_table" where
  "push_transition sid from to cause t =
     t\<lparr>transitions := transitions t @ [\<lparr>tr_id = sid, tr_from = from, tr_to = to, tr_cause = cause\<rparr>]\<rparr>"

definition bind_atom :: "symbol_id \<Rightarrow> atom_id \<Rightarrow> u64 \<Rightarrow> symbol_table \<Rightarrow> ('e, symbol_table) result" where
  "bind_atom sid atom val t =
     rbind (get_sym t sid) (\<lambda>s. case s of
         Defined n orig _ _ w p d \<Rightarrow> set_sym sid (Defined n orig atom val w p d) t
       | _ \<Rightarrow> Ok t)"

definition materialize_common :: "symbol_id \<Rightarrow> atom_id \<Rightarrow> symbol_table \<Rightarrow> ('e, symbol_table) result" where
  "materialize_common sid atom t =
     rbind (get_sym t sid) (\<lambda>s. case s of
         Common n orig _ _ p d \<Rightarrow> set_sym sid (Defined n orig atom 0 False p d) t
       | _ \<Rightarrow> Panic)"

text \<open>The write of \<^verbatim>\<open>classify_unresolved\<close>: an undefined symbol becomes an import looked up in every library.\<close>

abbreviation (input) FLAT_LOOKUP_ORDINAL :: u16 where "FLAT_LOOKUP_ORDINAL \<equiv> 0xFFFE"
abbreviation (input) DYLIB_INVALID :: dylib_id where "DYLIB_INVALID \<equiv> 0xFFFFFFFF"

definition promote_to_flat_lookup :: "symbol_id \<Rightarrow> istr \<Rightarrow> bool \<Rightarrow> symbol_table \<Rightarrow> ('e, symbol_table) result" where
  "promote_to_flat_lookup sid nm weak_import t =
     rbind (set_sym sid (DylibImport nm DYLIB_INVALID FLAT_LOOKUP_ORDINAL weak_import) t) (\<lambda>t.
     Ok (push_transition sid KUndefined KDylibImport CReplaced t))"

definition push_new :: "symbol \<Rightarrow> symbol_table \<Rightarrow> symbol_id \<times> symbol_table" where
  "push_new s t =
     (let sid = of_nat (length (symbols t)) in
      (sid, t\<lparr>symbols := symbols t @ [s], by_name := (by_name t)(sym_name s \<mapsto> sid)\<rparr>))"

section \<open>Aliases\<close>

fun alias_walk :: "nat \<Rightarrow> symbol_table \<Rightarrow> istr \<Rightarrow> istr \<Rightarrow> ('e, bool) result" where
  "alias_walk 0 t new_name current = Ok True"
| "alias_walk (Suc k) t new_name current =
     (if current = new_name then Ok True
      else case by_name t current of
        None \<Rightarrow> Ok False
      | Some sid \<Rightarrow> rbind (get_sym t sid) (\<lambda>s. case s of
            Alias _ aliased _ _ \<Rightarrow> alias_walk k t new_name aliased
          | _ \<Rightarrow> Ok False))"

definition alias_would_cycle :: "symbol_table \<Rightarrow> istr \<Rightarrow> istr \<Rightarrow> ('e, bool) result" where
  "alias_would_cycle t new_name target =
     (if new_name = target then Ok True else alias_walk MAX_ALIAS_DEPTH t new_name target)"

fun chain_walk :: "nat \<Rightarrow> symbol_table \<Rightarrow> istr \<Rightarrow> istr \<Rightarrow> (resolve_error, symbol_id \<times> symbol) result" where
  "chain_walk 0 t start current = Err (ChainCycle start)"
| "chain_walk (Suc k) t start current =
     (case by_name t current of
        None \<Rightarrow> Err (Unknown start)
      | Some sid \<Rightarrow> rbind (get_sym t sid) (\<lambda>s. case s of
            Alias _ aliased _ _ \<Rightarrow> chain_walk k t start aliased
          | _ \<Rightarrow> Ok (sid, s)))"

definition resolve_chain :: "symbol_table \<Rightarrow> istr \<Rightarrow> (resolve_error, symbol_id \<times> symbol) result" where
  "resolve_chain t n = chain_walk MAX_ALIAS_DEPTH t n n"

definition lookup_resolved_str :: "symbol_table \<Rightarrow> str \<Rightarrow> symbol_id option" where
  "lookup_resolved_str t s =
     (case interner_get (interner t) s of
        None \<Rightarrow> None
      | Some n \<Rightarrow> (case resolve_chain t n of Ok (sid, _) \<Rightarrow> Some sid | _ \<Rightarrow> None))"

section \<open>Insertion\<close>

definition defined_vs_defined ::
  "symbol_table \<Rightarrow> symbol_id \<Rightarrow> symbol \<Rightarrow> (insert_error, action) result" where
  "defined_vs_defined t existing_id new =
     rbind (get_sym t existing_id) (\<lambda>existing.
       case (is_strong_defined existing, is_strong_defined new) of
         (True, True) \<Rightarrow> Err (DuplicateStrong (sym_name new) existing_id new)
       | (False, True) \<Rightarrow> Ok AReplace
       | (True, False) \<Rightarrow> Ok AKeep
       | (False, False) \<Rightarrow> Ok AKeep)"

definition resolution_matrix ::
  "symbol_table \<Rightarrow> symbol_id \<Rightarrow> symbol \<Rightarrow> symbol_kind_tag \<Rightarrow> (insert_error, action) result" where
  "resolution_matrix t existing_id nsym existing_kind =
     (case existing_kind of
        KUndefined \<Rightarrow> (case sym_kind nsym of
            KUndefined \<Rightarrow> Ok ACoalesceUndefined
          | KDefined \<Rightarrow> Ok AReplace
          | KCommon \<Rightarrow> Ok AReplace
          | KDylibImport \<Rightarrow> Ok AReplace
          | KLazyObject \<Rightarrow> Ok AReplace
          | KLazyArchive \<Rightarrow> Ok AReplaceAndPendingArchiveFetch
          | KAlias \<Rightarrow> Panic)
      | KDefined \<Rightarrow> (case sym_kind nsym of
            KDefined \<Rightarrow> defined_vs_defined t existing_id nsym
          | KAlias \<Rightarrow> Panic
          | _ \<Rightarrow> Ok AKeep)
      | KCommon \<Rightarrow> (case sym_kind nsym of
            KUndefined \<Rightarrow> Ok AKeep
          | KDefined \<Rightarrow> Ok AReplace
          | KCommon \<Rightarrow> Ok ACoalesceCommon
          | KAlias \<Rightarrow> Panic
          | _ \<Rightarrow> Ok AKeep)
      | KDylibImport \<Rightarrow> (case sym_kind nsym of
            KUndefined \<Rightarrow> Ok AKeep
          | KDefined \<Rightarrow> Ok AReplace
          | KAlias \<Rightarrow> Panic
          | _ \<Rightarrow> Ok AKeep)
      | KLazyArchive \<Rightarrow> (case sym_kind nsym of
            KUndefined \<Rightarrow> Ok APendingArchiveFetch
          | KDefined \<Rightarrow> Ok AReplace
          | KCommon \<Rightarrow> Ok AReplace
          | KDylibImport \<Rightarrow> Ok AReplace
          | KLazyObject \<Rightarrow> Ok AReplace
          | KLazyArchive \<Rightarrow> Ok AKeep
          | KAlias \<Rightarrow> Panic)
      | KLazyObject \<Rightarrow> (case sym_kind nsym of
            KUndefined \<Rightarrow> Ok APendingObjectLoad
          | KDefined \<Rightarrow> Ok AReplace
          | KCommon \<Rightarrow> Ok AReplace
          | KDylibImport \<Rightarrow> Ok AReplace
          | KLazyArchive \<Rightarrow> Ok AReplace
          | KLazyObject \<Rightarrow> Ok AKeep
          | KAlias \<Rightarrow> Panic)
      | KAlias \<Rightarrow>
          if sym_kind nsym = KDefined \<and> is_strong_defined nsym
          then Err (DuplicateStrong (sym_name nsym) existing_id nsym)
          else Ok AKeep)"

definition coalesce_undefined :: "symbol_id \<Rightarrow> symbol \<Rightarrow> symbol_table \<Rightarrow> ('e, symbol_table) result" where
  "coalesce_undefined sid incoming t =
     rbind (get_sym t sid) (\<lambda>slot.
       case (slot, incoming) of
         (Undefined n orig w, Undefined _ _ w') \<Rightarrow> set_sym sid (Undefined n orig (w \<and> w')) t
       | _ \<Rightarrow> Panic)"

definition coalesce_common :: "symbol_id \<Rightarrow> symbol \<Rightarrow> symbol_table \<Rightarrow> ('e, symbol_table) result" where
  "coalesce_common sid incoming t =
     rbind (get_sym t sid) (\<lambda>slot.
       case (slot, incoming) of
         (Common _ _ existing_size _ _ _, Common _ _ incoming_size _ _ _) \<Rightarrow>
           if incoming_size \<ge> existing_size then set_sym sid incoming t else Ok t
       | _ \<Rightarrow> Panic)"

definition apply_action ::
  "symbol_id \<Rightarrow> symbol \<Rightarrow> symbol_kind_tag \<Rightarrow> symbol_kind_tag \<Rightarrow> action \<Rightarrow> symbol_table
    \<Rightarrow> ('e, insert_outcome \<times> symbol_table) result" where
  "apply_action sid nsym from to act t =
     (case act of
        AKeep \<Rightarrow> Ok (Kept sid, t)
      | ACoalesceUndefined \<Rightarrow> rbind (coalesce_undefined sid nsym t) (\<lambda>t'. Ok (Kept sid, t'))
      | AReplace \<Rightarrow>
          rbind (get_sym t sid) (\<lambda>slot.
          let nsym' = (case (slot, nsym) of
                 (Undefined _ _ wr, DylibImport n d ord wi) \<Rightarrow> DylibImport n d ord (wi \<or> wr)
               | _ \<Rightarrow> nsym) in
          rbind (set_sym sid nsym' t) (\<lambda>t'.
            Ok (Replaced sid from to, push_transition sid from to CReplaced t')))
      | AReplaceAndPendingArchiveFetch \<Rightarrow>
          (case nsym of
             LazyArchive _ ar mem \<Rightarrow>
               rbind (set_sym sid nsym t) (\<lambda>t'.
                 Ok (PendingArchiveFetch sid ar mem, push_transition sid from to CReplaced t'))
           | _ \<Rightarrow> Panic)
      | ACoalesceCommon \<Rightarrow>
          rbind (coalesce_common sid nsym t) (\<lambda>t'.
            Ok (CommonCoalesced sid, push_transition sid from to CCommonCoalesced t'))
      | APendingArchiveFetch \<Rightarrow>
          rbind (get_sym t sid) (\<lambda>slot. case slot of
              LazyArchive _ ar mem \<Rightarrow> Ok (PendingArchiveFetch sid ar mem, t)
            | _ \<Rightarrow> Panic)
      | APendingObjectLoad \<Rightarrow>
          rbind (get_sym t sid) (\<lambda>slot. case slot of
              LazyObject _ orig \<Rightarrow> Ok (PendingObjectLoad sid orig, t)
            | _ \<Rightarrow> Panic))"

definition insert_vacant :: "symbol \<Rightarrow> symbol_table \<Rightarrow> (insert_error, insert_outcome \<times> symbol_table) result" where
  "insert_vacant nsym t =
     rbind (case nsym of Alias n aliased _ _ \<Rightarrow> alias_would_cycle t n aliased | _ \<Rightarrow> Ok False) (\<lambda>cyc.
     if cyc then Err (AliasCycle (sym_name nsym))
     else
       let (sid, t') = push_new nsym t in
       Ok (Inserted sid, push_transition sid (sym_kind nsym) (sym_kind nsym) CInserted t'))"

definition insert_alias ::
  "symbol_id \<Rightarrow> symbol \<Rightarrow> symbol_kind_tag \<Rightarrow> symbol_table
    \<Rightarrow> (insert_error, insert_outcome \<times> symbol_table) result" where
  "insert_alias existing_id nsym existing_kind t =
     rbind (get_sym t existing_id) (\<lambda>existing.
     if is_strong_definition existing then Err (DuplicateStrong (sym_name nsym) existing_id nsym)
     else case nsym of
       Alias n aliased _ _ \<Rightarrow>
         rbind (alias_would_cycle t n aliased) (\<lambda>cyc.
         if cyc then Err (AliasCycle n)
         else apply_action existing_id nsym existing_kind (sym_kind nsym) AReplace t)
     | _ \<Rightarrow> Panic)"

definition insert_sym :: "symbol \<Rightarrow> symbol_table \<Rightarrow> (insert_error, insert_outcome \<times> symbol_table) result" where
  "insert_sym nsym t =
     (case by_name t (sym_name nsym) of
        None \<Rightarrow> insert_vacant nsym t
      | Some existing_id \<Rightarrow>
          rbind (get_sym t existing_id) (\<lambda>existing.
          if sym_kind nsym = KAlias then insert_alias existing_id nsym (sym_kind existing) t
          else
            rbind (resolution_matrix t existing_id nsym (sym_kind existing)) (\<lambda>act.
            apply_action existing_id nsym (sym_kind existing) (sym_kind nsym) act t)))"

end
