(* ===== verification/Resolution.thy ===== *)
theory Resolution
  imports Symbol_Table
begin

text \<open>
  Correctness of the symbol table. The abstract view of a table is a finite map from names to
  symbols. On it the 49-entry resolution matrix of \<^verbatim>\<open>SymbolTable::insert\<close> is a single rule: every
  symbol has a \<open>strength\<close>, the stronger symbol wins, and only equals are treated specially
  (\<open>merge\<close>). The refinement lemma says that \<open>insert_sym\<close> implements that rule; the invariant
  says that identifiers, the name map and the alias graph stay consistent in every reachable table.
\<close>

section \<open>Abstract specification\<close>

fun strength :: "symbol \<Rightarrow> nat" where
  "strength (Undefined _ _ _) = 0"
| "strength (LazyArchive _ _ _) = 1"
| "strength (LazyObject _ _) = 1"
| "strength (Common _ _ _ _ _ _) = 2"
| "strength (DylibImport _ _ _ _) = 2"
| "strength (Defined _ _ _ _ weak _ _) = (if weak then 3 else 4)"
| "strength (Absolute _ _ _ weak _ _) = (if weak then 3 else 4)"
| "strength (Alias _ _ _ _) = 4"

fun merge :: "symbol \<Rightarrow> symbol \<Rightarrow> symbol" where
  "merge (Undefined n orig w) (Undefined _ _ w') = Undefined n orig (w \<and> w')"
| "merge (Undefined _ _ w) (DylibImport n d ord wi) = DylibImport n d ord (wi \<or> w)"
| "merge (Common n orig sz al p d) (Common n' orig' sz' al' p' d') =
     (if sz' \<ge> sz then Common n' orig' sz' al' p' d' else Common n orig sz al p d)"
| "merge (LazyArchive _ _ _) (LazyObject n orig) = LazyObject n orig"
| "merge (LazyObject _ _) (LazyArchive n ar m) = LazyArchive n ar m"
| "merge old new = (if strength old < strength new then new else old)"

definition view :: "symbol_table \<Rightarrow> istr \<Rightarrow> symbol option" where
  "view t n = map_option (\<lambda>sid. symbols t ! unat sid) (by_name t n)"

definition alias_next :: "(istr \<Rightarrow> symbol option) \<Rightarrow> istr \<Rightarrow> istr option" where
  "alias_next m n = (case m n of Some (Alias _ a _ _) \<Rightarrow> Some a | _ \<Rightarrow> None)"

definition alias_rel :: "(istr \<Rightarrow> symbol option) \<Rightarrow> (istr \<times> istr) set" where
  "alias_rel m = {(n, a). alias_next m n = Some a}"

fun walk_hits :: "nat \<Rightarrow> (istr \<Rightarrow> symbol option) \<Rightarrow> istr \<Rightarrow> istr \<Rightarrow> bool" where
  "walk_hits 0 m new_name cur = True"
| "walk_hits (Suc k) m new_name cur =
     (cur = new_name \<or> (case alias_next m cur of None \<Rightarrow> False | Some a \<Rightarrow> walk_hits k m new_name a))"

definition rejects :: "(istr \<Rightarrow> symbol option) \<Rightarrow> symbol \<Rightarrow> bool" where
  "rejects m s \<longleftrightarrow>
     (case m (sym_name s) of Some e \<Rightarrow> strength e = 4 \<and> strength s = 4 | None \<Rightarrow> False)
     \<or> (case s of Alias n a _ _ \<Rightarrow> n = a \<or> walk_hits MAX_ALIAS_DEPTH m n a | _ \<Rightarrow> False)"

definition spec_insert :: "symbol \<Rightarrow> (istr \<Rightarrow> symbol option) \<Rightarrow> (istr \<Rightarrow> symbol option)" where
  "spec_insert s m =
     m(sym_name s \<mapsto> (case m (sym_name s) of None \<Rightarrow> s | Some e \<Rightarrow> merge e s))"

section \<open>Identifiers\<close>

definition wf_ids :: "symbol_table \<Rightarrow> bool" where
  "wf_ids t \<longleftrightarrow> length (symbols t) \<le> 2 ^ 32 \<and>
     (\<forall>n sid. by_name t n = Some sid \<longleftrightarrow>
        unat sid < length (symbols t) \<and> sym_name (symbols t ! unat sid) = n)"

lemma wf_idsD:
  assumes "wf_ids t" and "by_name t n = Some sid"
  shows "unat sid < length (symbols t)" and "sym_name (symbols t ! unat sid) = n"
  using assms by (auto simp: wf_ids_def)

lemma get_sym_ok: "wf_ids t \<Longrightarrow> by_name t n = Some sid \<Longrightarrow> get_sym t sid = Ok (symbols t ! unat sid)"
  by (simp add: get_sym_def wf_idsD(1))

lemma view_name: "wf_ids t \<Longrightarrow> view t n = Some s \<Longrightarrow> sym_name s = n"
  by (auto simp: view_def wf_idsD(2))

lemma wf_ids_update:
  assumes "wf_ids t" and "by_name t n = Some sid" and "sym_name s = n"
  shows "wf_ids (t\<lparr>symbols := (symbols t)[unat sid := s], transitions := tr\<rparr>)"
    and "view (t\<lparr>symbols := (symbols t)[unat sid := s], transitions := tr\<rparr>) = (view t)(n \<mapsto> s)"
proof -
  note b = wf_idsD [OF assms(1,2)]
  show "wf_ids (t\<lparr>symbols := (symbols t)[unat sid := s], transitions := tr\<rparr>)"
    using assms(1,3) b by (auto simp: wf_ids_def nth_list_update)
  show "view (t\<lparr>symbols := (symbols t)[unat sid := s], transitions := tr\<rparr>) = (view t)(n \<mapsto> s)"
  proof
    fix m
    show "view (t\<lparr>symbols := (symbols t)[unat sid := s], transitions := tr\<rparr>) m = ((view t)(n \<mapsto> s)) m"
    proof (cases "m = n")
      case True
      then show ?thesis using assms(2) b(1) by (simp add: view_def)
    next
      case False
      have "unat sid' \<noteq> unat sid" if "by_name t m = Some sid'" for sid'
        using wf_idsD(2) [OF assms(1) that] b(2) False by auto
      then show ?thesis using False by (cases "by_name t m") (auto simp: view_def)
    qed
  qed
qed

lemma wf_ids_push:
  assumes "wf_ids t" and "by_name t (sym_name s) = None" and "length (symbols t) < 2 ^ 32"
  shows "wf_ids (push_transition i k1 k2 c (snd (push_new s t)))"
    and "view (push_transition i k1 k2 c (snd (push_new s t))) = (view t)(sym_name s \<mapsto> s)"
proof -
  let ?n = "length (symbols t)"
  let ?t = "push_transition i k1 k2 c (snd (push_new s t))"
  have sy: "symbols ?t = symbols t @ [s]" and bn: "by_name ?t = (by_name t)(sym_name s \<mapsto> of_nat ?n)"
    by (simp_all add: push_transition_def push_new_def Let_def)
  have eq: "sid = of_nat ?n \<longleftrightarrow> unat sid = ?n" for sid :: u32
    using assms(3) by (simp add: word_unat_eq_iff unat_of_nat_u32)
  have new: "sym_name (symbols t ! unat sid) \<noteq> sym_name s" if "unat sid < ?n" for sid :: u32
    using that assms(1,2) by (metis option.distinct(1) wf_ids_def)
  show "wf_ids ?t"
    using assms new unfolding wf_ids_def sy bn
    by (auto simp: nth_append unat_of_nat_u32 eq [symmetric] less_Suc_eq split: if_splits)
  show "view ?t = (view t)(sym_name s \<mapsto> s)"
  proof
    fix m show "view ?t m = ((view t)(sym_name s \<mapsto> s)) m"
      unfolding view_def sy bn using assms(3) wf_idsD(1) [OF assms(1), of m]
      by (cases "by_name t m") (auto simp: nth_append unat_of_nat_u32)
  qed
qed

section \<open>Insertion refines the specification\<close>

lemma alias_walk_spec: "wf_ids t \<Longrightarrow> alias_walk k t n cur = Ok (walk_hits k (view t) n cur)"
proof (induction k arbitrary: cur)
  case (Suc k)
  show ?case
  proof (cases "by_name t cur")
    case None
    then show ?thesis by (simp add: alias_next_def view_def)
  next
    case (Some sid)
    have "view t cur = Some (symbols t ! unat sid)" using Some by (simp add: view_def)
    then show ?thesis
      using Suc Some
      by (cases "symbols t ! unat sid") (simp_all add: alias_next_def get_sym_ok)
  qed
qed simp

lemma alias_would_cycle_spec:
  "wf_ids t \<Longrightarrow>
   alias_would_cycle t n a = Ok (n = a \<or> walk_hits MAX_ALIAS_DEPTH (view t) n a)"
  unfolding alias_would_cycle_def by (simp only: alias_walk_spec) simp

lemma strength_4: "is_strong_definition s \<longleftrightarrow> strength s = 4"
  by (cases s) (auto simp: is_strong_definition_def)

lemma sym_name_merge: "sym_name e = sym_name s \<Longrightarrow> sym_name (merge e s) = sym_name s"
  by (cases "(e, s)" rule: merge.cases) auto

lemma set_sym_ok:
  "wf_ids t \<Longrightarrow> by_name t n = Some sid \<Longrightarrow>
   set_sym sid s t = Ok (t\<lparr>symbols := (symbols t)[unat sid := s]\<rparr>)"
  by (simp add: set_sym_def wf_idsD(1))

lemma insert_vacant_spec:
  assumes "wf_ids t" and "by_name t (sym_name s) = None"
  shows "insert_sym s t =
    (if rejects (view t) s then Err (AliasCycle (sym_name s))
     else Ok (Inserted (of_nat (length (symbols t))),
       push_transition (of_nat (length (symbols t))) (sym_kind s) (sym_kind s) CInserted
         (snd (push_new s t))))"
  using assms
  by (cases s) (simp_all add: insert_sym_def insert_vacant_def push_new_def Let_def rejects_def view_def
      alias_would_cycle_spec split: if_splits)

lemmas insert_defs = insert_sym_def insert_alias_def resolution_matrix_def defined_vs_defined_def
  apply_action_def coalesce_undefined_def coalesce_common_def push_transition_def

lemma insert_occupied:
  assumes wf: "wf_ids t" and sid: "by_name t (sym_name s) = Some sid" and e: "symbols t ! unat sid = e"
  shows "\<not> rejects (view t) s \<Longrightarrow> \<exists>out t'. insert_sym s t = Ok (out, t')
      \<and> symbols t' = (symbols t)[unat sid := merge e s] \<and> by_name t' = by_name t \<and> interner t' = interner t"
    and "rejects (view t) s \<Longrightarrow> \<exists>err. insert_sym s t = Err err"
proof -
  have same: "(symbols t)[unat sid := e] = symbols t" using e by auto
  have len: "unat sid < length (symbols t)" using wf sid by (rule wf_idsD)
  have v: "view t (sym_name s) = Some e" using sid e by (simp add: view_def)
  have gs: "get_sym t sid = (Ok e :: (insert_error, symbol) result)" using get_sym_ok [OF wf sid] e by simp
  show "\<exists>out t'. insert_sym s t = Ok (out, t')
      \<and> symbols t' = (symbols t)[unat sid := merge e s] \<and> by_name t' = by_name t \<and> interner t' = interner t"
    if "\<not> rejects (view t) s"
    using sid that v wf same gs len
    by (cases e; cases s)
      (auto simp: insert_defs set_sym_def rejects_def alias_would_cycle_spec strength_4 split: if_splits)
  show "\<exists>err. insert_sym s t = Err err" if "rejects (view t) s"
    using sid that v wf gs
    by (cases e; cases s)
      (auto simp: insert_defs rejects_def alias_would_cycle_spec strength_4 split: if_splits)
qed

lemma wf_ids_cong:
  "symbols t' = symbols t \<Longrightarrow> by_name t' = by_name t \<Longrightarrow> wf_ids t' = wf_ids t \<and> view t' = view t"
  by (auto simp: wf_ids_def view_def fun_eq_iff)

lemma slot_update:
  assumes "wf_ids t" and "by_name t n = Some sid" and "sym_name s = n"
    and "symbols t' = (symbols t)[unat sid := s]" and "by_name t' = by_name t"
  shows "wf_ids t'" and "view t' = (view t)(n \<mapsto> s)"
  using wf_ids_update [OF assms(1-3), of "transitions t"]
    wf_ids_cong [of t' "t\<lparr>symbols := (symbols t)[unat sid := s], transitions := transitions t\<rparr>"] assms(4,5)
  by auto

lemma insert_refines:
  assumes wf: "wf_ids t" and room: "length (symbols t) < 2 ^ 32"
  shows "case insert_sym s t of
      Ok (out, t') \<Rightarrow> \<not> rejects (view t) s \<and> wf_ids t' \<and> view t' = spec_insert s (view t)
        \<and> interner t' = interner t
    | Err e \<Rightarrow> rejects (view t) s
    | Panic \<Rightarrow> False"
proof (cases "by_name t (sym_name s)")
  case None
  then show ?thesis
    using wf_ids_push [OF wf None room]
    by (simp add: insert_vacant_spec [OF wf None] spec_insert_def view_def push_new_def push_transition_def Let_def)
next
  case (Some sid)
  let ?e = "symbols t ! unat sid"
  have v: "view t (sym_name s) = Some ?e" using Some by (simp add: view_def)
  have nm: "sym_name (merge ?e s) = sym_name s"
    using view_name [OF wf v] by (rule sym_name_merge)
  show ?thesis
  proof (cases "rejects (view t) s")
    case True
    then show ?thesis using insert_occupied(2) [OF wf Some refl] by auto
  next
    case False
    then obtain out t' where t': "insert_sym s t = Ok (out, t')"
      "symbols t' = (symbols t)[unat sid := merge ?e s]" "by_name t' = by_name t" "interner t' = interner t"
      using insert_occupied(1) [OF wf Some refl] by blast
    then show ?thesis
      using slot_update [OF wf Some nm t'(2,3)] False v by (simp add: spec_insert_def)
  qed
qed

lemma insert_OkD:
  assumes "wf_ids t" and "length (symbols t) < 2 ^ 32" and "insert_sym s t = Ok (out, t')"
  shows "\<not> rejects (view t) s" "wf_ids t'" "view t' = spec_insert s (view t)" "interner t' = interner t"
  using insert_refines [OF assms(1,2), of s] assms(3) by simp_all

section \<open>Strength\<close>

lemma strength_le: "strength s \<le> 4"
  by (cases s) auto

lemma strength_merge:
  "\<not> (strength e = 4 \<and> strength s = 4) \<Longrightarrow> strength (merge e s) = max (strength e) (strength s)"
  by (cases "(e, s)" rule: merge.cases) auto

lemma merge_strong: "strength e = 4 \<Longrightarrow> strength s \<noteq> 4 \<Longrightarrow> merge e s = e"
  using strength_le [of s] by (cases "(e, s)" rule: merge.cases) (auto split: if_splits)

lemma merge_into_strong: "strength s = 4 \<Longrightarrow> strength e \<noteq> 4 \<Longrightarrow> merge e s = s"
  using strength_le [of e] by (cases "(e, s)" rule: merge.cases) (auto split: if_splits)

section \<open>Aliases stay acyclic\<close>

lemma walk_hits_reach: "\<not> walk_hits k m n cur \<Longrightarrow> (cur, n) \<notin> (alias_rel m)\<^sup>*"
proof (induction k arbitrary: cur)
  case (Suc k)
  show ?case
  proof
    assume "(cur, n) \<in> (alias_rel m)\<^sup>*"
    then obtain a where "(cur, a) \<in> alias_rel m" "(a, n) \<in> (alias_rel m)\<^sup>*"
      using Suc.prems by (metis converse_rtranclE walk_hits.simps(2))
    then show False using Suc by (auto simp: alias_rel_def)
  qed
qed simp

lemma alias_rel_update:
  "alias_rel (m(n \<mapsto> s)) \<subseteq> alias_rel m \<union> (case s of Alias _ a _ _ \<Rightarrow> {(n, a)} | _ \<Rightarrow> {})"
  by (auto simp: alias_rel_def alias_next_def split: if_splits symbol.splits)

lemma merge_alias:
  "merge e s = Alias n a orig p \<Longrightarrow> \<not> (strength e = 4 \<and> strength s = 4) \<Longrightarrow>
   e = Alias n a orig p \<or> s = Alias n a orig p"
  by (cases "(e, s)" rule: merge.cases) (auto split: if_splits)

lemma spec_insert_acyclic:
  assumes ac: "acyclic (alias_rel m)" and ok: "\<not> rejects m s"
    and nm: "\<And>n e. m n = Some e \<Longrightarrow> sym_name e = n"
  shows "acyclic (alias_rel (spec_insert s m))"
proof -
  have sub: "alias_rel (spec_insert s m) \<subseteq>
      alias_rel m \<union> (case s of Alias n a _ _ \<Rightarrow> {(n, a)} | _ \<Rightarrow> {})"
  proof (cases "m (sym_name s)")
    case None
    then show ?thesis
      using alias_rel_update [of m "sym_name s" s]
      by (cases s) (simp_all add: spec_insert_def)
  next
    case (Some e)
    have ns: "\<not> (strength e = 4 \<and> strength s = 4)" using ok Some by (simp add: rejects_def)
    have upd: "spec_insert s m = m(sym_name s \<mapsto> merge e s)" using Some by (simp add: spec_insert_def)
    show ?thesis
    proof (cases "sym_kind (merge e s) = KAlias")
      case False
      then show ?thesis
        unfolding upd using alias_rel_update [of m "sym_name s" "merge e s"] by (cases "merge e s") auto
    next
      case True
      then obtain n a orig p where al: "merge e s = Alias n a orig p" by (cases "merge e s") auto
      show ?thesis
      proof (cases "e = Alias n a orig p")
        case True
        then have "spec_insert s m = m" using al Some upd by (simp add: fun_upd_idem)
        then show ?thesis by simp
      next
        case False
        then have "s = Alias n a orig p" using merge_alias [OF al ns] by simp
        then show ?thesis
          unfolding upd al using alias_rel_update [of m n "Alias n a orig p"] by simp
      qed
    qed
  qed
  show ?thesis
  proof (cases s)
    case (Alias n a orig p)
    then have "\<not> walk_hits MAX_ALIAS_DEPTH m n a" using ok by (simp add: rejects_def)
    then have "acyclic (insert (n, a) (alias_rel m))"
      using ac walk_hits_reach by (simp add: acyclic_insert)
    moreover have "alias_rel (spec_insert s m) \<subseteq> insert (n, a) (alias_rel m)" using sub Alias by simp
    ultimately show ?thesis by (rule acyclic_subset)
  qed (use sub ac in \<open>auto intro: acyclic_subset\<close>)
qed

section \<open>Reachable tables\<close>

text \<open>
  The operations the linker performs on its one symbol table, in any order. The guards keep the
  32-bit identifier spaces from being exhausted.
\<close>

inductive reachable :: "symbol_table \<Rightarrow> bool" where
  new: "reachable table_new"
| interned: "reachable t \<Longrightarrow> interner_fits (interner (snd (table_intern s t))) \<Longrightarrow>
    reachable (snd (table_intern s t))"
| inserted: "reachable t \<Longrightarrow> length (symbols t) < 2 ^ 32 \<Longrightarrow> insert_sym s t = Ok (out, t') \<Longrightarrow> reachable t'"
| bound: "reachable t \<Longrightarrow> bind_atom sid atom val t = (Ok t' :: (unit, symbol_table) result) \<Longrightarrow> reachable t'"
| materialized: "reachable t \<Longrightarrow>
    materialize_common sid atom t = (Ok t' :: (unit, symbol_table) result) \<Longrightarrow> reachable t'"
| promoted: "reachable t \<Longrightarrow> get_sym t sid = (Ok (Undefined nm orig weak) :: (unit, symbol) result) \<Longrightarrow>
    promote_to_flat_lookup sid nm weak t = (Ok t' :: (unit, symbol_table) result) \<Longrightarrow> reachable t'"

definition wf_table :: "symbol_table \<Rightarrow> bool" where
  "wf_table t \<longleftrightarrow> wf_interner (interner t) \<and> wf_ids t \<and> acyclic (alias_rel (view t))"

lemma slot_by_name:
  fixes sid :: symbol_id
  assumes "wf_ids t" and "unat sid < length (symbols t)"
  shows "by_name t (sym_name (symbols t ! unat sid)) = Some sid"
  using assms by (simp add: wf_ids_def)

lemma slot_rewrite_wf:
  fixes sid :: symbol_id
  assumes wf: "wf_table t" and i: "unat sid < length (symbols t)"
    and s: "sym_name s = sym_name (symbols t ! unat sid)" "sym_kind s \<noteq> KAlias"
  shows "wf_table (t\<lparr>symbols := (symbols t)[unat sid := s]\<rparr>)"
proof -
  let ?t = "t\<lparr>symbols := (symbols t)[unat sid := s]\<rparr>"
  have ids: "wf_ids t" using wf by (simp add: wf_table_def)
  have "wf_ids ?t" and v: "view ?t = (view t)(sym_name s \<mapsto> s)"
    using slot_update [OF ids slot_by_name [OF ids i] s(1), of ?t] s(1) by simp_all
  moreover have "alias_rel (view ?t) \<subseteq> alias_rel (view t)"
    using alias_rel_update [of "view t" "sym_name s" s] s(2) unfolding v by (cases s) auto
  ultimately show ?thesis using wf by (auto simp: wf_table_def intro: acyclic_subset)
qed

lemma insert_wf:
  assumes "wf_table t" and "length (symbols t) < 2 ^ 32" and "insert_sym s t = Ok (out, t')"
  shows "wf_table t'"
proof -
  have "wf_ids t" using assms(1) by (simp add: wf_table_def)
  note d = insert_OkD [OF this assms(2,3)]
  have "acyclic (alias_rel (spec_insert s (view t)))"
    using assms(1) d(1) view_name by (intro spec_insert_acyclic) (auto simp: wf_table_def)
  with d assms(1) show ?thesis by (simp add: wf_table_def)
qed

lemma bind_atom_wf:
  assumes "wf_table t" and "bind_atom sid atom val t = Ok t'"
  shows "wf_table t'"
proof (cases "unat sid < length (symbols t)")
  case True
  with assms show ?thesis
    by (cases "symbols t ! unat sid")
      (auto simp: bind_atom_def get_sym_def set_sym_def intro!: slot_rewrite_wf)
qed (use assms in \<open>simp add: bind_atom_def get_sym_def index_def\<close>)

lemma materialize_common_wf:
  assumes "wf_table t" and "materialize_common sid atom t = Ok t'"
  shows "wf_table t'"
proof (cases "unat sid < length (symbols t)")
  case True
  with assms show ?thesis
    by (cases "symbols t ! unat sid")
      (auto simp: materialize_common_def get_sym_def set_sym_def intro!: slot_rewrite_wf)
qed (use assms in \<open>simp add: materialize_common_def get_sym_def index_def\<close>)

lemma promote_wf:
  assumes "wf_table t" and "get_sym t sid = (Ok (Undefined nm orig weak) :: (unit, symbol) result)"
    and "promote_to_flat_lookup sid nm weak t = (Ok t' :: (unit, symbol_table) result)"
  shows "wf_table t'"
proof -
  let ?t = "t\<lparr>symbols := (symbols t)[unat sid := DylibImport nm DYLIB_INVALID FLAT_LOOKUP_ORDINAL weak]\<rparr>"
  have s: "unat sid < length (symbols t)" "symbols t ! unat sid = Undefined nm orig weak"
    using assms(2) by (auto simp: get_sym_def index_def split: if_splits)
  have "wf_table ?t" using assms(1) s by (intro slot_rewrite_wf) simp_all
  moreover have "symbols t' = symbols ?t" "by_name t' = by_name ?t" "interner t' = interner ?t"
    using assms(3) s(1) by (auto simp: promote_to_flat_lookup_def set_sym_def push_transition_def)
  ultimately show ?thesis using wf_ids_cong [of t' ?t] by (simp add: wf_table_def)
qed

lemma table_intern_wf:
  assumes "wf_table t" and "interner_fits (interner (snd (table_intern s t)))"
  shows "wf_table (snd (table_intern s t))"
proof -
  have "wf_interner (snd (intern s (interner t)))"
    using assms by (intro wf_interner_intern) (auto simp: wf_table_def table_intern_def case_prod_unfold Let_def)
  moreover have "symbols (snd (table_intern s t)) = symbols t" "by_name (snd (table_intern s t)) = by_name t"
    "interner (snd (table_intern s t)) = snd (intern s (interner t))"
    by (simp_all add: table_intern_def case_prod_unfold Let_def)
  ultimately show ?thesis
    using assms(1) wf_ids_cong [of "snd (table_intern s t)" t] by (simp add: wf_table_def)
qed

lemma wf_table_new: "wf_table table_new"
  by (simp add: wf_table_def table_new_def wf_interner_new wf_ids_def alias_rel_def alias_next_def
      view_def acyclic_def)

lemma reachable_wf: "reachable t \<Longrightarrow> wf_table t"
  by (induction rule: reachable.induct)
    (auto simp: wf_table_new intro: table_intern_wf insert_wf bind_atom_wf materialize_common_wf promote_wf)

section \<open>Sequences of insertions\<close>

text \<open>Inserting a list of symbols, every insertion succeeding.\<close>

fun insert_list :: "symbol list \<Rightarrow> symbol_table \<Rightarrow> (insert_error, symbol_table) result" where
  "insert_list [] t = Ok t"
| "insert_list (s # ss) t = rbind (insert_sym s t) (\<lambda>(out, t'). insert_list ss t')"

fun spec_list :: "symbol list \<Rightarrow> (istr \<Rightarrow> symbol option) \<Rightarrow> (istr \<Rightarrow> symbol option)" where
  "spec_list [] m = m"
| "spec_list (s # ss) m = spec_list ss (spec_insert s m)"

fun accepted :: "symbol list \<Rightarrow> (istr \<Rightarrow> symbol option) \<Rightarrow> bool" where
  "accepted [] m = True"
| "accepted (s # ss) m = (\<not> rejects m s \<and> accepted ss (spec_insert s m))"

lemma insert_sym_length:
  assumes "wf_ids t" and "insert_sym s t = Ok (out, t')"
  shows "length (symbols t') \<le> Suc (length (symbols t))"
proof (cases "by_name t (sym_name s)")
  case None
  then show ?thesis
    using assms by (auto simp: insert_vacant_spec push_transition_def push_new_def Let_def split: if_splits)
next
  case (Some sid)
  then show ?thesis
    using insert_occupied [OF assms(1) Some refl] assms(2)
    by (cases "rejects (view t) s") auto
qed

lemma insert_list_spec:
  assumes "wf_ids t" and "length (symbols t) + length ss \<le> 2 ^ 32" and "insert_list ss t = Ok t'"
  shows "wf_ids t' \<and> view t' = spec_list ss (view t) \<and> accepted ss (view t)"
  using assms
proof (induction ss arbitrary: t)
  case (Cons s ss)
  from Cons.prems(3) obtain out u where u: "insert_sym s t = Ok (out, u)" "insert_list ss u = Ok t'"
    by (auto simp: rbind_Ok_iff)
  have room: "length (symbols t) < 2 ^ 32" using Cons.prems(2) by simp
  have "length (symbols u) + length ss \<le> 2 ^ 32"
    using insert_sym_length [OF Cons.prems(1) u(1)] Cons.prems(2) by simp
  moreover note d = insert_OkD [OF Cons.prems(1) room u(1)]
  ultimately have "wf_ids t' \<and> view t' = spec_list ss (view u) \<and> accepted ss (view u)"
    using Cons.IH u(2) by blast
  then show ?case using d by simp
qed auto

lemma spec_list_strong:
  "accepted ss m \<Longrightarrow> m n = Some e \<Longrightarrow> strength e = 4 \<Longrightarrow>
   spec_list ss m n = Some e \<and> (\<forall>s \<in> set ss. sym_name s = n \<longrightarrow> strength s \<noteq> 4)"
proof (induction ss arbitrary: m)
  case (Cons s ss)
  have "strength s \<noteq> 4" if "sym_name s = n" using that Cons.prems by (auto simp: rejects_def)
  moreover have "spec_insert s m n = Some e"
    using calculation Cons.prems merge_strong by (auto simp: spec_insert_def)
  ultimately show ?case using Cons by auto
qed simp

lemma spec_list_wins:
  "accepted ss m \<Longrightarrow> s \<in> set ss \<Longrightarrow> strength s = 4 \<Longrightarrow> spec_list ss m (sym_name s) = Some s"
proof (induction ss arbitrary: m)
  case (Cons s' ss)
  show ?case
  proof (cases "s = s'")
    case True
    have "\<not> rejects m s" using Cons.prems(1) True by simp
    then have "spec_insert s m (sym_name s) = Some s"
      using Cons.prems(3) merge_into_strong
      by (cases "m (sym_name s)") (auto simp: spec_insert_def rejects_def)
    moreover have "accepted ss (spec_insert s m)" using Cons.prems(1) True by simp
    ultimately have "spec_list ss (spec_insert s m) (sym_name s) = Some s"
      using spec_list_strong Cons.prems(3) by blast
    then show ?thesis using True by simp
  next
    case False
    then show ?thesis using Cons by simp
  qed
qed simp

lemma spec_list_strength:
  "accepted ss m \<Longrightarrow>
   map_option strength (spec_list ss m n) =
     (let ks = map strength (filter (\<lambda>s. sym_name s = n) ss) in
      case m n of Some e \<Rightarrow> Some (fold max ks (strength e))
      | None \<Rightarrow> (case ks of [] \<Rightarrow> None | k # r \<Rightarrow> Some (fold max r k)))"
proof (induction ss arbitrary: m)
  case Nil
  then show ?case by (simp split: option.splits)
next
  case (Cons s ss)
  have st: "strength (merge e s) = max (strength s) (strength e)" if "m (sym_name s) = Some e" for e
    using that Cons.prems strength_merge [of e s] by (simp add: rejects_def max.commute)
  have IH: "map_option strength (spec_list ss (spec_insert s m) n) =
     (let ks = map strength (filter (\<lambda>s. sym_name s = n) ss) in
      case spec_insert s m n of Some e \<Rightarrow> Some (fold max ks (strength e))
      | None \<Rightarrow> (case ks of [] \<Rightarrow> None | k # r \<Rightarrow> Some (fold max r k)))"
    using Cons by simp
  show ?case
  proof (cases "sym_name s = n")
    case False
    then show ?thesis using IH by (simp add: spec_insert_def)
  next
    case True
    then show ?thesis
      using IH st by (cases "m n") (auto simp: spec_insert_def Let_def)
  qed
qed

text \<open>Tentative definitions: the sizes of the \<^verbatim>\<open>Common\<close> symbols for one name.\<close>

definition common_sizes :: "istr \<Rightarrow> symbol list \<Rightarrow> u64 set" where
  "common_sizes n ss = {sz. \<exists>orig al p d. Common n orig sz al p d \<in> set ss}"

definition is_common_of :: "symbol \<Rightarrow> u64 \<Rightarrow> bool" where
  "is_common_of s sz \<longleftrightarrow> (\<exists>n orig al p d. s = Common n orig sz al p d)"

lemma merge_common:
  assumes "is_common_of (merge e s) sz"
  shows "(\<forall>sz'. is_common_of s sz' \<longrightarrow> sz' \<le> sz) \<and> (\<forall>sz'. is_common_of e sz' \<longrightarrow> sz' \<le> sz)
    \<and> (is_common_of s sz \<or> is_common_of e sz) \<and> (strength e < 2 \<or> (\<exists>sz'. is_common_of e sz'))"
  using assms by (cases "(e, s)" rule: merge.cases) (auto simp: is_common_of_def split: if_splits)

lemma common_sizes_eq: "common_sizes n ss = {sz. \<exists>s \<in> set ss. sym_name s = n \<and> is_common_of s sz}"
  by (force simp: common_sizes_def is_common_of_def)

lemma is_common_strength: "is_common_of s sz \<Longrightarrow> strength s = 2"
  by (auto simp: is_common_of_def)

lemma merge_strength_ge: "max (strength e) (strength s) \<le> strength (merge e s)"
  by (cases "(e, s)" rule: merge.cases) auto

definition slot_common_ok :: "symbol option \<Rightarrow> u64 \<Rightarrow> bool" where
  "slot_common_ok slot sz \<longleftrightarrow>
     (\<forall>e. slot = Some e \<longrightarrow>
        (\<forall>sz'. is_common_of e sz' \<longrightarrow> sz' \<le> sz) \<and> (strength e < 2 \<or> (\<exists>sz'. is_common_of e sz')))"

lemma slot_common_step:
  assumes "slot_common_ok (Some (merge e s)) sz"
  shows "slot_common_ok (Some e) sz" and "is_common_of s sz' \<Longrightarrow> sz' \<le> sz"
proof -
  have ge: "strength e \<le> strength (merge e s)" "strength s \<le> strength (merge e s)"
    using merge_strength_ge [of e s] by auto
  show "slot_common_ok (Some e) sz"
  proof (cases "strength (merge e s) < 2")
    case True
    then show ?thesis using ge(1) is_common_strength [of e] by (auto simp: slot_common_ok_def)
  next
    case False
    then obtain sz1 where "is_common_of (merge e s) sz1" "sz1 \<le> sz"
      using assms by (auto simp: slot_common_ok_def)
    then show ?thesis using merge_common [of e s sz1] by (auto simp: slot_common_ok_def)
  qed
  show "sz' \<le> sz" if "is_common_of s sz'"
  proof -
    have "\<not> strength (merge e s) < 2" using ge(2) is_common_strength [OF that] by simp
    then obtain sz1 where "is_common_of (merge e s) sz1" "sz1 \<le> sz"
      using assms by (auto simp: slot_common_ok_def)
    then show ?thesis using merge_common [of e s sz1] that by auto
  qed
qed

lemma spec_list_common:
  assumes "spec_list ss m n = Some c" and "is_common_of c sz"
  shows "slot_common_ok (m n) sz \<and> (\<forall>s \<in> set ss. sym_name s = n \<longrightarrow> (\<forall>sz'. is_common_of s sz' \<longrightarrow> sz' \<le> sz))
    \<and> ((\<exists>s \<in> set ss. sym_name s = n \<and> is_common_of s sz) \<or> (\<exists>e. m n = Some e \<and> is_common_of e sz))"
  using assms(1)
proof (induction ss arbitrary: m)
  case Nil
  then show ?case using assms(2) by (auto simp: slot_common_ok_def is_common_of_def)
next
  case (Cons s ss)
  then have IH: "slot_common_ok (spec_insert s m n) sz"
    "\<forall>s \<in> set ss. sym_name s = n \<longrightarrow> (\<forall>sz'. is_common_of s sz' \<longrightarrow> sz' \<le> sz)"
    "(\<exists>s \<in> set ss. sym_name s = n \<and> is_common_of s sz) \<or> (\<exists>e. spec_insert s m n = Some e \<and> is_common_of e sz)"
    by auto
  show ?case
  proof (cases "sym_name s = n")
    case False
    then show ?thesis using IH by (auto simp: spec_insert_def)
  next
    case True
    show ?thesis
    proof (cases "m n")
      case None
      then have "spec_insert s m n = Some s" using True by (simp add: spec_insert_def)
      then show ?thesis using IH True None by (auto simp: slot_common_ok_def)
    next
      case (Some e)
      then have up: "spec_insert s m n = Some (merge e s)" using True by (simp add: spec_insert_def)
      have "slot_common_ok (m n) sz" "\<forall>sz'. is_common_of s sz' \<longrightarrow> sz' \<le> sz"
        using slot_common_step [of e s sz] IH(1) up Some by auto
      moreover have "is_common_of (merge e s) sz \<Longrightarrow> is_common_of s sz \<or> is_common_of e sz"
        using merge_common [of e s sz] by blast
      ultimately show ?thesis using IH(2,3) up True Some by auto
    qed
  qed
qed

section \<open>Alias chains\<close>

fun hops :: "nat \<Rightarrow> (istr \<Rightarrow> symbol option) \<Rightarrow> istr \<Rightarrow> istr option" where
  "hops 0 m n = Some n"
| "hops (Suc k) m n = (case alias_next m n of None \<Rightarrow> None | Some a \<Rightarrow> hops k m a)"

lemma hops_ex_Suc:
  "(\<exists>j < Suc k. \<exists>x. hops j m n = Some x \<and> P x) \<longleftrightarrow>
   P n \<or> (\<exists>a. alias_next m n = Some a \<and> (\<exists>j < k. \<exists>x. hops j m a = Some x \<and> P x))"
  by (auto simp: less_Suc_eq_0_disj split: option.splits)

definition chain_end :: "symbol_table \<Rightarrow> symbol_id \<Rightarrow> symbol \<Rightarrow> istr \<Rightarrow> bool" where
  "chain_end t sid s x \<longleftrightarrow> by_name t x = Some sid \<and> view t x = Some s \<and> sym_kind s \<noteq> KAlias"

lemma alias_next_alias:
  "view t x = Some (Alias n a orig p) \<Longrightarrow> alias_next (view t) x = Some a"
  "view t x = Some s \<Longrightarrow> sym_kind s \<noteq> KAlias \<Longrightarrow> alias_next (view t) x = None"
  "view t x = None \<Longrightarrow> alias_next (view t) x = None"
  by (auto simp: alias_next_def split: symbol.splits)

lemma chain_walk_step:
  assumes "wf_ids t"
  shows "chain_walk (Suc k) t st x =
    (case view t x of
       None \<Rightarrow> Err (Unknown st)
     | Some s \<Rightarrow> (case alias_next (view t) x of
           Some a \<Rightarrow> chain_walk k t st a
         | None \<Rightarrow> Ok (the (by_name t x), s)))"
proof (cases "by_name t x")
  case None
  then show ?thesis by (simp add: view_def)
next
  case (Some sid)
  then show ?thesis
    by (cases "symbols t ! unat sid") (simp_all add: view_def alias_next_def get_sym_ok [OF assms Some])
qed

lemma chain_walk_spec:
  assumes "wf_ids t"
  shows "chain_walk k t st x \<noteq> Panic"
    and "chain_walk k t st x = Ok (sid, s) \<longleftrightarrow> (\<exists>j < k. \<exists>y. hops j (view t) x = Some y \<and> chain_end t sid s y)"
    and "chain_walk k t st x = Err (Unknown st) \<longleftrightarrow> (\<exists>j < k. \<exists>y. hops j (view t) x = Some y \<and> view t y = None)"
    and "chain_walk k t st x = Err (ChainCycle st) \<longleftrightarrow> hops k (view t) x \<noteq> None"
proof (induction k arbitrary: x)
  case (Suc k)
  have bn: "view t x = None \<longleftrightarrow> by_name t x = None" by (simp add: view_def)
  { case 1 then show ?case using Suc(1) chain_walk_step [OF assms] by (auto split: option.splits) }
  { case 2
    show ?case
    proof (cases "alias_next (view t) x")
      case None
      have "sym_kind e \<noteq> KAlias" if "view t x = Some e" for e
        using that None by (cases e) (auto simp: alias_next_def)
      then have "chain_walk (Suc k) t st x = Ok (sid, s) \<longleftrightarrow> chain_end t sid s x"
        unfolding chain_walk_step [OF assms] chain_end_def using None
        by (cases "by_name t x") (auto simp: view_def)
      then show ?thesis unfolding hops_ex_Suc using None by simp
    next
      case (Some a)
      then have "\<not> chain_end t sid s x" using alias_next_alias(2) [of t x s] by (auto simp: chain_end_def)
      moreover obtain e where "view t x = Some e" using Some by (cases "view t x") (auto simp: alias_next_def)
      ultimately show ?thesis
        unfolding hops_ex_Suc chain_walk_step [OF assms] using Suc(2) [of a] Some by simp
    qed }
  { case 3
    show ?case
      unfolding hops_ex_Suc chain_walk_step [OF assms] using Suc(3) alias_next_alias(3) [of t x]
      by (auto split: option.splits) }
  { case 4
    show ?case
      unfolding chain_walk_step [OF assms] using Suc(4) alias_next_alias(3) [of t x]
      by (auto split: option.splits) }
qed simp_all

section \<open>Properties\<close>

text \<open>
  C1: in every table the linker can reach from the empty one by interning, inserting, binding atoms,
  materializing commons and promoting undefined symbols to imports, the interner is a bijection, the name map sends a name to exactly the
  slot whose symbol bears it, and the alias graph is acyclic.
\<close>

theorem reachable_tables_consistent:
  assumes "reachable t"
  shows "wf_table t"
  using assms by (rule reachable_wf)

theorem reachable_tables_consistent_witness:
  "\<exists>out t. insert_sym (Alias 1 2 0 False) table_new = Ok (out, t) \<and> wf_table t"
proof -
  have "\<exists>out t. insert_sym (Alias 1 2 0 False) table_new = Ok (out, t)"
    by (simp add: insert_sym_def insert_vacant_def table_new_def alias_would_cycle_def numeral_eq_Suc
        push_new_def Let_def)
  moreover have "length (symbols table_new) < 2 ^ 32" by (simp add: table_new_def)
  ultimately show ?thesis
    using reachable_tables_consistent reachable.inserted [OF reachable.new] by blast
qed

text \<open>
  C2: \<^verbatim>\<open>SymbolTable::insert\<close> implements the strength order. On a consistent table with a free
  identifier it never hits an \<^verbatim>\<open>unreachable!()\<close>; it fails exactly when a second strong definition
  (or alias) meets a strong one or a new alias would close or overrun a chain; otherwise the table's
  view changes in the inserted name only, where the merge of the old and the new symbol is stored. Of two commons
  the merge is the declaration of the larger size, with that declaration's alignment even where the other asks for more.
\<close>

theorem insert_implements_strength_order:
  assumes "wf_table t" and "length (symbols t) < 2 ^ 32"
  shows "case insert_sym s t of
      Ok (out, t') \<Rightarrow> \<not> rejects (view t) s \<and> wf_table t' \<and> view t' = spec_insert s (view t)
    | Err e \<Rightarrow> rejects (view t) s
    | Panic \<Rightarrow> False"
proof -
  have "wf_ids t" using assms(1) by (simp add: wf_table_def)
  from insert_refines [OF this assms(2), of s] insert_wf [OF assms, of s] show ?thesis
    by (auto split: result.splits)
qed

theorem insert_implements_strength_order_witness:
  "case insert_sym (Undefined 5 0 True) table_new of
     Ok (out, t') \<Rightarrow> view t' = (view table_new)(5 \<mapsto> Undefined 5 0 True) | _ \<Rightarrow> False"
  using insert_implements_strength_order [of table_new "Undefined 5 0 True"] wf_table_new
  by (auto simp: spec_insert_def rejects_def view_def table_new_def split: result.splits)

text \<open>
  C3: a strong definition is final. When a sequence of insertions succeeds, every strong definition
  or alias in it is what its name finally resolves to, whatever order the inputs came in, and no
  other strong definition of that name was among them.
\<close>

theorem strong_definition_wins:
  assumes "wf_table t" and "length (symbols t) + length ss \<le> 2 ^ 32" and "insert_list ss t = Ok t'"
    and "s \<in> set ss" and "is_strong_definition s"
  shows "view t' (sym_name s) = Some s
    \<and> (\<forall>s' \<in> set ss. is_strong_definition s' \<and> sym_name s' = sym_name s \<longrightarrow> s' = s)"
proof -
  have "wf_ids t" using assms(1) by (simp add: wf_table_def)
  note l = insert_list_spec [OF this assms(2,3)]
  have "view t' (sym_name s) = Some s"
    using l spec_list_wins [of ss "view t" s] assms(4,5) by (simp add: strength_4)
  moreover have "s' = s" if "s' \<in> set ss" "is_strong_definition s'" "sym_name s' = sym_name s" for s'
    using l spec_list_wins [of ss "view t" s'] that calculation by (simp add: strength_4)
  ultimately show ?thesis by blast
qed

theorem strong_definition_wins_witness:
  "\<exists>t'. insert_list [Undefined 7 0 False, Defined 7 1 0 16 False False False, Undefined 7 2 False] table_new = Ok t'
     \<and> view t' 7 = Some (Defined 7 1 0 16 False False False)"
proof -
  let ?ss = "[Undefined 7 0 False, Defined 7 1 0 16 False False False, Undefined 7 2 False]"
  have "\<exists>t'. insert_list ?ss table_new = Ok t'"
    by (simp add: insert_vacant_def table_new_def insert_defs push_new_def Let_def get_sym_def set_sym_def)
  then obtain t' where t': "insert_list ?ss table_new = Ok t'" by blast
  have "length (symbols table_new) + length ?ss \<le> 2 ^ 32" by (simp add: table_new_def)
  from strong_definition_wins [OF wf_table_new this t', of "Defined 7 1 0 16 False False False"] t'
  show ?thesis by (simp add: is_strong_definition_def)
qed

text \<open>
  Inserting a second strong definition (or alias) of a name reports \<^verbatim>\<open>DuplicateStrong\<close> with the
  slot of the first one and the rejected symbol, and leaves the first one in place.
\<close>

theorem duplicate_strong_reported:
  assumes "wf_table t" and "view t (sym_name s) = Some e"
    and "is_strong_definition e" and "is_strong_definition s"
  shows "\<exists>first. insert_sym s t = Err (DuplicateStrong (sym_name s) first s)
    \<and> get_sym t first = (Ok e :: (unit, symbol) result)"
proof -
  from assms(2) obtain sid where sid: "by_name t (sym_name s) = Some sid" "e = symbols t ! unat sid"
    by (auto simp: view_def)
  have ids: "wf_ids t" using assms(1) by (simp add: wf_table_def)
  have g: "get_sym t sid = (Ok e :: (insert_error, symbol) result)"
    using get_sym_ok [OF ids sid(1)] sid(2) by simp
  then have "insert_sym s t = Err (DuplicateStrong (sym_name s) sid s)"
    using sid(1) assms(3,4)
    by (cases e; cases s) (simp_all add: insert_defs is_strong_definition_def)
  moreover have "get_sym t sid = (Ok e :: (unit, symbol) result)"
    using get_sym_ok [OF ids sid(1)] sid(2) by simp
  ultimately show ?thesis by blast
qed

theorem duplicate_strong_reported_witness:
  "\<exists>out t first. insert_sym (Defined 3 0 0 0 False False False) table_new = Ok (out, t)
     \<and> insert_sym (Alias 3 4 1 False) t = Err (DuplicateStrong 3 first (Alias 3 4 1 False))"
proof -
  let ?d = "Defined 3 0 0 0 False False False"
  have r: "length (symbols table_new) < 2 ^ 32" by (simp add: table_new_def)
  have "\<exists>out t. insert_sym ?d table_new = Ok (out, t)"
    by (simp add: insert_sym_def insert_vacant_def table_new_def push_new_def Let_def)
  then obtain out t where t: "insert_sym ?d table_new = Ok (out, t)" by blast
  have ids: "wf_ids table_new" using wf_table_new by (simp add: wf_table_def)
  have "view t 3 = Some ?d"
    using insert_OkD(3) [OF ids r t] by (simp add: spec_insert_def view_def table_new_def)
  then show ?thesis
    using duplicate_strong_reported [of t "Alias 3 4 1 False" ?d] insert_wf [OF wf_table_new r t] t
    by (auto simp: is_strong_definition_def)
qed

text \<open>
  Tentative definitions. If after a successful sequence of insertions into an unused name the name
  is still \<^verbatim>\<open>Common\<close>, its size is the largest of the sizes of all tentative definitions of that name.
\<close>

theorem common_keeps_largest:
  assumes "wf_table t" and "length (symbols t) + length ss \<le> 2 ^ 32" and "insert_list ss t = Ok t'"
    and "view t n = None" and "view t' n = Some (Common n orig sz al p d)"
  shows "sz \<in> common_sizes n ss \<and> (\<forall>sz' \<in> common_sizes n ss. sz' \<le> sz)"
proof -
  have "wf_ids t" using assms(1) by (simp add: wf_table_def)
  from insert_list_spec [OF this assms(2,3)] assms(5)
  have "spec_list ss (view t) n = Some (Common n orig sz al p d)" by simp
  moreover have "is_common_of (Common n orig sz al p d) sz" by (simp add: is_common_of_def)
  ultimately have c: "\<forall>s \<in> set ss. sym_name s = n \<longrightarrow> (\<forall>sz'. is_common_of s sz' \<longrightarrow> sz' \<le> sz)"
    "\<exists>s \<in> set ss. sym_name s = n \<and> is_common_of s sz"
    using spec_list_common [of ss "view t" n] assms(4) by (blast, fastforce)
  then show ?thesis unfolding common_sizes_eq by blast
qed

theorem common_keeps_largest_witness:
  "\<exists>t'. insert_list [Common 7 0 8 3 False False, Common 7 1 32 4 False False, Common 7 2 16 4 False False]
       table_new = Ok t'
     \<and> view t' 7 = Some (Common 7 1 32 4 False False)
     \<and> (\<forall>sz' \<in> common_sizes 7 [Common 7 0 8 3 False False, Common 7 1 32 4 False False,
            Common 7 2 16 4 False False]. sz' \<le> 32)"
proof -
  let ?ss = "[Common 7 0 8 3 False False, Common 7 1 32 4 False False, Common 7 2 16 4 False False]"
  have "\<exists>t'. insert_list ?ss table_new = Ok t' \<and> view t' 7 = Some (Common 7 1 32 4 False False)"
    by (simp add: insert_vacant_def table_new_def insert_defs push_new_def Let_def get_sym_def set_sym_def view_def)
  then obtain t' where t': "insert_list ?ss table_new = Ok t'" "view t' 7 = Some (Common 7 1 32 4 False False)"
    by blast
  have "length (symbols table_new) + length ?ss \<le> 2 ^ 32" "view table_new 7 = None"
    by (simp_all add: table_new_def view_def)
  from common_keeps_largest [OF wf_table_new this(1) t'(1) this(2) t'(2)] t' show ?thesis by blast
qed

text \<open>
  C4: \<^verbatim>\<open>resolve_chain\<close> returns the end of the alias chain. It never panics; it succeeds exactly when
  fewer than 32 alias hops lead to a name bound to a non-alias symbol, and returns that symbol and
  its slot; it reports an unknown name exactly when fewer than 32 hops lead to an unbound name, and
  an alias cycle exactly when 32 hops are possible.
\<close>

theorem resolve_chain_exact:
  assumes "wf_table t"
  shows "resolve_chain t n \<noteq> Panic
    \<and> (\<forall>sid s. resolve_chain t n = Ok (sid, s) \<longleftrightarrow>
          (\<exists>k < 32. \<exists>x. hops k (view t) n = Some x \<and> chain_end t sid s x))
    \<and> (resolve_chain t n = Err (Unknown n) \<longleftrightarrow>
          (\<exists>k < 32. \<exists>x. hops k (view t) n = Some x \<and> view t x = None))
    \<and> (resolve_chain t n = Err (ChainCycle n) \<longleftrightarrow> hops 32 (view t) n \<noteq> None)"
proof -
  have "wf_ids t" using assms by (simp add: wf_table_def)
  note c = chain_walk_spec [OF this, of 32 n n]
  show ?thesis unfolding resolve_chain_def using c(1) c(2) c(3) c(4) by blast
qed

theorem resolve_chain_exact_witness: "resolve_chain table_new 9 = Err (Unknown 9)"
  using resolve_chain_exact [OF wf_table_new, of 9]
  by (metis (no_types, lifting) hops.simps(1) option.map(1) symbol_table.select_convs(3) table_new_def
      view_def zero_less_numeral)

end
