(* ===== verification/Reloc.thy ===== *)
theory Reloc
  imports Constants
begin

text \<open>
  Relocations of \<^verbatim>\<open>src/reloc/mod.rs\<close>: the 8-byte \<^verbatim>\<open>relocation_info\<close> record, the fusion of
  \<^verbatim>\<open>ADDEND\<close> prefixes and \<^verbatim>\<open>SUBTRACTOR\<close>/\<^verbatim>\<open>UNSIGNED\<close> pairs into linker-facing relocations
  (\<open>parse_relocs\<close>), the inverse lowering (\<open>write_relocs\<close>), and the validation against the sizes of
  the section, the symbol table and the section table.
\<close>

section \<open>Wire form\<close>

abbreviation (input) RAW_RELOC_SIZE :: nat where "RAW_RELOC_SIZE \<equiv> 8"

record raw_relocation =
  r_address :: i32
  r_symbolnum :: u32
  r_pcrel :: bool
  r_length :: u8
  r_extern :: bool
  r_type :: u8

definition parse_raw_reloc :: "bytes \<Rightarrow> raw_relocation read" where
  "parse_raw_reloc b =
     (if length b < RAW_RELOC_SIZE then Err (Truncated RAW_RELOC_SIZE (length b) ''relocation_info'')
      else
        rbind (rd32 0 b) (\<lambda>addr.
        rbind (rd32 4 b) (\<lambda>info.
          Ok \<lparr>r_address = addr,
              r_symbolnum = info AND 0x00FFFFFF,
              r_pcrel = drop_bit 24 info AND 1 \<noteq> 0,
              r_length = ucast (drop_bit 25 info AND 3),
              r_extern = drop_bit 27 info AND 1 \<noteq> 0,
              r_type = ucast (drop_bit 28 info AND 0x0f)\<rparr>)))"

definition write_raw_reloc :: "raw_relocation \<Rightarrow> bytes" where
  "write_raw_reloc r =
     (let info = (r_symbolnum r AND 0x00FFFFFF)
            OR (push_bit 24 (of_bool (r_pcrel r))
            OR (push_bit 25 (ucast (r_length r) AND 3)
            OR (push_bit 27 (of_bool (r_extern r))
            OR push_bit 28 (ucast (r_type r) AND 0x0f))))
      in le32 (r_address r) @ le32 info)"

definition parse_raw_relocs :: "bytes \<Rightarrow> u32 \<Rightarrow> u32 \<Rightarrow> raw_relocation list read" where
  "parse_raw_relocs file reloff nreloc =
     (let start = unat reloff in
      rbind (ok_or (Truncated usize_max (length file) ''reloc table (nreloc x 8 overflows)'')
               (checked_mul (unat nreloc) RAW_RELOC_SIZE)) (\<lambda>total.
      rbind (ok_or (Truncated usize_max (length file) ''reloc table (reloff + size overflows)'')
               (checked_add start total)) (\<lambda>end.
      if end > length file then Err (Truncated end (length file) ''reloc table'')
      else read_records RAW_RELOC_SIZE parse_raw_reloc file start (unat nreloc))))"

definition write_raw_relocs :: "raw_relocation list \<Rightarrow> bytes" where
  "write_raw_relocs rs = concat (map write_raw_reloc rs)"

section \<open>Fused form\<close>

datatype reloc_kind =
    Unsigned
  | Branch26
  | Page21
  | PageOff12
  | GotLoadPage21
  | GotLoadPageOff12
  | PointerToGot
  | TlvpLoadPage21
  | TlvpLoadPageOff12
  | Subtractor

datatype reloc_length = Byte | Half | Word | Quad

definition from_bits :: "u8 \<Rightarrow> reloc_length option" where
  "from_bits v =
     (if v = 0 then Some Byte else if v = 1 then Some Half
      else if v = 2 then Some Word else if v = 3 then Some Quad else None)"

fun as_bits :: "reloc_length \<Rightarrow> u8" where
  "as_bits Byte = 0"
| "as_bits Half = 1"
| "as_bits Word = 2"
| "as_bits Quad = 3"

definition byte_width :: "reloc_length \<Rightarrow> nat" where
  "byte_width l = 2 ^ unat (as_bits l)"

datatype referent = Symbol u32 | Section u8

record reloc =
  rel_offset :: u32
  rel_kind :: reloc_kind
  rel_length :: reloc_length
  rel_pcrel :: bool
  rel_referent :: referent
  rel_addend :: i64
  rel_subtrahend :: "referent option"

definition referent_from :: "raw_relocation \<Rightarrow> referent read" where
  "referent_from r =
     (if r_extern r then Ok (Symbol (r_symbolnum r))
      else if r_symbolnum r = 0 \<or> r_symbolnum r > 255 then
        Err (BadRelocation (r_address r) ''non-extern reloc with out-of-range section index'')
      else Ok (Section (ucast (r_symbolnum r))))"

definition sign_extend_24 :: "u32 \<Rightarrow> i32" where
  "sign_extend_24 v = (if v AND 0x00800000 \<noteq> 0 then v OR 0xFF000000 else v)"

definition primary_kind_from_type :: "u8 \<Rightarrow> reloc_kind option" where
  "primary_kind_from_type t =
     (if t = ARM64_RELOC_UNSIGNED then Some Unsigned
      else if t = ARM64_RELOC_BRANCH26 then Some Branch26
      else if t = ARM64_RELOC_PAGE21 then Some Page21
      else if t = ARM64_RELOC_PAGEOFF12 then Some PageOff12
      else if t = ARM64_RELOC_GOT_LOAD_PAGE21 then Some GotLoadPage21
      else if t = ARM64_RELOC_GOT_LOAD_PAGEOFF12 then Some GotLoadPageOff12
      else if t = ARM64_RELOC_POINTER_TO_GOT then Some PointerToGot
      else if t = ARM64_RELOC_TLVP_LOAD_PAGE21 then Some TlvpLoadPage21
      else if t = ARM64_RELOC_TLVP_LOAD_PAGEOFF12 then Some TlvpLoadPageOff12
      else None)"

text \<open>The primary arm of the loop of \<^verbatim>\<open>parse_relocs\<close>: one fused relocation from \<open>raw\<close> and the
  pending prefixes.\<close>

definition fuse_primary ::
  "raw_relocation \<Rightarrow> i32 option \<Rightarrow> raw_relocation option \<Rightarrow> reloc read" where
  "fuse_primary rw pending_addend pending_subtractor =
     (let bad = (\<lambda>why. BadRelocation (r_address rw) why); t = r_type rw in
      rbind (ok_or (bad ''unknown ARM64_RELOC_* type'') (primary_kind_from_type t)) (\<lambda>kind.
      rbind (ok_or (bad ''invalid r_length (must be 0..=3)'') (from_bits (r_length rw))) (\<lambda>len.
      let addend = (case pending_addend of Some v \<Rightarrow> scast v | None \<Rightarrow> 0) in
      rbind (referent_from rw) (\<lambda>ref.
      rbind (case pending_subtractor of
          Some s \<Rightarrow>
            if t \<noteq> ARM64_RELOC_UNSIGNED then Err (bad ''SUBTRACTOR must be followed by UNSIGNED'')
            else if r_address s \<noteq> r_address rw then
              Err (bad ''SUBTRACTOR/UNSIGNED pair must share r_address'')
            else if r_length s \<noteq> r_length rw then
              Err (bad ''SUBTRACTOR/UNSIGNED pair must share r_length'')
            else rbind (referent_from s) (\<lambda>sref. Ok (Subtractor, Some sref))
        | None \<Rightarrow> Ok (kind, None)) (\<lambda>(kind, subtrahend).
      Ok \<lparr>rel_offset = r_address rw, rel_kind = kind, rel_length = len, rel_pcrel = r_pcrel rw,
          rel_referent = ref, rel_addend = addend, rel_subtrahend = subtrahend\<rparr>)))))"

fun parse_relocs_loop ::
  "raw_relocation list \<Rightarrow> i32 option \<Rightarrow> raw_relocation option \<Rightarrow> reloc list read" where
  "parse_relocs_loop [] pending_addend pending_subtractor =
     (if pending_addend \<noteq> None then
        Err (BadRelocation 0 ''trailing ARM64_RELOC_ADDEND with no following primary'')
      else if pending_subtractor \<noteq> None then
        Err (BadRelocation 0 ''trailing ARM64_RELOC_SUBTRACTOR with no following UNSIGNED'')
      else Ok [])"
| "parse_relocs_loop (rw # raws) pending_addend pending_subtractor =
     (if r_type rw = ARM64_RELOC_ADDEND then
        if pending_addend \<noteq> None then
          Err (BadRelocation (r_address rw) ''two ARM64_RELOC_ADDEND in a row'')
        else if r_extern rw then
          Err (BadRelocation (r_address rw) ''ARM64_RELOC_ADDEND must not have r_extern set'')
        else parse_relocs_loop raws (Some (sign_extend_24 (r_symbolnum rw))) pending_subtractor
      else if r_type rw = ARM64_RELOC_SUBTRACTOR then
        if pending_subtractor \<noteq> None then
          Err (BadRelocation (r_address rw) ''two ARM64_RELOC_SUBTRACTOR in a row'')
        else parse_relocs_loop raws pending_addend (Some rw)
      else
        rbind (fuse_primary rw pending_addend pending_subtractor) (\<lambda>r.
        rbind (parse_relocs_loop raws None None) (\<lambda>rs. Ok (r # rs))))"

definition parse_relocs :: "raw_relocation list \<Rightarrow> reloc list read" where
  "parse_relocs raws = parse_relocs_loop raws None None"

section \<open>Lowering\<close>

fun ref_to_raw_parts :: "referent \<Rightarrow> u32 \<times> bool" where
  "ref_to_raw_parts (Symbol i) = (i AND 0x00FFFFFF, True)"
| "ref_to_raw_parts (Section i) = (ucast i, False)"

fun reloc_type_byte :: "reloc_kind \<Rightarrow> u8" where
  "reloc_type_byte Unsigned = ARM64_RELOC_UNSIGNED"
| "reloc_type_byte Branch26 = ARM64_RELOC_BRANCH26"
| "reloc_type_byte Page21 = ARM64_RELOC_PAGE21"
| "reloc_type_byte PageOff12 = ARM64_RELOC_PAGEOFF12"
| "reloc_type_byte GotLoadPage21 = ARM64_RELOC_GOT_LOAD_PAGE21"
| "reloc_type_byte GotLoadPageOff12 = ARM64_RELOC_GOT_LOAD_PAGEOFF12"
| "reloc_type_byte PointerToGot = ARM64_RELOC_POINTER_TO_GOT"
| "reloc_type_byte TlvpLoadPage21 = ARM64_RELOC_TLVP_LOAD_PAGE21"
| "reloc_type_byte TlvpLoadPageOff12 = ARM64_RELOC_TLVP_LOAD_PAGEOFF12"
| "reloc_type_byte Subtractor = ARM64_RELOC_UNSIGNED"

definition encode_addend_prefix :: "i32 \<Rightarrow> i64 \<Rightarrow> u8 \<Rightarrow> raw_relocation read" where
  "encode_addend_prefix off addend len =
     (if \<not> (- 0x00800000 \<le> sint addend \<and> sint addend \<le> 0x007FFFFF) then
        Err (BadRelocation off ''addend outside 24-bit signed range (use ARM64_RELOC_ADDEND)'')
      else
        Ok \<lparr>r_address = off, r_symbolnum = ucast addend AND 0x00FFFFFF, r_pcrel = False,
            r_length = len, r_extern = False, r_type = ARM64_RELOC_ADDEND\<rparr>)"

text \<open>\<^verbatim>\<open>if r.addend != 0 { out.push(encode_addend_prefix(..)?) }\<close>\<close>

definition addend_prefix :: "reloc \<Rightarrow> raw_relocation list read" where
  "addend_prefix r =
     (if rel_addend r \<noteq> 0 then
        rbind (encode_addend_prefix (rel_offset r) (rel_addend r) (as_bits (rel_length r))) (\<lambda>p. Ok [p])
      else Ok [])"

definition lower_reloc :: "reloc \<Rightarrow> raw_relocation list read" where
  "lower_reloc r =
     (if rel_kind r = Subtractor then
        rbind (ok_or (BadRelocation (rel_offset r) ''Subtractor kind requires a subtrahend'')
                 (rel_subtrahend r)) (\<lambda>s.
        let (sub_sym, sub_ext) = ref_to_raw_parts s;
            (min_sym, min_ext) = ref_to_raw_parts (rel_referent r) in
        rbind (addend_prefix r) (\<lambda>pre.
        Ok ([\<lparr>r_address = rel_offset r, r_symbolnum = sub_sym, r_pcrel = False,
              r_length = as_bits (rel_length r), r_extern = sub_ext, r_type = ARM64_RELOC_SUBTRACTOR\<rparr>]
            @ pre
            @ [\<lparr>r_address = rel_offset r, r_symbolnum = min_sym, r_pcrel = False,
                r_length = as_bits (rel_length r), r_extern = min_ext, r_type = ARM64_RELOC_UNSIGNED\<rparr>])))
      else
        let (sm, ext) = ref_to_raw_parts (rel_referent r) in
        rbind (addend_prefix r) (\<lambda>pre.
        Ok (pre @ [\<lparr>r_address = rel_offset r, r_symbolnum = sm, r_pcrel = rel_pcrel r,
              r_length = as_bits (rel_length r), r_extern = ext,
              r_type = reloc_type_byte (rel_kind r)\<rparr>])))"

definition write_relocs :: "reloc list \<Rightarrow> raw_relocation list read" where
  "write_relocs rs = rbind (mapM lower_reloc rs) (\<lambda>parts. Ok (concat parts))"

section \<open>Validation\<close>

definition kind_expects_word_only :: "reloc_kind \<Rightarrow> bool" where
  "kind_expects_word_only k \<longleftrightarrow> \<not> (k = Unsigned \<or> k = Subtractor \<or> k = PointerToGot)"

fun kind_expects_pcrel :: "reloc_kind \<Rightarrow> bool option" where
  "kind_expects_pcrel Branch26 = Some True"
| "kind_expects_pcrel Page21 = Some True"
| "kind_expects_pcrel GotLoadPage21 = Some True"
| "kind_expects_pcrel TlvpLoadPage21 = Some True"
| "kind_expects_pcrel PageOff12 = Some False"
| "kind_expects_pcrel GotLoadPageOff12 = Some False"
| "kind_expects_pcrel TlvpLoadPageOff12 = Some False"
| "kind_expects_pcrel Unsigned = None"
| "kind_expects_pcrel Subtractor = None"
| "kind_expects_pcrel PointerToGot = None"

fun validate_referent :: "u32 \<Rightarrow> referent \<Rightarrow> u32 \<Rightarrow> u8 \<Rightarrow> unit read" where
  "validate_referent off (Symbol i) nsyms nsects =
     (if i \<ge> nsyms then Err (BadRelocation off ''r_symbolnum past end of symbol table'') else Ok ())"
| "validate_referent off (Section i) nsyms nsects =
     (if i = 0 \<or> i > nsects then
        Err (BadRelocation off ''section-relative reloc with out-of-range section index'')
      else Ok ())"

definition validate_reloc :: "reloc \<Rightarrow> u64 \<Rightarrow> u32 \<Rightarrow> u8 \<Rightarrow> unit read" where
  "validate_reloc r section_size nsyms nsects =
     (let bad = (\<lambda>why. BadRelocation (rel_offset r) why) in
      rbind (ok_or (bad ''reloc offset + width overflows u64'')
               (checked_add (unat (rel_offset r)) (byte_width (rel_length r)))) (\<lambda>end.
      if end > unat section_size then Err (bad ''reloc offset + width exceeds section size'')
      else
        rbind (validate_referent (rel_offset r) (rel_referent r) nsyms nsects) (\<lambda>_.
        rbind (case rel_subtrahend r of
                 Some s \<Rightarrow> validate_referent (rel_offset r) s nsyms nsects
               | None \<Rightarrow> Ok ()) (\<lambda>_.
        if kind_expects_word_only (rel_kind r) \<and> rel_length r \<noteq> Word then
          Err (bad ''reloc kind must use Word length (4 bytes)'')
        else if (case kind_expects_pcrel (rel_kind r) of Some e \<Rightarrow> rel_pcrel r \<noteq> e | None \<Rightarrow> False) then
          Err (bad ''reloc kind has fixed r_pcrel value that this entry violates'')
        else if rel_kind r = Subtractor \<and> rel_subtrahend r = None then
          Err (bad ''Subtractor kind requires a subtrahend'')
        else Ok ()))))"

definition validate_relocs :: "reloc list \<Rightarrow> u64 \<Rightarrow> u32 \<Rightarrow> u8 \<Rightarrow> unit read" where
  "validate_relocs rs section_size nsyms nsects =
     rbind (mapM (\<lambda>r. validate_reloc r section_size nsyms nsects) rs) (\<lambda>_. Ok ())"

section \<open>Field codec\<close>

lemma mask_24: "(w :: 'a::len word) AND 0x00FFFFFF = take_bit 24 w"
  by (simp add: take_bit_eq_mask mask_eq_exp_minus_1)

lemma mask_2: "(w :: 'a::len word) AND 3 = take_bit 2 w"
  by (simp add: take_bit_eq_mask mask_eq_exp_minus_1)

lemma mask_4: "(w :: 'a::len word) AND 0x0f = take_bit 4 w"
  by (simp add: take_bit_eq_mask mask_eq_exp_minus_1)

lemma mask_1: "(w :: 'a::len word) AND 1 \<noteq> 0 \<longleftrightarrow> bit w 0"
  by (simp add: and_one_eq odd_iff_mod_2_eq_one [symmetric] bit_0)

lemmas field_masks = mask_24 mask_2 mask_4 mask_1

definition raw_fields_ok :: "raw_relocation \<Rightarrow> bool" where
  "raw_fields_ok r \<longleftrightarrow> r_symbolnum r < 2 ^ 24 \<and> r_length r < 4 \<and> r_type r < 16"

lemma take_bit_word_less: "(w :: 'a::len word) < 2 ^ n \<Longrightarrow> take_bit n w = w"
  unfolding take_bit_eq_mask by (rule less_mask_eq)

lemma info_fields:
  fixes sy :: u32 and len ty :: u8 and p x :: bool
  assumes "take_bit 24 sy = sy" and "take_bit 2 len = len" and "take_bit 4 ty = ty"
  defines "info \<equiv> take_bit 24 sy OR (push_bit 24 (of_bool p) OR (push_bit 25 (take_bit 2 (ucast len))
      OR (push_bit 27 (of_bool x) OR push_bit 28 (take_bit 4 (ucast ty)))))"
  shows "take_bit 24 info = sy" and "bit (drop_bit 24 info) 0 = p" and "ucast (take_bit 2 (drop_bit 25 info)) = len"
    and "bit (drop_bit 27 info) 0 = x" and "ucast (take_bit 4 (drop_bit 28 info)) = ty"
proof -
  have len: "bit len n \<Longrightarrow> n < 2" and ty: "bit ty n \<Longrightarrow> n < 4" for n
    using assms(2,3) by (metis bit_take_bit_iff)+
  show "take_bit 24 info = sy"
    unfolding info_def by (subst (2) assms(1) [symmetric], rule bit_word_eqI) (auto simp: bit_simps)
  show "bit (drop_bit 24 info) 0 = p" "bit (drop_bit 27 info) 0 = x"
    unfolding info_def by (auto simp: bit_simps)
  show "ucast (take_bit 2 (drop_bit 25 info)) = len"
    unfolding info_def by (rule bit_word_eqI) (auto simp: bit_simps dest: len)
  show "ucast (take_bit 4 (drop_bit 28 info)) = ty"
    unfolding info_def by (rule bit_word_eqI) (auto simp: bit_simps dest: ty)
qed

lemma parse_write_raw_reloc:
  assumes "raw_fields_ok r"
  shows "parse_raw_reloc (write_raw_reloc r) = Ok r"
proof -
  have t: "take_bit 24 (r_symbolnum r) = r_symbolnum r" "take_bit 2 (r_length r) = r_length r"
    "take_bit 4 (r_type r) = r_type r"
    using assms by (simp_all add: raw_fields_ok_def take_bit_word_less)
  define info where "info = take_bit 24 (r_symbolnum r) OR (push_bit 24 (of_bool (r_pcrel r))
      OR (push_bit 25 (take_bit 2 (ucast (r_length r)))
      OR (push_bit 27 (of_bool (r_extern r)) OR push_bit 28 (take_bit 4 (ucast (r_type r))))))"
  have w: "write_raw_reloc r = le32 (r_address r) @ le32 info"
    by (simp add: write_raw_reloc_def Let_def field_masks info_def)
  show ?thesis
    by (simp add: parse_raw_reloc_def w rd_ok field_masks
        info_fields [OF t, of "r_pcrel r" "r_extern r", folded info_def])
qed

lemma length_write_raw_reloc [simp]: "length (write_raw_reloc r) = 8"
  by (simp add: write_raw_reloc_def Let_def)

interpretation raw_relocs: record_codec write_raw_reloc parse_raw_reloc 8 raw_fields_ok
  by unfold_locales (simp_all add: parse_write_raw_reloc)

lemma parse_raw_reloc_safe [no_panic]: "safe (parse_raw_reloc b)"
  unfolding parse_raw_reloc_def by (auto intro!: no_panic)

lemma take_bit_less_exp: "n < LENGTH('a) \<Longrightarrow> take_bit n (w :: 'a::len word) < 2 ^ n"
  unfolding take_bit_eq_mask by (rule and_mask_less')

lemma ucast_take_bit: "ucast (take_bit n (w :: u32)) = (take_bit n (ucast w) :: u8)"
  by (rule bit_word_eqI) (auto simp: bit_simps)

lemma parse_raw_reloc_fields: "parse_raw_reloc b = Ok r \<Longrightarrow> raw_fields_ok r"
  using take_bit_less_exp [of 24 "from_le (take 4 (drop 4 b)) :: u32"]
    take_bit_less_exp [of 2 "ucast (drop_bit 25 (from_le (take 4 (drop 4 b)) :: u32)) :: u8"]
    take_bit_less_exp [of 4 "ucast (drop_bit 28 (from_le (take 4 (drop 4 b)) :: u32)) :: u8"]
  by (auto simp: parse_raw_reloc_def raw_fields_ok_def rd_ok field_masks ucast_take_bit split: if_splits)

section \<open>Fusion inverts lowering\<close>

fun ref_ok :: "referent \<Rightarrow> bool" where
  "ref_ok (Symbol i) = (i < 2 ^ 24)"
| "ref_ok (Section i) = (i \<noteq> 0)"

text \<open>The relocations \<open>parse_relocs\<close> can produce.\<close>

definition fused_ok :: "reloc \<Rightarrow> bool" where
  "fused_ok r \<longleftrightarrow>
     - (2 ^ 23) \<le> sint (rel_addend r) \<and> sint (rel_addend r) < 2 ^ 23 \<and> ref_ok (rel_referent r)
     \<and> (case rel_subtrahend r of
          None \<Rightarrow> rel_kind r \<noteq> Subtractor
        | Some s \<Rightarrow> rel_kind r = Subtractor \<and> ref_ok s)"

definition plain_pair :: "reloc \<Rightarrow> bool" where
  "plain_pair r \<longleftrightarrow> (rel_kind r = Subtractor \<longrightarrow> \<not> rel_pcrel r)"

lemma ucast_u8_bound: "ucast (i :: u8) \<le> (255 :: u32)"
proof -
  have "unat (ucast i :: u32) \<le> 255" using unsigned_less [of i, where ?'a = nat] by (simp add: unsigned_ucast_eq take_bit_nat_eq_self)
  then show ?thesis by (simp add: word_le_nat_alt)
qed

lemma ucast_u8_u32: "ucast (ucast (i :: u8) :: u32) = i"
  by (rule bit_word_eqI) (auto simp: bit_simps)

lemma referent_round_trip:
  assumes "ref_ok x" and "r_symbolnum r = fst (ref_to_raw_parts x)" and "r_extern r = snd (ref_to_raw_parts x)"
  shows "referent_from r = Ok x"
proof (cases x)
  case (Symbol i)
  then show ?thesis using assms by (simp add: referent_from_def mask_24 take_bit_word_less)
next
  case (Section i)
  have "ucast i \<noteq> (0 :: u32)" using assms(1) Section ucast_u8_u32 [of i] by auto
  then show ?thesis
    using assms Section ucast_u8_bound [of i] ucast_u8_u32 [of i]
    by (simp add: referent_from_def not_less [symmetric])
qed

lemma addend_round_trip:
  fixes a :: i64
  assumes "- (2 ^ 23) \<le> sint a" and "sint a < 2 ^ 23"
  shows "scast (sign_extend_24 (ucast a AND 0x00FFFFFF)) = a"
proof (rule bit_word_eqI)
  fix n assume n: "n < LENGTH(64)"
  have hi: "bit a m \<longleftrightarrow> bit a 23" if "23 \<le> m" "m < 64" for m
    using bit_signed_fits [OF assms that(1)] that(2) by simp
  let ?v = "take_bit 24 (ucast a) :: u32"
  have s: "?v AND 0x00800000 \<noteq> 0 \<longleftrightarrow> bit a 23"
    using bit_iff_and_push_bit_not_eq_0 [of ?v 23] by (simp add: bit_simps)
  have m: "(0xFF000000 :: u32) = push_bit 24 (mask 8)" by (simp add: mask_eq_exp_minus_1 push_bit_eq_mult)
  have "bit (sign_extend_24 ?v) k \<longleftrightarrow> bit a (min k 23)" if "k < 32" for k
    using that hi [of k] unfolding sign_extend_24_def s m
    by (cases "k \<le> 23") (auto simp: bit_simps min_def)
  moreover have "bit (scast (sign_extend_24 ?v) :: i64) n \<longleftrightarrow> bit (sign_extend_24 ?v) (min n 31)"
    using n by (auto simp: bit_simps min_def)
  ultimately have "bit (scast (sign_extend_24 ?v) :: i64) n \<longleftrightarrow> bit a (min n 23)"
    by (auto simp: min_def)
  then show "bit (scast (sign_extend_24 (ucast a AND 0x00FFFFFF)) :: i64) n = bit a n"
    using hi [of n] n by (auto simp: mask_24 min_def split: if_splits)
qed

lemma as_bits_from_bits [simp]: "from_bits (as_bits l) = Some l"
  by (cases l) (simp_all add: from_bits_def)

lemma kind_type_round_trip:
  "k \<noteq> Subtractor \<Longrightarrow> primary_kind_from_type (reloc_type_byte k) = Some k
    \<and> reloc_type_byte k \<noteq> ARM64_RELOC_ADDEND \<and> reloc_type_byte k \<noteq> ARM64_RELOC_SUBTRACTOR"
  by (cases k) (simp_all add: primary_kind_from_type_def)

text \<open>An addend prefix, present or not, leaves the addend pending for the primary that follows.\<close>

lemma addend_prefix_parse:
  assumes "- (2 ^ 23) \<le> sint (rel_addend r)" and "sint (rel_addend r) < 2 ^ 23"
  shows "\<exists>pre pend. addend_prefix r = Ok pre
    \<and> (case pend of Some v \<Rightarrow> scast v | None \<Rightarrow> 0) = rel_addend r
    \<and> (\<forall>rest sub. parse_relocs_loop (pre @ rest) None sub = parse_relocs_loop rest pend sub)"
proof (cases "rel_addend r = 0")
  case True
  then show ?thesis by (intro exI [of _ "[]"] exI [of _ None]) (simp add: addend_prefix_def)
next
  case False
  let ?v = "ucast (rel_addend r) AND 0x00FFFFFF"
  show ?thesis
    using False assms addend_round_trip [OF assms]
    by (intro exI exI [of _ "Some (sign_extend_24 ?v)"])
      (auto simp: addend_prefix_def encode_addend_prefix_def)
qed

lemma fuse_primary_plain:
  assumes "fused_ok r" and "rel_kind r \<noteq> Subtractor"
    and "(case pend of Some v \<Rightarrow> scast v | None \<Rightarrow> 0) = rel_addend r"
    and "ref_to_raw_parts (rel_referent r) = (sm, ext)"
  shows "fuse_primary \<lparr>r_address = rel_offset r, r_symbolnum = sm, r_pcrel = rel_pcrel r,
      r_length = as_bits (rel_length r), r_extern = ext, r_type = reloc_type_byte (rel_kind r)\<rparr> pend None = Ok r"
proof -
  have "rel_subtrahend r = None" and "ref_ok (rel_referent r)"
    using assms(1,2) by (auto simp: fused_ok_def split: option.splits)
  then show ?thesis
    using kind_type_round_trip [OF assms(2)] assms(3,4) referent_round_trip [of "rel_referent r"]
    by (simp add: fuse_primary_def Let_def)
qed

lemma fuse_primary_pair:
  assumes "fused_ok r" and "rel_kind r = Subtractor" and "\<not> rel_pcrel r"
    and "(case pend of Some v \<Rightarrow> scast v | None \<Rightarrow> 0) = rel_addend r"
    and "ref_to_raw_parts (rel_referent r) = (sm, ext)"
    and "rel_subtrahend r = Some x" and "ref_to_raw_parts x = (ssm, sext)"
  shows "fuse_primary \<lparr>r_address = rel_offset r, r_symbolnum = sm, r_pcrel = False,
      r_length = as_bits (rel_length r), r_extern = ext, r_type = ARM64_RELOC_UNSIGNED\<rparr> pend
      (Some \<lparr>r_address = rel_offset r, r_symbolnum = ssm, r_pcrel = False,
         r_length = as_bits (rel_length r), r_extern = sext, r_type = ARM64_RELOC_SUBTRACTOR\<rparr>) = Ok r"
proof -
  have "ref_ok (rel_referent r)" "ref_ok x"
    using assms(1,6) by (auto simp: fused_ok_def)
  then show ?thesis
    using assms(2-7) referent_round_trip [of "rel_referent r"] referent_round_trip [of x]
    by (simp add: fuse_primary_def Let_def primary_kind_from_type_def)
qed

lemma lower_then_parse:
  assumes "fused_ok r" and "plain_pair r"
  shows "\<exists>raws. lower_reloc r = Ok raws \<and>
    (\<forall>rest. parse_relocs_loop (raws @ rest) None None
        = rbind (parse_relocs_loop rest None None) (\<lambda>rs. Ok (r # rs)))"
proof -
  obtain pre pend where pre: "addend_prefix r = Ok pre"
    "(case pend of Some v \<Rightarrow> scast v | None \<Rightarrow> 0) = rel_addend r"
    "\<And>rest sub. parse_relocs_loop (pre @ rest) None sub = parse_relocs_loop rest pend sub"
    using addend_prefix_parse [of r] assms(1) unfolding fused_ok_def by blast
  obtain sm ext where ref: "ref_to_raw_parts (rel_referent r) = (sm, ext)" by fastforce
  show ?thesis
  proof (cases "rel_kind r = Subtractor")
    case False
    show ?thesis
      using fuse_primary_plain [OF assms(1) False pre(2) ref] kind_type_round_trip [OF False] pre(1,3) ref False
      by (simp add: lower_reloc_def)
  next
    case True
    then obtain x where x: "rel_subtrahend r = Some x"
      using assms(1) by (auto simp: fused_ok_def split: option.splits)
    obtain ssm sext where xr: "ref_to_raw_parts x = (ssm, sext)" by fastforce
    have "\<not> rel_pcrel r" using assms(2) True by (simp add: plain_pair_def)
    then show ?thesis
      using fuse_primary_pair [OF assms(1) True _ pre(2) ref x xr] pre(1,3) ref x xr True
      by (simp add: lower_reloc_def)
  qed
qed

lemma write_then_parse:
  "list_all (\<lambda>r. fused_ok r \<and> plain_pair r) rs \<Longrightarrow>
   \<exists>raws. write_relocs rs = Ok raws \<and> parse_relocs raws = Ok rs"
proof (induction rs)
  case Nil
  then show ?case by (simp add: write_relocs_def parse_relocs_def)
next
  case (Cons r rs)
  then obtain raws where "write_relocs rs = Ok raws" "parse_relocs raws = Ok rs" by auto
  moreover obtain hd where "lower_reloc r = Ok hd"
    "\<And>rest. parse_relocs_loop (hd @ rest) None None = rbind (parse_relocs_loop rest None None) (\<lambda>rs. Ok (r # rs))"
    using lower_then_parse [of r] Cons.prems by auto
  ultimately show ?case
    by (auto simp: write_relocs_def parse_relocs_def rbind_Ok_iff)
qed

section \<open>What the parser produces\<close>

lemma sign_extend_24_range:
  assumes "v < 2 ^ 24"
  shows "- (2 ^ 23) \<le> sint (scast (sign_extend_24 v) :: i64)" and "sint (scast (sign_extend_24 v) :: i64) < 2 ^ 23"
proof -
  let ?w = "scast (sign_extend_24 v) :: i64"
  have b: "bit v n \<Longrightarrow> n < 24" for n
    using take_bit_word_less [OF assms] by (metis bit_take_bit_iff)
  have s: "v AND 0x00800000 \<noteq> 0 \<longleftrightarrow> bit v 23"
    using bit_iff_and_push_bit_not_eq_0 [of v 23] by simp
  have m: "(0xFF000000 :: u32) = push_bit 24 (mask 8)" by (simp add: mask_eq_exp_minus_1 push_bit_eq_mult)
  have k: "bit (sign_extend_24 v) k \<longleftrightarrow> bit v (min k 23)" if "k < 32" for k
    using that b [of k] unfolding sign_extend_24_def s m
    by (cases "k \<le> 23") (auto simp: bit_simps min_def)
  have "signed_take_bit 23 ?w = ?w"
  proof (rule bit_word_eqI)
    fix n assume n: "n < LENGTH(64)"
    have "bit ?w j \<longleftrightarrow> bit v (min j 23)" if "j < 64" for j
      using that k [of j] k [of 31] by (cases "j < 32") (auto simp: bit_simps min_def)
    then show "bit (signed_take_bit 23 ?w) n = bit ?w n" using n by (simp add: bit_simps min_def)
  qed
  then show "- (2 ^ 23) \<le> sint ?w" "sint ?w < 2 ^ 23"
    by (rule signed_take_bit_range, simp)+
qed

lemma referent_from_ok: "referent_from r = Ok x \<Longrightarrow> r_symbolnum r < 2 ^ 24 \<Longrightarrow> ref_ok x"
proof -
  assume r: "referent_from r = Ok x" and b: "r_symbolnum r < 2 ^ 24"
  show "ref_ok x"
  proof (cases "r_extern r")
    case True
    then show ?thesis using r b by (auto simp: referent_from_def)
  next
    case False
    then have x: "x = Section (ucast (r_symbolnum r))" "r_symbolnum r \<noteq> 0" "r_symbolnum r \<le> 255"
      using r by (auto simp: referent_from_def split: if_splits)
    have "unat (r_symbolnum r) < 256" "unat (r_symbolnum r) \<noteq> 0"
      using x(2,3) by (simp_all add: word_le_nat_alt unat_eq_0)
    then have "unat (ucast (r_symbolnum r) :: u8) \<noteq> 0" by (simp add: unsigned_ucast_eq take_bit_nat_eq_self)
    then show ?thesis using x(1) by auto
  qed
qed

definition pend_ok :: "i32 option \<Rightarrow> bool" where
  "pend_ok p \<longleftrightarrow> (\<forall>v. p = Some v \<longrightarrow> - (2 ^ 23) \<le> sint (scast v :: i64) \<and> sint (scast v :: i64) < 2 ^ 23)"

lemma fuse_primary_ok:
  assumes "fuse_primary rw pa ps = Ok r" and "raw_fields_ok rw" and "pend_ok pa"
    and "\<And>s. ps = Some s \<Longrightarrow> raw_fields_ok s"
  shows "fused_ok r"
proof -
  obtain kind ref where k: "primary_kind_from_type (r_type rw) = Some kind"
    and ref: "referent_from rw = Ok ref" "rel_referent r = ref"
    and ad: "rel_addend r = (case pa of Some v \<Rightarrow> scast v | None \<Rightarrow> 0)"
    and sub: "(case ps of None \<Rightarrow> rel_kind r = kind \<and> rel_subtrahend r = None
      | Some s \<Rightarrow> rel_kind r = Subtractor \<and> (\<exists>x. referent_from s = Ok x \<and> rel_subtrahend r = Some x))"
    using assms(1)
    by (cases ps; cases pa) (auto simp: fuse_primary_def Let_def rbind_Ok_iff split: if_splits)
  have "kind \<noteq> Subtractor" using k by (auto simp: primary_kind_from_type_def split: if_splits)
  moreover have "ref_ok (rel_referent r)"
    using ref assms(2) referent_from_ok by (auto simp: raw_fields_ok_def)
  moreover have "- (2 ^ 23) \<le> sint (rel_addend r) \<and> sint (rel_addend r) < 2 ^ 23"
    using ad assms(3) by (auto simp: pend_ok_def split: option.splits)
  ultimately show ?thesis
    using sub assms(4) referent_from_ok
    by (auto simp: fused_ok_def raw_fields_ok_def split: option.splits)
qed

lemma parse_relocs_loop_ok:
  assumes "parse_relocs_loop raws pa ps = Ok rs" and "list_all raw_fields_ok raws" and "pend_ok pa"
    and "\<And>s. ps = Some s \<Longrightarrow> raw_fields_ok s"
  shows "list_all fused_ok rs"
  using assms
proof (induction raws pa ps arbitrary: rs rule: parse_relocs_loop.induct)
  case (1 pa ps)
  then show ?case by (simp split: if_splits)
next
  case (2 rw raws pa ps)
  have p: "pend_ok (Some (sign_extend_24 (r_symbolnum rw)))"
    using "2.prems"(2) sign_extend_24_range [of "r_symbolnum rw"]
    by (simp add: pend_ok_def raw_fields_ok_def)
  consider "r_type rw = 10" | "r_type rw = 1" | "r_type rw \<noteq> 10" "r_type rw \<noteq> 1" by blast
  then show ?case
  proof cases
    case 1
    then show ?thesis using 2 p by (auto split: if_splits)
  next
    case 2
    then show ?thesis using "2.IH"(2) "2.prems" by (auto split: if_splits)
  next
    case 3
    then obtain r rs' where r: "fuse_primary rw pa ps = Ok r" "parse_relocs_loop raws None None = Ok rs'"
        "rs = r # rs'"
      using "2.prems"(1) by (auto simp: rbind_Ok_iff)
    have "list_all fused_ok rs'"
      using "2.IH"(3) [of r rs'] 3 r "2.prems"(2) by (simp add: pend_ok_def)
    then show ?thesis using r(3) fuse_primary_ok [OF r(1)] "2.prems" by simp
  qed
qed

section \<open>Properties\<close>

lemma reloc_bounds:
  "checked_mul (unat (n :: u32)) 8 = Some (unat n * 8)"
  "checked_add (unat (o' :: u32)) (unat n * 8) = Some (unat o' + unat n * 8)"
  using unsigned_less [of n, where ?'a = nat] unsigned_less [of o', where ?'a = nat]
  by (simp_all add: checked_mul_def checked_add_def usize_max_def)

lemma parse_raw_relocs_unfold:
  "parse_raw_relocs file reloff nreloc =
     (if unat reloff + unat nreloc * 8 > length file
      then Err (Truncated (unat reloff + unat nreloc * 8) (length file) ''reloc table'')
      else read_records 8 parse_raw_reloc file (unat reloff) (unat nreloc))"
  by (simp add: parse_raw_relocs_def reloc_bounds Let_def)

lemma parse_raw_relocs_safe [no_panic]: "safe (parse_raw_relocs file reloff nreloc)"
  unfolding parse_raw_relocs_unfold by (auto intro!: no_panic)

lemma parse_raw_relocs_fields:
  assumes "parse_raw_relocs file reloff nreloc = Ok raws"
  shows "list_all raw_fields_ok raws"
proof -
  let ?f = "\<lambda>i. rbind (slice (unat reloff + i * 8) (unat reloff + i * 8 + 8) file) parse_raw_reloc"
  have m: "mapM ?f [0..<unat nreloc] = Ok raws"
    using assms by (simp add: parse_raw_relocs_unfold read_records_def split: if_splits)
  show ?thesis unfolding list_all_length
  proof (intro allI impI)
    fix i assume "i < length raws"
    then have "i < length [0..<unat nreloc]" using mapM_Ok_length [OF m] by simp
    from mapM_Ok_nth [OF m this] show "raw_fields_ok (raws ! i)"
      by (auto simp: rbind_Ok_iff dest: parse_raw_reloc_fields)
  qed
qed

lemma ref_to_raw_parts_bound: "fst (ref_to_raw_parts x) < 2 ^ 24"
proof (cases x)
  case (Symbol i)
  then show ?thesis using take_bit_less_exp [of 24 i] by (simp add: mask_24)
next
  case (Section i)
  have "ucast i < (2 ^ 24 :: u32)" using ucast_u8_bound [of i] by (rule le_less_trans) simp
  then show ?thesis using Section by simp
qed

lemma lower_reloc_fields: "lower_reloc r = Ok raws \<Longrightarrow> list_all raw_fields_ok raws"
proof -
  have len: "as_bits (rel_length r) < 4" by (cases "rel_length r") simp_all
  have ty: "reloc_type_byte (rel_kind r) < 16" by (cases "rel_kind r") simp_all
  have pre: "list_all raw_fields_ok pre" if "addend_prefix r = Ok pre" for pre
    using that len take_bit_less_exp [of 24 "ucast (rel_addend r) :: u32"]
    by (auto simp: addend_prefix_def encode_addend_prefix_def raw_fields_ok_def mask_24 rbind_Ok_iff
        split: if_splits)
  show "list_all raw_fields_ok raws" if "lower_reloc r = Ok raws"
    using that len ty pre ref_to_raw_parts_bound [of "rel_referent r"]
      ref_to_raw_parts_bound [of "the (rel_subtrahend r)"]
    by (auto simp: lower_reloc_def rbind_Ok_iff raw_fields_ok_def case_prod_unfold Let_def split: if_splits)
qed

lemma write_relocs_fields: "write_relocs rs = Ok raws \<Longrightarrow> list_all raw_fields_ok raws"
proof (induction rs arbitrary: raws)
  case (Cons r rs)
  then obtain hd tl where "lower_reloc r = Ok hd" "write_relocs rs = Ok tl" "raws = hd @ tl"
    by (auto simp: write_relocs_def rbind_Ok_iff)
  then show ?case using Cons.IH lower_reloc_fields by simp
qed (simp add: write_relocs_def)

text \<open>
  C7: the relocations the parser accepts survive lowering. A table read from a file by
  \<^verbatim>\<open>parse_raw_relocs\<close> and fused by \<^verbatim>\<open>parse_relocs\<close> is lowered by \<^verbatim>\<open>write_relocs\<close> without error
  into raw entries that fuse to the same relocations and that, written with \<^verbatim>\<open>write_raw_relocs\<close> at any
  place of an image, are read back unchanged; provided no fused subtraction pair carries the
  \<^verbatim>\<open>r_pcrel\<close> flag, which the lowering drops.
\<close>

theorem reloc_round_trip:
  assumes "parse_raw_relocs file reloff nreloc = Ok raws0" and "parse_relocs raws0 = Ok rs"
    and "list_all plain_pair rs"
  shows "\<exists>raws. write_relocs rs = Ok raws \<and> parse_relocs raws = Ok rs
    \<and> (\<forall>pre post. length pre < 2 ^ 32 \<and> length raws < 2 ^ 32 \<longrightarrow>
         parse_raw_relocs (pre @ write_raw_relocs raws @ post) (of_nat (length pre)) (of_nat (length raws))
         = Ok raws)"
proof -
  have "list_all fused_ok rs"
    using parse_relocs_loop_ok [of raws0 None None rs] parse_raw_relocs_fields [OF assms(1)] assms(2)
    by (simp add: parse_relocs_def pend_ok_def)
  then have "list_all (\<lambda>r. fused_ok r \<and> plain_pair r) rs" using assms(3) by (simp add: list_all_iff)
  then obtain raws where w: "write_relocs rs = Ok raws" "parse_relocs raws = Ok rs"
    using write_then_parse by blast
  have "parse_raw_relocs (pre @ write_raw_relocs raws @ post) (of_nat (length pre)) (of_nat (length raws))
         = Ok raws" if l: "length pre < 2 ^ 32 \<and> length raws < 2 ^ 32" for pre post
  proof -
    have "unat (of_nat (length pre) :: u32) = length pre" "unat (of_nat (length raws) :: u32) = length raws"
      using l by (simp_all add: unat_of_nat)
    with raw_relocs.read_written_table [OF write_relocs_fields [OF w(1)], of "length pre" pre "length raws" post]
      raw_relocs.length_table [OF write_relocs_fields [OF w(1)]]
    show ?thesis by (simp add: parse_raw_relocs_unfold write_raw_relocs_def)
  qed
  with w show ?thesis by blast
qed

theorem reloc_round_trip_witness:
  "\<exists>raws. write_relocs [\<lparr>rel_offset = 16, rel_kind = Branch26, rel_length = Word, rel_pcrel = True,
       rel_referent = Symbol 5, rel_addend = 0, rel_subtrahend = None\<rparr>] = Ok raws
     \<and> parse_relocs raws = Ok [\<lparr>rel_offset = 16, rel_kind = Branch26, rel_length = Word, rel_pcrel = True,
       rel_referent = Symbol 5, rel_addend = 0, rel_subtrahend = None\<rparr>]"
proof -
  let ?raw = "\<lparr>r_address = 16, r_symbolnum = 5, r_pcrel = True, r_length = 2, r_extern = True, r_type = 2\<rparr>"
  have "parse_raw_relocs (write_raw_relocs [?raw]) 0 1 = Ok [?raw]"
    using raw_relocs.read_written_table [of "[?raw]" 0 "[]" 1 "[]"]
    by (simp add: parse_raw_relocs_unfold write_raw_relocs_def raw_fields_ok_def)
  moreover have "parse_relocs [?raw] = Ok [\<lparr>rel_offset = 16, rel_kind = Branch26, rel_length = Word, rel_pcrel = True,
       rel_referent = Symbol 5, rel_addend = 0, rel_subtrahend = None\<rparr>]"
    by (simp add: parse_relocs_def fuse_primary_def primary_kind_from_type_def from_bits_def referent_from_def)
  ultimately show ?thesis
    using reloc_round_trip [of "write_raw_relocs [?raw]" 0 1 "[?raw]"] by (auto simp: plain_pair_def)
qed

text \<open>
  Without that proviso the round trip fails: a \<^verbatim>\<open>SUBTRACTOR\<close>/\<^verbatim>\<open>UNSIGNED\<close> pair whose second entry has
  \<^verbatim>\<open>r_pcrel\<close> set is accepted, but lowering it and parsing again gives a different relocation.
\<close>

lemma subtractor_pcrel_dropped:
  "\<exists>raws rs raws'. parse_relocs raws = Ok rs \<and> write_relocs rs = Ok raws' \<and> parse_relocs raws' \<noteq> Ok rs"
proof -
  let ?s = "\<lparr>r_address = 0, r_symbolnum = 1, r_pcrel = False, r_length = 3, r_extern = True, r_type = 1\<rparr>"
  let ?u = "\<lparr>r_address = 0, r_symbolnum = 2, r_pcrel = True, r_length = 3, r_extern = True, r_type = 0\<rparr>"
  let ?r = "\<lparr>rel_offset = 0, rel_kind = Subtractor, rel_length = Quad, rel_pcrel = True,
       rel_referent = Symbol 2, rel_addend = 0, rel_subtrahend = Some (Symbol 1)\<rparr>"
  have "parse_relocs [?s, ?u] = Ok [?r]"
    by (simp add: parse_relocs_def fuse_primary_def primary_kind_from_type_def from_bits_def referent_from_def)
  moreover have "write_relocs [?r] = Ok [?s, ?u\<lparr>r_pcrel := False\<rparr>]"
    by (simp add: write_relocs_def lower_reloc_def addend_prefix_def)
  moreover have "parse_relocs [?s, ?u\<lparr>r_pcrel := False\<rparr>] \<noteq> Ok [?r]"
    by (simp add: parse_relocs_def fuse_primary_def primary_kind_from_type_def from_bits_def referent_from_def)
  ultimately show ?thesis by blast
qed

end
