(* ===== verification/Reader.thy ===== *)
theory Reader
  imports Constants
begin

text \<open>
  The Mach-O reader of \<^verbatim>\<open>src/macho/reader.rs\<close>: the file header, the load-command region, and
  the codec of every load command the linker decodes; unknown commands are kept verbatim.
  Writers return the bytes they append.
\<close>

section \<open>Header\<close>

abbreviation (input) HEADER_SIZE :: nat where "HEADER_SIZE \<equiv> 32"

record mach_header_64 =
  magic :: u32
  cputype :: u32
  cpusubtype :: u32
  filetype :: u32
  ncmds :: u32
  sizeofcmds :: u32
  mh_flags :: u32
  mh_reserved :: u32

definition parse_header :: "bytes \<Rightarrow> mach_header_64 read" where
  "parse_header b =
     (if length b < HEADER_SIZE then Err (Truncated HEADER_SIZE (length b) ''mach_header_64'')
      else
        rbind (rd32 0 b) (\<lambda>mg.
        if mg \<noteq> MH_MAGIC_64 then Err (BadMagic mg)
        else rbind (rd32 4 b) (\<lambda>cpu.
        if cpu \<noteq> CPU_TYPE_ARM64 then Err (UnsupportedCpu cpu)
        else rbind (rd32 8 b) (\<lambda>cpusub.
        if \<not> is_supported_arm64_cpu_subtype cpusub then Err (UnsupportedCpuSubtype cpusub)
        else
          rbind (rd32 12 b) (\<lambda>ft.
          rbind (rd32 16 b) (\<lambda>nc.
          rbind (rd32 20 b) (\<lambda>sz.
          rbind (rd32 24 b) (\<lambda>fl.
          rbind (rd32 28 b) (\<lambda>rs.
          Ok \<lparr>magic = mg, cputype = cpu, cpusubtype = cpusub, filetype = ft, ncmds = nc,
              sizeofcmds = sz, mh_flags = fl, mh_reserved = rs\<rparr>)))))))))"

definition write_header :: "mach_header_64 \<Rightarrow> bytes" where
  "write_header h =
     le32 (magic h) @ le32 (cputype h) @ le32 (cpusubtype h) @ le32 (filetype h)
     @ le32 (ncmds h) @ le32 (sizeofcmds h) @ le32 (mh_flags h) @ le32 (mh_reserved h)"

section \<open>LC_SEGMENT_64\<close>

type_synonym name16 = bytes

definition name16_str :: "name16 \<Rightarrow> str" where
  "name16_str nm =
     (let n = (case position (\<lambda>b. b = 0) nm of Some n \<Rightarrow> n | None \<Rightarrow> length nm)
      in from_utf8_lossy (take n nm))"

record section_64_header =
  sh_sectname :: name16
  sh_segname :: name16
  sh_addr :: u64
  sh_size :: u64
  sh_offset :: u32
  sh_align :: u32
  sh_reloff :: u32
  sh_nreloc :: u32
  sh_flags :: u32
  sh_reserved1 :: u32
  sh_reserved2 :: u32
  sh_reserved3 :: u32

record segment_64 =
  sg_segname :: name16
  sg_vmaddr :: u64
  sg_vmsize :: u64
  sg_fileoff :: u64
  sg_filesize :: u64
  sg_maxprot :: u32
  sg_initprot :: u32
  sg_flags :: u32
  sg_sections :: "section_64_header list"

abbreviation (input) SEGMENT_BASE :: nat where "SEGMENT_BASE \<equiv> 64"
abbreviation (input) SECT :: nat where "SECT \<equiv> 80"

definition parse_section_header :: "bytes \<Rightarrow> section_64_header read" where
  "parse_section_header b =
     (if length b < SECT then Err (Truncated SECT (length b) ''section_64'')
      else
        rbind (slice 0 16 b) (\<lambda>sectname.
        rbind (slice 16 32 b) (\<lambda>segname.
        rbind (rd64 32 b) (\<lambda>addr.
        rbind (rd64 40 b) (\<lambda>size.
        rbind (rd32 48 b) (\<lambda>offset.
        rbind (rd32 52 b) (\<lambda>align.
        rbind (rd32 56 b) (\<lambda>reloff.
        rbind (rd32 60 b) (\<lambda>nreloc.
        rbind (rd32 64 b) (\<lambda>flags.
        rbind (rd32 68 b) (\<lambda>r1.
        rbind (rd32 72 b) (\<lambda>r2.
        rbind (rd32 76 b) (\<lambda>r3.
          Ok \<lparr>sh_sectname = sectname, sh_segname = segname, sh_addr = addr, sh_size = size,
              sh_offset = offset, sh_align = align, sh_reloff = reloff, sh_nreloc = nreloc,
              sh_flags = flags, sh_reserved1 = r1, sh_reserved2 = r2, sh_reserved3 = r3\<rparr>)))))))))))))"

definition write_section_header :: "section_64_header \<Rightarrow> bytes" where
  "write_section_header s =
     sh_sectname s @ sh_segname s @ le64 (sh_addr s) @ le64 (sh_size s) @ le32 (sh_offset s)
     @ le32 (sh_align s) @ le32 (sh_reloff s) @ le32 (sh_nreloc s) @ le32 (sh_flags s)
     @ le32 (sh_reserved1 s) @ le32 (sh_reserved2 s) @ le32 (sh_reserved3 s)"

definition segment_wire_size :: "segment_64 \<Rightarrow> u32" where
  "segment_wire_size s = of_nat (8 + SEGMENT_BASE + SECT * length (sg_sections s))"

definition parse_segment :: "u32 \<Rightarrow> bytes \<Rightarrow> segment_64 read" where
  "parse_segment cmdsize payload =
     (if length payload < SEGMENT_BASE then
        Err (Truncated SEGMENT_BASE (length payload) ''segment_command_64 base'')
      else
        rbind (slice 0 16 payload) (\<lambda>segname.
        rbind (rd64 16 payload) (\<lambda>vmaddr.
        rbind (rd64 24 payload) (\<lambda>vmsize.
        rbind (rd64 32 payload) (\<lambda>fileoff.
        rbind (rd64 40 payload) (\<lambda>filesize.
        rbind (rd32 48 payload) (\<lambda>maxprot.
        rbind (rd32 52 payload) (\<lambda>initprot.
        rbind (rd32 56 payload) (\<lambda>nsects.
        rbind (rd32 60 payload) (\<lambda>flags.
        let body_needed = SEGMENT_BASE + SECT * unat nsects in
        if length payload < body_needed then
          Err (BadCmdsize LC_SEGMENT_64 cmdsize 0
                 ''nsects implies more bytes than cmdsize accommodates'')
        else
          rbind (read_records SECT parse_section_header payload SEGMENT_BASE (unat nsects)) (\<lambda>sections.
          Ok \<lparr>sg_segname = segname, sg_vmaddr = vmaddr, sg_vmsize = vmsize, sg_fileoff = fileoff,
              sg_filesize = filesize, sg_maxprot = maxprot, sg_initprot = initprot, sg_flags = flags,
              sg_sections = sections\<rparr>)))))))))))"

definition write_segment :: "segment_64 \<Rightarrow> bytes" where
  "write_segment s =
     le32 LC_SEGMENT_64 @ le32 (segment_wire_size s) @ sg_segname s @ le64 (sg_vmaddr s)
     @ le64 (sg_vmsize s) @ le64 (sg_fileoff s) @ le64 (sg_filesize s) @ le32 (sg_maxprot s)
     @ le32 (sg_initprot s) @ le32 (of_nat (length (sg_sections s))) @ le32 (sg_flags s)
     @ concat (map write_section_header (sg_sections s))"

section \<open>LC_SYMTAB and LC_DYSYMTAB\<close>

record symtab_cmd =
  st_symoff :: u32
  st_nsyms :: u32
  st_stroff :: u32
  st_strsize :: u32

definition parse_symtab :: "u32 \<Rightarrow> bytes \<Rightarrow> symtab_cmd read" where
  "parse_symtab cmdsize payload =
     (if cmdsize \<noteq> 24 then Err (BadCmdsize LC_SYMTAB cmdsize 0 ''LC_SYMTAB cmdsize must be 24'')
      else if length payload < 16 then Err (Truncated 16 (length payload) ''symtab_command'')
      else
        rbind (rd32 0 payload) (\<lambda>symoff.
        rbind (rd32 4 payload) (\<lambda>nsyms.
        rbind (rd32 8 payload) (\<lambda>stroff.
        rbind (rd32 12 payload) (\<lambda>strsize.
          Ok \<lparr>st_symoff = symoff, st_nsyms = nsyms, st_stroff = stroff, st_strsize = strsize\<rparr>)))))"

definition write_symtab :: "symtab_cmd \<Rightarrow> bytes" where
  "write_symtab s =
     le32 LC_SYMTAB @ le32 24 @ le32 (st_symoff s) @ le32 (st_nsyms s) @ le32 (st_stroff s)
     @ le32 (st_strsize s)"

record dysymtab_cmd =
  ilocalsym :: u32
  nlocalsym :: u32
  iextdefsym :: u32
  nextdefsym :: u32
  iundefsym :: u32
  nundefsym :: u32
  tocoff :: u32
  ntoc :: u32
  modtaboff :: u32
  nmodtab :: u32
  extrefsymoff :: u32
  nextrefsyms :: u32
  indirectsymoff :: u32
  nindirectsyms :: u32
  extreloff :: u32
  nextrel :: u32
  locreloff :: u32
  nlocrel :: u32

text \<open>The closure \<^verbatim>\<open>|i| u32_le(&payload[i * 4..(i + 1) * 4])\<close> applied to \<open>0, 1, .., n - 1\<close>.\<close>

definition get_words :: "nat \<Rightarrow> bytes \<Rightarrow> ('e, u32 list) result" where
  "get_words n payload = mapM (\<lambda>i. rd32 (i * 4) payload) [0..<n]"

definition parse_dysymtab :: "u32 \<Rightarrow> bytes \<Rightarrow> dysymtab_cmd read" where
  "parse_dysymtab cmdsize payload =
     (if cmdsize \<noteq> 80 then Err (BadCmdsize LC_DYSYMTAB cmdsize 0 ''LC_DYSYMTAB cmdsize must be 80'')
      else if length payload < 72 then Err (Truncated 72 (length payload) ''dysymtab_command'')
      else rbind (get_words 18 payload) (\<lambda>g.
        Ok \<lparr>ilocalsym = g ! 0, nlocalsym = g ! 1, iextdefsym = g ! 2, nextdefsym = g ! 3,
            iundefsym = g ! 4, nundefsym = g ! 5, tocoff = g ! 6, ntoc = g ! 7, modtaboff = g ! 8,
            nmodtab = g ! 9, extrefsymoff = g ! 10, nextrefsyms = g ! 11, indirectsymoff = g ! 12,
            nindirectsyms = g ! 13, extreloff = g ! 14, nextrel = g ! 15, locreloff = g ! 16,
            nlocrel = g ! 17\<rparr>))"

definition dysymtab_words :: "dysymtab_cmd \<Rightarrow> u32 list" where
  "dysymtab_words d =
     [ilocalsym d, nlocalsym d, iextdefsym d, nextdefsym d, iundefsym d, nundefsym d, tocoff d,
      ntoc d, modtaboff d, nmodtab d, extrefsymoff d, nextrefsyms d, indirectsymoff d,
      nindirectsyms d, extreloff d, nextrel d, locreloff d, nlocrel d]"

definition write_dysymtab :: "dysymtab_cmd \<Rightarrow> bytes" where
  "write_dysymtab d = le32 LC_DYSYMTAB @ le32 80 @ concat (map le32 (dysymtab_words d))"

section \<open>LC_BUILD_VERSION\<close>

record build_tool =
  bt_tool :: u32
  bt_version :: u32

record build_version_cmd =
  bv_platform :: u32
  bv_minos :: u32
  bv_sdk :: u32
  bv_tools :: "build_tool list"

definition parse_tool :: "bytes \<Rightarrow> build_tool read" where
  "parse_tool b = rbind (rd32 0 b) (\<lambda>t. rbind (rd32 4 b) (\<lambda>v. Ok \<lparr>bt_tool = t, bt_version = v\<rparr>))"

definition write_tool :: "build_tool \<Rightarrow> bytes" where
  "write_tool t = le32 (bt_tool t) @ le32 (bt_version t)"

definition build_version_wire_size :: "build_version_cmd \<Rightarrow> u32" where
  "build_version_wire_size b = of_nat (8 + 16 + 8 * length (bv_tools b))"

definition parse_build_version :: "u32 \<Rightarrow> bytes \<Rightarrow> build_version_cmd read" where
  "parse_build_version cmdsize payload =
     (if length payload < 16 then Err (Truncated 16 (length payload) ''build_version_command'')
      else
        rbind (rd32 0 payload) (\<lambda>platform.
        rbind (rd32 4 payload) (\<lambda>minos.
        rbind (rd32 8 payload) (\<lambda>sdk.
        rbind (rd32 12 payload) (\<lambda>ntools.
        let body_needed = 16 + 8 * unat ntools in
        if length payload < body_needed then
          Err (BadCmdsize LC_BUILD_VERSION cmdsize 0
                 ''ntools requires more bytes than cmdsize accommodates'')
        else
          rbind (read_records 8 parse_tool payload 16 (unat ntools)) (\<lambda>tools.
          Ok \<lparr>bv_platform = platform, bv_minos = minos, bv_sdk = sdk, bv_tools = tools\<rparr>))))))"

definition write_build_version :: "build_version_cmd \<Rightarrow> bytes" where
  "write_build_version b =
     le32 LC_BUILD_VERSION @ le32 (build_version_wire_size b) @ le32 (bv_platform b)
     @ le32 (bv_minos b) @ le32 (bv_sdk b) @ le32 (of_nat (length (bv_tools b)))
     @ concat (map write_tool (bv_tools b))"

section \<open>Dylib and rpath commands\<close>

definition pad8 :: "nat \<Rightarrow> nat" where
  "pad8 n = (n + 7) div 8 * 8"

record dylib_cmd =
  dl_cmd :: u32
  dl_name :: str
  dl_timestamp :: u32
  dl_current_version :: u32
  dl_compatibility_version :: u32

definition dylib_wire_size :: "dylib_cmd \<Rightarrow> u32" where
  "dylib_wire_size d = of_nat (8 + pad8 (16 + length (dl_name d) + 1))"

definition parse_dylib :: "u32 \<Rightarrow> u32 \<Rightarrow> bytes \<Rightarrow> dylib_cmd read" where
  "parse_dylib cmd cmdsize payload =
     (if length payload < 16 then Err (Truncated 16 (length payload) ''dylib_command body'')
      else
        rbind (rd32 0 payload) (\<lambda>off.
        rbind (rd32 4 payload) (\<lambda>timestamp.
        rbind (rd32 8 payload) (\<lambda>current_version.
        rbind (rd32 12 payload) (\<lambda>compatibility_version.
        let name_off_in_cmd = unat off in
        if name_off_in_cmd < 8 \<or> name_off_in_cmd - 8 > length payload then
          Err (BadCmdsize cmd cmdsize 0 ''dylib_command name offset out of range'')
        else
          let name_start = name_off_in_cmd - 8 in
          rbind (slice name_start (length payload) payload) (\<lambda>name_bytes.
          rbind (ok_or (BadCmdsize cmd cmdsize 0 ''dylib_command name is not null-terminated'')
                   (position (\<lambda>b. b = 0) name_bytes)) (\<lambda>nul.
          rbind (slice 0 nul name_bytes) (\<lambda>name.
          if \<not> utf8_valid name then Err (BadCmdsize cmd cmdsize 0 ''dylib_command name is not UTF-8'')
          else Ok \<lparr>dl_cmd = cmd, dl_name = name, dl_timestamp = timestamp,
                   dl_current_version = current_version,
                   dl_compatibility_version = compatibility_version\<rparr>))))))))"

definition write_dylib :: "dylib_cmd \<Rightarrow> bytes" where
  "write_dylib d =
     (let padded = pad8 (16 + length (dl_name d) + 1);
          pad = padded - (16 + length (dl_name d) + 1)
      in le32 (dl_cmd d) @ le32 (dylib_wire_size d) @ le32 24 @ le32 (dl_timestamp d)
         @ le32 (dl_current_version d) @ le32 (dl_compatibility_version d) @ dl_name d @ [0]
         @ replicate pad 0)"

definition rpath_wire_size :: "str \<Rightarrow> u32" where
  "rpath_wire_size path = of_nat (8 + pad8 (4 + length path + 1))"

definition parse_rpath :: "u32 \<Rightarrow> bytes \<Rightarrow> str read" where
  "parse_rpath cmdsize payload =
     (if length payload < 4 then Err (Truncated 4 (length payload) ''rpath_command body'')
      else
        rbind (rd32 0 payload) (\<lambda>off.
        let off_in_cmd = unat off in
        if off_in_cmd < 8 \<or> off_in_cmd - 8 > length payload then
          Err (BadCmdsize LC_RPATH cmdsize 0 ''rpath_command path offset out of range'')
        else
          let start = off_in_cmd - 8 in
          rbind (slice start (length payload) payload) (\<lambda>bs.
          rbind (ok_or (BadCmdsize LC_RPATH cmdsize 0 ''rpath_command path is not null-terminated'')
                   (position (\<lambda>b. b = 0) bs)) (\<lambda>nul.
          rbind (slice 0 nul bs) (\<lambda>path.
          if \<not> utf8_valid path then Err (BadCmdsize LC_RPATH cmdsize 0 ''rpath_command path is not UTF-8'')
          else Ok path)))))"

definition write_rpath :: "str \<Rightarrow> bytes" where
  "write_rpath path =
     (let padded = pad8 (4 + length path + 1);
          pad = padded - (4 + length path + 1)
      in le32 LC_RPATH @ le32 (rpath_wire_size path) @ le32 12 @ path @ [0] @ replicate pad 0)"

section \<open>LC_DYLD_INFO_ONLY and linkedit data\<close>

record dyld_info_cmd =
  rebase_off :: u32
  rebase_size :: u32
  bind_off :: u32
  bind_size :: u32
  weak_bind_off :: u32
  weak_bind_size :: u32
  lazy_bind_off :: u32
  lazy_bind_size :: u32
  export_off :: u32
  export_size :: u32

definition parse_dyld_info :: "u32 \<Rightarrow> bytes \<Rightarrow> dyld_info_cmd read" where
  "parse_dyld_info cmdsize payload =
     (if cmdsize \<noteq> 48 then
        Err (BadCmdsize LC_DYLD_INFO_ONLY cmdsize 0 ''LC_DYLD_INFO_ONLY cmdsize must be 48'')
      else if length payload < 40 then Err (Truncated 40 (length payload) ''dyld_info_command'')
      else rbind (get_words 10 payload) (\<lambda>g.
        Ok \<lparr>rebase_off = g ! 0, rebase_size = g ! 1, bind_off = g ! 2, bind_size = g ! 3,
            weak_bind_off = g ! 4, weak_bind_size = g ! 5, lazy_bind_off = g ! 6,
            lazy_bind_size = g ! 7, export_off = g ! 8, export_size = g ! 9\<rparr>))"

definition dyld_info_words :: "dyld_info_cmd \<Rightarrow> u32 list" where
  "dyld_info_words d =
     [rebase_off d, rebase_size d, bind_off d, bind_size d, weak_bind_off d, weak_bind_size d,
      lazy_bind_off d, lazy_bind_size d, export_off d, export_size d]"

definition write_dyld_info :: "dyld_info_cmd \<Rightarrow> bytes" where
  "write_dyld_info d = le32 LC_DYLD_INFO_ONLY @ le32 48 @ concat (map le32 (dyld_info_words d))"

record link_edit_data_cmd =
  le_dataoff :: u32
  le_datasize :: u32

definition parse_linkedit :: "u32 \<Rightarrow> u32 \<Rightarrow> bytes \<Rightarrow> link_edit_data_cmd read" where
  "parse_linkedit cmd cmdsize payload =
     (if cmdsize \<noteq> 16 then Err (BadCmdsize cmd cmdsize 0 ''linkedit_data_command cmdsize must be 16'')
      else if length payload < 8 then Err (Truncated 8 (length payload) ''linkedit_data_command'')
      else
        rbind (rd32 0 payload) (\<lambda>dataoff.
        rbind (rd32 4 payload) (\<lambda>datasize.
          Ok \<lparr>le_dataoff = dataoff, le_datasize = datasize\<rparr>)))"

definition write_linkedit :: "u32 \<Rightarrow> link_edit_data_cmd \<Rightarrow> bytes" where
  "write_linkedit cmd l = le32 cmd @ le32 16 @ le32 (le_dataoff l) @ le32 (le_datasize l)"

section \<open>Load commands\<close>

datatype load_command =
    Segment64 segment_64
  | Symtab symtab_cmd
  | Dysymtab dysymtab_cmd
  | BuildVersion build_version_cmd
  | LinkerOptimizationHint link_edit_data_cmd
  | Dylib dylib_cmd
  | Rpath str
  | DyldInfoOnly dyld_info_cmd
  | DyldExportsTrie link_edit_data_cmd
  | DyldChainedFixups link_edit_data_cmd
  | RawCmd u32 u32 bytes

fun lc_cmd :: "load_command \<Rightarrow> u32" where
  "lc_cmd (Segment64 _) = LC_SEGMENT_64"
| "lc_cmd (Symtab _) = LC_SYMTAB"
| "lc_cmd (Dysymtab _) = LC_DYSYMTAB"
| "lc_cmd (BuildVersion _) = LC_BUILD_VERSION"
| "lc_cmd (LinkerOptimizationHint _) = LC_LINKER_OPTIMIZATION_HINT"
| "lc_cmd (Dylib d) = dl_cmd d"
| "lc_cmd (Rpath _) = LC_RPATH"
| "lc_cmd (DyldInfoOnly _) = LC_DYLD_INFO_ONLY"
| "lc_cmd (DyldExportsTrie _) = LC_DYLD_EXPORTS_TRIE"
| "lc_cmd (DyldChainedFixups _) = LC_DYLD_CHAINED_FIXUPS"
| "lc_cmd (RawCmd cmd _ _) = cmd"

fun lc_cmdsize :: "load_command \<Rightarrow> u32" where
  "lc_cmdsize (Segment64 s) = segment_wire_size s"
| "lc_cmdsize (Symtab _) = 24"
| "lc_cmdsize (Dysymtab _) = 80"
| "lc_cmdsize (BuildVersion b) = build_version_wire_size b"
| "lc_cmdsize (LinkerOptimizationHint _) = 16"
| "lc_cmdsize (Dylib d) = dylib_wire_size d"
| "lc_cmdsize (Rpath r) = rpath_wire_size r"
| "lc_cmdsize (DyldInfoOnly _) = 48"
| "lc_cmdsize (DyldExportsTrie _) = 16"
| "lc_cmdsize (DyldChainedFixups _) = 16"
| "lc_cmdsize (RawCmd _ cmdsize _) = cmdsize"

definition is_dylib_cmd :: "u32 \<Rightarrow> bool" where
  "is_dylib_cmd cmd \<longleftrightarrow>
     cmd = LC_ID_DYLIB \<or> cmd = LC_LOAD_DYLIB \<or> cmd = LC_LOAD_WEAK_DYLIB \<or> cmd = LC_REEXPORT_DYLIB
     \<or> cmd = LC_LOAD_UPWARD_DYLIB"

definition decode_command :: "u32 \<Rightarrow> u32 \<Rightarrow> bytes \<Rightarrow> load_command read" where
  "decode_command cmd cmdsize payload =
     (if cmd = LC_SEGMENT_64 then rmap Segment64 (parse_segment cmdsize payload)
      else if cmd = LC_SYMTAB then rmap Symtab (parse_symtab cmdsize payload)
      else if cmd = LC_DYSYMTAB then rmap Dysymtab (parse_dysymtab cmdsize payload)
      else if cmd = LC_BUILD_VERSION then rmap BuildVersion (parse_build_version cmdsize payload)
      else if cmd = LC_LINKER_OPTIMIZATION_HINT then
        rmap LinkerOptimizationHint (parse_linkedit LC_LINKER_OPTIMIZATION_HINT cmdsize payload)
      else if is_dylib_cmd cmd then rmap Dylib (parse_dylib cmd cmdsize payload)
      else if cmd = LC_RPATH then rmap Rpath (parse_rpath cmdsize payload)
      else if cmd = LC_DYLD_INFO_ONLY then rmap DyldInfoOnly (parse_dyld_info cmdsize payload)
      else if cmd = LC_DYLD_EXPORTS_TRIE then
        rmap DyldExportsTrie (parse_linkedit LC_DYLD_EXPORTS_TRIE cmdsize payload)
      else if cmd = LC_DYLD_CHAINED_FIXUPS then
        rmap DyldChainedFixups (parse_linkedit LC_DYLD_CHAINED_FIXUPS cmdsize payload)
      else Ok (RawCmd cmd cmdsize payload))"

fun parse_commands_loop :: "nat \<Rightarrow> nat \<Rightarrow> nat \<Rightarrow> bytes \<Rightarrow> load_command list read" where
  "parse_commands_loop 0 cursor cmds_end b = Ok []"
| "parse_commands_loop (Suc n) cursor cmds_end b =
     (if cursor + 8 > cmds_end then
        Err (Truncated 8 (cmds_end - cursor) ''load_command header (cmd + cmdsize)'')
      else
        rbind (rd32 cursor b) (\<lambda>cmd.
        rbind (rd32 (cursor + 4) b) (\<lambda>cmdsize.
        if cmdsize < 8 then Err (BadCmdsize cmd cmdsize cursor ''smaller than 8-byte header'')
        else if \<not> 8 dvd unat cmdsize then Err (BadCmdsize cmd cmdsize cursor ''not 8-byte aligned'')
        else
          rbind (ok_or (BadCmdsize cmd cmdsize cursor ''cmdsize overflow'')
                   (checked_add cursor (unat cmdsize))) (\<lambda>end.
          if end > cmds_end then Err (BadCmdsize cmd cmdsize cursor ''overruns sizeofcmds'')
          else
            rbind (slice (cursor + 8) end b) (\<lambda>payload.
            rbind (decode_command cmd cmdsize payload) (\<lambda>c.
            rbind (parse_commands_loop n end cmds_end b) (\<lambda>cs. Ok (c # cs))))))))"

definition parse_commands :: "mach_header_64 \<Rightarrow> bytes \<Rightarrow> load_command list read" where
  "parse_commands header b =
     rbind (ok_or (Truncated usize_max (length b) ''load-command region (sizeofcmds overflows)'')
              (checked_add HEADER_SIZE (unat (sizeofcmds header)))) (\<lambda>cmds_end.
     if length b < cmds_end then Err (Truncated cmds_end (length b) ''load-command region'')
     else parse_commands_loop (unat (ncmds header)) HEADER_SIZE cmds_end b)"

fun write_command :: "load_command \<Rightarrow> bytes" where
  "write_command (Segment64 s) = write_segment s"
| "write_command (Symtab s) = write_symtab s"
| "write_command (Dysymtab d) = write_dysymtab d"
| "write_command (BuildVersion b) = write_build_version b"
| "write_command (LinkerOptimizationHint l) = write_linkedit LC_LINKER_OPTIMIZATION_HINT l"
| "write_command (Dylib d) = write_dylib d"
| "write_command (Rpath r) = write_rpath r"
| "write_command (DyldInfoOnly d) = write_dyld_info d"
| "write_command (DyldExportsTrie l) = write_linkedit LC_DYLD_EXPORTS_TRIE l"
| "write_command (DyldChainedFixups l) = write_linkedit LC_DYLD_CHAINED_FIXUPS l"
| "write_command (RawCmd cmd cmdsize dat) = le32 cmd @ le32 cmdsize @ dat"

definition write_commands :: "load_command list \<Rightarrow> bytes" where
  "write_commands cmds = concat (map write_command cmds)"

section \<open>No input makes the reader panic\<close>

lemma get_words_safe [no_panic]: "n * 4 \<le> length b \<Longrightarrow> safe (get_words n b)"
  unfolding get_words_def by (auto intro!: no_panic)

lemma parse_header_safe [no_panic]: "safe (parse_header b)"
  unfolding parse_header_def by (auto intro!: no_panic)

lemma parse_section_header_safe [no_panic]: "safe (parse_section_header b)"
  unfolding parse_section_header_def by (auto intro!: no_panic)

lemma parse_segment_safe [no_panic]: "safe (parse_segment cmdsize b)"
  unfolding parse_segment_def Let_def by (auto intro!: no_panic simp: mult.commute)

lemma parse_symtab_safe [no_panic]: "safe (parse_symtab cmdsize b)"
  unfolding parse_symtab_def by (auto intro!: no_panic)

lemma parse_dysymtab_safe [no_panic]: "safe (parse_dysymtab cmdsize b)"
  unfolding parse_dysymtab_def by (auto intro!: no_panic)

lemma parse_build_version_safe [no_panic]: "safe (parse_build_version cmdsize b)"
  unfolding parse_build_version_def parse_tool_def Let_def by (auto intro!: no_panic simp: mult.commute)

lemma parse_dylib_safe [no_panic]: "safe (parse_dylib cmd cmdsize b)"
  unfolding parse_dylib_def Let_def by (auto intro!: no_panic dest!: position_SomeD(1))

lemma parse_rpath_safe [no_panic]: "safe (parse_rpath cmdsize b)"
  unfolding parse_rpath_def Let_def by (auto intro!: no_panic dest!: position_SomeD(1))

lemma parse_dyld_info_safe [no_panic]: "safe (parse_dyld_info cmdsize b)"
  unfolding parse_dyld_info_def by (auto intro!: no_panic)

lemma parse_linkedit_safe [no_panic]: "safe (parse_linkedit cmd cmdsize b)"
  unfolding parse_linkedit_def by (auto intro!: no_panic)

lemma decode_command_safe [no_panic]: "safe (decode_command cmd cmdsize payload)"
  unfolding decode_command_def by (auto intro!: no_panic)

lemma parse_commands_loop_safe:
  "cmds_end \<le> length b \<Longrightarrow> safe (parse_commands_loop n cursor cmds_end b)"
proof (induction n cursor cmds_end b rule: parse_commands_loop.induct)
  case (2 n cursor cmds_end b)
  show ?case
    unfolding parse_commands_loop.simps
    by (intro no_panic; (simp add: checked_add_eq_Some word_less_nat_alt split: if_splits)?)
      (use 2 in \<open>auto simp: checked_add_eq_Some word_less_nat_alt\<close>)
qed simp

section \<open>Records and word arrays\<close>

lemma rd32_slice: "rd32 k b = rbind (slice k (k + 4) b) (rd32 0)"
  by (auto simp: rd32_def slice_def u32_le_def)

lemma get_words_records: "get_words n b = read_records 4 (rd32 0) b 0 n"
  unfolding get_words_def read_records_def by (rule mapM_cong [OF refl]) (simp add: rd32_slice)

interpretation words: record_codec le32 "rd32 0" 4 "\<lambda>_. True"
  by unfold_locales (simp_all add: rd_ok)

lemma get_words_written: "n = length ws \<Longrightarrow> get_words n (concat (map le32 ws)) = Ok ws"
  using words.read_written_table [of ws 0 "[]" n "[]"] by (simp add: get_words_records list_all_iff)

definition section_names_ok :: "section_64_header \<Rightarrow> bool" where
  "section_names_ok s \<longleftrightarrow> length (sh_sectname s) = 16 \<and> length (sh_segname s) = 16"

lemma length_write_section_header: "section_names_ok s \<Longrightarrow> length (write_section_header s) = 80"
  by (simp add: write_section_header_def section_names_ok_def)

lemma parse_write_section_header:
  "section_names_ok s \<Longrightarrow> parse_section_header (write_section_header s) = Ok s"
  by (simp add: parse_section_header_def write_section_header_def section_names_ok_def rd_ok)

interpretation sections: record_codec write_section_header parse_section_header 80 section_names_ok
  by unfold_locales (simp_all add: length_write_section_header parse_write_section_header)

lemma parse_write_tool: "parse_tool (write_tool t) = Ok t"
  by (simp add: parse_tool_def write_tool_def rd_ok)

interpretation tools: record_codec write_tool parse_tool 8 "\<lambda>_. True"
  by unfold_locales (simp_all add: parse_write_tool, simp add: write_tool_def)

section \<open>Every well-formed command survives a round trip\<close>

definition known_cmd :: "u32 \<Rightarrow> bool" where
  "known_cmd c \<longleftrightarrow> c = LC_SEGMENT_64 \<or> c = LC_SYMTAB \<or> c = LC_DYSYMTAB \<or> c = LC_BUILD_VERSION
     \<or> c = LC_LINKER_OPTIMIZATION_HINT \<or> is_dylib_cmd c \<or> c = LC_RPATH \<or> c = LC_DYLD_INFO_ONLY
     \<or> c = LC_DYLD_EXPORTS_TRIE \<or> c = LC_DYLD_CHAINED_FIXUPS"

definition c_string :: "str \<Rightarrow> bool" where
  "c_string s \<longleftrightarrow> 0 \<notin> set s \<and> utf8_valid s"

text \<open>
  What the Rust types and the wire format guarantee of a command: fixed-size names, no interior NUL
  in a name, a size that fits its 32-bit field, and no known command number on an undecoded command.
\<close>

fun wf_cmd :: "load_command \<Rightarrow> bool" where
  "wf_cmd (Segment64 s) = (length (sg_segname s) = 16 \<and> list_all section_names_ok (sg_sections s)
     \<and> 72 + 80 * length (sg_sections s) < 2 ^ 32)"
| "wf_cmd (BuildVersion b) = (24 + 8 * length (bv_tools b) < 2 ^ 32)"
| "wf_cmd (Dylib d) = (is_dylib_cmd (dl_cmd d) \<and> c_string (dl_name d) \<and> 40 + length (dl_name d) < 2 ^ 32)"
| "wf_cmd (Rpath r) = (c_string r \<and> 40 + length r < 2 ^ 32)"
| "wf_cmd (RawCmd cmd cmdsize dat) = (\<not> known_cmd cmd \<and> unat cmdsize = 8 + length dat \<and> 8 dvd length dat)"
| "wf_cmd _ = True"

text \<open>\<open>framed c\<close>: the written command is its 8-byte header and a payload that decodes to \<open>c\<close>.\<close>

definition framed :: "load_command \<Rightarrow> bool" where
  "framed c \<longleftrightarrow> (\<exists>payload. write_command c = le32 (lc_cmd c) @ le32 (lc_cmdsize c) @ payload
     \<and> unat (lc_cmdsize c) = 8 + length payload \<and> 8 dvd length payload
     \<and> decode_command (lc_cmd c) (lc_cmdsize c) payload = Ok c)"

lemma unat_small: "n < 2 ^ 32 \<Longrightarrow> unat (of_nat n :: u32) = n"
  by (simp add: unat_of_nat)

lemma framed_segment: "wf_cmd (Segment64 s) \<Longrightarrow> framed (Segment64 s)"
proof -
  assume wf: "wf_cmd (Segment64 s)"
  let ?n = "length (sg_sections s)"
  let ?tab = "concat (map write_section_header (sg_sections s))"
  let ?fix = "sg_segname s @ le64 (sg_vmaddr s) @ le64 (sg_vmsize s) @ le64 (sg_fileoff s)
     @ le64 (sg_filesize s) @ le32 (sg_maxprot s) @ le32 (sg_initprot s) @ le32 (of_nat ?n) @ le32 (sg_flags s)"
  from wf have n: "?n < 2 ^ 32" and ok: "list_all section_names_ok (sg_sections s)"
    and nm: "length (sg_segname s) = 16" by auto
  have len: "length ?tab = ?n * 80" by (rule sections.length_table [OF ok])
  have rd: "read_records 80 parse_section_header (?fix @ ?tab) 64 ?n = Ok (sg_sections s)"
    using sections.read_written_table [OF ok, of 64 ?fix ?n "[]"] nm by simp
  have fx: "length ?fix = 64" using nm by simp
  have "parse_segment (segment_wire_size s) (?fix @ ?tab) = Ok s"
    using rd len unat_small [OF n] nm by (simp add: parse_segment_def rd_ok)
  then have "decode_command (lc_cmd (Segment64 s)) (lc_cmdsize (Segment64 s)) (?fix @ ?tab) = Ok (Segment64 s)"
    by (simp add: decode_command_def)
  moreover have "unat (segment_wire_size s) = 8 + 64 + 80 * ?n"
    unfolding segment_wire_size_def by (rule unat_small) (use wf in simp)
  then have "unat (lc_cmdsize (Segment64 s)) = 8 + length (?fix @ ?tab)" using len fx by simp
  moreover have "8 dvd length (?fix @ ?tab)" using len fx by simp
  ultimately show ?thesis
    unfolding framed_def by (intro exI [of _ "?fix @ ?tab"]) (simp add: write_segment_def)
qed

lemma framed_words:
  "framed (Symtab y)" "framed (Dysymtab d)" "framed (DyldInfoOnly i)"
  "framed (LinkerOptimizationHint l)" "framed (DyldExportsTrie l)" "framed (DyldChainedFixups l)"
proof -
  show "framed (Symtab y)"
    unfolding framed_def by (simp add: write_symtab_def decode_command_def parse_symtab_def rd_ok)
  have "get_words 18 (concat (map le32 (dysymtab_words d))) = (Ok (dysymtab_words d) :: u32 list read)"
    by (rule get_words_written) (simp add: dysymtab_words_def)
  moreover have "length (concat (map le32 (dysymtab_words d))) = 72" by (simp add: dysymtab_words_def)
  ultimately have "parse_dysymtab 80 (concat (map le32 (dysymtab_words d))) = Ok d"
    by (simp add: parse_dysymtab_def, simp add: dysymtab_words_def)
  then show "framed (Dysymtab d)"
    unfolding framed_def
    by (intro exI [of _ "concat (map le32 (dysymtab_words d))"])
      (simp add: write_dysymtab_def decode_command_def, simp add: dysymtab_words_def)
  have "get_words 10 (concat (map le32 (dyld_info_words i))) = (Ok (dyld_info_words i) :: u32 list read)"
    by (rule get_words_written) (simp add: dyld_info_words_def)
  moreover have "length (concat (map le32 (dyld_info_words i))) = 40" by (simp add: dyld_info_words_def)
  ultimately have "parse_dyld_info 48 (concat (map le32 (dyld_info_words i))) = Ok i"
    by (simp add: parse_dyld_info_def, simp add: dyld_info_words_def)
  then show "framed (DyldInfoOnly i)"
    unfolding framed_def
    by (intro exI [of _ "concat (map le32 (dyld_info_words i))"])
      (simp add: write_dyld_info_def decode_command_def is_dylib_cmd_def, simp add: dyld_info_words_def)
  show "framed (LinkerOptimizationHint l)" "framed (DyldExportsTrie l)" "framed (DyldChainedFixups l)"
    unfolding framed_def
    by (simp_all add: write_linkedit_def decode_command_def is_dylib_cmd_def parse_linkedit_def rd_ok)
qed

lemma framed_build_version: "wf_cmd (BuildVersion b) \<Longrightarrow> framed (BuildVersion b)"
proof -
  assume wf: "wf_cmd (BuildVersion b)"
  let ?n = "length (bv_tools b)"
  let ?tab = "concat (map write_tool (bv_tools b))"
  let ?fix = "le32 (bv_platform b) @ le32 (bv_minos b) @ le32 (bv_sdk b) @ le32 (of_nat ?n)"
  have n: "?n < 2 ^ 32" using wf by simp
  have ok: "list_all (\<lambda>_. True) (bv_tools b)" by (simp add: list_all_iff)
  have len: "length ?tab = ?n * 8" by (rule tools.length_table [OF ok])
  have rd: "read_records 8 parse_tool (?fix @ ?tab) 16 ?n = Ok (bv_tools b)"
    using tools.read_written_table [OF ok, of 16 ?fix ?n "[]"] by simp
  have "parse_build_version (build_version_wire_size b) (?fix @ ?tab) = Ok b"
    using rd len unat_small [OF n] by (simp add: parse_build_version_def rd_ok)
  then have "decode_command (lc_cmd (BuildVersion b)) (lc_cmdsize (BuildVersion b)) (?fix @ ?tab) = Ok (BuildVersion b)"
    by (simp add: decode_command_def)
  moreover have "unat (build_version_wire_size b) = 8 + 16 + 8 * ?n"
    unfolding build_version_wire_size_def by (rule unat_small) (use wf in simp)
  then have "unat (lc_cmdsize (BuildVersion b)) = 8 + length (?fix @ ?tab)" using len by simp
  moreover have "8 dvd length (?fix @ ?tab)" using len by simp
  ultimately show ?thesis
    unfolding framed_def by (intro exI [of _ "?fix @ ?tab"]) (simp add: write_build_version_def)
qed

lemma pad8_bounds: "n \<le> pad8 n" "pad8 n < n + 8" "8 dvd pad8 n"
  unfolding pad8_def by presburger+

lemma framed_dylib: "wf_cmd (Dylib d) \<Longrightarrow> framed (Dylib d)"
proof -
  assume wf: "wf_cmd (Dylib d)"
  define k where "k = 16 + length (dl_name d) + 1"
  let ?pl = "le32 24 @ le32 (dl_timestamp d) @ le32 (dl_current_version d)
     @ le32 (dl_compatibility_version d) @ dl_name d @ 0 # replicate (pad8 k - k) 0"
  have len: "length ?pl = pad8 k" using pad8_bounds(1) [of k] by (simp add: k_def)
  have pos: "position (\<lambda>b. b = 0) (dl_name d @ 0 # replicate (pad8 k - k) 0) = Some (length (dl_name d))"
    using wf by (intro position_prefix) (auto simp: c_string_def)
  have "parse_dylib (dl_cmd d) (dylib_wire_size d) ?pl = Ok d"
    using wf pos by (simp add: parse_dylib_def rd_ok c_string_def)
  then have "decode_command (lc_cmd (Dylib d)) (lc_cmdsize (Dylib d)) ?pl = Ok (Dylib d)"
    using wf by (auto simp: decode_command_def is_dylib_cmd_def)
  moreover have "unat (dylib_wire_size d) = 8 + pad8 k"
    unfolding dylib_wire_size_def k_def [symmetric]
    by (rule unat_small) (use wf pad8_bounds(2) [of k] in \<open>simp add: k_def\<close>)
  then have "unat (lc_cmdsize (Dylib d)) = 8 + length ?pl" by (simp only: len lc_cmdsize.simps)
  moreover have "8 dvd length ?pl" using pad8_bounds(3) by (simp only: len)
  ultimately show ?thesis
    unfolding framed_def by (intro exI [of _ ?pl]) (simp add: write_dylib_def Let_def k_def)
qed

lemma framed_rpath: "wf_cmd (Rpath r) \<Longrightarrow> framed (Rpath r)"
proof -
  assume wf: "wf_cmd (Rpath r)"
  define k where "k = 4 + length r + 1"
  let ?pl = "le32 12 @ r @ 0 # replicate (pad8 k - k) 0"
  have len: "length ?pl = pad8 k" using pad8_bounds(1) [of k] by (simp add: k_def)
  have pos: "position (\<lambda>b. b = 0) (r @ 0 # replicate (pad8 k - k) 0) = Some (length r)"
    using wf by (intro position_prefix) (auto simp: c_string_def)
  have "parse_rpath (rpath_wire_size r) ?pl = Ok r"
    using wf pos by (simp add: parse_rpath_def rd_ok c_string_def)
  then have "decode_command (lc_cmd (Rpath r)) (lc_cmdsize (Rpath r)) ?pl = Ok (Rpath r)"
    by (simp add: decode_command_def is_dylib_cmd_def)
  moreover have "unat (rpath_wire_size r) = 8 + pad8 k"
    unfolding rpath_wire_size_def k_def [symmetric]
    by (rule unat_small) (use wf pad8_bounds(2) [of k] in \<open>simp add: k_def\<close>)
  then have "unat (lc_cmdsize (Rpath r)) = 8 + length ?pl" by (simp only: len lc_cmdsize.simps)
  moreover have "8 dvd length ?pl" using pad8_bounds(3) by (simp only: len)
  ultimately show ?thesis
    unfolding framed_def by (intro exI [of _ ?pl]) (simp add: write_rpath_def Let_def k_def)
qed

lemma wf_cmd_framed: "wf_cmd c \<Longrightarrow> framed c"
proof (cases c)
  case (RawCmd cmd cmdsize dat)
  assume "wf_cmd c"
  then show ?thesis
    using RawCmd by (auto simp: framed_def decode_command_def known_cmd_def)
qed (simp_all add: framed_segment framed_words framed_build_version framed_dylib framed_rpath
      del: wf_cmd.simps)

lemma loop_round_trip:
  assumes "list_all wf_cmd cs" and "length pre + length (write_commands cs) \<le> usize_max"
  shows "parse_commands_loop (length cs) (length pre) (length pre + length (write_commands cs))
      (pre @ write_commands cs @ rest) = Ok cs"
  using assms
proof (induction cs arbitrary: pre)
  case (Cons c cs)
  obtain pl where pl: "write_command c = le32 (lc_cmd c) @ le32 (lc_cmdsize c) @ pl"
    "unat (lc_cmdsize c) = 8 + length pl" "8 dvd length pl" "decode_command (lc_cmd c) (lc_cmdsize c) pl = Ok c"
    using wf_cmd_framed [of c] Cons.prems(1) by (auto simp: framed_def)
  have w: "write_commands (c # cs) = write_command c @ write_commands cs" by (simp add: write_commands_def)
  have IH: "parse_commands_loop (length cs) (length (pre @ write_command c))
      (length (pre @ write_command c) + length (write_commands cs))
      ((pre @ write_command c) @ write_commands cs @ rest) = Ok cs"
    using Cons.prems w by (intro Cons.IH) simp_all
  have "\<not> lc_cmdsize c < 8" using pl(2) by (simp add: word_less_nat_alt)
  moreover have "length (write_command c) = 8 + length pl" using pl(1) by simp
  ultimately show ?case
    using IH pl Cons.prems(2) w by (simp add: rd_ok checked_add_def add.assoc)
qed simp

section \<open>Properties\<close>

definition header_ok :: "mach_header_64 \<Rightarrow> bool" where
  "header_ok h \<longleftrightarrow> magic h = MH_MAGIC_64 \<and> cputype h = CPU_TYPE_ARM64 \<and> is_supported_arm64_cpu_subtype (cpusubtype h)"

lemma parse_write_header: "header_ok h \<Longrightarrow> parse_header (write_header h @ rest) = Ok h"
  by (simp add: parse_header_def write_header_def header_ok_def rd_ok)

lemma length_write_header: "length (write_header h) = 32"
  by (simp add: write_header_def)

lemma sizeofcmds_bound: "checked_add 32 (unat (n :: u32)) = Some (32 + unat n)"
  using unsigned_less [of n, where ?'a = nat] by (simp add: checked_add_def usize_max_def)

lemma parse_write_commands:
  assumes "list_all wf_cmd cs" and "unat (ncmds h) = length cs" and "unat (sizeofcmds h) = length (write_commands cs)"
  shows "parse_commands h (write_header h @ write_commands cs @ rest) = Ok cs"
proof -
  have "32 + length (write_commands cs) \<le> usize_max"
    using sizeofcmds_bound [of "sizeofcmds h"] assms(3) by (simp add: checked_add_eq_Some)
  then show ?thesis
    using loop_round_trip [OF assms(1), of "write_header h" rest] assms(2,3)
    by (simp add: parse_commands_def checked_add_def length_write_header)
qed

text \<open>
  C9: no byte sequence makes the Mach-O reader panic: every slice and every index in
  \<^verbatim>\<open>parse_header\<close>, \<^verbatim>\<open>parse_commands\<close> and the per-command decoders is covered by an earlier check,
  and a successful parse returns exactly \<^verbatim>\<open>ncmds\<close> commands.
\<close>

theorem reader_never_panics:
  "parse_header b \<noteq> Panic \<and> parse_commands h b \<noteq> Panic
    \<and> (case parse_commands h b of Ok cs \<Rightarrow> length cs = unat (ncmds h) | _ \<Rightarrow> True)"
proof -
  have l: "parse_commands_loop n c e b = Ok cs \<Longrightarrow> length cs = n" for n c e cs
    by (induction n arbitrary: c cs) (auto simp: rbind_Ok_iff split: if_splits)
  have "safe (parse_commands h b)"
    unfolding parse_commands_def
    by (auto intro!: no_panic parse_commands_loop_safe)
  then show ?thesis
    using parse_header_safe [of b] l
    by (auto simp: safe_def parse_commands_def rbind_Ok_iff split: result.splits if_splits)
qed

text \<open>
  C8: an image that starts with a written header and written load commands is parsed back to that
  header and those commands, whatever follows them.
\<close>

theorem image_round_trip:
  assumes "header_ok h" and "list_all wf_cmd cs"
    and "unat (ncmds h) = length cs" and "unat (sizeofcmds h) = length (write_commands cs)"
  shows "parse_header (write_header h @ write_commands cs @ rest) = Ok h
    \<and> parse_commands h (write_header h @ write_commands cs @ rest) = Ok cs"
  using parse_write_header [OF assms(1)] parse_write_commands [OF assms(2-4)] by blast

theorem image_round_trip_witness:
  "parse_commands \<lparr>magic = 0xFEEDFACF, cputype = 0x0100000C, cpusubtype = 0, filetype = 6, ncmds = 1,
       sizeofcmds = 24, mh_flags = 0, mh_reserved = 0\<rparr>
     (write_header \<lparr>magic = 0xFEEDFACF, cputype = 0x0100000C, cpusubtype = 0, filetype = 6, ncmds = 1,
        sizeofcmds = 24, mh_flags = 0, mh_reserved = 0\<rparr> @ write_commands [Rpath [47, 108, 105, 98]] @ [9])
   = Ok [Rpath [47, 108, 105, 98]]"
proof -
  let ?h = "\<lparr>magic = 0xFEEDFACF, cputype = 0x0100000C, cpusubtype = 0, filetype = 6, ncmds = 1,
       sizeofcmds = 24, mh_flags = 0, mh_reserved = 0\<rparr>"
  have "header_ok ?h" by (simp add: header_ok_def is_supported_arm64_cpu_subtype_def)
  moreover have "list_all wf_cmd [Rpath [47, 108, 105, 98]]"
    using utf8_valid_ascii [of "[47, 108, 105, 98]"] by (simp add: c_string_def)
  ultimately show ?thesis
    using image_round_trip [of ?h "[Rpath [47, 108, 105, 98]]" "[9]"]
    by (simp add: write_commands_def write_rpath_def pad8_def Let_def)
qed

text \<open>
  The converse does not hold: \<^verbatim>\<open>write_commands\<close> does not always reproduce the bytes
  \<^verbatim>\<open>parse_commands\<close> read. A path whose offset field leaves a gap after the fixed part is accepted, and
  written back without the gap.
\<close>

lemma rewrite_not_identical:
  "\<exists>h region cs. parse_commands h (write_header h @ region) = Ok cs
     \<and> unat (sizeofcmds h) = length region \<and> write_commands cs \<noteq> region"
proof -
  let ?h = "\<lparr>magic = 0xFEEDFACF, cputype = 0x0100000C, cpusubtype = 0, filetype = 6, ncmds = 1,
       sizeofcmds = 24, mh_flags = 0, mh_reserved = 0\<rparr>"
  let ?r = "le32 0x8000001C @ le32 24 @ le32 16 @ [1, 1, 1, 1] @ [97, 0, 0, 0, 0, 0, 0, 0]"
  have u: "utf8_valid [97]" by (rule utf8_valid_ascii) simp
  have "decode_command 0x8000001C 24 (le32 16 @ [1, 1, 1, 1] @ [97, 0, 0, 0, 0, 0, 0, 0]) = Ok (Rpath [97])"
    using u by (simp add: decode_command_def is_dylib_cmd_def parse_rpath_def rd_ok)
  then have "parse_commands ?h (write_header ?h @ ?r) = Ok [Rpath [97]]"
    using sizeofcmds_bound [of 24]
    by (simp add: parse_commands_def length_write_header rd_ok checked_add_def usize_max_def)
  moreover have "write_commands [Rpath [97]] \<noteq> ?r"
    by (simp add: write_commands_def write_rpath_def pad8_def Let_def)
  ultimately show ?thesis by (intro exI [of _ ?h] exI [of _ ?r] exI [of _ "[Rpath [97]]"]) simp
qed

end
