(* ===== verification/Exports.thy ===== *)
theory Exports
  imports Leb
begin

text \<open>
  The export-trie reader of \<^verbatim>\<open>src/macho/exports.rs\<close>: terminal payloads, the depth-capped and
  cycle-checked enumeration \<^verbatim>\<open>walk\<close>, and \<^verbatim>\<open>lookup\<close>. The one arithmetic expression of the module
  that can exceed 64 bits, the \<^verbatim>\<open>off + 1\<close> of a diagnostic, is written as an overflow-checked
  addition (\<^const>\<open>Panic\<close> when it overflows, as in a build with overflow checks).
\<close>

abbreviation (input) EXPORT_SYMBOL_FLAGS_KIND_MASK :: u64 where "EXPORT_SYMBOL_FLAGS_KIND_MASK \<equiv> 0x03"
abbreviation (input) EXPORT_SYMBOL_FLAGS_KIND_THREAD_LOCAL :: u64
  where "EXPORT_SYMBOL_FLAGS_KIND_THREAD_LOCAL \<equiv> 0x01"
abbreviation (input) EXPORT_SYMBOL_FLAGS_KIND_ABSOLUTE :: u64 where "EXPORT_SYMBOL_FLAGS_KIND_ABSOLUTE \<equiv> 0x02"
abbreviation (input) EXPORT_SYMBOL_FLAGS_WEAK_DEFINITION :: u64 where "EXPORT_SYMBOL_FLAGS_WEAK_DEFINITION \<equiv> 0x04"
abbreviation (input) EXPORT_SYMBOL_FLAGS_REEXPORT :: u64 where "EXPORT_SYMBOL_FLAGS_REEXPORT \<equiv> 0x08"
abbreviation (input) EXPORT_SYMBOL_FLAGS_STUB_AND_RESOLVER :: u64
  where "EXPORT_SYMBOL_FLAGS_STUB_AND_RESOLVER \<equiv> 0x10"
abbreviation (input) MAX_DEPTH :: nat where "MAX_DEPTH \<equiv> 128"

section \<open>Entries\<close>

datatype export_kind =
    ERegular u64
  | EThreadLocal u64
  | EAbsolute u64
  | EReexport u32 str
  | EStubAndResolver u64 u64

record export_entry =
  ex_name :: str
  ex_flags :: u64
  ex_kind :: export_kind

definition ex_weak_def :: "export_entry \<Rightarrow> bool" where
  "ex_weak_def e \<longleftrightarrow> ex_flags e AND EXPORT_SYMBOL_FLAGS_WEAK_DEFINITION \<noteq> 0"

datatype exports = Trie bytes | Flat "export_entry list"

section \<open>Primitives\<close>

definition trie_err :: "nat \<Rightarrow> string \<Rightarrow> read_error" where
  "trie_err off why = BadCmdsize 0 0 off why"

definition read_uleb_at :: "bytes \<Rightarrow> nat \<Rightarrow> (u64 \<times> nat) read" where
  "read_uleb_at trie off =
     (if off > length trie then
        rbind (expect (checked_add off 1)) (\<lambda>need. Err (Truncated need (length trie) ''export trie uleb''))
      else rbind (slice off (length trie) trie) read_uleb)"

definition read_cstring_with_len :: "bytes \<Rightarrow> nat \<Rightarrow> (str \<times> nat) read" where
  "read_cstring_with_len trie off =
     (if off \<ge> length trie then
        rbind (expect (checked_add off 1)) (\<lambda>need. Err (Truncated need (length trie) ''export trie c-string''))
      else
        rbind (slice off (length trie) trie) (\<lambda>tail.
        rbind (ok_or (Truncated (length trie + 1) (length trie) ''export trie c-string (no terminator)'')
                 (position (\<lambda>b. b = 0) tail)) (\<lambda>nul.
        rbind (slice off (off + nul) trie) (\<lambda>s.
        if utf8_valid s then Ok (s, nul + 1)
        else Err (trie_err off ''export trie string is not UTF-8'')))))"

definition terminal_bounds :: "bytes \<Rightarrow> nat \<Rightarrow> (nat \<times> nat) read" where
  "terminal_bounds trie node_off =
     rbind (read_uleb_at trie node_off) (\<lambda>(terminal_size, n).
     let overflow = trie_err node_off ''export trie terminal_size overflows'' in
     rbind (ok_or overflow (checked_add node_off n)) (\<lambda>start.
     rbind (ok_or overflow (checked_add start (unat terminal_size))) (\<lambda>end.
     if end > length trie then Err (Truncated end (length trie) ''export trie terminal payload'')
     else Ok (start, end))))"

definition skip_terminal :: "bytes \<Rightarrow> nat \<Rightarrow> nat read" where
  "skip_terminal trie node_off = rmap snd (terminal_bounds trie node_off)"

definition read_kind :: "bytes \<Rightarrow> u64 \<Rightarrow> nat \<Rightarrow> export_kind read" where
  "read_kind term flags cursor =
     (if flags AND EXPORT_SYMBOL_FLAGS_REEXPORT \<noteq> 0 then
        rbind (read_uleb_at term cursor) (\<lambda>(ord, on).
        rbind (read_cstring_with_len term (cursor + on)) (\<lambda>(imported_name, _).
        Ok (EReexport (ucast ord) imported_name)))
      else if flags AND EXPORT_SYMBOL_FLAGS_STUB_AND_RESOLVER \<noteq> 0 then
        rbind (read_uleb_at term cursor) (\<lambda>(stub, sn).
        rbind (read_uleb_at term (cursor + sn)) (\<lambda>(resolver, _).
        Ok (EStubAndResolver stub resolver)))
      else
        rbind (read_uleb_at term cursor) (\<lambda>(addr, _).
        Ok (if flags AND EXPORT_SYMBOL_FLAGS_KIND_MASK = EXPORT_SYMBOL_FLAGS_KIND_THREAD_LOCAL then EThreadLocal addr
            else if flags AND EXPORT_SYMBOL_FLAGS_KIND_MASK = EXPORT_SYMBOL_FLAGS_KIND_ABSOLUTE then EAbsolute addr
            else ERegular addr)))"

definition read_terminal :: "bytes \<Rightarrow> nat \<Rightarrow> str \<Rightarrow> export_entry option read" where
  "read_terminal trie node_off accumulated =
     rbind (terminal_bounds trie node_off) (\<lambda>(payload_start, payload_end).
     if payload_start = payload_end then Ok None
     else
       rbind (slice 0 payload_end trie) (\<lambda>term.
       rbind (read_uleb_at term payload_start) (\<lambda>(flags, m).
       rbind (read_kind term flags (payload_start + m)) (\<lambda>kind.
       Ok (Some \<lparr>ex_name = accumulated, ex_flags = flags, ex_kind = kind\<rparr>)))))"

section \<open>Enumeration\<close>

lemma unat_u8_less: "unat (w :: u8) < 256"
  using unsigned_less [of w, where ?'a = nat] by simp

text \<open>
  \<open>walk\<close> visits a node, \<open>walk_children\<close> is its loop over the remaining \<open>n\<close> children at
  \<open>child_cursor\<close>. Both return the entries pushed so far and the visited offsets. Recursion ends
  because every level of \<open>walk\<close> is one deeper and a node has at most 255 children.
\<close>

function (sequential) walk ::
    "bytes \<Rightarrow> nat \<Rightarrow> str \<Rightarrow> export_entry list \<Rightarrow> nat set \<Rightarrow> nat \<Rightarrow> (export_entry list \<times> nat set) read"
  and walk_children ::
    "bytes \<Rightarrow> nat \<Rightarrow> nat \<Rightarrow> str \<Rightarrow> export_entry list \<Rightarrow> nat set \<Rightarrow> nat \<Rightarrow> (export_entry list \<times> nat set) read"
where
  "walk trie node_off accumulated out visited depth =
     (if depth > MAX_DEPTH then Err (trie_err node_off ''export trie depth cap exceeded'')
      else if node_off \<in> visited then Err (trie_err node_off ''export trie contains a cycle'')
      else
        rbind (read_terminal trie node_off accumulated) (\<lambda>me.
        rbind (skip_terminal trie node_off) (\<lambda>cursor.
        if cursor \<ge> length trie then
          Err (Truncated (cursor + 1) (length trie) ''export trie (missing child_count byte)'')
        else
          rbind (index trie cursor) (\<lambda>child_count.
          walk_children trie (unat child_count) (cursor + 1) accumulated
            (out @ (case me of Some e \<Rightarrow> [e] | None \<Rightarrow> [])) (insert node_off visited) depth))))"
| "walk_children trie 0 child_cursor accumulated out visited depth = Ok (out, visited)"
| "walk_children trie (Suc n) child_cursor accumulated out visited depth =
     rbind (read_cstring_with_len trie child_cursor) (\<lambda>(edge, advanced).
     rbind (read_uleb_at trie (child_cursor + advanced)) (\<lambda>(child_off, off_len).
     if unat child_off \<ge> length trie then
       Err (trie_err (child_cursor + advanced + off_len) ''export trie child offset out of bounds'')
     else
       rbind (walk trie (unat child_off) (accumulated @ edge) out visited (depth + 1)) (\<lambda>(out', visited').
       walk_children trie n (child_cursor + advanced + off_len) accumulated out' visited' depth)))"
  by pat_completeness auto

termination
proof (relation "inv_image (less_than <*lex*> less_than)
    (case_sum (\<lambda>(_, _, _, _, _, d). if d > MAX_DEPTH then (0, 0) else (129 - d, 300))
      (\<lambda>(_, n, _, _, _, _, d). if d > MAX_DEPTH then (0, n + 1) else (129 - d, n + 1)))", goal_cases)
  case 1
  then show ?case by auto
next
  case (2 trie node_off acc out visited depth x xa xb)
  then show ?case using unat_u8_less [of xb] by simp
next
  case (3 trie n cur acc out visited depth)
  then show ?case by auto
next
  case (4 trie n cur acc out visited depth)
  then show ?case by auto
qed

declare walk.simps [simp del]

section \<open>Lookup\<close>

function (sequential) trie_lookup :: "bytes \<Rightarrow> nat \<Rightarrow> bytes \<Rightarrow> nat \<Rightarrow> export_entry option read"
  and lookup_children :: "bytes \<Rightarrow> nat \<Rightarrow> nat \<Rightarrow> bytes \<Rightarrow> nat \<Rightarrow> export_entry option read"
where
  "trie_lookup trie node_off remaining depth =
     (if depth > MAX_DEPTH then Err (trie_err node_off ''export trie depth cap exceeded'')
      else if remaining = [] then
        rmap (map_option (\<lambda>e. e\<lparr>ex_name := []\<rparr>)) (read_terminal trie node_off [])
      else
        rbind (skip_terminal trie node_off) (\<lambda>cursor.
        if cursor \<ge> length trie then Ok None
        else
          rbind (index trie cursor) (\<lambda>child_count.
          lookup_children trie (unat child_count) (cursor + 1) remaining depth)))"
| "lookup_children trie 0 child_cursor remaining depth = Ok None"
| "lookup_children trie (Suc n) child_cursor remaining depth =
     rbind (read_cstring_with_len trie child_cursor) (\<lambda>(edge, advanced).
     rbind (read_uleb_at trie (child_cursor + advanced)) (\<lambda>(child_off, off_len).
     if length remaining \<ge> length edge \<and> take (length edge) remaining = edge then
       trie_lookup trie (unat child_off) (drop (length edge) remaining) (depth + 1)
     else lookup_children trie n (child_cursor + advanced + off_len) remaining depth))"
  by pat_completeness auto
termination
proof (relation "inv_image (less_than <*lex*> less_than)
    (case_sum (\<lambda>(_, _, _, d). if d > MAX_DEPTH then (0, 0) else (129 - d, 300))
      (\<lambda>(_, n, _, _, d). if d > MAX_DEPTH then (0, n + 1) else (129 - d, n + 1)))", goal_cases)
  case 1
  then show ?case by auto
next
  case (2 trie node_off remaining depth x xa)
  then show ?case using unat_u8_less [of xa] by simp
next
  case (3 trie n cur remaining depth)
  then show ?case by auto
next
  case (4 trie n cur remaining depth)
  then show ?case by auto
qed

declare trie_lookup.simps [simp del]

fun exports_entries :: "exports \<Rightarrow> export_entry list read" where
  "exports_entries (Trie rw) =
     (if rw = [] then Ok [] else rmap fst (walk rw 0 [] [] {} 0))"
| "exports_entries (Flat es) = Ok es"

fun exports_lookup :: "exports \<Rightarrow> str \<Rightarrow> export_entry option read" where
  "exports_lookup (Trie rw) nm = (if rw = [] then Ok None else trie_lookup rw 0 nm 0)"
| "exports_lookup (Flat es) nm = Ok (find (\<lambda>e. ex_name e = nm) es)"

section \<open>The walker on arbitrary bytes\<close>

text \<open>A Rust slice never has more than \<open>2 ^ 63 - 1\<close> bytes.\<close>

definition slice_len_ok :: "bytes \<Rightarrow> bool" where
  "slice_len_ok b \<longleftrightarrow> length b < 2 ^ 63"

lemma read_uleb_at_safe: "off < usize_max \<Longrightarrow> safe (read_uleb_at b off)"
  unfolding read_uleb_at_def by (auto intro!: no_panic simp: checked_add_def)

lemma read_uleb_at_bound: "read_uleb_at b off = Ok (v, n) \<Longrightarrow> off + n \<le> length b \<and> 0 < n"
  using read_uleb_consumed [of "drop off b" v n]
  by (auto simp: read_uleb_at_def rbind_Ok_iff expect_def checked_add_def split: if_splits)

lemma read_cstring_safe: "off < usize_max \<Longrightarrow> safe (read_cstring_with_len b off)"
  unfolding read_cstring_with_len_def
  by (auto intro!: no_panic simp: checked_add_def dest!: position_SomeD(1))

lemma read_cstring_bound: "read_cstring_with_len b off = Ok (s, n) \<Longrightarrow> off + n \<le> length b"
  by (auto simp: read_cstring_with_len_def rbind_Ok_iff expect_def checked_add_def slice_Ok_iff
      dest!: position_SomeD(1) split: if_splits)

lemma small_offset: "slice_len_ok b \<Longrightarrow> off \<le> length b \<Longrightarrow> off < usize_max"
  by (simp add: slice_len_ok_def usize_max_def)

lemma terminal_bounds_safe: "off < usize_max \<Longrightarrow> safe (terminal_bounds b off)"
  unfolding terminal_bounds_def Let_def by (auto intro!: no_panic read_uleb_at_safe)

lemma terminal_bounds_bound: "terminal_bounds b off = Ok (s, e) \<Longrightarrow> s \<le> e \<and> e \<le> length b"
  by (auto simp: terminal_bounds_def Let_def rbind_Ok_iff checked_add_eq_Some split: if_splits)

lemma read_kind_safe:
  assumes "slice_len_ok b" and "cur \<le> length b"
  shows "safe (read_kind b flags cur)"
  unfolding read_kind_def using assms small_offset
  by (auto intro!: no_panic read_uleb_at_safe read_cstring_safe dest!: read_uleb_at_bound)

lemma read_terminal_safe:
  assumes "slice_len_ok b" and "off < usize_max"
  shows "safe (read_terminal b off acc)"
proof -
  have k: "safe (read_kind (take e b) flags (st + m))"
    if "terminal_bounds b off = Ok (st, e)" "read_uleb_at (take e b) st = Ok (flags, m)" for st e flags m
    using read_uleb_at_bound [OF that(2)] assms(1)
    by (intro read_kind_safe) (auto simp: slice_len_ok_def)
  have u: "safe (read_uleb_at (take e b) st)" if "terminal_bounds b off = Ok (st, e)" for st e
    using terminal_bounds_bound [OF that] small_offset [OF assms(1)] by (intro read_uleb_at_safe) auto
  show ?thesis
    unfolding read_terminal_def
    using terminal_bounds_safe [OF assms(2)] terminal_bounds_bound k u
    by (fastforce intro!: no_panic)
qed

lemma skip_terminal_safe: "off < usize_max \<Longrightarrow> safe (skip_terminal b off)"
  unfolding skip_terminal_def by (intro no_panic terminal_bounds_safe)

lemma walk_safe:
  "slice_len_ok b \<Longrightarrow> off < usize_max \<Longrightarrow> safe (walk b off acc out vis d)"
  "slice_len_ok b \<Longrightarrow> cur \<le> length b \<Longrightarrow> safe (walk_children b n cur acc out vis d)"
proof (induction b off acc out vis d and b n cur acc out vis d rule: walk_walk_children.induct)
  case (1 b off acc out vis d)
  show ?case
    unfolding walk.simps
    using 1 read_terminal_safe [OF "1.prems"] skip_terminal_safe [OF "1.prems"(2)]
    by (auto intro!: no_panic)
next
  case (2 b cur acc out vis d)
  show ?case by simp
next
  case (3 b n cur acc out vis d)
  show ?case
    unfolding walk_children.simps
    using 3 small_offset [OF "3.prems"(1)] read_cstring_bound read_uleb_at_bound
    by (fastforce intro!: no_panic read_cstring_safe read_uleb_at_safe)
qed

text \<open>Every visited offset is new, so the entries are at most as many as the bytes.\<close>

definition visits :: "bytes \<Rightarrow> export_entry list \<Rightarrow> nat set \<Rightarrow> export_entry list \<Rightarrow> nat set \<Rightarrow> bool" where
  "visits b out vis out' vis' \<longleftrightarrow>
     vis \<subseteq> vis' \<and> vis' \<subseteq> vis \<union> {..<length b} \<and> finite vis' \<and> length out' + card vis \<le> length out + card vis'"

lemma visits_refl: "finite vis \<Longrightarrow> visits b out vis out vis"
  by (auto simp: visits_def)

lemma visits_trans: "visits b o1 v1 o2 v2 \<Longrightarrow> visits b o2 v2 o3 v3 \<Longrightarrow> visits b o1 v1 o3 v3"
  by (auto simp: visits_def)

lemma visits_node:
  assumes "off \<notin> vis" and "off < length b" and "finite vis"
  shows "visits b out vis (out @ (case me of Some e \<Rightarrow> [e] | None \<Rightarrow> [])) (insert off vis)"
  using assms by (auto simp: visits_def split: option.splits)

lemma terminal_bounds_offset: "terminal_bounds b off = Ok (s, e) \<Longrightarrow> off < length b"
  by (auto simp: terminal_bounds_def rbind_Ok_iff dest!: read_uleb_at_bound)

lemma walk_visits:
  "walk b off acc out vis d = Ok (out', vis') \<Longrightarrow> finite vis \<Longrightarrow> visits b out vis out' vis'"
  "walk_children b n cur acc out vis d = Ok (out', vis') \<Longrightarrow> finite vis \<Longrightarrow> visits b out vis out' vis'"
proof (induction b off acc out vis d and b n cur acc out vis d arbitrary: out' vis' and out' vis'
    rule: walk_walk_children.induct)
  case (1 b off acc out vis d)
  from "1.prems"(1) obtain me cur cc where
    m: "\<not> d > 128" "off \<notin> vis" "read_terminal b off acc = Ok me" "skip_terminal b off = Ok cur" "\<not> cur \<ge> length b"
      "index b cur = (Ok cc :: u8 read)"
    and w: "walk_children b (unat cc) (cur + 1) acc (out @ (case me of Some e \<Rightarrow> [e] | None \<Rightarrow> []))
      (insert off vis) d = Ok (out', vis')"
    unfolding walk.simps by (auto simp: rbind_Ok_iff split: if_splits)
  have "off < length b"
    using m(4) by (auto simp: skip_terminal_def rmap_def rbind_Ok_iff dest: terminal_bounds_offset)
  then have "visits b out vis (out @ (case me of Some e \<Rightarrow> [e] | None \<Rightarrow> [])) (insert off vis)"
    using m(2) "1.prems"(2) by (intro visits_node)
  moreover have "visits b (out @ (case me of Some e \<Rightarrow> [e] | None \<Rightarrow> [])) (insert off vis) out' vis'"
    using "1.IH" [OF m(1,2,3,4,5,6) w] "1.prems"(2) by simp
  ultimately show ?case by (rule visits_trans)
next
  case (2 b cur acc out vis d)
  then show ?case by (simp add: visits_refl)
next
  case (3 b n cur acc out vis d)
  from "3.prems"(1) obtain edge adv co ol out1 vis1 where
    m: "read_cstring_with_len b cur = Ok (edge, adv)" "read_uleb_at b (cur + adv) = Ok (co, ol)"
      "\<not> unat co \<ge> length b" "walk b (unat co) (acc @ edge) out vis (d + 1) = Ok (out1, vis1)"
      "walk_children b n (cur + adv + ol) acc out1 vis1 d = Ok (out', vis')"
    unfolding walk_children.simps by (auto simp: rbind_Ok_iff split: if_splits)
  have v1: "visits b out vis out1 vis1"
    using "3.IH"(1) [OF m(1) refl m(2) refl m(3,4)] "3.prems"(2) by simp
  then have "finite vis1" by (simp add: visits_def)
  then have "visits b out1 vis1 out' vis'"
    using "3.IH"(2) [OF m(1) refl m(2) refl m(3) m(4) refl m(5)] by simp
  with v1 show ?case by (rule visits_trans)
qed

lemma entries_bounded:
  assumes "walk b 0 [] [] {} 0 = Ok (es, vis)"
  shows "length es \<le> length b"
proof -
  have "visits b [] {} es vis" using assms by (rule walk_visits) simp
  then have "length es \<le> card vis" "vis \<subseteq> {..<length b}" by (auto simp: visits_def)
  then show ?thesis using card_mono [of "{..<length b}" vis] by simp
qed

text \<open>
  C10: enumerating an export trie of arbitrary bytes terminates without a panic, and the number of
  entries it returns is bounded by the number of bytes: cycles and shared nodes are rejected.
\<close>

theorem export_walk_total_and_bounded:
  assumes "slice_len_ok b"
  shows "case exports_entries (Trie b) of Ok es \<Rightarrow> length es \<le> length b | Err e \<Rightarrow> True | Panic \<Rightarrow> False"
proof -
  have "safe (walk b 0 [] [] {} 0)" using assms by (intro walk_safe) (auto simp: usize_max_def)
  then show ?thesis
    using entries_bounded [of b] by (cases "walk b 0 [] [] {} 0") auto
qed

theorem export_walk_total_and_bounded_witness:
  "case exports_entries (Trie [0, 1, 97, 0, 5, 0, 0]) of
     Ok es \<Rightarrow> length es \<le> 7 | Err e \<Rightarrow> True | Panic \<Rightarrow> False"
  using export_walk_total_and_bounded [of "[0, 1, 97, 0, 5, 0, 0]"]
  by (simp add: slice_len_ok_def split: result.splits)

text \<open>
  \<^verbatim>\<open>lookup\<close>, unlike \<^verbatim>\<open>walk\<close>, follows child offsets without comparing them with the length of the trie;
  an offset of \<^verbatim>\<open>u64::MAX\<close> overflows the \<^verbatim>\<open>off + 1\<close> of the diagnostic.
\<close>

lemma lookup_unchecked_offset:
  "\<exists>b. slice_len_ok b \<and> exports_lookup (Trie b) [97] = Panic"
proof -
  let ?b = "[0, 1, 97, 0] @ write_uleb (- 1)"
  have len: "length (write_uleb (- 1 :: u64)) \<le> 10" by (rule write_uleb_length_le)
  have ne: "write_uleb (- 1 :: u64) \<noteq> []" by (rule write_uleb_nonempty)
  have t: "terminal_bounds ?b 0 = Ok (1, 1)"
    by (simp add: terminal_bounds_def read_uleb_at_def read_uleb_def Let_def checked_add_def usize_max_def)
  have c: "read_cstring_with_len ?b 2 = Ok ([97], 2)"
    using utf8_valid_ascii [of "[97]"] by (simp add: read_cstring_with_len_def)
  have u: "read_uleb_at ?b 4 = Ok (- 1, length (write_uleb (- 1)))"
    using read_write_uleb [of "- 1" "[]"] by (simp add: read_uleb_at_def)
  have "unat (- 1 :: u64) = usize_max" by (simp add: unsigned_minus_1_eq_mask mask_eq_exp_minus_1 usize_max_def)
  then have "trie_lookup ?b (unat (- 1 :: u64)) [] 1 = Panic"
    using len by (simp add: trie_lookup.simps read_terminal_def terminal_bounds_def read_uleb_at_def
        checked_add_def usize_max_def)
  then have "trie_lookup ?b 0 [97] 0 = Panic"
    unfolding trie_lookup.simps [of ?b 0 "[97]" 0] using t c u ne
    by (simp add: skip_terminal_def numeral_eq_Suc)
  moreover have "slice_len_ok ?b" using len by (simp add: slice_len_ok_def)
  ultimately show ?thesis by (intro exI [of _ ?b]) simp
qed

end
