(* ===== verification/Arm64_Patch.thy ===== *)
theory Arm64_Patch
  imports Reloc
begin

text \<open>
  The instruction and data patchers of \<^verbatim>\<open>src/reloc/arm64.rs\<close> and the encoders of the synthesized
  stub code. A patcher reads the field at \<open>off\<close> of an atom's bytes and returns the patched bytes.
  Of a \<^verbatim>\<open>RelocError\<close> the offset in the atom, the relocation kind and the reason are kept; the input
  path, atom and referent text serve diagnostics only. \<^verbatim>\<open>i128\<close> values are unbounded integers (the
  sums stay far inside 128 bits).
\<close>

section \<open>Errors and byte access\<close>

datatype reloc_detail =
    PastAtomBytes
  | UnalignedBranch
  | BranchOutOfRange
  | PageOutOfRange
  | UnalignedPageOff
  | PageOffTooLarge
  | WordOutOfRange
  | UnsupportedWidth reloc_length
  | MissingSubtrahend
  | GotDeltaOutOfRange

datatype reloc_error = RelocError u32 reloc_kind reloc_detail

type_synonym 'a patch = "(reloc_error, 'a) result"

definition read_u32 :: "bytes \<Rightarrow> u32 \<Rightarrow> reloc_kind \<Rightarrow> u32 patch" where
  "read_u32 b off kind =
     (let start = unat off; end = start + 4 in
      if end \<le> length b then Ok (from_le (take 4 (drop start b)))
      else Err (RelocError off kind PastAtomBytes))"

definition read_u64 :: "bytes \<Rightarrow> u32 \<Rightarrow> reloc_kind \<Rightarrow> u64 patch" where
  "read_u64 b off kind =
     (let start = unat off; end = start + 8 in
      if end \<le> length b then Ok (from_le (take 8 (drop start b)))
      else Err (RelocError off kind PastAtomBytes))"

definition write_u32 :: "bytes \<Rightarrow> u32 \<Rightarrow> u32 \<Rightarrow> reloc_kind \<Rightarrow> bytes patch" where
  "write_u32 b off v kind =
     (let start = unat off; end = start + 4 in
      if end \<le> length b then Ok (take start b @ le32 v @ drop end b)
      else Err (RelocError off kind PastAtomBytes))"

definition write_u64 :: "bytes \<Rightarrow> u32 \<Rightarrow> u64 \<Rightarrow> reloc_kind \<Rightarrow> bytes patch" where
  "write_u64 b off v kind =
     (let start = unat off; end = start + 8 in
      if end \<le> length b then Ok (take start b @ le64 v @ drop end b)
      else Err (RelocError off kind PastAtomBytes))"

section \<open>Ranges and instruction classes\<close>

definition page :: "u64 \<Rightarrow> u64" where
  "page v = v AND NOT 0xfff"

definition fits_signed :: "i64 \<Rightarrow> nat \<Rightarrow> bool" where
  "fits_signed v bits \<longleftrightarrow> sint v \<ge> - (2 ^ (bits - 1)) \<and> sint v \<le> 2 ^ (bits - 1) - 1"

definition branch26_in_range :: "u64 \<Rightarrow> u64 \<Rightarrow> bool" where
  "branch26_in_range place target \<longleftrightarrow>
     (let delta = target - place in delta AND 3 = 0 \<and> fits_signed (signed_drop_bit 2 delta) 26)"

definition is_add_immediate :: "u32 \<Rightarrow> bool" where
  "is_add_immediate insn \<longleftrightarrow> insn AND 0x1f000000 = 0x11000000"

definition is_simd_fp_pageoff :: "u32 \<Rightarrow> bool" where
  "is_simd_fp_pageoff insn \<longleftrightarrow> drop_bit 24 insn AND 7 = 5"

definition simd_fp_pageoff_shift :: "u32 \<Rightarrow> nat" where
  "simd_fp_pageoff_shift insn =
     (let size = unat (drop_bit 30 insn AND 3); opc = drop_bit 22 insn AND 3 in
      if size = 0 \<and> opc AND 2 \<noteq> 0 then 4 else size)"

definition pageoff_load_store_shift :: "u32 \<Rightarrow> nat" where
  "pageoff_load_store_shift insn =
     (if is_simd_fp_pageoff insn then simd_fp_pageoff_shift insn
      else unat (drop_bit 30 insn AND 3))"

section \<open>Data relocations\<close>

definition encode_unsigned_word_value :: "int \<Rightarrow> u32 option" where
  "encode_unsigned_word_value v =
     (if 0 \<le> v \<and> v < 2 ^ 32 then Some (of_int v)
      else if - (2 ^ 31) \<le> v \<and> v < 2 ^ 31 then Some (of_int v)
      else None)"

definition read_implicit_addend :: "bytes \<Rightarrow> u32 \<Rightarrow> reloc_length \<Rightarrow> reloc_kind \<Rightarrow> i64 patch" where
  "read_implicit_addend b off len kind =
     (case len of
        Word \<Rightarrow> rbind (read_u32 b off kind) (\<lambda>w. Ok (scast w))
      | Quad \<Rightarrow> read_u64 b off kind
      | other \<Rightarrow> Err (RelocError off kind (UnsupportedWidth other)))"

definition patch_unsigned :: "bytes \<Rightarrow> u32 \<Rightarrow> reloc \<Rightarrow> u64 \<Rightarrow> bytes patch" where
  "patch_unsigned b off r target =
     rbind (read_implicit_addend b off (rel_length r) (rel_kind r)) (\<lambda>implicit.
     case rel_length r of
       Word \<Rightarrow>
         rbind (ok_or (RelocError off (rel_kind r) WordOutOfRange)
           (encode_unsigned_word_value (uint target + sint (rel_addend r) + sint implicit))) (\<lambda>encoded.
         write_u32 b off encoded (rel_kind r))
     | Quad \<Rightarrow> write_u64 b off (target + rel_addend r + implicit) (rel_kind r)
     | other \<Rightarrow> Err (RelocError off (rel_kind r) (UnsupportedWidth other)))"

definition patch_pointer_to_got :: "bytes \<Rightarrow> u32 \<Rightarrow> reloc \<Rightarrow> u64 \<Rightarrow> u64 \<Rightarrow> bytes patch" where
  "patch_pointer_to_got b off r place target =
     (if \<not> rel_pcrel r then patch_unsigned b off r target
      else
        let delta = uint target + sint (rel_addend r) - uint place in
        case rel_length r of
          Word \<Rightarrow>
            if - (2 ^ 31) \<le> delta \<and> delta < 2 ^ 31 then write_u32 b off (of_int delta) (rel_kind r)
            else Err (RelocError off (rel_kind r) GotDeltaOutOfRange)
        | other \<Rightarrow> Err (RelocError off (rel_kind r) (UnsupportedWidth other)))"

definition direct_import_bind_supported :: "reloc \<Rightarrow> bool" where
  "direct_import_bind_supported r \<longleftrightarrow> rel_length r = Quad \<and> \<not> rel_pcrel r \<and> rel_subtrahend r = None"

definition clear_direct_import_slot :: "bytes \<Rightarrow> u32 \<Rightarrow> reloc \<Rightarrow> bytes patch" where
  "clear_direct_import_slot b off r = write_u64 b off 0 (rel_kind r)"

text \<open>\<open>subtrahend_addr\<close> is the resolved address of the relocation's subtrahend, if it has one.\<close>

definition patch_subtractor :: "bytes \<Rightarrow> u32 \<Rightarrow> reloc \<Rightarrow> u64 \<Rightarrow> u64 patch option \<Rightarrow> bytes patch" where
  "patch_subtractor b off r minuend subtrahend_addr =
     rbind (case subtrahend_addr of
              None \<Rightarrow> Err (RelocError off (rel_kind r) MissingSubtrahend)
            | Some m \<Rightarrow> m) (\<lambda>subtrahend.
     rbind (read_implicit_addend b off (rel_length r) (rel_kind r)) (\<lambda>implicit.
     let v = minuend - subtrahend + rel_addend r + implicit in
     case rel_length r of
       Word \<Rightarrow> write_u32 b off (ucast v) (rel_kind r)
     | Quad \<Rightarrow> write_u64 b off v (rel_kind r)
     | other \<Rightarrow> Err (RelocError off (rel_kind r) (UnsupportedWidth other))))"

section \<open>Instruction relocations\<close>

definition patch_branch26 :: "bytes \<Rightarrow> u32 \<Rightarrow> reloc \<Rightarrow> u64 \<Rightarrow> u64 \<Rightarrow> bytes patch" where
  "patch_branch26 b off r place target =
     (let delta = target - place in
      if delta AND 3 \<noteq> 0 then Err (RelocError off (rel_kind r) UnalignedBranch)
      else
        let imm = signed_drop_bit 2 delta in
        if \<not> fits_signed imm 26 then Err (RelocError off (rel_kind r) BranchOutOfRange)
        else
          rbind (read_u32 b off (rel_kind r)) (\<lambda>insn.
          let imm26 = ucast imm AND 0x03ffffff in
          write_u32 b off ((insn AND NOT 0x03ffffff) OR imm26) (rel_kind r)))"

definition patch_page21 :: "bytes \<Rightarrow> u32 \<Rightarrow> reloc \<Rightarrow> u64 \<Rightarrow> u64 \<Rightarrow> bytes patch" where
  "patch_page21 b off r place target =
     (let delta = page (target + rel_addend r) - page place;
          imm = signed_drop_bit 12 delta in
      if \<not> fits_signed imm 21 then Err (RelocError off (rel_kind r) PageOutOfRange)
      else
        rbind (read_u32 b off (rel_kind r)) (\<lambda>insn.
        let encoded = ucast imm AND 0x1fffff;
            immlo = encoded AND 3;
            immhi = drop_bit 2 encoded AND 0x7ffff;
            patched = (insn AND NOT (push_bit 29 3 OR push_bit 5 0x7ffff))
              OR (push_bit 29 immlo OR push_bit 5 immhi)
        in write_u32 b off patched (rel_kind r)))"

definition patch_pageoff12 :: "bytes \<Rightarrow> u32 \<Rightarrow> reloc \<Rightarrow> u64 \<Rightarrow> bytes patch" where
  "patch_pageoff12 b off r target =
     (let pageoff = (target + rel_addend r) AND 0xfff in
      rbind (read_u32 b off (rel_kind r)) (\<lambda>insn.
      rbind (if is_add_immediate insn then Ok pageoff
             else
               let shift = pageoff_load_store_shift insn in
               if \<not> 2 ^ shift dvd unat pageoff then Err (RelocError off (rel_kind r) UnalignedPageOff)
               else Ok (drop_bit shift pageoff)) (\<lambda>imm.
      if imm > 0xfff then Err (RelocError off (rel_kind r) PageOffTooLarge)
      else write_u32 b off ((insn AND NOT (push_bit 10 0xfff)) OR push_bit 10 (ucast imm)) (rel_kind r))))"

text \<open>
  \<^verbatim>\<open>patch_tlvp_pageoff12\<close> and \<^verbatim>\<open>patch_got_pageoff12_relaxed\<close> have the same body: the load is rewritten
  to an \<^verbatim>\<open>ADD\<close> of the page offset.
\<close>

definition patch_tlvp_pageoff12 :: "bytes \<Rightarrow> u32 \<Rightarrow> reloc \<Rightarrow> u64 \<Rightarrow> bytes patch" where
  "patch_tlvp_pageoff12 b off r target =
     (let pageoff = (target + rel_addend r) AND 0xfff in
      if pageoff > 0xfff then Err (RelocError off (rel_kind r) PageOffTooLarge)
      else
        rbind (read_u32 b off (rel_kind r)) (\<lambda>insn.
        let rd = insn AND 0x1f;
            rn = drop_bit 5 insn AND 0x1f;
            patched = 0x91000000 OR (push_bit 10 (ucast pageoff) OR (push_bit 5 rn OR rd))
        in write_u32 b off patched (rel_kind r)))"

definition patch_got_pageoff12_relaxed :: "bytes \<Rightarrow> u32 \<Rightarrow> reloc \<Rightarrow> u64 \<Rightarrow> bytes patch" where
  "patch_got_pageoff12_relaxed b off r target =
     (let pageoff = (target + rel_addend r) AND 0xfff in
      if pageoff > 0xfff then Err (RelocError off (rel_kind r) PageOffTooLarge)
      else
        rbind (read_u32 b off (rel_kind r)) (\<lambda>insn.
        let rd = insn AND 0x1f;
            rn = drop_bit 5 insn AND 0x1f;
            patched = 0x91000000 OR (push_bit 10 (ucast pageoff) OR (push_bit 5 rn OR rd))
        in write_u32 b off patched (rel_kind r)))"

section \<open>Stub encoders\<close>

definition encode_adrp_reg :: "u8 \<Rightarrow> u64 \<Rightarrow> u64 \<Rightarrow> u32 patch" where
  "encode_adrp_reg reg place target =
     (let delta = page target - page place;
          imm = signed_drop_bit 12 delta in
      if \<not> fits_signed imm 21 then Err (RelocError 0 Page21 PageOutOfRange)
      else
        let encoded = ucast imm AND 0x1fffff;
            immlo = encoded AND 3;
            immhi = drop_bit 2 encoded AND 0x7ffff
        in Ok (0x90000000 OR (push_bit 29 immlo OR (push_bit 5 immhi OR ucast reg))))"

definition encode_ldr_x_reg_pageoff :: "u8 \<Rightarrow> u64 \<Rightarrow> u32 patch" where
  "encode_ldr_x_reg_pageoff reg target =
     (let low = target AND 0xfff in
      if low AND 7 \<noteq> 0 then Err (RelocError 4 PageOff12 UnalignedPageOff)
      else
        let imm12 = ucast (drop_bit 3 low) AND 0xfff
        in Ok (0xf9400000 OR (push_bit 10 imm12 OR (push_bit 5 (ucast reg) OR ucast reg))))"

definition encode_add_x_reg_pageoff :: "u8 \<Rightarrow> u64 \<Rightarrow> u32 patch" where
  "encode_add_x_reg_pageoff reg target =
     (let low = target AND 0xfff in
      if low > 0xfff then Err (RelocError 4 PageOff12 PageOffTooLarge)
      else Ok (0x91000000 OR (push_bit 10 (ucast low) OR (push_bit 5 (ucast reg) OR ucast reg))))"

definition encode_stp_x16_x17_sp_preindex :: u32 where
  "encode_stp_x16_x17_sp_preindex =
     (let imm7 = ucast ((- 2 :: u8) AND 0x7f)
      in 0xa9800000 OR (push_bit 15 imm7 OR (push_bit 10 17 OR (push_bit 5 31 OR 16))))"

definition encode_ldr_w16_literal_plus8 :: u32 where
  "encode_ldr_w16_literal_plus8 = 0x18000050"

definition encode_branch26 :: "u64 \<Rightarrow> u64 \<Rightarrow> u32 patch" where
  "encode_branch26 place target =
     (let delta = target - place in
      if delta AND 3 \<noteq> 0 then Err (RelocError 0 Branch26 UnalignedBranch)
      else
        let imm = signed_drop_bit 2 delta in
        if \<not> fits_signed imm 26 then Err (RelocError 0 Branch26 BranchOutOfRange)
        else Ok (0x14000000 OR (ucast imm AND 0x03ffffff)))"

definition encode_stub :: "u64 \<Rightarrow> u64 \<Rightarrow> bytes patch" where
  "encode_stub stub_addr lazy_pointer_addr =
     rbind (encode_adrp_reg 16 stub_addr lazy_pointer_addr) (\<lambda>adrp.
     rbind (encode_ldr_x_reg_pageoff 16 lazy_pointer_addr) (\<lambda>ldr.
     Ok (le32 adrp @ le32 ldr @ le32 0xd61f0200)))"

text \<open>\<^verbatim>\<open>header_addr + 12\<close> and \<^verbatim>\<open>entry_addr + 4\<close> are overflow-checked additions.\<close>

definition add_u64 :: "u64 \<Rightarrow> nat \<Rightarrow> u64 patch" where
  "add_u64 a n = (if unat a + n < 2 ^ 64 then Ok (a + of_nat n) else Panic)"

definition encode_stub_helper_header :: "u64 \<Rightarrow> u64 \<Rightarrow> u64 \<Rightarrow> bytes patch" where
  "encode_stub_helper_header header_addr dyld_private_addr binder_got_addr =
     rbind (encode_adrp_reg 17 header_addr dyld_private_addr) (\<lambda>w0.
     rbind (encode_add_x_reg_pageoff 17 dyld_private_addr) (\<lambda>w1.
     rbind (add_u64 header_addr 12) (\<lambda>place.
     rbind (encode_adrp_reg 16 place binder_got_addr) (\<lambda>w3.
     rbind (encode_ldr_x_reg_pageoff 16 binder_got_addr) (\<lambda>w4.
     Ok (concat (map le32 [w0, w1, encode_stp_x16_x17_sp_preindex, w3, w4, 0xd61f0200])))))))"

definition encode_stub_helper_entry :: "u64 \<Rightarrow> u64 \<Rightarrow> u32 \<Rightarrow> bytes patch" where
  "encode_stub_helper_entry entry_addr header_addr lazy_bind_offset =
     rbind (add_u64 entry_addr 4) (\<lambda>place.
     rbind (encode_branch26 place header_addr) (\<lambda>branch.
     Ok (le32 encode_ldr_w16_literal_plus8 @ le32 branch @ le32 lazy_bind_offset)))"

section \<open>Fields\<close>

lemma read_write_u32:
  assumes "write_u32 b off v k = Ok b'"
  shows "read_u32 b' off k' = Ok v" and "length b' = length b" and "take (unat off) b' = take (unat off) b"
    and "drop (unat off + 4) b' = drop (unat off + 4) b"
  using assms by (auto simp: write_u32_def read_u32_def Let_def split: if_splits)

lemma read_write_u64:
  assumes "write_u64 b off v k = Ok b'"
  shows "read_u64 b' off k' = Ok v" and "length b' = length b" and "take (unat off) b' = take (unat off) b"
    and "drop (unat off + 8) b' = drop (unat off + 8) b"
  using assms by (auto simp: write_u64_def read_u64_def Let_def split: if_splits)

lemma mask_low: "(w :: 'a::len word) AND (2 ^ n - 1) = take_bit n w"
  by (simp add: take_bit_eq_mask mask_eq_exp_minus_1)

lemma mask_12: "(w :: 'a::len word) AND 0xfff = take_bit 12 w"
  using mask_low [of w 12] by simp

lemma mask_26: "(w :: 'a::len word) AND 0x03ffffff = take_bit 26 w"
  using mask_low [of w 26] by simp

lemma mask_21: "(w :: 'a::len word) AND 0x1fffff = take_bit 21 w"
  using mask_low [of w 21] by simp

lemma mask_19: "(w :: 'a::len word) AND 0x7ffff = take_bit 19 w"
  using mask_low [of w 19] by simp

lemma mask_5: "(w :: 'a::len word) AND 0x1f = take_bit 5 w"
  using mask_low [of w 5] by simp

lemma mask_3: "(w :: 'a::len word) AND 7 = take_bit 3 w"
  using mask_low [of w 3] by simp

lemma low_mask_bits:
  "(0xfff :: 'a::len word) = mask 12" "(0x03ffffff :: 'a::len word) = mask 26"
  "(0x7ffff :: 'a::len word) = mask 19" "(3 :: 'a::len word) = mask 2"
  by (simp_all add: mask_eq_exp_minus_1)

lemma take_bit_zero_bit:
  assumes "take_bit n (w :: 'a::len word) = 0" and "k < n"
  shows "\<not> bit w k"
proof -
  have "bit (take_bit n w) k \<longleftrightarrow> k < n \<and> bit w k" by (rule bit_take_bit_iff)
  then show ?thesis using assms by simp
qed

lemma fits_signed_bits:
  fixes v :: i64
  assumes "fits_signed v (Suc k)" and "k \<le> n" and "n < 64"
  shows "bit v n \<longleftrightarrow> bit v k"
  using assms by (intro bit_signed_fits) (auto simp: fits_signed_def)

section \<open>Instruction semantics\<close>

text \<open>
  The architecture's reading of the fields: a branch adds its 26-bit signed word offset to its own
  address; \<^verbatim>\<open>ADRP\<close> adds its 21-bit signed page offset to the page of its address; an \<^verbatim>\<open>ADD\<close>
  immediate adds its 12-bit field, a load or store its 12-bit field scaled by the access size
  (LDRSB to LDR of a 128-bit vector register, prefetches included).
\<close>

definition branch_dest :: "u64 \<Rightarrow> u32 \<Rightarrow> u64" where
  "branch_dest place insn = place + push_bit 2 (signed_take_bit 25 (ucast insn))"

definition adrp_imm :: "u32 \<Rightarrow> u32" where
  "adrp_imm insn = take_bit 2 (drop_bit 29 insn) OR push_bit 2 (take_bit 19 (drop_bit 5 insn))"

definition adrp_dest :: "u64 \<Rightarrow> u32 \<Rightarrow> u64" where
  "adrp_dest place insn = page place + push_bit 12 (signed_take_bit 20 (ucast (adrp_imm insn)))"

definition imm12 :: "u32 \<Rightarrow> u64" where
  "imm12 insn = ucast (take_bit 12 (drop_bit 10 insn))"

text \<open>
  The instructions whose 12-bit field is added to an address, by their top ten bits, and the unit of that field:
  one for the unshifted 64-bit additions, the access size in bytes for the loads and stores.
\<close>

definition access_bytes :: "(u32 \<times> u64) list" where
  "access_bytes =
     [(0x244, 1), (0x2C4, 1),
      (0x0E4, 1), (0x0E5, 1), (0x0E6, 1), (0x0E7, 1),
      (0x1E4, 2), (0x1E5, 2), (0x1E6, 2), (0x1E7, 2),
      (0x2E4, 4), (0x2E5, 4), (0x2E6, 4),
      (0x3E4, 8), (0x3E5, 8), (0x3E6, 8),
      (0x0F4, 1), (0x0F5, 1), (0x0F6, 16), (0x0F7, 16),
      (0x1F4, 2), (0x1F5, 2), (0x2F4, 4), (0x2F5, 4), (0x3F4, 8), (0x3F5, 8)]"

definition is_page_access :: "u32 \<Rightarrow> bool" where
  "is_page_access insn \<longleftrightarrow> map_of access_bytes (drop_bit 22 insn) \<noteq> None"

definition access_offset :: "u32 \<Rightarrow> u64" where
  "access_offset insn = (case map_of access_bytes (drop_bit 22 insn) of Some unit \<Rightarrow> unit * imm12 insn | None \<Rightarrow> 0)"

lemma bit_word_index: "bit (w :: 'a::len word) n \<Longrightarrow> n < LENGTH('a)"
  using bit_imp_le_length by blast

lemma branch_field:
  fixes delta :: u64 and insn :: u32
  assumes "delta AND 3 = 0" and "fits_signed (signed_drop_bit 2 delta) 26"
  defines "insn' \<equiv> (insn AND NOT 0x03ffffff) OR (ucast (signed_drop_bit 2 delta) AND 0x03ffffff)"
  shows "push_bit 2 (signed_take_bit 25 (ucast insn')) = delta"
    and "drop_bit 26 insn' = drop_bit 26 insn"
proof -
  let ?imm = "signed_drop_bit 2 delta"
  have lo: "\<not> bit delta 0" "\<not> bit delta 1"
    using take_bit_zero_bit [of 2 delta] assms(1) by (simp_all add: mask_2)
  have imm: "bit ?imm k \<longleftrightarrow> bit delta (k + 2)" if "k + 2 < 64" for k
    using that by (simp add: bit_simps add.commute)
  have f: "bit insn' k \<longleftrightarrow> bit delta (k + 2)" if "k < 26" for k
    using that imm [of k] unfolding insn'_def low_mask_bits by (simp add: bit_simps)
  have hi: "bit delta n \<longleftrightarrow> bit delta 27" if "27 \<le> n" "n < 64" for n
  proof -
    define m where "m = n - 2"
    have "n = m + 2" "25 \<le> m" "m + 2 < 64" using that by (simp_all add: m_def)
    then show ?thesis
      using fits_signed_bits [of ?imm 25 m] assms(2) imm [of m] imm [of 25] by simp
  qed
  show "push_bit 2 (signed_take_bit 25 (ucast insn')) = delta"
  proof (rule bit_word_eqI)
    fix n assume n: "n < LENGTH(64)"
    show "bit (push_bit 2 (signed_take_bit 25 (ucast insn')) :: u64) n = bit delta n"
    proof (cases "n < 2")
      case True
      then have "n = 0 \<or> n = 1" by auto
      then show ?thesis using lo by (auto simp: bit_simps)
    next
      case False
      define m where "m = n - 2"
      have m: "n = m + 2" "m < 62" using False n by (simp_all add: m_def)
      have "bit (push_bit 2 (signed_take_bit 25 (ucast insn')) :: u64) n \<longleftrightarrow> bit insn' (min m 25)"
        using m by (auto simp: bit_simps min_def)
      also have "\<dots> \<longleftrightarrow> bit delta (min m 25 + 2)" by (rule f) simp
      also have "\<dots> \<longleftrightarrow> bit delta n" using hi [of n] m by (auto simp: min_def)
      finally show ?thesis .
    qed
  qed
  show "drop_bit 26 insn' = drop_bit 26 insn"
    unfolding insn'_def low_mask_bits by (rule bit_word_eqI) (auto simp: bit_simps dest: bit_word_index)
qed

lemma page_aligned: "take_bit 12 (page v) = 0"
  unfolding page_def low_mask_bits by (rule bit_word_eqI) (auto simp: bit_simps)

lemma page_diff_aligned: "take_bit 12 (page a - page b) = 0"
  using page_aligned [of a] page_aligned [of b] by (simp add: take_bit_eq_0_iff)

lemma page_split: "page v + take_bit 12 v = v"
proof -
  have "page v AND take_bit 12 v = 0"
    unfolding page_def low_mask_bits by (rule bit_word_eqI) (auto simp: bit_simps)
  then have "page v + take_bit 12 v = page v OR take_bit 12 v" by (rule disjunctive_add_eq_or)
  also have "\<dots> = v" unfolding page_def low_mask_bits by (rule bit_word_eqI) (auto simp: bit_simps)
  finally show ?thesis .
qed

lemma adrp_field:
  fixes delta :: u64 and insn :: u32
  assumes "take_bit 12 delta = 0" and "fits_signed (signed_drop_bit 12 delta) 21"
    and "\<And>k. k < 2 \<Longrightarrow> bit insn (29 + k) \<longleftrightarrow> bit (signed_drop_bit 12 delta) k"
    and "\<And>k. k < 19 \<Longrightarrow> bit insn (5 + k) \<longleftrightarrow> bit (signed_drop_bit 12 delta) (2 + k)"
  shows "push_bit 12 (signed_take_bit 20 (ucast (adrp_imm insn))) = delta"
proof (rule bit_word_eqI)
  let ?imm = "signed_drop_bit 12 delta"
  fix n assume n: "n < LENGTH(64)"
  have imm: "bit ?imm k \<longleftrightarrow> bit delta (k + 12)" if "k + 12 < 64" for k
    using that by (simp add: bit_simps add.commute)
  have f: "bit (adrp_imm insn) k \<longleftrightarrow> bit ?imm k" if "k < 21" for k
  proof (cases "k < 2")
    case True
    then show ?thesis using assms(3) [of k] by (auto simp: adrp_imm_def bit_simps)
  next
    case False
    then have "2 + (k - 2) = k" by simp
    with False show ?thesis using assms(4) [of "k - 2"] that by (auto simp: adrp_imm_def bit_simps)
  qed
  show "bit (push_bit 12 (signed_take_bit 20 (ucast (adrp_imm insn))) :: u64) n = bit delta n"
  proof (cases "n < 12")
    case True
    then show ?thesis using take_bit_zero_bit [OF assms(1)] by (auto simp: bit_simps)
  next
    case False
    define m where "m = n - 12"
    have m: "n = m + 12" "m < 52" using False n by (simp_all add: m_def)
    have "bit (push_bit 12 (signed_take_bit 20 (ucast (adrp_imm insn))) :: u64) n \<longleftrightarrow> bit (adrp_imm insn) (min m 20)"
      using m by (auto simp: bit_simps min_def)
    also have "\<dots> \<longleftrightarrow> bit ?imm (min m 20)" by (rule f) simp
    also have "\<dots> \<longleftrightarrow> bit ?imm m"
      using fits_signed_bits [of ?imm 20 m] assms(2) m by (auto simp: min_def)
    also have "\<dots> \<longleftrightarrow> bit delta n" using imm [of m] m by simp
    finally show ?thesis .
  qed
qed

lemma page21_field:
  fixes delta :: u64 and insn :: u32
  assumes "take_bit 12 delta = 0" and "fits_signed (signed_drop_bit 12 delta) 21"
  defines "enc \<equiv> ucast (signed_drop_bit 12 delta) AND 0x1fffff :: u32"
  defines "insn' \<equiv> (insn AND NOT (push_bit 29 3 OR push_bit 5 0x7ffff))
      OR (push_bit 29 (enc AND 3) OR push_bit 5 (drop_bit 2 enc AND 0x7ffff))"
  shows "push_bit 12 (signed_take_bit 20 (ucast (adrp_imm insn'))) = delta"
    and "take_bit 5 insn' = take_bit 5 insn"
proof -
  have b: "bit insn' k \<longleftrightarrow> (if k < 5 then bit insn k else if k < 24 then bit (signed_drop_bit 12 delta) (k - 3)
      else if k < 29 then bit insn k else if k < 31 then bit (signed_drop_bit 12 delta) (k - 29) else bit insn k)"
    if "k < 32" for k
  proof -
    have "2 + (k - 5) = k - 3" if "5 \<le> k" using that by simp
    then show ?thesis
      using that unfolding insn'_def enc_def mask_2 mask_19 mask_21 unfolding low_mask_bits
      by (auto simp: bit_simps)
  qed
  show "push_bit 12 (signed_take_bit 20 (ucast (adrp_imm insn'))) = delta"
    by (rule adrp_field [OF assms(1,2)]) (simp_all add: b)
  show "take_bit 5 insn' = take_bit 5 insn"
    by (rule bit_word_eqI) (auto simp: bit_take_bit_iff b)
qed

lemma imm12_field:
  fixes v :: u64 and insn :: u32
  assumes "take_bit 12 v = v"
  defines "insn' \<equiv> (insn AND NOT (push_bit 10 0xfff)) OR push_bit 10 (ucast v)"
  shows "imm12 insn' = v" and "drop_bit 22 insn' = drop_bit 22 insn" and "take_bit 10 insn' = take_bit 10 insn"
proof -
  have v: "bit v k \<Longrightarrow> k < 12" for k using assms(1) by (metis bit_take_bit_iff)
  have b: "bit insn' k \<longleftrightarrow> (if k < 10 then bit insn k else if k < 22 then bit v (k - 10) else bit insn k)"
    if "k < 32" for k
    using that v [of "k - 10"] unfolding insn'_def low_mask_bits by (auto simp: bit_simps)
  show "imm12 insn' = v"
  proof (rule bit_word_eqI)
    fix n assume "n < LENGTH(64)"
    show "bit (imm12 insn') n = bit v n"
      using b [of "10 + n"] v [of n] by (cases "n < 12") (auto simp: imm12_def bit_simps)
  qed
  show "drop_bit 22 insn' = drop_bit 22 insn"
  proof (rule bit_word_eqI)
    fix n assume "n < LENGTH(32)"
    show "bit (drop_bit 22 insn') n = bit (drop_bit 22 insn) n"
      using b [of "22 + n"] bit_word_index [of insn "22 + n"] bit_word_index [of insn' "22 + n"]
      by (auto simp: bit_drop_bit_eq)
  qed
  show "take_bit 10 insn' = take_bit 10 insn"
    by (rule bit_word_eqI) (auto simp: bit_take_bit_iff b)
qed

text \<open>The class of an instruction depends on its bits from 22 up only.\<close>

lemma class_by_high_bits:
  assumes "drop_bit 22 insn' = drop_bit 22 (insn :: u32)"
  shows "is_add_immediate insn' = is_add_immediate insn"
    and "pageoff_load_store_shift insn' = pageoff_load_store_shift insn"
proof -
  have d: "drop_bit k insn' = drop_bit k insn" if "22 \<le> k" for k
    using arg_cong [OF assms, of "drop_bit (k - 22)"] that by (simp add: drop_bit_drop_bit)
  have b: "bit insn' k \<longleftrightarrow> bit insn k" if "22 \<le> k" for k
    using arg_cong [OF assms, of "\<lambda>w. bit w (k - 22)"] that by (simp add: bit_drop_bit_eq)
  have m: "(0x1f000000 :: u32) = push_bit 24 (mask 5)" by (simp add: mask_eq_exp_minus_1 push_bit_eq_mult)
  have "insn' AND 0x1f000000 = insn AND 0x1f000000"
    unfolding m by (rule bit_word_eqI) (auto simp: bit_simps b)
  then show "is_add_immediate insn' = is_add_immediate insn" by (simp add: is_add_immediate_def)
  show "pageoff_load_store_shift insn' = pageoff_load_store_shift insn"
    using d [of 30] d [of 24] d [of 22]
    by (simp add: pageoff_load_store_shift_def is_simd_fp_pageoff_def simd_fp_pageoff_shift_def)
qed

lemma access_units:
  "\<forall>(k, n) \<in> set access_bytes.
     if is_add_immediate (push_bit 22 k) then n = 1 else n = 2 ^ pageoff_load_store_shift (push_bit 22 k)"
  by code_simp

lemma access_offset_class:
  assumes "is_page_access insn"
  shows "access_offset insn = (if is_add_immediate insn then imm12 insn else push_bit (pageoff_load_store_shift insn) (imm12 insn))"
proof -
  let ?k = "drop_bit 22 insn"
  obtain n where n: "map_of access_bytes ?k = Some n" using assms by (auto simp: is_page_access_def)
  have "drop_bit 22 (push_bit 22 ?k) = ?k" by (rule bit_word_eqI) (auto simp: bit_simps dest: bit_word_index)
  note c = class_by_high_bits [OF this]
  have "if is_add_immediate insn then n = 1 else n = 2 ^ pageoff_load_store_shift insn"
    using access_units map_of_SomeD [OF n] c by fastforce
  then show ?thesis using n by (simp add: access_offset_def push_bit_eq_mult split: if_splits)
qed

lemma scaled_field:
  fixes v :: u64
  assumes "take_bit 12 v = v" and "2 ^ sh dvd unat v" and "sh < 12"
  shows "push_bit sh (drop_bit sh v) = v" and "take_bit 12 (drop_bit sh v) = drop_bit sh v"
proof -
  have "take_bit sh (unat v) = 0" using assms(2) by (simp add: take_bit_eq_0_iff)
  then have "unat (take_bit sh v) = 0" by (simp add: unsigned_take_bit_eq)
  then have z: "take_bit sh v = 0" by (simp add: unat_eq_0)
  show "push_bit sh (drop_bit sh v) = v"
    using z bits_ident [of sh v] by simp
  have v: "bit v k \<Longrightarrow> k < 12" for k using assms(1) by (metis bit_take_bit_iff)
  show "take_bit 12 (drop_bit sh v) = drop_bit sh v"
    by (rule bit_word_eqI) (auto simp: bit_take_bit_iff bit_drop_bit_eq dest: v)
qed

lemma shift_small: "pageoff_load_store_shift insn < 12"
proof -
  have "unat (drop_bit 30 insn AND 3) < 4"
    using take_bit_less_exp [of 2 "drop_bit 30 insn"] by (simp add: mask_2 word_less_nat_alt)
  then show ?thesis by (auto simp: pageoff_load_store_shift_def simd_fp_pageoff_shift_def Let_def)
qed

section \<open>The patched code reaches its target\<close>

text \<open>A patch of one word of an atom: the word becomes \<open>w\<close>, every other byte and the length are kept.\<close>

definition word_patched :: "bytes \<Rightarrow> u32 \<Rightarrow> u32 \<Rightarrow> bytes \<Rightarrow> bool" where
  "word_patched b off w b' \<longleftrightarrow>
     length b' = length b \<and> take (unat off) b' = take (unat off) b
     \<and> drop (unat off + 4) b' = drop (unat off + 4) b
     \<and> (\<forall>k. read_u32 b' off k = Ok w)"

lemma write_u32_patched: "write_u32 b off w k = Ok b' \<Longrightarrow> word_patched b off w b'"
  by (simp add: word_patched_def read_write_u32)

lemma read_write_ok: "read_u32 b off k = Ok insn \<Longrightarrow> \<exists>b'. write_u32 b off w k' = Ok b'"
  by (auto simp: read_u32_def write_u32_def Let_def split: if_splits)

text \<open>
  C11: A BRANCH26 relocation whose target is in range of the place and whose field lies in the atom is
  always patched, and the patched instruction, read by the architecture, branches exactly to the
  target; its opcode bits and every other byte of the atom are unchanged.
\<close>

theorem branch26_reaches_target:
  assumes "branch26_in_range place target" and "read_u32 b off (rel_kind r) = Ok insn"
  shows "\<exists>b' insn'. patch_branch26 b off r place target = Ok b' \<and> word_patched b off insn' b'
    \<and> branch_dest place insn' = target \<and> drop_bit 26 insn' = drop_bit 26 insn"
proof -
  let ?d = "target - place"
  have d: "?d AND 3 = 0" "fits_signed (signed_drop_bit 2 ?d) 26"
    using assms(1) by (simp_all add: branch26_in_range_def Let_def)
  let ?insn' = "(insn AND NOT 0x03ffffff) OR (ucast (signed_drop_bit 2 ?d) AND 0x03ffffff)"
  obtain b' where w: "write_u32 b off ?insn' (rel_kind r) = Ok b'"
    using read_write_ok [OF assms(2)] by blast
  have "patch_branch26 b off r place target = Ok b'"
    using d assms(2) w by (simp add: patch_branch26_def)
  moreover have "branch_dest place ?insn' = target"
    using branch_field(1) [OF d, of insn] by (simp add: branch_dest_def)
  ultimately show ?thesis using write_u32_patched [OF w] branch_field(2) [OF d, of insn] by blast
qed

text \<open>
  A BRANCH26 patch succeeds only for a target in range: what is out of range or misaligned is an
  error and never a truncated displacement.
\<close>

theorem branch26_never_truncates:
  "patch_branch26 b off r place target = Ok b' \<Longrightarrow> branch26_in_range place target"
  by (auto simp: patch_branch26_def branch26_in_range_def Let_def split: if_splits)

lemma page21_patched:
  assumes "patch_page21 b off r place target = Ok b'"
  shows "\<exists>i. word_patched b off i b' \<and> adrp_dest place i = page (target + rel_addend r)"
proof -
  let ?d = "page (target + rel_addend r) - page place"
  have fit: "fits_signed (signed_drop_bit 12 ?d) 21"
    using assms by (auto simp: patch_page21_def Let_def split: if_splits)
  obtain insn where "read_u32 b off (rel_kind r) = Ok insn"
    and w: "write_u32 b off ((insn AND NOT (push_bit 29 3 OR push_bit 5 0x7ffff))
      OR (push_bit 29 ((ucast (signed_drop_bit 12 ?d) AND 0x1fffff) AND 3)
        OR push_bit 5 (drop_bit 2 (ucast (signed_drop_bit 12 ?d) AND 0x1fffff) AND 0x7ffff))) (rel_kind r) = Ok b'"
    using assms unfolding patch_page21_def Let_def by (auto simp: rbind_Ok_iff split: if_splits)
  with fit show ?thesis
    using write_u32_patched [OF w] page21_field(1) [OF page_diff_aligned fit, of insn]
    by (auto simp: adrp_dest_def)
qed

lemma pageoff12_patched:
  assumes "patch_pageoff12 b off r target = Ok b'" and "read_u32 b off (rel_kind r) = Ok insn" and acc: "is_page_access insn"
  shows "\<exists>i. word_patched b off i b' \<and> drop_bit 22 i = drop_bit 22 insn \<and> access_offset i = take_bit 12 (target + rel_addend r)"
proof -
  let ?p = "take_bit 12 (target + rel_addend r)"
  obtain imm where m: "(if is_add_immediate insn then Ok ?p
      else if \<not> 2 ^ pageoff_load_store_shift insn dvd unat ?p
        then Err (RelocError off (rel_kind r) UnalignedPageOff)
      else Ok (drop_bit (pageoff_load_store_shift insn) ?p)) = Ok imm"
    and g: "(if imm > 0xfff then Err (RelocError off (rel_kind r) PageOffTooLarge)
      else write_u32 b off ((insn AND NOT (push_bit 10 0xfff)) OR push_bit 10 (ucast imm)) (rel_kind r)) = Ok b'"
    using assms(1) unfolding patch_pageoff12_def assms(2) rbind_simps Let_def mask_12 rbind_Ok_iff by blast
  have w: "write_u32 b off ((insn AND NOT (push_bit 10 0xfff)) OR push_bit 10 (ucast imm)) (rel_kind r) = Ok b'"
    using g by (metis result.distinct(1))
  have i: "if is_add_immediate insn then imm = ?p
      else 2 ^ pageoff_load_store_shift insn dvd unat ?p \<and> imm = drop_bit (pageoff_load_store_shift insn) ?p"
    using m by (simp split: if_splits)
  let ?i = "(insn AND NOT (push_bit 10 0xfff)) OR push_bit 10 (ucast imm)"
  have t: "take_bit 12 ?p = ?p" by simp
  have imm: "take_bit 12 imm = imm"
    using i scaled_field(2) [OF t _ shift_small, of insn] by (auto split: if_splits)
  note f = imm12_field [OF imm, of insn]
  have "is_page_access ?i" using acc f(2) by (simp add: is_page_access_def)
  from access_offset_class [OF this] have "access_offset ?i = ?p"
    using i f(1) class_by_high_bits [OF f(2)] scaled_field(1) [OF t _ shift_small, of insn]
    by (simp split: if_splits)
  then show ?thesis using write_u32_patched [OF w] f(2) by blast
qed

text \<open>
  C12: An ADRP and its ADD, load or store, patched by PAGE21 and PAGEOFF12 for the same target and
  addend, address exactly \<open>target + addend\<close>: the page the ADRP yields plus the offset the second
  instruction adds is that address, where the unit of the second instruction's field is read off a table of the
  additions, loads and stores of the architecture by their opcode; the opcode is kept.
\<close>

theorem page_pair_addresses_target:
  assumes "patch_page21 b1 off1 r1 place target = Ok b1'"
    and "patch_pageoff12 b2 off2 r2 target = Ok b2'"
    and "rel_addend r1 = rel_addend r2"
    and "read_u32 b2 off2 (rel_kind r2) = Ok i" and "is_page_access i"
  shows "\<exists>i1 i2. word_patched b1 off1 i1 b1' \<and> word_patched b2 off2 i2 b2'
    \<and> drop_bit 22 i2 = drop_bit 22 i \<and> adrp_dest place i1 + access_offset i2 = target + rel_addend r2"
proof -
  let ?t = "target + rel_addend r2"
  obtain i1 where 1: "word_patched b1 off1 i1 b1'" "adrp_dest place i1 = page ?t"
    using page21_patched [OF assms(1)] assms(3) by auto
  obtain i2 where 2: "word_patched b2 off2 i2 b2'" "drop_bit 22 i2 = drop_bit 22 i" "access_offset i2 = take_bit 12 ?t"
    using pageoff12_patched [OF assms(2,4,5)] by auto
  have "adrp_dest place i1 + access_offset i2 = ?t" using 1 2 page_split [of ?t] by simp
  then show ?thesis using 1 2 by blast
qed

section \<open>Synthesized instructions\<close>

text \<open>An instruction of the load/store/add immediate formats, composed of its fields.\<close>

lemma composed_insn:
  fixes v rn rd op :: u32
  assumes "take_bit 12 v = v" and "take_bit 5 rn = rn" and "take_bit 5 rd = rd"
  defines "i \<equiv> push_bit 22 op OR (push_bit 10 v OR (push_bit 5 rn OR rd))"
  shows "drop_bit 22 i = drop_bit 22 (push_bit 22 op)" and "imm12 i = ucast v"
    and "take_bit 5 (drop_bit 5 i) = rn" and "take_bit 5 i = rd"
proof -
  have v: "bit v k \<Longrightarrow> k < 12" for k using assms(1) by (metis bit_take_bit_iff)
  have n: "bit rn k \<Longrightarrow> k < 5" for k using assms(2) by (metis bit_take_bit_iff)
  have d: "bit rd k \<Longrightarrow> k < 5" for k using assms(3) by (metis bit_take_bit_iff)
  have b: "bit i k \<longleftrightarrow> (if k < 5 then bit rd k else if k < 10 then bit rn (k - 5)
      else if k < 22 then bit v (k - 10) else bit op (k - 22))" if "k < 32" for k
    using that v [of "k - 10"] n [of "k - 5"] d [of k] unfolding i_def by (auto simp: bit_simps)
  show "drop_bit 22 i = drop_bit 22 (push_bit 22 op)"
  proof (rule bit_word_eqI)
    fix k assume "k < LENGTH(32)"
    show "bit (drop_bit 22 i) k = bit (drop_bit 22 (push_bit 22 op)) k"
      using b [of "22 + k"] bit_word_index [of i "22 + k"] by (auto simp: bit_simps)
  qed
  show "imm12 i = ucast v"
  proof (rule bit_word_eqI)
    fix k assume "k < LENGTH(64)"
    show "bit (imm12 i) k = bit (ucast v :: u64) k"
      using b [of "10 + k"] v [of k] by (cases "k < 12") (auto simp: imm12_def bit_simps)
  qed
  show "take_bit 5 (drop_bit 5 i) = rn"
  proof (rule bit_word_eqI)
    fix k assume "k < LENGTH(32)"
    show "bit (take_bit 5 (drop_bit 5 i)) k = bit rn k"
      using b [of "5 + k"] n [of k] by (auto simp: bit_take_bit_iff bit_drop_bit_eq)
  qed
  show "take_bit 5 i = rd"
    using d by (intro bit_word_eqI) (auto simp: bit_take_bit_iff b)
qed

lemma add_unit: "map_of access_bytes (drop_bit 22 (push_bit 22 0x244)) = Some 1"
  and ldr_unit: "map_of access_bytes (drop_bit 22 (push_bit 22 0x3e5)) = Some 8"
  by code_simp+

lemma take_bit_ucast_small:
  "take_bit n (v :: u64) = v \<Longrightarrow> n \<le> 32 \<Longrightarrow> take_bit n (ucast v :: u32) = ucast v"
  "take_bit n (v :: u64) = v \<Longrightarrow> n \<le> 32 \<Longrightarrow> (ucast (ucast v :: u32) :: u64) = v"
proof -
  assume t: "take_bit n v = v" and n: "n \<le> 32"
  have v: "bit v k \<Longrightarrow> k < n" for k using t by (metis bit_take_bit_iff)
  show "take_bit n (ucast v :: u32) = ucast v"
    using n by (intro bit_word_eqI) (auto simp: bit_simps dest: v)
  show "(ucast (ucast v :: u32) :: u64) = v"
    by (intro bit_word_eqI) (use n v in \<open>auto simp: bit_simps intro: less_le_trans\<close>)
qed

lemma add_insn:
  assumes "take_bit 12 (v :: u64) = v" and "take_bit 5 rn = rn" and "take_bit 5 rd = rd"
  defines "i \<equiv> 0x91000000 OR (push_bit 10 (ucast v) OR (push_bit 5 rn OR rd)) :: u32"
  shows "access_offset i = v" and "take_bit 5 (drop_bit 5 i) = rn" and "take_bit 5 i = rd"
proof -
  have i: "i = push_bit 22 0x244 OR (push_bit 10 (ucast v) OR (push_bit 5 rn OR rd))"
    by (simp add: i_def push_bit_eq_mult)
  have le: "(12 :: nat) \<le> 32" by simp
  note c = composed_insn [OF take_bit_ucast_small(1) [OF assms(1) le] assms(2,3), of "0x244", folded i]
  show "access_offset i = v"
    unfolding access_offset_def c(1,2) add_unit using take_bit_ucast_small(2) [OF assms(1) le] by simp
  show "take_bit 5 (drop_bit 5 i) = rn" "take_bit 5 i = rd" by (fact c)+
qed

lemma ldr_insn:
  assumes "take_bit 12 (v :: u64) = v" and "take_bit 5 rn = rn" and "take_bit 5 rd = rd"
  defines "i \<equiv> 0xf9400000 OR (push_bit 10 (ucast v) OR (push_bit 5 rn OR rd)) :: u32"
  shows "access_offset i = push_bit 3 v" and "take_bit 5 (drop_bit 5 i) = rn" and "take_bit 5 i = rd"
proof -
  have i: "i = push_bit 22 0x3e5 OR (push_bit 10 (ucast v) OR (push_bit 5 rn OR rd))"
    by (simp add: i_def push_bit_eq_mult)
  have le: "(12 :: nat) \<le> 32" by simp
  note c = composed_insn [OF take_bit_ucast_small(1) [OF assms(1) le] assms(2,3), of "0x3e5", folded i]
  show "access_offset i = push_bit 3 v"
    unfolding access_offset_def c(1,2) ldr_unit using take_bit_ucast_small(2) [OF assms(1) le] by (simp add: push_bit_eq_mult)
  show "take_bit 5 (drop_bit 5 i) = rn" "take_bit 5 i = rd" by (fact c)+
qed

lemma reg_field: "reg < 32 \<Longrightarrow> take_bit 5 (ucast (reg :: u8) :: u32) = ucast reg"
  by (rule take_bit_word_less) (simp add: word_less_nat_alt unsigned_ucast_eq take_bit_nat_eq_self)

lemma adrp_insn:
  fixes delta :: u64 and rd :: u32
  assumes "take_bit 12 delta = 0" and "fits_signed (signed_drop_bit 12 delta) 21" and "take_bit 5 rd = rd"
  defines "enc \<equiv> ucast (signed_drop_bit 12 delta) AND 0x1fffff :: u32"
  defines "i \<equiv> 0x90000000 OR (push_bit 29 (enc AND 3) OR (push_bit 5 (drop_bit 2 enc AND 0x7ffff) OR rd))"
  shows "push_bit 12 (signed_take_bit 20 (ucast (adrp_imm i))) = delta" and "take_bit 5 i = rd"
proof -
  have d: "bit rd k \<Longrightarrow> k < 5" for k using assms(3) by (metis bit_take_bit_iff)
  have "0x90000000 = (push_bit 28 1 OR push_bit 31 1 :: u32)" by (simp add: push_bit_eq_mult)
  then have op: "bit (0x90000000 :: u32) k \<longleftrightarrow> k = 28 \<or> k = 31" for k
    by (auto simp only: bit_or_iff bit_push_bit_iff bit_1_iff) simp_all
  have b: "bit i k \<longleftrightarrow> (if k < 5 then bit rd k else if k < 24 then bit (signed_drop_bit 12 delta) (k - 3)
      else if k < 28 then False else if k = 28 then True
      else if k < 31 then bit (signed_drop_bit 12 delta) (k - 29) else True)"
    if "k < 32" for k
  proof -
    have "2 + (k - 5) = k - 3" if "5 \<le> k" using that by simp
    then show ?thesis
      using that d [of k] unfolding i_def enc_def mask_2 mask_19 mask_21 bit_or_iff op by (auto simp: bit_simps)
  qed
  show "push_bit 12 (signed_take_bit 20 (ucast (adrp_imm i))) = delta"
    by (rule adrp_field [OF assms(1,2)]) (simp_all add: b)
  show "take_bit 5 i = rd"
    using d by (intro bit_word_eqI) (auto simp: bit_take_bit_iff b)
qed

lemma encode_adrp_dest:
  assumes "encode_adrp_reg reg place target = Ok w" and "reg < 32"
  shows "adrp_dest place w = page target" and "take_bit 5 w = ucast reg"
proof -
  let ?d = "page target - page place"
  have fit: "fits_signed (signed_drop_bit 12 ?d) 21"
    using assms(1) by (auto simp: encode_adrp_reg_def Let_def split: if_splits)
  have r: "take_bit 5 (ucast reg :: u32) = ucast reg"
    using assms(2) by (simp add: reg_field)
  note a = adrp_insn [OF page_diff_aligned fit r]
  show "adrp_dest place w = page target" "take_bit 5 w = ucast reg"
    using assms(1) fit a by (auto simp: encode_adrp_reg_def Let_def adrp_dest_def)
qed

lemma encode_add_offset:
  assumes "encode_add_x_reg_pageoff reg target = Ok w" and "reg < 32"
  shows "access_offset w = take_bit 12 target" and "take_bit 5 (drop_bit 5 w) = ucast reg"
    and "take_bit 5 w = ucast reg"
proof -
  have r: "take_bit 5 (ucast reg :: u32) = ucast reg"
    using assms(2) by (simp add: reg_field)
  have t: "take_bit 12 (take_bit 12 target) = take_bit 12 target" by simp
  note a = add_insn [OF t r r]
  have w: "w = 0x91000000 OR (push_bit 10 (ucast (take_bit 12 target)) OR (push_bit 5 (ucast reg) OR ucast reg))"
    using assms(1) by (simp add: encode_add_x_reg_pageoff_def Let_def mask_12 split: if_splits)
  show "access_offset w = take_bit 12 target" "take_bit 5 (drop_bit 5 w) = ucast reg" "take_bit 5 w = ucast reg"
    unfolding w by (fact a)+
qed

lemma encode_ldr_offset:
  assumes "encode_ldr_x_reg_pageoff reg target = Ok w" and "reg < 32"
  shows "access_offset w = take_bit 12 target" and "take_bit 5 (drop_bit 5 w) = ucast reg"
    and "take_bit 5 w = ucast reg"
proof -
  let ?t = "take_bit 12 target"
  have r: "take_bit 5 (ucast reg :: u32) = ucast reg"
    using assms(2) by (simp add: reg_field)
  have al: "take_bit 3 ?t = 0"
    using assms(1) by (auto simp: encode_ldr_x_reg_pageoff_def Let_def mask_12 mask_3 split: if_splits)
  have t: "take_bit 12 (drop_bit 3 ?t) = drop_bit 3 ?t"
    by (rule bit_word_eqI) (auto simp: bit_simps)
  have p: "push_bit 3 (drop_bit 3 ?t) = ?t" using al bits_ident [of 3 ?t] by simp
  have u: "take_bit 12 (ucast (drop_bit 3 ?t) :: u32) = ucast (drop_bit 3 ?t)"
    by (rule take_bit_ucast_small(1) [OF t]) simp
  have w: "w = 0xf9400000 OR (push_bit 10 (ucast (drop_bit 3 ?t)) OR (push_bit 5 (ucast reg) OR ucast reg))"
    using assms(1) u unfolding encode_ldr_x_reg_pageoff_def Let_def mask_12
    by (metis result.distinct(1) result.inject(1))
  note a = ldr_insn [OF t r r]
  show "access_offset w = take_bit 12 target" "take_bit 5 (drop_bit 5 w) = ucast reg" "take_bit 5 w = ucast reg"
    unfolding w using a p by simp_all
qed

lemma encode_branch_dest:
  assumes "encode_branch26 place target = Ok w"
  shows "branch_dest place w = target"
proof -
  let ?d = "target - place"
  have d: "?d AND 3 = 0" "fits_signed (signed_drop_bit 2 ?d) 26"
    using assms by (auto simp: encode_branch26_def Let_def split: if_splits)
  have "w = (0x14000000 AND NOT 0x03ffffff) OR (ucast (signed_drop_bit 2 ?d) AND 0x03ffffff)"
    using assms d by (simp add: encode_branch26_def)
  then show ?thesis using branch_field(1) [OF d, of "0x14000000"] by (simp add: branch_dest_def)
qed

text \<open>
  C13: The lazy-binding path is wired together: the stub loads \<^verbatim>\<open>x16\<close> from exactly the lazy pointer
  slot it is built for, a helper entry branches exactly to the helper header and carries its
  lazy-binding offset in the word its literal load reads, and the header forms the address of
  \<^verbatim>\<open>__dyld_private\<close> in \<^verbatim>\<open>x17\<close> and loads \<^verbatim>\<open>x16\<close> from exactly the binder's GOT slot.
\<close>

theorem lazy_binding_path:
  assumes "encode_stub stub lazy_ptr = Ok st"
    and "encode_stub_helper_entry entry header lazy_off = Ok en"
    and "encode_stub_helper_header header priv binder = Ok hdr"
  shows "\<exists>s0 s1 e1 h0 h1 h3 h4.
      st = le32 s0 @ le32 s1 @ le32 0xd61f0200
    \<and> adrp_dest stub s0 + access_offset s1 = lazy_ptr
    \<and> take_bit 5 s0 = 16 \<and> take_bit 5 (drop_bit 5 s1) = 16 \<and> take_bit 5 s1 = 16
    \<and> en = le32 encode_ldr_w16_literal_plus8 @ le32 e1 @ le32 lazy_off
    \<and> branch_dest (entry + 4) e1 = header
    \<and> hdr = le32 h0 @ le32 h1 @ le32 encode_stp_x16_x17_sp_preindex @ le32 h3 @ le32 h4 @ le32 0xd61f0200
    \<and> adrp_dest header h0 + access_offset h1 = priv
    \<and> take_bit 5 h0 = 17 \<and> take_bit 5 (drop_bit 5 h1) = 17 \<and> take_bit 5 h1 = 17
    \<and> adrp_dest (header + 12) h3 + access_offset h4 = binder
    \<and> take_bit 5 h3 = 16 \<and> take_bit 5 (drop_bit 5 h4) = 16 \<and> take_bit 5 h4 = 16"
proof -
  obtain s0 s1 where s: "encode_adrp_reg 16 stub lazy_ptr = Ok s0" "encode_ldr_x_reg_pageoff 16 lazy_ptr = Ok s1"
      "st = le32 s0 @ le32 s1 @ le32 0xd61f0200"
    using assms(1) by (auto simp: encode_stub_def rbind_Ok_iff)
  obtain e1 where e: "encode_branch26 (entry + 4) header = Ok e1"
      "en = le32 encode_ldr_w16_literal_plus8 @ le32 e1 @ le32 lazy_off"
    using assms(2) by (auto simp: encode_stub_helper_entry_def rbind_Ok_iff add_u64_def split: if_splits)
  obtain h0 h1 h3 h4 where h: "encode_adrp_reg 17 header priv = Ok h0" "encode_add_x_reg_pageoff 17 priv = Ok h1"
      "encode_adrp_reg 16 (header + 12) binder = Ok h3" "encode_ldr_x_reg_pageoff 16 binder = Ok h4"
      "hdr = le32 h0 @ le32 h1 @ le32 encode_stp_x16_x17_sp_preindex @ le32 h3 @ le32 h4 @ le32 0xd61f0200"
    using assms(3) by (auto simp: encode_stub_helper_header_def rbind_Ok_iff add_u64_def split: if_splits)
  have reg: "(16 :: u8) < 32" "(17 :: u8) < 32" by simp_all
  have u: "(ucast (16 :: u8) :: u32) = 16" "(ucast (17 :: u8) :: u32) = 17" by simp_all
  have 1: "adrp_dest stub s0 + access_offset s1 = lazy_ptr"
    unfolding encode_adrp_dest(1) [OF s(1) reg(1)] encode_ldr_offset(1) [OF s(2) reg(1)] by (rule page_split)
  have 2: "adrp_dest header h0 + access_offset h1 = priv"
    unfolding encode_adrp_dest(1) [OF h(1) reg(2)] encode_add_offset(1) [OF h(2) reg(2)] by (rule page_split)
  have 3: "adrp_dest (header + 12) h3 + access_offset h4 = binder"
    unfolding encode_adrp_dest(1) [OF h(3) reg(1)] encode_ldr_offset(1) [OF h(4) reg(1)] by (rule page_split)
  note regs = encode_adrp_dest(2) [OF s(1) reg(1)] encode_ldr_offset(2,3) [OF s(2) reg(1)]
    encode_adrp_dest(2) [OF h(1) reg(2)] encode_add_offset(2,3) [OF h(2) reg(2)]
    encode_adrp_dest(2) [OF h(3) reg(1)] encode_ldr_offset(2,3) [OF h(4) reg(1)]
  show ?thesis
    using s(3) 1 e(2) encode_branch_dest [OF e(1)] h(5) 2 3 regs [unfolded u] by blast
qed

lemma word_value_cases:
  assumes "- (2 ^ 31) \<le> v" and "v < 2 ^ 32"
  shows "uint (of_int v :: u32) = v \<or> sint (of_int v :: u32) = v"
proof (cases "0 \<le> v")
  case True
  then show ?thesis using assms(2) by (simp add: unsigned_of_int take_bit_int_eq_self)
next
  case False
  then have "sint (of_int v :: u32) = v"
    using assms(1) by (simp add: signed_of_int signed_take_bit_int_eq_self)
  then show ?thesis by simp
qed

text \<open>
  An absolute data pointer is patched to the exact value: with \<open>v\<close> the sum of target, explicit
  and in-place addend, a 64-bit slot holds \<open>v\<close> modulo \<open>2 ^ 64\<close>; a 32-bit slot is patched exactly when
  \<open>v\<close> is representable as an unsigned or signed 32-bit number, then holds that number, and is
  otherwise refused with the range error.
\<close>

theorem unsigned_pointer_value:
  fixes target :: u64
  assumes "read_implicit_addend b off (rel_length r) (rel_kind r) = Ok implicit"
  defines "v \<equiv> uint target + sint (rel_addend r) + sint implicit"
  shows "case rel_length r of
      Quad \<Rightarrow> \<exists>b'. patch_unsigned b off r target = Ok b' \<and> read_u64 b' off (rel_kind r) = Ok (of_int v)
        \<and> length b' = length b
    | Word \<Rightarrow>
        if - (2 ^ 31) \<le> v \<and> v < 2 ^ 32
        then \<exists>b' w. patch_unsigned b off r target = Ok b' \<and> word_patched b off w b' \<and> (uint w = v \<or> sint w = v)
        else patch_unsigned b off r target = Err (RelocError off (rel_kind r) WordOutOfRange)
    | other \<Rightarrow> False"
proof (cases "rel_length r")
  case Word
  then obtain w0 where w0: "read_u32 b off (rel_kind r) = Ok w0"
    using assms(1) by (auto simp: read_implicit_addend_def rbind_Ok_iff)
  show ?thesis
  proof (cases "- (2 ^ 31) \<le> v \<and> v < 2 ^ 32")
    case True
    obtain b' where b': "write_u32 b off (of_int v) (rel_kind r) = Ok b'" using read_write_ok [OF w0] by blast
    have "patch_unsigned b off r target = Ok b'"
      using True Word assms b' by (auto simp: patch_unsigned_def encode_unsigned_word_value_def ok_or_def)
    moreover have "uint (of_int v :: u32) = v \<or> sint (of_int v :: u32) = v"
      using True word_value_cases by blast
    ultimately show ?thesis using True Word write_u32_patched [OF b'] by auto
  next
    case False
    then show ?thesis
      using Word assms by (auto simp: patch_unsigned_def encode_unsigned_word_value_def ok_or_def)
  qed
next
  case Quad
  then have "unat off + 8 \<le> length b"
    using assms(1) by (auto simp: read_implicit_addend_def read_u64_def Let_def split: if_splits)
  then obtain b' where b': "write_u64 b off (of_int v) (rel_kind r) = Ok b'"
    by (auto simp: write_u64_def Let_def)
  then show ?thesis
    using Quad assms read_write_u64 [OF b'] by (simp add: patch_unsigned_def)
qed (use assms in \<open>auto simp: read_implicit_addend_def\<close>)

section \<open>Witnesses\<close>

definition call_reloc :: "reloc_kind \<Rightarrow> reloc_length \<Rightarrow> reloc" where
  "call_reloc k len = \<lparr> rel_offset = 0, rel_kind = k, rel_length = len, rel_pcrel = True,
     rel_referent = Symbol 0, rel_addend = 0, rel_subtrahend = None \<rparr>"

theorem branch26_reaches_target_witness:
  "\<exists>b' insn'. patch_branch26 [0, 0, 0, 0x94] 0 (call_reloc Branch26 Word) 0x100001000 0x100000800 = Ok b'
     \<and> word_patched [0, 0, 0, 0x94] 0 insn' b' \<and> branch_dest 0x100001000 insn' = 0x100000800
     \<and> drop_bit 26 insn' = drop_bit 26 (0x94000000 :: u32)"
proof (rule branch26_reaches_target)
  show "branch26_in_range 0x100001000 0x100000800" by code_simp
  show "read_u32 [0, 0, 0, 0x94] 0 (rel_kind (call_reloc Branch26 Word)) = Ok 0x94000000" by code_simp
qed

theorem branch26_never_truncates_witness:
  "branch26_in_range 0x100001000 0x100000800"
  by (rule branch26_never_truncates [where b = "[0, 0, 0, 0x94]" and off = 0 and b' = "[0, 0xfe, 0xff, 0x97]"
        and r = "call_reloc Branch26 Word"]) code_simp

theorem page_pair_addresses_target_witness:
  "\<exists>i1 i2. word_patched [0, 0, 0, 0x90] 0 i1 [0x20, 0, 0, 0xb0]
     \<and> word_patched [0, 0, 0xc0, 0x3d] 0 i2 [0, 4, 0xc0, 0x3d]
     \<and> drop_bit 22 i2 = drop_bit 22 (0x3dc00000 :: u32)
     \<and> adrp_dest 0x100001000 i1 + access_offset i2 = 0x100006010 + rel_addend (call_reloc PageOff12 Word)"
  by (rule page_pair_addresses_target [where ?r1.0 = "call_reloc Page21 Word"]; code_simp)

theorem lazy_binding_path_witness:
  "\<exists>st en hdr s0 s1 e1 h0 h1 h3 h4.
      encode_stub 0x100003f00 0x100008000 = Ok st
    \<and> encode_stub_helper_entry 0x100003f30 0x100003f18 7 = Ok en
    \<and> encode_stub_helper_header 0x100003f18 0x100008008 0x100004000 = Ok hdr
    \<and> st = le32 s0 @ le32 s1 @ le32 0xd61f0200
    \<and> adrp_dest 0x100003f00 s0 + access_offset s1 = 0x100008000
    \<and> en = le32 encode_ldr_w16_literal_plus8 @ le32 e1 @ le32 7
    \<and> branch_dest 0x100003f34 e1 = 0x100003f18
    \<and> hdr = le32 h0 @ le32 h1 @ le32 encode_stp_x16_x17_sp_preindex @ le32 h3 @ le32 h4 @ le32 0xd61f0200
    \<and> adrp_dest 0x100003f18 h0 + access_offset h1 = 0x100008008
    \<and> adrp_dest 0x100003f24 h3 + access_offset h4 = 0x100004000"
proof -
  have add: "add_u64 0x100003f30 4 = Ok 0x100003f34" "add_u64 0x100003f18 12 = Ok 0x100003f24"
    by (simp_all add: add_u64_def)
  have e: "encode_adrp_reg 16 0x100003f00 0x100008000 = Ok 0xb0000030"
      "encode_ldr_x_reg_pageoff 16 0x100008000 = Ok 0xf9400210"
      "encode_branch26 0x100003f34 0x100003f18 = Ok 0x17fffff9"
      "encode_adrp_reg 17 0x100003f18 0x100008008 = Ok 0xb0000031"
      "encode_add_x_reg_pageoff 17 0x100008008 = Ok 0x91002231"
      "encode_adrp_reg 16 0x100003f24 0x100004000 = Ok 0xb0000010"
      "encode_ldr_x_reg_pageoff 16 0x100004000 = Ok 0xf9400210"
    by code_simp+
  obtain st where st: "encode_stub 0x100003f00 0x100008000 = Ok st" using e by (simp add: encode_stub_def)
  obtain en where en: "encode_stub_helper_entry 0x100003f30 0x100003f18 7 = Ok en"
    using e add by (simp add: encode_stub_helper_entry_def)
  obtain hdr where hdr: "encode_stub_helper_header 0x100003f18 0x100008008 0x100004000 = Ok hdr"
    using e add by (simp add: encode_stub_helper_header_def)
  have "(0x100003f30 :: u64) + 4 = 0x100003f34" "(0x100003f18 :: u64) + 12 = 0x100003f24" by simp_all
  then show ?thesis using lazy_binding_path [OF st en hdr] st en hdr by (metis (no_types, lifting))
qed

theorem unsigned_pointer_value_witness:
  "\<exists>b'. patch_unsigned [8, 0, 0, 0, 0, 0, 0, 0] 0 (call_reloc Unsigned Quad) 0x100004000 = Ok b'
     \<and> read_u64 b' 0 Unsigned = Ok (of_int (uint (0x100004000 :: u64) + sint (0 :: u64) + sint (8 :: u64)))
     \<and> length b' = length [8 :: u8, 0, 0, 0, 0, 0, 0, 0]"
proof -
  let ?r = "call_reloc Unsigned Quad"
  have "read_implicit_addend [8, 0, 0, 0, 0, 0, 0, 0] 0 (rel_length ?r) (rel_kind ?r) = Ok 8" by code_simp
  then show ?thesis
    using unsigned_pointer_value [of "[8, 0, 0, 0, 0, 0, 0, 0]" 0 ?r 8, where target = "0x100004000"]
    by (simp add: call_reloc_def)
qed

end
