(* ===== verification/Export_Trie.thy ===== *)
theory Export_Trie
  imports Exports Order
begin

text \<open>
  The export-trie builder of \<^verbatim>\<open>src/synth/dyld_info.rs\<close>: sorted entries are flattened to nodes in
  preorder, node offsets are iterated until they no longer change (an offset is stored in a number
  of bytes that depends on it), and the nodes are emitted. The results connect it with the reader of
  \<^theory_text>\<open>Exports\<close>: the loop converges, and a lookup in the built bytes finds exactly the entries built.
  Offsets and sizes are natural numbers; \<^verbatim>\<open>total_size\<close> only reserves capacity and is left out. A child
  index always names a node and the offset vector has one slot per node (\<open>flatten_nodes\<close>), so the
  indexing of \<^verbatim>\<open>offsets\<close> never fails.
\<close>

section \<open>Payloads and node sizes\<close>

text \<open>The builder returns no error value; it can only panic.\<close>

type_synonym 'a total = "(unit, 'a) result"

record flat_trie_node =
  tn_payload :: bytes
  tn_children :: "(str \<times> nat) list"

fun kind_payload :: "export_kind \<Rightarrow> bytes" where
  "kind_payload (ERegular a) = write_uleb a"
| "kind_payload (EThreadLocal a) = write_uleb a"
| "kind_payload (EAbsolute a) = write_uleb a"
| "kind_payload (EReexport ord imported) = write_uleb (ucast ord) @ imported @ [0]"
| "kind_payload (EStubAndResolver stub resolver) = write_uleb stub @ write_uleb resolver"

definition terminal_payload :: "export_entry option \<Rightarrow> bytes" where
  "terminal_payload e =
     (case e of None \<Rightarrow> [] | Some e \<Rightarrow> write_uleb (ex_flags e) @ kind_payload (ex_kind e))"

function uleb_size :: "u64 \<Rightarrow> nat" where
  "uleb_size v = (if v \<ge> 0x80 then uleb_size (drop_bit 7 v) + 1 else 1)"
  by auto
termination
proof (relation "measure unat", goal_cases)
  case (2 v)
  then have "128 \<le> unat v" by (simp add: word_le_nat_alt)
  then have "unat v div 2 ^ 7 < unat v" by simp
  then show ?case by (simp add: drop_bit_eq_div unat_div_distrib)
qed simp

declare uleb_size.simps [simp del]

definition trie_node_size :: "flat_trie_node \<Rightarrow> nat list \<Rightarrow> nat" where
  "trie_node_size node offsets =
     uleb_size (of_nat (length (tn_payload node))) + length (tn_payload node) + 1
     + (\<Sum>(edge, child) \<leftarrow> tn_children node. length edge + 1 + uleb_size (of_nat (offsets ! child)))"

definition emit_trie_node :: "flat_trie_node \<Rightarrow> nat list \<Rightarrow> bytes total" where
  "emit_trie_node node offsets =
     (if length (tn_children node) \<le> 255 then
        Ok (write_uleb (of_nat (length (tn_payload node))) @ tn_payload node
            @ [of_nat (length (tn_children node))]
            @ concat (map (\<lambda>(edge, child). edge @ [0] @ write_uleb (of_nat (offsets ! child))) (tn_children node)))
      else Panic)"

section \<open>Flattening\<close>

function match_from :: "bytes \<Rightarrow> bytes \<Rightarrow> nat \<Rightarrow> nat \<Rightarrow> nat" where
  "match_from first bs len idx =
     (if idx < len \<and> first ! idx = bs ! idx then match_from first bs len (idx + 1) else idx)"
  by auto
termination
  by (relation "measure (\<lambda>(_, _, len, idx). len - idx)") auto

declare match_from.simps [simp del]

fun common_prefix_len :: "export_entry list \<Rightarrow> nat \<Rightarrow> nat total" where
  "common_prefix_len [] start = Panic"
| "common_prefix_len (e # es) start =
     Ok (foldl (\<lambda>len x. match_from (ex_name e) (ex_name x) (min len (length (ex_name x))) start)
           (length (ex_name e)) es)"

text \<open>The entries from here on whose byte at \<open>p\<close> is \<open>edge\<close>, and the rest.\<close>

fun split_group :: "nat \<Rightarrow> u8 \<Rightarrow> export_entry list \<Rightarrow> (export_entry list \<times> export_entry list) total" where
  "split_group p edge [] = Ok ([], [])"
| "split_group p edge (e # es) =
     rbind (index (ex_name e) p) (\<lambda>b.
     if b = edge then rbind (split_group p edge es) (\<lambda>(g, r). Ok (e # g, r)) else Ok ([], e # es))"

lemma split_group_append: "split_group p b es = Ok (g, r) \<Longrightarrow> es = g @ r"
  by (induction es arbitrary: g r) (auto simp: rbind_Ok_iff split: if_splits)

lemma match_from_ge: "idx \<le> match_from f b len idx"
proof (induction f b len idx rule: match_from.induct)
  case (1 f b len idx)
  then show ?case by (subst match_from.simps) auto
qed

lemma common_prefix_len_ge:
  "common_prefix_len (e # es) start = Ok n \<Longrightarrow> start \<le> length (ex_name e) \<Longrightarrow> start \<le> n"
proof -
  assume "common_prefix_len (e # es) start = Ok n" and "start \<le> length (ex_name e)"
  moreover have "start \<le> k \<Longrightarrow>
      start \<le> foldl (\<lambda>len x. match_from f (ex_name x) (min len (length (ex_name x))) start) k xs" for f k xs
    by (induction xs arbitrary: k) (auto intro: match_from_ge)
  ultimately show ?thesis by auto
qed

definition names_left :: "nat \<Rightarrow> export_entry list \<Rightarrow> nat" where
  "names_left p es = (\<Sum>e \<leftarrow> es. Suc (length (ex_name e)) - p)"

lemma names_left_simps [simp]:
  "names_left p [] = 0" "names_left p (e # es) = (Suc (length (ex_name e)) - p) + names_left p es"
  "names_left p (es @ fs) = names_left p es + names_left p fs"
  by (simp_all add: names_left_def)

lemma names_left_mono: "p \<le> q \<Longrightarrow> names_left q es \<le> names_left p es"
  by (induction es) auto

lemma names_left_dropWhile: "names_left p (dropWhile P es) \<le> names_left p es"
  by (induction es) auto

function (sequential) flatten ::
    "export_entry list \<Rightarrow> nat \<Rightarrow> flat_trie_node list \<Rightarrow> (flat_trie_node list \<times> nat) total"
  and flatten_groups :: "export_entry list \<Rightarrow> nat \<Rightarrow> flat_trie_node list \<Rightarrow> (str \<times> nat) list
        \<Rightarrow> (flat_trie_node list \<times> (str \<times> nat) list) total"
where
  "flatten es p flat =
     (let nid = length flat;
          terminals = takeWhile (\<lambda>e. length (ex_name e) = p) es;
          terminal = (if terminals = [] then None else Some (last terminals)) in
      rbind (flatten_groups (dropWhile (\<lambda>e. length (ex_name e) = p) es) p
               (flat @ [\<lparr>tn_payload = terminal_payload terminal, tn_children = []\<rparr>]) [])
        (\<lambda>(flat', children). Ok (flat'[nid := (flat' ! nid)\<lparr>tn_children := children\<rparr>], nid)))"
| "flatten_groups [] p flat children = Ok (flat, children)"
| "flatten_groups (e # es) p flat children =
     rbind (index (ex_name e) p) (\<lambda>edge.
     rbind (split_group p edge es) (\<lambda>(g, rest).
     rbind (common_prefix_len (e # g) (p + 1)) (\<lambda>label_end.
     let label = take (label_end - p) (drop p (ex_name e)) in
     if \<not> utf8_valid label then Panic
     else
       rbind (flatten (e # g) label_end flat) (\<lambda>(flat', child_id).
       flatten_groups rest p flat' (children @ [(label, child_id)])))))"
  by pat_completeness auto
termination
proof (relation "measure (case_sum (\<lambda>(es, p, _). 2 * names_left p es + 1) (\<lambda>(es, p, _, _). 2 * names_left p es))",
    goal_cases)
  case 1
  then show ?case by simp
next
  case (2 es p flat x xa xb)
  then show ?case using names_left_dropWhile [of p "\<lambda>e. length (ex_name e) = p" es] by simp
next
  case (3 e es p flat children b x g rest n label)
  then have len: "p < length (ex_name e)" and es: "es = g @ rest"
    by (auto simp: index_def dest: split_group_append split: if_splits)
  with 3 have "p + 1 \<le> n" using common_prefix_len_ge [of e g "p + 1" n] by simp
  then show ?case using names_left_mono [of p n g] len es by simp
next
  case (4 e es p flat children b x g rest n label)
  then have "p < length (ex_name e)" and "es = g @ rest"
    by (auto simp: index_def dest: split_group_append split: if_splits)
  then show ?case by simp
qed

declare flatten.simps [simp del]

section \<open>Offsets and emission\<close>

fun offsets_pass :: "flat_trie_node list \<Rightarrow> nat \<Rightarrow> nat \<Rightarrow> nat list \<Rightarrow> bool \<Rightarrow> nat list \<times> bool" where
  "offsets_pass [] idx cursor offsets changed = (offsets, changed)"
| "offsets_pass (node # nodes) idx cursor offsets changed =
     (let (offsets', changed') =
            (if offsets ! idx \<noteq> cursor then (offsets[idx := cursor], True) else (offsets, changed)) in
      offsets_pass nodes (idx + 1) (cursor + trie_node_size node offsets') offsets' changed')"

partial_function (option) offsets_loop :: "flat_trie_node list \<Rightarrow> nat list \<Rightarrow> nat list option" where
  "offsets_loop nodes offsets =
     (case offsets_pass nodes 0 0 offsets False of
        (offsets', changed) \<Rightarrow> if changed then offsets_loop nodes offsets' else Some offsets')"

declare offsets_loop.simps [code]

text \<open>\<^const>\<open>None\<close> stands for a loop that does not end.\<close>

definition build_export_trie :: "export_entry list \<Rightarrow> bytes total option" where
  "build_export_trie entries =
     (if entries = [] then Some (Ok [])
      else
        let sorted = sort_by (\<lambda>a b. cmp_bytes (ex_name a) (ex_name b)) entries in
        case flatten sorted 0 [] of
          Ok (nodes, _) \<Rightarrow>
            (case offsets_loop nodes (replicate (length nodes) 0) of
               None \<Rightarrow> None
             | Some offsets \<Rightarrow> Some (rmap concat (mapM (\<lambda>n. emit_trie_node n offsets) nodes)))
        | Err e \<Rightarrow> Some (Err e)
        | Panic \<Rightarrow> Some Panic)"

section \<open>Reading what was written\<close>

lemma drop_bit_7_zero: "drop_bit 7 (v :: u64) = 0 \<longleftrightarrow> \<not> v \<ge> 0x80"
proof -
  have "drop_bit 7 v = 0 \<longleftrightarrow> unat v div 128 = 0"
    by (simp add: word_unat_eq_iff drop_bit_eq_div unat_div_distrib)
  also have "\<dots> \<longleftrightarrow> unat v < 128" by auto
  finally show ?thesis by (simp add: word_le_nat_alt not_le)
qed

lemma uleb_size_eq: "uleb_size v = length (write_uleb v)"
proof (induction v rule: uleb_size.induct)
  case (1 v)
  show ?case
  proof (cases "v \<ge> 0x80")
    case True
    then have ne: "drop_bit 7 v \<noteq> 0" using drop_bit_7_zero [of v] by blast
    show ?thesis using 1 [OF True] True unfolding uleb_size.simps [of v] write_uleb_step [OF ne] by simp
  next
    case False
    then have "drop_bit 7 v = 0" using drop_bit_7_zero [of v] by blast
    then show ?thesis using False by (simp only: uleb_size.simps [of v] write_uleb_last) simp
  qed
qed

lemma read_uleb_at_written:
  "n = length pre \<Longrightarrow> read_uleb_at (pre @ write_uleb v @ post) n = Ok (v, length (write_uleb v))"
  by (simp add: read_uleb_at_def read_write_uleb)

lemma read_cstring_written:
  assumes "n = length pre" and "utf8_valid s" and "0 \<notin> set s"
  shows "read_cstring_with_len (pre @ s @ 0 # post) n = Ok (s, length s + 1)"
proof -
  have "position (\<lambda>b. b = 0) (s @ 0 # post) = Some (length s)"
    using assms(3) by (intro position_prefix) auto
  then show ?thesis using assms(1,2) by (simp add: read_cstring_with_len_def)
qed

text \<open>An entry whose flags announce its kind, as every entry the linker exports has them.\<close>

fun kind_ok :: "u64 \<Rightarrow> export_kind \<Rightarrow> bool" where
  "kind_ok f (ERegular a) \<longleftrightarrow> f AND 8 = 0 \<and> f AND 0x10 = 0 \<and> f AND 3 \<noteq> 1 \<and> f AND 3 \<noteq> 2"
| "kind_ok f (EThreadLocal a) \<longleftrightarrow> f AND 8 = 0 \<and> f AND 0x10 = 0 \<and> f AND 3 = 1"
| "kind_ok f (EAbsolute a) \<longleftrightarrow> f AND 8 = 0 \<and> f AND 0x10 = 0 \<and> f AND 3 = 2"
| "kind_ok f (EReexport ord nm) \<longleftrightarrow> f AND 8 \<noteq> 0 \<and> utf8_valid nm \<and> 0 \<notin> set nm"
| "kind_ok f (EStubAndResolver s r) \<longleftrightarrow> f AND 8 = 0 \<and> f AND 0x10 \<noteq> 0"

lemma ucast_u32_u64: "ucast (ucast (w :: u32) :: u64) = w"
  by (rule bit_word_eqI) (auto simp: bit_simps)

lemma read_kind_written:
  assumes "kind_ok f k" and "n = length pre"
  shows "read_kind (pre @ kind_payload k) f n = Ok k"
proof (cases k)
  case (EReexport ord nm)
  let ?u = "write_uleb (ucast ord)"
  have "read_cstring_with_len ((pre @ ?u) @ nm @ 0 # []) (n + length ?u) = Ok (nm, length nm + 1)"
    using assms EReexport by (intro read_cstring_written) auto
  then show ?thesis
    using assms EReexport read_uleb_at_written [of n pre "ucast ord" "nm @ [0]"]
    by (simp add: read_kind_def ucast_u32_u64)
next
  case (EStubAndResolver st rs)
  then show ?thesis
    using assms read_uleb_at_written [of n pre st "write_uleb rs"]
      read_uleb_at_written [of "n + length (write_uleb st)" "pre @ write_uleb st" rs "[]"]
    by (simp add: read_kind_def)
qed (use assms read_uleb_at_written [of n pre _ "[]"] in \<open>simp_all add: read_kind_def\<close>)

text \<open>What the reader sees at a node: \<open>node_at\<close> says the bytes at \<open>off\<close> are that node's encoding.\<close>

definition node_at :: "bytes \<Rightarrow> nat \<Rightarrow> bytes \<Rightarrow> bytes \<Rightarrow> bool" where
  "node_at trie off payload tail \<longleftrightarrow> off \<le> length trie \<and>
     drop off trie = write_uleb (of_nat (length payload)) @ payload @ tail"

definition node_end :: "nat \<Rightarrow> bytes \<Rightarrow> nat" where
  "node_end off payload = off + length (write_uleb (of_nat (length payload))) + length payload"

lemma node_at_split:
  assumes "node_at trie off payload tail"
  shows "trie = take off trie @ write_uleb (of_nat (length payload)) @ payload @ tail"
    and "length (take off trie) = off" and "node_end off payload + length tail = length trie"
proof -
  show 1: "trie = take off trie @ write_uleb (of_nat (length payload)) @ payload @ tail"
    using assms append_take_drop_id [of off trie] by (simp add: node_at_def)
  show 2: "length (take off trie) = off" using assms by (simp add: node_at_def)
  show "node_end off payload + length tail = length trie"
    using arg_cong [OF 1, of length] 2 by (simp add: node_end_def)
qed

lemma terminal_bounds_written:
  assumes "node_at trie off payload tail" and "length trie < 2 ^ 63"
  shows "terminal_bounds trie off = Ok (off + length (write_uleb (of_nat (length payload))), node_end off payload)"
proof -
  note s = node_at_split [OF assms(1)]
  have "length payload < 2 ^ 63" using s(3) assms(2) by (simp add: node_end_def)
  then have u: "unat (of_nat (length payload) :: u64) = length payload" by (simp add: unat_of_nat)
  have "read_uleb_at trie off = Ok (of_nat (length payload), length (write_uleb (of_nat (length payload))))"
    using read_uleb_at_written [of off "take off trie" "of_nat (length payload)" "payload @ tail"] s(1,2) by simp
  then show ?thesis
    using s(3) assms(2) u by (simp add: terminal_bounds_def Let_def checked_add_def usize_max_def node_end_def)
qed

lemma skip_terminal_written:
  "node_at trie off payload tail \<Longrightarrow> length trie < 2 ^ 63 \<Longrightarrow> skip_terminal trie off = Ok (node_end off payload)"
  by (simp add: skip_terminal_def terminal_bounds_written)

lemma read_terminal_written:
  assumes "node_at trie off (terminal_payload e) tail" and "length trie < 2 ^ 63"
    and "pred_option (\<lambda>e. kind_ok (ex_flags e) (ex_kind e)) e"
  shows "read_terminal trie off acc = Ok (map_option (\<lambda>e. e\<lparr>ex_name := acc\<rparr>) e)"
proof (cases e)
  case None
  then show ?thesis
    using terminal_bounds_written [OF assms(1,2)] by (simp add: read_terminal_def terminal_payload_def node_end_def)
next
  case (Some x)
  let ?p = "terminal_payload e"
  let ?u = "write_uleb (of_nat (length ?p))"
  note s = node_at_split [OF assms(1)]
  let ?pre = "take off trie @ ?u"
  have pre: "length ?pre = off + length ?u" using s(2) by simp
  have pl: "?p = write_uleb (ex_flags x) @ kind_payload (ex_kind x)" using Some by (simp add: terminal_payload_def)
  have ne: "?p \<noteq> []" by (simp add: pl write_uleb_nonempty)
  have trie: "trie = (?pre @ ?p) @ tail" using s(1) by simp
  have tk: "take (node_end off ?p) trie = ?pre @ ?p"
  proof -
    have "length (?pre @ ?p) = node_end off ?p" using pre by (simp add: node_end_def)
    then show ?thesis using append_eq_conv_conj [of "?pre @ ?p" tail trie] trie by metis
  qed
  have r: "read_uleb_at (?pre @ ?p) (off + length ?u) = Ok (ex_flags x, length (write_uleb (ex_flags x)))"
    using read_uleb_at_written [of "off + length ?u" ?pre "ex_flags x" "kind_payload (ex_kind x)"] pre pl by simp
  have k: "read_kind (?pre @ ?p) (ex_flags x) (off + length ?u + length (write_uleb (ex_flags x))) = Ok (ex_kind x)"
    using read_kind_written [of "ex_flags x" "ex_kind x" _ "?pre @ write_uleb (ex_flags x)"] assms(3) Some pre pl
    by (simp add: add.assoc)
  have le: "node_end off ?p \<le> length trie" using s(3) by simp
  have "off + length ?u \<noteq> node_end off ?p" using ne by (simp add: node_end_def)
  then show ?thesis
    using terminal_bounds_written [OF assms(1,2)] le tk r k Some by (simp add: read_terminal_def)
qed

section \<open>Children\<close>

definition child_bytes :: "nat list \<Rightarrow> str \<times> nat \<Rightarrow> bytes" where
  "child_bytes offsets = (\<lambda>(edge, child). edge @ [0] @ write_uleb (of_nat (offsets ! child)))"

definition starts_with :: "bytes \<Rightarrow> bytes \<Rightarrow> bool" where
  "starts_with rem l \<longleftrightarrow> length l \<le> length rem \<and> take (length l) rem = l"

definition child_step ::
  "bytes \<Rightarrow> nat list \<Rightarrow> (str \<times> nat) list \<Rightarrow> bytes \<Rightarrow> nat \<Rightarrow> export_entry option read" where
  "child_step trie offsets children rem d =
     (case find (\<lambda>(l, _). starts_with rem l) children of
        None \<Rightarrow> Ok None
      | Some (l, c) \<Rightarrow> trie_lookup trie (offsets ! c) (drop (length l) rem) (d + 1))"

lemma child_step_simps [simp]:
  "child_step trie offsets [] rem d = Ok None"
  "child_step trie offsets ((l, c) # ch) rem d =
     (if starts_with rem l then trie_lookup trie (offsets ! c) (drop (length l) rem) (d + 1)
      else child_step trie offsets ch rem d)"
  by (simp_all add: child_step_def)

definition label_ok :: "str \<Rightarrow> bool" where
  "label_ok l \<longleftrightarrow> utf8_valid l \<and> 0 \<notin> set l \<and> l \<noteq> []"

lemma lookup_children_written:
  assumes "trie = pre @ concat (map (child_bytes offsets) ch) @ post" and "cur = length pre"
    and "\<forall>(l, c) \<in> set ch. label_ok l \<and> offsets ! c < 2 ^ 64"
  shows "lookup_children trie (length ch) cur rem d = child_step trie offsets ch rem d"
  using assms
proof (induction ch arbitrary: pre cur)
  case (Cons x ch)
  obtain l c where x: "x = (l, c)" by (cases x)
  let ?u = "write_uleb (of_nat (offsets ! c))"
  let ?post = "concat (map (child_bytes offsets) ch) @ post"
  have ok: "label_ok l" "offsets ! c < 2 ^ 64" using Cons.prems(3) x by auto
  have t: "trie = pre @ l @ 0 # ?u @ ?post" using Cons.prems(1) x by (simp add: child_bytes_def)
  have 1: "read_cstring_with_len trie cur = Ok (l, length l + 1)"
    unfolding t using ok Cons.prems(2) by (intro read_cstring_written) (auto simp: label_ok_def)
  have 2: "read_uleb_at trie (cur + (length l + 1)) = Ok (of_nat (offsets ! c), length ?u)"
    using read_uleb_at_written [of "cur + (length l + 1)" "pre @ l @ [0]" _ ?post] Cons.prems(2) t by simp
  have 3: "unat (of_nat (offsets ! c) :: u64) = offsets ! c" using ok(2) by (simp add: unat_of_nat)
  have "lookup_children trie (length ch) (cur + (length l + 1) + length ?u) rem d = child_step trie offsets ch rem d"
    by (rule Cons.IH [of "pre @ l @ 0 # ?u"]) (use Cons.prems x t in \<open>auto simp: child_bytes_def\<close>)
  then show ?case using 1 2 3 x by (simp add: starts_with_def)
qed simp

section \<open>Layout\<close>

text \<open>Offsets agree with the sizes of the nodes before them: the state in which the loop stops.\<close>

definition settled :: "flat_trie_node list \<Rightarrow> nat list \<Rightarrow> bool" where
  "settled nodes offsets \<longleftrightarrow> length offsets = length nodes \<and>
     (\<forall>i < length nodes. offsets ! i = (\<Sum>n \<leftarrow> take i nodes. trie_node_size n offsets))"

lemma pass_unchanged:
  "snd (offsets_pass ns idx cur offs ch) = False \<Longrightarrow>
   \<not> ch \<and> fst (offsets_pass ns idx cur offs ch) = offs \<and>
   (\<forall>i < length ns. offs ! (idx + i) = cur + (\<Sum>n \<leftarrow> take i ns. trie_node_size n offs))"
proof (induction ns idx cur offs ch rule: offsets_pass.induct)
  case (2 n ns idx cur offs ch)
  have flag: "snd (offsets_pass ns i c offs True)" for ns i c offs
    by (induction ns i c offs True rule: offsets_pass.induct) (auto simp: Let_def)
  have eq: "offs ! idx = cur" using "2.prems" flag by (auto simp: Let_def split: if_splits)
  then have "snd (offsets_pass ns (idx + 1) (cur + trie_node_size n offs) offs ch) = False"
    using "2.prems" by simp
  from "2.IH" [OF _ _ this] eq have
    ih: "\<not> ch" "fst (offsets_pass ns (idx + 1) (cur + trie_node_size n offs) offs ch) = offs"
      "\<forall>i < length ns. offs ! (idx + 1 + i) = cur + trie_node_size n offs + (\<Sum>n \<leftarrow> take i ns. trie_node_size n offs)"
    by auto
  have "offs ! (idx + i) = cur + (\<Sum>n \<leftarrow> take i (n # ns). trie_node_size n offs)" if "i < length (n # ns)" for i
    using that eq ih(3) by (cases i) auto
  then show ?case using ih(1,2) eq by simp
qed simp

lemma pass_length: "length (fst (offsets_pass ns idx cur offs ch)) = length offs"
  by (induction ns idx cur offs ch rule: offsets_pass.induct) (auto simp: Let_def)

lemma loop_settled:
  assumes "offsets_loop nodes offs = Some offs'" and "length offs = length nodes"
  shows "settled nodes offs'"
proof -
  have "length offs = length nodes \<longrightarrow> settled nodes offs'"
  proof (rule offsets_loop.raw_induct [OF _ assms(1)], goal_cases)
    case (1 f nodes offs offs')
    obtain o' ch where p: "offsets_pass nodes 0 0 offs False = (o', ch)" by fastforce
    show ?case
    proof (cases ch)
      case True
      then show ?thesis using 1 p pass_length [of nodes 0 0 offs False] by simp
    next
      case False
      then show ?thesis using 1 p pass_unchanged [of nodes 0 0 offs False] by (simp add: settled_def)
    qed
  qed
  then show ?thesis using assms(2) by blast
qed


lemma emit_length:
  "emit_trie_node n offs = Ok b \<Longrightarrow> length b = trie_node_size n offs"
  by (auto simp: emit_trie_node_def trie_node_size_def uleb_size_eq length_concat comp_def
      case_prod_unfold intro!: arg_cong [where f = sum_list] split: if_splits)

lemma emitted_node:
  assumes "mapM (\<lambda>n. emit_trie_node n offs) nodes = Ok bs" and "settled nodes offs" and "i < length nodes"
  shows "drop (offs ! i) (concat bs) = bs ! i @ concat (drop (Suc i) bs)"
    and "offs ! i \<le> length (concat bs)" and "emit_trie_node (nodes ! i) offs = Ok (bs ! i)"
proof -
  have len: "length bs = length nodes" using assms(1) by (rule mapM_Ok_length)
  have emit: "emit_trie_node (nodes ! k) offs = Ok (bs ! k)" if "k < length nodes" for k
    using mapM_Ok_nth [OF assms(1) that] .
  have "map length (take i bs) = map (\<lambda>n. trie_node_size n offs) (take i nodes)"
    using len assms(3) emit_length [OF emit] by (intro nth_equalityI) auto
  then have off: "length (concat (take i bs)) = offs ! i"
    using assms(2,3) by (simp add: settled_def length_concat)
  have split: "concat bs = concat (take i bs) @ bs ! i @ concat (drop (Suc i) bs)"
    using assms(3) len by (metis concat.simps(2) concat_append id_take_nth_drop)
  show "drop (offs ! i) (concat bs) = bs ! i @ concat (drop (Suc i) bs)"
    by (subst split) (simp flip: off)
  show "offs ! i \<le> length (concat bs)" by (subst split) (simp flip: off)
  show "emit_trie_node (nodes ! i) offs = Ok (bs ! i)" using assms(3) by (rule emit)
qed

text \<open>The emitted bytes, as the reader needs them: every node is at its offset.\<close>

definition laid_out :: "bytes \<Rightarrow> flat_trie_node list \<Rightarrow> nat list \<Rightarrow> bool" where
  "laid_out trie nodes offs \<longleftrightarrow> length trie < 2 ^ 63 \<and>
     (\<forall>i < length nodes. length (tn_children (nodes ! i)) \<le> 255 \<and> offs ! i < 2 ^ 64 \<and>
       (\<exists>rest. node_at trie (offs ! i) (tn_payload (nodes ! i))
          (of_nat (length (tn_children (nodes ! i))) # concat (map (child_bytes offs) (tn_children (nodes ! i))) @ rest)))"

lemma emitted_laid_out:
  assumes "mapM (\<lambda>n. emit_trie_node n offs) nodes = Ok bs" and "settled nodes offs"
    and "length (concat bs) < 2 ^ 63"
  shows "laid_out (concat bs) nodes offs"
  unfolding laid_out_def
proof (intro conjI allI impI)
  fix i assume i: "i < length nodes"
  note e = emitted_node [OF assms(1,2) i]
  show "length (tn_children (nodes ! i)) \<le> 255" using e(3) by (auto simp: emit_trie_node_def split: if_splits)
  show "offs ! i < 2 ^ 64" using e(2) assms(3) by simp
  show "\<exists>rest. node_at (concat bs) (offs ! i) (tn_payload (nodes ! i))
      (of_nat (length (tn_children (nodes ! i))) # concat (map (child_bytes offs) (tn_children (nodes ! i))) @ rest)"
    using e by (intro exI [of _ "concat (drop (Suc i) bs)"])
      (auto simp: node_at_def emit_trie_node_def child_bytes_def split: if_splits)
qed (use assms(3) in simp)

lemma node_lookup:
  assumes "laid_out trie nodes offs" and "i < length nodes" and "d \<le> 128"
    and "tn_payload (nodes ! i) = terminal_payload e"
    and "pred_option (\<lambda>e. kind_ok (ex_flags e) (ex_kind e)) e"
    and "\<forall>(l, c) \<in> set (tn_children (nodes ! i)). label_ok l \<and> c < length nodes"
  shows "trie_lookup trie (offs ! i) rem d =
    (if rem = [] then Ok (map_option (\<lambda>e. e\<lparr>ex_name := []\<rparr>) e)
     else child_step trie offs (tn_children (nodes ! i)) rem d)"
proof -
  let ?ch = "tn_children (nodes ! i)"
  let ?off = "offs ! i"
  obtain rest where at: "node_at trie ?off (tn_payload (nodes ! i))
      (of_nat (length ?ch) # concat (map (child_bytes offs) ?ch) @ rest)"
    and small: "length ?ch \<le> 255" and len: "length trie < 2 ^ 63"
    using assms(1,2) by (auto simp: laid_out_def)
  let ?tail = "concat (map (child_bytes offs) ?ch) @ rest"
  let ?e = "node_end ?off (tn_payload (nodes ! i))"
  note s = node_at_split [OF at]
  have tm: "read_terminal trie ?off [] = Ok (map_option (\<lambda>e. e\<lparr>ex_name := []\<rparr>) e)"
    using at assms(4) by (intro read_terminal_written [OF _ len assms(5)]) simp
  have tr: "trie = take ?e trie @ of_nat (length ?ch) # ?tail"
    and el: "length (take ?e trie) = ?e"
  proof -
    let ?hd = "take ?off trie @ write_uleb (of_nat (length (tn_payload (nodes ! i)))) @ tn_payload (nodes ! i)"
    have h: "trie = ?hd @ of_nat (length ?ch) # ?tail" using s(1) by simp
    have "length ?hd = ?e" using s(2) by (simp add: node_end_def)
    then have "take ?e trie = ?hd" using append_eq_conv_conj [of ?hd _ trie] h by metis
    then show "trie = take ?e trie @ of_nat (length ?ch) # ?tail" using h by simp
    show "length (take ?e trie) = ?e" using s(3) by simp
  qed
  have idx: "index trie ?e = (Ok (of_nat (length ?ch)) :: u8 read)" and lt: "?e < length trie"
    using el s(3) by (subst tr, simp add: index_def nth_append, simp)+
  have cnt: "unat (of_nat (length ?ch) :: u8) = length ?ch" using small by (simp add: unat_of_nat)
  have ch: "lookup_children trie (length ?ch) (?e + 1) rem d = child_step trie offs ?ch rem d"
  proof (rule lookup_children_written)
    show "trie = (take ?e trie @ [of_nat (length ?ch)]) @ concat (map (child_bytes offs) ?ch) @ rest"
      using tr by simp
    show "?e + 1 = length (take ?e trie @ [of_nat (length ?ch)])" using el by simp
    show "\<forall>(l, c) \<in> set ?ch. label_ok l \<and> offs ! c < 2 ^ 64"
      using assms(1,6) by (auto simp: laid_out_def)
  qed
  show ?thesis
    unfolding trie_lookup.simps [of trie ?off]
    using assms(3) tm skip_terminal_written [OF at len] idx lt cnt ch by (simp add: option.map_comp comp_def)
qed

section \<open>Groups of a sorted list\<close>

lemma match_from_spec:
  "idx \<le> len \<Longrightarrow> match_from f b len idx \<le> len \<and> (\<forall>k. idx \<le> k \<and> k < match_from f b len idx \<longrightarrow> f ! k = b ! k)"
proof (induction f b len idx rule: match_from.induct)
  case (1 f b len idx)
  show ?case
  proof (cases "idx < len \<and> f ! idx = b ! idx")
    case True
    then have "f ! k = b ! k" if "idx \<le> k" "k < match_from f b len (idx + 1)" for k
      using that 1 by (cases "k = idx") auto
    then show ?thesis using 1 True by (simp add: match_from.simps [of f b len idx])
  next
    case False
    then have "match_from f b len idx = idx" by (subst match_from.simps) auto
    then show ?thesis using "1.prems" by (simp add: not_le [symmetric])
  qed
qed

lemma common_prefix_fold:
  fixes f :: bytes and st :: nat
  assumes "\<forall>x \<in> set xs. st \<le> length (ex_name x)" and "st \<le> k"
  defines "n \<equiv> foldl (\<lambda>len x. match_from f (ex_name x) (min len (length (ex_name x))) st) k xs"
  shows "n \<le> k \<and> (\<forall>x \<in> set xs. n \<le> length (ex_name x) \<and> (\<forall>i. st \<le> i \<and> i < n \<longrightarrow> f ! i = ex_name x ! i))"
  using assms(1,2) unfolding n_def
proof (induction xs arbitrary: k)
  case (Cons x xs)
  let ?m = "match_from f (ex_name x) (min k (length (ex_name x))) st"
  have m: "?m \<le> min k (length (ex_name x))" "\<forall>i. st \<le> i \<and> i < ?m \<longrightarrow> f ! i = ex_name x ! i" "st \<le> ?m"
    using Cons.prems match_from_spec [of st "min k (length (ex_name x))" f "ex_name x"] match_from_ge [of st] by auto
  have ih: "foldl (\<lambda>len x. match_from f (ex_name x) (min len (length (ex_name x))) st) ?m xs \<le> ?m"
      "\<forall>y \<in> set xs. foldl (\<lambda>len x. match_from f (ex_name x) (min len (length (ex_name x))) st) ?m xs \<le> length (ex_name y)
       \<and> (\<forall>i. st \<le> i \<and> i < foldl (\<lambda>len x. match_from f (ex_name x) (min len (length (ex_name x))) st) ?m xs
          \<longrightarrow> f ! i = ex_name y ! i)"
    using Cons.IH [of ?m] Cons.prems m(3) by simp_all
  then show ?case using m by auto
qed simp

text \<open>Entries that agree on their first \<open>p\<close> bytes.\<close>

definition share :: "nat \<Rightarrow> export_entry list \<Rightarrow> bool" where
  "share p es \<longleftrightarrow> (\<exists>q. length q = p \<and> (\<forall>e \<in> set es. p \<le> length (ex_name e) \<and> take p (ex_name e) = q))"

abbreviation by_name :: "export_entry \<Rightarrow> export_entry \<Rightarrow> ordering" where
  "by_name a b \<equiv> cmp_bytes (ex_name a) (ex_name b)"

lemma share_sub: "share p es \<Longrightarrow> set fs \<subseteq> set es \<Longrightarrow> share p fs"
  unfolding share_def by blast

lemma sorted_by_append: "sorted_by c (xs @ ys) \<Longrightarrow> sorted_by c xs \<and> sorted_by c ys"
  by (simp add: sorted_by_def sorted_wrt_append)

lemma cmp_bytes_append [simp]: "cmp_bytes (q @ x) (q @ y) = cmp_bytes x y"
  by (induction q) (simp_all add: cmp_def)

lemma sorted_tail_cmp:
  assumes "share p es" and "sorted_by by_name es" and "i < j" and "j < length es"
  shows "cmp_bytes (drop p (ex_name (es ! i))) (drop p (ex_name (es ! j))) \<noteq> Greater"
proof -
  obtain q where q: "\<And>e. e \<in> set es \<Longrightarrow> take p (ex_name e) = q" using assms(1) by (auto simp: share_def)
  have "by_name (es ! i) (es ! j) \<noteq> Greater"
    using assms(2-4) by (simp add: sorted_by_def sorted_wrt_iff_nth_less)
  moreover have "ex_name (es ! i) = q @ drop p (ex_name (es ! i))" "ex_name (es ! j) = q @ drop p (ex_name (es ! j))"
    using q [of "es ! i"] q [of "es ! j"] assms(3,4) by (metis append_take_drop_id nth_mem order.strict_trans)+
  ultimately show ?thesis using cmp_bytes_append by metis
qed

lemma after_terminals_longer:
  assumes "share p es" and "sorted_by by_name es" and "x \<in> set (dropWhile (\<lambda>e. length (ex_name e) = p) es)"
  shows "p < length (ex_name x)"
proof -
  let ?P = "\<lambda>e. length (ex_name e) = p"
  let ?d = "dropWhile ?P es"
  have d: "set ?d \<subseteq> set es" by (auto dest: set_dropWhileD)
  have len: "p \<le> length (ex_name e)" if "e \<in> set ?d" for e using that d assms(1) by (auto simp: share_def)
  have sd: "sorted_by by_name ?d"
    using assms(2) sorted_by_append [of by_name "takeWhile ?P es" ?d] by simp
  obtain j where j: "j < length ?d" "x = ?d ! j" using assms(3) by (metis in_set_conv_nth)
  have hd: "\<not> ?P (?d ! 0)" using j hd_dropWhile [of ?P es] by (metis hd_conv_nth length_pos_if_in_set assms(3) length_greater_0_conv)
  show ?thesis
  proof (cases "j = 0")
    case True
    then show ?thesis using hd j len [of x] assms(3) by auto
  next
    case False
    have "cmp_bytes (drop p (ex_name (?d ! 0))) (drop p (ex_name x)) \<noteq> Greater"
      using sorted_tail_cmp [OF share_sub [OF assms(1) d] sd, of 0 j] False j by simp
    moreover have "drop p (ex_name (?d ! 0)) \<noteq> []"
      using hd len [OF nth_mem, of 0] j by fastforce
    ultimately have "drop p (ex_name x) \<noteq> []" by (cases "drop p (ex_name (?d ! 0))") auto
    then show ?thesis by auto
  qed
qed

lemma cmp_hd: "cmp_bytes xs ys \<noteq> Greater \<Longrightarrow> xs \<noteq> [] \<Longrightarrow> ys \<noteq> [] \<Longrightarrow> hd xs \<le> hd ys"
  by (cases xs; cases ys) (auto simp: cmp_def split: if_splits)

lemma split_group_spec:
  "split_group p b es = Ok (g, r) \<Longrightarrow>
   (\<forall>x \<in> set g. p < length (ex_name x) \<and> ex_name x ! p = b) \<and> (r \<noteq> [] \<longrightarrow> ex_name (hd r) ! p \<noteq> b)"
  by (induction es arbitrary: g r) (auto simp: rbind_Ok_iff index_def split: if_splits)

lemma group_split_sorted:
  assumes "share p (e # es)" and "sorted_by by_name (e # es)"
    and "\<forall>x \<in> set (e # es). p < length (ex_name x)" and "split_group p (ex_name e ! p) es = Ok (g, r)"
  shows "\<forall>x \<in> set r. ex_name x ! p \<noteq> ex_name e ! p"
proof
  fix x assume x: "x \<in> set r"
  let ?t = "\<lambda>x. drop p (ex_name x)"
  have es: "es = g @ r" using assms(4) by (rule split_group_append)
  have hd: "hd (?t y) = ex_name y ! p" "?t y \<noteq> []" if "y \<in> set (e # es)" for y
    using that assms(3) by (auto simp: hd_drop_conv_nth)
  have rne: "r \<noteq> []" using x by auto
  have mem: "hd r \<in> set (e # es)" "x \<in> set (e # es)" using x es rne by auto
  have ne: "ex_name (hd r) ! p \<noteq> ex_name e ! p" using split_group_spec [OF assms(4)] rne by blast
  have "cmp_bytes (?t e) (?t (hd r)) \<noteq> Greater"
    using sorted_tail_cmp [OF assms(1,2), of 0 "Suc (length g)"] rne es by (simp add: nth_append hd_conv_nth)
  then have 1: "ex_name e ! p \<le> ex_name (hd r) ! p" using cmp_hd hd mem by fastforce
  have "cmp_bytes (?t (hd r)) (?t x) \<noteq> Greater \<or> x = hd r"
  proof -
    obtain j where j: "j < length r" "x = r ! j" using x by (metis in_set_conv_nth)
    show ?thesis
      using sorted_tail_cmp [OF assms(1,2), of "Suc (length g)" "Suc (length g + j)"] j es rne
      by (cases "j = 0") (auto simp: nth_append hd_conv_nth)
  qed
  then have "ex_name (hd r) ! p \<le> ex_name x ! p" using cmp_hd hd mem by fastforce
  with 1 ne show "ex_name x ! p \<noteq> ex_name e ! p" by auto
qed

lemma label_shared:
  assumes "share p (e # es)" and "\<forall>x \<in> set (e # es). p < length (ex_name x)"
    and "split_group p (ex_name e ! p) es = Ok (g, r)" and "common_prefix_len (e # g) (p + 1) = Ok n"
  shows "share n (e # g)" and "p < n" and "n \<le> length (ex_name e)"
proof -
  have es: "es = g @ r" using assms(3) by (rule split_group_append)
  have g: "\<forall>x \<in> set g. p + 1 \<le> length (ex_name x)" "\<forall>x \<in> set g. ex_name x ! p = ex_name e ! p"
    using split_group_spec [OF assms(3)] by auto
  have c: "n \<le> length (ex_name e)" "\<forall>x \<in> set g. n \<le> length (ex_name x)
      \<and> (\<forall>i. p + 1 \<le> i \<and> i < n \<longrightarrow> ex_name e ! i = ex_name x ! i)"
    using common_prefix_fold [OF g(1), of "length (ex_name e)" "ex_name e"] assms(2,4) by auto
  show n: "p < n" using common_prefix_len_ge [OF assms(4)] assms(2) by simp
  show "n \<le> length (ex_name e)" by (rule c)
  have "take n (ex_name x) = take n (ex_name e)" if x: "x \<in> set g" for x
  proof (rule nth_take_lemma, unfold atomize_all [symmetric] atomize_imp [symmetric])
    obtain q where q: "\<forall>y \<in> set (e # es). take p (ex_name y) = q" using assms(1) by (auto simp: share_def)
    show "n \<le> length (ex_name x)" "n \<le> length (ex_name e)" using c x by auto
    have pre: "take p (ex_name x) = take p (ex_name e)" using q x es by auto
    show "ex_name x ! i = ex_name e ! i" if "i < n" for i
    proof -
      consider "i < p" | "i = p" | "p + 1 \<le> i" by linarith
      then show ?thesis
      proof cases
        case 1
        then show ?thesis using arg_cong [OF pre, of "\<lambda>l. l ! i"] by simp
      qed (use g(2) c(2) x that in auto)
    qed
  qed
  then show "share n (e # g)"
    unfolding share_def using c by (intro exI [of _ "take n (ex_name e)"]) auto
qed

section \<open>The flattened nodes\<close>

definition terminal_of :: "nat \<Rightarrow> export_entry list \<Rightarrow> export_entry option" where
  "terminal_of p es =
     (let ts = takeWhile (\<lambda>e. length (ex_name e) = p) es in if ts = [] then None else Some (last ts))"

abbreviation longer :: "nat \<Rightarrow> export_entry list \<Rightarrow> export_entry list" where
  "longer p es \<equiv> dropWhile (\<lambda>e. length (ex_name e) = p) es"

lemma flatten_OkE:
  assumes "flatten es p flat = Ok (flat', i)"
  obtains flat1 ch where
    "flatten_groups (longer p es) p (flat @ [\<lparr>tn_payload = terminal_payload (terminal_of p es), tn_children = []\<rparr>]) []
       = Ok (flat1, ch)"
    and "flat' = flat1[length flat := (flat1 ! length flat)\<lparr>tn_children := ch\<rparr>]" and "i = length flat"
  using assms unfolding flatten.simps Let_def terminal_of_def by (auto simp: rbind_Ok_iff)

abbreviation edge_label :: "export_entry \<Rightarrow> nat \<Rightarrow> nat \<Rightarrow> str" where
  "edge_label e p n \<equiv> take (n - p) (drop p (ex_name e))"

lemma flatten_groups_ConsE:
  assumes "flatten_groups (e # es) p flat ch = Ok (flat', ch')"
  obtains g rest n flat1 cid where
    "p < length (ex_name e)" "split_group p (ex_name e ! p) es = Ok (g, rest)"
    "common_prefix_len (e # g) (p + 1) = Ok n" "utf8_valid (edge_label e p n)"
    "flatten (e # g) n flat = Ok (flat1, cid)"
    "flatten_groups rest p flat1 (ch @ [(edge_label e p n, cid)]) = Ok (flat', ch')"
proof -
  from assms obtain edge g rest n flat1 cid where
    "index (ex_name e) p = (Ok edge :: u8 total)" "split_group p edge es = Ok (g, rest)"
    "common_prefix_len (e # g) (p + 1) = Ok n" "utf8_valid (edge_label e p n)"
    "flatten (e # g) n flat = Ok (flat1, cid)"
    "flatten_groups rest p flat1 (ch @ [(edge_label e p n, cid)]) = Ok (flat', ch')"
    unfolding flatten_groups.simps Let_def by (auto simp: rbind_Ok_iff simp del: common_prefix_len.simps split: if_splits)
  then show thesis using that by (auto simp: index_def simp del: common_prefix_len.simps split: if_splits)
qed

lemma flatten_nodes:
  "flatten es p flat = Ok (flat', i) \<Longrightarrow>
     i = length flat \<and> length flat < length flat' \<and> take (length flat) flat' = flat"
  "flatten_groups es p flat ch = Ok (flat', ch') \<Longrightarrow>
     length flat \<le> length flat' \<and> take (length flat) flat' = flat
     \<and> (\<exists>new. ch' = ch @ new \<and> (\<forall>(l, c) \<in> set new. length flat \<le> c \<and> c < length flat'))"
proof (induction es p flat and es p flat ch arbitrary: flat' i and flat' ch' rule: flatten_flatten_groups.induct)
  case (1 es p flat)
  from "1.prems" obtain flat1 ch where
    g: "flatten_groups (longer p es) p (flat @ [\<lparr>tn_payload = terminal_payload (terminal_of p es), tn_children = []\<rparr>]) []
       = Ok (flat1, ch)"
    and r: "flat' = flat1[length flat := (flat1 ! length flat)\<lparr>tn_children := ch\<rparr>]" "i = length flat"
    by (rule flatten_OkE)
  have 1: "length flat < length flat1" "take (Suc (length flat)) flat1
      = flat @ [\<lparr>tn_payload = terminal_payload (terminal_of p es), tn_children = []\<rparr>]"
    using "1.IH" [OF refl refl refl g [unfolded terminal_of_def Let_def]] by (auto simp: terminal_of_def Let_def)
  have "take (length flat) flat1 = take (length flat) (take (Suc (length flat)) flat1)" by simp
  also have "\<dots> = flat" unfolding 1(2) by simp
  finally have "take (length flat) flat1 = flat" .
  then show ?case using 1 r by simp
next
  case (2 p flat ch)
  then show ?case by simp
next
  case (3 e es p flat ch)
  from "3.prems" obtain g rest n flat1 cid where
    a: "p < length (ex_name e)" "split_group p (ex_name e ! p) es = Ok (g, rest)"
      "common_prefix_len (e # g) (p + 1) = Ok n" "utf8_valid (edge_label e p n)"
      "flatten (e # g) n flat = Ok (flat1, cid)"
      "flatten_groups rest p flat1 (ch @ [(edge_label e p n, cid)]) = Ok (flat', ch')"
    by (rule flatten_groups_ConsE)
  note ix = index_ok [OF a(1)]
  have 1: "cid = length flat" "length flat < length flat1" "take (length flat) flat1 = flat"
    using "3.IH"(1) [OF ix a(2) refl a(3) refl _ a(5)] a(4) by auto
  have 2: "length flat1 \<le> length flat'" "take (length flat1) flat' = flat1"
      "\<exists>new. ch' = (ch @ [(take (n - p) (drop p (ex_name e)), cid)]) @ new
        \<and> (\<forall>(l, c) \<in> set new. length flat1 \<le> c \<and> c < length flat')"
    using "3.IH"(2) [OF ix a(2) refl a(3) refl _ a(5) refl a(6)] a(4) by auto
  have "take (length flat) flat' = take (length flat) (take (length flat1) flat')" using 1(2) by simp
  then have "take (length flat) flat' = flat" using 1 2 by simp
  then show ?case using 1 2 by fastforce
qed

section \<open>Lookup in the built trie\<close>

definition clear_name :: "export_entry \<Rightarrow> export_entry" where
  "clear_name e = e\<lparr>ex_name := []\<rparr>"

text \<open>The entry a lookup of the suffix \<open>rem\<close> below the prefix of length \<open>p\<close> has to find.\<close>

definition found :: "nat \<Rightarrow> export_entry list \<Rightarrow> bytes \<Rightarrow> export_entry option" where
  "found p es rem = map_option clear_name (find (\<lambda>e. drop p (ex_name e) = rem) (rev es))"

definition entry_ok :: "export_entry \<Rightarrow> bool" where
  "entry_ok e \<longleftrightarrow> kind_ok (ex_flags e) (ex_kind e) \<and> 0 \<notin> set (ex_name e)"

definition covers :: "flat_trie_node list \<Rightarrow> nat \<Rightarrow> flat_trie_node list \<Rightarrow> bool" where
  "covers nodes lo flat \<longleftrightarrow> (\<forall>k. lo \<le> k \<and> k < length flat \<longrightarrow> k < length nodes \<and> nodes ! k = flat ! k)"

lemma find_none: "\<forall>x \<in> set xs. \<not> P x \<Longrightarrow> find P xs = None"
  by (simp add: find_None_iff)

lemma find_append: "find P (xs @ ys) = (case find P xs of None \<Rightarrow> find P ys | Some x \<Rightarrow> Some x)"
  by (induction xs) auto

lemma found_append:
  "found p (es @ fs) rem = (case found p fs rem of None \<Rightarrow> found p es rem | Some x \<Rightarrow> Some x)"
  by (simp add: found_def find_append split: option.splits)

lemma found_none: "\<forall>e \<in> set es. drop p (ex_name e) \<noteq> rem \<Longrightarrow> found p es rem = None"
  by (simp add: found_def find_none)

lemma found_terminals: "found p (takeWhile (\<lambda>e. length (ex_name e) = p) es) [] = map_option clear_name (terminal_of p es)"
proof -
  let ?ts = "takeWhile (\<lambda>e. length (ex_name e) = p) es"
  have "\<forall>e \<in> set ?ts. drop p (ex_name e) = []" by (auto dest: set_takeWhileD)
  then show ?thesis
    by (cases ?ts rule: rev_cases) (auto simp: found_def terminal_of_def Let_def)
qed

lemma found_node:
  assumes "share p es" and "sorted_by by_name es"
  shows "found p es rem = (if rem = [] then map_option clear_name (terminal_of p es) else found p (longer p es) rem)"
proof -
  let ?P = "\<lambda>e. length (ex_name e) = p"
  have es: "found p es rem = (case found p (longer p es) rem of None \<Rightarrow> found p (takeWhile ?P es) rem | Some x \<Rightarrow> Some x)"
    using found_append [of p "takeWhile ?P es" "longer p es" rem] by simp
  show ?thesis
  proof (cases "rem = []")
    case True
    have "drop p (ex_name x) \<noteq> rem" if "x \<in> set (longer p es)" for x
      using after_terminals_longer [OF assms that] True by simp
    then have "found p (longer p es) rem = None" by (intro found_none) blast
    then show ?thesis using es True found_terminals [of p es] by simp
  next
    case False
    then have "found p (takeWhile ?P es) rem = None"
      by (intro found_none) (auto dest: set_takeWhileD)
    then show ?thesis using es False by (simp split: option.splits)
  qed
qed

lemma starts_with_append: "starts_with (l @ x) l"
  by (simp add: starts_with_def)

lemma starts_with_split: "starts_with rem l \<Longrightarrow> rem = l @ drop (length l) rem"
  by (metis append_take_drop_id starts_with_def)

text \<open>One group: its label decides whether the lookup goes into it, and nothing else matches.\<close>

lemma found_group:
  assumes "share p (e # g @ r)" and "p < length (ex_name e)" and "share n (e # g)" and "p < n" "n \<le> length (ex_name e)"
    and "\<forall>x \<in> set r. p < length (ex_name x) \<and> ex_name x ! p \<noteq> ex_name e ! p"
  shows "found p (e # g @ r) rem =
    (if starts_with rem (edge_label e p n) then found n (e # g) (drop (length (edge_label e p n)) rem) else found p r rem)"
proof -
  let ?l = "edge_label e p n"
  have len: "length ?l = n - p" using assms(5) by simp
  have hd: "hd ?l = ex_name e ! p" "?l \<noteq> []" using assms(4,5) by (auto simp: hd_drop_conv_nth hd_take)
  have grp: "drop p (ex_name x) = ?l @ drop n (ex_name x)" if "x \<in> set (e # g)" for x
  proof -
    have "take n (ex_name x) = take n (ex_name e)" "n \<le> length (ex_name x)"
      using assms(3) that by (auto simp: share_def)
    then have "drop p (take n (ex_name x)) = ?l" using assms(4) by (simp add: drop_take)
    moreover have "drop p (ex_name x) = drop p (take n (ex_name x) @ drop n (ex_name x))" by simp
    ultimately show ?thesis using assms(4) \<open>n \<le> length (ex_name x)\<close> by (simp del: append_take_drop_id)
  qed
  have split: "found p (e # g @ r) rem = (case found p r rem of None \<Rightarrow> found p (e # g) rem | Some x \<Rightarrow> Some x)"
    using found_append [of p "e # g" r rem] by simp
  show ?thesis
  proof (cases "starts_with rem ?l")
    case True
    have "hd rem = ex_name e ! p"
      using starts_with_split [OF True] hd by (metis hd_append2)
    then have "found p r rem = None"
      using assms(6) by (intro found_none) (metis drop_eq_Nil hd_drop_conv_nth not_le)
    moreover have "found p (e # g) rem = found n (e # g) (drop (length ?l) rem)"
    proof -
      have "drop p (ex_name x) = rem \<longleftrightarrow> drop n (ex_name x) = drop (length ?l) rem" if "x \<in> set (e # g)" for x
        using grp [OF that] starts_with_split [OF True] by (metis append_eq_conv_conj)
      then show ?thesis unfolding found_def by (intro arg_cong [where f = "map_option _"] find_cong) auto
    qed
    ultimately show ?thesis using split True by simp
  next
    case False
    then have "found p (e # g) rem = None"
      using grp starts_with_append by (intro found_none) metis
    then show ?thesis using split False by (simp split: option.splits)
  qed
qed

lemma covers_prefix:
  assumes "covers nodes lo flat'" and "take (length flat) flat' = flat"
  shows "covers nodes lo flat"
  unfolding covers_def
proof (intro allI impI, elim conjE)
  fix k assume k: "lo \<le> k" "k < length flat"
  have "length flat \<le> length flat'" using arg_cong [OF assms(2), of length] by simp
  moreover have "flat ! k = flat' ! k" using assms(2) k(2) by (metis nth_take)
  ultimately show "k < length nodes \<and> nodes ! k = flat ! k" using assms(1) k by (auto simp: covers_def)
qed

lemma covers_mono: "covers nodes lo flat \<Longrightarrow> lo \<le> hi \<Longrightarrow> covers nodes hi flat"
  by (auto simp: covers_def)

lemma trie_lookup_flat:
  assumes "laid_out trie nodes offs"
  shows "flatten es p flat = Ok (flat', i) \<Longrightarrow> covers nodes (length flat) flat' \<Longrightarrow> share p es \<Longrightarrow>
      sorted_by by_name es \<Longrightarrow> \<forall>e \<in> set es. entry_ok e \<Longrightarrow> d + length rem \<le> 128 \<Longrightarrow>
      trie_lookup trie (offs ! i) rem d = Ok (found p es rem)"
    and "flatten_groups es p flat ch = Ok (flat', ch') \<Longrightarrow> covers nodes (length flat) flat' \<Longrightarrow> share p es \<Longrightarrow>
      sorted_by by_name es \<Longrightarrow> \<forall>e \<in> set es. entry_ok e \<Longrightarrow> \<forall>e \<in> set es. p < length (ex_name e) \<Longrightarrow>
      \<exists>new. ch' = ch @ new \<and> (\<forall>(l, c) \<in> set new. label_ok l \<and> c < length nodes)
        \<and> (d + length rem \<le> 128 \<longrightarrow> rem \<noteq> [] \<longrightarrow> child_step trie offs new rem d = Ok (found p es rem))"
proof (induction es p flat and es p flat ch arbitrary: flat' i d rem and flat' ch' d rem
    rule: flatten_flatten_groups.induct)
  case (1 es p flat)
  let ?node = "\<lparr>tn_payload = terminal_payload (terminal_of p es), tn_children = []\<rparr>"
  from "1.prems"(1) obtain flat1 ch where
    g: "flatten_groups (longer p es) p (flat @ [?node]) [] = Ok (flat1, ch)"
    and r: "flat' = flat1[length flat := (flat1 ! length flat)\<lparr>tn_children := ch\<rparr>]" "i = length flat"
    by (rule flatten_OkE)
  have len: "length flat < length flat1" and tk: "take (Suc (length flat)) flat1 = flat @ [?node]"
    using flatten_nodes(2) [OF g] by auto
  have "flat1 ! length flat = take (Suc (length flat)) flat1 ! length flat" by simp
  then have "flat1 ! length flat = ?node" unfolding tk by simp
  then have n: "i < length nodes" "nodes ! i = ?node\<lparr>tn_children := ch\<rparr>"
    using "1.prems"(2) r len by (auto simp: covers_def)
  have cov: "covers nodes (length (flat @ [?node])) flat1"
    using "1.prems"(2) r(1) by (auto simp: covers_def nth_list_update)
  have sub: "set (longer p es) \<subseteq> set es" by (auto dest: set_dropWhileD)
  have sd: "sorted_by by_name (longer p es)"
    using "1.prems"(4) sorted_by_append [of by_name "takeWhile (\<lambda>e. length (ex_name e) = p) es" "longer p es"] by simp
  have ok: "\<forall>x \<in> set (longer p es). entry_ok x" "\<forall>x \<in> set (longer p es). p < length (ex_name x)"
    using sub "1.prems"(5) after_terminals_longer [OF "1.prems"(3,4)] by auto
  have ih: "(\<forall>(l, c) \<in> set ch. label_ok l \<and> c < length nodes)
      \<and> (d + length rem \<le> 128 \<longrightarrow> rem \<noteq> [] \<longrightarrow> child_step trie offs ch rem d = Ok (found p (longer p es) rem))"
    using "1.IH" [OF refl refl refl g [unfolded terminal_of_def Let_def] cov [unfolded terminal_of_def Let_def]
        share_sub [OF "1.prems"(3) sub] sd ok, of d rem] by simp
  have t: "pred_option (\<lambda>e. kind_ok (ex_flags e) (ex_kind e)) (terminal_of p es)"
    using "1.prems"(5) by (auto simp: terminal_of_def Let_def entry_ok_def dest!: last_in_set set_takeWhileD)
  have "trie_lookup trie (offs ! i) rem d =
    (if rem = [] then Ok (map_option clear_name (terminal_of p es)) else child_step trie offs ch rem d)"
    using node_lookup [OF assms n(1) _ _ t, of d rem] n(2) ih "1.prems"(6) by (simp add: clear_name_def [abs_def])
  then show ?case using ih found_node [OF "1.prems"(3,4), of rem] "1.prems"(6) by simp
next
  case (2 p flat ch)
  then show ?case by (simp add: found_def)
next
  case (3 e es p flat ch)
  from "3.prems"(1) obtain g rest n flat1 cid where
    a: "p < length (ex_name e)" "split_group p (ex_name e ! p) es = Ok (g, rest)"
      "common_prefix_len (e # g) (p + 1) = Ok n" "utf8_valid (edge_label e p n)"
      "flatten (e # g) n flat = Ok (flat1, cid)"
      "flatten_groups rest p flat1 (ch @ [(edge_label e p n, cid)]) = Ok (flat', ch')"
    by (rule flatten_groups_ConsE)
  note ix = index_ok [OF a(1)]
  let ?l = "edge_label e p n"
  have es: "es = g @ rest" using a(2) by (rule split_group_append)
  note s1 = flatten_nodes(1) [OF a(5)] and s2 = flatten_nodes(2) [OF a(6)]
  note lab = label_shared [OF "3.prems"(3,6) a(2,3)]
  have sg: "sorted_by by_name (e # g)" and sr: "sorted_by by_name rest"
    using "3.prems"(4) es sorted_by_append [of by_name "e # g" rest] by auto
  have cov1: "covers nodes (length flat) flat1" using covers_prefix [OF "3.prems"(2)] s2 by blast
  have cov2: "covers nodes (length flat1) flat'" by (rule covers_mono [OF "3.prems"(2)]) (use s1 in simp)
  have cid: "cid < length nodes" using cov1 s1 by (auto simp: covers_def)
  have "set ?l \<subseteq> set (ex_name e)" by (meson order_trans set_drop_subset set_take_subset)
  moreover have "length ?l = n - p" using lab(3) by simp
  ultimately have l: "label_ok ?l"
    using a(4) lab(2) "3.prems"(5) by (auto simp: label_ok_def entry_ok_def)
  have ih1: "trie_lookup trie (offs ! cid) (drop (length ?l) rem) (d + 1) = Ok (found n (e # g) (drop (length ?l) rem))"
    if "d + length rem \<le> 128" "starts_with rem ?l"
  proof (rule "3.IH"(1) [OF ix a(2) refl a(3) refl _ a(5) cov1 lab(1) sg])
    show "\<forall>x \<in> set (e # g). entry_ok x" using "3.prems"(5) es by auto
    have "0 < length ?l" using l by (auto simp: label_ok_def)
    then show "d + 1 + length (drop (length ?l) rem) \<le> 128" using that by (auto simp: starts_with_def)
  qed (use a(4) in simp)
  obtain new where new: "ch' = (ch @ [(?l, cid)]) @ new" "\<forall>(l, c) \<in> set new. label_ok l \<and> c < length nodes"
      "d + length rem \<le> 128 \<longrightarrow> rem \<noteq> [] \<longrightarrow> child_step trie offs new rem d = Ok (found p rest rem)"
    using "3.IH"(2) [OF ix a(2) refl a(3) refl _ a(5) refl a(6) cov2 share_sub [OF "3.prems"(3)] sr, of d rem]
      a(4) "3.prems"(5,6) es by auto
  have grp: "found p (e # es) rem = (if starts_with rem ?l then found n (e # g) (drop (length ?l) rem) else found p rest rem)"
    unfolding es using "3.prems"(3,6) a(1) lab group_split_sorted [OF "3.prems"(3,4,6) a(2)] es
    by (intro found_group) auto
  show ?case
    by (rule exI [of _ "(?l, cid) # new"]) (use new l cid ih1 grp in auto)
qed

interpretation entry_order: comparator by_name
proof (unfold_locales, goal_cases)
  case 2 show ?case by (rule cmp_bytes_flip)
next
  case 3 then show ?case by (rule cmp_bytes_trans)
qed simp

lemma find_filter: "find P xs = (case filter P xs of [] \<Rightarrow> None | x # _ \<Rightarrow> Some x)"
  by (induction xs) auto

lemma found_sorted: "found 0 (sort_by by_name es) nm = map_option clear_name (find (\<lambda>e. ex_name e = nm) (rev es))"
proof -
  define a :: export_entry where "a = \<lparr>ex_name = nm, ex_flags = 0, ex_kind = ERegular 0\<rparr>"
  have eq: "(\<lambda>e. ex_name e = nm) = (\<lambda>y. by_name a y = Equal)" by (auto simp: a_def)
  have "filter (\<lambda>e. ex_name e = nm) (sort_by by_name es) = filter (\<lambda>e. ex_name e = nm) es"
    unfolding eq by (rule entry_order.sort_by_stable)
  then show ?thesis by (simp add: found_def find_filter rev_filter [symmetric])
qed

text \<open>
  C14: Looking a name of at most 128 bytes (the reader's depth cap) up in a built export trie finds
  exactly the last of the given entries with that name, flags, kind and payload included, and
  nothing for every other name. The entries' flags announce their kinds, and names hold no NUL.
\<close>

theorem export_trie_round_trip:
  assumes "build_export_trie es = Some (Ok trie)" and "length trie < 2 ^ 63"
    and "\<forall>e \<in> set es. entry_ok e" and "length nm \<le> 128"
  shows "exports_lookup (Trie trie) nm = Ok (map_option clear_name (find (\<lambda>e. ex_name e = nm) (rev es)))"
proof (cases "es = []")
  case True
  then show ?thesis using assms(1) by (simp add: build_export_trie_def)
next
  case False
  let ?s = "sort_by by_name es"
  obtain nodes i offs bs where f: "flatten ?s 0 [] = Ok (nodes, i)"
    and o: "offsets_loop nodes (replicate (length nodes) 0) = Some offs"
    and m: "mapM (\<lambda>n. emit_trie_node n offs) nodes = Ok bs" and t: "trie = concat bs"
    using assms(1) False by (auto simp: build_export_trie_def Let_def rmap_def rbind_Ok_iff split: result.splits option.splits)
  have lo: "laid_out trie nodes offs"
    using emitted_laid_out [OF m loop_settled [OF o]] assms(2) t by simp
  have i: "i = 0" "0 < length nodes" using flatten_nodes(1) [OF f] by auto
  have "trie \<noteq> []"
    using lo i(2) write_uleb_nonempty by (fastforce simp: laid_out_def node_at_def)
  moreover have "trie_lookup trie (offs ! i) nm 0 = Ok (found 0 ?s nm)"
    using assms(3,4) entry_order.sorted_sort_by
    by (intro trie_lookup_flat(1) [OF lo f]) (auto simp: covers_def share_def)
  moreover have "offs ! 0 = 0" using loop_settled [OF o] i(2) by (simp add: settled_def)
  ultimately show ?thesis using i(1) found_sorted [of es nm] by simp
qed

end
