(* ===== verification/Export_Trie_Total.thy ===== *)
theory Export_Trie_Total
  imports Export_Trie
begin

text \<open>
  The export-trie builder always returns: the offset loop reaches its fixed point, because offsets
  only grow from zero and every node stays below a size computed from the entries, and for names of
  nonzero ASCII bytes no step of the flattening or the emission panics.
\<close>

section \<open>The offset loop converges\<close>

definition node_bound :: "flat_trie_node \<Rightarrow> nat" where
  "node_bound n = 11 + length (tn_payload n) + (\<Sum>(edge, child) \<leftarrow> tn_children n. length edge + 11)"

definition total_bound :: "flat_trie_node list \<Rightarrow> nat" where
  "total_bound ns = (\<Sum>n \<leftarrow> ns. node_bound n)"

definition below :: "nat list \<Rightarrow> nat list \<Rightarrow> bool" where
  "below xs ys \<longleftrightarrow> length xs = length ys \<and> (\<forall>i < length xs. xs ! i \<le> ys ! i)"

lemma below_refl [simp]: "below xs xs"
  by (simp add: below_def)

lemma below_trans: "below xs ys \<Longrightarrow> below ys zs \<Longrightarrow> below xs zs"
  unfolding below_def by (metis order_trans)

lemma uleb_size_le: "uleb_size v \<le> 10"
  by (simp add: uleb_size_eq write_uleb_length_le)

lemma uleb_size_mono: "v \<le> w \<Longrightarrow> uleb_size v \<le> uleb_size w"
proof (induction v arbitrary: w rule: uleb_size.induct)
  case (1 v)
  show ?case
  proof (cases "v \<ge> 0x80")
    case True
    then have w: "w \<ge> 0x80" using "1.prems" by simp
    have "drop_bit 7 v \<le> drop_bit 7 w"
      using "1.prems" by (simp add: word_le_nat_alt unat_drop_bit_eq drop_bit_eq_div unat_div_distrib div_le_mono)
    then show ?thesis using 1 True w by (simp add: uleb_size.simps [of v] uleb_size.simps [of w])
  next
    case False
    then show ?thesis by (simp add: uleb_size.simps [of v] uleb_size.simps [of w])
  qed
qed

lemma node_size_bound: "trie_node_size n offs \<le> node_bound n"
proof -
  have "(\<Sum>(edge, child) \<leftarrow> ch. length edge + 1 + uleb_size (of_nat (offs ! child)))
      \<le> (\<Sum>(edge, child) \<leftarrow> ch. length edge + 11)" for ch :: "(str \<times> nat) list"
    by (rule sum_list_mono) (auto intro: uleb_size_le)
  then show ?thesis
    using uleb_size_le [of "of_nat (length (tn_payload n))"]
    by (auto simp: trie_node_size_def node_bound_def intro: add_mono)
qed

definition children_in :: "nat \<Rightarrow> flat_trie_node \<Rightarrow> bool" where
  "children_in k n \<longleftrightarrow> (\<forall>(l, c) \<in> set (tn_children n). c < k)"

lemma node_size_mono:
  assumes "below xs ys" and "children_in (length xs) n" and "\<forall>y \<in> set ys. y < 2 ^ 64"
  shows "trie_node_size n xs \<le> trie_node_size n ys"
proof -
  have "uleb_size (of_nat (xs ! c)) \<le> uleb_size (of_nat (ys ! c))" if "c < length xs" for c
  proof -
    have "xs ! c \<le> ys ! c" "ys ! c < 2 ^ 64" using assms(1,3) that by (auto simp: below_def)
    then have "(of_nat (xs ! c) :: u64) \<le> of_nat (ys ! c)" by (simp add: word_le_nat_alt unat_of_nat)
    then show ?thesis by (rule uleb_size_mono)
  qed
  then have "(\<Sum>(edge, child) \<leftarrow> tn_children n. length edge + 1 + uleb_size (of_nat (xs ! child)))
      \<le> (\<Sum>(edge, child) \<leftarrow> tn_children n. length edge + 1 + uleb_size (of_nat (ys ! child)))"
    using assms(2) by (intro sum_list_mono) (auto simp: children_in_def)
  then show ?thesis by (simp add: trie_node_size_def)
qed

abbreviation pass_offsets :: "flat_trie_node list \<Rightarrow> nat \<Rightarrow> nat \<Rightarrow> nat list \<Rightarrow> bool \<Rightarrow> nat list" where
  "pass_offsets ns idx cur offs ch \<equiv> fst (offsets_pass ns idx cur offs ch)"

lemma pass_flag_irrelevant: "pass_offsets ns idx cur offs ch = pass_offsets ns idx cur offs ch'"
  by (induction ns arbitrary: idx cur offs ch ch') (simp_all add: Let_def)

lemma pass_Cons:
  "pass_offsets (n # ns) idx cur offs ch =
     pass_offsets ns (idx + 1) (cur + trie_node_size n (offs[idx := cur])) (offs[idx := cur]) ch"
proof (cases "offs ! idx = cur")
  case True
  then have "offs[idx := cur] = offs" by (simp add: list_update_id flip: True)
  then show ?thesis using True by simp
qed (simp add: pass_flag_irrelevant [of ns _ _ _ True ch])

lemma pass_keeps: "k < idx \<Longrightarrow> pass_offsets ns idx cur offs ch ! k = offs ! k"
  by (induction ns arbitrary: idx cur offs ch) (simp_all add: pass_Cons del: offsets_pass.simps(2))

lemma pass_same_unchanged:
  "pass_offsets ns idx cur offs False = offs \<Longrightarrow> idx + length ns \<le> length offs \<Longrightarrow>
   \<not> snd (offsets_pass ns idx cur offs False)"
proof (induction ns arbitrary: idx cur)
  case (Cons n ns)
  have "offs ! idx = offs[idx := cur] ! idx"
    using Cons.prems(1) pass_keeps [of idx "idx + 1" ns "cur + trie_node_size n (offs[idx := cur])" "offs[idx := cur]" False]
    by (simp only: pass_Cons)
  then have eq: "offs ! idx = cur" using Cons.prems(2) by simp
  then have "offs[idx := cur] = offs" by (metis list_update_id)
  then have "pass_offsets ns (idx + 1) (cur + trie_node_size n offs) offs False = offs"
    using Cons.prems(1) by (simp only: pass_Cons)
  then show ?case using Cons.IH [of "idx + 1"] Cons.prems(2) eq by simp
qed simp

lemma below_update: "below xs ys \<Longrightarrow> a \<le> b \<Longrightarrow> below (xs[i := a]) (ys[i := b])"
  by (cases "i < length ys") (auto simp: below_def nth_list_update)

lemma pass_mono:
  assumes "below xs ys" and "c \<le> d" and "\<forall>n \<in> set ns. children_in (length xs) n"
    and "\<forall>y \<in> set ys. y < 2 ^ 64" and "d + total_bound ns < 2 ^ 64"
  shows "below (pass_offsets ns idx c xs f) (pass_offsets ns idx d ys f)"
  using assms
proof (induction ns arbitrary: idx c d xs ys)
  case (Cons n ns)
  let ?x = "xs[idx := c]" and ?y = "ys[idx := d]"
  have b: "below ?x ?y" using Cons.prems(1,2) by (rule below_update)
  have d: "d < 2 ^ 64" using Cons.prems(5) by simp
  have y: "\<forall>y \<in> set ?y. y < 2 ^ 64" using Cons.prems(4) d set_update_subset_insert [of ys idx d] by auto
  have "trie_node_size n ?x \<le> trie_node_size n ?y" using node_size_mono [OF b _ y] Cons.prems(3) by simp
  moreover have "d + trie_node_size n ?y + total_bound ns < 2 ^ 64"
    using Cons.prems(5) node_size_bound [of n ?y] by (simp add: total_bound_def)
  ultimately show ?case
    unfolding pass_Cons using Cons.prems(2,3) b y by (intro Cons.IH) auto
qed simp

lemma pass_bounded:
  "\<forall>x \<in> set xs. x \<le> b \<Longrightarrow> c + total_bound ns \<le> b \<Longrightarrow> \<forall>x \<in> set (pass_offsets ns idx c xs f). x \<le> b"
proof (induction ns arbitrary: idx c xs)
  case (Cons n ns)
  have "\<forall>x \<in> set (xs[idx := c]). x \<le> b"
    using Cons.prems set_update_subset_insert [of xs idx c] by auto
  moreover have "c + trie_node_size n (xs[idx := c]) + total_bound ns \<le> b"
    using Cons.prems(2) node_size_bound [of n "xs[idx := c]"] by (simp add: total_bound_def)
  ultimately show ?case unfolding pass_Cons by (rule Cons.IH)
qed simp

lemma below_sum:
  assumes "below xs ys" and "xs \<noteq> ys"
  shows "sum_list xs < sum_list ys"
proof -
  have "list_all2 (\<le>) xs ys" using assms(1) by (simp add: below_def list_all2_conv_all_nth)
  then have "sum_list xs \<le> sum_list ys \<and> (xs \<noteq> ys \<longrightarrow> sum_list xs < sum_list ys)"
    by (induction xs ys rule: list_all2_induct) auto
  then show ?thesis using assms(2) by simp
qed

lemma sum_list_bounded: "\<forall>x \<in> set xs. x \<le> b \<Longrightarrow> sum_list xs \<le> length xs * (b :: nat)"
  by (induction xs) auto

lemma offsets_loop_returns:
  assumes "\<forall>n \<in> set nodes. children_in (length nodes) n" and "total_bound nodes < 2 ^ 64"
    and "length offs = length nodes" and "below offs (pass_offsets nodes 0 0 offs False)"
    and "\<forall>x \<in> set offs. x \<le> total_bound nodes"
  shows "\<exists>offs'. offsets_loop nodes offs = Some offs'"
  using assms(3-5)
proof (induction "length nodes * total_bound nodes - sum_list offs" arbitrary: offs rule: less_induct)
  case less
  let ?o = "pass_offsets nodes 0 0 offs False"
  obtain o' ch where p: "offsets_pass nodes 0 0 offs False = (o', ch)" and o': "?o = o'" by (metis prod.collapse)
  show ?case
  proof (cases ch)
    case False
    then show ?thesis using p by (subst offsets_loop.simps) simp
  next
    case True
    then have ne: "offs \<noteq> ?o" using p pass_same_unchanged [of nodes 0 0 offs] less.prems(1) by fastforce
    have len: "length ?o = length nodes" using less.prems(1) by (simp add: pass_length)
    have bd: "\<forall>x \<in> set ?o. x \<le> total_bound nodes" using less.prems(3) by (intro pass_bounded) auto
    then have lt: "\<forall>x \<in> set ?o. x < 2 ^ 64" using assms(2) by auto
    have nx: "below ?o (pass_offsets nodes 0 0 ?o False)"
      using pass_mono [OF less.prems(2) order_refl _ lt, of nodes 0 0 False] assms(1,2) less.prems(1) by simp
    have "sum_list offs < sum_list ?o" using less.prems(2) ne by (rule below_sum)
    moreover have "sum_list ?o \<le> length nodes * total_bound nodes" using sum_list_bounded [OF bd] len by simp
    ultimately have "length nodes * total_bound nodes - sum_list ?o < length nodes * total_bound nodes - sum_list offs"
      by linarith
    from less.hyps [OF this len nx bd] show ?thesis
      using p True o' by (subst offsets_loop.simps) simp
  qed
qed

section \<open>Flattening ASCII names\<close>

definition ascii_name :: "export_entry \<Rightarrow> bool" where
  "ascii_name e \<longleftrightarrow> (\<forall>b \<in> set (ex_name e). 0 < b \<and> b < 0x80)"

definition weight :: "nat \<Rightarrow> export_entry list \<Rightarrow> nat" where
  "weight p es = (\<Sum>e \<leftarrow> es. 23 * (length (ex_name e) - p) + length (terminal_payload (Some e)))"

definition good_nodes :: "nat \<Rightarrow> flat_trie_node list \<Rightarrow> bool" where
  "good_nodes k ns \<longleftrightarrow> (\<forall>n \<in> set ns. children_in k n \<and> length (tn_children n) \<le> 255)"

lemma weight_simps [simp]:
  "weight p [] = 0"
  "weight p (e # es) = 23 * (length (ex_name e) - p) + length (terminal_payload (Some e)) + weight p es"
  "weight p (es @ fs) = weight p es + weight p fs"
  by (simp_all add: weight_def)

lemma weight_mono: "p \<le> q \<Longrightarrow> weight q es \<le> weight p es"
  by (induction es) auto

lemma weight_insert: "weight p (insert_by c x xs) = weight p (x # xs)"
  by (induction xs) auto

lemma weight_sort: "weight p (sort_by c xs) = weight p xs"
  by (induction xs) (auto simp: weight_insert)

lemma total_bound_simps [simp]:
  "total_bound [] = 0" "total_bound (n # ns) = node_bound n + total_bound ns"
  "total_bound (ms @ ns) = total_bound ms + total_bound ns"
  by (simp_all add: total_bound_def)

lemma good_nodes_simps [simp]:
  "good_nodes k []" "good_nodes k (n # ns) \<longleftrightarrow> children_in k n \<and> length (tn_children n) \<le> 255 \<and> good_nodes k ns"
  "good_nodes k (ms @ ns) \<longleftrightarrow> good_nodes k ms \<and> good_nodes k ns"
  by (auto simp: good_nodes_def)

lemma good_nodes_mono: "good_nodes k ns \<Longrightarrow> k \<le> k' \<Longrightarrow> good_nodes k' ns"
  by (fastforce simp: good_nodes_def children_in_def)

lemma split_group_total:
  "\<forall>x \<in> set es. p < length (ex_name x) \<Longrightarrow> \<exists>g r. split_group p b es = Ok (g, r)"
  by (induction es) (auto simp: index_def)

lemma payload_weight: "length (terminal_payload (terminal_of p es)) + weight p (longer p es) \<le> weight p es"
proof -
  let ?ts = "takeWhile (\<lambda>e. length (ex_name e) = p) es"
  have "length (terminal_payload (terminal_of p es)) \<le> weight p ?ts"
    by (cases ?ts rule: rev_cases) (auto simp: terminal_of_def Let_def terminal_payload_def)
  moreover have "weight p es = weight p ?ts + weight p (longer p es)"
    using weight_simps(3) [of p ?ts "longer p es"] by simp
  ultimately show ?thesis by linarith
qed

text \<open>Distinct nonzero bytes are at most 255.\<close>

lemma distinct_bytes_255:
  assumes "distinct (bs :: u8 list)" and "0 \<notin> set bs"
  shows "length bs \<le> 255"
proof -
  have inj: "inj_on unat (set bs)" by (simp add: inj_on_def word_unat_eq_iff)
  have "1 \<le> unat b \<and> unat b \<le> 255" if "b \<in> set bs" for b
  proof -
    have "unat b \<noteq> 0" using that assms(2) by (auto simp: unat_eq_zero)
    then show ?thesis using unat_u8_less [of b] by linarith
  qed
  then have "unat ` set bs \<subseteq> {1..255}" by auto
  then have "card (unat ` set bs) \<le> card {1..255 :: nat}" by (intro card_mono) auto
  then show ?thesis using assms(1) by (simp add: card_image [OF inj] distinct_card)
qed

lemma flatten_total:
  "share p es \<Longrightarrow> sorted_by by_name es \<Longrightarrow> \<forall>e \<in> set es. ascii_name e \<Longrightarrow>
    \<exists>sub. flatten es p flat = Ok (flat @ sub, length flat) \<and> good_nodes (length flat + length sub) sub
      \<and> total_bound sub \<le> 11 + weight p es"
  "share p es \<Longrightarrow> sorted_by by_name es \<Longrightarrow> \<forall>e \<in> set es. ascii_name e \<Longrightarrow> \<forall>e \<in> set es. p < length (ex_name e) \<Longrightarrow>
    \<exists>sub new. flatten_groups es p flat ch = Ok (flat @ sub, ch @ new)
      \<and> good_nodes (length flat + length sub) sub \<and> (\<forall>(l, c) \<in> set new. c < length flat + length sub)
      \<and> distinct (map (\<lambda>x. hd (fst x)) new) \<and> set (map (\<lambda>x. hd (fst x)) new) \<subseteq> (\<lambda>e. ex_name e ! p) ` set es
      \<and> total_bound sub + (\<Sum>(l, c) \<leftarrow> new. length l + 11) \<le> weight p es"
proof (induction es p flat and es p flat ch rule: flatten_flatten_groups.induct)
  case (1 es p flat)
  let ?node = "\<lparr>tn_payload = terminal_payload (terminal_of p es), tn_children = []\<rparr>"
  have sub: "set (longer p es) \<subseteq> set es" by (auto dest: set_dropWhileD)
  have sd: "sorted_by by_name (longer p es)"
    using "1.prems"(2) sorted_by_append [of by_name "takeWhile (\<lambda>e. length (ex_name e) = p) es" "longer p es"] by simp
  have ok: "\<forall>x \<in> set (longer p es). ascii_name x" "\<forall>x \<in> set (longer p es). p < length (ex_name x)"
    using sub "1.prems"(3) after_terminals_longer [OF "1.prems"(1,2)] by auto
  obtain sub new where g: "flatten_groups (longer p es) p (flat @ [?node]) [] = Ok (flat @ ?node # sub, new)"
    and gd: "good_nodes (Suc (length flat + length sub)) sub" "\<forall>(l, c) \<in> set new. c < Suc (length flat + length sub)"
    and dist: "distinct (map (\<lambda>x. hd (fst x)) new)" "set (map (\<lambda>x. hd (fst x)) new) \<subseteq> (\<lambda>e. ex_name e ! p) ` set (longer p es)"
    and w: "total_bound sub + (\<Sum>(l, c) \<leftarrow> new. length l + 11) \<le> weight p (longer p es)"
    using "1.IH" [OF refl refl refl share_sub [OF "1.prems"(1) sub] sd ok] by (auto simp: terminal_of_def Let_def)
  have "0 \<notin> (\<lambda>e. ex_name e ! p) ` set (longer p es)"
    using ok by (force simp: ascii_name_def dest: nth_mem)
  then have fan: "length new \<le> 255" using distinct_bytes_255 [OF dist(1)] dist(2) by auto
  have "flatten es p flat = Ok (flat @ ?node\<lparr>tn_children := new\<rparr> # sub, length flat)"
    using g by (simp add: flatten.simps terminal_of_def Let_def nth_append list_update_append)
  moreover have "node_bound (?node\<lparr>tn_children := new\<rparr>) + total_bound sub \<le> 11 + weight p es"
    using w payload_weight [of p es] by (simp add: node_bound_def)
  ultimately show ?case
    using gd fan by (intro exI [of _ "?node\<lparr>tn_children := new\<rparr> # sub"]) (simp add: children_in_def)
next
  case (2 p flat ch)
  then show ?case by simp
next
  case (3 e es p flat ch)
  have len: "p < length (ex_name e)" using "3.prems"(4) by simp
  note ix = index_ok [OF len]
  obtain g rest where sg: "split_group p (ex_name e ! p) es = Ok (g, rest)"
    using split_group_total [of es p "ex_name e ! p"] "3.prems"(4) by auto
  obtain n where n: "common_prefix_len (e # g) (p + 1) = Ok n" by simp
  have es: "es = g @ rest" using sg by (rule split_group_append)
  note lab = label_shared [OF "3.prems"(1,4) sg n]
  let ?l = "edge_label e p n"
  have ascii: "\<forall>x \<in> set (e # g). ascii_name x" "\<forall>x \<in> set rest. ascii_name x" using "3.prems"(3) es by auto
  have "set ?l \<subseteq> set (ex_name e)" by (meson order_trans set_drop_subset set_take_subset)
  then have utf: "utf8_valid ?l" using ascii(1) by (intro utf8_valid_ascii) (auto simp: ascii_name_def)
  have sd: "sorted_by by_name (e # g)" "sorted_by by_name rest"
    using "3.prems"(2) es sorted_by_append [of by_name "e # g" rest] by auto
  obtain sub1 where f1: "flatten (e # g) n flat = Ok (flat @ sub1, length flat)"
    and g1: "good_nodes (length flat + length sub1) sub1" and w1: "total_bound sub1 \<le> 11 + weight n (e # g)"
    using "3.IH"(1) [OF ix sg refl n refl _ lab(1) sd(1) ascii(1)] utf by auto
  have ne: "sub1 \<noteq> []" using flatten_nodes(1) [OF f1] by auto
  have rs: "share p rest" "\<forall>x \<in> set rest. p < length (ex_name x)"
    using share_sub [OF "3.prems"(1)] "3.prems"(4) es by auto
  obtain sub2 new where f2: "flatten_groups rest p (flat @ sub1) (ch @ [(?l, length flat)])
      = Ok ((flat @ sub1) @ sub2, (ch @ [(?l, length flat)]) @ new)"
    and g2: "good_nodes (length (flat @ sub1) + length sub2) sub2" "\<forall>(l, c) \<in> set new. c < length (flat @ sub1) + length sub2"
    and d2: "distinct (map (\<lambda>x. hd (fst x)) new)" "set (map (\<lambda>x. hd (fst x)) new) \<subseteq> (\<lambda>e. ex_name e ! p) ` set rest"
    and w2: "total_bound sub2 + (\<Sum>(l, c) \<leftarrow> new. length l + 11) \<le> weight p rest"
    using "3.IH"(2) [OF ix sg refl n refl _ f1 refl rs(1) sd(2) ascii(2) rs(2)] utf by auto
  have hd: "hd ?l = ex_name e ! p" using lab(2,3) by (simp add: hd_drop_conv_nth hd_take)
  have "hd ?l \<notin> (\<lambda>e. ex_name e ! p) ` set rest"
    using group_split_sorted [OF "3.prems"(1,2,4) sg] hd by auto
  then have dist: "distinct (map (\<lambda>x. hd (fst x)) ((?l, length flat) # new))"
    "set (map (\<lambda>x. hd (fst x)) ((?l, length flat) # new)) \<subseteq> (\<lambda>e. ex_name e ! p) ` set (e # es)"
    using d2 hd es by auto
  have "22 + (n - p) + weight n (e # g) \<le> weight p (e # g)"
    using lab(2,3) weight_mono [of p n g] by auto
  then have w: "total_bound (sub1 @ sub2) + (\<Sum>(l, c) \<leftarrow> (?l, length flat) # new. length l + 11) \<le> weight p (e # es)"
    using w1 w2 lab(3) es by simp
  have "flatten_groups (e # es) p flat ch = Ok (flat @ sub1 @ sub2, ch @ (?l, length flat) # new)"
    using sg n utf f1 f2 by (simp add: index_ok [OF len] del: common_prefix_len.simps)
  moreover have "good_nodes (length flat + length (sub1 @ sub2)) (sub1 @ sub2)"
    using g2(1) good_nodes_mono [OF g1, of "length flat + length (sub1 @ sub2)"] by (simp add: add.assoc)
  moreover have "\<forall>(l, c) \<in> set ((?l, length flat) # new). c < length flat + length (sub1 @ sub2)"
    using g2(2) ne by (auto simp: add.assoc)
  ultimately show ?case using dist w by blast
qed

section \<open>Building always returns\<close>

text \<open>
  C15: Building the export trie of any entries with nonzero ASCII names returns: the offset loop ends
  and neither the flattening nor the one-byte fanout of a node panics. The sum bounds the size of the
  result far below the limit of a byte vector.
\<close>

theorem build_export_trie_returns:
  assumes "\<forall>e \<in> set es. ascii_name e"
    and "11 + (\<Sum>e \<leftarrow> es. 23 * length (ex_name e) + length (terminal_payload (Some e))) < 2 ^ 63"
  shows "\<exists>trie. build_export_trie es = Some (Ok trie) \<and> length trie < 2 ^ 63"
proof (cases "es = []")
  case True
  then show ?thesis by (simp add: build_export_trie_def)
next
  case False
  let ?s = "sort_by by_name es"
  have "weight 0 ?s = weight 0 es" by (rule weight_sort)
  then have w: "11 + weight 0 ?s < 2 ^ 63" using assms(2) by (simp add: weight_def)
  obtain nodes where f: "flatten ?s 0 [] = Ok (nodes, 0)" and g: "good_nodes (length nodes) nodes"
    and b: "total_bound nodes \<le> 11 + weight 0 ?s"
    using flatten_total(1) [of 0 ?s "[]"] entry_order.sorted_sort_by [of es] assms(1) by (auto simp: share_def)
  have zero: "\<forall>x \<in> set (replicate (length nodes) (0 :: nat)). x \<le> total_bound nodes" by simp
  have "below (replicate (length nodes) 0) (pass_offsets nodes 0 0 (replicate (length nodes) 0) False)"
    by (simp add: below_def pass_length)
  then obtain offs where o: "offsets_loop nodes (replicate (length nodes) 0) = Some offs"
    using offsets_loop_returns [of nodes "replicate (length nodes) 0"] g b w zero by (auto simp: good_nodes_def)
  have emit: "\<exists>b. emit_trie_node n offs = Ok b \<and> length b \<le> node_bound n" if "n \<in> set nodes" for n
    using that g node_size_bound [of n offs] emit_length [of n offs]
    by (auto simp: good_nodes_def emit_trie_node_def)
  have "\<exists>bs. mapM (\<lambda>n. emit_trie_node n offs) ns = Ok bs \<and> length (concat bs) \<le> total_bound ns"
    if "set ns \<subseteq> set nodes" for ns
    using that
  proof (induction ns)
    case (Cons n ns)
    obtain x xs where "emit_trie_node n offs = Ok x" "length x \<le> node_bound n"
        "mapM (\<lambda>n. emit_trie_node n offs) ns = Ok xs" "length (concat xs) \<le> total_bound ns"
      using emit [of n] Cons by auto
    then show ?case by simp
  qed simp
  then obtain bs where "mapM (\<lambda>n. emit_trie_node n offs) nodes = Ok bs" "length (concat bs) \<le> total_bound nodes"
    by blast
  then show ?thesis using False f o b w by (simp add: build_export_trie_def)
qed

text \<open>
  Outside ASCII the builder can panic on valid names: two names that differ in the last byte of a
  character share a label that ends inside the character, which is not UTF-8.
\<close>

theorem label_split_panics:
  "utf8_valid [0xC3, 0xA9] \<and> utf8_valid [0xC3, 0xA8] \<and>
   build_export_trie
     [\<lparr>ex_name = [0xC3, 0xA9], ex_flags = 0, ex_kind = ERegular 0\<rparr>,
      \<lparr>ex_name = [0xC3, 0xA8], ex_flags = 0, ex_kind = ERegular 0\<rparr>] = Some Panic"
  by (intro conjI) code_simp+

section \<open>Witnesses\<close>

definition sample_exports :: "export_entry list" where
  "sample_exports =
     [\<lparr>ex_name = [0x5f, 0x66, 0x6f, 0x6f], ex_flags = 0, ex_kind = ERegular 0x4000\<rparr>,
      \<lparr>ex_name = [0x5f, 0x66], ex_flags = 4, ex_kind = ERegular 0x10\<rparr>,
      \<lparr>ex_name = [0x5f, 0x67], ex_flags = 8, ex_kind = EReexport 2 [0x5f, 0x68]\<rparr>]"

lemma sample_ok: "\<forall>e \<in> set sample_exports. ascii_name e \<and> entry_ok e"
  by (simp add: sample_exports_def ascii_name_def entry_ok_def utf8_step.simps)

lemma sample_small:
  "11 + (\<Sum>e \<leftarrow> sample_exports. 23 * length (ex_name e) + length (terminal_payload (Some e))) < 2 ^ 63"
proof -
  have len: "length (write_uleb v) \<le> 10" for v by (rule write_uleb_length_le)
  show ?thesis
    using len [of "0x4000"] len [of "0x10"] len [of 0] len [of 4] len [of 8] len [of 2]
    by (simp add: sample_exports_def terminal_payload_def)
qed

theorem build_export_trie_returns_witness:
  "\<exists>trie. build_export_trie sample_exports = Some (Ok trie) \<and> length trie < 2 ^ 63"
  using build_export_trie_returns [of sample_exports] sample_ok sample_small by blast

theorem export_trie_round_trip_witness:
  "\<exists>trie. build_export_trie sample_exports = Some (Ok trie)
     \<and> exports_lookup (Trie trie) [0x5f, 0x66] = Ok (Some \<lparr>ex_name = [], ex_flags = 4, ex_kind = ERegular 0x10\<rparr>)
     \<and> exports_lookup (Trie trie) [0x5f] = Ok None"
proof -
  obtain trie where t: "build_export_trie sample_exports = Some (Ok trie)" "length trie < 2 ^ 63"
    using build_export_trie_returns [of sample_exports] sample_ok sample_small by blast
  have "\<forall>e \<in> set sample_exports. entry_ok e" using sample_ok by blast
  note r = export_trie_round_trip [OF t this]
  show ?thesis
    using t(1) r [of "[0x5f, 0x66]"] r [of "[0x5f]"]
    by (intro exI [of _ trie]) (simp add: sample_exports_def clear_name_def)
qed

end
