(* ===== verification/Dyld_Opcodes.thy ===== *)
theory Dyld_Opcodes
  imports Leb Order
begin

text \<open>
  The rebase and bind opcode streams of \<^verbatim>\<open>src/synth/dyld_info.rs\<close> and \<^verbatim>\<open>build_rebase_stream\<close> of
  \<^verbatim>\<open>src/macho/writer.rs\<close>: compressed encodings that reuse the state the loader keeps between
  opcodes. A reference interpreter, the reading of the opcodes the dynamic loader and the decoder of
  the repository's test harness share, gives the streams their meaning; the results say that what is
  interpreted is exactly what was to be encoded. An \<^verbatim>\<open>OpcodeStream\<close> is the bytes appended to it.
  Additions and multiplications on \<^verbatim>\<open>u64\<close> that overflow panic.
\<close>

section \<open>Overflow-checked offsets\<close>

type_synonym 'a emitted = "(unit, 'a) result"

text \<open>The expression \<^verbatim>\<open>first + (len as u64) * stride\<close>.\<close>

definition offset_at :: "u64 \<Rightarrow> nat \<Rightarrow> u64 \<Rightarrow> u64 emitted" where
  "offset_at first len stride = rbind (mul64 (of_nat len) stride) (add64 first)"

section \<open>Bind records\<close>

record bind_record_spec =
  bs_segment_index :: u8
  bs_segment_offset :: u64
  bs_ordinal :: u16
  bs_name :: str
  bs_weak_import :: bool
  bs_addend :: i64
  bs_terminate :: bool

record bind_state =
  st_ordinal :: "u16 option"
  st_weak_import :: "bool option"
  st_addend :: i64
  st_segment_index :: "u8 option"
  st_next_segment_offset :: "u64 option"
  st_pointer_type_set :: bool

definition bind_state_default :: bind_state where
  "bind_state_default = \<lparr>st_ordinal = None, st_weak_import = None, st_addend = 0, st_segment_index = None,
     st_next_segment_offset = None, st_pointer_type_set = False\<rparr>"

definition bind_symbol_flags :: "bool \<Rightarrow> u8" where
  "bind_symbol_flags weak_import = (if weak_import then 1 else 0)"

definition emit_bind_ordinal :: "u16 \<Rightarrow> bytes" where
  "emit_bind_ordinal ordinal =
     (if - 8 \<le> sint ordinal \<and> sint ordinal \<le> - 1 then [0x30 OR (ucast ordinal AND 0x0F)]
      else if ordinal \<le> 0x0F then [0x10 OR ucast ordinal]
      else 0x20 # write_uleb (ucast ordinal))"

definition same_symbol :: "bind_record_spec \<Rightarrow> bind_record_spec \<Rightarrow> bool" where
  "same_symbol first x \<longleftrightarrow> bs_segment_index first = bs_segment_index x \<and> bs_ordinal first = bs_ordinal x
     \<and> bs_name first = bs_name x \<and> bs_weak_import first = bs_weak_import x \<and> bs_addend first = bs_addend x"

fun run_loop :: "bind_record_spec \<Rightarrow> u64 \<Rightarrow> nat \<Rightarrow> bind_record_spec list \<Rightarrow> nat emitted" where
  "run_loop first stride len [] = Ok len"
| "run_loop first stride len (x # xs) =
     rbind (offset_at (bs_segment_offset first) len stride) (\<lambda>expected_offset.
     if \<not> same_symbol first x \<or> bs_segment_offset x \<noteq> expected_offset then Ok len
     else run_loop first stride (len + 1) xs)"

text \<open>\<open>rest\<close> are the records after \<open>first\<close>; \<^verbatim>\<open>saturating_sub\<close> is written out.\<close>

definition bind_run_len :: "bind_record_spec \<Rightarrow> bind_record_spec list \<Rightarrow> nat emitted" where
  "bind_run_len first rest =
     (case rest of
        [] \<Rightarrow> Ok 1
      | nx # later \<Rightarrow>
          if \<not> same_symbol first nx then Ok 1
          else
            let stride = (if bs_segment_offset nx \<ge> bs_segment_offset first
                          then bs_segment_offset nx - bs_segment_offset first else 0) in
            if stride < 8 then Ok 1 else run_loop first stride 2 later)"

text \<open>The opcodes that bring the loader's state to \<open>spec\<close>, and the emitter's state after them.\<close>

definition emit_bind_setup :: "bind_record_spec \<Rightarrow> bind_state \<Rightarrow> str option \<Rightarrow> bytes" where
  "emit_bind_setup spec st current_symbol =
     (if st_ordinal st \<noteq> Some (bs_ordinal spec) then emit_bind_ordinal (bs_ordinal spec) else [])
     @ (if current_symbol \<noteq> Some (bs_name spec) \<or> st_weak_import st \<noteq> Some (bs_weak_import spec)
        then (0x40 OR bind_symbol_flags (bs_weak_import spec)) # bs_name spec @ [0] else [])
     @ (if st_addend st \<noteq> bs_addend spec then 0x60 # write_sleb (bs_addend spec) else [])
     @ (if \<not> st_pointer_type_set st then [0x51] else [])
     @ (case (st_segment_index st, st_next_segment_offset st) of
          (Some si, Some off) \<Rightarrow>
            if si = bs_segment_index spec \<and> off = bs_segment_offset spec then []
            else if si = bs_segment_index spec \<and> off < bs_segment_offset spec
            then 0x80 # write_uleb (bs_segment_offset spec - off)
            else (0x70 OR (bs_segment_index spec AND 0x0F)) # write_uleb (bs_segment_offset spec)
        | _ \<Rightarrow> (0x70 OR (bs_segment_index spec AND 0x0F)) # write_uleb (bs_segment_offset spec))"

definition bind_state_after :: "bind_record_spec \<Rightarrow> u64 \<Rightarrow> bind_state" where
  "bind_state_after spec next = \<lparr>st_ordinal = Some (bs_ordinal spec), st_weak_import = Some (bs_weak_import spec),
     st_addend = bs_addend spec, st_segment_index = Some (bs_segment_index spec),
     st_next_segment_offset = Some next, st_pointer_type_set = True\<rparr>"

function emit_bind_loop :: "bind_record_spec list \<Rightarrow> bind_state \<Rightarrow> str option \<Rightarrow> bytes emitted" where
  "emit_bind_loop [] st current_symbol = Ok []"
| "emit_bind_loop (spec # rest) st current_symbol =
     (let setup = emit_bind_setup spec st current_symbol in
      rbind (bind_run_len spec rest) (\<lambda>run_len.
      if run_len > 1 then
        rbind (index rest 0) (\<lambda>nx.
        let stride = bs_segment_offset nx - bs_segment_offset spec in
        if run_len = 2 \<and> stride = 8 then
          rbind (add64 (bs_segment_offset spec) 8) (\<lambda>next.
          rbind (emit_bind_loop rest (bind_state_after spec next) (Some (bs_name spec))) (\<lambda>later.
          Ok (setup @ [0x90] @ later)))
        else
          rbind (offset_at (bs_segment_offset spec) run_len stride) (\<lambda>next.
          rbind (emit_bind_loop (drop (run_len - 1) rest) (bind_state_after spec next) (Some (bs_name spec))) (\<lambda>later.
          Ok (setup @ 0xC0 # write_uleb (of_nat run_len) @ write_uleb (stride - 8) @ later))))
      else
        rbind (add64 (bs_segment_offset spec) 8) (\<lambda>next.
        rbind (emit_bind_loop rest (bind_state_after spec next) (Some (bs_name spec))) (\<lambda>later.
        Ok (setup @ [0x90] @ later)))))"
  by pat_completeness auto
termination
  by (relation "measure (\<lambda>(specs, _, _). length specs)") auto

declare emit_bind_loop.simps(2) [simp del]

definition emit_bind_records :: "bind_record_spec list \<Rightarrow> bytes emitted" where
  "emit_bind_records specs =
     rbind (emit_bind_loop specs bind_state_default None) (\<lambda>out.
     Ok (out @ (if specs \<noteq> [] \<and> bs_terminate (last specs) then [0] else [])))"

definition emit_lazy_bind_record :: "u8 \<Rightarrow> u64 \<Rightarrow> u16 \<Rightarrow> str \<Rightarrow> bool \<Rightarrow> bytes" where
  "emit_lazy_bind_record segment_index segment_offset ordinal name weak_import =
     (0x70 OR (segment_index AND 0x0F)) # write_uleb segment_offset
     @ emit_bind_ordinal ordinal
     @ (0x40 OR bind_symbol_flags weak_import) # name @ [0]
     @ [0x90] @ [0]"

section \<open>Rebase sites\<close>

record rebase_site =
  rs_segment_index :: u8
  rs_segment_offset :: u64

definition emit_rebase_run :: "nat \<Rightarrow> bytes" where
  "emit_rebase_run n =
     (if n \<le> 0x0F then [0x50 OR of_nat n] else 0x60 # write_uleb (of_nat n))"

fun rebase_run :: "rebase_site \<Rightarrow> nat \<Rightarrow> rebase_site list \<Rightarrow> nat emitted" where
  "rebase_run first len [] = Ok len"
| "rebase_run first len (x # xs) =
     (if rs_segment_index x = rs_segment_index first then
        rbind (offset_at (rs_segment_offset first) len 8) (\<lambda>expected.
        if rs_segment_offset x = expected then rebase_run first (len + 1) xs else Ok len)
      else Ok len)"

text \<open>The loop over the sites of one segment; \<open>cursor\<close> is the offset the loader has reached.\<close>

lemma rebase_run_ge: "rebase_run f len xs = Ok n \<Longrightarrow> len \<le> n"
  by (induction f len xs arbitrary: n rule: rebase_run.induct) (fastforce simp: rbind_Ok_iff split: if_splits)+

function rebase_segment :: "rebase_site list \<Rightarrow> u8 \<Rightarrow> u64 \<Rightarrow> (bytes \<times> rebase_site list) emitted" where
  "rebase_segment [] si cursor = Ok ([], [])"
| "rebase_segment (s # rest) si cursor =
     (if rs_segment_index s = si then
        let jump = (if rs_segment_offset s > cursor then 0x30 # write_uleb (rs_segment_offset s - cursor) else []) in
        rbind (rebase_run s 1 rest) (\<lambda>run_len.
        rbind (offset_at (rs_segment_offset s) run_len 8) (\<lambda>cursor'.
        rbind (rebase_segment (drop (run_len - 1) rest) si cursor') (\<lambda>(out, rest').
        Ok (jump @ emit_rebase_run run_len @ out, rest'))))
      else Ok ([], s # rest))"
  by pat_completeness auto
termination
  by (relation "measure (\<lambda>(sites, _, _). length sites)") auto

lemma rebase_segment_rest: "rebase_segment xs si c = Ok (out, rest) \<Longrightarrow> length rest \<le> length xs"
  by (induction xs si c arbitrary: out rest rule: rebase_segment.induct)
    (fastforce simp: rbind_Ok_iff Let_def split: if_splits)+

lemma rebase_segment_first:
  assumes "rebase_segment (s # xs) (rs_segment_index s) c = Ok (out, rest)"
  shows "length rest \<le> length xs"
proof -
  obtain n c' out' where "rebase_segment (drop (n - 1) xs) (rs_segment_index s) c' = Ok (out', rest)"
    using assms by (auto simp: rbind_Ok_iff Let_def)
  from rebase_segment_rest [OF this] show ?thesis by simp
qed

function rebase_loop :: "rebase_site list \<Rightarrow> bytes emitted" where
  "rebase_loop [] = Ok []"
| "rebase_loop (s # rest) =
     rbind (rebase_segment (s # rest) (rs_segment_index s) (rs_segment_offset s)) (\<lambda>(out, rest').
     rbind (rebase_loop rest') (\<lambda>later.
     Ok ((0x20 OR rs_segment_index s) # write_uleb (rs_segment_offset s) @ out @ later)))"
  by pat_completeness auto
termination
  by (relation "measure length") (auto dest: rebase_segment_first simp del: rebase_segment.simps)

text \<open>
  \<^verbatim>\<open>build_rebase_stream\<close> after the sites are collected: they are sorted by segment and offset and
  adjacent duplicates are removed.
\<close>

definition site_cmp :: "rebase_site \<Rightarrow> rebase_site \<Rightarrow> ordering" where
  "site_cmp a b = then_with (cmp (rs_segment_index a) (rs_segment_index b))
     (cmp (rs_segment_offset a) (rs_segment_offset b))"

definition build_rebase_stream :: "rebase_site list \<Rightarrow> bytes emitted" where
  "build_rebase_stream sites =
     (if sites = [] then Ok []
      else
        let sites' = remdups_adj (sort_by site_cmp sites) in
        rbind (rebase_loop sites') (\<lambda>out. Ok (0x11 # out @ [0])))"

section \<open>The loader's reading of a bind stream\<close>

record loader =
  ld_segment :: u8
  ld_offset :: u64
  ld_ordinal :: int
  ld_symbol :: str
  ld_weak :: bool
  ld_type :: u8
  ld_addend :: i64

definition loader_start :: loader where
  "loader_start = \<lparr>ld_segment = 0, ld_offset = 0, ld_ordinal = 0, ld_symbol = [], ld_weak = False,
     ld_type = 0, ld_addend = 0\<rparr>"

definition read_cstr :: "bytes \<Rightarrow> (str \<times> nat) read" where
  "read_cstr bs =
     (case position (\<lambda>b. b = 0) bs of
        None \<Rightarrow> Err (Truncated (length bs + 1) (length bs) ''bind symbol'')
      | Some n \<Rightarrow> Ok (take n bs, n + 1))"

text \<open>The result lists the loader's state at every bind, in order.\<close>

function bind_exec :: "loader \<Rightarrow> bytes \<Rightarrow> loader list read" where
  "bind_exec ld [] = Ok []"
| "bind_exec ld (b # bs) =
     (let opcode = b AND 0xF0; imm = b AND 0x0F in
      if opcode = 0x00 then Ok []
      else if opcode = 0x10 then bind_exec (ld\<lparr>ld_ordinal := uint imm\<rparr>) bs
      else if opcode = 0x20 then
        rbind (read_uleb bs) (\<lambda>(v, n). bind_exec (ld\<lparr>ld_ordinal := sint (ucast v :: i32)\<rparr>) (drop n bs))
      else if opcode = 0x30 then
        bind_exec (ld\<lparr>ld_ordinal := (if imm = 0 then 0 else sint (signed_take_bit 3 imm))\<rparr>) bs
      else if opcode = 0x40 then
        rbind (read_cstr bs) (\<lambda>(s, n). bind_exec (ld\<lparr>ld_symbol := s, ld_weak := (imm AND 1 \<noteq> 0)\<rparr>) (drop n bs))
      else if opcode = 0x50 then bind_exec (ld\<lparr>ld_type := imm\<rparr>) bs
      else if opcode = 0x60 then
        rbind (read_sleb bs) (\<lambda>(v, n). bind_exec (ld\<lparr>ld_addend := v\<rparr>) (drop n bs))
      else if opcode = 0x70 then
        rbind (read_uleb bs) (\<lambda>(v, n). bind_exec (ld\<lparr>ld_segment := imm, ld_offset := v\<rparr>) (drop n bs))
      else if opcode = 0x80 then
        rbind (read_uleb bs) (\<lambda>(v, n). bind_exec (ld\<lparr>ld_offset := ld_offset ld + v\<rparr>) (drop n bs))
      else if opcode = 0x90 then
        rmap (Cons ld) (bind_exec (ld\<lparr>ld_offset := ld_offset ld + 8\<rparr>) bs)
      else if opcode = 0xA0 then
        rbind (read_uleb bs) (\<lambda>(v, n).
        rmap (Cons ld) (bind_exec (ld\<lparr>ld_offset := ld_offset ld + 8 + v\<rparr>) (drop n bs)))
      else if opcode = 0xB0 then
        rmap (Cons ld) (bind_exec (ld\<lparr>ld_offset := ld_offset ld + 8 + ucast imm * 8\<rparr>) bs)
      else if opcode = 0xC0 then
        rbind (read_uleb bs) (\<lambda>(times, n).
        rbind (read_uleb (drop n bs)) (\<lambda>(skip, m).
        rmap (append (map (\<lambda>i. ld\<lparr>ld_offset := ld_offset ld + of_nat i * (8 + skip)\<rparr>) [0..<unat times]))
          (bind_exec (ld\<lparr>ld_offset := ld_offset ld + times * (8 + skip)\<rparr>) (drop m (drop n bs)))))
      else Err (BadRelocation 0 ''unsupported bind opcode''))"
  by pat_completeness auto
termination
  by (relation "measure (\<lambda>(_, bs). length bs)") auto

declare bind_exec.simps(2) [simp del]

section \<open>One opcode at a time\<close>

lemma opcode_split:
  fixes hi lo :: u8
  assumes "hi AND 0xF0 = hi"
  shows "(hi OR (lo AND 0x0F)) AND 0xF0 = hi" and "(hi OR (lo AND 0x0F)) AND 0x0F = lo AND 0x0F"
proof -
  have m: "(0x0F :: u8) = mask 4" "(0xF0 :: u8) = push_bit 4 (mask 4)"
    by (simp_all add: mask_eq_exp_minus_1 push_bit_eq_mult)
  have h: "bit hi n \<Longrightarrow> 4 \<le> n" for n
    using arg_cong [OF assms, of "\<lambda>w. bit w n"] unfolding m by (auto simp: bit_simps)
  have n: "bit hi n \<Longrightarrow> n < 8" for n by (rule bit_u8_less)
  show "(hi OR (lo AND 0x0F)) AND 0xF0 = hi"
    unfolding m by (rule bit_word_eqI) (auto simp: bit_simps dest: h n)
  show "(hi OR (lo AND 0x0F)) AND 0x0F = lo AND 0x0F"
    unfolding m by (rule bit_word_eqI) (auto simp: bit_simps dest: h)
qed

lemma small_imm: "(lo :: u8) < 16 \<Longrightarrow> lo AND 0x0F = lo"
  using less_mask_eq [of lo 4] by (simp add: mask_eq_exp_minus_1)

definition ordinal_value :: "u16 \<Rightarrow> int" where
  "ordinal_value ord = (if - 8 \<le> sint ord \<and> sint ord \<le> - 1 then sint ord else uint ord)"

lemma exec_type: "bind_exec ld (0x51 # r) = bind_exec (ld\<lparr>ld_type := 1\<rparr>) r"
  by (simp add: bind_exec.simps(2))

lemma exec_addend: "bind_exec ld (0x60 # write_sleb v @ r) = bind_exec (ld\<lparr>ld_addend := v\<rparr>) r"
  by (simp add: bind_exec.simps(2) read_write_sleb)

lemma exec_add_addr: "bind_exec ld (0x80 # write_uleb v @ r) = bind_exec (ld\<lparr>ld_offset := ld_offset ld + v\<rparr>) r"
  by (simp add: bind_exec.simps(2) read_write_uleb)

lemma exec_bind: "bind_exec ld (0x90 # r) = rmap (Cons ld) (bind_exec (ld\<lparr>ld_offset := ld_offset ld + 8\<rparr>) r)"
  by (simp add: bind_exec.simps(2))

lemma exec_done: "bind_exec ld (0 # r) = Ok []"
  by (simp add: bind_exec.simps(2))

lemma exec_times:
  "bind_exec ld (0xC0 # write_uleb t @ write_uleb k @ r) =
     rmap (append (map (\<lambda>i. ld\<lparr>ld_offset := ld_offset ld + of_nat i * (8 + k)\<rparr>) [0..<unat t]))
       (bind_exec (ld\<lparr>ld_offset := ld_offset ld + t * (8 + k)\<rparr>) r)"
  by (simp add: bind_exec.simps(2) read_write_uleb)

lemma exec_segment:
  assumes "si < 16"
  shows "bind_exec ld ((0x70 OR (si AND 0x0F)) # write_uleb v @ r) = bind_exec (ld\<lparr>ld_segment := si, ld_offset := v\<rparr>) r"
  using opcode_split [of "0x70" si] small_imm [OF assms] by (simp add: bind_exec.simps(2) read_write_uleb)

lemma exec_symbol:
  assumes "0 \<notin> set s"
  shows "bind_exec ld ((0x40 OR bind_symbol_flags w) # s @ 0 # r) = bind_exec (ld\<lparr>ld_symbol := s, ld_weak := w\<rparr>) r"
proof -
  have "position (\<lambda>b. b = 0) (s @ 0 # r) = Some (length s)" using assms by (intro position_prefix) auto
  then have "read_cstr (s @ 0 # r) = Ok (s, length s + 1)" by (simp add: read_cstr_def)
  then show ?thesis by (cases w) (simp_all add: bind_exec.simps(2) bind_symbol_flags_def)
qed

lemma sint_of_u16: "sint (ucast (ucast (ord :: u16) :: u64) :: i32) = uint ord"
proof -
  have c: "(ucast (ucast ord :: u64) :: i32) = ucast ord" by (rule bit_word_eqI) (auto simp: bit_simps)
  have lt: "0 \<le> uint ord" "uint ord < 2 ^ 16" using uint_lt2p [of ord] by simp_all
  then have "uint (ucast ord :: i32) = uint ord"
    by (simp add: unsigned_ucast_eq take_bit_int_eq_self)
  moreover have "signed_take_bit 31 (uint ord) = uint ord"
    by (rule signed_take_bit_int_eq_self, rule order_trans [OF _ lt(1)]) (use lt(2) in simp_all)
  ultimately show ?thesis unfolding c by (simp add: sint_uint)
qed

lemma special_ordinals:
  "emit_bind_ordinal (- 8) = [0x38]" "emit_bind_ordinal (- 7) = [0x39]" "emit_bind_ordinal (- 6) = [0x3A]"
  "emit_bind_ordinal (- 5) = [0x3B]" "emit_bind_ordinal (- 4) = [0x3C]" "emit_bind_ordinal (- 3) = [0x3D]"
  "emit_bind_ordinal (- 2) = [0x3E]" "emit_bind_ordinal (- 1) = [0x3F]"
  by code_simp+

lemma special_values:
  "ordinal_value (- 8) = sint (signed_take_bit 3 (8 :: u8))" "ordinal_value (- 7) = sint (signed_take_bit 3 (9 :: u8))"
  "ordinal_value (- 6) = sint (signed_take_bit 3 (10 :: u8))" "ordinal_value (- 5) = sint (signed_take_bit 3 (11 :: u8))"
  "ordinal_value (- 4) = sint (signed_take_bit 3 (12 :: u8))" "ordinal_value (- 3) = sint (signed_take_bit 3 (13 :: u8))"
  "ordinal_value (- 2) = sint (signed_take_bit 3 (14 :: u8))" "ordinal_value (- 1) = sint (signed_take_bit 3 (15 :: u8))"
  by code_simp+

lemma exec_ordinal: "bind_exec ld (emit_bind_ordinal ord @ r) = bind_exec (ld\<lparr>ld_ordinal := ordinal_value ord\<rparr>) r"
proof -
  consider (special) "- 8 \<le> sint ord" "sint ord \<le> - 1"
    | (imm) "\<not> (- 8 \<le> sint ord \<and> sint ord \<le> - 1)" "ord \<le> 0x0F"
    | (uleb) "\<not> (- 8 \<le> sint ord \<and> sint ord \<le> - 1)" "\<not> ord \<le> 0x0F" by blast
  then show ?thesis
  proof cases
    case special
    have w: "sint ord = k \<Longrightarrow> ord = word_of_int k" for k by auto
    have "sint ord \<in> {- 8, - 7, - 6, - 5, - 4, - 3, - 2, - 1}" using special by auto
    then have "ord \<in> word_of_int ` {- 8, - 7, - 6, - 5, - 4, - 3, - 2, - 1}" using w by blast
    then have "ord \<in> {- 8, - 7, - 6, - 5, - 4, - 3, - 2, - 1}" by simp
    then show ?thesis
      by (elim insertE) (simp_all add: special_ordinals special_values bind_exec.simps(2))
  next
    case imm
    have lt: "unat ord < 16" using imm(2) by (simp add: word_le_nat_alt)
    then have u: "unat (ucast ord :: u8) = unat ord" by (simp add: unsigned_ucast_eq take_bit_nat_eq_self)
    then have s: "(ucast ord :: u8) < 16" using lt by (simp add: word_less_nat_alt)
    have "uint (ucast ord :: u8) = uint ord" using u by (metis uint_nat)
    then have v: "ordinal_value ord = uint (ucast ord :: u8)"
      unfolding ordinal_value_def if_not_P [OF imm(1)] by simp
    have e: "emit_bind_ordinal ord = [0x10 OR ucast ord]"
      unfolding emit_bind_ordinal_def if_not_P [OF imm(1)] if_P [OF imm(2)] ..
    show ?thesis
      using opcode_split [of "0x10" "ucast ord"] small_imm [OF s] by (simp add: e v bind_exec.simps(2))
  next
    case uleb
    then show ?thesis
      by (auto simp: emit_bind_ordinal_def ordinal_value_def bind_exec.simps(2) read_write_uleb sint_of_u16)
  qed
qed

section \<open>The emitted stream\<close>

text \<open>The loader's state when it binds a record.\<close>

definition loaded :: "bind_record_spec \<Rightarrow> loader" where
  "loaded spec = \<lparr>ld_segment = bs_segment_index spec, ld_offset = bs_segment_offset spec,
     ld_ordinal = ordinal_value (bs_ordinal spec), ld_symbol = bs_name spec, ld_weak = bs_weak_import spec,
     ld_type = 1, ld_addend = bs_addend spec\<rparr>"

definition spec_ok :: "bind_record_spec \<Rightarrow> bool" where
  "spec_ok spec \<longleftrightarrow> bs_segment_index spec < 16 \<and> 0 \<notin> set (bs_name spec) \<and> unat (bs_segment_offset spec) < 2 ^ 62"

definition in_sync :: "bind_state \<Rightarrow> str option \<Rightarrow> loader \<Rightarrow> bool" where
  "in_sync st cur ld \<longleftrightarrow>
     (\<forall>ord. st_ordinal st = Some ord \<longrightarrow> ld_ordinal ld = ordinal_value ord)
     \<and> (\<forall>n w. cur = Some n \<longrightarrow> st_weak_import st = Some w \<longrightarrow> ld_symbol ld = n \<and> ld_weak ld = w)
     \<and> ld_addend ld = st_addend st \<and> (st_pointer_type_set st \<longrightarrow> ld_type ld = 1)
     \<and> (\<forall>si off. st_segment_index st = Some si \<longrightarrow> st_next_segment_offset st = Some off
           \<longrightarrow> ld_segment ld = si \<and> ld_offset ld = off)"

lemma in_sync_start: "in_sync bind_state_default None loader_start"
  by (simp add: in_sync_def bind_state_default_def loader_start_def)

lemma in_sync_after: "in_sync (bind_state_after spec off) (Some (bs_name spec)) ((loaded spec)\<lparr>ld_offset := off\<rparr>)"
  by (simp add: in_sync_def bind_state_after_def loaded_def)

lemma loader_noop:
  "ld_ordinal ld = ord \<Longrightarrow> ld\<lparr>ld_ordinal := ord\<rparr> = ld"
  "ld_symbol ld = s \<Longrightarrow> ld_weak ld = w \<Longrightarrow> ld\<lparr>ld_symbol := s, ld_weak := w\<rparr> = ld"
  "ld_addend ld = a \<Longrightarrow> ld\<lparr>ld_addend := a\<rparr> = ld"
  "ld_type ld = t \<Longrightarrow> ld\<lparr>ld_type := t\<rparr> = ld"
  by (cases ld; simp)+

lemma exec_setup:
  assumes "in_sync st cur ld" and "spec_ok spec"
  shows "bind_exec ld (emit_bind_setup spec st cur @ r) = bind_exec (loaded spec) r"
proof -
  let ?l1 = "ld\<lparr>ld_ordinal := ordinal_value (bs_ordinal spec)\<rparr>"
  let ?l2 = "?l1\<lparr>ld_symbol := bs_name spec, ld_weak := bs_weak_import spec\<rparr>"
  let ?l3 = "?l2\<lparr>ld_addend := bs_addend spec\<rparr>"
  let ?l4 = "?l3\<lparr>ld_type := 1\<rparr>"
  have 1: "bind_exec ld ((if st_ordinal st \<noteq> Some (bs_ordinal spec) then emit_bind_ordinal (bs_ordinal spec) else []) @ x)
      = bind_exec ?l1 x" for x
    using assms(1) by (auto simp: exec_ordinal in_sync_def loader_noop)
  have 2: "bind_exec ?l1 ((if cur \<noteq> Some (bs_name spec) \<or> st_weak_import st \<noteq> Some (bs_weak_import spec)
        then (0x40 OR bind_symbol_flags (bs_weak_import spec)) # bs_name spec @ [0] else []) @ x) = bind_exec ?l2 x" for x
    using assms by (auto simp: exec_symbol in_sync_def spec_ok_def loader_noop)
  have 3: "bind_exec ?l2 ((if st_addend st \<noteq> bs_addend spec then 0x60 # write_sleb (bs_addend spec) else []) @ x)
      = bind_exec ?l3 x" for x
    using assms(1) by (auto simp: exec_addend in_sync_def loader_noop)
  have 4: "bind_exec ?l3 ((if \<not> st_pointer_type_set st then [0x51] else []) @ x) = bind_exec ?l4 x" for x
    using assms(1) by (auto simp: exec_type in_sync_def loader_noop)
  have seg: "bind_exec ?l4 ((0x70 OR (bs_segment_index spec AND 0x0F)) # write_uleb (bs_segment_offset spec) @ x)
      = bind_exec (loaded spec) x" for x
    using assms(2) by (cases ld) (simp add: exec_segment spec_ok_def loaded_def)
  have 5: "bind_exec ?l4 ((case (st_segment_index st, st_next_segment_offset st) of
        (Some si, Some off) \<Rightarrow>
          if si = bs_segment_index spec \<and> off = bs_segment_offset spec then []
          else if si = bs_segment_index spec \<and> off < bs_segment_offset spec
          then 0x80 # write_uleb (bs_segment_offset spec - off)
          else (0x70 OR (bs_segment_index spec AND 0x0F)) # write_uleb (bs_segment_offset spec)
      | _ \<Rightarrow> (0x70 OR (bs_segment_index spec AND 0x0F)) # write_uleb (bs_segment_offset spec)) @ x)
      = bind_exec (loaded spec) x" for x
  proof (cases "st_segment_index st = Some (bs_segment_index spec) \<and> st_next_segment_offset st \<noteq> None")
    case True
    then obtain off where o: "st_next_segment_offset st = Some off" by auto
    then have "ld_segment ld = bs_segment_index spec" "ld_offset ld = off"
      using assms(1) True by (auto simp: in_sync_def)
    then have "?l4 = (loaded spec)\<lparr>ld_offset := off\<rparr>" by (cases ld) (simp add: loaded_def)
    moreover have "(loaded spec)\<lparr>ld_offset := bs_segment_offset spec\<rparr> = loaded spec" by (simp add: loaded_def)
    ultimately show ?thesis using True o seg [of x] by (auto simp: exec_add_addr)
  next
    case False
    then show ?thesis using seg [of x] by (auto split: option.splits)
  qed
  show ?thesis unfolding emit_bind_setup_def append_assoc by (simp only: 1 2 3 4 5)
qed

lemma offset_at_ok:
  assumes "unat f + len * unat s < 2 ^ 64" and "0 < unat s"
  shows "offset_at f len s = Ok (f + of_nat len * s)" and "unat (f + of_nat len * s) = unat f + len * unat s"
proof -
  have "len \<le> len * unat s" using assms(2) by simp
  then have len: "len < 2 ^ 64" "len * unat s < 2 ^ 64" using assms(1) by linarith+
  then have l: "unat (of_nat len :: u64) = len" by (simp add: unat_of_nat)
  have m: "unat (of_nat len * s) = len * unat s"
    using len l by (simp add: unat_word_ariths)
  have "mul64 (of_nat len) s = (Ok (of_nat len * s) :: u64 emitted)"
    using len(2) l by (intro mul64_ok) simp
  moreover have "add64 f (of_nat len * s) = (Ok (f + of_nat len * s) :: u64 emitted)"
    using assms(1) m by (intro add64_ok) simp
  ultimately show "offset_at f len s = Ok (f + of_nat len * s)" by (simp add: offset_at_def)
  show "unat (f + of_nat len * s) = unat f + len * unat s"
    using assms(1) m by (simp add: unat_word_ariths)
qed

lemma run_loop_spec:
  assumes "\<forall>x \<in> set xs. spec_ok x" and "1 \<le> len" and "unat (bs_segment_offset f) + (len - 1) * unat s < 2 ^ 62"
    and "0 < unat s" and "unat s < 2 ^ 62"
  shows "\<exists>n. run_loop f s len xs = Ok n \<and> len \<le> n \<and> n \<le> len + length xs
      \<and> unat (bs_segment_offset f) + (n - 1) * unat s < 2 ^ 62
      \<and> (\<forall>j < n - len. same_symbol f (xs ! j) \<and> bs_segment_offset (xs ! j) = bs_segment_offset f + of_nat (len + j) * s)"
  using assms(1-3)
proof (induction xs arbitrary: len)
  case (Cons x xs)
  let ?e = "bs_segment_offset f + of_nat len * s"
  obtain k where k: "len = Suc k" using Cons.prems(2) by (cases len) auto
  have b: "unat (bs_segment_offset f) + len * unat s < 2 ^ 64"
    using Cons.prems(3) assms(5) by (simp add: k)
  note e = offset_at_ok [OF b assms(4)]
  show ?case
  proof (cases "same_symbol f x \<and> bs_segment_offset x = ?e")
    case True
    then have "unat (bs_segment_offset f) + (len + 1 - 1) * unat s < 2 ^ 62"
      using e(2) Cons.prems(1) by (simp add: spec_ok_def)
    then obtain n where n: "run_loop f s (len + 1) xs = Ok n" "len + 1 \<le> n" "n \<le> len + 1 + length xs"
        "unat (bs_segment_offset f) + (n - 1) * unat s < 2 ^ 62"
        "\<forall>j < n - (len + 1). same_symbol f (xs ! j) \<and> bs_segment_offset (xs ! j) = bs_segment_offset f + of_nat (len + 1 + j) * s"
      using Cons.IH [of "len + 1"] Cons.prems by auto
    have "same_symbol f ((x # xs) ! j) \<and> bs_segment_offset ((x # xs) ! j) = bs_segment_offset f + of_nat (len + j) * s"
      if "j < n - len" for j
      using n(2,5) True that by (cases j) auto
    then show ?thesis using n True e(1) by (intro exI [of _ n]) auto
  next
    case False
    then show ?thesis using e(1) Cons.prems(3) by auto
  qed
qed auto

lemma loaded_same:
  assumes "same_symbol f x"
  shows "loaded x = (loaded f)\<lparr>ld_offset := bs_segment_offset x\<rparr>"
  using assms by (simp add: same_symbol_def loaded_def)

lemma bind_run_spec:
  assumes "spec_ok spec" and "\<forall>x \<in> set rest. spec_ok x"
  shows "\<exists>n. bind_run_len spec rest = Ok n \<and> 1 \<le> n \<and> n \<le> Suc (length rest) \<and>
    (1 < n \<longrightarrow> (let s = bs_segment_offset (rest ! 0) - bs_segment_offset spec in
       8 \<le> unat s \<and> unat (bs_segment_offset spec) + n * unat s < 2 ^ 64 \<and>
       map loaded (spec # take (n - 1) rest)
         = map (\<lambda>i. (loaded spec)\<lparr>ld_offset := bs_segment_offset spec + of_nat i * s\<rparr>) [0..<n]))"
proof (cases "rest \<noteq> [] \<and> same_symbol spec (hd rest) \<and> bs_segment_offset (hd rest) \<ge> bs_segment_offset spec
    \<and> \<not> bs_segment_offset (hd rest) - bs_segment_offset spec < 8")
  case True
  then obtain nx xs where rest: "rest = nx # xs" by (cases rest) auto
  let ?f = "bs_segment_offset spec" and ?s = "bs_segment_offset nx - bs_segment_offset spec"
  have le: "?f \<le> bs_segment_offset nx" and s8: "8 \<le> unat ?s"
    using True rest by (auto simp: word_less_nat_alt not_less)
  have us: "unat ?s = unat (bs_segment_offset nx) - unat ?f" using le by (simp add: unat_sub)
  have small: "unat (bs_segment_offset nx) < 2 ^ 62" using assms(2) rest by (simp add: spec_ok_def)
  have b: "unat ?f + (2 - 1) * unat ?s < 2 ^ 62" "unat ?s < 2 ^ 62"
    using us small le by (auto simp: word_le_nat_alt)
  have "\<exists>n. run_loop spec ?s 2 xs = Ok n \<and> 2 \<le> n \<and> n \<le> 2 + length xs \<and> unat ?f + (n - 1) * unat ?s < 2 ^ 62
      \<and> (\<forall>j < n - 2. same_symbol spec (xs ! j) \<and> bs_segment_offset (xs ! j) = ?f + of_nat (2 + j) * ?s)"
    using assms(2) rest b s8 by (intro run_loop_spec) auto
  then obtain n where n: "run_loop spec ?s 2 xs = Ok n" "2 \<le> n" "n \<le> 2 + length xs"
      "unat ?f + (n - 1) * unat ?s < 2 ^ 62"
      "\<forall>j < n - 2. same_symbol spec (xs ! j) \<and> bs_segment_offset (xs ! j) = ?f + of_nat (2 + j) * ?s" by blast
  have "bind_run_len spec rest = Ok n" using True rest n(1) by (simp add: bind_run_len_def Let_def)
  moreover have "unat ?f + n * unat ?s < 2 ^ 64"
  proof -
    obtain k where "n = Suc k" using n(2) by (cases n) auto
    then show ?thesis using n(4) b(2) by simp
  qed
  moreover have "map loaded (spec # take (n - 1) rest)
      = map (\<lambda>i. (loaded spec)\<lparr>ld_offset := ?f + of_nat i * ?s\<rparr>) [0..<n]"
  proof (rule nth_equalityI)
    show "length (map loaded (spec # take (n - 1) rest))
        = length (map (\<lambda>i. (loaded spec)\<lparr>ld_offset := ?f + of_nat i * ?s\<rparr>) [0..<n])"
      using n(2,3) rest by simp
    fix i assume i: "i < length (map loaded (spec # take (n - 1) rest))"
    then have "i < n" using n(2,3) rest by simp
    have "loaded ((spec # take (n - 1) rest) ! i) = (loaded spec)\<lparr>ld_offset := ?f + of_nat i * ?s\<rparr>"
    proof -
      consider "i = 0" | "i = 1" | j where "i = Suc (Suc j)" by (metis One_nat_def not0_implies_Suc)
      then show ?thesis
      proof cases
        case 1
        then show ?thesis by (simp add: loaded_def)
      next
        case 2
        then show ?thesis using True rest loaded_same [of spec nx] n(2) by simp
      next
        case 3
        then have "j < n - 2" using \<open>i < n\<close> by simp
        then show ?thesis using n(5) 3 rest loaded_same [of spec "xs ! j"] by simp
      qed
    qed
    then show "map loaded (spec # take (n - 1) rest) ! i
        = map (\<lambda>i. (loaded spec)\<lparr>ld_offset := ?f + of_nat i * ?s\<rparr>) [0..<n] ! i"
      using i \<open>i < n\<close> by (simp del: list.map(2))
  qed
  ultimately show ?thesis using n(2,3) s8 rest by (intro exI [of _ n]) (simp add: Let_def)
next
  case False
  then have "bind_run_len spec rest = Ok 1"
    by (auto simp: bind_run_len_def Let_def split: list.splits)
  then show ?thesis by simp
qed

lemma single_bind:
  assumes "in_sync st cur ld" and "spec_ok spec"
    and "\<And>ld'. in_sync (bind_state_after spec (bs_segment_offset spec + 8)) (Some (bs_name spec)) ld' \<Longrightarrow>
      bind_exec ld' (later @ r) = Ok ls"
  shows "bind_exec ld (emit_bind_setup spec st cur @ 0x90 # later @ r) = Ok (loaded spec # ls)"
proof -
  have "bind_exec ((loaded spec)\<lparr>ld_offset := bs_segment_offset spec + 8\<rparr>) (later @ r) = Ok ls"
    by (rule assms(3) [OF in_sync_after])
  then show ?thesis using exec_setup [OF assms(1,2)] by (simp add: exec_bind) (simp add: loaded_def)
qed

lemma emit_bind_loop_exec:
  assumes "\<And>ld. bind_exec ld r = Ok []"
  shows "\<forall>x \<in> set specs. spec_ok x \<Longrightarrow>
    \<exists>out. emit_bind_loop specs st cur = Ok out
      \<and> (\<forall>ld. in_sync st cur ld \<longrightarrow> bind_exec ld (out @ r) = Ok (map loaded specs))"
proof (induction specs st cur rule: emit_bind_loop.induct)
  case (1 st cur)
  then show ?case using assms by simp
next
  case (2 spec rest st cur)
  let ?off = "bs_segment_offset spec"
  have ok: "spec_ok spec" "\<forall>x \<in> set rest. spec_ok x" using "2.prems" by auto
  obtain n where n: "bind_run_len spec rest = Ok n" "1 \<le> n" "n \<le> Suc (length rest)"
    and run: "1 < n \<longrightarrow> (let s = bs_segment_offset (rest ! 0) - ?off in
       8 \<le> unat s \<and> unat ?off + n * unat s < 2 ^ 64 \<and> map loaded (spec # take (n - 1) rest)
         = map (\<lambda>i. (loaded spec)\<lparr>ld_offset := ?off + of_nat i * s\<rparr>) [0..<n])"
    using bind_run_spec [OF ok] by blast
  have next8: "add64 ?off 8 = (Ok (?off + 8) :: u64 emitted)" using ok(1) by (intro add64_ok) (simp add: spec_ok_def)
  show ?case
  proof (cases "1 < n")
    case False
    then obtain later where l: "emit_bind_loop rest (bind_state_after spec (?off + 8)) (Some (bs_name spec)) = Ok later"
      "\<And>ld. in_sync (bind_state_after spec (?off + 8)) (Some (bs_name spec)) ld \<Longrightarrow> bind_exec ld (later @ r) = Ok (map loaded rest)"
      using "2.IH"(3) [OF refl n(1) _ next8 ok(2)] by auto
    show ?thesis
      using False n(1) next8 l single_bind [OF _ ok(1) l(2)] by (auto simp: emit_bind_loop.simps(2) Let_def)
  next
    case True
    then obtain nx xs where rest: "rest = nx # xs" using n(3) by (cases rest) auto
    have ix: "index rest 0 = (Ok (rest ! 0) :: bind_record_spec emitted)" by (simp add: rest)
    let ?s = "bs_segment_offset (rest ! 0) - ?off"
    have r: "8 \<le> unat ?s" "unat ?off + n * unat ?s < 2 ^ 64"
        "map loaded (spec # take (n - 1) rest) = map (\<lambda>i. (loaded spec)\<lparr>ld_offset := ?off + of_nat i * ?s\<rparr>) [0..<n]"
      using run True by (simp_all add: Let_def)
    show ?thesis
    proof (cases "n = 2 \<and> ?s = 8")
      case pair: True
      then obtain later where l: "emit_bind_loop rest (bind_state_after spec (?off + 8)) (Some (bs_name spec)) = Ok later"
        "\<And>ld. in_sync (bind_state_after spec (?off + 8)) (Some (bs_name spec)) ld \<Longrightarrow> bind_exec ld (later @ r) = Ok (map loaded rest)"
        using "2.IH"(1) [OF refl n(1) True ix refl pair next8 ok(2)] by auto
      show ?thesis
        using True pair n(1) next8 l single_bind [OF _ ok(1) l(2)] by (auto simp: emit_bind_loop.simps(2) Let_def ix)
    next
      case batch: False
      have pos: "0 < unat ?s" using r(1) by simp
      note at = offset_at_ok [OF r(2) pos]
      let ?next = "?off + of_nat n * ?s"
      have sub: "\<forall>x \<in> set (drop (n - 1) rest). spec_ok x" using ok(2) by (meson in_set_dropD)
      obtain later where l: "emit_bind_loop (drop (n - 1) rest) (bind_state_after spec ?next) (Some (bs_name spec)) = Ok later"
        "\<And>ld. in_sync (bind_state_after spec ?next) (Some (bs_name spec)) ld \<Longrightarrow>
          bind_exec ld (later @ r) = Ok (map loaded (drop (n - 1) rest))"
        using "2.IH"(2) [OF refl n(1) True ix refl batch at(1) sub] by auto
      have "n \<le> n * unat ?s" using pos by simp
      then have "n < 2 ^ 64" using r(2) by linarith
      then have un: "unat (of_nat n :: u64) = n" by (simp add: unat_of_nat)
      have "bind_exec ld (emit_bind_setup spec st cur @ 0xC0 # write_uleb (of_nat n) @ write_uleb (?s - 8) @ later @ r)
          = Ok (map loaded (spec # rest))" if "in_sync st cur ld" for ld
      proof -
        have nx: "bind_exec ((loaded spec)\<lparr>ld_offset := ?next\<rparr>) (later @ r) = Ok (map loaded (drop (n - 1) rest))"
          by (rule l(2) [OF in_sync_after])
        have off: "ld_offset (loaded spec) = ?off" by (simp add: loaded_def)
        have "bind_exec ld (emit_bind_setup spec st cur @ 0xC0 # write_uleb (of_nat n) @ write_uleb (?s - 8) @ later @ r)
            = Ok (map loaded (spec # take (n - 1) rest) @ map loaded (drop (n - 1) rest))"
          using nx r(3) by (simp add: exec_setup [OF that ok(1)] exec_times un off)
        then show ?thesis by (simp flip: map_append)
      qed
      then show ?thesis
        using True batch n(1) ix at(1) l(1) by (auto simp: emit_bind_loop.simps(2) Let_def)
    qed
  qed
qed

text \<open>
  C16: Interpreting the emitted bind stream performs exactly the requested binds, in order: same
  segment, offset, library ordinal, symbol, weak flag and addend, always of pointer type. Emitting
  never panics. Segment indices fit the four-bit immediate, names hold no NUL, and offsets are below
  \<open>2 ^ 62\<close>.
\<close>

theorem bind_stream_faithful:
  assumes "\<forall>x \<in> set specs. spec_ok x"
  shows "\<exists>out. emit_bind_records specs = Ok out \<and> bind_exec loader_start out = Ok (map loaded specs)"
proof -
  let ?r = "if specs \<noteq> [] \<and> bs_terminate (last specs) then [0] else []"
  have "bind_exec ld ?r = Ok []" for ld by (simp add: exec_done)
  from emit_bind_loop_exec [OF this assms, of bind_state_default None] show ?thesis
    using in_sync_start by (auto simp: emit_bind_records_def)
qed

text \<open>
  A lazy-binding record binds exactly its symbol at its slot: interpreting it, whatever follows,
  yields the one bind and stops.
\<close>

theorem lazy_bind_faithful:
  assumes "si < 16" and "0 \<notin> set name"
  shows "bind_exec ld (emit_lazy_bind_record si off ord name weak @ rest) =
    Ok [ld\<lparr>ld_segment := si, ld_offset := off, ld_ordinal := ordinal_value ord, ld_symbol := name, ld_weak := weak\<rparr>]"
  using assms by (simp add: emit_lazy_bind_record_def exec_segment exec_ordinal exec_symbol exec_bind exec_done)

section \<open>The loader's reading of a rebase stream\<close>

function rebase_exec :: "u8 \<Rightarrow> u64 \<Rightarrow> bytes \<Rightarrow> rebase_site list read" where
  "rebase_exec si off [] = Ok []"
| "rebase_exec si off (b # bs) =
     (let opcode = b AND 0xF0; imm = b AND 0x0F;
          times = (\<lambda>k step. map (\<lambda>i. \<lparr>rs_segment_index = si, rs_segment_offset = off + of_nat i * step\<rparr>) [0..<k]) in
      if opcode = 0x00 then Ok []
      else if opcode = 0x10 then rebase_exec si off bs
      else if opcode = 0x20 then rbind (read_uleb bs) (\<lambda>(v, n). rebase_exec imm v (drop n bs))
      else if opcode = 0x30 then rbind (read_uleb bs) (\<lambda>(v, n). rebase_exec si (off + v) (drop n bs))
      else if opcode = 0x40 then rebase_exec si (off + ucast imm * 8) bs
      else if opcode = 0x50 then
        rmap (append (times (unat imm) 8)) (rebase_exec si (off + of_nat (unat imm) * 8) bs)
      else if opcode = 0x60 then
        rbind (read_uleb bs) (\<lambda>(v, n). rmap (append (times (unat v) 8)) (rebase_exec si (off + v * 8) (drop n bs)))
      else if opcode = 0x70 then
        rbind (read_uleb bs) (\<lambda>(v, n). rmap (append (times 1 8)) (rebase_exec si (off + 8 + v) (drop n bs)))
      else if opcode = 0x80 then
        rbind (read_uleb bs) (\<lambda>(v, n). rbind (read_uleb (drop n bs)) (\<lambda>(skip, m).
        rmap (append (times (unat v) (8 + skip))) (rebase_exec si (off + v * (8 + skip)) (drop m (drop n bs)))))
      else Err (BadRelocation 0 ''unsupported rebase opcode''))"
  by pat_completeness auto
termination
  by (relation "measure (\<lambda>(_, _, bs). length bs)") auto

declare rebase_exec.simps(2) [simp del]

definition run_sites :: "u8 \<Rightarrow> u64 \<Rightarrow> nat \<Rightarrow> rebase_site list" where
  "run_sites si off n = map (\<lambda>i. \<lparr>rs_segment_index = si, rs_segment_offset = off + of_nat i * 8\<rparr>) [0..<n]"

lemma rexec_done: "rebase_exec si off (0 # r) = Ok []"
  by (simp add: rebase_exec.simps(2))

lemma rexec_jump: "rebase_exec si off (0x30 # write_uleb v @ r) = rebase_exec si (off + v) r"
  by (simp add: rebase_exec.simps(2) read_write_uleb)

lemma rexec_segment: "s < 16 \<Longrightarrow> rebase_exec si off ((0x20 OR s) # write_uleb v @ r) = rebase_exec s v r"
  using opcode_split [of "0x20" s] small_imm [of s] by (simp add: rebase_exec.simps(2) read_write_uleb)

lemma rexec_run:
  assumes "n < 2 ^ 64"
  shows "rebase_exec si off (emit_rebase_run n @ r) = rmap (append (run_sites si off n)) (rebase_exec si (off + of_nat n * 8) r)"
proof (cases "n \<le> 15")
  case True
  then have u: "unat (of_nat n :: u8) = n" by (simp add: unat_of_nat)
  then have s: "(of_nat n :: u8) < 16" using True by (simp add: word_less_nat_alt)
  have c: "ucast (of_nat n :: u8) = (of_nat n :: u64)" using u by (metis of_nat_unat)
  show ?thesis
    using True opcode_split [of "0x50" "of_nat n"] small_imm [OF s] u c
    by (simp add: emit_rebase_run_def rebase_exec.simps(2) run_sites_def)
next
  case False
  have "unat (of_nat n :: u64) = n" using assms by (simp add: unat_of_nat)
  then show ?thesis using False by (simp add: emit_rebase_run_def rebase_exec.simps(2) run_sites_def read_write_uleb)
qed

text \<open>Sites in ascending order whose pointers do not overlap.\<close>

definition site_before :: "rebase_site \<Rightarrow> rebase_site \<Rightarrow> bool" where
  "site_before a b \<longleftrightarrow> rs_segment_index a < rs_segment_index b \<or>
     rs_segment_index a = rs_segment_index b \<and> unat (rs_segment_offset a) + 8 \<le> unat (rs_segment_offset b)"

definition site_ok :: "rebase_site \<Rightarrow> bool" where
  "site_ok s \<longleftrightarrow> rs_segment_index s < 16 \<and> unat (rs_segment_offset s) < 2 ^ 62"

lemma rebase_run_spec:
  assumes "\<forall>x \<in> set xs. site_ok x" and "1 \<le> len" and "unat (rs_segment_offset f) + (len - 1) * 8 < 2 ^ 62"
  shows "\<exists>n. rebase_run f len xs = Ok n \<and> len \<le> n \<and> n \<le> len + length xs
    \<and> unat (rs_segment_offset f) + (n - 1) * 8 < 2 ^ 62
    \<and> (\<forall>j < n - len. xs ! j = \<lparr>rs_segment_index = rs_segment_index f,
         rs_segment_offset = rs_segment_offset f + of_nat (len + j) * 8\<rparr>)"
  using assms
proof (induction xs arbitrary: len)
  case (Cons x xs)
  have b: "unat (rs_segment_offset f) + len * unat (8 :: u64) < 2 ^ 64" using Cons.prems(2,3) by simp
  have pos: "0 < unat (8 :: u64)" by simp
  note e = offset_at_ok [OF b pos]
  show ?case
  proof (cases "rs_segment_index x = rs_segment_index f \<and> rs_segment_offset x = rs_segment_offset f + of_nat len * 8")
    case True
    then have "unat (rs_segment_offset f) + (len + 1 - 1) * 8 < 2 ^ 62"
      using e(2) Cons.prems(1) by (simp add: site_ok_def)
    then obtain n where n: "rebase_run f (len + 1) xs = Ok n" "len + 1 \<le> n" "n \<le> len + 1 + length xs"
        "unat (rs_segment_offset f) + (n - 1) * 8 < 2 ^ 62"
        "\<forall>j < n - (len + 1). xs ! j = \<lparr>rs_segment_index = rs_segment_index f,
           rs_segment_offset = rs_segment_offset f + of_nat (len + 1 + j) * 8\<rparr>"
      using Cons.IH [of "len + 1"] Cons.prems by auto
    have "(x # xs) ! j = \<lparr>rs_segment_index = rs_segment_index f, rs_segment_offset = rs_segment_offset f + of_nat (len + j) * 8\<rparr>"
      if "j < n - len" for j
      using n(2,5) True that by (cases j) auto
    then show ?thesis using n True e(1) by (intro exI [of _ n]) auto
  next
    case False
    then show ?thesis using e(1) Cons.prems(3) by auto
  qed
qed auto

lemma run_sites_take:
  assumes "n - 1 \<le> length xs" and "1 \<le> n"
    and "\<forall>j < n - 1. xs ! j = \<lparr>rs_segment_index = rs_segment_index f, rs_segment_offset = rs_segment_offset f + of_nat (1 + j) * 8\<rparr>"
  shows "f # take (n - 1) xs = run_sites (rs_segment_index f) (rs_segment_offset f) n"
proof (rule nth_equalityI)
  show "length (f # take (n - 1) xs) = length (run_sites (rs_segment_index f) (rs_segment_offset f) n)"
    using assms(1,2) by (simp add: run_sites_def)
  fix i assume "i < length (f # take (n - 1) xs)"
  then show "(f # take (n - 1) xs) ! i = run_sites (rs_segment_index f) (rs_segment_offset f) n ! i"
    using assms by (cases i) (auto simp: run_sites_def)
qed

declare rebase_segment.simps(2) [simp del]

lemma rmap_ident: "rmap (\<lambda>x. x) m = m"
  by (cases m) auto

lemma rebase_segment_exec:
  "\<forall>x \<in> set sites. site_ok x \<Longrightarrow> sorted_wrt site_before sites \<Longrightarrow>
   \<forall>x \<in> set sites. rs_segment_index x = si \<longrightarrow> unat cursor \<le> unat (rs_segment_offset x) \<Longrightarrow>
   \<exists>out rest pre. rebase_segment sites si cursor = Ok (out, rest) \<and> sites = pre @ rest
     \<and> (\<forall>r. \<exists>c. rebase_exec si cursor (out @ r) = rmap (append pre) (rebase_exec si c r))"
proof (induction sites si cursor rule: rebase_segment.induct)
  case (1 si cursor)
  show ?case by (intro exI [of _ "[]"]) (auto simp: rmap_ident)
next
  case (2 s rest si cursor)
  show ?case
  proof (cases "rs_segment_index s = si")
    case False
    then show ?thesis
      by (intro exI [of _ "[]"] exI [of _ "s # rest"]) (auto simp: rebase_segment.simps(2) rmap_ident)
  next
    case True
    let ?o = "rs_segment_offset s"
    let ?jump = "if ?o > cursor then 0x30 # write_uleb (?o - cursor) else []"
    have jump: "rebase_exec si cursor (?jump @ r) = rebase_exec si ?o r" for r
    proof (cases "?o > cursor")
      case False
      then have "?o = cursor" using "2.prems"(3) True by (simp add: word_le_nat_alt [symmetric])
      then show ?thesis by simp
    qed (simp add: rexec_jump)
    obtain n where n: "rebase_run s 1 rest = Ok n" "1 \<le> n" "n \<le> 1 + length rest" "unat ?o + (n - 1) * 8 < 2 ^ 62"
        "\<forall>j < n - 1. rest ! j = \<lparr>rs_segment_index = rs_segment_index s, rs_segment_offset = ?o + of_nat (1 + j) * 8\<rparr>"
      using rebase_run_spec [of rest 1 s] "2.prems"(1) by (auto simp: site_ok_def)
    have b: "unat ?o + n * unat (8 :: u64) < 2 ^ 64" using n(4) by simp
    have pos: "0 < unat (8 :: u64)" by simp
    note at = offset_at_ok [OF b pos]
    let ?c = "?o + of_nat n * 8"
    let ?later = "drop (n - 1) rest"
    have run: "s # take (n - 1) rest = run_sites si ?o n" using run_sites_take [of n rest s] n True by simp
    have later: "unat ?c \<le> unat (rs_segment_offset x)" if xin: "x \<in> set ?later" and xsi: "rs_segment_index x = si" for x
    proof -
      obtain j where "j < length ?later" "x = ?later ! j" using xin unfolding in_set_conv_nth by blast
      then have j: "n - 1 + j < length rest" "x = rest ! (n - 1 + j)" by auto
      let ?l = "(s # rest) ! (n - 1)"
      have bf: "site_before ?l x"
      proof -
        have "sorted_wrt site_before (s # rest)" by (rule "2.prems"(2))
        then show ?thesis using j n(2) sorted_wrt_nth_less [of site_before "s # rest" "n - 1" "Suc (n - 1 + j)"] by simp
      qed
      have "?l = (s # take (n - 1) rest) ! (n - 1)" using n(2) by (cases "n = 1") (auto simp: nth_Cons')
      then have "?l = run_sites si ?o n ! (n - 1)" unfolding run .
      then have l: "rs_segment_index ?l = si" "rs_segment_offset ?l = ?o + of_nat (n - 1) * 8"
        using n(2) by (auto simp: run_sites_def)
      have "unat ?o + (n - 1) * unat (8 :: u64) < 2 ^ 64" using n(4) by simp
      from offset_at_ok(2) [OF this pos] have "unat (rs_segment_offset ?l) = unat ?o + (n - 1) * 8" using l(2) by simp
      moreover have "unat (rs_segment_offset ?l) + 8 \<le> unat (rs_segment_offset x)"
        using bf l(1) xsi by (simp add: site_before_def)
      ultimately show ?thesis using at(2) n(2) by simp
    qed
    have sub: "\<forall>x \<in> set ?later. site_ok x" using "2.prems"(1) by (meson in_set_dropD list.set_intros(2))
    have sd: "sorted_wrt site_before ?later" using "2.prems"(2) by (simp add: sorted_wrt_drop)
    obtain out rest' pre where ih: "rebase_segment ?later si ?c = Ok (out, rest')" "?later = pre @ rest'"
        "\<And>r. \<exists>c. rebase_exec si ?c (out @ r) = rmap (append pre) (rebase_exec si c r)"
      using "2.IH" [OF True refl n(1) at(1) sub sd] later by blast
    have n64: "n < 2 ^ 64" using n(4) by simp
    have "\<exists>c. rebase_exec si cursor (?jump @ emit_rebase_run n @ out @ r)
        = rmap (append ((s # take (n - 1) rest) @ pre)) (rebase_exec si c r)" for r
    proof -
      obtain c where c: "rebase_exec si ?c (out @ r) = rmap (append pre) (rebase_exec si c r)" using ih(3) by blast
      have "rebase_exec si cursor (?jump @ emit_rebase_run n @ out @ r)
          = rmap (append (run_sites si ?o n)) (rmap (append pre) (rebase_exec si c r))"
        by (simp only: jump rexec_run [OF n64] c)
      also have "\<dots> = rmap (append ((s # take (n - 1) rest) @ pre)) (rebase_exec si c r)"
        unfolding run by (cases "rebase_exec si c r") auto
      finally show ?thesis by blast
    qed
    moreover have "s # rest = ((s # take (n - 1) rest) @ pre) @ rest'"
      using ih(2) append_take_drop_id [of "n - 1" rest] by simp
    moreover have "rebase_segment (s # rest) si cursor = Ok (?jump @ emit_rebase_run n @ out, rest')"
      using True n(1) at(1) ih(1) by (simp add: rebase_segment.simps(2) Let_def)
    ultimately show ?thesis by (metis append.assoc)
  qed
qed

lemma rebase_loop_exec:
  "\<forall>x \<in> set sites. site_ok x \<Longrightarrow> sorted_wrt site_before sites \<Longrightarrow>
   \<exists>out. rebase_loop sites = Ok out \<and> (\<forall>si off. rebase_exec si off (out @ [0]) = Ok sites)"
proof (induction sites rule: rebase_loop.induct)
  case 1
  then show ?case by (simp add: rexec_done)
next
  case (2 s rest)
  let ?si = "rs_segment_index s" and ?o = "rs_segment_offset s"
  have first: "\<forall>x \<in> set (s # rest). rs_segment_index x = ?si \<longrightarrow> unat ?o \<le> unat (rs_segment_offset x)"
    using "2.prems"(2) by (auto simp: site_before_def)
  obtain out rest' pre where seg: "rebase_segment (s # rest) ?si ?o = Ok (out, rest')" "s # rest = pre @ rest'"
      "\<And>r. \<exists>c. rebase_exec ?si ?o (out @ r) = rmap (append pre) (rebase_exec ?si c r)"
    using rebase_segment_exec [OF "2.prems" first] by blast
  have "\<forall>x \<in> set rest'. site_ok x" "sorted_wrt site_before rest'"
    using "2.prems" unfolding seg(2) by (auto simp: sorted_wrt_append)
  then obtain later where l: "rebase_loop rest' = Ok later" "\<And>si off. rebase_exec si off (later @ [0]) = Ok rest'"
    using "2.IH" [OF seg(1) refl] by blast
  have "rebase_exec si off ((0x20 OR ?si) # write_uleb ?o @ out @ later @ [0]) = Ok (s # rest)" for si off
  proof -
    obtain c where "rebase_exec ?si ?o (out @ later @ [0]) = rmap (append pre) (rebase_exec ?si c (later @ [0]))"
      using seg(3) by blast
    moreover have "?si < 16" using "2.prems"(1) by (simp add: site_ok_def)
    ultimately show ?thesis using l(2) seg(2) by (simp add: rexec_segment)
  qed
  then show ?case using seg(1) l(1) by simp
qed

lemma sorted_wrt_distinct_mono:
  "sorted_wrt P xs \<Longrightarrow> distinct xs \<Longrightarrow> (\<And>a b. a \<in> set xs \<Longrightarrow> b \<in> set xs \<Longrightarrow> P a b \<Longrightarrow> a \<noteq> b \<Longrightarrow> Q a b)
   \<Longrightarrow> sorted_wrt Q xs"
  by (induction xs) auto

lemma sites_strict:
  assumes "\<forall>a \<in> set sites. \<forall>b \<in> set sites. rs_segment_index a = rs_segment_index b \<longrightarrow> a \<noteq> b \<longrightarrow>
      rs_segment_offset a < rs_segment_offset b \<longrightarrow> unat (rs_segment_offset a) + 8 \<le> unat (rs_segment_offset b)"
    and "sorted_wrt (\<lambda>a b. site_cmp a b \<noteq> Greater) xs" and "set xs \<subseteq> set sites"
  shows "sorted_wrt site_before (remdups_adj xs)"
proof -
  have "sorted_wrt (\<lambda>a b. site_cmp a b \<noteq> Greater) (remdups_adj xs)"
    using assms(2) by (induction xs rule: remdups_adj.induct) auto
  moreover have "distinct (remdups_adj xs)"
    using assms(2)
  proof (induction xs rule: remdups_adj.induct)
    case (3 x y xs)
    have eq: "a = b" if "site_cmp a b \<noteq> Greater" "site_cmp b a \<noteq> Greater" for a b
      using that by (auto simp: site_cmp_def cmp_def split: if_splits)
    have "x \<notin> set (y # xs)" if "x \<noteq> y"
      using 3(3) that eq by auto
    then show ?case using 3 by auto
  qed auto
  moreover have "set (remdups_adj xs) \<subseteq> set sites" using assms(3) by simp
  moreover have "site_before a b"
    if "a \<in> set sites" "b \<in> set sites" "site_cmp a b \<noteq> Greater" "a \<noteq> b" for a b
    using that assms(1) by (auto simp: site_cmp_def site_before_def cmp_def split: if_splits)
  ultimately show ?thesis by (elim sorted_wrt_distinct_mono) blast+
qed

interpretation site_order: comparator site_cmp
proof (unfold_locales, goal_cases)
  case (1 x)
  then show ?case by (simp add: site_cmp_def)
next
  case (2 x y)
  then show ?case by (auto simp: site_cmp_def)
next
  case (3 x y z)
  then show ?case by (auto simp: site_cmp_def)
qed

text \<open>
  C17: Interpreting the rebase stream built from any sites slides exactly those sites, each once, in
  ascending order. Building never panics. Segment indices fit the four-bit immediate, offsets are
  below \<open>2 ^ 62\<close>, and two pointers of one segment do not overlap.
\<close>

theorem rebase_stream_faithful:
  assumes "\<forall>x \<in> set sites. site_ok x"
    and "\<forall>a \<in> set sites. \<forall>b \<in> set sites. rs_segment_index a = rs_segment_index b \<longrightarrow> a \<noteq> b \<longrightarrow>
      rs_segment_offset a < rs_segment_offset b \<longrightarrow> unat (rs_segment_offset a) + 8 \<le> unat (rs_segment_offset b)"
  shows "\<exists>out slid. build_rebase_stream sites = Ok out \<and> rebase_exec 0 0 out = Ok slid
    \<and> set slid = set sites \<and> sorted_wrt site_before slid"
proof (cases "sites = []")
  case True
  then show ?thesis by (simp add: build_rebase_stream_def)
next
  case False
  let ?s = "remdups_adj (sort_by site_cmp sites)"
  have st: "sorted_wrt site_before ?s"
    using site_order.sorted_sort_by [of sites]
    by (intro sites_strict [OF assms(2)]) (simp_all add: sorted_by_def)
  moreover have "\<forall>x \<in> set ?s. site_ok x" using assms(1) by simp
  ultimately obtain out where "rebase_loop ?s = Ok out" "rebase_exec 0 0 (out @ [0]) = Ok ?s"
    using rebase_loop_exec by blast
  moreover have "rebase_exec 0 0 (0x11 # out @ [0]) = rebase_exec 0 0 (out @ [0])"
    by (simp add: rebase_exec.simps(2))
  ultimately show ?thesis using False st by (simp add: build_rebase_stream_def)
qed

text \<open>
  Without the last condition the stream is wrong rather than refused: for pointers at the
  overlapping offsets 0 and 4 the loader slides 0 and 8.
\<close>

theorem overlapping_rebase_misplaced:
  "(case build_rebase_stream [\<lparr>rs_segment_index = 2, rs_segment_offset = 0\<rparr>, \<lparr>rs_segment_index = 2, rs_segment_offset = 4\<rparr>] of
      Ok out \<Rightarrow> rebase_exec 0 0 out
    | _ \<Rightarrow> Ok [])
   = Ok [\<lparr>rs_segment_index = 2, rs_segment_offset = 0\<rparr>, \<lparr>rs_segment_index = 2, rs_segment_offset = 8\<rparr>]"
  by code_simp

section \<open>Witnesses\<close>

definition sample_bind :: "u64 \<Rightarrow> bind_record_spec" where
  "sample_bind off = \<lparr>bs_segment_index = 2, bs_segment_offset = off, bs_ordinal = 1, bs_name = [0x5f, 0x61],
     bs_weak_import = False, bs_addend = 0, bs_terminate = True\<rparr>"

theorem bind_stream_faithful_witness:
  "\<exists>out. emit_bind_records [sample_bind 0, sample_bind 0x18, sample_bind 0x30] = Ok out
     \<and> bind_exec loader_start out = Ok (map loaded [sample_bind 0, sample_bind 0x18, sample_bind 0x30])"
  by (rule bind_stream_faithful) (simp add: spec_ok_def sample_bind_def)

theorem lazy_bind_faithful_witness:
  "bind_exec loader_start (emit_lazy_bind_record 3 0x10 2 [0x5f] True @ [0x90]) =
     Ok [loader_start\<lparr>ld_segment := 3, ld_offset := 0x10, ld_ordinal := ordinal_value 2, ld_symbol := [0x5f], ld_weak := True\<rparr>]"
  by (rule lazy_bind_faithful) simp_all

theorem rebase_stream_faithful_witness:
  "\<exists>out slid. build_rebase_stream [\<lparr>rs_segment_index = 2, rs_segment_offset = 8\<rparr>, \<lparr>rs_segment_index = 2, rs_segment_offset = 0\<rparr>] = Ok out
     \<and> rebase_exec 0 0 out = Ok slid
     \<and> set slid = set [\<lparr>rs_segment_index = 2, rs_segment_offset = 8\<rparr>, \<lparr>rs_segment_index = 2, rs_segment_offset = 0\<rparr>]
     \<and> sorted_wrt site_before slid"
  by (rule rebase_stream_faithful) (simp_all add: site_ok_def)

end
