(* ===== verification/Section.thy ===== *)
theory Section
  imports Reader
begin

text \<open>
  The linker-side section model of \<^verbatim>\<open>src/section.rs\<close>: the taxonomy of section kinds and how a
  header's names and flags determine it, the input section lifted out of a file image with its
  content and relocation bytes, and the output records the layout pass fills in. Constructors of
  \<^verbatim>\<open>SectionKind\<close> carry a leading \<open>K\<close>.
\<close>

section \<open>Kinds\<close>

datatype section_kind =
    KText | KData | KConstData | KCStringLiterals | KLiteral4 | KLiteral8 | KLiteral16
  | KZeroFill | KGbZeroFill | KCoalesced | KThreadLocalRegular | KThreadLocalZeroFill
  | KThreadLocalVariables | KThreadLocalVariablePointers | KThreadLocalInitPointers
  | KCompactUnwind | KEhFrame | KNonLazySymbolPointers | KLazySymbolPointers
  | KInitializerPointers | KTerminatorPointers | KSymbolStubs | KRegular | KUnknown u8

definition classify_regular :: "str \<Rightarrow> str \<Rightarrow> u32 \<Rightarrow> section_kind" where
  "classify_regular segname sectname flags =
     (if flags AND S_ATTR_DEBUG \<noteq> 0 \<and> sectname = bstr ''__compact_unwind'' then KCompactUnwind
      else if flags AND S_ATTR_PURE_INSTRUCTIONS \<noteq> 0 then KText
      else if sectname = bstr ''__const''
              \<and> segname \<in> {bstr ''__TEXT'', bstr ''__DATA'', bstr ''__DATA_CONST''} then KConstData
      else KData)"

definition classify_section :: "str \<Rightarrow> str \<Rightarrow> u32 \<Rightarrow> section_kind" where
  "classify_section segname sectname flags =
     (let ty = flags AND SECTION_TYPE_MASK in
      if ty = S_ZEROFILL then KZeroFill
      else if ty = S_GB_ZEROFILL then KGbZeroFill
      else if ty = S_CSTRING_LITERALS then KCStringLiterals
      else if ty = S_4BYTE_LITERALS then KLiteral4
      else if ty = S_8BYTE_LITERALS then KLiteral8
      else if ty = S_16BYTE_LITERALS then KLiteral16
      else if ty = S_NON_LAZY_SYMBOL_POINTERS then KNonLazySymbolPointers
      else if ty = S_LAZY_SYMBOL_POINTERS then KLazySymbolPointers
      else if ty = S_MOD_INIT_FUNC_POINTERS then KInitializerPointers
      else if ty = S_MOD_TERM_FUNC_POINTERS then KTerminatorPointers
      else if ty = S_SYMBOL_STUBS then KSymbolStubs
      else if ty = S_COALESCED then (if sectname = bstr ''__eh_frame'' then KEhFrame else KCoalesced)
      else if ty = S_THREAD_LOCAL_REGULAR then KThreadLocalRegular
      else if ty = S_THREAD_LOCAL_ZEROFILL then KThreadLocalZeroFill
      else if ty = S_THREAD_LOCAL_VARIABLES then KThreadLocalVariables
      else if ty = S_THREAD_LOCAL_VARIABLE_POINTERS then KThreadLocalVariablePointers
      else if ty = S_THREAD_LOCAL_INIT_FUNCTION_POINTERS then KThreadLocalInitPointers
      else if ty = S_REGULAR then classify_regular segname sectname flags
      else KUnknown (ucast ty))"

definition is_zerofill :: "section_kind \<Rightarrow> bool" where
  "is_zerofill kind \<longleftrightarrow> kind \<in> {KZeroFill, KGbZeroFill, KThreadLocalZeroFill}"

definition is_executable :: "section_kind \<Rightarrow> bool" where
  "is_executable kind \<longleftrightarrow> kind \<in> {KText, KSymbolStubs, KCoalesced}"

section \<open>Input sections\<close>

record input_section =
  is_segname :: str
  is_sectname :: str
  is_kind :: section_kind
  is_addr :: u64
  is_size :: u64
  is_align_pow2 :: u32
  is_flags :: u32
  is_offset :: u32
  is_reloff :: u32
  is_nreloc :: u32
  is_reserved1 :: u32
  is_reserved2 :: u32
  is_reserved3 :: u32
  is_data :: bytes
  is_raw_relocs :: bytes

text \<open>
  \<^verbatim>\<open>InputSection::from_header\<close> copies two ranges of the file, the content and the relocation
  records, each after an overflow check and a bounds check of its own.
\<close>

definition section_content :: "section_64_header \<Rightarrow> bytes \<Rightarrow> bytes read" where
  "section_content hdr file_bytes =
     (let start = unat (sh_offset hdr) in
      rbind (ok_or (Truncated usize_max (length file_bytes) ''section content (offset + size overflows)'')
               (checked_add start (unat (sh_size hdr)))) (\<lambda>fin.
      if fin > length file_bytes then Err (Truncated fin (length file_bytes) ''section content'')
      else slice start fin file_bytes))"

definition section_reloc_bytes :: "section_64_header \<Rightarrow> bytes \<Rightarrow> bytes read" where
  "section_reloc_bytes hdr file_bytes =
     (if sh_nreloc hdr = 0 then Ok []
      else
        let start = unat (sh_reloff hdr) in
        rbind (ok_or (Truncated usize_max (length file_bytes) ''section relocs (nreloc * 8 overflows)'')
                 (checked_mul (unat (sh_nreloc hdr)) 8)) (\<lambda>total.
        rbind (ok_or (Truncated usize_max (length file_bytes) ''section relocs (reloff + size overflows)'')
                 (checked_add start total)) (\<lambda>fin.
        if fin > length file_bytes then Err (Truncated fin (length file_bytes) ''section relocs'')
        else slice start fin file_bytes)))"

definition from_header :: "section_64_header \<Rightarrow> bytes \<Rightarrow> input_section read" where
  "from_header hdr file_bytes =
     (let segname = name16_str (sh_segname hdr);
          sectname = name16_str (sh_sectname hdr);
          kind = classify_section segname sectname (sh_flags hdr) in
      rbind (if is_zerofill kind then Ok [] else section_content hdr file_bytes) (\<lambda>data.
      rbind (section_reloc_bytes hdr file_bytes) (\<lambda>raw_relocs.
      Ok \<lparr>is_segname = segname, is_sectname = sectname, is_kind = kind, is_addr = sh_addr hdr,
          is_size = sh_size hdr, is_align_pow2 = sh_align hdr, is_flags = sh_flags hdr,
          is_offset = sh_offset hdr, is_reloff = sh_reloff hdr, is_nreloc = sh_nreloc hdr,
          is_reserved1 = sh_reserved1 hdr, is_reserved2 = sh_reserved2 hdr,
          is_reserved3 = sh_reserved3 hdr, is_data = data, is_raw_relocs = raw_relocs\<rparr>)))"

section \<open>Output records\<close>

type_synonym output_section_id = u32

type_synonym prot = u32

abbreviation (input) PROT_NONE :: prot where "PROT_NONE \<equiv> 0"
abbreviation (input) PROT_READ_ONLY :: prot where "PROT_READ_ONLY \<equiv> 1"
abbreviation (input) PROT_READ_WRITE :: prot where "PROT_READ_WRITE \<equiv> 3"
abbreviation (input) PROT_READ_EXECUTE :: prot where "PROT_READ_EXECUTE \<equiv> 5"

record output_atom =
  oa_atom :: u32
  oa_offset :: u64
  oa_size :: u64
  oa_data :: bytes

record output_section =
  os_segment :: str
  os_name :: str
  os_kind :: section_kind
  os_align_pow2 :: u8
  os_flags :: u32
  os_reserved1 :: u32
  os_reserved2 :: u32
  os_reserved3 :: u32
  os_atoms :: "output_atom list"
  os_synthetic_offset :: u64
  os_synthetic_data :: bytes
  os_addr :: u64
  os_size :: u64
  os_file_off :: u64

record output_segment =
  og_name :: str
  og_sections :: "output_section_id list"
  og_vm_addr :: u64
  og_vm_size :: u64
  og_file_off :: u64
  og_file_size :: u64
  og_init_prot :: prot
  og_max_prot :: prot
  og_flags :: u32

section \<open>Lemmas\<close>

lemma section_content_ok:
  "unat (sh_offset hdr) + unat (sh_size hdr) \<le> length file_bytes \<Longrightarrow> length file_bytes \<le> usize_max \<Longrightarrow>
   section_content hdr file_bytes = Ok (take (unat (sh_size hdr)) (drop (unat (sh_offset hdr)) file_bytes))"
  by (simp add: section_content_def checked_add_def)

lemma section_content_Ok_iff:
  "section_content hdr file_bytes = Ok d \<longleftrightarrow>
     unat (sh_offset hdr) + unat (sh_size hdr) \<le> min usize_max (length file_bytes)
     \<and> d = take (unat (sh_size hdr)) (drop (unat (sh_offset hdr)) file_bytes)"
  by (auto simp: section_content_def Let_def rbind_Ok_iff checked_add_eq_Some split: if_splits)

lemma section_content_safe [no_panic]: "safe (section_content hdr file_bytes)"
  unfolding section_content_def Let_def
  by (intro no_panic) (auto simp: checked_add_eq_Some)

lemma section_reloc_bytes_safe [no_panic]: "safe (section_reloc_bytes hdr file_bytes)"
  unfolding section_reloc_bytes_def Let_def
  by (intro no_panic) (auto simp: checked_add_eq_Some)

lemma section_reloc_bytes_length:
  "section_reloc_bytes hdr file_bytes = Ok d \<Longrightarrow> length d = 8 * unat (sh_nreloc hdr)"
  by (auto simp: section_reloc_bytes_def rbind_Ok_iff checked_add_eq_Some checked_mul_eq_Some Let_def
      split: if_splits)

lemma from_header_safe [no_panic]: "safe (from_header hdr file_bytes)"
  unfolding from_header_def Let_def by (intro no_panic) simp_all

lemma from_header_sizes:
  assumes "from_header hdr file_bytes = Ok s"
  shows "length (is_data s) = (if is_zerofill (is_kind s) then 0 else unat (is_size s))"
    and "length (is_raw_relocs s) = 8 * unat (is_nreloc s)"
    and "is_kind s = classify_section (is_segname s) (is_sectname s) (is_flags s)"
  using assms
  by (auto simp: from_header_def Let_def rbind_Ok_iff section_content_Ok_iff section_reloc_bytes_length
      split: if_splits)

end
