(* ===== verification/Atom.thy ===== *)
theory Atom
  imports Section Symbol_Table
begin

text \<open>
  The atom model of \<^verbatim>\<open>src/atom.rs\<close>, lines 34 to 320: atoms, their flags, the atom table with its
  one-based handles, and the materialisation of the common symbols that survived resolution.
  Constructors of \<^verbatim>\<open>AtomSection\<close> carry a leading \<open>A\<close>. Arithmetic on \<^verbatim>\<open>u32\<close> panics on
  overflow; \<^verbatim>\<open>as u32\<close> truncates.
\<close>

type_synonym 'a checked = "(unit, 'a) result"

definition add32 :: "u32 \<Rightarrow> u32 \<Rightarrow> ('e, u32) result" where
  "add32 a b = (if uint a + uint b < 2 ^ 32 then Ok (a + b) else Panic)"

definition sub32 :: "u32 \<Rightarrow> u32 \<Rightarrow> ('e, u32) result" where
  "sub32 a b = (if b \<le> a then Ok (a - b) else Panic)"

definition saturating_add32 :: "u32 \<Rightarrow> u32 \<Rightarrow> u32" where
  "saturating_add32 a b = (if uint a + uint b < 2 ^ 32 then a + b else -1)"

definition saturating_sub :: "'a::len word \<Rightarrow> 'a word \<Rightarrow> 'a word" where
  "saturating_sub a b = (if b \<le> a then a - b else 0)"

section \<open>Atom sections and flags\<close>

datatype atom_section =
    AText | AData | AConstData | ACStringLiterals | ALiteral4 | ALiteral8 | ALiteral16 | AZeroFill
  | AThreadLocalData | AThreadLocalBss | AThreadLocalVariables | AThreadLocalInitPointers
  | ACoalesced | ACommon | ACompactUnwind | AEhFrame | ASymbolStubs | ANonLazySymbolPointers
  | ALazySymbolPointers | AOther

fun from_section_kind :: "section_kind \<Rightarrow> atom_section" where
  "from_section_kind KText = AText"
| "from_section_kind KData = AData"
| "from_section_kind KConstData = AConstData"
| "from_section_kind KCStringLiterals = ACStringLiterals"
| "from_section_kind KLiteral4 = ALiteral4"
| "from_section_kind KLiteral8 = ALiteral8"
| "from_section_kind KLiteral16 = ALiteral16"
| "from_section_kind KZeroFill = AZeroFill"
| "from_section_kind KGbZeroFill = AZeroFill"
| "from_section_kind KThreadLocalRegular = AThreadLocalData"
| "from_section_kind KThreadLocalZeroFill = AThreadLocalBss"
| "from_section_kind KThreadLocalVariables = AThreadLocalVariables"
| "from_section_kind KThreadLocalVariablePointers = AThreadLocalVariables"
| "from_section_kind KThreadLocalInitPointers = AThreadLocalInitPointers"
| "from_section_kind KCoalesced = ACoalesced"
| "from_section_kind KCompactUnwind = ACompactUnwind"
| "from_section_kind KEhFrame = AEhFrame"
| "from_section_kind KSymbolStubs = ASymbolStubs"
| "from_section_kind KNonLazySymbolPointers = ANonLazySymbolPointers"
| "from_section_kind KLazySymbolPointers = ALazySymbolPointers"
| "from_section_kind KInitializerPointers = AOther"
| "from_section_kind KTerminatorPointers = AOther"
| "from_section_kind KRegular = AOther"
| "from_section_kind (KUnknown _) = AOther"

definition as_is_zerofill :: "atom_section \<Rightarrow> bool" where
  "as_is_zerofill s \<longleftrightarrow> s \<in> {AZeroFill, AThreadLocalBss, ACommon}"

definition as_is_literal :: "atom_section \<Rightarrow> bool" where
  "as_is_literal s \<longleftrightarrow> s \<in> {ACStringLiterals, ALiteral4, ALiteral8, ALiteral16}"

type_synonym atom_flags = u32

abbreviation (input) AF_NONE :: atom_flags where "AF_NONE \<equiv> 0"
abbreviation (input) AF_NO_DEAD_STRIP :: u32 where "AF_NO_DEAD_STRIP \<equiv> 0x01"
abbreviation (input) AF_WEAK_DEF :: u32 where "AF_WEAK_DEF \<equiv> 0x02"
abbreviation (input) AF_LITERAL :: u32 where "AF_LITERAL \<equiv> 0x08"
abbreviation (input) AF_PURE_INSTRUCTIONS :: u32 where "AF_PURE_INSTRUCTIONS \<equiv> 0x10"
abbreviation (input) AF_ALT_ENTRY :: u32 where "AF_ALT_ENTRY \<equiv> 0x40"
abbreviation (input) AF_LIVE_SUPPORT :: u32 where "AF_LIVE_SUPPORT \<equiv> 0x80"

definition af_has :: "atom_flags \<Rightarrow> u32 \<Rightarrow> bool" where
  "af_has f b \<longleftrightarrow> f AND b \<noteq> 0"

text \<open>Both \<^verbatim>\<open>with\<close> and \<^verbatim>\<open>set\<close>.\<close>

definition af_set :: "u32 \<Rightarrow> atom_flags \<Rightarrow> atom_flags" where
  "af_set b f = f OR b"

section \<open>Atoms and their table\<close>

record alt_entry_rec =
  ae_symbol :: symbol_id
  ae_offset_within_atom :: u32
  ae_explicit :: bool

record atom =
  at_id :: atom_id
  at_origin :: input_id
  at_input_section :: u8
  at_section :: atom_section
  at_input_offset :: u32
  at_size :: u32
  at_align_pow2 :: u8
  at_owner :: "symbol_id option"
  at_alt_entries :: "alt_entry_rec list"
  at_data :: bytes
  at_flags :: atom_flags
  at_parent_of :: "atom_id option"

record atom_table =
  tb_atoms :: "atom list"

definition atom_table_new :: atom_table where
  "atom_table_new = \<lparr>tb_atoms = []\<rparr>"

definition push_atom :: "atom \<Rightarrow> atom_table \<Rightarrow> ('e, atom_id \<times> atom_table) result" where
  "push_atom a t =
     rbind (add32 (of_nat (length (tb_atoms t))) 1) (\<lambda>i.
     Ok (i, t\<lparr>tb_atoms := tb_atoms t @ [a\<lparr>at_id := i\<rparr>]\<rparr>))"

definition get_atom :: "atom_table \<Rightarrow> atom_id \<Rightarrow> ('e, atom) result" where
  "get_atom t i = rbind (sub32 i 1) (\<lambda>k. index (tb_atoms t) (unat k))"

definition update_atom :: "atom_id \<Rightarrow> (atom \<Rightarrow> atom) \<Rightarrow> atom_table \<Rightarrow> ('e, atom_table) result" where
  "update_atom i f t =
     rbind (sub32 i 1) (\<lambda>k.
     rbind (index (tb_atoms t) (unat k)) (\<lambda>a.
     Ok (t\<lparr>tb_atoms := (tb_atoms t)[unat k := f a]\<rparr>)))"

definition atoms_iter :: "atom_table \<Rightarrow> (atom_id \<times> atom) list" where
  "atoms_iter t = map (\<lambda>i. (of_nat (i + 1), tb_atoms t ! i)) [0..<length (tb_atoms t)]"

definition by_input_section :: "atom_table \<Rightarrow> (input_id \<times> u8) \<Rightarrow> atom_id list" where
  "by_input_section t key =
     map fst (filter (\<lambda>(_, a). (at_origin a, at_input_section a) = key) (atoms_iter t))"

section \<open>Common symbols\<close>

record common_materialization_error =
  cm_symbol :: str
  cm_size :: u64

type_synonym 'a common_result = "(common_materialization_error, 'a) result"

text \<open>
  First every surviving common is sized, and only then are atoms created and slots rewritten: an
  oversized common is reported before anything changed.
\<close>

definition sized_commons :: "symbol_table \<Rightarrow> (symbol_id \<times> input_id \<times> u32 \<times> u8) list common_result" where
  "sized_commons st =
     rmap concat (mapM (\<lambda>i. case symbols st ! i of
         Common name orig sz align _ _ \<Rightarrow>
           if unat sz < 2 ^ 32 then Ok [(of_nat i, orig, ucast sz, align)]
           else rbind (interner_resolve (interner st) name) (\<lambda>n. Err \<lparr>cm_symbol = n, cm_size = sz\<rparr>)
       | _ \<Rightarrow> Ok []) [0..<length (symbols st)])"

definition common_atom :: "symbol_id \<Rightarrow> input_id \<Rightarrow> u32 \<Rightarrow> u8 \<Rightarrow> atom" where
  "common_atom sid orig sz align =
     \<lparr>at_id = 0, at_origin = orig, at_input_section = 0, at_section = ACommon, at_input_offset = 0,
      at_size = sz, at_align_pow2 = align, at_owner = Some sid, at_alt_entries = [], at_data = [],
      at_flags = AF_NONE, at_parent_of = None\<rparr>"

fun materialize_loop ::
  "(symbol_id \<times> input_id \<times> u32 \<times> u8) list \<Rightarrow> atom_table \<Rightarrow> symbol_table \<Rightarrow> (atom_table \<times> symbol_table) common_result" where
  "materialize_loop [] tb st = Ok (tb, st)"
| "materialize_loop ((sid, orig, sz, align) # cs) tb st =
     rbind (push_atom (common_atom sid orig sz align) tb) (\<lambda>(a, tb1).
     rbind (materialize_common sid a st) (\<lambda>st1. materialize_loop cs tb1 st1))"

definition materialize_common_symbols ::
  "atom_table \<Rightarrow> symbol_table \<Rightarrow> (atom_table \<times> symbol_table) common_result" where
  "materialize_common_symbols tb st = rbind (sized_commons st) (\<lambda>cs. materialize_loop cs tb st)"

section \<open>Laws of the table\<close>

definition table_fits :: "atom_table \<Rightarrow> bool" where
  "table_fits t \<longleftrightarrow> length (tb_atoms t) < 2 ^ 32 - 1"

definition wf_table :: "atom_table \<Rightarrow> bool" where
  "wf_table t \<longleftrightarrow> length (tb_atoms t) < 2 ^ 32
     \<and> (\<forall>i < length (tb_atoms t). at_id (tb_atoms t ! i) = of_nat (i + 1))"

lemma unat_of_nat32: "n < 2 ^ 32 \<Longrightarrow> unat (of_nat n :: u32) = n"
  by (simp add: unat_of_nat)

lemma add32_cond: "uint (a :: u32) + uint b < 2 ^ 32 \<longleftrightarrow> unat a + unat b < 2 ^ 32"
proof -
  have "uint a + uint b = int (unat a + unat b)" by simp
  moreover have "n < 2 ^ 32 \<longleftrightarrow> int n < 2 ^ 32" for n by simp
  ultimately show ?thesis by (simp only:)
qed

lemma add32_ok: "unat a + unat b < 2 ^ 32 \<Longrightarrow> add32 a b = Ok (a + b)"
  by (simp only: add32_def add32_cond if_True)

lemma add32_unat: "unat a + unat b < 2 ^ 32 \<Longrightarrow> unat (a + b :: u32) = unat a + unat b"
  by (simp add: unat_word_ariths)

lemma sub32_ok: "b \<le> a \<Longrightarrow> sub32 a b = Ok (a - b)"
  by (simp add: sub32_def)

lemma push_atom_ok:
  assumes "table_fits t"
  shows "push_atom a t = Ok (of_nat (length (tb_atoms t) + 1),
     t\<lparr>tb_atoms := tb_atoms t @ [a\<lparr>at_id := of_nat (length (tb_atoms t) + 1)\<rparr>]\<rparr>)"
proof -
  let ?n = "of_nat (length (tb_atoms t)) :: u32"
  have "unat ?n + unat (1 :: u32) < 2 ^ 32"
    using assms unat_of_nat32 [of "length (tb_atoms t)"] by (simp add: table_fits_def)
  from add32_ok [OF this] have "add32 ?n 1 = (Ok (?n + 1) :: ('a, u32) result)" .
  moreover have "?n + 1 = of_nat (length (tb_atoms t) + 1)" by simp
  ultimately show ?thesis unfolding push_atom_def by (simp only: rbind_simps)
qed

lemma get_atom_ok:
  assumes "n < length (tb_atoms t)" and "length (tb_atoms t) < 2 ^ 32"
  shows "get_atom t (of_nat (n + 1)) = Ok (tb_atoms t ! n)"
proof -
  have u: "unat (of_nat (n + 1) :: u32) = n + 1" using assms by (intro unat_of_nat32) simp
  have le: "(1 :: u32) \<le> of_nat (n + 1)" using u by (simp add: word_le_nat_alt)
  have "unat (of_nat (n + 1) - 1 :: u32) = n" using assms by (simp add: unat_of_nat32)
  then show ?thesis using assms(1) by (simp only: get_atom_def sub32_ok [OF le] rbind_simps index_ok)
qed

end
