(* ===== verification/Object_File.thy ===== *)
theory Object_File
  imports Section Leb String_Table Nlist
begin

text \<open>
  The parsed input object of \<^verbatim>\<open>src/input.rs\<close> and the linker-optimisation-hint codec it uses
  (\<^verbatim>\<open>parse_loh_blob\<close> and \<^verbatim>\<open>write_loh_blob\<close> of \<^verbatim>\<open>src/loh.rs\<close>). Reading an object composes
  the header and load-command reader, the section reader, the symbol-table reader and the
  string-table reader; the path of the file is kept as a string.
\<close>

abbreviation (input) MH_SUBSECTIONS_VIA_SYMBOLS :: u32 where "MH_SUBSECTIONS_VIA_SYMBOLS \<equiv> 0x2000"
abbreviation (input) LC_DATA_IN_CODE :: u32 where "LC_DATA_IN_CODE \<equiv> 0x29"

section \<open>Linker optimisation hints\<close>

record loh_entry =
  loh_kind :: u32
  loh_args :: "u32 list"

definition u32_try_from :: "'e \<Rightarrow> u64 \<Rightarrow> ('e, u32) result" where
  "u32_try_from e v = (if unat v < 2 ^ 32 then Ok (ucast v) else Err e)"

text \<open>
  \<^verbatim>\<open>Vec::<u32>::with_capacity(n)\<close> panics when the allocation would exceed \<^verbatim>\<open>isize::MAX\<close> bytes.
\<close>

definition with_capacity_u32 :: "nat \<Rightarrow> ('e, unit) result" where
  "with_capacity_u32 n = (if 4 * n < 2 ^ 63 then Ok () else Panic)"

text \<open>
  The argument loop and the record loop carry the rest of the buffer, \<^verbatim>\<open>&bytes[cursor..]\<close>. The
  argument loop runs \<open>argc\<close> times; every round consumes at least one byte, so the loop stops with
  an error at the end of the buffer and its recursion is on the buffer.
\<close>

function read_loh_args :: "u32 \<Rightarrow> nat \<Rightarrow> bytes \<Rightarrow> (u32 list \<times> bytes) read" where
  "read_loh_args at_off argc bs =
     (if argc = 0 then Ok ([], bs)
      else
        rbind (read_uleb bs) (\<lambda>(arg, used).
        rbind (u32_try_from (BadRelocation at_off ''LOH arg overflows u32'') arg) (\<lambda>a.
        rbind (read_loh_args at_off (argc - 1) (drop used bs)) (\<lambda>(as, rest).
        Ok (a # as, rest)))))"
  by pat_completeness auto
termination by (relation "measure (\<lambda>(_, argc, _). argc)") auto

declare read_loh_args.simps [simp del]

lemma read_uleb_used: "read_uleb bs = Ok (v, used) \<Longrightarrow> 0 < used \<and> used \<le> length bs"
proof -
  have "read_uleb_loop n i shift acc bs = Ok (v, used) \<Longrightarrow> i < used \<and> used \<le> i + length bs" for n i shift acc
    by (induction bs arbitrary: i shift acc) (force simp: Let_def split: if_splits)+
  then show "read_uleb bs = Ok (v, used) \<Longrightarrow> 0 < used \<and> used \<le> length bs"
    unfolding read_uleb_def by fastforce
qed

lemma read_loh_args_rest: "read_loh_args at argc bs = Ok (as, rest) \<Longrightarrow> length rest \<le> length bs"
proof (induction argc arbitrary: bs as)
  case (Suc n)
  from Suc.prems obtain arg used as' where "read_loh_args at n (drop used bs) = Ok (as', rest)"
    by (auto simp: read_loh_args.simps [of _ "Suc n"] rbind_Ok_iff split: prod.splits)
  from Suc.IH [OF this] show ?case by simp
qed (simp add: read_loh_args.simps)

definition read_loh_record :: "u32 \<Rightarrow> bytes \<Rightarrow> (loh_entry \<times> bytes) read" where
  "read_loh_record at_off bs =
     rbind (read_uleb bs) (\<lambda>(kind, used).
     let bs1 = drop used bs in
     rbind (read_uleb bs1) (\<lambda>(argc, used1).
     let bs2 = drop used1 bs1 in
     rbind (u32_try_from (BadRelocation at_off ''LOH kind overflows u32'') kind) (\<lambda>k.
     rbind (with_capacity_u32 (unat argc)) (\<lambda>_.
     rbind (read_loh_args at_off (unat argc) bs2) (\<lambda>(args, rest).
     Ok (\<lparr>loh_kind = k, loh_args = args\<rparr>, rest))))))"

lemma read_loh_record_rest: "read_loh_record at bs = Ok (e, rest) \<Longrightarrow> length rest < length bs"
  unfolding read_loh_record_def
  by (auto simp: rbind_Ok_iff Let_def dest!: read_uleb_used read_loh_args_rest)

function parse_loh_loop :: "nat \<Rightarrow> bytes \<Rightarrow> loh_entry list read" where
  "parse_loh_loop cursor bs =
     (if list_all (\<lambda>b. b = 0) bs then Ok []
      else
        rbind (read_loh_record (of_nat cursor) bs) (\<lambda>(e, rest).
        rbind (parse_loh_loop (cursor + (length bs - length rest)) rest) (\<lambda>es. Ok (e # es))))"
  by pat_completeness auto
termination by (relation "measure (\<lambda>(_, bs). length bs)") (auto dest: read_loh_record_rest)

declare parse_loh_loop.simps [simp del]

definition parse_loh_blob :: "bytes \<Rightarrow> loh_entry list read" where
  "parse_loh_blob bs = parse_loh_loop 0 bs"

definition write_loh_entry :: "loh_entry \<Rightarrow> bytes" where
  "write_loh_entry e =
     write_uleb (ucast (loh_kind e)) @ write_uleb (of_nat (length (loh_args e)))
     @ concat (map (\<lambda>a. write_uleb (ucast a)) (loh_args e))"

definition write_loh_blob :: "loh_entry list \<Rightarrow> bytes" where
  "write_loh_blob es = concat (map write_loh_entry es)"

section \<open>Data in code\<close>

record data_in_code_entry =
  dic_offset :: u32
  dic_length :: u16
  dic_kind :: u16

fun dic_parse_payload :: "bytes \<Rightarrow> data_in_code_entry list" where
  "dic_parse_payload (b0 # b1 # b2 # b3 # b4 # b5 # b6 # b7 # bs) =
     \<lparr>dic_offset = from_le [b0, b1, b2, b3], dic_length = from_le [b4, b5], dic_kind = from_le [b6, b7]\<rparr>
     # dic_parse_payload bs"
| "dic_parse_payload _ = []"

text \<open>The range of the file a linkedit command names, with its overflow and bounds checks.\<close>

definition linkedit_range :: "string \<Rightarrow> string \<Rightarrow> link_edit_data_cmd \<Rightarrow> bytes \<Rightarrow> bytes read" where
  "linkedit_range overflow_ctx ctx linkedit file_bytes =
     (let start = unat (le_dataoff linkedit) in
      rbind (ok_or (Truncated usize_max (length file_bytes) overflow_ctx)
               (checked_add start (unat (le_datasize linkedit)))) (\<lambda>fin.
      if fin > length file_bytes then Err (Truncated fin (length file_bytes) ctx)
      else slice start fin file_bytes))"

definition parse_loh_command :: "bytes \<Rightarrow> load_command \<Rightarrow> loh_entry list read" where
  "parse_loh_command file_bytes command =
     (case command of
        LinkerOptimizationHint linkedit \<Rightarrow>
          rbind (linkedit_range ''LC_LINKER_OPTIMIZATION_HINT payload (offset + size overflows)''
                   ''LC_LINKER_OPTIMIZATION_HINT payload'' linkedit file_bytes) parse_loh_blob
      | _ \<Rightarrow> Ok [])"

definition parse_loh :: "load_command list \<Rightarrow> bytes \<Rightarrow> loh_entry list read" where
  "parse_loh commands file_bytes = rmap concat (mapM (parse_loh_command file_bytes) commands)"

definition parse_dic_command :: "bytes \<Rightarrow> load_command \<Rightarrow> data_in_code_entry list read" where
  "parse_dic_command file_bytes command =
     (case command of
        RawCmd cmd cmdsize data \<Rightarrow>
          if cmd \<noteq> LC_DATA_IN_CODE then Ok []
          else
            rbind (parse_linkedit cmd cmdsize data) (\<lambda>linkedit.
            if unat (le_datasize linkedit) mod 8 \<noteq> 0 then
              Err (BadCmdsize cmd (le_datasize linkedit) 0
                     ''LC_DATA_IN_CODE payload size is not a multiple of 8'')
            else
              rmap dic_parse_payload
                (linkedit_range ''LC_DATA_IN_CODE payload (offset + size overflows)''
                   ''LC_DATA_IN_CODE payload'' linkedit file_bytes))
      | _ \<Rightarrow> Ok [])"

definition parse_data_in_code :: "load_command list \<Rightarrow> bytes \<Rightarrow> data_in_code_entry list read" where
  "parse_data_in_code commands file_bytes = rmap concat (mapM (parse_dic_command file_bytes) commands)"

section \<open>Object files\<close>

record object_file =
  ob_path :: str
  ob_header :: mach_header_64
  ob_commands :: "load_command list"
  ob_sections :: "input_section list"
  ob_symbols :: "raw_nlist list"
  ob_strings :: string_table
  ob_symtab :: "symtab_cmd option"
  ob_dysymtab :: "dysymtab_cmd option"
  ob_loh :: "loh_entry list"
  ob_data_in_code :: "data_in_code_entry list"

definition command_sections :: "bytes \<Rightarrow> load_command \<Rightarrow> input_section list read" where
  "command_sections file_bytes cmd =
     (case cmd of Segment64 seg \<Rightarrow> mapM (\<lambda>hdr. from_header hdr file_bytes) (sg_sections seg) | _ \<Rightarrow> Ok [])"

fun find_symtab :: "load_command list \<Rightarrow> symtab_cmd option" where
  "find_symtab [] = None"
| "find_symtab (c # cs) = (case c of Symtab s \<Rightarrow> Some s | _ \<Rightarrow> find_symtab cs)"

fun find_dysymtab :: "load_command list \<Rightarrow> dysymtab_cmd option" where
  "find_dysymtab [] = None"
| "find_dysymtab (c # cs) = (case c of Dysymtab d \<Rightarrow> Some d | _ \<Rightarrow> find_dysymtab cs)"

definition read_symbols :: "symtab_cmd option \<Rightarrow> bytes \<Rightarrow> (raw_nlist list \<times> string_table) read" where
  "read_symbols symtab file_bytes =
     (case symtab of
        Some s \<Rightarrow>
          rbind (parse_nlist_table file_bytes (st_symoff s) (st_nsyms s)) (\<lambda>symbols.
          rbind (from_file file_bytes (st_stroff s) (st_strsize s)) (\<lambda>strings.
          Ok (symbols, strings)))
      | None \<Rightarrow> Ok ([], \<lparr>raw = []\<rparr>))"

definition parse_with_header :: "str \<Rightarrow> bytes \<Rightarrow> mach_header_64 \<Rightarrow> object_file read" where
  "parse_with_header path file_bytes header =
     rbind (parse_commands header file_bytes) (\<lambda>commands.
     rbind (rmap concat (mapM (command_sections file_bytes) commands)) (\<lambda>sections.
     let symtab = find_symtab commands; dysymtab = find_dysymtab commands in
     rbind (read_symbols symtab file_bytes) (\<lambda>(symbols, strings).
     rbind (parse_loh commands file_bytes) (\<lambda>loh.
     rbind (parse_data_in_code commands file_bytes) (\<lambda>data_in_code.
     Ok \<lparr>ob_path = path, ob_header = header, ob_commands = commands, ob_sections = sections,
         ob_symbols = symbols, ob_strings = strings, ob_symtab = symtab, ob_dysymtab = dysymtab,
         ob_loh = loh, ob_data_in_code = data_in_code\<rparr>)))))"

definition parse_object :: "str \<Rightarrow> bytes \<Rightarrow> object_file read" where
  "parse_object path file_bytes =
     rbind (parse_header file_bytes) (\<lambda>header.
     if filetype header \<noteq> MH_OBJECT then Err (UnexpectedFiletype (filetype header) MH_OBJECT)
     else parse_with_header path file_bytes header)"

definition parse_for_inspection :: "str \<Rightarrow> bytes \<Rightarrow> object_file read" where
  "parse_for_inspection path file_bytes =
     rbind (parse_header file_bytes) (\<lambda>header. parse_with_header path file_bytes header)"

definition symbol_name :: "object_file \<Rightarrow> raw_nlist \<Rightarrow> str read" where
  "symbol_name obj s = st_get (ob_strings obj) (strx s)"

definition indirect_target_name :: "object_file \<Rightarrow> raw_nlist \<Rightarrow> str read option" where
  "indirect_target_name obj s =
     (if nlist_kind s = Indirect then Some (st_get (ob_strings obj) (ucast (n_value s))) else None)"

definition section_for_symbol :: "object_file \<Rightarrow> raw_nlist \<Rightarrow> input_section option" where
  "section_for_symbol obj s =
     (if n_sect s = 0 then None
      else
        let i = unat (n_sect s) - 1 in
        if i < length (ob_sections obj) then Some (ob_sections obj ! i) else None)"

definition header_and_cmds_end :: "mach_header_64 \<Rightarrow> nat" where
  "header_and_cmds_end header = HEADER_SIZE + unat (sizeofcmds header)"

section \<open>What a parsed object satisfies\<close>

definition wf_input_section :: "input_section \<Rightarrow> bool" where
  "wf_input_section s \<longleftrightarrow>
     length (is_data s) = (if is_zerofill (is_kind s) then 0 else unat (is_size s))
     \<and> length (is_raw_relocs s) = 8 * unat (is_nreloc s)
     \<and> is_kind s = classify_section (is_segname s) (is_sectname s) (is_flags s)"

lemma mapM_concat_Ok:
  assumes "rmap concat (mapM f xs) = Ok ys" and "\<And>x zs z. f x = Ok zs \<Longrightarrow> z \<in> set zs \<Longrightarrow> P z"
  shows "\<forall>z \<in> set ys. P z"
proof -
  obtain zss where m: "mapM f xs = Ok zss" and ys: "ys = concat zss"
    using assms(1) by (cases "mapM f xs") auto
  from m have "\<forall>zs \<in> set zss. \<forall>z \<in> set zs. P z"
    by (induction xs arbitrary: zss) (auto simp: rbind_Ok_iff dest: assms(2))
  then show ?thesis by (auto simp: ys)
qed

lemma mapM_Ok_all:
  assumes "mapM f xs = Ok ys" and "\<And>x y. f x = Ok y \<Longrightarrow> P y"
  shows "\<forall>y \<in> set ys. P y"
  using assms(1) by (induction xs arbitrary: ys) (auto simp: rbind_Ok_iff dest: assms(2))

lemma command_sections_wf: "command_sections f c = Ok ss \<Longrightarrow> \<forall>s \<in> set ss. wf_input_section s"
  unfolding command_sections_def
  by (cases c) (auto simp: wf_input_section_def from_header_sizes dest!: mapM_Ok_all [where P = wf_input_section])

lemma linkedit_range_safe [no_panic]: "safe (linkedit_range a b l f)"
  unfolding linkedit_range_def Let_def by (intro no_panic) (auto simp: checked_add_eq_Some)

lemma parse_dic_command_safe [no_panic]: "safe (parse_dic_command f c)"
  unfolding parse_dic_command_def
  by (cases c) (auto intro!: no_panic simp: parse_linkedit_def)

lemma command_sections_safe [no_panic]: "safe (command_sections f c)"
  unfolding command_sections_def by (cases c) (auto intro!: no_panic)

lemma read_symbols_length:
  assumes "read_symbols symtab f = Ok (syms, strs)"
  shows "length syms = (case symtab of Some s \<Rightarrow> unat (st_nsyms s) | None \<Rightarrow> 0)"
proof (cases symtab)
  case (Some s)
  have "parse_nlist_table f (st_symoff s) (st_nsyms s) = Ok syms"
    using assms by (auto simp: read_symbols_def Some rbind_Ok_iff)
  then show ?thesis
    by (auto simp: Some parse_nlist_table_def Let_def rbind_Ok_iff read_records_def split: if_splits
        dest!: mapM_Ok_length)
qed (use assms in \<open>simp add: read_symbols_def\<close>)

text \<open>
  C18: A parsed object is well formed: it is a relocatable object; every section holds exactly as
  many content bytes as its header announces (none for the zero-fill kinds) and eight bytes per
  relocation record, and its kind is the one its names and flags determine; there are exactly as
  many symbols as the symbol-table command announces.
\<close>

theorem parsed_object_well_formed:
  assumes "parse_object path file_bytes = Ok ob"
  shows "filetype (ob_header ob) = MH_OBJECT \<and> (\<forall>s \<in> set (ob_sections ob). wf_input_section s)
    \<and> length (ob_symbols ob) = (case ob_symtab ob of Some s \<Rightarrow> unat (st_nsyms s) | None \<Rightarrow> 0)"
proof -
  have "\<forall>s \<in> set ss. wf_input_section s"
    if "rmap concat (mapM (command_sections file_bytes) cs) = Ok ss" for cs ss
    using mapM_concat_Ok [OF that] command_sections_wf by blast
  then show ?thesis
    using assms
    by (auto simp: parse_object_def parse_with_header_def rbind_Ok_iff Let_def dest!: read_symbols_length
        split: if_splits prod.splits)
qed

definition sample_header :: mach_header_64 where
  "sample_header = \<lparr>magic = MH_MAGIC_64, cputype = CPU_TYPE_ARM64, cpusubtype = 0, filetype = MH_OBJECT,
     ncmds = 1, sizeofcmds = 152, mh_flags = MH_SUBSECTIONS_VIA_SYMBOLS, mh_reserved = 0\<rparr>"

definition sample_section :: section_64_header where
  "sample_section = \<lparr>sh_sectname = bstr ''__text'' @ replicate 10 0, sh_segname = bstr ''__TEXT'' @ replicate 10 0,
     sh_addr = 0, sh_size = 2, sh_offset = 184, sh_align = 2, sh_reloff = 0, sh_nreloc = 0,
     sh_flags = S_ATTR_PURE_INSTRUCTIONS, sh_reserved1 = 0, sh_reserved2 = 0, sh_reserved3 = 0\<rparr>"

definition sample_segment :: segment_64 where
  "sample_segment = \<lparr>sg_segname = replicate 16 0, sg_vmaddr = 0, sg_vmsize = 2, sg_fileoff = 184,
     sg_filesize = 2, sg_maxprot = 7, sg_initprot = 7, sg_flags = 0, sg_sections = [sample_section]\<rparr>"

theorem parsed_object_well_formed_witness:
  "\<exists>ob s. parse_object [] (write_header sample_header @ write_commands [Segment64 sample_segment] @ [0xAB, 0xCD]) = Ok ob
     \<and> ob_sections ob = [s] \<and> is_data s = [0xAB, 0xCD] \<and> wf_input_section s"
proof -
  let ?f = "write_header sample_header @ write_commands [Segment64 sample_segment] @ [0xAB, 0xCD]"
  have hdr: "parse_header ?f = Ok sample_header"
    by (rule parse_write_header) (simp add: header_ok_def sample_header_def is_supported_arm64_cpu_subtype_def)
  have len: "length (write_commands [Segment64 sample_segment]) = 152"
    by (simp add: write_commands_def write_segment_def write_section_header_def sample_segment_def
        sample_section_def bstr_def)
  have cmds: "parse_commands sample_header ?f = Ok [Segment64 sample_segment]"
    using len
    by (intro parse_write_commands)
      (simp_all add: sample_header_def sample_segment_def sample_section_def section_names_ok_def bstr_def)
  have flen: "length ?f = 186" by (simp add: length_write_header len)
  have drop: "drop 184 ?f = [0xAB, 0xCD]" by (simp add: length_write_header len)
  have content: "section_content sample_section ?f = Ok [0xAB, 0xCD]"
    using flen drop by (subst section_content_ok) (simp_all add: sample_section_def usize_max_def)
  have kind: "\<not> is_zerofill (classify_section a b S_ATTR_PURE_INSTRUCTIONS)" for a b
    by (simp add: classify_section_def classify_regular_def is_zerofill_def)
  obtain s where s: "from_header sample_section ?f = Ok s" "is_data s = [0xAB, 0xCD]"
    using content kind by (auto simp: from_header_def Let_def section_reloc_bytes_def sample_section_def)
  obtain ob where "parse_object [] ?f = Ok ob" "ob_sections ob = [s]"
    using hdr cmds s(1)
    by (auto simp: parse_object_def parse_with_header_def command_sections_def sample_segment_def
        read_symbols_def parse_loh_def parse_loh_command_def parse_data_in_code_def parse_dic_command_def
        sample_header_def)
  with s(2) parsed_object_well_formed [of "[]" ?f ob] show ?thesis by auto
qed

text \<open>
  The hint reader reserves room for as many arguments as a record announces before it reads
  the first: a record announcing \<open>2 ^ 64 - 1\<close> arguments makes it panic instead of
  reporting the truncated buffer.
\<close>

theorem loh_count_panics:
  "parse_loh_blob ([2] @ replicate 9 0xff @ [1]) = Panic"
proof -
  let ?bs = "[2] @ replicate 9 0xff @ [1] :: bytes"
  have kind: "read_uleb ?bs = Ok (2, 1)" by code_simp
  have argc: "read_uleb (drop 1 ?bs) = Ok (0xFFFFFFFFFFFFFFFF, 10)" by code_simp
  have cap: "with_capacity_u32 (unat (0xFFFFFFFFFFFFFFFF :: u64)) = (Panic :: unit read)"
    by (simp add: with_capacity_u32_def)
  have "u32_try_from e (2 :: u64) = Ok 2" for e :: read_error by (simp add: u32_try_from_def)
  then have "read_loh_record (of_nat 0) ?bs = Panic"
    by (simp only: read_loh_record_def kind argc cap rbind_simps prod.case Let_def)
  then show ?thesis
    unfolding parse_loh_blob_def by (subst parse_loh_loop.simps) (simp only: rbind_simps, simp)
qed

end
