(* ===== verification/Atomize.thy ===== *)
theory Atomize
  imports Atom Object_File Order
begin

text \<open>
  The atomization pass of \<^verbatim>\<open>src/atom.rs\<close>: splitting the sections of one object into atoms. A
  section is split at its symbols, at its string terminators, at fixed-width records or at its CFI
  records, depending on its kind; symbols are recorded with the atom and the off they denote.
  The state is the atom table and the per-object record of atoms, owners and alternate entries.
  \<^verbatim>\<open>usize\<close> values are natural numbers.
\<close>

section \<open>State\<close>

type_synonym sect_sym = "nat \<times> raw_nlist \<times> u32"

record object_atomization =
  oz_atoms :: "atom_id list"
  oz_owner_by_sym :: "(nat \<times> atom_id) list"
  oz_alt_entries_by_sym :: "(nat \<times> atom_id \<times> u32) list"

type_synonym az_state = "atom_table \<times> object_atomization"

definition atomization_default :: object_atomization where
  "atomization_default = \<lparr>oz_atoms = [], oz_owner_by_sym = [], oz_alt_entries_by_sym = []\<rparr>"

text \<open>\<^verbatim>\<open>let id = table.push(atom); out.atoms.push(id);\<close>\<close>

definition emit_atom :: "atom \<Rightarrow> az_state \<Rightarrow> (atom_id \<times> az_state) checked" where
  "emit_atom a st =
     rbind (push_atom a (fst st)) (\<lambda>(i, tb). Ok (i, (tb, (snd st)\<lparr>oz_atoms := oz_atoms (snd st) @ [i]\<rparr>)))"

definition add_owners :: "(nat \<times> atom_id) list \<Rightarrow> az_state \<Rightarrow> az_state" where
  "add_owners os st = (fst st, (snd st)\<lparr>oz_owner_by_sym := oz_owner_by_sym (snd st) @ os\<rparr>)"

definition add_alts :: "(nat \<times> atom_id \<times> u32) list \<Rightarrow> az_state \<Rightarrow> az_state" where
  "add_alts xs st = (fst st, (snd st)\<lparr>oz_alt_entries_by_sym := oz_alt_entries_by_sym (snd st) @ xs\<rparr>)"

section \<open>Flags and alignment\<close>

definition section_atom_flags :: "input_section \<Rightarrow> atom_flags" where
  "section_atom_flags sect =
     (let ty = is_flags sect AND SECTION_TYPE_MASK;
          f = (if is_flags sect AND S_ATTR_NO_DEAD_STRIP \<noteq> 0
                  \<or> ty = S_MOD_INIT_FUNC_POINTERS \<or> ty = S_MOD_TERM_FUNC_POINTERS
               then af_set AF_NO_DEAD_STRIP AF_NONE else AF_NONE);
          f = (if is_flags sect AND S_ATTR_LIVE_SUPPORT \<noteq> 0 then af_set AF_LIVE_SUPPORT f else f)
      in if is_kind sect = KText then af_set AF_PURE_INSTRUCTIONS f else f)"

definition symbol_flags :: "input_section \<Rightarrow> raw_nlist \<Rightarrow> atom_flags" where
  "symbol_flags sect s =
     (let f = section_atom_flags sect;
          f = (if no_dead_strip s \<and> \<not> af_has f AF_LIVE_SUPPORT then af_set AF_NO_DEAD_STRIP f else f)
      in if weak_def s then af_set AF_WEAK_DEF f else f)"

text \<open>\<^verbatim>\<open>u32::trailing_zeros\<close> of a non-zero word.\<close>

definition trailing_zeros32 :: "u32 \<Rightarrow> nat" where
  "trailing_zeros32 w = (case List.find (bit w) [0..<32] of Some n \<Rightarrow> n | None \<Rightarrow> 32)"

definition atom_alignment_pow2 :: "u32 \<Rightarrow> u32 \<Rightarrow> u8" where
  "atom_alignment_pow2 section_align input_offset =
     (let offset_align = (if input_offset = 0 then -1 else of_nat (trailing_zeros32 input_offset))
      in ucast (min (min section_align offset_align) 255))"

section \<open>Atoms built from a section\<close>

definition build_section_atom :: "input_id \<Rightarrow> u8 \<Rightarrow> input_section \<Rightarrow> atom_section \<Rightarrow> atom" where
  "build_section_atom input_id section_idx sect asec =
     \<lparr>at_id = 0, at_origin = input_id, at_input_section = section_idx, at_section = asec,
      at_input_offset = 0, at_size = ucast (is_size sect),
      at_align_pow2 = atom_alignment_pow2 (is_align_pow2 sect) 0, at_owner = None, at_alt_entries = [],
      at_data = (if as_is_zerofill asec then [] else is_data sect),
      at_flags = section_atom_flags sect, at_parent_of = None\<rparr>"

definition slice_flags :: "input_section \<Rightarrow> u32 \<Rightarrow> u32 \<Rightarrow> raw_nlist option \<Rightarrow> atom_flags" where
  "slice_flags sect off sz owner =
     (let f = section_atom_flags sect;
          f = (case owner of Some s \<Rightarrow> af_set (symbol_flags sect s) f | None \<Rightarrow> f)
      in if sz = 0 \<and> off < ucast (is_size sect) then af_set AF_ALT_ENTRY f else f)"

definition build_slice_atom ::
  "input_id \<Rightarrow> u8 \<Rightarrow> input_section \<Rightarrow> atom_section \<Rightarrow> u32 \<Rightarrow> u32 \<Rightarrow> raw_nlist option \<Rightarrow> alt_entry_rec list \<Rightarrow> atom checked" where
  "build_slice_atom input_id section_idx sect asec off sz owner alts =
     rbind (if as_is_zerofill asec then Ok []
            else rbind (add32 off sz) (\<lambda>fin.
              slice (unat off) (min (unat fin) (length (is_data sect))) (is_data sect))) (\<lambda>data.
     Ok \<lparr>at_id = 0, at_origin = input_id, at_input_section = section_idx, at_section = asec,
         at_input_offset = off, at_size = sz,
         at_align_pow2 = atom_alignment_pow2 (is_align_pow2 sect) off, at_owner = None,
         at_alt_entries = alts, at_data = data, at_flags = slice_flags sect off sz owner,
         at_parent_of = None\<rparr>)"

text \<open>An atom of a literal or unwind section: a record at a given off with given bytes.\<close>

definition record_atom ::
  "input_id \<Rightarrow> u8 \<Rightarrow> atom_section \<Rightarrow> nat \<Rightarrow> nat \<Rightarrow> u32 \<Rightarrow> bytes \<Rightarrow> atom_flags \<Rightarrow> atom" where
  "record_atom input_id section_idx asec off sz align data flags =
     \<lparr>at_id = 0, at_origin = input_id, at_input_section = section_idx, at_section = asec,
      at_input_offset = of_nat off, at_size = of_nat sz,
      at_align_pow2 = atom_alignment_pow2 align (of_nat off), at_owner = None, at_alt_entries = [],
      at_data = data, at_flags = flags, at_parent_of = None\<rparr>"

definition owner_entry :: "sect_sym list \<Rightarrow> nat \<Rightarrow> sect_sym option" where
  "owner_entry syms off = List.find (\<lambda>(_, _, w). unat w = off) syms"

definition literal_flags :: "input_section \<Rightarrow> sect_sym option \<Rightarrow> atom_flags" where
  "literal_flags sect entry =
     (let f = af_set AF_LITERAL (section_atom_flags sect)
      in case entry of Some (_, s, _) \<Rightarrow> af_set (symbol_flags sect s) f | None \<Rightarrow> f)"

definition entry_owners :: "sect_sym option \<Rightarrow> atom_id \<Rightarrow> (nat \<times> atom_id) list" where
  "entry_owners entry i = (case entry of Some (k, _, _) \<Rightarrow> [(k, i)] | None \<Rightarrow> [])"

section \<open>Literals\<close>

function atomize_cstring ::
  "input_id \<Rightarrow> u8 \<Rightarrow> input_section \<Rightarrow> sect_sym list \<Rightarrow> atom_section \<Rightarrow> nat \<Rightarrow> az_state \<Rightarrow> az_state checked" where
  "atomize_cstring input_id section_idx sect syms asec off st =
     (if length (is_data sect) \<le> off then Ok st
      else
        rbind (slice off (length (is_data sect)) (is_data sect)) (\<lambda>tail.
        let nul = (case position (\<lambda>b. b = 0) tail of Some n \<Rightarrow> n | None \<Rightarrow> length (is_data sect) - off);
            fin = min (off + nul + 1) (length (is_data sect)) in
        rbind (slice off fin (is_data sect)) (\<lambda>data.
        let entry = owner_entry syms off in
        rbind (emit_atom (record_atom input_id section_idx asec off (fin - off) (is_align_pow2 sect)
                 data (literal_flags sect entry)) st) (\<lambda>(i, st1).
        atomize_cstring input_id section_idx sect syms asec fin (add_owners (entry_owners entry i) st1)))))"
  by pat_completeness auto
termination by (relation "measure (\<lambda>(_, _, sect, _, _, off, _). length (is_data sect) - off)") auto

function atomize_fixed_literal ::
  "input_id \<Rightarrow> u8 \<Rightarrow> input_section \<Rightarrow> sect_sym list \<Rightarrow> nat \<Rightarrow> atom_section \<Rightarrow> nat \<Rightarrow> az_state \<Rightarrow> az_state checked" where
  "atomize_fixed_literal input_id section_idx sect syms chunk_size asec off st =
     (if chunk_size = 0 \<or> unat (is_size sect) \<le> off then Ok st
      else
        rbind (expect (checked_add off chunk_size)) (\<lambda>e.
        let fin = min e (unat (is_size sect));
            data_end = min fin (length (is_data sect)) in
        rbind (if off < data_end then slice off data_end (is_data sect) else Ok []) (\<lambda>data.
        let entry = owner_entry syms off in
        rbind (emit_atom (record_atom input_id section_idx asec off (fin - off) (is_align_pow2 sect)
                 data (literal_flags sect entry)) st) (\<lambda>(i, st1).
        atomize_fixed_literal input_id section_idx sect syms chunk_size asec fin
          (add_owners (entry_owners entry i) st1)))))"
  by pat_completeness auto
termination
  by (relation "measure (\<lambda>(_, _, sect, _, _, _, off, _). unat (is_size sect) - off)")
    (auto simp: checked_add_def split: if_splits)

definition atomize_literal_section ::
  "input_id \<Rightarrow> u8 \<Rightarrow> input_section \<Rightarrow> sect_sym list \<Rightarrow> atom_section \<Rightarrow> az_state \<Rightarrow> az_state checked" where
  "atomize_literal_section input_id section_idx sect syms asec st =
     (case asec of
        ACStringLiterals \<Rightarrow> atomize_cstring input_id section_idx sect syms asec 0 st
      | ALiteral4 \<Rightarrow> atomize_fixed_literal input_id section_idx sect syms 4 asec 0 st
      | ALiteral8 \<Rightarrow> atomize_fixed_literal input_id section_idx sect syms 8 asec 0 st
      | ALiteral16 \<Rightarrow> atomize_fixed_literal input_id section_idx sect syms 16 asec 0 st
      | _ \<Rightarrow> Panic)"

section \<open>Unwind records\<close>

function atomize_compact_unwind ::
  "input_id \<Rightarrow> u8 \<Rightarrow> input_section \<Rightarrow> sect_sym list \<Rightarrow> atom_section \<Rightarrow> nat \<Rightarrow> az_state \<Rightarrow> az_state checked" where
  "atomize_compact_unwind input_id section_idx sect syms asec off st =
     (if unat (is_size sect) \<le> off then Ok st
      else
        rbind (expect (checked_add off 32)) (\<lambda>e.
        let fin = min e (unat (is_size sect)) in
        rbind (slice off (min fin (length (is_data sect))) (is_data sect)) (\<lambda>data.
        rbind (emit_atom (record_atom input_id section_idx asec off (fin - off) (is_align_pow2 sect)
                 data (section_atom_flags sect)) st) (\<lambda>(i, st1).
        atomize_compact_unwind input_id section_idx sect syms asec fin
          (add_owners (entry_owners (owner_entry syms off) i) st1)))))"
  by pat_completeness auto
termination
  by (relation "measure (\<lambda>(_, _, sect, _, _, off, _). unat (is_size sect) - off)")
    (auto simp: checked_add_def split: if_splits)

definition eh_frame_record_size :: "bytes \<Rightarrow> nat \<Rightarrow> nat option" where
  "eh_frame_record_size data off =
     (case checked_add off 4 of
        None \<Rightarrow> None
      | Some length_end \<Rightarrow>
          if length data < length_end then None
          else
            let len = (from_le (take 4 (drop off data)) :: u32) in
            if len = 0 then Some 4
            else if len = -1 then None
            else (case checked_add 4 (unat len) of
                    None \<Rightarrow> None
                  | Some sz \<Rightarrow> if off + sz \<le> length data then Some sz else None))"

function atomize_eh_frame ::
  "input_id \<Rightarrow> u8 \<Rightarrow> input_section \<Rightarrow> atom_section \<Rightarrow> nat \<Rightarrow> az_state \<Rightarrow> az_state checked" where
  "atomize_eh_frame input_id section_idx sect asec off st =
     (if length (is_data sect) \<le> off then Ok st
      else
        case eh_frame_record_size (is_data sect) off of
          None \<Rightarrow> rbind (emit_atom (build_section_atom input_id section_idx sect asec) st) (\<lambda>(_, st1). Ok st1)
        | Some sz \<Rightarrow>
            let fin = min (off + sz) (length (is_data sect)) in
            rbind (slice off fin (is_data sect)) (\<lambda>data.
            rbind (emit_atom (record_atom input_id section_idx asec off (fin - off)
                     (min (is_align_pow2 sect) 2) data (section_atom_flags sect)) st) (\<lambda>(_, st1).
            atomize_eh_frame input_id section_idx sect asec fin st1)))"
  by pat_completeness auto
termination
  by (relation "measure (\<lambda>(_, _, sect, _, off, _). length (is_data sect) - off)")
    (auto simp: eh_frame_record_size_def Let_def checked_add_def split: if_splits option.splits)

declare atomize_cstring.simps [simp del] atomize_fixed_literal.simps [simp del]
  atomize_compact_unwind.simps [simp del] atomize_eh_frame.simps [simp del]

section \<open>Zero-fill sections\<close>

fun atomize_zerofill_loop ::
  "input_id \<Rightarrow> u8 \<Rightarrow> input_section \<Rightarrow> sect_sym list \<Rightarrow> atom_section \<Rightarrow> az_state \<Rightarrow> az_state checked" where
  "atomize_zerofill_loop input_id section_idx sect [] asec st = Ok st"
| "atomize_zerofill_loop input_id section_idx sect ((k, s, start) # rest) asec st =
     (let fin = (case rest of [] \<Rightarrow> ucast (is_size sect) | (_, _, off) # _ \<Rightarrow> off);
          sz = saturating_sub fin start in
      rbind (emit_atom
         \<lparr>at_id = 0, at_origin = input_id, at_input_section = section_idx, at_section = asec,
          at_input_offset = start, at_size = sz,
          at_align_pow2 = atom_alignment_pow2 (is_align_pow2 sect) start, at_owner = Some (of_nat k),
          at_alt_entries = [], at_data = [], at_flags = symbol_flags sect s, at_parent_of = None\<rparr> st) (\<lambda>(i, st1).
      atomize_zerofill_loop input_id section_idx sect rest asec (add_owners [(k, i)] st1)))"

definition atomize_zerofill ::
  "input_id \<Rightarrow> u8 \<Rightarrow> input_section \<Rightarrow> sect_sym list \<Rightarrow> atom_section \<Rightarrow> az_state \<Rightarrow> az_state checked" where
  "atomize_zerofill input_id section_idx sect syms asec st =
     (if syms = [] then
        rbind (emit_atom (build_section_atom input_id section_idx sect asec) st) (\<lambda>(_, st1). Ok st1)
      else atomize_zerofill_loop input_id section_idx sect syms asec st)"

section \<open>Sections split at their symbols\<close>

definition find_next_atom_boundary :: "sect_sym list \<Rightarrow> nat \<Rightarrow> (nat \<times> u32) option" where
  "find_next_atom_boundary syms from =
     (case List.find (\<lambda>(_, s, _). \<not> alt_entry s) (drop from syms) of
        None \<Rightarrow> None
      | Some (_, _, boundary_offset) \<Rightarrow>
          (case position (\<lambda>(_, _, off). off = boundary_offset) (drop from syms) of
             None \<Rightarrow> None
           | Some k \<Rightarrow> Some (from + k, boundary_offset)))"

definition alt_of :: "u32 \<Rightarrow> sect_sym \<Rightarrow> alt_entry_rec" where
  "alt_of local_off x =
     (case x of (k, s, _) \<Rightarrow>
        \<lparr>ae_symbol = of_nat k, ae_offset_within_atom = local_off, ae_explicit = alt_entry s\<rparr>)"

text \<open>The global symbols of a list, at their section offsets: the alternate entries of an unowned atom.\<close>

definition global_syms :: "sect_sym list \<Rightarrow> sect_sym list" where
  "global_syms syms = filter (\<lambda>(_, s, _). participates_in_global_resolution s) syms"

definition emit_unowned ::
  "input_id \<Rightarrow> u8 \<Rightarrow> input_section \<Rightarrow> atom_section \<Rightarrow> u32 \<Rightarrow> sect_sym list \<Rightarrow> az_state \<Rightarrow> az_state checked" where
  "emit_unowned input_id section_idx sect asec sz syms st =
     (let entries = global_syms syms;
          alts = map (\<lambda>x. alt_of (snd (snd x)) x) entries in
      rbind (build_slice_atom input_id section_idx sect asec 0 sz None alts) (\<lambda>a.
      rbind (emit_atom a st) (\<lambda>(i, st1). Ok (add_alts (map (\<lambda>(k, _, off). (k, i, off)) entries) st1))))"

text \<open>
  One round of the boundary loop. The symbols at the boundary's address are
  \<^verbatim>\<open>syms[i..same_offset_end]\<close>; the last ordinary one among them owns the atom.
\<close>

definition same_offset_end :: "sect_sym list \<Rightarrow> nat \<Rightarrow> u32 \<Rightarrow> nat" where
  "same_offset_end syms i atom_offset =
     (case position (\<lambda>(_, _, off). off > atom_offset) (drop i syms) of
        Some delta \<Rightarrow> i + delta
      | None \<Rightarrow> length syms)"

definition canonical_index :: "sect_sym list \<Rightarrow> nat \<Rightarrow> nat \<Rightarrow> nat option" where
  "canonical_index syms i e = List.find (\<lambda>k. \<not> alt_entry (fst (snd (syms ! k)))) (rev [i..<e])"

definition folded_syms :: "sect_sym list \<Rightarrow> nat \<Rightarrow> nat \<Rightarrow> nat \<Rightarrow> u32 \<Rightarrow> u32 \<Rightarrow> sect_sym list" where
  "folded_syms syms i next_start canonical atom_offset sz =
     map snd (filter (\<lambda>(idx, _, s, off).
         participates_in_global_resolution s
         \<and> (alt_entry s \<or> (off = atom_offset \<and> \<not> alt_entry s \<and> idx \<noteq> canonical)))
       (takeWhile (\<lambda>(_, _, _, off). \<not> (off > atom_offset \<and> off \<ge> saturating_add32 atom_offset sz))
         (map (\<lambda>idx. (idx, syms ! idx)) [i..<next_start])))"

fun set_symbol_flags :: "input_section \<Rightarrow> sect_sym list \<Rightarrow> atom_flags \<Rightarrow> atom_flags" where
  "set_symbol_flags sect [] f = f"
| "set_symbol_flags sect ((_, s, _) # xs) f =
     set_symbol_flags sect xs (if alt_entry s then f else af_set (symbol_flags sect s) f)"

definition boundary_owners :: "sect_sym list \<Rightarrow> atom_id \<Rightarrow> (nat \<times> atom_id) list" where
  "boundary_owners xs i =
     map (\<lambda>(k, _, _). (k, i)) (filter (\<lambda>(_, s, _). \<not> alt_entry s \<and> participates_in_global_resolution s) xs)"

definition boundary_step ::
  "input_id \<Rightarrow> u8 \<Rightarrow> input_section \<Rightarrow> sect_sym list \<Rightarrow> atom_section \<Rightarrow> nat \<Rightarrow> az_state \<Rightarrow> (nat \<times> az_state) checked" where
  "boundary_step input_id section_idx sect syms asec i st =
     (let atom_offset = snd (snd (syms ! i));
          e = same_offset_end syms i atom_offset in
      rbind (expect (canonical_index syms i e)) (\<lambda>canonical.
      let next_boundary = find_next_atom_boundary syms e;
          next_start = (case next_boundary of Some (start, _) \<Rightarrow> start | None \<Rightarrow> length syms);
          next_offset = (case next_boundary of Some (_, off) \<Rightarrow> off | None \<Rightarrow> ucast (is_size sect));
          sz = saturating_sub next_offset atom_offset;
          folded = folded_syms syms i next_start canonical atom_offset sz in
      rbind (mapM (\<lambda>x. rbind (sub32 (snd (snd x)) atom_offset) (\<lambda>local_off. Ok (x, local_off))) folded) (\<lambda>alts.
      rbind (build_slice_atom input_id section_idx sect asec atom_offset sz (Some (fst (snd (syms ! canonical))))
               (map (\<lambda>(x, local_off). alt_of local_off x) alts)) (\<lambda>a.
      let here = take (e - i) (drop i syms);
          a = a\<lparr>at_flags := set_symbol_flags sect here (at_flags a)\<rparr> in
      rbind (emit_atom a st) (\<lambda>(aid, st1).
      Ok (next_start,
          add_alts (map (\<lambda>(x, local_off). (fst x, aid, local_off)) alts)
            (add_owners (boundary_owners here aid) st1)))))))"

lemma same_offset_end_gt: "i < length syms \<Longrightarrow> i < same_offset_end syms i (snd (snd (syms ! i)))"
  by (cases "drop i syms")
    (auto simp: same_offset_end_def drop_eq_Nil2 split: option.splits prod.splits
      dest: arg_cong [where f = hd] simp: hd_drop_conv_nth)

lemma find_next_atom_boundary_ge: "find_next_atom_boundary syms n = Some (k, off) \<Longrightarrow> n \<le> k"
  by (auto simp: find_next_atom_boundary_def split: option.splits)

lemma same_offset_end_le: "same_offset_end syms i w \<le> length syms"
  by (fastforce simp: same_offset_end_def split: option.splits dest: position_SomeD(1))

lemma boundary_step_gt:
  assumes "i < length syms" and "boundary_step input_id section_idx sect syms asec i st = Ok (n, st')"
  shows "i < n"
  using assms same_offset_end_gt [OF assms(1)]
  by (auto simp: boundary_step_def Let_def rbind_Ok_iff split: prod.splits option.splits
      dest!: find_next_atom_boundary_ge)

function atomize_boundaries ::
  "input_id \<Rightarrow> u8 \<Rightarrow> input_section \<Rightarrow> sect_sym list \<Rightarrow> atom_section \<Rightarrow> nat \<Rightarrow> az_state \<Rightarrow> az_state checked" where
  "atomize_boundaries input_id section_idx sect syms asec i st =
     (if length syms \<le> i then Ok st
      else rbind (boundary_step input_id section_idx sect syms asec i st) (\<lambda>(n, st1).
        atomize_boundaries input_id section_idx sect syms asec n st1))"
  by pat_completeness auto
termination
  by (relation "measure (\<lambda>(_, _, _, syms, _, i, _). length syms - i)")
    (auto dest!: boundary_step_gt [rotated] simp: diff_less_mono2)

declare atomize_boundaries.simps [simp del]

definition atomize_regular_section ::
  "input_id \<Rightarrow> u8 \<Rightarrow> input_section \<Rightarrow> sect_sym list \<Rightarrow> bool \<Rightarrow> az_state \<Rightarrow> az_state checked" where
  "atomize_regular_section input_id section_idx sect syms subsections_via_symbols st =
     (let asec = from_section_kind (is_kind sect) in
      if \<not> subsections_via_symbols then
        rbind (emit_atom (build_section_atom input_id section_idx sect asec) st) (\<lambda>(i, st1).
        Ok (add_alts (map (\<lambda>(k, _, off). (k, i, off)) syms) st1))
      else if as_is_zerofill asec then atomize_zerofill input_id section_idx sect syms asec st
      else if as_is_literal asec then atomize_literal_section input_id section_idx sect syms asec st
      else if asec = ACompactUnwind then atomize_compact_unwind input_id section_idx sect syms asec 0 st
      else if asec = AEhFrame then atomize_eh_frame input_id section_idx sect asec 0 st
      else if syms = [] then
        rbind (emit_atom (build_section_atom input_id section_idx sect asec) st) (\<lambda>(_, st1). Ok st1)
      else
        case find_next_atom_boundary syms 0 of
          None \<Rightarrow> emit_unowned input_id section_idx sect asec (ucast (is_size sect)) syms st
        | Some (first_boundary, first_offset) \<Rightarrow>
            rbind (if first_offset > 0
                   then emit_unowned input_id section_idx sect asec first_offset (take first_boundary syms) st
                   else Ok st) (\<lambda>st1.
            atomize_boundaries input_id section_idx sect syms asec first_boundary st1))"

section \<open>Objects\<close>

definition section_syms :: "object_file \<Rightarrow> input_section \<Rightarrow> u8 \<Rightarrow> bool \<Rightarrow> sect_sym list" where
  "section_syms obj sect sect_idx_one subsections_via_symbols =
     (let asec = from_section_kind (is_kind sect);
          uses_symbol_boundaries = (subsections_via_symbols \<and> \<not> as_is_zerofill asec \<and> \<not> as_is_literal asec
            \<and> asec \<noteq> ACompactUnwind \<and> asec \<noteq> AEhFrame) in
      sort_by (\<lambda>a b. cmp (snd (snd a)) (snd (snd b)))
        (map (\<lambda>(i, s). (i, s, ucast (saturating_sub (n_value s) (is_addr sect))))
          (filter (\<lambda>(_, s). stab_kind s = None \<and> nlist_kind s = Sect \<and> n_sect s = sect_idx_one
              \<and> (participates_in_global_resolution s \<or> (uses_symbol_boundaries \<and> \<not> alt_entry s)))
            (zip [0..<length (ob_symbols obj)] (ob_symbols obj)))))"

fun atomize_sections :: "input_id \<Rightarrow> object_file \<Rightarrow> bool \<Rightarrow> nat \<Rightarrow> input_section list \<Rightarrow> az_state \<Rightarrow> az_state checked" where
  "atomize_sections input_id obj svs n [] st = Ok st"
| "atomize_sections input_id obj svs n (sect # sects) st =
     (let sect_idx_one = of_nat (n + 1) in
      rbind (atomize_regular_section input_id sect_idx_one sect (section_syms obj sect sect_idx_one svs) svs st)
        (atomize_sections input_id obj svs (n + 1) sects))"

end
