(* ===== verification/Atom_Tiling.thy ===== *)
theory Atom_Tiling
  imports Atomize
begin

text \<open>
  Atomization cuts a section without gaps, overlaps or changes: the new atoms, in order, are
  consecutive slices of the section's content from its first to its last byte, and every symbol
  recorded with an atom denotes the address it had in the section. The four record-wise splitters
  (strings, fixed-width literals, compact-unwind records, CFI records) satisfy one contract, the
  locale \<open>record_splitter\<close>, in which tiling is proved once; the splitter at symbol boundaries is
  treated separately.
\<close>

section \<open>Specification\<close>

fun tiles :: "bytes \<Rightarrow> nat \<Rightarrow> atom list \<Rightarrow> nat \<Rightarrow> bool" where
  "tiles d k [] e \<longleftrightarrow> k = e"
| "tiles d k (a # as) e \<longleftrightarrow>
     unat (at_input_offset a) = k \<and> at_data a = take (unat (at_size a)) (drop k d)
     \<and> k + unat (at_size a) \<le> length d \<and> tiles d (k + unat (at_size a)) as e"

text \<open>Owners sit at the first byte of their atom, alternate entries at the recorded distance.\<close>

definition owners_ok :: "sect_sym list \<Rightarrow> atom list \<Rightarrow> (nat \<times> atom_id) list \<Rightarrow> bool" where
  "owners_ok syms as ow \<longleftrightarrow>
     (\<forall>(k, i) \<in> set ow. \<exists>s a. a \<in> set as \<and> at_id a = i \<and> (k, s, at_input_offset a) \<in> set syms)"

definition alts_ok :: "sect_sym list \<Rightarrow> atom list \<Rightarrow> (nat \<times> atom_id \<times> u32) list \<Rightarrow> bool" where
  "alts_ok syms as al \<longleftrightarrow>
     (\<forall>(k, i, l) \<in> set al. \<exists>s a. a \<in> set as \<and> at_id a = i \<and> (k, s, at_input_offset a + l) \<in> set syms)"

definition extends :: "sect_sym list \<Rightarrow> az_state \<Rightarrow> atom list \<Rightarrow> az_state \<Rightarrow> bool" where
  "extends syms st as st' \<longleftrightarrow>
     tb_atoms (fst st') = tb_atoms (fst st) @ as
     \<and> oz_atoms (snd st') = oz_atoms (snd st) @ map at_id as
     \<and> map at_id as = map of_nat [Suc (length (tb_atoms (fst st)))..<Suc (length (tb_atoms (fst st))) + length as]
     \<and> (\<exists>ow. oz_owner_by_sym (snd st') = oz_owner_by_sym (snd st) @ ow \<and> owners_ok syms as ow)
     \<and> (\<exists>al. oz_alt_entries_by_sym (snd st') = oz_alt_entries_by_sym (snd st) @ al \<and> alts_ok syms as al)"

definition room :: "nat \<Rightarrow> az_state \<Rightarrow> bool" where
  "room n st \<longleftrightarrow> length (tb_atoms (fst st)) + n < 2 ^ 32"

lemma tiles_append: "tiles d k (as @ bs) e \<longleftrightarrow> (\<exists>m. tiles d k as m \<and> tiles d m bs e)"
  by (induction as arbitrary: k) auto

lemma tiles_content: "tiles d k as e \<Longrightarrow> concat (map at_data as) = take (e - k) (drop k d) \<and> k \<le> e"
proof (induction as arbitrary: k)
  case (Cons a as)
  let ?n = "unat (at_size a)"
  have IH: "concat (map at_data as) = take (e - (k + ?n)) (drop (k + ?n) d)" "k + ?n \<le> e"
    using Cons by auto
  have "take ?n (drop k d) @ take (e - (k + ?n)) (drop (k + ?n) d) = take (e - k) (drop k d)"
    using IH(2) take_add [of ?n "e - (k + ?n)" "drop k d"] by (simp add: add.commute)
  then show ?case using Cons.prems IH by simp
qed simp

lemma extends_refl: "extends syms st [] st"
  by (simp add: extends_def owners_ok_def alts_ok_def)

lemma owners_ok_append: "owners_ok syms as ow \<Longrightarrow> owners_ok syms bs ow' \<Longrightarrow> owners_ok syms (as @ bs) (ow @ ow')"
  unfolding owners_ok_def by fastforce

lemma alts_ok_append: "alts_ok syms as al \<Longrightarrow> alts_ok syms bs al' \<Longrightarrow> alts_ok syms (as @ bs) (al @ al')"
  unfolding alts_ok_def by fastforce

lemma extends_trans:
  assumes "extends syms st as st1" and "extends syms st1 bs st2"
  shows "extends syms st (as @ bs) st2"
proof -
  let ?n = "Suc (length (tb_atoms (fst st)))"
  have "map at_id (as @ bs) = map of_nat [?n..<?n + length (as @ bs)]"
    using assms upt_add_eq_append [of ?n "?n + length as" "length bs"]
    unfolding extends_def by (simp add: add.assoc)
  moreover have "\<exists>ow. oz_owner_by_sym (snd st2) = oz_owner_by_sym (snd st) @ ow \<and> owners_ok syms (as @ bs) ow"
    using assms owners_ok_append unfolding extends_def by (metis append.assoc)
  moreover have "\<exists>al. oz_alt_entries_by_sym (snd st2) = oz_alt_entries_by_sym (snd st) @ al \<and> alts_ok syms (as @ bs) al"
    using assms alts_ok_append unfolding extends_def by (metis append.assoc)
  ultimately show ?thesis using assms unfolding extends_def by auto
qed

definition next_id :: "az_state \<Rightarrow> atom_id" where
  "next_id st = of_nat (length (tb_atoms (fst st)) + 1)"

definition emitted :: "atom \<Rightarrow> az_state \<Rightarrow> az_state" where
  "emitted a st = ((fst st)\<lparr>tb_atoms := tb_atoms (fst st) @ [a\<lparr>at_id := next_id st\<rparr>]\<rparr>,
     (snd st)\<lparr>oz_atoms := oz_atoms (snd st) @ [next_id st]\<rparr>)"

lemma emit_ok:
  assumes "room 1 st"
  shows "emit_atom a st = Ok (next_id st, emitted a st)"
proof -
  have f: "table_fits (fst st)" using assms by (simp add: room_def table_fits_def)
  show ?thesis
    by (simp only: emit_atom_def push_atom_ok [OF f] rbind_simps prod.case emitted_def next_id_def)
qed

lemma extends_emitted:
  assumes "owners_ok syms [a\<lparr>at_id := next_id st\<rparr>] ow" and "alts_ok syms [a\<lparr>at_id := next_id st\<rparr>] al"
  shows "extends syms st [a\<lparr>at_id := next_id st\<rparr>] (add_alts al (add_owners ow (emitted a st)))"
  using assms by (simp add: extends_def add_alts_def add_owners_def emitted_def) (simp add: next_id_def)

lemma add_nothing [simp]: "add_alts [] st = st" "add_owners [] st = st"
  by (simp_all add: add_alts_def add_owners_def)

lemma none_ok [simp]: "owners_ok syms as []" "alts_ok syms as []"
  by (simp_all add: owners_ok_def alts_ok_def)

lemma extends_room: "extends syms st as st1 \<Longrightarrow> room (length as + n) st \<Longrightarrow> room n st1"
  by (simp add: extends_def room_def)

section \<open>Record-wise splitting\<close>

locale record_splitter =
  fixes loop :: "input_id \<Rightarrow> u8 \<Rightarrow> input_section \<Rightarrow> sect_sym list \<Rightarrow> atom_section \<Rightarrow> nat \<Rightarrow> az_state \<Rightarrow> az_state checked"
    and at_record :: "input_section \<Rightarrow> nat \<Rightarrow> bool"
  assumes small: "at_record sect off \<Longrightarrow> length (is_data sect) < 2 ^ 32 \<and> off \<le> length (is_data sect)"
    and stop: "at_record sect (length (is_data sect)) \<Longrightarrow> loop inp idx sect syms asec (length (is_data sect)) st = Ok st"
    and step: "at_record sect off \<Longrightarrow> off < length (is_data sect) \<Longrightarrow>
      \<exists>fin align flags ow. off < fin \<and> fin \<le> length (is_data sect) \<and> at_record sect fin
        \<and> (\<forall>st. loop inp idx sect syms asec off st
              = rbind (emit_atom (record_atom inp idx asec off (fin - off) align
                         (take (fin - off) (drop off (is_data sect))) flags) st)
                  (\<lambda>(i, st1). loop inp idx sect syms asec fin (add_owners (ow i) st1)))
        \<and> (\<forall>i. \<forall>(k, j) \<in> set (ow i). j = i \<and> (\<exists>s w. (k, s, w) \<in> set syms \<and> unat w = off))"
begin

lemma loop_tiles:
  assumes "at_record sect off" and "room (length (is_data sect) - off) st"
  shows "\<exists>as st'. loop inp idx sect syms asec off st = Ok st' \<and> extends syms st as st'
     \<and> tiles (is_data sect) off as (length (is_data sect))"
  using assms
proof (induction "length (is_data sect) - off" arbitrary: off st rule: less_induct)
  case less
  let ?d = "is_data sect"
  show ?case
  proof (cases "off < length ?d")
    case False
    then have off: "off = length ?d" using small [OF less.prems(1)] by simp
    have "loop inp idx sect syms asec off st = Ok st" using less.prems(1) unfolding off by (rule stop)
    moreover have "tiles ?d off [] (length ?d)" by (simp add: off)
    ultimately show ?thesis using extends_refl by blast
  next
    case True
    obtain fin align flags ow where s: "off < fin" "fin \<le> length ?d" "at_record sect fin"
      and eq: "\<And>st. loop inp idx sect syms asec off st
              = rbind (emit_atom (record_atom inp idx asec off (fin - off) align (take (fin - off) (drop off ?d)) flags) st)
                  (\<lambda>(i, st1). loop inp idx sect syms asec fin (add_owners (ow i) st1))"
      and ow: "\<And>i. \<forall>(k, j) \<in> set (ow i). j = i \<and> (\<exists>s w. (k, s, w) \<in> set syms \<and> unat w = off)"
      using step [OF less.prems(1) True, of inp idx syms asec] by (elim exE conjE) (rule that; (assumption | erule spec))
    let ?a = "record_atom inp idx asec off (fin - off) align (take (fin - off) (drop off ?d)) flags"
    have sz: "unat (of_nat off :: u32) = off" "unat (of_nat (fin - off) :: u32) = fin - off"
      using small [OF less.prems(1)] s by (intro unat_of_nat32; linarith)+
    have "room 1 st" using less.prems(2) True by (simp add: room_def)
    note e = emit_ok [OF this]
    let ?i = "next_id st" and ?st1 = "emitted ?a st"
    have "w = (of_nat off :: u32)" if "unat w = off" for w using that by auto
    then have "owners_ok syms [?a\<lparr>at_id := ?i\<rparr>] (ow ?i)"
      using ow [of ?i] by (fastforce simp: owners_ok_def record_atom_def)
    from extends_emitted [OF this, of "[]"]
    have x: "extends syms st [?a\<lparr>at_id := ?i\<rparr>] (add_owners (ow ?i) ?st1)" by simp
    have "room (length ?d - fin) (add_owners (ow ?i) ?st1)"
      using extends_room [OF x, of "length ?d - fin"] less.prems(2) s by (simp add: room_def)
    then obtain as st' where IH: "loop inp idx sect syms asec fin (add_owners (ow ?i) ?st1) = Ok st'"
      "extends syms (add_owners (ow ?i) ?st1) as st'" "tiles ?d fin as (length ?d)"
      using less.hyps [of fin "add_owners (ow ?i) ?st1"] s by (auto simp: diff_less_mono2)
    have "tiles ?d off (?a\<lparr>at_id := ?i\<rparr> # as) (length ?d)"
      using IH(3) s sz by (simp add: record_atom_def)
    moreover have "extends syms st (?a\<lparr>at_id := ?i\<rparr> # as) st'" using extends_trans [OF x IH(2)] by simp
    moreover have "loop inp idx sect syms asec off st = Ok st'"
      unfolding eq e rbind_simps prod.case by (rule IH(1))
    ultimately show ?thesis by blast
  qed
qed

end

definition sect_data_ok :: "input_section \<Rightarrow> bool" where
  "sect_data_ok sect \<longleftrightarrow> length (is_data sect) = unat (is_size sect) \<and> unat (is_size sect) < 2 ^ 32"

lemma find_SomeD: "List.find P xs = Some x \<Longrightarrow> P x \<and> x \<in> set xs"
  by (induction xs) (auto split: if_splits)

lemma entry_owners_ok:
  "\<forall>(k, j) \<in> set (entry_owners (owner_entry syms off) i). j = i \<and> (\<exists>s w. (k, s, w) \<in> set syms \<and> unat w = off)"
  by (cases "owner_entry syms off") (auto simp: entry_owners_def owner_entry_def dest!: find_SomeD)

interpretation cstring: record_splitter atomize_cstring "\<lambda>sect off. sect_data_ok sect \<and> off \<le> length (is_data sect)"
proof (unfold_locales, goal_cases)
  case (3 sect off inp idx syms asec)
  let ?d = "is_data sect"
  let ?nul = "case position (\<lambda>b. b = 0) (drop off ?d) of Some n \<Rightarrow> n | None \<Rightarrow> length ?d - off"
  let ?fin = "min (off + ?nul + 1) (length ?d)"
  have "atomize_cstring inp idx sect syms asec off st =
      rbind (emit_atom (record_atom inp idx asec off (?fin - off) (is_align_pow2 sect)
               (take (?fin - off) (drop off ?d)) (literal_flags sect (owner_entry syms off))) st)
        (\<lambda>(i, st1). atomize_cstring inp idx sect syms asec ?fin (add_owners (entry_owners (owner_entry syms off) i) st1))" for st
    using 3(2) by (subst atomize_cstring.simps) (simp add: Let_def)
  moreover have "off < ?fin" "?fin \<le> length ?d" using 3(2) by auto
  ultimately show ?case using 3(1) entry_owners_ok by blast
qed (auto simp: sect_data_ok_def atomize_cstring.simps)

text \<open>Fixed-width records: the step of the literal splitter for a positive width.\<close>

lemma fixed_literal_step:
  assumes "sect_data_ok sect" and "off < length (is_data sect)" and "0 < c" and "c \<le> 16"
  defines "fin \<equiv> min (off + c) (length (is_data sect))"
  shows "atomize_fixed_literal inp idx sect syms c asec off st =
      rbind (emit_atom (record_atom inp idx asec off (fin - off) (is_align_pow2 sect)
               (take (fin - off) (drop off (is_data sect))) (literal_flags sect (owner_entry syms off))) st)
        (\<lambda>(i, st1). atomize_fixed_literal inp idx sect syms c asec fin (add_owners (entry_owners (owner_entry syms off) i) st1))"
proof -
  have "off + c \<le> usize_max" using assms(1,2,4) by (simp add: sect_data_ok_def usize_max_def)
  moreover have "unat (is_size sect) = length (is_data sect)" using assms(1) by (simp add: sect_data_ok_def)
  ultimately show ?thesis
    using assms(2,3) unfolding fin_def
    by (subst atomize_fixed_literal.simps) (simp add: Let_def checked_add_def min.commute min.left_commute)
qed

lemma fixed_literal_splitter:
  assumes "0 < c" and "c \<le> 16"
  shows "record_splitter (\<lambda>inp idx sect syms asec. atomize_fixed_literal inp idx sect syms c asec)
    (\<lambda>sect off. sect_data_ok sect \<and> off \<le> length (is_data sect))"
proof (unfold_locales, goal_cases)
  case (3 sect off inp idx syms asec)
  let ?fin = "min (off + c) (length (is_data sect))"
  have "off < ?fin" "?fin \<le> length (is_data sect)" using 3(2) assms(1) by auto
  then show ?case
    using 3(1) fixed_literal_step [OF _ 3(2) assms] entry_owners_ok
    by (intro exI [of _ ?fin] exI [of _ "is_align_pow2 sect"] exI [of _ "literal_flags sect (owner_entry syms off)"]
        exI [of _ "entry_owners (owner_entry syms off)"]) blast
qed (auto simp: sect_data_ok_def atomize_fixed_literal.simps)

interpretation literal4: record_splitter "\<lambda>inp idx sect syms asec. atomize_fixed_literal inp idx sect syms 4 asec"
    "\<lambda>sect off. sect_data_ok sect \<and> off \<le> length (is_data sect)"
  by (rule fixed_literal_splitter) simp_all

interpretation literal8: record_splitter "\<lambda>inp idx sect syms asec. atomize_fixed_literal inp idx sect syms 8 asec"
    "\<lambda>sect off. sect_data_ok sect \<and> off \<le> length (is_data sect)"
  by (rule fixed_literal_splitter) simp_all

interpretation literal16: record_splitter "\<lambda>inp idx sect syms asec. atomize_fixed_literal inp idx sect syms 16 asec"
    "\<lambda>sect off. sect_data_ok sect \<and> off \<le> length (is_data sect)"
  by (rule fixed_literal_splitter) simp_all

interpretation unwind: record_splitter atomize_compact_unwind
    "\<lambda>sect off. sect_data_ok sect \<and> off \<le> length (is_data sect)"
proof (unfold_locales, goal_cases)
  case (3 sect off inp idx syms asec)
  let ?d = "is_data sect"
  let ?fin = "min (off + 32) (length ?d)"
  have b: "off + 32 \<le> usize_max" "unat (is_size sect) = length ?d"
    using 3 by (simp_all add: sect_data_ok_def usize_max_def)
  have "atomize_compact_unwind inp idx sect syms asec off st =
      rbind (emit_atom (record_atom inp idx asec off (?fin - off) (is_align_pow2 sect)
               (take (?fin - off) (drop off ?d)) (section_atom_flags sect)) st)
        (\<lambda>(i, st1). atomize_compact_unwind inp idx sect syms asec ?fin (add_owners (entry_owners (owner_entry syms off) i) st1))" for st
    using b 3(2) by (subst atomize_compact_unwind.simps) (simp add: Let_def checked_add_def min.commute min.left_commute)
  moreover have "off < ?fin" "?fin \<le> length ?d" using 3(2) by auto
  ultimately show ?case using 3(1) entry_owners_ok by blast
qed (auto simp: sect_data_ok_def atomize_compact_unwind.simps)

text \<open>CFI sections are cut record by record as long as every record's length field is sound.\<close>

function cfi_records :: "bytes \<Rightarrow> nat \<Rightarrow> bool" where
  "cfi_records d off =
     (off = length d \<or> off < length d
        \<and> (case eh_frame_record_size d off of Some n \<Rightarrow> off + n \<le> length d \<and> cfi_records d (off + n) | None \<Rightarrow> False))"
  by pat_completeness auto
termination
  by (relation "measure (\<lambda>(d, off). length d - off)")
    (auto simp: eh_frame_record_size_def Let_def checked_add_def split: if_splits option.splits)

declare cfi_records.simps [simp del]

lemma eh_frame_record_size_pos: "eh_frame_record_size d off = Some n \<Longrightarrow> 4 \<le> n"
  by (auto simp: eh_frame_record_size_def Let_def checked_add_def split: if_splits option.splits)

interpretation eh_frame: record_splitter "\<lambda>inp idx sect syms asec. atomize_eh_frame inp idx sect asec"
    "\<lambda>sect off. sect_data_ok sect \<and> off \<le> length (is_data sect) \<and> cfi_records (is_data sect) off"
proof (unfold_locales, goal_cases)
  case (3 sect off inp idx syms asec)
  let ?d = "is_data sect"
  obtain n where n: "eh_frame_record_size ?d off = Some n" "off + n \<le> length ?d" "cfi_records ?d (off + n)"
    using 3 by (subst (asm) cfi_records.simps) (auto split: option.splits)
  have "atomize_eh_frame inp idx sect asec off st =
      rbind (emit_atom (record_atom inp idx asec off (off + n - off) (min (is_align_pow2 sect) 2)
               (take (off + n - off) (drop off ?d)) (section_atom_flags sect)) st)
        (\<lambda>(i, st1). atomize_eh_frame inp idx sect asec (off + n) (add_owners ((\<lambda>_. []) i) st1))" for st
    using n 3(2) by (subst atomize_eh_frame.simps) (simp add: Let_def min_absorb1)
  moreover have "off < off + n" using eh_frame_record_size_pos [OF n(1)] by simp
  ultimately show ?case using 3(1) n(2,3)
    by (intro exI [of _ "off + n"] exI [of _ "min (is_align_pow2 sect) 2"] exI [of _ "section_atom_flags sect"]
        exI [of _ "\<lambda>_. []"]) auto
qed (auto simp: sect_data_ok_def atomize_eh_frame.simps)

section \<open>Splitting at symbols\<close>

abbreviation sym_off :: "sect_sym \<Rightarrow> u32" where
  "sym_off x \<equiv> snd (snd x)"

definition syms_ok :: "input_section \<Rightarrow> sect_sym list \<Rightarrow> bool" where
  "syms_ok sect syms \<longleftrightarrow> sorted (map sym_off syms) \<and> (\<forall>x \<in> set syms. unat (sym_off x) \<le> unat (is_size sect))"

definition boundary_at :: "sect_sym list \<Rightarrow> nat \<Rightarrow> bool" where
  "boundary_at syms i \<longleftrightarrow> i < length syms
     \<and> (\<exists>j. i \<le> j \<and> j < length syms \<and> \<not> alt_entry (fst (snd (syms ! j))) \<and> sym_off (syms ! j) = sym_off (syms ! i))"

lemma find_next_atom_boundary_SomeD:
  assumes "find_next_atom_boundary syms n = Some (k, bo)"
  shows "n \<le> k" "sym_off (syms ! k) = bo" "boundary_at syms k"
proof -
  obtain x p where x: "List.find (\<lambda>(_, s, _). \<not> alt_entry s) (drop n syms) = Some x" "sym_off x = bo"
    and p: "position (\<lambda>(_, _, off). off = bo) (drop n syms) = Some p" "k = n + p"
    using assms by (auto simp: find_next_atom_boundary_def split: option.splits)
  obtain q where q: "q < length (drop n syms)" "drop n syms ! q = x" "\<not> alt_entry (fst (snd x))"
    using find_SomeD [OF x(1)] by (auto simp: in_set_conv_nth split: prod.splits)
  have k: "k < length syms" "sym_off (syms ! k) = bo"
    using position_SomeD(1,2) [OF p(1)] p(2) by (auto split: prod.splits)
  have "p \<le> q"
  proof (rule ccontr)
    assume "\<not> p \<le> q"
    then have "sym_off (drop n syms ! q) \<noteq> bo"
      using position_SomeD(3) [OF p(1)] by (simp add: case_prod_unfold)
    then show False using q(2) x(2) by simp
  qed
  then show "n \<le> k" "sym_off (syms ! k) = bo" "boundary_at syms k"
    using k p(2) q x(2) unfolding boundary_at_def by (auto intro!: exI [of _ "n + q"])
qed

lemma sorted_off:
  "syms_ok sect syms \<Longrightarrow> i \<le> j \<Longrightarrow> j < length syms \<Longrightarrow> sym_off (syms ! i) \<le> sym_off (syms ! j)"
  using sorted_nth_mono [of "map sym_off syms" i j] by (simp add: syms_ok_def)

lemma same_offset_end_spec:
  assumes "syms_ok sect syms" and "i < length syms"
  defines "e \<equiv> same_offset_end syms i (sym_off (syms ! i))"
  shows "i < e" "e \<le> length syms"
    and "\<And>j. i \<le> j \<Longrightarrow> j < e \<Longrightarrow> sym_off (syms ! j) = sym_off (syms ! i)"
    and "\<And>j. e \<le> j \<Longrightarrow> j < length syms \<Longrightarrow> sym_off (syms ! i) < sym_off (syms ! j)"
proof -
  show "i < e" unfolding e_def by (rule same_offset_end_gt [OF assms(2)])
  show len: "e \<le> length syms" unfolding e_def by (rule same_offset_end_le)
  have before: "\<not> sym_off (syms ! i) < sym_off (syms ! j)" if "i \<le> j" "j < e" for j
  proof (cases "position (\<lambda>(_, _, off). off > sym_off (syms ! i)) (drop i syms)")
    case None
    then have "\<forall>x \<in> set (drop i syms). \<not> sym_off (syms ! i) < sym_off x"
      by (auto simp: position_None split: prod.splits)
    moreover have "syms ! j \<in> set (drop i syms)"
      using that len nth_mem [of "j - i" "drop i syms"] by simp
    ultimately show ?thesis by blast
  next
    case (Some p)
    then have "j - i < p" using that by (auto simp: e_def same_offset_end_def)
    then have "\<not> sym_off (syms ! i) < sym_off (drop i syms ! (j - i))"
      using position_SomeD(3) [OF Some] by (simp add: case_prod_unfold)
    then show ?thesis using that(1) assms(2) by simp
  qed
  show "sym_off (syms ! j) = sym_off (syms ! i)" if "i \<le> j" "j < e" for j
    using before [OF that] sorted_off [OF assms(1) that(1)] that(2) len by auto
  show "sym_off (syms ! i) < sym_off (syms ! j)" if "e \<le> j" "j < length syms" for j
  proof (cases "position (\<lambda>(_, _, off). off > sym_off (syms ! i)) (drop i syms)")
    case None
    then have "e = length syms" by (simp add: e_def same_offset_end_def)
    then show ?thesis using that by simp
  next
    case (Some p)
    then have "e = i + p" by (simp add: e_def same_offset_end_def)
    moreover have "sym_off (syms ! i) < sym_off (syms ! (i + p))"
      using position_SomeD(1,2) [OF Some] by (auto split: prod.splits)
    ultimately show ?thesis using sorted_off [OF assms(1) that] by (simp add: less_le_trans)
  qed
qed

lemma canonical_index_ok:
  assumes "syms_ok sect syms" and "boundary_at syms i"
  obtains c where "canonical_index syms i (same_offset_end syms i (sym_off (syms ! i))) = Some c"
    "i \<le> c" "c < length syms" "sym_off (syms ! c) = sym_off (syms ! i)"
proof -
  let ?e = "same_offset_end syms i (sym_off (syms ! i))"
  have i: "i < length syms" using assms(2) by (simp add: boundary_at_def)
  note e = same_offset_end_spec [OF assms(1) i]
  obtain j where j: "i \<le> j" "j < length syms" "\<not> alt_entry (fst (snd (syms ! j)))" "sym_off (syms ! j) = sym_off (syms ! i)"
    using assms(2) by (auto simp: boundary_at_def)
  have "j < ?e" using e(4) [of j] j by fastforce
  then have "canonical_index syms i ?e \<noteq> None"
    using j by (auto simp: canonical_index_def find_None_iff)
  then obtain c where c: "canonical_index syms i ?e = Some c" by auto
  then have "c \<in> set (rev [i..<?e])" unfolding canonical_index_def by (blast dest: find_SomeD)
  then have ic: "i \<le> c" "c < ?e" by simp_all
  show thesis using that [OF c ic(1) _ e(3) [OF ic]] ic(2) e(2) by linarith
qed


lemma folded_syms_mem:
  assumes "x \<in> set (folded_syms syms i n c w sz)"
  shows "\<exists>j. i \<le> j \<and> j < n \<and> x = syms ! j"
  using assms by (fastforce simp: folded_syms_def dest!: set_takeWhileD)

lemma folded_offsets:
  assumes "syms_ok sect syms" and "n \<le> length syms"
  shows "mapM (\<lambda>x. rbind (sub32 (sym_off x) (sym_off (syms ! i))) (\<lambda>l. Ok (x, l))) (folded_syms syms i n c (sym_off (syms ! i)) sz)
    = (Ok (map (\<lambda>x. (x, sym_off x - sym_off (syms ! i))) (folded_syms syms i n c (sym_off (syms ! i)) sz)) :: (sect_sym \<times> u32) list checked)"
proof (rule mapM_Ok_map)
  fix x assume "x \<in> set (folded_syms syms i n c (sym_off (syms ! i)) sz)"
  then obtain j where "i \<le> j" "j < n" "x = syms ! j" using folded_syms_mem by blast
  then have "sym_off (syms ! i) \<le> sym_off x" using sorted_off [OF assms(1)] assms(2) by simp
  then show "rbind (sub32 (sym_off x) (sym_off (syms ! i))) (\<lambda>l. Ok (x, l)) = (Ok (x, sym_off x - sym_off (syms ! i)) :: (sect_sym \<times> u32) checked)"
    by (simp add: sub32_def)
qed

lemma build_slice_atom_ok:
  assumes "\<not> as_is_zerofill asec" and "unat off + unat sz \<le> length (is_data sect)" and "length (is_data sect) < 2 ^ 32"
  obtains a where "build_slice_atom inp idx sect asec off sz owner alts = Ok a"
    "at_input_offset a = off" "at_size a = sz" "at_data a = take (unat sz) (drop (unat off) (is_data sect))"
proof -
  have "add32 off sz = (Ok (off + sz) :: u32 checked)" "unat (off + sz) = unat off + unat sz"
    using assms(2,3) by (simp_all add: add32_ok add32_unat)
  then show thesis using that assms(1,2) by (simp add: build_slice_atom_def)
qed

lemma boundary_step_ok:
  assumes "syms_ok sect syms" and "sect_data_ok sect" and "boundary_at syms i" and "room 1 st"
    and "\<not> as_is_zerofill asec"
  obtains n st1 a where "boundary_step inp idx sect syms asec i st = Ok (n, st1)" and "extends syms st [a] st1"
    and "tiles (is_data sect) (unat (sym_off (syms ! i))) [a]
          (if n < length syms then unat (sym_off (syms ! n)) else length (is_data sect))"
    and "i < n" and "n < length syms \<longrightarrow> boundary_at syms n" and "n \<le> length syms"
proof -
  let ?bo = "sym_off (syms ! i)"
  let ?e = "same_offset_end syms i ?bo"
  let ?nb = "find_next_atom_boundary syms ?e"
  define n where "n = (case ?nb of Some (start, _) \<Rightarrow> start | None \<Rightarrow> length syms)"
  define w where "w = (case ?nb of Some (_, off) \<Rightarrow> off | None \<Rightarrow> ucast (is_size sect))"
  have i: "i < length syms" using assms(3) by (simp add: boundary_at_def)
  note e = same_offset_end_spec [OF assms(1) i]
  have sz32: "unat (ucast (is_size sect) :: u32) = length (is_data sect)"
    using assms(2) by (simp add: sect_data_ok_def unsigned_ucast_eq take_bit_nat_eq_self)
  consider (more) "?nb = Some (n, w)" | (last) "n = length syms" "w = ucast (is_size sect)"
    by (cases ?nb) (auto simp: n_def w_def)
  then have "i < n \<and> n \<le> length syms \<and> (n < length syms \<longrightarrow> boundary_at syms n)
      \<and> unat w = (if n < length syms then unat (sym_off (syms ! n)) else length (is_data sect))
      \<and> ?bo \<le> w \<and> unat w \<le> length (is_data sect)"
  proof cases
    case more
    note b = find_next_atom_boundary_SomeD [OF more]
    have n: "n < length syms" using b(3) by (simp add: boundary_at_def)
    have "unat (sym_off (syms ! n)) \<le> length (is_data sect)"
      using assms(1,2) n by (simp add: syms_ok_def sect_data_ok_def)
    then show ?thesis using b n e(1) e(4) [of n] by (auto intro: less_imp_le)
  next
    case last
    have "unat ?bo \<le> length (is_data sect)"
      using assms(1,2) i by (simp add: syms_ok_def sect_data_ok_def)
    then show ?thesis using sz32 i last by (auto simp: word_le_nat_alt)
  qed
  then have nb: "i < n" "n \<le> length syms" "n < length syms \<longrightarrow> boundary_at syms n"
    "unat w = (if n < length syms then unat (sym_off (syms ! n)) else length (is_data sect))"
    "?bo \<le> w" "unat w \<le> length (is_data sect)"
    by blast+
  obtain c where c: "canonical_index syms i ?e = Some c" using canonical_index_ok [OF assms(1,3)] by blast
  define sz where "sz = saturating_sub w ?bo"
  define fs where "fs = folded_syms syms i n c ?bo sz"
  have sz: "unat ?bo + unat sz = unat w" using nb(5) by (simp add: sz_def saturating_sub_def unat_sub word_le_nat_alt)
  have len: "unat ?bo + unat sz \<le> length (is_data sect)" "length (is_data sect) < 2 ^ 32"
    using sz nb(6) assms(2) by (simp_all add: sect_data_ok_def)
  obtain a where a: "build_slice_atom inp idx sect asec ?bo sz (Some (fst (snd (syms ! c))))
      (map (\<lambda>(x, l). alt_of l x) (map (\<lambda>x. (x, sym_off x - ?bo)) fs)) = Ok a"
      "at_input_offset a = ?bo" "at_size a = sz" "at_data a = take (unat sz) (drop (unat ?bo) (is_data sect))"
    by (rule build_slice_atom_ok [OF assms(5) len])
  let ?here = "take (?e - i) (drop i syms)"
  let ?a = "a\<lparr>at_flags := set_symbol_flags sect ?here (at_flags a)\<rparr>"
  let ?i = "next_id st"
  let ?al = "map (\<lambda>(x, l). (fst x, ?i, l)) (map (\<lambda>x. (x, sym_off x - ?bo)) fs)"
  have step: "boundary_step inp idx sect syms asec i st
      = Ok (n, add_alts ?al (add_owners (boundary_owners ?here ?i) (emitted ?a st)))"
    by (simp only: boundary_step_def Let_def c expect_simps rbind_simps n_def [symmetric] w_def [symmetric]
        sz_def [symmetric] folded_offsets [OF assms(1) nb(2)] fs_def [symmetric] a(1) emit_ok [OF assms(4)] prod.case)
  have "sym_off x = ?bo" if xh: "x \<in> set ?here" for x
  proof -
    obtain k where "k < ?e - i" "x = syms ! (i + k)" using xh e(2) by (auto simp: in_set_conv_nth)
    then show ?thesis using e(3) [of "i + k"] by simp
  qed
  then have ow: "owners_ok syms [?a\<lparr>at_id := ?i\<rparr>] (boundary_owners ?here ?i)"
    using a(2) by (fastforce simp: owners_ok_def boundary_owners_def dest: in_set_takeD in_set_dropD)
  have "fs_mem \<in> set syms" if "fs_mem \<in> set fs" for fs_mem
    using folded_syms_mem [of fs_mem syms i n c ?bo sz] that nb(2) by (auto simp: fs_def)
  then have "alts_ok syms [?a\<lparr>at_id := ?i\<rparr>] ?al" using a(2) by (fastforce simp: alts_ok_def)
  note x = extends_emitted [OF ow this]
  have "tiles (is_data sect) (unat ?bo) [?a\<lparr>at_id := ?i\<rparr>]
      (if n < length syms then unat (sym_off (syms ! n)) else length (is_data sect))"
    using a(2-4) sz nb(4,6) by simp
  from that [OF step x this nb(1,3,2)] show thesis .
qed

lemma atomize_boundaries_tiles:
  assumes "syms_ok sect syms" and "sect_data_ok sect" and "\<not> as_is_zerofill asec"
    and "boundary_at syms i" and "room (length syms - i) st"
  shows "\<exists>as st'. atomize_boundaries inp idx sect syms asec i st = Ok st' \<and> extends syms st as st'
     \<and> tiles (is_data sect) (unat (sym_off (syms ! i))) as (length (is_data sect))"
  using assms(4,5)
proof (induction "length syms - i" arbitrary: i st rule: less_induct)
  case less
  have i: "i < length syms" using less.prems(1) by (simp add: boundary_at_def)
  have r1: "room 1 st" using less.prems(2) i by (simp add: room_def)
  obtain n st1 a where s: "boundary_step inp idx sect syms asec i st = Ok (n, st1)" "extends syms st [a] st1"
    "tiles (is_data sect) (unat (sym_off (syms ! i))) [a]
      (if n < length syms then unat (sym_off (syms ! n)) else length (is_data sect))"
    "i < n" "n < length syms \<longrightarrow> boundary_at syms n" "n \<le> length syms"
    by (rule boundary_step_ok [OF assms(1,2) less.prems(1) r1 assms(3), of inp idx])
  have unf: "atomize_boundaries inp idx sect syms asec i st = atomize_boundaries inp idx sect syms asec n st1"
    using i s(1) by (simp add: atomize_boundaries.simps [of _ _ _ _ _ i])
  show ?case
  proof (cases "n < length syms")
    case False
    then have "atomize_boundaries inp idx sect syms asec n st1 = Ok st1"
      by (simp add: atomize_boundaries.simps [of _ _ _ _ _ n])
    then show ?thesis using unf s(2,3) False by auto
  next
    case True
    have "room (length syms - n) st1"
      using extends_room [OF s(2), of "length syms - n"] less.prems(2) s(4) True by (simp add: room_def)
    then obtain as st' where IH: "atomize_boundaries inp idx sect syms asec n st1 = Ok st'"
      "extends syms st1 as st'" "tiles (is_data sect) (unat (sym_off (syms ! n))) as (length (is_data sect))"
      using less.hyps [of n st1] s(4,5) True by (auto simp: diff_less_mono2)
    have "tiles (is_data sect) (unat (sym_off (syms ! i))) ([a] @ as) (length (is_data sect))"
      using s(3) IH(3) True unfolding tiles_append by auto
    then show ?thesis using unf IH(1) extends_trans [OF s(2) IH(2)] by auto
  qed
qed

lemma emit_unowned_tiles:
  assumes "\<not> as_is_zerofill asec" and "unat sz \<le> length (is_data sect)" and "length (is_data sect) < 2 ^ 32"
    and "room 1 st" and "set part \<subseteq> set syms"
  obtains st1 a where "emit_unowned inp idx sect asec sz part st = Ok st1" and "extends syms st [a] st1"
    and "tiles (is_data sect) 0 [a] (unat sz)"
proof -
  let ?es = "global_syms part"
  have fit: "unat (0 :: u32) + unat sz \<le> length (is_data sect)" using assms(2) by simp
  obtain a where a: "build_slice_atom inp idx sect asec 0 sz None (map (\<lambda>x. alt_of (sym_off x) x) ?es) = Ok a"
    "at_input_offset a = 0" "at_size a = sz" "at_data a = take (unat sz) (drop (unat (0 :: u32)) (is_data sect))"
    by (rule build_slice_atom_ok [OF assms(1) fit assms(3)])
  let ?i = "next_id st"
  let ?al = "map (\<lambda>(k, _, off). (k, ?i, off)) ?es"
  have e: "emit_unowned inp idx sect asec sz part st = Ok (add_alts ?al (emitted a st))"
    by (simp only: emit_unowned_def Let_def a(1) emit_ok [OF assms(4)] rbind_simps prod.case)
  have "alts_ok syms [a\<lparr>at_id := ?i\<rparr>] ?al"
    using a(2) assms(5) by (fastforce simp: alts_ok_def global_syms_def)
  from extends_emitted [OF _ this, of "[]"] have x: "extends syms st [a\<lparr>at_id := ?i\<rparr>] (add_alts ?al (emitted a st))"
    by simp
  show thesis by (rule that [OF e x]) (use a(2-4) assms(2) in simp)
qed

lemma emit_whole_tiles:
  assumes "sect_data_ok sect" and "\<not> as_is_zerofill asec" and "room 1 st"
  obtains i st1 a where "emit_atom (build_section_atom inp idx sect asec) st = Ok (i, st1)"
    and "\<And>al. alts_ok syms [a] al \<Longrightarrow> extends syms st [a] (add_alts al st1)"
    and "at_id a = i" and "at_input_offset a = 0" and "tiles (is_data sect) 0 [a] (length (is_data sect))"
proof -
  let ?a = "(build_section_atom inp idx sect asec)\<lparr>at_id := next_id st\<rparr>"
  have "unat (ucast (is_size sect) :: u32) = length (is_data sect)"
    using assms(1) by (simp add: sect_data_ok_def unsigned_ucast_eq take_bit_nat_eq_self)
  then have t: "tiles (is_data sect) 0 [?a] (length (is_data sect))"
    using assms(2) by (simp add: build_section_atom_def)
  have x: "extends syms st [?a] (add_alts al (emitted (build_section_atom inp idx sect asec) st))"
    if "alts_ok syms [?a] al" for al
    using extends_emitted [OF none_ok(1) that] by simp
  show thesis by (rule that [OF emit_ok [OF assms(3)] x _ _ t]) (simp_all add: build_section_atom_def)
qed

section \<open>Properties\<close>

interpretation offset_order: comparator "\<lambda>a b :: sect_sym. cmp (sym_off a) (sym_off b)"
  by unfold_locales auto

lemma section_syms_sorted: "sorted (map sym_off (section_syms obj sect idx svs))"
proof -
  have "sorted_by (\<lambda>a b. cmp (sym_off a) (sym_off b)) (section_syms obj sect idx svs)"
    unfolding section_syms_def Let_def by (rule offset_order.sorted_sort_by)
  then show ?thesis by (simp add: sorted_by_def sorted_wrt_map linorder_not_less)
qed

lemma zerofill_kinds [simp]: "as_is_zerofill (from_section_kind k) \<longleftrightarrow> is_zerofill k"
  by (cases k) (simp_all add: as_is_zerofill_def is_zerofill_def)

lemma eh_frame_kind: "from_section_kind k = AEhFrame \<longleftrightarrow> k = KEhFrame"
  by (cases k) simp_all

lemma whole_section_tiles:
  assumes "sect_data_ok sect" and "\<not> as_is_zerofill asec" and "room 1 st"
  shows "\<exists>as st'. rbind (emit_atom (build_section_atom inp idx sect asec) st)
        (\<lambda>(i, st1). Ok (add_alts (map (\<lambda>(k, _, off). (k, i, off)) syms) st1)) = Ok st'
    \<and> extends syms st as st' \<and> tiles (is_data sect) 0 as (length (is_data sect))"
proof -
  obtain i st1 a where e: "emit_atom (build_section_atom inp idx sect asec) st = Ok (i, st1)"
    and x: "\<And>al. alts_ok syms [a] al \<Longrightarrow> extends syms st [a] (add_alts al st1)"
    and a: "at_id a = i" "at_input_offset a = 0" "tiles (is_data sect) 0 [a] (length (is_data sect))"
    using emit_whole_tiles [OF assms, of inp idx syms] by metis
  have "alts_ok syms [a] (map (\<lambda>(k, _, off). (k, i, off)) syms)"
    using a(1,2) by (fastforce simp: alts_ok_def)
  from x [OF this] show ?thesis using e a(3) by auto
qed

lemma emit_only_tiles:
  assumes "sect_data_ok sect" and "\<not> as_is_zerofill asec" and "room 1 st"
  shows "\<exists>as st'. rbind (emit_atom (build_section_atom inp idx sect asec) st) (\<lambda>(_, st1). Ok st1) = Ok st'
    \<and> extends syms st as st' \<and> tiles (is_data sect) 0 as (length (is_data sect))"
proof -
  obtain i st1 a where e: "emit_atom (build_section_atom inp idx sect asec) st = Ok (i, st1)"
    and x: "\<And>al. alts_ok syms [a] al \<Longrightarrow> extends syms st [a] (add_alts al st1)"
    and a: "tiles (is_data sect) 0 [a] (length (is_data sect))"
    using emit_whole_tiles [OF assms, of inp idx syms] by metis
  from x [of "[]"] show ?thesis using e a by auto
qed

lemma symbol_split_tiles:
  assumes ok: "sect_data_ok sect" and z: "\<not> as_is_zerofill asec" and syms: "syms_ok sect syms"
    and r: "room (length syms + 1) st"
  shows "\<exists>as st'. (case find_next_atom_boundary syms 0 of
          None \<Rightarrow> emit_unowned inp idx sect asec (ucast (is_size sect)) syms st
        | Some (first_boundary, first_offset) \<Rightarrow>
            rbind (if first_offset > 0
                   then emit_unowned inp idx sect asec first_offset (take first_boundary syms) st
                   else Ok st) (\<lambda>st1.
            atomize_boundaries inp idx sect syms asec first_boundary st1)) = Ok st'
     \<and> extends syms st as st' \<and> tiles (is_data sect) 0 as (length (is_data sect))"
proof (cases "find_next_atom_boundary syms 0")
  case None
  have len: "unat (ucast (is_size sect) :: u32) = length (is_data sect)" "length (is_data sect) < 2 ^ 32"
    using ok by (simp_all add: sect_data_ok_def unsigned_ucast_eq take_bit_nat_eq_self)
  have r1: "room 1 st" using r by (simp add: room_def)
  obtain st1 a where "emit_unowned inp idx sect asec (ucast (is_size sect)) syms st = Ok st1" "extends syms st [a] st1"
    "tiles (is_data sect) 0 [a] (unat (ucast (is_size sect) :: u32))"
    using emit_unowned_tiles [OF z eq_imp_le [OF len(1)] len(2) r1 subset_refl] by metis
  then show ?thesis using None len(1) by auto
next
  case (Some fb)
  obtain f w where fb: "find_next_atom_boundary syms 0 = Some (f, w)" using Some by (cases fb) auto
  note b = find_next_atom_boundary_SomeD [OF fb]
  have f: "f < length syms" using b(3) by (simp add: boundary_at_def)
  have w: "unat w \<le> length (is_data sect)" using syms ok f b(2) by (auto simp: syms_ok_def sect_data_ok_def)
  obtain st1 hs where h: "(if w > 0 then emit_unowned inp idx sect asec w (take f syms) st else Ok st) = Ok st1"
    "extends syms st hs st1" "tiles (is_data sect) 0 hs (unat w)" "length hs \<le> 1"
  proof (cases "w > 0")
    case True
    have l: "length (is_data sect) < 2 ^ 32" "room 1 st" "set (take f syms) \<subseteq> set syms"
      using ok r by (auto simp: sect_data_ok_def room_def dest: in_set_takeD)
    obtain st1 a where "emit_unowned inp idx sect asec w (take f syms) st = Ok st1" "extends syms st [a] st1"
      "tiles (is_data sect) 0 [a] (unat w)"
      using emit_unowned_tiles [OF z w l] by metis
    then show ?thesis using that [of st1 "[a]"] True by auto
  next
    case False
    then have "unat w = 0" by (simp add: word_less_nat_alt)
    then show ?thesis using that [of st "[]"] extends_refl False by auto
  qed
  have "room (length syms - f) st1" using extends_room [OF h(2)] r h(4) by (simp add: room_def)
  then obtain as st' where "atomize_boundaries inp idx sect syms asec f st1 = Ok st'" "extends syms st1 as st'"
    "tiles (is_data sect) (unat w) as (length (is_data sect))"
    using atomize_boundaries_tiles [OF syms ok z b(3)] b(2) by blast
  then show ?thesis
    using fb h extends_trans tiles_append by (intro exI [of _ "hs @ as"] exI [of _ st']) auto
qed

lemma literal_section_tiles:
  assumes "sect_data_ok sect" and "as_is_literal asec" and "room (length (is_data sect)) st"
  shows "\<exists>as st'. atomize_literal_section inp idx sect syms asec st = Ok st' \<and> extends syms st as st'
     \<and> tiles (is_data sect) 0 as (length (is_data sect))"
  using assms(2) cstring.loop_tiles [of sect 0 st inp idx syms asec] literal4.loop_tiles [of sect 0 st inp idx syms asec]
    literal8.loop_tiles [of sect 0 st inp idx syms asec] literal16.loop_tiles [of sect 0 st inp idx syms asec] assms(1,3)
  by (auto simp: as_is_literal_def atomize_literal_section_def)

lemma regular_section_tiles:
  assumes ok: "sect_data_ok sect" and z: "\<not> is_zerofill (is_kind sect)" and syms: "syms_ok sect syms"
    and eh: "is_kind sect = KEhFrame \<longrightarrow> cfi_records (is_data sect) 0"
    and r: "room 1 st" "room (length (is_data sect)) st" "room (length syms + 1) st"
  shows "\<exists>as st'. atomize_regular_section inp idx sect syms svs st = Ok st' \<and> extends syms st as st'
     \<and> tiles (is_data sect) 0 as (length (is_data sect))"
proof -
  let ?asec = "from_section_kind (is_kind sect)"
  have za: "\<not> as_is_zerofill ?asec" using z by simp
  consider (whole) "\<not> svs" | (literal) "svs" "as_is_literal ?asec"
    | (unwind) "svs" "\<not> as_is_literal ?asec" "?asec = ACompactUnwind"
    | (cfi) "svs" "\<not> as_is_literal ?asec" "?asec = AEhFrame"
    | (none) "svs" "\<not> as_is_literal ?asec" "?asec \<noteq> ACompactUnwind" "?asec \<noteq> AEhFrame" "syms = []"
    | (split) "svs" "\<not> as_is_literal ?asec" "?asec \<noteq> ACompactUnwind" "?asec \<noteq> AEhFrame" "syms \<noteq> []"
    by blast
  then show ?thesis
  proof cases
    case whole
    with whole_section_tiles [OF ok za r(1), of inp idx syms] show ?thesis
      unfolding atomize_regular_section_def Let_def by (simp only: not_False_eq_True if_True)
  next
    case literal
    with literal_section_tiles [OF ok _ r(2), of ?asec inp idx syms] za show ?thesis
      by (simp add: atomize_regular_section_def Let_def)
  next
    case unwind
    with unwind.loop_tiles [of sect 0 st inp idx syms ?asec] za ok r(2) show ?thesis
      by (simp add: atomize_regular_section_def Let_def)
  next
    case cfi
    with eh_frame.loop_tiles [where sect = sect and off = 0 and st = st and inp = inp and idx = idx and syms = syms and asec = ?asec] za ok r(2) eh show ?thesis
      by (simp add: atomize_regular_section_def eh_frame_kind Let_def)
  next
    case none
    with emit_only_tiles [OF ok za r(1), of inp idx syms] za show ?thesis
      by (simp add: atomize_regular_section_def Let_def)
  next
    case split
    with symbol_split_tiles [OF ok za syms r(3), of inp idx] za show ?thesis
      by (simp add: atomize_regular_section_def Let_def)
  qed
qed

text \<open>
  C19: Atomization cuts a file-backed section without gaps, overlaps or changes, and it never
  panics. For a well-formed section smaller than 4 GiB whose symbols lie inside it (and, for a CFI
  section, whose record lengths are sound), splitting appends to the atom table a list of atoms
  with consecutive handles that are consecutive slices of the content, from its first to its last
  byte; and every symbol it records with an atom denotes, as owner or at the recorded distance,
  the offset the symbol has in the section.
\<close>

theorem atomization_tiles_section:
  assumes wf: "wf_input_section sect" and z: "\<not> is_zerofill (is_kind sect)" and "unat (is_size sect) < 2 ^ 32"
    and cfi: "is_kind sect = KEhFrame \<longrightarrow> cfi_records (is_data sect) 0"
    and inside: "\<forall>x \<in> set (section_syms obj sect idx svs). unat (sym_off x) \<le> unat (is_size sect)"
    and r: "room (unat (is_size sect) + length (section_syms obj sect idx svs) + 1) st"
  shows "\<exists>as st'. atomize_regular_section inp idx sect (section_syms obj sect idx svs) svs st = Ok st'
     \<and> extends (section_syms obj sect idx svs) st as st'
     \<and> tiles (is_data sect) 0 as (unat (is_size sect)) \<and> concat (map at_data as) = is_data sect"
proof -
  let ?syms = "section_syms obj sect idx svs"
  have ok: "sect_data_ok sect" and len: "length (is_data sect) = unat (is_size sect)"
    using wf z assms(3) by (simp_all add: sect_data_ok_def wf_input_section_def)
  have syms: "syms_ok sect ?syms" using inside section_syms_sorted by (simp add: syms_ok_def)
  have rs: "room 1 st" "room (length (is_data sect)) st" "room (length ?syms + 1) st"
    using r len by (simp_all add: room_def)
  obtain as st' where "atomize_regular_section inp idx sect ?syms svs st = Ok st'" "extends ?syms st as st'"
    and t: "tiles (is_data sect) 0 as (length (is_data sect))"
    using regular_section_tiles [OF ok z syms cfi rs] by blast
  moreover have "concat (map at_data as) = is_data sect" using tiles_content [OF t] by simp
  ultimately show ?thesis unfolding len [symmetric] by blast
qed

definition sample_text :: input_section where
  "sample_text = \<lparr>is_segname = bstr ''__TEXT'', is_sectname = bstr ''__text'', is_kind = KText, is_addr = 0x100,
     is_size = 6, is_align_pow2 = 2, is_flags = S_ATTR_PURE_INSTRUCTIONS, is_offset = 0, is_reloff = 0, is_nreloc = 0,
     is_reserved1 = 0, is_reserved2 = 0, is_reserved3 = 0, is_data = [1, 2, 3, 4, 5, 6], is_raw_relocs = []\<rparr>"

definition sample_text_object :: object_file where
  "sample_text_object = \<lparr>ob_path = [], ob_header = sample_header, ob_commands = [], ob_sections = [sample_text],
     ob_symbols = [\<lparr>strx = 0, n_type = N_SECT OR N_EXT, n_sect = 1, n_desc = 0, n_value = 0x104\<rparr>,
                   \<lparr>strx = 0, n_type = N_SECT, n_sect = 1, n_desc = 0, n_value = 0x102\<rparr>],
     ob_strings = \<lparr>raw = []\<rparr>, ob_symtab = None, ob_dysymtab = None, ob_loh = [], ob_data_in_code = []\<rparr>"

theorem atomization_tiles_section_witness:
  "\<exists>as st'. atomize_regular_section 0 1 sample_text (section_syms sample_text_object sample_text 1 True) True
       (atom_table_new, atomization_default) = Ok st'
     \<and> tb_atoms (fst st') = as \<and> map at_data as = [[1, 2], [3, 4], [5, 6]] \<and> concat (map at_data as) = [1, 2, 3, 4, 5, 6]"
proof -
  have syms: "map (\<lambda>(k, s, w). (k, w)) (section_syms sample_text_object sample_text 1 True) = [(1, 2), (0, 4)]"
    by code_simp
  then have s: "length (section_syms sample_text_object sample_text 1 True) = 2"
    "\<forall>x \<in> set (section_syms sample_text_object sample_text 1 True). unat (sym_off x) \<le> unat (is_size sample_text)"
    using arg_cong [OF syms, of length] arg_cong [OF syms, of set] by (fastforce simp: sample_text_def)+
  have wf: "wf_input_section sample_text" by code_simp
  have z: "\<not> is_zerofill (is_kind sample_text)" "is_kind sample_text \<noteq> KEhFrame" "unat (is_size sample_text) < 2 ^ 32"
    by (simp_all add: sample_text_def is_zerofill_def)
  have r: "room (unat (is_size sample_text) + length (section_syms sample_text_object sample_text 1 True) + 1)
      (atom_table_new, atomization_default)"
    using z(3) by (simp add: room_def s atom_table_new_def) (simp add: sample_text_def)
  obtain as st' where a: "atomize_regular_section 0 1 sample_text (section_syms sample_text_object sample_text 1 True) True
       (atom_table_new, atomization_default) = Ok st'"
    "extends (section_syms sample_text_object sample_text 1 True) (atom_table_new, atomization_default) as st'"
    "concat (map at_data as) = is_data sample_text"
    using atomization_tiles_section [OF wf z(1,3) _ s(2) r] z(2) by blast
  have "rmap (\<lambda>st. map at_data (tb_atoms (fst st))) (atomize_regular_section 0 1 sample_text
      (section_syms sample_text_object sample_text 1 True) True (atom_table_new, atomization_default))
      = Ok [[1, 2], [3, 4], [5, 6]]"
    by code_simp
  then show ?thesis using a by (auto simp: extends_def atom_table_new_def sample_text_def)
qed

definition sample_bss :: input_section where
  "sample_bss = \<lparr>is_segname = bstr ''__DATA'', is_sectname = bstr ''__bss'', is_kind = KZeroFill, is_addr = 0,
     is_size = 8, is_align_pow2 = 2, is_flags = S_ZEROFILL, is_offset = 0, is_reloff = 0, is_nreloc = 0,
     is_reserved1 = 0, is_reserved2 = 0, is_reserved3 = 0, is_data = [], is_raw_relocs = []\<rparr>"

definition sample_bss_object :: object_file where
  "sample_bss_object = \<lparr>ob_path = [], ob_header = sample_header, ob_commands = [], ob_sections = [sample_bss],
     ob_symbols = [\<lparr>strx = 0, n_type = N_SECT, n_sect = 1, n_desc = 0, n_value = 0\<rparr>,
                   \<lparr>strx = 0, n_type = N_SECT OR N_EXT, n_sect = 1, n_desc = 0, n_value = 4\<rparr>],
     ob_strings = \<lparr>raw = []\<rparr>, ob_symtab = None, ob_dysymtab = None, ob_loh = [], ob_data_in_code = []\<rparr>"

text \<open>
  A zero-fill section is not tiled when it holds bytes before its first global symbol: no atom
  covers them. Here a section of eight bytes whose only global symbol is at offset four yields the
  single atom \<open>[4, 8)\<close>; a local symbol at offset zero has no storage.
\<close>

theorem zerofill_head_dropped:
  "rmap (\<lambda>st. map (\<lambda>a. (at_input_offset a, at_size a)) (tb_atoms (fst st)))
     (atomize_sections 0 sample_bss_object True 0 (ob_sections sample_bss_object) (atom_table_new, atomization_default))
   = Ok [(4, 4)]"
  by code_simp

end
