(* ===== verification/Unwind_Link.thy ===== *)
theory Unwind_Link
  imports Atom_Tiling Reloc
begin

text \<open>
  The second half of atomization in \<^verbatim>\<open>src/atom.rs\<close>: unwind records are tied to the function atom
  they describe, through an offset index over the atoms of the object, and the symbol table is
  back-patched with the atoms. \<^verbatim>\<open>i128\<close> values are integers: every sum formed here is of at most five
  64-bit quantities, so the checked additions of the source never fail.
\<close>

section \<open>Function targets of unwind records\<close>

definition eh_frame_cie_pointer :: "atom \<Rightarrow> u32 option" where
  "eh_frame_cie_pointer a =
     (if at_section a = AEhFrame \<and> 8 \<le> length (at_data a) then Some (from_le (take 4 (drop 4 (at_data a)))) else None)"

definition lookup_nth :: "'a list \<Rightarrow> nat \<Rightarrow> 'a option" where
  "lookup_nth xs i = (if i < length xs then Some (xs ! i) else None)"

fun input_referent_address :: "object_file \<Rightarrow> referent \<Rightarrow> (int \<times> u8) option" where
  "input_referent_address obj (Section section_idx) =
     (case lookup_nth (ob_sections obj) (unat section_idx - 1) of
        None \<Rightarrow> None
      | Some s \<Rightarrow> Some (uint (is_addr s), section_idx))"
| "input_referent_address obj (Symbol symbol_idx) =
     (case lookup_nth (ob_symbols obj) (unat symbol_idx) of
        None \<Rightarrow> None
      | Some s \<Rightarrow> if nlist_kind s = Sect then Some (uint (n_value s), n_sect s) else None)"

definition metadata_implicit_addend :: "atom \<Rightarrow> nat \<Rightarrow> reloc_length \<Rightarrow> int option" where
  "metadata_implicit_addend a field_offset len =
     (if length (at_data a) < field_offset then None
      else
        let bs = drop field_offset (at_data a) in
        case len of
          Byte \<Rightarrow> if 1 \<le> length bs then Some (sint (from_le (take 1 bs) :: 8 word)) else None
        | Half \<Rightarrow> if 2 \<le> length bs then Some (sint (from_le (take 2 bs) :: 16 word)) else None
        | Word \<Rightarrow> if 4 \<le> length bs then Some (sint (from_le (take 4 bs) :: 32 word)) else None
        | Quad \<Rightarrow> if 8 \<le> length bs then Some (sint (from_le (take 8 bs) :: 64 word)) else None)"

definition resolve_input_function_target ::
  "object_file \<Rightarrow> atom \<Rightarrow> reloc \<Rightarrow> nat \<Rightarrow> bool \<Rightarrow> (u8 \<times> u32) option" where
  "resolve_input_function_target obj a r field_offset field_is_pcrel =
     (case input_referent_address obj (rel_referent r) of None \<Rightarrow> None | Some (minuend, target_section_idx) \<Rightarrow>
      case metadata_implicit_addend a field_offset (rel_length r) of None \<Rightarrow> None | Some implicit_addend \<Rightarrow>
      let target = minuend + sint (rel_addend r) + implicit_addend in
      case (case rel_subtrahend r of
              None \<Rightarrow> Some target
            | Some s \<Rightarrow> map_option (\<lambda>(sub, _). target - sub) (input_referent_address obj s)) of
        None \<Rightarrow> None
      | Some target \<Rightarrow>
      case (if \<not> field_is_pcrel then Some target
            else map_option (\<lambda>src. target + (uint (is_addr src) + uint (rel_offset r)))
                   (lookup_nth (ob_sections obj) (unat (at_input_section a) - 1))) of
        None \<Rightarrow> None
      | Some target \<Rightarrow>
      case lookup_nth (ob_sections obj) (unat target_section_idx - 1) of
        None \<Rightarrow> None
      | Some target_section \<Rightarrow>
          let d = target - uint (is_addr target_section) in
          if 0 \<le> d \<and> d < 2 ^ 32 then Some (target_section_idx, word_of_int d) else None)"

section \<open>Offset index\<close>

record atom_range =
  ar_id :: atom_id
  ar_start :: u32
  ar_end :: u32

definition range_contains :: "atom_range \<Rightarrow> u32 \<Rightarrow> bool" where
  "range_contains r off \<longleftrightarrow> ar_start r \<le> off \<and> off < ar_end r"

record section_atom_index =
  sx_atoms :: "atom_range list"
  sx_non_overlapping :: bool

type_synonym atom_offset_index = "u8 \<Rightarrow> section_atom_index option"

definition range_of :: "atom_id \<Rightarrow> atom \<Rightarrow> atom_range" where
  "range_of i a = \<lparr>ar_id = i, ar_start = at_input_offset a, ar_end = saturating_add32 (at_input_offset a) (at_size a)\<rparr>"

definition range_cmp :: "atom_range \<Rightarrow> atom_range \<Rightarrow> ordering" where
  "range_cmp a b =
     then_with (cmp (ar_start a) (ar_start b)) (then_with (cmp (ar_end a) (ar_end b)) (cmp (ar_id a) (ar_id b)))"

fun windows_disjoint :: "atom_range list \<Rightarrow> bool" where
  "windows_disjoint (a # b # rs) \<longleftrightarrow> ar_end a \<le> ar_start b \<and> windows_disjoint (b # rs)"
| "windows_disjoint _ \<longleftrightarrow> True"

definition section_index :: "atom_range list \<Rightarrow> section_atom_index" where
  "section_index rs = (let s = sort_by range_cmp rs in \<lparr>sx_atoms = s, sx_non_overlapping = windows_disjoint s\<rparr>)"

definition index_new :: "atom_table \<Rightarrow> object_atomization \<Rightarrow> atom_offset_index checked" where
  "index_new tb out =
     rbind (mapM (\<lambda>i. rbind (get_atom tb i) (\<lambda>a. Ok (i, a))) (oz_atoms out)) (\<lambda>atoms.
     Ok (\<lambda>sec. let rs = map (\<lambda>(i, a). range_of i a) (filter (\<lambda>(_, a). at_input_section a = sec) atoms)
               in if rs = [] then None else Some (section_index rs)))"

definition index_find :: "atom_offset_index \<Rightarrow> u8 \<Rightarrow> u32 \<Rightarrow> atom_id option" where
  "index_find ix section_idx off =
     (case ix section_idx of
        None \<Rightarrow> None
      | Some s \<Rightarrow>
          if \<not> sx_non_overlapping s then
            map_option ar_id (List.find (\<lambda>r. range_contains r off) (sx_atoms s))
          else
            let p = partition_point (\<lambda>r. ar_start r \<le> off) (sx_atoms s) in
            if p = 0 then None
            else case lookup_nth (sx_atoms s) (p - 1) of
                   None \<Rightarrow> None
                 | Some r \<Rightarrow> if range_contains r off then Some (ar_id r) else None)"

section \<open>Linking\<close>

definition resolve_function_parent ::
  "object_file \<Rightarrow> atom \<Rightarrow> reloc \<Rightarrow> atom_offset_index \<Rightarrow> nat \<Rightarrow> bool \<Rightarrow> atom_id option" where
  "resolve_function_parent obj a r ix field_offset field_is_pcrel =
     (case resolve_input_function_target obj a r field_offset field_is_pcrel of
        None \<Rightarrow> None
      | Some (target_section_idx, target_offset) \<Rightarrow> index_find ix target_section_idx target_offset)"

text \<open>The sequence of an object's fused relocations, or nothing when they do not parse.\<close>

definition fused_relocs :: "input_section \<Rightarrow> reloc list option checked" where
  "fused_relocs sect =
     (case parse_raw_relocs (is_raw_relocs sect) 0 (is_nreloc sect) of
        Panic \<Rightarrow> Panic
      | Err _ \<Rightarrow> Ok None
      | Ok raws \<Rightarrow> (case parse_relocs raws of Panic \<Rightarrow> Panic | Err _ \<Rightarrow> Ok None | Ok f \<Rightarrow> Ok (Some f)))"

fun link_loop ::
  "(atom \<Rightarrow> atom_id option checked) \<Rightarrow> u8 \<Rightarrow> atom_id list \<Rightarrow> atom_table \<Rightarrow> atom_table checked" where
  "link_loop parent idx [] tb = Ok tb"
| "link_loop parent idx (i # is) tb =
     rbind (get_atom tb i) (\<lambda>a.
     if at_input_section a \<noteq> idx then link_loop parent idx is tb
     else
       rbind (parent a) (\<lambda>p.
       rbind (case p of None \<Rightarrow> Ok tb | Some pid \<Rightarrow> update_atom i (\<lambda>a. a\<lparr>at_parent_of := Some pid\<rparr>) tb)
         (link_loop parent idx is)))"

definition unwind_parent :: "object_file \<Rightarrow> reloc list \<Rightarrow> atom_offset_index \<Rightarrow> atom \<Rightarrow> atom_id option checked" where
  "unwind_parent obj fused ix a =
     Ok (case List.find (\<lambda>r. rel_offset r = at_input_offset a) fused of
           None \<Rightarrow> None
         | Some r \<Rightarrow> resolve_function_parent obj a r ix 0 False)"

definition eh_frame_parent :: "object_file \<Rightarrow> reloc list \<Rightarrow> atom_offset_index \<Rightarrow> atom \<Rightarrow> atom_id option checked" where
  "eh_frame_parent obj fused ix a =
     (case eh_frame_cie_pointer a of
        None \<Rightarrow> Ok None
      | Some cie_pointer \<Rightarrow>
          if cie_pointer = 0 then Ok None
          else if fused = [] then Ok None
          else rbind (add32 (at_input_offset a) 8) (\<lambda>field.
            Ok (case List.find (\<lambda>r. rel_offset r = field) fused of
                  None \<Rightarrow> None
                | Some r \<Rightarrow> resolve_function_parent obj a r ix 8 True)))"

definition link_parents ::
  "section_kind \<Rightarrow> (object_file \<Rightarrow> reloc list \<Rightarrow> atom_offset_index \<Rightarrow> atom \<Rightarrow> atom_id option checked)
    \<Rightarrow> object_file \<Rightarrow> object_atomization \<Rightarrow> atom_table \<Rightarrow> atom_table checked" where
  "link_parents kind parent obj out tb =
     (case position (\<lambda>s. is_kind s = kind) (ob_sections obj) of
        None \<Rightarrow> Ok tb
      | Some idx_zero \<Rightarrow>
          rbind (fused_relocs (ob_sections obj ! idx_zero)) (\<lambda>fused.
          case fused of
            None \<Rightarrow> Ok tb
          | Some fused \<Rightarrow>
              rbind (index_new tb out) (\<lambda>ix.
              link_loop (parent obj fused ix) (of_nat (idx_zero + 1)) (oz_atoms out) tb)))"

definition link_unwind_parents :: "object_file \<Rightarrow> object_atomization \<Rightarrow> atom_table \<Rightarrow> atom_table checked" where
  "link_unwind_parents = link_parents KCompactUnwind unwind_parent"

definition link_eh_frame_parents :: "object_file \<Rightarrow> object_atomization \<Rightarrow> atom_table \<Rightarrow> atom_table checked" where
  "link_eh_frame_parents = link_parents KEhFrame eh_frame_parent"

definition atomize_object :: "input_id \<Rightarrow> object_file \<Rightarrow> atom_table \<Rightarrow> (atom_table \<times> object_atomization) checked" where
  "atomize_object input_id obj tb =
     (let svs = mh_flags (ob_header obj) AND MH_SUBSECTIONS_VIA_SYMBOLS \<noteq> 0 in
      rbind (atomize_sections input_id obj svs 0 (ob_sections obj) (tb, atomization_default)) (\<lambda>(tb1, out).
      rbind (link_unwind_parents obj out tb1) (\<lambda>tb2.
      rbind (link_eh_frame_parents obj out tb2) (\<lambda>tb3.
      Ok (tb3, out)))))"

section \<open>Back-patching the symbol table\<close>

text \<open>
  The table slot of an input symbol's name, when the name resolves and the slot is a definition of
  this object.
\<close>

definition own_slot ::
  "object_file \<Rightarrow> input_id \<Rightarrow> nat \<Rightarrow> symbol_table \<Rightarrow> (symbol_id option \<times> symbol_table) checked" where
  "own_slot obj input_id sym_idx st =
     rbind (index (ob_symbols obj) sym_idx) (\<lambda>s.
     case symbol_name obj s of
       Panic \<Rightarrow> Panic
     | Err _ \<Rightarrow> Ok (None, st)
     | Ok nm \<Rightarrow>
         (case table_intern nm st of (istr, st1) \<Rightarrow>
          case lookup st1 istr of
            None \<Rightarrow> Ok (None, st1)
          | Some sid \<Rightarrow>
              rbind (get_sym st1 sid) (\<lambda>symb.
              case symb of
                Defined _ orig _ _ _ _ _ \<Rightarrow> Ok (if orig = input_id then Some sid else None, st1)
              | _ \<Rightarrow> Ok (None, st1))))"

fun backpatch_owners ::
  "(nat \<times> atom_id) list \<Rightarrow> input_id \<Rightarrow> object_file \<Rightarrow> symbol_table \<Rightarrow> atom_table \<Rightarrow> (symbol_table \<times> atom_table) checked" where
  "backpatch_owners [] input_id obj st tb = Ok (st, tb)"
| "backpatch_owners ((sym_idx, aid) # os) input_id obj st tb =
     rbind (own_slot obj input_id sym_idx st) (\<lambda>(slot, st1).
     case slot of
       None \<Rightarrow> backpatch_owners os input_id obj st1 tb
     | Some sid \<Rightarrow>
         rbind (bind_atom sid aid 0 st1) (\<lambda>st2.
         rbind (update_atom aid (\<lambda>a. a\<lparr>at_owner := Some sid\<rparr>) tb) (\<lambda>tb1.
         backpatch_owners os input_id obj st2 tb1)))"

definition retarget_alt :: "nat \<Rightarrow> u32 \<Rightarrow> symbol_id \<Rightarrow> alt_entry_rec \<Rightarrow> alt_entry_rec" where
  "retarget_alt sym_idx local_off sid alt =
     (if ae_symbol alt = of_nat sym_idx \<and> ae_offset_within_atom alt = local_off then alt\<lparr>ae_symbol := sid\<rparr> else alt)"

fun backpatch_alts ::
  "(nat \<times> atom_id \<times> u32) list \<Rightarrow> input_id \<Rightarrow> object_file \<Rightarrow> symbol_table \<Rightarrow> atom_table \<Rightarrow> (symbol_table \<times> atom_table) checked" where
  "backpatch_alts [] input_id obj st tb = Ok (st, tb)"
| "backpatch_alts ((sym_idx, aid, local_off) # os) input_id obj st tb =
     rbind (own_slot obj input_id sym_idx st) (\<lambda>(slot, st1).
     case slot of
       None \<Rightarrow> backpatch_alts os input_id obj st1 tb
     | Some sid \<Rightarrow>
         rbind (bind_atom sid aid (ucast local_off) st1) (\<lambda>st2.
         rbind (update_atom aid (\<lambda>a. a\<lparr>at_alt_entries := map (retarget_alt sym_idx local_off sid) (at_alt_entries a)\<rparr>) tb) (\<lambda>tb1.
         backpatch_alts os input_id obj st2 tb1)))"

definition backpatch_symbol_atoms ::
  "object_atomization \<Rightarrow> input_id \<Rightarrow> object_file \<Rightarrow> symbol_table \<Rightarrow> atom_table \<Rightarrow> (symbol_table \<times> atom_table) checked" where
  "backpatch_symbol_atoms atomization input_id obj st tb =
     rbind (backpatch_owners (oz_owner_by_sym atomization) input_id obj st tb) (\<lambda>(st1, tb1).
     backpatch_alts (oz_alt_entries_by_sym atomization) input_id obj st1 tb1)"

section \<open>The index finds what a scan finds\<close>

lemma saturating_add32_ge: "a \<le> saturating_add32 a b"
proof (cases "unat a + unat b < 2 ^ 32")
  case True
  then have "saturating_add32 a b = a + b" unfolding saturating_add32_def by (simp only: add32_cond if_True)
  then show ?thesis using add32_unat [OF True] by (simp add: word_le_nat_alt)
next
  case False
  then have "saturating_add32 a b = -1" unfolding saturating_add32_def by (simp only: add32_cond if_False)
  then show ?thesis by simp
qed

lemma windows_disjoint_sorted:
  assumes "windows_disjoint rs" and "\<forall>r \<in> set rs. ar_start r \<le> ar_end r"
  shows "sorted_wrt (\<lambda>a b. ar_end a \<le> ar_start b) rs"
  using assms
proof (induction rs rule: windows_disjoint.induct)
  case (1 a b rs)
  then show ?case by (auto intro: order_trans)
qed simp_all

lemma last_start_is_find:
  assumes "sorted_wrt (\<lambda>a b. ar_end a \<le> ar_start b) rs" and "\<forall>r \<in> set rs. ar_start r \<le> ar_end r"
  shows "(let p = partition_point (\<lambda>r. ar_start r \<le> off) rs in
          if p = 0 then None
          else case lookup_nth rs (p - 1) of None \<Rightarrow> None | Some r \<Rightarrow> if range_contains r off then Some (ar_id r) else None)
     = map_option ar_id (List.find (\<lambda>r. range_contains r off) rs)"
  using assms
proof (induction rs)
  case (Cons r rs)
  let ?q = "partition_point (\<lambda>r. ar_start r \<le> off) rs"
  show ?case
  proof (cases "ar_start r \<le> off")
    case False
    then have "\<forall>x \<in> set rs. \<not> range_contains x off"
      using Cons.prems by (force simp: range_contains_def)
    then show ?thesis using False
      by (auto simp: partition_point_def range_contains_def find_None_iff)
  next
    case True
    then have p: "partition_point (\<lambda>r. ar_start r \<le> off) (r # rs) = Suc ?q" by (simp add: partition_point_def)
    show ?thesis
    proof (cases "range_contains r off")
      case in_r: True
      then have "\<forall>x \<in> set rs. \<not> ar_start x \<le> off" using Cons.prems(1) by (force simp: range_contains_def)
      then have "?q = 0" by (cases rs) (simp_all add: partition_point_def)
      then show ?thesis using p in_r by (simp add: lookup_nth_def)
    next
      case out_r: False
      have IH: "(if ?q = 0 then None else case lookup_nth rs (?q - 1) of None \<Rightarrow> None
            | Some r \<Rightarrow> if range_contains r off then Some (ar_id r) else None)
          = map_option ar_id (List.find (\<lambda>r. range_contains r off) rs)"
        using Cons.IH Cons.prems by (simp only: Let_def) simp
      show ?thesis
      proof (cases "?q")
        case 0
        then show ?thesis using IH out_r p by (simp add: lookup_nth_def)
      next
        case (Suc m)
        have "lookup_nth (r # rs) (Suc m) = lookup_nth rs m" by (simp add: lookup_nth_def)
        then show ?thesis unfolding p Let_def using IH out_r Suc by simp
      qed
    qed
  qed
qed (simp add: partition_point_def)

lemma index_find_scan:
  assumes "\<forall>r \<in> set rs. ar_start r \<le> ar_end r"
  shows "index_find (\<lambda>_. Some (section_index rs)) sec off
    = map_option ar_id (List.find (\<lambda>r. range_contains r off) (sort_by range_cmp rs))"
proof (cases "windows_disjoint (sort_by range_cmp rs)")
  case True
  let ?s = "sort_by range_cmp rs"
  have "index_find (\<lambda>_. Some (section_index rs)) sec off
    = (let p = partition_point (\<lambda>r. ar_start r \<le> off) ?s in
          if p = 0 then None
          else case lookup_nth ?s (p - 1) of None \<Rightarrow> None | Some r \<Rightarrow> if range_contains r off then Some (ar_id r) else None)"
    by (simp add: index_find_def section_index_def True Let_def)
  also have "\<dots> = map_option ar_id (List.find (\<lambda>r. range_contains r off) ?s)"
    using assms by (intro last_start_is_find windows_disjoint_sorted True) simp_all
  finally show ?thesis .
qed (simp add: index_find_def section_index_def Let_def)

lemma mapM_pair_mem:
  "mapM (\<lambda>i. rbind (f i) (\<lambda>a. Ok (i, a))) is = Ok ps \<Longrightarrow> (i, a) \<in> set ps \<longleftrightarrow> i \<in> set is \<and> f i = Ok a"
  by (induction "is" arbitrary: ps) (auto simp: rbind_Ok_iff)

text \<open>
  The binary lookup over the atoms of one object, with its linear fallback for overlapping
  ranges, finds an atom exactly when some atom of the section covers the offset, and the atom it
  returns does cover it.
\<close>

theorem atom_index_lookup:
  assumes "index_new tb out = Ok ix"
  shows "case index_find ix sec off of
      Some i \<Rightarrow> i \<in> set (oz_atoms out)
        \<and> (\<exists>a. get_atom tb i = (Ok a :: atom checked) \<and> at_input_section a = sec \<and> range_contains (range_of i a) off)
    | None \<Rightarrow> (\<forall>i \<in> set (oz_atoms out). \<forall>a. get_atom tb i = (Ok a :: atom checked) \<longrightarrow> at_input_section a = sec
        \<longrightarrow> \<not> range_contains (range_of i a) off)"
proof -
  obtain ats where m: "mapM (\<lambda>i. rbind (get_atom tb i) (\<lambda>a. Ok (i, a))) (oz_atoms out) = (Ok ats :: (atom_id \<times> atom) list checked)"
    and ix: "ix = (\<lambda>sec. let rs = map (\<lambda>(i, a). range_of i a) (filter (\<lambda>(_, a). at_input_section a = sec) ats)
               in if rs = [] then None else Some (section_index rs))"
    using assms by (auto simp: index_new_def rbind_Ok_iff)
  have mem: "(i, a) \<in> set ats \<longleftrightarrow> i \<in> set (oz_atoms out) \<and> get_atom tb i = (Ok a :: atom checked)" for i a
    by (rule mapM_pair_mem [OF m])
  let ?rs = "map (\<lambda>(i, a). range_of i a) (filter (\<lambda>(_, a). at_input_section a = sec) ats)"
  have "\<forall>r \<in> set ?rs. ar_start r \<le> ar_end r"
    by (auto simp: range_of_def saturating_add32_ge)
  from index_find_scan [OF this] have f: "index_find ix sec off = map_option ar_id (List.find (\<lambda>r. range_contains r off) (sort_by range_cmp ?rs))"
    by (simp add: ix index_find_def Let_def)
  show ?thesis
  proof (cases "List.find (\<lambda>r. range_contains r off) (sort_by range_cmp ?rs)")
    case None
    then have "\<forall>r \<in> set ?rs. \<not> range_contains r off" by (simp add: find_None_iff)
    then have "\<not> range_contains (range_of i a) off" if "(i, a) \<in> set ats" "at_input_section a = sec" for i a
      using that by force
    moreover have "index_find ix sec off = None" using f None by simp
    ultimately show ?thesis using mem by simp
  next
    case (Some r)
    then obtain i a where "r = range_of i a" "(i, a) \<in> set ats" "at_input_section a = sec" "range_contains r off"
      using find_SomeD [OF Some] by auto
    then show ?thesis using f Some mem by (auto simp: range_of_def)
  qed
qed

definition sample_atoms :: atom_table where
  "sample_atoms = \<lparr>tb_atoms =
     [(record_atom 0 1 AText 0 4 2 [] 0)\<lparr>at_id := 1\<rparr>, (record_atom 0 1 AText 4 4 2 [] 0)\<lparr>at_id := 2\<rparr>]\<rparr>"

theorem atom_index_lookup_witness:
  "\<exists>ix a. index_new sample_atoms (atomization_default\<lparr>oz_atoms := [1, 2]\<rparr>) = Ok ix \<and> index_find ix 1 6 = Some 2
     \<and> get_atom sample_atoms 2 = (Ok a :: atom checked) \<and> range_contains (range_of 2 a) 6"
proof -
  have "rmap (\<lambda>ix. index_find ix 1 6) (index_new sample_atoms (atomization_default\<lparr>oz_atoms := [1, 2]\<rparr>)) = Ok (Some 2)"
    by code_simp
  then obtain ix where ix: "index_new sample_atoms (atomization_default\<lparr>oz_atoms := [1, 2]\<rparr>) = Ok ix" "index_find ix 1 6 = Some 2"
    by (cases "index_new sample_atoms (atomization_default\<lparr>oz_atoms := [1, 2]\<rparr>)") auto
  with atom_index_lookup [OF ix(1), of 1 6] show ?thesis by auto
qed

end
