(* ===== verification/Layout.thy ===== *)
theory Layout
  imports Atom Object_File Order
begin

text \<open>
  The output layout of \<^verbatim>\<open>src/layout.rs\<close>: atoms are grouped into output sections by a section key,
  synthetic sections are merged or appended, sections and atoms are ordered, sections are split and
  extended for thunks, atoms are placed inside their section, segments are built, and every segment
  and section gets its address and file offset. 64-bit additions panic on overflow.

  The sections of a synthetic plan (\<^verbatim>\<open>SyntheticPlan::output_sections\<close>) are an argument, as are the
  set of live atoms and the extra sections a thunk plan asks for. The error type of these functions
  has no values of interest: the only failure is a panic.
\<close>

abbreviation (input) PAGE_SIZE :: u64 where "PAGE_SIZE \<equiv> 0x4000"
abbreviation (input) EXECUTABLE_TEXT_BASE :: u64 where "EXECUTABLE_TEXT_BASE \<equiv> 0x100000000"
abbreviation (input) SG_READ_ONLY :: u32 where "SG_READ_ONLY \<equiv> 0x10"

definition PAGEZERO :: str where "PAGEZERO = bstr ''__PAGEZERO''"
definition TEXT :: str where "TEXT = bstr ''__TEXT''"
definition DATA_CONST :: str where "DATA_CONST = bstr ''__DATA_CONST''"
definition DATA :: str where "DATA = bstr ''__DATA''"
definition LINKEDIT :: str where "LINKEDIT = bstr ''__LINKEDIT''"

definition EXEC_SEGMENTS :: "str list" where
  "EXEC_SEGMENTS = [PAGEZERO, TEXT, DATA_CONST, DATA, LINKEDIT]"

definition DYLIB_SEGMENTS :: "str list" where
  "DYLIB_SEGMENTS = [TEXT, DATA_CONST, DATA, LINKEDIT]"

section \<open>Types\<close>

datatype output_kind = Executable | OutDylib

record layout_input =
  li_id :: input_id
  li_object :: object_file
  li_load_order :: nat
  li_archive_member_offset :: "u64 option"

record layout =
  ly_kind :: output_kind
  ly_segments :: "output_segment list"
  ly_sections :: "output_section list"

record section_key_rec =
  sk_segment :: str
  sk_name :: str
  sk_flags :: u32
  sk_stub_size :: u32

datatype extra_section_anchor = AfterSection str str | AfterAtom atom_id

record extra_output_section =
  ex_after_section :: "extra_section_anchor option"
  ex_section :: output_section

section \<open>Alignment\<close>

definition align_up :: "u64 \<Rightarrow> u64 \<Rightarrow> u64 checked" where
  "align_up v align =
     (if align \<le> 1 then Ok v
      else let m = align - 1 in rbind (add64 v m) (\<lambda>s. Ok (s AND NOT m)))"

text \<open>\<^verbatim>\<open>1u64 << align_pow2.min(63)\<close>\<close>

definition align_of :: "u8 \<Rightarrow> u64" where
  "align_of a = push_bit (min (unat a) 63) 1"

definition normalize_output_alignment :: "section_kind \<Rightarrow> u8 \<Rightarrow> u8" where
  "normalize_output_alignment kind align =
     (if kind \<in> {KThreadLocalRegular, KThreadLocalZeroFill, KThreadLocalVariables, KThreadLocalVariablePointers,
                 KThreadLocalInitPointers, KInitializerPointers, KTerminatorPointers}
      then max align 3 else align)"

section \<open>Section keys\<close>

definition output_section_flags :: "u32 \<Rightarrow> u32" where
  "output_section_flags flags = flags AND NOT (S_ATTR_EXT_RELOC OR S_ATTR_LOC_RELOC)"

definition compatibility_flags :: "u32 \<Rightarrow> u32" where
  "compatibility_flags flags = output_section_flags flags AND NOT (S_ATTR_NO_DEAD_STRIP OR S_ATTR_LIVE_SUPPORT)"

definition section_key :: "str \<Rightarrow> str \<Rightarrow> u32 \<Rightarrow> u32 \<Rightarrow> section_key_rec" where
  "section_key segment nm flags reserved2 =
     \<lparr>sk_segment = segment, sk_name = nm, sk_flags = compatibility_flags flags,
      sk_stub_size = (if flags AND SECTION_TYPE_MASK = S_SYMBOL_STUBS then reserved2 else 0)\<rparr>"

definition output_section_key :: "input_section \<Rightarrow> section_key_rec" where
  "output_section_key s =
     (let (segment, nm) = (if is_segname s = DATA \<and> is_sectname s = bstr ''__const''
                           then (DATA_CONST, bstr ''__const'') else (is_segname s, is_sectname s))
      in section_key segment nm (is_flags s) (is_reserved2 s))"

definition output_section_key_from_output :: "output_section \<Rightarrow> section_key_rec" where
  "output_section_key_from_output s = section_key (os_segment s) (os_name s) (os_flags s) (os_reserved2 s)"

definition common_key :: section_key_rec where
  "common_key = \<lparr>sk_segment = DATA, sk_name = bstr ''__common'', sk_flags = S_ZEROFILL, sk_stub_size = 0\<rparr>"

section \<open>Grouping atoms into sections\<close>

definition input_map :: "layout_input list \<Rightarrow> input_id \<Rightarrow> layout_input option" where
  "input_map inputs = map_of (rev (map (\<lambda>i. (li_id i, i)) inputs))"

definition atom_input_section :: "(input_id \<Rightarrow> layout_input option) \<Rightarrow> atom \<Rightarrow> input_section option checked" where
  "atom_input_section imap a =
     (if at_section a = ACommon then Ok None
      else
        rbind (expect (imap (at_origin a))) (\<lambda>inp.
        rbind (index (ob_sections (li_object inp)) (unat (at_input_section a) - 1)) (\<lambda>s. Ok (Some s))))"

definition new_section :: "section_key_rec \<Rightarrow> input_section option \<Rightarrow> atom \<Rightarrow> output_section" where
  "new_section key isec a =
     (case isec of
        Some s \<Rightarrow>
          \<lparr>os_segment = sk_segment key, os_name = sk_name key, os_kind = is_kind s,
           os_align_pow2 = normalize_output_alignment (is_kind s) (ucast (min (is_align_pow2 s) 255)),
           os_flags = output_section_flags (is_flags s), os_reserved1 = is_reserved1 s,
           os_reserved2 = is_reserved2 s, os_reserved3 = is_reserved3 s, os_atoms = [],
           os_synthetic_offset = 0, os_synthetic_data = [], os_addr = 0, os_size = 0, os_file_off = 0\<rparr>
      | None \<Rightarrow>
          \<lparr>os_segment = sk_segment key, os_name = sk_name key, os_kind = KZeroFill,
           os_align_pow2 = at_align_pow2 a, os_flags = S_ZEROFILL, os_reserved1 = 0, os_reserved2 = 0,
           os_reserved3 = 0, os_atoms = [], os_synthetic_offset = 0, os_synthetic_data = [], os_addr = 0,
           os_size = 0, os_file_off = 0\<rparr>)"

definition add_to_section :: "input_section option \<Rightarrow> atom_id \<Rightarrow> atom \<Rightarrow> output_section \<Rightarrow> output_section" where
  "add_to_section isec aid a out =
     out\<lparr>os_flags := (case isec of Some s \<Rightarrow> os_flags out OR output_section_flags (is_flags s) | None \<Rightarrow> os_flags out),
         os_align_pow2 := normalize_output_alignment (os_kind out) (max (os_align_pow2 out) (at_align_pow2 a)),
         os_atoms := os_atoms out
           @ [\<lparr>oa_atom = aid, oa_offset = 0, oa_size = ucast (at_size a), oa_data = at_data a\<rparr>]\<rparr>"

type_synonym grouping = "output_section list \<times> (section_key_rec \<Rightarrow> nat option)"

definition section_slot :: "input_section option \<Rightarrow> atom \<Rightarrow> grouping \<Rightarrow> nat \<times> grouping" where
  "section_slot isec a g =
     (let key = (case isec of Some s \<Rightarrow> output_section_key s | None \<Rightarrow> common_key) in
      case snd g key of
        Some idx \<Rightarrow> (idx, g)
      | None \<Rightarrow> (length (fst g), fst g @ [new_section key isec a], (snd g)(key \<mapsto> length (fst g))))"

definition group_atom ::
  "(input_id \<Rightarrow> layout_input option) \<Rightarrow> atom_id set option \<Rightarrow> atom_id \<times> atom \<Rightarrow> grouping \<Rightarrow> grouping checked" where
  "group_atom imap live ia g =
     (case ia of (aid, a) \<Rightarrow>
      if (case live of Some l \<Rightarrow> aid \<notin> l | None \<Rightarrow> False) then Ok g
      else
        rbind (atom_input_section imap a) (\<lambda>isec.
        case section_slot isec a g of (idx, secs, ix) \<Rightarrow>
        rbind (index secs idx) (\<lambda>out. Ok (secs[idx := add_to_section isec aid a out], ix))))"

fun group_atoms ::
  "(input_id \<Rightarrow> layout_input option) \<Rightarrow> atom_id set option \<Rightarrow> (atom_id \<times> atom) list \<Rightarrow> grouping \<Rightarrow> grouping checked" where
  "group_atoms imap live [] g = Ok g"
| "group_atoms imap live (ia # ias) g = rbind (group_atom imap live ia g) (group_atoms imap live ias)"

section \<open>Synthetic sections\<close>

definition merge_synthetic_section :: "output_section \<Rightarrow> output_section \<Rightarrow> output_section checked" where
  "merge_synthetic_section existing synth =
     (if output_section_key_from_output existing \<noteq> output_section_key_from_output synth
         \<or> os_kind existing \<noteq> os_kind synth then Panic
      else Ok (existing
        \<lparr>os_align_pow2 := normalize_output_alignment (os_kind existing) (max (os_align_pow2 existing) (os_align_pow2 synth)),
         os_flags := os_flags existing OR os_flags synth,
         os_reserved1 := os_reserved1 synth, os_reserved2 := os_reserved2 synth, os_reserved3 := os_reserved3 synth,
         os_synthetic_data := os_synthetic_data existing @ os_synthetic_data synth\<rparr>))"

definition add_synthetic :: "output_section \<Rightarrow> output_section list \<Rightarrow> output_section list checked" where
  "add_synthetic synth0 secs =
     (let synth = synth0\<lparr>os_flags := output_section_flags (os_flags synth0)\<rparr> in
      if os_segment synth = DATA \<and> os_name synth = bstr ''__data'' then
        (case position (\<lambda>s. output_section_key_from_output s = output_section_key_from_output synth) secs of
           Some i \<Rightarrow> rbind (merge_synthetic_section (secs ! i) synth) (\<lambda>s. Ok (secs[i := s]))
         | None \<Rightarrow> Ok (secs @ [synth]))
      else Ok (secs @ [synth]))"

fun add_synthetics :: "output_section list \<Rightarrow> output_section list \<Rightarrow> output_section list checked" where
  "add_synthetics [] secs = Ok secs"
| "add_synthetics (y # ys) secs = rbind (add_synthetic y secs) (add_synthetics ys)"

section \<open>Ordering\<close>

definition segment_order :: "output_kind \<Rightarrow> str list" where
  "segment_order kind = (case kind of Executable \<Rightarrow> EXEC_SEGMENTS | OutDylib \<Rightarrow> DYLIB_SEGMENTS)"

definition rank_in :: "str list \<Rightarrow> str \<Rightarrow> nat" where
  "rank_in order nm = (case position (\<lambda>n. n = nm) order of Some i \<Rightarrow> i | None \<Rightarrow> length order)"

definition segment_rank :: "output_kind \<Rightarrow> str \<Rightarrow> nat" where
  "segment_rank kind segment = rank_in (segment_order kind) segment"

definition section_rank :: "str \<Rightarrow> str \<Rightarrow> nat" where
  "section_rank segment sect =
     rank_in (if segment = TEXT then
                map bstr [''__text'', ''__thunks'', ''__stubs'', ''__stub_helper'', ''__cstring'', ''__const'',
                  ''__literal16'', ''__unwind_info'', ''__eh_frame'']
              else if segment = DATA_CONST then map bstr [''__got'', ''__const'']
              else if segment = DATA then
                map bstr [''__la_symbol_ptr'', ''__data'', ''__thread_vars'', ''__thread_ptrs'', ''__thread_data'',
                  ''__thread_bss'', ''__common'', ''__bss'']
              else []) sect"

definition compare_output_sections :: "output_kind \<Rightarrow> output_section \<Rightarrow> output_section \<Rightarrow> ordering" where
  "compare_output_sections kind a b =
     then_with (cmp (segment_rank kind (os_segment a)) (segment_rank kind (os_segment b)))
    (then_with (cmp_bytes (os_segment a) (os_segment b))
    (then_with (cmp (is_zerofill (os_kind a)) (is_zerofill (os_kind b)))
    (then_with (cmp (section_rank (os_segment a) (os_name a)) (section_rank (os_segment b) (os_name b)))
               (cmp_bytes (os_name a) (os_name b)))))"

type_synonym atom_key = "nat \<times> u64 \<times> input_id \<times> u32 \<times> atom_id"

definition atom_sort_key ::
  "(input_id \<Rightarrow> layout_input option) \<Rightarrow> atom_table \<Rightarrow> output_atom \<Rightarrow> atom_key checked" where
  "atom_sort_key imap tb p =
     rbind (get_atom tb (oa_atom p)) (\<lambda>a.
     rbind (expect (imap (at_origin a))) (\<lambda>inp.
     Ok (li_load_order inp, (case li_archive_member_offset inp of Some w \<Rightarrow> w | None \<Rightarrow> 0), at_origin a,
         at_input_offset a, oa_atom p)))"

fun atom_key_cmp :: "atom_key \<Rightarrow> atom_key \<Rightarrow> ordering" where
  "atom_key_cmp (l1, m1, i1, w1, a1) (l2, m2, i2, w2, a2) =
     then_with (cmp l1 l2) (then_with (cmp m1 m2) (then_with (cmp i1 i2) (then_with (cmp w1 w2) (cmp a1 a2))))"

text \<open>The comparison closure runs only when there are two atoms to compare, and then on every atom.\<close>

definition sort_section_atoms ::
  "(input_id \<Rightarrow> layout_input option) \<Rightarrow> atom_table \<Rightarrow> output_section \<Rightarrow> output_section checked" where
  "sort_section_atoms imap tb s =
     (if length (os_atoms s) < 2 then Ok s
      else
        rbind (mapM (\<lambda>p. rbind (atom_sort_key imap tb p) (\<lambda>k. Ok (k, p))) (os_atoms s)) (\<lambda>kps.
        Ok (s\<lparr>os_atoms := map snd (sort_by (\<lambda>x y. atom_key_cmp (fst x) (fst y)) kps)\<rparr>)))"

section \<open>Splitting and extra sections\<close>

definition split_section_template :: "output_section \<Rightarrow> output_section" where
  "split_section_template s =
     \<lparr>os_segment = os_segment s, os_name = os_name s, os_kind = os_kind s, os_align_pow2 = os_align_pow2 s,
      os_flags = os_flags s, os_reserved1 = os_reserved1 s, os_reserved2 = os_reserved2 s,
      os_reserved3 = os_reserved3 s, os_atoms = [], os_synthetic_offset = 0, os_synthetic_data = [],
      os_addr = 0, os_size = 0, os_file_off = 0\<rparr>"

text \<open>The chunk loop: \<open>cur\<close> holds the atoms of the current chunk; the last atom never splits.\<close>

fun split_chunks :: "atom_id set \<Rightarrow> output_atom list \<Rightarrow> output_atom list \<Rightarrow> output_atom list list" where
  "split_chunks points [] cur = [cur]"
| "split_chunks points (p # ps) cur =
     (if oa_atom p \<in> points \<and> ps \<noteq> [] then (cur @ [p]) # split_chunks points ps []
      else split_chunks points ps (cur @ [p]))"

definition split_section :: "atom_id set \<Rightarrow> output_section \<Rightarrow> output_section list" where
  "split_section points s =
     (if length (os_atoms s) < 2 \<or> os_synthetic_data s \<noteq> [] then [s]
      else if \<not> (\<exists>p \<in> set (os_atoms s). oa_atom p \<in> points) then [s]
      else map (\<lambda>c. (split_section_template s)\<lparr>os_atoms := c\<rparr>) (split_chunks points (os_atoms s) []))"

definition split_sections_after_atoms :: "atom_id list \<Rightarrow> output_section list \<Rightarrow> output_section list" where
  "split_sections_after_atoms points secs =
     (if points = [] then secs else concat (map (split_section (set points)) secs))"

definition rposition :: "('a \<Rightarrow> bool) \<Rightarrow> 'a list \<Rightarrow> nat option" where
  "rposition p xs = map_option (\<lambda>i. length xs - 1 - i) (position p (rev xs))"

definition anchor_matches :: "extra_section_anchor \<Rightarrow> output_section \<Rightarrow> bool" where
  "anchor_matches anchor c =
     (case anchor of
        AfterSection segment nm \<Rightarrow> os_segment c = segment \<and> os_name c = nm
      | AfterAtom aid \<Rightarrow> os_atoms c \<noteq> [] \<and> oa_atom (last (os_atoms c)) = aid)"

definition insert_at :: "nat \<Rightarrow> 'a \<Rightarrow> 'a list \<Rightarrow> 'a list" where
  "insert_at i x xs = take i xs @ [x] @ drop i xs"

fun insert_extra_sections :: "extra_output_section list \<Rightarrow> output_section list \<Rightarrow> output_section list checked" where
  "insert_extra_sections [] secs = Ok secs"
| "insert_extra_sections (e # es) secs =
     rbind (case ex_after_section e of
              Some anchor \<Rightarrow> rbind (expect (rposition (anchor_matches anchor) secs)) (\<lambda>i. Ok (insert_at (i + 1) (ex_section e) secs))
            | None \<Rightarrow> Ok (secs @ [ex_section e]))
       (insert_extra_sections es)"

section \<open>Placing atoms inside a section\<close>

fun place_atoms :: "atom_table \<Rightarrow> output_atom list \<Rightarrow> u64 \<Rightarrow> (output_atom list \<times> u64) checked" where
  "place_atoms tb [] sz = Ok ([], sz)"
| "place_atoms tb (p # ps) sz =
     rbind (get_atom tb (oa_atom p)) (\<lambda>a.
     rbind (align_up sz (align_of (at_align_pow2 a))) (\<lambda>start.
     rbind (add64 start (oa_size p)) (\<lambda>fin.
     rbind (place_atoms tb ps fin) (\<lambda>(qs, total).
     Ok (p\<lparr>oa_offset := start\<rparr> # qs, total)))))"

definition synthetic_data_align_pow2 :: "output_section \<Rightarrow> u8" where
  "synthetic_data_align_pow2 s =
     (if os_segment s = DATA \<and> os_name s = bstr ''__data'' then 3 else os_align_pow2 s)"

definition size_section :: "atom_table \<Rightarrow> output_section \<Rightarrow> output_section checked" where
  "size_section tb s =
     rbind (place_atoms tb (os_atoms s) 0) (\<lambda>(ps, sz).
     rbind (if os_synthetic_data s = [] \<or> ps = [] then Ok 0
            else align_up sz (align_of (synthetic_data_align_pow2 s))) (\<lambda>off.
     rbind (if os_synthetic_data s = [] then Ok sz
            else add64 off (of_nat (length (os_synthetic_data s)))) (\<lambda>total.
     Ok (s\<lparr>os_atoms := ps, os_synthetic_offset := off, os_size := total\<rparr>))))"

section \<open>Segments\<close>

definition segment_prot :: "str \<Rightarrow> prot" where
  "segment_prot nm =
     (if nm = PAGEZERO then PROT_NONE
      else if nm = TEXT then PROT_READ_EXECUTE
      else if nm = DATA_CONST then PROT_READ_WRITE
      else if nm = DATA then PROT_READ_WRITE
      else if nm = LINKEDIT then PROT_READ_ONLY
      else PROT_READ_WRITE)"

definition segment_flags :: "str \<Rightarrow> u32" where
  "segment_flags nm = (if nm = DATA_CONST then SG_READ_ONLY else 0)"

definition is_executable_kind :: "section_kind \<Rightarrow> bool" where
  "is_executable_kind kind \<longleftrightarrow> kind \<in> {KText, KSymbolStubs, KCoalesced}"

definition is_read_only_kind :: "section_kind \<Rightarrow> bool" where
  "is_read_only_kind kind \<longleftrightarrow>
     kind \<in> {KConstData, KCStringLiterals, KLiteral4, KLiteral8, KLiteral16, KCompactUnwind, KEhFrame}"

definition custom_segment_prot :: "str \<Rightarrow> output_section list \<Rightarrow> prot" where
  "custom_segment_prot nm secs =
     (let own = filter (\<lambda>s. os_segment s = nm) secs in
      if \<exists>s \<in> set own. is_executable_kind (os_kind s) then PROT_READ_EXECUTE
      else if \<forall>s \<in> set own. is_read_only_kind (os_kind s) then PROT_READ_ONLY
      else PROT_READ_WRITE)"

definition standard_segment_required :: "output_kind \<Rightarrow> str \<Rightarrow> output_section list \<Rightarrow> bool" where
  "standard_segment_required kind nm secs \<longleftrightarrow>
     (kind = Executable \<and> nm = PAGEZERO) \<or> nm = TEXT \<or> nm = LINKEDIT \<or> (\<exists>s \<in> set secs. os_segment s = nm)"

definition new_segment :: "str \<Rightarrow> prot \<Rightarrow> u32 \<Rightarrow> output_segment" where
  "new_segment nm p flags =
     \<lparr>og_name = nm, og_sections = [], og_vm_addr = 0, og_vm_size = 0, og_file_off = 0, og_file_size = 0,
      og_init_prot = p, og_max_prot = p, og_flags = flags\<rparr>"

definition custom_names :: "output_kind \<Rightarrow> output_section list \<Rightarrow> str list" where
  "custom_names kind secs =
     remdups_adj (sort_by cmp_bytes (filter (\<lambda>n. n \<notin> set (segment_order kind)) (map os_segment secs)))"

fun insert_segments :: "nat \<Rightarrow> output_segment list \<Rightarrow> output_segment list \<Rightarrow> output_segment list" where
  "insert_segments i [] segs = segs"
| "insert_segments i (x # xs) segs = insert_segments i xs (insert_at i x segs)"

definition build_segments :: "output_kind \<Rightarrow> output_section list \<Rightarrow> output_segment list" where
  "build_segments kind secs =
     (let std = map (\<lambda>n. new_segment n (segment_prot n) (segment_flags n))
                  (filter (\<lambda>n. standard_segment_required kind n secs) (segment_order kind));
          i = (case position (\<lambda>g. og_name g = LINKEDIT) std of Some i \<Rightarrow> i | None \<Rightarrow> length std) in
      insert_segments i (rev (map (\<lambda>n. new_segment n (custom_segment_prot n secs) 0) (custom_names kind secs))) std)"

section \<open>Addresses\<close>

definition segment_index :: "str \<Rightarrow> output_segment list \<Rightarrow> nat option" where
  "segment_index nm segs = position (\<lambda>g. og_name g = nm) segs"

definition reset_segment :: "output_segment \<Rightarrow> output_segment" where
  "reset_segment g = g\<lparr>og_sections := [], og_vm_addr := 0, og_vm_size := 0, og_file_off := 0, og_file_size := 0\<rparr>"

fun add_members :: "nat \<Rightarrow> output_section list \<Rightarrow> output_segment list \<Rightarrow> output_segment list checked" where
  "add_members idx [] segs = Ok segs"
| "add_members idx (s # ss) segs =
     rbind (expect (segment_index (os_segment s) segs)) (\<lambda>i.
     add_members (idx + 1) ss (segs[i := (segs ! i)\<lparr>og_sections := og_sections (segs ! i) @ [of_nat idx]\<rparr>]))"

definition set_pagezero :: "output_segment list \<Rightarrow> output_segment list checked" where
  "set_pagezero segs =
     rbind (expect (segment_index PAGEZERO segs)) (\<lambda>i.
     Ok (segs[i := (segs ! i)\<lparr>og_vm_addr := 0, og_vm_size := EXECUTABLE_TEXT_BASE, og_file_off := 0, og_file_size := 0\<rparr>]))"

text \<open>The four running positions of the section loop.\<close>

record seg_cursor =
  vm_cursor :: u64
  file_cursor :: u64
  seg_vm_end :: u64
  seg_file_end :: u64

definition place_section :: "output_section \<Rightarrow> seg_cursor \<Rightarrow> (output_section \<times> seg_cursor) checked" where
  "place_section s c =
     (let align = align_of (os_align_pow2 s) in
      rbind (align_up (vm_cursor c) align) (\<lambda>addr.
      rbind (add64 addr (os_size s)) (\<lambda>fin.
      let c1 = c\<lparr>vm_cursor := fin, seg_vm_end := max (seg_vm_end c) fin\<rparr> in
      if is_zerofill (os_kind s) then Ok (s\<lparr>os_addr := addr, os_file_off := 0\<rparr>, c1)
      else
        rbind (align_up (file_cursor c) align) (\<lambda>foff.
        rbind (add64 foff (os_size s)) (\<lambda>ffin.
        Ok (s\<lparr>os_addr := addr, os_file_off := foff\<rparr>,
            c1\<lparr>file_cursor := ffin, seg_file_end := max (seg_file_end c) ffin\<rparr>))))))"

fun place_sections ::
  "output_section_id list \<Rightarrow> output_section list \<Rightarrow> seg_cursor \<Rightarrow> (output_section list \<times> seg_cursor) checked" where
  "place_sections [] secs c = Ok (secs, c)"
| "place_sections (i # is) secs c =
     rbind (index secs (unat i)) (\<lambda>s.
     rbind (place_section s c) (\<lambda>(s1, c1).
     place_sections is (secs[unat i := s1]) c1))"

definition page_rounded :: "u64 \<Rightarrow> u64 checked" where
  "page_rounded v = (if v = 0 then Ok 0 else align_up v PAGE_SIZE)"

text \<open>The positions carried from segment to segment.\<close>

record addr_state =
  as_sections :: "output_section list"
  as_segments :: "output_segment list"
  next_vm :: u64
  next_file :: u64

definition segment_sections :: "str \<Rightarrow> output_segment list \<Rightarrow> output_section_id list" where
  "segment_sections nm segs = (case segment_index nm segs of Some i \<Rightarrow> og_sections (segs ! i) | None \<Rightarrow> [])"

definition assign_segment :: "u64 \<Rightarrow> u64 \<Rightarrow> str \<Rightarrow> addr_state \<Rightarrow> addr_state checked" where
  "assign_segment text_base header_size nm st =
     (if nm = PAGEZERO then Ok st
      else
        let is_text = (nm = TEXT); is_linkedit = (nm = LINKEDIT) in
        rbind (if is_text then Ok text_base else align_up (next_vm st) PAGE_SIZE) (\<lambda>vm0.
        rbind (if is_text then Ok 0 else align_up (next_file st) PAGE_SIZE) (\<lambda>file0.
        rbind (if is_text then add64 vm0 header_size else Ok vm0) (\<lambda>vm1.
        let file1 = (if is_text then header_size else file0) in
        rbind (place_sections (segment_sections nm (as_segments st)) (as_sections st)
                 \<lparr>vm_cursor = vm1, file_cursor = file1, seg_vm_end = vm1, seg_file_end = file1\<rparr>) (\<lambda>(secs, c).
        rbind (expect (segment_index nm (as_segments st))) (\<lambda>i.
        let raw_vm = saturating_sub (seg_vm_end c) vm0; raw_file = saturating_sub (seg_file_end c) file0 in
        rbind (if is_linkedit then Ok raw_vm else page_rounded raw_vm) (\<lambda>vm_size.
        rbind (if is_linkedit then Ok 0 else page_rounded raw_file) (\<lambda>file_size.
        Ok \<lparr>as_sections = secs,
            as_segments = (as_segments st)[i := (as_segments st ! i)
              \<lparr>og_vm_addr := vm0, og_file_off := file0, og_vm_size := vm_size, og_file_size := file_size\<rparr>],
            next_vm = (if is_linkedit then vm0 else seg_vm_end c),
            next_file = (if is_linkedit then file0 else seg_file_end c)\<rparr>))))))))"

fun assign_segments :: "u64 \<Rightarrow> u64 \<Rightarrow> str list \<Rightarrow> addr_state \<Rightarrow> addr_state checked" where
  "assign_segments text_base header_size [] st = Ok st"
| "assign_segments text_base header_size (n # ns) st =
     rbind (assign_segment text_base header_size n st) (assign_segments text_base header_size ns)"

definition assign_addresses :: "u64 \<Rightarrow> layout \<Rightarrow> layout checked" where
  "assign_addresses header_size ly =
     rbind (add_members 0 (ly_sections ly) (map reset_segment (ly_segments ly))) (\<lambda>segs.
     let text_base = (case ly_kind ly of Executable \<Rightarrow> EXECUTABLE_TEXT_BASE | OutDylib \<Rightarrow> 0) in
     rbind (case ly_kind ly of Executable \<Rightarrow> set_pagezero segs | OutDylib \<Rightarrow> Ok segs) (\<lambda>segs1.
     rbind (assign_segments text_base header_size (map og_name segs1)
              \<lparr>as_sections = ly_sections ly, as_segments = segs1, next_vm = text_base, next_file = 0\<rparr>) (\<lambda>st.
     Ok (ly\<lparr>ly_sections := as_sections st, ly_segments := as_segments st\<rparr>))))"

section \<open>Building and querying a layout\<close>

definition build_sections ::
  "output_kind \<Rightarrow> layout_input list \<Rightarrow> atom_table \<Rightarrow> output_section list option \<Rightarrow> atom_id set option
    \<Rightarrow> extra_output_section list \<Rightarrow> atom_id list \<Rightarrow> output_section list checked" where
  "build_sections kind inputs tb synthetics live extras split_after =
     (let imap = input_map inputs in
      rbind (group_atoms imap live (atoms_iter tb) ([], Map.empty)) (\<lambda>(secs, _).
      rbind (case synthetics of Some ys \<Rightarrow> add_synthetics ys secs | None \<Rightarrow> Ok secs) (\<lambda>secs1.
      rbind (mapM (sort_section_atoms imap tb) (sort_by (compare_output_sections kind) secs1)) (\<lambda>secs2.
      rbind (insert_extra_sections extras (split_sections_after_atoms split_after secs2)) (\<lambda>secs3.
      mapM (size_section tb) secs3)))))"

definition build_with_synthetics_and_extra_filtered ::
  "output_kind \<Rightarrow> layout_input list \<Rightarrow> atom_table \<Rightarrow> u64 \<Rightarrow> output_section list option \<Rightarrow> atom_id set option
    \<Rightarrow> extra_output_section list \<Rightarrow> atom_id list \<Rightarrow> layout checked" where
  "build_with_synthetics_and_extra_filtered kind inputs tb header_size synthetics live extras split_after =
     rbind (build_sections kind inputs tb synthetics live extras split_after) (\<lambda>secs.
     assign_addresses header_size \<lparr>ly_kind = kind, ly_segments = build_segments kind secs, ly_sections = secs\<rparr>)"

definition layout_build :: "output_kind \<Rightarrow> layout_input list \<Rightarrow> atom_table \<Rightarrow> u64 \<Rightarrow> layout checked" where
  "layout_build kind inputs tb header_size =
     build_with_synthetics_and_extra_filtered kind inputs tb header_size None None [] []"

definition relayout :: "u64 \<Rightarrow> layout \<Rightarrow> layout checked" where
  "relayout header_size ly = assign_addresses header_size ly"

definition synthetic_section :: "layout \<Rightarrow> str \<Rightarrow> str \<Rightarrow> output_section option" where
  "synthetic_section ly segment nm =
     List.find (\<lambda>s. os_segment s = segment \<and> os_name s = nm \<and> os_synthetic_data s \<noteq> []) (ly_sections ly)"

definition find_placed :: "layout \<Rightarrow> atom_id \<Rightarrow> (output_section \<times> output_atom) option" where
  "find_placed ly aid =
     List.find (\<lambda>(_, p). oa_atom p = aid) (concat (map (\<lambda>s. map (Pair s) (os_atoms s)) (ly_sections ly)))"

definition atom_addr :: "layout \<Rightarrow> atom_id \<Rightarrow> u64 option checked" where
  "atom_addr ly aid =
     (case find_placed ly aid of None \<Rightarrow> Ok None | Some (s, p) \<Rightarrow> rmap Some (add64 (os_addr s) (oa_offset p)))"

definition atom_file_offset :: "layout \<Rightarrow> atom_id \<Rightarrow> u64 option checked" where
  "atom_file_offset ly aid =
     (case find_placed ly aid of None \<Rightarrow> Ok None | Some (s, p) \<Rightarrow> rmap Some (add64 (os_file_off s) (oa_offset p)))"

end
