(* ===== verification/Layout_Addresses.thy ===== *)
theory Layout_Addresses
  imports Layout
begin

text \<open>
  Address assignment: every section lies inside its segment at an aligned address, sections and
  segments do not overlap, and file offsets follow addresses. The proofs follow the code's nesting:
  one alignment, one section, the sections of one segment, all segments.
\<close>

section \<open>Alignment\<close>

text \<open>The least multiple of \<open>a\<close> that is not below \<open>n\<close>.\<close>

definition round_up :: "nat \<Rightarrow> nat \<Rightarrow> nat" where
  "round_up a n = (n + (a - 1)) div a * a"

lemma round_up_bounds:
  assumes "0 < a"
  shows "n \<le> round_up a n" "round_up a n < n + a" "a dvd round_up a n"
proof -
  have "(n + (a - 1)) div a * a + (n + (a - 1)) mod a = n + (a - 1)" by (rule div_mult_mod_eq)
  moreover have "(n + (a - 1)) mod a < a" using assms by simp
  ultimately show "n \<le> round_up a n" "round_up a n < n + a" unfolding round_up_def using assms by linarith+
  show "a dvd round_up a n" by (simp add: round_up_def)
qed

lemma round_up_unique:
  assumes "a dvd m" and "n \<le> m" and "m < n + a" and "0 < a"
  shows "round_up a n = m"
proof -
  obtain k where k: "m = a * k" using assms(1) by blast
  obtain r where r: "n + (a - 1) = a * k + r" "r < a"
    using assms(2,3,4) that [of "n + (a - 1) - a * k"] unfolding k by linarith
  then show ?thesis by (simp add: round_up_def k)
qed

lemma round_up_dvd: "a dvd n \<Longrightarrow> 0 < a \<Longrightarrow> round_up a n = n"
  by (rule round_up_unique) auto

lemma round_up_add: "a dvd b \<Longrightarrow> 0 < a \<Longrightarrow> round_up a (b + n) = b + round_up a n"
  using round_up_bounds [of a n] by (intro round_up_unique) auto

lemma round_up_mono: "0 < a \<Longrightarrow> m \<le> n \<Longrightarrow> round_up a m \<le> round_up a n"
  by (simp add: round_up_def div_le_mono)

lemma unat_below_64: "unat (v :: u64) < 2 ^ 64"
  using unsigned_less [of v, where ?'a = nat] by simp

lemma unat_and_not_mask: "unat (v AND NOT (mask n) :: u64) = unat v div 2 ^ n * 2 ^ n"
proof -
  have "v AND NOT (mask n) = push_bit n (drop_bit n v)"
    by (rule bit_eqI) (auto simp: bit_simps)
  moreover have "unat (push_bit n (drop_bit n v)) = take_bit 64 (push_bit n (unat (drop_bit n v)))"
    by (simp only: unsigned_push_bit_eq) simp
  moreover have "unat (drop_bit n v) = unat v div 2 ^ n"
    unfolding unat_drop_bit_eq by (rule drop_bit_eq_div)
  moreover have "unat v div 2 ^ n * 2 ^ n < 2 ^ 64"
    using div_times_less_eq_dividend [of "unat v" "2 ^ n"] unat_below_64 [of v] by (rule le_less_trans)
  ultimately show ?thesis
    by (simp only: push_bit_eq_mult take_bit_nat_eq_self)
qed

lemma align_up_pow:
  assumes "p < 64"
  shows "align_up v (push_bit p 1) =
    (if unat v + (2 ^ p - 1) < 2 ^ 64 then Ok (of_nat (round_up (2 ^ p) (unat v))) else Panic)"
proof -
  have two: "(push_bit p 1 :: u64) - 1 = mask p" by (simp add: mask_eq_exp_minus_1 push_bit_eq_mult)
  have m: "unat (mask p :: u64) = 2 ^ p - 1"
  proof -
    have le: "(2 :: nat) ^ p \<le> 2 ^ 63" using assms by (intro power_increasing) simp_all
    have "unat (of_nat (2 ^ p - 1) :: u64) = take_bit 64 (2 ^ p - 1)" by (simp only: unat_of_nat) (simp add: take_bit_eq_mod)
    also have "\<dots> = 2 ^ p - 1" using le by (intro take_bit_nat_eq_self) simp
    finally have "unat (of_nat (2 ^ p - 1) :: u64) = 2 ^ p - 1" .
    moreover have "(mask p :: u64) = of_nat (2 ^ p - 1)"
      using of_nat_mask_eq [of p, where ?'a = "64 word"] by (simp only: mask_nat_def)
    ultimately show ?thesis by (simp only:)
  qed
  have one: "(push_bit p 1 :: u64) \<le> 1 \<longleftrightarrow> p = 0"
  proof -
    have "(push_bit p 1 :: u64) = mask p + 1" using two by (simp add: algebra_simps)
    moreover have "unat (mask p + 1 :: u64) = 2 ^ p"
    proof -
      have "(2 :: nat) ^ p \<le> 2 ^ 63" using assms by (intro power_increasing) simp_all
      then show ?thesis using m by (simp add: unat_word_ariths)
    qed
    ultimately have "unat (push_bit p 1 :: u64) = 2 ^ p" by simp
    moreover have "(2 :: nat) ^ p \<le> 1 \<longleftrightarrow> p = 0" using one_less_power [of "2 :: nat" p] by (cases "p = 0") auto
    ultimately show ?thesis by (simp only: word_le_nat_alt unat_1)
  qed
  show ?thesis
  proof (cases "p = 0")
    case True
    then show ?thesis using unat_below_64 [of v] by (simp add: align_up_def round_up_def)
  next
    case False
    have eq: "align_up v (push_bit p 1) = rbind (add64 v (mask p)) (\<lambda>s. Ok (s AND NOT (mask p)))"
      using one False unfolding align_up_def Let_def two by simp
    show ?thesis
    proof (cases "unat v + (2 ^ p - 1) < 2 ^ 64")
      case True
      then have "add64 v (mask p) = (Ok (v + mask p) :: u64 checked)" by (intro add64_ok) (simp add: m)
      moreover have "unat (v + mask p) = unat v + (2 ^ p - 1)" using True by (simp add: unat_word_ariths m)
      ultimately have "align_up v (push_bit p 1) = Ok (of_nat (unat ((v + mask p) AND NOT (mask p))))"
        unfolding eq by simp
      then show ?thesis
        using True \<open>unat (v + mask p) = _\<close> unfolding unat_and_not_mask round_up_def by simp
    next
      case False
      then have "add64 v (mask p) = (Panic :: u64 checked)"
        unfolding add64_def by (simp only: add64_cond m if_False)
      then show ?thesis using False unfolding eq by simp
    qed
  qed
qed

definition pow2 :: "u8 \<Rightarrow> nat" where
  "pow2 a = 2 ^ min (unat a) 63"

lemma pow2_pos [simp]: "0 < pow2 a"
  by (simp add: pow2_def)

lemma round_up_fits: "0 < a \<Longrightarrow> n + (a - 1) < 2 ^ 64 \<Longrightarrow> unat (of_nat (round_up a n) :: u64) = round_up a n"
  using round_up_bounds(2) [of a n] by (simp add: unat_of_nat)

lemma align_up_pow_Ok:
  assumes "p < 64" and "align_up v (push_bit p 1) = Ok r"
  shows "unat r = round_up (2 ^ p) (unat v)"
  using assms(2) round_up_fits [of "2 ^ p" "unat v"] unfolding align_up_pow [OF assms(1)] by (auto split: if_splits)

lemma align_up_pow_total:
  assumes "p < 64" and "unat v + 2 ^ p \<le> 2 ^ 64"
  shows "\<exists>r. align_up v (push_bit p 1) = Ok r"
proof -
  have "unat v + (2 ^ p - 1) < 2 ^ 64" using assms(2) zero_less_power [of "2 :: nat" p] by linarith
  then show ?thesis unfolding align_up_pow [OF assms(1)] by simp
qed

lemma align_up_Ok: "align_up v (align_of a) = Ok r \<Longrightarrow> unat r = round_up (pow2 a) (unat v)"
  unfolding align_of_def pow2_def by (rule align_up_pow_Ok) simp

lemma align_up_total: "unat v + pow2 a \<le> 2 ^ 64 \<Longrightarrow> \<exists>r. align_up v (align_of a) = Ok r"
  unfolding align_of_def pow2_def by (rule align_up_pow_total) simp_all

abbreviation (input) page :: nat where "page \<equiv> 2 ^ 14"

lemma page_size: "PAGE_SIZE = push_bit 14 1"
  by (simp add: push_bit_eq_mult)

lemma align_page_Ok: "align_up v PAGE_SIZE = Ok r \<Longrightarrow> unat r = round_up page (unat v)"
  unfolding page_size by (rule align_up_pow_Ok) simp

lemma align_page_total: "unat v + page \<le> 2 ^ 64 \<Longrightarrow> \<exists>r. align_up v PAGE_SIZE = Ok r"
  unfolding page_size by (rule align_up_pow_total) simp_all

section \<open>One section\<close>

abbreviation (input) addr_of :: "output_section \<Rightarrow> nat" where "addr_of s \<equiv> unat (os_addr s)"
abbreviation (input) size_of :: "output_section \<Rightarrow> nat" where "size_of s \<equiv> unat (os_size s)"
abbreviation (input) foff_of :: "output_section \<Rightarrow> nat" where "foff_of s \<equiv> unat (os_file_off s)"
abbreviation (input) zf :: "output_section \<Rightarrow> bool" where "zf s \<equiv> is_zerofill (os_kind s)"

text \<open>A section as placed differs from the section in its address and file offset only.\<close>

definition moved :: "output_section \<Rightarrow> output_section \<Rightarrow> bool" where
  "moved s t \<longleftrightarrow> (\<exists>a f. t = s\<lparr>os_addr := a, os_file_off := f\<rparr>)"

lemma moved_fields [simp]:
  assumes "moved s t"
  shows "os_segment t = os_segment s" "os_size t = os_size s" "os_kind t = os_kind s"
    "os_align_pow2 t = os_align_pow2 s" "os_atoms t = os_atoms s" "os_name t = os_name s"
    "os_synthetic_data t = os_synthetic_data s" "os_synthetic_offset t = os_synthetic_offset s"
  using assms unfolding moved_def by auto

text \<open>
  While the loop runs, each end is its cursor; \<open>cursor_at c v f\<close> names the two positions.
\<close>

definition cursor_at :: "seg_cursor \<Rightarrow> nat \<Rightarrow> nat \<Rightarrow> bool" where
  "cursor_at c v f \<longleftrightarrow> unat (vm_cursor c) = v \<and> seg_vm_end c = vm_cursor c
     \<and> unat (file_cursor c) = f \<and> seg_file_end c = file_cursor c"

lemma max_end: "unat e = v \<Longrightarrow> v \<le> unat w \<Longrightarrow> max e w = (w :: u64)"
  by (simp add: max_def word_le_nat_alt)

lemma place_section_Ok:
  assumes "place_section s c = Ok (t, c')" and "cursor_at c v f"
  shows "moved s t" "addr_of t = round_up (pow2 (os_align_pow2 s)) v"
    and "foff_of t = (if zf s then 0 else round_up (pow2 (os_align_pow2 s)) f)"
    and "cursor_at c' (addr_of t + size_of s) (if zf s then f else foff_of t + size_of s)"
proof -
  have c: "unat (vm_cursor c) = v" "seg_vm_end c = vm_cursor c" "unat (file_cursor c) = f" "seg_file_end c = file_cursor c"
    using assms(2) by (simp_all add: cursor_at_def)
  obtain addr fin where a: "align_up (vm_cursor c) (align_of (os_align_pow2 s)) = Ok addr"
    "add64 addr (os_size s) = (Ok fin :: u64 checked)"
    using assms(1) by (auto simp: place_section_def Let_def rbind_Ok_iff split: if_splits)
  have ua: "unat addr = round_up (pow2 (os_align_pow2 s)) v" using align_up_Ok [OF a(1)] c(1) by simp
  have uf: "unat fin = unat addr + size_of s" by (rule add64_unat [OF a(2)])
  have ge: "v \<le> unat fin" using round_up_bounds(1) [of "pow2 (os_align_pow2 s)" v] ua uf by simp
  note me = max_end [OF c(1) ge]
  have goal: "moved s t \<and> addr_of t = round_up (pow2 (os_align_pow2 s)) v
    \<and> foff_of t = (if zf s then 0 else round_up (pow2 (os_align_pow2 s)) f)
    \<and> cursor_at c' (addr_of t + size_of s) (if zf s then f else foff_of t + size_of s)"
  proof (cases "zf s")
    case True
    then have "t = s\<lparr>os_addr := addr, os_file_off := 0\<rparr>" "c' = c\<lparr>vm_cursor := fin, seg_vm_end := max (seg_vm_end c) fin\<rparr>"
      using assms(1) a by (simp_all add: place_section_def Let_def)
    moreover from this have "moved s t" unfolding moved_def by blast
    ultimately show ?thesis using True c ua uf me by (simp add: cursor_at_def)
  next
    case False
    then obtain fo ffin where b: "align_up (file_cursor c) (align_of (os_align_pow2 s)) = Ok fo"
      "add64 fo (os_size s) = (Ok ffin :: u64 checked)"
      "t = s\<lparr>os_addr := addr, os_file_off := fo\<rparr>"
      "c' = c\<lparr>vm_cursor := fin, seg_vm_end := max (seg_vm_end c) fin, file_cursor := ffin, seg_file_end := max (seg_file_end c) ffin\<rparr>"
      using assms(1) a by (auto simp: place_section_def Let_def rbind_Ok_iff)
    have ufo: "unat fo = round_up (pow2 (os_align_pow2 s)) f" using align_up_Ok [OF b(1)] c(3) by simp
    have uff: "unat ffin = unat fo + size_of s" by (rule add64_unat [OF b(2)])
    have "f \<le> unat ffin" using round_up_bounds(1) [of "pow2 (os_align_pow2 s)" f] ufo uff by simp
    note mf = max_end [OF c(3) this]
    have "moved s t" unfolding moved_def using b(3) by blast
    then show ?thesis using False c ua uf ufo uff me mf b(3,4) by (simp add: cursor_at_def)
  qed
  then show "moved s t" "addr_of t = round_up (pow2 (os_align_pow2 s)) v"
    "foff_of t = (if zf s then 0 else round_up (pow2 (os_align_pow2 s)) f)"
    "cursor_at c' (addr_of t + size_of s) (if zf s then f else foff_of t + size_of s)"
    by blast+
qed

lemma place_section_total:
  assumes "cursor_at c v f" and "v + pow2 (os_align_pow2 s) + size_of s \<le> 2 ^ 64" and "f + pow2 (os_align_pow2 s) + size_of s \<le> 2 ^ 64"
  shows "\<exists>t c'. place_section s c = Ok (t, c')"
proof -
  let ?a = "pow2 (os_align_pow2 s)"
  have c: "unat (vm_cursor c) = v" "unat (file_cursor c) = f" using assms(1) by (simp_all add: cursor_at_def)
  obtain addr where a: "align_up (vm_cursor c) (align_of (os_align_pow2 s)) = Ok addr"
    using align_up_total [of "vm_cursor c" "os_align_pow2 s"] c assms(2) by auto
  obtain fo where b: "align_up (file_cursor c) (align_of (os_align_pow2 s)) = Ok fo"
    using align_up_total [of "file_cursor c" "os_align_pow2 s"] c assms(3) by auto
  have "unat addr + size_of s < 2 ^ 64"
    using align_up_Ok [OF a] round_up_bounds(2) [of ?a v] c assms(2) by simp
  moreover have "unat fo + size_of s < 2 ^ 64"
    using align_up_Ok [OF b] round_up_bounds(2) [of ?a f] c assms(3) by simp
  ultimately show ?thesis using a b by (simp add: place_section_def Let_def add64_ok)
qed

section \<open>The sections of one segment\<close>

text \<open>
  \<open>placed_run v f ts v' f'\<close>: the sections \<open>ts\<close> are placed one after the other, from the address
  \<open>v\<close> and the file position \<open>f\<close> to \<open>v'\<close> and \<open>f'\<close>.
\<close>

fun placed_run :: "nat \<Rightarrow> nat \<Rightarrow> output_section list \<Rightarrow> nat \<Rightarrow> nat \<Rightarrow> bool" where
  "placed_run v f [] v' f' \<longleftrightarrow> v' = v \<and> f' = f"
| "placed_run v f (t # ts) v' f' \<longleftrightarrow>
     addr_of t = round_up (pow2 (os_align_pow2 t)) v
     \<and> foff_of t = (if zf t then 0 else round_up (pow2 (os_align_pow2 t)) f)
     \<and> placed_run (addr_of t + size_of t) (if zf t then f else foff_of t + size_of t) ts v' f'"

definition relocated :: "nat set \<Rightarrow> output_section list \<Rightarrow> output_section list \<Rightarrow> bool" where
  "relocated ks secs secs' \<longleftrightarrow> length secs' = length secs
     \<and> (\<forall>k < length secs. if k \<in> ks then moved (secs ! k) (secs' ! k) else secs' ! k = secs ! k)"

abbreviation (input) members :: "output_section list \<Rightarrow> output_section_id list \<Rightarrow> output_section list" where
  "members secs ids \<equiv> map (\<lambda>i. secs ! unat i) ids"

lemma place_sections_Ok:
  assumes "place_sections ids secs c = Ok (secs', c')" and "cursor_at c v f" and "distinct ids"
  shows "relocated (unat ` set ids) secs secs' \<and> (\<forall>i \<in> set ids. unat i < length secs)
    \<and> (\<exists>v' f'. cursor_at c' v' f' \<and> placed_run v f (members secs' ids) v' f')"
  using assms
proof (induction ids arbitrary: secs c v f)
  case Nil
  then show ?case by (auto simp: relocated_def)
next
  case (Cons i js)
  let ?k = "unat i"
  obtain t c1 where k: "?k < length secs" and t: "place_section (secs ! ?k) c = Ok (t, c1)"
    and rest: "place_sections js (secs[?k := t]) c1 = Ok (secs', c')"
    using Cons.prems(1) by (auto simp: rbind_Ok_iff index_def split: if_splits)
  note p = place_section_Ok [OF t Cons.prems(2)]
  obtain v' f' where IH: "relocated (unat ` set js) (secs[?k := t]) secs'"
    "\<forall>i \<in> set js. unat i < length secs" "cursor_at c' v' f'"
    "placed_run (addr_of t + size_of (secs ! ?k)) (if zf (secs ! ?k) then f else foff_of t + size_of (secs ! ?k)) (members secs' js) v' f'"
    using Cons.IH [OF rest p(4)] Cons.prems(3) by auto
  have ni: "?k \<notin> unat ` set js" using Cons.prems(3) by (auto simp: word_unat_eq_iff [symmetric])
  have "secs' ! ?k = t" using IH(1) k ni by (simp add: relocated_def)
  then have "placed_run v f (members secs' (i # js)) v' f'" using p(1-3) IH(4) by (cases "zf (secs ! ?k)") simp_all
  moreover have "relocated (unat ` set (i # js)) secs secs'"
    unfolding relocated_def
  proof (intro conjI allI impI)
    show "length secs' = length secs" using IH(1) by (simp add: relocated_def)
    fix m assume m: "m < length secs"
    then have "if m \<in> unat ` set js then moved (secs[?k := t] ! m) (secs' ! m) else secs' ! m = secs[?k := t] ! m"
      using IH(1) by (simp add: relocated_def)
    then show "if m \<in> unat ` set (i # js) then moved (secs ! m) (secs' ! m) else secs' ! m = secs ! m"
      using ni p(1) k by (cases "m = ?k") (auto split: if_splits)
  qed
  moreover have "\<forall>m \<in> set (i # js). unat m < length secs" using IH(2) k by simp
  ultimately show ?case using IH(3) by blast
qed

lemma placed_run_bounds:
  assumes "placed_run v f ts v' f'"
  shows "v \<le> v'" "f \<le> f'" and "\<And>t. t \<in> set ts \<Longrightarrow> v \<le> addr_of t \<and> addr_of t + size_of t \<le> v' \<and> pow2 (os_align_pow2 t) dvd addr_of t"
    and "\<And>t. t \<in> set ts \<Longrightarrow> \<not> zf t \<Longrightarrow> f \<le> foff_of t \<and> foff_of t + size_of t \<le> f' \<and> pow2 (os_align_pow2 t) dvd foff_of t"
    and "sorted_wrt (\<lambda>s t. addr_of s + size_of s \<le> addr_of t) ts"
    and "sorted_wrt (\<lambda>s t. \<not> zf s \<longrightarrow> \<not> zf t \<longrightarrow> foff_of s + size_of s \<le> foff_of t) ts"
proof -
  have "v \<le> v' \<and> f \<le> f' \<and> (\<forall>t \<in> set ts. v \<le> addr_of t \<and> addr_of t + size_of t \<le> v' \<and> pow2 (os_align_pow2 t) dvd addr_of t)
    \<and> (\<forall>t \<in> set ts. \<not> zf t \<longrightarrow> f \<le> foff_of t \<and> foff_of t + size_of t \<le> f' \<and> pow2 (os_align_pow2 t) dvd foff_of t)
    \<and> sorted_wrt (\<lambda>s t. addr_of s + size_of s \<le> addr_of t) ts
    \<and> sorted_wrt (\<lambda>s t. \<not> zf s \<longrightarrow> \<not> zf t \<longrightarrow> foff_of s + size_of s \<le> foff_of t) ts"
    using assms
  proof (induction ts arbitrary: v f)
    case (Cons t ts)
    let ?a = "pow2 (os_align_pow2 t)"
    note b = round_up_bounds [of ?a v] round_up_bounds [of ?a f]
    let ?f = "if zf t then f else foff_of t + size_of t"
    have run: "placed_run (addr_of t + size_of t) ?f ts v' f'" using Cons.prems unfolding placed_run.simps by blast
    have vb: "v \<le> addr_of t" "?a dvd addr_of t" "f \<le> ?f" "\<not> zf t \<Longrightarrow> f \<le> foff_of t \<and> ?a dvd foff_of t"
      using Cons.prems b by auto
    show ?case using Cons.IH [OF run] vb by (auto intro: order_trans)
  qed simp
  then show "v \<le> v'" "f \<le> f'" "\<And>t. t \<in> set ts \<Longrightarrow> v \<le> addr_of t \<and> addr_of t + size_of t \<le> v' \<and> pow2 (os_align_pow2 t) dvd addr_of t"
    "\<And>t. t \<in> set ts \<Longrightarrow> \<not> zf t \<Longrightarrow> f \<le> foff_of t \<and> foff_of t + size_of t \<le> f' \<and> pow2 (os_align_pow2 t) dvd foff_of t"
    "sorted_wrt (\<lambda>s t. addr_of s + size_of s \<le> addr_of t) ts"
    "sorted_wrt (\<lambda>s t. \<not> zf s \<longrightarrow> \<not> zf t \<longrightarrow> foff_of s + size_of s \<le> foff_of t) ts"
    by blast+
qed

text \<open>
  File-backed sections keep the distance between their address and their file position, as long as
  no alignment exceeds the page and no zero-fill section precedes them.
\<close>

lemma placed_run_congruent:
  assumes "placed_run (V + x) (F + x) ts v' f'" and "page dvd V" and "page dvd F"
    and "\<forall>t \<in> set ts. unat (os_align_pow2 t) \<le> 14" and "sorted_wrt (\<lambda>s t. zf s \<longrightarrow> zf t) ts"
  shows "\<forall>t \<in> set ts. \<not> zf t \<longrightarrow> addr_of t + F = foff_of t + V"
  using assms(1,4,5)
proof (induction ts arbitrary: x)
  case (Cons t ts)
  let ?a = "pow2 (os_align_pow2 t)"
  have "?a dvd page" using Cons.prems(2) unfolding pow2_def by (intro le_imp_power_dvd) simp
  then have d: "?a dvd V" "?a dvd F" using assms(2,3) dvd_trans by blast+
  show ?case
  proof (cases "zf t")
    case True
    then show ?thesis using Cons.prems(3) by auto
  next
    case False
    let ?y = "round_up ?a x + size_of t"
    have t: "addr_of t = V + round_up ?a x" "foff_of t = F + round_up ?a x"
      using Cons.prems(1) False round_up_add d by simp_all
    have "placed_run (V + ?y) (F + ?y) ts v' f'" using Cons.prems(1) False t by (simp add: add.assoc)
    then show ?thesis using Cons.IH [of ?y] Cons.prems(2,3) t by auto
  qed
qed simp

section \<open>One segment\<close>

text \<open>
  \<open>seg_run h g secs v' f'\<close>: the sections \<open>secs\<close> of the segment \<open>g\<close> run from \<open>h\<close> bytes after its
  start to \<open>v'\<close> and \<open>f'\<close>, and its sizes cover them.
\<close>

definition seg_run :: "nat \<Rightarrow> output_segment \<Rightarrow> output_section list \<Rightarrow> nat \<Rightarrow> nat \<Rightarrow> bool" where
  "seg_run h g ts v' f' \<longleftrightarrow>
     placed_run (unat (og_vm_addr g) + h) (unat (og_file_off g) + h) ts v' f'
     \<and> v' < 2 ^ 64 \<and> f' < 2 ^ 64
     \<and> unat (og_vm_size g) = (if og_name g = LINKEDIT then v' - unat (og_vm_addr g) else round_up page (v' - unat (og_vm_addr g)))
     \<and> unat (og_file_size g) = (if og_name g = LINKEDIT then 0 else round_up page (f' - unat (og_file_off g)))"

text \<open>The pass changes the position and the sizes of a segment only.\<close>

definition resized :: "output_segment \<Rightarrow> output_segment \<Rightarrow> bool" where
  "resized g g' \<longleftrightarrow> (\<exists>a b c d. g' = g\<lparr>og_vm_addr := a, og_file_off := b, og_vm_size := c, og_file_size := d\<rparr>)"

lemma resized_fields [simp]:
  assumes "resized g g'"
  shows "og_name g' = og_name g" "og_sections g' = og_sections g"
  using assms unfolding resized_def by auto

lemma page_rounded_Ok: "page_rounded v = Ok r \<Longrightarrow> unat r = round_up page (unat v)"
  by (auto simp: page_rounded_def round_up_dvd dest: align_page_Ok split: if_splits)

lemma unat_saturating_sub: "unat (saturating_sub a b) = unat a - unat (b :: u64)"
  by (simp add: saturating_sub_def word_le_nat_alt unat_sub)

lemma assign_segment_Ok:
  assumes "assign_segment text_base hs (og_name g) st = Ok st'"
    and segs: "as_segments st = gs0 @ g # gs" "\<forall>x \<in> set gs0. og_name x \<noteq> og_name g"
    and "og_name g \<noteq> PAGEZERO" and ids: "distinct (og_sections g)"
  shows "\<exists>g' v' f'. as_segments st' = gs0 @ g' # gs \<and> resized g g'
    \<and> unat (og_vm_addr g') = (if og_name g = TEXT then unat text_base else round_up page (unat (next_vm st)))
    \<and> unat (og_file_off g') = (if og_name g = TEXT then 0 else round_up page (unat (next_file st)))
    \<and> relocated (unat ` set (og_sections g)) (as_sections st) (as_sections st')
    \<and> (\<forall>i \<in> set (og_sections g). unat i < length (as_sections st))
    \<and> seg_run (if og_name g = TEXT then unat hs else 0) g' (members (as_sections st') (og_sections g)) v' f'
    \<and> (og_name g \<noteq> LINKEDIT \<longrightarrow> unat (next_vm st') = v' \<and> unat (next_file st') = f')"
proof -
  let ?T = "og_name g = TEXT" and ?L = "og_name g = LINKEDIT" and ?n = "length gs0"
  have ix: "segment_index (og_name g) (as_segments st) = Some ?n"
    unfolding segment_index_def segs(1) using segs(2) by (intro position_prefix) simp_all
  have own: "segment_sections (og_name g) (as_segments st) = og_sections g"
    unfolding segment_sections_def ix by (simp add: segs(1))
  obtain vm0 file0 vm1 secs c vs fs where
    vm0: "(if ?T then Ok text_base else align_up (next_vm st) PAGE_SIZE) = Ok vm0"
    and file0: "(if ?T then Ok 0 else align_up (next_file st) PAGE_SIZE) = Ok file0"
    and vm1: "(if ?T then add64 vm0 hs else Ok vm0) = (Ok vm1 :: u64 checked)"
    and run: "place_sections (og_sections g) (as_sections st)
        \<lparr>vm_cursor = vm1, file_cursor = (if ?T then hs else file0), seg_vm_end = vm1,
         seg_file_end = (if ?T then hs else file0)\<rparr> = Ok (secs, c)"
    and vs: "(if ?L then Ok (saturating_sub (seg_vm_end c) vm0) else page_rounded (saturating_sub (seg_vm_end c) vm0)) = Ok vs"
    and fs: "(if ?L then Ok 0 else page_rounded (saturating_sub (seg_file_end c) file0)) = Ok fs"
    and st': "\<lparr>as_sections = secs,
            as_segments = (as_segments st)[?n := (as_segments st ! ?n)
              \<lparr>og_vm_addr := vm0, og_file_off := file0, og_vm_size := vs, og_file_size := fs\<rparr>],
            next_vm = (if ?L then vm0 else seg_vm_end c),
            next_file = (if ?L then file0 else seg_file_end c)\<rparr> = st'"
    using assms(1,4) unfolding assign_segment_def Let_def own ix
    by (simp only: rbind_Ok_iff expect_simps if_False split_paired_Ex prod.case result.inject simp_thms)
      (elim exE conjE, rule that; assumption)
  let ?h = "if ?T then unat hs else 0"
  have u1: "unat vm1 = unat vm0 + ?h" using vm1 add64_unat [of vm0 hs vm1] by (auto split: if_splits)
  have uf: "unat (if ?T then hs else file0) = unat file0 + ?h" using file0 by (auto split: if_splits)
  have cur: "cursor_at \<lparr>vm_cursor = vm1, file_cursor = (if ?T then hs else file0), seg_vm_end = vm1,
         seg_file_end = (if ?T then hs else file0)\<rparr> (unat vm0 + ?h) (unat file0 + ?h)"
    unfolding cursor_at_def using u1 uf by simp
  obtain v' f' where placed: "relocated (unat ` set (og_sections g)) (as_sections st) secs"
    "\<forall>i \<in> set (og_sections g). unat i < length (as_sections st)"
    and c: "cursor_at c v' f'"
    and pr: "placed_run (unat vm0 + ?h) (unat file0 + ?h) (members secs (og_sections g)) v' f'"
    using place_sections_Ok [OF run cur ids] by blast
  have e: "unat (seg_vm_end c) = v'" "unat (seg_file_end c) = f'" using c by (simp_all add: cursor_at_def)
  have lim: "v' < 2 ^ 64" "f' < 2 ^ 64" using unat_below_64 [of "seg_vm_end c"] unat_below_64 [of "seg_file_end c"] unfolding e .
  let ?g = "g\<lparr>og_vm_addr := vm0, og_file_off := file0, og_vm_size := vs, og_file_size := fs\<rparr>"
  have gs': "as_segments st' = gs0 @ ?g # gs" unfolding st' [symmetric] by (simp add: segs(1))
  have rz: "resized g ?g" unfolding resized_def by blast
  have sz: "unat vs = (if ?L then v' - unat vm0 else round_up page (v' - unat vm0))"
    using vs page_rounded_Ok [of "saturating_sub (seg_vm_end c) vm0" vs] by (auto simp: unat_saturating_sub e split: if_splits)
  have fz: "unat fs = (if ?L then 0 else round_up page (f' - unat file0))"
    using fs page_rounded_Ok [of "saturating_sub (seg_file_end c) file0" fs] by (auto simp: unat_saturating_sub e split: if_splits)
  have sr: "seg_run ?h ?g (members (as_sections st') (og_sections g)) v' f'"
    unfolding seg_run_def st' [symmetric] using pr sz fz lim by simp
  have nx: "\<not> ?L \<longrightarrow> unat (next_vm st') = v' \<and> unat (next_file st') = f'" unfolding st' [symmetric] using e by simp
  have a: "unat (og_vm_addr ?g) = (if ?T then unat text_base else round_up page (unat (next_vm st)))"
    using vm0 align_page_Ok [of "next_vm st" vm0] by (auto split: if_splits)
  have b: "unat (og_file_off ?g) = (if ?T then 0 else round_up page (unat (next_file st)))"
    using file0 align_page_Ok [of "next_file st" file0] by (auto split: if_splits)
  have "relocated (unat ` set (og_sections g)) (as_sections st) (as_sections st')" using placed(1) unfolding st' [symmetric] by simp
  then show ?thesis using gs' rz a b placed(2) sr nx by blast
qed

end
