(* ===== verification/Layout_Segments.thy ===== *)
theory Layout_Segments
  imports Layout_Addresses
begin

text \<open>
  All segments: the segment list a layout is built with, the sections each segment receives, and the
  chain of addresses and file offsets from the first segment to the last.
\<close>

section \<open>The members of a segment\<close>

text \<open>The section numbers, from \<open>idx\<close> on, of the sections that name the segment \<open>n\<close>.\<close>

definition seg_ids :: "str \<Rightarrow> nat \<Rightarrow> output_section list \<Rightarrow> output_section_id list" where
  "seg_ids n idx ss = map (\<lambda>(k, s). of_nat k) (filter (\<lambda>(k, s). os_segment s = n) (enumerate idx ss))"

lemma seg_ids_Cons: "seg_ids n idx (s # ss) = (if os_segment s = n then [of_nat idx] else []) @ seg_ids n (Suc idx) ss"
  by (simp add: seg_ids_def)

lemma seg_ids_Nil [simp]: "seg_ids n idx [] = []"
  by (simp add: seg_ids_def)

definition with_members :: "nat \<Rightarrow> output_section list \<Rightarrow> output_segment \<Rightarrow> output_segment" where
  "with_members idx ss g = g\<lparr>og_sections := og_sections g @ seg_ids (og_name g) idx ss\<rparr>"

lemma segment_index_distinct:
  assumes "distinct (map og_name segs)" and "i < length segs"
  shows "segment_index nm segs = Some i \<longleftrightarrow> og_name (segs ! i) = nm"
proof
  assume "segment_index nm segs = Some i"
  then show "og_name (segs ! i) = nm" using position_SomeD by (simp add: segment_index_def)
next
  assume nm: "og_name (segs ! i) = nm"
  have "\<forall>x \<in> set (take i segs). og_name x \<noteq> nm"
  proof
    fix x assume "x \<in> set (take i segs)"
    then obtain j where "j < i" "x = segs ! j" using assms(2) by (auto simp: in_set_conv_nth)
    then show "og_name x \<noteq> nm" using assms nm by (auto simp: distinct_conv_nth)
  qed
  then have "position (\<lambda>g. og_name g = nm) (take i segs @ segs ! i # drop (Suc i) segs) = Some (length (take i segs))"
    using nm by (intro position_prefix) simp_all
  then show "segment_index nm segs = Some i" using assms(2) by (simp add: segment_index_def id_take_nth_drop [symmetric])
qed

lemma add_members_Ok:
  assumes "add_members idx ss segs = Ok segs'" and "distinct (map og_name segs)"
  shows "segs' = map (with_members idx ss) segs \<and> os_segment ` set ss \<subseteq> og_name ` set segs"
  using assms
proof (induction ss arbitrary: idx segs)
  case Nil
  then show ?case by (simp add: with_members_def)
next
  case (Cons s ss)
  obtain i where i: "segment_index (os_segment s) segs = Some i"
    and rest: "add_members (Suc idx) ss (segs[i := (segs ! i)\<lparr>og_sections := og_sections (segs ! i) @ [of_nat idx]\<rparr>]) = Ok segs'"
    using Cons.prems(1) by (cases "segment_index (os_segment s) segs") auto
  have il: "i < length segs" and nm: "og_name (segs ! i) = os_segment s"
    using i position_SomeD unfolding segment_index_def by fastforce+
  let ?segs = "segs[i := (segs ! i)\<lparr>og_sections := og_sections (segs ! i) @ [of_nat idx]\<rparr>]"
  have names: "map og_name ?segs = map og_name segs" using il by (simp add: map_update list_update_same_conv)
  have IH: "segs' = map (with_members (Suc idx) ss) ?segs" "os_segment ` set ss \<subseteq> og_name ` set ?segs"
    using Cons.IH [OF rest] Cons.prems(2) names by simp_all
  have "segs' = map (with_members idx (s # ss)) segs"
  proof (rule nth_equalityI)
    show "length segs' = length (map (with_members idx (s # ss)) segs)" using IH(1) by simp
    fix j assume "j < length segs'"
    then have jl: "j < length segs" using IH(1) by simp
    show "segs' ! j = map (with_members idx (s # ss)) segs ! j"
    proof (cases "j = i")
      case True
      then show ?thesis using jl nm unfolding IH(1) by (simp add: with_members_def seg_ids_Cons)
    next
      case False
      then have "os_segment s \<noteq> og_name (segs ! j)"
        using segment_index_distinct [OF Cons.prems(2) jl, of "os_segment s"] i by auto
      then show ?thesis using jl False unfolding IH(1) by (simp add: with_members_def seg_ids_Cons)
    qed
  qed
  moreover have "og_name ` set ?segs = og_name ` set segs" using names by (metis list.set_map)
  moreover have "os_segment s \<in> og_name ` set segs" using nm nth_mem [OF il] by (metis imageI)
  ultimately show ?case using IH(2) by simp
qed

lemma seg_ids_set: "set (seg_ids n idx ss) = {of_nat (idx + k) |k. k < length ss \<and> os_segment (ss ! k) = n}"
proof -
  have "set (filter (\<lambda>(k, s). os_segment s = n) (enumerate idx ss)) = {(idx + k, ss ! k) |k. k < length ss \<and> os_segment (ss ! k) = n}"
    by (auto simp: in_set_enumerate_eq) (metis add_diff_inverse_nat less_diff_conv2 not_less)
  then show ?thesis unfolding seg_ids_def list.set_map setcompr_eq_image by (simp only: image_image prod.case)
qed

lemma seg_ids_members:
  assumes "idx + length ss \<le> 2 ^ 32" and "\<And>k. k < length ss \<Longrightarrow> secs ! (idx + k) = ss ! k"
  shows "members secs (seg_ids n idx ss) = filter (\<lambda>s. os_segment s = n) ss"
  using assms
proof (induction ss arbitrary: idx)
  case (Cons s ss)
  have 1: "unat (of_nat idx :: u32) = idx" using Cons.prems(1) by (simp add: unat_of_nat)
  have 2: "secs ! idx = s" using Cons.prems(2) [of 0] by simp
  have "members secs (seg_ids n (Suc idx) ss) = filter (\<lambda>s. os_segment s = n) ss"
    using Cons.prems(1) Cons.prems(2) [of "Suc k" for k] by (intro Cons.IH) simp_all
  then show ?case using 1 2 by (simp add: seg_ids_Cons)
qed simp

lemma seg_ids_distinct: "idx + length ss \<le> 2 ^ 32 \<Longrightarrow> distinct (seg_ids n idx ss)"
proof (induction ss arbitrary: idx)
  case (Cons s ss)
  have "of_nat idx \<notin> set (seg_ids n (Suc idx) ss)"
  proof
    assume "of_nat idx \<in> set (seg_ids n (Suc idx) ss)"
    then obtain k where k: "k < length ss" "(of_nat idx :: u32) = of_nat (Suc idx + k)" by (auto simp: seg_ids_set)
    then have "unat (of_nat idx :: u32) = unat (of_nat (Suc idx + k) :: u32)" by (simp only:)
    then show False using k(1) Cons.prems by (simp only: unat_of_nat) simp
  qed
  then show ?case using Cons.IH [of "Suc idx"] Cons.prems by (simp add: seg_ids_Cons)
qed simp

lemma seg_ids_index:
  assumes "length ss \<le> 2 ^ 32"
  shows "unat ` set (seg_ids n 0 ss) = {k. k < length ss \<and> os_segment (ss ! k) = n}"
proof -
  have "unat (of_nat k :: u32) = k" if "k < length ss" for k using that assms by (simp add: unat_of_nat)
  then show ?thesis by (force simp: seg_ids_set)
qed

section \<open>The chain of segments\<close>

lemma relocated_members:
  assumes "relocated ks secs secs'" and "\<forall>i \<in> set ids. unat i < length secs" and "unat ` set ids \<inter> ks = {}"
  shows "members secs' ids = members secs ids"
proof (rule map_cong [OF refl])
  fix i assume i: "i \<in> set ids"
  then have "unat i \<notin> ks" using assms(3) by blast
  then show "secs' ! unat i = secs ! unat i" using assms(1,2) i by (simp add: relocated_def)
qed

lemma moved_refl [simp]: "moved s s"
  unfolding moved_def by (intro exI [of _ "os_addr s"] exI [of _ "os_file_off s"]) simp

lemma moved_trans: "moved s t \<Longrightarrow> moved t u \<Longrightarrow> moved s u"
  unfolding moved_def by (elim exE) (simp, blast)

lemma relocated_trans:
  assumes "relocated ks secs secs1" and "relocated ks' secs1 secs'"
  shows "relocated (ks \<union> ks') secs secs'"
proof -
  have "moved (secs ! k) (secs' ! k)" if "k < length secs" for k
  proof -
    have "moved (secs ! k) (secs1 ! k)" "moved (secs1 ! k) (secs' ! k)"
      using that assms unfolding relocated_def by (metis moved_refl)+
    then show ?thesis by (rule moved_trans)
  qed
  then show ?thesis using assms unfolding relocated_def by (auto split: if_splits)
qed

text \<open>
  \<open>laid_chain v f secs gs\<close>: each segment of \<open>gs\<close> starts at the page boundary after the end of the
  one before, the first after \<open>v\<close> and \<open>f\<close>.
\<close>

fun laid_chain :: "nat \<Rightarrow> nat \<Rightarrow> output_section list \<Rightarrow> output_segment list \<Rightarrow> bool" where
  "laid_chain v f secs [] \<longleftrightarrow> True"
| "laid_chain v f secs (g # gs) \<longleftrightarrow>
     unat (og_vm_addr g) = round_up page v \<and> unat (og_file_off g) = round_up page f
     \<and> (\<exists>v' f'. seg_run 0 g (members secs (og_sections g)) v' f' \<and> laid_chain v' f' secs gs)"

abbreviation (input) all_ids :: "output_segment list \<Rightarrow> nat set" where
  "all_ids gs \<equiv> unat ` set (concat (map og_sections gs))"

lemma laid_chain_cong:
  assumes "\<And>g. g \<in> set gs \<Longrightarrow> members secs' (og_sections g) = members secs (og_sections g)"
  shows "laid_chain v f secs gs \<Longrightarrow> laid_chain v f secs' gs"
  using assms
proof (induction gs arbitrary: v f)
  case (Cons g gs)
  then show ?case by (simp only: laid_chain.simps list.set_intros) (metis list.set_intros(2))
qed simp

lemma assign_segments_Ok:
  assumes "assign_segments text_base hs (map og_name gs) st = Ok st'" and "as_segments st = gs0 @ gs"
    and "distinct (map og_name (gs0 @ gs))" and "distinct (concat (map og_sections gs))"
    and "PAGEZERO \<notin> og_name ` set gs" and "TEXT \<notin> og_name ` set gs" and "LINKEDIT \<notin> og_name ` set (butlast gs)"
  shows "\<exists>gs'. as_segments st' = gs0 @ gs' \<and> list_all2 resized gs gs'
    \<and> relocated (all_ids gs) (as_sections st) (as_sections st') \<and> (\<forall>k \<in> all_ids gs. k < length (as_sections st))
    \<and> laid_chain (unat (next_vm st)) (unat (next_file st)) (as_sections st') gs'"
  using assms
proof (induction gs arbitrary: st gs0)
  case Nil
  then show ?case by (auto simp: relocated_def)
next
  case (Cons g gs)
  obtain st1 where s1: "assign_segment text_base hs (og_name g) st = Ok st1"
    and rest: "assign_segments text_base hs (map og_name gs) st1 = Ok st'"
    using Cons.prems(1) by (auto simp: rbind_Ok_iff)
  have nm: "og_name g \<noteq> PAGEZERO" "og_name g \<noteq> TEXT" using Cons.prems(5,6) by (simp_all add: eq_commute)
  have lk: "gs \<noteq> [] \<longrightarrow> og_name g \<noteq> LINKEDIT" using Cons.prems(7) by (cases gs) auto
  have "og_name g \<notin> og_name ` set gs0" using Cons.prems(3) by simp
  then have d: "\<forall>x \<in> set gs0. og_name x \<noteq> og_name g" by (metis imageI)
  have ids: "distinct (og_sections g)" using Cons.prems(4) by simp
  obtain g' v' f' where g': "as_segments st1 = gs0 @ g' # gs" "resized g g'"
    "unat (og_vm_addr g') = round_up page (unat (next_vm st))" "unat (og_file_off g') = round_up page (unat (next_file st))"
    "relocated (unat ` set (og_sections g)) (as_sections st) (as_sections st1)"
    "\<forall>i \<in> set (og_sections g). unat i < length (as_sections st)"
    "seg_run 0 g' (members (as_sections st1) (og_sections g)) v' f'"
    "og_name g \<noteq> LINKEDIT \<longrightarrow> unat (next_vm st1) = v' \<and> unat (next_file st1) = f'"
    using assign_segment_Ok [OF s1 Cons.prems(2) d nm(1) ids] nm(2) by auto
  have len1: "length (as_sections st1) = length (as_sections st)" using g'(5) by (simp add: relocated_def)
  have pre: "as_segments st1 = (gs0 @ [g']) @ gs" "distinct (map og_name ((gs0 @ [g']) @ gs))"
    "distinct (concat (map og_sections gs))" "PAGEZERO \<notin> og_name ` set gs" "TEXT \<notin> og_name ` set gs"
    "LINKEDIT \<notin> og_name ` set (butlast gs)"
    using g'(1,2) Cons.prems(3-7) by (cases gs; simp)+
  obtain gs' where IH: "as_segments st' = (gs0 @ [g']) @ gs'" "list_all2 resized gs gs'"
    "relocated (all_ids gs) (as_sections st1) (as_sections st')" "\<forall>k \<in> all_ids gs. k < length (as_sections st1)"
    "laid_chain (unat (next_vm st1)) (unat (next_file st1)) (as_sections st') gs'"
    using Cons.IH [OF rest, of "gs0 @ [g']", OF pre(1-6)] by blast
  have "unat ` set (og_sections g) \<inter> all_ids gs = {}"
    using Cons.prems(4) by (auto simp: word_unat_eq_iff [symmetric])
  then have mem: "members (as_sections st') (og_sections g) = members (as_sections st1) (og_sections g)"
    using g'(6) len1 by (intro relocated_members [OF IH(3)]) simp_all
  have "laid_chain v' f' (as_sections st') gs'"
  proof (cases "gs = []")
    case True
    then show ?thesis using IH(2) by simp
  next
    case False
    then show ?thesis using IH(5) lk g'(8) by simp
  qed
  then have "laid_chain (unat (next_vm st)) (unat (next_file st)) (as_sections st') (g' # gs')"
    using g'(3,4,7) unfolding laid_chain.simps resized_fields(2) [OF g'(2)] mem by blast
  moreover have "relocated (all_ids (g # gs)) (as_sections st) (as_sections st')"
    using relocated_trans [OF g'(5) IH(3)] by (simp add: image_Un)
  moreover have "\<forall>k \<in> all_ids (g # gs). k < length (as_sections st)" using IH(4) g'(6) len1 by auto
  ultimately show ?case using IH(1,2) g'(2) by (intro exI [of _ "g' # gs'"]) simp
qed

end
