(* ===== verification/Layout_Sound.thy ===== *)
theory Layout_Sound
  imports Layout_Segments
begin

text \<open>
  Soundness of a finished layout: what address assignment promises for sections and segments, and
  that the code's pass delivers it for every layout it can be given.
\<close>

section \<open>The promise\<close>

abbreviation (input) vm_start :: "output_segment \<Rightarrow> nat" where "vm_start g \<equiv> unat (og_vm_addr g)"
abbreviation (input) vm_end :: "output_segment \<Rightarrow> nat" where "vm_end g \<equiv> unat (og_vm_addr g) + unat (og_vm_size g)"
abbreviation (input) file_start :: "output_segment \<Rightarrow> nat" where "file_start g \<equiv> unat (og_file_off g)"
abbreviation (input) file_end :: "output_segment \<Rightarrow> nat" where "file_end g \<equiv> unat (og_file_off g) + unat (og_file_size g)"

definition section_in_segment :: "output_segment \<Rightarrow> output_section \<Rightarrow> bool" where
  "section_in_segment g s \<longleftrightarrow>
     vm_start g \<le> addr_of s \<and> addr_of s + size_of s \<le> vm_end g \<and> addr_of s + size_of s < 2 ^ 64
     \<and> pow2 (os_align_pow2 s) dvd addr_of s
     \<and> (\<not> zf s \<longrightarrow> file_start g \<le> foff_of s \<and> pow2 (os_align_pow2 s) dvd foff_of s \<and> foff_of s + size_of s < 2 ^ 64
          \<and> (og_name g \<noteq> LINKEDIT \<longrightarrow> foff_of s + size_of s \<le> file_end g))"

definition segment_before :: "output_segment \<Rightarrow> output_segment \<Rightarrow> bool" where
  "segment_before g h \<longleftrightarrow> vm_end g \<le> vm_start h \<and> file_end g \<le> file_start h \<and> og_name g \<noteq> LINKEDIT"

definition section_before :: "output_section \<Rightarrow> output_section \<Rightarrow> bool" where
  "section_before s t \<longleftrightarrow> addr_of s + size_of s \<le> addr_of t \<and> (\<not> zf s \<longrightarrow> \<not> zf t \<longrightarrow> foff_of s + size_of s \<le> foff_of t)"

definition addresses_sound :: "layout \<Rightarrow> bool" where
  "addresses_sound ly \<longleftrightarrow>
     (\<forall>s \<in> set (ly_sections ly). \<exists>g \<in> set (ly_segments ly). og_name g = os_segment s \<and> section_in_segment g s)
     \<and> (\<forall>i j. i < j \<longrightarrow> j < length (ly_sections ly) \<longrightarrow>
          section_before (ly_sections ly ! i) (ly_sections ly ! j) \<or> section_before (ly_sections ly ! j) (ly_sections ly ! i))
     \<and> sorted_wrt segment_before (ly_segments ly)
     \<and> (\<forall>g \<in> set (ly_segments ly). page dvd vm_start g \<and> page dvd file_start g)"

section \<open>From the chain to the promise\<close>

lemma seg_run_end:
  assumes "seg_run h g ts v' f'" and "page dvd vm_start g" and "page dvd file_start g"
  shows "v' \<le> vm_end g" "vm_end g \<le> round_up page v'" "file_end g \<le> round_up page f'"
    and "og_name g \<noteq> LINKEDIT \<longrightarrow> f' \<le> file_end g" and "vm_start g \<le> v'" "file_start g \<le> f'"
proof -
  have b: "vm_start g + h \<le> v'" "file_start g + h \<le> f'" using assms(1) placed_run_bounds(1,2) unfolding seg_run_def by blast+
  then show le: "vm_start g \<le> v'" "file_start g \<le> f'" by simp_all
  have v: "vm_start g + round_up page (v' - vm_start g) = round_up page v'"
    using round_up_add [OF assms(2), of "v' - vm_start g"] le by simp
  have f: "file_start g + round_up page (f' - file_start g) = round_up page f'"
    using round_up_add [OF assms(3), of "f' - file_start g"] le by simp
  note rv = round_up_bounds(1) [of page v'] and rf = round_up_bounds(1) [of page f']
  show "v' \<le> vm_end g" "vm_end g \<le> round_up page v'"
    using assms(1) v rv le unfolding seg_run_def by (auto split: if_splits)
  show "file_end g \<le> round_up page f'" "og_name g \<noteq> LINKEDIT \<longrightarrow> f' \<le> file_end g"
    using assms(1) f rf le unfolding seg_run_def by (auto split: if_splits)
qed

lemma seg_run_sections:
  assumes "seg_run h g ts v' f'" and "page dvd vm_start g" and "page dvd file_start g"
  shows "\<forall>t \<in> set ts. section_in_segment g t" and "sorted_wrt section_before ts"
proof -
  have run: "placed_run (vm_start g + h) (file_start g + h) ts v' f'" using assms(1) by (simp add: seg_run_def)
  note e = seg_run_end [OF assms]
  show "\<forall>t \<in> set ts. section_in_segment g t"
  proof
    fix t assume t: "t \<in> set ts"
    note b = placed_run_bounds(3) [OF run t] and c = placed_run_bounds(4) [OF run t]
    have "v' < 2 ^ 64" "f' < 2 ^ 64" using assms(1) by (simp_all add: seg_run_def)
    then show "section_in_segment g t" unfolding section_in_segment_def using b c e(1,4) by auto
  qed
  show "sorted_wrt section_before ts"
    using placed_run_bounds(5,6) [OF run] unfolding section_before_def sorted_wrt_iff_nth_less by blast
qed

lemma seg_run_before:
  assumes "seg_run h g ts v' f'" and "page dvd vm_start g" and "page dvd file_start g" and "og_name g \<noteq> LINKEDIT"
    and "round_up page v' \<le> vm_start k" and "round_up page f' \<le> file_start k"
  shows "segment_before g k"
  using seg_run_end(2,3) [OF assms(1-3)] assms(4-6) unfolding segment_before_def by simp

lemma laid_chain_sorted:
  assumes "laid_chain v f secs gs" and "LINKEDIT \<notin> og_name ` set (butlast gs)"
  shows "sorted_wrt segment_before gs \<and> (\<forall>g \<in> set gs. round_up page v \<le> vm_start g \<and> round_up page f \<le> file_start g
      \<and> page dvd vm_start g \<and> page dvd file_start g \<and> (\<exists>v' f'. seg_run 0 g (members secs (og_sections g)) v' f'))"
  using assms
proof (induction gs arbitrary: v f)
  case (Cons g gs)
  obtain v' f' where s: "vm_start g = round_up page v" "file_start g = round_up page f"
    and run: "seg_run 0 g (members secs (og_sections g)) v' f'" and ch: "laid_chain v' f' secs gs"
    using Cons.prems(1) unfolding laid_chain.simps by blast
  have d: "page dvd vm_start g" "page dvd file_start g" unfolding s by (rule round_up_bounds(3); simp)+
  note e = seg_run_end [OF run d]
  have lk: "LINKEDIT \<notin> og_name ` set (butlast gs)" and gl: "gs \<noteq> [] \<longrightarrow> og_name g \<noteq> LINKEDIT"
    using Cons.prems(2) by (cases gs; auto)+
  note IH = Cons.IH [OF ch lk]
  have v: "round_up page v \<le> round_up page v'" "round_up page f \<le> round_up page f'"
    using e(5,6) s round_up_bounds(1) [of page v'] round_up_bounds(1) [of page f'] by simp_all
  have "\<forall>h \<in> set gs. segment_before g h"
  proof
    fix h assume h: "h \<in> set gs"
    then have "gs \<noteq> []" by auto
    then show "segment_before g h" using IH gl h by (intro seg_run_before [OF run d]) simp_all
  qed
  moreover have "\<forall>h \<in> set gs. round_up page v \<le> vm_start h \<and> round_up page f \<le> file_start h"
    using IH v by (meson order_trans)
  ultimately show ?case using IH s d run by auto
qed simp

lemma sorted_filter_nth:
  assumes "sorted_wrt R (filter P xs)" and "i < j" and "j < length xs" and "P (xs ! i)" and "P (xs ! j)"
  shows "R (xs ! i) (xs ! j)"
proof -
  have "xs = take j xs @ drop j xs" by simp
  then have "sorted_wrt R (filter P (take j xs) @ filter P (drop j xs))" using assms(1) by (metis filter_append)
  moreover have "xs ! i \<in> set (filter P (take j xs))" using assms by (auto simp: in_set_conv_nth intro!: exI [of _ i])
  moreover have "xs ! j \<in> set (filter P (drop j xs))" using assms by (auto simp: in_set_conv_nth intro!: exI [of _ 0])
  ultimately show ?thesis by (simp add: sorted_wrt_append)
qed

lemma before_across:
  assumes "segment_before g h" and "section_in_segment g s" and "section_in_segment h t"
  shows "section_before s t"
  using assms unfolding segment_before_def section_in_segment_def section_before_def by auto

text \<open>
  It is enough that the segments are ordered and aligned, that every section names one of them, and
  that the sections of each segment are ordered and inside it.
\<close>

lemma addresses_soundI:
  assumes sorted: "sorted_wrt segment_before (ly_segments ly)"
    and aligned: "\<forall>g \<in> set (ly_segments ly). page dvd vm_start g \<and> page dvd file_start g"
    and names: "os_segment ` set (ly_sections ly) \<subseteq> og_name ` set (ly_segments ly)"
    and run: "\<And>g. g \<in> set (ly_segments ly) \<Longrightarrow>
      (\<forall>s \<in> set (filter (\<lambda>s. os_segment s = og_name g) (ly_sections ly)). section_in_segment g s)
      \<and> sorted_wrt section_before (filter (\<lambda>s. os_segment s = og_name g) (ly_sections ly))"
  shows "addresses_sound ly"
proof -
  have own: "\<exists>k < length (ly_segments ly). og_name (ly_segments ly ! k) = os_segment s \<and> section_in_segment (ly_segments ly ! k) s"
    if s: "s \<in> set (ly_sections ly)" for s
  proof -
    obtain g where g: "g \<in> set (ly_segments ly)" "og_name g = os_segment s" using names s by (metis imageE imageI subsetD)
    then have "section_in_segment g s" using run [OF g(1)] s by simp
    then show ?thesis using g by (metis in_set_conv_nth)
  qed
  have pair: "section_before (ly_sections ly ! i) (ly_sections ly ! j) \<or> section_before (ly_sections ly ! j) (ly_sections ly ! i)"
    if ij: "i < j" "j < length (ly_sections ly)" for i j
  proof -
    let ?s = "ly_sections ly ! i" and ?t = "ly_sections ly ! j"
    obtain k l where k: "k < length (ly_segments ly)" "og_name (ly_segments ly ! k) = os_segment ?s" "section_in_segment (ly_segments ly ! k) ?s"
      and l: "l < length (ly_segments ly)" "og_name (ly_segments ly ! l) = os_segment ?t" "section_in_segment (ly_segments ly ! l) ?t"
      using own [of ?s] own [of ?t] ij by auto
    consider "k = l" | "k < l" | "l < k" by linarith
    then show ?thesis
    proof cases
      case 1
      have "sorted_wrt section_before (filter (\<lambda>s. os_segment s = og_name (ly_segments ly ! k)) (ly_sections ly))"
        using run [OF nth_mem [OF k(1)]] by blast
      then have "section_before ?s ?t"
        by (rule sorted_filter_nth [OF _ ij]) (simp_all only: k(2), metis 1 k(2) l(2))
      then show ?thesis ..
    next
      case 2
      then show ?thesis using sorted_wrt_nth_less [OF sorted 2 l(1)] before_across k(3) l(3) by blast
    next
      case 3
      then show ?thesis using sorted_wrt_nth_less [OF sorted 3 k(1)] before_across k(3) l(3) by blast
    qed
  qed
  have inside: "\<exists>g \<in> set (ly_segments ly). og_name g = os_segment s \<and> section_in_segment g s" if "s \<in> set (ly_sections ly)" for s
    using own [OF that] nth_mem by blast
  show ?thesis unfolding addresses_sound_def
  proof (intro conjI)
    show "sorted_wrt segment_before (ly_segments ly)" by (rule sorted)
    show "\<forall>g \<in> set (ly_segments ly). page dvd vm_start g \<and> page dvd file_start g" by (rule aligned)
  qed (intro ballI allI impI, (rule inside | rule pair); assumption)+
qed

section \<open>The pass\<close>

text \<open>
  The segment list a layout is built with: page zero for an executable, the text segment, any others,
  and the link-edit segment last.
\<close>

definition segments_formed :: "output_kind \<Rightarrow> str list \<Rightarrow> bool" where
  "segments_formed kind names \<longleftrightarrow> distinct names
     \<and> (\<exists>mids. names = (if kind = Executable then [PAGEZERO] else []) @ TEXT # mids @ [LINKEDIT] \<and> PAGEZERO \<notin> set mids)"

abbreviation (input) text_base_of :: "output_kind \<Rightarrow> u64" where
  "text_base_of kind \<equiv> (case kind of Executable \<Rightarrow> EXECUTABLE_TEXT_BASE | OutDylib \<Rightarrow> 0)"

lemma text_base_page: "page dvd unat (text_base_of kind)"
  by (cases kind) simp_all

lemma segment_names_distinct [simp]:
  "TEXT \<noteq> PAGEZERO" "TEXT \<noteq> LINKEDIT" "LINKEDIT \<noteq> PAGEZERO" "PAGEZERO \<noteq> TEXT" "LINKEDIT \<noteq> TEXT" "PAGEZERO \<noteq> LINKEDIT"
  by code_simp+

lemma assign_text:
  assumes run: "assign_segments text_base hs (map og_name (pz @ t # gs)) st = Ok st'"
    and segs: "as_segments st = pz @ t # gs" "distinct (map og_name (pz @ t # gs))" "distinct (concat (map og_sections (t # gs)))"
    and names: "map og_name pz \<in> {[], [PAGEZERO]}" "og_name t = TEXT" "PAGEZERO \<notin> og_name ` set gs" "LINKEDIT \<notin> og_name ` set (butlast gs)"
  shows "\<exists>t' gs' v f. as_segments st' = pz @ t' # gs' \<and> resized t t' \<and> list_all2 resized gs gs'
    \<and> relocated (all_ids (t # gs)) (as_sections st) (as_sections st')
    \<and> unat (og_vm_addr t') = unat text_base \<and> unat (og_file_off t') = 0
    \<and> seg_run (unat hs) t' (members (as_sections st') (og_sections t)) v f \<and> laid_chain v f (as_sections st') gs'"
proof -
  obtain st1 where s1: "assign_segment text_base hs (og_name t) st = Ok st1"
    and rest: "assign_segments text_base hs (map og_name gs) st1 = Ok st'"
    using run names(1) by (auto simp: rbind_Ok_iff assign_segment_def [of _ _ PAGEZERO])
  have d: "\<forall>x \<in> set pz. og_name x \<noteq> og_name t" using segs(2) by (simp add: image_iff eq_commute)
  have nt: "og_name t \<noteq> PAGEZERO" "og_name t \<noteq> LINKEDIT" unfolding names(2) by simp_all
  have ids: "distinct (og_sections t)" using segs(3) by simp
  obtain t' v f where t': "as_segments st1 = pz @ t' # gs" "resized t t'" "unat (og_vm_addr t') = unat text_base"
    "unat (og_file_off t') = 0" "relocated (unat ` set (og_sections t)) (as_sections st) (as_sections st1)"
    "\<forall>i \<in> set (og_sections t). unat i < length (as_sections st)"
    "seg_run (unat hs) t' (members (as_sections st1) (og_sections t)) v f" "unat (next_vm st1) = v" "unat (next_file st1) = f"
    using assign_segment_Ok [OF s1 segs(1) d nt(1) ids] names(2) nt(2) by auto
  have pre: "as_segments st1 = (pz @ [t']) @ gs" "distinct (map og_name ((pz @ [t']) @ gs))"
    "distinct (concat (map og_sections gs))" "TEXT \<notin> og_name ` set gs"
    using t'(1,2) segs(2,3) names(2) by auto
  obtain gs' where gs': "as_segments st' = (pz @ [t']) @ gs'" "list_all2 resized gs gs'"
    "relocated (all_ids gs) (as_sections st1) (as_sections st')" "laid_chain v f (as_sections st') gs'"
    using assign_segments_Ok [OF rest pre(1-3) names(3) pre(4) names(4)] t'(8,9) by blast
  have "unat ` set (og_sections t) \<inter> all_ids gs = {}" using segs(3) by (auto simp: word_unat_eq_iff [symmetric])
  then have mem: "members (as_sections st') (og_sections t) = members (as_sections st1) (og_sections t)"
    using t'(5,6) by (intro relocated_members [OF gs'(3)]) (simp_all add: relocated_def)
  have "relocated (all_ids (t # gs)) (as_sections st) (as_sections st')"
    using relocated_trans [OF t'(5) gs'(3)] by (simp add: image_Un)
  moreover have "seg_run (unat hs) t' (members (as_sections st') (og_sections t)) v f" using t'(7) unfolding mem .
  ultimately show ?thesis using gs'(1,2,4) t'(2,3,4) by (metis append.assoc append_Cons append_Nil)
qed

text \<open>The member numbers of all segments are the section numbers, each once.\<close>

lemma with_members_reset [simp]:
  "og_sections (with_members 0 secs (reset_segment g)) = seg_ids (og_name g) 0 secs"
  "og_name (with_members 0 secs (reset_segment g)) = og_name g"
  by (simp_all add: with_members_def reset_segment_def)

lemma all_members:
  assumes "length secs \<le> 2 ^ 32" and "\<forall>g \<in> set gs. og_sections g = seg_ids (og_name g) 0 secs"
  shows "all_ids gs = {k. k < length secs \<and> os_segment (secs ! k) \<in> og_name ` set gs}"
    and "distinct (map og_name gs) \<Longrightarrow> distinct (concat (map og_sections gs))"
proof -
  show "all_ids gs = {k. k < length secs \<and> os_segment (secs ! k) \<in> og_name ` set gs}"
  proof -
    have "all_ids gs = (\<Union>g \<in> set gs. unat ` set (og_sections g))" by auto
    also have "\<dots> = (\<Union>g \<in> set gs. {k. k < length secs \<and> os_segment (secs ! k) = og_name g})"
      using assms seg_ids_index by (intro SUP_cong) simp_all
    finally show ?thesis by auto
  qed
next
  assume "distinct (map og_name gs)"
  with assms(2) show "distinct (concat (map og_sections gs))"
  proof (induction gs)
    case (Cons g gs)
    have "unat ` set (og_sections g) \<inter> unat ` set (og_sections h) = {}" if "h \<in> set gs" for h
    proof -
      have "og_name h \<noteq> og_name g" using Cons.prems(2) that by (metis distinct.simps(2) image_eqI list.set_map list.simps(9))
      moreover have "og_sections g = seg_ids (og_name g) 0 secs" "og_sections h = seg_ids (og_name h) 0 secs"
        using Cons.prems(1) that by simp_all
      ultimately show ?thesis by (simp only: seg_ids_index [OF assms(1)]) (rule equals0I, simp, metis)
    qed
    then have "set (og_sections g) \<inter> set (concat (map og_sections gs)) = {}" by fastforce
    then show ?case using Cons seg_ids_distinct [of 0 secs "og_name g"] assms(1) by simp
  qed simp
qed

lemma relocated_moved:
  assumes "relocated ks secs secs'"
  shows "list_all2 moved secs secs'"
  using assms unfolding relocated_def list_all2_conv_all_nth by (metis moved_refl)

lemma seg_ids_moved: "list_all2 moved ss ss' \<Longrightarrow> seg_ids n idx ss' = seg_ids n idx ss"
  by (induction arbitrary: idx rule: list_all2_induct) (simp_all add: seg_ids_Cons)

lemma moved_members:
  assumes "list_all2 moved secs secs'" and "length secs \<le> 2 ^ 32"
  shows "members secs' (seg_ids n 0 secs) = filter (\<lambda>s. os_segment s = n) secs'"
  unfolding seg_ids_moved [OF assms(1), symmetric]
  using assms(2) by (intro seg_ids_members) (simp_all add: list_all2_lengthD [OF assms(1)])

text \<open>
  The segments as the pass sees them: every segment with its members, page zero sized. The shape of
  the list follows from its names.
\<close>

definition seen_segments :: "output_kind \<Rightarrow> output_section list \<Rightarrow> output_segment list \<Rightarrow> output_segment list" where
  "seen_segments kind secs segs =
     (let ms = map (\<lambda>g. with_members 0 secs (reset_segment g)) segs in
      case kind of
        Executable \<Rightarrow> ms[0 := (ms ! 0)\<lparr>og_vm_addr := 0, og_vm_size := EXECUTABLE_TEXT_BASE, og_file_off := 0, og_file_size := 0\<rparr>]
      | OutDylib \<Rightarrow> ms)"

lemma assign_addresses_seen:
  assumes "assign_addresses hs ly = Ok ly'" and "segments_formed (ly_kind ly) (map og_name (ly_segments ly))"
  obtains st where "assign_segments (text_base_of (ly_kind ly)) hs (map og_name (ly_segments ly))
      \<lparr>as_sections = ly_sections ly, as_segments = seen_segments (ly_kind ly) (ly_sections ly) (ly_segments ly),
       next_vm = text_base_of (ly_kind ly), next_file = 0\<rparr> = Ok st"
    and "ly' = ly\<lparr>ly_sections := as_sections st, ly_segments := as_segments st\<rparr>"
    and "os_segment ` set (ly_sections ly) \<subseteq> og_name ` set (ly_segments ly)"
proof -
  let ?ms = "map (\<lambda>g. with_members 0 (ly_sections ly) (reset_segment g)) (ly_segments ly)"
  let ?segs = "seen_segments (ly_kind ly) (ly_sections ly) (ly_segments ly)"
  have reset: "map og_name (map reset_segment (ly_segments ly)) = map og_name (ly_segments ly)"
    by (simp add: reset_segment_def)
  obtain segs segs1 st where segs: "add_members 0 (ly_sections ly) (map reset_segment (ly_segments ly)) = Ok segs"
    and pz: "(case ly_kind ly of Executable \<Rightarrow> set_pagezero segs | OutDylib \<Rightarrow> Ok segs) = Ok segs1"
    and run: "assign_segments (text_base_of (ly_kind ly)) hs (map og_name segs1)
              \<lparr>as_sections = ly_sections ly, as_segments = segs1, next_vm = text_base_of (ly_kind ly), next_file = 0\<rparr> = Ok st"
    and ly': "ly' = ly\<lparr>ly_sections := as_sections st, ly_segments := as_segments st\<rparr>"
    using assms(1) unfolding assign_addresses_def Let_def by (auto simp: rbind_Ok_iff)
  have dr: "distinct (map og_name (map reset_segment (ly_segments ly)))"
    unfolding reset using assms(2) by (simp add: segments_formed_def)
  have am: "segs = ?ms" "os_segment ` set (ly_sections ly) \<subseteq> og_name ` set (map reset_segment (ly_segments ly))"
    using add_members_Ok [OF segs dr] by (simp_all add: comp_def)
  have sub: "os_segment ` set (ly_sections ly) \<subseteq> og_name ` set (ly_segments ly)"
    using am(2) unfolding list.set_map [symmetric] reset .
  have seg1: "segs1 = ?segs"
  proof (cases "ly_kind ly")
    case Executable
    then obtain g gs where "ly_segments ly = g # gs" "og_name g = PAGEZERO"
      using assms(2) unfolding segments_formed_def by (auto simp: map_eq_Cons_conv)
    then show ?thesis using pz am(1) Executable by (simp add: set_pagezero_def segment_index_def seen_segments_def)
  next
    case OutDylib
    then show ?thesis using pz am(1) by (simp add: seen_segments_def)
  qed
  have names: "map og_name ?segs = map og_name (ly_segments ly)"
    by (cases "ly_segments ly"; cases "ly_kind ly") (simp_all add: seen_segments_def)
  show thesis by (rule that [OF _ ly' sub]) (use run in \<open>simp only: seg1 names\<close>)
qed

lemma minus_extra: "P \<subseteq> {z} \<Longrightarrow> z \<notin> X \<Longrightarrow> X = P \<union> X - {z}"
  by blast

lemma seen_segments_shape:
  assumes "segments_formed kind (map og_name segs)"
  obtains pz t gs where "seen_segments kind secs segs = pz @ t # gs"
    and "pz = [] \<or> (\<exists>g. pz = [g] \<and> og_name g = PAGEZERO \<and> og_vm_addr g = 0 \<and> og_vm_size g = EXECUTABLE_TEXT_BASE
           \<and> og_file_off g = 0 \<and> og_file_size g = 0 \<and> kind = Executable)"
    and "og_name t = TEXT" and "PAGEZERO \<notin> og_name ` set gs" and "LINKEDIT \<notin> og_name ` set (butlast gs)"
    and "\<forall>g \<in> set (t # gs). og_sections g = seg_ids (og_name g) 0 secs" and "distinct (map og_name (t # gs))"
    and "og_name ` set (t # gs) = og_name ` set segs - {PAGEZERO}"
proof -
  obtain pz0 t0 mids0 l0 where segs: "segs = pz0 @ t0 # mids0 @ [l0]"
    and nm: "map og_name pz0 = (if kind = Executable then [PAGEZERO] else [])" "og_name t0 = TEXT" "og_name l0 = LINKEDIT"
      "PAGEZERO \<notin> og_name ` set mids0" and dist: "distinct (map og_name segs)"
  proof -
    let ?pz = "if kind = Executable then [PAGEZERO] else []"
    obtain mids where m: "map og_name segs = ?pz @ TEXT # mids @ [LINKEDIT]" "PAGEZERO \<notin> set mids" "distinct (map og_name segs)"
      using assms unfolding segments_formed_def by blast
    obtain pz r where 1: "segs = pz @ r" "map og_name pz = ?pz" "map og_name r = TEXT # mids @ [LINKEDIT]"
      using m(1) unfolding map_eq_append_conv by metis
    obtain t0 r1 where 2: "r = t0 # r1" "og_name t0 = TEXT" "map og_name r1 = mids @ [LINKEDIT]"
      using 1(3) unfolding map_eq_Cons_conv by metis
    obtain ms l where 3: "r1 = ms @ l" "map og_name ms = mids" "map og_name l = [LINKEDIT]"
      using 2(3) unfolding map_eq_append_conv by metis
    then show thesis using that [of pz t0 ms "hd l"] 1 2 m(2,3) by (auto simp: map_eq_Cons_conv)
  qed
  let ?m = "\<lambda>g. with_members 0 secs (reset_segment g)"
  let ?gs = "map ?m (mids0 @ [l0])"
  have LK: "LINKEDIT \<notin> og_name ` set mids0" using dist nm(3) unfolding segs by auto
  have tail: "og_name (?m t0) = TEXT" "PAGEZERO \<notin> og_name ` set ?gs" "LINKEDIT \<notin> og_name ` set (butlast ?gs)"
    "\<forall>g \<in> set (?m t0 # ?gs). og_sections g = seg_ids (og_name g) 0 secs" "distinct (map og_name (?m t0 # ?gs))"
    using nm LK dist unfolding segs by (auto simp: butlast_append image_image comp_def)
  have img: "og_name ` set (?m t0 # ?gs) = og_name ` set segs - {PAGEZERO}"
  proof -
    have 1: "og_name ` set pz0 \<subseteq> {PAGEZERO}" using nm(1) by (cases kind) auto
    have 2: "PAGEZERO \<notin> og_name ` set (t0 # mids0 @ [l0])" using nm by simp
    have 3: "og_name ` set (?m t0 # ?gs) = og_name ` set (t0 # mids0 @ [l0])" by (simp add: image_image)
    have 4: "og_name ` set segs = og_name ` set pz0 \<union> og_name ` set (t0 # mids0 @ [l0])" unfolding segs by (simp add: image_Un)
    show ?thesis unfolding 3 4 by (rule minus_extra [OF 1 2])
  qed
  show thesis
  proof (cases kind)
    case Executable
    then obtain g where g: "pz0 = [g]" "og_name g = PAGEZERO" using nm(1) by auto
    let ?g = "(?m g)\<lparr>og_vm_addr := 0, og_vm_size := EXECUTABLE_TEXT_BASE, og_file_off := 0, og_file_size := 0\<rparr>"
    have "seen_segments kind secs segs = [?g] @ ?m t0 # ?gs" using Executable g segs by (simp add: seen_segments_def)
    moreover have "[?g] = [] \<or> (\<exists>g. [?g] = [g] \<and> og_name g = PAGEZERO \<and> og_vm_addr g = 0 \<and> og_vm_size g = EXECUTABLE_TEXT_BASE
           \<and> og_file_off g = 0 \<and> og_file_size g = 0 \<and> kind = Executable)"
      using g(2) Executable by simp
    ultimately show ?thesis by (rule that [OF _ _ tail img])
  next
    case OutDylib
    then have "seen_segments kind secs segs = [] @ ?m t0 # ?gs" using nm(1) segs by (simp add: seen_segments_def)
    then show ?thesis by (rule that [OF _ disjI1 [OF refl] tail img])
  qed
qed

text \<open>What the pass leaves: the text segment at its base, the others in a chain after it.\<close>

lemma assign_addresses_chain:
  assumes run: "assign_addresses hs ly = Ok ly'" and formed: "segments_formed (ly_kind ly) (map og_name (ly_segments ly))"
    and len: "length (ly_sections ly) \<le> 2 ^ 32" and nz: "\<forall>s \<in> set (ly_sections ly). os_segment s \<noteq> PAGEZERO"
  obtains pz t gs v f where "ly_segments ly' = pz @ t # gs"
    and "pz = [] \<or> (\<exists>g. pz = [g] \<and> og_name g = PAGEZERO \<and> og_vm_addr g = 0 \<and> og_vm_size g = EXECUTABLE_TEXT_BASE
           \<and> og_file_off g = 0 \<and> og_file_size g = 0 \<and> ly_kind ly = Executable)"
    and "og_name t = TEXT" and "LINKEDIT \<notin> og_name ` set (butlast gs)" and "PAGEZERO \<notin> og_name ` set gs"
    and "vm_start t = unat (text_base_of (ly_kind ly))" and "file_start t = 0"
    and "seg_run (unat hs) t (members (ly_sections ly') (og_sections t)) v f" and "laid_chain v f (ly_sections ly') gs"
    and "\<forall>g \<in> set (t # gs). members (ly_sections ly') (og_sections g) = filter (\<lambda>s. os_segment s = og_name g) (ly_sections ly')"
    and "os_segment ` set (ly_sections ly') \<subseteq> og_name ` set (t # gs)"
    and "list_all2 moved (ly_sections ly) (ly_sections ly')" and "ly_kind ly' = ly_kind ly"
proof -
  let ?k = "ly_kind ly" and ?secs = "ly_sections ly"
  obtain st where st: "assign_segments (text_base_of ?k) hs (map og_name (ly_segments ly))
      \<lparr>as_sections = ?secs, as_segments = seen_segments ?k ?secs (ly_segments ly), next_vm = text_base_of ?k, next_file = 0\<rparr> = Ok st"
    and ly': "ly' = ly\<lparr>ly_sections := as_sections st, ly_segments := as_segments st\<rparr>"
    and sub: "os_segment ` set ?secs \<subseteq> og_name ` set (ly_segments ly)"
    by (rule assign_addresses_seen [OF run formed])
  obtain pz t gs where seen: "seen_segments ?k ?secs (ly_segments ly) = pz @ t # gs"
    and pz: "pz = [] \<or> (\<exists>g. pz = [g] \<and> og_name g = PAGEZERO \<and> og_vm_addr g = 0 \<and> og_vm_size g = EXECUTABLE_TEXT_BASE
           \<and> og_file_off g = 0 \<and> og_file_size g = 0 \<and> ?k = Executable)"
    and tn: "og_name t = TEXT" "PAGEZERO \<notin> og_name ` set gs" "LINKEDIT \<notin> og_name ` set (butlast gs)"
    and ids: "\<forall>g \<in> set (t # gs). og_sections g = seg_ids (og_name g) 0 ?secs" and dist: "distinct (map og_name (t # gs))"
    and img: "og_name ` set (t # gs) = og_name ` set (ly_segments ly) - {PAGEZERO}"
    by (rule seen_segments_shape [OF formed])
  have names: "map og_name (ly_segments ly) = map og_name (pz @ t # gs)"
    unfolding seen [symmetric] by (cases "ly_segments ly"; cases ?k) (simp_all add: seen_segments_def)
  have dall: "distinct (map og_name (pz @ t # gs))" using formed unfolding names segments_formed_def by blast
  have pzn: "map og_name pz \<in> {[], [PAGEZERO]}" using pz by auto
  obtain t' gs' v f where r: "as_segments st = pz @ t' # gs'" "resized t t'" "list_all2 resized gs gs'"
    "relocated (all_ids (t # gs)) ?secs (as_sections st)" "vm_start t' = unat (text_base_of ?k)" "file_start t' = 0"
    "seg_run (unat hs) t' (members (as_sections st) (og_sections t)) v f" "laid_chain v f (as_sections st) gs'"
    using assign_text [OF st [unfolded names] _ dall all_members(2) [OF len ids dist] pzn tn] seen by auto
  have mv: "list_all2 moved ?secs (as_sections st)" by (rule relocated_moved [OF r(4)])
  have same: "map og_name gs' = map og_name gs" "map og_sections gs' = map og_sections gs"
    using r(3) by (induction rule: list_all2_induct) simp_all
  have "\<forall>g \<in> set (t' # gs'). og_sections g = seg_ids (og_name g) 0 ?secs"
    using r(3) ids r(2) by (induction rule: list_all2_induct) simp_all
  then have own: "\<forall>g \<in> set (t' # gs'). members (as_sections st) (og_sections g) = filter (\<lambda>s. os_segment s = og_name g) (as_sections st)"
    using moved_members [OF mv len] by simp
  have segnames: "map os_segment (as_sections st) = map os_segment ?secs"
    using mv by (induction rule: list_all2_induct) simp_all
  then have si: "os_segment ` set (as_sections st) = os_segment ` set ?secs" by (metis list.set_map)
  have ti: "og_name ` set (t' # gs') = og_name ` set (t # gs)"
    using same(1) resized_fields(1) [OF r(2)] by (simp only: list.set_map [symmetric] list.map)
  have sub': "os_segment ` set (as_sections st) \<subseteq> og_name ` set (t' # gs')"
    unfolding si ti img subset_Diff_insert Diff_empty using sub nz by (metis imageE)
  have bl: "LINKEDIT \<notin> og_name ` set (butlast gs')" "PAGEZERO \<notin> og_name ` set gs'"
    using same(1) tn(2,3) by (metis list.set_map map_butlast)+
  have tt: "og_name t' = TEXT" "seg_run (unat hs) t' (members (as_sections st) (og_sections t')) v f"
    using tn(1) r(7) unfolding resized_fields [OF r(2)] .
  have ly'_fields: "ly_segments ly' = pz @ t' # gs'" "ly_sections ly' = as_sections st" "ly_kind ly' = ?k"
    unfolding ly' using r(1) by simp_all
  show thesis
    by (rule that [unfolded ly'_fields(2), OF ly'_fields(1) pz tt(1) bl r(5,6) tt(2) r(8) own sub' mv ly'_fields(3)])
qed

lemma chain_sound:
  assumes segs: "ly_segments ly = pz @ t # gs"
    and pz: "pz = [] \<or> (\<exists>g. pz = [g] \<and> og_name g = PAGEZERO \<and> og_vm_addr g = 0 \<and> og_vm_size g = EXECUTABLE_TEXT_BASE
           \<and> og_file_off g = 0 \<and> og_file_size g = 0 \<and> kind = Executable)"
    and names: "og_name t = TEXT" "LINKEDIT \<notin> og_name ` set (butlast gs)" "PAGEZERO \<notin> og_name ` set gs"
    and t: "vm_start t = unat (text_base_of kind)" "file_start t = 0"
    and run: "seg_run h t (members (ly_sections ly) (og_sections t)) v f" and chain: "laid_chain v f (ly_sections ly) gs"
    and own: "\<forall>g \<in> set (t # gs). members (ly_sections ly) (og_sections g) = filter (\<lambda>s. os_segment s = og_name g) (ly_sections ly)"
    and sub: "os_segment ` set (ly_sections ly) \<subseteq> og_name ` set (t # gs)"
  shows "addresses_sound ly"
proof (rule addresses_soundI)
  have dt: "page dvd vm_start t" "page dvd file_start t" unfolding t by (rule text_base_page, simp)
  note ch = laid_chain_sorted [OF chain names(2)]
  note e = seg_run_end [OF run dt]
  have tl: "og_name t \<noteq> LINKEDIT" unfolding names(1) by simp
  have after: "segment_before t g \<and> vm_start t \<le> vm_start g \<and> file_start t \<le> file_start g" if "g \<in> set gs" for g
  proof -
    have ge: "round_up page v \<le> vm_start g" "round_up page f \<le> file_start g" using ch that by blast+
    have "v \<le> round_up page v" "f \<le> round_up page f" by (rule round_up_bounds(1); simp)+
    then show ?thesis using seg_run_before [OF run dt tl ge] ge e(5,6) by linarith
  qed
  have low: "segment_before g k" if "g \<in> set pz" "vm_start t \<le> vm_start k" for g k
    using that pz t(1) unfolding segment_before_def by auto
  show "sorted_wrt segment_before (ly_segments ly)"
    unfolding segs sorted_wrt_append sorted_wrt.simps using ch after low pz by auto
  show "\<forall>g \<in> set (ly_segments ly). page dvd vm_start g \<and> page dvd file_start g"
    unfolding segs using ch dt pz by auto
  show "os_segment ` set (ly_sections ly) \<subseteq> og_name ` set (ly_segments ly)" using sub unfolding segs by auto
  fix g assume "g \<in> set (ly_segments ly)"
  then consider "g \<in> set pz" | "g = t" | "g \<in> set gs" unfolding segs by auto
  then show "(\<forall>s \<in> set (filter (\<lambda>s. os_segment s = og_name g) (ly_sections ly)). section_in_segment g s)
      \<and> sorted_wrt section_before (filter (\<lambda>s. os_segment s = og_name g) (ly_sections ly))"
  proof cases
    case 1
    then have "og_name g = PAGEZERO" using pz by auto
    moreover have "PAGEZERO \<notin> os_segment ` set (ly_sections ly)" using sub names by (auto dest!: subsetD)
    ultimately have "filter (\<lambda>s. os_segment s = og_name g) (ly_sections ly) = []" by (simp add: filter_empty_conv image_iff) metis
    then show ?thesis by simp
  next
    case 2
    have "members (ly_sections ly) (og_sections t) = filter (\<lambda>s. os_segment s = og_name t) (ly_sections ly)" using own by simp
    with seg_run_sections [OF run dt] show ?thesis unfolding 2 by simp
  next
    case 3
    then obtain v' f' where r: "seg_run 0 g (members (ly_sections ly) (og_sections g)) v' f'"
      and d: "page dvd vm_start g" "page dvd file_start g" using ch by blast
    have "members (ly_sections ly) (og_sections g) = filter (\<lambda>s. os_segment s = og_name g) (ly_sections ly)" using own 3 by simp
    with seg_run_sections [OF r d] show ?thesis by simp
  qed
qed

lemma assign_addresses_sound:
  assumes "assign_addresses hs ly = Ok ly'" and "segments_formed (ly_kind ly) (map og_name (ly_segments ly))"
    and "length (ly_sections ly) \<le> 2 ^ 32" and "\<forall>s \<in> set (ly_sections ly). os_segment s \<noteq> PAGEZERO"
  shows "addresses_sound ly'" and "list_all2 moved (ly_sections ly) (ly_sections ly')"
proof -
  have "addresses_sound ly' \<and> list_all2 moved (ly_sections ly) (ly_sections ly')"
    by (rule assign_addresses_chain [OF assms]) (intro conjI; (assumption | (rule chain_sound; assumption)))
  then show "addresses_sound ly'" "list_all2 moved (ly_sections ly) (ly_sections ly')" by blast+
qed

end
