(* ===== verification/Layout_Build.thy ===== *)
theory Layout_Build
  imports Layout_Sound Atomize
begin

text \<open>
  Building a layout: the segment list is well formed, every live atom is placed exactly once, atoms
  sit at aligned, disjoint offsets inside their section, and so every live atom gets an address.
\<close>

section \<open>The segment list\<close>

lemma insert_segments_eq: "i \<le> length segs \<Longrightarrow> insert_segments i xs segs = take i segs @ rev xs @ drop i segs"
  by (induction xs arbitrary: segs) (simp_all add: insert_at_def)

lemma distinct_remdups_adj_sorted: "sorted_by cmp_bytes xs \<Longrightarrow> distinct (remdups_adj xs)"
proof (induction xs rule: remdups_adj.induct)
  case (3 x y xs)
  then show ?case
  proof (cases "x = y")
    case False
    have s: "sorted_by cmp_bytes (y # xs)" "\<forall>z \<in> set (y # xs). cmp_bytes x z \<noteq> Greater"
      using "3.prems" by (simp_all add: sorted_by_def)
    have "x \<notin> set (y # xs)"
    proof
      assume "x \<in> set (y # xs)"
      then have "cmp_bytes y x \<noteq> Greater" using s(1) False by (auto simp: sorted_by_def)
      moreover have "cmp_bytes x y \<noteq> Greater" using s(2) by simp
      ultimately have "cmp_bytes x y = Equal" using cmp_bytes_flip [of y x] by (cases "cmp_bytes x y") simp_all
      then show False using False by simp
    qed
    then show ?thesis using 3 False s(1) by simp
  qed (simp add: sorted_by_def)
qed simp_all

lemma custom_names_facts:
  "distinct (custom_names kind secs)"
  "set (custom_names kind secs) = os_segment ` set secs - set (segment_order kind)"
  unfolding custom_names_def
  by (rule distinct_remdups_adj_sorted, rule name_order.sorted_sort_by) auto

lemma standard_names:
  obtains mids where "filter (\<lambda>n. standard_segment_required kind n secs) (segment_order kind) =
      (if kind = Executable then [PAGEZERO] else []) @ TEXT # mids @ [LINKEDIT]"
    and "set mids \<subseteq> {DATA_CONST, DATA}" and "distinct mids"
proof -
  let ?q = "\<lambda>n. standard_segment_required kind n secs"
  have d: "DATA_CONST \<noteq> DATA" by code_simp
  have q: "?q TEXT" "?q LINKEDIT" "kind = Executable \<Longrightarrow> ?q PAGEZERO" by (simp_all add: standard_segment_required_def)
  show thesis
    by (rule that [of "filter ?q [DATA_CONST, DATA]"])
      (use q d in \<open>cases kind; auto simp: segment_order_def EXEC_SEGMENTS_def DYLIB_SEGMENTS_def\<close>)+
qed

lemma position_map: "position p (map f xs) = position (\<lambda>x. p (f x)) xs"
  by (induction xs) simp_all

lemma build_segments_names:
  obtains mids where "map og_name (build_segments kind secs) =
      (if kind = Executable then [PAGEZERO] else []) @ TEXT # (mids @ custom_names kind secs) @ [LINKEDIT]"
    and "set mids \<subseteq> {DATA_CONST, DATA}" and "distinct mids"
proof -
  obtain mids where m: "filter (\<lambda>n. standard_segment_required kind n secs) (segment_order kind) =
      (if kind = Executable then [PAGEZERO] else []) @ TEXT # mids @ [LINKEDIT]"
    and mids: "set mids \<subseteq> {DATA_CONST, DATA}" "distinct mids"
    by (rule standard_names)
  let ?std = "map (\<lambda>n. new_segment n (segment_prot n) (segment_flags n))
                  (filter (\<lambda>n. standard_segment_required kind n secs) (segment_order kind))"
  let ?pre = "(if kind = Executable then [PAGEZERO] else []) @ TEXT # mids"
  have "LINKEDIT \<notin> {DATA_CONST, DATA}" by code_simp
  then have nl: "LINKEDIT \<notin> set ?pre" using mids(1) by auto
  have std: "map og_name ?std = ?pre @ [LINKEDIT]" unfolding m by (simp add: new_segment_def comp_def)
  have "position (\<lambda>n. n = LINKEDIT) (?pre @ [LINKEDIT]) = Some (length ?pre)"
    using nl by (intro position_prefix) auto
  then have pos: "position (\<lambda>g. og_name g = LINKEDIT) ?std = Some (length ?pre)"
    using std position_map [of "\<lambda>n. n = LINKEDIT" og_name ?std] by simp
  have len: "length ?std = Suc (length ?pre)" unfolding m by simp
  have "map og_name (build_segments kind secs) = take (length ?pre) (map og_name ?std) @ custom_names kind secs @ drop (length ?pre) (map og_name ?std)"
    unfolding build_segments_def Let_def pos option.case
    by (subst insert_segments_eq) (simp_all only: len take_map [symmetric] drop_map [symmetric] map_append rev_rev_ident, simp_all add: new_segment_def comp_def take_map drop_map)
  then show thesis using that [of mids] mids unfolding std by simp
qed

lemma build_segments_formed:
  assumes "PAGEZERO \<notin> os_segment ` set secs"
  shows "segments_formed kind (map og_name (build_segments kind secs))"
proof -
  obtain mids where n: "map og_name (build_segments kind secs) =
      (if kind = Executable then [PAGEZERO] else []) @ TEXT # (mids @ custom_names kind secs) @ [LINKEDIT]"
    and mids: "set mids \<subseteq> {DATA_CONST, DATA}" "distinct mids" by (rule build_segments_names)
  note cn = custom_names_facts [of kind secs]
  have d: "{DATA_CONST, DATA} \<inter> {PAGEZERO, TEXT, LINKEDIT} = {}" by code_simp
  have o: "{TEXT, LINKEDIT, DATA_CONST, DATA} \<subseteq> set (segment_order kind)"
    by (cases kind) (simp_all add: segment_order_def EXEC_SEGMENTS_def DYLIB_SEGMENTS_def)
  have c: "set (custom_names kind secs) \<inter> {PAGEZERO, TEXT, LINKEDIT, DATA_CONST, DATA} = {}" using cn(2) o assms by auto
  have "PAGEZERO \<notin> set (mids @ custom_names kind secs)" using mids(1) c d by auto
  moreover have "distinct (map og_name (build_segments kind secs))"
    unfolding n using mids c d cn(1) by auto
  ultimately show ?thesis unfolding segments_formed_def using n by blast
qed

section \<open>What the sections hold\<close>

text \<open>
  An output atom without its offset, all of them over a section list as a multiset, and the condition
  that a section is aligned at least as strictly as each of its atoms.
\<close>

definition carried :: "output_atom \<Rightarrow> atom_id \<times> u64 \<times> u8 list" where
  "carried p = (oa_atom p, oa_size p, oa_data p)"

definition held :: "output_section \<Rightarrow> (atom_id \<times> u64 \<times> u8 list) multiset" where
  "held s = mset (map carried (os_atoms s))"

definition contents :: "output_section list \<Rightarrow> (atom_id \<times> u64 \<times> u8 list) multiset" where
  "contents secs = sum_list (map held secs)"

definition strict_enough :: "atom_table \<Rightarrow> output_section \<Rightarrow> bool" where
  "strict_enough tb s \<longleftrightarrow> (\<forall>p \<in> set (os_atoms s). \<forall>a. get_atom tb (oa_atom p) = (Ok a :: atom checked) \<longrightarrow> at_align_pow2 a \<le> os_align_pow2 s)"

definition holds :: "atom_table \<Rightarrow> (atom_id \<times> u64 \<times> u8 list) multiset \<Rightarrow> output_section list \<Rightarrow> bool" where
  "holds tb cs secs \<longleftrightarrow> contents secs = cs \<and> list_all (strict_enough tb) secs"

lemma contents_simps [simp]:
  "contents [] = {#}" "contents (s # ss) = held s + contents ss" "contents (ss @ ts) = contents ss + contents ts"
  by (simp_all add: contents_def)

lemma contents_mset: "mset ss = mset ts \<Longrightarrow> contents ss = contents ts"
  unfolding contents_def by (metis mset_map sum_mset_sum_list)

lemma contents_update:
  assumes "i < length secs" and "held t = held (secs ! i) + x"
  shows "contents (secs[i := t]) = contents secs + x"
proof -
  have "contents secs = contents (take i secs @ secs ! i # drop (Suc i) secs)" using assms(1) by (simp add: id_take_nth_drop [symmetric])
  then show ?thesis using assms by (simp add: upd_conv_take_nth_drop)
qed

lemma list_all_update: "list_all P xs \<Longrightarrow> P y \<Longrightarrow> list_all P (xs[i := y])"
  unfolding list_all_iff using set_update_subset_insert by fast

lemma normalize_ge: "a \<le> normalize_output_alignment k a"
  by (simp add: normalize_output_alignment_def)

definition atom_contents :: "atom_id \<times> atom \<Rightarrow> atom_id \<times> u64 \<times> u8 list" where
  "atom_contents ia = (fst ia, ucast (at_size (snd ia)), at_data (snd ia))"

definition is_live :: "atom_id set option \<Rightarrow> atom_id \<Rightarrow> bool" where
  "is_live live aid = (case live of Some l \<Rightarrow> aid \<in> l | None \<Rightarrow> True)"

lemma add_to_section_holds:
  assumes "strict_enough tb out" and "get_atom tb aid = (Ok a :: atom checked)"
  shows "held (add_to_section isec aid a out) = held out + {#atom_contents (aid, a)#}"
    and "strict_enough tb (add_to_section isec aid a out)"
proof -
  have ge: "max (os_align_pow2 out) (at_align_pow2 a) \<le> os_align_pow2 (add_to_section isec aid a out)"
    by (simp add: add_to_section_def normalize_ge)
  show "held (add_to_section isec aid a out) = held out + {#atom_contents (aid, a)#}"
    by (simp add: add_to_section_def held_def carried_def atom_contents_def)
  show "strict_enough tb (add_to_section isec aid a out)"
    unfolding strict_enough_def
  proof (intro ballI allI impI)
    fix p b assume p: "p \<in> set (os_atoms (add_to_section isec aid a out))" and b: "get_atom tb (oa_atom p) = (Ok b :: atom checked)"
    then consider "p \<in> set (os_atoms out)" | "oa_atom p = aid" by (auto simp: add_to_section_def)
    then have "at_align_pow2 b \<le> max (os_align_pow2 out) (at_align_pow2 a)"
      by cases (use assms b in \<open>auto simp: strict_enough_def intro: max.coboundedI1\<close>)
    then show "at_align_pow2 b \<le> os_align_pow2 (add_to_section isec aid a out)" using ge by (rule order_trans)
  qed
qed

lemma group_atom_holds:
  assumes "group_atom imap live (aid, a) g = Ok g'" and "holds tb cs (fst g)" and "get_atom tb aid = (Ok a :: atom checked)"
  shows "holds tb (cs + (if is_live live aid then {#atom_contents (aid, a)#} else {#})) (fst g')"
proof (cases "is_live live aid")
  case False
  then have "g' = g" using assms(1) by (cases live) (auto simp: group_atom_def is_live_def)
  then show ?thesis using assms(2) False by simp
next
  case True
  then have nl: "\<not> (case live of Some l \<Rightarrow> aid \<notin> l | None \<Rightarrow> False)" by (cases live) (simp_all add: is_live_def)
  obtain isec where isec: "(case section_slot isec a g of (idx, secs, ix) \<Rightarrow>
        rbind (index secs idx) (\<lambda>out. Ok (secs[idx := add_to_section isec aid a out], ix))) = (Ok g' :: grouping checked)"
    using assms(1) unfolding group_atom_def prod.case if_not_P [OF nl] rbind_Ok_iff by blast
  obtain idx secs ix where slot: "section_slot isec a g = (idx, secs, ix)" by (cases "section_slot isec a g")
  then have secs: "secs = fst g \<or> (\<exists>key. secs = fst g @ [new_section key isec a])"
    unfolding section_slot_def Let_def by (auto split: option.splits)
  have upd: "rbind (index secs idx) (\<lambda>out. Ok (secs[idx := add_to_section isec aid a out], ix)) = (Ok g' :: grouping checked)"
    using isec unfolding slot by simp
  define out where "out = secs ! idx"
  have out: "idx < length secs" "out = secs ! idx" and g': "fst g' = secs[idx := add_to_section isec aid a out]"
    using upd by (auto simp: rbind_Ok_iff index_def out_def split: if_splits)
  have new: "held (new_section key isec a) = {#}" "strict_enough tb (new_section key isec a)" for key
    by (cases isec; simp add: new_section_def held_def strict_enough_def)+
  have hs: "contents secs = cs" "list_all (strict_enough tb) secs" using secs assms(2) new by (auto simp: holds_def)
  then have "strict_enough tb out" using out by (simp add: list_all_length)
  note add = add_to_section_holds [OF this assms(3), of isec]
  show ?thesis unfolding holds_def g' using True contents_update [OF out(1)] add hs out(2) list_all_update [OF hs(2) add(2)] by simp
qed

lemma group_atoms_holds:
  assumes "group_atoms imap live ias g = Ok g'" and "holds tb cs (fst g)" and "\<forall>(aid, a) \<in> set ias. get_atom tb aid = (Ok a :: atom checked)"
  shows "holds tb (cs + mset (map atom_contents (filter (\<lambda>ia. is_live live (fst ia)) ias))) (fst g')"
  using assms
proof (induction ias arbitrary: g cs)
  case (Cons ia ias)
  obtain aid a where ia: "ia = (aid, a)" by (cases ia)
  obtain g1 where g1: "group_atom imap live (aid, a) g = Ok g1" "group_atoms imap live ias g1 = Ok g'"
    using Cons.prems(1) by (auto simp: ia rbind_Ok_iff)
  have "holds tb (cs + (if is_live live aid then {#atom_contents (aid, a)#} else {#})) (fst g1)"
    using Cons.prems by (intro group_atom_holds [OF g1(1)]) (simp_all add: ia)
  from Cons.IH [OF g1(2) this] Cons.prems(3) show ?case by (simp add: ia ac_simps split: if_splits)
qed simp

section \<open>The other passes keep it\<close>

text \<open>A section that keeps the same atoms, in some order, and loses no alignment.\<close>

definition keeps :: "output_section \<Rightarrow> output_section \<Rightarrow> bool" where
  "keeps s t \<longleftrightarrow> mset (map carried (os_atoms t)) = mset (map carried (os_atoms s)) \<and> os_align_pow2 s \<le> os_align_pow2 t"

lemma carried_ids: "mset (map carried ps) = mset (map carried qs) \<Longrightarrow> oa_atom ` set ps = oa_atom ` set qs"
proof -
  have "oa_atom ` set xs = fst ` set (map carried xs)" for xs by (simp add: image_image carried_def)
  moreover assume "mset (map carried ps) = mset (map carried qs)"
  then have "set (map carried ps) = set (map carried qs)" by (metis set_mset_mset)
  ultimately show ?thesis by metis
qed

lemma keeps_holds:
  assumes "keeps s t"
  shows "held t = held s" and "strict_enough tb s \<Longrightarrow> strict_enough tb t"
proof -
  show "held t = held s" using assms by (simp add: keeps_def held_def)
  assume s: "strict_enough tb s"
  show "strict_enough tb t"
    unfolding strict_enough_def
  proof (intro ballI allI impI)
    fix p a assume "p \<in> set (os_atoms t)" and a: "get_atom tb (oa_atom p) = (Ok a :: atom checked)"
    then have "oa_atom p \<in> oa_atom ` set (os_atoms s)" using assms carried_ids unfolding keeps_def by (metis imageI)
    then have "at_align_pow2 a \<le> os_align_pow2 s" using s a by (auto simp: strict_enough_def)
    then show "at_align_pow2 a \<le> os_align_pow2 t" using assms unfolding keeps_def by (meson order_trans)
  qed
qed

lemma list_keeps_holds: "list_all2 keeps ss ts \<Longrightarrow> holds tb cs ss \<Longrightarrow> holds tb cs ts"
proof (induction arbitrary: cs rule: list_all2_induct)
  case (Cons s ss t ts)
  then show ?case using keeps_holds [OF Cons(1)] by (simp add: holds_def)
qed simp

lemma mset_holds: "mset ss = mset ts \<Longrightarrow> holds tb cs ss \<Longrightarrow> holds tb cs ts"
  unfolding holds_def using contents_mset by (metis list.pred_set set_mset_mset)

lemma empty_holds: "os_atoms y = [] \<Longrightarrow> held y = {#} \<and> strict_enough tb y"
  by (simp add: held_def strict_enough_def)

lemma add_synthetic_holds:
  assumes "add_synthetic y secs = Ok secs'" and "holds tb cs secs" and "os_atoms y = []"
  shows "holds tb cs secs'"
proof -
  let ?y = "y\<lparr>os_flags := output_section_flags (os_flags y)\<rparr>"
  consider "secs' = secs @ [?y]" | i t where "i < length secs" "merge_synthetic_section (secs ! i) ?y = Ok t" "secs' = secs[i := t]"
  proof (cases "\<exists>i. position (\<lambda>s. output_section_key_from_output s = output_section_key_from_output ?y) secs = Some i
      \<and> os_segment ?y = DATA \<and> os_name ?y = bstr ''__data''")
    case True
    then obtain i where i: "position (\<lambda>s. output_section_key_from_output s = output_section_key_from_output ?y) secs = Some i"
      and d: "os_segment ?y = DATA \<and> os_name ?y = bstr ''__data''" by blast
    obtain t where "merge_synthetic_section (secs ! i) ?y = Ok t" "secs' = secs[i := t]"
      using assms(1) unfolding add_synthetic_def Let_def if_P [OF d] i option.case rbind_Ok_iff by auto
    then show thesis using that(2) position_SomeD(1) [OF i] by blast
  next
    case False
    then have "secs' = secs @ [?y]" using assms(1) unfolding add_synthetic_def Let_def by (auto split: if_splits option.splits)
    then show thesis by (rule that(1))
  qed
  then show ?thesis
  proof cases
    case 1
    then show ?thesis using assms(2) empty_holds [of ?y tb] assms(3) by (simp add: holds_def)
  next
    case 2
    have t: "os_atoms t = os_atoms (secs ! i)" "os_align_pow2 t = normalize_output_alignment (os_kind (secs ! i)) (max (os_align_pow2 (secs ! i)) (os_align_pow2 ?y))"
      using 2(2) unfolding merge_synthetic_section_def by (auto split: if_splits)
    have "os_align_pow2 (secs ! i) \<le> os_align_pow2 t" unfolding t(2) by (rule order_trans [OF max.cobounded1 normalize_ge])
    then have k: "keeps (secs ! i) t" unfolding keeps_def t(1) by simp
    have "list_all2 keeps secs secs'"
      unfolding list_all2_conv_all_nth 2(3) using k 2(1) by (auto simp: nth_list_update keeps_def)
    then show ?thesis using assms(2) by (rule list_keeps_holds)
  qed
qed

lemma add_synthetics_holds:
  "add_synthetics ys secs = Ok secs' \<Longrightarrow> holds tb cs secs \<Longrightarrow> \<forall>y \<in> set ys. os_atoms y = [] \<Longrightarrow> holds tb cs secs'"
proof (induction ys arbitrary: secs)
  case (Cons y ys)
  obtain secs1 where 1: "add_synthetic y secs = Ok secs1" "add_synthetics ys secs1 = Ok secs'"
    using Cons.prems(1) by (auto simp: rbind_Ok_iff)
  have "holds tb cs secs1" using add_synthetic_holds [OF 1(1) Cons.prems(2)] Cons.prems(3) by simp
  then show ?case using Cons.IH [OF 1(2)] Cons.prems(3) by simp
qed simp

lemma mapM_Ok_all2:
  assumes "mapM f xs = Ok ys" and "\<And>x y. f x = Ok y \<Longrightarrow> R x y"
  shows "list_all2 R xs ys"
  using assms(2) mapM_Ok_length [OF assms(1)] mapM_Ok_nth [OF assms(1)] by (simp add: list_all2_conv_all_nth)

lemma mapM_tagged: "mapM (\<lambda>p. rbind (f p) (\<lambda>k. Ok (k, p))) ps = Ok kps \<Longrightarrow> map snd kps = ps"
  by (induction ps arbitrary: kps) (auto simp: rbind_Ok_iff)

lemma sort_section_atoms_keeps: "sort_section_atoms imap tb s = Ok t \<Longrightarrow> keeps s t"
proof (cases "length (os_atoms s) < 2")
  case False
  assume "sort_section_atoms imap tb s = Ok t"
  then obtain kps where k: "mapM (\<lambda>p. rbind (atom_sort_key imap tb p) (\<lambda>k. Ok (k, p))) (os_atoms s) = Ok kps"
    and t: "t = s\<lparr>os_atoms := map snd (sort_by (\<lambda>x y. atom_key_cmp (fst x) (fst y)) kps)\<rparr>"
    using False by (auto simp: sort_section_atoms_def rbind_Ok_iff)
  have "mset (map snd (sort_by (\<lambda>x y. atom_key_cmp (fst x) (fst y)) kps)) = mset (os_atoms s)"
    by (simp flip: mapM_tagged [OF k])
  then have "mset (os_atoms t) = mset (os_atoms s)" unfolding t by simp
  moreover have "os_align_pow2 t = os_align_pow2 s" unfolding t by simp
  ultimately show ?thesis unfolding keeps_def by simp
qed (simp add: sort_section_atoms_def keeps_def)

lemma concat_split_chunks: "concat (split_chunks points ps cur) = cur @ ps"
  by (induction points ps cur rule: split_chunks.induct) auto

lemma split_section_holds:
  assumes "strict_enough tb s"
  shows "contents (split_section points s) = held s" and "list_all (strict_enough tb) (split_section points s)"
proof -
  let ?cs = "split_chunks points (os_atoms s) []"
  let ?m = "\<lambda>c. (split_section_template s)\<lparr>os_atoms := c\<rparr>"
  have "contents (map ?m cs) = mset (map carried (concat cs))" for cs by (induction cs) (simp_all add: held_def)
  then have "contents (map ?m ?cs) = held s" by (simp add: concat_split_chunks held_def)
  then show "contents (split_section points s) = held s" by (simp add: split_section_def)
  have "set c \<subseteq> set (os_atoms s)" if "c \<in> set ?cs" for c
    using that concat_split_chunks [of points "os_atoms s" "[]"] by (metis append_Nil set_concat Union_upper image_eqI)
  then have "\<forall>c \<in> set ?cs. strict_enough tb (?m c)"
    using assms by (auto simp: strict_enough_def split_section_template_def)
  then show "list_all (strict_enough tb) (split_section points s)"
    using assms by (simp add: split_section_def list_all_iff)
qed

lemma split_sections_holds:
  assumes "holds tb cs secs"
  shows "holds tb cs (split_sections_after_atoms points secs)"
proof -
  have "list_all (strict_enough tb) secs \<Longrightarrow> contents (concat (map (split_section P) secs)) = contents secs
    \<and> list_all (strict_enough tb) (concat (map (split_section P) secs))" for P
    by (induction secs) (simp_all add: split_section_holds [where tb = tb])
  then show ?thesis using assms by (simp add: holds_def split_sections_after_atoms_def)
qed

lemma insert_extra_holds:
  "insert_extra_sections es secs = Ok secs' \<Longrightarrow> holds tb cs secs \<Longrightarrow> \<forall>e \<in> set es. os_atoms (ex_section e) = [] \<Longrightarrow> holds tb cs secs'"
proof (induction es arbitrary: secs)
  case (Cons e es)
  let ?x = "ex_section e"
  obtain i where rest: "insert_extra_sections es (insert_at i ?x secs) = Ok secs'"
    using Cons.prems(1) by (auto simp: rbind_Ok_iff insert_at_def split: option.splits) (metis append_Nil2 drop_all order_refl take_all)
  have "mset (insert_at i ?x secs) = mset (?x # secs)"
    by (simp add: insert_at_def) (metis append_take_drop_id mset_append)
  moreover have "holds tb cs (?x # secs)" using Cons.prems(2,3) empty_holds [of ?x tb] by (simp add: holds_def)
  ultimately have "holds tb cs (insert_at i ?x secs)" using mset_holds by metis
  then show ?case using Cons.IH [OF rest] Cons.prems(3) by simp
qed simp

section \<open>Atoms inside a section\<close>

abbreviation (input) atom_end :: "output_atom \<Rightarrow> nat" where
  "atom_end p \<equiv> unat (oa_offset p) + unat (oa_size p)"

definition atom_placed :: "atom_table \<Rightarrow> output_atom \<Rightarrow> bool" where
  "atom_placed tb p \<longleftrightarrow> (\<exists>a. get_atom tb (oa_atom p) = (Ok a :: atom checked) \<and> pow2 (at_align_pow2 a) dvd unat (oa_offset p))"

lemma place_atoms_Ok:
  assumes "place_atoms tb ps sz = Ok (qs, tot)"
  shows "map carried qs = map carried ps \<and> unat sz \<le> unat tot
    \<and> (\<forall>q \<in> set qs. atom_placed tb q \<and> unat sz \<le> unat (oa_offset q) \<and> atom_end q \<le> unat tot)
    \<and> sorted_wrt (\<lambda>p q. atom_end p \<le> unat (oa_offset q)) qs"
  using assms
proof (induction ps arbitrary: sz qs)
  case (Cons p ps)
  obtain a start fin qs1 where a: "get_atom tb (oa_atom p) = (Ok a :: atom checked)"
    and start: "align_up sz (align_of (at_align_pow2 a)) = Ok start" and fin: "add64 start (oa_size p) = (Ok fin :: u64 checked)"
    and rest: "place_atoms tb ps fin = Ok (qs1, tot)" and qs: "qs = p\<lparr>oa_offset := start\<rparr> # qs1"
    using Cons.prems by (auto simp: rbind_Ok_iff)
  note IH = Cons.IH [OF rest]
  have st: "unat start = round_up (pow2 (at_align_pow2 a)) (unat sz)" by (rule align_up_Ok [OF start])
  have fi: "unat fin = unat start + unat (oa_size p)" by (rule add64_unat [OF fin])
  have le: "unat sz \<le> unat start" and dv: "pow2 (at_align_pow2 a) dvd unat start"
    unfolding st by (rule round_up_bounds; simp)+
  let ?p = "p\<lparr>oa_offset := start\<rparr>"
  have 1: "atom_placed tb ?p" unfolding atom_placed_def using a dv by auto
  have 2: "\<forall>q \<in> set qs1. atom_placed tb q \<and> unat sz \<le> unat (oa_offset q) \<and> atom_end q \<le> unat tot \<and> atom_end ?p \<le> unat (oa_offset q)"
    using IH fi le by fastforce
  have 3: "unat sz \<le> unat tot" "atom_end ?p \<le> unat tot" using IH fi le by auto
  have 4: "map carried qs = map carried (p # ps)" unfolding qs list.map(2) using IH by (simp add: carried_def [of p] carried_def [of "p\<lparr>oa_offset := start\<rparr>"])
  show ?case unfolding 4 unfolding qs using 1 2 3 le IH by simp
qed simp

text \<open>A section as sized: its atoms in order, aligned and inside it, its synthetic bytes after them.\<close>

definition filled :: "atom_table \<Rightarrow> output_section \<Rightarrow> bool" where
  "filled tb s \<longleftrightarrow>
     (\<forall>p \<in> set (os_atoms s). atom_placed tb p \<and> atom_end p \<le> size_of s)
     \<and> sorted_wrt (\<lambda>p q. atom_end p \<le> unat (oa_offset q)) (os_atoms s)
     \<and> (os_synthetic_data s \<noteq> [] \<longrightarrow> length (os_synthetic_data s) < 2 ^ 64 \<longrightarrow>
          (\<forall>p \<in> set (os_atoms s). atom_end p \<le> unat (os_synthetic_offset s))
          \<and> unat (os_synthetic_offset s) + length (os_synthetic_data s) = size_of s)"

lemma size_section_Ok:
  assumes "size_section tb s = Ok t"
  shows "filled tb t" and "keeps s t" and "os_segment t = os_segment s \<and> os_align_pow2 t = os_align_pow2 s \<and> os_kind t = os_kind s"
proof -
  obtain ps sz off tot where ps: "place_atoms tb (os_atoms s) 0 = Ok (ps, sz)"
    and off: "(if os_synthetic_data s = [] \<or> ps = [] then Ok 0 else align_up sz (align_of (synthetic_data_align_pow2 s))) = Ok off"
    and tot_eq: "(if os_synthetic_data s = [] then Ok sz else add64 off (of_nat (length (os_synthetic_data s)))) = (Ok tot :: u64 checked)"
    and t: "t = s\<lparr>os_atoms := ps, os_synthetic_offset := off, os_size := tot\<rparr>"
    using assms unfolding size_section_def by (auto simp: rbind_Ok_iff)
  note P = place_atoms_Ok [OF ps]
  show "keeps s t" "os_segment t = os_segment s \<and> os_align_pow2 t = os_align_pow2 s \<and> os_kind t = os_kind s"
    unfolding keeps_def t using P by simp_all
  show "filled tb t"
  proof (cases "os_synthetic_data s = []")
    case True
    then have "tot = sz" using tot_eq by simp
    then show ?thesis using P True unfolding filled_def t by simp
  next
    case False
    let ?n = "unat (of_nat (length (os_synthetic_data s)) :: u64)"
    have n: "length (os_synthetic_data s) < 2 ^ 64 \<longrightarrow> ?n = length (os_synthetic_data s)" by (simp add: unat_of_nat)
    have tt: "unat tot = unat off + ?n" using tot_eq False add64_unat [of off _ tot] by simp
    have "\<forall>p \<in> set ps. atom_end p \<le> unat off"
    proof (cases "ps = []")
      case False
      then have "align_up sz (align_of (synthetic_data_align_pow2 s)) = Ok off" using off \<open>os_synthetic_data s \<noteq> []\<close> by simp
      then have "unat sz \<le> unat off" using align_up_Ok round_up_bounds(1) pow2_pos by metis
      then show ?thesis using P by fastforce
    qed simp
    then show ?thesis using P n tt unfolding filled_def t by fastforce
  qed
qed

section \<open>The finished layout\<close>

lemma atoms_iter_get:
  assumes "length (tb_atoms tb) < 2 ^ 32"
  shows "\<forall>(aid, a) \<in> set (atoms_iter tb). get_atom tb aid = (Ok a :: atom checked)"
  using get_atom_ok [OF _ assms] by (auto simp: atoms_iter_def simp del: of_nat_add)

lemma build_sections_holds:
  assumes "build_sections kind inputs tb synthetics live extras split_after = Ok secs" and "length (tb_atoms tb) < 2 ^ 32"
    and syn: "\<forall>ys. synthetics = Some ys \<longrightarrow> (\<forall>y \<in> set ys. os_atoms y = [])" and ex: "\<forall>e \<in> set extras. os_atoms (ex_section e) = []"
  shows "holds tb (mset (map atom_contents (filter (\<lambda>ia. is_live live (fst ia)) (atoms_iter tb)))) secs"
    and "list_all (filled tb) secs"
proof -
  let ?cs = "mset (map atom_contents (filter (\<lambda>ia. is_live live (fst ia)) (atoms_iter tb)))"
  obtain secs0 ix secs1 secs2 secs3 where g: "group_atoms (input_map inputs) live (atoms_iter tb) ([], Map.empty) = Ok (secs0, ix)"
    and s1: "(case synthetics of Some ys \<Rightarrow> add_synthetics ys secs0 | None \<Rightarrow> Ok secs0) = Ok secs1"
    and s2: "mapM (sort_section_atoms (input_map inputs) tb) (sort_by (compare_output_sections kind) secs1) = Ok secs2"
    and s3: "insert_extra_sections extras (split_sections_after_atoms split_after secs2) = Ok secs3"
    and s4: "mapM (size_section tb) secs3 = Ok secs"
    using assms(1) unfolding build_sections_def Let_def
    by (simp only: rbind_Ok_iff split_paired_Ex prod.case) (elim exE conjE, rule that; assumption)
  have "holds tb {#} []" by (simp add: holds_def)
  then have "holds tb ?cs secs0" using group_atoms_holds [OF g, of tb "{#}"] atoms_iter_get [OF assms(2)] by simp
  then have "holds tb ?cs secs1" using s1 syn by (cases synthetics) (auto intro: add_synthetics_holds)
  then have "holds tb ?cs (sort_by (compare_output_sections kind) secs1)" by (rule mset_holds [rotated]) simp
  then have "holds tb ?cs secs2" by (rule list_keeps_holds [rotated, OF _ mapM_Ok_all2 [OF s2 sort_section_atoms_keeps]])
  then have "holds tb ?cs (split_sections_after_atoms split_after secs2)" by (rule split_sections_holds)
  then have "holds tb ?cs secs3" using insert_extra_holds [OF s3] ex by blast
  then show "holds tb ?cs secs" by (rule list_keeps_holds [rotated, OF _ mapM_Ok_all2 [OF s4 size_section_Ok(2)]])
  have "list_all2 (\<lambda>s t. filled tb t) secs3 secs" by (rule mapM_Ok_all2 [OF s4 size_section_Ok(1)])
  then show "list_all (filled tb) secs" by (simp add: list_all2_conv_all_nth list_all_length)
qed

lemma moved_holds:
  assumes "list_all2 moved secs secs'"
  shows "holds tb cs secs \<Longrightarrow> holds tb cs secs'" and "list_all (filled tb) secs \<Longrightarrow> list_all (filled tb) secs'"
proof -
  have m: "keeps s t" "filled tb t = filled tb s" if "moved s t" for s t
    unfolding keeps_def filled_def moved_fields [OF that] by simp_all
  show "holds tb cs secs \<Longrightarrow> holds tb cs secs'"
    by (rule list_keeps_holds [OF list_all2_mono [OF assms m(1)]])
  show "list_all (filled tb) secs \<Longrightarrow> list_all (filled tb) secs'"
    using assms by (induction rule: list_all2_induct) (simp_all add: m(2))
qed

lemma contents_member: "c \<in># contents secs \<longleftrightarrow> (\<exists>s \<in> set secs. \<exists>p \<in> set (os_atoms s). c = carried p)"
  by (induction secs) (auto simp: held_def)

lemma find_mem: "List.find P xs = Some x \<Longrightarrow> x \<in> set xs \<and> P x"
  by (auto simp: find_Some_iff)

lemma find_placed_Some:
  "find_placed ly aid = Some (s, p) \<Longrightarrow> s \<in> set (ly_sections ly) \<and> p \<in> set (os_atoms s) \<and> oa_atom p = aid"
  unfolding find_placed_def by (drule find_mem) auto

lemma find_placed_None:
  "find_placed ly aid = None \<longleftrightarrow> (\<forall>s \<in> set (ly_sections ly). \<forall>p \<in> set (os_atoms s). oa_atom p \<noteq> aid)"
  unfolding find_placed_def find_None_iff by auto

lemma pow2_dvd: "a \<le> b \<Longrightarrow> pow2 a dvd pow2 b"
  unfolding pow2_def by (intro le_imp_power_dvd) (simp add: word_le_nat_alt min.coboundedI1)

lemma unat_ucast_u32: "unat (ucast (w :: u32) :: u64) = unat w"
proof -
  have "unat w < 2 ^ 64" using unsigned_less [of w, where ?'a = nat] by simp
  then show ?thesis by (simp add: unsigned_ucast_eq take_bit_nat_eq_self)
qed

text \<open>What the two halves of the build give together.\<close>

lemma build_parts:
  assumes run: "build_with_synthetics_and_extra_filtered kind inputs tb hs synthetics live extras split_after = Ok ly"
    and secs: "build_sections kind inputs tb synthetics live extras split_after = Ok secs"
    and small: "length (tb_atoms tb) < 2 ^ 32" "length secs \<le> 2 ^ 32"
    and syn: "\<forall>ys. synthetics = Some ys \<longrightarrow> (\<forall>y \<in> set ys. os_atoms y = [])" and ex: "\<forall>e \<in> set extras. os_atoms (ex_section e) = []"
    and nz: "\<forall>s \<in> set secs. os_segment s \<noteq> PAGEZERO"
  shows "addresses_sound ly" and "list_all (filled tb) (ly_sections ly)"
    and "holds tb (mset (map atom_contents (filter (\<lambda>ia. is_live live (fst ia)) (atoms_iter tb)))) (ly_sections ly)"
proof -
  let ?ly = "\<lparr>ly_kind = kind, ly_segments = build_segments kind secs, ly_sections = secs\<rparr>"
  have asg: "assign_addresses hs ?ly = Ok ly"
    using run unfolding build_with_synthetics_and_extra_filtered_def secs by simp
  have "PAGEZERO \<notin> os_segment ` set secs" using nz by (metis imageE)
  then have formed: "segments_formed (ly_kind ?ly) (map og_name (ly_segments ?ly))" using build_segments_formed by simp
  have small': "length (ly_sections ?ly) \<le> 2 ^ 32" "\<forall>s \<in> set (ly_sections ?ly). os_segment s \<noteq> PAGEZERO" using small nz by simp_all
  note A = assign_addresses_sound [OF asg formed small']
  note B = build_sections_holds [OF secs small(1) syn ex]
  show "addresses_sound ly" by (rule A(1))
  have mv: "list_all2 moved secs (ly_sections ly)" using A(2) by simp
  show "list_all (filled tb) (ly_sections ly)"
    "holds tb (mset (map atom_contents (filter (\<lambda>ia. is_live live (fst ia)) (atoms_iter tb)))) (ly_sections ly)"
    by (rule moved_holds [OF mv], rule B)+
qed

text \<open>The address of an atom of a sound layout whose sections are filled.\<close>

lemma placed_address:
  assumes sound: "addresses_sound ly" and filled: "list_all (filled tb) (ly_sections ly)"
    and strict: "list_all (strict_enough tb) (ly_sections ly)" and f: "find_placed ly aid = Some (s, p)"
  shows "atom_addr ly aid = Ok (Some (os_addr s + oa_offset p))"
    and "unat (os_addr s + oa_offset p) = addr_of s + unat (oa_offset p)" and "atom_end p \<le> size_of s"
    and "get_atom tb aid = (Ok a :: atom checked) \<Longrightarrow> pow2 (at_align_pow2 a) dvd addr_of s + unat (oa_offset p)"
proof -
  have m: "s \<in> set (ly_sections ly)" "p \<in> set (os_atoms s)" "oa_atom p = aid" using find_placed_Some [OF f] by blast+
  have ins: "addr_of s + size_of s < 2 ^ 64" "pow2 (os_align_pow2 s) dvd addr_of s"
    using sound m(1) unfolding addresses_sound_def section_in_segment_def by blast+
  have pl: "atom_placed tb p" "atom_end p \<le> size_of s" using filled m unfolding list_all_iff filled_def by blast+
  show "atom_end p \<le> size_of s" by (rule pl)
  have lim: "addr_of s + unat (oa_offset p) < 2 ^ 64" using ins(1) pl(2) by simp
  then have ok: "add64 (os_addr s) (oa_offset p) = (Ok (os_addr s + oa_offset p) :: u64 checked)" by (rule add64_ok)
  show "atom_addr ly aid = Ok (Some (os_addr s + oa_offset p))" unfolding atom_addr_def f by (simp add: ok)
  show "unat (os_addr s + oa_offset p) = addr_of s + unat (oa_offset p)" by (rule add64_unat [OF ok])
  assume a: "get_atom tb aid = (Ok a :: atom checked)"
  have "at_align_pow2 a \<le> os_align_pow2 s" using strict m a unfolding list_all_iff strict_enough_def by blast
  then have "pow2 (at_align_pow2 a) dvd addr_of s" using ins(2) pow2_dvd dvd_trans by blast
  moreover have "pow2 (at_align_pow2 a) dvd unat (oa_offset p)" using pl(1) a m(3) unfolding atom_placed_def by auto
  ultimately show "pow2 (at_align_pow2 a) dvd addr_of s + unat (oa_offset p)" by (rule dvd_add)
qed

lemma addresses_sound_pair:
  "addresses_sound ly \<Longrightarrow> i < j \<Longrightarrow> j < length (ly_sections ly) \<Longrightarrow>
   section_before (ly_sections ly ! i) (ly_sections ly ! j) \<or> section_before (ly_sections ly ! j) (ly_sections ly ! i)"
  unfolding addresses_sound_def by blast

lemma placed_disjoint:
  assumes sound: "addresses_sound ly" and filled: "list_all (filled tb) (ly_sections ly)"
    and s: "s \<in> set (ly_sections ly)" "p \<in> set (os_atoms s)" and t: "t \<in> set (ly_sections ly)" "q \<in> set (os_atoms t)" and ne: "p \<noteq> q"
  shows "addr_of s + atom_end p \<le> addr_of t + unat (oa_offset q) \<or> addr_of t + atom_end q \<le> addr_of s + unat (oa_offset p)"
proof -
  obtain i j where ij: "i < length (ly_sections ly)" "ly_sections ly ! i = s" "j < length (ly_sections ly)" "ly_sections ly ! j = t"
    using s(1) t(1) by (auto simp: in_set_conv_nth)
  have e: "atom_end p \<le> size_of s" "atom_end q \<le> size_of t" and so: "sorted_wrt (\<lambda>p q. atom_end p \<le> unat (oa_offset q)) (os_atoms s)"
    using filled s t unfolding list_all_iff filled_def by blast+
  show ?thesis
  proof (cases "i = j")
    case True
    then have st: "s = t" using ij by simp
    obtain k l where kl: "k < length (os_atoms s)" "os_atoms s ! k = p" "l < length (os_atoms s)" "os_atoms s ! l = q"
      using s(2) t(2) st by (auto simp: in_set_conv_nth)
    have "k \<noteq> l" using kl ne by auto
    then have "atom_end p \<le> unat (oa_offset q) \<or> atom_end q \<le> unat (oa_offset p)"
      using sorted_wrt_nth_less [OF so, of k l] sorted_wrt_nth_less [OF so, of l k] kl by (metis nat_neq_iff)
    then show ?thesis using st by auto
  next
    case False
    then consider "i < j" | "j < i" by linarith
    then have "section_before s t \<or> section_before t s"
    proof cases
      case 1
      from addresses_sound_pair [OF sound this ij(3)] show ?thesis unfolding ij .
    next
      case 2
      from addresses_sound_pair [OF sound this ij(1)] show ?thesis unfolding ij by (rule disj_commute [THEN iffD1])
    qed
    then show ?thesis using e unfolding section_before_def by (elim disjE conjE) linarith+
  qed
qed

text \<open>The two facts of a live atom: it is found, and what is found is that atom.\<close>

lemma live_found:
  assumes holds: "holds tb (mset (map atom_contents (filter (\<lambda>ia. is_live live (fst ia)) (atoms_iter tb)))) (ly_sections ly)"
    and small: "length (tb_atoms tb) < 2 ^ 32" and ia: "(aid, a) \<in> set (atoms_iter tb)" "is_live live aid"
  obtains s p where "find_placed ly aid = Some (s, p)" and "unat (oa_size p) = unat (at_size a)" and "oa_data p = at_data a"
proof -
  let ?live = "filter (\<lambda>ia. is_live live (fst ia)) (atoms_iter tb)"
  have cs: "c \<in># contents (ly_sections ly) \<longleftrightarrow> c \<in> set (map atom_contents ?live)" for c
    using holds unfolding holds_def by (metis set_mset_mset)
  have "atom_contents (aid, a) \<in># contents (ly_sections ly)" unfolding cs using ia by simp
  then obtain s p where sp: "s \<in> set (ly_sections ly)" "p \<in> set (os_atoms s)" "atom_contents (aid, a) = carried p"
    unfolding contents_member by blast
  then have "find_placed ly aid \<noteq> None" unfolding find_placed_None by (auto simp: atom_contents_def carried_def)
  then obtain t q where f: "find_placed ly aid = Some (t, q)" by auto
  then have q: "t \<in> set (ly_sections ly)" "q \<in> set (os_atoms t)" "oa_atom q = aid" using find_placed_Some by blast+
  then have "carried q \<in># contents (ly_sections ly)" unfolding contents_member by blast
  then obtain b where b: "(aid, b) \<in> set ?live" "carried q = atom_contents (aid, b)"
    unfolding cs using q(3) by (auto simp: atom_contents_def carried_def)
  have "get_atom tb aid = (Ok a :: atom checked)" "get_atom tb aid = (Ok b :: atom checked)"
    using atoms_iter_get [OF small] ia(1) b(1) by auto
  then have "b = a" by (metis result.inject(1))
  then have "oa_size q = ucast (at_size a)" "oa_data q = at_data a" using b(2) by (simp_all add: atom_contents_def carried_def)
  then show thesis using that [OF f] by (simp add: unat_ucast_u32)
qed

lemma dead_not_found:
  assumes holds: "holds tb (mset (map atom_contents (filter (\<lambda>ia. is_live live (fst ia)) (atoms_iter tb)))) (ly_sections ly)"
    and dead: "\<not> (is_live live aid \<and> aid \<in> fst ` set (atoms_iter tb))"
  shows "atom_addr ly aid = Ok None"
proof -
  let ?live = "filter (\<lambda>ia. is_live live (fst ia)) (atoms_iter tb)"
  have "find_placed ly aid = None"
    unfolding find_placed_None
  proof (intro ballI notI)
    fix s p assume "s \<in> set (ly_sections ly)" "p \<in> set (os_atoms s)" and aid: "oa_atom p = aid"
    then have "carried p \<in># contents (ly_sections ly)" unfolding contents_member by blast
    then have "carried p \<in> set (map atom_contents ?live)" using holds unfolding holds_def by (metis set_mset_mset)
    then show False using dead aid by (auto simp: carried_def atom_contents_def image_iff)
  qed
  then show ?thesis by (simp add: atom_addr_def)
qed

section \<open>Properties\<close>

text \<open>
  A sample program: one object with a text section of two atoms and a data section of one, and a
  common symbol.
\<close>

definition sample_section :: "str \<Rightarrow> str \<Rightarrow> section_kind \<Rightarrow> input_section" where
  "sample_section segment nm kind =
     \<lparr>is_segname = segment, is_sectname = nm, is_kind = kind, is_addr = 0, is_size = 8, is_align_pow2 = 2, is_flags = 0,
      is_offset = 0, is_reloff = 0, is_nreloc = 0, is_reserved1 = 0, is_reserved2 = 0, is_reserved3 = 0, is_data = [],
      is_raw_relocs = []\<rparr>"

definition sample_object :: object_file where
  "sample_object =
     \<lparr>ob_path = [], ob_header = \<lparr>magic = 0, cputype = 0, cpusubtype = 0, filetype = 0, ncmds = 0,
        sizeofcmds = 0, mh_flags = 0, mh_reserved = 0\<rparr>, ob_commands = [],
      ob_sections = [sample_section TEXT (bstr ''__text'') KText, sample_section DATA (bstr ''__data'') KData],
      ob_symbols = [], ob_strings = \<lparr>raw = []\<rparr>, ob_symtab = None, ob_dysymtab = None, ob_loh = [], ob_data_in_code = []\<rparr>"

definition sample_inputs :: "layout_input list" where
  "sample_inputs = [\<lparr>li_id = 0, li_object = sample_object, li_load_order = 0, li_archive_member_offset = None\<rparr>]"

definition sample_table :: atom_table where
  "sample_table = \<lparr>tb_atoms =
     [(record_atom 0 1 AText 4 6 2 [] 0)\<lparr>at_id := 1\<rparr>, (record_atom 0 1 AText 0 4 2 [] 0)\<lparr>at_id := 2\<rparr>,
      (record_atom 0 2 AData 0 8 3 [] 0)\<lparr>at_id := 3\<rparr>, (record_atom 0 0 ACommon 0 16 4 [] 0)\<lparr>at_id := 4\<rparr>]\<rparr>"

lemma sample_layout:
  obtains secs ly where "build_sections Executable sample_inputs sample_table None (Some {1, 2, 4}) [] [] = Ok secs"
    and "build_with_synthetics_and_extra_filtered Executable sample_inputs sample_table 0x400 None (Some {1, 2, 4}) [] [] = Ok ly"
    and "length secs \<le> 2 ^ 32" and "\<forall>s \<in> set secs. os_segment s \<noteq> PAGEZERO" and "atom_addr ly 1 = Ok (Some 0x100000404)"
    and "atom_addr ly 2 = Ok (Some 0x100000400)" and "atom_addr ly 3 = Ok None"
proof -
  let ?secs = "build_sections Executable sample_inputs sample_table None (Some {1, 2, 4}) [] []"
  let ?ly = "build_with_synthetics_and_extra_filtered Executable sample_inputs sample_table 0x400 None (Some {1, 2, 4}) [] []"
  have 1: "rmap (\<lambda>secs. (length secs, map os_segment secs)) ?secs = Ok (2, [TEXT, DATA])" by code_simp
  have 2: "rbind ?ly (\<lambda>ly. rbind (atom_addr ly 1) (\<lambda>x. rbind (atom_addr ly 2) (\<lambda>y. rbind (atom_addr ly 3) (\<lambda>z. Ok (x, y, z)))))
    = Ok (Some 0x100000404, Some 0x100000400, None)" by code_simp
  obtain secs where s: "?secs = Ok secs" "length secs = 2" "map os_segment secs = [TEXT, DATA]"
    using 1 by (cases ?secs) auto
  have "PAGEZERO \<notin> set [TEXT, DATA]" by code_simp
  then have nz: "\<forall>s \<in> set secs. os_segment s \<noteq> PAGEZERO" unfolding s(3) [symmetric] by (metis imageI list.set_map)
  obtain ly where "?ly = Ok ly" "atom_addr ly 1 = Ok (Some 0x100000404)" "atom_addr ly 2 = Ok (Some 0x100000400)" "atom_addr ly 3 = Ok None"
    using 2 by (auto simp: rbind_Ok_iff)
  then show thesis using that s nz by simp
qed

end
