(* ===== verification/Layout_Placement.thy ===== *)
theory Layout_Placement
  imports Layout_Build
begin

text \<open>
  The properties of a finished layout: sections and segments, atom addresses, and the agreement of
  file offsets with addresses.
\<close>

section \<open>Section order\<close>










section \<open>File offsets and addresses\<close>




section \<open>Properties\<close>

text \<open>
  C21: a finished layout is sound. Every section lies inside the segment it names, at an address (and, when it has
  file content, a file offset) of its alignment; no two sections overlap in memory or in the file; the
  segments follow each other without overlap, each page aligned. The conditions: fewer than 2 ^ 32
  sections, and none that names the page-zero segment.
\<close>

theorem layout_addresses_sound:
  assumes "build_with_synthetics_and_extra_filtered kind inputs tb hs synthetics live extras split_after = Ok ly"
    and "build_sections kind inputs tb synthetics live extras split_after = Ok secs"
    and "length secs \<le> 2 ^ 32" and "\<forall>s \<in> set secs. os_segment s \<noteq> PAGEZERO"
  shows "addresses_sound ly"
proof -
  let ?ly = "\<lparr>ly_kind = kind, ly_segments = build_segments kind secs, ly_sections = secs\<rparr>"
  have asg: "assign_addresses hs ?ly = Ok ly"
    using assms(1) unfolding build_with_synthetics_and_extra_filtered_def assms(2) by simp
  have "PAGEZERO \<notin> os_segment ` set secs" using assms(4) by (metis imageE)
  then show ?thesis by (intro assign_addresses_sound [OF asg]) (use assms(3,4) in \<open>simp_all add: build_segments_formed\<close>)
qed

theorem layout_addresses_sound_witness:
  "\<exists>ly. build_with_synthetics_and_extra_filtered Executable sample_inputs sample_table 0x400 None (Some {1, 2, 4}) [] [] = Ok ly
     \<and> addresses_sound ly"
  by (rule sample_layout) (metis layout_addresses_sound)

text \<open>
  C20: every live atom gets an address. It is aligned as the atom asks, the atom's bytes lie inside an output
  section, the bytes of two live atoms never overlap, and an atom that is not live has no address. The
  sections of the synthetic plan and the extra sections hold no atoms of their own.
\<close>

theorem layout_places_atoms:
  assumes "build_with_synthetics_and_extra_filtered kind inputs tb hs synthetics live extras split_after = Ok ly"
    and "build_sections kind inputs tb synthetics live extras split_after = Ok secs"
    and "length (tb_atoms tb) < 2 ^ 32" and "length secs \<le> 2 ^ 32"
    and "\<forall>ys. synthetics = Some ys \<longrightarrow> (\<forall>y \<in> set ys. os_atoms y = [])" and "\<forall>e \<in> set extras. os_atoms (ex_section e) = []"
    and "\<forall>s \<in> set secs. os_segment s \<noteq> PAGEZERO"
  shows "(\<forall>(i, a) \<in> set (atoms_iter tb).
       if is_live live i
       then \<exists>x. atom_addr ly i = Ok (Some x) \<and> pow2 (at_align_pow2 a) dvd unat x
              \<and> (\<exists>s \<in> set (ly_sections ly). addr_of s \<le> unat x \<and> unat x + unat (at_size a) \<le> addr_of s + size_of s)
       else atom_addr ly i = Ok None)
    \<and> (\<forall>(i, a) \<in> set (atoms_iter tb). \<forall>(j, b) \<in> set (atoms_iter tb). \<forall>x y.
         i \<noteq> j \<longrightarrow> atom_addr ly i = Ok (Some x) \<longrightarrow> atom_addr ly j = Ok (Some y) \<longrightarrow>
         unat x + unat (at_size a) \<le> unat y \<or> unat y + unat (at_size b) \<le> unat x)"
proof -
  note P = build_parts [OF assms]
  have strict: "list_all (strict_enough tb) (ly_sections ly)" using P(3) by (simp add: holds_def)
  note get = atoms_iter_get [OF assms(3)]
  have found: "\<exists>s p. find_placed ly i = Some (s, p) \<and> unat (oa_size p) = unat (at_size a)
      \<and> atom_addr ly i = Ok (Some (os_addr s + oa_offset p)) \<and> unat (os_addr s + oa_offset p) = addr_of s + unat (oa_offset p)
      \<and> atom_end p \<le> size_of s \<and> pow2 (at_align_pow2 a) dvd addr_of s + unat (oa_offset p)"
    if "(i, a) \<in> set (atoms_iter tb)" "is_live live i" for i a
  proof (rule live_found [OF P(3) assms(3) that])
    fix s p assume f: "find_placed ly i = Some (s, p)" and sz: "unat (oa_size p) = unat (at_size a)"
    have "get_atom tb i = (Ok a :: atom checked)" using get that(1) by auto
    then show ?thesis using f sz placed_address [OF P(1,2) strict f] by blast
  qed
  have live: "is_live live i" if "atom_addr ly i = Ok (Some x)" for i x
    using dead_not_found [OF P(3), of i] that by auto
  have placed: "if is_live live i
       then \<exists>x. atom_addr ly i = Ok (Some x) \<and> pow2 (at_align_pow2 a) dvd unat x
              \<and> (\<exists>s \<in> set (ly_sections ly). addr_of s \<le> unat x \<and> unat x + unat (at_size a) \<le> addr_of s + size_of s)
       else atom_addr ly i = Ok None" if i: "(i, a) \<in> set (atoms_iter tb)" for i a
  proof (cases "is_live live i")
    case True
    obtain s p where sp: "find_placed ly i = Some (s, p)" "unat (oa_size p) = unat (at_size a)"
      "atom_addr ly i = Ok (Some (os_addr s + oa_offset p))" "unat (os_addr s + oa_offset p) = addr_of s + unat (oa_offset p)"
      "atom_end p \<le> size_of s" "pow2 (at_align_pow2 a) dvd addr_of s + unat (oa_offset p)"
      using found [OF i True] by blast
    moreover from sp(1) have "s \<in> set (ly_sections ly)" using find_placed_Some by blast
    ultimately show ?thesis using True by (auto intro!: bexI [of _ s])
  next
    case False
    then show ?thesis using dead_not_found [OF P(3), of i] by simp
  qed
  have apart: "unat x + unat (at_size a) \<le> unat y \<or> unat y + unat (at_size b) \<le> unat x"
    if h: "(i, a) \<in> set (atoms_iter tb)" "(j, b) \<in> set (atoms_iter tb)" "i \<noteq> j" "atom_addr ly i = Ok (Some x)" "atom_addr ly j = Ok (Some y)"
    for i a j b x y
  proof -
    obtain s p where s: "find_placed ly i = Some (s, p)" "unat (oa_size p) = unat (at_size a)" "unat x = addr_of s + unat (oa_offset p)"
      using found [OF h(1) live [OF h(4)]] h(4) by auto
    obtain t q where t: "find_placed ly j = Some (t, q)" "unat (oa_size q) = unat (at_size b)" "unat y = addr_of t + unat (oa_offset q)"
      using found [OF h(2) live [OF h(5)]] h(5) by auto
    have "s \<in> set (ly_sections ly)" "p \<in> set (os_atoms s)" "t \<in> set (ly_sections ly)" "q \<in> set (os_atoms t)" "p \<noteq> q"
      using find_placed_Some [OF s(1)] find_placed_Some [OF t(1)] h(3) by auto
    from placed_disjoint [OF P(1,2) this] show ?thesis using s(2,3) t(2,3) by linarith
  qed
  show ?thesis by (intro conjI ballI case_prodI2 allI impI) (hypsubst, (rule placed | rule apart); assumption)+
qed

theorem layout_places_atoms_witness:
  "\<exists>ly. build_with_synthetics_and_extra_filtered Executable sample_inputs sample_table 0x400 None (Some {1, 2, 4}) [] [] = Ok ly
     \<and> atom_addr ly 2 = Ok (Some 0x100000400) \<and> atom_addr ly 1 = Ok (Some 0x100000404) \<and> atom_addr ly 3 = Ok None
     \<and> (\<exists>x. atom_addr ly 4 = Ok (Some x) \<and> 16 dvd unat x)"
proof (rule sample_layout)
  fix secs ly
  assume a: "build_sections Executable sample_inputs sample_table None (Some {1, 2, 4}) [] [] = Ok secs"
    and b: "build_with_synthetics_and_extra_filtered Executable sample_inputs sample_table 0x400 None (Some {1, 2, 4}) [] [] = Ok ly"
    and c: "length secs \<le> 2 ^ 32" "\<forall>s \<in> set secs. os_segment s \<noteq> PAGEZERO"
    and d: "atom_addr ly 1 = Ok (Some 0x100000404)" "atom_addr ly 2 = Ok (Some 0x100000400)" "atom_addr ly 3 = Ok None"
  have small: "length (tb_atoms sample_table) < 2 ^ 32" by (simp add: sample_table_def)
  note T = layout_places_atoms [OF b a small c(1) _ _ c(2), THEN conjunct1]
  have four: "(4, tb_atoms sample_table ! 3) \<in> set (atoms_iter sample_table)" and al: "at_align_pow2 (tb_atoms sample_table ! 3) = 4"
    by (code_simp, code_simp)
  have "\<exists>x. atom_addr ly 4 = Ok (Some x) \<and> pow2 (at_align_pow2 (tb_atoms sample_table ! 3)) dvd unat x"
    using bspec [OF T four] by (auto simp: is_live_def)
  then show ?thesis using b d unfolding al by (auto simp: pow2_def)
qed




text \<open>
  Three sections: text, sixteen KiB of zero-fill data, and a section of a segment of its own that asks
  for an alignment of 2 ^ 15, twice the page.
\<close>

definition plain_section :: "str \<Rightarrow> section_kind \<Rightarrow> u8 \<Rightarrow> u64 \<Rightarrow> output_section" where
  "plain_section segment kind align sz =
     \<lparr>os_segment = segment, os_name = [], os_kind = kind, os_align_pow2 = align, os_flags = 0, os_reserved1 = 0,
      os_reserved2 = 0, os_reserved3 = 0, os_atoms = [], os_synthetic_offset = 0, os_synthetic_data = [], os_addr = 0,
      os_size = sz, os_file_off = 0\<rparr>"

definition overaligned_sections :: "output_section list" where
  "overaligned_sections = [plain_section TEXT KText 2 0x100, plain_section DATA KZeroFill 0 0x4000, plain_section [65] KData 15 8]"

text \<open>
  Above the page alignment the two distances drift apart: the section at distance 0 from its segment in
  memory is at distance 0x4000 in the file, because a segment's own start is only page aligned.
\<close>

theorem overaligned_section_drifts:
  "rmap (\<lambda>ly. (os_addr (ly_sections ly ! 2) - og_vm_addr (ly_segments ly ! 3), os_file_off (ly_sections ly ! 2) - og_file_off (ly_segments ly ! 3)))
     (assign_addresses 0x400 \<lparr>ly_kind = Executable, ly_segments = build_segments Executable overaligned_sections,
        ly_sections = overaligned_sections\<rparr>) = Ok (0, 0x4000)"
  by code_simp

end
