(* ===== verification/Visibility.thy ===== *)
theory Visibility
  imports Prelude
begin

text \<open>
  Symbol visibility of \<^verbatim>\<open>src/symbol_visibility.rs\<close>: the export policy and its wildcard matcher. The
  matcher is a loop over two indices with one remembered star; it is shown to return on every input and
  to agree with the recursive definition of wildcard matching. The pattern files are read elsewhere;
  their patterns are arguments.
\<close>

section \<open>Model\<close>

abbreviation (input) STAR :: u8 where "STAR \<equiv> 0x2A"
abbreviation (input) QMARK :: u8 where "QMARK \<equiv> 0x3F"

text \<open>The first loop ends with \<open>None\<close> at the early \<^verbatim>\<open>return false\<close>, else with the final \<open>p\<close>.\<close>

partial_function (option) wildcard_loop ::
  "str \<Rightarrow> str \<Rightarrow> nat \<Rightarrow> nat \<Rightarrow> nat option \<Rightarrow> nat \<Rightarrow> nat option option" where
  "wildcard_loop pattern val p v star backtrack =
     (if v < length val then
        if p < length pattern \<and> (pattern ! p = QMARK \<or> pattern ! p = val ! v)
        then wildcard_loop pattern val (p + 1) (v + 1) star backtrack
        else if p < length pattern \<and> pattern ! p = STAR
        then wildcard_loop pattern val (p + 1) v (Some p) v
        else
          (case star of
             Some star_idx \<Rightarrow> wildcard_loop pattern val (star_idx + 1) (backtrack + 1) star (backtrack + 1)
           | None \<Rightarrow> Some None)
      else Some (Some p))"

definition skip_stars :: "str \<Rightarrow> nat \<Rightarrow> nat" where
  "skip_stars pattern p = p + length (takeWhile (\<lambda>c. c = STAR) (drop p pattern))"

definition wildcard_matches :: "str \<Rightarrow> str \<Rightarrow> bool option" where
  "wildcard_matches pattern val =
     map_option (\<lambda>r. case r of None \<Rightarrow> False | Some p \<Rightarrow> skip_stars pattern p = length pattern)
       (wildcard_loop pattern val 0 0 None 0)"

record symbol_visibility_policy =
  vp_exported :: "str list"
  vp_unexported :: "str list"

definition policy_from_opts :: "str list \<Rightarrow> str list \<Rightarrow> str list list \<Rightarrow> str list list \<Rightarrow> symbol_visibility_policy" where
  "policy_from_opts exported unexported exported_lists unexported_lists =
     \<lparr>vp_exported = exported @ concat exported_lists, vp_unexported = unexported @ concat unexported_lists\<rparr>"

definition matches :: "str \<Rightarrow> str list \<Rightarrow> bool" where
  "matches nm patterns \<longleftrightarrow> (\<exists>pattern \<in> set patterns. wildcard_matches pattern nm = Some True)"

definition hides :: "symbol_visibility_policy \<Rightarrow> str \<Rightarrow> bool" where
  "hides pol nm \<longleftrightarrow>
     (if vp_exported pol \<noteq> [] \<and> \<not> matches nm (vp_exported pol) then True
      else matches nm (vp_unexported pol))"

section \<open>Wildcard matching\<close>

fun glob :: "str \<Rightarrow> str \<Rightarrow> bool" where
  "glob [] [] \<longleftrightarrow> True"
| "glob [] (v # vs) \<longleftrightarrow> False"
| "glob (p # ps) [] \<longleftrightarrow> p = STAR \<and> glob ps []"
| "glob (p # ps) (v # vs) \<longleftrightarrow>
     (if p = STAR then glob ps (v # vs) \<or> glob (p # ps) vs else (p = QMARK \<or> p = v) \<and> glob ps vs)"

lemma glob_empty: "glob ps [] \<longleftrightarrow> (\<forall>p \<in> set ps. p = STAR)"
  by (induction ps) auto

lemma glob_star: "glob (STAR # ps) vs \<longleftrightarrow> (\<exists>k. glob ps (drop k vs))"
proof (induction vs)
  case Nil
  then show ?case by simp
next
  case (Cons v vs)
  have "(\<exists>k. glob ps (drop k (v # vs))) \<longleftrightarrow> glob ps (v # vs) \<or> (\<exists>k. glob ps (drop k vs))"
    by (metis drop0 drop_Suc_Cons not0_implies_Suc)
  then show ?case using Cons.IH by simp
qed

lemma glob_literal:
  assumes "STAR \<notin> set m" and "glob (m @ ps) vs"
  shows "length m \<le> length vs \<and> glob ps (drop (length m) vs)"
  using assms
proof (induction m arbitrary: vs)
  case (Cons c m)
  then show ?case by (cases vs) auto
qed simp

section \<open>The loop\<close>

text \<open>
  The loop invariant: the literal stretch of the pattern since the star has been compared with the
  value since the backtrack point.
\<close>

definition loop_ok :: "str \<Rightarrow> str \<Rightarrow> nat \<Rightarrow> nat \<Rightarrow> nat option \<Rightarrow> nat \<Rightarrow> bool" where
  "loop_ok pattern val p v star b \<longleftrightarrow> p \<le> length pattern \<and> v \<le> length val \<and> b \<le> v
     \<and> (\<forall>s. star = Some s \<longrightarrow> (\<exists>m. drop (s + 1) pattern = m @ drop p pattern \<and> STAR \<notin> set m \<and> b + length m = v \<and> s + 1 + length m = p))"

text \<open>What the loop has still to decide: match from here, or restart behind the star further on.\<close>

definition still :: "str \<Rightarrow> str \<Rightarrow> nat \<Rightarrow> nat \<Rightarrow> nat option \<Rightarrow> nat \<Rightarrow> bool" where
  "still pattern val p v star b \<longleftrightarrow> glob (drop p pattern) (drop v val)
     \<or> (\<exists>s. star = Some s \<and> (\<exists>k. b < k \<and> glob (drop (s + 1) pattern) (drop k val)))"

definition outcome :: "str \<Rightarrow> nat option option \<Rightarrow> bool option" where
  "outcome pattern r = map_option (\<lambda>r. case r of None \<Rightarrow> False | Some p \<Rightarrow> skip_stars pattern p = length pattern) r"

lemma skip_stars_all: "p \<le> length pattern \<Longrightarrow> skip_stars pattern p = length pattern \<longleftrightarrow> glob (drop p pattern) []"
proof -
  assume "p \<le> length pattern"
  then have "skip_stars pattern p = length pattern \<longleftrightarrow> length (takeWhile (\<lambda>c. c = STAR) (drop p pattern)) = length (drop p pattern)"
    by (auto simp: skip_stars_def)
  also have "\<dots> \<longleftrightarrow> takeWhile (\<lambda>c. c = STAR) (drop p pattern) = drop p pattern"
    by (metis nth_equalityI takeWhile_nth)
  finally show ?thesis by (simp add: glob_empty takeWhile_eq_all_conv)
qed

lemma still_end:
  assumes "loop_ok pattern val p (length val) star b"
  shows "still pattern val p (length val) star b \<longleftrightarrow> glob (drop p pattern) []"
proof
  assume "still pattern val p (length val) star b"
  then show "glob (drop p pattern) []"
    unfolding still_def
  proof (elim disjE exE conjE)
    fix s k assume s: "star = Some s" and k: "b < k" "glob (drop (s + 1) pattern) (drop k val)"
    obtain m where m: "drop (s + 1) pattern = m @ drop p pattern" "STAR \<notin> set m" "b + length m = length val"
      using assms s unfolding loop_ok_def by blast
    have "length m \<le> length (drop k val)" "glob (drop p pattern) (drop (length m) (drop k val))"
      using glob_literal [OF m(2)] k(2) unfolding m(1) by blast+
    then show ?thesis using m(3) k(1) by (cases "length m") simp_all
  qed simp
qed (simp add: still_def)

lemma drop_nth: "i < length xs \<Longrightarrow> drop i xs = xs ! i # drop (i + 1) xs"
  by (simp add: Cons_nth_drop_Suc)

text \<open>The three moves of the loop keep the invariant and the question.\<close>

lemma move_literal:
  assumes "loop_ok pattern val p v star b" and "v < length val" and "p < length pattern" and "pattern ! p \<noteq> STAR"
    and "pattern ! p = QMARK \<or> pattern ! p = val ! v"
  shows "loop_ok pattern val (p + 1) (v + 1) star b" and "still pattern val (p + 1) (v + 1) star b = still pattern val p v star b"
proof -
  show "loop_ok pattern val (p + 1) (v + 1) star b"
    unfolding loop_ok_def
  proof (intro conjI allI impI)
    fix s assume "star = Some s"
    then obtain m where m: "drop (s + 1) pattern = m @ drop p pattern" "STAR \<notin> set m" "b + length m = v" "s + 1 + length m = p"
      using assms(1) unfolding loop_ok_def by blast
    then show "\<exists>m. drop (s + 1) pattern = m @ drop (p + 1) pattern \<and> STAR \<notin> set m \<and> b + length m = v + 1 \<and> s + 1 + length m = p + 1"
      using assms(3,4) drop_nth [OF assms(3)] by (intro exI [of _ "m @ [pattern ! p]"]) auto
  qed (use assms in \<open>auto simp: loop_ok_def\<close>)
  show "still pattern val (p + 1) (v + 1) star b = still pattern val p v star b"
    unfolding still_def drop_nth [OF assms(2)] drop_nth [OF assms(3)] using assms(4,5) by simp
qed

lemma move_star:
  assumes "loop_ok pattern val p v star b" and "p < length pattern" and "pattern ! p = STAR"
  shows "loop_ok pattern val (p + 1) v (Some p) v" and "still pattern val (p + 1) v (Some p) v = still pattern val p v star b"
proof -
  show "loop_ok pattern val (p + 1) v (Some p) v" using assms by (auto simp: loop_ok_def)
  have here: "glob (drop p pattern) (drop v val) \<longleftrightarrow> (\<exists>k. v \<le> k \<and> glob (drop (p + 1) pattern) (drop k val))"
  proof -
    have "glob (drop p pattern) (drop v val) \<longleftrightarrow> (\<exists>j. glob (drop (p + 1) pattern) (drop (v + j) val))"
      unfolding drop_nth [OF assms(2)] assms(3) glob_star by (simp add: add.commute)
    then show ?thesis by (metis le_add1 le_add_diff_inverse)
  qed
  have old: "\<exists>j. v \<le> j \<and> glob (drop (p + 1) pattern) (drop j val)"
    if s: "star = Some s" and k: "b < k" "glob (drop (s + 1) pattern) (drop k val)" for s k
  proof -
    obtain m where m: "drop (s + 1) pattern = m @ drop p pattern" "STAR \<notin> set m" "b + length m = v"
      using assms(1) s unfolding loop_ok_def by blast
    have "glob (drop p pattern) (drop (length m) (drop k val))" using glob_literal [OF m(2)] k(2) unfolding m(1) by blast
    then have "glob (STAR # drop (p + 1) pattern) (drop (length m + k) val)"
      unfolding drop_nth [OF assms(2)] assms(3) by (simp add: add.commute)
    then obtain i where "glob (drop (p + 1) pattern) (drop (i + (length m + k)) val)" unfolding glob_star by (auto simp: add.assoc)
    moreover have "v \<le> i + (length m + k)" using m(3) k(1) by simp
    ultimately show ?thesis by blast
  qed
  have "still pattern val p v star b \<longleftrightarrow> (\<exists>k. v \<le> k \<and> glob (drop (p + 1) pattern) (drop k val))"
    unfolding still_def here using old by blast
  also have "\<dots> \<longleftrightarrow> still pattern val (p + 1) v (Some p) v"
    unfolding still_def by (metis le_neq_implies_less less_imp_le option.inject order_refl)
  finally show "still pattern val (p + 1) v (Some p) v = still pattern val p v star b" by simp
qed

lemma move_back:
  assumes "loop_ok pattern val p v (Some s) b" and "v < length val"
    and "\<not> (p < length pattern \<and> (pattern ! p = QMARK \<or> pattern ! p = val ! v))" and "\<not> (p < length pattern \<and> pattern ! p = STAR)"
  shows "loop_ok pattern val (s + 1) (b + 1) (Some s) (b + 1)" and "still pattern val (s + 1) (b + 1) (Some s) (b + 1) = still pattern val p v (Some s) b"
proof -
  obtain m where m: "drop (s + 1) pattern = m @ drop p pattern" "s + 1 + length m = p" using assms(1) unfolding loop_ok_def by blast
  show "loop_ok pattern val (s + 1) (b + 1) (Some s) (b + 1)" using assms(1,2) m(2) by (auto simp: loop_ok_def)
  have no: "\<not> glob (drop p pattern) (drop v val)"
    using assms(3,4) drop_nth [OF assms(2)] by (cases "p < length pattern") (simp_all add: drop_nth)
  have "still pattern val p v (Some s) b \<longleftrightarrow> (\<exists>k. b < k \<and> glob (drop (s + 1) pattern) (drop k val))"
    unfolding still_def using no by simp
  also have "\<dots> \<longleftrightarrow> glob (drop (s + 1) pattern) (drop (b + 1) val) \<or> (\<exists>k. b + 1 < k \<and> glob (drop (s + 1) pattern) (drop k val))"
    by (metis Suc_eq_plus1 Suc_lessI lessI less_trans)
  finally show "still pattern val (s + 1) (b + 1) (Some s) (b + 1) = still pattern val p v (Some s) b"
    unfolding still_def by simp
qed

lemma wildcard_loop_spec:
  assumes "STAR \<notin> set val" and "loop_ok pattern val p v star b"
  shows "outcome pattern (wildcard_loop pattern val p v star b) = Some (still pattern val p v star b)"
  using assms(2)
proof (induction "(length val - b, length val - v + (length pattern - p))" arbitrary: p v star b
    rule: wf_induct_rule [OF wf_lex_prod [OF wf_less_than wf_less_than]])
  case (1 p v b star)
  note IH = 1(1) and ok = 1(2)
  let ?rest = "wildcard_loop pattern val p v star b"
  show ?case
  proof (cases "v < length val")
    case False
    then have v: "v = length val" using ok by (simp add: loop_ok_def)
    have "?rest = Some (Some p)" using False by (subst wildcard_loop.simps) simp
    then have "outcome pattern ?rest = Some (glob (drop p pattern) [])"
      using skip_stars_all ok by (simp add: outcome_def loop_ok_def)
    then show ?thesis using still_end ok unfolding v by simp
  next
    case v: True
    have bv: "b \<le> v" using ok by (simp add: loop_ok_def)
    consider (lit) "p < length pattern" "pattern ! p = QMARK \<or> pattern ! p = val ! v"
      | (star) "\<not> (p < length pattern \<and> (pattern ! p = QMARK \<or> pattern ! p = val ! v))" "p < length pattern" "pattern ! p = STAR"
      | (other) "\<not> (p < length pattern \<and> (pattern ! p = QMARK \<or> pattern ! p = val ! v))" "\<not> (p < length pattern \<and> pattern ! p = STAR)"
      by blast
    then show ?thesis
    proof cases
      case lit
      have "val ! v \<noteq> STAR" using assms(1) v nth_mem by metis
      then have ns: "pattern ! p \<noteq> STAR" using lit(2) by auto
      note m = move_literal [OF ok v lit(1) ns lit(2)]
      have "outcome pattern (wildcard_loop pattern val (p + 1) (v + 1) star b) = Some (still pattern val (p + 1) (v + 1) star b)"
        using v by (intro IH m(1)) auto
      then show ?thesis unfolding m(2) using lit v by (subst wildcard_loop.simps) simp
    next
      case star
      note m = move_star [OF ok star(2,3)]
      have "outcome pattern (wildcard_loop pattern val (p + 1) v (Some p) v) = Some (still pattern val (p + 1) v (Some p) v)"
        using v bv star(2) by (intro IH m(1)) auto
      then show ?thesis unfolding m(2) using star v by (subst wildcard_loop.simps) simp
    next
      case other
      show ?thesis
      proof (cases star)
        case None
        have "\<not> glob (drop p pattern) (drop v val)"
          using other drop_nth [OF v] by (cases "p < length pattern") (simp_all add: drop_nth)
        then have "\<not> still pattern val p v star b" using None by (simp add: still_def)
        moreover have "?rest = Some None" using other v None by (subst wildcard_loop.simps) auto
        ultimately show ?thesis by (simp add: outcome_def)
      next
        case (Some s)
        note m = move_back [OF ok [unfolded Some] v other]
        have "outcome pattern (wildcard_loop pattern val (s + 1) (b + 1) (Some s) (b + 1)) = Some (still pattern val (s + 1) (b + 1) (Some s) (b + 1))"
          using v bv by (intro IH m(1)) auto
        then show ?thesis unfolding m(2) Some using other v by (subst wildcard_loop.simps) auto
      qed
    qed
  qed
qed

text \<open>
  On every input, a literal star in the name included, the loop returns, and a match it reports is one: from
  where it stands, and from where it would restart, a match of the rest is a match of the whole.
\<close>

definition sound_ok :: "str \<Rightarrow> str \<Rightarrow> nat \<Rightarrow> nat \<Rightarrow> nat option \<Rightarrow> nat \<Rightarrow> bool" where
  "sound_ok pattern val p v star b \<longleftrightarrow> p \<le> length pattern \<and> v \<le> length val \<and> b \<le> v
     \<and> (glob (drop p pattern) (drop v val) \<longrightarrow> glob pattern val)
     \<and> (\<forall>s. star = Some s \<longrightarrow> s < length pattern \<and> (\<forall>k \<ge> b. glob (drop (s + 1) pattern) (drop k val) \<longrightarrow> glob pattern val))"

lemma sound_literal:
  assumes "sound_ok pattern val p v star b" and "v < length val" and "p < length pattern" and "pattern ! p = QMARK \<or> pattern ! p = val ! v"
  shows "sound_ok pattern val (p + 1) (v + 1) star b"
proof -
  have "glob (drop p pattern) (drop v val)" if "glob (drop (p + 1) pattern) (drop (v + 1) val)"
  proof (cases "pattern ! p = STAR")
    case True
    have "glob (STAR # drop (p + 1) pattern) (drop (v + 1) val)" unfolding glob_star using that by (intro exI [of _ 0]) simp
    then show ?thesis unfolding drop_nth [OF assms(2)] drop_nth [OF assms(3)] using True by simp
  next
    case False
    then show ?thesis unfolding drop_nth [OF assms(2)] drop_nth [OF assms(3)] using assms(4) that by simp
  qed
  then show ?thesis using assms(1-3) unfolding sound_ok_def by auto
qed

lemma sound_star:
  assumes "sound_ok pattern val p v star b" and "p < length pattern" and "pattern ! p = STAR"
  shows "sound_ok pattern val (p + 1) v (Some p) v"
proof -
  have "glob pattern val" if "v \<le> k" "glob (drop (p + 1) pattern) (drop k val)" for k
  proof -
    have "glob (STAR # drop (p + 1) pattern) (drop v val)"
      unfolding glob_star using that by (intro exI [of _ "k - v"]) simp
    then show ?thesis using assms(1,3) drop_nth [OF assms(2)] by (simp add: sound_ok_def)
  qed
  then show ?thesis using assms(1,2) unfolding sound_ok_def by auto
qed

lemma wildcard_loop_sound:
  assumes "sound_ok pattern val p v star b"
  shows "\<exists>r. outcome pattern (wildcard_loop pattern val p v star b) = Some r \<and> (r \<longrightarrow> glob pattern val)"
  using assms
proof (induction "(length val - b, length val - v + (length pattern - p))" arbitrary: p v star b
    rule: wf_induct_rule [OF wf_lex_prod [OF wf_less_than wf_less_than]])
  case (1 p v b star)
  note IH = 1(1) and ok = 1(2)
  show ?case
  proof (cases "v < length val")
    case False
    then show ?thesis
      using ok skip_stars_all [of p pattern] by (subst wildcard_loop.simps) (simp add: outcome_def sound_ok_def)
  next
    case v: True
    have bv: "b \<le> v" using ok by (simp add: sound_ok_def)
    show ?thesis
    proof (cases "p < length pattern \<and> (pattern ! p = QMARK \<or> pattern ! p = val ! v)")
      case True
      then have "\<exists>r. outcome pattern (wildcard_loop pattern val (p + 1) (v + 1) star b) = Some r \<and> (r \<longrightarrow> glob pattern val)"
        using v ok by (intro IH sound_literal) auto
      then show ?thesis using True v by (subst wildcard_loop.simps) simp
    next
      case lit: False
      show ?thesis
      proof (cases "p < length pattern \<and> pattern ! p = STAR")
        case True
        then have "\<exists>r. outcome pattern (wildcard_loop pattern val (p + 1) v (Some p) v) = Some r \<and> (r \<longrightarrow> glob pattern val)"
          using v bv ok by (intro IH sound_star) auto
        then show ?thesis using True lit v by (subst wildcard_loop.simps) simp
      next
        case False
        show ?thesis
        proof (cases star)
          case None
          then show ?thesis using False lit v by (subst wildcard_loop.simps) (auto simp: outcome_def)
        next
          case (Some s)
          have "sound_ok pattern val (s + 1) (b + 1) (Some s) (b + 1)" using ok v Some unfolding sound_ok_def
            by (auto dest: Suc_leD spec [of _ "Suc b"])
          then have "\<exists>r. outcome pattern (wildcard_loop pattern val (s + 1) (b + 1) (Some s) (b + 1)) = Some r \<and> (r \<longrightarrow> glob pattern val)"
            using v bv by (intro IH) auto
          then show ?thesis using False lit v Some by (subst wildcard_loop.simps) auto
        qed
      qed
    qed
  qed
qed

text \<open>
  C23: the matcher returns on every pattern and every name; a match it reports is a match by the
  recursive definition of wildcard matching (a star for any bytes, a question mark for one), and on a name without a
  literal star it decides that definition exactly. (On a name with a literal star it can miss a match.)
\<close>

theorem wildcard_matches_glob:
  "\<exists>r. wildcard_matches pattern val = Some r \<and> (r \<longrightarrow> glob pattern val) \<and> (STAR \<notin> set val \<longrightarrow> r = glob pattern val)"
proof -
  have "sound_ok pattern val 0 0 None 0" by (simp add: sound_ok_def)
  from wildcard_loop_sound [OF this] obtain r where r: "wildcard_matches pattern val = Some r" "r \<longrightarrow> glob pattern val"
    unfolding wildcard_matches_def outcome_def by blast
  have "r = glob pattern val" if n: "STAR \<notin> set val"
  proof -
    have "loop_ok pattern val 0 0 None 0" by (simp add: loop_ok_def)
    from wildcard_loop_spec [OF n this] r(1) show ?thesis by (auto simp: wildcard_matches_def outcome_def still_def)
  qed
  then show ?thesis using r by blast
qed

theorem wildcard_matches_glob_witness:
  "wildcard_matches (bstr ''_a*b?c'') (bstr ''_axxbzbyc'') = Some True \<and> wildcard_matches (bstr ''_a?'') (bstr ''*_ab'') = Some False"
proof -
  have "STAR \<notin> set (bstr ''_axxbzbyc'')" "glob (bstr ''_a*b?c'') (bstr ''_axxbzbyc'')" "\<not> glob (bstr ''_a?'') (bstr ''*_ab'')" by code_simp+
  then show ?thesis using wildcard_matches_glob [of "bstr ''_a*b?c''" "bstr ''_axxbzbyc''"] wildcard_matches_glob [of "bstr ''_a?''" "bstr ''*_ab''"] by auto
qed

text \<open>
  On a name with a literal star the two differ: the loop compares bytes for equality before it looks
  for a star in the pattern, takes the pattern's star for a literal one, and misses the match.
\<close>

theorem literal_star_missed:
  "wildcard_matches (bstr ''*a'') (bstr ''*ba'') = Some False \<and> glob (bstr ''*a'') (bstr ''*ba'')"
proof
  have b: "bstr ''*a'' = [STAR, 0x61]" "bstr ''*ba'' = [STAR, 0x62, 0x61]" by code_simp+
  have "wildcard_loop [STAR, 0x61] [STAR, 0x62, 0x61] 0 0 None 0 = Some None"
    by (subst wildcard_loop.simps, simp, subst wildcard_loop.simps, simp)
  then show "wildcard_matches (bstr ''*a'') (bstr ''*ba'') = Some False" unfolding b wildcard_matches_def by simp
  show "glob (bstr ''*a'') (bstr ''*ba'')" by code_simp
qed

end
