(* ===== verification/Live_Graph.thy ===== *)
theory Live_Graph
  imports Unwind_Link Layout Visibility
begin

text \<open>
  The graph of \<^verbatim>\<open>src/why_live.rs\<close>: which symbols and atoms are roots, and which atoms an atom keeps
  alive, through its relocations, its unwind records and its live-support section. A \<^verbatim>\<open>HashMap\<close> from
  an atom to a list is a function that gives the empty list for an absent key; the lists are sorted, so
  the order in which the code's hash sets are walked does not show.
\<close>

section \<open>Names\<close>

definition symbols_iter :: "symbol_table \<Rightarrow> (symbol_id \<times> symbol) list" where
  "symbols_iter t = map (\<lambda>i. (of_nat i, symbols t ! i)) [0..<length (symbols t)]"

definition live_symbol_name :: "symbol_table \<Rightarrow> symbol_id \<Rightarrow> str checked" where
  "live_symbol_name t sid = rbind (get_sym t sid) (\<lambda>s. interner_resolve (interner t) (sym_name s))"

definition resolved_entry :: "symbol_table \<Rightarrow> symbol_id \<times> symbol \<Rightarrow> (str \<times> symbol_id) checked" where
  "resolved_entry t e =
     rbind (interner_resolve (interner t) (sym_name (snd e))) (\<lambda>nm.
     case resolve_chain t (sym_name (snd e)) of
       Ok (resolved_id, _) \<Rightarrow> Ok (nm, resolved_id)
     | Err _ \<Rightarrow> Ok (nm, fst e)
     | Panic \<Rightarrow> Panic)"

definition resolved_symbol_map :: "symbol_table \<Rightarrow> (str \<rightharpoonup> symbol_id) checked" where
  "resolved_symbol_map t = rbind (mapM (resolved_entry t) (symbols_iter t)) (\<lambda>ps. Ok (map_of (rev ps)))"

section \<open>Roots\<close>

datatype root_reason = REntry str | RNoDeadStrip | RExportedDylib

definition is_exported_dylib_symbol :: "output_kind \<Rightarrow> symbol_visibility_policy \<Rightarrow> symbol_table \<Rightarrow> symbol \<Rightarrow> bool checked" where
  "is_exported_dylib_symbol kind pol t s =
     (if kind \<noteq> OutDylib then Ok False
      else
        case (case s of Defined _ _ _ _ _ pe _ \<Rightarrow> Some pe | Absolute _ _ _ _ pe _ \<Rightarrow> Some pe | Alias _ _ _ pe \<Rightarrow> Some pe | _ \<Rightarrow> None) of
          None \<Rightarrow> Ok False
        | Some private_extern \<Rightarrow>
            if private_extern then Ok False
            else rbind (interner_resolve (interner t) (sym_name s)) (\<lambda>nm. Ok (\<not> hides pol nm)))"

definition symbol_no_dead_strip_is_root :: "atom_table \<Rightarrow> atom_id \<Rightarrow> bool checked" where
  "symbol_no_dead_strip_is_root tb aid =
     (if aid = 0 then Ok True else rbind (get_atom tb aid) (\<lambda>a. Ok (\<not> af_has (at_flags a) AF_LIVE_SUPPORT)))"

text \<open>\<^verbatim>\<open>roots.entry(k).or_insert(reason)\<close> on the list of entries.\<close>

definition add_root :: "'k \<Rightarrow> root_reason \<Rightarrow> ('k \<times> root_reason) list \<Rightarrow> ('k \<times> root_reason) list" where
  "add_root k r roots = (if k \<in> set (map fst roots) then roots else roots @ [(k, r)])"

fun foldM :: "('a \<Rightarrow> 's \<Rightarrow> 's checked) \<Rightarrow> 'a list \<Rightarrow> 's \<Rightarrow> 's checked" where
  "foldM f [] s = Ok s"
| "foldM f (x # xs) s = rbind (f x s) (foldM f xs)"

definition symbol_root ::
  "output_kind \<Rightarrow> symbol_visibility_policy \<Rightarrow> atom_table \<Rightarrow> symbol_table \<Rightarrow> symbol_id \<times> symbol
    \<Rightarrow> (symbol_id \<times> root_reason) list \<Rightarrow> (symbol_id \<times> root_reason) list checked" where
  "symbol_root kind pol tb t e roots =
     (case e of (sid, s) \<Rightarrow>
      rbind (case s of Defined _ _ aid _ _ _ nds \<Rightarrow> if nds then symbol_no_dead_strip_is_root tb aid else Ok False
                     | Absolute _ _ _ _ _ nds \<Rightarrow> Ok nds
                     | _ \<Rightarrow> Ok False) (\<lambda>pinned.
      if pinned then Ok (add_root sid RNoDeadStrip roots)
      else
        rbind (is_exported_dylib_symbol kind pol t s) (\<lambda>exported.
        if \<not> exported then Ok roots
        else case s of
          Alias nm _ _ _ \<Rightarrow>
            (case resolve_chain t nm of
               Ok (target_id, target) \<Rightarrow>
                 (case target of
                    Defined _ _ _ _ _ _ _ \<Rightarrow> Ok (add_root target_id RExportedDylib roots)
                  | Absolute _ _ _ _ _ _ \<Rightarrow> Ok (add_root target_id RExportedDylib roots)
                  | _ \<Rightarrow> Ok roots)
             | Err _ \<Rightarrow> Ok roots
             | Panic \<Rightarrow> Panic)
        | _ \<Rightarrow> Ok (add_root sid RExportedDylib roots))))"

definition root_symbols ::
  "output_kind \<Rightarrow> symbol_visibility_policy \<Rightarrow> atom_table \<Rightarrow> symbol_table \<Rightarrow> symbol_id option
    \<Rightarrow> (symbol_id \<times> root_reason) list checked" where
  "root_symbols kind pol tb t entry =
     rbind (case entry of None \<Rightarrow> Ok [] | Some sid \<Rightarrow> rbind (live_symbol_name t sid) (\<lambda>nm. Ok [(sid, REntry nm)]))
       (foldM (symbol_root kind pol tb t) (symbols_iter t))"

definition entry_root :: "symbol_table \<Rightarrow> symbol_id option \<Rightarrow> (atom_id \<times> root_reason) list checked" where
  "entry_root t entry =
     (case entry of
        None \<Rightarrow> Ok []
      | Some sid \<Rightarrow>
          rbind (get_sym t sid) (\<lambda>s.
          case s of
            Defined _ _ aid _ _ _ _ \<Rightarrow>
              if aid \<noteq> 0 then rbind (live_symbol_name t sid) (\<lambda>nm. Ok [(aid, REntry nm)]) else Ok []
          | _ \<Rightarrow> Ok []))"

definition atom_root ::
  "output_kind \<Rightarrow> symbol_visibility_policy \<Rightarrow> atom_table \<Rightarrow> symbol_table \<Rightarrow> symbol_id \<times> symbol
    \<Rightarrow> (atom_id \<times> root_reason) list \<Rightarrow> (atom_id \<times> root_reason) list checked" where
  "atom_root kind pol tb t e roots =
     (case snd e of
        Defined _ _ aid _ _ _ nds \<Rightarrow>
          rbind (if nds \<and> aid \<noteq> 0 then symbol_no_dead_strip_is_root tb aid else Ok False) (\<lambda>pinned.
          if pinned then Ok (add_root aid RNoDeadStrip roots)
          else if aid = 0 then Ok roots
          else rbind (is_exported_dylib_symbol kind pol t (snd e)) (\<lambda>exported.
               Ok (if exported then add_root aid RExportedDylib roots else roots)))
      | Alias nm _ _ _ \<Rightarrow>
          rbind (is_exported_dylib_symbol kind pol t (snd e)) (\<lambda>exported.
          if \<not> exported then Ok roots
          else case resolve_chain t nm of
            Ok (_, target) \<Rightarrow>
              (case target of
                 Defined _ _ aid _ _ _ _ \<Rightarrow> Ok (if aid \<noteq> 0 then add_root aid RExportedDylib roots else roots)
               | _ \<Rightarrow> Ok roots)
          | Err _ \<Rightarrow> Ok roots
          | Panic \<Rightarrow> Panic)
      | _ \<Rightarrow> Ok roots)"

definition pinned_atoms :: "atom_table \<Rightarrow> (atom_id \<times> root_reason) list \<Rightarrow> (atom_id \<times> root_reason) list" where
  "pinned_atoms tb roots =
     fold (\<lambda>(aid, a) roots. if af_has (at_flags a) AF_NO_DEAD_STRIP then add_root aid RNoDeadStrip roots else roots) (atoms_iter tb) roots"

definition root_atoms ::
  "output_kind \<Rightarrow> symbol_visibility_policy \<Rightarrow> atom_table \<Rightarrow> symbol_table \<Rightarrow> symbol_id option
    \<Rightarrow> (atom_id \<times> root_reason) list checked" where
  "root_atoms kind pol tb t entry =
     rbind (entry_root t entry) (\<lambda>roots. foldM (atom_root kind pol tb t) (symbols_iter t) (pinned_atoms tb roots))"

section \<open>Offset index\<close>

type_synonym live_index = "input_id \<Rightarrow> u8 \<Rightarrow> section_atom_index option"

fun windows_ordered :: "atom_range list \<Rightarrow> bool" where
  "windows_ordered (a # b # rs) \<longleftrightarrow> ar_start a \<le> ar_start b \<and> ar_end a \<le> ar_start b \<and> windows_ordered (b # rs)"
| "windows_ordered _ \<longleftrightarrow> True"

definition live_index_new :: "atom_table \<Rightarrow> live_index" where
  "live_index_new tb inp sec =
     (let rs = map (\<lambda>(i, a). range_of i a) (filter (\<lambda>(_, a). at_origin a = inp \<and> at_input_section a = sec) (atoms_iter tb))
      in if rs = [] then None else Some \<lparr>sx_atoms = rs, sx_non_overlapping = windows_ordered rs\<rparr>)"

definition scan_ranges :: "atom_range list \<Rightarrow> u32 \<Rightarrow> atom_id option" where
  "scan_ranges rs off =
     (case List.find (\<lambda>r. range_contains r off) rs of
        Some r \<Rightarrow> Some (ar_id r)
      | None \<Rightarrow> map_option ar_id (List.find (\<lambda>r. ar_end r = off) rs))"

definition search_ranges :: "atom_range list \<Rightarrow> u32 \<Rightarrow> atom_id option" where
  "search_ranges rs off =
     (let candidate = partition_point (\<lambda>r. ar_start r \<le> off) rs in
      case (if candidate = 0 then None else lookup_nth rs (candidate - 1)) of
        Some r \<Rightarrow>
          if range_contains r off then Some (ar_id r)
          else (case lookup_nth rs (partition_point (\<lambda>r. ar_end r < off) rs) of
                  Some b \<Rightarrow> if ar_end b = off then Some (ar_id b) else None
                | None \<Rightarrow> None)
      | None \<Rightarrow>
          (case lookup_nth rs (partition_point (\<lambda>r. ar_end r < off) rs) of
             Some b \<Rightarrow> if ar_end b = off then Some (ar_id b) else None
           | None \<Rightarrow> None))"

definition live_find :: "live_index \<Rightarrow> input_id \<Rightarrow> u8 \<Rightarrow> u32 \<Rightarrow> atom_id option" where
  "live_find ix inp sec off =
     (case ix inp sec of
        None \<Rightarrow> None
      | Some s \<Rightarrow> if sx_non_overlapping s then search_ranges (sx_atoms s) off else scan_ranges (sx_atoms s) off)"

definition live_atom_ids :: "live_index \<Rightarrow> input_id \<Rightarrow> u8 \<Rightarrow> atom_id list" where
  "live_atom_ids ix inp sec = (case ix inp sec of None \<Rightarrow> [] | Some s \<Rightarrow> map ar_id (sx_atoms s))"

section \<open>Targets of a relocation\<close>

definition section_referent_atom ::
  "input_id \<Rightarrow> object_file \<Rightarrow> atom \<Rightarrow> reloc \<Rightarrow> u8 \<Rightarrow> live_index \<Rightarrow> atom_id option" where
  "section_referent_atom inp obj source r sec ix =
     (if at_section source \<noteq> ACompactUnwind then None
      else if rel_offset r < at_input_offset source then None
      else
        let field_offset = unat (rel_offset r - at_input_offset source) in
        if length (at_data source) < field_offset + 8 then None
        else
          let target_address = (from_le (take 8 (drop field_offset (at_data source))) :: u64) in
          case lookup_nth (ob_sections obj) (unat (saturating_sub sec 1)) of
            None \<Rightarrow> None
          | Some target_section \<Rightarrow>
              if target_address < is_addr target_section then None
              else if 2 ^ 32 \<le> unat (target_address - is_addr target_section) then None
              else live_find ix inp sec (ucast (target_address - is_addr target_section)))"

definition symbol_referent_atoms ::
  "input_id \<Rightarrow> object_file \<Rightarrow> u32 \<Rightarrow> symbol_table \<Rightarrow> (str \<rightharpoonup> symbol_id) \<Rightarrow> live_index \<Rightarrow> atom_id list checked" where
  "symbol_referent_atoms inp obj symbol_index t names ix =
     (case lookup_nth (ob_symbols obj) (unat symbol_index) of
        None \<Rightarrow> Ok []
      | Some s \<Rightarrow>
          if nlist_kind s = Sect \<and> \<not> participates_in_global_resolution s then
            Ok (case section_for_symbol obj s of
                  None \<Rightarrow> []
                | Some sect \<Rightarrow>
                    if n_value s < is_addr sect then []
                    else if 2 ^ 32 \<le> unat (n_value s - is_addr sect) then []
                    else (case live_find ix inp (n_sect s) (ucast (n_value s - is_addr sect)) of None \<Rightarrow> [] | Some a \<Rightarrow> [a]))
          else
            case Object_File.symbol_name obj s of
              Panic \<Rightarrow> Panic
            | Err _ \<Rightarrow> Ok []
            | Ok nm \<Rightarrow>
                (case names nm of
                   None \<Rightarrow> Ok []
                 | Some sid \<Rightarrow>
                     rbind (get_sym t sid) (\<lambda>x.
                     Ok (case x of Defined _ _ aid _ _ _ _ \<Rightarrow> (if aid \<noteq> 0 then [aid] else []) | _ \<Rightarrow> []))))"

definition referent_atoms ::
  "input_id \<Rightarrow> object_file \<Rightarrow> atom \<Rightarrow> reloc \<Rightarrow> referent \<Rightarrow> symbol_table \<Rightarrow> (str \<rightharpoonup> symbol_id) \<Rightarrow> live_index
    \<Rightarrow> atom_id list checked" where
  "referent_atoms inp obj source r ref t names ix =
     (case ref of
        Symbol symbol_index \<Rightarrow> symbol_referent_atoms inp obj symbol_index t names ix
      | Section sec \<Rightarrow>
          Ok (case section_referent_atom inp obj source r sec ix of
                Some a \<Rightarrow> [a]
              | None \<Rightarrow> live_atom_ids ix inp sec))"

definition sorted_ids :: "u32 list \<Rightarrow> u32 list" where
  "sorted_ids xs = remdups_adj (sort xs)"

definition target_atoms_for_reloc ::
  "input_id \<Rightarrow> object_file \<Rightarrow> atom \<Rightarrow> reloc \<Rightarrow> symbol_table \<Rightarrow> (str \<rightharpoonup> symbol_id) \<Rightarrow> live_index \<Rightarrow> atom_id list checked" where
  "target_atoms_for_reloc inp obj source r t names ix =
     (case (if at_section source = AEhFrame \<and> rel_offset r = saturating_add32 (at_input_offset source) 8
            then at_parent_of source else None) of
        Some parent \<Rightarrow> Ok [parent]
      | None \<Rightarrow>
          rbind (referent_atoms inp obj source r (rel_referent r) t names ix) (\<lambda>out.
          rbind (case rel_subtrahend r of
                   None \<Rightarrow> Ok []
                 | Some s \<Rightarrow> referent_atoms inp obj source r s t names ix) (\<lambda>more.
          Ok (sorted_ids (out @ more)))))"

definition eh_frame_cie_atom :: "live_index \<Rightarrow> atom \<Rightarrow> atom_id option" where
  "eh_frame_cie_atom ix a =
     (if at_section a \<noteq> AEhFrame \<or> length (at_data a) < 8 then None
      else
        let cie_delta = (from_le (take 4 (drop 4 (at_data a))) :: u32) in
        if cie_delta = 0 then None
        else if 2 ^ 32 \<le> unat (at_input_offset a) + 4 then None
        else if at_input_offset a + 4 < cie_delta then None
        else live_find ix (at_origin a) (at_input_section a) (at_input_offset a + 4 - cie_delta))"

definition target_symbols_for_reloc :: "object_file \<Rightarrow> referent \<Rightarrow> (str \<rightharpoonup> symbol_id) \<Rightarrow> symbol_id list option checked" where
  "target_symbols_for_reloc obj ref names =
     (case ref of
        Section _ \<Rightarrow> Ok None
      | Symbol symbol_index \<Rightarrow>
          (case lookup_nth (ob_symbols obj) (unat symbol_index) of
             None \<Rightarrow> Ok None
           | Some s \<Rightarrow>
               if \<not> participates_in_global_resolution s then Ok None
               else case Object_File.symbol_name obj s of
                 Panic \<Rightarrow> Panic
               | Err _ \<Rightarrow> Ok None
               | Ok nm \<Rightarrow> Ok (map_option (\<lambda>sid. [sid]) (names nm))))"

section \<open>Edges\<close>

definition section_relocs :: "layout_input \<Rightarrow> (u8 \<times> reloc) list checked" where
  "section_relocs inp =
     rmap concat (mapM (\<lambda>i.
       let sect = ob_sections (li_object inp) ! i in
       if is_raw_relocs sect = [] then Ok []
       else rbind (fused_relocs sect) (\<lambda>rs. Ok (case rs of None \<Rightarrow> [] | Some rs \<Rightarrow> map (\<lambda>r. (of_nat (i + 1), r)) rs)))
       [0..<length (ob_sections (li_object inp))])"

definition reloc_edges ::
  "atom_table \<Rightarrow> symbol_table \<Rightarrow> (str \<rightharpoonup> symbol_id) \<Rightarrow> live_index \<Rightarrow> layout_input \<Rightarrow> (atom_id \<times> atom_id) list checked" where
  "reloc_edges tb t names ix inp =
     rbind (section_relocs inp) (\<lambda>rs.
     rmap concat (mapM (\<lambda>(sec, r).
       case live_find ix (li_id inp) sec (rel_offset r) of
         None \<Rightarrow> Ok []
       | Some source \<Rightarrow>
           rbind (get_atom tb source) (\<lambda>a.
           rbind (target_atoms_for_reloc (li_id inp) (li_object inp) a r t names ix) (\<lambda>targets.
           Ok (map (Pair source) (filter (\<lambda>x. source \<noteq> x) targets))))) rs))"

definition cie_edges :: "atom_table \<Rightarrow> live_index \<Rightarrow> (atom_id \<times> atom_id) list" where
  "cie_edges tb ix =
     concat (map (\<lambda>(aid, a).
       if at_section a \<noteq> AEhFrame then []
       else case eh_frame_cie_atom ix a of None \<Rightarrow> [] | Some c \<Rightarrow> if aid \<noteq> c then [(aid, c)] else []) (atoms_iter tb))"

definition adjacency :: "(u32 \<times> u32) list \<Rightarrow> u32 \<Rightarrow> u32 list" where
  "adjacency edges k = sorted_ids (map snd (filter (\<lambda>e. fst e = k) edges))"

definition build_forward_edges ::
  "layout_input list \<Rightarrow> atom_table \<Rightarrow> symbol_table \<Rightarrow> (str \<rightharpoonup> symbol_id) \<Rightarrow> (atom_id \<Rightarrow> atom_id list) checked" where
  "build_forward_edges inputs tb t names =
     (let ix = live_index_new tb in
      rbind (mapM (reloc_edges tb t names ix) inputs) (\<lambda>es. Ok (adjacency (concat es @ cie_edges tb ix))))"

definition parent_edges :: "atom_table \<Rightarrow> atom_id \<Rightarrow> atom_id list" where
  "parent_edges tb k = sort (map fst (filter (\<lambda>(_, a). at_parent_of a = Some k) (atoms_iter tb)))"

definition support_edges_of :: "atom_table \<Rightarrow> (atom_id \<Rightarrow> atom_id list) \<Rightarrow> atom_id \<times> atom \<Rightarrow> (atom_id \<times> atom_id) list checked" where
  "support_edges_of tb forward e =
     (case e of (source, a) \<Rightarrow>
      if \<not> af_has (at_flags a) AF_LIVE_SUPPORT then Ok []
      else rmap concat (mapM (\<lambda>target.
        rbind (get_atom tb target) (\<lambda>b. Ok (if af_has (at_flags b) AF_LIVE_SUPPORT then [] else [(target, source)]))) (forward source)))"

definition live_support_edges :: "atom_table \<Rightarrow> (atom_id \<Rightarrow> atom_id list) \<Rightarrow> (atom_id \<Rightarrow> atom_id list) checked" where
  "live_support_edges tb forward =
     rbind (mapM (support_edges_of tb forward) (atoms_iter tb)) (\<lambda>es. Ok (adjacency (concat es)))"

definition atom_symbol_sets :: "atom_table \<Rightarrow> atom_id \<Rightarrow> symbol_id list option" where
  "atom_symbol_sets tb k =
     (case map_of (atoms_iter tb) k of
        None \<Rightarrow> None
      | Some a \<Rightarrow>
          let syms = sorted_ids ((case at_owner a of None \<Rightarrow> [] | Some s \<Rightarrow> [s]) @ map ae_symbol (at_alt_entries a))
          in if syms = [] then None else Some syms)"

definition build_reverse_edges ::
  "layout_input list \<Rightarrow> atom_table \<Rightarrow> (str \<rightharpoonup> symbol_id) \<Rightarrow> (symbol_id \<Rightarrow> symbol_id list) checked" where
  "build_reverse_edges inputs tb names =
     (let ix = live_index_new tb in
      rbind (mapM (\<lambda>inp.
        rbind (section_relocs inp) (\<lambda>rs.
        rmap concat (mapM (\<lambda>(sec, r).
          case live_find ix (li_id inp) sec (rel_offset r) of
            None \<Rightarrow> Ok []
          | Some source_atom \<Rightarrow>
              (case atom_symbol_sets tb source_atom of
                 None \<Rightarrow> Ok []
               | Some sources \<Rightarrow>
                   rbind (target_symbols_for_reloc (li_object inp) (rel_referent r) names) (\<lambda>targets.
                   Ok (case targets of
                         None \<Rightarrow> []
                       | Some ts \<Rightarrow> concat (map (\<lambda>source. map (\<lambda>x. (x, source)) (filter (\<lambda>x. source \<noteq> x) ts)) sources))))) rs))) inputs) (\<lambda>es.
      Ok (adjacency (concat es))))"

section \<open>The binary search agrees with the scan\<close>

text \<open>
  On an ordered section the two binary searches give what the linear scan gives: the atom that contains
  the offset, else the first atom that ends there.
\<close>

lemma windows_ordered_sorted:
  "windows_ordered rs \<Longrightarrow> \<forall>r \<in> set rs. ar_start r \<le> ar_end r \<Longrightarrow>
   sorted_wrt (\<lambda>a b. ar_end a \<le> ar_start b \<and> ar_end a \<le> ar_end b) rs"
proof (induction rs rule: windows_ordered.induct)
  case (1 a b rs)
  have IH: "sorted_wrt (\<lambda>a b. ar_end a \<le> ar_start b \<and> ar_end a \<le> ar_end b) (b # rs)" using 1 by simp
  have ab: "ar_end a \<le> ar_start b" "ar_start b \<le> ar_end b" using 1 by simp_all
  have "\<forall>r \<in> set (b # rs). ar_end a \<le> ar_start r \<and> ar_end a \<le> ar_end r"
    using IH ab by (auto intro: order_trans)
  then show ?case using IH by simp
qed simp_all

lemma find_at:
  assumes "\<And>j. j < length xs \<Longrightarrow> P (xs ! j) \<Longrightarrow> j = i"
  shows "List.find P xs = (if i < length xs \<and> P (xs ! i) then Some (xs ! i) else None)"
proof (cases "i < length xs \<and> P (xs ! i)")
  case True
  then have "\<forall>j < i. \<not> P (xs ! j)" using assms by (metis less_trans nat_neq_iff)
  then show ?thesis using True by (auto simp: find_Some_iff)
next
  case False
  then have "\<forall>x \<in> set xs. \<not> P x" using assms by (auto simp: in_set_conv_nth)
  then show ?thesis using False by (auto simp: find_None_iff)
qed

lemma find_first:
  assumes "\<And>j. j < i \<Longrightarrow> \<not> P (xs ! j)" and "\<And>j. i < j \<Longrightarrow> j < length xs \<Longrightarrow> P (xs ! j) \<Longrightarrow> P (xs ! i)"
  shows "List.find P xs = (if i < length xs \<and> P (xs ! i) then Some (xs ! i) else None)"
proof (cases "i < length xs \<and> P (xs ! i)")
  case True
  then show ?thesis using assms(1) by (auto simp: find_Some_iff)
next
  case False
  have "\<not> P (xs ! j)" if "j < length xs" for j
    using that False assms by (cases j i rule: linorder_cases) auto
  then have "\<forall>x \<in> set xs. \<not> P x" by (auto simp: in_set_conv_nth)
  then show ?thesis using False by (auto simp: find_None_iff)
qed

lemma partition_point_nth:
  shows "i < partition_point p xs \<Longrightarrow> p (xs ! i)"
    and "partition_point p xs < length xs \<Longrightarrow> \<not> p (xs ! partition_point p xs)"
    and "partition_point p xs \<le> length xs"
proof -
  show "i < partition_point p xs \<Longrightarrow> p (xs ! i)"
    unfolding partition_point_def by (metis nth_mem set_takeWhileD takeWhile_nth)
  show "partition_point p xs < length xs \<Longrightarrow> \<not> p (xs ! partition_point p xs)"
    unfolding partition_point_def by (rule nth_length_takeWhile)
  show "partition_point p xs \<le> length xs" unfolding partition_point_def by (rule length_takeWhile_le)
qed

lemma search_ranges_scan:
  assumes "windows_ordered rs" and "\<forall>r \<in> set rs. ar_start r \<le> ar_end r"
  shows "search_ranges rs off = scan_ranges rs off"
proof -
  have so: "ar_end (rs ! i) \<le> ar_start (rs ! j) \<and> ar_end (rs ! i) \<le> ar_end (rs ! j)" if "i < j" "j < length rs" for i j
    using windows_ordered_sorted [OF assms] that by (auto simp: sorted_wrt_iff_nth_less)
  have le: "ar_start (rs ! i) \<le> ar_end (rs ! i)" if "i < length rs" for i using assms(2) that by simp
  let ?c = "partition_point (\<lambda>r. ar_start r \<le> off) rs" and ?b = "partition_point (\<lambda>r. ar_end r < off) rs"
  note c = partition_point_nth [where p = "\<lambda>r. ar_start r \<le> off" and xs = rs] and b = partition_point_nth [where p = "\<lambda>r. ar_end r < off" and xs = rs]
  have "j = ?c - 1" if j: "j < length rs" "range_contains (rs ! j) off" for j
  proof -
    have "ar_start (rs ! j) \<le> off" "off < ar_end (rs ! j)" using j(2) by (simp_all add: range_contains_def)
    have "j < ?c"
    proof (rule ccontr)
      assume n: "\<not> j < ?c"
      then have cl: "?c < length rs" using j(1) by simp
      have "ar_start (rs ! ?c) \<le> ar_start (rs ! j)"
        using n j(1) so [of ?c j] le [OF cl] by (cases "?c = j") (auto intro: order_trans)
      then show False using c(2) [OF cl] \<open>ar_start (rs ! j) \<le> off\<close> by (meson order_trans)
    qed
    moreover have "\<not> j < ?c - 1"
    proof
      assume l: "j < ?c - 1"
      then have "?c - 1 < length rs" using c(3) by simp
      then have "ar_end (rs ! j) \<le> ar_start (rs ! (?c - 1))" using so l by blast
      moreover have "ar_start (rs ! (?c - 1)) \<le> off" using l by (intro c(1)) simp
      ultimately show False using \<open>off < ar_end (rs ! j)\<close> by simp
    qed
    ultimately show ?thesis by simp
  qed
  then have 1: "List.find (\<lambda>r. range_contains r off) rs =
      (if ?c - 1 < length rs \<and> range_contains (rs ! (?c - 1)) off then Some (rs ! (?c - 1)) else None)"
    by (rule find_at)
  have zero: "\<not> range_contains (rs ! 0) off" if "?c = 0" "rs \<noteq> []" using c(2) that by (simp add: range_contains_def)
  have 2: "List.find (\<lambda>r. ar_end r = off) rs = (if ?b < length rs \<and> ar_end (rs ! ?b) = off then Some (rs ! ?b) else None)"
  proof (rule find_first)
    show "ar_end (rs ! j) \<noteq> off" if "j < ?b" for j using b(1) [OF that] by simp
    show "ar_end (rs ! ?b) = off" if "?b < j" "j < length rs" "ar_end (rs ! j) = off" for j
    proof -
      have "ar_end (rs ! ?b) \<le> off" using so [OF that(1,2)] that(3) by simp
      moreover have "\<not> ar_end (rs ! ?b) < off" using that by (intro b(2)) simp
      ultimately show ?thesis by simp
    qed
  qed
  show ?thesis
    unfolding search_ranges_def scan_ranges_def Let_def 1 2 lookup_nth_def using zero by (cases "rs = []") auto
qed

lemma range_of_ordered: "ar_start (range_of i a) \<le> ar_end (range_of i a)"
  by (simp add: range_of_def saturating_add32_ge)

lemma live_find_is_scan:
  "live_find (live_index_new tb) inp sec off =
   scan_ranges (map (\<lambda>(i, a). range_of i a) (filter (\<lambda>(_, a). at_origin a = inp \<and> at_input_section a = sec) (atoms_iter tb))) off"
proof -
  let ?rs = "map (\<lambda>(i, a). range_of i a) (filter (\<lambda>(_, a). at_origin a = inp \<and> at_input_section a = sec) (atoms_iter tb))"
  have "\<forall>r \<in> set ?rs. ar_start r \<le> ar_end r" using range_of_ordered by auto
  then have "windows_ordered ?rs \<longrightarrow> search_ranges ?rs off = scan_ranges ?rs off" using search_ranges_scan by blast
  moreover have "scan_ranges [] off = None" by (simp add: scan_ranges_def)
  ultimately show ?thesis unfolding live_find_def live_index_new_def Let_def by (cases "?rs = []") simp_all
qed

end
