(* ===== verification/Dead_Strip_Exact.thy ===== *)
theory Dead_Strip_Exact
  imports Dead_Strip
begin

text \<open>
  Dead stripping is exact: the marking loop returns, its live set is the set of atoms reachable from the
  roots, every live atom's explanation ends at a root, and the search for a chain of symbols finds one
  exactly when there is one.
\<close>

section \<open>Marking\<close>

definition succ_atoms :: "live_edges \<Rightarrow> atom_id \<Rightarrow> atom_id set" where
  "succ_atoms g a = set (le_parent g a) \<union> set (le_forward g a) \<union> set (le_support g a)"

definition edge_rel :: "live_edges \<Rightarrow> (atom_id \<times> atom_id) set" where
  "edge_rel g = {(a, b). b \<in> succ_atoms g a}"

definition reachable :: "live_edges \<Rightarrow> (atom_id \<times> root_reason) list \<Rightarrow> atom_id set" where
  "reachable g roots = (edge_rel g)\<^sup>* `` (fst ` set roots)"

text \<open>A recorded cause names a root or an edge of the graph.\<close>

fun cause_valid :: "live_edges \<Rightarrow> (atom_id \<times> root_reason) list \<Rightarrow> atom_id \<Rightarrow> live_cause \<Rightarrow> bool" where
  "cause_valid g roots a (CRoot r) \<longleftrightarrow> (a, r) \<in> set roots"
| "cause_valid g roots a (CReferencedBy p) \<longleftrightarrow> a \<in> set (le_forward g p)"
| "cause_valid g roots a (CParentOf p) \<longleftrightarrow> a \<in> set (le_parent g p)"
| "cause_valid g roots a (CRefersToLive p) \<longleftrightarrow> a \<in> set (le_support g p)"

fun cause_source :: "live_cause \<Rightarrow> atom_id option" where
  "cause_source (CRoot r) = None"
| "cause_source (CReferencedBy p) = Some p"
| "cause_source (CParentOf p) = Some p"
| "cause_source (CRefersToLive p) = Some p"

definition ranked :: "marking \<Rightarrow> bool" where
  "ranked m \<longleftrightarrow> (\<exists>rk :: atom_id \<Rightarrow> nat. \<forall>a c p. mk_causes m a = Some c \<longrightarrow> cause_source c = Some p \<longrightarrow> p \<in> mk_live m \<and> rk p < rk a)"

definition good :: "live_edges \<Rightarrow> (atom_id \<times> root_reason) list \<Rightarrow> marking \<Rightarrow> bool" where
  "good g roots m \<longleftrightarrow> dom (mk_causes m) = mk_live m \<and> ranked m \<and> mk_live m \<subseteq> reachable g roots
     \<and> (\<forall>a c. mk_causes m a = Some c \<longrightarrow> cause_valid g roots a c)"

text \<open>What a recorded cause must satisfy to be added.\<close>

definition admissible :: "live_edges \<Rightarrow> (atom_id \<times> root_reason) list \<Rightarrow> marking \<Rightarrow> atom_id \<Rightarrow> live_cause \<Rightarrow> bool" where
  "admissible g roots m a c \<longleftrightarrow> cause_valid g roots a c \<and> (\<forall>p. cause_source c = Some p \<longrightarrow> p \<in> mk_live m)"

lemma cause_edge: "cause_valid g roots a c \<Longrightarrow> cause_source c = Some p \<Longrightarrow> (p, a) \<in> edge_rel g"
  by (cases c) (auto simp: edge_rel_def succ_atoms_def)

lemma cause_root: "cause_valid g roots a c \<Longrightarrow> cause_source c = None \<Longrightarrow> a \<in> fst ` set roots"
  by (cases c) force+

lemma reachable_step: "p \<in> reachable g roots \<Longrightarrow> (p, a) \<in> edge_rel g \<Longrightarrow> a \<in> reachable g roots"
  unfolding reachable_def by (meson Image_iff rtrancl.rtrancl_into_rtrancl)

lemma reachable_root: "a \<in> fst ` set roots \<Longrightarrow> a \<in> reachable g roots"
  unfolding reachable_def by blast

lemma ranked_mark_one:
  assumes "ranked m" and "dom (mk_causes m) = mk_live m" and "a \<notin> mk_live m" and "\<forall>p. cause_source c = Some p \<longrightarrow> p \<in> mk_live m"
  shows "ranked (mark_one a c m)"
proof -
  obtain rk :: "atom_id \<Rightarrow> nat" where rk: "\<And>b d p. mk_causes m b = Some d \<Longrightarrow> cause_source d = Some p \<Longrightarrow> p \<in> mk_live m \<and> rk p < rk b"
    using assms(1) unfolding ranked_def by blast
  define rk' where "rk' = rk(a := Suc (Max (rk ` UNIV)))"
  have top: "rk p < rk' a" for p by (simp add: rk'_def le_imp_less_Suc)
  have same: "rk' p = rk p" if "p \<in> mk_live m" for p using that assms(3) by (auto simp: rk'_def)
  have "p \<in> mk_live (mark_one a c m) \<and> rk' p < rk' b"
    if b: "mk_causes (mark_one a c m) b = Some d" and p: "cause_source d = Some p" for b d p
  proof (cases "b = a")
    case True
    then have "d = c" using b assms(3) by (simp add: mark_one_def)
    then have "p \<in> mk_live m" using assms(4) p by blast
    then show ?thesis using top [of p] same True assms(3) by (simp add: mark_one_def)
  next
    case False
    then have mb: "mk_causes m b = Some d" using b assms(3) by (simp add: mark_one_def)
    then have "b \<in> mk_live m" using assms(2) by auto
    then show ?thesis using rk [OF mb p] same assms(3) by (simp add: mark_one_def)
  qed
  then show ?thesis unfolding ranked_def by blast
qed

lemma good_mark_one:
  assumes "good g roots m" and "admissible g roots m a c"
  shows "good g roots (mark_one a c m)"
proof (cases "a \<in> mk_live m")
  case True
  then show ?thesis using assms(1) by (simp add: mark_one_def)
next
  case False
  have r: "ranked (mark_one a c m)"
    using assms False unfolding good_def admissible_def by (intro ranked_mark_one) blast+
  have "a \<in> reachable g roots"
  proof (cases "cause_source c")
    case None
    then show ?thesis using assms(2) cause_root reachable_root unfolding admissible_def by blast
  next
    case (Some p)
    then have "p \<in> reachable g roots" "(p, a) \<in> edge_rel g"
      using assms cause_edge unfolding admissible_def good_def by blast+
    then show ?thesis by (rule reachable_step)
  qed
  then show ?thesis using r assms False unfolding good_def admissible_def by (auto simp: mark_one_def)
qed

lemma mark_one_simps [simp]:
  "mk_live (mark_one a c m) = insert a (mk_live m)"
  "set (mk_worklist (mark_one a c m)) = set (mk_worklist m) \<union> ({a} - mk_live m)"
  by (auto simp: mark_one_def)

lemma mark_list_spec:
  assumes "good g roots m" and "\<forall>x \<in> set xs. admissible g roots m x c"
  shows "good g roots (mark_list xs c m)"
    and "mk_live (mark_list xs c m) = mk_live m \<union> set xs"
    and "set (mk_worklist (mark_list xs c m)) = set (mk_worklist m) \<union> (set xs - mk_live m)"
proof -
  have "good g roots (mark_list xs c m) \<and> mk_live (mark_list xs c m) = mk_live m \<union> set xs
    \<and> set (mk_worklist (mark_list xs c m)) = set (mk_worklist m) \<union> (set xs - mk_live m)"
    using assms
  proof (induction xs arbitrary: m)
    case Nil
    then show ?case by (simp add: mark_list_def)
  next
    case (Cons x xs)
    have g: "good g roots (mark_one x c m)" using Cons.prems by (intro good_mark_one) simp_all
    have "\<forall>y \<in> set xs. admissible g roots (mark_one x c m) y c" using Cons.prems(2) by (simp add: admissible_def)
    from Cons.IH [OF g this] show ?case by (auto simp: mark_list_def)
  qed
  then show "good g roots (mark_list xs c m)" "mk_live (mark_list xs c m) = mk_live m \<union> set xs"
    "set (mk_worklist (mark_list xs c m)) = set (mk_worklist m) \<union> (set xs - mk_live m)" by blast+
qed

lemma visit_spec:
  assumes "good g roots m" and "a \<in> mk_live m"
  shows "good g roots (visit g a m)" and "mk_live (visit g a m) = mk_live m \<union> succ_atoms g a"
    and "set (mk_worklist (visit g a m)) = set (mk_worklist m) \<union> (succ_atoms g a - mk_live m)"
proof -
  define m1 where "m1 = mark_list (le_parent g a) (CParentOf a) m"
  define m2 where "m2 = mark_list (le_forward g a) (CReferencedBy a) m1"
  note s1 = mark_list_spec [OF assms(1), of "le_parent g a" "CParentOf a", folded m1_def]
  have p1: "good g roots m1" "mk_live m1 = mk_live m \<union> set (le_parent g a)"
    "set (mk_worklist m1) = set (mk_worklist m) \<union> (set (le_parent g a) - mk_live m)"
    using s1 assms(2) by (simp_all add: admissible_def)
  note s2 = mark_list_spec [OF p1(1), of "le_forward g a" "CReferencedBy a", folded m2_def]
  have p2: "good g roots m2" "mk_live m2 = mk_live m1 \<union> set (le_forward g a)"
    "set (mk_worklist m2) = set (mk_worklist m1) \<union> (set (le_forward g a) - mk_live m1)"
    using s2 assms(2) p1(2) by (simp_all add: admissible_def)
  have v: "visit g a m = mark_list (le_support g a) (CRefersToLive a) m2" by (simp add: visit_def m1_def m2_def)
  note s3 = mark_list_spec [OF p2(1), of "le_support g a" "CRefersToLive a", folded v]
  show "good g roots (visit g a m)" "mk_live (visit g a m) = mk_live m \<union> succ_atoms g a"
    "set (mk_worklist (visit g a m)) = set (mk_worklist m) \<union> (succ_atoms g a - mk_live m)"
    using s3 assms(2) p1(2,3) p2(2,3) by (auto simp: admissible_def succ_atoms_def)
qed

lemma mark_list_nothing: "set xs \<subseteq> mk_live m \<Longrightarrow> mark_list xs c m = m"
  unfolding mark_list_def by (induction xs) (simp_all add: mark_one_def)

lemma visit_nothing: "succ_atoms g a \<subseteq> mk_live m \<Longrightarrow> visit g a m = m"
  by (simp add: visit_def mark_list_nothing succ_atoms_def)

text \<open>Every live atom that has left the worklist has its successors live.\<close>

definition closed_but :: "live_edges \<Rightarrow> marking \<Rightarrow> bool" where
  "closed_but g m \<longleftrightarrow> set (mk_worklist m) \<subseteq> mk_live m \<and> (\<forall>a \<in> mk_live m - set (mk_worklist m). succ_atoms g a \<subseteq> mk_live m)"

lemma card_shrinks: "A \<subset> B \<Longrightarrow> card (- B) < card (- A :: atom_id set)"
  by (intro psubset_card_mono) auto

lemma mark_loop_returns:
  assumes "good g roots m" and "closed_but g m"
  shows "\<exists>m'. mark_loop g m = Some m' \<and> good g roots m' \<and> closed_but g m' \<and> mk_worklist m' = [] \<and> mk_live m \<subseteq> mk_live m'"
  using assms
proof (induction "(card (- mk_live m), length (mk_worklist m))" arbitrary: m
    rule: wf_induct_rule [OF wf_lex_prod [OF wf_less_than wf_less_than]])
  case (1 m)
  show ?case
  proof (cases "mk_worklist m")
    case Nil
    then have "mark_loop g m = Some m" by (subst mark_loop.simps) simp
    then show ?thesis using 1(2,3) Nil by blast
  next
    case (Cons a rest)
    let ?m = "m\<lparr>mk_worklist := rest\<rparr>" and ?n = "visit g a (m\<lparr>mk_worklist := rest\<rparr>)"
    have gm: "good g roots ?m" using 1(2) by (simp add: good_def ranked_def)
    have al: "a \<in> mk_live ?m" using 1(3) Cons by (simp add: closed_but_def)
    note v = visit_spec [OF gm al]
    have live: "mk_live m \<subseteq> mk_live ?n" unfolding v(2) by auto
    have cl: "closed_but g ?n"
      using 1(3) v(2,3) al unfolding closed_but_def Cons by auto
    have less: "((card (- mk_live ?n), length (mk_worklist ?n)), (card (- mk_live m), length (mk_worklist m))) \<in> less_than <*lex*> less_than"
    proof (cases "mk_live ?n = mk_live m")
      case True
      then have "succ_atoms g a \<subseteq> mk_live m" using v(2) by auto
      then have "?n = ?m" by (intro visit_nothing) simp
      then show ?thesis using Cons True by simp
    next
      case False
      then show ?thesis using live card_shrinks [of "mk_live m" "mk_live ?n"] by auto
    qed
    obtain m' where "mark_loop g ?n = Some m'" "good g roots m'" "closed_but g m'" "mk_worklist m' = []" "mk_live ?n \<subseteq> mk_live m'"
      using 1(1) [OF less v(1) cl] by blast
    moreover have "mark_loop g m = mark_loop g ?n" by (subst mark_loop.simps) (simp add: Cons)
    ultimately show ?thesis using live by auto
  qed
qed

lemma closed_reachable:
  assumes "good g roots m" and "closed_but g m" and "mk_worklist m = []" and "fst ` set roots \<subseteq> mk_live m"
  shows "mk_live m = reachable g roots"
proof
  show "mk_live m \<subseteq> reachable g roots" using assms(1) by (simp add: good_def)
  show "reachable g roots \<subseteq> mk_live m"
  proof
    fix x assume "x \<in> reachable g roots"
    then obtain r where r: "r \<in> fst ` set roots" "(r, x) \<in> (edge_rel g)\<^sup>*" unfolding reachable_def by blast
    from r(2) show "x \<in> mk_live m"
    proof (induction rule: rtrancl_induct)
      case base
      then show ?case using assms(4) r(1) by blast
    next
      case (step y z)
      then show ?case using assms(2,3) by (auto simp: closed_but_def edge_rel_def)
    qed
  qed
qed

lemma mark_roots_spec:
  assumes "set rs \<subseteq> set roots" and "good g roots m" and "set (mk_worklist m) = mk_live m"
  shows "good g roots (mark_roots rs m) \<and> set (mk_worklist (mark_roots rs m)) = mk_live (mark_roots rs m)
    \<and> mk_live (mark_roots rs m) = mk_live m \<union> fst ` set rs"
  using assms
proof (induction rs arbitrary: m)
  case (Cons ar rs)
  obtain a r where ar: "ar = (a, r)" by (cases ar)
  have "good g roots (mark_one a (CRoot r) m)" using Cons.prems by (intro good_mark_one) (simp_all add: admissible_def ar)
  from Cons.IH [OF _ this] Cons.prems show ?case by (auto simp: mark_roots_def ar)
qed (simp add: mark_roots_def)

lemma marking_exact:
  assumes "set rs = set roots"
  obtains m where "mark_loop g (mark_roots rs \<lparr>mk_live = {}, mk_causes = Map.empty, mk_worklist = []\<rparr>) = Some m"
    and "mk_live m = reachable g roots" and "good g roots m"
proof -
  let ?m0 = "\<lparr>mk_live = {}, mk_causes = Map.empty, mk_worklist = []\<rparr> :: marking"
  have g0: "good g roots ?m0" by (simp add: good_def ranked_def)
  have m0: "good g roots (mark_roots rs ?m0)" "set (mk_worklist (mark_roots rs ?m0)) = mk_live (mark_roots rs ?m0)"
    "mk_live (mark_roots rs ?m0) = fst ` set roots"
    using mark_roots_spec [OF _ g0, of rs] assms by simp_all
  then have "closed_but g (mark_roots rs ?m0)" by (simp add: closed_but_def)
  from mark_loop_returns [OF m0(1) this] obtain m where m: "mark_loop g (mark_roots rs ?m0) = Some m" "good g roots m"
    "closed_but g m" "mk_worklist m = []" "fst ` set roots \<subseteq> mk_live m" unfolding m0(3) by blast
  then show thesis using that closed_reachable [OF m(2-5)] by blast
qed

section \<open>Explanations\<close>

fun explains :: "live_edges \<Rightarrow> (atom_id \<times> root_reason) list \<Rightarrow> atom_id \<Rightarrow> live_line list \<Rightarrow> bool" where
  "explains g roots a (LReferenced x p # ls) \<longleftrightarrow> x = a \<and> a \<in> set (le_forward g p) \<and> explains g roots p ls"
| "explains g roots a (LParent x p # ls) \<longleftrightarrow> x = a \<and> a \<in> set (le_parent g p) \<and> explains g roots p ls"
| "explains g roots a (LSupport x p # ls) \<longleftrightarrow> x = a \<and> a \<in> set (le_support g p) \<and> explains g roots p ls"
| "explains g roots a (LRoot x r # ls) \<longleftrightarrow> x = a \<and> (a, r) \<in> set roots \<and> ls = []"
| "explains g roots a _ \<longleftrightarrow> False"

lemma explain_loop_ends:
  assumes "good g roots m" and "a \<in> mk_live m"
  shows "\<exists>ls. explain_loop (mk_causes m) a out = Some (out @ ls) \<and> explains g roots a ls"
proof -
  obtain rk :: "atom_id \<Rightarrow> nat" where rk: "\<And>a c p. mk_causes m a = Some c \<Longrightarrow> cause_source c = Some p \<Longrightarrow> p \<in> mk_live m \<and> rk p < rk a"
    using assms(1) unfolding good_def ranked_def by blast
  show ?thesis
    using assms(2)
  proof (induction "rk a" arbitrary: a out rule: less_induct)
    case less
    have "a \<in> dom (mk_causes m)" using less.prems assms(1) unfolding good_def by simp
    then obtain c where c: "mk_causes m a = Some c" by blast
    have v: "cause_valid g roots a c" using assms(1) c unfolding good_def by blast
    have step: "\<exists>ls. explain_loop (mk_causes m) p out' = Some (out' @ ls) \<and> explains g roots p ls" if "cause_source c = Some p" for p out'
      using less.hyps rk [OF c that] by blast
    show ?case
    proof (cases c)
      case (CRoot r)
      then show ?thesis using v c by (subst explain_loop.simps) (auto intro!: exI [of _ "[LRoot a r]"])
    next
      case (CReferencedBy p)
      obtain ls where "explain_loop (mk_causes m) p (out @ [LReferenced a p]) = Some ((out @ [LReferenced a p]) @ ls)" "explains g roots p ls"
        using step [of p "out @ [LReferenced a p]"] unfolding CReferencedBy cause_source.simps by blast
      then show ?thesis using v c CReferencedBy by (subst explain_loop.simps) (auto intro!: exI [of _ "LReferenced a p # ls"])
    next
      case (CParentOf p)
      obtain ls where "explain_loop (mk_causes m) p (out @ [LParent a p]) = Some ((out @ [LParent a p]) @ ls)" "explains g roots p ls"
        using step [of p "out @ [LParent a p]"] unfolding CParentOf cause_source.simps by blast
      then show ?thesis using v c CParentOf by (subst explain_loop.simps) (auto intro!: exI [of _ "LParent a p # ls"])
    next
      case (CRefersToLive p)
      obtain ls where "explain_loop (mk_causes m) p (out @ [LSupport a p]) = Some ((out @ [LSupport a p]) @ ls)" "explains g roots p ls"
        using step [of p "out @ [LSupport a p]"] unfolding CRefersToLive cause_source.simps by blast
      then show ?thesis using v c CRefersToLive by (subst explain_loop.simps) (auto intro!: exI [of _ "LSupport a p # ls"])
    qed
  qed
qed

section \<open>Chains of symbols\<close>

definition ref_rel :: "(symbol_id \<Rightarrow> symbol_id list) \<Rightarrow> (symbol_id \<times> symbol_id) set" where
  "ref_rel preds = {(p, c). p \<in> set (preds c)}"

fun linked :: "(symbol_id \<Rightarrow> symbol_id list) \<Rightarrow> symbol_id list \<Rightarrow> bool" where
  "linked preds (x # y # ys) \<longleftrightarrow> x \<in> set (preds y) \<and> linked preds (y # ys)"
| "linked preds _ \<longleftrightarrow> True"

text \<open>The back links of a search lead from every symbol seen to the target.\<close>

definition back_links :: "(symbol_id \<Rightarrow> symbol_id list) \<Rightarrow> symbol_id \<Rightarrow> chain_search \<Rightarrow> bool" where
  "back_links preds target s \<longleftrightarrow> target \<in> cs_seen s \<and> dom (cs_next s) = cs_seen s - {target}
     \<and> (\<exists>rk :: symbol_id \<Rightarrow> nat. \<forall>x y. cs_next s x = Some y \<longrightarrow> y \<in> cs_seen s \<and> x \<in> set (preds y) \<and> rk y < rk x)"

lemma back_links_add:
  assumes "back_links preds target s" and "p \<notin> cs_seen s" and "c \<in> cs_seen s" and "p \<in> set (preds c)"
  shows "back_links preds target (s\<lparr>cs_seen := insert p (cs_seen s), cs_next := (cs_next s)(p \<mapsto> c)\<rparr>)" (is "back_links _ _ ?s")
proof -
  obtain rk :: "symbol_id \<Rightarrow> nat" where rk: "\<And>x y. cs_next s x = Some y \<Longrightarrow> y \<in> cs_seen s \<and> x \<in> set (preds y) \<and> rk y < rk x"
    using assms(1) unfolding back_links_def by blast
  define rk' where "rk' = rk(p := Suc (Max (rk ` UNIV)))"
  have top: "rk x < rk' p" for x by (simp add: rk'_def le_imp_less_Suc)
  have same: "rk' x = rk x" if "x \<in> cs_seen s" for x using that assms(2) by (auto simp: rk'_def)
  have "y \<in> cs_seen ?s \<and> x \<in> set (preds y) \<and> rk' y < rk' x" if n: "cs_next ?s x = Some y" for x y
  proof (cases "x = p")
    case True
    then show ?thesis using n assms(3,4) top [of c] same by simp
  next
    case False
    then have x: "cs_next s x = Some y" using n by simp
    then have "x \<in> cs_seen s" using assms(1) unfolding back_links_def by blast
    then show ?thesis using rk [OF x] same by simp
  qed
  then have "\<exists>rk :: symbol_id \<Rightarrow> nat. \<forall>x y. cs_next ?s x = Some y \<longrightarrow> y \<in> cs_seen ?s \<and> x \<in> set (preds y) \<and> rk y < rk x" by blast
  moreover have "dom (cs_next ?s) = cs_seen ?s - {target}" "target \<in> cs_seen ?s"
    using assms(1,2) unfolding back_links_def by auto
  ultimately show ?thesis unfolding back_links_def by blast
qed

lemma back_links_queue [simp]: "back_links preds target (s\<lparr>cs_queue := q\<rparr>) = back_links preds target s"
  by (simp add: back_links_def)

lemma chain_step_spec:
  assumes "back_links preds target s" and "c \<in> cs_seen s" and "set ps \<subseteq> set (preds c)"
  shows "case chain_step roots c ps s of
      Inl (p, s1) \<Rightarrow> p \<in> roots \<and> p \<noteq> target \<and> p \<in> cs_seen s1 \<and> back_links preds target s1
    | Inr s1 \<Rightarrow> back_links preds target s1 \<and> cs_seen s1 = cs_seen s \<union> set ps
        \<and> set (cs_queue s1) = set (cs_queue s) \<union> (set ps - cs_seen s) \<and> (set ps - cs_seen s) \<inter> roots = {}
        \<and> (set ps \<subseteq> cs_seen s \<longrightarrow> s1 = s)"
  using assms
proof (induction ps arbitrary: s)
  case (Cons p ps)
  show ?case
  proof (cases "p \<in> cs_seen s")
    case True
    then show ?thesis using Cons.IH [of s] Cons.prems by (auto split: sum.splits)
  next
    case False
    let ?s = "s\<lparr>cs_seen := insert p (cs_seen s), cs_next := (cs_next s)(p \<mapsto> c)\<rparr>"
    have bl: "back_links preds target ?s" using Cons.prems by (intro back_links_add [OF _ False]) simp_all
    have pt: "p \<noteq> target" using False Cons.prems(1) by (auto simp: back_links_def)
    show ?thesis
    proof (cases "p \<in> roots")
      case True
      then show ?thesis using False bl pt by (simp add: Let_def)
    next
      case nr: False
      let ?s1 = "?s\<lparr>cs_queue := cs_queue ?s @ [p]\<rparr>"
      have "chain_step roots c (p # ps) s = chain_step roots c ps ?s1" using False nr by (simp add: Let_def)
      moreover have "back_links preds target ?s1" using bl by (simp only: back_links_queue)
      ultimately show ?thesis using Cons.IH [of ?s1] Cons.prems(2,3) False nr by (auto split: sum.splits)
    qed
  qed
qed simp

lemma chain_path_spec:
  assumes "back_links preds target s" and "x \<in> cs_seen s" and "x \<noteq> target"
  shows "\<exists>ys. chain_path (cs_next s) target x acc = Some (acc @ ys) \<and> ys \<noteq> [] \<and> last ys = target \<and> linked preds (x # ys)"
proof -
  obtain rk :: "symbol_id \<Rightarrow> nat" where rk: "\<And>x y. cs_next s x = Some y \<Longrightarrow> y \<in> cs_seen s \<and> x \<in> set (preds y) \<and> rk y < rk x"
    using assms(1) unfolding back_links_def by blast
  have dom: "dom (cs_next s) = cs_seen s - {target}" using assms(1) by (simp add: back_links_def)
  show ?thesis
    using assms(2,3)
  proof (induction "rk x" arbitrary: x acc rule: less_induct)
    case less
    have "x \<in> dom (cs_next s)" unfolding dom using less.prems by simp
    then obtain n where n: "cs_next s x = Some n" by blast
    show ?case
    proof (cases "n = target")
      case True
      then show ?thesis using n rk [OF n] by (subst chain_path.simps) (auto intro!: exI [of _ "[n]"])
    next
      case False
      obtain ys where "chain_path (cs_next s) target n (acc @ [n]) = Some ((acc @ [n]) @ ys)" "ys \<noteq> []" "last ys = target" "linked preds (n # ys)"
        using less.hyps [of n "acc @ [n]"] rk [OF n] False by blast
      then show ?thesis using n rk [OF n] False by (subst chain_path.simps) (auto intro!: exI [of _ "n # ys"])
    qed
  qed
qed

definition searching :: "(symbol_id \<Rightarrow> symbol_id list) \<Rightarrow> symbol_id set \<Rightarrow> symbol_id \<Rightarrow> chain_search \<Rightarrow> bool" where
  "searching preds roots target s \<longleftrightarrow> back_links preds target s \<and> set (cs_queue s) \<subseteq> cs_seen s
     \<and> (\<forall>c \<in> cs_seen s - set (cs_queue s). set (preds c) \<subseteq> cs_seen s) \<and> cs_seen s \<inter> roots \<subseteq> {target}"

definition chain_answer :: "(symbol_id \<Rightarrow> symbol_id list) \<Rightarrow> symbol_id set \<Rightarrow> symbol_id \<Rightarrow> symbol_id list option \<Rightarrow> bool" where
  "chain_answer preds roots target r \<longleftrightarrow>
     (case r of
        Some path \<Rightarrow> path \<noteq> [] \<and> hd path \<in> roots \<and> hd path \<noteq> target \<and> last path = target \<and> linked preds path
      | None \<Rightarrow> \<forall>x \<in> roots. x \<noteq> target \<longrightarrow> (x, target) \<notin> (ref_rel preds)\<^sup>*)"

lemma searched_all:
  assumes "searching preds roots target s" and "cs_queue s = []"
  shows "chain_answer preds roots target None"
proof -
  have "x \<in> cs_seen s" if "(x, target) \<in> (ref_rel preds)\<^sup>*" for x
    using that
  proof (induction rule: converse_rtrancl_induct)
    case base
    then show ?case using assms(1) by (simp add: searching_def back_links_def)
  next
    case (step x y)
    then show ?case using assms by (auto simp: searching_def ref_rel_def)
  qed
  then show ?thesis using assms(1) unfolding chain_answer_def searching_def option.case by blast
qed

lemma chain_loop_answers:
  assumes "searching preds roots target s"
  shows "\<exists>r. chain_loop preds roots target s = Some r \<and> chain_answer preds roots target r"
  using assms
proof (induction "(card (- cs_seen s), length (cs_queue s))" arbitrary: s
    rule: wf_induct_rule [OF wf_lex_prod [OF wf_less_than wf_less_than]])
  case (1 s)
  show ?case
  proof (cases "cs_queue s")
    case Nil
    then have "chain_loop preds roots target s = Some None" by (subst chain_loop.simps) simp
    then show ?thesis using searched_all [OF 1(2) Nil] by blast
  next
    case (Cons c rest)
    let ?s = "s\<lparr>cs_queue := rest\<rparr>"
    have bl: "back_links preds target ?s" and cs: "c \<in> cs_seen ?s" using 1(2) Cons by (simp_all add: searching_def)
    note st = chain_step_spec [OF bl cs subset_refl, of roots]
    show ?thesis
    proof (cases "chain_step roots c (preds c) ?s")
      case (Inl ps)
      obtain p s1 where ps: "ps = (p, s1)" by (cases ps)
      have p: "p \<in> roots" "p \<noteq> target" "p \<in> cs_seen s1" "back_links preds target s1" using st unfolding Inl ps by simp_all
      obtain ys where ys: "chain_path (cs_next s1) target p [p] = Some ([p] @ ys)" "ys \<noteq> []" "last ys = target" "linked preds (p # ys)"
        using chain_path_spec [OF p(4,3,2)] by blast
      have "chain_loop preds roots target s = Some (Some (p # ys))" using ys(1) by (subst chain_loop.simps) (simp add: Cons Inl ps)
      then show ?thesis using p ys by (auto simp: chain_answer_def)
    next
      case (Inr s1)
      have n: "back_links preds target s1" "cs_seen s1 = cs_seen s \<union> set (preds c)"
        "set (cs_queue s1) = set rest \<union> (set (preds c) - cs_seen s)" "(set (preds c) - cs_seen s) \<inter> roots = {}"
        "set (preds c) \<subseteq> cs_seen s \<Longrightarrow> s1 = ?s"
        using st unfolding Inr by simp_all
      have se: "searching preds roots target s1"
        using 1(2) n(1,2,3,4) unfolding searching_def Cons by auto
      have less: "((card (- cs_seen s1), length (cs_queue s1)), (card (- cs_seen s), length (cs_queue s))) \<in> less_than <*lex*> less_than"
      proof (cases "set (preds c) \<subseteq> cs_seen s")
        case True
        then show ?thesis using n(5) Cons by simp
      next
        case False
        then show ?thesis using card_shrinks [of "cs_seen s" "cs_seen s1"] n(2) by auto
      qed
      have "chain_loop preds roots target s = chain_loop preds roots target s1" by (subst chain_loop.simps) (simp add: Cons Inr)
      then show ?thesis using 1(1) [OF less se] by simp
    qed
  qed
qed

section \<open>Properties\<close>

text \<open>A sample: a pinned function, its unwind record and an unreferenced atom.\<close>

definition stripped_table :: atom_table where
  "stripped_table = \<lparr>tb_atoms =
     [(record_atom 0 1 AText 0 4 2 [] AF_NO_DEAD_STRIP)\<lparr>at_id := 1\<rparr>,
      (record_atom 0 2 ACompactUnwind 0 32 3 [] 0)\<lparr>at_id := 2, at_parent_of := Some 1\<rparr>,
      (record_atom 0 1 AText 4 4 2 [] 0)\<lparr>at_id := 3\<rparr>]\<rparr>"

lemma stripped_sample:
  obtains g where "root_atoms Executable \<lparr>vp_exported = [], vp_unexported = []\<rparr> stripped_table table_new None = Ok [(1, RNoDeadStrip)]"
    and "resolved_symbol_map table_new = Ok Map.empty" and "live_edges_of [] stripped_table table_new Map.empty = Ok g"
    and "\<And>a. succ_atoms g a = (if a = 1 then {2} else {})"
proof -
  have r: "root_atoms Executable \<lparr>vp_exported = [], vp_unexported = []\<rparr> stripped_table table_new None = Ok [(1, RNoDeadStrip)]" by code_simp
  have n: "resolved_symbol_map table_new = Ok Map.empty" by (simp add: resolved_symbol_map_def symbols_iter_def table_new_def)
  have adj: "adjacency [] = (\<lambda>k. [])" by (simp add: adjacency_def sorted_ids_def fun_eq_iff)
  have f: "build_forward_edges [] stripped_table table_new Map.empty = Ok (\<lambda>k. [])"
  proof -
    have "cie_edges stripped_table (live_index_new stripped_table) = []" by code_simp
    then show ?thesis by (simp add: build_forward_edges_def adj)
  qed
  have sup: "live_support_edges stripped_table (\<lambda>k. []) = Ok (\<lambda>k. [])"
  proof -
    have "mapM (support_edges_of stripped_table (\<lambda>k. [])) (atoms_iter stripped_table) = Ok [[], [], []]" by code_simp
    then show ?thesis by (simp add: live_support_edges_def adj)
  qed
  define g where "g = \<lparr>le_parent = parent_edges stripped_table, le_forward = (\<lambda>k :: atom_id. [] :: atom_id list), le_support = (\<lambda>k :: atom_id. [] :: atom_id list)\<rparr>"
  have g: "live_edges_of [] stripped_table table_new Map.empty = Ok g" by (simp add: live_edges_of_def f sup g_def)
  have it: "map (\<lambda>(i, a). (i, at_parent_of a)) (atoms_iter stripped_table) = [(1, None), (2, Some 1), (3, None)]" by code_simp
  have parents: "map fst (filter (\<lambda>(_, a). at_parent_of a = Some k) xs) = map fst (filter (\<lambda>(_, p). p = Some k) (map (\<lambda>(i, a). (i, at_parent_of a)) xs))"
    for k and xs :: "(atom_id \<times> atom) list" by (induction xs) auto
  have "succ_atoms g a = (if a = 1 then {2} else {})" for a
    unfolding succ_atoms_def g_def parent_edges_def live_edges.simps parents it by simp
  then show thesis using that r n g by blast
qed

text \<open>
  C24: dead stripping is exact. Whenever its inputs are read without a panic the marking loop returns, whatever
  the order in which the roots come out of the hash map, and the live atoms are exactly those reachable
  from a root through unwind parents, relocations and live-support references.
\<close>

theorem dead_strip_exact:
  assumes "dead_strip_build order kind pol inputs tb t entry = Ok res" and "\<forall>xs. set (order xs) = set xs"
  shows "\<exists>an roots names g. res = Some an \<and> root_atoms kind pol tb t entry = Ok roots \<and> resolved_symbol_map t = Ok names
    \<and> live_edges_of inputs tb t names = Ok g \<and> ds_live_atoms an = reachable g roots"
proof -
  obtain names roots g where n: "resolved_symbol_map t = Ok names" "root_atoms kind pol tb t entry = Ok roots" "live_edges_of inputs tb t names = Ok g"
    and res: "res = map_option (\<lambda>m. \<lparr>ds_live_atoms = mk_live m, ds_causes = mk_causes m, ds_resolved_by_name = names,
                          ds_atom_symbols = atom_symbol_sets tb\<rparr>)
           (mark_loop g (mark_roots (order roots) \<lparr>mk_live = {}, mk_causes = Map.empty, mk_worklist = []\<rparr>))"
    using assms(1) by (auto simp: dead_strip_build_def rbind_Ok_iff)
  have "set (order roots) = set roots" using assms(2) by blast
  then obtain m where "mark_loop g (mark_roots (order roots) \<lparr>mk_live = {}, mk_causes = Map.empty, mk_worklist = []\<rparr>) = Some m"
    "mk_live m = reachable g roots" by (rule marking_exact)
  then show ?thesis using n res by simp
qed

theorem dead_strip_exact_witness:
  "\<exists>an. dead_strip_build rev Executable \<lparr>vp_exported = [], vp_unexported = []\<rparr> [] stripped_table table_new None = Ok (Some an)
     \<and> ds_live_atoms an = {1, 2}"
proof (rule stripped_sample)
  let ?b = "dead_strip_build rev Executable \<lparr>vp_exported = [], vp_unexported = []\<rparr> [] stripped_table table_new None"
  fix g assume r: "root_atoms Executable \<lparr>vp_exported = [], vp_unexported = []\<rparr> stripped_table table_new None = Ok [(1, RNoDeadStrip)]"
    and n: "resolved_symbol_map table_new = Ok Map.empty" and g: "live_edges_of [] stripped_table table_new Map.empty = Ok g"
    and e: "\<And>a. succ_atoms g a = (if a = 1 then {2} else {})"
  obtain res where res: "?b = Ok res" unfolding dead_strip_build_def r n g rbind_simps by blast
  have ord: "\<forall>xs :: (atom_id \<times> root_reason) list. set (rev xs) = set xs" by simp
  obtain an where an: "res = Some an" "ds_live_atoms an = reachable g [(1, RNoDeadStrip)]"
    using dead_strip_exact [OF res ord] r n g by auto
  have rel: "edge_rel g = {(1, 2)}" unfolding edge_rel_def e by (auto split: if_splits)
  have "({(1, 2)} :: (atom_id \<times> atom_id) set)\<^sup>* `` {1} = {1, 2}"
    by (auto simp: rtrancl_eq_or_trancl elim: tranclE)
  then have "reachable g [(1, RNoDeadStrip)] = {1, 2}" by (simp add: reachable_def rel)
  then show ?thesis using res an by simp
qed

text \<open>
  The explanation of a live atom always ends. The loop over the recorded causes returns for every live atom;
  each line names an edge of the graph and the last one a root, so the line that says no chain was
  found is never printed.
\<close>

theorem live_explanation_ends:
  assumes "dead_strip_build order kind pol inputs tb t entry = Ok (Some an)" and "\<forall>xs. set (order xs) = set xs"
    and "a \<in> ds_live_atoms an"
  shows "\<exists>roots names g ls. root_atoms kind pol tb t entry = Ok roots \<and> resolved_symbol_map t = Ok names
    \<and> live_edges_of inputs tb t names = Ok g \<and> explain_loop (ds_causes an) a [] = Some ls \<and> explains g roots a ls"
proof -
  obtain names roots g m where n: "resolved_symbol_map t = Ok names" "root_atoms kind pol tb t entry = Ok roots" "live_edges_of inputs tb t names = Ok g"
    and m: "mark_loop g (mark_roots (order roots) \<lparr>mk_live = {}, mk_causes = Map.empty, mk_worklist = []\<rparr>) = Some m"
    and an: "ds_live_atoms an = mk_live m" "ds_causes an = mk_causes m"
    using assms(1) by (auto simp: dead_strip_build_def rbind_Ok_iff)
  have "set (order roots) = set roots" using assms(2) by blast
  then obtain m' where "mark_loop g (mark_roots (order roots) \<lparr>mk_live = {}, mk_causes = Map.empty, mk_worklist = []\<rparr>) = Some m'"
    "good g roots m'" by (rule marking_exact)
  then have "good g roots m" using m by simp
  then show ?thesis using explain_loop_ends [of g roots m a "[]"] assms(3) n an by auto
qed

theorem live_explanation_ends_witness:
  "\<exists>an ls. dead_strip_build rev Executable \<lparr>vp_exported = [], vp_unexported = []\<rparr> [] stripped_table table_new None = Ok (Some an)
     \<and> (\<forall>a \<in> ds_live_atoms an. explain_loop (ds_causes an) a [] \<noteq> None)"
proof (rule stripped_sample)
  let ?b = "dead_strip_build rev Executable \<lparr>vp_exported = [], vp_unexported = []\<rparr> [] stripped_table table_new None"
  fix g assume r: "root_atoms Executable \<lparr>vp_exported = [], vp_unexported = []\<rparr> stripped_table table_new None = Ok [(1, RNoDeadStrip)]"
    and n: "resolved_symbol_map table_new = Ok Map.empty" and g: "live_edges_of [] stripped_table table_new Map.empty = Ok g"
  have ord: "\<forall>xs :: (atom_id \<times> root_reason) list. set (rev xs) = set xs" by simp
  obtain m where "mark_loop g (mark_roots (rev [(1, RNoDeadStrip)]) \<lparr>mk_live = {}, mk_causes = Map.empty, mk_worklist = []\<rparr>) = Some m"
    by (rule marking_exact [of "rev [(1, RNoDeadStrip)]" "[(1, RNoDeadStrip)]" g]) simp_all
  then obtain an where an: "?b = Ok (Some an)" unfolding dead_strip_build_def r n g rbind_simps by simp
  have "explain_loop (ds_causes an) a [] \<noteq> None" if "a \<in> ds_live_atoms an" for a
    using live_explanation_ends [OF an ord that] by auto
  then show ?thesis using an by blast
qed

text \<open>
  The chain search returns on every graph; a path it finds starts at a root other than the target, follows
  references and ends at the target, and it finds none exactly when no other root reaches the target.
\<close>

theorem find_chain_correct:
  "\<exists>r. find_chain preds roots target = Some r \<and> chain_answer preds roots target r"
proof -
  have "searching preds roots target \<lparr>cs_queue = [target], cs_seen = {target}, cs_next = Map.empty\<rparr>"
    by (auto simp: searching_def back_links_def)
  then show ?thesis unfolding find_chain_def by (rule chain_loop_answers)
qed

end
