(* ===== verification/Icf.thy ===== *)
theory Icf
  imports Live_Graph
begin

text \<open>
  Identical code folding of \<^verbatim>\<open>src/icf.rs\<close>: atoms whose address is taken are marked, the remaining
  foldable atoms are put into buckets by content, and every bucket is folded onto one winner, until a
  round changes nothing. The order in which the code's hash map hands out the buckets is an argument
  (\<open>order\<close>). Relocations that do not parse and atoms of an unknown section are reported as errors.
\<close>

abbreviation (input) AF_ADDRESS_TAKEN :: u32 where "AF_ADDRESS_TAKEN \<equiv> 0x20"

section \<open>Offset index\<close>

definition icf_range_cmp :: "atom_range \<Rightarrow> atom_range \<Rightarrow> ordering" where
  "icf_range_cmp a b = then_with (cmp (ar_start a) (ar_start b)) (cmp (ar_end a) (ar_end b))"

definition icf_index_new :: "atom_table \<Rightarrow> live_index" where
  "icf_index_new tb inp sec =
     (let rs = map (\<lambda>(i, a). range_of i a) (filter (\<lambda>(_, a). at_origin a = inp \<and> at_input_section a = sec) (atoms_iter tb));
          s = sort_by icf_range_cmp rs
      in if rs = [] then None else Some \<lparr>sx_atoms = s, sx_non_overlapping = windows_disjoint s\<rparr>)"

definition icf_covers :: "atom_range \<Rightarrow> u32 \<Rightarrow> bool" where
  "icf_covers r off \<longleftrightarrow> range_contains r off \<or> (ar_start r = off \<and> ar_end r = off)"

definition target_or_all :: "live_index \<Rightarrow> input_id \<Rightarrow> u8 \<Rightarrow> u32 \<Rightarrow> atom_id list" where
  "target_or_all ix inp sec off =
     (case ix inp sec of
        None \<Rightarrow> []
      | Some s \<Rightarrow>
          if \<not> sx_non_overlapping s then
            let here = map ar_id (filter (\<lambda>r. icf_covers r off) (sx_atoms s));
                candidates = (if here = [] then map ar_id (filter (\<lambda>r. ar_end r = off) (sx_atoms s)) else here) in
            if candidates = [] then live_atom_ids ix inp sec else candidates
          else
            let candidate = partition_point (\<lambda>r. ar_start r \<le> off) (sx_atoms s);
                hit = (if candidate = 0 then None else lookup_nth (sx_atoms s) (candidate - 1));
                boundary = lookup_nth (sx_atoms s) (partition_point (\<lambda>r. ar_end r < off) (sx_atoms s)) in
            if (case hit of Some r \<Rightarrow> icf_covers r off | None \<Rightarrow> False) then [ar_id (the hit)]
            else if (case boundary of Some r \<Rightarrow> ar_end r = off | None \<Rightarrow> False) then [ar_id (the boundary)]
            else live_atom_ids ix inp sec)"

section \<open>Addresses taken\<close>

definition read_icf_implicit_addend :: "input_section \<Rightarrow> reloc \<Rightarrow> i64 option" where
  "read_icf_implicit_addend src r =
     (let start = unat (rel_offset r); fin = start + byte_width (rel_length r) in
      if length (is_data src) < fin then None
      else case rel_length r of
        Word \<Rightarrow> Some (scast (from_le (take 4 (drop start (is_data src))) :: 32 word))
      | Quad \<Rightarrow> Some (from_le (take 8 (drop start (is_data src))))
      | _ \<Rightarrow> None)"

definition relocation_target_offset :: "u64 \<Rightarrow> input_section \<Rightarrow> reloc \<Rightarrow> u32 option" where
  "relocation_target_offset base src r =
     (case (if rel_kind r \<in> {Unsigned, PointerToGot} then read_icf_implicit_addend src r else Some 0) of
        None \<Rightarrow> None
      | Some implicit \<Rightarrow>
          let off = uint base + sint (rel_addend r) + sint implicit in
          if 0 \<le> off \<and> off < 2 ^ 32 then Some (word_of_int off) else None)"

definition icf_target_atoms ::
  "input_id \<Rightarrow> object_file \<Rightarrow> input_section \<Rightarrow> reloc \<Rightarrow> symbol_table \<Rightarrow> (str \<rightharpoonup> symbol_id) \<Rightarrow> live_index \<Rightarrow> referent
    \<Rightarrow> atom_id list checked" where
  "icf_target_atoms inp obj src r t names ix ref =
     (case ref of
        Symbol sym_idx \<Rightarrow>
          (case lookup_nth (ob_symbols obj) (unat sym_idx) of
             None \<Rightarrow> Ok []
           | Some s \<Rightarrow>
               if nlist_kind s = Sect \<and> \<not> participates_in_global_resolution s then
                 Ok (case section_for_symbol obj s of
                       None \<Rightarrow> []
                     | Some target \<Rightarrow>
                         if n_value s < is_addr target then live_atom_ids ix inp (n_sect s)
                         else
                           let base = n_value s - is_addr target in
                           case (if rel_kind r = Subtractor then (if unat base < 2 ^ 32 then Some (ucast base) else None)
                                 else relocation_target_offset base src r) of
                             Some off \<Rightarrow> target_or_all ix inp (n_sect s) off
                           | None \<Rightarrow> live_atom_ids ix inp (n_sect s))
               else
                 case Object_File.symbol_name obj s of
                   Panic \<Rightarrow> Panic
                 | Err _ \<Rightarrow> Ok []
                 | Ok nm \<Rightarrow>
                     (case names nm of
                        None \<Rightarrow> Ok []
                      | Some sid \<Rightarrow>
                          rbind (get_sym t sid) (\<lambda>x.
                          Ok (case x of Defined _ _ aid _ _ _ _ \<Rightarrow> (if aid \<noteq> 0 then [aid] else []) | _ \<Rightarrow> []))))
      | Section sec \<Rightarrow>
          Ok (if rel_kind r = Subtractor then live_atom_ids ix inp sec
              else case relocation_target_offset 0 src r of
                Some off \<Rightarrow> target_or_all ix inp sec off
              | None \<Rightarrow> live_atom_ids ix inp sec))"

definition marks_address_taken :: "reloc_kind \<Rightarrow> bool" where
  "marks_address_taken k \<longleftrightarrow>
     k \<in> {Unsigned, Subtractor, Page21, PageOff12, PointerToGot, GotLoadPage21, GotLoadPageOff12, TlvpLoadPage21, TlvpLoadPageOff12}"

text \<open>
  Errors. \<open>IcfDiverges\<close> stands for a redirect chain that never ends; it is shown not to occur.
\<close>

datatype icf_error = IcfBadRelocs str read_error | IcfMissingSection atom_id input_id u8 | IcfDiverges

type_synonym 'a icf = "(icf_error, 'a) result"

definition into_icf :: "'a checked \<Rightarrow> 'a icf" where
  "into_icf m = (case m of Ok x \<Rightarrow> Ok x | _ \<Rightarrow> Panic)"

type_synonym reloc_cache_map = "(input_id \<times> u8) \<rightharpoonup> reloc list"

definition reloc_cache :: "layout_input list \<Rightarrow> reloc_cache_map icf" where
  "reloc_cache inputs =
     rbind (mapM (\<lambda>inp.
       rmap concat (mapM (\<lambda>i.
         let sect = ob_sections (li_object inp) ! i in
         if is_raw_relocs sect = [] then Ok []
         else
           rmap_err (IcfBadRelocs (ob_path (li_object inp)))
             (rbind (parse_raw_relocs (is_raw_relocs sect) 0 (is_nreloc sect)) (\<lambda>raws.
              rbind (parse_relocs raws) (\<lambda>rs. Ok [((li_id inp, of_nat (i + 1)), rs)]))))
         [0..<length (ob_sections (li_object inp))])) inputs) (\<lambda>es.
     Ok (map_of (rev (concat es))))"

definition section_address_taken ::
  "symbol_table \<Rightarrow> (str \<rightharpoonup> symbol_id) \<Rightarrow> reloc_cache_map \<Rightarrow> live_index \<Rightarrow> layout_input \<Rightarrow> nat \<Rightarrow> atom_id list checked" where
  "section_address_taken t names cache ix inp i =
     (case cache (li_id inp, of_nat (i + 1)) of
        None \<Rightarrow> Ok []
      | Some rs \<Rightarrow>
          rmap concat (mapM (\<lambda>r.
            if \<not> marks_address_taken (rel_kind r) then Ok []
            else rmap concat (mapM (icf_target_atoms (li_id inp) (li_object inp) (ob_sections (li_object inp) ! i) r t names ix)
                   (rel_referent r # (case rel_subtrahend r of None \<Rightarrow> [] | Some s \<Rightarrow> [s])))) rs))"

fun set_address_taken :: "atom_id list \<Rightarrow> atom_table \<Rightarrow> atom_table checked" where
  "set_address_taken [] tb = Ok tb"
| "set_address_taken (x # xs) tb =
     rbind (update_atom x (\<lambda>a. a\<lparr>at_flags := af_set AF_ADDRESS_TAKEN (at_flags a)\<rparr>) tb) (set_address_taken xs)"

definition mark_address_taken ::
  "layout_input list \<Rightarrow> symbol_table \<Rightarrow> (str \<rightharpoonup> symbol_id) \<Rightarrow> reloc_cache_map \<Rightarrow> atom_table \<Rightarrow> atom_table checked" where
  "mark_address_taken inputs t names cache tb =
     (let ix = icf_index_new tb in
      rbind (mapM (\<lambda>inp. rmap concat (mapM (section_address_taken t names cache ix inp) [0..<length (ob_sections (li_object inp))])) inputs) (\<lambda>xs.
      set_address_taken (concat xs) tb))"

section \<open>Fold keys\<close>

datatype fold_referent =
    FAtom atom_id
  | FAbsolute u64
  | FSymbol symbol_id
  | FLocalSymbol input_id u32
  | FSection input_id u8

record fold_reloc =
  fr_offset :: u32
  fr_kind :: reloc_kind
  fr_length :: reloc_length
  fr_pcrel :: bool
  fr_referent :: fold_referent
  fr_addend :: i64
  fr_subtrahend :: "fold_referent option"

record fold_key =
  fk_output_section :: section_key_rec
  fk_section :: atom_section
  fk_size :: u32
  fk_align_pow2 :: u8
  fk_flags :: u32
  fk_data :: bytes
  fk_relocs :: "fold_reloc list"

partial_function (option) canonical_atom :: "(atom_id \<rightharpoonup> atom_id) \<Rightarrow> atom_id \<Rightarrow> atom_id option" where
  "canonical_atom redirects current =
     (case redirects current of
        None \<Rightarrow> Some current
      | Some n \<Rightarrow> if n = current then Some current else canonical_atom redirects n)"

definition canonical :: "(atom_id \<rightharpoonup> atom_id) \<Rightarrow> atom_id \<Rightarrow> atom_id icf" where
  "canonical redirects a = (case canonical_atom redirects a of Some c \<Rightarrow> Ok c | None \<Rightarrow> Err IcfDiverges)"

definition relocs_for_atom :: "reloc list \<Rightarrow> atom \<Rightarrow> reloc list" where
  "relocs_for_atom rs a =
     filter (\<lambda>r. at_input_offset a \<le> rel_offset r
       \<and> saturating_add32 (rel_offset r) (of_nat (byte_width (rel_length r))) \<le> saturating_add32 (at_input_offset a) (at_size a)) rs"

definition normalize_referent ::
  "input_id \<Rightarrow> object_file \<Rightarrow> symbol_table \<Rightarrow> (str \<rightharpoonup> symbol_id) \<Rightarrow> (atom_id \<rightharpoonup> atom_id) \<Rightarrow> referent \<Rightarrow> fold_referent option icf" where
  "normalize_referent inp obj t names redirects ref =
     (case ref of
        Section sec \<Rightarrow> Ok (Some (FSection inp sec))
      | Symbol sym_idx \<Rightarrow>
          (case lookup_nth (ob_symbols obj) (unat sym_idx) of
             None \<Rightarrow> Ok None
           | Some s \<Rightarrow>
               if \<not> participates_in_global_resolution s then
                 Ok (Some (if nlist_kind s = Abs then FAbsolute (n_value s) else FLocalSymbol inp sym_idx))
               else
                 case Object_File.symbol_name obj s of
                   Panic \<Rightarrow> Panic
                 | Err _ \<Rightarrow> Ok None
                 | Ok nm \<Rightarrow>
                     (case names nm of
                        None \<Rightarrow> Ok None
                      | Some sid \<Rightarrow>
                          rbind (get_sym t sid) (\<lambda>x.
                          case x of
                            Defined _ _ aid _ _ _ _ \<Rightarrow>
                              if aid \<noteq> 0 then rbind (canonical redirects aid) (\<lambda>c. Ok (Some (FAtom c))) else Ok (Some (FSymbol sid))
                          | Absolute _ _ v _ _ _ \<Rightarrow> Ok (Some (FAbsolute v))
                          | _ \<Rightarrow> Ok (Some (FSymbol sid))))))"

definition fold_reloc_of ::
  "input_id \<Rightarrow> object_file \<Rightarrow> symbol_table \<Rightarrow> (str \<rightharpoonup> symbol_id) \<Rightarrow> (atom_id \<rightharpoonup> atom_id) \<Rightarrow> atom \<Rightarrow> reloc \<Rightarrow> fold_reloc option icf" where
  "fold_reloc_of inp obj t names redirects a r =
     rbind (normalize_referent inp obj t names redirects (rel_referent r)) (\<lambda>ref.
     case ref of
       None \<Rightarrow> Ok None
     | Some ref \<Rightarrow>
         rbind (case rel_subtrahend r of
                  None \<Rightarrow> Ok (Some None)
                | Some s \<Rightarrow> rmap (map_option Some) (normalize_referent inp obj t names redirects s)) (\<lambda>sub.
         Ok (map_option (\<lambda>sub. \<lparr>fr_offset = saturating_sub (rel_offset r) (at_input_offset a), fr_kind = rel_kind r,
               fr_length = rel_length r, fr_pcrel = rel_pcrel r, fr_referent = ref, fr_addend = rel_addend r,
               fr_subtrahend = sub\<rparr>) sub)))"

text \<open>Collecting \<^verbatim>\<open>Option\<close>s stops at the first \<open>None\<close>.\<close>

fun collect_options :: "('a \<Rightarrow> 'b option icf) \<Rightarrow> 'a list \<Rightarrow> 'b list option icf" where
  "collect_options f [] = Ok (Some [])"
| "collect_options f (x # xs) =
     rbind (f x) (\<lambda>y. case y of None \<Rightarrow> Ok None | Some y \<Rightarrow> rmap (map_option (Cons y)) (collect_options f xs))"

definition reloc_signature_for_atom ::
  "layout_input list \<Rightarrow> symbol_table \<Rightarrow> (str \<rightharpoonup> symbol_id) \<Rightarrow> (atom_id \<rightharpoonup> atom_id) \<Rightarrow> reloc list \<Rightarrow> atom \<Rightarrow> fold_reloc list option icf" where
  "reloc_signature_for_atom inputs t names redirects rs a =
     (case input_map inputs (at_origin a) of
        None \<Rightarrow> Ok None
      | Some inp \<Rightarrow> collect_options (fold_reloc_of (at_origin a) (li_object inp) t names redirects a) (relocs_for_atom rs a))"

definition fold_key_of :: "atom \<Rightarrow> section_key_rec \<Rightarrow> fold_reloc list \<Rightarrow> fold_key" where
  "fold_key_of a osec rs =
     \<lparr>fk_output_section = osec, fk_section = at_section a, fk_size = at_size a, fk_align_pow2 = at_align_pow2 a,
      fk_flags = at_flags a AND NOT AF_ADDRESS_TAKEN, fk_data = at_data a, fk_relocs = rs\<rparr>"

definition output_section_cache :: "layout_input list \<Rightarrow> (input_id \<times> u8) \<rightharpoonup> section_key_rec" where
  "output_section_cache inputs =
     map_of (rev (concat (map (\<lambda>inp. map (\<lambda>i. ((li_id inp, of_nat (i + 1)), output_section_key (ob_sections (li_object inp) ! i)))
       [0..<length (ob_sections (li_object inp))]) inputs)))"

definition atom_symbols :: "atom \<Rightarrow> symbol_id list" where
  "atom_symbols a = (case at_owner a of None \<Rightarrow> [] | Some s \<Rightarrow> [s]) @ map ae_symbol (at_alt_entries a)"

definition representative_symbol :: "atom \<Rightarrow> symbol_id option" where
  "representative_symbol a =
     (case at_owner a of Some s \<Rightarrow> Some s | None \<Rightarrow> map_option ae_symbol (lookup_nth (at_alt_entries a) 0))"

fun any_exported :: "symbol_table \<Rightarrow> symbol_id list \<Rightarrow> bool icf" where
  "any_exported t [] = Ok False"
| "any_exported t (x # xs) =
     rbind (get_sym t x) (\<lambda>s. if (case s of Defined _ _ _ _ _ pe _ \<Rightarrow> \<not> pe | _ \<Rightarrow> False) then Ok True else any_exported t xs)"

definition is_foldable_atom :: "atom \<Rightarrow> symbol_table \<Rightarrow> bool icf" where
  "is_foldable_atom a t =
     (if at_section a \<notin> {AText, AConstData, ACStringLiterals, ALiteral16} then Ok False
      else if af_has (at_flags a) AF_NO_DEAD_STRIP \<or> af_has (at_flags a) AF_ADDRESS_TAKEN then Ok False
      else rmap Not (any_exported t (atom_symbols a)))"

section \<open>Folding\<close>

definition fold_order_key :: "layout_input list \<Rightarrow> atom \<Rightarrow> atom_id \<Rightarrow> nat \<times> u64 \<times> u32 \<times> u32" where
  "fold_order_key inputs a aid =
     (let (load_order, member) =
        (case input_map inputs (at_origin a) of
           Some inp \<Rightarrow> (li_load_order inp, li_archive_member_offset inp)
         | None \<Rightarrow> (usize_max, None)) in
      (load_order, (case member of Some w \<Rightarrow> w | None \<Rightarrow> 0), at_input_offset a, aid))"

fun fold_key_cmp :: "nat \<times> u64 \<times> u32 \<times> u32 \<Rightarrow> nat \<times> u64 \<times> u32 \<times> u32 \<Rightarrow> ordering" where
  "fold_key_cmp (l1, m1, w1, a1) (l2, m2, w2, a2) =
     then_with (cmp l1 l2) (then_with (cmp m1 m2) (then_with (cmp w1 w2) (cmp a1 a2)))"

text \<open>\<^verbatim>\<open>min_by_key\<close>: the first of the least.\<close>

fun min_by_key :: "('k \<Rightarrow> 'k \<Rightarrow> ordering) \<Rightarrow> ('k \<times> 'a) list \<Rightarrow> 'a option" where
  "min_by_key c [] = None"
| "min_by_key c [(k, x)] = Some x"
| "min_by_key c ((k, x) # (l, y) # zs) = (if c k l = Greater then min_by_key c ((l, y) # zs) else min_by_key c ((k, x) # zs))"

type_synonym buckets = "(fold_key \<times> atom_id list) list"

fun add_bucket :: "fold_key \<Rightarrow> atom_id \<Rightarrow> buckets \<Rightarrow> buckets" where
  "add_bucket k x [] = [(k, [x])]"
| "add_bucket k x ((l, xs) # bs) = (if l = k then (l, xs @ [x]) # bs else (l, xs) # add_bucket k x bs)"

record icf_state =
  ic_kept :: "atom_id set"
  ic_redirects :: "atom_id \<rightharpoonup> atom_id"
  ic_symbols :: symbol_table

text \<open>What does not change during the folding loop.\<close>

record icf_context =
  cx_inputs :: "layout_input list"
  cx_atoms :: atom_table
  cx_names :: "str \<rightharpoonup> symbol_id"
  cx_relocs :: reloc_cache_map
  cx_sections :: "(input_id \<times> u8) \<rightharpoonup> section_key_rec"

definition atom_key_of :: "icf_context \<Rightarrow> icf_state \<Rightarrow> atom_id \<times> atom \<Rightarrow> fold_key option icf" where
  "atom_key_of cx st e =
     (case e of (aid, a) \<Rightarrow>
      if aid \<notin> ic_kept st then Ok None
      else
        rbind (is_foldable_atom a (ic_symbols st)) (\<lambda>foldable.
        if \<not> foldable then Ok None
        else
          rbind (reloc_signature_for_atom (cx_inputs cx) (ic_symbols st) (cx_names cx) (ic_redirects st)
                   (case cx_relocs cx (at_origin a, at_input_section a) of Some rs \<Rightarrow> rs | None \<Rightarrow> []) a) (\<lambda>sig.
          case sig of
            None \<Rightarrow> Ok None
          | Some sig \<Rightarrow>
              (case cx_sections cx (at_origin a, at_input_section a) of
                 None \<Rightarrow> Err (IcfMissingSection aid (at_origin a) (at_input_section a))
               | Some osec \<Rightarrow> Ok (Some (fold_key_of a osec sig))))))"

fun fill_buckets :: "icf_context \<Rightarrow> icf_state \<Rightarrow> (atom_id \<times> atom) list \<Rightarrow> buckets \<Rightarrow> buckets icf" where
  "fill_buckets cx st [] bs = Ok bs"
| "fill_buckets cx st (e # es) bs =
     rbind (atom_key_of cx st e) (\<lambda>k.
     fill_buckets cx st es (case k of None \<Rightarrow> bs | Some k \<Rightarrow> add_bucket k (fst e) bs))"

definition rebind_symbol :: "atom_id \<Rightarrow> symbol_id \<times> u64 \<Rightarrow> symbol_table \<Rightarrow> symbol_table icf" where
  "rebind_symbol winner sv t =
     rbind (get_sym t (fst sv)) (\<lambda>s.
     bind_atom (fst sv) winner (case s of Defined _ _ _ v _ _ _ \<Rightarrow> v | _ \<Rightarrow> snd sv) t)"

fun rebind_all :: "atom_id \<Rightarrow> (symbol_id \<times> u64) list \<Rightarrow> symbol_table \<Rightarrow> symbol_table icf" where
  "rebind_all winner [] t = Ok t"
| "rebind_all winner (x # xs) t = rbind (rebind_symbol winner x t) (rebind_all winner xs)"

definition rebind_folded_symbols :: "atom \<Rightarrow> atom_id \<Rightarrow> symbol_table \<Rightarrow> symbol_table icf" where
  "rebind_folded_symbols a winner t =
     rebind_all winner ((case at_owner a of None \<Rightarrow> [] | Some s \<Rightarrow> [(s, 0)])
       @ map (\<lambda>alt. (ae_symbol alt, ucast (ae_offset_within_atom alt))) (at_alt_entries a)) t"

fun fold_losers :: "atom_table \<Rightarrow> atom_id \<Rightarrow> atom_id list \<Rightarrow> icf_state \<Rightarrow> icf_state icf" where
  "fold_losers tb winner [] st = Ok st"
| "fold_losers tb winner (l # ls) st =
     (if l = winner then fold_losers tb winner ls st
      else
        rbind (get_atom tb l) (\<lambda>a.
        rbind (rebind_folded_symbols a winner (ic_symbols st)) (\<lambda>t.
        fold_losers tb winner ls
          (st\<lparr>ic_redirects := (ic_redirects st)(l \<mapsto> winner), ic_kept := ic_kept st - {l}, ic_symbols := t\<rparr>))))"

definition fold_bucket :: "icf_context \<Rightarrow> atom_id list \<Rightarrow> icf_state \<times> bool \<Rightarrow> (icf_state \<times> bool) icf" where
  "fold_bucket cx ids sb =
     (if length ids < 2 then Ok sb
      else
        rbind (mapM (\<lambda>i. rbind (get_atom (cx_atoms cx) i) (\<lambda>a. Ok (fold_order_key (cx_inputs cx) a i, i))) ids) (\<lambda>kis.
        rbind (expect (min_by_key fold_key_cmp kis)) (\<lambda>winner.
        rbind (fold_losers (cx_atoms cx) winner ids (fst sb)) (\<lambda>st.
        Ok (st, snd sb \<or> (\<exists>l \<in> set ids. l \<noteq> winner))))))"

fun fold_buckets :: "icf_context \<Rightarrow> atom_id list list \<Rightarrow> icf_state \<times> bool \<Rightarrow> (icf_state \<times> bool) icf" where
  "fold_buckets cx [] sb = Ok sb"
| "fold_buckets cx (ids # idss) sb = rbind (fold_bucket cx ids sb) (fold_buckets cx idss)"

definition fold_round :: "(atom_id list list \<Rightarrow> atom_id list list) \<Rightarrow> icf_context \<Rightarrow> icf_state \<Rightarrow> (icf_state \<times> bool) icf" where
  "fold_round order cx st =
     rbind (fill_buckets cx st (atoms_iter (cx_atoms cx)) []) (\<lambda>bs.
     fold_buckets cx (order (map snd bs)) (st, False))"

partial_function (option) fold_loop :: "(atom_id list list \<Rightarrow> atom_id list list) \<Rightarrow> icf_context \<Rightarrow> icf_state \<Rightarrow> icf_state icf option" where
  "fold_loop order cx st =
     (case fold_round order cx st of
        Err e \<Rightarrow> Some (Err e)
      | Panic \<Rightarrow> Some Panic
      | Ok sb \<Rightarrow> if snd sb then fold_loop order cx (fst sb) else Some (Ok (fst sb)))"

definition canonical_update :: "(atom_id \<rightharpoonup> atom_id) \<Rightarrow> symbol_id \<times> symbol \<Rightarrow> (symbol_id \<times> atom_id \<times> u64) list icf" where
  "canonical_update redirects e =
     (case snd e of
        Defined _ _ aid v _ _ _ \<Rightarrow>
          if aid = 0 then Ok []
          else rbind (canonical redirects aid) (\<lambda>c. Ok (if c \<noteq> aid then [(fst e, c, v)] else []))
      | _ \<Rightarrow> Ok [])"

fun apply_updates :: "(symbol_id \<times> atom_id \<times> u64) list \<Rightarrow> symbol_table \<Rightarrow> symbol_table icf" where
  "apply_updates [] t = Ok t"
| "apply_updates ((sid, aid, v) # us) t = rbind (bind_atom sid aid v t) (apply_updates us)"

definition rebind_symbols_to_canonical_winners :: "(atom_id \<rightharpoonup> atom_id) \<Rightarrow> symbol_table \<Rightarrow> symbol_table icf" where
  "rebind_symbols_to_canonical_winners redirects t =
     rbind (mapM (canonical_update redirects) (symbols_iter t)) (\<lambda>us. apply_updates (concat us) t)"

record icf_plan =
  ip_kept_atoms :: "atom_id set"
  ip_redirects :: "atom_id \<rightharpoonup> atom_id"

text \<open>The plan, the marked atom table and the rebound symbol table; the outer \<open>None\<close> is a loop without end.\<close>

definition fold_safe ::
  "(atom_id list list \<Rightarrow> atom_id list list) \<Rightarrow> layout_input list \<Rightarrow> atom_table \<Rightarrow> symbol_table \<Rightarrow> atom_id set option
    \<Rightarrow> (icf_plan \<times> atom_table \<times> symbol_table) icf option" where
  "fold_safe order inputs tb t live =
     (case rbind (into_icf (resolved_symbol_map t)) (\<lambda>names.
           rbind (reloc_cache inputs) (\<lambda>cache.
           rbind (into_icf (mark_address_taken inputs t names cache tb)) (\<lambda>tb1.
           Ok \<lparr>cx_inputs = inputs, cx_atoms = tb1, cx_names = names, cx_relocs = cache, cx_sections = output_section_cache inputs\<rparr>))) of
        Err e \<Rightarrow> Some (Err e)
      | Panic \<Rightarrow> Some Panic
      | Ok cx \<Rightarrow>
          map_option (\<lambda>r.
            rbind r (\<lambda>st.
            rbind (rebind_symbols_to_canonical_winners (ic_redirects st) (ic_symbols st)) (\<lambda>t1.
            Ok (\<lparr>ip_kept_atoms = ic_kept st, ip_redirects = ic_redirects st\<rparr>, cx_atoms cx, t1))))
            (fold_loop order cx
              \<lparr>ic_kept = (case live of Some l \<Rightarrow> l | None \<Rightarrow> set (map fst (atoms_iter (cx_atoms cx)))),
               ic_redirects = Map.empty, ic_symbols = t\<rparr>))"

record folded_symbol =
  fs_name :: str
  fs_winner :: str
  fs_file_index :: nat

definition folded_entry ::
  "symbol_table \<Rightarrow> (input_id \<rightharpoonup> nat) \<Rightarrow> str \<Rightarrow> symbol_id \<Rightarrow> folded_symbol list icf" where
  "folded_entry t file_index winner_name sid =
     rbind (get_sym t sid) (\<lambda>s.
     case s of
       Defined _ orig _ _ _ _ _ \<Rightarrow>
         rbind (into_icf (live_symbol_name t sid)) (\<lambda>nm.
         Ok (if nm = winner_name then []
             else [\<lparr>fs_name = nm, fs_winner = winner_name,
                    fs_file_index = (case file_index orig of Some i \<Rightarrow> i | None \<Rightarrow> 0)\<rparr>]))
     | _ \<Rightarrow> Ok [])"

definition folded_cmp :: "folded_symbol \<Rightarrow> folded_symbol \<Rightarrow> ordering" where
  "folded_cmp a b =
     then_with (cmp_bytes (fs_name a) (fs_name b))
    (then_with (cmp_bytes (fs_winner a) (fs_winner b)) (cmp (fs_file_index a) (fs_file_index b)))"

text \<open>The entries of the redirect map come as a list, in the order of the hash map.\<close>

definition folded_symbols ::
  "icf_plan \<Rightarrow> (atom_id \<times> atom_id) list \<Rightarrow> atom_table \<Rightarrow> symbol_table \<Rightarrow> layout_input list \<Rightarrow> folded_symbol list icf" where
  "folded_symbols plan entries tb t inputs =
     (let file_index = map_of (rev (map (\<lambda>i. (li_id (inputs ! i), i + 1)) [0..<length inputs])) in
      rbind (mapM (\<lambda>(loser, winner).
        rbind (canonical (ip_redirects plan) winner) (\<lambda>c.
        rbind (get_atom tb c) (\<lambda>wa.
        case representative_symbol wa of
          None \<Rightarrow> Ok []
        | Some ws \<Rightarrow>
            rbind (into_icf (live_symbol_name t ws)) (\<lambda>wn.
            rbind (get_atom tb loser) (\<lambda>la.
            rmap concat (mapM (folded_entry t file_index wn) (atom_symbols la))))))) entries) (\<lambda>out.
      Ok (remdups_adj (sort_by folded_cmp (concat out)))))"

end
