(* ===== verification/Icf_Sound.thy ===== *)
theory Icf_Sound
  imports Icf Layout_Build
begin

text \<open>
  Safety of identical code folding: the loop returns, only atoms with equal fold keys are folded, the
  redirects have no cycle and lead to kept atoms, and no symbol is left bound to a folded atom.
\<close>

section \<open>Redirect chains\<close>

definition redirect_rel :: "(atom_id \<rightharpoonup> atom_id) \<Rightarrow> (atom_id \<times> atom_id) set" where
  "redirect_rel rd = {(l, w). rd l = Some w}"

lemma canonical_returns:
  assumes "acyclic (redirect_rel rd)"
  shows "\<exists>c. canonical_atom rd a = Some c \<and> (a, c) \<in> (redirect_rel rd)\<^sup>* \<and> c \<notin> dom rd"
proof (induction a rule: wf_induct_rule [OF finite_acyclic_wf_converse [OF _ assms]])
  case 1
  show "finite (redirect_rel rd)" by simp
next
  case (2 a)
  show ?case
  proof (cases "rd a")
    case None
    then have "canonical_atom rd a = Some a" by (subst canonical_atom.simps) simp
    then show ?thesis using None by blast
  next
    case (Some n)
    then have e: "(a, n) \<in> redirect_rel rd" by (simp add: redirect_rel_def)
    then have "n \<noteq> a" using assms by (auto simp: acyclic_def)
    then have eq: "canonical_atom rd a = canonical_atom rd n" using Some by (subst canonical_atom.simps) simp
    obtain c where "canonical_atom rd n = Some c" "(n, c) \<in> (redirect_rel rd)\<^sup>*" "c \<notin> dom rd" using 2 e by auto
    then show ?thesis using eq e by (auto intro: converse_rtrancl_into_rtrancl)
  qed
qed

section \<open>Buckets\<close>

lemma add_bucket_members:
  "(l, xs) \<in> set (add_bucket k x bs) \<Longrightarrow> i \<in> set xs \<Longrightarrow> (i = x \<and> l = k) \<or> (\<exists>ys. (l, ys) \<in> set bs \<and> i \<in> set ys)"
  by (induction k x bs rule: add_bucket.induct) (auto split: if_splits)

lemma add_bucket_mset: "mset (concat (map snd (add_bucket k x bs))) = add_mset x (mset (concat (map snd bs)))"
  by (induction k x bs rule: add_bucket.induct) auto

definition bucketed :: "icf_context \<Rightarrow> icf_state \<Rightarrow> atom_id set \<Rightarrow> buckets \<Rightarrow> bool" where
  "bucketed cx st ids bs \<longleftrightarrow> distinct (concat (map snd bs)) \<and> set (concat (map snd bs)) \<subseteq> ids
     \<and> (\<forall>(k, xs) \<in> set bs. \<forall>i \<in> set xs. \<exists>a. (i, a) \<in> set (atoms_iter (cx_atoms cx)) \<and> atom_key_of cx st (i, a) = Ok (Some k))"

lemma bucketed_add:
  assumes "bucketed cx st ids bs" and "x \<notin> ids" and "(x, a) \<in> set (atoms_iter (cx_atoms cx))" and "atom_key_of cx st (x, a) = Ok (Some k)"
  shows "bucketed cx st (insert x ids) (add_bucket k x bs)"
proof -
  note m = add_bucket_mset [of k x bs]
  have set: "set (concat (map snd (add_bucket k x bs))) = insert x (set (concat (map snd bs)))"
    using arg_cong [OF m, of set_mset] by simp
  have "x \<notin> set (concat (map snd bs))" using assms(1,2) unfolding bucketed_def by blast
  then have "distinct (concat (map snd (add_bucket k x bs)))"
    using assms(1) mset_eq_imp_distinct_iff [of "concat (map snd (add_bucket k x bs))" "x # concat (map snd bs)"] m
    unfolding bucketed_def by simp
  moreover have "\<forall>(l, xs) \<in> set (add_bucket k x bs). \<forall>i \<in> set xs. \<exists>a. (i, a) \<in> set (atoms_iter (cx_atoms cx)) \<and> atom_key_of cx st (i, a) = Ok (Some l)"
  proof (intro ballI case_prodI2)
    fix b l xs i assume "b \<in> set (add_bucket k x bs)" "b = (l, xs)" "i \<in> set xs"
    then consider "i = x" "l = k" | ys where "(l, ys) \<in> set bs" "i \<in> set ys" using add_bucket_members [of l xs k x bs i] by blast
    then show "\<exists>a. (i, a) \<in> set (atoms_iter (cx_atoms cx)) \<and> atom_key_of cx st (i, a) = Ok (Some l)"
    proof cases
      case 1
      then show ?thesis using assms(3,4) by blast
    next
      case 2
      then show ?thesis using assms(1) unfolding bucketed_def by blast
    qed
  qed
  moreover have "set (concat (map snd (add_bucket k x bs))) \<subseteq> insert x ids"
    unfolding set using assms(1) unfolding bucketed_def by blast
  ultimately show ?thesis unfolding bucketed_def by blast
qed

lemma fill_buckets_spec:
  assumes "fill_buckets cx st es bs = Ok bs'" and "bucketed cx st ids bs" and "set es \<subseteq> set (atoms_iter (cx_atoms cx))"
    and "distinct (map fst es)" and "fst ` set es \<inter> ids = {}"
  shows "bucketed cx st (ids \<union> fst ` set es) bs'"
  using assms
proof (induction es arbitrary: bs ids)
  case (Cons e es)
  obtain x a where e: "e = (x, a)" by (cases e)
  obtain k where k: "atom_key_of cx st (x, a) = Ok k" and rest: "fill_buckets cx st es (case k of None \<Rightarrow> bs | Some k \<Rightarrow> add_bucket k x bs) = Ok bs'"
    using Cons.prems(1) unfolding fill_buckets.simps e rbind_Ok_iff fst_conv by blast
  have "bucketed cx st (insert x ids) (case k of None \<Rightarrow> bs | Some k \<Rightarrow> add_bucket k x bs)"
  proof (cases k)
    case None
    then show ?thesis using Cons.prems(2) by (auto simp: bucketed_def)
  next
    case (Some k')
    then show ?thesis using Cons.prems k by (simp add: e) (intro bucketed_add, simp_all)
  qed
  from Cons.IH [OF rest this] Cons.prems show ?case by (simp add: e)
qed simp

lemma atom_key_kept: "atom_key_of cx st (i, a) = Ok (Some k) \<Longrightarrow> i \<in> ic_kept st"
  by (auto simp: atom_key_of_def split: if_splits)

section \<open>What a symbol stands for\<close>

text \<open>
  The place a relocation refers to. A symbol bound to an atom stands for that atom, or for the atom its
  redirects lead to; an absolute symbol for its value; any other global symbol for itself.
\<close>

datatype place = AtAtom atom_id | AtValue u64 | AtSymbol symbol_id | AtLocal input_id u32 | AtSection input_id u8

definition bound_atom :: "symbol \<Rightarrow> atom_id option" where
  "bound_atom s = (case s of Defined _ _ aid _ _ _ _ \<Rightarrow> Some aid | _ \<Rightarrow> None)"

definition exported_def :: "symbol \<Rightarrow> bool" where
  "exported_def s \<longleftrightarrow> (case s of Defined _ _ _ _ _ private _ \<Rightarrow> \<not> private | _ \<Rightarrow> False)"

definition symbol_place :: "symbol_table \<Rightarrow> symbol_id \<Rightarrow> place" where
  "symbol_place t sid =
     (case lookup_nth (symbols t) (unat sid) of
        Some (Absolute _ _ v _ _ _) \<Rightarrow> AtValue v
      | Some (Defined _ _ aid _ _ _ _) \<Rightarrow> (if aid = 0 then AtSymbol sid else AtAtom aid)
      | _ \<Rightarrow> AtSymbol sid)"

text \<open>\<open>moved f\<close> follows what happens to atoms and leaves every other place alone.\<close>

fun moved :: "(atom_id \<Rightarrow> atom_id) \<Rightarrow> place \<Rightarrow> place" where
  "moved f (AtAtom aid) = AtAtom (f aid)"
| "moved f p = p"

lemma moved_comp: "moved f (moved g p) = moved (f \<circ> g) p"
  by (cases p) simp_all

lemma moved_id: "moved (\<lambda>x. x) p = p"
  by (cases p) simp_all

definition final_atom :: "(atom_id \<rightharpoonup> atom_id) \<Rightarrow> atom_id \<Rightarrow> atom_id" where
  "final_atom rd a = the (canonical_atom rd a)"

definition place_in :: "icf_state \<Rightarrow> symbol_id \<Rightarrow> place" where
  "place_in st sid = moved (final_atom (ic_redirects st)) (symbol_place (ic_symbols st) sid)"

text \<open>
  Between two states atoms may be folded, so that places move, but two symbols that stood for the same place
  still do, and no symbol becomes exported or stops being so.
\<close>

definition later :: "icf_state \<Rightarrow> icf_state \<Rightarrow> bool" where
  "later st st' \<longleftrightarrow> map exported_def (symbols (ic_symbols st')) = map exported_def (symbols (ic_symbols st))
     \<and> (\<exists>f. \<forall>sid. place_in st' sid = moved f (place_in st sid))"

lemma later_refl: "later st st"
  unfolding later_def using moved_id by metis

lemma later_trans: "later a b \<Longrightarrow> later b c \<Longrightarrow> later a c"
  unfolding later_def using moved_comp by metis

lemma final_atom_redirect:
  assumes "acyclic (redirect_rel rd)" and "l \<notin> dom rd" and "w \<notin> dom rd" and "l \<noteq> w"
  shows "final_atom (rd(l \<mapsto> w)) a = (if final_atom rd a = l then w else final_atom rd a)"
proof (induction a rule: wf_induct_rule [OF finite_acyclic_wf_converse [OF _ assms(1)]])
  case 1
  show "finite (redirect_rel rd)" by simp
next
  case (2 a)
  have w: "canonical_atom (rd(l \<mapsto> w)) w = Some w" using assms(3,4) by (subst canonical_atom.simps) (auto simp: domIff)
  show ?case
  proof (cases "rd a")
    case None
    then have "final_atom rd a = a" unfolding final_atom_def by (subst canonical_atom.simps) simp
    moreover have "final_atom (rd(l \<mapsto> w)) a = (if a = l then w else a)"
      unfolding final_atom_def using None w assms(4) by (subst canonical_atom.simps) auto
    ultimately show ?thesis by presburger
  next
    case (Some n)
    then have e: "(a, n) \<in> redirect_rel rd" by (simp add: redirect_rel_def)
    then have n: "n \<noteq> a" using assms(1) by (auto simp: acyclic_def)
    have "a \<noteq> l" using Some assms(2) by auto
    then have eq: "final_atom (rd(l \<mapsto> w)) a = final_atom (rd(l \<mapsto> w)) n" "final_atom rd a = final_atom rd n"
      unfolding final_atom_def using Some n by (subst canonical_atom.simps, simp)+
    show ?thesis unfolding eq by (rule 2) (simp add: e)
  qed
qed

lemma final_atom_kept: "a \<notin> dom rd \<Longrightarrow> final_atom rd a = a"
  unfolding final_atom_def by (subst canonical_atom.simps) (auto simp: domIff)

section \<open>Folding keeps the invariant\<close>

text \<open>Two atoms that had the same fold key in some earlier state of the loop.\<close>

definition twins :: "icf_context \<Rightarrow> icf_state \<Rightarrow> atom_id \<Rightarrow> atom_id \<Rightarrow> bool" where
  "twins cx st l w \<longleftrightarrow> (\<exists>st0 a b k. later st0 st \<and> (l, a) \<in> set (atoms_iter (cx_atoms cx)) \<and> (w, b) \<in> set (atoms_iter (cx_atoms cx))
     \<and> atom_key_of cx st0 (l, a) = Ok (Some k) \<and> atom_key_of cx st0 (w, b) = Ok (Some k))"

lemma twins_later: "twins cx st l w \<Longrightarrow> later st st' \<Longrightarrow> twins cx st' l w"
  unfolding twins_def using later_trans by blast

text \<open>Every symbol of a kept atom is bound to that atom.\<close>

definition owners_bound :: "atom_table \<Rightarrow> symbol_table \<Rightarrow> atom_id set \<Rightarrow> bool" where
  "owners_bound tb t kept \<longleftrightarrow> (\<forall>(i, a) \<in> set (atoms_iter tb). i \<in> kept \<longrightarrow>
     (\<forall>s \<in> set (atom_symbols a). map_option bound_atom (lookup_nth (symbols t) (unat s)) = Some (Some i)))"

definition icf_inv :: "icf_context \<Rightarrow> atom_id set \<Rightarrow> nat \<Rightarrow> icf_state \<Rightarrow> bool" where
  "icf_inv cx K N st \<longleftrightarrow> ic_kept st \<inter> dom (ic_redirects st) = {} \<and> ic_kept st \<union> dom (ic_redirects st) = K
     \<and> acyclic (redirect_rel (ic_redirects st)) \<and> length (symbols (ic_symbols st)) = N
     \<and> 0 \<notin> fst ` set (atoms_iter (cx_atoms cx)) \<and> owners_bound (cx_atoms cx) (ic_symbols st) (ic_kept st)
     \<and> (\<forall>l w. ic_redirects st l = Some w \<longrightarrow> l \<noteq> w \<and> w \<in> K \<and> twins cx st l w)"

text \<open>Rebinding a defined symbol changes its atom and nothing else.\<close>

definition rebound :: "atom_id \<Rightarrow> symbol \<Rightarrow> symbol" where
  "rebound w s = (case s of Defined n orig _ v weak p d \<Rightarrow> Defined n orig w v weak p d | _ \<Rightarrow> s)"

lemma rebound_simps [simp]: "exported_def (rebound w s) = exported_def s" "rebound w (rebound w s) = rebound w s"
  "bound_atom (rebound w s) = map_option (\<lambda>_. w) (bound_atom s)"
  by (simp_all add: rebound_def exported_def_def bound_atom_def split: symbol.splits)

lemma rebind_symbol_table:
  assumes "rebind_symbol w sv t = Ok t'"
  shows "unat (fst sv) < length (symbols t) \<and> symbols t' = (symbols t)[unat (fst sv) := rebound w (symbols t ! unat (fst sv))]"
  using assms unfolding rebind_symbol_def bind_atom_def get_sym_def set_sym_def index_def rebound_def
  by (cases "symbols t ! unat (fst sv)") (auto split: if_splits intro!: list_update_same_conv [THEN iffD2, symmetric])

lemma rebind_all_table:
  "rebind_all w xs t = Ok t' \<Longrightarrow> length (symbols t') = length (symbols t)
    \<and> (\<forall>i < length (symbols t). symbols t' ! i = (if i \<in> unat ` fst ` set xs then rebound w (symbols t ! i) else symbols t ! i))"
proof (induction xs arbitrary: t)
  case (Cons x xs)
  then obtain t1 where x: "rebind_symbol w x t = Ok t1" and rest: "rebind_all w xs t1 = Ok t'" by (auto simp: rbind_Ok_iff)
  show ?case using Cons.IH [OF rest] rebind_symbol_table [OF x] by (auto simp: nth_list_update)
qed simp

lemma rebind_folded_table:
  assumes "rebind_folded_symbols a w t = Ok t'"
  shows "length (symbols t') = length (symbols t)
    \<and> (\<forall>i < length (symbols t). symbols t' ! i = (if i \<in> unat ` set (atom_symbols a) then rebound w (symbols t ! i) else symbols t ! i))"
proof -
  have "fst ` set ((case at_owner a of None \<Rightarrow> [] | Some s \<Rightarrow> [(s, 0)]) @ map (\<lambda>alt. (ae_symbol alt, ucast (ae_offset_within_atom alt) :: u64)) (at_alt_entries a))
    = set (atom_symbols a)" by (cases "at_owner a") (auto simp: atom_symbols_def image_image)
  then show ?thesis using rebind_all_table [OF assms [unfolded rebind_folded_symbols_def]] by simp
qed

text \<open>What one redirect does to the places.\<close>

lemma redirect_places:
  assumes inv: "icf_inv cx K N st" and "l \<in> ic_kept st" and "w \<in> ic_kept st" and "l \<noteq> w" and "w \<noteq> 0"
    and a: "(l, a) \<in> set (atoms_iter (cx_atoms cx))" and t: "rebind_folded_symbols a w (ic_symbols st) = Ok t"
  shows "place_in (st\<lparr>ic_redirects := (ic_redirects st)(l \<mapsto> w), ic_kept := kp, ic_symbols := t\<rparr>) sid
    = moved (\<lambda>c. if c = l then w else c) (place_in st sid)"
proof -
  let ?rd = "ic_redirects st" and ?t = "ic_symbols st"
  have nd: "l \<notin> dom ?rd" "w \<notin> dom ?rd" and ac: "acyclic (redirect_rel ?rd)" using assms(1-3) unfolding icf_inv_def by blast+
  have w: "final_atom (?rd(l \<mapsto> w)) w = w" using nd(2) assms(4) by (intro final_atom_kept) auto
  have l0: "l \<noteq> 0" using inv a unfolding icf_inv_def by force
  have tb: "length (symbols t) = length (symbols ?t)"
    "\<And>i. i < length (symbols ?t) \<Longrightarrow> symbols t ! i = (if i \<in> unat ` set (atom_symbols a) then rebound w (symbols ?t ! i) else symbols ?t ! i)"
    using rebind_folded_table [OF t] by blast+
  note fa = final_atom_redirect [OF ac nd assms(4)]
  show ?thesis
  proof (cases "sid \<in> set (atom_symbols a)")
    case True
    then have "map_option bound_atom (lookup_nth (symbols ?t) (unat sid)) = Some (Some l)"
      using inv a assms(2) unfolding icf_inv_def owners_bound_def by blast
    then obtain s where s: "lookup_nth (symbols ?t) (unat sid) = Some s" "bound_atom s = Some l" by auto
    then obtain n orig v wk p d where d: "s = Defined n orig l v wk p d" by (auto simp: bound_atom_def split: symbol.splits)
    have "lookup_nth (symbols t) (unat sid) = Some (rebound w s)"
      using s(1) True tb by (auto simp: lookup_nth_def split: if_splits)
    then have "symbol_place t sid = AtAtom w" using d assms(5) by (simp add: symbol_place_def rebound_def)
    moreover have "symbol_place ?t sid = AtAtom l" using s d l0 by (simp add: symbol_place_def)
    ultimately show ?thesis using w nd by (simp add: place_in_def final_atom_kept)
  next
    case False
    then have "unat sid \<notin> unat ` set (atom_symbols a)" by (metis imageE word_unat_eq_iff)
    then have "symbol_place t sid = symbol_place ?t sid" using tb by (auto simp: symbol_place_def lookup_nth_def)
    then show ?thesis using fa by (cases "symbol_place ?t sid") (simp_all add: place_in_def)
  qed
qed

lemma redirect_later:
  assumes "icf_inv cx K N st" and "l \<in> ic_kept st" and "w \<in> ic_kept st" and "l \<noteq> w" and "w \<noteq> 0"
    and "(l, a) \<in> set (atoms_iter (cx_atoms cx))" and t: "rebind_folded_symbols a w (ic_symbols st) = Ok t"
  shows "later st (st\<lparr>ic_redirects := (ic_redirects st)(l \<mapsto> w), ic_kept := kp, ic_symbols := t\<rparr>)"
proof -
  have "map exported_def (symbols t) = map exported_def (symbols (ic_symbols st))"
    using rebind_folded_table [OF t] by (intro nth_equalityI) auto
  then show ?thesis unfolding later_def using redirect_places [OF assms] by fastforce
qed

lemma owners_bound_redirect:
  assumes "owners_bound tb t kept" and "l \<in> kept" and "(l, a) \<in> set (atoms_iter tb)" and "rebind_folded_symbols a w t = Ok t'"
  shows "owners_bound tb t' (kept - {l})"
  unfolding owners_bound_def
proof (intro ballI case_prodI2 impI)
  fix e i b s assume e: "e \<in> set (atoms_iter tb)" "e = (i, b)" "i \<in> kept - {l}" "s \<in> set (atom_symbols b)"
  then have bi: "map_option bound_atom (lookup_nth (symbols t) (unat s)) = Some (Some i)" using assms(1) unfolding owners_bound_def by blast
  have "s \<notin> set (atom_symbols a)"
  proof
    assume "s \<in> set (atom_symbols a)"
    then have "map_option bound_atom (lookup_nth (symbols t) (unat s)) = Some (Some l)" using assms(1-3) unfolding owners_bound_def by blast
    then show False using bi e(3) by simp
  qed
  then have "unat s \<notin> unat ` set (atom_symbols a)" by (metis imageE word_unat_eq_iff)
  then show "map_option bound_atom (lookup_nth (symbols t') (unat s)) = Some (Some i)"
    using bi rebind_folded_table [OF assms(4)] by (auto simp: lookup_nth_def split: if_splits)
qed

lemma icf_inv_redirect:
  assumes "icf_inv cx K N st" and "l \<in> ic_kept st" and "w \<in> ic_kept st" and "l \<noteq> w" and "twins cx st l w"
    and a: "(l, a) \<in> set (atoms_iter (cx_atoms cx))" and t: "rebind_folded_symbols a w (ic_symbols st) = Ok t"
  shows "icf_inv cx K N (st\<lparr>ic_redirects := (ic_redirects st)(l \<mapsto> w), ic_kept := ic_kept st - {l}, ic_symbols := t\<rparr>)" (is "icf_inv cx K N ?st")
    and "later st (st\<lparr>ic_redirects := (ic_redirects st)(l \<mapsto> w), ic_kept := ic_kept st - {l}, ic_symbols := t\<rparr>)"
proof -
  let ?rd = "ic_redirects st"
  have nd: "l \<notin> dom ?rd" "w \<notin> dom ?rd" using assms(1-3) unfolding icf_inv_def by blast+
  have "w \<noteq> 0" using assms(1,5) unfolding icf_inv_def twins_def by force
  then show lt: "later st ?st" using assms by (intro redirect_later) simp_all
  have rel: "redirect_rel (?rd(l \<mapsto> w)) = insert (l, w) (redirect_rel ?rd)"
    using nd(1) by (auto simp: redirect_rel_def split: if_splits)
  have "(w, l) \<notin> (redirect_rel ?rd)\<^sup>*"
  proof
    assume "(w, l) \<in> (redirect_rel ?rd)\<^sup>*"
    then show False using assms(4) nd(2) by (cases rule: converse_rtranclE) (auto simp: redirect_rel_def)
  qed
  then have ac: "acyclic (redirect_rel (?rd(l \<mapsto> w)))" unfolding rel acyclic_insert using assms(1) by (simp add: icf_inv_def)
  have ob: "owners_bound (cx_atoms cx) t (ic_kept st - {l})"
    using assms(1,2) a t by (intro owners_bound_redirect) (simp_all add: icf_inv_def)
  have tw: "\<forall>x y. (?rd(l \<mapsto> w)) x = Some y \<longrightarrow> x \<noteq> y \<and> y \<in> K \<and> twins cx ?st x y"
    using assms(1,3-5) twins_later [OF _ lt] unfolding icf_inv_def by (auto split: if_splits)
  have ln: "length (symbols t) = N" using rebind_folded_table [OF t] assms(1) by (simp add: icf_inv_def)
  have nz: "0 \<notin> fst ` set (atoms_iter (cx_atoms cx))" using assms(1) unfolding icf_inv_def by blast
  have kd: "(ic_kept st - {l}) \<inter> dom (?rd(l \<mapsto> w)) = {}" "(ic_kept st - {l}) \<union> dom (?rd(l \<mapsto> w)) = K"
    using assms(1,2) unfolding icf_inv_def by auto
  have sel: "ic_redirects ?st = ?rd(l \<mapsto> w)" "ic_kept ?st = ic_kept st - {l}" "ic_symbols ?st = t" by simp_all
  show "icf_inv cx K N ?st" unfolding icf_inv_def sel by (intro conjI kd ac ln nz ob tw)
qed

lemma bind_atom_length: "bind_atom sid aid v t = (Ok t' :: symbol_table icf) \<Longrightarrow> length (symbols t') = length (symbols t)"
  unfolding bind_atom_def get_sym_def set_sym_def index_def by (cases "symbols t ! unat sid") (auto split: if_splits)

lemma get_atom_iter: "get_atom tb l = (Ok a :: atom icf) \<Longrightarrow> (l, a) \<in> set (atoms_iter tb)"
proof -
  assume "get_atom tb l = (Ok a :: atom icf)"
  then have "l \<noteq> 0" "unat (l - 1) < length (tb_atoms tb)" "a = tb_atoms tb ! unat (l - 1)"
    by (auto simp: get_atom_def sub32_def index_def rbind_Ok_iff split: if_splits)
  moreover have "of_nat (unat (l - 1) + 1) = l" by simp
  ultimately show ?thesis by (auto simp: atoms_iter_def image_iff intro!: bexI [of _ "unat (l - 1)"])
qed

lemma fold_losers_spec:
  assumes "fold_losers (cx_atoms cx) w ls st = Ok st'" and "icf_inv cx K N st" and "w \<in> ic_kept st" and "distinct ls"
    and "\<forall>l \<in> set ls. l \<in> ic_kept st \<and> twins cx st l w"
  shows "icf_inv cx K N st' \<and> ic_kept st' = ic_kept st - (set ls - {w}) \<and> later st st'"
  using assms
proof (induction ls arbitrary: st)
  case (Cons l ls)
  show ?case
  proof (cases "l = w")
    case True
    then show ?thesis using Cons.IH [of st] Cons.prems by auto
  next
    case False
    obtain a t where a: "get_atom (cx_atoms cx) l = (Ok a :: atom icf)" and t: "rebind_folded_symbols a w (ic_symbols st) = Ok t"
      and rest: "fold_losers (cx_atoms cx) w ls (st\<lparr>ic_redirects := (ic_redirects st)(l \<mapsto> w), ic_kept := ic_kept st - {l}, ic_symbols := t\<rparr>) = Ok st'"
      using Cons.prems(1) False by (auto simp: rbind_Ok_iff)
    let ?st = "st\<lparr>ic_redirects := (ic_redirects st)(l \<mapsto> w), ic_kept := ic_kept st - {l}, ic_symbols := t\<rparr>"
    note r = icf_inv_redirect [OF Cons.prems(2) _ Cons.prems(3) False _ get_atom_iter [OF a] t]
    have s: "icf_inv cx K N ?st" "later st ?st" using r Cons.prems(5) by simp_all
    have "\<forall>x \<in> set ls. x \<in> ic_kept ?st \<and> twins cx ?st x w" using Cons.prems(4,5) twins_later [OF _ s(2)] by auto
    from Cons.IH [OF rest s(1) _ _ this] Cons.prems False show ?thesis using later_trans [OF s(2)] by auto
  qed
qed (simp add: later_refl)

lemma min_by_key_member: "min_by_key c kxs = Some x \<Longrightarrow> x \<in> snd ` set kxs"
  by (induction c kxs rule: min_by_key.induct) (auto split: if_splits)

lemma fold_bucket_spec:
  assumes "fold_bucket cx ids (st, ch) = Ok (st', ch')" and "icf_inv cx K N st" and "distinct ids" and "set ids \<subseteq> ic_kept st"
    and "\<forall>l \<in> set ids. \<forall>w \<in> set ids. twins cx st l w"
  shows "icf_inv cx K N st' \<and> ic_kept st - set ids \<subseteq> ic_kept st' \<and> ic_kept st' \<subseteq> ic_kept st \<and> (ch' \<longrightarrow> ch \<or> ic_kept st' \<noteq> ic_kept st)
    \<and> later st st'"
proof (cases "length ids < 2")
  case True
  then show ?thesis using assms(1,2) by (simp add: fold_bucket_def later_refl)
next
  case False
  obtain kis w where kis: "mapM (\<lambda>i. rbind (get_atom (cx_atoms cx) i) (\<lambda>a. Ok (fold_order_key (cx_inputs cx) a i, i))) ids = (Ok kis :: ((nat \<times> u64 \<times> u32 \<times> u32) \<times> atom_id) list icf)"
    and w: "min_by_key fold_key_cmp kis = Some w" and fl: "fold_losers (cx_atoms cx) w ids st = Ok st'"
    and ch: "ch' = (ch \<or> (\<exists>l \<in> set ids. l \<noteq> w))"
    using assms(1) False unfolding fold_bucket_def
    by (simp add: rbind_Ok_iff) (auto simp: expect_def split: option.splits)
  have "map snd kis = ids" using kis by (induction ids arbitrary: kis) (auto simp: rbind_Ok_iff)
  then have wi: "w \<in> set ids" using min_by_key_member [OF w] by (metis list.set_map)
  have "icf_inv cx K N st' \<and> ic_kept st' = ic_kept st - (set ids - {w}) \<and> later st st'"
    using assms(2-5) wi by (intro fold_losers_spec [OF fl]) auto
  then show ?thesis using ch assms(4) by auto
qed

lemma fold_buckets_spec:
  assumes "fold_buckets cx idss (st, ch) = Ok (st', ch')" and "icf_inv cx K N st" and "distinct (concat idss)"
    and "set (concat idss) \<subseteq> ic_kept st" and "\<forall>ids \<in> set idss. \<forall>l \<in> set ids. \<forall>w \<in> set ids. twins cx st l w"
  shows "icf_inv cx K N st' \<and> ic_kept st' \<subseteq> ic_kept st \<and> (ch' \<longrightarrow> ch \<or> ic_kept st' \<noteq> ic_kept st)"
  using assms
proof (induction idss arbitrary: st ch)
  case (Cons ids idss)
  obtain st1 ch1 where b: "fold_bucket cx ids (st, ch) = Ok (st1, ch1)" and rest: "fold_buckets cx idss (st1, ch1) = Ok (st', ch')"
    using Cons.prems(1) by (auto simp: rbind_Ok_iff)
  have s: "icf_inv cx K N st1" "ic_kept st - set ids \<subseteq> ic_kept st1" "ic_kept st1 \<subseteq> ic_kept st" "ch1 \<longrightarrow> ch \<or> ic_kept st1 \<noteq> ic_kept st"
    "later st st1" using fold_bucket_spec [OF b Cons.prems(2)] Cons.prems(3-5) by auto
  have "set (concat idss) \<subseteq> ic_kept st - set ids" using Cons.prems(3,4) by auto
  then have "set (concat idss) \<subseteq> ic_kept st1" using s(2) by (rule order_trans)
  moreover have "\<forall>ids \<in> set idss. \<forall>l \<in> set ids. \<forall>w \<in> set ids. twins cx st1 l w" using Cons.prems(5) twins_later [OF _ s(5)] by simp
  ultimately show ?case using Cons.IH [OF rest s(1)] Cons.prems(3) s(3,4) by auto
qed simp

lemma fold_round_spec:
  assumes "fold_round order cx st = Ok (st', ch)" and "icf_inv cx K N st" and "distinct (map fst (atoms_iter (cx_atoms cx)))"
    and "\<forall>xs. mset (order xs) = mset xs"
  shows "icf_inv cx K N st' \<and> ic_kept st' \<subseteq> ic_kept st \<and> (ch \<longrightarrow> ic_kept st' \<noteq> ic_kept st)"
proof -
  obtain bs where bs: "fill_buckets cx st (atoms_iter (cx_atoms cx)) [] = Ok bs"
    and fb: "fold_buckets cx (order (map snd bs)) (st, False) = Ok (st', ch)"
    using assms(1) by (auto simp: fold_round_def rbind_Ok_iff)
  have "bucketed cx st ({} \<union> fst ` set (atoms_iter (cx_atoms cx))) bs"
    using fill_buckets_spec [OF bs, of "{}"] assms(3) by (simp add: bucketed_def)
  then have d: "distinct (concat (map snd bs))"
    and key: "\<And>k xs i. (k, xs) \<in> set bs \<Longrightarrow> i \<in> set xs \<Longrightarrow> \<exists>a. (i, a) \<in> set (atoms_iter (cx_atoms cx)) \<and> atom_key_of cx st (i, a) = Ok (Some k)"
    unfolding bucketed_def by blast+
  have om: "mset (order (map snd bs)) = mset (map snd bs)" using assms(4) by blast
  have os: "set (order (map snd bs)) = snd ` set bs" using om by (metis list.set_map set_mset_mset)
  have "mset (concat (order (map snd bs))) = mset (concat (map snd bs))"
    using om by (metis mset_concat mset_map sum_mset_sum_list)
  then have dd: "distinct (concat (order (map snd bs)))" using d mset_eq_imp_distinct_iff by blast
  have kept: "set (concat (order (map snd bs))) \<subseteq> ic_kept st"
    using key atom_key_kept by (force simp: os)
  have tw: "\<forall>ids \<in> set (order (map snd bs)). \<forall>l \<in> set ids. \<forall>w \<in> set ids. twins cx st l w"
  proof (intro ballI)
    fix ids l w assume ids: "ids \<in> set (order (map snd bs))" "l \<in> set ids" "w \<in> set ids"
    obtain k where k: "(k, ids) \<in> set bs" using ids(1) unfolding os by auto
    then show "twins cx st l w" unfolding twins_def using later_refl key [OF k ids(2)] key [OF k ids(3)] by blast
  qed
  show ?thesis using fold_buckets_spec [OF fb assms(2) dd kept tw] by simp
qed

section \<open>Symbols\<close>

definition settled :: "(atom_id \<rightharpoonup> atom_id) \<Rightarrow> symbol \<Rightarrow> bool" where
  "settled rd s \<longleftrightarrow> (case s of Defined _ _ aid _ _ _ _ \<Rightarrow> aid = 0 \<or> aid \<notin> dom rd | _ \<Rightarrow> True)"

lemma bind_atom_symbols:
  assumes "bind_atom sid aid v t = (Ok t' :: symbol_table icf)"
  shows "length (symbols t') = length (symbols t) \<and> unat sid < length (symbols t)
    \<and> (\<forall>i < length (symbols t). i \<noteq> unat sid \<longrightarrow> symbols t' ! i = symbols t ! i)
    \<and> (aid \<notin> dom rd \<longrightarrow> settled rd (symbols t' ! unat sid))"
  using assms unfolding bind_atom_def get_sym_def set_sym_def index_def
  by (cases "symbols t ! unat sid") (auto simp: settled_def split: if_splits)

lemma apply_updates_settles:
  assumes "apply_updates us t = Ok t'" and "\<forall>(sid, aid, v) \<in> set us. aid \<notin> dom rd"
    and "\<forall>i < length (symbols t). settled rd (symbols t ! i) \<or> i \<in> (\<lambda>(sid, _). unat sid) ` set us"
  shows "length (symbols t') = length (symbols t) \<and> (\<forall>i < length (symbols t). settled rd (symbols t' ! i))"
  using assms
proof (induction us arbitrary: t)
  case (Cons u us)
  obtain sid aid v where u: "u = (sid, aid, v)" by (cases u)
  obtain t1 where b: "bind_atom sid aid v t = (Ok t1 :: symbol_table icf)" and rest: "apply_updates us t1 = Ok t'"
    using Cons.prems(1) by (auto simp: u rbind_Ok_iff)
  have s: "length (symbols t1) = length (symbols t)" "settled rd (symbols t1 ! unat sid)"
    "\<And>i. i < length (symbols t) \<Longrightarrow> i \<noteq> unat sid \<Longrightarrow> symbols t1 ! i = symbols t ! i"
    using bind_atom_symbols [OF b, of rd] Cons.prems(2) by (auto simp: u)
  have "\<forall>i < length (symbols t1). settled rd (symbols t1 ! i) \<or> i \<in> (\<lambda>(sid, _). unat sid) ` set us"
  proof (intro allI impI)
    fix i assume "i < length (symbols t1)"
    then show "settled rd (symbols t1 ! i) \<or> i \<in> (\<lambda>(sid, _). unat sid) ` set us"
      using s Cons.prems(3) by (cases "i = unat sid") (auto simp: u)
  qed
  from Cons.IH [OF rest _ this] Cons.prems(2) s(1) show ?case by simp
qed simp

lemma canonical_update_Ok:
  assumes "canonical_update rd e = Ok us" and "acyclic (redirect_rel rd)"
  shows "(\<forall>(sid, aid, v) \<in> set us. aid \<notin> dom rd \<and> sid = fst e) \<and> (us = [] \<longrightarrow> settled rd (snd e))"
proof (cases "\<exists>n r aid v w p d. snd e = Defined n r aid v w p d \<and> aid \<noteq> 0")
  case True
  then obtain n r aid v w p d where e: "snd e = Defined n r aid v w p d" "aid \<noteq> 0" by blast
  obtain c where c: "canonical_atom rd aid = Some c" "c \<notin> dom rd" using canonical_returns [OF assms(2)] by blast
  have "us = (if c \<noteq> aid then [(fst e, c, v)] else [])" using assms(1) e c by (simp add: canonical_update_def canonical_def)
  then show ?thesis using c e by (auto simp: settled_def)
next
  case False
  then have "us = []" "settled rd (snd e)" using assms(1) by (auto simp: canonical_update_def settled_def split: symbol.splits if_splits)
  then show ?thesis by simp
qed

lemma rebind_settles:
  assumes "rebind_symbols_to_canonical_winners rd t = Ok t'" and "acyclic (redirect_rel rd)" and "length (symbols t) \<le> 2 ^ 32"
  shows "\<forall>s \<in> set (symbols t'). settled rd s"
proof -
  obtain uss where u: "mapM (canonical_update rd) (symbols_iter t) = Ok uss" and a: "apply_updates (concat uss) t = Ok t'"
    using assms(1) by (auto simp: rebind_symbols_to_canonical_winners_def rbind_Ok_iff)
  have len: "length uss = length (symbols t)" using mapM_Ok_length [OF u] by (simp add: symbols_iter_def)
  have each: "canonical_update rd (of_nat i, symbols t ! i) = Ok (uss ! i)" if "i < length (symbols t)" for i
    using mapM_Ok_nth [OF u, of i] that by (simp add: symbols_iter_def)
  have up: "\<forall>(sid, aid, v) \<in> set (uss ! i). aid \<notin> dom rd \<and> sid = of_nat i" "uss ! i = [] \<longrightarrow> settled rd (symbols t ! i)"
    if "i < length (symbols t)" for i using canonical_update_Ok [OF each [OF that] assms(2)] by simp_all
  have 1: "\<forall>(sid, aid, v) \<in> set (concat uss). aid \<notin> dom rd"
  proof
    fix x assume "x \<in> set (concat uss)"
    then obtain us where "us \<in> set uss" "x \<in> set us" by auto
    then obtain i where "i < length uss" "x \<in> set (uss ! i)" by (metis in_set_conv_nth)
    then show "case x of (sid, aid, v) \<Rightarrow> aid \<notin> dom rd" using up(1) [of i] len by auto
  qed
  have 2: "\<forall>i < length (symbols t). settled rd (symbols t ! i) \<or> i \<in> (\<lambda>(sid, _). unat sid) ` set (concat uss)"
  proof (intro allI impI)
    fix i assume i: "i < length (symbols t)"
    show "settled rd (symbols t ! i) \<or> i \<in> (\<lambda>(sid, _). unat sid) ` set (concat uss)"
    proof (cases "uss ! i")
      case Nil
      then show ?thesis using up(2) [OF i] by simp
    next
      case (Cons x xs)
      obtain sid aid v where x: "x = (sid, aid, v)" by (cases x)
      then have "sid = of_nat i" using up(1) [OF i] Cons by simp
      then have "unat sid = i" using i assms(3) by (simp add: unat_of_nat)
      moreover have "uss ! i \<in> set uss" using i len by simp
      then have "x \<in> set (concat uss)" unfolding Cons set_concat by (rule UN_I) simp
      ultimately show ?thesis using x by force
    qed
  qed
  show ?thesis using apply_updates_settles [OF a 1 2] by (auto simp: in_set_conv_nth)
qed

section \<open>Redirects always end\<close>

text \<open>No computation of the pass meets a redirect chain without end.\<close>

definition ends :: "'a icf \<Rightarrow> bool" where
  "ends m \<longleftrightarrow> m \<noteq> Err IcfDiverges"

named_theorems ends_intro

lemma ends_simps [simp]: "ends (Ok x)" "ends Panic" "ends (Err e) \<longleftrightarrow> e \<noteq> IcfDiverges"
  by (simp_all add: ends_def)

lemma ends_rbind [ends_intro]: "ends m \<Longrightarrow> (\<And>x. m = Ok x \<Longrightarrow> ends (f x)) \<Longrightarrow> ends (rbind m f)"
  by (cases m) auto

lemma ends_rmap [ends_intro]: "ends m \<Longrightarrow> ends (rmap f m)"
  by (cases m) (auto simp: rmap_def)

lemma ends_mapM [ends_intro]: "(\<And>x. ends (f x)) \<Longrightarrow> ends (mapM f xs)"
  by (induction xs) (auto intro!: ends_rbind)

lemma ends_index [ends_intro]: "ends (index xs i)" "ends (get_sym t sid)" "ends (get_atom tb aid)" "ends (bind_atom sid aid v t)" "ends (expect x)"
proof -
  show i: "ends (index xs i)" for xs :: "'x list" and i by (simp add: index_def)
  show g: "ends (get_sym t sid)" unfolding get_sym_def by (rule i)
  show "ends (get_atom tb aid)" unfolding get_atom_def by (auto intro!: ends_rbind i simp: sub32_def)
  show "ends (bind_atom sid aid v t)"
    unfolding bind_atom_def by (auto intro!: ends_rbind g simp: set_sym_def split: symbol.splits)
  show "ends (expect x)" by (cases x) simp_all
qed

lemma ends_canonical: "acyclic (redirect_rel rd) \<Longrightarrow> ends (canonical rd a)"
  using canonical_returns [of rd a] by (auto simp: canonical_def)

lemma ends_normalize:
  assumes "acyclic (redirect_rel rd)"
  shows "ends (normalize_referent inp obj t names rd ref)"
  unfolding normalize_referent_def
  by (auto intro!: ends_intro ends_canonical [OF assms] split: referent.splits option.splits result.splits symbol.splits)

lemma ends_collect: "(\<And>x. ends (f x)) \<Longrightarrow> ends (collect_options f xs)"
  by (induction xs) (auto intro!: ends_intro split: option.splits)

lemma ends_any_exported: "ends (any_exported t xs)"
  by (induction xs) (auto intro!: ends_intro)

lemma ends_key:
  assumes "acyclic (redirect_rel (ic_redirects st))"
  shows "ends (atom_key_of cx st e)"
  unfolding atom_key_of_def is_foldable_atom_def reloc_signature_for_atom_def fold_reloc_of_def
  by (auto intro!: ends_intro ends_collect ends_any_exported ends_normalize [OF assms] split: prod.splits option.splits)

lemma ends_fill: "acyclic (redirect_rel (ic_redirects st)) \<Longrightarrow> ends (fill_buckets cx st es bs)"
  by (induction es arbitrary: bs) (auto intro!: ends_rbind ends_key)

lemma ends_rebind: "ends (rebind_all w xs t)"
  by (induction xs arbitrary: t) (auto simp: rebind_symbol_def intro!: ends_intro)

lemma ends_losers: "ends (fold_losers tb w ls st)"
  by (induction ls arbitrary: st) (auto simp: rebind_folded_symbols_def intro!: ends_intro ends_rebind)

lemma ends_buckets: "ends (fold_buckets cx idss sb)"
  by (induction idss arbitrary: sb) (auto simp: fold_bucket_def intro!: ends_intro ends_losers)

lemma ends_round: "acyclic (redirect_rel (ic_redirects st)) \<Longrightarrow> ends (fold_round order cx st)"
  unfolding fold_round_def by (auto intro!: ends_intro ends_fill ends_buckets)

lemma ends_canonical_rebind: "acyclic (redirect_rel rd) \<Longrightarrow> ends (rebind_symbols_to_canonical_winners rd t)"
proof -
  have up: "ends (apply_updates us t)" for us t by (induction us arbitrary: t) (auto intro!: ends_intro)
  assume "acyclic (redirect_rel rd)"
  then show ?thesis unfolding rebind_symbols_to_canonical_winners_def canonical_update_def
    by (auto intro!: ends_intro up ends_canonical split: symbol.splits)
qed

lemma fold_loop_returns:
  assumes "icf_inv cx K N st" and "distinct (map fst (atoms_iter (cx_atoms cx)))" and "\<forall>xs. mset (order xs) = mset xs"
  shows "\<exists>r. fold_loop order cx st = Some r \<and> ends r \<and> (\<forall>st'. r = Ok st' \<longrightarrow> icf_inv cx K N st')"
  using assms(1)
proof (induction "card (ic_kept st)" arbitrary: st rule: less_induct)
  case less
  have e: "ends (fold_round order cx st)" using less.prems by (intro ends_round) (simp add: icf_inv_def)
  show ?case
  proof (cases "fold_round order cx st")
    case (Ok sb)
    obtain st1 ch where sb: "sb = (st1, ch)" by (cases sb)
    note s = fold_round_spec [OF Ok [unfolded sb] less.prems assms(2,3)]
    show ?thesis
    proof (cases ch)
      case True
      then have "ic_kept st1 \<subset> ic_kept st" using s by blast
      then have "card (ic_kept st1) < card (ic_kept st)" by (intro psubset_card_mono) simp_all
      moreover have "fold_loop order cx st = fold_loop order cx st1" using Ok sb True by (subst fold_loop.simps) simp
      ultimately show ?thesis using less.hyps [of st1] s by simp
    next
      case False
      then have "fold_loop order cx st = Some (Ok st1)" using Ok sb by (subst fold_loop.simps) simp
      then show ?thesis using s by simp
    qed
  next
    case (Err x)
    then have "fold_loop order cx st = Some (Err x)" by (subst fold_loop.simps) simp
    then show ?thesis using e Err by simp
  next
    case Panic
    then have "fold_loop order cx st = Some Panic" by (subst fold_loop.simps) simp
    then show ?thesis by simp
  qed
qed

section \<open>What folded atoms share\<close>

text \<open>
  Where the references of an atom lead, read off a symbol table without the pass: a section of the input, a
  local symbol, an absolute value, or whatever the table binds the global symbol of that name to.
\<close>

definition refers_to :: "(symbol_id \<Rightarrow> place) \<Rightarrow> layout_input list \<Rightarrow> (str \<rightharpoonup> symbol_id) \<Rightarrow> input_id \<Rightarrow> referent \<Rightarrow> place option" where
  "refers_to pl inputs names inp ref =
     (case ref of
        Section sec \<Rightarrow> Some (AtSection inp sec)
      | Symbol n \<Rightarrow>
          Option.bind (input_map inputs inp) (\<lambda>li.
          Option.bind (lookup_nth (ob_symbols (li_object li)) (unat n)) (\<lambda>s.
          if participates_in_global_resolution s
          then (case Object_File.symbol_name (li_object li) s of Ok nm \<Rightarrow> map_option pl (names nm) | _ \<Rightarrow> None)
          else Some (if nlist_kind s = Abs then AtValue (n_value s) else AtLocal inp n))))"

definition relocs_of :: "reloc_cache_map \<Rightarrow> atom \<Rightarrow> reloc list" where
  "relocs_of cache a = relocs_for_atom (case cache (at_origin a, at_input_section a) of Some rs \<Rightarrow> rs | None \<Rightarrow> []) a"

definition shape_of where
  "shape_of pl inputs names a r =
     (saturating_sub (rel_offset r) (at_input_offset a), rel_kind r, rel_length r, rel_pcrel r, rel_addend r,
      refers_to pl inputs names (at_origin a) (rel_referent r), map_option (refers_to pl inputs names (at_origin a)) (rel_subtrahend r))"

definition content_of where
  "content_of pl inputs names cache a =
     (at_section a, at_size a, at_align_pow2 a, at_flags a AND NOT AF_ADDRESS_TAKEN, at_data a,
      output_section_cache inputs (at_origin a, at_input_section a), map (shape_of pl inputs names a) (relocs_of cache a))"

definition resolved_refs where
  "resolved_refs pl inputs names cache a \<longleftrightarrow> (\<forall>r \<in> set (relocs_of cache a).
     \<forall>ref \<in> insert (rel_referent r) (set_option (rel_subtrahend r)). refers_to pl inputs names (at_origin a) ref \<noteq> None)"

text \<open>An atom may be folded when it is not kept by force, its address is not taken and none of its symbols is exported.\<close>

definition movable :: "symbol_table \<Rightarrow> atom \<Rightarrow> bool" where
  "movable t a \<longleftrightarrow> at_section a \<in> {AText, AConstData, ACStringLiterals, ALiteral16}
     \<and> \<not> af_has (at_flags a) AF_NO_DEAD_STRIP \<and> \<not> af_has (at_flags a) AF_ADDRESS_TAKEN
     \<and> (\<forall>s \<in> set (atom_symbols a). map_option exported_def (lookup_nth (symbols t) (unat s)) = Some False)"

definition identical ::
  "layout_input list \<Rightarrow> (str \<rightharpoonup> symbol_id) \<Rightarrow> reloc_cache_map \<Rightarrow> symbol_table \<Rightarrow> atom_table \<Rightarrow> atom_id \<Rightarrow> atom_id \<Rightarrow> bool" where
  "identical inputs names cache t tb l w \<longleftrightarrow> (\<exists>a b. (l, a) \<in> set (atoms_iter tb) \<and> (w, b) \<in> set (atoms_iter tb)
     \<and> movable t a \<and> movable t b
     \<and> resolved_refs (symbol_place t) inputs names cache a \<and> resolved_refs (symbol_place t) inputs names cache b
     \<and> content_of (symbol_place t) inputs names cache a = content_of (symbol_place t) inputs names cache b)"

fun fold_place :: "fold_referent \<Rightarrow> place" where
  "fold_place (FAtom aid) = AtAtom aid"
| "fold_place (FAbsolute v) = AtValue v"
| "fold_place (FSymbol sid) = AtSymbol sid"
| "fold_place (FLocalSymbol inp n) = AtLocal inp n"
| "fold_place (FSection inp sec) = AtSection inp sec"

definition reloc_shape where
  "reloc_shape f = (fr_offset f, fr_kind f, fr_length f, fr_pcrel f, fr_addend f, Some (fold_place (fr_referent f)),
     map_option (\<lambda>s. Some (fold_place s)) (fr_subtrahend f))"

lemma rmap_Ok_iff: "rmap f m = Ok y \<longleftrightarrow> (\<exists>x. m = Ok x \<and> f x = y)"
  by (cases m) auto

text \<open>The code's normal form of a referent is the place it stands for in the state at hand.\<close>

lemma normalize_place:
  assumes "normalize_referent inp (li_object li) t names rd ref = Ok (Some f)" and "input_map inputs inp = Some li"
  shows "refers_to (\<lambda>sid. moved (final_atom rd) (symbol_place t sid)) inputs names inp ref = Some (fold_place f)"
proof (cases ref)
  case (Section sec)
  then show ?thesis using assms by (auto simp: normalize_referent_def refers_to_def)
next
  case (Symbol n)
  obtain s where s: "lookup_nth (ob_symbols (li_object li)) (unat n) = Some s"
    using assms(1) Symbol by (auto simp: normalize_referent_def split: option.splits)
  show ?thesis
  proof (cases "participates_in_global_resolution s")
    case False
    then show ?thesis using assms s Symbol by (auto simp: normalize_referent_def refers_to_def)
  next
    case True
    obtain nm sid x where nm: "Object_File.symbol_name (li_object li) s = Ok nm" "names nm = Some sid" "get_sym t sid = (Ok x :: symbol icf)"
      and x: "(case x of
          Defined _ _ aid _ _ _ _ \<Rightarrow> if aid \<noteq> 0 then rbind (canonical rd aid) (\<lambda>c. Ok (Some (FAtom c))) else Ok (Some (FSymbol sid))
        | Absolute _ _ v _ _ _ \<Rightarrow> Ok (Some (FAbsolute v))
        | _ \<Rightarrow> Ok (Some (FSymbol sid))) = (Ok (Some f) :: fold_referent option icf)"
      using assms(1) s True Symbol unfolding normalize_referent_def
      by (simp add: rbind_Ok_iff split: result.splits option.splits) blast
    have "lookup_nth (symbols t) (unat sid) = Some x"
      using nm(3) by (auto simp: get_sym_def index_def lookup_nth_def split: if_splits)
    then have "moved (final_atom rd) (symbol_place t sid) = fold_place f"
      using x by (auto simp: symbol_place_def final_atom_def canonical_def rbind_Ok_iff split: symbol.splits if_splits option.splits)
    then show ?thesis using assms(2) s True Symbol nm by (simp add: refers_to_def)
  qed
qed

lemma refers_to_moved:
  assumes "\<forall>sid. pl' sid = moved f (pl sid)"
  shows "refers_to pl' inputs names inp ref = map_option (moved f) (refers_to pl inputs names inp ref)"
proof -
  have "pl' = moved f \<circ> pl" using assms by auto
  then show ?thesis
    by (cases ref) (auto simp: refers_to_def option.map_comp split: Option.bind_splits result.splits)
qed

lemma fold_reloc_shape:
  assumes "fold_reloc_of (at_origin a) (li_object li) t names rd a r = Ok (Some f)" and "input_map inputs (at_origin a) = Some li"
  shows "shape_of (\<lambda>sid. moved (final_atom rd) (symbol_place t sid)) inputs names a r = reloc_shape f"
    and "\<forall>ref \<in> insert (rel_referent r) (set_option (rel_subtrahend r)).
      refers_to (\<lambda>sid. moved (final_atom rd) (symbol_place t sid)) inputs names (at_origin a) ref \<noteq> None"
proof -
  note place = normalize_place [OF _ assms(2)]
  obtain ref where ref: "normalize_referent (at_origin a) (li_object li) t names rd (rel_referent r) = Ok (Some ref)"
    using assms(1) by (auto simp: fold_reloc_of_def rbind_Ok_iff split: option.splits)
  note f = assms(1) [unfolded fold_reloc_of_def ref rbind_simps option.case]
  have "shape_of (\<lambda>sid. moved (final_atom rd) (symbol_place t sid)) inputs names a r = reloc_shape f
    \<and> (\<forall>s \<in> set_option (rel_subtrahend r). refers_to (\<lambda>sid. moved (final_atom rd) (symbol_place t sid)) inputs names (at_origin a) s \<noteq> None)"
  proof (cases "rel_subtrahend r")
    case None
    then show ?thesis using f place [OF ref] by (auto simp: reloc_shape_def shape_of_def None)
  next
    case (Some s)
    then obtain sub where sub: "normalize_referent (at_origin a) (li_object li) t names rd s = Ok (Some sub)"
      using f by (auto simp: rbind_Ok_iff rmap_Ok_iff)
    then show ?thesis using f Some place [OF ref] place [OF sub] by (auto simp: reloc_shape_def shape_of_def rmap_def)
  qed
  then show "shape_of (\<lambda>sid. moved (final_atom rd) (symbol_place t sid)) inputs names a r = reloc_shape f"
    and "\<forall>ref \<in> insert (rel_referent r) (set_option (rel_subtrahend r)).
      refers_to (\<lambda>sid. moved (final_atom rd) (symbol_place t sid)) inputs names (at_origin a) ref \<noteq> None"
    using place [OF ref] by auto
qed

lemma collect_options_each:
  "collect_options f xs = Ok (Some ys) \<Longrightarrow> list_all2 (\<lambda>x y. f x = Ok (Some y)) xs ys"
  by (induction xs arbitrary: ys) (auto simp: rbind_Ok_iff rmap_Ok_iff split: option.splits)

lemma any_exported_False:
  "any_exported t xs = Ok False \<Longrightarrow> \<forall>s \<in> set xs. map_option exported_def (lookup_nth (symbols t) (unat s)) = Some False"
  by (induction xs) (auto simp: rbind_Ok_iff get_sym_def index_def lookup_nth_def exported_def_def split: if_splits)

lemma atom_key_content:
  assumes "atom_key_of cx st (i, a) = Ok (Some k)" and "cx_sections cx = output_section_cache (cx_inputs cx)"
  shows "movable (ic_symbols st) a" and "resolved_refs (place_in st) (cx_inputs cx) (cx_names cx) (cx_relocs cx) a"
    and "content_of (place_in st) (cx_inputs cx) (cx_names cx) (cx_relocs cx) a
      = (fk_section k, fk_size k, fk_align_pow2 k, fk_flags k, fk_data k, Some (fk_output_section k), map reloc_shape (fk_relocs k))"
proof -
  have pl: "place_in st = (\<lambda>sid. moved (final_atom (ic_redirects st)) (symbol_place (ic_symbols st) sid))"
    by (simp add: place_in_def fun_eq_iff)
  obtain li sg osec where f: "is_foldable_atom a (ic_symbols st) = Ok True" and li: "input_map (cx_inputs cx) (at_origin a) = Some li"
    and r: "collect_options (fold_reloc_of (at_origin a) (li_object li) (ic_symbols st) (cx_names cx) (ic_redirects st) a) (relocs_of (cx_relocs cx) a) = Ok (Some sg)"
    and o: "cx_sections cx (at_origin a, at_input_section a) = Some osec" and k: "k = fold_key_of a osec sg"
    using assms(1) by (auto simp: atom_key_of_def reloc_signature_for_atom_def relocs_of_def rbind_Ok_iff split: if_splits option.splits)
  show "movable (ic_symbols st) a"
    using f any_exported_False by (auto simp: is_foldable_atom_def movable_def rmap_Ok_iff split: if_splits)
  note each = collect_options_each [OF r] note rel = fold_reloc_shape [OF _ li, of "ic_symbols st" "cx_names cx" "ic_redirects st", folded pl]
  have "\<forall>r \<in> set (relocs_of (cx_relocs cx) a). \<exists>f. fold_reloc_of (at_origin a) (li_object li) (ic_symbols st) (cx_names cx) (ic_redirects st) a r = Ok (Some f)"
    using each by (fastforce simp: list_all2_conv_all_nth in_set_conv_nth)
  then show "resolved_refs (place_in st) (cx_inputs cx) (cx_names cx) (cx_relocs cx) a" unfolding resolved_refs_def using rel(2) by blast
  have "map (shape_of (place_in st) (cx_inputs cx) (cx_names cx) a) (relocs_of (cx_relocs cx) a) = map reloc_shape sg"
    using each rel(1) by (auto simp: list_all2_conv_all_nth intro!: nth_equalityI)
  then show "content_of (place_in st) (cx_inputs cx) (cx_names cx) (cx_relocs cx) a
      = (fk_section k, fk_size k, fk_align_pow2 k, fk_flags k, fk_data k, Some (fk_output_section k), map reloc_shape (fk_relocs k))"
    using o k assms(2) by (simp add: content_of_def fold_key_of_def)
qed

lemma content_moved:
  assumes "\<forall>sid. pl' sid = moved f (pl sid)"
    and "content_of pl inputs names cache a = content_of pl inputs names cache b"
  shows "content_of pl' inputs names cache a = content_of pl' inputs names cache b"
proof -
  let ?m = "\<lambda>(off, k, l, p, ad, ref, sub). (off, k, l, p, ad, map_option (moved f) ref, map_option (map_option (moved f)) sub)"
  have sh: "shape_of pl' inputs names c = ?m \<circ> shape_of pl inputs names c" for c
    using refers_to_moved [OF assms(1)] by (auto simp: shape_of_def fun_eq_iff option.map_comp intro!: option.map_cong)
  then have m: "map (shape_of pl' inputs names c) xs = map ?m (map (shape_of pl inputs names c) xs)" for c xs
    unfolding list.map_comp by (rule arg_cong)
  have "map (shape_of pl inputs names a) (relocs_of cache a) = map (shape_of pl inputs names b) (relocs_of cache b)"
    using assms(2) by (simp add: content_of_def)
  then have "map (shape_of pl' inputs names a) (relocs_of cache a) = map (shape_of pl' inputs names b) (relocs_of cache b)" unfolding m by (rule arg_cong)
  then show ?thesis using assms(2) by (simp add: content_of_def)
qed

lemma resolved_moved:
  assumes "\<forall>sid. pl' sid = moved f (pl sid)"
  shows "resolved_refs pl inputs names cache a \<Longrightarrow> resolved_refs pl' inputs names cache a"
  unfolding resolved_refs_def refers_to_moved [OF assms] option.map_disc_iff .

lemma movable_later:
  assumes "map exported_def (symbols t') = map exported_def (symbols t)"
  shows "movable t' a = movable t a"
proof -
  have "map_option exported_def (lookup_nth (symbols t') n) = map_option exported_def (lookup_nth (symbols t) n)" for n
    using assms map_eq_imp_length_eq [OF assms] by (auto simp: lookup_nth_def dest: arg_cong [of _ _ "\<lambda>xs. xs ! n"])
  then show ?thesis by (simp add: movable_def)
qed

lemma twins_identical:
  assumes "twins cx st l w" and "cx_sections cx = output_section_cache (cx_inputs cx)"
    and "map exported_def (symbols t) = map exported_def (symbols (ic_symbols st))" and "symbol_place t = place_in st"
  shows "identical (cx_inputs cx) (cx_names cx) (cx_relocs cx) t (cx_atoms cx) l w"
proof -
  obtain st0 a b k where l: "later st0 st" and a: "(l, a) \<in> set (atoms_iter (cx_atoms cx))" "atom_key_of cx st0 (l, a) = Ok (Some k)"
    and b: "(w, b) \<in> set (atoms_iter (cx_atoms cx))" "atom_key_of cx st0 (w, b) = Ok (Some k)" using assms(1) unfolding twins_def by blast
  obtain f where f: "\<forall>sid. symbol_place t sid = moved f (place_in st0 sid)" using l assms(4) unfolding later_def by auto
  have ex: "map exported_def (symbols t) = map exported_def (symbols (ic_symbols st0))" using l assms(3) by (simp add: later_def)
  note ka = atom_key_content [OF a(2) assms(2)] and kb = atom_key_content [OF b(2) assms(2)]
  show ?thesis unfolding identical_def
    using a(1) b(1) ka(1) kb(1) movable_later [OF ex] resolved_moved [OF f ka(2)] resolved_moved [OF f kb(2)]
      content_moved [OF f trans [OF ka(3) kb(3) [symmetric]]] by auto
qed

lemma identical_trans:
  assumes "distinct (map fst (atoms_iter tb))" and "identical inputs names cache t tb l w" and "identical inputs names cache t tb w x"
  shows "identical inputs names cache t tb l x"
proof -
  let ?C = "content_of (symbol_place t) inputs names cache" and ?R = "resolved_refs (symbol_place t) inputs names cache"
  obtain a b where 1: "(l, a) \<in> set (atoms_iter tb)" "(w, b) \<in> set (atoms_iter tb)" "movable t a" "?R a" "?C a = ?C b"
    using assms(2) unfolding identical_def by blast
  obtain b' c where 2: "(w, b') \<in> set (atoms_iter tb)" "(x, c) \<in> set (atoms_iter tb)" "movable t c" "?R c" "?C b' = ?C c"
    using assms(3) unfolding identical_def by blast
  have "b = b'" using eq_key_imp_eq_value [OF assms(1) 1(2) 2(1)] .
  then show ?thesis using 1 2 unfolding identical_def by auto
qed

lemma winners_identical:
  assumes "distinct (map fst (atoms_iter tb))" and "\<forall>l w. rd l = Some w \<longrightarrow> identical inputs names cache t tb l w"
    and "(a, c) \<in> (redirect_rel rd)\<^sup>*"
  shows "a = c \<or> identical inputs names cache t tb a c"
  using assms(3)
proof (induction rule: rtrancl_induct)
  case (step y z)
  then have "identical inputs names cache t tb y z" using assms(2) by (simp add: redirect_rel_def)
  then show ?case using step identical_trans [OF assms(1)] by blast
qed simp

section \<open>The final rebinding\<close>

lemma bind_atom_place:
  assumes "bind_atom sid c v t = (Ok t' :: symbol_table icf)" and "moved (final_atom rd) (symbol_place t sid) = AtAtom c" and "c \<noteq> 0" and "final_atom rd c = c"
  shows "map exported_def (symbols t') = map exported_def (symbols t)"
    and "moved (final_atom rd) (symbol_place t' x) = moved (final_atom rd) (symbol_place t x)"
proof -
  have len: "unat sid < length (symbols t)"
    using assms(1) unfolding bind_atom_def get_sym_def index_def by (auto split: if_splits)
  obtain n orig aid w wk p d where s: "symbols t ! unat sid = Defined n orig aid w wk p d"
    using assms(2) len by (auto simp: symbol_place_def lookup_nth_def split: symbol.splits)
  have t': "symbols t' = (symbols t)[unat sid := Defined n orig c v wk p d]"
    using assms(1) len s unfolding bind_atom_def get_sym_def index_def set_sym_def by auto
  show "map exported_def (symbols t') = map exported_def (symbols t)"
    unfolding t' map_update using s len by (intro list_update_same_conv [THEN iffD2]) (simp_all add: exported_def_def)
  show "moved (final_atom rd) (symbol_place t' x) = moved (final_atom rd) (symbol_place t x)"
  proof (cases "x = sid")
    case True
    then show ?thesis using assms(2-4) len by (simp add: t' symbol_place_def lookup_nth_def)
  next
    case False
    then have "unat x \<noteq> unat sid" by (simp add: word_unat_eq_iff)
    then show ?thesis using len by (simp add: t' symbol_place_def lookup_nth_def)
  qed
qed

lemma apply_updates_places:
  assumes "apply_updates us t = Ok t'"
    and "\<forall>(sid, c, v) \<in> set us. moved (final_atom rd) (symbol_place t sid) = AtAtom c \<and> c \<noteq> 0 \<and> final_atom rd c = c"
  shows "map exported_def (symbols t') = map exported_def (symbols t)
    \<and> (\<forall>x. moved (final_atom rd) (symbol_place t' x) = moved (final_atom rd) (symbol_place t x))"
  using assms
proof (induction us arbitrary: t)
  case (Cons u us)
  obtain sid c v where u: "u = (sid, c, v)" by (cases u)
  obtain t1 where b: "bind_atom sid c v t = (Ok t1 :: symbol_table icf)" and rest: "apply_updates us t1 = Ok t'"
    using Cons.prems(1) by (auto simp: u rbind_Ok_iff)
  have p: "map exported_def (symbols t1) = map exported_def (symbols t)"
    "\<And>x. moved (final_atom rd) (symbol_place t1 x) = moved (final_atom rd) (symbol_place t x)"
    using bind_atom_place [OF b, of rd] Cons.prems(2) by (auto simp: u)
  then have "\<forall>(sid, c, v) \<in> set us. moved (final_atom rd) (symbol_place t1 sid) = AtAtom c \<and> c \<noteq> 0 \<and> final_atom rd c = c"
    using Cons.prems(2) by simp
  from Cons.IH [OF rest this] p show ?case by simp
qed simp

lemma canonical_update_member:
  assumes "canonical_update rd e = Ok us" and "(sid, c, v) \<in> set us"
  shows "\<exists>n orig aid wk p d. snd e = Defined n orig aid v wk p d \<and> aid \<noteq> 0 \<and> canonical_atom rd aid = Some c \<and> c \<noteq> aid \<and> sid = fst e"
  using assms by (auto simp: canonical_update_def canonical_def rbind_Ok_iff split: symbol.splits if_splits option.splits)

lemma rebind_places:
  assumes "rebind_symbols_to_canonical_winners rd t = Ok t'" and ac: "acyclic (redirect_rel rd)" and len: "length (symbols t) \<le> 2 ^ 32"
    and nz: "\<forall>l w. rd l = Some w \<longrightarrow> w \<noteq> 0"
  shows "map exported_def (symbols t') = map exported_def (symbols t)"
    and "symbol_place t' x = moved (final_atom rd) (symbol_place t x)"
proof -
  obtain uss where u: "mapM (canonical_update rd) (symbols_iter t) = Ok uss" and a: "apply_updates (concat uss) t = Ok t'"
    using assms(1) by (auto simp: rebind_symbols_to_canonical_winners_def rbind_Ok_iff)
  have "\<forall>(sid, c, v) \<in> set (concat uss). moved (final_atom rd) (symbol_place t sid) = AtAtom c \<and> c \<noteq> 0 \<and> final_atom rd c = c"
  proof (rule ballI)
    fix e assume "e \<in> set (concat uss)"
    moreover obtain sid c v where e: "e = (sid, c, v)" by (cases e)
    ultimately obtain us where "us \<in> set uss" "(sid, c, v) \<in> set us" by auto
    moreover have "length uss = length (symbols t)" using mapM_Ok_length [OF u] by (simp add: symbols_iter_def)
    ultimately obtain i where i: "i < length (symbols t)" "(sid, c, v) \<in> set (uss ! i)" by (metis in_set_conv_nth)
    have cu: "canonical_update rd (of_nat i, symbols t ! i) = Ok (uss ! i)" using mapM_Ok_nth [OF u, of i] i(1) by (simp add: symbols_iter_def)
    obtain n orig aid wk p d where s: "symbols t ! i = Defined n orig aid v wk p d" "aid \<noteq> 0" "canonical_atom rd aid = Some c" "c \<noteq> aid" "sid = of_nat i"
      using canonical_update_member [OF cu i(2)] by auto
    obtain c' where c': "canonical_atom rd aid = Some c'" "(aid, c') \<in> (redirect_rel rd)\<^sup>*" "c' \<notin> dom rd" using canonical_returns [OF ac] by blast
    have "c \<noteq> 0" using c' s(3,4) nz by (cases rule: rtranclE [OF c'(2)]) (auto simp: redirect_rel_def)
    moreover have "final_atom rd c = c" using c' s(3) by (simp add: final_atom_kept)
    moreover have "unat sid = i" using s(5) i(1) len by (simp add: unat_of_nat)
    then have "symbol_place t sid = AtAtom aid" using s i(1) by (simp add: symbol_place_def lookup_nth_def)
    then have "moved (final_atom rd) (symbol_place t sid) = AtAtom c" using s(3) by (simp add: final_atom_def)
    ultimately show "case e of (sid, c, v) \<Rightarrow> moved (final_atom rd) (symbol_place t sid) = AtAtom c \<and> c \<noteq> 0 \<and> final_atom rd c = c" by (simp add: e)
  qed
  from apply_updates_places [OF a this] have e: "map exported_def (symbols t') = map exported_def (symbols t)"
    and p: "moved (final_atom rd) (symbol_place t' x) = moved (final_atom rd) (symbol_place t x)" for x by blast+
  show "map exported_def (symbols t') = map exported_def (symbols t)" by (rule e)
  have "\<forall>s \<in> set (symbols t'). settled rd s" using rebind_settles [OF assms(1) ac len] .
  then have "moved (final_atom rd) (symbol_place t' x) = symbol_place t' x"
    by (auto simp: symbol_place_def lookup_nth_def settled_def final_atom_kept split: symbol.splits) (metis final_atom_kept nth_mem symbol.case)
  then show "symbol_place t' x = moved (final_atom rd) (symbol_place t x)" using p by simp
qed

section \<open>The pass\<close>

lemma set_address_taken_length: "set_address_taken xs tb = Ok tb' \<Longrightarrow> length (tb_atoms tb') = length (tb_atoms tb)"
  by (induction xs arbitrary: tb) (auto simp: update_atom_def rbind_Ok_iff)

lemma mark_address_taken_length: "mark_address_taken inputs t names cache tb = Ok tb' \<Longrightarrow> length (tb_atoms tb') = length (tb_atoms tb)"
  by (auto simp: mark_address_taken_def Let_def rbind_Ok_iff dest: set_address_taken_length)

lemma ends_into_icf [ends_intro]: "ends (into_icf m)"
  by (cases m) (simp_all add: into_icf_def)

lemma into_icf_Ok_iff: "into_icf m = Ok x \<longleftrightarrow> m = Ok x"
  by (cases m) (simp_all add: into_icf_def)

lemma ends_reloc_cache: "ends (reloc_cache inputs)"
proof -
  have e: "ends (rmap_err (IcfBadRelocs p) m)" for p and m :: "(read_error, 'b) result" by (cases m) simp_all
  show ?thesis unfolding reloc_cache_def Let_def by (auto intro!: ends_intro e)
qed

lemma atoms_iter_distinct: "length (tb_atoms tb) < 2 ^ 32 \<Longrightarrow> distinct (map fst (atoms_iter tb))"
proof -
  assume n: "length (tb_atoms tb) < 2 ^ 32"
  have "i = j" if "(of_nat (i + 1) :: 32 word) = of_nat (j + 1)" "i < length (tb_atoms tb)" "j < length (tb_atoms tb)" for i j
  proof -
    have "unat (of_nat (i + 1) :: 32 word) = unat (of_nat (j + 1) :: 32 word)" using that(1) by simp
    then show "i = j" unfolding unat_of_nat using that(2,3) n by simp
  qed
  then have "inj_on (\<lambda>i. of_nat (i + 1) :: 32 word) {..<length (tb_atoms tb)}" by (auto intro: inj_onI)
  then show ?thesis by (simp add: atoms_iter_def o_def distinct_map atLeast0LessThan)
qed

definition icf_scope :: "atom_table \<Rightarrow> atom_id set option \<Rightarrow> atom_id set" where
  "icf_scope tb live = (case live of Some l \<Rightarrow> l | None \<Rightarrow> set (map fst (atoms_iter tb)))"

lemma atoms_iter_nonzero: "length (tb_atoms tb) < 2 ^ 32 \<Longrightarrow> 0 \<notin> fst ` set (atoms_iter tb)"
proof -
  assume n: "length (tb_atoms tb) < 2 ^ 32"
  have "(of_nat (i + 1) :: 32 word) \<noteq> 0" if "i < length (tb_atoms tb)" for i
  proof
    assume "(of_nat (i + 1) :: 32 word) = 0"
    then have "unat (of_nat (i + 1) :: 32 word) = 0" by simp
    then show False unfolding unat_of_nat using that n by simp
  qed
  then show ?thesis by (force simp: atoms_iter_def)
qed

text \<open>Marking changes flags only.\<close>

lemma set_address_taken_symbols: "set_address_taken xs tb = Ok tb' \<Longrightarrow> map atom_symbols (tb_atoms tb') = map atom_symbols (tb_atoms tb)"
proof (induction xs arbitrary: tb)
  case (Cons x xs)
  then obtain tb1 where 1: "update_atom x (\<lambda>a. a\<lparr>at_flags := af_set AF_ADDRESS_TAKEN (at_flags a)\<rparr>) tb = (Ok tb1 :: atom_table checked)"
    and 2: "set_address_taken xs tb1 = Ok tb'" by (auto simp: rbind_Ok_iff)
  from 1 have "map atom_symbols (tb_atoms tb1) = map atom_symbols (tb_atoms tb)"
    by (auto simp: update_atom_def rbind_Ok_iff map_update atom_symbols_def index_def list_update_same_conv split: if_splits)
  then show ?case using Cons.IH [OF 2] by simp
qed simp

lemma owners_bound_marked:
  assumes "map atom_symbols (tb_atoms tb') = map atom_symbols (tb_atoms tb)" and "owners_bound tb t kept"
  shows "owners_bound tb' t kept"
proof -
  have l: "length (tb_atoms tb') = length (tb_atoms tb)" using map_eq_imp_length_eq [OF assms(1)] .
  have "atom_symbols (tb_atoms tb' ! i) = atom_symbols (tb_atoms tb ! i)" if "i < length (tb_atoms tb)" for i
    using arg_cong [OF assms(1), of "\<lambda>xs. xs ! i"] that l by simp
  then show ?thesis using assms(2) unfolding owners_bound_def atoms_iter_def by (auto simp: l)
qed

text \<open>A finished folding state gives a sound plan.\<close>

definition sound_fold where
  "sound_fold inputs names cache tb K kept rd t \<longleftrightarrow>
     kept \<inter> dom rd = {} \<and> kept \<union> dom rd = K
     \<and> (\<forall>l w. rd l = Some w \<longrightarrow> l \<noteq> w \<and> identical inputs names cache t tb l w)
     \<and> (\<forall>a \<in> K. \<exists>c \<in> kept. canonical_atom rd a = Some c \<and> (a = c \<or> identical inputs names cache t tb a c))
     \<and> (\<forall>s \<in> set (symbols t). settled rd s)"

lemma icf_inv_sound:
  assumes "icf_inv cx K N st" and "distinct (map fst (atoms_iter (cx_atoms cx)))" and "cx_sections cx = output_section_cache (cx_inputs cx)"
    and "rebind_symbols_to_canonical_winners (ic_redirects st) (ic_symbols st) = Ok t" and "N \<le> 2 ^ 32"
  shows "sound_fold (cx_inputs cx) (cx_names cx) (cx_relocs cx) (cx_atoms cx) K (ic_kept st) (ic_redirects st) t"
proof -
  let ?rd = "ic_redirects st" and ?I = "identical (cx_inputs cx) (cx_names cx) (cx_relocs cx) t (cx_atoms cx)"
  have i: "ic_kept st \<inter> dom ?rd = {}" "ic_kept st \<union> dom ?rd = K" "acyclic (redirect_rel ?rd)" "length (symbols (ic_symbols st)) = N"
    "0 \<notin> fst ` set (atoms_iter (cx_atoms cx))"
    "\<And>l w. ?rd l = Some w \<Longrightarrow> l \<noteq> w \<and> w \<in> K \<and> twins cx st l w" using assms(1) unfolding icf_inv_def by blast+
  have nz: "\<forall>l w. ?rd l = Some w \<longrightarrow> w \<noteq> 0" using i(5,6) unfolding twins_def by force
  note rb = rebind_places [OF assms(4) i(3) _ nz] 
  have pl: "symbol_place t = place_in st" "map exported_def (symbols t) = map exported_def (symbols (ic_symbols st))"
    using rb i(4) assms(5) by (simp_all add: place_in_def fun_eq_iff)
  have eqv: "\<forall>l w. ?rd l = Some w \<longrightarrow> ?I l w" using i(6) twins_identical [OF _ assms(3) pl(2,1)] by blast
  have "\<exists>c \<in> ic_kept st. canonical_atom ?rd a = Some c \<and> (a = c \<or> ?I a c)" if "a \<in> K" for a
  proof -
    obtain c where c: "canonical_atom ?rd a = Some c" "(a, c) \<in> (redirect_rel ?rd)\<^sup>*" "c \<notin> dom ?rd" using canonical_returns [OF i(3)] by blast
    have "c \<in> K" using c(2) that by (cases rule: rtranclE) (auto simp: redirect_rel_def dest: i(6))
    then have "c \<in> ic_kept st" using c(3) i(2) by blast
    then show ?thesis using c(1) winners_identical [OF assms(2) eqv c(2)] by blast
  qed
  moreover have "\<forall>s \<in> set (symbols t). settled ?rd s" using rebind_settles [OF assms(4) i(3)] i(4) assms(5) by simp
  ultimately show ?thesis unfolding sound_fold_def using i(1,2,6) eqv by simp
qed

text \<open>
  C25: identical code folding is sound and ends, for a program whose scope's atoms own only symbols that are
  bound to them. Whatever order the hash map hands the buckets out in, the
  folding loop returns and no redirect chain is endless. Kept and folded atoms partition the atoms
  the pass started from; a folded atom differs from its winner and has the same section, size, alignment,
  flags, bytes, output section and relocations, each relocation and each subtrahend leading, in the rebound symbol
  table, to the same atom, value, symbol or section; neither has its address taken, is kept by force or has an exported symbol;
  following the redirects from any atom of the scope reaches an identical kept atom; and no symbol of the
  rebound table is bound to a folded atom. (Two symbols of one atom lead to the same atom: the position inside
  it is not compared, by the code either.)
\<close>

theorem fold_safe_sound:
  assumes "\<forall>xs. mset (order xs) = mset xs" and "length (tb_atoms tb) < 2 ^ 32" and "length (symbols t) \<le> 2 ^ 32"
    and "owners_bound tb t (icf_scope tb live)"
  shows "\<exists>r. fold_safe order inputs tb t live = Some r \<and> r \<noteq> Err IcfDiverges
    \<and> (\<forall>plan tb1 t1. r = Ok (plan, tb1, t1) \<longrightarrow>
        (\<exists>cache names. reloc_cache inputs = Ok cache \<and> resolved_symbol_map t = Ok names
           \<and> sound_fold inputs names cache tb1 (icf_scope tb live) (ip_kept_atoms plan) (ip_redirects plan) t1))"
proof -
  define front where "front = rbind (into_icf (resolved_symbol_map t)) (\<lambda>names.
    rbind (reloc_cache inputs) (\<lambda>cache.
    rbind (into_icf (mark_address_taken inputs t names cache tb)) (\<lambda>tb1.
    Ok \<lparr>cx_inputs = inputs, cx_atoms = tb1, cx_names = names, cx_relocs = cache, cx_sections = output_section_cache inputs\<rparr>)))"
  have ef: "ends front" unfolding front_def by (auto intro!: ends_intro ends_reloc_cache)
  show ?thesis
  proof (cases front)
    case (Err e)
    then show ?thesis using ef unfolding fold_safe_def front_def [symmetric] by simp
  next
    case Panic
    then show ?thesis unfolding fold_safe_def front_def [symmetric] by simp
  next
    case (Ok cx)
    then obtain cache names where c: "reloc_cache inputs = Ok cache" "cx_relocs cx = cache" "cx_inputs cx = inputs"
      "cx_sections cx = output_section_cache inputs" "mark_address_taken inputs t names cache tb = Ok (cx_atoms cx)"
      "resolved_symbol_map t = Ok names" "cx_names cx = names"
      unfolding front_def by (auto simp: rbind_Ok_iff into_icf_Ok_iff)
    have len: "length (tb_atoms (cx_atoms cx)) = length (tb_atoms tb)" using mark_address_taken_length [OF c(5)] .
    have d: "distinct (map fst (atoms_iter (cx_atoms cx)))" and nz: "0 \<notin> fst ` set (atoms_iter (cx_atoms cx))"
      using len assms(2) by (intro atoms_iter_distinct atoms_iter_nonzero; simp)+
    have sc: "icf_scope (cx_atoms cx) live = icf_scope tb live" using len by (simp add: icf_scope_def atoms_iter_def o_def split: option.splits)
    have ob: "owners_bound (cx_atoms cx) t (icf_scope tb live)"
      using c(5) assms(4) by (auto simp: mark_address_taken_def Let_def rbind_Ok_iff intro: owners_bound_marked set_address_taken_symbols)
    define st0 where "st0 = \<lparr>ic_kept = icf_scope tb live, ic_redirects = Map.empty, ic_symbols = t\<rparr>"
    have "icf_inv cx (icf_scope tb live) (length (symbols t)) st0"
      using nz ob by (simp add: icf_inv_def st0_def redirect_rel_def acyclic_def)
    from fold_loop_returns [OF this d assms(1)] obtain r where r: "fold_loop order cx st0 = Some r" "ends r"
      "\<And>st. r = Ok st \<Longrightarrow> icf_inv cx (icf_scope tb live) (length (symbols t)) st" by blast
    define fin where "fin = (\<lambda>st :: icf_state. rbind (rebind_symbols_to_canonical_winners (ic_redirects st) (ic_symbols st)) (\<lambda>t1.
      Ok (\<lparr>ip_kept_atoms = ic_kept st, ip_redirects = ic_redirects st\<rparr>, cx_atoms cx, t1)) :: (icf_plan \<times> atom_table \<times> symbol_table) icf)"
    have fs: "fold_safe order inputs tb t live = Some (rbind r fin)"
      using r(1) Ok unfolding fold_safe_def front_def [symmetric] by (simp add: st0_def sc [symmetric] fin_def) (simp add: icf_scope_def)
    have "ends (rbind r fin)" using r(2,3) unfolding fin_def
      by (auto intro!: ends_rbind ends_canonical_rebind simp: icf_inv_def)
    moreover have "sound_fold inputs names cache tb1 (icf_scope tb live) (ip_kept_atoms plan) (ip_redirects plan) t1"
      if "rbind r fin = Ok (plan, tb1, t1)" for plan tb1 t1
      using that icf_inv_sound [OF r(3) d, of _ t1] assms(3) c(2-4,7) by (auto simp: fin_def rbind_Ok_iff)
    ultimately show ?thesis using fs c(1,6) by (simp add: ends_def)
  qed
qed

text \<open>
  A sample: two equal functions \<open>_x\<close> and \<open>_y\<close>, a caller of each with the same code, and a third caller with that
  code which jumps elsewhere. Folding \<open>_y\<close> onto \<open>_x\<close> makes the first two callers equal in the next round; the third stays.
\<close>

definition callers_object :: object_file where
  "callers_object = sample_object\<lparr>
     ob_sections := [(sample_section TEXT (bstr ''__text'') KText)\<lparr>is_size := 20, is_nreloc := 3, is_raw_relocs :=
       [8, 0, 0, 0, 0, 0, 0, 0x2D, 12, 0, 0, 0, 1, 0, 0, 0x2D, 16, 0, 0, 0, 2, 0, 0, 0x2D]\<rparr>],
     ob_symbols := [\<lparr>strx = 1, n_type = 0x1F, n_sect = 1, n_desc = 0, n_value = 0\<rparr>,
       \<lparr>strx = 4, n_type = 0x1F, n_sect = 1, n_desc = 0, n_value = 4\<rparr>,
       \<lparr>strx = 7, n_type = 0x0E, n_sect = 1, n_desc = 0, n_value = 16\<rparr>],
     ob_strings := \<lparr>raw = [0, 95, 120, 0, 95, 121, 0, 95, 122, 0]\<rparr>\<rparr>"

definition callers_inputs :: "layout_input list" where
  "callers_inputs = [\<lparr>li_id = 0, li_object = callers_object, li_load_order = 0, li_archive_member_offset = None\<rparr>]"

definition callers_table :: atom_table where
  "callers_table = \<lparr>tb_atoms =
     [(record_atom 0 1 AText 0 4 2 [0xC0, 3, 0x5F, 0xD6] 0)\<lparr>at_id := 1, at_owner := Some 0\<rparr>,
      (record_atom 0 1 AText 4 4 2 [0xC0, 3, 0x5F, 0xD6] 0)\<lparr>at_id := 2, at_owner := Some 1\<rparr>,
      (record_atom 0 1 AText 8 4 2 [0, 0, 0, 0x14] 0)\<lparr>at_id := 3\<rparr>,
      (record_atom 0 1 AText 12 4 2 [0, 0, 0, 0x14] 0)\<lparr>at_id := 4\<rparr>,
      (record_atom 0 1 AText 16 4 2 [0, 0, 0, 0x14] 0)\<lparr>at_id := 5\<rparr>]\<rparr>"

definition callers_symbols :: symbol_table where
  "callers_symbols =
     snd (push_new (Defined 1 0 2 0 False True False) (snd (push_new (Defined 0 0 1 0 False True False)
       (snd (table_intern [95, 121] (snd (table_intern [95, 120] table_new)))))))"

declare usize_max_def [code del]
declare canonical_atom.simps [code] fold_loop.simps [code]

lemma callers_fold:
  "map_option (rmap (\<lambda>(plan, _, _). map (ip_redirects plan) [1, 2, 3, 4, 5]))
     (fold_safe rev callers_inputs callers_table callers_symbols None) = Some (Ok [None, Some 1, None, Some 3, None])"
  by code_simp

lemma callers_bound: "owners_bound callers_table callers_symbols (icf_scope callers_table None)"
  unfolding owners_bound_def by code_simp

theorem fold_safe_sound_witness:
  "\<exists>plan tb1 t1 cache names. fold_safe rev callers_inputs callers_table callers_symbols None = Some (Ok (plan, tb1, t1))
     \<and> ip_redirects plan 4 = Some 3 \<and> ip_redirects plan 5 = None \<and> 3 \<in> ip_kept_atoms plan
     \<and> reloc_cache callers_inputs = Ok cache \<and> resolved_symbol_map callers_symbols = Ok names
     \<and> identical callers_inputs names cache t1 tb1 4 3"
proof -
  have h: "\<forall>xs :: atom_id list list. mset (rev xs) = mset xs" "length (tb_atoms callers_table) < 2 ^ 32" "length (symbols callers_symbols) \<le> 2 ^ 32"
    by (simp_all add: callers_table_def callers_symbols_def push_new_def Let_def table_intern_def table_new_def split_beta)
  obtain plan tb1 t1 where p: "fold_safe rev callers_inputs callers_table callers_symbols None = Some (Ok (plan, tb1, t1))"
    "ip_redirects plan 3 = None" "ip_redirects plan 4 = Some 3" "ip_redirects plan 5 = None" using callers_fold by (auto simp: rmap_Ok_iff)
  from fold_safe_sound [OF h callers_bound, of callers_inputs] p(1) obtain cache names where c: "reloc_cache callers_inputs = Ok cache"
    "resolved_symbol_map callers_symbols = Ok names"
    "sound_fold callers_inputs names cache tb1 (icf_scope callers_table None) (ip_kept_atoms plan) (ip_redirects plan) t1" by auto
  have "identical callers_inputs names cache t1 tb1 4 3" using c(3) p(3) unfolding sound_fold_def by blast
  moreover have "3 \<in> icf_scope callers_table None" by (simp add: icf_scope_def atoms_iter_def callers_table_def upt_rec)
  then have "3 \<in> ip_kept_atoms plan" using c(3) p(2) unfolding sound_fold_def by blast
  ultimately show ?thesis using p c(1,2) by blast
qed

end
