(* ===== verification/Archive.thy ===== *)
theory Archive
  imports Object_File
begin

text \<open>
  The static-archive reader of \<^verbatim>\<open>src/archive.rs\<close>: member headers, BSD, SysV and GNU-thin names, the
  three symbol-index formats, and loading a member, for thin archives from other files. A path is its
  bytes; the file system is an argument (\<open>fs\<close>), so that a failed read is a value. The \<^verbatim>\<open>std::path\<close>
  functions the loader uses are modelled for Unix paths.
\<close>

section \<open>Errors and data\<close>

datatype archive_error =
    ArTruncated nat nat string
  | ArBadMagic bytes
  | BadEntryFooter nat
  | BadAsciiField nat string
  | MemberOverrun nat u64
  | LongNameOob nat u64
  | BadSymbolIndex string
  | BadName nat

type_synonym 'a ar = "(archive_error, 'a) result"

datatype flavor = Bsd | Sysv | GnuThin

definition AR_MAGIC :: bytes where "AR_MAGIC = bstr ''!<arch>'' @ [10]"
definition AR_MAGIC_THIN :: bytes where "AR_MAGIC_THIN = bstr ''!<thin>'' @ [10]"
definition AR_FMAG :: bytes where "AR_FMAG = [0x60, 10]"

abbreviation (input) AR_HDR_SIZE :: nat where "AR_HDR_SIZE \<equiv> 60"

record ar_header =
  ah_name :: bytes
  ah_date :: bytes
  ah_uid :: bytes
  ah_gid :: bytes
  ah_mode :: bytes
  ah_size :: u64

datatype special_member = NotSpecial | BsdSymIndex | SysvSymIndex | SysvSymIndex64 | SysvLongNames

record member =
  mb_name :: str
  mb_nested_member_offset :: "u64 option"
  mb_header_offset :: nat
  mb_body_offset :: nat
  mb_body :: bytes
  mb_special :: special_member

record symbol_index_entry =
  ie_name :: str
  ie_member_header_offset :: u64

type_synonym symbol_index = "symbol_index_entry list"

record archive =
  ar_path :: str
  ar_flavor :: flavor
  ar_data :: bytes
  ar_members :: "member list"
  ar_member_by_offset :: "u64 \<rightharpoonup> nat"
  ar_symbol_index :: "symbol_index option"

section \<open>Helpers\<close>

definition trim_trailing :: "('a \<Rightarrow> bool) \<Rightarrow> 'a list \<Rightarrow> 'a list" where
  "trim_trailing p xs = rev (dropWhile p (rev xs))"

definition trim_ascii_bytes :: "bytes \<Rightarrow> bytes" where
  "trim_ascii_bytes b = trim_trailing (\<lambda>x. x = 0x20 \<or> x = 0) b"

definition is_ascii_digit :: "u8 \<Rightarrow> bool" where
  "is_ascii_digit b \<longleftrightarrow> 0x30 \<le> b \<and> b \<le> 0x39"

definition dec_value :: "bytes \<Rightarrow> int" where
  "dec_value ds = foldl (\<lambda>n d. 10 * n + (uint d - 48)) 0 ds"

text \<open>\<^verbatim>\<open>str::parse::<u64>\<close>: an optional plus sign, digits, and no overflow.\<close>

definition parse_u64 :: "str \<Rightarrow> u64 option" where
  "parse_u64 s =
     (let ds = (case s of b # r \<Rightarrow> if b = 0x2B \<and> r \<noteq> [] then r else s | [] \<Rightarrow> []) in
      if ds = [] \<or> \<not> list_all is_ascii_digit ds then None
      else if dec_value ds < 2 ^ 64 then Some (word_of_int (dec_value ds)) else None)"

definition ascii_decimal :: "bytes \<Rightarrow> u64 option" where
  "ascii_decimal b =
     (let s = trim_ascii_bytes b in
      if \<not> utf8_valid s then None else if s = [] then Some 0 else parse_u64 s)"

definition parse_ascii_u64 :: "bytes \<Rightarrow> u64 option" where
  "parse_ascii_u64 b = (if utf8_valid b then parse_u64 b else None)"

definition parse_ascii_usize :: "bytes \<Rightarrow> nat option" where
  "parse_ascii_usize b = map_option unat (parse_ascii_u64 b)"

fun split_on :: "('a \<Rightarrow> bool) \<Rightarrow> 'a list \<Rightarrow> 'a list list" where
  "split_on p [] = [[]]"
| "split_on p (x # xs) =
     (if p x then [] # split_on p xs else (case split_on p xs of y # ys \<Rightarrow> (x # y) # ys | [] \<Rightarrow> [[x]]))"

definition digits :: "bytes \<Rightarrow> bool" where
  "digits b \<longleftrightarrow> b \<noteq> [] \<and> list_all is_ascii_digit b"

definition strip_prefix :: "bytes \<Rightarrow> bytes \<Rightarrow> bytes option" where
  "strip_prefix pre b = (if take (length pre) b = pre then Some (drop (length pre) b) else None)"

definition strip_suffix :: "u8 \<Rightarrow> bytes \<Rightarrow> bytes option" where
  "strip_suffix c b = (if b \<noteq> [] \<and> last b = c then Some (butlast b) else None)"

definition is_sysv_name_reference :: "bytes \<Rightarrow> bool" where
  "is_sysv_name_reference b =
     (case strip_prefix [0x2F] b of
        None \<Rightarrow> False
      | Some rest \<Rightarrow>
          (case split_on (\<lambda>x. x = 0x3A) rest of
             [pos] \<Rightarrow> digits pos
           | [pos, off] \<Rightarrow> digits pos \<and> digits off
           | _ \<Rightarrow> False))"

text \<open>On Unix every byte string is a path.\<close>

definition archive_name_path :: "bytes \<Rightarrow> nat \<Rightarrow> str ar" where
  "archive_name_path b where_at = Ok b"

section \<open>Headers\<close>

definition parse_ar_header :: "bytes \<Rightarrow> nat \<Rightarrow> ar_header ar" where
  "parse_ar_header b where_at =
     (if length b < AR_HDR_SIZE then Err (ArTruncated AR_HDR_SIZE (length b) ''ar_hdr'')
      else
        rbind (slice 58 60 b) (\<lambda>fmag.
        if fmag \<noteq> AR_FMAG then Err (BadEntryFooter where_at)
        else
          rbind (slice 48 58 b) (\<lambda>sz.
          rbind (ok_or (BadAsciiField where_at ''size'') (ascii_decimal sz)) (\<lambda>n.
          rbind (slice 0 16 b) (\<lambda>nm.
          rbind (slice 16 28 b) (\<lambda>date.
          rbind (slice 28 34 b) (\<lambda>uid.
          rbind (slice 34 40 b) (\<lambda>gid.
          rbind (slice 40 48 b) (\<lambda>mode.
          Ok \<lparr>ah_name = nm, ah_date = date, ah_uid = uid, ah_gid = gid, ah_mode = mode, ah_size = n\<rparr>)))))))))"

definition raw_name_bytes :: "ar_header \<Rightarrow> bytes" where
  "raw_name_bytes h =
     (let trimmed = trim_ascii_bytes (ah_name h) in
      case strip_suffix 0x2F trimmed of
        None \<Rightarrow> trimmed
      | Some w \<Rightarrow>
          let candidate = trim_ascii_bytes w in
          if is_sysv_name_reference candidate then candidate else trimmed)"

definition raw_name_str :: "ar_header \<Rightarrow> str option" where
  "raw_name_str h = (if utf8_valid (raw_name_bytes h) then Some (raw_name_bytes h) else None)"

definition detect_flavor :: "bytes \<Rightarrow> flavor ar" where
  "detect_flavor data =
     (if length data < 8 then Err (ArTruncated 8 (length data) ''archive magic'')
      else
        let head = take 8 data in
        if head = AR_MAGIC then Ok Bsd
        else if head = AR_MAGIC_THIN then Ok GnuThin
        else Err (ArBadMagic head))"

section \<open>Members\<close>

definition decode_long_name :: "bytes \<Rightarrow> u64 \<Rightarrow> nat \<Rightarrow> str ar" where
  "decode_long_name table pos where_at =
     (let start = unat pos in
      if start \<ge> length table then Err (LongNameOob where_at pos)
      else
        let fin = (case position (\<lambda>b. b = 0 \<or> b = 10) (drop start table) of
                     Some i \<Rightarrow> start + i | None \<Rightarrow> length table);
            trimmed = (if fin > 0 \<and> table ! (fin - 1) = 0x2F then fin - 1 else fin) in
        rbind (slice start trimmed table) (\<lambda>nm. archive_name_path nm where_at))"

definition thin_member_has_body :: "bytes \<Rightarrow> bool" where
  "thin_member_has_body raw_name \<longleftrightarrow> raw_name \<in> {[0x2F], bstr ''/SYM64/'', bstr ''//''}"

record decoded_member =
  dm_name :: str
  dm_nested_member_offset :: "u64 option"
  dm_body_offset :: nat
  dm_body :: bytes
  dm_special :: special_member

text \<open>A member whose body is stored whole behind its header.\<close>

definition whole_member :: "bytes \<Rightarrow> nat \<Rightarrow> nat \<Rightarrow> special_member \<Rightarrow> u64 option \<Rightarrow> str \<Rightarrow> decoded_member ar" where
  "whole_member data body_start sz special nested nm =
     rbind (slice body_start (body_start + sz) data) (\<lambda>body.
     Ok \<lparr>dm_name = nm, dm_nested_member_offset = nested, dm_body_offset = body_start, dm_body = body, dm_special = special\<rparr>)"

definition decode_bsd_extended :: "bytes \<Rightarrow> bytes \<Rightarrow> nat \<Rightarrow> nat \<Rightarrow> nat \<Rightarrow> decoded_member ar" where
  "decode_bsd_extended rest data body_start sz header_offset =
     rbind (ok_or (BadAsciiField header_offset ''#1/<N>'') (parse_ascii_usize rest)) (\<lambda>nlen.
     rbind (expect (checked_add body_start nlen)) (\<lambda>name_end.
     if name_end > length data \<or> nlen > sz then Err (MemberOverrun header_offset (of_nat sz))
     else
       rbind (slice body_start name_end data) (\<lambda>padded.
       let name_bytes = trim_trailing (\<lambda>x. x = 0) padded in
       rbind (archive_name_path name_bytes header_offset) (\<lambda>nm.
       rbind (slice name_end (body_start + sz) data) (\<lambda>body.
       Ok \<lparr>dm_name = nm, dm_nested_member_offset = None, dm_body_offset = name_end, dm_body = body,
           dm_special = (if name_bytes = bstr ''__.SYMDEF'' \<or> name_bytes = bstr ''__.SYMDEF SORTED'' then BsdSymIndex
                         else NotSpecial)\<rparr>)))))"

text \<open>A \<open>/NNN\<close> reference into the long-name table, in thin archives also \<open>/NNN:MMM\<close>.\<close>

definition long_name_reference :: "bytes \<Rightarrow> flavor \<Rightarrow> (bytes \<times> bytes option) option" where
  "long_name_reference raw_name fl =
     (case strip_prefix [0x2F] raw_name of
        None \<Rightarrow> None
      | Some rest \<Rightarrow>
          let (ref_bytes, nested) =
            (case position (\<lambda>b. b = 0x3A) rest of
               Some colon \<Rightarrow> if fl = GnuThin then (take colon rest, Some (drop (colon + 1) rest)) else (rest, None)
             | None \<Rightarrow> (rest, None)) in
          if digits ref_bytes then Some (ref_bytes, nested) else None)"

definition nested_offset :: "nat \<Rightarrow> bytes option \<Rightarrow> u64 option ar" where
  "nested_offset header_offset nested =
     (case nested of
        None \<Rightarrow> Ok None
      | Some b \<Rightarrow>
          if \<not> digits b then Err (BadAsciiField header_offset ''/NNN:MMM'')
          else rmap Some (ok_or (BadAsciiField header_offset ''/NNN:MMM'') (parse_ascii_u64 b)))"

definition decode_member ::
  "bytes \<Rightarrow> bytes \<Rightarrow> nat \<Rightarrow> nat \<Rightarrow> flavor \<Rightarrow> bytes option \<Rightarrow> nat \<Rightarrow> decoded_member ar" where
  "decode_member raw_name data body_start sz fl long_names header_offset =
     (case strip_prefix (bstr ''#1/'') raw_name of
        Some rest \<Rightarrow> decode_bsd_extended rest data body_start sz header_offset
      | None \<Rightarrow>
          if raw_name = [0x2F] then whole_member data body_start sz SysvSymIndex None [0x2F]
          else if raw_name = bstr ''/SYM64/'' then whole_member data body_start sz SysvSymIndex64 None (bstr ''/SYM64/'')
          else if raw_name = bstr ''//'' then whole_member data body_start sz SysvLongNames None (bstr ''//'')
          else case long_name_reference raw_name fl of
            Some (ref_bytes, nested) \<Rightarrow>
              rbind (ok_or (BadAsciiField header_offset ''/NNN'') (parse_ascii_u64 ref_bytes)) (\<lambda>pos.
              rbind (ok_or (LongNameOob header_offset pos) long_names) (\<lambda>table.
              rbind (decode_long_name table pos header_offset) (\<lambda>nm.
              rbind (nested_offset header_offset nested) (\<lambda>nested.
              whole_member data body_start sz NotSpecial nested nm))))
          | None \<Rightarrow>
              if fl = GnuThin then
                rbind (archive_name_path (case strip_suffix 0x2F raw_name of Some s \<Rightarrow> s | None \<Rightarrow> raw_name) header_offset) (\<lambda>nm.
                whole_member data body_start 0 NotSpecial None nm)
              else
                rbind (archive_name_path (case strip_suffix 0x2F raw_name of Some s \<Rightarrow> s | None \<Rightarrow> raw_name) header_offset) (\<lambda>nm.
                whole_member data body_start sz NotSpecial None nm))"

definition member_stored_size :: "flavor \<Rightarrow> ar_header \<Rightarrow> nat" where
  "member_stored_size fl h = (if fl = GnuThin \<and> \<not> thin_member_has_body (raw_name_bytes h) then 0 else unat (ah_size h))"

function parse_members_loop :: "bytes \<Rightarrow> flavor \<Rightarrow> bytes option \<Rightarrow> nat \<Rightarrow> (member list \<times> flavor) ar" where
  "parse_members_loop data fl long_names cursor =
     (if cursor < length data then
        if cursor + AR_HDR_SIZE > length data then Err (ArTruncated AR_HDR_SIZE (length data - cursor) ''ar_hdr'')
        else
          rbind (slice cursor (cursor + AR_HDR_SIZE) data) (\<lambda>hb.
          rbind (parse_ar_header hb cursor) (\<lambda>hdr.
          let stored = member_stored_size fl hdr; body_start = cursor + AR_HDR_SIZE in
          rbind (ok_or (MemberOverrun cursor (ah_size hdr)) (checked_add body_start stored)) (\<lambda>body_end.
          if body_end > length data then Err (MemberOverrun cursor (ah_size hdr))
          else
            rbind (decode_member (raw_name_bytes hdr) data body_start stored fl long_names cursor) (\<lambda>d.
            let special = dm_special d;
                fl' = (if fl = Bsd \<and> special \<in> {SysvSymIndex, SysvSymIndex64, SysvLongNames} then Sysv else fl);
                names' = (if special = SysvLongNames then Some (dm_body d) else long_names);
                m = \<lparr>mb_name = dm_name d, mb_nested_member_offset = dm_nested_member_offset d, mb_header_offset = cursor,
                     mb_body_offset = dm_body_offset d, mb_body = dm_body d, mb_special = special\<rparr> in
            rbind (ok_or (MemberOverrun cursor (ah_size hdr)) (checked_add cursor (AR_HDR_SIZE + stored + stored mod 2))) (\<lambda>next.
            rbind (parse_members_loop data fl' names' next) (\<lambda>(ms, fl_end). Ok (m # ms, fl_end)))))))
      else Ok ([], fl))"
  by pat_completeness auto
termination
  by (relation "measure (\<lambda>(data, _, _, cursor). length data - cursor)") (auto simp: checked_add_eq_Some)

declare parse_members_loop.simps [simp del]

definition parse_members :: "bytes \<Rightarrow> flavor \<Rightarrow> (member list \<times> flavor) ar" where
  "parse_members data initial_flavor = parse_members_loop data initial_flavor None (length AR_MAGIC)"

section \<open>Symbol indexes\<close>

definition first_defining_offset :: "symbol_index \<Rightarrow> str \<Rightarrow> u64 option" where
  "first_defining_offset ix nm = map_option ie_member_header_offset (find (\<lambda>e. ie_name e = nm) ix)"

definition offsets_for :: "symbol_index \<Rightarrow> str \<Rightarrow> u64 list" where
  "offsets_for ix nm = map ie_member_header_offset (filter (\<lambda>e. ie_name e = nm) ix)"

text \<open>The NUL-terminated UTF-8 name that starts at \<open>start\<close>, and where it ends.\<close>

definition index_name :: "string \<Rightarrow> string \<Rightarrow> bytes \<Rightarrow> nat \<Rightarrow> (str \<times> nat) ar" where
  "index_name unterminated not_utf8 strings start =
     rbind (slice start (length strings) strings) (\<lambda>tail.
     rbind (ok_or (BadSymbolIndex unterminated) (position (\<lambda>b. b = 0) tail)) (\<lambda>i.
     rbind (slice start (start + i) strings) (\<lambda>nm.
     if utf8_valid nm then Ok (nm, start + i) else Err (BadSymbolIndex not_utf8))))"

definition ranlib_entry :: "bytes \<Rightarrow> bytes \<Rightarrow> nat \<Rightarrow> symbol_index_entry ar" where
  "ranlib_entry body strings off =
     rbind (rd32 off body) (\<lambda>start.
     rbind (rd32 (off + 4) body) (\<lambda>mh_off.
     if unat start \<ge> length strings then Err (BadSymbolIndex ''ranlib strx out of bounds'')
     else
       rbind (index_name ''ranlib name not null-terminated'' ''ranlib name not UTF-8'' strings (unat start)) (\<lambda>(nm, _).
       Ok \<lparr>ie_name = nm, ie_member_header_offset = ucast mh_off\<rparr>)))"

definition parse_bsd_symbol_index :: "bytes \<Rightarrow> symbol_index ar" where
  "parse_bsd_symbol_index body =
     (if length body < 8 then Err (BadSymbolIndex ''__.SYMDEF shorter than 8-byte header'')
      else
        rbind (rd32 0 body) (\<lambda>rb.
        let ranlib_bytes = unat rb in
        if ranlib_bytes mod 8 \<noteq> 0 then Err (BadSymbolIndex ''__.SYMDEF ranlib byte count not a multiple of 8'')
        else
          rbind (ok_or (BadSymbolIndex ''__.SYMDEF ranlib region overflows'') (checked_add 4 ranlib_bytes)) (\<lambda>ranlib_end.
          if ranlib_end + 4 > length body then Err (BadSymbolIndex ''__.SYMDEF ranlib + stringsize region overruns member'')
          else
            rbind (rd32 ranlib_end body) (\<lambda>stringsize.
            let strings_start = ranlib_end + 4 in
            rbind (ok_or (BadSymbolIndex ''__.SYMDEF strings region overflows'') (checked_add strings_start (unat stringsize))) (\<lambda>strings_end.
            if strings_end > length body then Err (BadSymbolIndex ''__.SYMDEF strings region overruns member'')
            else
              rbind (slice strings_start strings_end body) (\<lambda>strings.
              mapM (\<lambda>i. ranlib_entry body strings (4 + 8 * i)) [0..<ranlib_bytes div 8]))))))"

text \<open>
  The two SysV formats differ in the width of a field and in the wording of the errors: \<open>width\<close> is 4
  or 8, and the names are read one after the other.
\<close>

definition be_field :: "nat \<Rightarrow> nat \<Rightarrow> bytes \<Rightarrow> u64 ar" where
  "be_field width off body = rbind (slice off (off + width) body) (\<lambda>b. Ok (from_be b))"

fun sysv_entries :: "string \<Rightarrow> nat \<Rightarrow> bytes \<Rightarrow> bytes \<Rightarrow> nat list \<Rightarrow> nat \<Rightarrow> symbol_index ar" where
  "sysv_entries label width body strings [] cursor = Ok []"
| "sysv_entries label width body strings (i # is') cursor =
     rbind (be_field width (width + i * width) body) (\<lambda>mh_off.
     if cursor \<ge> length strings then Err (BadSymbolIndex (label @ '' symbol-index names exhausted before nsyms satisfied''))
     else
       rbind (index_name (label @ '' symbol-index name not null-terminated'') (label @ '' symbol-index name not UTF-8'') strings cursor) (\<lambda>(nm, fin).
       rbind (sysv_entries label width body strings is' (fin + 1)) (\<lambda>es.
       Ok (\<lparr>ie_name = nm, ie_member_header_offset = mh_off\<rparr> # es))))"

definition parse_sysv_symbol_index :: "bytes \<Rightarrow> symbol_index ar" where
  "parse_sysv_symbol_index body =
     (if length body < 4 then Err (BadSymbolIndex ''SysV symbol index shorter than 4-byte header'')
      else
        rbind (be_field 4 0 body) (\<lambda>n.
        let nsyms = unat n in
        rbind (ok_or (BadSymbolIndex ''SysV symbol-index offsets region overflows'') (checked_add 4 (nsyms * 4))) (\<lambda>offsets_end.
        if offsets_end > length body then Err (BadSymbolIndex ''SysV symbol-index offsets region overruns member'')
        else
          rbind (slice offsets_end (length body) body) (\<lambda>strings.
          sysv_entries ''SysV'' 4 body strings [0..<nsyms] 0))))"

definition parse_sysv_symbol_index64 :: "bytes \<Rightarrow> symbol_index ar" where
  "parse_sysv_symbol_index64 body =
     (if length body < 8 then Err (BadSymbolIndex ''GNU 64-bit symbol index shorter than 8-byte header'')
      else
        rbind (be_field 8 0 body) (\<lambda>n.
        let nsyms = unat n in
        rbind (ok_or (BadSymbolIndex ''GNU 64-bit symbol-index offsets region overflows'')
                 (Option.bind (checked_mul nsyms 8) (checked_add 8))) (\<lambda>offsets_end.
        if offsets_end > length body then Err (BadSymbolIndex ''GNU 64-bit symbol-index offsets region overruns member'')
        else
          rbind (slice offsets_end (length body) body) (\<lambda>strings.
          sysv_entries ''GNU 64-bit'' 8 body strings [0..<nsyms] 0))))"

fun build_symbol_index :: "member list \<Rightarrow> symbol_index option ar" where
  "build_symbol_index [] = Ok None"
| "build_symbol_index (m # ms) =
     (case mb_special m of
        BsdSymIndex \<Rightarrow> rmap Some (parse_bsd_symbol_index (mb_body m))
      | SysvSymIndex \<Rightarrow> rmap Some (parse_sysv_symbol_index (mb_body m))
      | SysvSymIndex64 \<Rightarrow> rmap Some (parse_sysv_symbol_index64 (mb_body m))
      | _ \<Rightarrow> build_symbol_index ms)"

section \<open>Archives\<close>

definition archive_open :: "str \<Rightarrow> bytes \<Rightarrow> archive ar" where
  "archive_open path data =
     rbind (detect_flavor data) (\<lambda>initial.
     rbind (parse_members data initial) (\<lambda>(members, fl).
     rbind (build_symbol_index members) (\<lambda>ix.
     Ok \<lparr>ar_path = path, ar_flavor = fl, ar_data = data, ar_members = members,
         ar_member_by_offset = map_of (rev (map (\<lambda>i. (of_nat (mb_header_offset (members ! i)), i)) [0..<length members])),
         ar_symbol_index = ix\<rparr>)))"

definition body_bytes :: "archive \<Rightarrow> bytes" where
  "body_bytes a = drop (length AR_MAGIC) (ar_data a)"

definition object_members :: "archive \<Rightarrow> member list" where
  "object_members a = filter (\<lambda>m. mb_special m = NotSpecial) (ar_members a)"

definition get_at :: "'a list \<Rightarrow> nat \<Rightarrow> 'a option" where
  "get_at xs i = (if i < length xs then Some (xs ! i) else None)"

definition member_at_offset :: "archive \<Rightarrow> u64 \<Rightarrow> member option" where
  "member_at_offset a off = Option.bind (ar_member_by_offset a off) (get_at (ar_members a))"

definition first_member_defining :: "archive \<Rightarrow> str \<Rightarrow> member option" where
  "first_member_defining a nm =
     Option.bind (ar_symbol_index a) (\<lambda>ix. Option.bind (first_defining_offset ix nm) (member_at_offset a))"

section \<open>Unix paths\<close>

text \<open>
  \<^verbatim>\<open>Path::join\<close> and \<^verbatim>\<open>Path::parent\<close>: the components of a path skip empty names and \<open>.\<close>, except a
  leading one; a leading slash is not a name.
\<close>

definition path_join :: "str \<Rightarrow> str \<Rightarrow> str" where
  "path_join base p =
     (if p \<noteq> [] \<and> hd p = 0x2F then p
      else if base = [] \<or> last base = 0x2F then base @ p
      else base @ 0x2F # p)"

definition len_before_body :: "str \<Rightarrow> nat" where
  "len_before_body p =
     (case p of
        [] \<Rightarrow> 0
      | [b] \<Rightarrow> if b = 0x2F \<or> b = 0x2E then 1 else 0
      | b # c # _ \<Rightarrow> if b = 0x2F \<or> (b = 0x2E \<and> c = 0x2F) then 1 else 0)"

text \<open>The last component, with the number of bytes it takes with the slash before it.\<close>

definition last_component :: "str \<Rightarrow> nat \<times> str" where
  "last_component p =
     (let body = drop (len_before_body p) p; c = rev (takeWhile (\<lambda>b. b \<noteq> 0x2F) (rev body)) in
      (length c + (if 0x2F \<in> set body then 1 else 0), c))"

function trim_path :: "str \<Rightarrow> str" where
  "trim_path p =
     (if length p \<le> len_before_body p then p
      else case last_component p of (n, c) \<Rightarrow> if c = [] \<or> c = [0x2E] then trim_path (take (length p - n) p) else p)"
  by pat_completeness auto
termination
proof (relation "measure length")
  fix p n c assume a: "\<not> length p \<le> len_before_body p" "(n, c) = last_component p" "c = [] \<or> c = [0x2E]"
  have "0 < n"
  proof (rule ccontr)
    let ?body = "drop (len_before_body p) p"
    assume "\<not> 0 < n"
    then have e: "takeWhile (\<lambda>b. b \<noteq> 0x2F) (rev ?body) = []" and s: "0x2F \<notin> set ?body"
      using a(2) by (auto simp: last_component_def Let_def split: if_splits)
    have "takeWhile (\<lambda>b. b \<noteq> 0x2F) (rev ?body) = rev ?body" using s by (subst takeWhile_eq_all_conv) auto
    then show False using e a(1) by simp
  qed
  then show "(take (length p - n) p, p) \<in> measure length" using a(1) by simp
qed simp

declare trim_path.simps [simp del]

definition path_parent :: "str \<Rightarrow> str option" where
  "path_parent p =
     (let q = trim_path p in
      if length q > len_before_body q then Some (trim_path (take (length q - fst (last_component q)) q))
      else if q \<noteq> [] \<and> hd q \<noteq> 0x2F then Some []
      else None)"

section \<open>Loading members\<close>

record loaded_member =
  lm_logical_path :: str
  lm_bytes :: bytes

datatype member_load_error =
    MlIo str
  | NestedArchive str archive_error
  | MissingNestedMember str u64
  | NestingTooDeep str
  | CachedMemberOutOfBounds str u64

type_synonym 'a load = "(member_load_error, 'a) result"

abbreviation (input) MAX_THIN_ARCHIVE_NESTING :: nat where "MAX_THIN_ARCHIVE_NESTING \<equiv> 32"

definition inline_member_logical_path :: "str \<Rightarrow> str \<Rightarrow> str" where
  "inline_member_logical_path archive_path member_name = archive_path @ [0x28] @ member_name @ [0x29]"

function load_thin_member :: "(str \<Rightarrow> bytes option) \<Rightarrow> str \<Rightarrow> str \<Rightarrow> u64 option \<Rightarrow> nat \<Rightarrow> loaded_member load"
  and load_member_at_depth :: "(str \<Rightarrow> bytes option) \<Rightarrow> archive \<Rightarrow> member \<Rightarrow> nat \<Rightarrow> loaded_member load" where
  "load_thin_member fs archive_path member_name nested_member_offset depth =
     (let base = (case path_parent archive_path of Some p \<Rightarrow> p | None \<Rightarrow> [0x2E]);
          external_path = path_join base member_name in
      rbind (ok_or (MlIo external_path) (fs external_path)) (\<lambda>bytes.
      case nested_member_offset of
        None \<Rightarrow> Ok \<lparr>lm_logical_path = external_path, lm_bytes = bytes\<rparr>
      | Some member_header_offset \<Rightarrow>
          if MAX_THIN_ARCHIVE_NESTING \<le> depth then Err (NestingTooDeep external_path)
          else
            rbind (rmap_err (NestedArchive external_path) (archive_open external_path bytes)) (\<lambda>nested.
            case member_at_offset nested member_header_offset of
              None \<Rightarrow> Err (MissingNestedMember external_path member_header_offset)
            | Some m \<Rightarrow>
                if mb_special m \<noteq> NotSpecial then Err (MissingNestedMember external_path member_header_offset)
                else load_member_at_depth fs nested m (depth + 1))))"
| "load_member_at_depth fs a m depth =
     (if ar_flavor a \<noteq> GnuThin then
        Ok \<lparr>lm_logical_path = inline_member_logical_path (ar_path a) (mb_name m), lm_bytes = mb_body m\<rparr>
      else load_thin_member fs (ar_path a) (mb_name m) (mb_nested_member_offset m) depth)"
  by pat_completeness auto
termination
  by (relation "measure (\<lambda>x. case x of Inl (_, _, _, _, d) \<Rightarrow> 2 * (32 - d) + 1 | Inr (_, _, _, d) \<Rightarrow> 2 * (32 - d) + 2)") auto

declare load_thin_member.simps [simp del]

definition load_member :: "(str \<Rightarrow> bytes option) \<Rightarrow> archive \<Rightarrow> member \<Rightarrow> loaded_member load" where
  "load_member fs a m = load_member_at_depth fs a m 0"

definition member_bytes :: "(str \<Rightarrow> bytes option) \<Rightarrow> archive \<Rightarrow> member \<Rightarrow> bytes load" where
  "member_bytes fs a m = rmap lm_bytes (load_member fs a m)"

datatype fetch_error = FetchLoad member_load_error | MachOParse str read_error

definition parse_member_object :: "(str \<Rightarrow> bytes option) \<Rightarrow> archive \<Rightarrow> member \<Rightarrow> (fetch_error, object_file) result" where
  "parse_member_object fs a m =
     rbind (rmap_err FetchLoad (load_member fs a m)) (\<lambda>loaded.
     rmap_err (MachOParse (lm_logical_path loaded)) (parse_object (lm_logical_path loaded) (lm_bytes loaded)))"

definition fetch_object_defining :: "(str \<Rightarrow> bytes option) \<Rightarrow> archive \<Rightarrow> str \<Rightarrow> (fetch_error, object_file) result option" where
  "fetch_object_defining fs a nm = map_option (parse_member_object fs a) (first_member_defining a nm)"

section \<open>Cached metadata\<close>

record archive_member_metadata =
  am_name :: str
  am_nested_member_offset :: "u64 option"
  am_header_offset :: u64
  am_body_offset :: nat
  am_body_len :: nat
  am_special :: special_member

record archive_metadata =
  amd_flavor :: flavor
  amd_members :: "archive_member_metadata list"
  amd_member_by_offset :: "u64 \<rightharpoonup> nat"
  amd_symbol_index :: "symbol_index option"

definition member_metadata :: "member \<Rightarrow> archive_member_metadata" where
  "member_metadata m =
     \<lparr>am_name = mb_name m, am_nested_member_offset = mb_nested_member_offset m, am_header_offset = of_nat (mb_header_offset m),
      am_body_offset = mb_body_offset m, am_body_len = length (mb_body m), am_special = mb_special m\<rparr>"

definition into_metadata :: "archive \<Rightarrow> archive_metadata" where
  "into_metadata a =
     \<lparr>amd_flavor = ar_flavor a, amd_members = map member_metadata (ar_members a),
      amd_member_by_offset = ar_member_by_offset a, amd_symbol_index = ar_symbol_index a\<rparr>"

definition metadata_parse :: "str \<Rightarrow> bytes \<Rightarrow> archive_metadata ar" where
  "metadata_parse path data = rmap into_metadata (archive_open path data)"

definition metadata_member_at_offset :: "archive_metadata \<Rightarrow> u64 \<Rightarrow> archive_member_metadata option" where
  "metadata_member_at_offset a off = Option.bind (amd_member_by_offset a off) (get_at (amd_members a))"

definition object_member_offsets :: "archive_metadata \<Rightarrow> u64 list" where
  "object_member_offsets a = map am_header_offset (filter (\<lambda>m. am_special m = NotSpecial) (amd_members a))"

definition metadata_load_member ::
  "(str \<Rightarrow> bytes option) \<Rightarrow> archive_metadata \<Rightarrow> str \<Rightarrow> bytes \<Rightarrow> archive_member_metadata \<Rightarrow> loaded_member load" where
  "metadata_load_member fs a archive_path archive_data m =
     (if amd_flavor a = GnuThin then load_thin_member fs archive_path (am_name m) (am_nested_member_offset m) 0
      else
        rbind (ok_or (CachedMemberOutOfBounds archive_path (am_header_offset m)) (checked_add (am_body_offset m) (am_body_len m))) (\<lambda>fin.
        if am_body_offset m \<le> fin \<and> fin \<le> length archive_data then
          Ok \<lparr>lm_logical_path = inline_member_logical_path archive_path (am_name m),
              lm_bytes = take (fin - am_body_offset m) (drop (am_body_offset m) archive_data)\<rparr>
        else Err (CachedMemberOutOfBounds archive_path (am_header_offset m))))"

end
