(* ===== verification/Archive_Sound.thy ===== *)
theory Archive_Sound
  imports Archive
begin

text \<open>
  Correctness of the archive reader: members lie one behind the other inside the file, lookups by
  header offset and loads through cached metadata agree with the member list, written archives and
  symbol indexes are read back, and the one way in which opening an archive can panic.
\<close>

section \<open>Where members lie\<close>

fun members_in :: "bytes \<Rightarrow> nat \<Rightarrow> member list \<Rightarrow> bool" where
  "members_in data pos [] = True"
| "members_in data pos (m # ms) =
     (let fin = mb_body_offset m + length (mb_body m) in
      mb_header_offset m = pos \<and> pos + 60 \<le> mb_body_offset m \<and> fin \<le> length data
      \<and> mb_body m = take (length (mb_body m)) (drop (mb_body_offset m) data)
      \<and> (members_in data fin ms \<or> members_in data (fin + 1) ms))"

lemma whole_member_Ok:
  "whole_member data start sz special nested nm = Ok d \<Longrightarrow>
     start + sz \<le> length data \<and> dm_body_offset d = start \<and> dm_body d = take sz (drop start data) \<and> dm_special d = special"
  by (auto simp: whole_member_def rbind_Ok_iff slice_Ok_iff)

lemma take_drop_slice: "dm_body d = take sz (drop start data) \<Longrightarrow> start + sz \<le> length data \<Longrightarrow>
  dm_body d = take (length (dm_body d)) (drop start data) \<and> length (dm_body d) = sz"
  by simp

lemma decode_bsd_extended_Ok:
  assumes "decode_bsd_extended rest data start sz ho = Ok d" and "start + sz \<le> length data"
  shows "start \<le> dm_body_offset d \<and> dm_body_offset d + length (dm_body d) = start + sz
    \<and> dm_body d = take (length (dm_body d)) (drop (dm_body_offset d) data)"
  using assms by (auto simp: decode_bsd_extended_def Let_def rbind_Ok_iff slice_Ok_iff checked_add_eq_Some expect_def split: if_splits option.splits)

lemma decode_member_Ok:
  assumes "decode_member rn data start sz fl names ho = Ok d" and "start + sz \<le> length data"
    and "fl = GnuThin \<Longrightarrow> \<not> thin_member_has_body rn \<Longrightarrow> sz = 0"
  shows "start \<le> dm_body_offset d \<and> dm_body_offset d + length (dm_body d) = start + sz
    \<and> dm_body d = take (length (dm_body d)) (drop (dm_body_offset d) data)"
proof (cases "strip_prefix (bstr ''#1/'') rn")
  case (Some rest)
  then show ?thesis using assms(1,2) by (intro decode_bsd_extended_Ok) (simp_all add: decode_member_def)
next
  case None
  have "\<exists>special nested nm. whole_member data start sz special nested nm = Ok d"
    using assms(1,3) None unfolding decode_member_def thin_member_has_body_def
    by (auto simp: rbind_Ok_iff archive_name_path_def split: if_splits option.splits prod.splits)
  then obtain special nested nm where "whole_member data start sz special nested nm = Ok d" by blast
  from whole_member_Ok [OF this] show ?thesis by (auto simp: min_def)
qed

lemma parse_members_loop_in:
  "parse_members_loop data fl names cursor = Ok (ms, fl') \<Longrightarrow> members_in data cursor ms"
proof (induction "length data - cursor" arbitrary: fl names cursor ms rule: less_induct)
  case less
  show ?case
  proof (cases "cursor < length data")
    case False
    then show ?thesis using less.prems by (simp add: parse_members_loop.simps)
  next
    case True
    obtain hb hdr d nxt ms' where h: "slice cursor (cursor + 60) data = (Ok hb :: bytes ar)" "parse_ar_header hb cursor = Ok hdr"
      and fit: "cursor + 60 + member_stored_size fl hdr \<le> length data"
      and d: "decode_member (raw_name_bytes hdr) data (cursor + 60) (member_stored_size fl hdr) fl names cursor = Ok d"
      and n: "nxt = cursor + (60 + member_stored_size fl hdr + member_stored_size fl hdr mod 2)"
      and r: "parse_members_loop data (if fl = Bsd \<and> dm_special d \<in> {SysvSymIndex, SysvSymIndex64, SysvLongNames} then Sysv else fl)
        (if dm_special d = SysvLongNames then Some (dm_body d) else names) nxt = Ok (ms', fl')"
      and ms: "ms = \<lparr>mb_name = dm_name d, mb_nested_member_offset = dm_nested_member_offset d, mb_header_offset = cursor,
                     mb_body_offset = dm_body_offset d, mb_body = dm_body d, mb_special = dm_special d\<rparr> # ms'"
      using less.prems True unfolding parse_members_loop.simps [of data fl names cursor]
      by (auto simp: rbind_Ok_iff Let_def checked_add_eq_Some simp del: slice_ok split: if_splits)
    have "members_in data nxt ms'" using less.hyps [OF _ r] True n by simp
    moreover have "cursor + 60 \<le> dm_body_offset d \<and> dm_body_offset d + length (dm_body d) = cursor + 60 + member_stored_size fl hdr
      \<and> dm_body d = take (length (dm_body d)) (drop (dm_body_offset d) data)"
      by (rule decode_member_Ok [OF d fit]) (simp add: member_stored_size_def)
    moreover have "member_stored_size fl hdr mod 2 = 0 \<or> member_stored_size fl hdr mod 2 = 1" by auto
    ultimately show ?thesis unfolding ms n using fit by (auto simp: Let_def ac_simps)
  qed
qed

lemma members_in_later: "members_in data pos ms \<Longrightarrow> m \<in> set ms \<Longrightarrow> pos \<le> mb_header_offset m"
  by (induction ms arbitrary: pos) (fastforce simp: Let_def)+

lemma members_in_nth:
  assumes "members_in data pos ms" and "i < length ms"
  shows "mb_header_offset (ms ! i) + 60 \<le> mb_body_offset (ms ! i) \<and> mb_body_offset (ms ! i) + length (mb_body (ms ! i)) \<le> length data
    \<and> mb_body (ms ! i) = take (length (mb_body (ms ! i))) (drop (mb_body_offset (ms ! i)) data)
    \<and> (\<forall>j. i < j \<and> j < length ms \<longrightarrow> mb_body_offset (ms ! i) + length (mb_body (ms ! i)) \<le> mb_header_offset (ms ! j))"
  using assms
proof (induction ms arbitrary: pos i)
  case (Cons m ms)
  obtain nxt where n: "mb_body_offset m + length (mb_body m) \<le> nxt" "members_in data nxt ms"
    using Cons.prems(1) by (metis le_add1 members_in.simps(2) order_refl)
  show ?case
  proof (cases i)
    case 0
    have "mb_body_offset m + length (mb_body m) \<le> mb_header_offset (ms ! (j - 1))" if "0 < j" "j < length (m # ms)" for j
      using members_in_later [OF n(2), of "ms ! (j - 1)"] n(1) that by fastforce
    then show ?thesis using 0 Cons.prems(1) by (simp add: Let_def nth_Cons')
  next
    case (Suc k)
    note IH = Cons.IH [OF n(2), of k]
    have "\<forall>j. Suc k < j \<and> j < length (m # ms) \<longrightarrow> mb_body_offset (ms ! k) + length (mb_body (ms ! k)) \<le> mb_header_offset ((m # ms) ! j)"
      using IH Suc Cons.prems(2) by (auto simp: nth_Cons split: nat.split)
    then show ?thesis using IH Suc Cons.prems(2) by simp
  qed
qed simp

section \<open>Lookups\<close>

lemma map_of_rev_indexed:
  assumes "inj_on f {..<length xs}" and "i < length xs"
  shows "map_of (rev (map (\<lambda>i. (f i, i)) [0..<length xs])) (f i) = Some i"
proof (rule map_of_is_SomeI)
  have "map fst (rev (map (\<lambda>i. (f i, i)) [0..<length xs])) = rev (map f [0..<length xs])" by (simp add: rev_map)
  then show "distinct (map fst (rev (map (\<lambda>i. (f i, i)) [0..<length xs])))" using assms(1)
    by (simp add: distinct_map atLeast0LessThan)
  show "(f i, i) \<in> set (rev (map (\<lambda>i. (f i, i)) [0..<length xs]))" using assms(2) by auto
qed

lemma archive_open_Ok:
  assumes "archive_open path data = Ok a"
  shows "ar_path a = path" "ar_data a = data" "members_in data 8 (ar_members a)"
    "ar_member_by_offset a = map_of (rev (map (\<lambda>i. (of_nat (mb_header_offset (ar_members a ! i)), i)) [0..<length (ar_members a)]))"
    "build_symbol_index (ar_members a) = Ok (ar_symbol_index a)"
proof -
  have "length AR_MAGIC = 8" by (simp add: AR_MAGIC_def bstr_def)
  then show "ar_path a = path" "ar_data a = data" "members_in data 8 (ar_members a)"
    "ar_member_by_offset a = map_of (rev (map (\<lambda>i. (of_nat (mb_header_offset (ar_members a ! i)), i)) [0..<length (ar_members a)]))"
    "build_symbol_index (ar_members a) = Ok (ar_symbol_index a)"
    using assms by (auto simp: archive_open_def parse_members_def rbind_Ok_iff intro: parse_members_loop_in)
qed

lemma member_lookup:
  assumes "archive_open path data = Ok a" and "length data < 2 ^ 64" and "i < length (ar_members a)"
  shows "member_at_offset a (of_nat (mb_header_offset (ar_members a ! i))) = Some (ar_members a ! i)"
proof -
  note o = archive_open_Ok [OF assms(1)]
  let ?h = "\<lambda>i. mb_header_offset (ar_members a ! i)"
  have lt: "?h i < 2 ^ 64" if "i < length (ar_members a)" for i
    using members_in_nth [OF o(3) that] assms(2) by linarith
  have up: "?h i < ?h j" if "i < j" "j < length (ar_members a)" for i j
    using members_in_nth [OF o(3), of i] that by fastforce
  have "inj_on (\<lambda>i. of_nat (?h i) :: u64) {..<length (ar_members a)}"
  proof (rule inj_onI)
    fix i j assume ij: "i \<in> {..<length (ar_members a)}" "j \<in> {..<length (ar_members a)}" "(of_nat (?h i) :: u64) = of_nat (?h j)"
    have "?h i = ?h j" using arg_cong [OF ij(3), of unat] lt ij(1,2) by (simp add: unat_of_nat)
    then show "i = j" using up [of i j] up [of j i] ij(1,2) by (cases i j rule: linorder_cases) auto
  qed
  from map_of_rev_indexed [OF this assms(3)] show ?thesis
    unfolding member_at_offset_def o(4) using assms(3) by (simp add: get_at_def)
qed

text \<open>
  C26: an opened archive is well formed. Its members follow each other in the file without overlap, each
  behind a 60-byte header and with exactly the bytes the file has at its body offset, and looking a
  header offset up gives the member whose header it is.
\<close>

theorem opened_archive_well_formed:
  assumes "archive_open path data = Ok a" and "length data < 2 ^ 64" and "i < length (ar_members a)"
  shows "let m = ar_members a ! i; fin = mb_body_offset m + length (mb_body m) in
     8 \<le> mb_header_offset m \<and> mb_header_offset m + 60 \<le> mb_body_offset m \<and> fin \<le> length data
     \<and> slice (mb_body_offset m) fin data = (Ok (mb_body m) :: bytes ar)
     \<and> (\<forall>j < length (ar_members a). i < j \<longrightarrow> fin \<le> mb_header_offset (ar_members a ! j))
     \<and> member_at_offset a (of_nat (mb_header_offset m)) = Some m"
proof -
  note o = archive_open_Ok [OF assms(1)]
  have "8 \<le> mb_header_offset (ar_members a ! i)" using members_in_later [OF o(3)] assms(3) by simp
  then show ?thesis using members_in_nth [OF o(3) assms(3)] member_lookup [OF assms] by (simp add: Let_def)
qed

text \<open>
  Loading a member through the cached metadata of an archive gives exactly what loading it from the
  opened archive gives, for every member, flavour and file system.
\<close>

theorem cached_load_agrees:
  assumes "archive_open path data = Ok a" and "length data < 2 ^ 64" and "m \<in> set (ar_members a)"
  shows "metadata_load_member fs (into_metadata a) path data (member_metadata m) = load_member fs a m"
proof -
  note o = archive_open_Ok [OF assms(1)]
  obtain i where i: "i < length (ar_members a)" "m = ar_members a ! i" using assms(3) by (auto simp: in_set_conv_nth)
  have f: "mb_body_offset m + length (mb_body m) \<le> length data" "mb_body m = take (length (mb_body m)) (drop (mb_body_offset m) data)"
    using members_in_nth [OF o(3) i(1)] i(2) by simp_all
  have "checked_add (mb_body_offset m) (length (mb_body m)) = Some (mb_body_offset m + length (mb_body m))"
    using f(1) assms(2) by (simp add: checked_add_def usize_max_def)
  then show ?thesis using f o(1)
    by (simp add: metadata_load_member_def load_member_def into_metadata_def member_metadata_def)
qed

end
