(* ===== verification/Archive_Written.thy ===== *)
theory Archive_Written
  imports Archive_Sound
begin

text \<open>
  Archives as the archiver writes them (BSD names, an optional \<^verbatim>\<open>__.SYMDEF SORTED\<close> index in front, as the
  helpers of the source's own tests build them) and what the reader makes of them.
\<close>

section \<open>Decimal numbers\<close>

fun dec_digits :: "nat \<Rightarrow> bytes" where
  "dec_digits n = (if n < 10 then [of_nat (48 + n)] else dec_digits (n div 10) @ [of_nat (48 + n mod 10)])"

declare dec_digits.simps [simp del]

lemma digit_word: "k < 10 \<Longrightarrow> is_ascii_digit (of_nat (48 + k)) \<and> uint (of_nat (48 + k) :: u8) = 48 + int k"
proof -
  assume k: "k < 10"
  then have u: "unat (of_nat (48 + k) :: u8) = 48 + k" by (simp add: unat_of_nat del: of_nat_add)
  then have "uint (of_nat (48 + k) :: u8) = int (48 + k)" by (simp only: uint_nat)
  moreover have "is_ascii_digit (of_nat (48 + k))" unfolding is_ascii_digit_def word_le_nat_alt u using k by simp
  ultimately show ?thesis by simp
qed

lemma dec_digits_props:
  "dec_digits n \<noteq> [] \<and> list_all is_ascii_digit (dec_digits n) \<and> dec_value (dec_digits n) = int n"
proof (induction n rule: dec_digits.induct)
  case (1 n)
  show ?case
  proof (cases "n < 10")
    case True
    then show ?thesis using digit_word [of n] by (subst (1 2 3) dec_digits.simps) (simp add: dec_value_def del: of_nat_add)
  next
    case False
    have "dec_value (dec_digits (n div 10) @ [of_nat (48 + n mod 10)]) = 10 * int (n div 10) + int (n mod 10)"
      using 1 [OF False] digit_word [of "n mod 10"] by (simp add: dec_value_def del: of_nat_add)
    also have "\<dots> = int n" by (simp add: of_nat_div of_nat_mod)
    finally show ?thesis using False 1 [OF False] digit_word [of "n mod 10"] by (subst (1 2 3) dec_digits.simps) (simp del: of_nat_add)
  qed
qed

lemma dec_digits_length: "n < 10 ^ k \<Longrightarrow> 0 < k \<Longrightarrow> length (dec_digits n) \<le> k"
proof (induction k arbitrary: n)
  case (Suc k)
  show ?case
  proof (cases "n < 10")
    case True
    then show ?thesis by (simp add: dec_digits.simps)
  next
    case False
    then have "0 < k" using Suc.prems(1) by (cases k) auto
    moreover have "n div 10 < 10 ^ k" using Suc.prems(1) by (simp add: div_less_iff_less_mult mult.commute)
    ultimately show ?thesis using Suc.IH [of "n div 10"] False by (simp add: dec_digits.simps [of n])
  qed
qed simp

lemma digit_facts: "is_ascii_digit b \<Longrightarrow> b < 0x80 \<and> b \<noteq> 0x2B \<and> b \<noteq> 0x2F \<and> b \<noteq> 0x20 \<and> b \<noteq> 0"
proof -
  assume "is_ascii_digit b"
  then have "48 \<le> unat b" "unat b \<le> 57" by (simp_all add: is_ascii_digit_def word_le_nat_alt)
  then show ?thesis by (auto simp: word_less_nat_alt)
qed

lemma digits_utf8: "list_all is_ascii_digit ds \<Longrightarrow> utf8_valid ds"
  using digit_facts by (intro utf8_valid_ascii) (auto simp: list_all_iff)

lemma parse_u64_digits: "n < 2 ^ 64 \<Longrightarrow> parse_u64 (dec_digits n) = Some (of_nat n)"
proof -
  assume n: "n < 2 ^ 64"
  note p = dec_digits_props [of n]
  obtain d ds where d: "dec_digits n = d # ds" using p by (cases "dec_digits n") auto
  then have "d \<noteq> 0x2B" using p digit_facts [of d] by simp
  then have "parse_u64 (dec_digits n) = (if dec_value (dec_digits n) < 2 ^ 64 then Some (word_of_int (dec_value (dec_digits n))) else None)"
    using p d by (simp add: parse_u64_def)
  then show ?thesis using p n by (simp add: int_below_2p64)
qed

lemma trim_trailing_id: "xs = [] \<or> \<not> p (last xs) \<Longrightarrow> trim_trailing p xs = xs"
  by (cases xs rule: rev_cases) (auto simp: trim_trailing_def)

lemma trim_trailing_pad: "p x \<Longrightarrow> trim_trailing p (xs @ replicate k x) = trim_trailing p xs"
  by (auto simp: trim_trailing_def intro: dropWhile_append2)

lemma trim_padded: "xs = [] \<or> (last xs \<noteq> 0x20 \<and> last xs \<noteq> 0) \<Longrightarrow> trim_ascii_bytes (xs @ replicate k 0x20) = xs"
  unfolding trim_ascii_bytes_def by (subst trim_trailing_pad) (auto intro: trim_trailing_id)

lemma last_digit: "last (dec_digits n) \<noteq> 0x20 \<and> last (dec_digits n) \<noteq> 0 \<and> last (dec_digits n) \<noteq> 0x2F"
  using dec_digits_props [of n] digit_facts [of "last (dec_digits n)"] by (simp add: list_all_iff)

lemma ascii_decimal_padded: "n < 2 ^ 64 \<Longrightarrow> ascii_decimal (dec_digits n @ replicate k 0x20) = Some (of_nat n)"
  unfolding ascii_decimal_def
  using trim_padded [of "dec_digits n" k] last_digit [of n] dec_digits_props [of n] digits_utf8 parse_u64_digits by (simp add: Let_def)

section \<open>Written members\<close>

definition pad_to :: "nat \<Rightarrow> bytes \<Rightarrow> bytes" where
  "pad_to k b = b @ replicate (k - length b) 0x20"

definition make_ar_hdr :: "bytes \<Rightarrow> nat \<Rightarrow> bytes" where
  "make_ar_hdr nm n =
     pad_to 16 (take 16 nm) @ replicate 12 0x20 @ replicate 6 0x20 @ replicate 6 0x20 @ replicate 8 0x20
     @ pad_to 10 (dec_digits n) @ AR_FMAG"

definition encode_member :: "bytes \<Rightarrow> bytes \<Rightarrow> bytes" where
  "encode_member raw_name body = make_ar_hdr raw_name (length body) @ body @ (if odd (length body) then [10] else [])"

definition encode_bsd_extended :: "str \<Rightarrow> bytes \<Rightarrow> bytes" where
  "encode_bsd_extended nm content = encode_member (bstr ''#1/'' @ dec_digits (length nm)) (nm @ content)"

lemma pad_to_length: "length b \<le> k \<Longrightarrow> length (pad_to k b) = k"
  by (simp add: pad_to_def)

lemma make_ar_hdr_length: "n < 10 ^ 10 \<Longrightarrow> length (make_ar_hdr nm n) = 60"
  using dec_digits_length [of n 10] by (simp add: make_ar_hdr_def pad_to_length AR_FMAG_def)

lemma parse_written_header:
  assumes "n < 10 ^ 10" and "length nm \<le> 16"
  shows "\<exists>h. parse_ar_header (make_ar_hdr nm n) pos = Ok h \<and> ah_name h = pad_to 16 nm \<and> ah_size h = of_nat n"
proof -
  have d: "length (pad_to 10 (dec_digits n)) = 10" using dec_digits_length [of n 10] assms(1) by (simp add: pad_to_length)
  have w: "length (pad_to 16 nm) = 16" using assms(2) by (simp add: pad_to_length)
  have "ascii_decimal (pad_to 10 (dec_digits n)) = Some (of_nat n)" unfolding pad_to_def using assms(1) by (intro ascii_decimal_padded) simp
  then show ?thesis using d w assms(2) make_ar_hdr_length [OF assms(1), of nm]
    by (simp add: parse_ar_header_def make_ar_hdr_def AR_FMAG_def)
qed

lemma written_raw_name:
  assumes "ah_name h = pad_to 16 (bstr ''#1/'' @ dec_digits k)" and "length (dec_digits k) \<le> 13"
  shows "raw_name_bytes h = bstr ''#1/'' @ dec_digits k"
proof -
  let ?n = "bstr ''#1/'' @ dec_digits k"
  have l: "last ?n = last (dec_digits k)" using dec_digits_props [of k] by simp
  have "trim_ascii_bytes (ah_name h) = ?n" unfolding assms(1) pad_to_def using last_digit [of k] l by (intro trim_padded) simp
  moreover have "strip_suffix 0x2F ?n = None" using last_digit [of k] l by (simp add: strip_suffix_def)
  ultimately show ?thesis by (simp add: raw_name_bytes_def)
qed

lemma decode_written:
  fixes pre nm content post :: bytes
  defines "data \<equiv> pre @ nm @ content @ post"
  assumes "nm = [] \<or> last nm \<noteq> 0" and "length data < 2 ^ 64"
  shows "decode_member (bstr ''#1/'' @ dec_digits (length nm)) data (length pre) (length nm + length content) fl names ho
    = Ok \<lparr>dm_name = nm, dm_nested_member_offset = None, dm_body_offset = length pre + length nm, dm_body = content,
         dm_special = (if nm = bstr ''__.SYMDEF'' \<or> nm = bstr ''__.SYMDEF SORTED'' then BsdSymIndex else NotSpecial)\<rparr>"
proof -
  have len: "length pre + length nm \<le> usize_max" "length nm < 2 ^ 64" using assms(3) by (simp_all add: data_def usize_max_def)
  have "parse_ascii_usize (dec_digits (length nm)) = Some (length nm)"
    using parse_u64_digits [OF len(2)] digits_utf8 dec_digits_props [of "length nm"] len(2)
    by (simp add: parse_ascii_usize_def parse_ascii_u64_def unat_of_nat)
  moreover have "strip_prefix (bstr ''#1/'') (bstr ''#1/'' @ dec_digits (length nm)) = Some (dec_digits (length nm))"
    by (simp add: strip_prefix_def)
  moreover have "trim_trailing (\<lambda>x. x = 0) nm = nm" using assms(2) by (rule trim_trailing_id)
  moreover have "checked_add (length pre) (length nm) = Some (length pre + length nm)" using len(1) by (simp add: checked_add_def)
  ultimately show ?thesis
    by (simp add: decode_member_def decode_bsd_extended_def archive_name_path_def data_def Let_def)
qed

definition written_member :: "nat \<Rightarrow> str \<times> bytes \<Rightarrow> member" where
  "written_member pos nc =
     \<lparr>mb_name = fst nc, mb_nested_member_offset = None, mb_header_offset = pos, mb_body_offset = pos + 60 + length (fst nc),
      mb_body = snd nc,
      mb_special = (if fst nc = bstr ''__.SYMDEF'' \<or> fst nc = bstr ''__.SYMDEF SORTED'' then BsdSymIndex else NotSpecial)\<rparr>"

abbreviation encode_pair :: "str \<times> bytes \<Rightarrow> bytes" where
  "encode_pair nc \<equiv> encode_bsd_extended (fst nc) (snd nc)"

lemma parity_pad: "n mod 2 = length (if odd n then [10] else [] :: bytes)"
  by (auto simp: odd_iff_mod_2_eq_one)

lemma parse_written_step:
  assumes "nm = [] \<or> last nm \<noteq> 0" and "length (pre @ encode_bsd_extended nm content @ post) < 2 ^ 32"
  shows "parse_members_loop (pre @ encode_bsd_extended nm content @ post) Bsd names (length pre)
    = rbind (parse_members_loop (pre @ encode_bsd_extended nm content @ post) Bsd names (length (pre @ encode_bsd_extended nm content)))
        (\<lambda>(ms, fl). Ok (written_member (length pre) (nm, content) # ms, fl))"
proof -
  let ?rn = "bstr ''#1/'' @ dec_digits (length nm)" and ?n = "length nm + length content"
  let ?pad = "if odd ?n then [10] else [] :: bytes"
  let ?hdr = "make_ar_hdr ?rn ?n"
  let ?d = "pre @ ?hdr @ nm @ content @ ?pad @ post"
  have d: "pre @ encode_bsd_extended nm content @ post = ?d" by (simp add: encode_bsd_extended_def encode_member_def)
  have small: "?n < 10 ^ 10" "length nm < 10 ^ 10" using assms(2) by (simp_all add: encode_bsd_extended_def encode_member_def)
  have hl: "length ?hdr = 60" using small(1) by (rule make_ar_hdr_length)
  have dl: "length (dec_digits (length nm)) \<le> 10" using dec_digits_length [OF small(2)] by simp
  obtain h where h: "parse_ar_header ?hdr (length pre) = Ok h" "ah_name h = pad_to 16 ?rn" "ah_size h = of_nat ?n"
    using parse_written_header [OF small(1), of ?rn] dl by (auto simp: bstr_def)
  have rn: "raw_name_bytes h = ?rn" using h(2) dl by (intro written_raw_name) simp_all
  have st: "member_stored_size Bsd h = ?n" using h(3) small(1) by (simp add: member_stored_size_def unat_of_nat del: of_nat_add)
  have dec: "decode_member ?rn ?d (length pre + 60) ?n Bsd names (length pre)
    = Ok \<lparr>dm_name = nm, dm_nested_member_offset = None, dm_body_offset = length pre + 60 + length nm, dm_body = content,
         dm_special = (if nm = bstr ''__.SYMDEF'' \<or> nm = bstr ''__.SYMDEF SORTED'' then BsdSymIndex else NotSpecial)\<rparr>"
    using decode_written [of nm "pre @ ?hdr" content "?pad @ post" Bsd names "length pre"] assms hl d by simp
  have nxt: "length pre + (60 + ?n + ?n mod 2) = length (pre @ encode_bsd_extended nm content)"
    using hl parity_pad [of ?n] by (simp add: encode_bsd_extended_def encode_member_def del: even_add odd_add)
  have ld: "length ?d < 2 ^ 32" using assms(2) unfolding d .
  have ca: "checked_add (length pre + 60) ?n = Some (length pre + 60 + ?n)" "length pre + 60 + ?n \<le> length ?d"
      "checked_add (length pre) (60 + ?n + ?n mod 2) = Some (length (pre @ encode_bsd_extended nm content))"
    using ld hl nxt by (auto simp: checked_add_def usize_max_def encode_bsd_extended_def encode_member_def)
  have sl: "slice (length pre) (length pre + 60) ?d = (Ok ?hdr :: bytes ar)" using hl by (intro slice_append_mid) simp_all
  define D where "D = ?d"
  define H where "H = ?hdr"
  define E where "E = length (pre @ encode_bsd_extended nm content)"
  have lt: "length pre < length D" "\<not> length pre + 60 > length D" using hl by (simp_all add: D_def)
  note eqs = sl [folded D_def H_def] h(1) [folded H_def] st dec [folded D_def] ca [folded D_def, folded E_def]
  show ?thesis unfolding d D_def [symmetric] E_def [symmetric] parse_members_loop.simps [of D Bsd names "length pre"]
    by (simp add: lt eqs rn Let_def written_member_def not_less [THEN iffD2, OF eqs(6)] del: slice_ok)
qed

fun written_members :: "nat \<Rightarrow> (str \<times> bytes) list \<Rightarrow> member list" where
  "written_members pos [] = []"
| "written_members pos (nc # ncs) = written_member pos nc # written_members (pos + length (encode_pair nc)) ncs"

lemma parse_written_members:
  assumes "\<forall>nc \<in> set ncs. fst nc = [] \<or> last (fst nc) \<noteq> 0" and "length (pre @ concat (map encode_pair ncs)) < 2 ^ 32"
  shows "parse_members_loop (pre @ concat (map encode_pair ncs)) Bsd names (length pre) = Ok (written_members (length pre) ncs, Bsd)"
  using assms
proof (induction ncs arbitrary: pre)
  case Nil
  then show ?case by (simp add: parse_members_loop.simps)
next
  case (Cons nc ncs)
  have "parse_members_loop ((pre @ encode_pair nc) @ concat (map encode_pair ncs)) Bsd names (length (pre @ encode_pair nc))
    = Ok (written_members (length (pre @ encode_pair nc)) ncs, Bsd)" using Cons.prems by (intro Cons.IH) simp_all
  moreover have "parse_members_loop (pre @ encode_pair nc @ concat (map encode_pair ncs)) Bsd names (length pre)
    = rbind (parse_members_loop (pre @ encode_pair nc @ concat (map encode_pair ncs)) Bsd names (length (pre @ encode_pair nc)))
        (\<lambda>(ms, fl). Ok (written_member (length pre) (fst nc, snd nc) # ms, fl))"
    using Cons.prems by (intro parse_written_step) simp_all
  ultimately show ?case by simp
qed

lemma written_members_length [simp]: "length (written_members pos ncs) = length ncs"
  by (induction ncs arbitrary: pos) auto

lemma written_members_nth:
  "k < length ncs \<Longrightarrow> written_members pos ncs ! k = written_member (pos + length (concat (map encode_pair (take k ncs)))) (ncs ! k)"
proof (induction ncs arbitrary: pos k)
  case (Cons nc ncs)
  then show ?case by (cases k) (simp_all add: add.assoc)
qed simp

section \<open>Written symbol indexes\<close>

definition index_strings :: "(str \<times> u32) list \<Rightarrow> bytes" where
  "index_strings es = concat (map (\<lambda>e. fst e @ [0]) es)"

definition ranlib_of :: "(str \<times> u32) list \<Rightarrow> nat \<Rightarrow> u32 \<times> u32" where
  "ranlib_of es i = (of_nat (length (index_strings (take i es))), snd (es ! i))"

definition encode_bsd_symbol_index :: "(str \<times> u32) list \<Rightarrow> bytes" where
  "encode_bsd_symbol_index es =
     le32 (of_nat (8 * length es)) @ concat (map (\<lambda>(x, off). le32 x @ le32 off) (map (ranlib_of es) [0..<length es]))
     @ le32 (of_nat (length (index_strings es))) @ index_strings es"

definition ranlib_dec :: "bytes \<Rightarrow> (u32 \<times> u32) ar" where
  "ranlib_dec b = rbind (rd32 0 b) (\<lambda>x. rbind (rd32 4 b) (\<lambda>y. Ok (x, y)))"

interpretation ranlib: record_codec "\<lambda>(x, off). le32 x @ le32 off" ranlib_dec 8 "\<lambda>_. True"
  by unfold_locales (auto simp: ranlib_dec_def rd_ok)

lemma index_name_written:
  assumes "utf8_valid nm" and "0 \<notin> set nm"
  shows "index_name e1 e2 (pre @ nm @ 0 # post) (length pre) = Ok (nm, length pre + length nm)"
proof -
  have "position (\<lambda>b. b = 0) (nm @ 0 # post) = Some (length nm)" using assms(2) by (intro position_prefix) auto
  then show ?thesis using assms(1) by (simp add: index_name_def)
qed

lemma index_strings_split:
  "i < length es \<Longrightarrow> index_strings es = index_strings (take i es) @ fst (es ! i) @ 0 # index_strings (drop (Suc i) es)"
  by (subst id_take_nth_drop [of i es]) (simp_all add: index_strings_def)

lemma ranlib_length: "length (concat (map (\<lambda>(x, off). le32 x @ le32 off) xs)) = 8 * length xs"
  using ranlib.length_table [of xs] by (simp add: list_all_iff)

lemma rd32_pair:
  assumes "take 8 (drop k b) = le32 x @ le32 y" and "k + 8 \<le> length b"
  shows "rd32 k b = Ok x" "rd32 (k + 4) b = Ok y"
proof -
  have "take 4 (drop k b) = take 4 (take 8 (drop k b))" "take 4 (drop (k + 4) b) = drop 4 (take 8 (drop k b))"
    by (simp_all add: drop_take add.commute)
  then have "take 4 (drop k b) = le32 x" "take 4 (drop (k + 4) b) = le32 y" unfolding assms(1) by simp_all
  then show "rd32 k b = Ok x" "rd32 (k + 4) b = Ok y" using assms(2) by (simp_all add: rd32_ok)
qed

lemma bsd_index_regions:
  assumes "length b = 8 + 8 * n + k" and "8 + 8 * n + k < 2 ^ 32" and "rd32 0 b = (Ok r :: u32 ar)" and "unat r = 8 * n"
    and "rd32 (4 + 8 * n) b = (Ok s :: u32 ar)" and "unat s = k" and "slice (8 + 8 * n) (8 + 8 * n + k) b = (Ok strings :: bytes ar)"
  shows "parse_bsd_symbol_index b = mapM (\<lambda>i. ranlib_entry b strings (4 + 8 * i)) [0..<n]"
proof -
  have "checked_add 4 (8 * n) = Some (4 + 8 * n)" "checked_add (8 + 8 * n) k = Some (8 + 8 * n + k)"
    using assms(2) by (simp_all add: checked_add_def usize_max_def)
  then show ?thesis using assms by (simp add: parse_bsd_symbol_index_def Let_def del: slice_ok)
qed

lemma parse_written_index:
  assumes "\<forall>e \<in> set es. utf8_valid (fst e) \<and> 0 \<notin> set (fst e)" and "length (encode_bsd_symbol_index es) < 2 ^ 32"
  shows "parse_bsd_symbol_index (encode_bsd_symbol_index es) = Ok (map (\<lambda>e. \<lparr>ie_name = fst e, ie_member_header_offset = ucast (snd e)\<rparr>) es)"
proof -
  let ?rs = "map (ranlib_of es) [0..<length es]" and ?S = "index_strings es"
  let ?R = "concat (map (\<lambda>(x, off). le32 x @ le32 off) ?rs)"
  let ?b = "le32 (of_nat (8 * length es)) @ ?R @ le32 (of_nat (length ?S)) @ ?S"
  have b: "encode_bsd_symbol_index es = ?b" by (simp add: encode_bsd_symbol_index_def)
  have R: "length ?R = 8 * length es" by (simp only: ranlib_length length_map length_upt diff_zero)
  have len: "length ?b = 8 + 8 * length es + length ?S" using R by simp
  have small: "8 + 8 * length es + length ?S < 2 ^ 32" using assms(2) unfolding b len .
  have u: "unat (of_nat (8 * length es) :: u32) = 8 * length es" "unat (of_nat (length ?S) :: u32) = length ?S"
    using small by (simp_all add: unat_of_nat del: of_nat_mult)
  have rd0: "rd32 0 ?b = (Ok (of_nat (8 * length es)) :: u32 ar)" by (simp add: rd_ok)
  have rdS: "rd32 (4 + 8 * length es) ?b = (Ok (of_nat (length ?S)) :: u32 ar)" using R by (simp add: rd_ok)
  have sl: "slice (8 + 8 * length es) (8 + 8 * length es + length ?S) ?b = (Ok ?S :: bytes ar)" using R by simp
  have ent: "ranlib_entry ?b ?S (4 + 8 * i) = Ok \<lparr>ie_name = fst (es ! i), ie_member_header_offset = ucast (snd (es ! i))\<rparr>" if i: "i < length es" for i
  proof -
    let ?x = "length (index_strings (take i es))"
    have S: "?S = index_strings (take i es) @ fst (es ! i) @ 0 # index_strings (drop (Suc i) es)" using i by (rule index_strings_split)
    have "take 8 (drop (length (le32 (of_nat (8 * length es))) + i * 8) ?b) = (\<lambda>(x, off). le32 x @ le32 off) (?rs ! i)"
      using i by (intro ranlib.table_slot) (simp_all add: list_all_iff)
    moreover have "length (le32 (of_nat (8 * length es))) + i * 8 = 4 + 8 * i" by simp
    moreover have "(\<lambda>(x, off). le32 x @ le32 off) (?rs ! i) = le32 (of_nat ?x) @ le32 (snd (es ! i))" using i by (simp add: ranlib_of_def)
    ultimately have t: "take 8 (drop (4 + 8 * i) ?b) = le32 (of_nat ?x) @ le32 (snd (es ! i))" by (simp only:)
    have "4 + 8 * i + 8 \<le> length ?b" unfolding len using i by simp
    note r = rd32_pair [OF t this]
    have "?x < length ?S" by (subst S) simp
    then have "unat (of_nat ?x :: u32) = ?x" "?x < length ?S" using small by (simp_all add: unat_of_nat)
    moreover have "index_name ''ranlib name not null-terminated'' ''ranlib name not UTF-8'' ?S ?x = Ok (fst (es ! i), ?x + length (fst (es ! i)))"
      using assms(1) i by (subst S, intro index_name_written) simp_all
    ultimately show ?thesis unfolding ranlib_entry_def r by simp
  qed
  have "mapM (\<lambda>i. ranlib_entry ?b ?S (4 + 8 * i)) [0..<length es]
    = Ok (map (\<lambda>i. \<lparr>ie_name = fst (es ! i), ie_member_header_offset = ucast (snd (es ! i))\<rparr>) [0..<length es])"
    using ent by (intro mapM_Ok_map) simp
  also have "map (\<lambda>i. \<lparr>ie_name = fst (es ! i), ie_member_header_offset = ucast (snd (es ! i))\<rparr>) [0..<length es]
      = map (\<lambda>e. \<lparr>ie_name = fst e, ie_member_header_offset = ucast (snd e)\<rparr>) es" by (rule nth_equalityI) simp_all
  finally show ?thesis unfolding b using bsd_index_regions [OF len small rd0 u(1) rdS u(2) sl] by simp
qed

section \<open>Written archives\<close>

definition SYMDEF_SORTED :: str where "SYMDEF_SORTED = bstr ''__.SYMDEF SORTED''"

definition index_member :: "(str \<times> u32) list \<Rightarrow> str \<times> bytes" where
  "index_member es = (SYMDEF_SORTED, encode_bsd_symbol_index es)"

text \<open>
  An archive with a symbol index: \<open>syms\<close> names for each symbol the number of the member that defines it.
  The index is as long whatever offsets it holds, so the members' places are known first.
\<close>

definition members_start :: "(str \<times> nat) list \<Rightarrow> nat" where
  "members_start syms = 8 + length (encode_pair (index_member (map (\<lambda>(s, _). (s, 0)) syms)))"

definition archive_entries :: "(str \<times> nat) list \<Rightarrow> (str \<times> bytes) list \<Rightarrow> (str \<times> u32) list" where
  "archive_entries syms ncs =
     map (\<lambda>(s, k). (s, of_nat (members_start syms + length (concat (map encode_pair (take k ncs)))))) syms"

definition archive_image :: "(str \<times> nat) list \<Rightarrow> (str \<times> bytes) list \<Rightarrow> bytes" where
  "archive_image syms ncs = AR_MAGIC @ concat (map encode_pair (index_member (archive_entries syms ncs) # ncs))"

lemma AR_MAGIC_length [simp]: "length AR_MAGIC = 8"
  by (simp add: AR_MAGIC_def bstr_def)

lemma encode_index_length: "map fst es = map fst es' \<Longrightarrow> length (encode_bsd_symbol_index es) = length (encode_bsd_symbol_index es')"
proof -
  assume e: "map fst es = map fst es'"
  have st: "index_strings xs = concat (map (\<lambda>n. n @ [0]) (map fst xs))" for xs by (simp add: index_strings_def o_def)
  have "length es = length es'" "index_strings es = index_strings es'"
    using map_eq_imp_length_eq [OF e] by (simp, simp only: st e)
  then show ?thesis using ranlib_length [of "map (ranlib_of es) [0..<length es]"] ranlib_length [of "map (ranlib_of es') [0..<length es']"]
    by (simp add: encode_bsd_symbol_index_def)
qed

lemma members_start_eq: "members_start syms = 8 + length (encode_pair (index_member (archive_entries syms ncs)))"
proof -
  have "map fst (map (\<lambda>(s, _). (s, 0 :: u32)) syms) = map fst (archive_entries syms ncs)"
    by (simp add: archive_entries_def split_def o_def)
  from encode_index_length [OF this] show ?thesis
    unfolding members_start_def index_member_def by (simp add: encode_bsd_extended_def encode_member_def)
qed

lemma first_defining_map_of:
  "first_defining_offset (map (\<lambda>e. \<lparr>ie_name = fst e, ie_member_header_offset = f (snd e)\<rparr>) es) nm = map_option f (map_of es nm)"
  by (induction es) (auto simp: first_defining_offset_def)

lemma open_written_members:
  assumes "\<forall>nc \<in> set ncs. fst nc = [] \<or> last (fst nc) \<noteq> 0" and "length (AR_MAGIC @ concat (map encode_pair ncs)) < 2 ^ 32"
    and "build_symbol_index (written_members 8 ncs) = Ok ix"
  shows "\<exists>a. archive_open path (AR_MAGIC @ concat (map encode_pair ncs)) = Ok a \<and> ar_members a = written_members 8 ncs \<and> ar_symbol_index a = ix"
proof -
  have "detect_flavor (AR_MAGIC @ concat (map encode_pair ncs)) = Ok Bsd" by (simp add: detect_flavor_def)
  moreover have "parse_members_loop (AR_MAGIC @ concat (map encode_pair ncs)) Bsd None 8 = Ok (written_members 8 ncs, Bsd)"
    using parse_written_members [OF assms(1,2), of None] by simp
  ultimately show ?thesis using assms(3) by (simp add: archive_open_def parse_members_def)
qed

lemma written_member_special:
  "fst nc \<noteq> bstr ''__.SYMDEF'' \<Longrightarrow> fst nc \<noteq> SYMDEF_SORTED \<Longrightarrow> mb_special (written_member pos nc) = NotSpecial"
  by (simp add: written_member_def SYMDEF_SORTED_def)

lemma written_objects:
  "\<forall>nc \<in> set ncs. fst nc \<noteq> bstr ''__.SYMDEF'' \<and> fst nc \<noteq> SYMDEF_SORTED \<Longrightarrow>
     filter (\<lambda>m. mb_special m = NotSpecial) (written_members pos ncs) = written_members pos ncs"
  by (induction ncs arbitrary: pos) (auto simp: written_member_special)

lemma written_contents: "map (\<lambda>m. (mb_name m, mb_body m)) (written_members pos ncs) = ncs"
  by (induction ncs arbitrary: pos) (auto simp: written_member_def)

text \<open>
  C27: a written archive is read back. Opening an archive with a \<^verbatim>\<open>__.SYMDEF SORTED\<close> index succeeds, its object
  members have the names and contents that were written, in order, and asking for the member that
  defines a symbol gives the member the index was written with for it, and none for other names.
\<close>

theorem archive_round_trip:
  assumes "\<forall>(s, k) \<in> set syms. utf8_valid s \<and> 0 \<notin> set s \<and> k < length ncs"
    and "\<forall>nc \<in> set ncs. (fst nc = [] \<or> last (fst nc) \<noteq> 0) \<and> fst nc \<noteq> bstr ''__.SYMDEF'' \<and> fst nc \<noteq> SYMDEF_SORTED"
    and "length (archive_image syms ncs) < 2 ^ 32"
  shows "\<exists>a. archive_open path (archive_image syms ncs) = Ok a
    \<and> map (\<lambda>m. (mb_name m, mb_body m)) (object_members a) = ncs
    \<and> (\<forall>s. first_member_defining a s = map_option (\<lambda>k. object_members a ! k) (map_of syms s))"
proof -
  let ?es = "archive_entries syms ncs" and ?all = "index_member (archive_entries syms ncs) # ncs"
  let ?ix = "map (\<lambda>e. \<lparr>ie_name = fst e, ie_member_header_offset = ucast (snd e)\<rparr>) ?es"
  have im: "fst (index_member ?es) = SYMDEF_SORTED" "snd (index_member ?es) = encode_bsd_symbol_index ?es" by (simp_all add: index_member_def)
  have len: "length (AR_MAGIC @ concat (map encode_pair ?all)) < 2 ^ 32" using assms(3) by (simp add: archive_image_def)
  then have "length (encode_bsd_symbol_index ?es) < 2 ^ 32" using im by (simp add: encode_bsd_extended_def encode_member_def)
  then have "parse_bsd_symbol_index (encode_bsd_symbol_index ?es) = Ok ?ix"
    using assms(1) by (intro parse_written_index) (auto simp: archive_entries_def)
  then have ix: "build_symbol_index (written_members 8 ?all) = Ok (Some ?ix)" by (simp add: written_member_def im SYMDEF_SORTED_def)
  have nm: "\<forall>nc \<in> set ?all. fst nc = [] \<or> last (fst nc) \<noteq> 0" using assms(2) im(1) by (simp add: SYMDEF_SORTED_def bstr_def)
  from open_written_members [OF nm len ix, of path] obtain a where a: "archive_open path (archive_image syms ncs) = Ok a"
    "ar_members a = written_members 8 ?all" "ar_symbol_index a = Some ?ix" unfolding archive_image_def by blast
  have obj: "object_members a = written_members (members_start syms) ncs"
    using written_objects [of ncs "members_start syms"] assms(2)
    by (simp add: object_members_def a(2) members_start_eq [of syms ncs] written_member_def im SYMDEF_SORTED_def)
  have "first_member_defining a s = map_option (\<lambda>k. object_members a ! k) (map_of syms s)" for s
  proof (cases "map_of syms s")
    case None
    then have "map_of ?es s = None" by (simp add: archive_entries_def map_of_eq_None_iff split_def image_image)
    then show ?thesis using None a(3) by (simp add: first_member_defining_def first_defining_map_of)
  next
    case (Some k)
    let ?off = "members_start syms + length (concat (map encode_pair (take k ncs)))"
    have k: "k < length ncs" using assms(1) map_of_SomeD [OF Some] by auto
    have "?off \<le> length (archive_image syms ncs)"
      using arg_cong [OF append_take_drop_id [of k ncs], of "\<lambda>x. length (concat (map encode_pair x))"]
      by (simp add: archive_image_def members_start_eq [of syms ncs] flip: append_take_drop_id)
    then have off: "ucast (of_nat ?off :: u32) = (of_nat ?off :: u64)"
      using assms(3) by (simp add: unsigned_of_nat take_bit_nat_eq_self del: of_nat_add)
    have "map_of ?es s = Some (of_nat ?off)" using Some by (simp add: archive_entries_def map_of_map del: of_nat_add)
    then have "first_member_defining a s = member_at_offset a (of_nat ?off)"
      using a(3) off by (simp add: first_member_defining_def first_defining_map_of del: of_nat_add)
    moreover have "member_at_offset a (of_nat (mb_header_offset (ar_members a ! Suc k))) = Some (ar_members a ! Suc k)"
      using assms(3) k a(2) by (intro member_lookup [OF a(1)]) simp_all
    moreover have "ar_members a ! Suc k = object_members a ! k" by (simp add: a(2) obj members_start_eq [of syms ncs])
    moreover have "mb_header_offset (object_members a ! k) = ?off" using k by (simp add: obj written_members_nth written_member_def)
    ultimately show ?thesis using Some by simp
  qed
  moreover have "map (\<lambda>m. (mb_name m, mb_body m)) (object_members a) = ncs" unfolding obj by (rule written_contents)
  ultimately show ?thesis using a(1) by blast
qed

text \<open>A sample: two members and an index of three symbols.\<close>

definition sample_symbols :: "(str \<times> nat) list" where
  "sample_symbols = [(bstr ''_f'', 0), (bstr ''_g'', 1), (bstr ''_f'', 1)]"

definition sample_members :: "(str \<times> bytes) list" where
  "sample_members = [(bstr ''a.o'', [1, 2, 3]), (bstr ''b.o'', [4])]"

lemma sample_archive:
  "\<forall>(s, k) \<in> set sample_symbols. utf8_valid s \<and> 0 \<notin> set s \<and> k < length sample_members"
  "\<forall>nc \<in> set sample_members. (fst nc = [] \<or> last (fst nc) \<noteq> 0) \<and> fst nc \<noteq> bstr ''__.SYMDEF'' \<and> fst nc \<noteq> SYMDEF_SORTED"
  "length (archive_image sample_symbols sample_members) < 2 ^ 32"
proof -
  have "utf8_valid (bstr ''_f'')" "utf8_valid (bstr ''_g'')" by (rule utf8_valid_ascii, simp add: bstr_def)+
  then show "\<forall>(s, k) \<in> set sample_symbols. utf8_valid s \<and> 0 \<notin> set s \<and> k < length sample_members"
    by (simp add: sample_symbols_def sample_members_def bstr_def)
  show "\<forall>nc \<in> set sample_members. (fst nc = [] \<or> last (fst nc) \<noteq> 0) \<and> fst nc \<noteq> bstr ''__.SYMDEF'' \<and> fst nc \<noteq> SYMDEF_SORTED"
    by (simp add: sample_members_def SYMDEF_SORTED_def bstr_def)
  have "length (archive_image sample_symbols sample_members) = 256" by code_simp
  then show "length (archive_image sample_symbols sample_members) < 2 ^ 32" by simp
qed

theorem archive_round_trip_witness:
  "\<exists>a. archive_open [] (archive_image sample_symbols sample_members) = Ok a
     \<and> map mb_name (object_members a) = [bstr ''a.o'', bstr ''b.o'']
     \<and> first_member_defining a (bstr ''_f'') = Some (object_members a ! 0) \<and> first_member_defining a (bstr ''_h'') = None"
proof -
  obtain a where a: "archive_open [] (archive_image sample_symbols sample_members) = Ok a"
    "map (\<lambda>m. (mb_name m, mb_body m)) (object_members a) = sample_members"
    "\<And>s. first_member_defining a s = map_option (\<lambda>k. object_members a ! k) (map_of sample_symbols s)"
    using archive_round_trip [OF sample_archive, of "[]"] by blast
  have "map mb_name (object_members a) = map fst sample_members" unfolding a(2) [symmetric] by simp
  then show ?thesis using a(1,3) by (simp add: sample_symbols_def sample_members_def)
qed

lemma sample_opens: obtains a where "archive_open [] (archive_image sample_symbols sample_members) = Ok a" "ar_members a \<noteq> []"
proof -
  have "rmap (\<lambda>a. ar_members a = []) (archive_open [] (archive_image sample_symbols sample_members)) = Ok False" by code_simp
  then obtain a where "archive_open [] (archive_image sample_symbols sample_members) = Ok a" "ar_members a \<noteq> []"
    by (cases "archive_open [] (archive_image sample_symbols sample_members)") auto
  then show ?thesis by (rule that)
qed

theorem opened_archive_well_formed_witness:
  "\<exists>a. archive_open [] (archive_image sample_symbols sample_members) = Ok a \<and> ar_members a \<noteq> []
     \<and> (\<forall>i < length (ar_members a). member_at_offset a (of_nat (mb_header_offset (ar_members a ! i))) = Some (ar_members a ! i))"
proof (rule sample_opens)
  fix a assume a: "archive_open [] (archive_image sample_symbols sample_members) = Ok a" "ar_members a \<noteq> []"
  have "length (archive_image sample_symbols sample_members) < 2 ^ 64" using sample_archive(3) by simp
  then show ?thesis using opened_archive_well_formed [OF a(1)] a by (auto simp: Let_def)
qed

theorem cached_load_agrees_witness:
  "\<exists>a m. archive_open [] (archive_image sample_symbols sample_members) = Ok a \<and> m \<in> set (ar_members a)
     \<and> metadata_load_member (\<lambda>_. None) (into_metadata a) [] (archive_image sample_symbols sample_members) (member_metadata m)
       = load_member (\<lambda>_. None) a m"
proof (rule sample_opens)
  fix a assume a: "archive_open [] (archive_image sample_symbols sample_members) = Ok a" "ar_members a \<noteq> []"
  have "length (archive_image sample_symbols sample_members) < 2 ^ 64" using sample_archive(3) by simp
  then show ?thesis using cached_load_agrees [OF a(1)] a hd_in_set [OF a(2)] by blast
qed

section \<open>Panics\<close>

lemma index_name_safe [no_panic]: "start \<le> length strings \<Longrightarrow> safe (index_name e1 e2 strings start)"
proof -
  assume s: "start \<le> length strings"
  show ?thesis
  proof (cases "position (\<lambda>b. b = 0) (drop start strings)")
    case (Some i)
    then have "start + i \<le> length strings" using position_SomeD(1) [OF Some] by simp
    then show ?thesis using s Some by (simp add: index_name_def)
  qed (simp add: index_name_def s)
qed

lemma ranlib_entry_safe: "off + 8 \<le> length body \<Longrightarrow> safe (ranlib_entry body strings off)"
  unfolding ranlib_entry_def by (auto intro!: no_panic simp: rd_ok split: prod.splits)

lemma bsd_index_safe: "safe (parse_bsd_symbol_index body)"
  unfolding parse_bsd_symbol_index_def Let_def
  by (auto intro!: no_panic ranlib_entry_safe simp: checked_add_eq_Some)

lemma be_field_safe [no_panic]: "off + width \<le> length body \<Longrightarrow> safe (be_field width off body)"
  by (simp add: be_field_def)

lemma sysv_entries_safe:
  "\<forall>i \<in> set ixs. width + i * width + width \<le> length body \<Longrightarrow> safe (sysv_entries label width body strings ixs cursor)"
  by (induction ixs arbitrary: cursor) (auto intro!: no_panic split: prod.splits)

lemma sysv_slots: "i < n \<Longrightarrow> width + n * width \<le> len \<Longrightarrow> width + i * width + width \<le> (len :: nat)"
  by (metis Suc_leI add.assoc add.commute add_le_cancel_left le_trans mult_Suc mult_le_mono1)

lemma sysv_index_safe: "safe (parse_sysv_symbol_index body)"
  unfolding parse_sysv_symbol_index_def Let_def
  by (auto intro!: no_panic sysv_entries_safe sysv_slots simp: checked_add_eq_Some simp del: mult_le_mono1)

lemma sysv_index64_safe: "safe (parse_sysv_symbol_index64 body)"
  unfolding parse_sysv_symbol_index64_def Let_def
  by (auto intro!: no_panic sysv_entries_safe sysv_slots simp: checked_add_eq_Some checked_mul_eq_Some split: bind_splits)

lemma build_symbol_index_safe: "safe (build_symbol_index ms)"
  by (induction ms) (auto intro!: no_panic bsd_index_safe sysv_index_safe sysv_index64_safe split: special_member.splits)

end
