(* ===== verification/Archive_Panics.thy ===== *)
theory Archive_Panics
  imports Archive_Written
begin

text \<open>
  The one way in which opening an archive panics: a long-name reference to the terminator of an entry of
  the name table.
\<close>

lemma decode_long_name_panics:
  "decode_long_name table pos ho = Panic \<longleftrightarrow>
     0 < unat pos \<and> unat pos < length table \<and> table ! unat pos \<in> {0, 10} \<and> table ! (unat pos - 1) = 0x2F"
proof (cases "unat pos < length table")
  case True
  let ?p = "\<lambda>b. b = 0 \<or> b = (10 :: u8)" and ?s = "unat pos"
  define fin where "fin = (case position ?p (drop ?s table) of Some i \<Rightarrow> ?s + i | None \<Rightarrow> length table)"
  define tr where "tr = (if fin > 0 \<and> table ! (fin - 1) = 0x2F then fin - 1 else fin)"
  have f: "?s \<le> fin" "fin \<le> length table"
    using True position_SomeD(1) [of ?p "drop ?s table"] by (auto simp: fin_def split: option.splits)
  have e: "fin = ?s \<longleftrightarrow> ?p (table ! ?s)"
  proof -
    have d: "drop ?s table = table ! ?s # drop (Suc ?s) table" using True by (simp add: Cons_nth_drop_Suc)
    show ?thesis unfolding fin_def d using True by (auto split: option.splits)
  qed
  have "decode_long_name table pos ho = rbind (slice ?s tr table) Ok"
    using True by (simp add: decode_long_name_def fin_def [symmetric] tr_def archive_name_path_def Let_def)
  then have "decode_long_name table pos ho = Panic \<longleftrightarrow> tr < ?s" using f by (auto simp: slice_def tr_def)
  then show ?thesis using f e True by (auto simp: tr_def)
qed (simp add: decode_long_name_def)

definition less_slash :: "bytes \<Rightarrow> bytes" where
  "less_slash b = (if b \<noteq> [] \<and> last b = 0x2F then butlast b else b)"

lemma position_takeWhile:
  "(case position P xs of Some i \<Rightarrow> i | None \<Rightarrow> length xs) = length (takeWhile (\<lambda>x. \<not> P x) xs)"
  by (induction xs) (auto split: option.splits)

lemma decode_long_name_value:
  assumes "unat pos < length table" and "\<not> (0 < unat pos \<and> table ! unat pos \<in> {0, 10} \<and> table ! (unat pos - 1) = 0x2F)"
  shows "decode_long_name table pos ho = Ok (less_slash (takeWhile (\<lambda>b. b \<notin> {0, 10}) (drop (unat pos) table)))"
proof -
  let ?p = "\<lambda>b. b = 0 \<or> b = (10 :: u8)" and ?s = "unat pos"
  define w where "w = takeWhile (\<lambda>b. \<not> ?p b) (drop ?s table)"
  define fin where "fin = (case position ?p (drop ?s table) of Some i \<Rightarrow> ?s + i | None \<Rightarrow> length table)"
  define tr where "tr = (if fin > 0 \<and> table ! (fin - 1) = 0x2F then fin - 1 else fin)"
  have fin: "fin = ?s + length w" using position_takeWhile [where P = ?p and xs = "drop ?s table"] assms(1) by (auto simp: fin_def w_def split: option.splits)
  have wt: "w = take (length w) (drop ?s table)" unfolding w_def by (metis takeWhile_eq_take)
  have wl: "?s + length w \<le> length table" using length_takeWhile_le [of "\<lambda>b. \<not> ?p b" "drop ?s table"] assms(1) unfolding w_def by simp
  have "decode_long_name table pos ho = rbind (slice ?s tr table) Ok"
    using assms(1) by (simp add: decode_long_name_def fin_def [symmetric] tr_def archive_name_path_def Let_def)
  moreover have "?s \<le> tr \<and> tr \<le> length table \<and> take (tr - ?s) (drop ?s table) = less_slash w"
  proof (cases "w = []")
    case True
    then have "?p (table ! ?s)" using assms(1) by (auto simp: w_def Cons_nth_drop_Suc [symmetric] split: if_splits)
    then show ?thesis using assms fin True by (auto simp: tr_def less_slash_def)
  next
    case False
    have "w ! (length w - 1) = take (length w) (drop ?s table) ! (length w - 1)" using arg_cong [OF wt, of "\<lambda>x. x ! (length w - 1)"] .
    moreover have "0 < length w" using False by simp
    ultimately have "last w = table ! (fin - 1)" using False wl by (simp add: last_conv_nth fin)
    moreover have "butlast w = take (length w - 1) (drop ?s table)"
      using arg_cong [OF wt, of "take (length w - 1)"] by (simp add: butlast_conv_take)
    moreover have "?s + 1 \<le> ?s + length w" using False by (cases w) simp_all
    ultimately show ?thesis using False wl wt by (auto simp: tr_def fin less_slash_def)
  qed
  ultimately show ?thesis by (simp add: slice_def w_def)
qed

definition no_dangling :: "bytes \<Rightarrow> bool" where
  "no_dangling b \<longleftrightarrow> (\<forall>k. 0 < k \<longrightarrow> k < length b \<longrightarrow> \<not> (b ! (k - 1) = 0x2F \<and> b ! k \<in> {0, 10}))"

lemma no_dangling_slice: "no_dangling b \<Longrightarrow> no_dangling (take n (drop p b))"
  unfolding no_dangling_def
proof (intro allI impI)
  fix k assume h: "\<forall>k. 0 < k \<longrightarrow> k < length b \<longrightarrow> \<not> (b ! (k - 1) = 0x2F \<and> b ! k \<in> {0, 10})" "0 < k" "k < length (take n (drop p b))"
  have k: "k < n" "p + k < length b" "p + k - 1 = p + (k - 1)" "p \<le> length b" "k - 1 < n" using h(2,3) by auto
  have "take n (drop p b) ! (k - 1) = b ! (p + k - 1)" unfolding k(3) using k by simp
  moreover have "take n (drop p b) ! k = b ! (p + k)" using k by simp
  ultimately show "\<not> (take n (drop p b) ! (k - 1) = 0x2F \<and> take n (drop p b) ! k \<in> {0, 10})"
    using h(1) [rule_format, of "p + k"] h(2) k(2) by simp
qed

lemma decode_long_name_safe: "no_dangling table \<Longrightarrow> safe (decode_long_name table pos ho)"
  unfolding safe_def decode_long_name_panics no_dangling_def by blast

lemma dec_value_bound: "list_all is_ascii_digit ds \<Longrightarrow> 0 \<le> dec_value ds \<and> dec_value ds < 10 ^ length ds"
proof (induction ds rule: rev_induct)
  case (snoc d ds)
  have "48 \<le> uint d" "uint d \<le> 57" using snoc.prems by (simp_all add: is_ascii_digit_def word_le_def)
  moreover have "dec_value (ds @ [d]) = 10 * dec_value ds + (uint d - 48)" by (simp add: dec_value_def)
  ultimately show ?case using snoc by simp
qed (simp add: dec_value_def)

lemma parse_u64_bound:
  assumes "parse_u64 s = Some v" and "length s \<le> 13"
  shows "unat v < 10 ^ 13"
proof -
  define ds where "ds = (case s of b # r \<Rightarrow> if b = 0x2B \<and> r \<noteq> [] then r else s | [] \<Rightarrow> [])"
  have "length ds \<le> length s" by (simp add: ds_def split: list.splits)
  moreover have "list_all is_ascii_digit ds" "v = word_of_int (dec_value ds)" "dec_value ds < 2 ^ 64"
    using assms(1) unfolding parse_u64_def ds_def [symmetric] by (simp_all add: Let_def split: if_splits)
  ultimately have ds: "list_all is_ascii_digit ds" "length ds \<le> length s" "v = word_of_int (dec_value ds)" "dec_value ds < 2 ^ 64" by simp_all
  have b: "0 \<le> dec_value ds" "dec_value ds < 10 ^ length ds" using dec_value_bound [OF ds(1)] by auto
  have "(10 :: int) ^ length ds \<le> 10 ^ 13" using ds(2) assms(2) by (intro power_increasing) auto
  then have "dec_value ds < 10 ^ 13" using b by linarith
  moreover have "uint v = dec_value ds" unfolding ds(3) using b(1) ds(4) by (simp add: uint_word_of_int_eq take_bit_int_eq_self)
  ultimately have "int (unat v) < int (10 ^ 13)" by simp
  then show ?thesis by (simp only: of_nat_less_iff)
qed

lemma decode_bsd_extended_safe:
  assumes "start + sz \<le> length data" and "length data < 2 ^ 63" and "length rest \<le> 13"
  shows "safe (decode_bsd_extended rest data start sz ho)"
proof -
  have small: "checked_add start nlen = Some (start + nlen)" if h: "parse_ascii_usize rest = Some nlen" for nlen
  proof -
    obtain v where "parse_u64 rest = Some v" "nlen = unat v"
      using h by (auto simp: parse_ascii_usize_def parse_ascii_u64_def split: if_splits)
    then have "nlen < 10 ^ 13" using parse_u64_bound [OF _ assms(3)] by simp
    then show ?thesis using assms(1,2) by (simp add: checked_add_def usize_max_def)
  qed
  show ?thesis unfolding decode_bsd_extended_def Let_def
    using assms(1) by (auto intro!: no_panic simp: small archive_name_path_def)
qed

lemma whole_member_safe: "start + sz \<le> length data \<Longrightarrow> safe (whole_member data start sz special nested nm)"
  by (simp add: whole_member_def)

lemma nested_offset_safe: "safe (nested_offset ho nested)"
  unfolding nested_offset_def by (auto intro!: no_panic split: option.splits)

lemma raw_name_length: "length (ah_name h) \<le> 16 \<Longrightarrow> length (raw_name_bytes h) \<le> 16"
proof -
  have t: "length (trim_ascii_bytes b) \<le> length b" for b
    by (simp add: trim_ascii_bytes_def trim_trailing_def) (metis length_dropWhile_le length_rev)
  assume "length (ah_name h) \<le> 16"
  then show ?thesis using t [of "ah_name h"] t [of "butlast (trim_ascii_bytes (ah_name h))"]
    by (auto simp: raw_name_bytes_def Let_def strip_suffix_def split: option.splits if_splits)
qed

lemma decode_member_safe:
  assumes "start + sz \<le> length data" and "length data < 2 ^ 63" and "length rn \<le> 16"
    and "\<And>table. names = Some table \<Longrightarrow> no_dangling table"
  shows "safe (decode_member rn data start sz fl names ho)"
proof (cases "strip_prefix (bstr ''#1/'') rn")
  case (Some rest)
  then have "length rest \<le> 13" using assms(3) by (auto simp: strip_prefix_def bstr_def split: if_splits)
  then show ?thesis using decode_bsd_extended_safe [OF assms(1,2)] Some by (simp add: decode_member_def)
next
  case None
  have "start + 0 \<le> length data" using assms(1) by simp
  then show ?thesis unfolding decode_member_def None option.case
    using assms(1,4) by (auto intro!: no_panic whole_member_safe decode_long_name_safe nested_offset_safe
        simp: archive_name_path_def split: option.splits)
qed

lemma parse_ar_header_safe: "safe (parse_ar_header b pos)"
  unfolding parse_ar_header_def by (auto intro!: no_panic)

lemma parse_ar_header_name: "parse_ar_header b pos = Ok h \<Longrightarrow> length (ah_name h) \<le> 16"
  by (auto simp: parse_ar_header_def rbind_Ok_iff slice_Ok_iff split: if_splits)

lemma parse_members_loop_safe:
  assumes "no_dangling data" and "length data < 2 ^ 63" and "\<And>table. names = Some table \<Longrightarrow> no_dangling table"
  shows "safe (parse_members_loop data fl names cursor)"
  using assms(3)
proof (induction "length data - cursor" arbitrary: fl names cursor rule: less_induct)
  case less
  have step: "safe (parse_members_loop data fl' (if dm_special d = SysvLongNames then Some (dm_body d) else names) nxt)"
    if "cursor < length data" "decode_member (raw_name_bytes h) data (cursor + 60) (member_stored_size fl h) fl names cursor = Ok d"
      "cursor + 60 + member_stored_size fl h \<le> length data" "nxt > cursor" for h d fl' nxt
  proof (rule less.hyps)
    show "length data - nxt < length data - cursor" using that by simp
    have "dm_body d = take (length (dm_body d)) (drop (dm_body_offset d) data)"
      using decode_member_Ok [OF that(2,3)] by (simp add: member_stored_size_def)
    then have "no_dangling (dm_body d)" using no_dangling_slice [OF assms(1)] by metis
    then show "no_dangling table" if "(if dm_special d = SysvLongNames then Some (dm_body d) else names) = Some table" for table
      using that less.prems by (auto split: if_splits)
  qed
  show ?case unfolding parse_members_loop.simps [of data fl names cursor] Let_def
    using assms(2) less.prems
    by (auto intro!: no_panic parse_ar_header_safe decode_member_safe raw_name_length step
        dest: parse_ar_header_name simp: checked_add_eq_Some split: prod.splits simp del: slice_ok)
qed

text \<open>
  Opening an archive panics in one way only. If no slash of the file is followed by a newline or a NUL
  byte, which is how an entry of the long-name table ends, opening it returns an archive or an error.
\<close>

theorem archive_open_never_panics:
  assumes "no_dangling data" and "length data < 2 ^ 63"
  shows "archive_open path data \<noteq> Panic"
proof -
  have "safe (detect_flavor data)" by (simp add: detect_flavor_def Let_def)
  moreover have "safe (parse_members_loop data fl None 8)" for fl by (rule parse_members_loop_safe [OF assms]) simp
  ultimately have "safe (archive_open path data)"
    unfolding archive_open_def parse_members_def by (auto intro!: no_panic build_symbol_index_safe split: prod.splits)
  then show ?thesis by (simp add: safe_def)
qed

theorem archive_open_never_panics_witness:
  "archive_open [] (AR_MAGIC @ [1, 2]) = Err (ArTruncated 60 2 ''ar_hdr'') \<and> archive_open [] (AR_MAGIC @ [1, 2]) \<noteq> Panic"
proof -
  have "no_dangling (AR_MAGIC @ [1, 2])" by (auto simp: no_dangling_def AR_MAGIC_def bstr_def less_Suc_eq nth_Cons')
  moreover have "archive_open [] (AR_MAGIC @ [1, 2]) = Err (ArTruncated 60 2 ''ar_hdr'')" by code_simp
  ultimately show ?thesis using archive_open_never_panics [of "AR_MAGIC @ [1, 2]" "[]"] by simp
qed

text \<open>
  C28: What a reference into the long-name table yields, on every table and position: outside the table it is an
  error; at a terminator (a newline or a NUL byte) that follows a slash, which is where every entry of a GNU table ends, the code
  slices backwards and panics; anywhere else it is the bytes up to the next terminator or the end of the table, less one final slash.
\<close>

theorem decode_long_name_exact:
  "(decode_long_name table pos ho = Err (LongNameOob ho pos) \<longleftrightarrow> length table \<le> unat pos)
   \<and> (decode_long_name table pos ho = Panic \<longleftrightarrow>
        0 < unat pos \<and> unat pos < length table \<and> table ! unat pos \<in> {0, 10} \<and> table ! (unat pos - 1) = 0x2F)
   \<and> (\<forall>nm. decode_long_name table pos ho = Ok nm \<longleftrightarrow>
        unat pos < length table \<and> \<not> (0 < unat pos \<and> table ! unat pos \<in> {0, 10} \<and> table ! (unat pos - 1) = 0x2F)
        \<and> nm = less_slash (takeWhile (\<lambda>b. b \<notin> {0, 10}) (drop (unat pos) table)))"
proof (cases "length table \<le> unat pos")
  case True
  then show ?thesis by (simp add: decode_long_name_def)
next
  case False
  let ?bad = "0 < unat pos \<and> table ! unat pos \<in> {0, 10} \<and> table ! (unat pos - 1) = 0x2F"
  show ?thesis
  proof (cases ?bad)
    case True
    then have "decode_long_name table pos ho = Panic" using False unfolding decode_long_name_panics by simp
    then show ?thesis using True False by simp
  next
    case good: False
    then show ?thesis using False decode_long_name_value [OF _ good, of ho] by auto
  qed
qed

text \<open>
  A reference to the newline that ends an entry of the long-name table makes opening the archive panic: the
  code strips the slash before the newline and then slices backwards.
\<close>

theorem dangling_long_name_panics:
  "archive_open [] (AR_MAGIC @ encode_member (bstr ''//'') (bstr ''ab.o/'' @ [10]) @ encode_member (bstr ''/5'') []) = Panic"
  by code_simp

end
