(* ===== verification/Dylib_File.thy ===== *)
theory Dylib_File
  imports Object_File Exports
begin

text \<open>
  The dynamic-library reader of \<^verbatim>\<open>src/macho/dylib.rs\<close>: identity, dependencies with their ordinals, run
  paths, and where the exports are found (an explicit trie, or the external definitions of the symbol
  table when no trie is announced).
\<close>

datatype dylib_load_kind = LoadNormal | LoadWeak | LoadReexport | LoadUpward

definition from_cmd :: "u32 \<Rightarrow> dylib_load_kind option" where
  "from_cmd cmd =
     (if cmd = LC_LOAD_DYLIB then Some LoadNormal
      else if cmd = LC_LOAD_WEAK_DYLIB then Some LoadWeak
      else if cmd = LC_REEXPORT_DYLIB then Some LoadReexport
      else if cmd = LC_LOAD_UPWARD_DYLIB then Some LoadUpward
      else None)"

fun load_cmd :: "dylib_load_kind \<Rightarrow> u32" where
  "load_cmd LoadNormal = LC_LOAD_DYLIB"
| "load_cmd LoadWeak = LC_LOAD_WEAK_DYLIB"
| "load_cmd LoadReexport = LC_REEXPORT_DYLIB"
| "load_cmd LoadUpward = LC_LOAD_UPWARD_DYLIB"

record dylib_dependency =
  dd_kind :: dylib_load_kind
  dd_install_name :: str
  dd_current_version :: u32
  dd_compatibility_version :: u32
  dd_ordinal :: u16

record dylib_file =
  df_path :: str
  df_header :: mach_header_64
  df_commands :: "load_command list"
  df_install_name :: str
  df_current_version :: u32
  df_compatibility_version :: u32
  df_dependencies :: "dylib_dependency list"
  df_rpaths :: "str list"
  df_symtab :: "symtab_cmd option"
  df_exports :: exports

definition trie_slice :: "bytes \<Rightarrow> u32 \<Rightarrow> u32 \<Rightarrow> exports read" where
  "trie_slice file_bytes off sz =
     (let start = unat off in
      rbind (ok_or (Truncated usize_max (length file_bytes) ''export trie (offset + size overflows)'')
               (checked_add start (unat sz))) (\<lambda>fin.
      if fin > length file_bytes then Err (Truncated fin (length file_bytes) ''export trie'')
      else rbind (slice start fin file_bytes) (\<lambda>b. Ok (Trie b))))"

fun last_symtab :: "load_command list \<Rightarrow> symtab_cmd option" where
  "last_symtab [] = None"
| "last_symtab (c # cs) = (case last_symtab cs of Some s \<Rightarrow> Some s | None \<Rightarrow> (case c of Symtab s \<Rightarrow> Some s | _ \<Rightarrow> None))"

fun last_dysymtab :: "load_command list \<Rightarrow> dysymtab_cmd option" where
  "last_dysymtab [] = None"
| "last_dysymtab (c # cs) = (case last_dysymtab cs of Some s \<Rightarrow> Some s | None \<Rightarrow> (case c of Dysymtab s \<Rightarrow> Some s | _ \<Rightarrow> None))"

definition legacy_entry :: "string_table \<Rightarrow> raw_nlist \<Rightarrow> export_entry read" where
  "legacy_entry strings s =
     rbind (st_get strings (strx s)) (\<lambda>nm.
     Ok \<lparr>ex_name = nm, ex_flags = (if weak_def s then EXPORT_SYMBOL_FLAGS_WEAK_DEFINITION else 0), ex_kind = ERegular (n_value s)\<rparr>)"

definition locate_legacy_exports :: "load_command list \<Rightarrow> bytes \<Rightarrow> exports read" where
  "locate_legacy_exports commands file_bytes =
     (case (last_symtab commands, last_dysymtab commands) of
        (Some st, Some dy) \<Rightarrow>
          rbind (ok_or (BadCmdsize LC_DYSYMTAB 80 (unat (iextdefsym dy)) ''LC_DYSYMTAB external-definition range overflows'')
                   (if unat (iextdefsym dy) + unat (nextdefsym dy) < 2 ^ 32 then Some (iextdefsym dy + nextdefsym dy) else None)) (\<lambda>extdef_end.
          if extdef_end > st_nsyms st then
            Err (BadCmdsize LC_DYSYMTAB 80 (unat (iextdefsym dy)) ''LC_DYSYMTAB external-definition range exceeds LC_SYMTAB nsyms'')
          else
            rbind (parse_nlist_table file_bytes (st_symoff st) (st_nsyms st)) (\<lambda>syms.
            rbind (from_file file_bytes (st_stroff st) (st_strsize st)) (\<lambda>strings.
            rbind (slice (unat (iextdefsym dy)) (unat extdef_end) syms) (\<lambda>ext.
            rmap Flat (mapM (legacy_entry strings) ext)))))
      | _ \<Rightarrow> Ok (Flat []))"

fun find_trie :: "load_command list \<Rightarrow> bytes \<Rightarrow> bool \<Rightarrow> exports read option \<times> bool" where
  "find_trie [] file_bytes saw = (None, saw)"
| "find_trie (c # cs) file_bytes saw =
     (case c of
        DyldInfoOnly d \<Rightarrow>
          if export_size d \<noteq> 0 then (Some (trie_slice file_bytes (export_off d) (export_size d)), True) else find_trie cs file_bytes True
      | DyldExportsTrie l \<Rightarrow>
          if le_datasize l \<noteq> 0 then (Some (trie_slice file_bytes (le_dataoff l) (le_datasize l)), True) else find_trie cs file_bytes True
      | _ \<Rightarrow> find_trie cs file_bytes saw)"

definition locate_exports :: "load_command list \<Rightarrow> bytes \<Rightarrow> exports read" where
  "locate_exports commands file_bytes =
     (case find_trie commands file_bytes False of
        (Some r, _) \<Rightarrow> r
      | (None, True) \<Rightarrow> Ok (Flat [])
      | (None, False) \<Rightarrow> locate_legacy_exports commands file_bytes)"

text \<open>What the loop over the load commands collects.\<close>

record dylib_scan =
  ds_identity :: "dylib_cmd option"
  ds_dependencies :: "dylib_dependency list"
  ds_rpaths :: "str list"
  ds_symtab :: "symtab_cmd option"

definition scan_command :: "load_command \<Rightarrow> dylib_scan \<Rightarrow> dylib_scan read" where
  "scan_command cmd s =
     (case cmd of
        Dylib d \<Rightarrow>
          if dl_cmd d = LC_ID_DYLIB then
            if ds_identity s \<noteq> None then Err (BadDylibIdentity ''multiple LC_ID_DYLIB load commands'')
            else if dl_name d = [] then Err (BadDylibIdentity ''LC_ID_DYLIB install name is empty'')
            else Ok (s\<lparr>ds_identity := Some d\<rparr>)
          else
            (case from_cmd (dl_cmd d) of
               None \<Rightarrow> Ok s
             | Some kind \<Rightarrow>
                 Ok (s\<lparr>ds_dependencies := ds_dependencies s @
                   [\<lparr>dd_kind = kind, dd_install_name = dl_name d, dd_current_version = dl_current_version d,
                     dd_compatibility_version = dl_compatibility_version d, dd_ordinal = of_nat (length (ds_dependencies s) + 1)\<rparr>]\<rparr>))
      | Rpath r \<Rightarrow> Ok (s\<lparr>ds_rpaths := ds_rpaths s @ [r]\<rparr>)
      | Symtab st \<Rightarrow> Ok (s\<lparr>ds_symtab := Some st\<rparr>)
      | _ \<Rightarrow> Ok s)"

fun scan_commands :: "load_command list \<Rightarrow> dylib_scan \<Rightarrow> dylib_scan read" where
  "scan_commands [] s = Ok s"
| "scan_commands (c # cs) s = rbind (scan_command c s) (scan_commands cs)"

definition parse_dylib_file :: "str \<Rightarrow> bytes \<Rightarrow> dylib_file read" where
  "parse_dylib_file path file_bytes =
     rbind (parse_header file_bytes) (\<lambda>header.
     if filetype header \<noteq> MH_DYLIB then Err (UnexpectedFiletype (filetype header) MH_DYLIB)
     else
       rbind (parse_commands header file_bytes) (\<lambda>commands.
       rbind (scan_commands commands \<lparr>ds_identity = None, ds_dependencies = [], ds_rpaths = [], ds_symtab = None\<rparr>) (\<lambda>s.
       rbind (ok_or (BadDylibIdentity ''missing LC_ID_DYLIB load command'') (ds_identity s)) (\<lambda>identity.
       rbind (locate_exports commands file_bytes) (\<lambda>ex.
       Ok \<lparr>df_path = path, df_header = header, df_commands = commands, df_install_name = dl_name identity,
           df_current_version = dl_current_version identity, df_compatibility_version = dl_compatibility_version identity,
           df_dependencies = ds_dependencies s, df_rpaths = ds_rpaths s, df_symtab = ds_symtab s, df_exports = ex\<rparr>)))))"

definition dependency_ordinal :: "dylib_dependency list \<Rightarrow> str \<Rightarrow> u16 option" where
  "dependency_ordinal deps nm = map_option dd_ordinal (find (\<lambda>d. dd_install_name d = nm) deps)"

lemma load_kind_round_trip: "from_cmd (load_cmd k) = Some k"
  by (cases k) (simp_all add: from_cmd_def)

section \<open>What a parsed library satisfies\<close>

lemma trie_slice_safe [no_panic]: "safe (trie_slice b off sz)"
  unfolding trie_slice_def Let_def by (auto intro!: no_panic simp: checked_add_eq_Some)

lemma parse_commands_safe [no_panic]: "safe (parse_commands h b)"
  unfolding parse_commands_def by (auto intro!: no_panic parse_commands_loop_safe)

lemma parse_nlist_table_length: "parse_nlist_table b off n = Ok syms \<Longrightarrow> length syms = unat n"
  unfolding parse_nlist_table_unfold read_records_def by (auto split: if_splits dest!: mapM_Ok_length)

lemma legacy_exports_safe: "safe (locate_legacy_exports cs b)"
proof -
  have "unat (x + y) = unat x + unat y" if "unat x + unat y < 2 ^ 32" for x y :: u32 using that by (simp add: unat_word_ariths)
  then show ?thesis unfolding locate_legacy_exports_def
    by (auto intro!: no_panic simp: legacy_entry_def not_less word_le_nat_alt dest!: parse_nlist_table_length split: option.splits if_splits)
qed

lemma find_trie_safe: "find_trie cs b saw = (Some r, z) \<Longrightarrow> safe r"
  by (induction cs arbitrary: saw) (auto intro: trie_slice_safe split: load_command.splits if_splits)

lemma locate_exports_safe [no_panic]: "safe (locate_exports cs b)"
  unfolding locate_exports_def
  by (auto intro: legacy_exports_safe dest: find_trie_safe split: prod.splits option.splits bool.splits)

definition scan_ok :: "dylib_scan \<Rightarrow> bool" where
  "scan_ok s \<longleftrightarrow> (\<forall>d. ds_identity s = Some d \<longrightarrow> dl_name d \<noteq> [])
     \<and> (\<forall>i < length (ds_dependencies s). dd_ordinal (ds_dependencies s ! i) = of_nat (i + 1))"

lemma scan_command_ok: "scan_command c s = Ok s' \<Longrightarrow> scan_ok s \<Longrightarrow> scan_ok s'"
  by (auto simp: scan_command_def scan_ok_def nth_append less_Suc_eq split: load_command.splits if_splits option.splits)

lemma scan_commands_ok: "scan_commands cs s = Ok s' \<Longrightarrow> scan_ok s \<Longrightarrow> scan_ok s'"
  by (induction cs arbitrary: s) (auto simp: rbind_Ok_iff dest: scan_command_ok)

lemma scan_commands_safe [no_panic]: "safe (scan_commands cs s)"
  by (induction cs arbitrary: s) (auto intro!: no_panic simp: scan_command_def split: load_command.splits option.splits)

text \<open>
  The dynamic-library reader never panics, and a library it accepts is one, has a non-empty install name,
  and numbers its dependencies from one in the order of their load commands.
\<close>

theorem parsed_dylib_well_formed:
  "parse_dylib_file path b \<noteq> Panic \<and> (\<forall>d. parse_dylib_file path b = Ok d \<longrightarrow>
     filetype (df_header d) = MH_DYLIB \<and> df_install_name d \<noteq> []
     \<and> (\<forall>i < length (df_dependencies d). dd_ordinal (df_dependencies d ! i) = of_nat (i + 1)))"
proof -
  have "safe (parse_dylib_file path b)" unfolding parse_dylib_file_def by (auto intro!: no_panic)
  moreover have "filetype (df_header d) = MH_DYLIB \<and> df_install_name d \<noteq> []
     \<and> (\<forall>i < length (df_dependencies d). dd_ordinal (df_dependencies d ! i) = of_nat (i + 1))" if "parse_dylib_file path b = Ok d" for d
    using that scan_commands_ok by (fastforce simp: parse_dylib_file_def rbind_Ok_iff scan_ok_def split: if_splits)
  ultimately show ?thesis by (auto simp: safe_def)
qed

end
