(* ===== verification/Inputs.thy ===== *)
theory Inputs
  imports Dylib_File Archive Resolution
begin

text \<open>
  The input registry and the seeding passes of \<^verbatim>\<open>src/resolve.rs\<close>: objects, archives and libraries, and how
  their symbols enter the symbol table. A pass threads the table and its report; an insertion that is
  refused is recorded and the pass goes on.
\<close>

section \<open>Registry\<close>

record object_input =
  oi_path :: str
  oi_load_order :: nat
  oi_archive_member_offset :: "u64 option"
  oi_bytes :: bytes
  oi_parsed :: object_file

record archive_input =
  ai_path :: str
  ai_load_order :: nat
  ai_bytes :: bytes
  ai_metadata :: archive_metadata
  ai_fetched :: "u64 set"

record dylib_input =
  di_path :: str
  di_file :: dylib_file
  di_load_install_name :: str
  di_load_current_version :: u32
  di_load_compatibility_version :: u32
  di_ordinal :: u16
  di_load_kind :: dylib_load_kind

record dylib_load_meta =
  dm_install_name :: str
  dm_current_version :: u32
  dm_compatibility_version :: u32
  dm_ordinal :: u16
  dm_load_kind :: dylib_load_kind

datatype ordered_input = OObject input_id | OArchive archive_id | OForceLoadArchive archive_id | ODylib dylib_id

record ordered_input_entry =
  oe_load_order :: nat
  oe_input :: ordered_input

record inputs =
  in_objects :: "object_input list"
  in_archives :: "archive_input list"
  in_dylibs :: "dylib_input list"

datatype input_add_error = AddRead read_error | AddArchive archive_error | TooManyDylibDependencies

type_synonym 'a add = "(input_add_error, 'a) result"

abbreviation (input) MAX_LIBRARY_ORDINAL :: u16 where "MAX_LIBRARY_ORDINAL \<equiv> 0xFD"

definition inputs_new :: inputs where
  "inputs_new = \<lparr>in_objects = [], in_archives = [], in_dylibs = []\<rparr>"

definition add_parsed_object :: "str \<Rightarrow> bytes \<Rightarrow> object_file \<Rightarrow> nat \<Rightarrow> inputs \<Rightarrow> input_id \<times> inputs" where
  "add_parsed_object path bytes parsed load_order inp =
     (of_nat (length (in_objects inp)),
      inp\<lparr>in_objects := in_objects inp @
        [\<lparr>oi_path = path, oi_load_order = load_order, oi_archive_member_offset = None, oi_bytes = bytes, oi_parsed = parsed\<rparr>]\<rparr>)"

definition add_object :: "str \<Rightarrow> bytes \<Rightarrow> nat \<Rightarrow> inputs \<Rightarrow> (input_id \<times> inputs) add" where
  "add_object path bytes load_order inp =
     rbind (rmap_err AddRead (parse_object path bytes)) (\<lambda>parsed. Ok (add_parsed_object path bytes parsed load_order inp))"

definition add_parsed_archive :: "str \<Rightarrow> bytes \<Rightarrow> archive_metadata \<Rightarrow> nat \<Rightarrow> inputs \<Rightarrow> archive_id \<times> inputs" where
  "add_parsed_archive path bytes metadata load_order inp =
     (of_nat (length (in_archives inp)),
      inp\<lparr>in_archives := in_archives inp @
        [\<lparr>ai_path = path, ai_load_order = load_order, ai_bytes = bytes, ai_metadata = metadata, ai_fetched = {}\<rparr>]\<rparr>)"

definition add_archive :: "str \<Rightarrow> bytes \<Rightarrow> nat \<Rightarrow> inputs \<Rightarrow> (archive_id \<times> inputs) add" where
  "add_archive path bytes load_order inp =
     rbind (rmap_err AddArchive (metadata_parse path bytes)) (\<lambda>metadata. Ok (add_parsed_archive path bytes metadata load_order inp))"

definition add_validated_archive :: "str \<Rightarrow> bytes \<Rightarrow> nat \<Rightarrow> inputs \<Rightarrow> (archive_id \<times> inputs) add" where
  "add_validated_archive path bytes load_order inp =
     (case metadata_parse path bytes of
        Ok metadata \<Rightarrow> Ok (add_parsed_archive path bytes metadata load_order inp)
      | _ \<Rightarrow> Panic)"

definition next_dylib_ordinal :: "inputs \<Rightarrow> u16 add" where
  "next_dylib_ordinal inp =
     (let m = foldl max 0 (map di_ordinal (in_dylibs inp)) in
      if unat m + 1 < 2 ^ 16 \<and> m + 1 \<le> MAX_LIBRARY_ORDINAL then Ok (m + 1) else Err TooManyDylibDependencies)"

definition add_dylib_from_file_with_meta :: "str \<Rightarrow> dylib_file \<Rightarrow> dylib_load_meta \<Rightarrow> inputs \<Rightarrow> (dylib_id \<times> inputs) add" where
  "add_dylib_from_file_with_meta path file load inp =
     (if dm_ordinal load > MAX_LIBRARY_ORDINAL then Err TooManyDylibDependencies
      else
        Ok (of_nat (length (in_dylibs inp)),
            inp\<lparr>in_dylibs := in_dylibs inp @
              [\<lparr>di_path = path, di_file = file, di_load_install_name = dm_install_name load,
                di_load_current_version = dm_current_version load, di_load_compatibility_version = dm_compatibility_version load,
                di_ordinal = dm_ordinal load, di_load_kind = dm_load_kind load\<rparr>]\<rparr>))"

definition add_dylib_from_file_with_kind :: "str \<Rightarrow> dylib_file \<Rightarrow> dylib_load_kind \<Rightarrow> inputs \<Rightarrow> (dylib_id \<times> inputs) add" where
  "add_dylib_from_file_with_kind path file kind inp =
     rbind (next_dylib_ordinal inp) (\<lambda>ord.
     add_dylib_from_file_with_meta path file
       \<lparr>dm_install_name = df_install_name file, dm_current_version = df_current_version file,
        dm_compatibility_version = df_compatibility_version file, dm_ordinal = ord, dm_load_kind = kind\<rparr> inp)"

definition add_dylib_from_file :: "str \<Rightarrow> dylib_file \<Rightarrow> inputs \<Rightarrow> (dylib_id \<times> inputs) add" where
  "add_dylib_from_file path file inp = add_dylib_from_file_with_kind path file LoadNormal inp"

definition add_dylib_with_kind :: "str \<Rightarrow> bytes \<Rightarrow> dylib_load_kind \<Rightarrow> inputs \<Rightarrow> (dylib_id \<times> inputs) add" where
  "add_dylib_with_kind path bytes kind inp =
     rbind (rmap_err AddRead (parse_dylib_file path bytes)) (\<lambda>file. add_dylib_from_file_with_kind path file kind inp)"

definition add_dylib :: "str \<Rightarrow> bytes \<Rightarrow> inputs \<Rightarrow> (dylib_id \<times> inputs) add" where
  "add_dylib path bytes inp = add_dylib_with_kind path bytes LoadNormal inp"

definition archive_of :: "inputs \<Rightarrow> archive_id \<Rightarrow> ('e, archive_input) result" where
  "archive_of inp a = index (in_archives inp) (unat a)"

definition object_file_of :: "inputs \<Rightarrow> input_id \<Rightarrow> ('e, object_file) result" where
  "object_file_of inp i = rbind (index (in_objects inp) (unat i)) (\<lambda>o'. Ok (oi_parsed o'))"

definition dylib_of :: "inputs \<Rightarrow> dylib_id \<Rightarrow> ('e, dylib_input) result" where
  "dylib_of inp d = index (in_dylibs inp) (unat d)"

definition archive_view :: "inputs \<Rightarrow> archive_id \<Rightarrow> archive ar" where
  "archive_view inp a = rbind (archive_of inp a) (\<lambda>x. archive_open (ai_path x) (ai_bytes x))"

definition find_archive_by_path :: "inputs \<Rightarrow> str \<Rightarrow> archive_id option" where
  "find_archive_by_path inp path = map_option of_nat (position (\<lambda>a. ai_path a = path) (in_archives inp))"

section \<open>Reports\<close>

record pending_fetch =
  pf_id :: symbol_id
  pf_archive :: archive_id
  pf_member :: member_id

type_synonym referrer_log = "istr \<rightharpoonup> input_id list"

definition add_origin :: "input_id list \<Rightarrow> input_id \<Rightarrow> input_id list" where
  "add_origin l orig = (if orig \<in> set l then l else l @ [orig])"

definition referrer_get :: "referrer_log \<Rightarrow> istr \<Rightarrow> input_id list" where
  "referrer_get log nm = (case log nm of Some l \<Rightarrow> l | None \<Rightarrow> [])"

definition referrer_add :: "istr \<Rightarrow> input_id \<Rightarrow> referrer_log \<Rightarrow> referrer_log" where
  "referrer_add nm orig log = log(nm \<mapsto> add_origin (referrer_get log nm) orig)"

text \<open>Adding another log, name by name; the order of the names does not matter.\<close>

definition referrer_extend :: "referrer_log \<Rightarrow> referrer_log \<Rightarrow> referrer_log" where
  "referrer_extend log other =
     (\<lambda>nm. if referrer_get other nm = [] then log nm else Some (foldl add_origin (referrer_get log nm) (referrer_get other nm)))"

record seed_report =
  sr_pending_fetches :: "pending_fetch list"
  sr_duplicates :: "insert_error list"
  sr_referrers :: referrer_log

definition seed_report_new :: seed_report where
  "seed_report_new = \<lparr>sr_pending_fetches = [], sr_duplicates = [], sr_referrers = Map.empty\<rparr>"

definition record_outcome :: "insert_outcome \<Rightarrow> seed_report \<Rightarrow> seed_report" where
  "record_outcome out r =
     (case out of
        PendingArchiveFetch sid ar mem \<Rightarrow>
          r\<lparr>sr_pending_fetches := sr_pending_fetches r @ [\<lparr>pf_id = sid, pf_archive = ar, pf_member = mem\<rparr>]\<rparr>
      | _ \<Rightarrow> r)"

definition record_error :: "insert_error \<Rightarrow> seed_report \<Rightarrow> seed_report" where
  "record_error e r = r\<lparr>sr_duplicates := sr_duplicates r @ [e]\<rparr>"

datatype seed_error = SeedRead read_error | SeedArchive archive_error

type_synonym 'a seed = "(seed_error, 'a) result"
type_synonym seeding = "symbol_table \<times> seed_report"

text \<open>\<^verbatim>\<open>match table.insert(sym)\<close>: the outcome or the refusal is recorded.\<close>

definition seed_insert :: "symbol \<Rightarrow> seeding \<Rightarrow> (seeding \<times> bool) seed" where
  "seed_insert s tr =
     (case insert_sym s (fst tr) of
        Ok (out, t) \<Rightarrow> Ok ((t, record_outcome out (snd tr)), True)
      | Err e \<Rightarrow> Ok ((fst tr, record_error e (snd tr)), False)
      | Panic \<Rightarrow> Panic)"

section \<open>Archives\<close>

definition seed_index_entry :: "archive_id \<Rightarrow> symbol_index_entry \<Rightarrow> seeding \<Rightarrow> seeding seed" where
  "seed_index_entry aid e tr =
     (let (nm, t) = table_intern (ie_name e) (fst tr) in
      rmap fst (seed_insert (LazyArchive nm aid (ie_member_header_offset e)) (t, snd tr)))"

fun seed_each :: "('a \<Rightarrow> 's \<Rightarrow> ('e, 's) result) \<Rightarrow> 'a list \<Rightarrow> 's \<Rightarrow> ('e, 's) result" where
  "seed_each f [] s = Ok s"
| "seed_each f (x # xs) s = rbind (f x s) (seed_each f xs)"

definition seed_archive :: "inputs \<Rightarrow> archive_id \<Rightarrow> seeding \<Rightarrow> seeding seed" where
  "seed_archive inp aid tr =
     rbind (archive_of inp aid) (\<lambda>ai.
     case amd_symbol_index (ai_metadata ai) of
       None \<Rightarrow> Ok tr
     | Some ix \<Rightarrow> seed_each (seed_index_entry aid) ix tr)"

definition seed_archives :: "inputs \<Rightarrow> seeding \<Rightarrow> seeding seed" where
  "seed_archives inp tr = seed_each (\<lambda>i. seed_archive inp (of_nat i)) [0..<length (in_archives inp)] tr"

definition unresolved_entry :: "archive_id \<Rightarrow> symbol_index_entry \<Rightarrow> seeding \<Rightarrow> seeding seed" where
  "unresolved_entry aid e tr =
     (case interner_get (interner (fst tr)) (ie_name e) of
        None \<Rightarrow> Ok tr
      | Some nm \<Rightarrow>
          (case lookup (fst tr) nm of
             None \<Rightarrow> Ok tr
           | Some sid \<Rightarrow>
               rbind (get_sym (fst tr) sid) (\<lambda>s.
               case s of
                 Undefined _ _ _ \<Rightarrow> rmap fst (seed_insert (LazyArchive nm aid (ie_member_header_offset e)) tr)
               | _ \<Rightarrow> Ok tr)))"

definition seed_archive_for_unresolved :: "inputs \<Rightarrow> archive_id \<Rightarrow> seeding \<Rightarrow> seeding seed" where
  "seed_archive_for_unresolved inp aid tr =
     rbind (archive_of inp aid) (\<lambda>ai.
     case amd_symbol_index (ai_metadata ai) of
       None \<Rightarrow> Ok tr
     | Some ix \<Rightarrow> seed_each (unresolved_entry aid) ix tr)"

section \<open>Objects and libraries\<close>

definition symbolize_input :: "istr \<Rightarrow> raw_nlist \<Rightarrow> input_id \<Rightarrow> ('e, symbol) result" where
  "symbolize_input nm s orig =
     (case nlist_kind s of
        Undef \<Rightarrow>
          (case common_size s of
             Some sz \<Rightarrow>
               Ok (Common nm orig sz (case common_align_pow2 s of Some a \<Rightarrow> a | None \<Rightarrow> 0) (is_private_ext s) (no_dead_strip s))
           | None \<Rightarrow> Ok (Undefined nm orig (weak_ref s)))
      | Abs \<Rightarrow> Ok (Absolute nm orig (n_value s) (weak_def s) (is_private_ext s) (no_dead_strip s))
      | Sect \<Rightarrow> Ok (Defined nm orig 0 (n_value s) (weak_def s) (is_private_ext s) (no_dead_strip s))
      | Indirect \<Rightarrow> Panic)"

text \<open>An alias also references its target, once the alias itself is accepted.\<close>

definition seed_alias :: "input_id \<Rightarrow> istr \<Rightarrow> istr \<Rightarrow> bool \<Rightarrow> seeding \<Rightarrow> seeding seed" where
  "seed_alias iid nm target pe tr =
     rbind (seed_insert (Alias nm target iid pe) tr) (\<lambda>(tr1, accepted).
     if \<not> accepted then Ok tr1
     else
       rmap fst (seed_insert (Undefined target iid False)
         (fst tr1, (snd tr1)\<lparr>sr_referrers := referrer_add target iid (sr_referrers (snd tr1))\<rparr>)))"

definition seed_symbol :: "object_file \<Rightarrow> input_id \<Rightarrow> raw_nlist \<Rightarrow> seeding \<Rightarrow> seeding seed" where
  "seed_symbol obj iid s tr =
     (if stab_kind s \<noteq> None \<or> \<not> participates_in_global_resolution s then Ok tr
      else
        case Object_File.symbol_name obj s of
          Panic \<Rightarrow> Panic
        | Err _ \<Rightarrow> Ok tr
        | Ok name_str \<Rightarrow>
            let (nm, t) = table_intern name_str (fst tr);
                r = (snd tr)\<lparr>sr_referrers := referrer_add nm iid (sr_referrers (snd tr))\<rparr> in
            if nlist_kind s = Indirect then
              rbind (expect (indirect_target_name obj s)) (\<lambda>target_name.
              rbind (rmap_err SeedRead target_name) (\<lambda>target_name.
              let (target, t) = table_intern target_name t in
              seed_alias iid nm target (is_private_ext s) (t, r)))
            else
              rbind (symbolize_input nm s iid) (\<lambda>x. rmap fst (seed_insert x (t, r))))"

definition seed_object :: "inputs \<Rightarrow> input_id \<Rightarrow> seeding \<Rightarrow> seeding seed" where
  "seed_object inp iid tr =
     rbind (object_file_of inp iid) (\<lambda>obj. seed_each (seed_symbol obj iid) (ob_symbols obj) tr)"

definition seed_export :: "dylib_id \<Rightarrow> dylib_input \<Rightarrow> export_entry \<Rightarrow> seeding \<Rightarrow> seeding seed" where
  "seed_export did di e tr =
     (let (nm, t) = table_intern (ex_name e) (fst tr) in
      rmap fst (seed_insert (DylibImport nm did (di_ordinal di) (ex_weak_def e \<or> di_load_kind di = LoadWeak)) (t, snd tr)))"

definition seed_dylib :: "inputs \<Rightarrow> dylib_id \<Rightarrow> seeding \<Rightarrow> seeding seed" where
  "seed_dylib inp did tr =
     rbind (dylib_of inp did) (\<lambda>di.
     rbind (rmap_err SeedRead (exports_entries (df_exports (di_file di)))) (\<lambda>es.
     seed_each (seed_export did di) es tr))"

definition seed_all :: "inputs \<Rightarrow> symbol_table \<Rightarrow> seeding seed" where
  "seed_all inp t =
     rbind (seed_archives inp (t, seed_report_new)) (\<lambda>tr.
     rbind (seed_each (\<lambda>i. seed_object inp (of_nat i)) [0..<length (in_objects inp)] tr) (\<lambda>tr.
     seed_each (\<lambda>i. seed_dylib inp (of_nat i)) [0..<length (in_dylibs inp)] tr))"

end
