(* ===== verification/Fetching.thy ===== *)
theory Fetching
  imports Inputs Order
begin

text \<open>
  Demand loading of archive members in \<^verbatim>\<open>src/resolve.rs\<close>: the pool of loader threads, ingesting a loaded
  member, draining the queue of pending fetches, force-loading an archive, resolving the inputs in
  command-line order, and the treatment of what stays undefined.

  The file system (\<open>fs\<close>) and the order in which the threads deliver their results (\<open>arrival\<close>) are
  arguments. A failing operation hands back the report as it was when it failed. The loops are total
  functions: a member is ingested at most once.
\<close>

section \<open>State\<close>

datatype fetch_failure =
    FRead read_error
  | FMachOParse str read_error
  | FArchive archive_error
  | FMemberLoad member_load_error
  | FMemberNotFound archive_id member_id

definition of_seed_error :: "seed_error \<Rightarrow> fetch_failure" where
  "of_seed_error e = (case e of SeedRead r \<Rightarrow> FRead r | SeedArchive a \<Rightarrow> FArchive a)"

record drain_report =
  dr_fetched_members :: nat
  dr_loaded_paths :: "str list"
  dr_duplicates :: "insert_error list"
  dr_referrers :: referrer_log

definition drain_report_new :: drain_report where
  "drain_report_new = \<lparr>dr_fetched_members = 0, dr_loaded_paths = [], dr_duplicates = [], dr_referrers = Map.empty\<rparr>"

record link_state =
  ls_inputs :: inputs
  ls_table :: symbol_table
  ls_report :: drain_report

type_synonym 'a fetch = "(fetch_failure \<times> drain_report, 'a) result"

definition with_report :: "link_state \<Rightarrow> (fetch_failure, 'a) result \<Rightarrow> 'a fetch" where
  "with_report st m = rmap_err (\<lambda>e. (e, ls_report st)) m"

definition absorb :: "seed_report \<Rightarrow> drain_report \<Rightarrow> drain_report" where
  "absorb r d = d\<lparr>dr_duplicates := dr_duplicates d @ sr_duplicates r, dr_referrers := referrer_extend (dr_referrers d) (sr_referrers r)\<rparr>"

section \<open>Loading members\<close>

type_synonym member_key = "archive_id \<times> member_id"

record loaded_archive_member =
  la_key :: member_key
  la_archive_load_order :: nat
  la_logical_path :: str
  la_bytes :: bytes
  la_parsed :: object_file

record load_job =
  lj_index :: nat
  lj_key :: member_key
  lj_archive :: archive_input

definition make_archive_member_jobs :: "inputs \<Rightarrow> member_key list \<Rightarrow> ('e, load_job list) result" where
  "make_archive_member_jobs inp ks =
     mapM (\<lambda>(i, k). rbind (archive_of inp (fst k)) (\<lambda>a. Ok \<lparr>lj_index = i, lj_key = k, lj_archive = a\<rparr>)) (enumerate 0 ks)"

definition load_archive_member_job ::
  "(str \<Rightarrow> bytes option) \<Rightarrow> load_job \<Rightarrow> nat \<times> member_key \<times> (fetch_failure, loaded_archive_member) result" where
  "load_archive_member_job fs j =
     (let a = lj_archive j; k = lj_key j in
      (lj_index j, k,
       rbind (ok_or (FMemberNotFound (fst k) (snd k)) (metadata_member_at_offset (ai_metadata a) (snd k))) (\<lambda>m.
       rbind (rmap_err FMemberLoad (metadata_load_member fs (ai_metadata a) (ai_path a) (ai_bytes a) m)) (\<lambda>loaded.
       rbind (rmap_err (FMachOParse (lm_logical_path loaded)) (parse_object (lm_logical_path loaded) (lm_bytes loaded))) (\<lambda>parsed.
       Ok \<lparr>la_key = k, la_archive_load_order = ai_load_order a, la_logical_path = lm_logical_path loaded,
           la_bytes = lm_bytes loaded, la_parsed = parsed\<rparr>)))))"

type_synonym load_result = "(fetch_failure, loaded_archive_member) result"
type_synonym arrival = "(nat \<times> member_key \<times> load_result) list \<Rightarrow> (nat \<times> member_key \<times> load_result) list"

text \<open>
  With one job the members are loaded in order; otherwise the results arrive in some order and are sorted
  by the index of their job. A job that panics takes the linker down.
\<close>

definition load_archive_members_parallel ::
  "arrival \<Rightarrow> (str \<Rightarrow> bytes option) \<Rightarrow> inputs \<Rightarrow> member_key list \<Rightarrow> nat \<Rightarrow> ('e, (member_key \<times> load_result) list) result" where
  "load_archive_members_parallel arrival fs inp ks parallel_jobs =
     rbind (make_archive_member_jobs inp ks) (\<lambda>jobs.
     if jobs = [] then Ok []
     else
       let job_count = max (min (max parallel_jobs 1) (length jobs)) 1;
           results = map (load_archive_member_job fs) jobs in
       if \<exists>r \<in> set results. snd (snd r) = Panic then Panic
       else if job_count = 1 then Ok (map snd results)
       else Ok (map snd (sort_key fst (arrival results))))"

definition archive_member_key :: "pending_fetch \<Rightarrow> member_key" where
  "archive_member_key p = (pf_archive p, pf_member p)"

definition archive_member_is_fetched :: "inputs \<Rightarrow> member_key \<Rightarrow> ('e, bool) result" where
  "archive_member_is_fetched inp k = rbind (archive_of inp (fst k)) (\<lambda>a. Ok (snd k \<in> ai_fetched a))"

section \<open>Ingesting\<close>

definition mark_fetched :: "member_key \<Rightarrow> inputs \<Rightarrow> inputs" where
  "mark_fetched k inp =
     inp\<lparr>in_archives := (in_archives inp)[unat (fst k) :=
       (in_archives inp ! unat (fst k))\<lparr>ai_fetched := insert (snd k) (ai_fetched (in_archives inp ! unat (fst k)))\<rparr>]\<rparr>"

definition push_member :: "loaded_archive_member \<Rightarrow> inputs \<Rightarrow> inputs" where
  "push_member l inp =
     inp\<lparr>in_objects := in_objects inp @
       [\<lparr>oi_path = la_logical_path l, oi_load_order = la_archive_load_order l,
         oi_archive_member_offset = Some (snd (la_key l)), oi_bytes = la_bytes l, oi_parsed = la_parsed l\<rparr>]\<rparr>"

definition ingest_loaded_member :: "loaded_archive_member \<Rightarrow> link_state \<Rightarrow> (pending_fetch list \<times> link_state) fetch" where
  "ingest_loaded_member l st =
     rbind (archive_member_is_fetched (ls_inputs st) (la_key l)) (\<lambda>fetched.
     if fetched then Ok ([], st)
     else
       let inp = push_member l (mark_fetched (la_key l) (ls_inputs st));
           iid = of_nat (length (in_objects (ls_inputs st)));
           rep = (ls_report st)\<lparr>dr_fetched_members := dr_fetched_members (ls_report st) + 1,
                   dr_loaded_paths := dr_loaded_paths (ls_report st) @ [la_logical_path l]\<rparr> in
       rbind (rmap_err (\<lambda>e. (of_seed_error e, rep)) (seed_object inp iid (ls_table st, seed_report_new))) (\<lambda>(t, sub).
       Ok (sr_pending_fetches sub, \<lparr>ls_inputs = inp, ls_table = t, ls_report = absorb sub rep\<rparr>)))"

definition load_and_ingest_member ::
  "arrival \<Rightarrow> (str \<Rightarrow> bytes option) \<Rightarrow> nat \<Rightarrow> member_key \<Rightarrow> link_state \<Rightarrow> (pending_fetch list \<times> link_state) fetch" where
  "load_and_ingest_member arrival fs parallel_jobs k st =
     rbind (archive_member_is_fetched (ls_inputs st) k) (\<lambda>fetched.
     if fetched then Ok ([], st)
     else
       rbind (load_archive_members_parallel arrival fs (ls_inputs st) [k] parallel_jobs) (\<lambda>rs.
       case rs of
         [] \<Rightarrow> Panic
       | r # _ \<Rightarrow> rbind (with_report st (snd r)) (\<lambda>l. ingest_loaded_member l st)))"

definition slot_is_lazy :: "symbol_table \<Rightarrow> symbol_id \<Rightarrow> ('e, bool) result" where
  "slot_is_lazy t sid = rbind (get_sym t sid) (\<lambda>s. Ok (case s of LazyArchive _ _ _ \<Rightarrow> True | _ \<Rightarrow> False))"

definition fetch_and_ingest_one ::
  "arrival \<Rightarrow> (str \<Rightarrow> bytes option) \<Rightarrow> nat \<Rightarrow> pending_fetch \<Rightarrow> link_state \<Rightarrow> (pending_fetch list \<times> link_state) fetch" where
  "fetch_and_ingest_one arrival fs parallel_jobs p st =
     rbind (slot_is_lazy (ls_table st) (pf_id p)) (\<lambda>lz.
     if \<not> lz then Ok ([], st) else load_and_ingest_member arrival fs parallel_jobs (archive_member_key p) st)"

section \<open>Progress\<close>

text \<open>The members that can still be fetched.\<close>

definition unfetched :: "inputs \<Rightarrow> (nat \<times> u64) set" where
  "unfetched inp = {(i, off). i < length (in_archives inp) \<and> off \<notin> ai_fetched (in_archives inp ! i)}"

abbreviation left_to_fetch :: "link_state \<Rightarrow> nat" where
  "left_to_fetch st \<equiv> card (unfetched (ls_inputs st))"

lemma finite_unfetched [simp]: "finite (unfetched inp)"
proof (rule finite_subset)
  show "unfetched inp \<subseteq> {..<length (in_archives inp)} \<times> UNIV" by (auto simp: unfetched_def)
qed simp

lemma unfetched_ingest:
  assumes "unat (fst k) < length (in_archives inp)" and "snd k \<notin> ai_fetched (in_archives inp ! unat (fst k))"
  shows "unfetched (push_member l (mark_fetched k inp)) = unfetched inp - {(unat (fst k), snd k)}"
  using assms by (auto simp: unfetched_def push_member_def mark_fetched_def nth_list_update split: if_splits)

lemma ingest_cases:
  assumes "ingest_loaded_member l st = Ok (new, st')"
  obtains "new = []" "st' = st"
  | t sub where "seed_object (push_member l (mark_fetched (la_key l) (ls_inputs st))) (of_nat (length (in_objects (ls_inputs st))))
        (ls_table st, seed_report_new) = Ok (t, sub)"
      "new = sr_pending_fetches sub" "ls_inputs st' = push_member l (mark_fetched (la_key l) (ls_inputs st))" "ls_table st' = t"
      "dr_fetched_members (ls_report st') = dr_fetched_members (ls_report st) + 1"
      "unfetched (ls_inputs st') = unfetched (ls_inputs st) - {(unat (fst (la_key l)), snd (la_key l))}"
      "(unat (fst (la_key l)), snd (la_key l)) \<in> unfetched (ls_inputs st)"
proof -
  obtain a where a: "archive_of (ls_inputs st) (fst (la_key l)) = (Ok a :: archive_input fetch)"
    using assms by (auto simp: ingest_loaded_member_def archive_member_is_fetched_def rbind_Ok_iff)
  then have r: "unat (fst (la_key l)) < length (in_archives (ls_inputs st))" "a = in_archives (ls_inputs st) ! unat (fst (la_key l))"
    by (auto simp: archive_of_def index_def split: if_splits)
  show thesis
  proof (cases "snd (la_key l) \<in> ai_fetched a")
    case True
    then have "new = []" "st' = st" using assms a by (simp_all add: ingest_loaded_member_def archive_member_is_fetched_def)
    then show thesis by (rule that(1))
  next
    case False
    let ?inp = "push_member l (mark_fetched (la_key l) (ls_inputs st))"
    obtain t sub where "seed_object ?inp (of_nat (length (in_objects (ls_inputs st)))) (ls_table st, seed_report_new) = Ok (t, sub)"
      "new = sr_pending_fetches sub" "ls_inputs st' = ?inp" "ls_table st' = t" "dr_fetched_members (ls_report st') = dr_fetched_members (ls_report st) + 1"
      using assms a False
      by (cases "seed_object ?inp (of_nat (length (in_objects (ls_inputs st)))) (ls_table st, seed_report_new)")
        (auto simp: ingest_loaded_member_def archive_member_is_fetched_def Let_def absorb_def)
    moreover have "unfetched ?inp = unfetched (ls_inputs st) - {(unat (fst (la_key l)), snd (la_key l))}"
      using unfetched_ingest r False by simp
    moreover have "(unat (fst (la_key l)), snd (la_key l)) \<in> unfetched (ls_inputs st)" using r False by (simp add: unfetched_def)
    ultimately show thesis using that(2) by metis
  qed
qed

lemma ingest_progress:
  assumes "ingest_loaded_member l st = Ok (new, st')"
  shows "(new = [] \<and> st' = st) \<or> left_to_fetch st' < left_to_fetch st"
  using assms
proof (cases rule: ingest_cases)
  case (2 t sub)
  then have "left_to_fetch st' < left_to_fetch st" by (metis card_Diff1_less finite_unfetched)
  then show ?thesis ..
qed simp

lemma load_and_ingest_cases:
  assumes "load_and_ingest_member arrival fs jobs k st = Ok (new, st')"
  obtains "new = []" "st' = st" | l where "ingest_loaded_member l st = Ok (new, st')"
proof (cases "archive_member_is_fetched (ls_inputs st) k :: bool fetch")
  case (Ok fetched)
  show thesis
  proof (cases fetched)
    case True
    then show thesis using assms Ok by (intro that(1)) (simp_all add: load_and_ingest_member_def)
  next
    case False
    then obtain rs where rs: "load_archive_members_parallel arrival fs (ls_inputs st) [k] jobs = (Ok rs :: (member_key \<times> load_result) list fetch)"
      and c: "(case rs of [] \<Rightarrow> Panic | r # _ \<Rightarrow> rbind (with_report st (snd r)) (\<lambda>l. ingest_loaded_member l st)) = Ok (new, st')"
      using assms Ok by (auto simp: load_and_ingest_member_def rbind_Ok_iff)
    then show thesis using that(2) by (cases rs) (auto simp: rbind_Ok_iff)
  qed
qed (use assms in \<open>simp_all add: load_and_ingest_member_def\<close>)

lemma fetch_cases:
  assumes "fetch_and_ingest_one arrival fs jobs p st = Ok (new, st')"
  obtains "new = []" "st' = st" | l where "ingest_loaded_member l st = Ok (new, st')"
proof (cases "slot_is_lazy (ls_table st) (pf_id p) :: bool fetch")
  case (Ok lz)
  show thesis
  proof (cases lz)
    case True
    then have "load_and_ingest_member arrival fs jobs (archive_member_key p) st = Ok (new, st')"
      using assms Ok by (simp add: fetch_and_ingest_one_def)
    then show thesis using that by (rule load_and_ingest_cases)
  next
    case False
    then show thesis using assms Ok by (intro that(1)) (simp_all add: fetch_and_ingest_one_def)
  qed
qed (use assms in \<open>simp_all add: fetch_and_ingest_one_def\<close>)

lemma fetch_progress:
  "fetch_and_ingest_one arrival fs jobs p st = Ok (new, st') \<Longrightarrow> (new = [] \<and> st' = st) \<or> left_to_fetch st' < left_to_fetch st"
  by (erule fetch_cases) (simp_all add: ingest_progress)

section \<open>Queues\<close>

function fetch_queue :: "arrival \<Rightarrow> (str \<Rightarrow> bytes option) \<Rightarrow> nat \<Rightarrow> pending_fetch list \<Rightarrow> link_state \<Rightarrow> link_state fetch" where
  "fetch_queue arrival fs jobs queue st =
     (if queue = [] then Ok st
      else
        rbind (fetch_and_ingest_one arrival fs jobs (last queue) st) (\<lambda>(new, st).
        fetch_queue arrival fs jobs (butlast queue @ new) st))"
  by pat_completeness auto
termination
proof (relation "measures [\<lambda>(_, _, _, _, st). left_to_fetch st, \<lambda>(_, _, _, q, _). length q]")
  fix arrival :: arrival and fs :: "str \<Rightarrow> bytes option" and jobs :: nat and q :: "pending_fetch list" and st x new st'
  assume "q \<noteq> []" "fetch_and_ingest_one arrival fs jobs (last q) st = Ok x" "(new, st') = x"
  then show "((arrival, fs, jobs, butlast q @ new, st'), arrival, fs, jobs, q, st)
      \<in> measures [\<lambda>(_, _, _, _, st). left_to_fetch st, \<lambda>(_, _, _, q, _). length q]"
    using fetch_progress [of arrival fs jobs "last q" st new st'] by auto
qed simp

declare fetch_queue.simps [simp del]

fun ingest_all :: "(member_key \<times> load_result) list \<Rightarrow> link_state \<Rightarrow> (pending_fetch list \<times> link_state) fetch" where
  "ingest_all [] st = Ok ([], st)"
| "ingest_all (r # rs) st =
     rbind (with_report st (snd r)) (\<lambda>l.
     rbind (ingest_loaded_member l st) (\<lambda>(new, st).
     rbind (ingest_all rs st) (\<lambda>(more_new, st). Ok (new @ more_new, st))))"

definition force_load_archive :: "arrival \<Rightarrow> (str \<Rightarrow> bytes option) \<Rightarrow> nat \<Rightarrow> archive_id \<Rightarrow> link_state \<Rightarrow> link_state fetch" where
  "force_load_archive arrival fs jobs aid st =
     rbind (archive_of (ls_inputs st) aid) (\<lambda>ai.
     rbind (load_archive_members_parallel arrival fs (ls_inputs st) (map (\<lambda>off. (aid, off)) (object_member_offsets (ai_metadata ai))) jobs) (\<lambda>rs.
     rbind (ingest_all rs st) (\<lambda>(queue, st).
     fetch_queue arrival fs jobs queue st)))"

definition force_load_all :: "arrival \<Rightarrow> (str \<Rightarrow> bytes option) \<Rightarrow> nat \<Rightarrow> link_state \<Rightarrow> link_state fetch" where
  "force_load_all arrival fs jobs st =
     seed_each (\<lambda>i. force_load_archive arrival fs jobs (of_nat i)) [0..<length (in_archives (ls_inputs st))] st"

text \<open>Loading ahead: the members of the queue that are still wanted, latest first, once each.\<close>

fun wanted_keys ::
  "inputs \<Rightarrow> symbol_table \<Rightarrow> (member_key \<rightharpoonup> load_result) \<Rightarrow> member_key set \<Rightarrow> pending_fetch list \<Rightarrow> ('e, member_key list) result" where
  "wanted_keys inp t prepared seen [] = Ok []"
| "wanted_keys inp t prepared seen (p # ps) =
     (let k = archive_member_key p in
      if prepared k \<noteq> None then wanted_keys inp t prepared seen ps
      else
        rbind (archive_member_is_fetched inp k) (\<lambda>fetched.
        if fetched then wanted_keys inp t prepared seen ps
        else
          rbind (slot_is_lazy t (pf_id p)) (\<lambda>lz.
          if \<not> lz \<or> k \<in> seen then wanted_keys inp t prepared seen ps
          else rbind (wanted_keys inp t prepared (insert k seen) ps) (\<lambda>ks. Ok (k # ks)))))"

definition preparse_pending_fetches ::
  "arrival \<Rightarrow> (str \<Rightarrow> bytes option) \<Rightarrow> nat \<Rightarrow> link_state \<Rightarrow> pending_fetch \<Rightarrow> pending_fetch list \<Rightarrow> (member_key \<rightharpoonup> load_result)
    \<Rightarrow> (member_key \<rightharpoonup> load_result) fetch" where
  "preparse_pending_fetches arrival fs jobs st current queue prepared =
     rbind (wanted_keys (ls_inputs st) (ls_table st) prepared {} (current # rev queue)) (\<lambda>ks.
     rbind (load_archive_members_parallel arrival fs (ls_inputs st) ks jobs) (\<lambda>rs.
     Ok (foldl (\<lambda>m (k, r). m(k \<mapsto> r)) prepared rs)))"

text \<open>One turn of the drain loop: the new state, the pending fetches it adds, and what stays prepared.\<close>

definition drain_step ::
  "arrival \<Rightarrow> (str \<Rightarrow> bytes option) \<Rightarrow> nat \<Rightarrow> pending_fetch \<Rightarrow> pending_fetch list \<Rightarrow> (member_key \<rightharpoonup> load_result) \<Rightarrow> link_state
    \<Rightarrow> (pending_fetch list \<times> (member_key \<rightharpoonup> load_result) \<times> link_state) fetch" where
  "drain_step arrival fs jobs p queue prepared st =
     (let k = archive_member_key p in
      rbind (slot_is_lazy (ls_table st) (pf_id p)) (\<lambda>lz.
      rbind (if lz then archive_member_is_fetched (ls_inputs st) k else Ok True) (\<lambda>skip.
      if skip then Ok ([], prepared(k := None), st)
      else
        rbind (if prepared k = None then preparse_pending_fetches arrival fs jobs st p queue prepared else Ok prepared) (\<lambda>prepared.
        case prepared k of
          None \<Rightarrow> Ok ([], prepared, st)
        | Some r \<Rightarrow>
            rbind (with_report st r) (\<lambda>l.
            rbind (slot_is_lazy (ls_table st) (pf_id p)) (\<lambda>lz.
            rbind (if lz then archive_member_is_fetched (ls_inputs st) k else Ok True) (\<lambda>skip.
            if skip then Ok ([], prepared(k := None), st)
            else rbind (ingest_loaded_member l st) (\<lambda>(new, st). Ok (new, prepared(k := None), st)))))))))"

lemma drain_step_cases:
  assumes "drain_step arrival fs jobs p queue prepared st = Ok (new, prepared', st')"
  obtains "new = []" "st' = st" | l where "ingest_loaded_member l st = Ok (new, st')"
proof -
  obtain lz skip where lz: "slot_is_lazy (ls_table st) (pf_id p) = (Ok lz :: bool fetch)"
    and sk: "(if lz then archive_member_is_fetched (ls_inputs st) (archive_member_key p) else Ok True) = (Ok skip :: bool fetch)"
    using assms unfolding drain_step_def Let_def by (auto simp: rbind_Ok_iff)
  show thesis
  proof (cases skip)
    case True
    then show thesis using assms lz sk by (intro that(1)) (simp_all add: drain_step_def)
  next
    case False
    then obtain prep where "(if prepared (archive_member_key p) = None then preparse_pending_fetches arrival fs jobs st p queue prepared else Ok prepared) = Ok prep"
      using assms lz sk unfolding drain_step_def Let_def by (cases "if prepared (archive_member_key p) = None then preparse_pending_fetches arrival fs jobs st p queue prepared else Ok prepared") simp_all
    then show thesis using assms lz sk False that unfolding drain_step_def Let_def
      by (cases "prep (archive_member_key p)") (auto simp: rbind_Ok_iff)
  qed
qed

lemma drain_step_progress:
  "drain_step arrival fs jobs p queue prepared st = Ok (new, prepared', st') \<Longrightarrow>
     (new = [] \<and> st' = st) \<or> left_to_fetch st' < left_to_fetch st"
  by (erule drain_step_cases) (simp_all add: ingest_progress)

function drain_loop ::
  "arrival \<Rightarrow> (str \<Rightarrow> bytes option) \<Rightarrow> nat \<Rightarrow> pending_fetch list \<Rightarrow> (member_key \<rightharpoonup> load_result) \<Rightarrow> link_state \<Rightarrow> link_state fetch" where
  "drain_loop arrival fs jobs queue prepared st =
     (if queue = [] then Ok st
      else
        rbind (drain_step arrival fs jobs (last queue) (butlast queue) prepared st) (\<lambda>(new, prepared, st).
        drain_loop arrival fs jobs (butlast queue @ new) prepared st))"
  by pat_completeness auto
termination
proof (relation "measures [\<lambda>(_, _, _, _, _, st). left_to_fetch st, \<lambda>(_, _, _, q, _, _). length q]")
  fix arrival :: arrival and fs :: "str \<Rightarrow> bytes option" and jobs :: nat and q :: "pending_fetch list" and prep st x new y prep' st'
  assume "q \<noteq> []" "drain_step arrival fs jobs (last q) (butlast q) prep st = Ok x" "(new, y) = x" "(prep', st') = y"
  then show "((arrival, fs, jobs, butlast q @ new, prep', st'), arrival, fs, jobs, q, prep, st)
      \<in> measures [\<lambda>(_, _, _, _, _, st). left_to_fetch st, \<lambda>(_, _, _, q, _, _). length q]"
    using drain_step_progress [of arrival fs jobs "last q" "butlast q" prep st new prep' st'] by auto
qed simp

declare drain_loop.simps [simp del]

definition drain_fetches_into :: "arrival \<Rightarrow> (str \<Rightarrow> bytes option) \<Rightarrow> nat \<Rightarrow> pending_fetch list \<Rightarrow> link_state \<Rightarrow> link_state fetch" where
  "drain_fetches_into arrival fs jobs initial st = drain_loop arrival fs jobs initial Map.empty st"

definition drain_fetches :: "arrival \<Rightarrow> (str \<Rightarrow> bytes option) \<Rightarrow> nat \<Rightarrow> pending_fetch list \<Rightarrow> inputs \<Rightarrow> symbol_table \<Rightarrow> link_state fetch" where
  "drain_fetches arrival fs jobs initial inp t =
     drain_fetches_into arrival fs jobs initial \<lparr>ls_inputs = inp, ls_table = t, ls_report = drain_report_new\<rparr>"

end
