(* ===== verification/Link_Order.thy ===== *)
theory Link_Order
  imports Fetching Live_Graph
begin

text \<open>
  Resolving the inputs in command-line order and classifying what stays undefined
  (\<^verbatim>\<open>resolve_inputs_in_order\<close> and \<^verbatim>\<open>classify_unresolved\<close> of \<^verbatim>\<open>src/resolve.rs\<close>).
\<close>

section \<open>Undefined symbols\<close>

definition is_undefined :: "symbol \<Rightarrow> bool" where
  "is_undefined s = (case s of Undefined _ _ _ \<Rightarrow> True | _ \<Rightarrow> False)"

definition undefined_count :: "symbol_table \<Rightarrow> nat" where
  "undefined_count t = length (filter is_undefined (symbols t))"

lemma undefined_count_update:
  assumes "i < length (symbols t)" and "is_undefined (symbols t ! i)" and "\<not> is_undefined s"
  shows "length (filter is_undefined ((symbols t)[i := s])) < undefined_count t"
proof -
  have u: "(symbols t)[i := s] = take i (symbols t) @ s # drop (Suc i) (symbols t)" using assms(1) by (rule upd_conv_take_nth_drop)
  have "undefined_count t = length (filter is_undefined (take i (symbols t) @ symbols t ! i # drop (Suc i) (symbols t)))"
    unfolding undefined_count_def using id_take_nth_drop [OF assms(1)] by simp
  then show ?thesis unfolding u using assms(2,3) by simp
qed

lemma insert_lazy_over_undefined:
  assumes "by_name t nm = Some sid" and "get_sym t sid = (Ok (Undefined n orig w) :: (insert_error, symbol) result)"
  shows "insert_sym (LazyArchive nm aid off) t
    = Ok (PendingArchiveFetch sid aid off,
          push_transition sid KUndefined KLazyArchive CReplaced (t\<lparr>symbols := (symbols t)[unat sid := LazyArchive nm aid off]\<rparr>))"
proof -
  have "unat sid < length (symbols t)" using assms(2) by (auto simp: get_sym_def index_def split: if_splits)
  then show ?thesis using assms by (simp add: insert_sym_def resolution_matrix_def apply_action_def set_sym_def)
qed

text \<open>An index entry either finds its symbol undefined and turns it lazy, or changes nothing.\<close>

definition entry_undefined :: "symbol_table \<Rightarrow> symbol_index_entry \<Rightarrow> bool" where
  "entry_undefined t e \<longleftrightarrow> (\<exists>nm sid s. interner_get (interner t) (ie_name e) = Some nm \<and> lookup t nm = Some sid
     \<and> unat sid < length (symbols t) \<and> s = symbols t ! unat sid \<and> is_undefined s)"

lemma unresolved_entry_cases:
  assumes "unresolved_entry aid e tr = Ok tr'"
  obtains "\<not> entry_undefined (fst tr) e" "tr' = tr"
  | "undefined_count (fst tr') < undefined_count (fst tr)" "sr_pending_fetches (snd tr') \<noteq> []"
proof (cases "entry_undefined (fst tr) e")
  case False
  have "tr' = tr" using assms False
    by (auto simp: unresolved_entry_def entry_undefined_def get_sym_def index_def is_undefined_def rbind_Ok_iff split: option.splits symbol.splits if_splits)
  then show thesis using that(1) False by simp
next
  case True
  then obtain nm sid where g0: "interner_get (interner (fst tr)) (ie_name e) = Some nm" "lookup (fst tr) nm = Some sid"
    "unat sid < length (symbols (fst tr))" and u: "is_undefined (symbols (fst tr) ! unat sid)"
    unfolding entry_undefined_def by blast
  obtain n orig w where "symbols (fst tr) ! unat sid = Undefined n orig w"
    using u by (cases "symbols (fst tr) ! unat sid") (simp_all add: is_undefined_def)
  note g = g0 this
  then have s: "get_sym (fst tr) sid = (Ok (Undefined n orig w) :: (insert_error, symbol) result)"
    "get_sym (fst tr) sid = (Ok (Undefined n orig w) :: symbol seed)" by (simp_all add: get_sym_def)
  note i = insert_lazy_over_undefined [OF g(2) [unfolded lookup_def] s(1)]
  have "tr' = (push_transition sid KUndefined KLazyArchive CReplaced
        ((fst tr)\<lparr>symbols := (symbols (fst tr))[unat sid := LazyArchive nm aid (ie_member_header_offset e)]\<rparr>),
      record_outcome (PendingArchiveFetch sid aid (ie_member_header_offset e)) (snd tr))"
    using assms g(1,2) s(2) i by (simp add: unresolved_entry_def seed_insert_def)
  then have "undefined_count (fst tr') < undefined_count (fst tr)" "sr_pending_fetches (snd tr') \<noteq> []"
    using undefined_count_update [OF g(3), of "LazyArchive nm aid (ie_member_header_offset e)"] g(4)
    by (simp_all add: undefined_count_def push_transition_def record_outcome_def is_undefined_def)
  then show thesis by (rule that(2))
qed

lemma pending_kept: "unresolved_entry aid e tr = Ok tr' \<Longrightarrow> sr_pending_fetches (snd tr) \<noteq> [] \<Longrightarrow> sr_pending_fetches (snd tr') \<noteq> []"
  by (erule unresolved_entry_cases) simp_all

lemma seed_unresolved_cases:
  assumes "seed_each (unresolved_entry aid) es tr = Ok tr'"
  shows "undefined_count (fst tr') < undefined_count (fst tr) \<and> sr_pending_fetches (snd tr') \<noteq> []
    \<or> tr' = tr \<and> (\<forall>e \<in> set es. \<not> entry_undefined (fst tr) e)"
  using assms
proof (induction es arbitrary: tr)
  case (Cons e es)
  then obtain tr1 where 1: "unresolved_entry aid e tr = Ok tr1" "seed_each (unresolved_entry aid) es tr1 = Ok tr'"
    by (auto simp: rbind_Ok_iff)
  have keep: "sr_pending_fetches (snd x') \<noteq> []" if "seed_each (unresolved_entry aid) ys x = Ok x'" "sr_pending_fetches (snd x) \<noteq> []" for ys x x'
    using that by (induction ys arbitrary: x) (auto simp: rbind_Ok_iff dest: pending_kept)
  from 1(1) show ?case
  proof (cases rule: unresolved_entry_cases)
    case 1
    then show ?thesis using Cons.IH \<open>seed_each (unresolved_entry aid) es tr1 = Ok tr'\<close> by auto
  next
    case 2
    then show ?thesis using Cons.IH [OF \<open>seed_each (unresolved_entry aid) es tr1 = Ok tr'\<close>] keep [OF \<open>seed_each (unresolved_entry aid) es tr1 = Ok tr'\<close>] by auto
  qed
qed simp

lemma drain_loop_cases: "drain_loop arrival fs jobs queue prepared st = Ok st' \<Longrightarrow> st' = st \<or> left_to_fetch st' < left_to_fetch st"
proof (induction arrival fs jobs queue prepared st arbitrary: st' rule: drain_loop.induct)
  case (1 arrival fs jobs queue prepared st)
  show ?case
  proof (cases "queue = []")
    case False
    then obtain new prep st1 where s: "drain_step arrival fs jobs (last queue) (butlast queue) prepared st = Ok (new, prep, st1)"
      "drain_loop arrival fs jobs (butlast queue @ new) prep st1 = Ok st'"
      using 1(2) unfolding drain_loop.simps [of arrival fs jobs queue] by (auto simp: rbind_Ok_iff)
    show ?thesis using 1(1) [OF False s(1) refl refl s(2)] drain_step_progress [OF s(1)] by auto
  qed (use 1(2) in \<open>simp add: drain_loop.simps\<close>)
qed

section \<open>Archives until nothing is wanted\<close>

definition seeded :: "link_state \<Rightarrow> 'a seed \<Rightarrow> 'a fetch" where
  "seeded st m = rmap_err (\<lambda>e. (of_seed_error e, ls_report st)) m"

function archive_loop ::
  "arrival \<Rightarrow> (str \<Rightarrow> bytes option) \<Rightarrow> nat \<Rightarrow> archive_id \<Rightarrow> referrer_log \<Rightarrow> link_state \<Rightarrow> (referrer_log \<times> link_state) fetch" where
  "archive_loop arrival fs jobs aid refs st =
     rbind (seeded st (seed_archive_for_unresolved (ls_inputs st) aid
       (ls_table st, \<lparr>sr_pending_fetches = [], sr_duplicates = [], sr_referrers = refs\<rparr>))) (\<lambda>(t, step).
     let st1 = st\<lparr>ls_table := t, ls_report := absorb step (ls_report st)\<rparr> in
     if sr_pending_fetches step = [] then Ok (sr_referrers step, st1)
     else
       rbind (drain_fetches_into arrival fs jobs (sr_pending_fetches step) st1) (\<lambda>st2.
       archive_loop arrival fs jobs aid (sr_referrers step) st2))"
  by pat_completeness auto
termination
proof (relation "measures [\<lambda>(_, _, _, _, _, st). left_to_fetch st, \<lambda>(_, _, _, _, _, st). undefined_count (ls_table st)]")
  fix arrival :: arrival and fs :: "str \<Rightarrow> bytes option" and jobs :: nat and aid refs st x t step st1 st2
  assume a: "seeded st (seed_archive_for_unresolved (ls_inputs st) aid
       (ls_table st, \<lparr>sr_pending_fetches = [], sr_duplicates = [], sr_referrers = refs\<rparr>)) = Ok x"
    "(t, step) = x" "st1 = st\<lparr>ls_table := t, ls_report := absorb step (ls_report st)\<rparr>"
    "sr_pending_fetches step \<noteq> []" "drain_fetches_into arrival fs jobs (sr_pending_fetches step) st1 = Ok st2"
  then have "seed_archive_for_unresolved (ls_inputs st) aid
       (ls_table st, \<lparr>sr_pending_fetches = [], sr_duplicates = [], sr_referrers = refs\<rparr>) = Ok (t, step)"
    by (auto simp: seeded_def rmap_err_def split: result.splits)
  then obtain ix where "seed_each (unresolved_entry aid) ix (ls_table st, \<lparr>sr_pending_fetches = [], sr_duplicates = [], sr_referrers = refs\<rparr>) = Ok (t, step)"
    using a(4) by (auto simp: seed_archive_for_unresolved_def rbind_Ok_iff split: option.splits)
  from seed_unresolved_cases [OF this] have u: "undefined_count t < undefined_count (ls_table st)" using a(4) by auto
  have "st2 = st1 \<or> left_to_fetch st2 < left_to_fetch st1" using a(5) unfolding drain_fetches_into_def by (rule drain_loop_cases)
  then show "((arrival, fs, jobs, aid, sr_referrers step, st2), arrival, fs, jobs, aid, refs, st)
      \<in> measures [\<lambda>(_, _, _, _, _, st). left_to_fetch st, \<lambda>(_, _, _, _, _, st). undefined_count (ls_table st)]"
    using u a(3) by auto
qed simp

declare archive_loop.simps [simp del]

section \<open>In command-line order\<close>

definition input_path :: "inputs \<Rightarrow> ordered_input \<Rightarrow> ('e, str) result" where
  "input_path inp oi =
     (case oi of
        OObject i \<Rightarrow> rbind (index (in_objects inp) (unat i)) (\<lambda>x. Ok (oi_path x))
      | OArchive a \<Rightarrow> rbind (archive_of inp a) (\<lambda>x. Ok (ai_path x))
      | OForceLoadArchive a \<Rightarrow> rbind (archive_of inp a) (\<lambda>x. Ok (ai_path x))
      | ODylib d \<Rightarrow> rbind (dylib_of inp d) (\<lambda>x. Ok (di_path x)))"

definition finish_step :: "arrival \<Rightarrow> (str \<Rightarrow> bytes option) \<Rightarrow> nat \<Rightarrow> seed_report \<Rightarrow> link_state \<Rightarrow> link_state fetch" where
  "finish_step arrival fs jobs step st =
     (let st1 = st\<lparr>ls_report := absorb step (ls_report st)\<rparr> in
      if sr_pending_fetches step = [] then Ok st1 else drain_fetches_into arrival fs jobs (sr_pending_fetches step) st1)"

definition resolve_entry ::
  "arrival \<Rightarrow> (str \<Rightarrow> bytes option) \<Rightarrow> nat \<Rightarrow> bool \<Rightarrow> ordered_input \<Rightarrow> link_state \<Rightarrow> link_state fetch" where
  "resolve_entry arrival fs jobs force_all oi st =
     (case oi of
        OObject i \<Rightarrow>
          rbind (seeded st (seed_object (ls_inputs st) i (ls_table st, seed_report_new))) (\<lambda>(t, step).
          finish_step arrival fs jobs step (st\<lparr>ls_table := t\<rparr>))
      | OArchive a \<Rightarrow>
          if force_all then
            rbind (force_load_archive arrival fs jobs a st) (\<lambda>st. finish_step arrival fs jobs seed_report_new st)
          else
            rbind (archive_loop arrival fs jobs a Map.empty st) (\<lambda>(refs, st).
            finish_step arrival fs jobs (seed_report_new\<lparr>sr_referrers := refs\<rparr>) st)
      | OForceLoadArchive a \<Rightarrow>
          rbind (force_load_archive arrival fs jobs a st) (\<lambda>st. finish_step arrival fs jobs seed_report_new st)
      | ODylib d \<Rightarrow>
          rbind (seeded st (seed_dylib (ls_inputs st) d (ls_table st, seed_report_new))) (\<lambda>(t, step).
          finish_step arrival fs jobs step (st\<lparr>ls_table := t\<rparr>)))"

fun resolve_entries ::
  "arrival \<Rightarrow> (str \<Rightarrow> bytes option) \<Rightarrow> nat \<Rightarrow> bool \<Rightarrow> ordered_input_entry list \<Rightarrow> nat option \<Rightarrow> link_state \<Rightarrow> link_state fetch" where
  "resolve_entries arrival fs jobs force_all [] traced st = Ok st"
| "resolve_entries arrival fs jobs force_all (e # es) traced st =
     rbind (input_path (ls_inputs st) (oe_input e)) (\<lambda>path.
     let st1 = (if traced \<noteq> Some (oe_load_order e)
                then st\<lparr>ls_report := (ls_report st)\<lparr>dr_loaded_paths := dr_loaded_paths (ls_report st) @ [path]\<rparr>\<rparr> else st) in
     rbind (resolve_entry arrival fs jobs force_all (oe_input e) st1) (\<lambda>st2.
     resolve_entries arrival fs jobs force_all es (Some (oe_load_order e)) st2))"

definition resolve_inputs_in_order ::
  "arrival \<Rightarrow> (str \<Rightarrow> bytes option) \<Rightarrow> inputs \<Rightarrow> ordered_input_entry list \<Rightarrow> symbol_table \<Rightarrow> nat \<Rightarrow> bool \<Rightarrow> link_state fetch" where
  "resolve_inputs_in_order arrival fs inp entries t jobs force_all =
     resolve_entries arrival fs jobs force_all (sort_key oe_load_order entries) None
       \<lparr>ls_inputs = inp, ls_table = t, ls_report = drain_report_new\<rparr>"

section \<open>Classification\<close>

datatype undefined_treatment = TreatError | TreatWarning | TreatSuppress | TreatDynamicLookup

record unresolved =
  ur_name :: istr
  ur_id :: symbol_id

record classification_report =
  cr_errors :: "unresolved list"
  cr_warnings :: "unresolved list"
  cr_suppressed :: "unresolved list"
  cr_promoted_to_dynamic :: "symbol_id list"
  cr_weak :: "unresolved list"

definition undefined_symbols :: "symbol_table \<Rightarrow> (symbol_id \<times> istr \<times> bool) list" where
  "undefined_symbols t =
     concat (map (\<lambda>(sid, s). case s of Undefined nm _ w \<Rightarrow> [(sid, nm, w)] | _ \<Rightarrow> []) (symbols_iter t))"

definition classify_one ::
  "undefined_treatment \<Rightarrow> symbol_id \<times> istr \<times> bool \<Rightarrow> symbol_table \<times> classification_report
    \<Rightarrow> ('e, symbol_table \<times> classification_report) result" where
  "classify_one treatment u tr =
     (case u of (sid, nm, weak) \<Rightarrow>
      let e = \<lparr>ur_name = nm, ur_id = sid\<rparr>;
          r = (if weak then (snd tr)\<lparr>cr_weak := cr_weak (snd tr) @ [e]\<rparr> else snd tr);
          promoted = (\<lambda>r. r\<lparr>cr_promoted_to_dynamic := cr_promoted_to_dynamic r @ [sid]\<rparr>) in
      case treatment of
        TreatError \<Rightarrow> Ok (fst tr, r\<lparr>cr_errors := cr_errors r @ [e]\<rparr>)
      | TreatWarning \<Rightarrow>
          rbind (promote_to_flat_lookup sid nm weak (fst tr)) (\<lambda>t. Ok (t, promoted (r\<lparr>cr_warnings := cr_warnings r @ [e]\<rparr>)))
      | TreatSuppress \<Rightarrow>
          rbind (promote_to_flat_lookup sid nm weak (fst tr)) (\<lambda>t. Ok (t, promoted (r\<lparr>cr_suppressed := cr_suppressed r @ [e]\<rparr>)))
      | TreatDynamicLookup \<Rightarrow>
          rbind (promote_to_flat_lookup sid nm weak (fst tr)) (\<lambda>t. Ok (t, promoted r)))"

definition classify_unresolved :: "undefined_treatment \<Rightarrow> symbol_table \<Rightarrow> ('e, symbol_table \<times> classification_report) result" where
  "classify_unresolved treatment t =
     seed_each (classify_one treatment) (undefined_symbols t)
       (t, \<lparr>cr_errors = [], cr_warnings = [], cr_suppressed = [], cr_promoted_to_dynamic = [], cr_weak = []\<rparr>)"

end
