(* ===== verification/Link_Determinism.thy ===== *)
theory Link_Determinism
  imports Link_Order
begin

text \<open>
  The result of resolving the inputs does not depend on how many loader threads there are nor on the order
  in which they deliver their results.
\<close>

lemma jobs_numbered:
  assumes "make_archive_member_jobs inp ks = Ok jobs"
  shows "map lj_index jobs = [0..<length jobs]"
proof (rule nth_equalityI)
  fix i
  assume i: "i < length (map lj_index jobs)"
  note m = assms [unfolded make_archive_member_jobs_def]
  have "length jobs = length (enumerate 0 ks)" using mapM_Ok_length [OF m] .
  then have "(\<lambda>(i, k). rbind (archive_of inp (fst k)) (\<lambda>a. Ok \<lparr>lj_index = i, lj_key = k, lj_archive = a\<rparr>)) (enumerate 0 ks ! i)
      = (Ok (jobs ! i) :: ('a, load_job) result)"
    using mapM_Ok_nth [OF m, of i] i by simp
  then obtain a where "\<lparr>lj_index = i, lj_key = ks ! i, lj_archive = a\<rparr> = jobs ! i"
    using i \<open>length jobs = _\<close> by (auto simp: nth_enumerate_eq rbind_Ok_iff)
  then have "lj_index (jobs ! i) = i" by (metis load_job.select_convs(1))
  then show "map lj_index jobs ! i = [0..<length jobs] ! i" using i by simp
qed simp

text \<open>A scheduler delivers every result exactly once.\<close>

definition fair :: "arrival \<Rightarrow> bool" where
  "fair arrival \<longleftrightarrow> (\<forall>xs. mset (arrival xs) = mset xs)"

lemma load_scheduling:
  assumes "fair arrival"
  shows "load_archive_members_parallel arrival fs inp ks jobs = load_archive_members_parallel id fs inp ks 1"
proof (cases "make_archive_member_jobs inp ks :: ('a, load_job list) result")
  case (Ok js)
  let ?rs = "map (load_archive_member_job fs) js"
  have fst: "map fst ?rs = [0..<length js]"
    using jobs_numbered [OF Ok] by (simp add: load_archive_member_job_def Let_def comp_def)
  have "sort_key fst (arrival ?rs) = ?rs"
  proof (rule sort_key_inj_key_eq)
    show "mset (arrival ?rs) = mset ?rs" using assms by (simp add: fair_def)
    then have "set (arrival ?rs) = set ?rs" by (metis set_mset_mset)
    then show "inj_on fst (set (arrival ?rs))" using fst by (metis distinct_map distinct_upt)
    show "sorted (map fst ?rs)" unfolding fst by simp
  qed
  then show ?thesis using Ok by (auto simp: load_archive_members_parallel_def Let_def)
qed (simp_all add: load_archive_members_parallel_def)

lemma fetch_one_scheduling: "fair arrival \<Longrightarrow> fetch_and_ingest_one arrival fs jobs p st = fetch_and_ingest_one id fs 1 p st"
  by (simp only: fetch_and_ingest_one_def load_and_ingest_member_def load_scheduling [of arrival _ _ _ jobs])

lemma drain_step_scheduling: "fair arrival \<Longrightarrow> drain_step arrival fs jobs p queue prepared st = drain_step id fs 1 p queue prepared st"
  by (simp only: drain_step_def preparse_pending_fetches_def load_scheduling [of arrival _ _ _ jobs])

lemma fetch_queue_scheduling: "fair arrival \<Longrightarrow> fetch_queue arrival fs jobs queue st = fetch_queue id fs 1 queue st"
proof (induction "id :: arrival" fs "1 :: nat" queue st rule: fetch_queue.induct)
  case (1 fs queue st)
  then show ?case unfolding fetch_queue.simps [of arrival fs jobs queue] fetch_queue.simps [of id fs 1 queue] fetch_one_scheduling [OF 1(2)]
    by (auto intro!: rbind_cong)
qed

lemma drain_loop_scheduling: "fair arrival \<Longrightarrow> drain_loop arrival fs jobs queue prepared st = drain_loop id fs 1 queue prepared st"
proof (induction "id :: arrival" fs "1 :: nat" queue prepared st rule: drain_loop.induct)
  case (1 fs queue prepared st)
  then show ?case unfolding drain_loop.simps [of arrival fs jobs queue] drain_loop.simps [of id fs 1 queue] drain_step_scheduling [OF 1(2)]
    by (auto intro!: rbind_cong)
qed

lemma force_load_scheduling: "fair arrival \<Longrightarrow> force_load_archive arrival fs jobs aid st = force_load_archive id fs 1 aid st"
  by (simp only: force_load_archive_def load_scheduling [of arrival _ _ _ jobs] fetch_queue_scheduling)

lemma archive_loop_scheduling: "fair arrival \<Longrightarrow> archive_loop arrival fs jobs aid refs st = archive_loop id fs 1 aid refs st"
proof (induction "id :: arrival" fs "1 :: nat" aid refs st rule: archive_loop.induct)
  case (1 fs aid refs st)
  then show ?case unfolding archive_loop.simps [of arrival fs jobs aid refs st] archive_loop.simps [of id fs 1 aid refs st]
    by (auto intro!: rbind_cong simp: Let_def drain_fetches_into_def drain_loop_scheduling)
qed

lemma resolve_entries_scheduling:
  "fair arrival \<Longrightarrow> resolve_entries arrival fs jobs force_all es traced st = resolve_entries id fs 1 force_all es traced st"
proof (induction es arbitrary: traced st)
  case (Cons e es)
  then have "resolve_entry arrival fs jobs force_all x y = resolve_entry id fs 1 force_all x y" for x y
    by (simp only: resolve_entry_def finish_step_def force_load_scheduling archive_loop_scheduling drain_fetches_into_def drain_loop_scheduling)
  moreover have "resolve_entries arrival fs jobs force_all es tr = resolve_entries id fs 1 force_all es tr" for tr
    by (intro ext) (rule Cons.IH [OF Cons.prems])
  ultimately show ?case by (simp only: resolve_entries.simps)
qed simp

end
