(* ===== verification/Link_Order_Sound.thy ===== *)
theory Link_Order_Sound
  imports Link_Determinism Archive_Written
begin

text \<open>
  What resolving the inputs does to the linker's state: the symbol table only grows by interning and by
  insertions, members are ingested once each, and an archive is left only when no symbol of its index is
  still undefined.
\<close>

section \<open>Growth of the table\<close>

definition grown :: "symbol_table \<Rightarrow> symbol_table \<Rightarrow> bool" where
  "grown t t' \<longleftrightarrow> interner t' = interner t \<and> length (symbols t) \<le> length (symbols t')"

lemma grown_refl [simp]: "grown t t"
  by (simp add: grown_def)

lemma set_sym_grown: "set_sym sid s t = Ok t' \<Longrightarrow> grown t t'"
  by (auto simp: set_sym_def grown_def split: if_splits)

lemma push_transition_grown [simp]: "grown t (push_transition sid a b c t') = grown t t'"
  by (simp add: push_transition_def grown_def)

lemma rbind_OkE: "rbind m f = Ok y \<Longrightarrow> (\<And>x. m = Ok x \<Longrightarrow> f x = Ok y \<Longrightarrow> P) \<Longrightarrow> P"
  by (cases m) auto

lemma coalesce_undefined_grown:
  assumes "coalesce_undefined sid s t = Ok t'"
  shows "grown t t'"
  using assms unfolding coalesce_undefined_def
proof (rule rbind_OkE)
  fix slot
  assume "(case (slot, s) of (Undefined n orig w, Undefined _ _ w') \<Rightarrow> set_sym sid (Undefined n orig (w \<and> w')) t | _ \<Rightarrow> Panic) = Ok t'"
  then show ?thesis by (cases slot; cases s) (simp_all add: set_sym_grown)
qed

lemma coalesce_common_grown:
  assumes "coalesce_common sid s t = Ok t'"
  shows "grown t t'"
  using assms unfolding coalesce_common_def
proof (rule rbind_OkE)
  fix slot
  assume "(case (slot, s) of (Common _ _ old _ _ _, Common _ _ new _ _ _) \<Rightarrow> if old \<le> new then set_sym sid s t else Ok t | _ \<Rightarrow> Panic) = Ok t'"
  then show ?thesis by (cases slot; cases s) (auto split: if_splits dest: set_sym_grown)
qed

lemma apply_action_grown:
  assumes "apply_action sid s k k' act t = (Ok (out, t') :: ('e, insert_outcome \<times> symbol_table) result)"
  shows "grown t t'"
proof (cases act)
  case AReplace
  then show ?thesis using assms by (auto simp: apply_action_def rbind_Ok_iff Let_def dest: set_sym_grown)
next
  case AReplaceAndPendingArchiveFetch
  then show ?thesis using assms by (cases s) (auto simp: apply_action_def rbind_Ok_iff dest: set_sym_grown)
next
  case APendingArchiveFetch
  have "rbind (get_sym t sid) (\<lambda>slot. case slot of LazyArchive _ ar mem \<Rightarrow> Ok (PendingArchiveFetch sid ar mem, t) | _ \<Rightarrow> Panic)
      = (Ok (out, t') :: ('e, insert_outcome \<times> symbol_table) result)"
    using assms unfolding APendingArchiveFetch apply_action_def by simp
  then show ?thesis
  proof (rule rbind_OkE)
    fix slot
    assume "(case slot of LazyArchive _ ar mem \<Rightarrow> Ok (PendingArchiveFetch sid ar mem, t) | _ \<Rightarrow> Panic) = Ok (out, t')"
    then show ?thesis by (cases slot) simp_all
  qed
next
  case APendingObjectLoad
  have "rbind (get_sym t sid) (\<lambda>slot. case slot of LazyObject _ orig \<Rightarrow> Ok (PendingObjectLoad sid orig, t) | _ \<Rightarrow> Panic)
      = (Ok (out, t') :: ('e, insert_outcome \<times> symbol_table) result)"
    using assms unfolding APendingObjectLoad apply_action_def by simp
  then show ?thesis
  proof (rule rbind_OkE)
    fix slot
    assume "(case slot of LazyObject _ orig \<Rightarrow> Ok (PendingObjectLoad sid orig, t) | _ \<Rightarrow> Panic) = Ok (out, t')"
    then show ?thesis by (cases slot) simp_all
  qed
qed (use assms in \<open>auto simp: apply_action_def rbind_Ok_iff dest: coalesce_undefined_grown coalesce_common_grown\<close>)

lemma insert_sym_grows:
  assumes "insert_sym s t = Ok (out, t')"
  shows "grown t t'"
proof (cases "by_name t (sym_name s)")
  case None
  then have "t' = push_transition (fst (push_new s t)) (sym_kind s) (sym_kind s) CInserted (snd (push_new s t))"
    using assms by (auto simp: insert_sym_def insert_vacant_def rbind_Ok_iff case_prod_unfold Let_def split: if_splits)
  then show ?thesis by (simp add: push_new_def Let_def grown_def push_transition_def)
next
  case (Some sid)
  then obtain e where e: "get_sym t sid = (Ok e :: (insert_error, symbol) result)"
    "(if sym_kind s = KAlias then insert_alias sid s (sym_kind e) t
      else rbind (resolution_matrix t sid s (sym_kind e)) (\<lambda>act. apply_action sid s (sym_kind e) (sym_kind s) act t)) = Ok (out, t')"
    using assms by (auto simp: insert_sym_def rbind_Ok_iff)
  show ?thesis
  proof (cases "sym_kind s = KAlias")
    case True
    then show ?thesis using e
      by (cases s) (auto simp: insert_alias_def rbind_Ok_iff split: if_splits dest!: apply_action_grown)
  next
    case False
    then show ?thesis using e by (auto simp: rbind_Ok_iff dest: apply_action_grown)
  qed
qed

inductive extends :: "symbol_table \<Rightarrow> symbol_table \<Rightarrow> bool" where
  extends_refl [intro]: "extends t t"
| extends_intern: "extends t t1 \<Longrightarrow> extends t (snd (table_intern s t1))"
| extends_insert: "extends t t1 \<Longrightarrow> insert_sym s t1 = Ok (out, t2) \<Longrightarrow> extends t t2"

lemma extension_trans: "extends t1 t2 \<Longrightarrow> extends t t1 \<Longrightarrow> extends t t2"
  by (induction rule: extends.induct) (auto intro: extends.intros)

lemma extends_reachable:
  "extends t t' \<Longrightarrow> reachable t \<Longrightarrow> interner_fits (interner t') \<Longrightarrow> length (symbols t') < 2 ^ 32 \<Longrightarrow> reachable t'"
proof (induction rule: extends.induct)
  case (extends_intern t t1 s)
  have "interner_fits (interner t1)"
    using extends_intern.prems by (auto simp: interner_fits_def table_intern_def intern_def Let_def split: option.splits)
  then show ?case using extends_intern by (intro reachable.interned) (simp_all add: table_intern_def case_prod_unfold Let_def)
next
  case (extends_insert t t1 s out t2)
  have "interner t2 = interner t1" "length (symbols t1) \<le> length (symbols t2)"
    using insert_sym_grows [OF extends_insert.hyps(2)] by (simp_all add: grown_def)
  then show ?case using extends_insert.IH extends_insert.prems by (intro reachable.inserted [OF _ _ extends_insert.hyps(2)]) simp_all
qed simp

lemma seed_insert_extends:
  assumes "seed_insert s tr = Ok (tr', b)"
  shows "extends (fst tr) (fst tr')"
proof (cases "insert_sym s (fst tr)")
  case (Ok x)
  then show ?thesis using assms by (cases x) (auto simp: seed_insert_def intro: extends_insert [OF extends_refl])
qed (use assms in \<open>auto simp: seed_insert_def\<close>)

lemma seed_each_keeps:
  assumes "\<And>x s s'. f x s = Ok s' \<Longrightarrow> R s s'" and "\<And>s. R s s" and "\<And>a b c. R a b \<Longrightarrow> R b c \<Longrightarrow> R a c"
  shows "seed_each f xs s = Ok s' \<Longrightarrow> R s s'"
proof (induction xs arbitrary: s)
  case (Cons x xs)
  then obtain s1 where "f x s = Ok s1" "seed_each f xs s1 = Ok s'" by (auto simp: rbind_Ok_iff)
  then show ?case using assms(1) Cons.IH assms(3) by blast
qed (use assms(2) in simp)

abbreviation extends_fst :: "seeding \<Rightarrow> seeding \<Rightarrow> bool" where
  "extends_fst tr tr' \<equiv> extends (fst tr) (fst tr')"

lemma seed_each_extends:
  "(\<And>x s s'. f x s = Ok s' \<Longrightarrow> extends_fst s s') \<Longrightarrow> seed_each f xs s = Ok s' \<Longrightarrow> extends_fst s s'"
  by (rule seed_each_keeps [of f extends_fst]) (auto intro: extension_trans)

lemma insert_after_intern:
  assumes "rmap fst (seed_insert s (t, r)) = Ok tr'" and "extends t0 t"
  shows "extends t0 (fst tr')"
  using assms seed_insert_extends [of s "(t, r)"] by (cases "seed_insert s (t, r)") (auto intro: extension_trans)

lemma table_intern_extends: "table_intern s t = (n, t') \<Longrightarrow> extends t0 t \<Longrightarrow> extends t0 t'"
  using extends_intern [of t0 t s] by simp

lemma unresolved_entry_extends: "unresolved_entry aid e tr = Ok tr' \<Longrightarrow> extends_fst tr tr'"
proof -
  assume a: "unresolved_entry aid e tr = Ok tr'"
  show ?thesis
  proof (cases "interner_get (interner (fst tr)) (ie_name e)")
    case (Some nm)
    show ?thesis
    proof (cases "lookup (fst tr) nm")
      case (Some sid)
      then obtain s where s: "(case s of Undefined _ _ _ \<Rightarrow> rmap fst (seed_insert (LazyArchive nm aid (ie_member_header_offset e)) tr) | _ \<Rightarrow> Ok tr) = Ok tr'"
        using a \<open>interner_get _ _ = Some nm\<close> unfolding unresolved_entry_def by (auto elim: rbind_OkE)
      then show ?thesis
        using insert_after_intern [of _ "fst tr" "snd tr" tr' "fst tr"] by (cases s) auto
    qed (use a Some in \<open>auto simp: unresolved_entry_def\<close>)
  qed (use a in \<open>auto simp: unresolved_entry_def\<close>)
qed

lemma seed_unresolved_extends: "seed_archive_for_unresolved inp aid tr = Ok tr' \<Longrightarrow> extends_fst tr tr'"
  by (auto simp: seed_archive_for_unresolved_def rbind_Ok_iff split: option.splits intro: seed_each_extends unresolved_entry_extends)

lemma seed_export_extends: "seed_export did di e tr = Ok tr' \<Longrightarrow> extends_fst tr tr'"
  by (auto simp: seed_export_def Let_def split: prod.splits intro: insert_after_intern table_intern_extends)

lemma seed_dylib_extends: "seed_dylib inp did tr = Ok tr' \<Longrightarrow> extends_fst tr tr'"
  by (auto simp: seed_dylib_def rbind_Ok_iff intro: seed_each_extends seed_export_extends)

lemma seed_alias_extends:
  assumes "seed_alias iid nm target pe tr = Ok tr'" and "extends t0 (fst tr)"
  shows "extends t0 (fst tr')"
proof -
  obtain tr1 b where 1: "seed_insert (Alias nm target iid pe) tr = Ok (tr1, b)"
    and 2: "(if \<not> b then Ok tr1 else rmap fst (seed_insert (Undefined target iid False)
         (fst tr1, (snd tr1)\<lparr>sr_referrers := referrer_add target iid (sr_referrers (snd tr1))\<rparr>))) = Ok tr'"
    using assms(1) by (auto simp: seed_alias_def rbind_Ok_iff)
  have "extends t0 (fst tr1)" using seed_insert_extends [OF 1] assms(2) by (rule extension_trans)
  then show ?thesis using 2 by (auto split: if_splits intro: insert_after_intern)
qed

lemma seed_symbol_extends:
  assumes "seed_symbol obj iid s tr = Ok tr'"
  shows "extends_fst tr tr'"
proof (cases "stab_kind s \<noteq> None \<or> \<not> participates_in_global_resolution s")
  case False
  show ?thesis
  proof (cases "Object_File.symbol_name obj s")
    case (Ok nms)
    obtain nm t where n: "table_intern nms (fst tr) = (nm, t)" by fastforce
    have e: "extends (fst tr) t" using n extends_refl by (rule table_intern_extends)
    show ?thesis
    proof (cases "nlist_kind s = Indirect")
      case True
      then obtain tn where "(let (target, t) = table_intern tn t in seed_alias iid nm target (is_private_ext s)
          (t, (snd tr)\<lparr>sr_referrers := referrer_add nm iid (sr_referrers (snd tr))\<rparr>)) = Ok tr'"
        using assms False Ok n by (auto simp: seed_symbol_def rbind_Ok_iff)
      moreover obtain target t2 where t2: "table_intern tn t = (target, t2)" by fastforce
      ultimately have "seed_alias iid nm target (is_private_ext s)
          (t2, (snd tr)\<lparr>sr_referrers := referrer_add nm iid (sr_referrers (snd tr))\<rparr>) = Ok tr'" by simp
      then show ?thesis by (rule seed_alias_extends) (simp add: table_intern_extends [OF t2 e])
    next
      case False
      have "rbind (symbolize_input nm s iid) (\<lambda>x. rmap fst (seed_insert x (t, (snd tr)\<lparr>sr_referrers := referrer_add nm iid (sr_referrers (snd tr))\<rparr>))) = Ok tr'"
        using assms \<open>\<not> (_ \<or> _)\<close> Ok n False by (simp add: seed_symbol_def)
      then obtain x where "rmap fst (seed_insert x (t, (snd tr)\<lparr>sr_referrers := referrer_add nm iid (sr_referrers (snd tr))\<rparr>)) = Ok tr'"
        by (rule rbind_OkE)
      then show ?thesis using e by (rule insert_after_intern)
    qed
  qed (use assms False in \<open>auto simp: seed_symbol_def\<close>)
qed (use assms in \<open>auto simp: seed_symbol_def\<close>)

lemma seed_object_extends: "seed_object inp iid tr = Ok tr' \<Longrightarrow> extends_fst tr tr'"
  by (auto simp: seed_object_def rbind_Ok_iff intro: seed_each_extends seed_symbol_extends)

section \<open>Steps of the resolution\<close>

text \<open>The state changes by growing the table, by reporting, and by ingesting members.\<close>

inductive loads :: "link_state \<Rightarrow> link_state \<Rightarrow> bool" where
  loads_refl [intro]: "loads st st"
| loads_table: "loads st st1 \<Longrightarrow> extends (ls_table st1) t \<Longrightarrow> dr_fetched_members r = dr_fetched_members (ls_report st1) \<Longrightarrow>
    loads st (st1\<lparr>ls_table := t, ls_report := r\<rparr>)"
| loads_ingest: "loads st st1 \<Longrightarrow> ingest_loaded_member l st1 = Ok (new, st2) \<Longrightarrow> loads st st2"

lemma loads_trans: "loads st1 st2 \<Longrightarrow> loads st st1 \<Longrightarrow> loads st st2"
  by (induction rule: loads.induct) (auto intro: loads.intros)

lemma loads_extends: "loads st st' \<Longrightarrow> extends (ls_table st) (ls_table st')"
proof (induction rule: loads.induct)
  case (loads_ingest st st1 l new st2)
  from loads_ingest.hyps(2) show ?case
  proof (cases rule: ingest_cases)
    case (2 t sub)
    then show ?thesis using seed_object_extends [OF 2(1)] loads_ingest.IH by (auto intro: extension_trans)
  qed (use loads_ingest.IH in simp)
qed (auto intro: extension_trans)

text \<open>Every object beyond the ones given is a member, and every member is ingested at most once.\<close>

lemma loads_accounts:
  "loads st st' \<Longrightarrow>
     length (in_objects (ls_inputs st')) + dr_fetched_members (ls_report st) = length (in_objects (ls_inputs st)) + dr_fetched_members (ls_report st')
     \<and> left_to_fetch st' + dr_fetched_members (ls_report st') = left_to_fetch st + dr_fetched_members (ls_report st)
     \<and> map ai_metadata (in_archives (ls_inputs st')) = map ai_metadata (in_archives (ls_inputs st))"
proof (induction rule: loads.induct)
  case (loads_ingest st st1 l new st2)
  from loads_ingest.hyps(2) show ?case
  proof (cases rule: ingest_cases)
    case (2 t sub)
    let ?k = "(unat (fst (la_key l)), snd (la_key l))"
    have "left_to_fetch st1 = Suc (card (unfetched (ls_inputs st1) - {?k}))"
      using 2(7) by (metis card_Suc_Diff1 finite_unfetched)
    moreover have "map ai_metadata (in_archives (mark_fetched (la_key l) (ls_inputs st1))) = map ai_metadata (in_archives (ls_inputs st1))"
      using 2(7) by (simp add: mark_fetched_def unfetched_def map_update list_update_same_conv)
    ultimately show ?thesis using loads_ingest.IH 2(3,5,6) by (simp add: push_member_def) (simp add: mark_fetched_def)
  qed (use loads_ingest.IH in simp)
qed auto

lemma fetch_queue_loads: "fetch_queue arrival fs jobs queue st = Ok st' \<Longrightarrow> loads st st'"
proof (induction arrival fs jobs queue st rule: fetch_queue.induct)
  case (1 arrival fs jobs queue st)
  show ?case
  proof (cases "queue = []")
    case False
    then obtain new st1 where s: "fetch_and_ingest_one arrival fs jobs (last queue) st = Ok (new, st1)"
      "fetch_queue arrival fs jobs (butlast queue @ new) st1 = Ok st'"
      using 1(2) unfolding fetch_queue.simps [of arrival fs jobs queue] by (auto simp: rbind_Ok_iff)
    have "loads st st1" using s(1) by (rule fetch_cases) (auto intro: loads_ingest)
    then show ?thesis using 1(1) [OF False s(1) refl s(2)] by (auto intro: loads_trans)
  qed (use 1(2) in \<open>simp add: fetch_queue.simps loads_refl\<close>)
qed

lemma drain_loads: "drain_loop arrival fs jobs queue prepared st = Ok st' \<Longrightarrow> loads st st'"
proof (induction arrival fs jobs queue prepared st rule: drain_loop.induct)
  case (1 arrival fs jobs queue prepared st)
  show ?case
  proof (cases "queue = []")
    case False
    then obtain new prep st1 where s: "drain_step arrival fs jobs (last queue) (butlast queue) prepared st = Ok (new, prep, st1)"
      "drain_loop arrival fs jobs (butlast queue @ new) prep st1 = Ok st'"
      using 1(2) unfolding drain_loop.simps [of arrival fs jobs queue] by (auto simp: rbind_Ok_iff)
    have "loads st st1" using s(1) by (rule drain_step_cases) (auto intro: loads_ingest)
    then show ?thesis using 1(1) [OF False s(1) refl refl s(2)] by (auto intro: loads_trans)
  qed (use 1(2) in \<open>simp add: drain_loop.simps loads_refl\<close>)
qed

lemma ingest_all_loads: "ingest_all rs st = Ok (queue, st') \<Longrightarrow> loads st st'"
proof (induction rs arbitrary: st queue)
  case (Cons r rs)
  then obtain l new st1 more where "ingest_loaded_member l st = Ok (new, st1)" "ingest_all rs st1 = Ok (more, st')"
    by (auto simp: rbind_Ok_iff)
  then show ?case using Cons.IH loads_ingest [OF loads_refl] by (blast intro: loads_trans)
qed (simp add: loads_refl)

lemma force_load_loads:
  assumes "force_load_archive arrival fs jobs aid st = Ok st'"
  shows "loads st st'"
proof -
  obtain rs queue st1 where "ingest_all rs st = Ok (queue, st1)" "fetch_queue arrival fs jobs queue st1 = Ok st'"
    using assms by (auto simp: force_load_archive_def rbind_Ok_iff)
  then show ?thesis by (blast intro: loads_trans fetch_queue_loads ingest_all_loads)
qed

lemma loads_seed:
  "extends (ls_table st) t \<Longrightarrow> loads st (st\<lparr>ls_table := t, ls_report := absorb step (ls_report st)\<rparr>)"
  by (rule loads_table [OF loads_refl]) (simp_all add: absorb_def)

lemma seeded_Ok: "seeded st m = Ok x \<longleftrightarrow> m = Ok x"
  by (cases m) (simp_all add: seeded_def)

lemma archive_loop_step:
  assumes "archive_loop arrival fs jobs aid refs st = Ok (refs', st')"
  obtains t step where "seed_archive_for_unresolved (ls_inputs st) aid
        (ls_table st, \<lparr>sr_pending_fetches = [], sr_duplicates = [], sr_referrers = refs\<rparr>) = Ok (t, step)"
      "sr_pending_fetches step = []" "st' = st\<lparr>ls_table := t, ls_report := absorb step (ls_report st)\<rparr>"
  | t step st2 where "seed_archive_for_unresolved (ls_inputs st) aid
        (ls_table st, \<lparr>sr_pending_fetches = [], sr_duplicates = [], sr_referrers = refs\<rparr>) = Ok (t, step)"
      "sr_pending_fetches step \<noteq> []"
      "drain_fetches_into arrival fs jobs (sr_pending_fetches step) (st\<lparr>ls_table := t, ls_report := absorb step (ls_report st)\<rparr>) = Ok st2"
      "archive_loop arrival fs jobs aid (sr_referrers step) st2 = Ok (refs', st')"
proof -
  obtain t step where 1: "seed_archive_for_unresolved (ls_inputs st) aid
        (ls_table st, \<lparr>sr_pending_fetches = [], sr_duplicates = [], sr_referrers = refs\<rparr>) = Ok (t, step)"
    and 2: "(if sr_pending_fetches step = [] then Ok (sr_referrers step, st\<lparr>ls_table := t, ls_report := absorb step (ls_report st)\<rparr>)
      else rbind (drain_fetches_into arrival fs jobs (sr_pending_fetches step) (st\<lparr>ls_table := t, ls_report := absorb step (ls_report st)\<rparr>))
        (archive_loop arrival fs jobs aid (sr_referrers step))) = Ok (refs', st')"
    using assms unfolding archive_loop.simps [of arrival fs jobs aid refs st]
    by (elim rbind_OkE) (auto simp: seeded_Ok Let_def)
  show thesis
  proof (cases "sr_pending_fetches step = []")
    case True
    then show thesis using 2 by (intro that(1) [OF 1]) auto
  next
    case False
    then show thesis using 2 that(2) [OF 1] by (auto elim: rbind_OkE)
  qed
qed

lemma archive_loop_sound:
  "archive_loop arrival fs jobs aid refs st = Ok (refs', st') \<Longrightarrow>
     loads st st' \<and> (\<forall>ai ix e. archive_of (ls_inputs st') aid = (Ok ai :: archive_input seed) \<longrightarrow> amd_symbol_index (ai_metadata ai) = Some ix
       \<longrightarrow> e \<in> set ix \<longrightarrow> \<not> entry_undefined (ls_table st') e)"
proof (induction arrival fs jobs aid refs st rule: archive_loop.induct)
  case (1 arrival fs jobs aid refs st)
  note IH = 1(1)
  from 1(2) show ?case
  proof (cases rule: archive_loop_step)
    case (1 t step)
    have "\<not> entry_undefined t e" if h: "archive_of (ls_inputs st) aid = (Ok ai :: archive_input seed)" "amd_symbol_index (ai_metadata ai) = Some ix" "e \<in> set ix" for ai ix e
    proof -
      have "seed_each (unresolved_entry aid) ix (ls_table st, \<lparr>sr_pending_fetches = [], sr_duplicates = [], sr_referrers = refs\<rparr>) = Ok (t, step)"
        using 1(1) h(1,2) by (simp add: seed_archive_for_unresolved_def)
      from seed_unresolved_cases [OF this] 1(2) h(3) show ?thesis by auto
    qed
    moreover have "extends (ls_table st) t" using seed_unresolved_extends [OF 1(1)] by simp
    ultimately show ?thesis using loads_seed [of st t step] unfolding 1(3) by simp
  next
    case (2 t step st2)
    have "loads st (st\<lparr>ls_table := t, ls_report := absorb step (ls_report st)\<rparr>)"
      using seed_unresolved_extends [OF 2(1)] by (intro loads_seed) simp
    moreover have "loads (st\<lparr>ls_table := t, ls_report := absorb step (ls_report st)\<rparr>) st2"
      using 2(3) unfolding drain_fetches_into_def by (rule drain_loads)
    ultimately have "loads st st2" by (rule loads_trans [rotated])
    then show ?thesis
      using IH [OF _ refl refl 2(2,3,4)] 2(1) by (auto simp: seeded_Ok intro: loads_trans)
  qed
qed

lemma finish_step_loads: "finish_step arrival fs jobs step st = Ok st' \<Longrightarrow> loads st st'"
  using loads_seed [of st "ls_table st" step, OF extends_refl]
  by (auto simp: finish_step_def Let_def drain_fetches_into_def split: if_splits dest: drain_loads intro: loads_trans)

lemma loads_set_table: "extends (ls_table st) t \<Longrightarrow> loads st (st\<lparr>ls_table := t\<rparr>)"
  using loads_table [OF loads_refl, of st t "ls_report st"] by simp

lemma resolve_entry_loads:
  assumes "resolve_entry arrival fs jobs force_all oi st = Ok st'"
  shows "loads st st'"
proof (cases oi)
  case (OObject i)
  then obtain t step where t: "seed_object (ls_inputs st) i (ls_table st, seed_report_new) = Ok (t, step)"
    "finish_step arrival fs jobs step (st\<lparr>ls_table := t\<rparr>) = Ok st'"
    using assms by (auto simp: resolve_entry_def rbind_Ok_iff seeded_Ok)
  show ?thesis using finish_step_loads [OF t(2)] seed_object_extends [OF t(1)] by (auto intro: loads_trans loads_set_table)
next
  case (OArchive a)
  show ?thesis
  proof (cases force_all)
    case True
    then show ?thesis using assms OArchive
      by (auto simp: resolve_entry_def rbind_Ok_iff intro: loads_trans force_load_loads finish_step_loads)
  next
    case False
    then show ?thesis using assms OArchive
      by (auto simp: resolve_entry_def rbind_Ok_iff intro: loads_trans finish_step_loads dest!: archive_loop_sound)
  qed
next
  case (OForceLoadArchive a)
  then show ?thesis using assms
    by (auto simp: resolve_entry_def rbind_Ok_iff intro: loads_trans force_load_loads finish_step_loads)
next
  case (ODylib d)
  then obtain t step where t: "seed_dylib (ls_inputs st) d (ls_table st, seed_report_new) = Ok (t, step)"
    "finish_step arrival fs jobs step (st\<lparr>ls_table := t\<rparr>) = Ok st'"
    using assms by (auto simp: resolve_entry_def rbind_Ok_iff seeded_Ok)
  show ?thesis using finish_step_loads [OF t(2)] seed_dylib_extends [OF t(1)] by (auto intro: loads_trans loads_set_table)
qed

lemma resolve_entries_loads: "resolve_entries arrival fs jobs force_all es traced st = Ok st' \<Longrightarrow> loads st st'"
proof (induction es arbitrary: traced st)
  case (Cons e es)
  then obtain path st1 where 1: "resolve_entry arrival fs jobs force_all (oe_input e)
      (if traced \<noteq> Some (oe_load_order e)
       then st\<lparr>ls_report := (ls_report st)\<lparr>dr_loaded_paths := dr_loaded_paths (ls_report st) @ [path]\<rparr>\<rparr> else st) = Ok st1"
    "resolve_entries arrival fs jobs force_all es (Some (oe_load_order e)) st1 = Ok st'"
    by (auto simp: rbind_Ok_iff Let_def)
  have "loads st (st\<lparr>ls_report := (ls_report st)\<lparr>dr_loaded_paths := dr_loaded_paths (ls_report st) @ [path]\<rparr>\<rparr>)"
    using loads_table [OF loads_refl extends_refl, of "(ls_report st)\<lparr>dr_loaded_paths := dr_loaded_paths (ls_report st) @ [path]\<rparr>" st] by simp
  then have "loads st st1" using resolve_entry_loads [OF 1(1)] by (auto split: if_splits intro: loads_trans)
  then show ?case using Cons.IH [OF 1(2)] by (auto intro: loads_trans)
qed (simp add: loads_refl)

end
