(* ===== verification/Link_Sample.thy ===== *)
theory Link_Sample
  imports Link_Order_Sound
begin

text \<open>
  The properties of resolving the inputs, and a link they are applied to: an object that refers to
  \<^verbatim>\<open>_f\<close> and an archive with a member that defines it.
\<close>

section \<open>A link\<close>

declare usize_max_def [code del]

definition le_field :: "nat \<Rightarrow> bytes" where
  "le_field n = [of_nat n, 0, 0, 0]"

text \<open>An object file with one external symbol \<^verbatim>\<open>_f\<close> of the given type and no section.\<close>

definition symbol_object :: "u8 \<Rightarrow> bytes" where
  "symbol_object ty =
     [0xCF, 0xFA, 0xED, 0xFE, 0x0C, 0, 0, 1] @ concat (map le_field [0, 1, 1, 24, 0, 0, 2, 24, 56, 1, 72, 4, 1])
     @ [ty, 0, 0, 0] @ replicate 8 0 @ [0, 0x5F, 0x66, 0]"

definition sample_library :: bytes where
  "sample_library = archive_image [(bstr ''_f'', 0)] [(bstr ''f.o'', symbol_object 3)]"

definition sample_inputs :: "inputs add" where
  "sample_inputs =
     rbind (add_object (bstr ''main.o'') (symbol_object 1) 0 inputs_new) (\<lambda>(_, inp).
     rmap snd (add_archive (bstr ''lib.a'') sample_library 1 inp))"

definition sample_order :: "ordered_input_entry list" where
  "sample_order = [\<lparr>oe_load_order = 1, oe_input = OArchive 0\<rparr>, \<lparr>oe_load_order = 0, oe_input = OObject 0\<rparr>]"

definition sample_link :: "inputs \<Rightarrow> link_state fetch" where
  "sample_link inp = resolve_inputs_in_order rev (\<lambda>_. None) inp sample_order table_new 2 False"

definition sample_outcome :: "(unit, symbol list \<times> nat \<times> nat \<times> nat) result" where
  "sample_outcome =
     (case sample_inputs of
        Ok inp \<Rightarrow>
          (case sample_link inp of
             Ok st \<Rightarrow> Ok (symbols (ls_table st), length (strings (interner (ls_table st))), dr_fetched_members (ls_report st),
               length (in_objects (ls_inputs st)))
           | _ \<Rightarrow> Panic)
      | _ \<Rightarrow> Panic)"

lemma sample_evaluates: "sample_outcome = Ok ([Absolute 0 1 0 False False False], 1, 1, 2)"
  by code_simp

lemma sample_runs:
  obtains inp st where "sample_inputs = Ok inp" and "sample_link inp = Ok st"
    and "symbols (ls_table st) = [Absolute 0 1 0 False False False]" and "length (strings (interner (ls_table st))) = 1"
    and "dr_fetched_members (ls_report st) = 1" and "length (in_objects (ls_inputs st)) = 2"
proof (cases sample_inputs)
  case (Ok inp)
  note e = sample_evaluates [unfolded sample_outcome_def Ok result.case]
  obtain st where "sample_link inp = Ok st" using e by (cases "sample_link inp") simp_all
  with Ok e that show thesis by simp
qed (use sample_evaluates in \<open>auto simp: sample_outcome_def split: result.splits\<close>)

section \<open>Properties\<close>

text \<open>
  C29: Resolving the inputs gives the same result, symbol table, registry, report and error alike, however
  many loader threads there are and in whatever order they deliver their members.
\<close>

theorem resolution_deterministic:
  assumes "fair arrival"
  shows "resolve_inputs_in_order arrival fs inp entries t jobs force_all = resolve_inputs_in_order id fs inp entries t 1 force_all"
  unfolding resolve_inputs_in_order_def using assms by (rule resolve_entries_scheduling)

theorem resolution_deterministic_witness:
  "\<exists>inp st. sample_inputs = Ok inp \<and> resolve_inputs_in_order id (\<lambda>_. None) inp sample_order table_new 1 False = Ok st
     \<and> sample_link inp = Ok st"
proof (rule sample_runs)
  fix inp st
  assume "sample_inputs = Ok inp" "sample_link inp = Ok st"
  moreover have "fair rev" by (simp add: fair_def)
  ultimately show ?thesis using resolution_deterministic [OF \<open>fair rev\<close>] unfolding sample_link_def by metis
qed

text \<open>
  C31: A resolution that succeeds accounts for its members: every object beyond the given ones is one of the
  members counted as fetched, each takes one member off those not yet fetched, so that no member is
  ingested twice, and the archives' contents stay as they were read.
\<close>

theorem members_ingested_once:
  assumes "resolve_inputs_in_order arrival fs inp entries t jobs force_all = Ok st"
  shows "length (in_objects (ls_inputs st)) = length (in_objects inp) + dr_fetched_members (ls_report st)
    \<and> card (unfetched (ls_inputs st)) + dr_fetched_members (ls_report st) = card (unfetched inp)
    \<and> map ai_metadata (in_archives (ls_inputs st)) = map ai_metadata (in_archives inp)"
  using loads_accounts [OF resolve_entries_loads [OF assms [unfolded resolve_inputs_in_order_def]]]
  by (simp add: drain_report_new_def)

theorem members_ingested_once_witness:
  "\<exists>inp st. sample_inputs = Ok inp \<and> sample_link inp = Ok st \<and> dr_fetched_members (ls_report st) = 1
     \<and> card (unfetched (ls_inputs st)) + 1 = card (unfetched inp)"
proof (rule sample_runs)
  fix inp st
  assume "sample_inputs = Ok inp" "sample_link inp = Ok st" "dr_fetched_members (ls_report st) = 1"
  then show ?thesis using members_ingested_once [OF \<open>sample_link inp = Ok st\<close> [unfolded sample_link_def]] by auto
qed

text \<open>
  C32: Resolving the inputs takes a reachable symbol table to a reachable one, as long as the 32-bit
  identifiers last: whatever the objects, archives and libraries hold, names and slots stay in
  correspondence and aliases form no cycle.
\<close>

theorem resolved_table_reachable:
  assumes "resolve_inputs_in_order arrival fs inp entries t jobs force_all = Ok st" and "reachable t"
    and "interner_fits (interner (ls_table st))" and "length (symbols (ls_table st)) < 2 ^ 32"
  shows "reachable (ls_table st) \<and> Resolution.wf_table (ls_table st)"
proof -
  have "extends t (ls_table st)"
    using loads_extends [OF resolve_entries_loads [OF assms(1) [unfolded resolve_inputs_in_order_def]]] by simp
  then have "reachable (ls_table st)" using assms(2-4) by (rule extends_reachable)
  then show ?thesis by (simp add: reachable_wf)
qed

theorem resolved_table_reachable_witness:
  "\<exists>inp st. sample_inputs = Ok inp \<and> sample_link inp = Ok st \<and> Resolution.wf_table (ls_table st)
     \<and> symbols (ls_table st) = [Absolute 0 1 0 False False False]"
proof (rule sample_runs)
  fix inp st
  assume s: "sample_inputs = Ok inp" "sample_link inp = Ok st" "symbols (ls_table st) = [Absolute 0 1 0 False False False]"
    "length (strings (interner (ls_table st))) = 1"
  have "interner_fits (interner (ls_table st))" "length (symbols (ls_table st)) < 2 ^ 32" using s(3,4) by (simp_all add: interner_fits_def)
  with s show ?thesis using resolved_table_reachable [OF s(2) [unfolded sample_link_def] reachable.new] by blast
qed

text \<open>
  C30: The loop over an archive stops only at a fixed point: when it returns, no name of the archive's index
  is still undefined in the symbol table, however the members it fetched depend on one another.
\<close>

theorem archive_exhausted:
  assumes "archive_loop arrival fs jobs aid refs st = Ok (refs', st')"
    and "archive_of (ls_inputs st') aid = (Ok ai :: archive_input seed)" and "amd_symbol_index (ai_metadata ai) = Some ix" and "e \<in> set ix"
  shows "\<not> entry_undefined (ls_table st') e"
  using archive_loop_sound [OF assms(1)] assms(2-4) by blast

definition loop_start :: "(unit, link_state) result" where
  "loop_start =
     (case sample_inputs of
        Ok inp \<Rightarrow>
          (case seed_object inp 0 (table_new, seed_report_new) of
             Ok tr \<Rightarrow> Ok \<lparr>ls_inputs = inp, ls_table = fst tr, ls_report = drain_report_new\<rparr>
           | _ \<Rightarrow> Panic)
      | _ \<Rightarrow> Panic)"

definition sample_entry :: symbol_index_entry where
  "sample_entry = \<lparr>ie_name = bstr ''_f'', ie_member_header_offset = 104\<rparr>"

definition loop_outcome :: "(unit, bool \<times> symbol_index_entry list) result" where
  "loop_outcome =
     (case loop_start of
        Ok st \<Rightarrow>
          (case archive_loop rev (\<lambda>_. None) 2 0 Map.empty st of
             Ok (refs, st') \<Rightarrow>
               (case archive_of (ls_inputs st') 0 :: archive_input seed of
                  Ok ai \<Rightarrow> (case amd_symbol_index (ai_metadata ai) of Some ix \<Rightarrow> Ok (symbols (ls_table st) = [Undefined 0 0 False], ix) | None \<Rightarrow> Panic)
                | _ \<Rightarrow> Panic)
           | _ \<Rightarrow> Panic)
      | _ \<Rightarrow> Panic)"

lemma loop_evaluates: "loop_outcome = Ok (True, [sample_entry])"
  by code_simp

theorem archive_exhausted_witness:
  "\<exists>st refs st'. loop_start = Ok st \<and> symbols (ls_table st) = [Undefined 0 0 False]
     \<and> archive_loop rev (\<lambda>_. None) 2 0 Map.empty st = Ok (refs, st') \<and> \<not> entry_undefined (ls_table st') sample_entry"
proof -
  obtain st where st: "loop_start = Ok st" using loop_evaluates unfolding loop_outcome_def by (auto split: result.splits)
  note e1 = loop_evaluates [unfolded loop_outcome_def st result.case]
  obtain refs st' where l: "archive_loop rev (\<lambda>_. None) 2 0 Map.empty st = Ok (refs, st')" using e1 by (auto split: result.splits)
  note e2 = e1 [unfolded l result.case prod.case]
  obtain ai where ai: "archive_of (ls_inputs st') 0 = (Ok ai :: archive_input seed)" using e2 by (auto split: result.splits)
  have "amd_symbol_index (ai_metadata ai) = Some [sample_entry] \<and> symbols (ls_table st) = [Undefined 0 0 False]"
    using e2 [unfolded ai result.case] by (auto split: option.splits)
  then show ?thesis using st l archive_exhausted [OF l ai, of "[sample_entry]" sample_entry] by auto
qed

section \<open>A library\<close>

text \<open>A library named \<^verbatim>\<open>a\<close> that depends on a library \<^verbatim>\<open>b\<close>.\<close>

definition sample_dylib :: bytes where
  "sample_dylib =
     [0xCF, 0xFA, 0xED, 0xFE, 0x0C, 0, 0, 1] @ concat (map le_field [0, 6, 2, 64, 0, 0, 0x0D, 32, 24, 0, 0, 0])
     @ [0x61, 0, 0, 0, 0, 0, 0, 0] @ concat (map le_field [0x0C, 32, 24, 0, 0, 0]) @ [0x62, 0, 0, 0, 0, 0, 0, 0]"

lemma sample_dylib_parses: "rmap (\<lambda>d. map dd_install_name (df_dependencies d)) (parse_dylib_file [] sample_dylib) = Ok [[0x62]]"
  by code_simp

theorem parsed_dylib_well_formed_witness:
  "\<exists>d. parse_dylib_file [] sample_dylib = Ok d \<and> df_install_name d \<noteq> [] \<and> map dd_ordinal (df_dependencies d) = [1]"
proof (cases "parse_dylib_file [] sample_dylib")
  case (Ok d)
  have "map dd_install_name (df_dependencies d) = [[0x62]]" using sample_dylib_parses Ok by simp
  then have "length (df_dependencies d) = 1" by (metis length_map length_Cons list.size(3) One_nat_def)
  with Ok parsed_dylib_well_formed [of "[]" sample_dylib] show ?thesis by (auto simp: length_Suc_conv)
qed (use sample_dylib_parses in simp_all)

section \<open>A stale index\<close>

text \<open>
  Two archives: the index of the first promises \<^verbatim>\<open>_f\<close> in a member that defines nothing, the second defines it.
\<close>

definition stale_library :: bytes where
  "stale_library = archive_image [(bstr ''_f'', 0)]
     [(bstr ''f.o'', [0xCF, 0xFA, 0xED, 0xFE, 0x0C, 0, 0, 1] @ concat (map le_field [0, 1, 0, 0, 0, 0]))]"

definition stale_inputs :: "inputs add" where
  "stale_inputs =
     rbind (add_object (bstr ''main.o'') (symbol_object 1) 0 inputs_new) (\<lambda>(_, inp).
     rbind (add_archive (bstr ''old.a'') stale_library 1 inp) (\<lambda>(_, inp).
     rmap snd (add_archive (bstr ''lib.a'') sample_library 2 inp)))"

definition stale_link :: "(unit, symbol list \<times> unresolved list) result" where
  "stale_link =
     (case stale_inputs of
        Ok inp \<Rightarrow>
          (case resolve_inputs_in_order id (\<lambda>_. None) inp
              [\<lparr>oe_load_order = 0, oe_input = OObject 0\<rparr>, \<lparr>oe_load_order = 1, oe_input = OArchive 0\<rparr>, \<lparr>oe_load_order = 2, oe_input = OArchive 1\<rparr>]
              table_new 1 False of
             Ok st \<Rightarrow>
               (case classify_unresolved TreatError (ls_table st) :: (unit, symbol_table \<times> classification_report) result of
                  Ok (t, r) \<Rightarrow> Ok (symbols t, cr_errors r)
                | _ \<Rightarrow> Panic)
           | _ \<Rightarrow> Panic)
      | _ \<Rightarrow> Panic)"

text \<open>
  An archive whose index is stale hides a symbol: the reference to \<^verbatim>\<open>_f\<close> is left lazy, the archive that
  defines it is not asked, and classification finds nothing to report.
\<close>

theorem stale_index_hides_symbol: "stale_link = Ok ([LazyArchive 0 0 104], [])"
  by code_simp

end
