(* ===== verification/Undefineds.thy ===== *)
theory Undefineds
  imports Link_Order Symbol_Table
begin

text \<open>
  What becomes of the symbols that stay undefined (\<^verbatim>\<open>classify_unresolved\<close> of \<^verbatim>\<open>src/resolve.rs\<close>), and the
  edit distance behind the suggestions of the diagnostics (\<^verbatim>\<open>levenshtein\<close>, \<^verbatim>\<open>did_you_mean\<close>).
\<close>

section \<open>Edit distance\<close>

definition lev_cell :: "'a \<Rightarrow> nat \<times> 'a \<Rightarrow> nat \<times> nat list \<Rightarrow> nat \<times> nat list" where
  "lev_cell ca jcb pr =
     (case jcb of (j, cb) \<Rightarrow> case pr of (prev, row) \<Rightarrow>
      let cost = (if ca = cb then 0 else 1);
          new_val = min (min (row ! (j + 1) + 1) (row ! j + 1)) (prev + cost) in
      (row ! (j + 1), row[j + 1 := new_val]))"

definition lev_row :: "'a list \<Rightarrow> nat \<times> 'a \<Rightarrow> nat list \<Rightarrow> nat list" where
  "lev_row b ica row = (case ica of (i, ca) \<Rightarrow> snd (fold (lev_cell ca) (enumerate 0 b) (row ! 0, row[0 := i + 1])))"

definition levenshtein :: "'a list \<Rightarrow> 'a list \<Rightarrow> nat" where
  "levenshtein a b =
     (let m = length a; n = length b in
      if m = 0 then n
      else if n = 0 then m
      else fold (lev_row b) (enumerate 0 a) [0..<n + 1] ! n)"

text \<open>The characters of a string: a byte that is not a continuation byte starts one.\<close>

fun chars_of :: "bytes \<Rightarrow> bytes list" where
  "chars_of [] = []"
| "chars_of (c # s) =
     (case chars_of s of
        [] \<Rightarrow> [[c]]
      | g # gs \<Rightarrow> if hd g AND 0xC0 = 0x80 then (c # g) # gs else [c] # g # gs)"

fun dedup_names :: "(nat \<times> str) list \<Rightarrow> (nat \<times> str) list" where
  "dedup_names (x # y # xs) = (if snd x = snd y then dedup_names (x # xs) else x # dedup_names (y # xs))"
| "dedup_names xs = xs"

definition suggestion :: "symbol_table \<Rightarrow> str \<Rightarrow> nat \<Rightarrow> symbol \<Rightarrow> ('e, (nat \<times> str) list) result" where
  "suggestion t query budget s =
     rbind (interner_resolve (interner t) (sym_name s)) (\<lambda>candidate.
     if candidate = query then Ok []
     else
       let d = levenshtein (chars_of query) (chars_of candidate) in
       Ok (if d \<le> budget then [(d, candidate)] else []))"

definition did_you_mean :: "symbol_table \<Rightarrow> str \<Rightarrow> nat \<Rightarrow> nat \<Rightarrow> ('e, str list) result" where
  "did_you_mean t query budget mx =
     rbind (mapM (\<lambda>(_, s). suggestion t query budget s) (symbols_iter t)) (\<lambda>hss.
     let hits = sort_by (\<lambda>a b. then_with (cmp (fst a) (fst b)) (cmp_bytes (snd a) (snd b))) (concat hss) in
     Ok (map snd (take mx (dedup_names hits))))"

subsection \<open>Correctness\<close>

text \<open>An alignment of two strings at a cost: one for each character deleted, inserted or replaced.\<close>

inductive edits :: "nat \<Rightarrow> 'a list \<Rightarrow> 'a list \<Rightarrow> bool" where
  edits_nil: "edits 0 [] []"
| edits_keep: "edits n xs ys \<Longrightarrow> edits n (xs @ [x]) (ys @ [x])"
| edits_delete: "edits n xs ys \<Longrightarrow> edits (Suc n) (xs @ [x]) ys"
| edits_insert: "edits n xs ys \<Longrightarrow> edits (Suc n) xs (ys @ [y])"
| edits_replace: "edits n xs ys \<Longrightarrow> edits (Suc n) (xs @ [x]) (ys @ [y])"

text \<open>The recurrence, on reversed strings.\<close>

fun edit_dist :: "'a list \<Rightarrow> 'a list \<Rightarrow> nat" where
  "edit_dist [] ys = length ys"
| "edit_dist xs [] = length xs"
| "edit_dist (x # xs) (y # ys) =
     min (min (edit_dist xs (y # ys) + 1) (edit_dist (x # xs) ys + 1)) (edit_dist xs ys + (if x = y then 0 else 1))"

lemma edit_dist_right [simp]: "edit_dist xs [] = length xs"
  by (cases xs) auto

lemma edits_from_nil: "edits (length ys) [] (rev ys)"
  by (induction ys) (auto intro: edits.intros)

lemma edits_to_nil: "edits (length xs) (rev xs) []"
  by (induction xs) (auto intro: edits.intros)

lemma min3_cases: "min (min p q) r = p \<or> min (min p q) r = q \<or> min (min p q) r = (r :: nat)"
  by (auto simp: min_def)

lemma edit_dist_attained: "edits (edit_dist xs ys) (rev xs) (rev ys)"
proof (induction xs ys rule: edit_dist.induct)
  case (3 x xs y ys)
  note del = 3(1) and ins = 3(2) and diag = 3(3)
  consider "edit_dist (x # xs) (y # ys) = Suc (edit_dist xs (y # ys))" | "edit_dist (x # xs) (y # ys) = Suc (edit_dist (x # xs) ys)"
    | "x = y" "edit_dist (x # xs) (y # ys) = edit_dist xs ys" | "edit_dist (x # xs) (y # ys) = Suc (edit_dist xs ys)"
    using min3_cases [of "edit_dist xs (y # ys) + 1" "edit_dist (x # xs) ys + 1" "edit_dist xs ys + (if x = y then 0 else 1)"]
    by (cases "x = y") auto
  then show ?case
  proof cases
    case 1
    then show ?thesis using edits_delete [OF del, of x] by simp
  next
    case 2
    then show ?thesis using edits_insert [OF ins, of y] by simp
  next
    case 3
    then show ?thesis using edits_keep [OF diag, of x] by simp
  next
    case 4
    then show ?thesis using edits_replace [OF diag, of x y] by simp
  qed
qed (auto intro: edits_from_nil edits_to_nil [of "_ # _", simplified])

lemma edit_dist_delete: "edit_dist (x # xs) ys \<le> Suc (edit_dist xs ys)"
  by (cases ys) auto

lemma edit_dist_insert: "edit_dist xs (y # ys) \<le> Suc (edit_dist xs ys)"
  by (cases xs) auto

lemma edit_dist_minimal: "edits n xs ys \<Longrightarrow> edit_dist (rev xs) (rev ys) \<le> n"
proof (induction rule: edits.induct)
  case (edits_delete n xs ys x)
  then show ?case using edit_dist_delete [of x "rev xs" "rev ys"] by simp
next
  case (edits_insert n xs ys y)
  then show ?case using edit_dist_insert [of "rev xs" y "rev ys"] by simp
qed auto

text \<open>Row \<open>i\<close> of the table holds the distances from the first \<open>i\<close> characters.\<close>

definition cell :: "'a list \<Rightarrow> 'a list \<Rightarrow> nat \<Rightarrow> nat \<Rightarrow> nat" where
  "cell a b i j = edit_dist (rev (take i a)) (rev (take j b))"

lemma cell_zero [simp]: "j \<le> length b \<Longrightarrow> cell a b 0 j = j" "i \<le> length a \<Longrightarrow> cell a b i 0 = i"
  by (simp_all add: cell_def)

lemma cell_step:
  "i < length a \<Longrightarrow> j < length b \<Longrightarrow> cell a b (Suc i) (Suc j) =
     min (min (cell a b i (Suc j) + 1) (cell a b (Suc i) j + 1)) (cell a b i j + (if a ! i = b ! j then 0 else 1))"
  by (simp add: cell_def take_Suc_conv_app_nth)

lemma lev_cells:
  assumes "i < length a"
  shows "j \<le> length b \<Longrightarrow> fold (lev_cell (a ! i)) (enumerate 0 (take j b)) (cell a b i 0, (map (cell a b i) [0..<Suc (length b)])[0 := i + 1])
    = (cell a b i j, map (cell a b (Suc i)) [0..<Suc j] @ map (cell a b i) [Suc j..<Suc (length b)])"
proof (induction j)
  case 0
  have "[0..<Suc (length b)] = 0 # [Suc 0..<Suc (length b)]" "[0..<Suc 0] = [0]" by (simp_all add: upt_conv_Cons del: upt_Suc)
  then show ?case using assms by (simp del: upt_Suc)
next
  case (Suc j)
  let ?row = "map (cell a b (Suc i)) [0..<Suc j] @ map (cell a b i) [Suc j..<Suc (length b)]"
  have e: "enumerate 0 (take (Suc j) b) = enumerate 0 (take j b) @ [(j, b ! j)]"
    using Suc.prems by (simp add: take_Suc_conv_app_nth enumerate_append_eq)
  have r: "?row ! j = cell a b (Suc i) j" "?row ! Suc j = cell a b i (Suc j)"
    using Suc.prems by (simp_all add: nth_append del: upt_Suc)
  have "[Suc j..<Suc (length b)] = Suc j # [Suc (Suc j)..<Suc (length b)]" using Suc.prems by (simp add: upt_conv_Cons del: upt_Suc)
  then have "?row[Suc j := cell a b (Suc i) (Suc j)]
      = map (cell a b (Suc i)) [0..<Suc (Suc j)] @ map (cell a b i) [Suc (Suc j)..<Suc (length b)]"
    by (simp add: list_update_append del: upt_Suc) (simp add: upt_Suc_append del: upt_Suc)
  moreover have "fold (lev_cell (a ! i)) (enumerate 0 (take j b)) (cell a b i 0, (map (cell a b i) [0..<Suc (length b)])[0 := i + 1]) = (cell a b i j, ?row)"
    using Suc by simp
  ultimately show ?case
    unfolding e fold_append comp_def using r cell_step [OF assms, of j b] Suc.prems by (simp add: lev_cell_def Let_def del: upt_Suc)
qed

lemma lev_row_step:
  assumes "i < length a"
  shows "lev_row b (i, a ! i) (map (cell a b i) [0..<Suc (length b)]) = map (cell a b (Suc i)) [0..<Suc (length b)]"
  using lev_cells [OF assms, of "length b" b] by (simp add: lev_row_def del: upt_Suc)

lemma lev_rows:
  "i \<le> length a \<Longrightarrow> fold (lev_row b) (enumerate 0 (take i a)) (map (cell a b 0) [0..<Suc (length b)]) = map (cell a b i) [0..<Suc (length b)]"
proof (induction i)
  case (Suc i)
  then have e: "enumerate 0 (take (Suc i) a) = enumerate 0 (take i a) @ [(i, a ! i)]"
    by (simp add: take_Suc_conv_app_nth enumerate_append_eq)
  show ?case unfolding e using Suc lev_row_step [of i a b] by (simp del: upt_Suc)
qed simp

lemma levenshtein_eq: "levenshtein a b = edit_dist (rev a) (rev b)"
proof (cases "a = [] \<or> b = []")
  case False
  have "map (cell a b 0) [0..<Suc (length b)] = [0..<Suc (length b)]" by (intro nth_equalityI) (simp_all del: upt_Suc)
  then show ?thesis using lev_rows [of "length a" a b] False
    by (simp add: levenshtein_def cell_def nth_append del: upt_Suc)
qed (auto simp: levenshtein_def)

text \<open>
  C34: The rolling-row computation returns the least cost at which one string can be turned into the other by
  deleting, inserting and replacing characters.
\<close>

theorem levenshtein_optimal: "edits (levenshtein a b) a b \<and> (\<nexists>n. n < levenshtein a b \<and> edits n a b)"
  using edit_dist_attained [of "rev a" "rev b"] edit_dist_minimal [of _ a b] by (auto simp: levenshtein_eq not_less [symmetric])

section \<open>Classification\<close>

text \<open>Its effect on one slot: an import that the dynamic loader looks up in every library.\<close>

definition promoted :: "symbol \<Rightarrow> symbol" where
  "promoted s = (case s of Undefined nm _ w \<Rightarrow> DylibImport nm DYLIB_INVALID FLAT_LOOKUP_ORDINAL w | _ \<Rightarrow> s)"

definition undefined_from :: "nat \<Rightarrow> symbol list \<Rightarrow> (symbol_id \<times> istr \<times> bool) list" where
  "undefined_from n ss = 
     concat (map (\<lambda>(sid, s). case s of Undefined nm _ w \<Rightarrow> [(sid, nm, w)] | _ \<Rightarrow> []) (map (\<lambda>(i, s). (of_nat i, s)) (enumerate n ss)))"

lemma undefined_symbols_from: "undefined_symbols t = undefined_from 0 (symbols t)"
proof -
  have "symbols_iter t = map (\<lambda>(i, s). (of_nat i, s)) (enumerate 0 (symbols t))"
    by (intro nth_equalityI) (simp_all add: symbols_iter_def nth_enumerate_eq)
  then show ?thesis by (simp only: undefined_symbols_def undefined_from_def)
qed

definition as_unresolved :: "symbol_id \<times> istr \<times> bool \<Rightarrow> unresolved" where
  "as_unresolved u = \<lparr>ur_name = fst (snd u), ur_id = fst u\<rparr>"

definition classified :: "undefined_treatment \<Rightarrow> (symbol_id \<times> istr \<times> bool) list \<Rightarrow> classification_report \<Rightarrow> classification_report" where
  "classified tm us r =
     \<lparr>cr_errors = cr_errors r @ (if tm = TreatError then map as_unresolved us else []),
      cr_warnings = cr_warnings r @ (if tm = TreatWarning then map as_unresolved us else []),
      cr_suppressed = cr_suppressed r @ (if tm = TreatSuppress then map as_unresolved us else []),
      cr_promoted_to_dynamic = cr_promoted_to_dynamic r @ (if tm = TreatError then [] else map fst us),
      cr_weak = cr_weak r @ map as_unresolved (filter (\<lambda>u. snd (snd u)) us)\<rparr>"

lemma classify_error: "seed_each (classify_one TreatError) us (t, r) = (Ok (t, classified TreatError us r) :: ('e, _) result)"
proof (induction us arbitrary: r)
  case (Cons u us)
  have "classify_one TreatError u (t, r) = (Ok (t, classified TreatError [u] r) :: ('e, _) result)"
    by (cases u; cases r) (simp add: classify_one_def classified_def as_unresolved_def Let_def)
  then show ?case using Cons by (simp add: classified_def)
qed (simp add: classified_def)

lemma promote_in_range:
  assumes "unat sid < length (symbols t)"
  shows "promote_to_flat_lookup sid nm w t = Ok (push_transition sid KUndefined KDylibImport CReplaced
    (t\<lparr>symbols := (symbols t)[unat sid := DylibImport nm DYLIB_INVALID FLAT_LOOKUP_ORDINAL w]\<rparr>))"
  using assms by (simp add: promote_to_flat_lookup_def set_sym_def)

lemma classify_promotes:
  assumes "tm \<noteq> TreatError"
  shows "list_all (\<lambda>u. unat (fst u) < length (symbols t)) us \<Longrightarrow>
    \<exists>t'. seed_each (classify_one tm) us (t, r) = (Ok (t', classified tm us r) :: ('e, _) result)
      \<and> symbols t' = foldl (\<lambda>ss (sid, nm, w). ss[unat sid := DylibImport nm DYLIB_INVALID FLAT_LOOKUP_ORDINAL w]) (symbols t) us
      \<and> by_name t' = by_name t \<and> interner t' = interner t"
proof (induction us arbitrary: t r)
  case (Cons u us)
  obtain sid nm w where u: "u = (sid, nm, w)" by (cases u)
  obtain t1 where t1: "classify_one tm u (t, r) = (Ok (t1, classified tm [u] r) :: ('e, _) result)"
    "symbols t1 = (symbols t)[unat sid := DylibImport nm DYLIB_INVALID FLAT_LOOKUP_ORDINAL w]" "by_name t1 = by_name t" "interner t1 = interner t"
    using Cons.prems assms u
    by (cases tm; cases r) (simp_all add: classify_one_def promote_in_range push_transition_def classified_def as_unresolved_def Let_def)
  have "list_all (\<lambda>u. unat (fst u) < length (symbols t1)) us" using Cons.prems t1(2) by simp
  from Cons.IH [OF this, of "classified tm [u] r"] obtain t' where
    "seed_each (classify_one tm) us (t1, classified tm [u] r) = (Ok (t', classified tm us (classified tm [u] r)) :: ('e, _) result)"
    "symbols t' = foldl (\<lambda>ss (sid, nm, w). ss[unat sid := DylibImport nm DYLIB_INVALID FLAT_LOOKUP_ORDINAL w]) (symbols t1) us"
    "by_name t' = by_name t1" "interner t' = interner t1" by blast
  moreover have "classified tm us (classified tm [u] r) = classified tm (u # us) r" by (simp add: classified_def)
  ultimately show ?case using t1 u by simp
qed (simp add: classified_def)

lemma undefined_from_Cons:
  "undefined_from n (s # ss) = (case s of Undefined nm _ w \<Rightarrow> [(of_nat n, nm, w)] | _ \<Rightarrow> []) @ undefined_from (Suc n) ss"
  by (simp add: undefined_from_def)

lemma undefined_from_ids:
  "n + length ss \<le> 2 ^ 32 \<Longrightarrow> u \<in> set (undefined_from n ss) \<Longrightarrow> n \<le> unat (fst u) \<and> unat (fst u) < n + length ss"
proof (induction ss arbitrary: n)
  case (Cons s ss)
  show ?case
  proof (cases "u \<in> set (undefined_from (Suc n) ss)")
    case True
    then show ?thesis using Cons.IH [of "Suc n"] Cons.prems by simp
  next
    case False
    then have "u \<in> set (case s of Undefined nm _ w \<Rightarrow> [(of_nat n, nm, w)] | _ \<Rightarrow> [])" using Cons.prems(2) by (simp add: undefined_from_Cons)
    then have "fst u = of_nat n" by (cases s) simp_all
    then show ?thesis using Cons.prems(1) unat_of_nat_u32 [of n] by simp
  qed
qed (simp add: undefined_from_def)

lemma promote_all:
  "length pre + length ss \<le> 2 ^ 32 \<Longrightarrow>
     foldl (\<lambda>ss (sid, nm, w). ss[unat (sid :: symbol_id) := DylibImport nm DYLIB_INVALID FLAT_LOOKUP_ORDINAL w]) (pre @ ss) (undefined_from (length pre) ss)
     = pre @ map promoted ss"
proof (induction ss arbitrary: pre)
  case (Cons s ss)
  have n: "unat (of_nat (length pre) :: u32) = length pre" using Cons.prems by (intro unat_of_nat_u32) simp
  have "foldl (\<lambda>ss (sid, nm, w). ss[unat (sid :: symbol_id) := DylibImport nm DYLIB_INVALID FLAT_LOOKUP_ORDINAL w]) (pre @ s # ss) (undefined_from (length pre) (s # ss))
      = foldl (\<lambda>ss (sid, nm, w). ss[unat (sid :: symbol_id) := DylibImport nm DYLIB_INVALID FLAT_LOOKUP_ORDINAL w]) ((pre @ [promoted s]) @ ss) (undefined_from (length (pre @ [promoted s])) ss)"
    by (cases s) (simp_all add: undefined_from_def promoted_def n)
  then show ?case using Cons.IH [of "pre @ [promoted s]"] Cons.prems by simp
qed (simp add: undefined_from_def)

definition empty_classification :: classification_report where
  "empty_classification = \<lparr>cr_errors = [], cr_warnings = [], cr_suppressed = [], cr_promoted_to_dynamic = [], cr_weak = []\<rparr>"

text \<open>
  C33: Classification always returns. It reports exactly the undefined symbols, once each and in table order,
  in the list its treatment names, the weak ones also as weak. As errors they leave the table as it was;
  under every other treatment each undefined slot, and no other, becomes a flat-lookup import that keeps
  its name and its weakness. A weak reference is treated like any other: it is an error when undefined symbols are.
\<close>

theorem classification_exact:
  assumes "length (symbols t) \<le> 2 ^ 32"
  shows "\<exists>t'. classify_unresolved treatment t = (Ok (t', classified treatment (undefined_symbols t) empty_classification) :: ('e, _) result)
     \<and> symbols t' = (if treatment = TreatError then symbols t else map promoted (symbols t))
     \<and> by_name t' = by_name t \<and> interner t' = interner t"
proof (cases "treatment = TreatError")
  case True
  then show ?thesis using classify_error [of "undefined_symbols t" t empty_classification, where ?'e = 'e]
    by (auto simp: classify_unresolved_def empty_classification_def)
next
  case False
  have "list_all (\<lambda>u. unat (fst u) < length (symbols t)) (undefined_symbols t)"
    using undefined_from_ids [of 0 "symbols t"] assms by (auto simp: list_all_iff undefined_symbols_from)
  from classify_promotes [OF False this, of empty_classification, where ?'e = 'e] promote_all [of "[]" "symbols t"] assms False
  show ?thesis by (simp add: classify_unresolved_def empty_classification_def undefined_symbols_from)
qed

theorem classification_exact_witness:
  "\<exists>t'. classify_unresolved TreatWarning (table_new\<lparr>symbols := [Undefined 5 0 True, LazyArchive 6 0 0]\<rparr>)
       = (Ok (t', classified TreatWarning [(0, 5, True)] empty_classification) :: (unit, _) result)
     \<and> symbols t' = [DylibImport 5 DYLIB_INVALID FLAT_LOOKUP_ORDINAL True, LazyArchive 6 0 0]"
  using classification_exact [of "table_new\<lparr>symbols := [Undefined 5 0 True, LazyArchive 6 0 0]\<rparr>" TreatWarning, where ?'e = unit]
  by (auto simp: undefined_symbols_from undefined_from_def promoted_def)

end
