(* ===== verification/Synth.thy ===== *)
theory Synth
  imports Inputs Live_Graph
begin

text \<open>
  The synthetic sections (\<^verbatim>\<open>src/synth/got.rs\<close>, \<^verbatim>\<open>stubs.rs\<close>, \<^verbatim>\<open>tlv.rs\<close> and the planning of
  \<^verbatim>\<open>src/synth/mod.rs\<close>): the tables of global offsets, stubs, lazy pointers and thread pointers, which
  relocations ask for a slot in them, and the output sections they become.
\<close>

section \<open>Slot tables\<close>

text \<open>The four tables are a vector of entries with an index by symbol.\<close>

record 'e slots =
  sl_entries :: "'e list"
  sl_index :: "symbol_id \<rightharpoonup> nat"

definition slots_new :: "'e slots" where
  "slots_new = \<lparr>sl_entries = [], sl_index = Map.empty\<rparr>"

definition intern_slot :: "('e \<Rightarrow> symbol_id) \<Rightarrow> 'e \<Rightarrow> 'e slots \<Rightarrow> nat \<times> 'e slots" where
  "intern_slot symbol_of e tab =
     (case sl_index tab (symbol_of e) of
        Some i \<Rightarrow> (i, tab)
      | None \<Rightarrow>
          let i = length (sl_entries tab) in
          (i, \<lparr>sl_entries = sl_entries tab @ [e], sl_index = (sl_index tab)(symbol_of e \<mapsto> i)\<rparr>))"

definition get_slot :: "'e slots \<Rightarrow> symbol_id \<Rightarrow> (nat \<times> 'e) option checked" where
  "get_slot tab s =
     (case sl_index tab s of
        None \<Rightarrow> Ok None
      | Some i \<Rightarrow> rbind (index (sl_entries tab) i) (\<lambda>e. Ok (Some (i, e))))"

record got_entry =
  ge_symbol :: symbol_id
  ge_weak_import :: bool

record stub_entry =
  se_symbol :: symbol_id
  se_dylib :: dylib_id
  se_weak_import :: bool

record lazy_pointer_entry =
  le_symbol :: symbol_id
  le_dylib :: dylib_id
  le_weak_import :: bool

record thread_pointer_entry =
  te_symbol :: symbol_id

definition got_intern :: "symbol_id \<Rightarrow> bool \<Rightarrow> got_entry slots \<Rightarrow> nat \<times> got_entry slots" where
  "got_intern s w = intern_slot ge_symbol \<lparr>ge_symbol = s, ge_weak_import = w\<rparr>"

definition stub_intern :: "symbol_id \<Rightarrow> dylib_id \<Rightarrow> bool \<Rightarrow> stub_entry slots \<Rightarrow> nat \<times> stub_entry slots" where
  "stub_intern s d w = intern_slot se_symbol \<lparr>se_symbol = s, se_dylib = d, se_weak_import = w\<rparr>"

definition lazy_intern :: "symbol_id \<Rightarrow> dylib_id \<Rightarrow> bool \<Rightarrow> lazy_pointer_entry slots \<Rightarrow> nat \<times> lazy_pointer_entry slots" where
  "lazy_intern s d w = intern_slot le_symbol \<lparr>le_symbol = s, le_dylib = d, le_weak_import = w\<rparr>"

definition thread_intern :: "symbol_id \<Rightarrow> thread_pointer_entry slots \<Rightarrow> nat \<times> thread_pointer_entry slots" where
  "thread_intern s = intern_slot te_symbol \<lparr>te_symbol = s\<rparr>"

abbreviation (input) S_ATTR_SOME_INSTRUCTIONS :: u32 where "S_ATTR_SOME_INSTRUCTIONS \<equiv> 0x400"
abbreviation (input) STUB_SIZE :: u32 where "STUB_SIZE \<equiv> 12"
abbreviation (input) STUB_HELPER_HEADER_SIZE :: u32 where "STUB_HELPER_HEADER_SIZE \<equiv> 24"
abbreviation (input) STUB_HELPER_ENTRY_SIZE :: u32 where "STUB_HELPER_ENTRY_SIZE \<equiv> 12"
abbreviation (input) DYLD_PRIVATE_SIZE :: u32 where "DYLD_PRIVATE_SIZE \<equiv> 8"
abbreviation (input) THREAD_POINTER_SIZE :: u32 where "THREAD_POINTER_SIZE \<equiv> 8"
abbreviation (input) COMPACT_UNWIND_PERSONALITY_FIELD_OFFSET :: u32 where "COMPACT_UNWIND_PERSONALITY_FIELD_OFFSET \<equiv> 16"

section \<open>Plans\<close>

record direct_bind =
  db_atom :: atom_id
  db_atom_offset :: u32
  db_symbol :: symbol_id
  db_addend :: i64

record synthetic_plan =
  sp_got :: "got_entry slots"
  sp_stubs :: "stub_entry slots"
  sp_lazy_pointers :: "lazy_pointer_entry slots"
  sp_thread_pointers :: "thread_pointer_entry slots"
  sp_direct_binds :: "direct_bind list"
  sp_binder_symbol :: "symbol_id option"
  sp_tlv_bootstrap_symbol :: "symbol_id option"
  sp_needs_dyld_private :: bool

datatype synth_detail =
    MissingParsedObject
  | LandsBeforeAtom
  | OffsetOverflows
  | SlotPastContents
  | NeedsLibSystem
  | UnsupportedKind str symbol_kind_tag
  | InsertRefused insert_error
  | BadRelocs read_error

record synth_error =
  sy_input :: str
  sy_atom :: atom_id
  sy_reloc_offset :: u32
  sy_kind :: reloc_kind
  sy_detail :: synth_detail

type_synonym 'a synth = "(synth_error, 'a) result"

section \<open>Relocations of an atom\<close>

type_synonym parsed_reloc_cache = "(input_id \<times> u8) \<rightharpoonup> reloc list"

definition section_relocs_for_plan :: "str \<Rightarrow> input_section \<Rightarrow> reloc list synth" where
  "section_relocs_for_plan path sect =
     (if is_nreloc sect = 0 then Ok []
      else
        rmap_err (\<lambda>e. \<lparr>sy_input = path, sy_atom = 0, sy_reloc_offset = 0, sy_kind = Unsigned, sy_detail = BadRelocs e\<rparr>)
          (rbind (parse_raw_relocs (is_raw_relocs sect) 0 (is_nreloc sect)) parse_relocs))"

definition build_synthetic_reloc_cache :: "layout_input list \<Rightarrow> parsed_reloc_cache synth" where
  "build_synthetic_reloc_cache inputs =
     rbind (mapM (\<lambda>inp. mapM (\<lambda>(i, sect).
         rbind (section_relocs_for_plan (ob_path (li_object inp)) sect) (\<lambda>rs. Ok ((li_id inp, of_nat (i + 1)), rs)))
       (enumerate 0 (ob_sections (li_object inp)))) inputs) (\<lambda>es.
     Ok (map_of (rev (concat es))))"

definition symbol_refs :: "reloc \<Rightarrow> u32 set" where
  "symbol_refs r =
     (case rel_referent r of Symbol i \<Rightarrow> {i} | Section _ \<Rightarrow> {})
     \<union> (case rel_subtrahend r of Some (Symbol i) \<Rightarrow> {i} | _ \<Rightarrow> {})"

text \<open>The symbols of an object that its relocations refer to; a section number has eight bits.\<close>

definition referenced_symbols :: "parsed_reloc_cache \<Rightarrow> input_id \<Rightarrow> u32 set" where
  "referenced_symbols cache inp =
     (\<Union>n \<in> set [0..<256]. case cache (inp, of_nat n) of None \<Rightarrow> {} | Some rs \<Rightarrow> \<Union> (symbol_refs ` set rs))"

definition indexed_symbol :: "layout_input \<Rightarrow> symbol_table \<Rightarrow> u32 set \<Rightarrow> nat \<Rightarrow> raw_nlist \<Rightarrow> symbol_id option synth" where
  "indexed_symbol inp t refs i s =
     (if i \<notin> unat ` refs then Ok None
      else
        case Object_File.symbol_name (li_object inp) s of
          Ok nm \<Rightarrow> Ok (lookup_resolved_str t nm)
        | Err _ \<Rightarrow> Ok None
        | Panic \<Rightarrow> Panic)"

definition build_input_symbol_index ::
  "layout_input list \<Rightarrow> symbol_table \<Rightarrow> parsed_reloc_cache \<Rightarrow> (input_id \<rightharpoonup> symbol_id option list) synth" where
  "build_input_symbol_index inputs t cache =
     rbind (mapM (\<lambda>inp.
       rbind (mapM (\<lambda>(i, s). indexed_symbol inp t (referenced_symbols cache (li_id inp)) i s) (enumerate 0 (ob_symbols (li_object inp)))) (\<lambda>xs.
       Ok (li_id inp, xs))) inputs) (\<lambda>es.
     Ok (map_of (rev es)))"

definition build_sorted_reloc_index :: "parsed_reloc_cache \<Rightarrow> parsed_reloc_cache" where
  "build_sorted_reloc_index cache =
     (\<lambda>k. case cache k of None \<Rightarrow> None | Some rs \<Rightarrow> if rs = [] then None else Some (sort_key rel_offset rs))"

definition width_for_planning :: "reloc \<Rightarrow> u32" where
  "width_for_planning r = (if rel_kind r = Subtractor then 8 else of_nat (byte_width (rel_length r)))"

text \<open>The relocations that start inside the atom; whether one ends inside it is tested when it is reached.\<close>

definition relocs_starting_in :: "reloc list \<Rightarrow> u32 \<Rightarrow> u32 \<Rightarrow> reloc list synth" where
  "relocs_starting_in rs st fin =
     slice (partition_point (\<lambda>r. rel_offset r < st) rs) (partition_point (\<lambda>r. rel_offset r < fin) rs) rs"

section \<open>Referents\<close>

fun find_symbol_named :: "symbol_table \<Rightarrow> str \<Rightarrow> (symbol_id \<times> symbol) list \<Rightarrow> symbol_id option synth" where
  "find_symbol_named t nm [] = Ok None"
| "find_symbol_named t nm ((sid, s) # xs) =
     rbind (interner_resolve (interner t) (sym_name s)) (\<lambda>n. if n = nm then Ok (Some sid) else find_symbol_named t nm xs)"

definition symbol_referent_id :: "object_file \<Rightarrow> referent \<Rightarrow> symbol_table \<Rightarrow> symbol_id option list option \<Rightarrow> symbol_id option synth" where
  "symbol_referent_id obj ref t input_symbols =
     (case ref of
        Section _ \<Rightarrow> Ok None
      | Symbol i \<Rightarrow>
          (case input_symbols of
             Some xs \<Rightarrow> Ok (if unat i < length xs then xs ! unat i else None)
           | None \<Rightarrow>
               (case lookup_nth (ob_symbols obj) (unat i) of
                  None \<Rightarrow> Ok None
                | Some s \<Rightarrow>
                    (case Object_File.symbol_name obj s of
                       Ok nm \<Rightarrow> find_symbol_named t nm (symbols_iter t)
                     | Err _ \<Rightarrow> Ok None
                     | Panic \<Rightarrow> Panic))))"

definition is_import :: "symbol \<Rightarrow> bool" where
  "is_import s = (case s of DylibImport _ _ _ _ \<Rightarrow> True | _ \<Rightarrow> False)"

definition dylib_import_referent :: "object_file \<Rightarrow> referent \<Rightarrow> symbol_table \<Rightarrow> symbol_id option list option \<Rightarrow> symbol_id option synth" where
  "dylib_import_referent obj ref t input_symbols =
     rbind (symbol_referent_id obj ref t input_symbols) (\<lambda>x.
     case x of
       None \<Rightarrow> Ok None
     | Some sid \<Rightarrow> rbind (get_sym t sid) (\<lambda>s. Ok (if is_import s then Some sid else None)))"

definition dylib_import_is_weak :: "symbol_table \<Rightarrow> symbol_id \<Rightarrow> bool synth" where
  "dylib_import_is_weak t sid = rbind (get_sym t sid) (\<lambda>s. Ok (case s of DylibImport _ _ _ w \<Rightarrow> w | _ \<Rightarrow> False))"

definition got_page_symbol_needs_slot :: "symbol_table \<Rightarrow> symbol_id \<Rightarrow> bool synth" where
  "got_page_symbol_needs_slot t sid =
     rbind (get_sym t sid) (\<lambda>s. Ok (case s of DylibImport _ _ _ _ \<Rightarrow> True | Absolute _ _ _ _ _ _ \<Rightarrow> True | _ \<Rightarrow> False))"

definition plan_bind_supported :: "reloc \<Rightarrow> bool" where
  "plan_bind_supported r \<longleftrightarrow> rel_length r = Quad \<and> \<not> rel_pcrel r \<and> rel_subtrahend r = None"

definition direct_import_bind_addend :: "atom \<Rightarrow> object_file \<Rightarrow> u32 \<Rightarrow> reloc \<Rightarrow> i64 synth" where
  "direct_import_bind_addend a obj atom_offset r =
     (let bad = (\<lambda>d. \<lparr>sy_input = ob_path obj, sy_atom = at_id a, sy_reloc_offset = atom_offset, sy_kind = rel_kind r, sy_detail = d\<rparr>) in
      rbind (ok_or (bad OffsetOverflows) (checked_add (unat atom_offset) 8)) (\<lambda>fin.
      if fin \<le> length (at_data a) then
        rbind (slice (unat atom_offset) fin (at_data a)) (\<lambda>b. Ok (rel_addend r + from_le b))
      else Err (bad SlotPastContents)))"

section \<open>Planning\<close>

record planning =
  pl_got :: "got_entry slots"
  pl_stubs :: "stub_entry slots"
  pl_lazy_pointers :: "lazy_pointer_entry slots"
  pl_direct_binds :: "direct_bind list"

definition planning_new :: planning where
  "planning_new = \<lparr>pl_got = slots_new, pl_stubs = slots_new, pl_lazy_pointers = slots_new, pl_direct_binds = []\<rparr>"

definition want_got :: "symbol_table \<Rightarrow> symbol_id \<Rightarrow> planning \<Rightarrow> planning synth" where
  "want_got t sid p = rbind (dylib_import_is_weak t sid) (\<lambda>w. Ok (p\<lparr>pl_got := snd (got_intern sid w (pl_got p))\<rparr>))"

definition want_stub :: "symbol_table \<Rightarrow> symbol_id \<Rightarrow> planning \<Rightarrow> planning synth" where
  "want_stub t sid p =
     rbind (get_sym t sid) (\<lambda>s.
     case s of
       DylibImport _ d _ w \<Rightarrow>
         Ok (p\<lparr>pl_stubs := snd (stub_intern sid d w (pl_stubs p)), pl_lazy_pointers := snd (lazy_intern sid d w (pl_lazy_pointers p))\<rparr>)
     | _ \<Rightarrow> Ok p)"

definition want_direct_bind :: "atom_id \<Rightarrow> atom \<Rightarrow> object_file \<Rightarrow> reloc \<Rightarrow> symbol_id \<Rightarrow> planning \<Rightarrow> planning synth" where
  "want_direct_bind aid a obj r sid p =
     (if \<not> plan_bind_supported r then Ok p
      else if rel_offset r < at_input_offset a then
        Err \<lparr>sy_input = ob_path obj, sy_atom = aid, sy_reloc_offset = rel_offset r, sy_kind = rel_kind r, sy_detail = LandsBeforeAtom\<rparr>
      else
        rbind (direct_import_bind_addend a obj (rel_offset r - at_input_offset a) r) (\<lambda>addend.
        Ok (p\<lparr>pl_direct_binds := pl_direct_binds p @
          [\<lparr>db_atom = aid, db_atom_offset = rel_offset r - at_input_offset a, db_symbol = sid, db_addend = addend\<rparr>]\<rparr>)))"

definition on_symbol :: "symbol_id option synth \<Rightarrow> (symbol_id \<Rightarrow> planning \<Rightarrow> planning synth) \<Rightarrow> planning \<Rightarrow> planning synth" where
  "on_symbol m f p = rbind m (\<lambda>x. case x of None \<Rightarrow> Ok p | Some sid \<Rightarrow> f sid p)"

definition plan_by_kind ::
  "atom_id \<Rightarrow> atom \<Rightarrow> object_file \<Rightarrow> symbol_table \<Rightarrow> symbol_id option list option \<Rightarrow> reloc \<Rightarrow> planning \<Rightarrow> planning synth" where
  "plan_by_kind aid a obj t input_symbols r p =
     (let sym_ref = symbol_referent_id obj (rel_referent r) t input_symbols;
          import_ref = dylib_import_referent obj (rel_referent r) t input_symbols in
      case rel_kind r of
        Unsigned \<Rightarrow>
          if at_section a = AThreadLocalVariables then Ok p else on_symbol import_ref (want_direct_bind aid a obj r) p
      | PointerToGot \<Rightarrow>
          on_symbol sym_ref (\<lambda>sid p. rbind (get_sym t sid) (\<lambda>s.
            if (case s of LazyArchive _ _ _ \<Rightarrow> False | _ \<Rightarrow> True) then want_got t sid p else Ok p)) p
      | GotLoadPage21 \<Rightarrow>
          on_symbol sym_ref (\<lambda>sid p. rbind (got_page_symbol_needs_slot t sid) (\<lambda>n. if n then want_got t sid p else Ok p)) p
      | GotLoadPageOff12 \<Rightarrow>
          on_symbol sym_ref (\<lambda>sid p. rbind (got_page_symbol_needs_slot t sid) (\<lambda>n. if n then want_got t sid p else Ok p)) p
      | Branch26 \<Rightarrow> on_symbol import_ref (want_stub t) p
      | TlvpLoadPage21 \<Rightarrow>
          on_symbol sym_ref (\<lambda>sid p. rbind (get_sym t sid) (\<lambda>s. if is_import s then want_got t sid p else Ok p)) p
      | TlvpLoadPageOff12 \<Rightarrow>
          on_symbol sym_ref (\<lambda>sid p. rbind (get_sym t sid) (\<lambda>s. if is_import s then want_got t sid p else Ok p)) p
      | _ \<Rightarrow> Ok p)"

definition plan_reloc ::
  "atom_id \<Rightarrow> atom \<Rightarrow> object_file \<Rightarrow> symbol_table \<Rightarrow> symbol_id option list option \<Rightarrow> reloc \<Rightarrow> planning \<Rightarrow> planning synth" where
  "plan_reloc aid a obj t input_symbols r p =
     rbind (if at_section a = ACompactUnwind \<and> rel_kind r = Unsigned
            then rbind (add32 (at_input_offset a) COMPACT_UNWIND_PERSONALITY_FIELD_OFFSET) (\<lambda>f. Ok (rel_offset r = f))
            else Ok False) (\<lambda>personality.
     if personality then on_symbol (dylib_import_referent obj (rel_referent r) t input_symbols) (want_got t) p
     else plan_by_kind aid a obj t input_symbols r p)"

definition plan_atom ::
  "layout_input list \<Rightarrow> symbol_table \<Rightarrow> (input_id \<rightharpoonup> symbol_id option list) \<Rightarrow> parsed_reloc_cache \<Rightarrow> atom_id set option
    \<Rightarrow> atom_id \<times> atom \<Rightarrow> planning \<Rightarrow> planning synth" where
  "plan_atom inputs t symbol_index reloc_index live x p =
     (case x of (aid, a) \<Rightarrow>
      if (case live of Some l \<Rightarrow> aid \<notin> l | None \<Rightarrow> False) then Ok p
      else
        rbind (ok_or \<lparr>sy_input = bstr ''<missing object>'', sy_atom = aid, sy_reloc_offset = 0, sy_kind = Unsigned, sy_detail = MissingParsedObject\<rparr>
                 (input_map inputs (at_origin a))) (\<lambda>inp.
        let rs = (case reloc_index (at_origin a, at_input_section a) of Some rs \<Rightarrow> rs | None \<Rightarrow> []) in
        rbind (add32 (at_input_offset a) (at_size a)) (\<lambda>fin.
        rbind (relocs_starting_in rs (at_input_offset a) fin) (\<lambda>rs.
        seed_each (\<lambda>r p.
          rbind (add32 (rel_offset r) (width_for_planning r)) (\<lambda>e.
          if e \<le> fin then plan_reloc aid a (li_object inp) t (symbol_index (at_origin a)) r p else Ok p)) rs p))))"

section \<open>Order and support symbols\<close>

definition slot_name :: "symbol_table \<Rightarrow> symbol_id \<Rightarrow> str synth" where
  "slot_name t sid = rbind (get_sym t sid) (\<lambda>s. interner_resolve (interner t) (sym_name s))"

text \<open>Names are looked up by the comparison, so a table of one entry looks up none.\<close>

definition sort_symbol_indexed_entries :: "('e \<Rightarrow> symbol_id) \<Rightarrow> symbol_table \<Rightarrow> 'e slots \<Rightarrow> 'e slots synth" where
  "sort_symbol_indexed_entries symbol_of t tab =
     rbind (if length (sl_entries tab) < 2 then Ok (sl_entries tab)
            else
              rbind (mapM (\<lambda>e. rbind (slot_name t (symbol_of e)) (\<lambda>n. Ok (n, e))) (sl_entries tab)) (\<lambda>nes.
              Ok (map snd (sort_by (\<lambda>a b. cmp_bytes (fst a) (fst b)) nes)))) (\<lambda>es.
     Ok \<lparr>sl_entries = es, sl_index = foldl (\<lambda>m (i, e). m(symbol_of e \<mapsto> i)) Map.empty (enumerate 0 es)\<rparr>)"

definition contains_str :: "str \<Rightarrow> str \<Rightarrow> bool" where
  "contains_str s pat = list_ex (\<lambda>i. take (length pat) (drop i s) = pat) [0..<length s + 1]"

definition find_libsystem_input :: "dylib_input list \<Rightarrow> (nat \<times> dylib_input) option" where
  "find_libsystem_input dylibs =
     (case List.find (\<lambda>(i, d). di_load_install_name d = bstr ''/usr/lib/libSystem.B.dylib'') (enumerate 0 dylibs) of
        Some x \<Rightarrow> Some x
      | None \<Rightarrow>
          (case List.find (\<lambda>(i, d). contains_str (di_load_install_name d) (bstr ''libSystem'')) (enumerate 0 dylibs) of
             Some x \<Rightarrow> Some x
           | None \<Rightarrow> List.find (\<lambda>(i, d). contains_str (from_utf8_lossy (di_path d)) (bstr ''libSystem.tbd'')) (enumerate 0 dylibs)))"

definition outcome_id :: "insert_outcome \<Rightarrow> symbol_id" where
  "outcome_id out =
     (case out of Inserted i \<Rightarrow> i | Kept i \<Rightarrow> i | PendingArchiveFetch i _ _ \<Rightarrow> i | PendingObjectLoad i _ \<Rightarrow> i
      | CommonCoalesced i \<Rightarrow> i | Replaced i _ _ \<Rightarrow> i)"

text \<open>The common part of the two support passes: the import named \<open>nm\<close> of the system library.\<close>

definition support_symbol ::
  "str \<Rightarrow> reloc_kind \<Rightarrow> str \<Rightarrow> nat \<times> dylib_input \<Rightarrow> symbol_table \<Rightarrow> (symbol_id \<times> symbol_table) synth" where
  "support_symbol context kind nm lib t0 =
     (let bad = (\<lambda>d. \<lparr>sy_input = context, sy_atom = 0, sy_reloc_offset = 0, sy_kind = kind, sy_detail = d\<rparr>);
          (n, t) = table_intern nm t0 in
      case lookup t n of
        Some sid \<Rightarrow>
          rbind (get_sym t sid) (\<lambda>s. if is_import s then Ok (sid, t) else Err (bad (UnsupportedKind nm (Symbol_Table.sym_kind s))))
      | None \<Rightarrow>
          rbind (rmap_err (\<lambda>e. bad (InsertRefused e)) (insert_sym (DylibImport n (of_nat (fst lib)) (di_ordinal (snd lib)) False) t)) (\<lambda>(out, t).
          Ok (outcome_id out, t)))"

definition ensure_stub_helper_support ::
  "symbol_table \<Rightarrow> dylib_input list \<Rightarrow> got_entry slots \<Rightarrow> (symbol_id \<times> symbol_table \<times> got_entry slots) synth" where
  "ensure_stub_helper_support t dylibs gt =
     rbind (ok_or \<lparr>sy_input = bstr ''<synthetic stubs>'', sy_atom = 0, sy_reloc_offset = 0, sy_kind = Branch26, sy_detail = NeedsLibSystem\<rparr>
              (find_libsystem_input dylibs)) (\<lambda>lib.
     rbind (support_symbol (bstr ''<synthetic stubs>'') Branch26 (bstr ''dyld_stub_binder'') lib t) (\<lambda>(sid, t).
     Ok (sid, t, snd (got_intern sid False gt))))"

definition ensure_tlv_support :: "symbol_table \<Rightarrow> dylib_input list \<Rightarrow> (symbol_id option \<times> symbol_table) synth" where
  "ensure_tlv_support t dylibs =
     (case find_libsystem_input dylibs of
        None \<Rightarrow> Ok (None, t)
      | Some lib \<Rightarrow>
          rbind (support_symbol (bstr ''<synthetic tlv>'') TlvpLoadPage21 (bstr ''__tlv_bootstrap'') lib t) (\<lambda>(sid, t).
          Ok (Some sid, t)))"

definition inputs_have_tlv_descriptors :: "layout_input list \<Rightarrow> bool" where
  "inputs_have_tlv_descriptors inputs =
     list_ex (\<lambda>inp. list_ex (\<lambda>s. is_kind s = KThreadLocalVariables) (ob_sections (li_object inp))) inputs"

definition build_filtered_with_relocs ::
  "layout_input list \<Rightarrow> atom_table \<Rightarrow> symbol_table \<Rightarrow> dylib_input list \<Rightarrow> atom_id set option \<Rightarrow> parsed_reloc_cache
    \<Rightarrow> (synthetic_plan \<times> symbol_table) synth" where
  "build_filtered_with_relocs inputs tb t dylibs live cache =
     rbind (build_input_symbol_index inputs t cache) (\<lambda>symbol_index.
     rbind (seed_each (plan_atom inputs t symbol_index (build_sorted_reloc_index cache) live) (atoms_iter tb) planning_new) (\<lambda>p.
     rbind (sort_symbol_indexed_entries ge_symbol t (pl_got p)) (\<lambda>gt.
     rbind (sort_symbol_indexed_entries se_symbol t (pl_stubs p)) (\<lambda>stubs.
     rbind (sort_symbol_indexed_entries le_symbol t (pl_lazy_pointers p)) (\<lambda>lazies.
     rbind (if sl_entries stubs \<noteq> []
            then rbind (ensure_stub_helper_support t dylibs gt) (\<lambda>(b, t, gt). Ok (Some b, t, gt))
            else Ok (None, t, gt)) (\<lambda>(binder, t, gt).
     rbind (if inputs_have_tlv_descriptors inputs then ensure_tlv_support t dylibs else Ok (None, t)) (\<lambda>(boot, t).
     Ok (\<lparr>sp_got = gt, sp_stubs = stubs, sp_lazy_pointers = lazies, sp_thread_pointers = slots_new,
          sp_direct_binds = pl_direct_binds p, sp_binder_symbol = binder, sp_tlv_bootstrap_symbol = boot,
          sp_needs_dyld_private = (sl_entries stubs \<noteq> [])\<rparr>, t))))))))"

definition build_filtered ::
  "layout_input list \<Rightarrow> atom_table \<Rightarrow> symbol_table \<Rightarrow> dylib_input list \<Rightarrow> atom_id set option \<Rightarrow> (synthetic_plan \<times> symbol_table) synth" where
  "build_filtered inputs tb t dylibs live =
     rbind (build_synthetic_reloc_cache inputs) (build_filtered_with_relocs inputs tb t dylibs live)"

definition build_plan ::
  "layout_input list \<Rightarrow> atom_table \<Rightarrow> symbol_table \<Rightarrow> dylib_input list \<Rightarrow> (synthetic_plan \<times> symbol_table) synth" where
  "build_plan inputs tb t dylibs = build_filtered inputs tb t dylibs None"

section \<open>Output sections\<close>

definition plan_section ::
  "str \<Rightarrow> str \<Rightarrow> section_kind \<Rightarrow> u8 \<Rightarrow> u32 \<Rightarrow> u32 \<Rightarrow> nat \<Rightarrow> output_section" where
  "plan_section seg nm kind align flags reserved2 n =
     \<lparr>os_segment = seg, os_name = nm, os_kind = kind, os_align_pow2 = align, os_flags = flags, os_reserved1 = 0,
      os_reserved2 = reserved2, os_reserved3 = 0, os_atoms = [], os_synthetic_offset = 0,
      os_synthetic_data = replicate n 0, os_addr = 0, os_size = of_nat n, os_file_off = 0\<rparr>"

definition plan_output_sections :: "synthetic_plan \<Rightarrow> output_section list" where
  "plan_output_sections plan =
     (let code = S_ATTR_PURE_INSTRUCTIONS OR S_ATTR_SOME_INSTRUCTIONS;
          stubs = length (sl_entries (sp_stubs plan)); lazies = length (sl_entries (sp_lazy_pointers plan));
          gots = length (sl_entries (sp_got plan)); threads = length (sl_entries (sp_thread_pointers plan)) in
      (if stubs \<noteq> 0 then [plan_section (bstr ''__TEXT'') (bstr ''__stubs'') KSymbolStubs 2 (S_SYMBOL_STUBS OR code) STUB_SIZE
         (stubs * unat STUB_SIZE)] else [])
      @ (if sp_binder_symbol plan \<noteq> None then [plan_section (bstr ''__TEXT'') (bstr ''__stub_helper'') KText 2 (S_REGULAR OR code) 0
         (unat STUB_HELPER_HEADER_SIZE + lazies * unat STUB_HELPER_ENTRY_SIZE)] else [])
      @ (if gots \<noteq> 0 then [plan_section (bstr ''__DATA_CONST'') (bstr ''__got'') KNonLazySymbolPointers 3 S_NON_LAZY_SYMBOL_POINTERS 0 (gots * 8)] else [])
      @ (if sp_needs_dyld_private plan then [plan_section (bstr ''__DATA'') (bstr ''__data'') KData 3 S_REGULAR 0 (unat DYLD_PRIVATE_SIZE)] else [])
      @ (if lazies \<noteq> 0 then [plan_section (bstr ''__DATA'') (bstr ''__la_symbol_ptr'') KLazySymbolPointers 3 S_LAZY_SYMBOL_POINTERS 0 (lazies * 8)] else [])
      @ (if threads \<noteq> 0 then [plan_section (bstr ''__DATA'') (bstr ''__thread_ptrs'') KThreadLocalVariablePointers 3
           S_THREAD_LOCAL_VARIABLE_POINTERS 0 (threads * unat THREAD_POINTER_SIZE)] else []))"

end
