(* ===== verification/Synth_Sound.thy ===== *)
theory Synth_Sound
  imports Synth
begin

text \<open>
  The slot tables keep their contract, and a plan holds exactly the slots that the relocations of the live
  atoms ask for, with the stubs and the lazy pointers in step.
\<close>

section \<open>The contract of a slot table\<close>

locale slot_table =
  fixes intern_entry :: "'e \<Rightarrow> 's \<Rightarrow> nat \<times> 's"
    and find_slot :: "'s \<Rightarrow> symbol_id \<Rightarrow> (nat \<times> 'e) option checked"
    and symbol_of :: "'e \<Rightarrow> symbol_id"
    and valid :: "'s \<Rightarrow> bool"
  assumes intern_valid: "valid s \<Longrightarrow> valid (snd (intern_entry e s))"
    and find_no_panic: "valid s \<Longrightarrow> find_slot s x \<noteq> Panic"
    and find_sound: "valid s \<Longrightarrow> find_slot s x = Ok (Some (i, e)) \<Longrightarrow> symbol_of e = x"
    and find_new: "valid s \<Longrightarrow> find_slot s (symbol_of e) = Ok None \<Longrightarrow>
      find_slot (snd (intern_entry e s)) (symbol_of e) = Ok (Some (fst (intern_entry e s), e))"
    and find_old: "valid s \<Longrightarrow> find_slot s (symbol_of e) = Ok (Some (i, e')) \<Longrightarrow> intern_entry e s = (i, s)"
    and find_other: "valid s \<Longrightarrow> x \<noteq> symbol_of e \<Longrightarrow> find_slot (snd (intern_entry e s)) x = find_slot s x"
begin

text \<open>A slot once assigned is never moved.\<close>

lemma slot_persists:
  assumes "valid s" and "find_slot s x = Ok (Some (i, e))"
  shows "find_slot (snd (intern_entry e' s)) x = Ok (Some (i, e))"
proof (cases "x = symbol_of e'")
  case True
  then show ?thesis using find_old [OF assms(1), of e'] assms(2) by simp
qed (use find_other [OF assms(1)] assms(2) in simp)

lemma interned_found:
  assumes "valid s" and "\<forall>err. find_slot s (symbol_of e) \<noteq> Err err"
  shows "\<exists>e'. find_slot (snd (intern_entry e s)) (symbol_of e) = Ok (Some (fst (intern_entry e s), e'))"
proof (cases "find_slot s (symbol_of e)")
  case (Ok r)
  then show ?thesis
  proof (cases r)
    case (Some ie)
    then show ?thesis using Ok find_old [OF assms(1), of e "fst ie" "snd ie"] by (cases ie) auto
  qed (use Ok find_new [OF assms(1), of e] in auto)
qed (use assms find_no_panic [OF assms(1)] in auto)

end

definition wf_slots :: "('e \<Rightarrow> symbol_id) \<Rightarrow> 'e slots \<Rightarrow> bool" where
  "wf_slots symbol_of tab \<longleftrightarrow>
     (\<forall>s i. sl_index tab s = Some i \<longleftrightarrow> i < length (sl_entries tab) \<and> symbol_of (sl_entries tab ! i) = s)"

lemma wf_slots_distinct:
  assumes "wf_slots symbol_of tab"
  shows "distinct (map symbol_of (sl_entries tab))"
proof -
  have "i = j" if "i < length (sl_entries tab)" "j < length (sl_entries tab)" "symbol_of (sl_entries tab ! i) = symbol_of (sl_entries tab ! j)" for i j
    using assms that unfolding wf_slots_def by (metis option.inject)
  then show ?thesis by (auto simp: distinct_conv_nth)
qed

lemma wf_slots_dom: "wf_slots symbol_of tab \<Longrightarrow> dom (sl_index tab) = symbol_of ` set (sl_entries tab)"
  by (auto simp: wf_slots_def dom_def image_iff in_set_conv_nth intro!: bexI [OF _ nth_mem])

lemma wf_slots_new: "wf_slots symbol_of slots_new"
  by (simp add: wf_slots_def slots_new_def)

lemma intern_slot_wf:
  assumes "wf_slots symbol_of tab"
  shows "wf_slots symbol_of (snd (intern_slot symbol_of e tab))"
proof (cases "sl_index tab (symbol_of e)")
  case None
  then have "symbol_of (sl_entries tab ! i) \<noteq> symbol_of e" if "i < length (sl_entries tab)" for i
    using assms that unfolding wf_slots_def by (metis option.distinct(1))
  then show ?thesis using assms None
    by (auto simp: wf_slots_def intern_slot_def Let_def nth_append less_Suc_eq)
qed (use assms in \<open>simp add: intern_slot_def\<close>)

lemma get_slot_wf:
  assumes "wf_slots symbol_of tab"
  shows "get_slot tab x = Ok (map_option (\<lambda>i. (i, sl_entries tab ! i)) (sl_index tab x))"
proof (cases "sl_index tab x")
  case (Some i)
  then have "i < length (sl_entries tab)" using assms by (simp add: wf_slots_def)
  then show ?thesis using Some by (simp add: get_slot_def)
qed (simp add: get_slot_def)

lemma slot_table_contract: "slot_table (intern_slot symbol_of) get_slot symbol_of (wf_slots symbol_of)"
proof
  fix s :: "'a slots" and e x i e'
  assume wf: "wf_slots symbol_of s"
  note wf' = intern_slot_wf [OF wf, of e]
  show "wf_slots symbol_of (snd (intern_slot symbol_of e s))" by (rule wf')
  show "get_slot s x \<noteq> Panic" using get_slot_wf [OF wf] by simp
  show "symbol_of e' = x" if "get_slot s x = Ok (Some (i, e'))"
    using that get_slot_wf [OF wf] wf by (auto simp: wf_slots_def)
  show "intern_slot symbol_of e s = (i, s)" if "get_slot s (symbol_of e) = Ok (Some (i, e'))"
    using that get_slot_wf [OF wf] by (auto simp: intern_slot_def)
  show "get_slot (snd (intern_slot symbol_of e s)) (symbol_of e) = Ok (Some (fst (intern_slot symbol_of e s), e))"
    if "get_slot s (symbol_of e) = Ok None"
    using that get_slot_wf [OF wf] get_slot_wf [OF wf'] by (auto simp: intern_slot_def Let_def)
  show "get_slot (snd (intern_slot symbol_of e s)) x = get_slot s x" if "x \<noteq> symbol_of e"
  proof (cases "sl_index s (symbol_of e)")
    case None
    have "sl_index (snd (intern_slot symbol_of e s)) x = sl_index s x" using None that by (simp add: intern_slot_def Let_def)
    moreover have "sl_entries (snd (intern_slot symbol_of e s)) ! j = sl_entries s ! j" if "sl_index s x = Some j" for j
      using that wf None by (auto simp: intern_slot_def Let_def wf_slots_def nth_append)
    ultimately show ?thesis unfolding get_slot_wf [OF wf] get_slot_wf [OF wf'] by (cases "sl_index s x") simp_all
  qed (simp add: intern_slot_def)
qed

interpretation got_table: slot_table "intern_slot ge_symbol" get_slot ge_symbol "wf_slots ge_symbol"
  by (rule slot_table_contract)

interpretation stub_table: slot_table "intern_slot se_symbol" get_slot se_symbol "wf_slots se_symbol"
  by (rule slot_table_contract)

interpretation lazy_table: slot_table "intern_slot le_symbol" get_slot le_symbol "wf_slots le_symbol"
  by (rule slot_table_contract)

interpretation thread_table: slot_table "intern_slot te_symbol" get_slot te_symbol "wf_slots te_symbol"
  by (rule slot_table_contract)

lemma intern_slot_symbols:
  "wf_slots symbol_of tab \<Longrightarrow> symbol_of ` set (sl_entries (snd (intern_slot symbol_of e tab))) = insert (symbol_of e) (symbol_of ` set (sl_entries tab))"
  using wf_slots_dom [of symbol_of tab] by (cases "sl_index tab (symbol_of e)") (auto simp: intern_slot_def Let_def)

section \<open>What a relocation asks for\<close>

definition is_personality :: "atom \<Rightarrow> reloc \<Rightarrow> bool" where
  "is_personality a r \<longleftrightarrow> at_section a = ACompactUnwind \<and> rel_kind r = Unsigned
     \<and> rel_offset r = at_input_offset a + COMPACT_UNWIND_PERSONALITY_FIELD_OFFSET"

definition symbol_at :: "symbol_table \<Rightarrow> symbol_id \<Rightarrow> symbol option" where
  "symbol_at t sid = (if unat sid < length (symbols t) then Some (symbols t ! unat sid) else None)"

text \<open>A branch to an import goes through a stub.\<close>

definition wants_stub :: "symbol_table \<Rightarrow> reloc \<Rightarrow> symbol_id \<Rightarrow> bool" where
  "wants_stub t r sid \<longleftrightarrow> rel_kind r = Branch26 \<and> (\<exists>s. symbol_at t sid = Some s \<and> is_import s)"

definition is_absolute :: "symbol \<Rightarrow> bool" where
  "is_absolute s = (case s of Absolute _ _ _ _ _ _ \<Rightarrow> True | _ \<Rightarrow> False)"

text \<open>
  A load through the table of global offsets needs a slot unless the load can be rewritten, a pointer to a
  slot always does; an imported thread-local variable and an imported personality routine have one.
\<close>

definition wants_got :: "symbol_table \<Rightarrow> atom \<Rightarrow> reloc \<Rightarrow> symbol_id \<Rightarrow> bool" where
  "wants_got t a r sid \<longleftrightarrow> (\<exists>s. symbol_at t sid = Some s \<and>
     (case rel_kind r of
        PointerToGot \<Rightarrow> (case s of LazyArchive _ _ _ \<Rightarrow> False | _ \<Rightarrow> True)
      | GotLoadPage21 \<Rightarrow> is_import s \<or> is_absolute s
      | GotLoadPageOff12 \<Rightarrow> is_import s \<or> is_absolute s
      | TlvpLoadPage21 \<Rightarrow> is_import s
      | TlvpLoadPageOff12 \<Rightarrow> is_import s
      | Unsigned \<Rightarrow> is_personality a r \<and> is_import s
      | _ \<Rightarrow> False))"

section \<open>Effect of a relocation on the tables\<close>

abbreviation got_symbols :: "planning \<Rightarrow> symbol_id set" where
  "got_symbols p \<equiv> ge_symbol ` set (sl_entries (pl_got p))"

abbreviation stub_symbols :: "planning \<Rightarrow> symbol_id set" where
  "stub_symbols p \<equiv> se_symbol ` set (sl_entries (pl_stubs p))"

definition stub_row :: "stub_entry \<Rightarrow> symbol_id \<times> dylib_id \<times> bool" where
  "stub_row e = (se_symbol e, se_dylib e, se_weak_import e)"

definition lazy_row :: "lazy_pointer_entry \<Rightarrow> symbol_id \<times> dylib_id \<times> bool" where
  "lazy_row e = (le_symbol e, le_dylib e, le_weak_import e)"

definition in_step :: "stub_entry slots \<Rightarrow> lazy_pointer_entry slots \<Rightarrow> bool" where
  "in_step st lz \<longleftrightarrow> map stub_row (sl_entries st) = map lazy_row (sl_entries lz) \<and> sl_index st = sl_index lz"

definition planning_ok :: "planning \<Rightarrow> bool" where
  "planning_ok p \<longleftrightarrow> wf_slots ge_symbol (pl_got p) \<and> wf_slots se_symbol (pl_stubs p) \<and> wf_slots le_symbol (pl_lazy_pointers p)
     \<and> in_step (pl_stubs p) (pl_lazy_pointers p)"

lemma planning_ok_new: "planning_ok planning_new"
  by (simp add: planning_ok_def planning_new_def wf_slots_new in_step_def) (simp add: slots_new_def)

definition effect :: "planning \<Rightarrow> symbol_id set \<Rightarrow> symbol_id set \<Rightarrow> planning \<Rightarrow> bool" where
  "effect p gots stubs p' \<longleftrightarrow> (planning_ok p \<longrightarrow>
     planning_ok p' \<and> got_symbols p' = got_symbols p \<union> gots \<and> stub_symbols p' = stub_symbols p \<union> stubs)"

lemma effect_refl [simp]: "effect p {} {} p"
  by (simp add: effect_def)

lemma effect_trans: "effect p g s p1 \<Longrightarrow> effect p1 g' s' p2 \<Longrightarrow> effect p (g \<union> g') (s \<union> s') p2"
  by (auto simp: effect_def)

lemma get_sym_at: "get_sym t sid = Ok s \<longleftrightarrow> symbol_at t sid = Some s"
  by (auto simp: get_sym_def index_def symbol_at_def)

lemma want_got_effect: "want_got t sid p = Ok p' \<Longrightarrow> effect p {sid} {} p'"
  by (auto simp: want_got_def rbind_Ok_iff got_intern_def) (simp add: effect_def planning_ok_def intern_slot_wf intern_slot_symbols)

lemma want_stub_import:
  assumes "want_stub t sid p = Ok p'" and "symbol_at t sid = Some s" and "is_import s"
  shows "effect p {} {sid} p'"
proof -
  obtain n d ord w where s: "s = DylibImport n d ord w" using assms(3) by (cases s) (simp_all add: is_import_def)
  have "get_sym t sid = (Ok s :: symbol synth)" using assms(2) by (simp add: get_sym_at)
  then have p': "p' = p\<lparr>pl_stubs := snd (stub_intern sid d w (pl_stubs p)), pl_lazy_pointers := snd (lazy_intern sid d w (pl_lazy_pointers p))\<rparr>"
    using assms(1) s by (simp add: want_stub_def)
  have "in_step (snd (stub_intern sid d w st)) (snd (lazy_intern sid d w lz))" if "in_step st lz" for st lz
  proof -
    have "length (sl_entries st) = length (sl_entries lz)" using that unfolding in_step_def by (metis length_map)
    then show ?thesis using that
      by (cases "sl_index lz sid") (auto simp: in_step_def stub_intern_def lazy_intern_def intern_slot_def Let_def stub_row_def lazy_row_def)
  qed
  then show ?thesis unfolding p'
    by (simp add: effect_def planning_ok_def stub_intern_def lazy_intern_def intern_slot_wf intern_slot_symbols)
qed

lemma want_direct_bind_effect: "want_direct_bind aid a obj r sid p = Ok p' \<Longrightarrow> effect p {} {} p'"
  by (auto simp: want_direct_bind_def rbind_Ok_iff effect_def planning_ok_def split: if_splits)

lemma effect_cong: "effect p g s p' \<Longrightarrow> g = g' \<Longrightarrow> s = s' \<Longrightarrow> effect p g' s' p'"
  by simp

text \<open>The effect of acting on a referent, from the effect of acting on a symbol.\<close>

lemma on_symbol_effect:
  assumes "on_symbol m f p = Ok p'"
    and "\<And>sid. m = Ok (Some sid) \<Longrightarrow> f sid p = Ok p' \<Longrightarrow> effect p (if G sid then {sid} else {}) (if S sid then {sid} else {}) p'"
  shows "effect p {sid. m = Ok (Some sid) \<and> G sid} {sid. m = Ok (Some sid) \<and> S sid} p'"
proof (cases "\<exists>sid. m = Ok (Some sid)")
  case True
  then obtain sid where m: "m = Ok (Some sid)" by blast
  then have "f sid p = Ok p'" using assms(1) by (simp add: on_symbol_def)
  from assms(2) [OF m this] show ?thesis by (rule effect_cong) (auto simp: m)
next
  case False
  then have "p' = p" using assms(1) by (auto simp: on_symbol_def rbind_Ok_iff split: option.splits)
  moreover have "{sid. m = Ok (Some sid) \<and> G sid} = {}" "{sid. m = Ok (Some sid) \<and> S sid} = {}" using False by auto
  ultimately show ?thesis by (simp only: effect_refl)
qed

lemma dylib_import_Some:
  "dylib_import_referent obj ref t ixs = Ok (Some sid) \<longleftrightarrow>
     symbol_referent_id obj ref t ixs = Ok (Some sid) \<and> (\<exists>s. symbol_at t sid = Some s \<and> is_import s)"
proof (cases "symbol_referent_id obj ref t ixs")
  case (Ok x)
  then show ?thesis
  proof (cases x)
    case (Some y)
    then show ?thesis using Ok
      by (cases "symbol_at t y") (auto simp: dylib_import_referent_def rbind_Ok_iff get_sym_at split: if_splits)
  qed (simp add: dylib_import_referent_def)
qed (simp_all add: dylib_import_referent_def)

lemma import_effect:
  assumes "on_symbol (dylib_import_referent obj ref t ixs) f p = Ok p'"
    and "\<And>sid s. symbol_at t sid = Some s \<Longrightarrow> is_import s \<Longrightarrow> f sid p = Ok p' \<Longrightarrow> effect p (if G then {sid} else {}) (if S then {sid} else {}) p'"
  shows "effect p {sid. symbol_referent_id obj ref t ixs = Ok (Some sid) \<and> G \<and> (\<exists>s. symbol_at t sid = Some s \<and> is_import s)}
    {sid. symbol_referent_id obj ref t ixs = Ok (Some sid) \<and> S \<and> (\<exists>s. symbol_at t sid = Some s \<and> is_import s)} p'"
proof -
  have "effect p {sid. dylib_import_referent obj ref t ixs = Ok (Some sid) \<and> G} {sid. dylib_import_referent obj ref t ixs = Ok (Some sid) \<and> S} p'"
    using assms(1) by (rule on_symbol_effect) (use assms(2) in \<open>auto simp: dylib_import_Some\<close>)
  then show ?thesis by (rule effect_cong) (auto simp: dylib_import_Some)
qed

lemma guarded_got_effect:
  assumes "rbind (get_sym t sid) (\<lambda>s. if P s then want_got t sid p else Ok p) = Ok p'"
  shows "effect p (if \<exists>s. symbol_at t sid = Some s \<and> P s then {sid} else {}) {} p'"
proof -
  obtain s where s: "symbol_at t sid = Some s" "(if P s then want_got t sid p else Ok p) = Ok p'"
    using assms by (auto simp: rbind_Ok_iff get_sym_at)
  then show ?thesis by (auto split: if_splits intro: want_got_effect)
qed

text \<open>The branches of the planner that want a slot, in one form.\<close>

definition got_guard :: "reloc_kind \<Rightarrow> symbol \<Rightarrow> bool" where
  "got_guard k s =
     (case k of
        PointerToGot \<Rightarrow> (case s of LazyArchive _ _ _ \<Rightarrow> False | _ \<Rightarrow> True)
      | GotLoadPage21 \<Rightarrow> is_import s \<or> is_absolute s
      | GotLoadPageOff12 \<Rightarrow> is_import s \<or> is_absolute s
      | TlvpLoadPage21 \<Rightarrow> is_import s
      | TlvpLoadPageOff12 \<Rightarrow> is_import s
      | _ \<Rightarrow> False)"

lemma got_kinds:
  assumes "rel_kind r \<in> {PointerToGot, GotLoadPage21, GotLoadPageOff12, TlvpLoadPage21, TlvpLoadPageOff12}"
  shows "plan_by_kind aid a obj t ixs r p =
    on_symbol (symbol_referent_id obj (rel_referent r) t ixs)
      (\<lambda>sid p. rbind (get_sym t sid) (\<lambda>s. if got_guard (rel_kind r) s then want_got t sid p else Ok p)) p"
proof -
  have page: "rbind (got_page_symbol_needs_slot t sid) (\<lambda>n. if n then want_got t sid p else Ok p)
      = rbind (get_sym t sid) (\<lambda>s. if is_import s \<or> is_absolute s then want_got t sid p else Ok p)" for sid p
  proof (cases "get_sym t sid :: symbol synth")
    case (Ok s)
    then show ?thesis by (cases s) (simp_all add: got_page_symbol_needs_slot_def is_import_def is_absolute_def)
  qed (simp_all add: got_page_symbol_needs_slot_def)
  show ?thesis using assms by (auto simp: plan_by_kind_def Let_def page got_guard_def)
qed

lemma plan_reloc_effect:
  assumes "plan_reloc aid a obj t ixs r p = Ok p'"
  shows "effect p {sid. symbol_referent_id obj (rel_referent r) t ixs = Ok (Some sid) \<and> wants_got t a r sid}
    {sid. symbol_referent_id obj (rel_referent r) t ixs = Ok (Some sid) \<and> wants_stub t r sid} p'"
proof (cases "is_personality a r")
  case True
  then have "on_symbol (dylib_import_referent obj (rel_referent r) t ixs) (want_got t) p = Ok p'"
    using assms by (auto simp: plan_reloc_def is_personality_def add32_def rbind_Ok_iff split: if_splits)
  then have "effect p {sid. symbol_referent_id obj (rel_referent r) t ixs = Ok (Some sid) \<and> True \<and> (\<exists>s. symbol_at t sid = Some s \<and> is_import s)}
    {sid. symbol_referent_id obj (rel_referent r) t ixs = Ok (Some sid) \<and> False \<and> (\<exists>s. symbol_at t sid = Some s \<and> is_import s)} p'"
    by (rule import_effect) (auto intro: want_got_effect)
  moreover have "rel_kind r = Unsigned" using True by (simp add: is_personality_def)
  ultimately show ?thesis using True by (elim effect_cong) (auto simp: wants_got_def wants_stub_def)
next
  case False
  then have b: "plan_by_kind aid a obj t ixs r p = Ok p'"
    using assms by (auto simp: plan_reloc_def is_personality_def add32_def rbind_Ok_iff split: if_splits)
  consider "rel_kind r = Unsigned" | "rel_kind r = Branch26" | "rel_kind r \<in> {PointerToGot, GotLoadPage21, GotLoadPageOff12, TlvpLoadPage21, TlvpLoadPageOff12}"
    | "rel_kind r \<in> {Page21, PageOff12, Subtractor}" by (cases "rel_kind r") auto
  then show ?thesis
  proof cases
    case 1
    have "effect p {} {} p'"
    proof (cases "at_section a = AThreadLocalVariables")
      case False
      then have o: "on_symbol (dylib_import_referent obj (rel_referent r) t ixs) (want_direct_bind aid a obj r) p = Ok p'"
        using b 1 by (simp add: plan_by_kind_def)
      show ?thesis using import_effect [OF o, of False False] want_direct_bind_effect by simp
    qed (use b 1 in \<open>simp add: plan_by_kind_def\<close>)
    then show ?thesis using 1 False by (elim effect_cong) (auto simp: wants_got_def wants_stub_def)
  next
    case 2
    then have o: "on_symbol (dylib_import_referent obj (rel_referent r) t ixs) (want_stub t) p = Ok p'"
      using b by (simp add: plan_by_kind_def)
    have "effect p {sid. symbol_referent_id obj (rel_referent r) t ixs = Ok (Some sid) \<and> False \<and> (\<exists>s. symbol_at t sid = Some s \<and> is_import s)}
        {sid. symbol_referent_id obj (rel_referent r) t ixs = Ok (Some sid) \<and> True \<and> (\<exists>s. symbol_at t sid = Some s \<and> is_import s)} p'"
      using o by (rule import_effect) (use want_stub_import in simp)
    then show ?thesis using 2 by (elim effect_cong) (auto simp: wants_got_def wants_stub_def)
  next
    case 3
    have "effect p {sid. symbol_referent_id obj (rel_referent r) t ixs = Ok (Some sid) \<and> (\<exists>s. symbol_at t sid = Some s \<and> got_guard (rel_kind r) s)}
        {sid. symbol_referent_id obj (rel_referent r) t ixs = Ok (Some sid) \<and> False} p'"
      using b unfolding got_kinds [OF 3] by (rule on_symbol_effect) (use guarded_got_effect in simp)
    then show ?thesis using 3 by (elim effect_cong) (auto simp: wants_got_def wants_stub_def got_guard_def)
  next
    case 4
    then have "effect p {} {} p'" using b by (auto simp: plan_by_kind_def)
    then show ?thesis using 4 by (elim effect_cong) (auto simp: wants_got_def wants_stub_def)
  qed
qed

section \<open>Effect of an atom\<close>

lemma seed_each_effect:
  assumes "\<And>x p p'. x \<in> set xs \<Longrightarrow> f x p = Ok p' \<Longrightarrow> effect p (G x) (S x) p'"
  shows "seed_each f xs p = Ok p' \<Longrightarrow> effect p (\<Union>x\<in>set xs. G x) (\<Union>x\<in>set xs. S x) p'"
  using assms
proof (induction xs arbitrary: p)
  case (Cons x xs)
  then obtain p1 where p1: "f x p = Ok p1" "seed_each f xs p1 = Ok p'" by (auto simp: rbind_Ok_iff)
  have "effect p (G x) (S x) p1" using Cons.prems(2) p1(1) by simp
  moreover have "effect p1 (\<Union>x\<in>set xs. G x) (\<Union>x\<in>set xs. S x) p'" using Cons.IH [OF p1(2)] Cons.prems(2) by simp
  ultimately show ?case by (auto dest: effect_trans)
qed simp

lemma takeWhile_sorted:
  "sorted (map f xs) \<Longrightarrow> takeWhile (\<lambda>x. f x < c) xs = filter (\<lambda>x. f x < c) xs"
  by (induction xs) (auto simp: filter_empty_conv eq_commute [of "[]"] dest: le_less_trans)

lemma dropWhile_sorted:
  "sorted (map f xs) \<Longrightarrow> dropWhile (\<lambda>x. f x < c) xs = filter (\<lambda>x. \<not> f x < c) xs"
  by (induction xs) (auto simp: filter_id_conv intro!: filter_True [symmetric])

lemma slice_sorted:
  assumes "sorted (map f xs)" and "lo \<le> hi"
  shows "slice (partition_point (\<lambda>x. f x < lo) xs) (partition_point (\<lambda>x. f x < hi) xs) xs = Ok (filter (\<lambda>x. lo \<le> f x \<and> f x < hi) xs)"
proof -
  let ?l = "takeWhile (\<lambda>x. f x < lo) xs" and ?h = "takeWhile (\<lambda>x. f x < hi) xs"
  have h: "takeWhile (\<lambda>x. f x < lo) ?h = ?l" using assms(2) by (induction xs) auto
  then have le: "length ?l \<le> length ?h" by (metis length_takeWhile_le)
  have "take (length ?h - length ?l) (drop (length ?l) xs) = drop (length ?l) (take (length ?h) xs)" by (simp add: drop_take)
  also have "\<dots> = drop (length (takeWhile (\<lambda>x. f x < lo) ?h)) ?h" by (simp add: h takeWhile_eq_take [symmetric])
  also have "\<dots> = dropWhile (\<lambda>x. f x < lo) ?h" by (simp add: dropWhile_eq_drop)
  also have "\<dots> = filter (\<lambda>x. \<not> f x < lo) ?h"
  proof -
    have "sorted (map f ?h)" using assms(1) by (metis sorted_append takeWhile_dropWhile_id map_append)
    then show ?thesis by (rule dropWhile_sorted)
  qed
  also have "\<dots> = filter (\<lambda>x. lo \<le> f x \<and> f x < hi) xs" using takeWhile_sorted [OF assms(1), of hi] by (simp add: not_less conj_commute)
  finally show ?thesis using le length_takeWhile_le [of _ xs] by (simp add: slice_def partition_point_def)
qed

text \<open>The relocations that lie inside an atom.\<close>

definition asked :: "parsed_reloc_cache \<Rightarrow> atom \<Rightarrow> reloc \<Rightarrow> bool" where
  "asked cache a r \<longleftrightarrow> (\<exists>rs. cache (at_origin a, at_input_section a) = Some rs \<and> r \<in> set rs)
     \<and> unat (at_input_offset a) \<le> unat (rel_offset r)
     \<and> unat (rel_offset r) + unat (width_for_planning r) \<le> unat (at_input_offset a) + unat (at_size a)"

definition live_in :: "atom_id set option \<Rightarrow> atom_id \<Rightarrow> bool" where
  "live_in live aid \<longleftrightarrow> (case live of Some l \<Rightarrow> aid \<in> l | None \<Rightarrow> True)"

definition atom_requests ::
  "(atom \<Rightarrow> reloc \<Rightarrow> symbol_id \<Rightarrow> bool) \<Rightarrow> layout_input list \<Rightarrow> symbol_table \<Rightarrow> (input_id \<rightharpoonup> symbol_id option list)
    \<Rightarrow> parsed_reloc_cache \<Rightarrow> atom_id set option \<Rightarrow> atom_id \<times> atom \<Rightarrow> symbol_id set" where
  "atom_requests W inputs t ix cache live x =
     {sid. live_in live (fst x) \<and> (\<exists>inp r. input_map inputs (at_origin (snd x)) = Some inp \<and> asked cache (snd x) r
        \<and> symbol_referent_id (li_object inp) (rel_referent r) t (ix (at_origin (snd x))) = Ok (Some sid) \<and> W (snd x) r sid)}"

lemma add32_Ok: "add32 x y = Ok z \<Longrightarrow> unat z = unat x + unat y"
  using add32_cond [of x y] by (auto simp: add32_def unat_word_ariths split: if_splits)

lemma width_pos: "0 < unat (width_for_planning r)"
  by (cases "rel_length r") (simp_all add: width_for_planning_def byte_width_def)

lemma plan_atom_effect:
  assumes "plan_atom inputs t ix (build_sorted_reloc_index cache) live x p = Ok p'"
  shows "effect p (atom_requests (wants_got t) inputs t ix cache live x) (atom_requests (\<lambda>_. wants_stub t) inputs t ix cache live x) p'"
proof -
  obtain aid a where x: "x = (aid, a)" by (cases x)
  show ?thesis
  proof (cases "live_in live aid")
    case False
    then have "p' = p" using assms by (auto simp: plan_atom_def x live_in_def split: option.splits)
    then show ?thesis using False effect_refl [of p] by (simp add: atom_requests_def x)
  next
    case True
    then have l: "\<not> (case live of Some l \<Rightarrow> aid \<notin> l | None \<Rightarrow> False)" by (auto simp: live_in_def split: option.splits)
    define rs where "rs = (case build_sorted_reloc_index cache (at_origin a, at_input_section a) of Some rs \<Rightarrow> rs | None \<Rightarrow> [])"
    obtain inp fin rs' where inp: "input_map inputs (at_origin a) = Some inp"
      and fin: "add32 (at_input_offset a) (at_size a) = (Ok fin :: u32 synth)"
      and sl: "relocs_starting_in rs (at_input_offset a) fin = Ok rs'"
      and each: "seed_each (\<lambda>r p. rbind (add32 (rel_offset r) (width_for_planning r)) (\<lambda>e.
          if e \<le> fin then plan_reloc aid a (li_object inp) t (ix (at_origin a)) r p else Ok p)) rs' p = Ok p'"
      using assms l unfolding plan_atom_def x rs_def by (auto simp: rbind_Ok_iff ok_or_Ok_iff Let_def)
    have "sorted (map rel_offset rs)" by (simp add: rs_def build_sorted_reloc_index_def split: option.splits)
    moreover have "at_input_offset a \<le> fin" using add32_Ok [OF fin] by (simp add: word_le_nat_alt)
    ultimately have "relocs_starting_in rs (at_input_offset a) fin = Ok (filter (\<lambda>r. at_input_offset a \<le> rel_offset r \<and> rel_offset r < fin) rs)"
      unfolding relocs_starting_in_def by (rule slice_sorted)
    then have rs': "rs' = filter (\<lambda>r. at_input_offset a \<le> rel_offset r \<and> rel_offset r < fin) rs" using sl by simp
    have mem: "r \<in> set rs \<longleftrightarrow> (\<exists>rs. cache (at_origin a, at_input_section a) = Some rs \<and> r \<in> set rs)" for r
      by (auto simp: rs_def build_sorted_reloc_index_def split: option.splits)
    have ask: "asked cache a r \<longleftrightarrow> r \<in> set rs' \<and> unat (rel_offset r) + unat (width_for_planning r) \<le> unat fin" for r
      using add32_Ok [OF fin] width_pos [of r] by (auto simp: asked_def mem [symmetric] rs' word_le_nat_alt word_less_nat_alt)
    define G where "G W r = (if asked cache a r then {sid. symbol_referent_id (li_object inp) (rel_referent r) t (ix (at_origin a)) = Ok (Some sid) \<and> W r sid} else {})" for W r
    have "effect p (\<Union>r\<in>set rs'. G (wants_got t a) r) (\<Union>r\<in>set rs'. G (wants_stub t) r) p'"
    proof (rule seed_each_effect [OF _ each])
      fix r q q'
      assume r: "r \<in> set rs'" and q: "rbind (add32 (rel_offset r) (width_for_planning r)) (\<lambda>e.
          if e \<le> fin then plan_reloc aid a (li_object inp) t (ix (at_origin a)) r q else Ok q) = Ok q'"
      then obtain e where e: "add32 (rel_offset r) (width_for_planning r) = (Ok e :: u32 synth)"
        "(if e \<le> fin then plan_reloc aid a (li_object inp) t (ix (at_origin a)) r q else Ok q) = Ok q'" by (auto simp: rbind_Ok_iff)
      have "asked cache a r \<longleftrightarrow> e \<le> fin" using ask [of r] r add32_Ok [OF e(1)] by (simp add: word_le_nat_alt)
      then show "effect q (G (wants_got t a) r) (G (wants_stub t) r) q'"
        using e(2) plan_reloc_effect [of aid a "li_object inp" t "ix (at_origin a)" r q q'] by (auto simp: G_def split: if_splits)
    qed
    then show ?thesis using True inp ask
      by (elim effect_cong) (auto simp: G_def atom_requests_def x split: if_splits)
  qed
qed

section \<open>Sorting the tables\<close>

lemma enumerate_index:
  assumes "distinct ss"
  shows "foldl (\<lambda>m (i, s). m(s \<mapsto> i)) Map.empty (enumerate 0 ss) s = Some i \<longleftrightarrow> i < length ss \<and> ss ! i = s"
  using assms
proof (induction ss rule: rev_induct)
  case (snoc x xs)
  then show ?case by (auto simp: enumerate_append_eq nth_append less_Suc_eq in_set_conv_nth)
qed simp

lemma insert_by_map: "(\<And>x y. c (g x) (g y) = c' x y) \<Longrightarrow> insert_by c (g x) (map g ys) = map g (insert_by c' x ys)"
  by (induction ys) auto

lemma sort_by_map: "(\<And>x y. c (g x) (g y) = c' x y) \<Longrightarrow> sort_by c (map g xs) = map g (sort_by c' xs)"
  by (induction xs) (auto simp: insert_by_map)

text \<open>The table after sorting depends on the entries' symbols only.\<close>

definition name_order :: "(symbol_id \<Rightarrow> str) \<Rightarrow> symbol_id \<Rightarrow> symbol_id \<Rightarrow> ordering" where
  "name_order nm a b = cmp_bytes (nm a) (nm b)"

definition name_at :: "symbol_table \<Rightarrow> symbol_id \<Rightarrow> str" where
  "name_at t sid = (case slot_name t sid of Ok n \<Rightarrow> n | _ \<Rightarrow> [])"

lemma sorted_entries:
  assumes "sort_symbol_indexed_entries symbol_of t tab = Ok tab'"
  shows "sl_entries tab' = sort_by (\<lambda>a b. name_order (name_at t) (symbol_of a) (symbol_of b)) (sl_entries tab)"
    and "sl_index tab' = foldl (\<lambda>m (i, s). m(s \<mapsto> i)) Map.empty (enumerate 0 (map symbol_of (sl_entries tab')))"
proof -
  obtain es where es: "(if length (sl_entries tab) < 2 then Ok (sl_entries tab)
      else rbind (mapM (\<lambda>e. rbind (slot_name t (symbol_of e)) (\<lambda>n. Ok (n, e))) (sl_entries tab)) (\<lambda>nes.
        Ok (map snd (sort_by (\<lambda>a b. cmp_bytes (fst a) (fst b)) nes)))) = (Ok es :: 'a list synth)"
    and tab': "tab' = \<lparr>sl_entries = es, sl_index = foldl (\<lambda>m (i, e). m(symbol_of e \<mapsto> i)) Map.empty (enumerate 0 es)\<rparr>"
    using assms by (auto simp: sort_symbol_indexed_entries_def rbind_Ok_iff)
  show "sl_entries tab' = sort_by (\<lambda>a b. name_order (name_at t) (symbol_of a) (symbol_of b)) (sl_entries tab)"
  proof (cases "length (sl_entries tab) < 2")
    case True
    then have "es = sl_entries tab" "sl_entries tab = [] \<or> (\<exists>e. sl_entries tab = [e])"
      using es by (auto simp: less_2_cases_iff length_Suc_conv)
    then show ?thesis by (auto simp: tab')
  next
    case False
    then obtain nes where m: "mapM (\<lambda>e. rbind (slot_name t (symbol_of e)) (\<lambda>n. Ok (n, e))) (sl_entries tab) = (Ok nes :: (str \<times> 'a) list synth)"
      and e: "es = map snd (sort_by (\<lambda>a b. cmp_bytes (fst a) (fst b)) nes)" using es by (auto simp: rbind_Ok_iff)
    have "nes = map (\<lambda>e. (name_at t (symbol_of e), e)) (sl_entries tab)"
    proof (rule nth_equalityI)
      show "length nes = length (map (\<lambda>e. (name_at t (symbol_of e), e)) (sl_entries tab))" using mapM_Ok_length [OF m] by simp
      fix i
      assume "i < length nes"
      then have i: "i < length (sl_entries tab)" using mapM_Ok_length [OF m] by simp
      have "rbind (slot_name t (symbol_of (sl_entries tab ! i))) (\<lambda>n. Ok (n, sl_entries tab ! i)) = Ok (nes ! i)" using mapM_Ok_nth [OF m i] .
      then show "nes ! i = map (\<lambda>e. (name_at t (symbol_of e), e)) (sl_entries tab) ! i" using i by (auto simp: rbind_Ok_iff name_at_def)
    qed
    then have "sort_by (\<lambda>a b. cmp_bytes (fst a) (fst b)) nes
        = map (\<lambda>e. (name_at t (symbol_of e), e)) (sort_by (\<lambda>a b. name_order (name_at t) (symbol_of a) (symbol_of b)) (sl_entries tab))"
      by (simp only:) (rule sort_by_map, simp add: name_order_def)
    then show ?thesis by (simp add: tab' e comp_def)
  qed
  show "sl_index tab' = foldl (\<lambda>m (i, s). m(s \<mapsto> i)) Map.empty (enumerate 0 (map symbol_of (sl_entries tab')))"
  proof -
    have "foldl (\<lambda>m (i, e). m(symbol_of e \<mapsto> i)) m0 (enumerate n es) = foldl (\<lambda>m (i, s). m(s \<mapsto> i)) m0 (enumerate n (map symbol_of es))" for m0 n es
      by (induction es arbitrary: m0 n) auto
    then show ?thesis by (simp add: tab')
  qed
qed

lemma sort_keeps:
  assumes "sort_symbol_indexed_entries symbol_of t tab = Ok tab'" and "wf_slots symbol_of tab"
  shows "wf_slots symbol_of tab'" and "set (sl_entries tab') = set (sl_entries tab)"
proof -
  show s: "set (sl_entries tab') = set (sl_entries tab)" by (simp add: sorted_entries(1) [OF assms(1)])
  have "mset (map symbol_of (sl_entries tab')) = mset (map symbol_of (sl_entries tab))" by (simp add: sorted_entries(1) [OF assms(1)])
  then have "distinct (map symbol_of (sl_entries tab'))" using wf_slots_distinct [OF assms(2)] by (metis mset_eq_imp_distinct_iff)
  then show "wf_slots symbol_of tab'"
    unfolding wf_slots_def sorted_entries(2) [OF assms(1)] by (auto simp: enumerate_index)
qed

lemma sort_in_step:
  assumes "in_step st lz" and "sort_symbol_indexed_entries se_symbol t st = Ok st'" and "sort_symbol_indexed_entries le_symbol t lz = Ok lz'"
  shows "in_step st' lz'"
proof -
  let ?c = "\<lambda>a b. name_order (name_at t) (fst a) (fst b)"
  have r: "map stub_row (sl_entries st') = sort_by ?c (map stub_row (sl_entries st))"
    unfolding sorted_entries(1) [OF assms(2)] by (rule sort_by_map [symmetric]) (simp add: stub_row_def)
  have "map lazy_row (sl_entries lz') = sort_by ?c (map lazy_row (sl_entries lz))"
    unfolding sorted_entries(1) [OF assms(3)] by (rule sort_by_map [symmetric]) (simp add: lazy_row_def)
  with r assms(1) have rows: "map stub_row (sl_entries st') = map lazy_row (sl_entries lz')" by (simp add: in_step_def)
  have "map se_symbol (sl_entries st') = map fst (map stub_row (sl_entries st'))" "map le_symbol (sl_entries lz') = map fst (map lazy_row (sl_entries lz'))"
    by (simp_all add: stub_row_def lazy_row_def)
  with rows have "map se_symbol (sl_entries st') = map le_symbol (sl_entries lz')" by simp
  with rows show ?thesis by (simp add: in_step_def sorted_entries(2) [OF assms(2)] sorted_entries(2) [OF assms(3)])
qed

section \<open>Plans\<close>

definition requests ::
  "(atom \<Rightarrow> reloc \<Rightarrow> symbol_id \<Rightarrow> bool) \<Rightarrow> layout_input list \<Rightarrow> symbol_table \<Rightarrow> (input_id \<rightharpoonup> symbol_id option list)
    \<Rightarrow> parsed_reloc_cache \<Rightarrow> atom_id set option \<Rightarrow> atom_table \<Rightarrow> symbol_id set" where
  "requests W inputs t ix cache live tb = (\<Union>x \<in> set (atoms_iter tb). atom_requests W inputs t ix cache live x)"

lemma plan_parts:
  assumes "build_filtered_with_relocs inputs tb t dylibs live cache = Ok (plan, t')"
  obtains ix p gt where "build_input_symbol_index inputs t cache = Ok ix"
    and "seed_each (plan_atom inputs t ix (build_sorted_reloc_index cache) live) (atoms_iter tb) planning_new = Ok p"
    and "sort_symbol_indexed_entries ge_symbol t (pl_got p) = Ok gt"
    and "sort_symbol_indexed_entries se_symbol t (pl_stubs p) = Ok (sp_stubs plan)"
    and "sort_symbol_indexed_entries le_symbol t (pl_lazy_pointers p) = Ok (sp_lazy_pointers plan)"
    and "(case sp_binder_symbol plan of None \<Rightarrow> sp_got plan = gt \<and> sl_entries (sp_stubs plan) = []
      | Some b \<Rightarrow> sp_got plan = snd (got_intern b False gt) \<and> sl_entries (sp_stubs plan) \<noteq> [])"
    and "sp_needs_dyld_private plan = (sl_entries (sp_stubs plan) \<noteq> [])"
  using assms unfolding build_filtered_with_relocs_def
  by (auto simp: rbind_Ok_iff ensure_stub_helper_support_def split: if_splits)

text \<open>
  C35: A plan holds exactly the slots that are asked for: a stub for each import that a live atom branches to,
  a global-offset slot for each symbol that a live atom loads through the table, and one for the stub
  binder if there are stubs; the index of each table is the inverse of its entries.
\<close>

theorem synthetic_plan_exact:
  assumes "build_filtered_with_relocs inputs tb t dylibs live cache = Ok (plan, t')"
    and "build_input_symbol_index inputs t cache = Ok ix"
  shows "wf_slots ge_symbol (sp_got plan) \<and> wf_slots se_symbol (sp_stubs plan)
    \<and> dom (sl_index (sp_stubs plan)) = requests (\<lambda>_. wants_stub t) inputs t ix cache live tb
    \<and> dom (sl_index (sp_got plan)) = requests (wants_got t) inputs t ix cache live tb \<union> set_option (sp_binder_symbol plan)"
proof -
  obtain p gt where p: "seed_each (plan_atom inputs t ix (build_sorted_reloc_index cache) live) (atoms_iter tb) planning_new = Ok p"
    and g: "sort_symbol_indexed_entries ge_symbol t (pl_got p) = Ok gt"
    and s: "sort_symbol_indexed_entries se_symbol t (pl_stubs p) = Ok (sp_stubs plan)"
    and b: "(case sp_binder_symbol plan of None \<Rightarrow> sp_got plan = gt \<and> sl_entries (sp_stubs plan) = []
      | Some b \<Rightarrow> sp_got plan = snd (got_intern b False gt) \<and> sl_entries (sp_stubs plan) \<noteq> [])"
    using assms(1,2) by (elim plan_parts) simp
  have "effect planning_new (requests (wants_got t) inputs t ix cache live tb) (requests (\<lambda>_. wants_stub t) inputs t ix cache live tb) p"
    unfolding requests_def using p by (rule seed_each_effect [rotated]) (rule plan_atom_effect)
  then have ok: "planning_ok p" "got_symbols p = requests (wants_got t) inputs t ix cache live tb"
    "stub_symbols p = requests (\<lambda>_. wants_stub t) inputs t ix cache live tb"
    using planning_ok_new by (auto simp: effect_def planning_new_def slots_new_def)
  note gk = sort_keeps [OF g] and sk = sort_keeps [OF s]
  have wf: "wf_slots ge_symbol gt" "wf_slots se_symbol (sp_stubs plan)" using ok(1) gk(1) sk(1) by (simp_all add: planning_ok_def)
  have d: "dom (sl_index gt) = got_symbols p" "dom (sl_index (sp_stubs plan)) = stub_symbols p"
    using wf_slots_dom [OF wf(1)] wf_slots_dom [OF wf(2)] gk(2) sk(2) ok(1) by (simp_all add: planning_ok_def)
  show ?thesis
  proof (cases "sp_binder_symbol plan")
    case None
    then show ?thesis using b wf d ok by simp
  next
    case (Some bs)
    then have e: "sp_got plan = snd (intern_slot ge_symbol \<lparr>ge_symbol = bs, ge_weak_import = False\<rparr> gt)" using b by (simp add: got_intern_def)
    have wf': "wf_slots ge_symbol (sp_got plan)" unfolding e using wf(1) by (rule intern_slot_wf)
    then have "dom (sl_index (sp_got plan)) = insert bs (dom (sl_index gt))"
      using wf_slots_dom [OF wf'] wf_slots_dom [OF wf(1)] intern_slot_symbols [OF wf(1), of "\<lparr>ge_symbol = bs, ge_weak_import = False\<rparr>"]
      unfolding e by simp
    then show ?thesis using wf wf' d ok Some by auto
  qed
qed

text \<open>
  C36: The stubs and the lazy pointers are in step: the entry at any index of one is for the symbol, library
  and weakness of the entry at that index of the other, and both are
  found at the same index. The binder and its private word are there exactly when there are stubs.
\<close>

theorem stubs_and_lazy_pointers_in_step:
  assumes "build_filtered_with_relocs inputs tb t dylibs live cache = Ok (plan, t')"
  shows "map stub_row (sl_entries (sp_stubs plan)) = map lazy_row (sl_entries (sp_lazy_pointers plan))
    \<and> sl_index (sp_stubs plan) = sl_index (sp_lazy_pointers plan)
    \<and> (sp_binder_symbol plan \<noteq> None \<longleftrightarrow> sl_entries (sp_stubs plan) \<noteq> [])
    \<and> (sp_needs_dyld_private plan \<longleftrightarrow> sl_entries (sp_stubs plan) \<noteq> [])"
proof -
  obtain ix p gt where p: "build_input_symbol_index inputs t cache = Ok ix"
    "seed_each (plan_atom inputs t ix (build_sorted_reloc_index cache) live) (atoms_iter tb) planning_new = Ok p"
    and s: "sort_symbol_indexed_entries se_symbol t (pl_stubs p) = Ok (sp_stubs plan)"
    and l: "sort_symbol_indexed_entries le_symbol t (pl_lazy_pointers p) = Ok (sp_lazy_pointers plan)"
    and b: "(case sp_binder_symbol plan of None \<Rightarrow> sp_got plan = gt \<and> sl_entries (sp_stubs plan) = []
      | Some b \<Rightarrow> sp_got plan = snd (got_intern b False gt) \<and> sl_entries (sp_stubs plan) \<noteq> [])"
    and d: "sp_needs_dyld_private plan = (sl_entries (sp_stubs plan) \<noteq> [])"
    using assms by (rule plan_parts)
  have "effect planning_new (requests (wants_got t) inputs t ix cache live tb) (requests (\<lambda>_. wants_stub t) inputs t ix cache live tb) p"
    unfolding requests_def using p(2) by (rule seed_each_effect [rotated]) (rule plan_atom_effect)
  then have "in_step (pl_stubs p) (pl_lazy_pointers p)" using planning_ok_new by (auto simp: effect_def planning_ok_def)
  then have "in_step (sp_stubs plan) (sp_lazy_pointers plan)" using s l by (rule sort_in_step)
  then show ?thesis using b d by (auto simp: in_step_def split: option.splits)
qed

section \<open>A plan\<close>

definition calling_object :: object_file where
  "calling_object =
     \<lparr>ob_path = [], ob_header = \<lparr>magic = 0, cputype = 0, cpusubtype = 0, filetype = 0, ncmds = 0,
        sizeofcmds = 0, mh_flags = 0, mh_reserved = 0\<rparr>, ob_commands = [], ob_sections = [],
      ob_symbols = [\<lparr>strx = 1, n_type = 1, n_sect = 0, n_desc = 0, n_value = 0\<rparr>], ob_strings = \<lparr>raw = [0, 0x5F, 0x66, 0]\<rparr>,
      ob_symtab = None, ob_dysymtab = None, ob_loh = [], ob_data_in_code = []\<rparr>"

definition calling_inputs :: "layout_input list" where
  "calling_inputs = [\<lparr>li_id = 0, li_object = calling_object, li_load_order = 0, li_archive_member_offset = None\<rparr>]"

definition calling_atoms :: atom_table where
  "calling_atoms = \<lparr>tb_atoms = [(record_atom 0 1 AText 0 8 2 [] 0)\<lparr>at_id := 1\<rparr>]\<rparr>"

definition calling_relocs :: parsed_reloc_cache where
  "calling_relocs = [(0, 1) \<mapsto>
     [\<lparr>rel_offset = 4, rel_kind = Branch26, rel_length = Word, rel_pcrel = True, rel_referent = Symbol 0, rel_addend = 0, rel_subtrahend = None\<rparr>]]"

definition calling_dylibs :: "dylib_input list" where
  "calling_dylibs = [\<lparr>di_path = [], di_file = \<lparr>df_path = [], df_header = ob_header calling_object, df_commands = [],
      df_install_name = [], df_current_version = 0, df_compatibility_version = 0, df_dependencies = [], df_rpaths = [],
      df_symtab = None, df_exports = Flat []\<rparr>, di_load_install_name = bstr ''/usr/lib/libSystem.B.dylib'',
      di_load_current_version = 0, di_load_compatibility_version = 0, di_ordinal = 1, di_load_kind = LoadNormal\<rparr>]"

definition calling_table :: symbol_table where
  "calling_table =
     (case table_intern [0x5F, 0x66] table_new of (n, t) \<Rightarrow>
      case insert_sym (DylibImport n 0 1 False) t of Ok (_, t) \<Rightarrow> t | _ \<Rightarrow> t)"

lemma calling_plan_evaluates:
  "rmap (\<lambda>(plan, t). (map stub_row (sl_entries (sp_stubs plan)), map ge_symbol (sl_entries (sp_got plan)), sp_binder_symbol plan))
     (build_filtered_with_relocs calling_inputs calling_atoms calling_table calling_dylibs None calling_relocs)
   = Ok ([(0, 0, False)], [1], Some 1)"
  by code_simp

lemma calling_plan:
  obtains plan t' ix where "build_filtered_with_relocs calling_inputs calling_atoms calling_table calling_dylibs None calling_relocs = Ok (plan, t')"
    and "build_input_symbol_index calling_inputs calling_table calling_relocs = Ok ix"
    and "map stub_row (sl_entries (sp_stubs plan)) = [(0, 0, False)]" and "sp_binder_symbol plan = Some 1"
proof -
  obtain plan t' where p: "build_filtered_with_relocs calling_inputs calling_atoms calling_table calling_dylibs None calling_relocs = Ok (plan, t')"
    and r: "map stub_row (sl_entries (sp_stubs plan)) = [(0, 0, False)]" "sp_binder_symbol plan = Some 1"
    using calling_plan_evaluates
    by (cases "build_filtered_with_relocs calling_inputs calling_atoms calling_table calling_dylibs None calling_relocs") auto
  from p obtain ix where ix: "build_input_symbol_index calling_inputs calling_table calling_relocs = Ok ix" by (rule plan_parts)
  show thesis by (rule that [OF p ix r])
qed

theorem synthetic_plan_exact_witness:
  "\<exists>plan t' ix. build_filtered_with_relocs calling_inputs calling_atoms calling_table calling_dylibs None calling_relocs = Ok (plan, t')
     \<and> dom (sl_index (sp_stubs plan)) = requests (\<lambda>_. wants_stub calling_table) calling_inputs calling_table ix calling_relocs None calling_atoms
     \<and> map stub_row (sl_entries (sp_stubs plan)) = [(0, 0, False)]"
  using calling_plan synthetic_plan_exact by metis

theorem stubs_and_lazy_pointers_in_step_witness:
  "\<exists>plan t'. build_filtered_with_relocs calling_inputs calling_atoms calling_table calling_dylibs None calling_relocs = Ok (plan, t')
     \<and> map lazy_row (sl_entries (sp_lazy_pointers plan)) = [(0, 0, False)] \<and> sp_needs_dyld_private plan"
proof (rule calling_plan)
  fix plan t'
  assume "build_filtered_with_relocs calling_inputs calling_atoms calling_table calling_dylibs None calling_relocs = Ok (plan, t')"
    "map stub_row (sl_entries (sp_stubs plan)) = [(0, 0, False)]"
  with stubs_and_lazy_pointers_in_step [OF this(1)] show ?thesis by auto
qed

end
