(* ===== verification/Code_Sign.thy ===== *)
theory Code_Sign
  imports Layout Archive
begin

unbundle bit_operations_syntax

text \<open>
  The ad-hoc code signature of \<^verbatim>\<open>src/synth/code_sig.rs\<close>: its own SHA-256, the hashes of the 4096-byte pages of
  the file, by one or several threads, and the blob that holds them. The name of the output file is an
  argument (\<^verbatim>\<open>opts.output\<close>).
\<close>

section \<open>SHA-256\<close>

text \<open>The constants, row by row as the source lays them out.\<close>

definition SHA_INIT :: "u32 list" where
  "SHA_INIT = [0x6a09e667, 0xbb67ae85, 0x3c6ef372, 0xa54ff53a, 0x510e527f, 0x9b05688c, 0x1f83d9ab] @ [0x5be0cd19]"

definition SHA_K :: "u32 list" where
  "SHA_K =
     [0x428a2f98, 0x71374491, 0xb5c0fbcf, 0xe9b5dba5, 0x3956c25b, 0x59f111f1, 0x923f82a4]
   @ [0xab1c5ed5, 0xd807aa98, 0x12835b01, 0x243185be, 0x550c7dc3, 0x72be5d74, 0x80deb1fe]
   @ [0x9bdc06a7, 0xc19bf174, 0xe49b69c1, 0xefbe4786, 0x0fc19dc6, 0x240ca1cc, 0x2de92c6f]
   @ [0x4a7484aa, 0x5cb0a9dc, 0x76f988da, 0x983e5152, 0xa831c66d, 0xb00327c8, 0xbf597fc7]
   @ [0xc6e00bf3, 0xd5a79147, 0x06ca6351, 0x14292967, 0x27b70a85, 0x2e1b2138, 0x4d2c6dfc]
   @ [0x53380d13, 0x650a7354, 0x766a0abb, 0x81c2c92e, 0x92722c85, 0xa2bfe8a1, 0xa81a664b]
   @ [0xc24b8b70, 0xc76c51a3, 0xd192e819, 0xd6990624, 0xf40e3585, 0x106aa070, 0x19a4c116]
   @ [0x1e376c08, 0x2748774c, 0x34b0bcb5, 0x391c0cb3, 0x4ed8aa4a, 0x5b9cca4f, 0x682e6ff3]
   @ [0x748f82ee, 0x78a5636f, 0x84c87814, 0x8cc70208, 0x90befffa, 0xa4506ceb, 0xbef9a3f7]
   @ [0xc67178f2]"

text \<open>The message schedule: a list that grows by one word for each of the indices 16 to 63.\<close>

definition schedule_step :: "u32 list \<Rightarrow> nat \<Rightarrow> u32 list" where
  "schedule_step w idx =
     (let s0 = word_rotr 7 (w ! (idx - 15)) XOR word_rotr 18 (w ! (idx - 15)) XOR drop_bit 3 (w ! (idx - 15));
          s1 = word_rotr 17 (w ! (idx - 2)) XOR word_rotr 19 (w ! (idx - 2)) XOR drop_bit 10 (w ! (idx - 2)) in
      w @ [w ! (idx - 16) + s0 + w ! (idx - 7) + s1])"

definition schedule :: "bytes \<Rightarrow> u32 list" where
  "schedule block = foldl schedule_step (map (\<lambda>i. from_be (take 4 (drop (i * 4) block))) [0..<16]) [16..<64]"

record sha_vars =
  va :: u32
  vb :: u32
  vc :: u32
  vd :: u32
  ve :: u32
  vf :: u32
  vg :: u32
  vh :: u32

definition sha_round :: "u32 list \<Rightarrow> u32 list \<Rightarrow> sha_vars \<Rightarrow> nat \<Rightarrow> sha_vars" where
  "sha_round k w v idx =
     (let s1 = word_rotr 6 (ve v) XOR word_rotr 11 (ve v) XOR word_rotr 25 (ve v);
          ch = (ve v AND vf v) XOR (NOT (ve v) AND vg v);
          temp1 = vh v + s1 + ch + k ! idx + w ! idx;
          s0 = word_rotr 2 (va v) XOR word_rotr 13 (va v) XOR word_rotr 22 (va v);
          maj = (va v AND vb v) XOR (va v AND vc v) XOR (vb v AND vc v);
          temp2 = s0 + maj in
      \<lparr>va = temp1 + temp2, vb = va v, vc = vb v, vd = vc v, ve = vd v + temp1, vf = ve v, vg = vf v, vh = vg v\<rparr>)"

definition compress :: "u32 list \<Rightarrow> bytes \<Rightarrow> u32 list" where
  "compress st block =
     (let w = schedule block;
          v = foldl (sha_round SHA_K w)
                \<lparr>va = st ! 0, vb = st ! 1, vc = st ! 2, vd = st ! 3, ve = st ! 4, vf = st ! 5, vg = st ! 6, vh = st ! 7\<rparr> [0..<64] in
      [st ! 0 + va v, st ! 1 + vb v, st ! 2 + vc v, st ! 3 + vd v, st ! 4 + ve v, st ! 5 + vf v, st ! 6 + vg v, st ! 7 + vh v])"

text \<open>Full blocks first; the rest, its end mark and the length go into a buffer of one or two blocks.\<close>

definition overwrite :: "nat \<Rightarrow> bytes \<Rightarrow> bytes \<Rightarrow> bytes" where
  "overwrite pos new b = take pos b @ new @ drop (pos + length new) b"

definition sha256 :: "bytes \<Rightarrow> bytes checked" where
  "sha256 data =
     (let full = length data div 64;
          st = foldl (\<lambda>s idx. compress s (take 64 (drop (idx * 64) data))) SHA_INIT [0..<full];
          rest = drop (full * 64) data;
          block = overwrite (length rest) [0x80] (overwrite 0 rest (replicate 128 0)) in
      rbind (mul64 (of_nat (length data)) 8) (\<lambda>bit_len.
      let st = (if length rest \<ge> 56
                then let b = overwrite 120 (to_be 8 bit_len) block in compress (compress st (take 64 b)) (drop 64 b)
                else let b = overwrite 56 (to_be 8 bit_len) block in compress st (take 64 b)) in
      Ok (concat (map (to_be 4) st))))"

section \<open>Page hashes\<close>

abbreviation (input) SIGN_PAGE_SIZE :: nat where "SIGN_PAGE_SIZE \<equiv> 4096"
abbreviation (input) SUPERBLOB_HEADER_SIZE :: nat where "SUPERBLOB_HEADER_SIZE \<equiv> 20"
abbreviation (input) CODEDIRECTORY_HEADER_SIZE :: nat where "CODEDIRECTORY_HEADER_SIZE \<equiv> 88"
abbreviation (input) CS_SHA256_LEN :: u8 where "CS_SHA256_LEN \<equiv> 32"

function chunks :: "nat \<Rightarrow> 'a list \<Rightarrow> 'a list list" where
  "chunks n xs = (if xs = [] then [] else if n = 0 then [] else take n xs # chunks n (drop n xs))"
  by pat_completeness auto
termination by (relation "measure (\<lambda>(n, xs). length xs)") auto

declare chunks.simps [simp del]

definition div_ceil :: "nat \<Rightarrow> nat \<Rightarrow> nat" where
  "div_ceil a b = a div b + (if a mod b = 0 then 0 else 1)"

definition code_slots :: "nat \<Rightarrow> nat" where
  "code_slots code_limit = (if code_limit = 0 then 0 else div_ceil code_limit SIGN_PAGE_SIZE)"

definition page_hashes :: "bytes \<Rightarrow> nat \<Rightarrow> bytes list checked" where
  "page_hashes data parallel_jobs =
     (let page_count = code_slots (length data) in
      if page_count = 0 then Ok []
      else
        let jobs = min (max parallel_jobs 1) page_count in
        if jobs = 1 \<or> page_count < 2 then mapM sha256 (chunks SIGN_PAGE_SIZE data)
        else
          let chunk_bytes = SIGN_PAGE_SIZE * div_ceil page_count jobs in
          rmap concat (mapM (\<lambda>chunk. mapM sha256 (chunks SIGN_PAGE_SIZE chunk)) (chunks chunk_bytes data)))"

section \<open>The blob\<close>

datatype code_signature_error = MissingTextSegment | OffsetTooLarge str

record code_signature_plan =
  cp_dataoff :: u32
  cp_datasize :: u32
  cp_code_limit :: u32
  cp_identifier :: str
  cp_exec_seg_base :: u64
  cp_exec_seg_limit :: u64
  cp_exec_seg_flags :: u64

definition sign_align_up :: "u64 \<Rightarrow> u64 \<Rightarrow> ('e, u64) result" where
  "sign_align_up v align =
     (if align \<le> 1 then Ok v else let m = align - 1 in rbind (add64 v m) (\<lambda>s. Ok (s AND NOT m)))"

definition layout_segment :: "layout \<Rightarrow> str \<Rightarrow> output_segment option" where
  "layout_segment ly nm = List.find (\<lambda>s. og_name s = nm) (ly_segments ly)"

text \<open>\<^verbatim>\<open>Path::file_name\<close>: the last component, unless the path has none or ends in two dots.\<close>

definition path_file_name :: "str \<Rightarrow> str option" where
  "path_file_name p =
     (let c = snd (last_component (trim_path p)) in
      if c = [] \<or> c = bstr ''.'' \<or> c = bstr ''..'' then None else Some c)"

definition output_identifier :: "str option \<Rightarrow> str" where
  "output_identifier output =
     (case Option.bind output path_file_name of
        None \<Rightarrow> bstr ''a.out''
      | Some n \<Rightarrow> let n = from_utf8_lossy n in if n = [] then bstr ''a.out'' else n)"

definition blob_len :: "nat \<Rightarrow> str \<Rightarrow> ('e, u64) result" where
  "blob_len code_limit ident =
     sign_align_up (of_nat (SUPERBLOB_HEADER_SIZE + (CODEDIRECTORY_HEADER_SIZE + length ident + 1 + code_slots code_limit * unat CS_SHA256_LEN))) 8"

definition plan_signature ::
  "layout \<Rightarrow> str option \<Rightarrow> u64 \<Rightarrow> bool \<Rightarrow> (code_signature_error, code_signature_plan) result" where
  "plan_signature ly output code_limit executable =
     rbind (ok_or MissingTextSegment (layout_segment ly (bstr ''__TEXT''))) (\<lambda>text.
     if code_limit \<ge> 0x100000000 then Err (OffsetTooLarge (bstr ''code-signature offset''))
     else
       let limit = ucast code_limit :: u32; ident = output_identifier output in
       rbind (blob_len (unat limit) ident) (\<lambda>len.
       if len \<ge> 0x100000000 then Err (OffsetTooLarge (bstr ''code-signature blob''))
       else
         Ok \<lparr>cp_dataoff = limit, cp_datasize = ucast len, cp_code_limit = limit, cp_identifier = ident,
             cp_exec_seg_base = og_file_off text, cp_exec_seg_limit = og_file_size text,
             cp_exec_seg_flags = (if executable then 1 else 0)\<rparr>))"

definition push_be_u32 :: "u32 \<Rightarrow> bytes" where
  "push_be_u32 v = to_be 4 v"

definition push_be_u64 :: "u64 \<Rightarrow> bytes" where
  "push_be_u64 v = to_be 8 v"

text \<open>\<^verbatim>\<open>Vec::resize\<close>\<close>

definition resize :: "nat \<Rightarrow> bytes \<Rightarrow> bytes" where
  "resize n b = take n b @ replicate (n - length b) 0"

definition build_with_jobs :: "code_signature_plan \<Rightarrow> bytes \<Rightarrow> nat \<Rightarrow> bytes checked" where
  "build_with_jobs p signed_prefix parallel_jobs =
     (if length signed_prefix \<noteq> unat (cp_code_limit p) then Panic
      else
        let slots = code_slots (unat (cp_code_limit p));
            ident_len = length (cp_identifier p) + 1;
            hash_offset = CODEDIRECTORY_HEADER_SIZE + ident_len;
            cd_len = hash_offset + slots * unat CS_SHA256_LEN;
            superblob_len = SUPERBLOB_HEADER_SIZE + cd_len in
        rbind (sign_align_up (of_nat superblob_len) 8) (\<lambda>padded_len.
        rbind (page_hashes signed_prefix parallel_jobs) (\<lambda>hashes.
        Ok (resize (unat padded_len)
          (concat (map push_be_u32 [0xfade0cc0, of_nat superblob_len, 1, 0, of_nat SUPERBLOB_HEADER_SIZE])
           @ concat (map push_be_u32 [0xfade0c02, of_nat cd_len, 0x00020400, 0x00000002 OR 0x00020000, of_nat hash_offset,
               of_nat CODEDIRECTORY_HEADER_SIZE, 0, of_nat slots, cp_code_limit p])
           @ [CS_SHA256_LEN, 2, 0, 12]
           @ concat (map push_be_u32 [0, 0, 0, 0])
           @ concat (map push_be_u64 [0, cp_exec_seg_base p, cp_exec_seg_limit p, cp_exec_seg_flags p])
           @ cp_identifier p @ [0]
           @ concat hashes)))))"

definition build_signature :: "code_signature_plan \<Rightarrow> bytes \<Rightarrow> bytes checked" where
  "build_signature p signed_prefix = build_with_jobs p signed_prefix 1"

end
