(* ===== verification/Code_Sign_Sound.thy ===== *)
theory Code_Sign_Sound
  imports Code_Sign Layout_Addresses Complex_Main
begin

unbundle bit_operations_syntax

text \<open>
  The code signature verifies: the block-wise digest is the one of the standard, the threads do not show in
  the page hashes, and a verifier that follows the offsets stored in the blob finds the hash of every page.
\<close>

section \<open>Chunks\<close>

lemma chunks_Nil [simp]: "chunks n [] = []"
  by (simp add: chunks.simps)

lemma chunks_step: "0 < n \<Longrightarrow> xs \<noteq> [] \<Longrightarrow> chunks n xs = take n xs # chunks n (drop n xs)"
  by (subst chunks.simps) simp

lemma chunks_append:
  "0 < n \<Longrightarrow> n dvd length xs \<Longrightarrow> chunks n (xs @ ys) = chunks n xs @ chunks n ys"
proof (induction n xs rule: chunks.induct)
  case (1 n xs)
  show ?case
  proof (cases "xs = []")
    case False
    have "n \<le> length xs" using 1(3) False by (simp add: dvd_imp_le)
    moreover have "chunks n (drop n xs @ ys) = chunks n (drop n xs) @ chunks n ys"
      using False 1(2,3) \<open>n \<le> length xs\<close> by (intro 1(1)) (auto simp: dvd_diff_nat)
    ultimately show ?thesis using False 1(2) chunks_step [of n xs] chunks_step [of n "xs @ ys"] by simp
  qed simp
qed

lemma chunks_single: "xs \<noteq> [] \<Longrightarrow> length xs \<le> n \<Longrightarrow> chunks n xs = [xs]"
  using chunks_step [of n xs] by (cases n) simp_all

lemma div_ceil_pos: "0 < a \<Longrightarrow> 0 < b \<Longrightarrow> 0 < div_ceil a b"
  by (cases "a mod b = 0") (auto simp: div_ceil_def div_greater_zero_iff mod_eq_0_iff_dvd dest: dvd_imp_le)

lemma chunks_refine:
  assumes "0 < n" and "0 < k"
  shows "concat (map (chunks n) (chunks (n * k) xs)) = chunks n xs"
proof (induction "n * k" xs rule: chunks.induct)
  case (1 xs)
  show ?case
  proof (cases "length xs \<le> n * k")
    case True
    then show ?thesis using assms by (cases "xs = []") (simp_all add: chunks_single)
  next
    case False
    then have "xs \<noteq> []" by auto
    then have "concat (map (chunks n) (chunks (n * k) xs)) = chunks n (take (n * k) xs) @ chunks n (drop (n * k) xs)"
      using assms 1 chunks_step [of "n * k" xs] by simp
    also have "\<dots> = chunks n (take (n * k) xs @ drop (n * k) xs)" using False assms by (intro chunks_append [symmetric]) simp_all
    finally show ?thesis by simp
  qed
qed

lemma chunks_nth: "0 < n \<Longrightarrow> i < length (chunks n xs) \<Longrightarrow> chunks n xs ! i = take n (drop (i * n) xs)"
proof (induction n xs arbitrary: i rule: chunks.induct)
  case (1 n xs)
  then have "xs \<noteq> []" by auto
  then show ?case using 1 chunks_step [of n xs] by (cases i) (simp_all add: add.commute)
qed

lemma chunks_length: "0 < n \<Longrightarrow> length (chunks n xs) = div_ceil (length xs) n"
proof (induction n xs rule: chunks.induct)
  case (1 n xs)
  show ?case
  proof (cases "length xs < n")
    case True
    then show ?thesis using 1(2) by (cases "xs = []") (simp_all add: chunks_single div_ceil_def)
  next
    case False
    then have "xs \<noteq> []" using 1(2) by auto
    moreover have "length xs div n = Suc ((length xs - n) div n)" "length xs mod n = (length xs - n) mod n"
      using False 1(2) by (simp_all add: le_div_geq le_mod_geq)
    ultimately show ?thesis using 1 chunks_step [of n xs] by (simp add: div_ceil_def)
  qed
qed

lemma chunks_upto: "0 < n \<Longrightarrow> length xs = m * n \<Longrightarrow> chunks n xs = map (\<lambda>i. take n (drop (i * n) xs)) [0..<m]"
  by (intro nth_equalityI) (simp_all add: chunks_length chunks_nth div_ceil_def)

lemma mapM_concat: "mapM f (concat xss) = rmap concat (mapM (mapM f) xss)"
proof (induction xss)
  case (Cons xs xss)
  then show ?case by (cases "mapM f xs"; cases "mapM (mapM f) xss") (simp_all add: mapM_append)
qed simp

lemma mapM_of_map: "mapM f (map g xs) = mapM (\<lambda>x. f (g x)) xs"
  by (induction xs) simp_all

lemma page_hashes_serial: "page_hashes data jobs = mapM sha256 (chunks SIGN_PAGE_SIZE data)"
proof (cases "data = []")
  case False
  define pc where "pc = code_slots (length data)"
  define j where "j = min (max jobs 1) pc"
  have "0 < pc" using False by (simp add: pc_def code_slots_def div_ceil_pos)
  then have "0 < div_ceil pc j" by (intro div_ceil_pos) (simp_all add: j_def)
  then have "rmap concat (mapM (\<lambda>chunk. mapM sha256 (chunks SIGN_PAGE_SIZE chunk)) (chunks (SIGN_PAGE_SIZE * div_ceil pc j) data)) = mapM sha256 (chunks SIGN_PAGE_SIZE data)"
    using mapM_concat [of sha256 "map (chunks SIGN_PAGE_SIZE) (chunks (SIGN_PAGE_SIZE * div_ceil pc j) data)"] chunks_refine [of SIGN_PAGE_SIZE "div_ceil pc j" data]
    by (simp add: mapM_of_map)
  then show ?thesis using \<open>0 < pc\<close> unfolding page_hashes_def Let_def pc_def [symmetric] j_def [symmetric] by simp
qed (simp add: page_hashes_def code_slots_def)

section \<open>The standard's digest\<close>

text \<open>
  SHA-256 on its own, bit by bit: words are given by their bits, a rotation moves the bits around, \<open>chosen\<close>
  takes each bit from one of two words, \<open>voted\<close> by majority and \<open>parity\<close> by the parity of three. The constants
  are the first 32 bits after the point of the square roots of the first eight and the cube roots of the first
  64 primes.
\<close>

definition word_with :: "(nat \<Rightarrow> bool) \<Rightarrow> u32" where
  "word_with P = horner_sum of_bool 2 (map P [0..<32])"

definition rotated :: "nat \<Rightarrow> u32 \<Rightarrow> u32" where
  "rotated k x = word_with (\<lambda>n. bit x ((n + k) mod 32))"

definition lowered :: "nat \<Rightarrow> u32 \<Rightarrow> u32" where
  "lowered k x = word_with (\<lambda>n. n + k < 32 \<and> bit x (n + k))"

definition parity :: "u32 \<Rightarrow> u32 \<Rightarrow> u32 \<Rightarrow> u32" where
  "parity x y z = word_with (\<lambda>n. odd (length (filter (\<lambda>w. bit w n) [x, y, z])))"

definition chosen :: "u32 \<Rightarrow> u32 \<Rightarrow> u32 \<Rightarrow> u32" where
  "chosen x y z = word_with (\<lambda>n. if bit x n then bit y n else bit z n)"

definition voted :: "u32 \<Rightarrow> u32 \<Rightarrow> u32 \<Rightarrow> u32" where
  "voted x y z = word_with (\<lambda>n. 2 \<le> length (filter (\<lambda>w. bit w n) [x, y, z]))"

definition root_word :: "nat \<Rightarrow> nat \<Rightarrow> u32" where
  "root_word n p = of_int \<lfloor>2 ^ 32 * root n (real p)\<rfloor>"

definition small_primes :: "nat list" where
  "small_primes =
     [2, 3, 5, 7, 11, 13, 17, 19] @ [23, 29, 31, 37, 41, 43, 47, 53] @ [59, 61, 67, 71, 73, 79, 83, 89]
   @ [97, 101, 103, 107, 109, 113, 127, 131] @ [137, 139, 149, 151, 157, 163, 167, 173] @ [179, 181, 191, 193, 197, 199, 211, 223]
   @ [227, 229, 233, 239, 241, 251, 257, 263] @ [269, 271, 277, 281, 283, 293, 307, 311]"

text \<open>The words of the message schedule by their recurrence, one step of the eight working words, and the digest.\<close>

fun message_word :: "bytes \<Rightarrow> nat \<Rightarrow> u32" where
  "message_word block i =
     (if i < 16 then from_be (take 4 (drop (i * 4) block))
      else parity (rotated 17 (message_word block (i - 2))) (rotated 19 (message_word block (i - 2))) (lowered 10 (message_word block (i - 2)))
        + message_word block (i - 7)
        + parity (rotated 7 (message_word block (i - 15))) (rotated 18 (message_word block (i - 15))) (lowered 3 (message_word block (i - 15)))
        + message_word block (i - 16))"

declare message_word.simps [simp del]

type_synonym working = "u32 \<times> u32 \<times> u32 \<times> u32 \<times> u32 \<times> u32 \<times> u32 \<times> u32"

fun mixed :: "bytes \<Rightarrow> working \<Rightarrow> nat \<Rightarrow> working" where
  "mixed block (s0, s1, s2, s3, s4, s5, s6, s7) i =
     (let x = s7 + parity (rotated 6 s4) (rotated 11 s4) (rotated 25 s4) + chosen s4 s5 s6
            + root_word 3 (small_primes ! i) + message_word block i;
          y = parity (rotated 2 s0) (rotated 13 s0) (rotated 22 s0) + voted s0 s1 s2 in
      (x + y, s0, s1, s2, s3 + x, s4, s5, s6))"

definition standard_compress :: "u32 list \<Rightarrow> bytes \<Rightarrow> u32 list" where
  "standard_compress st block =
     (case foldl (mixed block) (st ! 0, st ! 1, st ! 2, st ! 3, st ! 4, st ! 5, st ! 6, st ! 7) [0..<64] of
        (s0, s1, s2, s3, s4, s5, s6, s7) \<Rightarrow> map2 (+) st [s0, s1, s2, s3, s4, s5, s6, s7])"

text \<open>A one bit, zeros up to eight bytes before a multiple of 64, and the length in bits.\<close>

definition pad_message :: "bytes \<Rightarrow> bytes" where
  "pad_message data = data @ [0x80] @ replicate ((119 - length data mod 64) mod 64) 0 @ to_be 8 (of_nat (8 * length data) :: u64)"

definition standard_sha256 :: "bytes \<Rightarrow> bytes" where
  "standard_sha256 data =
     concat (map (to_be 4) (foldl standard_compress (map (root_word 2) (take 8 small_primes)) (chunks 64 (pad_message data))))"

section \<open>The code's words and constants are the standard's\<close>

lemma bit_word_with: "bit (word_with P) n \<longleftrightarrow> n < 32 \<and> P n"
  by (auto simp: word_with_def bit_horner_sum_bit_iff)

lemma word_rotr_rotated: "word_rotr k x = rotated k x"
  by (rule bit_word_eqI) (simp add: bit_word_rotr_iff rotated_def bit_word_with)

lemma drop_bit_lowered: "drop_bit k x = lowered k x"
  by (rule bit_word_eqI) (auto simp: bit_drop_bit_eq lowered_def bit_word_with add.commute dest: bit_imp_le_length)

lemma xor_parity: "x XOR y XOR z = parity x y z"
  by (rule bit_word_eqI) (simp add: bit_xor_iff parity_def bit_word_with)

lemma choice_chosen: "(x AND y) XOR (NOT x AND z) = chosen x y z"
  by (rule bit_word_eqI) (auto simp: bit_xor_iff bit_and_iff bit_not_iff chosen_def bit_word_with)

lemma majority_voted: "parity (x AND y) (x AND z) (y AND z) = voted x y z"
  by (rule bit_word_eqI) (auto simp: bit_and_iff parity_def voted_def bit_word_with)

lemmas word_functions = word_rotr_rotated drop_bit_lowered xor_parity choice_chosen majority_voted

lemma root_wordI:
  assumes "0 < n" and "x ^ n \<le> p * (2 ^ 32) ^ n" and "p * (2 ^ 32) ^ n < (x + 1) ^ n"
  shows "root_word n p = of_nat x"
proof -
  have r: "root n (real (p * (2 ^ 32) ^ n)) = 2 ^ 32 * root n (real p)"
    using assms(1) by (simp add: real_root_mult real_root_power_cancel)
  have "real x \<le> root n (real (p * (2 ^ 32) ^ n))"
  proof -
    have "real x = root n (real (x ^ n))" using assms(1) by (simp add: real_root_power_cancel)
    also have "\<dots> \<le> root n (real (p * (2 ^ 32) ^ n))"
      using assms(1,2) by (simp only: real_root_le_iff of_nat_le_iff)
    finally show ?thesis .
  qed
  moreover have "root n (real (p * (2 ^ 32) ^ n)) < real (x + 1)"
  proof -
    have "root n (real (p * (2 ^ 32) ^ n)) < root n (real ((x + 1) ^ n))"
      using assms(1,3) by (simp only: real_root_less_iff of_nat_less_iff)
    also have "\<dots> = real (x + 1)" using assms(1) by (simp only: of_nat_power) (rule real_root_power_cancel, simp_all)
    finally show ?thesis .
  qed
  ultimately have "\<lfloor>2 ^ 32 * root n (real p)\<rfloor> = int x" unfolding r by (intro floor_unique) simp_all
  then show ?thesis by (simp add: root_word_def)
qed

text \<open>The inequalities that determine a word.\<close>

definition int_root :: "nat \<Rightarrow> nat \<Rightarrow> nat" where
  "int_root n p = length (filter (\<lambda>a. a ^ n \<le> p) [1, 2, 3, 4, 5, 6])"

definition root_fraction :: "nat \<Rightarrow> nat \<Rightarrow> u32 \<Rightarrow> bool" where
  "root_fraction n p w \<longleftrightarrow>
     (let x = int_root n p * 2 ^ 32 + unat w in x ^ n \<le> p * (2 ^ 32) ^ n \<and> p * (2 ^ 32) ^ n < (x + 1) ^ n)"

lemma root_fraction_word:
  assumes "root_fraction n p w" and "0 < n"
  shows "w = root_word n p"
proof -
  have "root_word n p = of_nat (int_root n p * 2 ^ 32 + unat w)"
    using assms unfolding root_fraction_def Let_def by (intro root_wordI) simp_all
  moreover have "(of_nat (2 ^ 32) :: u32) = 0" by simp
  ultimately show ?thesis by (simp only: of_nat_add of_nat_mult) simp
qed

lemma init_inequalities: "list_all2 (root_fraction 2) (take 8 small_primes) SHA_INIT"
  by (simp add: small_primes_def SHA_INIT_def root_fraction_def int_root_def)

lemma round_inequalities: "list_all2 (root_fraction 3) small_primes SHA_K"
  by (simp add: small_primes_def SHA_K_def root_fraction_def int_root_def)

lemma init_constants: "SHA_INIT = map (root_word 2) (take 8 small_primes)"
proof -
  have "ys = map (root_word 2) xs" if "list_all2 (root_fraction 2) xs ys" for xs ys
    using that by (induction rule: list_all2_induct) (simp_all add: root_fraction_word)
  then show ?thesis using init_inequalities by blast
qed

lemma round_constants: "i < 64 \<Longrightarrow> SHA_K ! i = root_word 3 (small_primes ! i)"
proof -
  assume "i < 64"
  moreover have "length small_primes = 64" by (simp add: small_primes_def)
  ultimately have "root_fraction 3 (small_primes ! i) (SHA_K ! i)" using round_inequalities by (simp add: list_all2_conv_all_nth)
  then show ?thesis by (rule root_fraction_word) simp
qed

lemma schedule_words: "foldl schedule_step (map (message_word block) [0..<16]) [16..<16 + m] = map (message_word block) [0..<16 + m]"
proof (induction m)
  case (Suc m)
  have "schedule_step (map (message_word block) [0..<16 + m]) (16 + m) = map (message_word block) [0..<16 + m] @ [message_word block (16 + m)]"
    using message_word.simps [of block "16 + m"] by (simp add: schedule_step_def Let_def word_functions algebra_simps)
  moreover have "[16..<16 + Suc m] = [16..<16 + m] @ [16 + m]" "[0..<16 + Suc m] = [0..<16 + m] @ [16 + m]"
    unfolding add_Suc_right upt_Suc by simp_all
  ultimately show ?case using Suc by (simp only: foldl_append map_append foldl.simps list.map)
qed simp

lemma schedule_correct: "schedule block = map (message_word block) [0..<64]"
proof -
  have "map (\<lambda>i. from_be (take 4 (drop (i * 4) block))) [0..<16] = map (message_word block) [0..<16]"
    by (intro map_cong) (simp_all add: message_word.simps)
  moreover have "16 + 48 = (64 :: nat)" by simp
  ultimately show ?thesis using schedule_words [of block 48] unfolding schedule_def by (simp only:)
qed

text \<open>The rounds run on a record in the code and on a tuple here.\<close>

definition working_of :: "sha_vars \<Rightarrow> working" where
  "working_of v = (va v, vb v, vc v, vd v, ve v, vf v, vg v, vh v)"

lemma round_mixed: "i < 64 \<Longrightarrow> working_of (sha_round SHA_K (schedule block) v i) = mixed block (working_of v) i"
  by (simp add: working_of_def sha_round_def Let_def word_functions round_constants schedule_correct)

lemma rounds_mixed: "\<forall>i \<in> set is. i < 64 \<Longrightarrow> working_of (foldl (sha_round SHA_K (schedule block)) v is) = foldl (mixed block) (working_of v) is"
  by (induction "is" arbitrary: v) (simp_all add: round_mixed)

lemma compress_length [simp]: "length (compress st b) = 8"
  by (simp add: compress_def Let_def)

lemma list8: "length st = 8 \<Longrightarrow> st = [st ! 0, st ! 1, st ! 2, st ! 3, st ! 4, st ! 5, st ! 6, st ! 7]"
  by (auto simp: list_eq_iff_nth_eq less_Suc_eq numeral_eq_Suc)

lemma compress_standard:
  assumes "length st = 8"
  shows "compress st b = standard_compress st b"
proof -
  define v0 where "v0 = \<lparr>va = st ! 0, vb = st ! 1, vc = st ! 2, vd = st ! 3, ve = st ! 4, vf = st ! 5, vg = st ! 6, vh = st ! 7\<rparr>"
  define v where "v = foldl (sha_round SHA_K (schedule b)) v0 [0..<64]"
  have "foldl (mixed b) (st ! 0, st ! 1, st ! 2, st ! 3, st ! 4, st ! 5, st ! 6, st ! 7) [0..<64] = working_of v"
    unfolding v_def by (subst rounds_mixed) (simp_all add: working_of_def v0_def)
  then have "standard_compress st b = map2 (+) st [va v, vb v, vc v, vd v, ve v, vf v, vg v, vh v]"
    unfolding standard_compress_def working_of_def by simp
  also have "\<dots> = compress st b"
    unfolding compress_def Let_def v0_def [symmetric] v_def [symmetric]
    by (subst list8 [OF assms]) (simp only: list.map zip_Cons_Cons zip_Nil case_prod_conv)
  finally show ?thesis by simp
qed

lemma foldl_standard: "length st = 8 \<Longrightarrow> foldl standard_compress st bs = foldl compress st bs \<and> length (foldl compress st bs) = 8"
proof (induction bs arbitrary: st)
  case (Cons b bs)
  then show ?case using compress_standard [of st b] by (simp add: compress_standard [symmetric])
qed simp

section \<open>The digest is the standard's\<close>

lemma blocks_fold:
  assumes "length xs = m * 64"
  shows "foldl (\<lambda>s i. compress s (take 64 (drop (i * 64) (xs @ ys)))) st [0..<m] = foldl compress st (chunks 64 xs)"
proof -
  have "take 64 (drop (i * 64) (xs @ ys)) = take 64 (drop (i * 64) xs)" if "i < m" for i
  proof -
    have "i * 64 + 64 \<le> length xs" using that assms by (cases m) simp_all
    then show ?thesis by simp
  qed
  then have "foldl (\<lambda>s i. compress s (take 64 (drop (i * 64) (xs @ ys)))) st [0..<m] = foldl (\<lambda>s i. compress s (take 64 (drop (i * 64) xs))) st [0..<m]"
    by (intro foldl_cong [OF refl refl]) (simp only: set_upt atLeastLessThan_iff)
  also have "\<dots> = foldl compress st (map (\<lambda>i. take 64 (drop (i * 64) xs)) [0..<m])" by (simp add: foldl_map)
  finally show ?thesis using chunks_upto [of 64 xs m] assms by simp
qed

text \<open>What the two-block buffer holds.\<close>

lemma tail_block:
  assumes "length r < 64"
  shows "overwrite (length r) [0x80] (overwrite 0 r (replicate 128 0)) = r @ [0x80] @ replicate (127 - length r) 0"
  using assms by (simp add: overwrite_def)

lemma tail_two:
  assumes "length r < 64" and "length l = 8"
  shows "overwrite 120 l (r @ [0x80] @ replicate (127 - length r) 0) = r @ [0x80] @ replicate (119 - length r) 0 @ l"
  using assms by (simp add: overwrite_def take_Cons')

lemma tail_one:
  assumes "length r < 56" and "length l = 8"
  shows "take 64 (overwrite 56 l (r @ [0x80] @ replicate (127 - length r) 0)) = r @ [0x80] @ replicate (55 - length r) 0 @ l"
  using assms by (simp add: overwrite_def take_Cons')

lemma sha256_standard:
  assumes "length data < 2 ^ 61"
  shows "sha256 data = Ok (standard_sha256 data)"
proof -
  define m where "m = length data div 64"
  define a where "a = take (m * 64) data"
  define r where "r = drop (m * 64) data"
  define l where "l = to_be 8 (of_nat (8 * length data) :: u64)"
  define st where "st = foldl compress SHA_INIT (chunks 64 a)"
  have d: "data = a @ r" and a: "length a = m * 64" and r: "length r = length data mod 64" "length r < 64" and l: "length l = 8"
    by (simp_all add: a_def r_def m_def l_def minus_div_mult_eq_mod [symmetric] min_absorb2)
  have mul: "mul64 (of_nat (length data)) 8 = (Ok (of_nat (8 * length data)) :: u64 checked)"
  proof -
    have "uint (of_nat (length data) :: u64) = int (length data)" using assms by (simp add: unsigned_of_nat take_bit_nat_eq_self)
    then show ?thesis using assms by (simp add: mul64_def)
  qed
  have init: "length SHA_INIT = 8" by (simp add: SHA_INIT_def)
  have std: "standard_sha256 data = concat (map (to_be 4) (foldl compress st (chunks 64 (r @ [0x80] @ replicate ((119 - length r) mod 64) 0 @ l))))"
  proof -
    have "pad_message data = a @ (r @ [0x80] @ replicate ((119 - length r) mod 64) 0 @ l)"
      unfolding pad_message_def l_def [symmetric] r(1) [symmetric] by (simp add: d)
    then have "chunks 64 (pad_message data) = chunks 64 a @ chunks 64 (r @ [0x80] @ replicate ((119 - length r) mod 64) 0 @ l)"
      using chunks_append [of 64 a] a by simp
    moreover have "standard_sha256 data = concat (map (to_be 4) (foldl compress SHA_INIT (chunks 64 (pad_message data))))"
      using foldl_standard [OF init] by (simp only: standard_sha256_def init_constants [symmetric])
    ultimately show ?thesis by (simp add: st_def)
  qed
  have st: "foldl (\<lambda>s idx. compress s (take 64 (drop (idx * 64) data))) SHA_INIT [0..<length data div 64] = st"
    using blocks_fold [OF a, of r SHA_INIT] by (simp only: d [symmetric] m_def st_def)
  have r': "drop (length data div 64 * 64) data = r" by (simp add: r_def m_def)
  show ?thesis
  proof (cases "length r \<ge> 56")
    case True
    define t where "t = r @ [0x80] @ replicate (119 - length r) 0 @ l"
    have z: "(119 - length r) mod 64 = 119 - length r" using True r(2) by simp
    have t: "length t = 128" using r(2) l by (simp add: t_def)
    have "t \<noteq> []" using t by auto
    then have "chunks 64 t = [take 64 t, drop 64 t]"
      using chunks_step [of 64 t] chunks_single [of "drop 64 t" 64] t by auto
    then have "standard_sha256 data = concat (map (to_be 4) (compress (compress st (take 64 t)) (drop 64 t)))" unfolding std z t_def [symmetric] by simp
    moreover have "sha256 data = Ok (concat (map (to_be 4) (compress (compress st (take 64 t)) (drop 64 t))))"
      unfolding sha256_def Let_def st r' mul tail_block [OF r(2)] l_def [symmetric] rbind_simps tail_two [OF r(2) l] t_def using True by simp
    ultimately show ?thesis by simp
  next
    case False
    define t where "t = r @ [0x80] @ replicate (55 - length r) 0 @ l"
    have z: "(119 - length r) mod 64 = 55 - length r" using False by (simp add: mod_if)
    have t: "length t = 64" using False l by (simp add: t_def)
    have "t \<noteq> []" using t by auto
    then have "chunks 64 t = [t]" using chunks_single [of t 64] t by auto
    then have "standard_sha256 data = concat (map (to_be 4) (compress st t))" unfolding std z t_def [symmetric] by simp
    moreover have "sha256 data = Ok (concat (map (to_be 4) (compress st t)))"
      using False tail_one [of r l] l unfolding sha256_def Let_def st r' mul tail_block [OF r(2)] l_def [symmetric] rbind_simps t_def by simp
    ultimately show ?thesis by simp
  qed
qed

text \<open>
  C37: The linker's digest is SHA-256: hashing full blocks in place and the rest in a buffer of one or two
  blocks gives the digest of the padded message of the standard, with the message schedule of its
  recurrence, the standard's word functions given bit by bit and its constants given as roots of primes, for
  every input whose length in bits is a 64-bit number.
\<close>

theorem digest_is_sha256:
  assumes "length data < 2 ^ 61"
  shows "sha256 data = Ok (standard_sha256 data)"
  using assms by (rule sha256_standard)

text \<open>The published digest of the message \<^verbatim>\<open>abc\<close>, computed by the code's model.\<close>

definition abc_block :: bytes where
  "abc_block = [0x61, 0x62, 0x63, 0x80] @ replicate 59 0 @ [0x18]"

lemma abc_schedule:
  "schedule abc_block =
    [0x61626380, 0x0, 0x0, 0x0, 0x0, 0x0, 0x0, 0x0, 0x0, 0x0, 0x0, 0x0,
     0x0, 0x0, 0x0, 0x18, 0x61626380, 0xf0000, 0x7da86405, 0x600003c6, 0x3e9d7b78, 0x183fc00, 0x12dcbfdb, 0xe2e2c38e,
     0xc8215c1a, 0xb73679a2, 0xe5bc3909, 0x32663c5b, 0x9d209d67, 0xec8726cb, 0x702138a4, 0xd3b7973b, 0x93f5997f, 0x3b68ba73, 0xaff4ffc1, 0xf10a5c62,
     0xa8b3996, 0x72af830a, 0x9409e33e, 0x24641522, 0x9f47bf94, 0xf0a64f5a, 0x3e246a79, 0x27333ba3, 0xc4763f2, 0x840abf27, 0x7a290d5d, 0x65c43da,
     0xfb3e89cb, 0xcc7617db, 0xb9e66c34, 0xa9993667, 0x84badedd, 0xc21462bc, 0x1487472c, 0xb20f7a99, 0xef57b9cd, 0xebe6b238, 0x9fe3095e, 0x78bc8d4b,
     0xa43fcf15, 0x668b2ff8, 0xeeaba2cc, 0x12b1edeb]"
  by code_simp

lemma abc_rounds:
  "foldl (sha_round SHA_K
    [0x61626380, 0x0, 0x0, 0x0, 0x0, 0x0, 0x0, 0x0, 0x0, 0x0, 0x0, 0x0,
     0x0, 0x0, 0x0, 0x18, 0x61626380, 0xf0000, 0x7da86405, 0x600003c6, 0x3e9d7b78, 0x183fc00, 0x12dcbfdb, 0xe2e2c38e,
     0xc8215c1a, 0xb73679a2, 0xe5bc3909, 0x32663c5b, 0x9d209d67, 0xec8726cb, 0x702138a4, 0xd3b7973b, 0x93f5997f, 0x3b68ba73, 0xaff4ffc1, 0xf10a5c62,
     0xa8b3996, 0x72af830a, 0x9409e33e, 0x24641522, 0x9f47bf94, 0xf0a64f5a, 0x3e246a79, 0x27333ba3, 0xc4763f2, 0x840abf27, 0x7a290d5d, 0x65c43da,
     0xfb3e89cb, 0xcc7617db, 0xb9e66c34, 0xa9993667, 0x84badedd, 0xc21462bc, 0x1487472c, 0xb20f7a99, 0xef57b9cd, 0xebe6b238, 0x9fe3095e, 0x78bc8d4b,
     0xa43fcf15, 0x668b2ff8, 0xeeaba2cc, 0x12b1edeb])
    \<lparr>va = 0x6a09e667, vb = 0xbb67ae85, vc = 0x3c6ef372, vd = 0xa54ff53a, ve = 0x510e527f, vf = 0x9b05688c, vg = 0x1f83d9ab, vh = 0x5be0cd19\<rparr> [0..<64]
   = \<lparr>va = 0x506e3058, vb = 0xd39a2165, vc = 0x4d24d6c, vd = 0xb85e2ce9, ve = 0x5ef50f24, vf = 0xfb121210, vg = 0x948d25b6, vh = 0x961f4894\<rparr>"
  by code_simp

lemma abc_digest:
  "sha256 [0x61, 0x62, 0x63] = Ok
    [0xba, 0x78, 0x16, 0xbf, 0x8f, 0x1, 0xcf, 0xea, 0x41, 0x41, 0x40, 0xde, 0x5d, 0xae, 0x22, 0x23,
     0xb0, 0x3, 0x61, 0xa3, 0x96, 0x17, 0x7a, 0x9c, 0xb4, 0x10, 0xff, 0x61, 0xf2, 0x0, 0x15, 0xad]"
proof -
  have n: "SHA_INIT ! 0 = 0x6a09e667" "SHA_INIT ! 1 = 0xbb67ae85" "SHA_INIT ! 2 = 0x3c6ef372" "SHA_INIT ! 3 = 0xa54ff53a"
    "SHA_INIT ! 4 = 0x510e527f" "SHA_INIT ! 5 = 0x9b05688c" "SHA_INIT ! 6 = 0x1f83d9ab" "SHA_INIT ! 7 = 0x5be0cd19"
    by (simp_all add: SHA_INIT_def)
  have "compress SHA_INIT abc_block = [0xba7816bf, 0x8f01cfea, 0x414140de, 0x5dae2223, 0xb00361a3, 0x96177a9c, 0xb410ff61, 0xf20015ad]"
    unfolding compress_def Let_def n abc_schedule abc_rounds by code_simp
  moreover have "sha256 [0x61, 0x62, 0x63] = Ok (concat (map (to_be 4) (compress SHA_INIT abc_block)))"
  proof -
    have b: "take 64 (overwrite 56 (to_be 8 (24 :: u64)) (overwrite (Suc (Suc (Suc 0))) [0x80] (overwrite 0 [0x61, 0x62, 0x63] (replicate 128 0)))) = abc_block"
      by code_simp
    have "mul64 (of_nat (length [0x61, 0x62, 0x63 :: u8])) 8 = (Ok 24 :: u64 checked)" by (simp add: mul64_def)
    then show ?thesis unfolding sha256_def Let_def by (simp add: b)
  qed
  moreover have "concat (map (to_be 4) ([0xba7816bf, 0x8f01cfea, 0x414140de, 0x5dae2223, 0xb00361a3, 0x96177a9c, 0xb410ff61, 0xf20015ad] :: u32 list)) =
    [0xba, 0x78, 0x16, 0xbf, 0x8f, 0x1, 0xcf, 0xea, 0x41, 0x41, 0x40, 0xde, 0x5d, 0xae, 0x22, 0x23,
     0xb0, 0x3, 0x61, 0xa3, 0x96, 0x17, 0x7a, 0x9c, 0xb4, 0x10, 0xff, 0x61, 0xf2, 0x0, 0x15, 0xad]" by code_simp
  ultimately show ?thesis by (simp only:)
qed

theorem digest_is_sha256_witness:
  "standard_sha256 [0x61, 0x62, 0x63] =
    [0xba, 0x78, 0x16, 0xbf, 0x8f, 0x1, 0xcf, 0xea, 0x41, 0x41, 0x40, 0xde, 0x5d, 0xae, 0x22, 0x23,
     0xb0, 0x3, 0x61, 0xa3, 0x96, 0x17, 0x7a, 0x9c, 0xb4, 0x10, 0xff, 0x61, 0xf2, 0x0, 0x15, 0xad]"
  using digest_is_sha256 [of "[0x61, 0x62, 0x63]"] by (simp add: abc_digest)

section \<open>Verification of a blob\<close>

definition be32_at :: "bytes \<Rightarrow> nat \<Rightarrow> nat" where
  "be32_at b off = unat (from_be (take 4 (drop off b)) :: u32)"

text \<open>
  What the system checks when it maps a signed file: the magic numbers, the version and the flags (ad hoc, signed by
  the linker), that the hashes are 32 bytes of SHA-256 over pages of the stored size, that the code directory covers the
  file with one hash per page, and each page against the hash at its slot.
\<close>

definition signature_accepts :: "bytes \<Rightarrow> bytes \<Rightarrow> bool" where
  "signature_accepts blob file \<longleftrightarrow>
     (let cd = drop (be32_at blob 16) blob; pages = chunks (2 ^ unat (cd ! 39)) file in
      be32_at blob 0 = 0xfade0cc0 \<and> be32_at blob 4 \<le> length blob \<and> be32_at blob 8 = 1 \<and> be32_at blob 12 = 0
      \<and> be32_at cd 0 = 0xfade0c02 \<and> be32_at cd 4 \<le> length cd \<and> be32_at cd 8 = 0x20400 \<and> be32_at cd 12 = 0x20002
      \<and> cd ! 36 = 32 \<and> cd ! 37 = 2 \<and> be32_at cd 32 = length file \<and> be32_at cd 28 = length pages
      \<and> (\<forall>i < length pages. take 32 (drop (be32_at cd 16 + 32 * i) cd) = standard_sha256 (pages ! i)))"

lemma word_at:
  "i < length ws \<Longrightarrow> take 4 (drop (4 * i) (concat (map (to_be 4) ws) @ rest)) = to_be 4 (ws ! i)"
proof (induction ws arbitrary: i)
  case (Cons w ws)
  then show ?case by (cases i) simp_all
qed simp

lemma block_at:
  assumes "\<forall>b \<in> set bs. length b = n"
  shows "i < length bs \<Longrightarrow> take n (drop (n * i) (concat bs @ rest)) = bs ! i"
  using assms
proof (induction bs arbitrary: i)
  case (Cons b bs)
  then show ?case by (cases i) simp_all
qed simp

lemma standard_digest_length [simp]: "length (standard_sha256 data) = 32"
proof -
  have "length (foldl standard_compress SHA_INIT (chunks 64 (pad_message data))) = 8"
    using foldl_standard [of SHA_INIT "chunks 64 (pad_message data)"] by (simp add: SHA_INIT_def)
  moreover have "length (concat (map (to_be 4) xs)) = 4 * length xs" for xs :: "u32 list" by (induction xs) simp_all
  ultimately show ?thesis by (simp add: standard_sha256_def init_constants [symmetric])
qed

lemma pages_hashed:
  assumes "length file < 2 ^ 32"
  shows "page_hashes file jobs = Ok (map standard_sha256 (chunks SIGN_PAGE_SIZE file))"
proof -
  have "sha256 c = Ok (standard_sha256 c)" if h: "c \<in> set (chunks SIGN_PAGE_SIZE file)" for c
  proof (rule sha256_standard)
    obtain i where "i < length (chunks SIGN_PAGE_SIZE file)" "c = chunks SIGN_PAGE_SIZE file ! i" using h by (auto simp: in_set_conv_nth)
    then have "length c \<le> SIGN_PAGE_SIZE" by (simp add: chunks_nth)
    then show "length c < 2 ^ 61" by simp
  qed
  then show ?thesis unfolding page_hashes_serial by (rule mapM_Ok_map)
qed

lemma sign_align_Ok: "align_up v 8 = Ok r \<Longrightarrow> sign_align_up v 8 = Ok r"
  by (auto simp: align_up_def sign_align_up_def add64_def Let_def split: if_splits)

lemma align8:
  assumes "n + 8 \<le> 2 ^ 64"
  obtains r where "sign_align_up (of_nat n) 8 = Ok r" and "unat r = round_up 8 n"
proof -
  have u: "unat (of_nat n :: u64) = n" using assms by (simp add: unat_of_nat)
  have e: "push_bit 3 1 = (8 :: u64)" by simp
  obtain r where r: "align_up (of_nat n) 8 = Ok r" using align_up_pow_total [of 3 "of_nat n"] assms u unfolding e by auto
  then have "unat r = round_up 8 n" using align_up_pow_Ok [of 3 "of_nat n" r] u unfolding e by simp
  then show thesis using that sign_align_Ok [OF r] by blast
qed

text \<open>The header: fourteen words, four bytes, and 48 more up to the identifier.\<close>

definition blob_header :: "code_signature_plan \<Rightarrow> nat \<Rightarrow> nat \<Rightarrow> bytes" where
  "blob_header p cd_len slots =
     concat (map (to_be 4) [0xfade0cc0, of_nat (20 + cd_len), 1, 0, 20, 0xfade0c02, of_nat cd_len, 0x00020400, 0x00020002,
       of_nat (89 + length (cp_identifier p)), 88, 0, of_nat slots, cp_code_limit p :: u32])
     @ [32, 2, 0, 12] @ concat (map (to_be 4) [0, 0, 0, 0 :: u32])
     @ concat (map (to_be 8) [0, cp_exec_seg_base p, cp_exec_seg_limit p, cp_exec_seg_flags p])"

lemma blob_header_length: "length (blob_header p cd_len slots) = 108"
  by (simp add: blob_header_def)

lemma header_word:
  assumes "i < 14"
  shows "be32_at (blob_header p cd_len slots @ rest) (4 * i)
    = unat ([0xfade0cc0, of_nat (20 + cd_len), 1, 0, 20, 0xfade0c02, of_nat cd_len, 0x00020400, 0x00020002,
       of_nat (89 + length (cp_identifier p)), 88, 0, of_nat slots, cp_code_limit p :: u32] ! i)"
  unfolding be32_at_def blob_header_def append_assoc
  by (subst word_at) (use assms in simp_all)

lemma build_shape:
  assumes "length file = unat (cp_code_limit p)" and "page_hashes file jobs = Ok hs"
    and "cd_len = 89 + length (cp_identifier p) + length (chunks SIGN_PAGE_SIZE file) * 32"
    and "sign_align_up (of_nat (20 + cd_len)) 8 = (Ok r :: u64 checked)" and "unat r = round_up 8 (20 + cd_len)"
    and "length (concat hs) = length (chunks SIGN_PAGE_SIZE file) * 32"
  shows "build_with_jobs p file jobs = Ok (blob_header p cd_len (length (chunks SIGN_PAGE_SIZE file))
    @ cp_identifier p @ [0] @ concat hs @ replicate (round_up 8 (20 + cd_len) - (20 + cd_len)) 0)"
proof -
  have slots: "code_slots (unat (cp_code_limit p)) = length (chunks SIGN_PAGE_SIZE file)"
    using assms(1) chunks_length [of 4096 "file"] by (cases "length file = 0") (simp_all add: code_slots_def div_ceil_def)
  define body where "body = blob_header p cd_len (length (chunks SIGN_PAGE_SIZE file)) @ cp_identifier p @ [0] @ concat hs"
  have len: "length body = 20 + cd_len" using assms(3,6) by (simp add: body_def blob_header_length)
  have "resize (unat r) body = body @ replicate (round_up 8 (20 + cd_len) - (20 + cd_len)) 0"
    using len assms(5) round_up_bounds [of 8 "20 + cd_len"] by (simp add: resize_def)
  moreover have "build_with_jobs p file jobs = Ok (resize (unat r) body)"
  proof -
    have n: "88 + (length (cp_identifier p) + 1) = 89 + length (cp_identifier p)"
      "89 + length (cp_identifier p) + length (chunks SIGN_PAGE_SIZE file) * unat (32 :: u8) = cd_len"
      "(length file \<noteq> unat (cp_code_limit p)) = False" "0x00000002 OR 0x00020000 = (0x00020002 :: u32)"
      "of_nat 20 = (20 :: u32)" "of_nat 88 = (88 :: u32)"
      using assms(1,3) by simp_all
    show ?thesis
      unfolding build_with_jobs_def Let_def slots n if_False assms(2,4) rbind_simps body_def blob_header_def push_be_u32_def push_be_u64_def
      by (simp only: if_False list.map concat.simps append_assoc append_Nil append_Nil2 append_Cons)
  qed
  ultimately show ?thesis by (simp add: body_def)
qed


lemma plan_signature_Ok:
  assumes "plan_signature ly output limit ex = Ok p"
  obtains ident len where "limit < 0x100000000" and "cp_code_limit p = ucast limit" and "cp_identifier p = ident"
    and "(blob_len (unat limit) ident :: (code_signature_error, u64) result) = Ok len"
    and "len < 0x100000000" and "cp_datasize p = ucast len" and "cp_dataoff p = ucast limit"
proof -
  have u: "unat (ucast limit :: u32) = unat limit" if "limit < 0x100000000"
  proof -
    have "unat limit < 2 ^ 32" using that by (simp add: word_less_nat_alt)
    then show ?thesis by (simp add: unsigned_ucast_eq take_bit_nat_eq_self)
  qed
  show thesis
    using assms that u unfolding plan_signature_def Let_def
    by (auto split: if_splits option.splits result.splits simp: rbind_def ok_or_def not_le)
qed


lemma be32_at_drop: "be32_at (drop m b) k = be32_at b (m + k)"
  by (simp add: be32_at_def add.commute)

text \<open>A blob of that shape, of a length that fits its fields, is accepted.\<close>

lemma shape_accepted:
  assumes "length file = unat (cp_code_limit p)"
    and "cd_len = 89 + length (cp_identifier p) + length (chunks SIGN_PAGE_SIZE file) * 32" and "20 + cd_len < 2 ^ 32"
    and b: "blob = blob_header p cd_len (length (chunks SIGN_PAGE_SIZE file))
      @ cp_identifier p @ [0] @ concat (map standard_sha256 (chunks SIGN_PAGE_SIZE file)) @ pad"
  shows "signature_accepts blob file"
proof -
  let ?hs = "map standard_sha256 (chunks SIGN_PAGE_SIZE file)"
  note w = header_word [of _ p cd_len "length (chunks SIGN_PAGE_SIZE file)" "cp_identifier p @ [0] @ concat ?hs @ pad", folded b]
  have u: "unat (of_nat n :: u32) = n" if "n < 2 ^ 32" for n using that by (simp add: unat_of_nat)
  have len: "20 + cd_len \<le> length blob"
  proof -
    have "length (concat (map standard_sha256 cs)) = length cs * 32" for cs by (induction cs) simp_all
    then show ?thesis using assms(2) by (simp add: b blob_header_length)
  qed
  have fits: "89 + length (cp_identifier p) < 2 ^ 32" "length (chunks SIGN_PAGE_SIZE file) < 2 ^ 32" "cd_len < 2 ^ 32"
    using assms(2,3) by simp_all
  have words: "be32_at blob 0 = 0xfade0cc0" "be32_at blob 8 = 1" "be32_at blob 12 = 0" "be32_at blob 16 = 20" "be32_at blob 20 = 0xfade0c02"
    "be32_at blob 28 = 0x20400" "be32_at blob 32 = 0x20002"
    using w [of 0] w [of 2] w [of 3] w [of 4] w [of 5] w [of 7] w [of 8] by simp_all
  have "take 4 (drop 56 blob) = [32, 2, 0, 12]" by (simp add: b blob_header_def)
  then have h: "drop 20 blob ! 36 = 32" "drop 20 blob ! 37 = 2" "drop 20 blob ! 39 = 12"
    using len by (auto simp: take_Suc_conv_app_nth numeral_eq_Suc list_eq_iff_nth_eq)
  have pg: "2 ^ unat (12 :: u8) = SIGN_PAGE_SIZE" by simp
  have sizes: "be32_at blob 4 = 20 + cd_len" "be32_at blob 24 = cd_len" "be32_at blob 36 = 89 + length (cp_identifier p)"
    "be32_at blob 48 = length (chunks SIGN_PAGE_SIZE file)" "be32_at blob 52 = length file"
    using w [of 1] w [of 6] w [of 9] w [of 12] w [of 13] u [OF assms(3)] u [OF fits(1)] u [OF fits(2)] u [OF fits(3)] assms(1)
    by (simp_all del: of_nat_add)
  have slot: "take 32 (drop (20 + (89 + length (cp_identifier p) + 32 * i)) blob) = standard_sha256 (chunks SIGN_PAGE_SIZE file ! i)"
    if "i < length (chunks SIGN_PAGE_SIZE file)" for i
  proof -
    have "drop (20 + (89 + length (cp_identifier p) + 32 * i)) blob = drop (32 * i) (concat ?hs @ pad)"
      by (simp add: b blob_header_length)
    then show ?thesis using block_at [of ?hs 32 i pad] that by simp
  qed
  show ?thesis
    unfolding signature_accepts_def Let_def words(4) h pg be32_at_drop drop_drop add.commute [of _ 20]
    using words sizes len slot by simp
qed

lemma plan_bounds:
  assumes p: "plan_signature ly output (of_nat (length file)) ex = Ok p"
    and "length file < 2 ^ 64" and "length (cp_identifier p) < 2 ^ 63"
    and cd: "cd_len = 89 + length (cp_identifier p) + length (chunks SIGN_PAGE_SIZE file) * 32"
  obtains r where "length file < 2 ^ 32" and "length file = unat (cp_code_limit p)"
    and "sign_align_up (of_nat (20 + cd_len)) 8 = (Ok r :: u64 checked)" and "unat r = round_up 8 (20 + cd_len)"
    and "20 + cd_len < 2 ^ 32" and "unat (cp_datasize p) = round_up 8 (20 + cd_len)"
proof -
  have uf: "unat (of_nat (length file) :: u64) = length file" using assms(2) by (simp add: unat_of_nat)
  obtain ident len where q: "of_nat (length file) < (0x100000000 :: u64)" "cp_code_limit p = ucast (of_nat (length file) :: u64)"
    "cp_identifier p = ident" "(blob_len (length file) ident :: (code_signature_error, u64) result) = Ok len"
    "len < 0x100000000" "cp_datasize p = ucast len"
    using plan_signature_Ok [OF p, unfolded uf] by metis
  have f: "length file < 2 ^ 32" using q(1) uf by (simp add: word_less_nat_alt)
  have c: "length (chunks SIGN_PAGE_SIZE file) \<le> 2 ^ 20"
  proof -
    have "length file div 4096 < 2 ^ 20" using f by (simp add: div_less_iff_less_mult)
    then show ?thesis using chunks_length [of 4096 "file"] by (simp add: div_ceil_def)
  qed
  have slots: "code_slots (length file) = length (chunks SIGN_PAGE_SIZE file)"
    using chunks_length [of 4096 "file"] by (cases "length file = 0") (simp_all add: code_slots_def div_ceil_def)
  have n: "20 + cd_len + 8 \<le> 2 ^ 64" using c assms(3) by (simp add: cd)
  obtain r where r: "sign_align_up (of_nat (20 + cd_len)) 8 = (Ok r :: u64 checked)" "unat r = round_up 8 (20 + cd_len)"
    using align8 [OF n] by blast
  obtain r' where r': "sign_align_up (of_nat (20 + cd_len)) 8 = (Ok r' :: (code_signature_error, u64) result)" "unat r' = round_up 8 (20 + cd_len)"
    using align8 [OF n] by blast
  have e: "20 + (88 + length ident + 1 + length (chunks SIGN_PAGE_SIZE file) * unat (32 :: u8)) = 20 + cd_len" using q(3) by (simp add: cd)
  have "len = r'" using q(4) r'(1) unfolding blob_len_def slots e by simp
  then have l: "round_up 8 (20 + cd_len) < 2 ^ 32" "unat (ucast len :: u32) = round_up 8 (20 + cd_len)"
    using q(5) r'(2) by (simp_all add: word_less_nat_alt unsigned_ucast_eq take_bit_nat_eq_self)
  have "20 + cd_len < 2 ^ 32" using l(1) round_up_bounds(1) [of 8 "20 + cd_len"] by simp
  moreover have "length file = unat (cp_code_limit p)" using q(2) uf f by (simp add: unsigned_ucast_eq take_bit_nat_eq_self)
  ultimately show thesis using that f r l q(6) by simp
qed

text \<open>
  C38: A planned signature can be built and verifies: whatever number of threads hashes the pages, the blob has
  exactly the size the plan reserved for it, and a verifier that follows the offsets in the blob finds the version,
  flags, hash kind and page size of an ad-hoc signature, one
  hash per page of the file and the SHA-256 digest of every page at its slot.
\<close>

theorem signature_verifies:
  assumes "plan_signature ly output (of_nat (length file)) ex = Ok p"
    and "length file < 2 ^ 64" and "length (cp_identifier p) < 2 ^ 63"
  shows "\<exists>blob. build_with_jobs p file jobs = Ok blob \<and> length blob = unat (cp_datasize p) \<and> signature_accepts blob file"
proof -
  define cd_len where "cd_len = 89 + length (cp_identifier p) + length (chunks SIGN_PAGE_SIZE file) * 32"
  obtain r where r: "length file < 2 ^ 32" "length file = unat (cp_code_limit p)"
    "sign_align_up (of_nat (20 + cd_len)) 8 = (Ok r :: u64 checked)" "unat r = round_up 8 (20 + cd_len)"
    "20 + cd_len < 2 ^ 32" "unat (cp_datasize p) = round_up 8 (20 + cd_len)"
    using plan_bounds [OF assms cd_len_def] .
  have hs: "length (concat (map standard_sha256 cs)) = length cs * 32" for cs by (induction cs) simp_all
  define pad where "pad = round_up 8 (20 + cd_len) - (20 + cd_len)"
  define blob where "blob = blob_header p cd_len (length (chunks SIGN_PAGE_SIZE file)) @ cp_identifier p @ [0]
    @ concat (map standard_sha256 (chunks SIGN_PAGE_SIZE file)) @ replicate pad 0"
  have "build_with_jobs p file jobs = Ok blob"
    unfolding blob_def pad_def by (rule build_shape [OF r(2) pages_hashed [OF r(1)] cd_len_def r(3,4) hs])
  moreover have "length blob = round_up 8 (20 + cd_len)"
  proof -
    have "length blob = 20 + cd_len + pad"
      unfolding blob_def length_append length_replicate hs blob_header_length using cd_len_def by simp
    moreover have "20 + cd_len \<le> round_up 8 (20 + cd_len)" by (rule round_up_bounds(1)) simp
    ultimately show ?thesis unfolding pad_def by (simp only: le_add_diff_inverse)
  qed
  moreover have "signature_accepts blob file" by (rule shape_accepted [OF r(2) cd_len_def r(5) blob_def])
  ultimately show ?thesis using r(6) by (intro exI [of _ blob]) simp
qed


definition sign_sample :: layout where
  "sign_sample = \<lparr>ly_kind = Executable,
     ly_segments = [\<lparr>og_name = bstr ''__TEXT'', og_sections = [], og_vm_addr = 0x100000000, og_vm_size = 0x4000,
       og_file_off = 0, og_file_size = 0x4000, og_init_prot = PROT_READ_EXECUTE, og_max_prot = PROT_READ_EXECUTE, og_flags = 0\<rparr>],
     ly_sections = []\<rparr>"

theorem signature_verifies_witness:
  "\<exists>p blob. plan_signature sign_sample None 3 True = Ok p \<and> build_with_jobs p [1, 2, 3] 4 = Ok blob
     \<and> length blob = unat (cp_datasize p) \<and> signature_accepts blob [1, 2, 3]"
proof -
  have p: "plan_signature sign_sample None 3 True = Ok \<lparr>cp_dataoff = 3, cp_datasize = 152, cp_code_limit = 3, cp_identifier = bstr ''a.out'',
      cp_exec_seg_base = 0, cp_exec_seg_limit = 0x4000, cp_exec_seg_flags = 1\<rparr>" (is "_ = Ok ?p")
    by code_simp
  have "length (cp_identifier ?p) < 2 ^ 63" by (simp add: bstr_def)
  then show ?thesis using signature_verifies [of sign_sample None "[1, 2, 3]" True ?p 4] p by auto
qed

end
