(* ===== verification/Unwind_Table.thy ===== *)
theory Unwind_Table
  imports Inputs Layout
begin

unbundle bit_operations_syntax

text \<open>
  The format of \<^verbatim>\<open>__unwind_info\<close> in \<^verbatim>\<open>src/synth/unwind.rs\<close>: compact-unwind records are given their personality
  and their data areas, packed into compressed pages under a first-level index, and read back. The order in
  which the hash map of encodings is walked is an argument (\<open>order\<close>).
\<close>

section \<open>Records\<close>

abbreviation (input) UNWIND_INFO_VERSION :: u32 where "UNWIND_INFO_VERSION \<equiv> 1"
abbreviation (input) UNWIND_SECOND_LEVEL_COMPRESSED :: u32 where "UNWIND_SECOND_LEVEL_COMPRESSED \<equiv> 3"
abbreviation (input) MAX_COMPRESSED_FUNCTION_DELTA :: u32 where "MAX_COMPRESSED_FUNCTION_DELTA \<equiv> 0xFFFFFF"
abbreviation (input) MAX_COMPRESSED_ENCODING_INDEX :: nat where "MAX_COMPRESSED_ENCODING_INDEX \<equiv> 255"
abbreviation (input) FIRST_LEVEL_ENTRY_SIZE :: nat where "FIRST_LEVEL_ENTRY_SIZE \<equiv> 12"
abbreviation (input) COMPRESSED_PAGE_HEADER_SIZE :: nat where "COMPRESSED_PAGE_HEADER_SIZE \<equiv> 12"
abbreviation (input) UNWIND_PAGE_SIZE :: nat where "UNWIND_PAGE_SIZE \<equiv> 4096"
abbreviation (input) UNWIND_HAS_LSDA :: u32 where "UNWIND_HAS_LSDA \<equiv> 0x40000000"
abbreviation (input) UNWIND_PERSONALITY_MASK :: u32 where "UNWIND_PERSONALITY_MASK \<equiv> 0x30000000"
abbreviation (input) UNWIND_PERSONALITY_SHIFT :: nat where "UNWIND_PERSONALITY_SHIFT \<equiv> 28"

datatype unwind_read_error =
    UnwindTruncated str
  | UnsupportedVersion u32
  | UnsupportedSecondLevelPageKind u32
  | BadFirstLevelIndexOrder u32 u32
  | BadEncodingIndex u32 u32
  | TooManyPersonalities nat

type_synonym 'a unwound = "(unwind_read_error, 'a) result"

record unwind_record =
  ur_function_offset :: u32
  ur_code_len :: u32
  ur_encoding :: u32
  ur_personality_offset :: "u32 option"
  ur_lsda_offset :: "u32 option"

record lsda_record =
  lr_function_offset :: u32
  lr_lsda_offset :: u32

record compressed_page =
  pg_start_function_offset :: u32
  pg_entries :: "u32 list"
  pg_local_encodings :: "u32 list"

record decoded_unwind_record =
  dr_function_offset :: u32
  dr_encoding :: u32

record decoded_lsda_record =
  dl_function_offset :: u32
  dl_lsda_offset :: u32

record decoded_unwind_info =
  di_version :: u32
  di_personalities :: "u32 list"
  di_lsdas :: "decoded_lsda_record list"
  di_records :: "decoded_unwind_record list"

section \<open>Personalities and data areas\<close>

record finalizing =
  fz_personalities :: "u32 list"
  fz_records :: "unwind_record list"
  fz_lsdas :: "lsda_record list"
  fz_index :: "u32 \<rightharpoonup> u32"

definition finalizing_new :: finalizing where
  "finalizing_new = \<lparr>fz_personalities = [], fz_records = [], fz_lsdas = [], fz_index = Map.empty\<rparr>"

definition intern_personality :: "u32 \<Rightarrow> finalizing \<Rightarrow> (u32 \<times> finalizing) unwound" where
  "intern_personality off s =
     (case fz_index s off of
        Some i \<Rightarrow> Ok (i, s)
      | None \<Rightarrow>
          if length (fz_personalities s) = 3 then Err (TooManyPersonalities (length (fz_personalities s) + 1))
          else
            let ps = fz_personalities s @ [off]; i = of_nat (length ps) in
            Ok (i, s\<lparr>fz_personalities := ps, fz_index := (fz_index s)(off \<mapsto> i)\<rparr>))"

definition finalize_one :: "unwind_record \<Rightarrow> finalizing \<Rightarrow> finalizing unwound" where
  "finalize_one r s =
     (let e = ur_encoding r AND NOT UNWIND_PERSONALITY_MASK in
      rbind (case ur_personality_offset r of
               None \<Rightarrow> Ok (e, s)
             | Some off \<Rightarrow> rbind (intern_personality off s) (\<lambda>(i, s). Ok (e OR push_bit UNWIND_PERSONALITY_SHIFT i, s))) (\<lambda>(e, s).
      let (e, s) =
            (case ur_lsda_offset r of
               Some l \<Rightarrow>
                 (e OR UNWIND_HAS_LSDA,
                  s\<lparr>fz_lsdas := fz_lsdas s @ [\<lparr>lr_function_offset = ur_function_offset r, lr_lsda_offset = l\<rparr>]\<rparr>)
             | None \<Rightarrow> (e AND NOT UNWIND_HAS_LSDA, s)) in
      Ok (s\<lparr>fz_records := fz_records s @ [r\<lparr>ur_encoding := e\<rparr>]\<rparr>)))"

definition finalize_unwind_records :: "unwind_record list \<Rightarrow> (unwind_record list \<times> u32 list \<times> lsda_record list) unwound" where
  "finalize_unwind_records records =
     rbind (seed_each finalize_one records finalizing_new) (\<lambda>s. Ok (fz_records s, fz_personalities s, fz_lsdas s))"

section \<open>Common encodings\<close>

type_synonym encoding_stats = "(u32 \<times> u32 \<times> nat) list"

fun count_encoding :: "u32 \<Rightarrow> nat \<Rightarrow> encoding_stats \<Rightarrow> encoding_stats unwound" where
  "count_encoding e i [] = Ok [(e, 1, i)]"
| "count_encoding e i ((e', n, j) # xs) =
     (if e' = e then rbind (add32 n 1) (\<lambda>n. Ok ((e', n, j) # xs))
      else rbind (count_encoding e i xs) (\<lambda>ys. Ok ((e', n, j) # ys)))"

fun common_cmp :: "u32 \<times> u32 \<times> nat \<Rightarrow> u32 \<times> u32 \<times> nat \<Rightarrow> ordering" where
  "common_cmp (_, n, i) (_, m, j) = then_with (cmp m n) (cmp i j)"

definition select_common_encodings :: "(encoding_stats \<Rightarrow> encoding_stats) \<Rightarrow> unwind_record list \<Rightarrow> u32 list unwound" where
  "select_common_encodings order records =
     rbind (seed_each (\<lambda>(i, r). count_encoding (ur_encoding r) i) (enumerate 0 records) []) (\<lambda>stats.
     Ok (map fst (take 127 (sort_by common_cmp (filter (\<lambda>(_, n, _). n > 1) (order stats))))))"

section \<open>Pages\<close>

definition page_new :: "unwind_record \<Rightarrow> compressed_page" where
  "page_new r = \<lparr>pg_start_function_offset = ur_function_offset r, pg_entries = [], pg_local_encodings = []\<rparr>"

definition common_indices :: "u32 list \<Rightarrow> u32 \<rightharpoonup> nat" where
  "common_indices common = map_of (rev (map (\<lambda>(i, e). (e, i)) (enumerate 0 common)))"

definition needs_local_encoding :: "u32 list \<Rightarrow> compressed_page \<Rightarrow> u32 \<Rightarrow> bool" where
  "needs_local_encoding common page e \<longleftrightarrow> common_indices common e = None \<and> e \<notin> set (pg_local_encodings page)"

definition page_delta :: "compressed_page \<Rightarrow> unwind_record \<Rightarrow> u32" where
  "page_delta page r = saturating_sub (ur_function_offset r) (pg_start_function_offset page)"

definition page_full :: "u32 list \<Rightarrow> compressed_page \<Rightarrow> unwind_record \<Rightarrow> bool" where
  "page_full common page r \<longleftrightarrow>
     (let prospective = length (pg_local_encodings page) + (if needs_local_encoding common page (ur_encoding r) then 1 else 0) in
      pg_entries page \<noteq> []
      \<and> (COMPRESSED_PAGE_HEADER_SIZE + (length (pg_entries page) + 1) * 4 + prospective * 4 > UNWIND_PAGE_SIZE
         \<or> page_delta page r > MAX_COMPRESSED_FUNCTION_DELTA
         \<or> length common + prospective > MAX_COMPRESSED_ENCODING_INDEX + 1))"

definition encoding_slot :: "u32 list \<Rightarrow> compressed_page \<Rightarrow> u32 \<Rightarrow> nat \<times> compressed_page" where
  "encoding_slot common page e =
     (case common_indices common e of
        Some i \<Rightarrow> (i, page)
      | None \<Rightarrow>
          (case position (\<lambda>x. x = e) (pg_local_encodings page) of
             Some i \<Rightarrow> (length common + i, page)
           | None \<Rightarrow>
               let ls = pg_local_encodings page @ [e] in
               (length common + length ls - 1, page\<lparr>pg_local_encodings := ls\<rparr>)))"

definition add_entry :: "u32 list \<Rightarrow> compressed_page \<Rightarrow> unwind_record \<Rightarrow> compressed_page" where
  "add_entry common page r =
     (let delta = page_delta page r; (i, page) = encoding_slot common page (ur_encoding r) in
      page\<lparr>pg_entries := pg_entries page @ [push_bit 24 (of_nat i) OR delta]\<rparr>)"

text \<open>The inner loop: a full page is closed and the record tried again on a new one.\<close>

function place_record ::
  "u32 list \<Rightarrow> unwind_record \<Rightarrow> compressed_page list \<Rightarrow> compressed_page option \<Rightarrow> compressed_page list \<times> compressed_page option" where
  "place_record common r pages cur =
     (let page = (case cur of None \<Rightarrow> page_new r | Some p \<Rightarrow> p) in
      if page_full common page r then place_record common r (pages @ [page]) None
      else (pages, Some (add_entry common page r)))"
  by pat_completeness auto
termination
  by (relation "measure (\<lambda>(common, r, pages, cur). case cur of None \<Rightarrow> 0 | Some _ \<Rightarrow> 1)")
    (auto simp: page_full_def page_new_def split: option.splits)

declare place_record.simps [simp del]

fun place_records ::
  "u32 list \<Rightarrow> unwind_record list \<Rightarrow> compressed_page list \<times> compressed_page option \<Rightarrow> compressed_page list \<times> compressed_page option" where
  "place_records common [] s = s"
| "place_records common (r # rs) (pages, cur) = place_records common rs (place_record common r pages cur)"

definition build_pages :: "unwind_record list \<Rightarrow> u32 list \<Rightarrow> compressed_page list" where
  "build_pages records common =
     (case place_records common records ([], None) of
        (pages, None) \<Rightarrow> pages
      | (pages, Some page) \<Rightarrow> pages @ [page])"

section \<open>Writing\<close>

definition add16 :: "u16 \<Rightarrow> u16 \<Rightarrow> ('e, u16) result" where
  "add16 a b = (if uint a + uint b < 2 ^ 16 then Ok (a + b) else Panic)"

definition mul32 :: "u32 \<Rightarrow> u32 \<Rightarrow> ('e, u32) result" where
  "mul32 a b = (if uint a * uint b < 2 ^ 32 then Ok (a * b) else Panic)"

text \<open>\<^verbatim>\<open>while out.len() < n\<close> and \<^verbatim>\<open>while !out.len().is_multiple_of(n)\<close>\<close>

definition pad_until :: "nat \<Rightarrow> bytes \<Rightarrow> bytes" where
  "pad_until n b = b @ replicate (n - length b) 0"

definition pad_multiple :: "nat \<Rightarrow> bytes \<Rightarrow> bytes" where
  "pad_multiple n b = b @ replicate ((n - length b mod n) mod n) 0"

definition serialize_compressed_page :: "compressed_page \<Rightarrow> bytes unwound" where
  "serialize_compressed_page page =
     rbind (add16 (of_nat COMPRESSED_PAGE_HEADER_SIZE) (of_nat (length (pg_entries page) * 4))) (\<lambda>encoding_offset.
     Ok (pad_multiple 4
       (to_le 4 UNWIND_SECOND_LEVEL_COMPRESSED
        @ to_le 2 (of_nat COMPRESSED_PAGE_HEADER_SIZE :: u16) @ to_le 2 (of_nat (length (pg_entries page)) :: u16)
        @ to_le 2 encoding_offset @ to_le 2 (of_nat (length (pg_local_encodings page)) :: u16)
        @ concat (map (to_le 4) (pg_entries page)) @ concat (map (to_le 4) (pg_local_encodings page)))))"

definition skip_lsdas :: "u32 \<Rightarrow> lsda_record list \<Rightarrow> nat \<Rightarrow> nat" where
  "skip_lsdas bound lsdas i = i + length (takeWhile (\<lambda>l. lr_function_offset l < bound) (drop i lsdas))"

definition lsda_offset_at :: "nat \<Rightarrow> nat \<Rightarrow> u32 unwound" where
  "lsda_offset_at lsdas_offset i = rbind (mul32 (of_nat i) 8) (add32 (of_nat lsdas_offset))"

fun write_index :: "lsda_record list \<Rightarrow> nat \<Rightarrow> u32 \<Rightarrow> compressed_page list \<Rightarrow> nat \<Rightarrow> u32 \<Rightarrow> bytes unwound" where
  "write_index lsdas lsdas_offset sentinel [] i page_offset = Ok []"
| "write_index lsdas lsdas_offset sentinel (page # pages) i page_offset =
     (let next_page_start = (case pages of [] \<Rightarrow> sentinel | p # _ \<Rightarrow> pg_start_function_offset p);
          i = skip_lsdas (pg_start_function_offset page) lsdas i in
      rbind (lsda_offset_at lsdas_offset i) (\<lambda>lsda_index_offset.
      rbind (serialize_compressed_page page) (\<lambda>blob.
      rbind (add32 page_offset (of_nat (length blob))) (\<lambda>page_offset'.
      rbind (write_index lsdas lsdas_offset sentinel pages (skip_lsdas next_page_start lsdas i) page_offset') (\<lambda>rest.
      Ok (to_le 4 (pg_start_function_offset page) @ to_le 4 page_offset @ to_le 4 lsda_index_offset @ rest))))))"

definition sentinel_of :: "unwind_record list \<Rightarrow> u32 unwound" where
  "sentinel_of records = (if records = [] then Ok 0 else add32 (ur_function_offset (last records)) (ur_code_len (last records)))"

definition serialize_unwind_info :: "(encoding_stats \<Rightarrow> encoding_stats) \<Rightarrow> unwind_record list \<Rightarrow> bytes unwound" where
  "serialize_unwind_info order records0 =
     rbind (finalize_unwind_records records0) (\<lambda>(records, personalities, lsdas).
     rbind (select_common_encodings order records) (\<lambda>common.
     let pages = build_pages records common;
         common_encodings_offset = 7 * 4;
         common_encodings_count = of_nat (length common) :: u32;
         personalities_offset = common_encodings_offset + unat common_encodings_count * 4;
         indices_offset = personalities_offset + length personalities * 4;
         indices_count = of_nat (length pages + 1) :: u32;
         lsdas_offset = indices_offset + unat indices_count * FIRST_LEVEL_ENTRY_SIZE + FIRST_LEVEL_ENTRY_SIZE;
         second_level_start = lsdas_offset + length lsdas * 8 in
     rbind (mapM serialize_compressed_page pages) (\<lambda>blobs.
     rbind (sentinel_of records) (\<lambda>sentinel.
     rbind (write_index lsdas lsdas_offset sentinel pages 0 (of_nat second_level_start)) (\<lambda>index.
     rbind (lsda_offset_at lsdas_offset (length lsdas)) (\<lambda>lsda_end.
     let out =
           to_le 4 UNWIND_INFO_VERSION @ to_le 4 (of_nat common_encodings_offset :: u32) @ to_le 4 common_encodings_count
           @ to_le 4 (of_nat personalities_offset :: u32) @ to_le 4 (of_nat (length personalities) :: u32)
           @ to_le 4 (of_nat indices_offset :: u32) @ to_le 4 indices_count
           @ concat (map (to_le 4) common) @ concat (map (to_le 4) personalities)
           @ index @ to_le 4 sentinel @ to_le 4 (0 :: u32) @ to_le 4 lsda_end;
         out = pad_until lsdas_offset out @ concat (map (\<lambda>l. to_le 4 (lr_function_offset l) @ to_le 4 (lr_lsda_offset l)) lsdas);
         out = pad_until second_level_start out @ concat blobs in
     Ok (pad_multiple 8 out)))))))"

section \<open>Reading\<close>

definition unwind_u16 :: "bytes \<Rightarrow> nat \<Rightarrow> str \<Rightarrow> u16 unwound" where
  "unwind_u16 b off what = (if off + 2 > length b then Err (UnwindTruncated what) else Ok (from_le (take 2 (drop off b))))"

definition unwind_u32 :: "bytes \<Rightarrow> nat \<Rightarrow> str \<Rightarrow> u32 unwound" where
  "unwind_u32 b off what = (if off + 4 > length b then Err (UnwindTruncated what) else Ok (from_le (take 4 (drop off b))))"

text \<open>The counts are 16-bit or 32-bit fields, so the reservation before the loop cannot overflow.\<close>

definition unwind_u32_array :: "bytes \<Rightarrow> nat \<Rightarrow> nat \<Rightarrow> str \<Rightarrow> u32 list unwound" where
  "unwind_u32_array b off n what = mapM (\<lambda>i. unwind_u32 b (off + i * 4) what) [0..<n]"

definition read_index_entry :: "bytes \<Rightarrow> nat \<Rightarrow> nat \<Rightarrow> (u32 \<times> u32) unwound" where
  "read_index_entry b indices_offset i =
     (let entry_off = indices_offset + i * FIRST_LEVEL_ENTRY_SIZE in
      if entry_off + FIRST_LEVEL_ENTRY_SIZE > length b then Err (UnwindTruncated (bstr ''first-level index''))
      else
        rbind (unwind_u32 b entry_off (bstr ''first-level function offset'')) (\<lambda>st.
        rbind (unwind_u32 b (entry_off + 8) (bstr ''first-level lsda offset'')) (\<lambda>l. Ok (st, l))))"

fun check_index_order :: "u32 list \<Rightarrow> unit unwound" where
  "check_index_order (x # y # ys) = (if x > y then Err (BadFirstLevelIndexOrder x y) else check_index_order (y # ys))"
| "check_index_order _ = Ok ()"

function read_lsdas :: "bytes \<Rightarrow> nat \<Rightarrow> nat \<Rightarrow> decoded_lsda_record list unwound" where
  "read_lsdas b entry_off fin =
     (if entry_off < fin then
        if entry_off + 8 > length b then Err (UnwindTruncated (bstr ''lsda index entry''))
        else
          rbind (unwind_u32 b entry_off (bstr ''lsda function offset'')) (\<lambda>f.
          rbind (unwind_u32 b (entry_off + 4) (bstr ''lsda target offset'')) (\<lambda>l.
          rbind (read_lsdas b (entry_off + 8) fin) (\<lambda>rest.
          Ok (\<lparr>dl_function_offset = f, dl_lsda_offset = l\<rparr> # rest))))
      else Ok [])"
  by pat_completeness auto
termination by (relation "measure (\<lambda>(b, entry_off, fin). fin - entry_off)") auto

declare read_lsdas.simps [simp del]

definition decode_entry :: "u32 list \<Rightarrow> u32 list \<Rightarrow> u32 \<Rightarrow> u32 \<Rightarrow> decoded_unwind_record unwound" where
  "decode_entry common local_encodings function_offset word =
     (let encoding_index = drop_bit 24 word; function_delta = word AND 0x00FFFFFF in
      rbind (if unat encoding_index < length common then Ok (common ! unat encoding_index)
             else
               let i = unat encoding_index - length common in
               if i < length local_encodings then Ok (local_encodings ! i)
               else Err (BadEncodingIndex encoding_index (of_nat (length common + length local_encodings)))) (\<lambda>encoding.
      rbind (add32 function_offset function_delta) (\<lambda>f.
      Ok \<lparr>dr_function_offset = f, dr_encoding = encoding\<rparr>)))"

definition decode_page :: "bytes \<Rightarrow> u32 list \<Rightarrow> u32 \<Rightarrow> nat \<Rightarrow> decoded_unwind_record list unwound" where
  "decode_page b common function_offset second_level_off =
     rbind (unwind_u32 b second_level_off (bstr ''second-level page kind'')) (\<lambda>kind.
     if kind \<noteq> UNWIND_SECOND_LEVEL_COMPRESSED then Err (UnsupportedSecondLevelPageKind kind)
     else
       rbind (unwind_u16 b (second_level_off + 4) (bstr ''page entry offset'')) (\<lambda>eo.
       rbind (unwind_u16 b (second_level_off + 6) (bstr ''page entry count'')) (\<lambda>entry_count.
       rbind (unwind_u16 b (second_level_off + 8) (bstr ''page encoding offset'')) (\<lambda>no.
       rbind (unwind_u16 b (second_level_off + 10) (bstr ''page encoding count'')) (\<lambda>encoding_count.
       rbind (unwind_u32_array b (second_level_off + unat no) (unat encoding_count) (bstr ''page-local encodings'')) (\<lambda>local_encodings.
       mapM (\<lambda>i.
         rbind (unwind_u32 b (second_level_off + unat eo + i * 4) (bstr ''compressed page entry''))
           (decode_entry common local_encodings function_offset)) [0..<unat entry_count]))))))"

definition decode_index_entry :: "bytes \<Rightarrow> u32 list \<Rightarrow> nat \<Rightarrow> nat \<Rightarrow> decoded_unwind_record list unwound" where
  "decode_index_entry b common indices_offset i =
     (let entry_off = indices_offset + i * FIRST_LEVEL_ENTRY_SIZE in
      rbind (unwind_u32 b entry_off (bstr ''first-level function offset'')) (\<lambda>function_offset.
      rbind (unwind_u32 b (entry_off + 4) (bstr ''second-level page offset'')) (\<lambda>second_level_off.
      decode_page b common function_offset (unat second_level_off))))"

definition decode_lsdas :: "bytes \<Rightarrow> u32 list \<Rightarrow> decoded_lsda_record list unwound" where
  "decode_lsdas b offs =
     (if offs = [] then Ok []
      else if unat (last offs) < unat (hd offs) then Err (UnwindTruncated (bstr ''lsda index array''))
      else read_lsdas b (unat (hd offs)) (unat (last offs)))"

definition decode_unwind_info :: "bytes \<Rightarrow> decoded_unwind_info unwound" where
  "decode_unwind_info b =
     (if length b < 28 then Err (UnwindTruncated (bstr ''unwind_info header''))
      else
        rbind (unwind_u32 b 0 (bstr ''unwind_info version'')) (\<lambda>version.
        if version \<noteq> UNWIND_INFO_VERSION then Err (UnsupportedVersion version)
        else
          rbind (unwind_u32 b 4 (bstr ''common encodings offset'')) (\<lambda>common_encodings_offset.
          rbind (unwind_u32 b 8 (bstr ''common encodings count'')) (\<lambda>common_encodings_count.
          rbind (unwind_u32 b 12 (bstr ''personalities offset'')) (\<lambda>personalities_offset.
          rbind (unwind_u32 b 16 (bstr ''personalities count'')) (\<lambda>personalities_count.
          rbind (unwind_u32 b 20 (bstr ''indices offset'')) (\<lambda>indices_offset.
          rbind (unwind_u32 b 24 (bstr ''indices count'')) (\<lambda>indices_count.
          rbind (unwind_u32_array b (unat common_encodings_offset) (unat common_encodings_count) (bstr ''common encodings'')) (\<lambda>common.
          rbind (unwind_u32_array b (unat personalities_offset) (unat personalities_count) (bstr ''personality array'')) (\<lambda>personalities.
          rbind (mapM (read_index_entry b (unat indices_offset)) [0..<unat indices_count]) (\<lambda>entries.
          rbind (check_index_order (map fst entries)) (\<lambda>_.
          rbind (decode_lsdas b (map snd entries)) (\<lambda>lsdas.
          rbind (mapM (decode_index_entry b common (unat indices_offset)) [0..<unat indices_count - 1]) (\<lambda>pages.
          Ok \<lparr>di_version = version, di_personalities = personalities, di_lsdas = lsdas, di_records = concat pages\<rparr>))))))))))))))"

definition validate_serialized_unwind_info :: "bytes \<Rightarrow> unwind_record list \<Rightarrow> unit unwound" where
  "validate_serialized_unwind_info b records0 =
     rbind (decode_unwind_info b) (\<lambda>decoded.
     rbind (finalize_unwind_records records0) (\<lambda>(records, personalities, lsdas).
     if di_records decoded \<noteq> map (\<lambda>r. \<lparr>dr_function_offset = ur_function_offset r, dr_encoding = ur_encoding r\<rparr>) records
     then Err (UnwindTruncated (bstr ''decoded unwind records do not round-trip''))
     else if di_personalities decoded \<noteq> personalities
     then Err (UnwindTruncated (bstr ''decoded personality table does not round-trip''))
     else if di_lsdas decoded \<noteq> map (\<lambda>l. \<lparr>dl_function_offset = lr_function_offset l, dl_lsda_offset = lr_lsda_offset l\<rparr>) lsdas
     then Err (UnwindTruncated (bstr ''decoded lsda table does not round-trip''))
     else Ok ()))"

end
