(* ===== verification/Unwind_Synth.thy ===== *)
theory Unwind_Synth
  imports Unwind_Table Synth Unwind_Link Code_Sign
begin

unbundle bit_operations_syntax

text \<open>
  From the compact-unwind atoms of the inputs to the section \<^verbatim>\<open>__unwind_info\<close> (\<^verbatim>\<open>src/synth/unwind.rs\<close>): the fields of
  the records are resolved against the final layout, records that defer to DWARF get the offset of their frame
  description, and the section is inserted, replaced or removed. The order in which the sets of input sections
  are walked is an argument (\<open>order\<close>), as is the switch for the linker's own validation, an environment variable.
\<close>

section \<open>Errors\<close>

datatype unwind_detail =
    UwMissingObject
  | UwSectionOutOfRange u8
  | UwBadRelocs read_error
  | UwShortRecord nat
  | UwOffsetRange str
  | UwDwarfWithoutAtom
  | UwNoFde atom_id u64
  | UwMultipleFdes atom_id u64
  | UwFunctionRelocMissing
  | UwFdeReloc reloc_kind reloc_length
  | UwFdeNoSubtrahend
  | UwFdeInputOverflow
  | UwFdeMissing
  | UwFdeTruncated
  | UwFdeOutside int
  | UwSectionBaseTooLarge u8 u64
  | UwInlineValue str
  | UwSymbolOutOfRange str u32
  | UwBadName read_error
  | UwUnresolved str str
  | UwAtomMissing str atom_id
  | UwUnsupportedKind str str symbol_kind_tag
  | UwMissingInputAtom str u8 u64
  | UwAddressOverflows str
  | UwNeedsGotSlot str
  | UwNoGotPlanning str
  | UwNoGotSection str
  | UwFieldOverruns nat
  | UwFormat unwind_read_error

record unwind_error =
  uw_input :: str
  uw_atom :: atom_id
  uw_detail :: unwind_detail

type_synonym 'a unwinding = "(unwind_error, 'a) result"

definition unwind_err :: "str \<Rightarrow> atom_id \<Rightarrow> unwind_detail \<Rightarrow> unwind_error" where
  "unwind_err path aid d = \<lparr>uw_input = path, uw_atom = aid, uw_detail = d\<rparr>"

definition into_unwinding :: "'a checked \<Rightarrow> 'a unwinding" where
  "into_unwinding m = (case m of Ok x \<Rightarrow> Ok x | _ \<Rightarrow> Panic)"

definition checked_add64 :: "u64 \<Rightarrow> u64 \<Rightarrow> u64 option" where
  "checked_add64 a b = (if uint a + uint b < 2 ^ 64 then Some (a + b) else None)"

record resolved_reference =
  rr_address :: u64
  rr_atom :: "atom_id option"

section \<open>References\<close>

definition input_atom_spans :: "input_section \<Rightarrow> input_id \<Rightarrow> u8 \<Rightarrow> u64 \<Rightarrow> atom \<Rightarrow> bool" where
  "input_atom_spans sect origin section_idx target a =
     (case checked_add64 (is_addr sect) (ucast (at_input_offset a)) of
        None \<Rightarrow> False
      | Some st \<Rightarrow>
          (case checked_add64 st (ucast (at_size a)) of
             None \<Rightarrow> False
           | Some fin \<Rightarrow> at_origin a = origin \<and> at_input_section a = section_idx \<and> st \<le> target \<and> target < fin))"

definition resolve_input_section_reference ::
  "atom_id \<Rightarrow> atom \<Rightarrow> object_file \<Rightarrow> atom_table \<Rightarrow> layout \<Rightarrow> u8 \<Rightarrow> u64 \<Rightarrow> str \<Rightarrow> resolved_reference unwinding" where
  "resolve_input_section_reference aid source obj tb ly section_idx target label =
     (let bad = unwind_err (ob_path obj) aid in
      rbind (ok_or (bad (UwSectionOutOfRange section_idx)) (lookup_nth (ob_sections obj) (unat section_idx - 1))) (\<lambda>sect.
      rbind (ok_or (bad (UwMissingInputAtom label section_idx target))
               (List.find (\<lambda>(_, c). input_atom_spans sect (at_origin source) section_idx target c) (atoms_iter tb))) (\<lambda>(cid, c).
      rbind (into_unwinding (atom_addr ly cid)) (\<lambda>base.
      rbind (ok_or (bad (UwAtomMissing label cid)) base) (\<lambda>base_addr.
      rbind (ok_or (bad (UwAddressOverflows label)) (checked_add64 (is_addr sect) (ucast (at_input_offset c)))) (\<lambda>input_addr.
      rbind (ok_or (bad (UwAddressOverflows label)) (checked_add64 base_addr (target - input_addr))) (\<lambda>address.
      Ok \<lparr>rr_address = address, rr_atom = Some cid\<rparr>)))))))"

definition personality_got_addr ::
  "layout \<Rightarrow> synthetic_plan option \<Rightarrow> symbol_id \<Rightarrow> atom_id \<Rightarrow> object_file \<Rightarrow> str \<Rightarrow> u64 unwinding" where
  "personality_got_addr ly plan sid aid obj label =
     (let bad = unwind_err (ob_path obj) aid in
      rbind (ok_or (bad (UwNeedsGotSlot label)) plan) (\<lambda>plan.
      rbind (into_unwinding (get_slot (sp_got plan) sid)) (\<lambda>slot.
      rbind (ok_or (bad (UwNoGotPlanning label)) slot) (\<lambda>(i, _).
      rbind (ok_or (bad (UwNoGotSection label)) (synthetic_section ly (bstr ''__DATA_CONST'') (bstr ''__got''))) (\<lambda>sect.
      rbind (add64 (os_addr sect) (os_synthetic_offset sect)) (\<lambda>base.
      rbind (mul64 (of_nat i) 8) (add64 base)))))))"

definition resolve_symbol_reference ::
  "atom_id \<Rightarrow> object_file \<Rightarrow> symbol_table \<Rightarrow> layout \<Rightarrow> synthetic_plan option \<Rightarrow> raw_nlist \<Rightarrow> str \<Rightarrow> bool \<Rightarrow> resolved_reference unwinding" where
  "resolve_symbol_reference aid obj t ly plan isym label allow_import_got =
     (let bad = unwind_err (ob_path obj) aid in
      rbind (rmap_err (\<lambda>e. bad (UwBadName e)) (Object_File.symbol_name obj isym)) (\<lambda>nm.
      rbind (ok_or (bad (UwUnresolved label nm)) (interner_get (interner t) nm)) (\<lambda>istr.
      rbind (rmap_err (\<lambda>_. bad (UwUnresolved label nm)) (resolve_chain t istr)) (\<lambda>(sid, s).
      case s of
        Defined _ _ target v _ _ _ \<Rightarrow>
          rbind (into_unwinding (atom_addr ly target)) (\<lambda>base.
          rbind (ok_or (bad (UwAtomMissing label target)) base) (\<lambda>base_addr.
          rbind (add64 base_addr v) (\<lambda>address. Ok \<lparr>rr_address = address, rr_atom = Some target\<rparr>)))
      | Absolute _ _ v _ _ _ \<Rightarrow> Ok \<lparr>rr_address = v, rr_atom = None\<rparr>
      | DylibImport _ _ _ _ \<Rightarrow>
          if allow_import_got then
            rbind (personality_got_addr ly plan sid aid obj label) (\<lambda>address. Ok \<lparr>rr_address = address, rr_atom = None\<rparr>)
          else Err (bad (UwUnsupportedKind label nm (Symbol_Table.sym_kind s)))
      | _ \<Rightarrow> Err (bad (UwUnsupportedKind label nm (Symbol_Table.sym_kind s)))))))"

definition resolve_reference ::
  "atom_id \<Rightarrow> atom \<Rightarrow> object_file \<Rightarrow> atom_table \<Rightarrow> symbol_table \<Rightarrow> layout \<Rightarrow> synthetic_plan option \<Rightarrow> referent \<Rightarrow> u32 \<Rightarrow> str \<Rightarrow> bool
    \<Rightarrow> resolved_reference unwinding" where
  "resolve_reference aid a obj tb t ly plan ref target_offset label allow_import_got =
     (case ref of
        Section section_idx \<Rightarrow> resolve_input_section_reference aid a obj tb ly section_idx (ucast target_offset) label
      | Symbol i \<Rightarrow>
          rbind (ok_or (unwind_err (ob_path obj) aid (UwSymbolOutOfRange label i)) (lookup_nth (ob_symbols obj) (unat i))) (\<lambda>isym.
          if nlist_kind isym = Sect \<and> \<not> participates_in_global_resolution isym
          then resolve_input_section_reference aid a obj tb ly (n_sect isym) (n_value isym) label
          else resolve_symbol_reference aid obj t ly plan isym label allow_import_got))"

definition read_u64_field :: "atom \<Rightarrow> nat \<Rightarrow> u64 unwinding" where
  "read_u64_field a off =
     (if off + 8 > length (at_data a) then Err (unwind_err (bstr ''<compact unwind>'') (at_id a) (UwFieldOverruns off))
      else Ok (from_le (take 8 (drop off (at_data a)))))"

text \<open>The first relocation at an offset into an atom; the sum is formed only when there is a relocation to compare.\<close>

definition find_reloc_at :: "reloc list \<Rightarrow> u32 \<Rightarrow> u32 \<Rightarrow> reloc option unwinding" where
  "find_reloc_at rs base off = (if rs = [] then Ok None else rbind (add32 base off) (\<lambda>o'. Ok (List.find (\<lambda>r. rel_offset r = o') rs)))"

definition resolve_function ::
  "atom_id \<Rightarrow> atom \<Rightarrow> object_file \<Rightarrow> reloc list \<Rightarrow> atom_table \<Rightarrow> symbol_table \<Rightarrow> layout \<Rightarrow> resolved_reference unwinding" where
  "resolve_function aid a obj relocs tb t ly =
     (let bad = unwind_err (ob_path obj) aid in
      case List.find (\<lambda>r. rel_offset r = at_input_offset a) relocs of
        None \<Rightarrow>
          (case at_parent_of a of
             Some parent \<Rightarrow>
               rbind (into_unwinding (atom_addr ly parent)) (\<lambda>x.
               rbind (ok_or (bad (UwAtomMissing (bstr ''function'') parent)) x) (\<lambda>address.
               Ok \<lparr>rr_address = address, rr_atom = Some parent\<rparr>))
           | None \<Rightarrow> Err (bad UwFunctionRelocMissing))
      | Some r \<Rightarrow>
          rbind (read_u64_field a 0) (\<lambda>v.
          resolve_reference aid a obj tb t ly None (rel_referent r) (ucast v) (bstr ''function_start'') False))"

definition resolve_metadata_offset ::
  "atom_id \<Rightarrow> atom \<Rightarrow> object_file \<Rightarrow> reloc list \<Rightarrow> atom_table \<Rightarrow> symbol_table \<Rightarrow> layout \<Rightarrow> synthetic_plan \<Rightarrow> nat \<Rightarrow> bool \<Rightarrow> str
    \<Rightarrow> u64 option unwinding" where
  "resolve_metadata_offset aid a obj relocs tb t ly plan field_offset allow_import_got label =
     rbind (read_u64_field a field_offset) (\<lambda>v.
     rbind (find_reloc_at relocs (at_input_offset a) (of_nat field_offset)) (\<lambda>r.
     case r of
       None \<Rightarrow> if v = 0 then Ok None else Err (unwind_err (ob_path obj) aid (UwInlineValue label))
     | Some r \<Rightarrow>
         rbind (resolve_reference aid a obj tb t ly (Some plan) (rel_referent r) (ucast v) label allow_import_got) (\<lambda>x.
         Ok (Some (rr_address x)))))"

section \<open>Frame descriptions\<close>

definition referent_section_base :: "atom_id \<Rightarrow> object_file \<Rightarrow> referent \<Rightarrow> u32 unwinding" where
  "referent_section_base aid obj ref =
     (case ref of
        Symbol _ \<Rightarrow> Ok 0
      | Section i \<Rightarrow>
          rbind (ok_or (unwind_err (ob_path obj) aid (UwSectionOutOfRange i)) (lookup_nth (ob_sections obj) (unat i - 1))) (\<lambda>sect.
          if is_addr sect < 0x100000000 then Ok (ucast (is_addr sect))
          else Err (unwind_err (ob_path obj) aid (UwSectionBaseTooLarge i (is_addr sect)))))"

definition fde_by_difference ::
  "atom_id \<Rightarrow> atom \<Rightarrow> object_file \<Rightarrow> reloc \<Rightarrow> referent \<Rightarrow> atom_table \<Rightarrow> symbol_table \<Rightarrow> layout \<Rightarrow> resolved_reference unwinding" where
  "fde_by_difference aid fde obj r sub tb t ly =
     (let bad = unwind_err (ob_path obj) aid in
      rbind (referent_section_base aid obj (rel_referent r)) (\<lambda>mb.
      rbind (resolve_reference aid fde obj tb t ly None (rel_referent r) mb (bstr ''FDE initial-location minuend'') False) (\<lambda>minuend.
      rbind (referent_section_base aid obj sub) (\<lambda>sb.
      rbind (resolve_reference aid fde obj tb t ly None sub sb (bstr ''FDE initial-location subtrahend'') False) (\<lambda>subtrahend.
      rbind (into_unwinding (atom_addr ly aid)) (\<lambda>here.
      rbind (ok_or (bad UwFdeMissing) (Option.bind here (\<lambda>x. checked_add64 x 8))) (\<lambda>field_address.
      if 16 > length (at_data fde) then Err (bad UwFdeTruncated)
      else
        let implicit_addend = sint (from_le (take 8 (drop 8 (at_data fde))) :: u64);
            address = uint (rr_address minuend) - uint (rr_address subtrahend) + sint (rel_addend r) + implicit_addend + uint field_address in
        if 0 \<le> address \<and> address < 2 ^ 64 then Ok \<lparr>rr_address = word_of_int address, rr_atom = rr_atom minuend\<rparr>
        else Err (bad (UwFdeOutside address)))))))))"

definition resolve_fde_function ::
  "atom_id \<Rightarrow> atom \<Rightarrow> object_file \<Rightarrow> reloc \<Rightarrow> atom_table \<Rightarrow> symbol_table \<Rightarrow> layout \<Rightarrow> resolved_reference unwinding" where
  "resolve_fde_function aid fde obj r tb t ly =
     (let bad = unwind_err (ob_path obj) aid in
      if rel_kind r \<noteq> Subtractor \<or> rel_length r \<noteq> Quad then Err (bad (UwFdeReloc (rel_kind r) (rel_length r)))
      else
        rbind (ok_or (bad UwFdeNoSubtrahend) (rel_subtrahend r)) (\<lambda>sub.
        case resolve_input_function_target obj fde r 8 True of
          Some (section_idx, target_offset) \<Rightarrow>
            rbind (ok_or (bad (UwSectionOutOfRange section_idx)) (lookup_nth (ob_sections obj) (unat section_idx - 1))) (\<lambda>sect.
            rbind (ok_or (bad UwFdeInputOverflow) (checked_add64 (is_addr sect) (ucast target_offset))) (\<lambda>target.
            resolve_input_section_reference aid fde obj tb ly section_idx target (bstr ''FDE initial-location'')))
        | None \<Rightarrow> fde_by_difference aid fde obj r sub tb t ly))"

text \<open>The relocations of a section for the cache; compact-unwind sections without any are skipped (\<open>skip\<close>), frame sections are not.\<close>

definition unwind_section_relocs :: "bool \<Rightarrow> layout_input list \<Rightarrow> input_id \<times> u8 \<Rightarrow> ((input_id \<times> u8) \<times> reloc list) list unwinding" where
  "unwind_section_relocs skip inputs key =
     (case key of (iid, section_idx) \<Rightarrow>
      rbind (ok_or (unwind_err (bstr ''<missing object>'') 0 UwMissingObject) (input_map inputs iid)) (\<lambda>inp.
      let bad = unwind_err (ob_path (li_object inp)) 0 in
      rbind (ok_or (bad (UwSectionOutOfRange section_idx)) (lookup_nth (ob_sections (li_object inp)) (unat section_idx - 1))) (\<lambda>sect.
      if skip \<and> is_nreloc sect = 0 then Ok []
      else
        rmap (\<lambda>rs. [(key, rs)])
          (rmap_err (\<lambda>e. bad (UwBadRelocs e)) (rbind (parse_raw_relocs (is_raw_relocs sect) 0 (is_nreloc sect)) parse_relocs)))))"

definition unwind_reloc_cache ::
  "((input_id \<times> u8) list \<Rightarrow> (input_id \<times> u8) list) \<Rightarrow> bool \<Rightarrow> layout_input list \<Rightarrow> (input_id \<times> u8) list \<Rightarrow> parsed_reloc_cache unwinding" where
  "unwind_reloc_cache order skip inputs keys =
     rbind (mapM (unwind_section_relocs skip inputs) (order (remdups keys))) (\<lambda>es. Ok (map_of (concat es)))"

definition fde_hint ::
  "layout_input list \<Rightarrow> parsed_reloc_cache \<Rightarrow> atom_table \<Rightarrow> symbol_table \<Rightarrow> layout \<Rightarrow> output_atom \<Rightarrow> (u64 \<rightharpoonup> u32 option) \<Rightarrow> (u64 \<rightharpoonup> u32 option) unwinding" where
  "fde_hint inputs cache tb t ly placed hints =
     rbind (get_atom tb (oa_atom placed)) (\<lambda>fde.
     if length (at_data fde) < 8 \<or> from_le (take 4 (drop 4 (at_data fde))) = (0 :: u32) then Ok hints
     else
       rbind (ok_or (unwind_err (bstr ''<missing object>'') (oa_atom placed) UwMissingObject) (input_map inputs (at_origin fde))) (\<lambda>inp.
       rbind (case cache (at_origin fde, at_input_section fde) of
                None \<Rightarrow> Ok None | Some rs \<Rightarrow> find_reloc_at rs (at_input_offset fde) 8) (\<lambda>r.
       case r of
         None \<Rightarrow> Ok hints
       | Some r \<Rightarrow>
           rbind (resolve_fde_function (oa_atom placed) fde (li_object inp) r tb t ly) (\<lambda>function.
           let hint = (if oa_offset placed \<le> 0x00FFFFFF then ucast (oa_offset placed) else 0) in
           Ok (hints(rr_address function \<mapsto> (case hints (rr_address function) of None \<Rightarrow> Some hint | Some _ \<Rightarrow> None)))))))"

definition collect_dwarf_fde_hints ::
  "((input_id \<times> u8) list \<Rightarrow> (input_id \<times> u8) list) \<Rightarrow> layout \<Rightarrow> layout_input list \<Rightarrow> atom_table \<Rightarrow> symbol_table \<Rightarrow> (u64 \<rightharpoonup> u32 option) unwinding" where
  "collect_dwarf_fde_hints order ly inputs tb t =
     (case List.find (\<lambda>s. os_segment s = bstr ''__TEXT'' \<and> os_name s = bstr ''__eh_frame'') (ly_sections ly) of
        None \<Rightarrow> Ok Map.empty
      | Some eh_frame \<Rightarrow>
          rbind (mapM (\<lambda>p. rbind (get_atom tb (oa_atom p)) (\<lambda>a. Ok (at_origin a, at_input_section a))) (os_atoms eh_frame)) (\<lambda>keys.
          rbind (unwind_reloc_cache order False inputs keys) (\<lambda>cache.
          seed_each (fde_hint inputs cache tb t ly) (os_atoms eh_frame) Map.empty)))"

section \<open>Records\<close>

text \<open>For evaluation the bound is compared on words.\<close>

lemma u32_try_from_code [code]: "u32_try_from e v = (if v < 0x100000000 then Ok (ucast v) else Err e)"
  by (simp add: u32_try_from_def word_less_nat_alt)

definition text_offset :: "object_file \<Rightarrow> atom_id \<Rightarrow> str \<Rightarrow> u64 \<Rightarrow> u64 \<Rightarrow> u32 unwinding" where
  "text_offset obj aid label text_base addr = u32_try_from (unwind_err (ob_path obj) aid (UwOffsetRange label)) (saturating_sub addr text_base)"

definition optional_offset :: "object_file \<Rightarrow> atom_id \<Rightarrow> str \<Rightarrow> u64 \<Rightarrow> u64 option \<Rightarrow> u32 option unwinding" where
  "optional_offset obj aid label text_base x = (case x of None \<Rightarrow> Ok None | Some addr \<Rightarrow> rmap Some (text_offset obj aid label text_base addr))"

definition dwarf_encoding ::
  "object_file \<Rightarrow> atom_id \<Rightarrow> (u64 \<rightharpoonup> u32 option) \<Rightarrow> resolved_reference \<Rightarrow> u32 \<Rightarrow> u32 unwinding" where
  "dwarf_encoding obj aid hints function encoding =
     (if encoding AND 0x0F000000 = 0x03000000 then
        let bad = unwind_err (ob_path obj) aid in
        rbind (ok_or (bad UwDwarfWithoutAtom) (rr_atom function)) (\<lambda>fa.
        rbind (ok_or (bad (UwNoFde fa (rr_address function))) (hints (rr_address function))) (\<lambda>h.
        rbind (ok_or (bad (UwMultipleFdes fa (rr_address function))) h) (\<lambda>hint.
        Ok ((encoding AND NOT 0x00FFFFFF) OR hint))))
      else Ok encoding)"

definition collect_record ::
  "layout \<Rightarrow> layout_input list \<Rightarrow> atom_table \<Rightarrow> symbol_table \<Rightarrow> synthetic_plan \<Rightarrow> u64 \<Rightarrow> parsed_reloc_cache \<Rightarrow> (u64 \<rightharpoonup> u32 option)
    \<Rightarrow> atom_id \<times> atom \<Rightarrow> unwind_record list unwinding" where
  "collect_record ly inputs tb t plan text_base cache hints x =
     (case x of (aid, a) \<Rightarrow>
      if at_section a \<noteq> ACompactUnwind then Ok []
      else
        rbind (case at_parent_of a of
                 None \<Rightarrow> Ok False
               | Some parent \<Rightarrow> rbind (into_unwinding (atom_addr ly parent)) (\<lambda>y. Ok (y = None))) (\<lambda>orphan.
        if orphan then Ok []
        else
          rbind (ok_or (unwind_err (bstr ''<missing object>'') aid UwMissingObject) (input_map inputs (at_origin a))) (\<lambda>inp.
          let obj = li_object inp; relocs = (case cache (at_origin a, at_input_section a) of None \<Rightarrow> [] | Some rs \<Rightarrow> rs) in
          if length (at_data a) < 32 then Err (unwind_err (ob_path obj) aid (UwShortRecord (length (at_data a))))
          else
            rbind (resolve_function aid a obj relocs tb t ly) (\<lambda>function.
            rbind (resolve_metadata_offset aid a obj relocs tb t ly plan 16 True (bstr ''personality'')) (\<lambda>pers.
            rbind (optional_offset obj aid (bstr ''personality'') text_base pers) (\<lambda>personality_offset.
            rbind (resolve_metadata_offset aid a obj relocs tb t ly plan 24 False (bstr ''LSDA'')) (\<lambda>lsda.
            rbind (optional_offset obj aid (bstr ''LSDA'') text_base lsda) (\<lambda>lsda_offset.
            rbind (text_offset obj aid (bstr ''function start'') text_base (rr_address function)) (\<lambda>function_offset.
            rbind (dwarf_encoding obj aid hints function (from_le (take 4 (drop 12 (at_data a))))) (\<lambda>encoding.
            Ok [\<lparr>ur_function_offset = function_offset, ur_code_len = from_le (take 4 (drop 8 (at_data a))), ur_encoding = encoding,
                 ur_personality_offset = personality_offset, ur_lsda_offset = lsda_offset\<rparr>]))))))))))"

definition collect_records ::
  "((input_id \<times> u8) list \<Rightarrow> (input_id \<times> u8) list) \<Rightarrow> layout \<Rightarrow> layout_input list \<Rightarrow> atom_table \<Rightarrow> symbol_table \<Rightarrow> synthetic_plan
    \<Rightarrow> unwind_record list unwinding" where
  "collect_records order ly inputs tb t plan =
     (let text_base = (case layout_segment ly (bstr ''__TEXT'') of None \<Rightarrow> 0 | Some seg \<Rightarrow> og_vm_addr seg);
          keys = map (\<lambda>(_, a). (at_origin a, at_input_section a)) (filter (\<lambda>(_, a). at_section a = ACompactUnwind) (atoms_iter tb)) in
      rbind (collect_dwarf_fde_hints order ly inputs tb t) (\<lambda>hints.
      rbind (unwind_reloc_cache order True inputs keys) (\<lambda>cache.
      rbind (mapM (collect_record ly inputs tb t plan text_base cache hints) (atoms_iter tb)) (\<lambda>rs.
      Ok (sort_key ur_function_offset (concat rs))))))"

section \<open>The section\<close>

definition is_unwind_info :: "output_section \<Rightarrow> bool" where
  "is_unwind_info s \<longleftrightarrow> os_segment s = bstr ''__TEXT'' \<and> os_name s = bstr ''__unwind_info''"

definition remove_compact_unwind_sections :: "layout \<Rightarrow> layout \<times> bool" where
  "remove_compact_unwind_sections ly =
     (let secs = filter (\<lambda>s. os_kind s \<noteq> KCompactUnwind) (ly_sections ly) in
      (ly\<lparr>ly_sections := secs\<rparr>, length (ly_sections ly) \<noteq> length secs))"

definition remove_unwind_info_section :: "layout \<Rightarrow> layout \<times> bool" where
  "remove_unwind_info_section ly =
     (let secs = filter (\<lambda>s. \<not> is_unwind_info s) (ly_sections ly) in
      (ly\<lparr>ly_sections := secs\<rparr>, length (ly_sections ly) \<noteq> length secs))"

definition unwind_info_section :: "bytes \<Rightarrow> output_section" where
  "unwind_info_section b =
     \<lparr>os_segment = bstr ''__TEXT'', os_name = bstr ''__unwind_info'', os_kind = KRegular, os_align_pow2 = 2, os_flags = S_REGULAR,
      os_reserved1 = 0, os_reserved2 = 0, os_reserved3 = 0, os_atoms = [], os_synthetic_offset = 0, os_synthetic_data = b,
      os_addr = 0, os_size = of_nat (length b), os_file_off = 0\<rparr>"

definition replace_unwind_info :: "bytes \<Rightarrow> output_section \<Rightarrow> output_section" where
  "replace_unwind_info b s =
     s\<lparr>os_kind := KRegular, os_align_pow2 := 2, os_flags := S_REGULAR, os_reserved1 := 0, os_reserved2 := 0, os_reserved3 := 0,
       os_atoms := [], os_synthetic_offset := 0, os_synthetic_data := b, os_size := of_nat (length b)\<rparr>"

definition upsert_unwind_info_section :: "layout \<Rightarrow> bytes \<Rightarrow> layout \<times> bool" where
  "upsert_unwind_info_section ly b =
     (let secs = ly_sections ly in
      case position is_unwind_info secs of
        Some i \<Rightarrow> (ly\<lparr>ly_sections := secs[i := replace_unwind_info b (secs ! i)]\<rparr>, length (os_synthetic_data (secs ! i)) \<noteq> length b)
      | None \<Rightarrow>
          let i = (case position (\<lambda>s. os_segment s = bstr ''__TEXT'' \<and> os_name s = bstr ''__eh_frame'') secs of
                     Some i \<Rightarrow> i
                   | None \<Rightarrow>
                       (case rposition (\<lambda>s. os_segment s = bstr ''__TEXT'') secs of
                          Some i \<Rightarrow> i + 1
                        | None \<Rightarrow> length secs)) in
          (ly\<lparr>ly_sections := insert_at i (unwind_info_section b) secs\<rparr>, True))"

definition prune_empty_segments :: "layout \<Rightarrow> layout" where
  "prune_empty_segments ly =
     (let standard = (case ly_kind ly of
            Executable \<Rightarrow> [bstr ''__PAGEZERO'', bstr ''__TEXT'', bstr ''__DATA_CONST'', bstr ''__DATA'', bstr ''__LINKEDIT'']
          | OutDylib \<Rightarrow> [bstr ''__TEXT'', bstr ''__DATA_CONST'', bstr ''__DATA'', bstr ''__LINKEDIT'']) in
      ly\<lparr>ly_segments := filter (\<lambda>g. og_name g \<in> set standard \<or> list_ex (\<lambda>s. os_segment s = og_name g) (ly_sections ly)) (ly_segments ly)\<rparr>)"

definition synthesize ::
  "bool \<Rightarrow> (encoding_stats \<Rightarrow> encoding_stats) \<Rightarrow> ((input_id \<times> u8) list \<Rightarrow> (input_id \<times> u8) list) \<Rightarrow> layout_input list \<Rightarrow> atom_table
    \<Rightarrow> symbol_table \<Rightarrow> synthetic_plan \<Rightarrow> layout \<Rightarrow> (layout \<times> bool) unwinding" where
  "synthesize validate order order' inputs tb t plan ly0 =
     (let (ly, changed) = remove_compact_unwind_sections ly0;
          bad = (\<lambda>e. unwind_err (bstr ''<synthetic unwind>'') 0 (UwFormat e)) in
      rbind (collect_records order' ly inputs tb t plan) (\<lambda>records.
      if records = [] then
        let (ly, removed) = remove_unwind_info_section ly; changed = (changed \<or> removed) in
        Ok (if changed then prune_empty_segments ly else ly, changed)
      else
        rbind (rmap_err bad (serialize_unwind_info order records)) (\<lambda>b.
        rbind (if validate then rmap_err bad (validate_serialized_unwind_info b records) else Ok ()) (\<lambda>_.
        let (ly, section_changed) = upsert_unwind_info_section ly b; changed = (changed \<or> section_changed) in
        Ok (if changed then prune_empty_segments ly else ly, changed)))))"

end
