(* ===== verification/Unwind_Table_Sound.thy ===== *)
theory Unwind_Table_Sound
  imports Unwind_Table
begin

unbundle bit_operations_syntax

text \<open>
  Reading back a written unwind table: every page holds a group of consecutive records, the groups make up the
  records, and the offsets written are those at which the parts lie.
\<close>

section \<open>Page entries\<close>

definition entry_holds :: "u32 list \<Rightarrow> u32 \<Rightarrow> u32 \<Rightarrow> unwind_record \<Rightarrow> bool" where
  "entry_holds table st w r \<longleftrightarrow>
     (\<exists>i < length table. w = push_bit 24 (of_nat i) OR (ur_function_offset r - st) \<and> table ! i = ur_encoding r)
     \<and> st \<le> ur_function_offset r \<and> ur_function_offset r - st \<le> MAX_COMPRESSED_FUNCTION_DELTA"

definition page_holds :: "u32 list \<Rightarrow> compressed_page \<Rightarrow> unwind_record list \<Rightarrow> bool" where
  "page_holds common p rs \<longleftrightarrow>
     list_all2 (entry_holds (common @ pg_local_encodings p) (pg_start_function_offset p)) (pg_entries p) rs
     \<and> (rs \<noteq> [] \<longrightarrow> pg_start_function_offset p = ur_function_offset (hd rs))
     \<and> 12 + length rs * 4 + length (pg_local_encodings p) * 4 \<le> UNWIND_PAGE_SIZE
     \<and> length common + length (pg_local_encodings p) \<le> 256
     \<and> length (pg_local_encodings p) \<le> length rs"

lemma packed_entry:
  assumes "i < 256" and "d \<le> (0xFFFFFF :: u32)"
  shows "drop_bit 24 (push_bit 24 (of_nat i) OR d) = (of_nat i :: u32)" and "(push_bit 24 (of_nat i) OR d) AND 0xFFFFFF = (d :: u32)"
proof -
  have i: "take_bit 8 (of_nat i :: u32) = of_nat i" using assms(1) by (simp add: take_bit_of_nat [symmetric] take_bit_nat_eq_self flip: of_nat_take_bit)
  have d: "take_bit 24 d = d"
  proof -
    have "unat d < 2 ^ 24" using assms(2) by (simp add: word_le_nat_alt)
    then show ?thesis by (simp add: word_unat_eq_iff unsigned_take_bit_eq take_bit_nat_eq_self)
  qed
  have m: "(0xFFFFFF :: u32) = mask 24" by (simp add: mask_eq_exp_minus_1)
  show "drop_bit 24 (push_bit 24 (of_nat i) OR d) = (of_nat i :: u32)"
  proof (rule bit_word_eqI)
    fix n assume "n < LENGTH(32)"
    have "bit (of_nat i :: u32) n \<longleftrightarrow> n < 8 \<and> bit (of_nat i :: u32) n" by (subst (1) i [symmetric]) (simp add: bit_take_bit_iff)
    moreover have "\<not> bit d (24 + n)" by (subst d [symmetric]) (simp add: bit_take_bit_iff)
    ultimately show "bit (drop_bit 24 (push_bit 24 (of_nat i) OR d)) n = bit (of_nat i :: u32) n"
      by (auto simp: bit_drop_bit_eq bit_or_iff bit_push_bit_iff)
  qed
  have "take_bit 24 (push_bit 24 (of_nat i) OR d) = take_bit 24 d" by (rule bit_word_eqI) (auto simp: bit_take_bit_iff bit_or_iff bit_push_bit_iff)
  then show "(push_bit 24 (of_nat i) OR d) AND 0xFFFFFF = d" unfolding m by (simp add: d flip: take_bit_eq_mask)
qed

lemma entry_decoded:
  assumes "entry_holds (common @ ls) st w r" and "length common + length ls \<le> 256"
  shows "decode_entry common ls st w = Ok \<lparr>dr_function_offset = ur_function_offset r, dr_encoding = ur_encoding r\<rparr>"
proof -
  obtain i where i: "i < length common + length ls" "w = push_bit 24 (of_nat i) OR (ur_function_offset r - st)" "(common @ ls) ! i = ur_encoding r"
    and st: "st \<le> ur_function_offset r" and d: "ur_function_offset r - st \<le> 0xFFFFFF"
    using assms(1) by (auto simp: entry_holds_def)
  have p: "drop_bit 24 w = of_nat i" "w AND 0xFFFFFF = ur_function_offset r - st" using packed_entry [of i, OF _ d] i(1,2) assms(2) by simp_all
  have u: "unat (of_nat i :: u32) = i" using i(1) assms(2) by (simp add: unat_of_nat)
  have "uint st + uint (ur_function_offset r - st) < 2 ^ 32"
  proof -
    have "uint (ur_function_offset r - st) = uint (ur_function_offset r) - uint st" using st by (simp add: uint_minus_simple_iff word_le_def uint_sub_lem)
    then show ?thesis using uint_bounded [of "ur_function_offset r"] by simp
  qed
  then have "(add32 st (ur_function_offset r - st) :: u32 unwound) = Ok (ur_function_offset r)" by (simp add: add32_def)
  then show ?thesis using i(1,3) unfolding decode_entry_def p Let_def u by (auto simp: nth_append)
qed

lemma entry_holds_append: "entry_holds table st w r \<Longrightarrow> entry_holds (table @ xs) st w r"
  unfolding entry_holds_def by (metis length_append nth_append trans_less_add1)

section \<open>Filling pages\<close>

lemma common_index_nth:
  assumes "common_indices common e = Some i"
  shows "i < length common \<and> common ! i = e"
proof -
  have "(e, i) \<in> set (map (\<lambda>(i, e). (e, i)) (enumerate 0 common))" using map_of_SomeD [OF assms [unfolded common_indices_def]] by simp
  then show ?thesis by (auto simp: in_set_enumerate_eq)
qed

lemma position_eq_Some: "position (\<lambda>x. x = e) xs = Some i \<Longrightarrow> i < length xs \<and> xs ! i = e"
  by (induction xs arbitrary: i) (auto split: if_splits)

lemma position_eq_None: "position (\<lambda>x. x = e) xs = None \<longleftrightarrow> e \<notin> set xs"
  by (induction xs) auto

lemma encoding_slot_exact:
  obtains i where "encoding_slot common p e = (i, p\<lparr>pg_local_encodings := pg_local_encodings p @ (if needs_local_encoding common p e then [e] else [])\<rparr>)"
    and "i < length common + length (pg_local_encodings p) + (if needs_local_encoding common p e then 1 else 0)"
    and "(common @ pg_local_encodings p @ (if needs_local_encoding common p e then [e] else [])) ! i = e"
proof (cases "common_indices common e")
  case (Some i)
  then show thesis using that [of i] common_index_nth [OF Some] by (simp add: encoding_slot_def needs_local_encoding_def nth_append)
next
  case None
  show thesis
  proof (cases "position (\<lambda>x. x = e) (pg_local_encodings p)")
    case (Some i)
    then show thesis using that [of "length common + i"] None position_eq_Some [OF Some]
      by (auto simp: encoding_slot_def needs_local_encoding_def nth_append)
  next
    case n: None
    then show thesis using that [of "length common + length (pg_local_encodings p)"] None n [unfolded position_eq_None]
      by (simp add: encoding_slot_def needs_local_encoding_def nth_append Let_def)
  qed
qed

lemma add_entry_holds:
  assumes h: "page_holds common p rs" and full: "\<not> page_full common p r" and "length common \<le> 127"
    and st: "pg_start_function_offset p \<le> ur_function_offset r" and new: "rs = [] \<Longrightarrow> pg_start_function_offset p = ur_function_offset r \<and> pg_local_encodings p = []"
  shows "page_holds common (add_entry common p r) (rs @ [r])"
proof -
  let ?e = "ur_encoding r"
  let ?x = "if needs_local_encoding common p ?e then [?e] else []"
  let ?d = "ur_function_offset r - pg_start_function_offset p"
  obtain i where i: "encoding_slot common p ?e = (i, p\<lparr>pg_local_encodings := pg_local_encodings p @ ?x\<rparr>)"
    "i < length common + length (pg_local_encodings p) + (if needs_local_encoding common p ?e then 1 else 0)"
    "(common @ pg_local_encodings p @ ?x) ! i = ?e"
    by (rule encoding_slot_exact)
  have d: "page_delta p r = ?d" using st by (simp add: page_delta_def saturating_sub_def)
  have len: "length (pg_entries p) = length rs" using h by (auto simp: page_holds_def dest: list_all2_lengthD)
  have room: "?d \<le> 0xFFFFFF \<and> 12 + (length rs + 1) * 4 + (length (pg_local_encodings p) + length ?x) * 4 \<le> 4096
    \<and> length common + length (pg_local_encodings p) + length ?x \<le> 256"
  proof (cases "rs = []")
    case True
    then show ?thesis using new assms(3) by simp
  next
    case False
    then have "pg_entries p \<noteq> []" using len by auto
    then show ?thesis using full d len by (auto simp: page_full_def Let_def not_less split: if_splits)
  qed
  have old: "list_all2 (entry_holds (common @ pg_local_encodings p @ ?x) (pg_start_function_offset p)) (pg_entries p) rs"
    using h entry_holds_append [of "common @ pg_local_encodings p" _ _ _ ?x] by (auto simp: page_holds_def elim!: list_all2_mono)
  have "entry_holds (common @ pg_local_encodings p @ ?x) (pg_start_function_offset p) (push_bit 24 (of_nat i) OR ?d) r"
    using i(2,3) st room by (auto simp: entry_holds_def intro!: exI [of _ i])
  then have "list_all2 (entry_holds (common @ pg_local_encodings p @ ?x) (pg_start_function_offset p)) (pg_entries p @ [push_bit 24 (of_nat i) OR ?d]) (rs @ [r])"
    using old by (simp add: list_all2_append len)
  moreover have "add_entry common p r = p\<lparr>pg_local_encodings := pg_local_encodings p @ ?x, pg_entries := pg_entries p @ [push_bit 24 (of_nat i) OR ?d]\<rparr>"
    by (simp add: add_entry_def i(1) d Let_def)
  ultimately show ?thesis using room h new by (auto simp: page_holds_def hd_append)
qed


text \<open>A new page is empty, so the record that closed the previous page goes there.\<close>

lemma place_record_new: "place_record common r pages None = (pages, Some (add_entry common (page_new r) r))"
  by (subst place_record.simps) (simp add: page_full_def page_new_def)

lemma place_record_open:
  "place_record common r pages (Some p) =
     (if page_full common p r then (pages @ [p], Some (add_entry common (page_new r) r)) else (pages, Some (add_entry common p r)))"
  by (subst place_record.simps) (simp add: place_record_new)

lemma page_new_holds: "length common \<le> 127 \<Longrightarrow> page_holds common (add_entry common (page_new r) r) [r]"
proof -
  assume c: "length common \<le> 127"
  have "page_holds common (page_new r) []" "\<not> page_full common (page_new r) r" "pg_start_function_offset (page_new r) = ur_function_offset r"
    "pg_local_encodings (page_new r) = []"
    using c by (simp_all add: page_holds_def page_new_def page_full_def)
  then show ?thesis using add_entry_holds [of common "page_new r" "[]" r] c by simp
qed

text \<open>The pages closed so far and the open one hold the records placed so far.\<close>

definition pages_hold :: "u32 list \<Rightarrow> compressed_page list \<Rightarrow> unwind_record list list \<Rightarrow> bool" where
  "pages_hold common pages groups \<longleftrightarrow> list_all2 (\<lambda>p g. page_holds common p g \<and> g \<noteq> []) pages groups"

lemma place_record_hold:
  assumes "length common \<le> 127" and "pages_hold common pages groups" and "page_holds common p g" and "g \<noteq> []"
    and "ur_function_offset (hd g) \<le> ur_function_offset r"
  obtains pages' p' groups' g' where "place_record common r pages (Some p) = (pages', Some p')" and "pages_hold common pages' groups'"
    and "page_holds common p' g'" and "g' \<noteq> []" and "concat groups' @ g' = concat groups @ g @ [r]"
proof (cases "page_full common p r")
  case True
  show thesis
    by (rule that [of "pages @ [p]" "add_entry common (page_new r) r" "groups @ [g]" "[r]"])
      (use True assms page_new_holds in \<open>simp_all add: place_record_open pages_hold_def list_all2_appendI\<close>)
next
  case False
  have "page_holds common (add_entry common p r) (g @ [r])"
    using add_entry_holds [OF assms(3) False assms(1)] assms(3-5) by (auto simp: page_holds_def)
  then show thesis
    by (intro that [of pages "add_entry common p r" groups "g @ [r]"]) (use False assms in \<open>simp_all add: place_record_open\<close>)
qed

lemma place_records_hold:
  assumes "length common \<le> 127" and "sorted (map ur_function_offset (concat groups @ g @ rs))"
    and "pages_hold common pages groups" and "page_holds common p g" and "g \<noteq> []"
  shows "\<exists>pages' p' groups' g'. place_records common rs (pages, Some p) = (pages', Some p') \<and> pages_hold common (pages' @ [p']) (groups' @ [g'])
    \<and> concat groups' @ g' = concat groups @ g @ rs"
  using assms(2-5)
proof (induction rs arbitrary: pages p groups g)
  case Nil
  then show ?case by (auto simp: pages_hold_def list_all2_appendI intro!: exI [of _ groups] exI [of _ g])
next
  case (Cons r rs)
  have "ur_function_offset (hd g) \<le> ur_function_offset r" using Cons.prems(1,4) by (cases g) (auto simp: sorted_append)
  then obtain pages' p' groups' g' where n: "place_record common r pages (Some p) = (pages', Some p')" "pages_hold common pages' groups'"
    "page_holds common p' g'" "g' \<noteq> []" "concat groups' @ g' = concat groups @ g @ [r]"
    using place_record_hold [OF assms(1) Cons.prems(2-4)] by blast
  have c: "concat groups' @ g' @ rs = concat groups @ g @ r # rs" using n(5) by (metis append.assoc append_Cons append_Nil)
  show ?case using Cons.IH [OF Cons.prems(1) [folded c] n(2-4)] n(1) unfolding c by simp
qed

lemma build_pages_hold:
  assumes "length common \<le> 127" and "sorted (map ur_function_offset rs)"
  obtains groups where "pages_hold common (build_pages rs common) groups" and "concat groups = rs"
proof (cases rs)
  case Nil
  then show thesis using that [of "[]"] by (simp add: build_pages_def pages_hold_def)
next
  case (Cons r rs')
  obtain pages' p' groups' g' where "place_records common rs' ([], Some (add_entry common (page_new r) r)) = (pages', Some p')"
    "pages_hold common (pages' @ [p']) (groups' @ [g'])" "concat groups' @ g' = [r] @ rs'"
    using place_records_hold [OF assms(1), of "[]" "[r]" rs' "[]" "add_entry common (page_new r) r"] page_new_holds [OF assms(1), of r] assms(2) Cons
    by (auto simp: pages_hold_def)
  then show thesis using that [of "groups' @ [g']"] Cons by (simp add: build_pages_def place_record_new)
qed

section \<open>Parts of a file\<close>

definition lies_at :: "bytes \<Rightarrow> nat \<Rightarrow> bytes \<Rightarrow> bool" where
  "lies_at b off c \<longleftrightarrow> off + length c \<le> length b \<and> take (length c) (drop off b) = c"

lemma lies_at_append: "lies_at b off (x @ y) \<longleftrightarrow> lies_at b off x \<and> lies_at b (off + length x) y"
proof -
  have "take (length x + length y) (drop off b) = x @ y \<longleftrightarrow> take (length x) (drop off b) = x \<and> take (length y) (drop (off + length x) b) = y"
    if "off + length x + length y \<le> length b"
    using that by (auto simp: take_add append_eq_append_conv add.commute)
  then show ?thesis by (auto simp: lies_at_def)
qed

lemma lies_at_split: "off = length pre \<Longrightarrow> lies_at (pre @ c @ post) off c"
  by (simp add: lies_at_def)

lemma unwind_u32_lies: "lies_at b off (to_le 4 w) \<Longrightarrow> unwind_u32 b off what = Ok w"
  by (simp add: lies_at_def unwind_u32_def)

lemma unwind_u16_lies: "lies_at b off (to_le 2 w) \<Longrightarrow> unwind_u16 b off what = Ok w"
  by (simp add: lies_at_def unwind_u16_def)

lemma words_lie:
  assumes "lies_at b off (concat (map (to_le 4) ws))" and "i < length ws"
  shows "unwind_u32 b (off + i * 4) what = Ok (ws ! i)"
  using assms
proof (induction ws arbitrary: off i)
  case (Cons w ws)
  show ?case
  proof (cases i)
    case 0
    then show ?thesis using Cons.prems(1) by (simp add: lies_at_append unwind_u32_lies)
  next
    case (Suc j)
    then show ?thesis using Cons.IH [of "off + 4" j] Cons.prems by (simp add: lies_at_append add.assoc)
  qed
qed simp

lemma read_array_lies: "lies_at b off (concat (map (to_le 4) ws)) \<Longrightarrow> unwind_u32_array b off (length ws) what = Ok ws"
  unfolding unwind_u32_array_def
  by (subst mapM_Ok_map [of _ _ "\<lambda>i. ws ! i"]) (simp_all add: words_lie map_nth)


section \<open>Pages in the file\<close>

definition page_bytes :: "compressed_page \<Rightarrow> bytes" where
  "page_bytes p =
     to_le 4 (3 :: u32) @ to_le 2 (12 :: u16) @ to_le 2 (of_nat (length (pg_entries p)) :: u16)
     @ to_le 2 (of_nat (12 + length (pg_entries p) * 4) :: u16) @ to_le 2 (of_nat (length (pg_local_encodings p)) :: u16)
     @ concat (map (to_le 4) (pg_entries p)) @ concat (map (to_le 4) (pg_local_encodings p))"

lemma words_length [simp]: "length (concat (map (to_le 4) ws)) = 4 * length ws"
  by (induction ws) simp_all

lemma page_bytes_length: "length (page_bytes p) = 12 + 4 * length (pg_entries p) + 4 * length (pg_local_encodings p)"
  by (simp add: page_bytes_def)

lemma page_holds_sizes:
  assumes "page_holds common p g"
  shows "length (pg_entries p) = length g" "12 + length (pg_entries p) * 4 + length (pg_local_encodings p) * 4 \<le> 4096"
  using assms by (auto simp: page_holds_def dest: list_all2_lengthD)

lemma serialize_page:
  assumes "page_holds common p g"
  shows "serialize_compressed_page p = Ok (page_bytes p)"
proof -
  have n: "12 + length (pg_entries p) * 4 + length (pg_local_encodings p) * 4 \<le> 4096" using page_holds_sizes [OF assms] by simp
  have "uint (of_nat (length (pg_entries p) * 4) :: u16) = int (length (pg_entries p) * 4)" using n by (simp add: unsigned_of_nat take_bit_nat_eq_self del: of_nat_mult)
  then have "(add16 (of_nat 12) (of_nat (length (pg_entries p) * 4)) :: u16 unwound) = Ok (of_nat (12 + length (pg_entries p) * 4))"
    using n by (simp add: add16_def)
  then show ?thesis unfolding serialize_compressed_page_def by (simp add: page_bytes_def pad_multiple_def mod_mult_self2)
qed

lemma page_decoded:
  assumes h: "page_holds common p g" and b: "lies_at b off (page_bytes p)"
  shows "decode_page b common (pg_start_function_offset p) off
    = Ok (map (\<lambda>r. \<lparr>dr_function_offset = ur_function_offset r, dr_encoding = ur_encoding r\<rparr>) g)"
proof -
  let ?n = "length (pg_entries p)" and ?m = "length (pg_local_encodings p)"
  have s: "?n = length g" "12 + ?n * 4 + ?m * 4 \<le> 4096" using page_holds_sizes [OF h] by simp_all
  then have u: "unat (of_nat ?n :: u16) = ?n" "unat (of_nat ?m :: u16) = ?m" "unat (of_nat (12 + ?n * 4) :: u16) = 12 + ?n * 4" "unat (12 :: u16) = 12"
    by (simp_all add: unat_of_nat del: of_nat_add of_nat_mult)
  have lies: "lies_at b off (to_le 4 (3 :: u32))" "lies_at b (off + 4) (to_le 2 (12 :: u16))" "lies_at b (off + 6) (to_le 2 (of_nat ?n :: u16))"
    "lies_at b (off + 8) (to_le 2 (of_nat (12 + ?n * 4) :: u16))" "lies_at b (off + 10) (to_le 2 (of_nat ?m :: u16))"
    "lies_at b (off + 12) (concat (map (to_le 4) (pg_entries p)))" "lies_at b (off + 12 + 4 * ?n) (concat (map (to_le 4) (pg_local_encodings p)))"
    using b unfolding page_bytes_def lies_at_append by (simp_all add: ac_simps)
  have locals: "unwind_u32_array b (off + (12 + ?n * 4)) ?m what = Ok (pg_local_encodings p)" for what
    using read_array_lies [OF lies(7)] by (simp add: add.assoc mult.commute)
  have e: "rbind (unwind_u32 b (off + 12 + i * 4) what) (decode_entry common (pg_local_encodings p) (pg_start_function_offset p))
      = Ok \<lparr>dr_function_offset = ur_function_offset (g ! i), dr_encoding = ur_encoding (g ! i)\<rparr>" if i: "i < ?n" for i what
  proof -
    have "entry_holds (common @ pg_local_encodings p) (pg_start_function_offset p) (pg_entries p ! i) (g ! i)"
      "length common + ?m \<le> 256"
      using h i by (auto simp: page_holds_def dest: list_all2_nthD)
    then show ?thesis using words_lie [OF lies(6) i] by (simp add: entry_decoded)
  qed
  have "mapM (\<lambda>i. rbind (unwind_u32 b (off + 12 + i * 4) (bstr ''compressed page entry'')) (decode_entry common (pg_local_encodings p) (pg_start_function_offset p))) [0..<?n]
    = Ok (map (\<lambda>i. \<lparr>dr_function_offset = ur_function_offset (g ! i), dr_encoding = ur_encoding (g ! i)\<rparr>) [0..<?n])"
    by (rule mapM_Ok_map) (simp add: e)
  also have "map (\<lambda>i. \<lparr>dr_function_offset = ur_function_offset (g ! i), dr_encoding = ur_encoding (g ! i)\<rparr>) [0..<?n]
    = map (\<lambda>r. \<lparr>dr_function_offset = ur_function_offset r, dr_encoding = ur_encoding r\<rparr>) g"
    unfolding s(1) by (rule nth_equalityI) simp_all
  finally show ?thesis
    unfolding decode_page_def unwind_u32_lies [OF lies(1)] unwind_u16_lies [OF lies(2)] unwind_u16_lies [OF lies(3)] unwind_u16_lies [OF lies(4)]
      unwind_u16_lies [OF lies(5)] rbind_simps u locals
    by simp
qed

section \<open>The data areas\<close>

lemma lsdas_decoded:
  assumes "lies_at b off (concat (map (\<lambda>l. to_le 4 (lr_function_offset l) @ to_le 4 (lr_lsda_offset l)) ls))"
  shows "read_lsdas b off (off + length ls * 8) = Ok (map (\<lambda>l. \<lparr>dl_function_offset = lr_function_offset l, dl_lsda_offset = lr_lsda_offset l\<rparr>) ls)"
  using assms
proof (induction ls arbitrary: off)
  case Nil
  then show ?case by (subst read_lsdas.simps) simp
next
  case (Cons l ls)
  have lies: "lies_at b off (to_le 4 (lr_function_offset l))" "lies_at b (off + 4) (to_le 4 (lr_lsda_offset l))"
    "lies_at b (off + 8) (concat (map (\<lambda>l. to_le 4 (lr_function_offset l) @ to_le 4 (lr_lsda_offset l)) ls))"
    using Cons.prems by (simp_all add: lies_at_append add.assoc)
  have "off + 8 \<le> length b" using lies(2) by (simp add: lies_at_def)
  moreover have "read_lsdas b (off + 8) (off + length (l # ls) * 8) = Ok (map (\<lambda>l. \<lparr>dl_function_offset = lr_function_offset l, dl_lsda_offset = lr_lsda_offset l\<rparr>) ls)"
    using Cons.IH [OF lies(3)] by (simp add: add.assoc add.commute)
  ultimately show ?case
    by (subst read_lsdas.simps) (simp add: unwind_u32_lies [OF lies(1)] unwind_u32_lies [OF lies(2)])
qed


section \<open>The first-level index\<close>

type_synonym row = "u32 \<times> nat \<times> nat"

definition row_bytes :: "row \<Rightarrow> bytes" where
  "row_bytes = (\<lambda>(st, off, l). to_le 4 st @ to_le 4 (of_nat off :: u32) @ to_le 4 (of_nat l :: u32))"

fun index_rows :: "lsda_record list \<Rightarrow> nat \<Rightarrow> u32 \<Rightarrow> compressed_page list \<Rightarrow> nat \<Rightarrow> nat \<Rightarrow> row list" where
  "index_rows ls lo sentinel [] i off = []"
| "index_rows ls lo sentinel (p # ps) i off =
     (let next = (case ps of [] \<Rightarrow> sentinel | q # _ \<Rightarrow> pg_start_function_offset q);
          i = skip_lsdas (pg_start_function_offset p) ls i in
      (pg_start_function_offset p, off, lo + 8 * i)
        # index_rows ls lo sentinel ps (skip_lsdas next ls i) (off + length (page_bytes p)))"

lemma skip_lsdas_le: "i \<le> length ls \<Longrightarrow> skip_lsdas b ls i \<le> length ls"
  using length_takeWhile_le [of "\<lambda>l. lr_function_offset l < b" "drop i ls"] by (simp add: skip_lsdas_def)

lemma lsda_offset_at_Ok:
  assumes "lo + 8 * i < 2 ^ 32"
  shows "lsda_offset_at lo i = Ok (of_nat (lo + 8 * i))"
proof -
  have u: "uint (of_nat i :: u32) = int i" "uint (of_nat lo :: u32) = int lo" using assms by (simp_all add: unsigned_of_nat take_bit_nat_eq_self)
  have m: "(mul32 (of_nat i) 8 :: u32 unwound) = Ok (of_nat (8 * i))" using u(1) assms by (simp add: mul32_def)
  have "uint (of_nat (8 * i) :: u32) = int (8 * i)" using assms by (simp add: unsigned_of_nat take_bit_nat_eq_self del: of_nat_mult)
  then have "(add32 (of_nat lo) (of_nat (8 * i)) :: u32 unwound) = Ok (of_nat lo + of_nat (8 * i))" using u(2) assms by (simp add: add32_def del: of_nat_mult)
  then show ?thesis unfolding lsda_offset_at_def m rbind_simps by simp
qed

lemma add32_of_nat:
  assumes "a + b < 2 ^ 32"
  shows "(add32 (of_nat a) (of_nat b) :: u32 unwound) = Ok (of_nat (a + b))"
proof -
  have "uint (of_nat a :: u32) = int a" "uint (of_nat b :: u32) = int b" using assms by (simp_all add: unsigned_of_nat take_bit_nat_eq_self)
  then show ?thesis using assms by (simp add: add32_def)
qed

lemma write_index_rows:
  assumes "pages_hold common pages groups" and "i \<le> length ls" and "lo + 8 * length ls < 2 ^ 32" and "off + length (concat (map page_bytes pages)) < 2 ^ 32"
  shows "write_index ls lo sentinel pages i (of_nat off) = Ok (concat (map row_bytes (index_rows ls lo sentinel pages i off)))"
  using assms
proof (induction pages arbitrary: groups i off)
  case (Cons p ps)
  obtain g gs where g: "page_holds common p g" "pages_hold common ps gs" using Cons.prems(1) by (auto simp: pages_hold_def list_all2_Cons1)
  define j where "j = skip_lsdas (pg_start_function_offset p) ls i"
  have j: "j \<le> length ls" using skip_lsdas_le [OF Cons.prems(2)] by (simp add: j_def)
  let ?next = "case ps of [] \<Rightarrow> sentinel | q # _ \<Rightarrow> pg_start_function_offset q"
  have l: "lsda_offset_at lo j = Ok (of_nat (lo + 8 * j))" using j Cons.prems(3) by (intro lsda_offset_at_Ok) simp
  have a: "(add32 (of_nat off) (of_nat (length (page_bytes p))) :: u32 unwound) = Ok (of_nat (off + length (page_bytes p)))"
    using Cons.prems(4) by (intro add32_of_nat) simp
  have "write_index ls lo sentinel ps (skip_lsdas ?next ls j) (of_nat (off + length (page_bytes p)))
      = Ok (concat (map row_bytes (index_rows ls lo sentinel ps (skip_lsdas ?next ls j) (off + length (page_bytes p)))))"
    using Cons.prems(3,4) by (intro Cons.IH [OF g(2) skip_lsdas_le [OF j]]) simp_all
  then show ?case
    unfolding write_index.simps Let_def j_def [symmetric] l rbind_simps serialize_page [OF g(1)] a
    by (simp add: Let_def row_bytes_def flip: j_def)
qed simp

lemma index_rows_length [simp]: "length (index_rows ls lo sentinel pages i off) = length pages"
  by (induction pages arbitrary: i off) (simp_all add: Let_def)

lemma index_rows_starts: "map fst (index_rows ls lo sentinel pages i off) = map pg_start_function_offset pages"
  by (induction pages arbitrary: i off) (simp_all add: Let_def)

lemma index_rows_offset:
  "k < length pages \<Longrightarrow> fst (snd (index_rows ls lo sentinel pages i off ! k)) = off + length (concat (map page_bytes (take k pages)))"
proof (induction pages arbitrary: i off k)
  case (Cons p ps)
  then show ?case by (cases k) (simp_all add: Let_def)
qed simp

lemma blocks_lie:
  assumes "\<forall>x. length (f x) = n" and "lies_at b off (concat (map f xs))" and "i < length xs"
  shows "lies_at b (off + i * n) (f (xs ! i))"
  using assms(2,3)
proof (induction xs arbitrary: off i)
  case (Cons x xs)
  then show ?case using Cons.IH [of "off + n"] assms(1) by (cases i) (simp_all add: lies_at_append add.assoc)
qed simp

lemma parts_lie: "lies_at b off (concat (map f xs)) \<Longrightarrow> i < length xs \<Longrightarrow> lies_at b (off + length (concat (map f (take i xs)))) (f (xs ! i))"
proof (induction xs arbitrary: off i)
  case (Cons x xs)
  then show ?case using Cons.IH [of "off + length (f x)"] by (cases i) (simp_all add: lies_at_append add.assoc)
qed simp

lemma row_bytes_length: "length (row_bytes r) = 12"
  by (simp add: row_bytes_def split: prod.splits)

lemma check_index_order_sorted: "sorted xs \<Longrightarrow> check_index_order xs = Ok ()"
  by (induction xs rule: check_index_order.induct) auto


section \<open>The whole table\<close>

definition lsda_bytes :: "lsda_record list \<Rightarrow> bytes" where
  "lsda_bytes ls = concat (map (\<lambda>l. to_le 4 (lr_function_offset l) @ to_le 4 (lr_lsda_offset l)) ls)"

definition indices_at :: "u32 list \<Rightarrow> u32 list \<Rightarrow> nat" where
  "indices_at common personalities = 28 + 4 * length common + 4 * length personalities"

definition lsdas_at :: "u32 list \<Rightarrow> u32 list \<Rightarrow> row list \<Rightarrow> nat" where
  "lsdas_at common personalities rows = indices_at common personalities + 12 * length rows + 12"

definition table_bytes :: "u32 list \<Rightarrow> u32 list \<Rightarrow> row list \<Rightarrow> lsda_record list \<Rightarrow> compressed_page list \<Rightarrow> bytes" where
  "table_bytes common personalities rows ls pages =
     concat (map (to_le 4) [1, 28, of_nat (length common), of_nat (28 + 4 * length common), of_nat (length personalities),
       of_nat (indices_at common personalities), of_nat (length rows) :: u32])
     @ concat (map (to_le 4) common) @ concat (map (to_le 4) personalities)
     @ concat (map row_bytes rows) @ replicate 12 0 @ lsda_bytes ls @ concat (map page_bytes pages)"

lemma rows_length: "length (concat (map row_bytes rows)) = 12 * length rows"
  by (induction rows) (simp_all add: row_bytes_length)

lemma lsda_bytes_length [simp]: "length (lsda_bytes ls) = 8 * length ls"
  by (induction ls) (simp_all add: lsda_bytes_def)

lemma table_parts:
  fixes pad :: bytes
  assumes "b = table_bytes common personalities rows ls pages @ pad"
  shows "lies_at b 0 (concat (map (to_le 4) [1, 28, of_nat (length common), of_nat (28 + 4 * length common), of_nat (length personalities),
       of_nat (indices_at common personalities), of_nat (length rows) :: u32]))"
    and "lies_at b 28 (concat (map (to_le 4) common))" and "lies_at b (28 + 4 * length common) (concat (map (to_le 4) personalities))"
    and "lies_at b (indices_at common personalities) (concat (map row_bytes rows))"
    and "lies_at b (lsdas_at common personalities rows) (lsda_bytes ls)"
    and "lies_at b (lsdas_at common personalities rows + 8 * length ls) (concat (map page_bytes pages))"
proof -
  have "lies_at b 0 (table_bytes common personalities rows ls pages)" by (simp add: assms lies_at_def)
  note p = this [unfolded table_bytes_def lies_at_append words_length rows_length lsda_bytes_length length_replicate list.size]
  show "lies_at b 0 (concat (map (to_le 4) [1, 28, of_nat (length common), of_nat (28 + 4 * length common), of_nat (length personalities),
       of_nat (indices_at common personalities), of_nat (length rows) :: u32]))"
    using p by (rule conjunct1)
  show "lies_at b 28 (concat (map (to_le 4) common))" using p by simp
  show "lies_at b (28 + 4 * length common) (concat (map (to_le 4) personalities))" using p by simp
  show "lies_at b (indices_at common personalities) (concat (map row_bytes rows))" using p by (simp add: indices_at_def)
  show "lies_at b (lsdas_at common personalities rows) (lsda_bytes ls)" using p by (simp add: indices_at_def lsdas_at_def ac_simps)
  show "lies_at b (lsdas_at common personalities rows + 8 * length ls) (concat (map page_bytes pages))"
    using p by (simp add: indices_at_def lsdas_at_def ac_simps)
qed

lemma row_read:
  assumes "lies_at b io (concat (map row_bytes rows))" and "i < length rows"
  shows "read_index_entry b io i = Ok (fst (rows ! i), of_nat (snd (snd (rows ! i))))"
    and "fst (snd (rows ! i)) < 2 ^ 32 \<Longrightarrow> decode_index_entry b common io i = decode_page b common (fst (rows ! i)) (fst (snd (rows ! i)))"
proof -
  obtain st off l where r: "rows ! i = (st, off, l)" by (cases "rows ! i")
  have "lies_at b (io + i * 12) (row_bytes (rows ! i))" using assms by (intro blocks_lie) (simp_all add: row_bytes_length)
  then have lies: "lies_at b (io + i * 12) (to_le 4 st)" "lies_at b (io + i * 12 + 4) (to_le 4 (of_nat off :: u32))"
    "lies_at b (io + i * 12 + 8) (to_le 4 (of_nat l :: u32))"
    by (simp_all add: r row_bytes_def lies_at_append add.assoc)
  have "io + i * 12 + 12 \<le> length b" using lies(3) by (simp add: lies_at_def)
  then show "read_index_entry b io i = Ok (fst (rows ! i), of_nat (snd (snd (rows ! i))))"
    by (simp add: read_index_entry_def Let_def r unwind_u32_lies [OF lies(1)] unwind_u32_lies [OF lies(3)])
  show "decode_index_entry b common io i = decode_page b common (fst (rows ! i)) (fst (snd (rows ! i)))" if "fst (snd (rows ! i)) < 2 ^ 32"
    using that by (simp add: decode_index_entry_def Let_def r unwind_u32_lies [OF lies(1)] unwind_u32_lies [OF lies(2)] unat_of_nat)
qed

lemma pages_decoded:
  assumes h: "pages_hold common pages groups" and b: "lies_at b second (concat (map page_bytes pages))"
    and rows: "lies_at b io (concat (map row_bytes rows))" and "length pages \<le> length rows"
    and k: "\<And>k. k < length pages \<Longrightarrow> fst (rows ! k) = pg_start_function_offset (pages ! k) \<and> fst (snd (rows ! k)) = second + length (concat (map page_bytes (take k pages)))"
    and "second + length (concat (map page_bytes pages)) < 2 ^ 32"
  shows "mapM (decode_index_entry b common io) [0..<length pages]
    = Ok (map (map (\<lambda>r. \<lparr>dr_function_offset = ur_function_offset r, dr_encoding = ur_encoding r\<rparr>)) groups)"
proof -
  have len: "length groups = length pages" using h by (auto simp: pages_hold_def dest: list_all2_lengthD)
  have "decode_index_entry b common io k = Ok (map (\<lambda>r. \<lparr>dr_function_offset = ur_function_offset r, dr_encoding = ur_encoding r\<rparr>) (groups ! k))" if i: "k < length pages" for k
  proof -
    have "length (concat (map page_bytes (take k pages))) \<le> length (concat (map page_bytes pages))"
      by (subst (2) append_take_drop_id [of k pages, symmetric]) (simp only: map_append concat_append length_append le_add1)
    then have "fst (snd (rows ! k)) < 2 ^ 32" using k [OF i] assms(6) by simp
    then have "decode_index_entry b common io k = decode_page b common (pg_start_function_offset (pages ! k)) (second + length (concat (map page_bytes (take k pages))))"
      using row_read(2) [OF rows, of k common] i assms(4) k [OF i] by simp
    moreover have "page_holds common (pages ! k) (groups ! k)" using h i by (auto simp: pages_hold_def dest: list_all2_nthD)
    ultimately show ?thesis using page_decoded parts_lie [OF b i] by simp
  qed
  then have "mapM (decode_index_entry b common io) [0..<length pages] = Ok (map (\<lambda>k. map (\<lambda>r. \<lparr>dr_function_offset = ur_function_offset r, dr_encoding = ur_encoding r\<rparr>) (groups ! k)) [0..<length pages])"
    by (intro mapM_Ok_map) simp
  also have "map (\<lambda>k. map (\<lambda>r. \<lparr>dr_function_offset = ur_function_offset r, dr_encoding = ur_encoding r\<rparr>) (groups ! k)) [0..<length pages]
    = map (map (\<lambda>r. \<lparr>dr_function_offset = ur_function_offset r, dr_encoding = ur_encoding r\<rparr>)) groups"
    unfolding len [symmetric] by (rule nth_equalityI) simp_all
  finally show ?thesis .
qed

lemma table_decoded:
  assumes b: "b = table_bytes common personalities rows ls pages @ pad"
    and h: "pages_hold common pages groups" and n: "length rows = length pages + 1"
    and k: "\<And>k. k < length pages \<Longrightarrow> fst (rows ! k) = pg_start_function_offset (pages ! k)
      \<and> fst (snd (rows ! k)) = lsdas_at common personalities rows + 8 * length ls + length (concat (map page_bytes (take k pages)))"
    and "sorted (map fst rows)"
    and l: "snd (snd (hd rows)) = lsdas_at common personalities rows" "snd (snd (last rows)) = lsdas_at common personalities rows + 8 * length ls"
    and small: "lsdas_at common personalities rows + 8 * length ls + length (concat (map page_bytes pages)) < 2 ^ 32"
  shows "decode_unwind_info b = Ok \<lparr>di_version = 1, di_personalities = personalities,
    di_lsdas = map (\<lambda>l. \<lparr>dl_function_offset = lr_function_offset l, dl_lsda_offset = lr_lsda_offset l\<rparr>) ls,
    di_records = map (\<lambda>r. \<lparr>dr_function_offset = ur_function_offset r, dr_encoding = ur_encoding r\<rparr>) (concat groups)\<rparr>"
proof -
  note lies = table_parts [OF b]
  note small' = small [unfolded lsdas_at_def indices_at_def]
  have u: "unat (of_nat (length common) :: u32) = length common" "unat (of_nat (28 + 4 * length common) :: u32) = 28 + 4 * length common"
    "unat (of_nat (length personalities) :: u32) = length personalities" "unat (of_nat (indices_at common personalities) :: u32) = indices_at common personalities"
    "unat (of_nat (length rows) :: u32) = length rows" "unat (of_nat (lsdas_at common personalities rows) :: u32) = lsdas_at common personalities rows"
    "unat (of_nat (lsdas_at common personalities rows + 8 * length ls) :: u32) = lsdas_at common personalities rows + 8 * length ls"
    using small' by (simp_all add: unat_of_nat indices_at_def lsdas_at_def del: of_nat_add of_nat_mult)
  have hdr: "length b \<ge> 28" using lies(1) unfolding lies_at_def words_length by simp
  note w = words_lie [OF lies(1)]
  have entries: "mapM (read_index_entry b (indices_at common personalities)) [0..<length rows] = Ok (map (\<lambda>r. (fst r, of_nat (snd (snd r)))) rows)"
  proof -
    have "mapM (read_index_entry b (indices_at common personalities)) [0..<length rows] = Ok (map (\<lambda>i. (fst (rows ! i), of_nat (snd (snd (rows ! i))))) [0..<length rows])"
      using row_read(1) [OF lies(4)] by (intro mapM_Ok_map) simp
    also have "map (\<lambda>i. (fst (rows ! i), of_nat (snd (snd (rows ! i))) :: u32)) [0..<length rows] = map (\<lambda>r. (fst r, of_nat (snd (snd r)))) rows"
      by (rule nth_equalityI) simp_all
    finally show ?thesis .
  qed
  have ne: "rows \<noteq> []" using n by auto
  have lsdas: "decode_lsdas b (map snd (map (\<lambda>r. (fst r, of_nat (snd (snd r)))) rows))
      = Ok (map (\<lambda>l. \<lparr>dl_function_offset = lr_function_offset l, dl_lsda_offset = lr_lsda_offset l\<rparr>) ls)"
    using lsdas_decoded [OF lies(5) [unfolded lsda_bytes_def]] ne u(6,7) l
    by (simp add: decode_lsdas_def hd_map last_map mult.commute del: of_nat_add of_nat_mult)
  have order: "check_index_order (map fst (map (\<lambda>r. (fst r, of_nat (snd (snd r)) :: u32)) rows)) = Ok ()"
    using assms(5) by (intro check_index_order_sorted) (simp add: comp_def)
  have records: "mapM (decode_index_entry b common (indices_at common personalities)) [0..<length rows - 1]
      = Ok (map (map (\<lambda>r. \<lparr>dr_function_offset = ur_function_offset r, dr_encoding = ur_encoding r\<rparr>)) groups)"
    using pages_decoded [OF h lies(6,4) _ k small] n by simp
  show ?thesis
    unfolding decode_unwind_info_def
    using hdr w [of 0] w [of 1] w [of 2] w [of 3] w [of 4] w [of 5] w [of 6] u read_array_lies [OF lies(2)] read_array_lies [OF lies(3)] entries lsdas order records
    by (simp add: map_concat del: of_nat_add of_nat_mult map_map)
qed


section \<open>Personalities\<close>

definition lsdas_of :: "unwind_record list \<Rightarrow> lsda_record list" where
  "lsdas_of rs = concat (map (\<lambda>r. case ur_lsda_offset r of None \<Rightarrow> [] | Some l \<Rightarrow> [\<lparr>lr_function_offset = ur_function_offset r, lr_lsda_offset = l\<rparr>]) rs)"

definition personalities_of :: "unwind_record list \<Rightarrow> u32 set" where
  "personalities_of rs = {p. \<exists>r \<in> set rs. ur_personality_offset r = Some p}"

text \<open>The number of the personality of a record, counted from one; zero for none.\<close>

definition numbered :: "u32 list \<Rightarrow> u32 option \<Rightarrow> u32 \<Rightarrow> bool" where
  "numbered ps p x \<longleftrightarrow> (case p of None \<Rightarrow> x = 0 | Some off \<Rightarrow> \<exists>k < length ps. ps ! k = off \<and> x = of_nat (k + 1))"

definition final_encoding :: "unwind_record \<Rightarrow> u32 \<Rightarrow> u32" where
  "final_encoding r x =
     (let e = (ur_encoding r AND NOT UNWIND_PERSONALITY_MASK) OR push_bit 28 x in
      if ur_lsda_offset r = None then e AND NOT UNWIND_HAS_LSDA else e OR UNWIND_HAS_LSDA)"

definition final_of :: "u32 list \<Rightarrow> unwind_record \<Rightarrow> unwind_record \<Rightarrow> bool" where
  "final_of ps f r \<longleftrightarrow> (\<exists>x. numbered ps (ur_personality_offset r) x \<and> f = r\<lparr>ur_encoding := final_encoding r x\<rparr>)"

definition fin_inv :: "unwind_record list \<Rightarrow> finalizing \<Rightarrow> bool" where
  "fin_inv rs s \<longleftrightarrow>
     distinct (fz_personalities s) \<and> set (fz_personalities s) = personalities_of rs \<and> length (fz_personalities s) \<le> 3
     \<and> (\<forall>p i. fz_index s p = Some i \<longleftrightarrow> (\<exists>k < length (fz_personalities s). fz_personalities s ! k = p \<and> i = of_nat (k + 1)))
     \<and> list_all2 (final_of (fz_personalities s)) (fz_records s) rs \<and> fz_lsdas s = lsdas_of rs"

lemma numbered_append: "numbered ps p x \<Longrightarrow> numbered (ps @ qs) p x"
  by (auto simp: numbered_def nth_append split: option.splits)

lemma final_of_append: "final_of ps f r \<Longrightarrow> final_of (ps @ qs) f r"
  unfolding final_of_def using numbered_append by blast

lemma personalities_of_append: "personalities_of (rs @ [r]) = personalities_of rs \<union> (case ur_personality_offset r of None \<Rightarrow> {} | Some p \<Rightarrow> {p})"
  by (auto simp: personalities_of_def split: option.splits)

lemma finite_personalities [simp]: "finite (personalities_of rs)"
proof -
  have "personalities_of rs = (\<lambda>r. the (ur_personality_offset r)) ` {r \<in> set rs. ur_personality_offset r \<noteq> None}"
    by (force simp: personalities_of_def)
  then show ?thesis by simp
qed

lemma intern_personality_step:
  assumes "fin_inv rs s" and "card (insert off (personalities_of rs)) \<le> 3"
  obtains i s' qs where "intern_personality off s = Ok (i, s')" and "fz_personalities s' = fz_personalities s @ qs"
    and "fz_records s' = fz_records s" and "fz_lsdas s' = fz_lsdas s" and "numbered (fz_personalities s') (Some off) i"
    and "distinct (fz_personalities s')" and "set (fz_personalities s') = insert off (personalities_of rs)" and "length (fz_personalities s') \<le> 3"
    and "\<forall>p i. fz_index s' p = Some i \<longleftrightarrow> (\<exists>k < length (fz_personalities s'). fz_personalities s' ! k = p \<and> i = of_nat (k + 1))"
proof (cases "fz_index s off")
  case (Some i)
  then obtain k where "k < length (fz_personalities s)" "fz_personalities s ! k = off" "i = of_nat (k + 1)" using assms(1) by (auto simp: fin_inv_def)
  moreover from this have "off \<in> personalities_of rs" using assms(1) nth_mem by (fastforce simp: fin_inv_def)
  ultimately show thesis using that [of i s "[]"] assms(1) Some by (auto simp: intern_personality_def fin_inv_def numbered_def)
next
  case None
  let ?ps = "fz_personalities s @ [off]"
  have new: "off \<notin> set (fz_personalities s)"
  proof
    assume "off \<in> set (fz_personalities s)"
    then obtain k where "k < length (fz_personalities s)" "fz_personalities s ! k = off" by (auto simp: in_set_conv_nth)
    then have "fz_index s off = Some (of_nat (k + 1))" using assms(1) unfolding fin_inv_def by blast
    then show False using None by simp
  qed
  have "card (insert off (personalities_of rs)) = length ?ps"
    using new assms(1) distinct_card [of ?ps] by (simp add: fin_inv_def)
  then have len: "length ?ps \<le> 3" using assms(2) by simp
  have ix: "((fz_index s)(off \<mapsto> of_nat (length ?ps))) p = Some i \<longleftrightarrow> (\<exists>k < length ?ps. ?ps ! k = p \<and> i = of_nat (k + 1))" for p i
  proof (cases "p = off")
    case True
    have "?ps ! k = off \<longleftrightarrow> k = length (fz_personalities s)" if "k < length ?ps" for k
      using that new by (auto simp: nth_append less_Suc_eq)
    then show ?thesis using True by auto
  next
    case False
    then show ?thesis using assms(1) by (auto simp: fin_inv_def nth_append less_Suc_eq)
  qed
  show thesis
    by (rule that [of "of_nat (length ?ps)" "s\<lparr>fz_personalities := ?ps, fz_index := (fz_index s)(off \<mapsto> of_nat (length ?ps))\<rparr>" "[off]"])
      (use None len new ix assms(1) in \<open>auto simp: intern_personality_def Let_def fin_inv_def numbered_def nth_append intro!: exI [of _ "length (fz_personalities s)"]\<close>)
qed


lemma lsdas_of_append: "lsdas_of (rs @ [r]) = lsdas_of rs @ (case ur_lsda_offset r of None \<Rightarrow> [] | Some l \<Rightarrow> [\<lparr>lr_function_offset = ur_function_offset r, lr_lsda_offset = l\<rparr>])"
  by (simp add: lsdas_of_def)

lemma finalize_one_step:
  assumes inv: "fin_inv rs s" and card: "card (personalities_of (rs @ [r])) \<le> 3"
  obtains s' where "finalize_one r s = Ok s'" and "fin_inv (rs @ [r]) s'"
proof -
  obtain x s1 qs where s1: "(case ur_personality_offset r of None \<Rightarrow> Ok (ur_encoding r AND NOT UNWIND_PERSONALITY_MASK, s)
      | Some off \<Rightarrow> rbind (intern_personality off s) (\<lambda>(i, s). Ok ((ur_encoding r AND NOT UNWIND_PERSONALITY_MASK) OR push_bit 28 i, s)))
      = Ok ((ur_encoding r AND NOT UNWIND_PERSONALITY_MASK) OR push_bit 28 x, s1)"
    "fz_personalities s1 = fz_personalities s @ qs" "fz_records s1 = fz_records s" "fz_lsdas s1 = fz_lsdas s"
    "numbered (fz_personalities s1) (ur_personality_offset r) x"
    "distinct (fz_personalities s1)" "set (fz_personalities s1) = personalities_of (rs @ [r])" "length (fz_personalities s1) \<le> 3"
    "\<forall>p i. fz_index s1 p = Some i \<longleftrightarrow> (\<exists>k < length (fz_personalities s1). fz_personalities s1 ! k = p \<and> i = of_nat (k + 1))"
  proof (cases "ur_personality_offset r")
    case None
    then show thesis using that [of 0 s "[]"] inv by (simp add: fin_inv_def numbered_def personalities_of_append)
  next
    case (Some off)
    have "card (insert off (personalities_of rs)) \<le> 3" using card Some by (simp add: personalities_of_append)
    from intern_personality_step [OF inv this] obtain i s' qs where "intern_personality off s = Ok (i, s')" "fz_personalities s' = fz_personalities s @ qs"
      "fz_records s' = fz_records s" "fz_lsdas s' = fz_lsdas s" "numbered (fz_personalities s') (Some off) i"
      "distinct (fz_personalities s')" "set (fz_personalities s') = insert off (personalities_of rs)" "length (fz_personalities s') \<le> 3"
      "\<forall>p i. fz_index s' p = Some i \<longleftrightarrow> (\<exists>k < length (fz_personalities s'). fz_personalities s' ! k = p \<and> i = of_nat (k + 1))" .
    then show thesis using Some by (intro that [of i s' qs]) (simp_all add: personalities_of_append)
  qed
  let ?f = "r\<lparr>ur_encoding := final_encoding r x\<rparr>"
  let ?s' = "s1\<lparr>fz_lsdas := lsdas_of (rs @ [r]), fz_records := fz_records s @ [?f]\<rparr>"
  have "finalize_one r s = Ok ?s'"
  proof (cases "ur_lsda_offset r")
    case None
    then have "s1\<lparr>fz_lsdas := lsdas_of (rs @ [r])\<rparr> = s1" using s1(4) inv by (simp add: fin_inv_def lsdas_of_append)
    then show ?thesis unfolding finalize_one_def Let_def s1(1) using None s1(3) by (simp add: final_encoding_def)
  next
    case (Some l)
    then show ?thesis unfolding finalize_one_def Let_def s1(1) using s1(3,4) inv by (simp add: final_encoding_def lsdas_of_append fin_inv_def)
  qed
  moreover have "list_all2 (final_of (fz_personalities s1)) (fz_records s @ [?f]) (rs @ [r])"
  proof (rule list_all2_appendI)
    show "list_all2 (final_of (fz_personalities s1)) (fz_records s) rs"
      using inv final_of_append by (auto simp: fin_inv_def s1(2) elim!: list_all2_mono)
    show "list_all2 (final_of (fz_personalities s1)) [?f] [r]" using s1(5) by (auto simp: final_of_def)
  qed
  then have "fin_inv (rs @ [r]) ?s'" using s1(6-9) by (simp add: fin_inv_def)
  ultimately show thesis by (rule that)
qed

lemma finalize_each:
  assumes "fin_inv done s" and "card (personalities_of (done @ rs)) \<le> 3"
  shows "\<exists>s'. seed_each finalize_one rs s = Ok s' \<and> fin_inv (done @ rs) s'"
  using assms
proof (induction rs arbitrary: "done" s)
  case (Cons r rs)
  have "personalities_of (done @ [r]) \<subseteq> personalities_of (done @ r # rs)" by (auto simp: personalities_of_def)
  then have "card (personalities_of (done @ [r])) \<le> 3" using card_mono [OF finite_personalities] Cons.prems(2) by (meson le_trans)
  then obtain s' where "finalize_one r s = Ok s'" "fin_inv (done @ [r]) s'" using finalize_one_step [OF Cons.prems(1)] by blast
  then show ?case using Cons.IH [of "done @ [r]" s'] Cons.prems(2) by simp
qed simp

lemma finalize_exact:
  assumes "card (personalities_of rs) \<le> 3"
  obtains fin ps where "finalize_unwind_records rs = Ok (fin, ps, lsdas_of rs)" and "list_all2 (final_of ps) fin rs" and "length ps \<le> 3"
proof -
  have "fin_inv [] finalizing_new" by (simp add: fin_inv_def finalizing_new_def personalities_of_def lsdas_of_def)
  then obtain s where "seed_each finalize_one rs finalizing_new = Ok s" "fin_inv rs s" using finalize_each [of "[]" finalizing_new rs] assms by auto
  then show thesis using that [of "fz_records s" "fz_personalities s"] by (simp add: finalize_unwind_records_def fin_inv_def)
qed

text \<open>What a final encoding says of its record.\<close>

lemma final_encoding_bits:
  assumes "x \<le> 3"
  shows "drop_bit 28 (final_encoding r x) AND 3 = x" and "bit (final_encoding r x) 30 \<longleftrightarrow> ur_lsda_offset r \<noteq> None"
    and "final_encoding r x AND NOT 0x70000000 = ur_encoding r AND NOT 0x70000000"
proof -
  have m: "(3 :: u32) = mask 2" "(0x30000000 :: u32) = push_bit 28 (mask 2)" "(0x70000000 :: u32) = push_bit 28 (mask 3)"
    by (simp_all add: mask_eq_exp_minus_1)
  have b: "bit (0x40000000 :: int) n \<longleftrightarrow> n = 30" for n
  proof -
    have e: "(0x40000000 :: int) = 2 ^ 30" by simp
    show ?thesis unfolding e by (auto simp only: bit_exp_iff possible_bit_int)
  qed
  have x: "bit x n \<Longrightarrow> n < 2" for n
  proof -
    have "unat x < 2 ^ 2" using assms by (simp add: word_le_nat_alt)
    then have "take_bit 2 x = x" by (simp add: word_unat_eq_iff unsigned_take_bit_eq take_bit_nat_eq_self)
    then show "bit x n \<Longrightarrow> n < 2" by (metis bit_take_bit_iff)
  qed
  note d = final_encoding_def Let_def m
  show "drop_bit 28 (final_encoding r x) AND 3 = x"
    unfolding d by (rule bit_word_eqI) (auto simp: bit_simps b dest: x)
  show "bit (final_encoding r x) 30 \<longleftrightarrow> ur_lsda_offset r \<noteq> None" unfolding d using x [of 2] by (auto simp: bit_simps b)
  show "final_encoding r x AND NOT 0x70000000 = ur_encoding r AND NOT 0x70000000"
    unfolding d by (rule bit_word_eqI) (auto simp: bit_simps b dest: x)
qed


section \<open>The round trip\<close>

lemma finals_keep:
  assumes "list_all2 (final_of ps) fin rs"
  shows "map ur_function_offset fin = map ur_function_offset rs" and "map ur_code_len fin = map ur_code_len rs" and "length fin = length rs"
  using assms by (induction fin rs rule: list_all2_induct) (auto simp: final_of_def)

lemma finals_all:
  assumes "list_all2 (final_of ps) fin rs" and "\<forall>r \<in> set rs. uint (ur_function_offset r) + uint (ur_code_len r) < m"
  shows "\<forall>r \<in> set fin. uint (ur_function_offset r) + uint (ur_code_len r) < m"
  using assms by (induction fin rs rule: list_all2_induct) (auto simp: final_of_def)

lemma count_encoding_Ok:
  assumes "\<forall>(e', n, j) \<in> set xs. unat n \<le> k" and "k + 1 < 2 ^ 32"
  shows "\<exists>ys. count_encoding e i xs = Ok ys \<and> (\<forall>(e', n, j) \<in> set ys. unat n \<le> k + 1)"
  using assms
proof (induction xs)
  case (Cons x xs)
  obtain e' n j where x: "x = (e', n, j)" by (cases x)
  have "\<forall>(e', n, j) \<in> set xs. unat n \<le> k" using Cons.prems(1) by simp
  then obtain ys where ys: "count_encoding e i xs = Ok ys" "\<forall>(e', n, j) \<in> set ys. unat n \<le> k + 1" using Cons.IH Cons.prems(2) by blast
  have n2: "unat n \<le> k" using Cons.prems(1) by (simp add: x)
  then have n: "unat n + 1 < 2 ^ 32" "unat n \<le> k" using Cons.prems(2) by linarith+
  have "unat n < 4294967295" using n(1) by simp
  then have "uint n < 4294967295" unfolding uint_nat by linarith
  then have "uint n + 1 < 2 ^ 32" by simp
  then have a: "(add32 n 1 :: u32 unwound) = Ok (n + 1)" by (simp add: add32_def)
  have u: "unat (n + 1) = unat n + 1" using n(1) by (simp add: unat_word_ariths)
  have old: "\<forall>(e', n, j) \<in> set xs. unat n \<le> k + 1" using Cons.prems(1) by fastforce
  show ?case
  proof (cases "e' = e")
    case True
    then show ?thesis using a u n(2) old by (simp add: x)
  next
    case False
    then show ?thesis using ys n(2) by (simp add: x)
  qed
qed simp

lemma count_encodings_Ok:
  assumes "\<forall>(e', n, j) \<in> set st. unat n \<le> k" and "k + length rs < 2 ^ 32"
  shows "\<exists>ys. seed_each (\<lambda>(i, r). count_encoding (ur_encoding r) i) (enumerate m rs) st = Ok ys"
  using assms
proof (induction rs arbitrary: st k m)
  case (Cons r rs)
  obtain ys where ys: "count_encoding (ur_encoding r) m st = Ok ys" "\<forall>(e', n, j) \<in> set ys. unat n \<le> k + 1"
    using count_encoding_Ok [OF Cons.prems(1)] Cons.prems(2) by fastforce
  then show ?case using Cons.IH [OF ys(2)] Cons.prems(2) by simp
qed simp

lemma select_common_Ok:
  assumes "length rs < 2 ^ 32"
  obtains common where "select_common_encodings order rs = Ok common" and "length common \<le> 127"
  using count_encodings_Ok [of "[]" 0 rs 0] assms that unfolding select_common_encodings_def by auto

lemma sorted_heads:
  assumes "sorted (map f (concat gs))" and "[] \<notin> set gs"
  shows "sorted (map (\<lambda>g. f (hd g)) gs)" and "g \<in> set gs \<Longrightarrow> f (hd g) \<le> f (last (concat gs))"
  using assms
proof (induction gs)
  case (Cons x gs)
  { case 1
    have "f (hd x) \<le> f (hd y)" if y: "y \<in> set gs" for y
    proof -
      have "y \<noteq> []" using 1 y by auto
      then have "hd x \<in> set x" "hd y \<in> set (concat gs)" using 1 y by (auto intro!: bexI [of _ y])
      then show ?thesis using 1 by (auto simp: sorted_append)
    qed
    then show ?case using Cons.IH(1) 1 by (auto simp: sorted_append)
  next
    case 2
    show ?case
    proof (cases "concat gs = []")
      case True
      then have "gs = []" using 2(3) by (cases gs) auto
      then show ?thesis using 2 by (cases x) auto
    next
      case False
      have "f (hd x) \<le> f (last (concat gs))"
      proof -
        have "hd x \<in> set x" "f (last (concat gs)) \<in> set (map f (concat gs))" using 2(3) last_in_set [OF False] by auto
        then show ?thesis using 2(2) unfolding concat.simps map_append sorted_append by auto
      qed
      then show ?thesis using Cons.IH(2) 2 False by (auto simp: sorted_append)
    qed }
qed simp_all

lemma pages_size:
  assumes "pages_hold common pages groups"
  shows "length pages \<le> length (concat groups)" and "length (concat (map page_bytes pages)) \<le> 20 * length (concat groups)"
  using assms unfolding pages_hold_def
proof (induction pages groups rule: list_all2_induct)
  case (Cons p ps g gs)
  have g: "1 \<le> length g" using Cons.hyps by (cases g) auto
  { case 1
    then show ?case using Cons.IH(1) g by simp
  next
    case 2
    have "length (page_bytes p) \<le> 12 + 8 * length g" using Cons.hyps page_holds_sizes(1) [of common p g] by (auto simp: page_bytes_length page_holds_def)
    then show ?case using Cons.IH(2) g by simp }
qed simp_all


lemma sentinel_bounds:
  assumes "sorted (map ur_function_offset rs)" and "\<forall>r \<in> set rs. uint (ur_function_offset r) + uint (ur_code_len r) < 2 ^ 32"
  obtains sen where "sentinel_of rs = Ok sen" and "\<forall>r \<in> set rs. ur_function_offset r \<le> sen"
proof (cases "rs = []")
  case True
  then show thesis using that [of 0] by (simp add: sentinel_of_def)
next
  case False
  let ?l = "last rs"
  have l: "uint (ur_function_offset ?l) + uint (ur_code_len ?l) < 2 ^ 32" using assms(2) False by simp
  then have s: "sentinel_of rs = Ok (ur_function_offset ?l + ur_code_len ?l)" using False by (simp add: sentinel_of_def add32_def)
  have "ur_function_offset ?l \<le> ur_function_offset ?l + ur_code_len ?l"
    using l by (simp add: word_le_def uint_add_lem [THEN iffD1])
  moreover have "ur_function_offset r \<le> ur_function_offset ?l" if "r \<in> set rs" for r
    using sorted_heads(2) [of ur_function_offset "map (\<lambda>r. [r]) rs" "[r]"] assms(1) that by (auto simp: concat_map_singleton)
  ultimately show thesis using that [OF s] by fastforce
qed

lemma first_lsda_skip:
  assumes "\<forall>l \<in> set ls. st \<le> lr_function_offset l"
  shows "skip_lsdas st ls 0 = 0"
proof (cases ls)
  case (Cons l ls')
  then show ?thesis using assms by (simp add: skip_lsdas_def not_less)
qed (simp add: skip_lsdas_def)

lemma lsdas_of_offsets: "l \<in> set (lsdas_of rs) \<Longrightarrow> lr_function_offset l \<in> ur_function_offset ` set rs"
  by (auto simp: lsdas_of_def split: option.splits)

lemma lsdas_of_length: "length (lsdas_of rs) \<le> length rs"
  by (induction rs) (auto simp: lsdas_of_def split: option.splits)

text \<open>Serialization writes the table described above.\<close>

lemma serialize_shape:
  assumes fin: "finalize_unwind_records rs0 = Ok (rs, ps, ls)" and common: "select_common_encodings order rs = Ok common"
    and pages: "pages = build_pages rs common" and h: "pages_hold common pages groups" and sen: "sentinel_of rs = Ok sen"
    and lo: "lo = indices_at common ps + 12 * (length pages + 1) + 12"
    and rows: "rows = index_rows ls lo sen pages 0 (lo + 8 * length ls) @ [(sen, 0, lo + 8 * length ls)]"
    and small: "lo + 8 * length ls + length (concat (map page_bytes pages)) < 2 ^ 32"
  obtains pad where "serialize_unwind_info order rs0 = Ok (table_bytes common ps rows ls pages @ pad)"
proof -
  have n: "length common < 2 ^ 32" "length pages + 1 < 2 ^ 32" using small by (simp_all add: lo indices_at_def)
  have u: "unat (of_nat (length common) :: u32) = length common" "unat (of_nat (length pages + 1) :: u32) = length pages + 1"
    using n by (simp_all add: unat_of_nat del: of_nat_add of_nat_Suc)
  have offs: "7 * 4 = (28 :: nat)" "28 + length common * 4 = 28 + 4 * length common" "28 + 4 * length common + length ps * 4 = indices_at common ps"
    "indices_at common ps + (length pages + 1) * 12 + 12 = lo" "lo + length ls * 8 = lo + 8 * length ls"
    by (simp_all add: lo indices_at_def)
  have blobs: "mapM serialize_compressed_page pages = Ok (map page_bytes pages)"
  proof (rule mapM_Ok_map)
    fix p assume "p \<in> set pages"
    then obtain g where "page_holds common p g" using h by (auto simp: pages_hold_def in_set_conv_nth list_all2_conv_all_nth)
    then show "serialize_compressed_page p = Ok (page_bytes p)" by (rule serialize_page)
  qed
  have index: "write_index ls lo sen pages 0 (of_nat (lo + 8 * length ls)) = Ok (concat (map row_bytes (index_rows ls lo sen pages 0 (lo + 8 * length ls))))"
    using small by (intro write_index_rows [OF h]) simp_all
  have end_off: "lsda_offset_at lo (length ls) = Ok (of_nat (lo + 8 * length ls))" using small by (intro lsda_offset_at_Ok) simp
  have len: "length rows = length pages + 1" by (simp add: rows)
  let ?head = "concat (map (to_le 4) [1, 28, of_nat (length common), of_nat (28 + 4 * length common), of_nat (length ps), of_nat (indices_at common ps), of_nat (length rows) :: u32])
    @ concat (map (to_le 4) common) @ concat (map (to_le 4) ps) @ concat (map row_bytes rows)"
  have "length ?head + 12 = lo" by (simp add: rows_length len lo indices_at_def)
  then have pad1: "pad_until lo ?head = ?head @ replicate 12 0" by (simp add: pad_until_def)
  then have pad2: "pad_until (lo + 8 * length ls) (pad_until lo ?head @ lsda_bytes ls) = ?head @ replicate 12 0 @ lsda_bytes ls"
    using \<open>length ?head + 12 = lo\<close> by (simp add: pad_until_def)
  have "serialize_unwind_info order rs0 = Ok (pad_multiple 8 (pad_until (lo + 8 * length ls) (pad_until lo ?head @ lsda_bytes ls) @ concat (map page_bytes pages)))"
    unfolding serialize_unwind_info_def fin rbind_simps case_prod_conv common Let_def pages [symmetric] blobs sen u offs index end_off
    by (simp add: rows row_bytes_def lsda_bytes_def)
  then show thesis using that unfolding pad2 pad_multiple_def table_bytes_def by simp
qed


text \<open>
  What a decoded record must say of a function: where it starts, how it unwinds, which of the personalities it
  uses (bits 28 and 29, counted from one) and whether it has a data area (bit 30).
\<close>

definition describes :: "u32 list \<Rightarrow> decoded_unwind_record \<Rightarrow> unwind_record \<Rightarrow> bool" where
  "describes ps d r \<longleftrightarrow>
     (let k = unat (drop_bit 28 (dr_encoding d) AND 3) in
      dr_function_offset d = ur_function_offset r
      \<and> dr_encoding d AND NOT 0x70000000 = ur_encoding r AND NOT 0x70000000
      \<and> (bit (dr_encoding d) 30 \<longleftrightarrow> ur_lsda_offset r \<noteq> None)
      \<and> k \<le> length ps \<and> (if k = 0 then None else Some (ps ! (k - 1))) = ur_personality_offset r)"

lemma final_describes:
  assumes "final_of ps f r" and "length ps \<le> 3"
  shows "describes ps \<lparr>dr_function_offset = ur_function_offset f, dr_encoding = ur_encoding f\<rparr> r"
proof -
  obtain x where x: "numbered ps (ur_personality_offset r) x" "f = r\<lparr>ur_encoding := final_encoding r x\<rparr>" using assms(1) by (auto simp: final_of_def)
  obtain k where k: "x = of_nat k" "k \<le> length ps" "(if k = 0 then None else Some (ps ! (k - 1))) = ur_personality_offset r"
  proof (cases "ur_personality_offset r")
    case None
    then show thesis using x(1) that [of 0] by (simp add: numbered_def)
  next
    case (Some off)
    then obtain j where "j < length ps" "ps ! j = off" "x = of_nat (j + 1)" using x(1) by (auto simp: numbered_def)
    then show thesis using that [of "j + 1"] Some by simp
  qed
  have u: "unat (of_nat k :: u32) = k" using k(2) assms(2) by (simp add: unat_of_nat)
  then have "x \<le> 3" using k(1,2) assms(2) by (simp add: word_le_nat_alt)
  then show ?thesis using final_encoding_bits [of x r] k u by (simp add: describes_def x(2))
qed

lemma pages_row_starts:
  assumes "pages_hold common pages groups"
  shows "map pg_start_function_offset pages = map (\<lambda>g. ur_function_offset (hd g)) groups" and "[] \<notin> set groups"
  using assms unfolding pages_hold_def by (induction pages groups rule: list_all2_induct) (auto simp: page_holds_def)

lemma index_order:
  assumes h: "pages_hold common pages groups" and sorted: "sorted (map ur_function_offset (concat groups))"
    and sen: "\<forall>r \<in> set (concat groups). ur_function_offset r \<le> sen"
  shows "sorted (map fst (index_rows ls lo sen pages i off @ [(sen, 0, l)]))"
proof -
  have "ur_function_offset (hd g) \<le> sen" if g: "g \<in> set groups" for g
  proof -
    have "g \<noteq> []" using pages_row_starts(2) [OF h] g by auto
    then show ?thesis using sen g by (auto intro!: bexI [of _ g])
  qed
  then show ?thesis
    using sorted_heads(1) [OF sorted pages_row_starts(2) [OF h]]
    by (auto simp: index_rows_starts pages_row_starts(1) [OF h] sorted_append simp del: append_is_Nil_conv)
qed

lemma first_row_lsda:
  assumes h: "pages_hold common pages groups" and sorted: "sorted (map ur_function_offset (concat groups))"
    and ls: "\<forall>l \<in> set ls. lr_function_offset l \<in> ur_function_offset ` set (concat groups)" and "concat groups = [] \<Longrightarrow> ls = []"
  shows "snd (snd (hd (index_rows ls lo sen pages 0 off @ [(sen, 0, lo + 8 * length ls)]))) = lo"
proof (cases pages)
  case Nil
  then have "groups = []" using h by (simp add: pages_hold_def)
  then show ?thesis using Nil assms(4) by simp
next
  case (Cons p ps)
  obtain g gs where g: "groups = g # gs" "g \<noteq> []" "pg_start_function_offset p = ur_function_offset (hd g)"
    using h Cons by (auto simp: pages_hold_def list_all2_Cons1 page_holds_def)
  have "ur_function_offset (hd g) \<le> ur_function_offset r" if "r \<in> set (concat groups)" for r
    using sorted that g(1,2) by (cases g) (auto simp: sorted_append)
  then have "skip_lsdas (pg_start_function_offset p) ls 0 = 0" using ls g(3) by (intro first_lsda_skip) fastforce
  then show ?thesis by (simp add: Cons Let_def)
qed

lemma sizes_fit:
  assumes "length common \<le> 127" and "length ps \<le> 3" and "length ls \<le> n" and "n \<le> 2 ^ 26" and "length pages \<le> n" and "m \<le> 20 * n"
  shows "indices_at common ps + 12 * (length pages + 1) + 12 + 8 * length ls + m < 2 ^ 32"
  using assms by (simp add: indices_at_def)

lemma unwind_round_trip:
  assumes sorted: "sorted (map ur_function_offset rs)" and n: "length rs \<le> 2 ^ 26"
    and ends: "\<forall>r \<in> set rs. uint (ur_function_offset r) + uint (ur_code_len r) < 2 ^ 32" and "card (personalities_of rs) \<le> 3"
  obtains b fin ps where "serialize_unwind_info order rs = Ok b" and "finalize_unwind_records rs = Ok (fin, ps, lsdas_of rs)"
    and "list_all2 (final_of ps) fin rs" and "length ps \<le> 3"
    and "decode_unwind_info b = Ok \<lparr>di_version = 1, di_personalities = ps,
      di_lsdas = map (\<lambda>l. \<lparr>dl_function_offset = lr_function_offset l, dl_lsda_offset = lr_lsda_offset l\<rparr>) (lsdas_of rs),
      di_records = map (\<lambda>r. \<lparr>dr_function_offset = ur_function_offset r, dr_encoding = ur_encoding r\<rparr>) fin\<rparr>"
proof -
  let ?ls = "lsdas_of rs"
  obtain fin ps where fin: "finalize_unwind_records rs = Ok (fin, ps, ?ls)" "list_all2 (final_of ps) fin rs" "length ps \<le> 3"
    by (rule finalize_exact [OF assms(4)])
  note keep = finals_keep [OF fin(2)]
  have fsorted: "sorted (map ur_function_offset fin)" using sorted keep(1) by simp
  have fends: "\<forall>r \<in> set fin. uint (ur_function_offset r) + uint (ur_code_len r) < 2 ^ 32"
    using finals_all [OF fin(2)] ends .
  have "length fin < 2 ^ 32" using n keep(3) by simp
  then obtain common where common: "select_common_encodings order fin = Ok common" "length common \<le> 127" by (rule select_common_Ok)
  obtain groups where g: "pages_hold common (build_pages fin common) groups" "concat groups = fin"
    by (rule build_pages_hold [OF common(2) fsorted])
  obtain sen where sen: "sentinel_of fin = Ok sen" "\<forall>r \<in> set fin. ur_function_offset r \<le> sen" by (rule sentinel_bounds [OF fsorted fends])
  define pages where "pages = build_pages fin common"
  define lo where "lo = indices_at common ps + 12 * (length pages + 1) + 12"
  define rows where "rows = index_rows ?ls lo sen pages 0 (lo + 8 * length ?ls) @ [(sen, 0, lo + 8 * length ?ls)]"
  have h: "pages_hold common pages groups" using g(1) by (simp add: pages_def)
  have small: "lo + 8 * length ?ls + length (concat (map page_bytes pages)) < 2 ^ 32"
    unfolding lo_def using common(2) fin(3) lsdas_of_length n pages_size [OF h] keep(3) by (intro sizes_fit [where n = "length rs"]) (simp_all add: g(2))
  obtain pad where ser: "serialize_unwind_info order rs = Ok (table_bytes common ps rows ?ls pages @ pad)"
    by (rule serialize_shape [OF fin(1) common(1) pages_def h sen(1) lo_def rows_def small])
  have len: "length rows = length pages + 1" by (simp add: rows_def)
  have lo: "lsdas_at common ps rows = lo" by (simp add: lsdas_at_def lo_def len)
  have k: "fst (rows ! k) = pg_start_function_offset (pages ! k) \<and> fst (snd (rows ! k)) = lo + 8 * length ?ls + length (concat (map page_bytes (take k pages)))"
    if "k < length pages" for k
    using that index_rows_offset [OF that] arg_cong [OF index_rows_starts, of "\<lambda>xs. xs ! k" ?ls lo sen pages 0 "lo + 8 * length ?ls"]
    by (simp add: rows_def nth_append)
  have "sorted (map fst rows)" unfolding rows_def using fsorted sen(2) by (intro index_order [OF h]) (simp_all add: g(2))
  moreover have "snd (snd (hd rows)) = lo"
    unfolding rows_def
  proof (rule first_row_lsda [OF h])
    have "ur_function_offset ` set fin = ur_function_offset ` set rs" using keep(1) by (metis list.set_map)
    then show "\<forall>l \<in> set ?ls. lr_function_offset l \<in> ur_function_offset ` set (concat groups)" using lsdas_of_offsets by (simp add: g(2))
  qed (use fsorted keep(3) g(2) in \<open>auto simp: lsdas_of_def\<close>)
  moreover have "snd (snd (last rows)) = lo + 8 * length ?ls" by (simp add: rows_def)
  ultimately have "decode_unwind_info (table_bytes common ps rows ?ls pages @ pad) = Ok \<lparr>di_version = 1, di_personalities = ps,
      di_lsdas = map (\<lambda>l. \<lparr>dl_function_offset = lr_function_offset l, dl_lsda_offset = lr_lsda_offset l\<rparr>) ?ls,
      di_records = map (\<lambda>r. \<lparr>dr_function_offset = ur_function_offset r, dr_encoding = ur_encoding r\<rparr>) (concat groups)\<rparr>"
    using k small by (intro table_decoded [OF refl h len]) (simp_all add: lo)
  then show thesis using that [OF ser fin(1-3)] g(2) by simp
qed

text \<open>
  C39: An unwind table can be written and says what it was built from: for at most 2^26 functions in address order that end below 2^32, with at
  most three personality routines among them, the compressed pages, the first-level index and the data-area index
  are read back by the decoder, record by record, whatever the order in which common encodings are
  collected; every record starts where its function starts, unwinds as it does and names its personality,
  the data areas are those of the functions that have one, and the linker's own validation accepts the bytes.
\<close>

theorem unwind_info_round_trip:
  assumes "sorted (map ur_function_offset rs)" and "length rs \<le> 2 ^ 26"
    and "\<forall>r \<in> set rs. uint (ur_function_offset r) + uint (ur_code_len r) < 2 ^ 32" and "card (personalities_of rs) \<le> 3"
  shows "\<exists>b info. serialize_unwind_info order rs = Ok b \<and> decode_unwind_info b = Ok info
    \<and> list_all2 (describes (di_personalities info)) (di_records info) rs
    \<and> map (\<lambda>l. (dl_function_offset l, dl_lsda_offset l)) (di_lsdas info) = [(ur_function_offset r, the (ur_lsda_offset r)). r \<leftarrow> rs, ur_lsda_offset r \<noteq> None]
    \<and> validate_serialized_unwind_info b rs = Ok ()"
proof -
  obtain b fin ps where b: "serialize_unwind_info order rs = Ok b" "finalize_unwind_records rs = Ok (fin, ps, lsdas_of rs)"
    "list_all2 (final_of ps) fin rs" "length ps \<le> 3"
    "decode_unwind_info b = Ok \<lparr>di_version = 1, di_personalities = ps,
      di_lsdas = map (\<lambda>l. \<lparr>dl_function_offset = lr_function_offset l, dl_lsda_offset = lr_lsda_offset l\<rparr>) (lsdas_of rs),
      di_records = map (\<lambda>r. \<lparr>dr_function_offset = ur_function_offset r, dr_encoding = ur_encoding r\<rparr>) fin\<rparr>"
    by (rule unwind_round_trip [OF assms])
  have "list_all2 (describes ps) (map (\<lambda>r. \<lparr>dr_function_offset = ur_function_offset r, dr_encoding = ur_encoding r\<rparr>) fin) rs"
    using b(3,4) final_describes by (auto simp: list_all2_map1 elim!: list_all2_mono)
  moreover have "map (\<lambda>l. (lr_function_offset l, lr_lsda_offset l)) (lsdas_of rs) = [(ur_function_offset r, the (ur_lsda_offset r)). r \<leftarrow> rs, ur_lsda_offset r \<noteq> None]"
    by (induction rs) (auto simp: lsdas_of_def split: option.splits)
  moreover have "validate_serialized_unwind_info b rs = Ok ()" by (simp add: validate_serialized_unwind_info_def b(2,5))
  ultimately show ?thesis using b(1,5) by (auto simp: comp_def)
qed

definition unwind_sample :: "unwind_record list" where
  "unwind_sample =
     [\<lparr>ur_function_offset = 0x100, ur_code_len = 8, ur_encoding = 0x02000000, ur_personality_offset = None, ur_lsda_offset = None\<rparr>,
      \<lparr>ur_function_offset = 0x200, ur_code_len = 8, ur_encoding = 0x02000000, ur_personality_offset = Some 0x8000, ur_lsda_offset = Some 0x9000\<rparr>,
      \<lparr>ur_function_offset = 0x3000200, ur_code_len = 8, ur_encoding = 0x02000000, ur_personality_offset = Some 0x8000, ur_lsda_offset = Some 0x77\<rparr>]"

theorem unwind_info_round_trip_witness:
  "\<exists>b info. serialize_unwind_info rev unwind_sample = Ok b \<and> decode_unwind_info b = Ok info
     \<and> list_all2 (describes (di_personalities info)) (di_records info) unwind_sample
     \<and> map (\<lambda>l. (dl_function_offset l, dl_lsda_offset l)) (di_lsdas info) = [(0x200, 0x9000), (0x3000200, 0x77)]"
proof -
  have "personalities_of unwind_sample = {0x8000}" by (auto simp: personalities_of_def unwind_sample_def)
  then show ?thesis using unwind_info_round_trip [of unwind_sample rev] by (fastforce simp: unwind_sample_def)
qed

end
