(* ===== verification/Unwind_Section.thy ===== *)
theory Unwind_Section
  imports Unwind_Synth Unwind_Table_Sound Layout_Build
begin

text \<open>
  The section that ends up in the layout describes the functions whose unwind records were collected.
\<close>

section \<open>Too many personalities\<close>

lemma intern_refused:
  assumes "fin_inv rs s" and "3 < card (insert off (personalities_of rs))"
  shows "intern_personality off s = Err (TooManyPersonalities 4)"
proof -
  have c: "card (personalities_of rs) = length (fz_personalities s)" "length (fz_personalities s) \<le> 3"
    using assms(1) distinct_card [of "fz_personalities s"] by (simp_all add: fin_inv_def)
  then have new: "off \<notin> personalities_of rs" "length (fz_personalities s) = 3"
    using assms(2) by (auto simp: card_insert_if split: if_splits)
  have "fz_index s off = None"
  proof (rule ccontr)
    assume "fz_index s off \<noteq> None"
    then obtain k where "k < length (fz_personalities s)" "fz_personalities s ! k = off" using assms(1) by (auto simp: fin_inv_def)
    then have "off \<in> set (fz_personalities s)" by (metis nth_mem)
    then show False using new(1) assms(1) by (simp add: fin_inv_def)
  qed
  then show ?thesis using new(2) by (simp add: intern_personality_def)
qed

lemma finalize_refused:
  assumes "fin_inv done s" and "3 < card (personalities_of (done @ rs))"
  shows "seed_each finalize_one rs s = Err (TooManyPersonalities 4)"
  using assms
proof (induction rs arbitrary: "done" s)
  case Nil
  then show ?case using distinct_card [of "fz_personalities s"] by (simp add: fin_inv_def)
next
  case (Cons r rs)
  show ?case
  proof (cases "card (personalities_of (done @ [r])) \<le> 3")
    case True
    then obtain s' where "finalize_one r s = Ok s'" "fin_inv (done @ [r]) s'" using finalize_one_step [OF Cons.prems(1)] by blast
    then show ?thesis using Cons.IH [of "done @ [r]" s'] Cons.prems(2) by simp
  next
    case False
    have "card (personalities_of done) \<le> 3" using Cons.prems(1) distinct_card [of "fz_personalities s"] by (simp add: fin_inv_def)
    then obtain off where off: "ur_personality_offset r = Some off" "3 < card (insert off (personalities_of done))"
      using False by (cases "ur_personality_offset r") (simp_all add: personalities_of_append)
    show ?thesis using intern_refused [OF Cons.prems(1) off(2)] off(1) by (simp add: finalize_one_def Let_def)
  qed
qed

lemma serialize_refused:
  assumes "3 < card (personalities_of rs)"
  shows "serialize_unwind_info order rs = Err (TooManyPersonalities 4)"
proof -
  have "fin_inv [] finalizing_new" by (simp add: fin_inv_def finalizing_new_def personalities_of_def lsdas_of_def)
  then show ?thesis using finalize_refused [of "[]" finalizing_new rs] assms
    by (simp add: serialize_unwind_info_def finalize_unwind_records_def)
qed

section \<open>The section in the layout\<close>

lemma prune_sections [simp]: "ly_sections (prune_empty_segments ly) = ly_sections ly"
  by (simp add: prune_empty_segments_def Let_def)

lemma upsert_section:
  assumes "upsert_unwind_info_section ly b = (ly', c)"
  shows "\<exists>s \<in> set (ly_sections ly'). is_unwind_info s \<and> os_synthetic_data s = b \<and> os_size s = of_nat (length b)"
    and "\<forall>s \<in> set (ly_sections ly). os_kind s \<noteq> KCompactUnwind \<Longrightarrow> \<forall>s \<in> set (ly_sections ly'). os_kind s \<noteq> KCompactUnwind"
proof -
  have "(\<exists>s \<in> set (ly_sections ly'). is_unwind_info s \<and> os_synthetic_data s = b \<and> os_size s = of_nat (length b))
    \<and> set (ly_sections ly') \<subseteq> set (ly_sections ly) \<union> {s. os_kind s = KRegular}"
  proof (cases "position is_unwind_info (ly_sections ly)")
    case (Some i)
    then have i: "i < length (ly_sections ly)" "is_unwind_info (ly_sections ly ! i)" using position_SomeD [OF Some] by auto
    have "ly_sections ly' = (ly_sections ly)[i := replace_unwind_info b (ly_sections ly ! i)]"
      using assms Some by (auto simp: upsert_unwind_info_section_def Let_def)
    then show ?thesis using i set_update_subset_insert [of "ly_sections ly" i "replace_unwind_info b (ly_sections ly ! i)"]
      by (auto simp: replace_unwind_info_def is_unwind_info_def set_update_memI intro!: bexI [OF _ set_update_memI])
  next
    case None
    then obtain i where "ly_sections ly' = insert_at i (unwind_info_section b) (ly_sections ly)"
      using assms by (auto simp: upsert_unwind_info_section_def Let_def)
    then show ?thesis using set_take_subset [of i "ly_sections ly"] set_drop_subset [of i "ly_sections ly"]
      by (auto simp: insert_at_def unwind_info_section_def is_unwind_info_def)
  qed
  then show "\<exists>s \<in> set (ly_sections ly'). is_unwind_info s \<and> os_synthetic_data s = b \<and> os_size s = of_nat (length b)"
    and "\<forall>s \<in> set (ly_sections ly). os_kind s \<noteq> KCompactUnwind \<Longrightarrow> \<forall>s \<in> set (ly_sections ly'). os_kind s \<noteq> KCompactUnwind"
    by auto
qed

lemma synthesize_cases:
  assumes "synthesize validate order order' inputs tb t plan ly0 = Ok (ly, changed)"
  obtains (none) "collect_records order' (fst (remove_compact_unwind_sections ly0)) inputs tb t plan = Ok []"
      and "ly_sections ly = filter (\<lambda>s. \<not> is_unwind_info s) (filter (\<lambda>s. os_kind s \<noteq> KCompactUnwind) (ly_sections ly0))"
    | (some) rs b ly1 c where "collect_records order' (fst (remove_compact_unwind_sections ly0)) inputs tb t plan = Ok rs" and "rs \<noteq> []"
      and "serialize_unwind_info order rs = Ok b" and "upsert_unwind_info_section (fst (remove_compact_unwind_sections ly0)) b = (ly1, c)"
      and "ly_sections ly = ly_sections ly1"
proof -
  obtain ly1 c1 where r: "remove_compact_unwind_sections ly0 = (ly1, c1)" by fastforce
  obtain rs where rs: "collect_records order' ly1 inputs tb t plan = Ok rs"
    using assms by (auto simp: synthesize_def r Let_def rbind_Ok_iff)
  show thesis
  proof (cases "rs = []")
    case True
    have "ly_sections ly = ly_sections (fst (remove_unwind_info_section ly1))"
      using assms by (auto simp: synthesize_def r Let_def rs True split: prod.splits if_splits)
    moreover have "ly_sections ly1 = filter (\<lambda>s. os_kind s \<noteq> KCompactUnwind) (ly_sections ly0)"
      using r by (auto simp: remove_compact_unwind_sections_def Let_def)
    ultimately show thesis using none rs True r by (simp add: remove_unwind_info_section_def Let_def)
  next
    case False
    obtain ly2 c2 b where u: "serialize_unwind_info order rs = Ok b" "upsert_unwind_info_section ly1 b = (ly2, c2)" "ly_sections ly = ly_sections ly2"
    proof (cases "serialize_unwind_info order rs")
      case (Ok b)
      then show thesis using assms that [OF Ok] by (cases "upsert_unwind_info_section ly1 b") (auto simp: synthesize_def r Let_def rs False rbind_Ok_iff split: if_splits)
    qed (use assms rs False in \<open>simp_all add: synthesize_def r Let_def\<close>)
    then show thesis using some [OF _ False u(1)] rs r by simp
  qed
qed

text \<open>
  C40: Synthesis leaves the right unwind information in the layout: the raw compact-unwind sections are gone;
  without records there is no \<^verbatim>\<open>__unwind_info\<close> section, and with records there is one whose bytes decode to exactly
  the functions collected, in address order, each with its encoding, personality and data area. This holds
  as long as there are at most \<open>2 ^ 26\<close> records and no function ends beyond the 32-bit range.
\<close>

theorem unwind_section_describes_functions:
  assumes "synthesize validate order order' inputs tb t plan ly0 = Ok (ly, changed)"
  shows "\<exists>rs. collect_records order' (fst (remove_compact_unwind_sections ly0)) inputs tb t plan = Ok rs
    \<and> (\<forall>s \<in> set (ly_sections ly). os_kind s \<noteq> KCompactUnwind)
    \<and> (rs = [] \<longrightarrow> (\<forall>s \<in> set (ly_sections ly). \<not> is_unwind_info s))
    \<and> (rs \<noteq> [] \<and> length rs \<le> 2 ^ 26 \<and> (\<forall>r \<in> set rs. uint (ur_function_offset r) + uint (ur_code_len r) < 2 ^ 32) \<longrightarrow>
        (\<exists>s \<in> set (ly_sections ly). is_unwind_info s \<and> os_size s = of_nat (length (os_synthetic_data s))
          \<and> (\<exists>info. decode_unwind_info (os_synthetic_data s) = Ok info
              \<and> list_all2 (describes (di_personalities info)) (di_records info) rs \<and> sorted (map dr_function_offset (di_records info)))))"
  using assms
proof (cases rule: synthesize_cases)
  case none
  then show ?thesis by simp
next
  case (some rs b ly1 c)
  have sorted: "sorted (map ur_function_offset rs)"
    using some(1) by (auto simp: collect_records_def Let_def rbind_Ok_iff)
  have kinds: "\<forall>s \<in> set (ly_sections (fst (remove_compact_unwind_sections ly0))). os_kind s \<noteq> KCompactUnwind"
    by (simp add: remove_compact_unwind_sections_def Let_def)
  have decoded: "\<exists>info. decode_unwind_info b = Ok info \<and> list_all2 (describes (di_personalities info)) (di_records info) rs \<and> sorted (map dr_function_offset (di_records info))"
    if h: "length rs \<le> 2 ^ 26" "\<forall>r \<in> set rs. uint (ur_function_offset r) + uint (ur_code_len r) < 2 ^ 32"
  proof -
    have card: "card (personalities_of rs) \<le> 3" using serialize_refused [of rs order] some(3) by (cases "card (personalities_of rs) \<le> 3") auto
    obtain b' fin ps where r: "serialize_unwind_info order rs = Ok b'" "finalize_unwind_records rs = Ok (fin, ps, lsdas_of rs)"
      "list_all2 (final_of ps) fin rs" "length ps \<le> 3"
      "decode_unwind_info b' = Ok \<lparr>di_version = 1, di_personalities = ps,
        di_lsdas = map (\<lambda>l. \<lparr>dl_function_offset = lr_function_offset l, dl_lsda_offset = lr_lsda_offset l\<rparr>) (lsdas_of rs),
        di_records = map (\<lambda>r. \<lparr>dr_function_offset = ur_function_offset r, dr_encoding = ur_encoding r\<rparr>) fin\<rparr>"
      by (rule unwind_round_trip [OF sorted h card])
    have "list_all2 (describes ps) (map (\<lambda>r. \<lparr>dr_function_offset = ur_function_offset r, dr_encoding = ur_encoding r\<rparr>) fin) rs"
      using r(3,4) final_describes by (auto simp: list_all2_map1 elim!: list_all2_mono)
    then show ?thesis using r(1,5) some(3) finals_keep(1) [OF r(3)] sorted by (auto simp: comp_def)
  qed
  have "\<forall>s \<in> set (ly_sections ly). os_kind s \<noteq> KCompactUnwind" using upsert_section(2) [OF some(4) kinds] some(5) by simp
  moreover obtain s where "s \<in> set (ly_sections ly)" "is_unwind_info s" "os_synthetic_data s = b" "os_size s = of_nat (length b)"
    using upsert_section(1) [OF some(4)] some(5) by auto
  ultimately show ?thesis using some(1,2) decoded by (intro exI [of _ rs]) auto
qed


text \<open>A function of eight bytes with one compact-unwind record, laid out in a text section.\<close>

definition unwind_atoms :: atom_table where
  "unwind_atoms = \<lparr>tb_atoms =
     [(record_atom 0 1 AText 0 8 2 [] 0)\<lparr>at_id := 1\<rparr>,
      (record_atom 0 2 ACompactUnwind 0 32 3 (replicate 8 0 @ to_le 4 (8 :: u32) @ to_le 4 (0x02001000 :: u32) @ replicate 16 0) 0)
        \<lparr>at_id := 2, at_parent_of := Some 1\<rparr>]\<rparr>"

definition unwind_layout :: layout where
  "unwind_layout = \<lparr>ly_kind = Executable,
     ly_segments = [(new_segment (bstr ''__TEXT'') PROT_READ_EXECUTE 0)\<lparr>og_vm_addr := 0x100000000\<rparr>],
     ly_sections =
     [(unwind_info_section [])\<lparr>os_name := bstr ''__text'', os_kind := KText, os_addr := 0x100000400, os_size := 8,
        os_atoms := [\<lparr>oa_atom = 1, oa_offset = 0, oa_size = 8, oa_data = []\<rparr>]\<rparr>,
      (unwind_info_section [])\<lparr>os_name := bstr ''__compact_unwind'', os_kind := KCompactUnwind\<rparr>]\<rparr>"

definition unwind_plan :: synthetic_plan where
  "unwind_plan = \<lparr>sp_got = slots_new, sp_stubs = slots_new, sp_lazy_pointers = slots_new, sp_thread_pointers = slots_new,
     sp_direct_binds = [], sp_binder_symbol = None, sp_tlv_bootstrap_symbol = None, sp_needs_dyld_private = False\<rparr>"

declare usize_max_def [code del]

theorem unwind_section_describes_functions_witness:
  "\<exists>ly changed s info. synthesize False id id sample_inputs unwind_atoms table_new unwind_plan unwind_layout = Ok (ly, changed)
     \<and> s \<in> set (ly_sections ly) \<and> is_unwind_info s \<and> decode_unwind_info (os_synthetic_data s) = Ok info
     \<and> map dr_function_offset (di_records info) = [0x400]"
proof -
  let ?r = "\<lparr>ur_function_offset = 0x400, ur_code_len = 8, ur_encoding = 0x02001000, ur_personality_offset = None, ur_lsda_offset = None\<rparr>"
  let ?ly = "fst (remove_compact_unwind_sections unwind_layout)"
  have 2: "collect_records id ?ly sample_inputs unwind_atoms table_new unwind_plan = Ok [?r]" by code_simp
  have "card (personalities_of [?r]) \<le> 3" by (simp add: personalities_of_def)
  then obtain b where b: "serialize_unwind_info id [?r] = Ok b" using unwind_round_trip [of "[?r]" id] by auto
  obtain ly changed where o1: "synthesize False id id sample_inputs unwind_atoms table_new unwind_plan unwind_layout = Ok (ly, changed)"
    using 2 b by (cases "remove_compact_unwind_sections unwind_layout"; cases "upsert_unwind_info_section ?ly b") (auto simp: synthesize_def Let_def)
  from unwind_section_describes_functions [OF o1] 2 obtain s info where "s \<in> set (ly_sections ly)" "is_unwind_info s"
    "decode_unwind_info (os_synthetic_data s) = Ok info"
    "list_all2 (describes (di_personalities info)) (di_records info)
      [\<lparr>ur_function_offset = 0x400, ur_code_len = 8, ur_encoding = 0x02001000, ur_personality_offset = None, ur_lsda_offset = None\<rparr>]"
    by auto
  moreover from this have "map dr_function_offset (di_records info) = [0x400]" by (auto simp: list_all2_Cons2 describes_def Let_def)
  ultimately show ?thesis using o1 by auto
qed

end
