(* ===== verification/Spec2Isabelle.thy ===== *)
theory Spec2Isabelle
  imports Leb String_Table Nlist Resolution Reloc Reader Exports Arm64_Patch Export_Trie_Total Dyld_Opcodes Unwind_Link
    Layout_Placement Dead_Strip_Exact Icf_Sound Archive_Panics Link_Sample Undefineds Synth_Sound Code_Sign_Sound Unwind_Section
begin

text \<open>
  Verification of \<^verbatim>\<open>afs-ld\<close>, a Mach-O linker for ARM64 written in Rust (\<^verbatim>\<open>src/src\<close>). This theory gathers the
  library; the program and its model are described here, the theorems stand in the theories of the
  components.

  \<^bold>\<open>The program.\<close> A link reads object files, static archives and dynamic libraries, enters their symbols into one
  symbol table, fetches archive members until no reference they could satisfy is left, cuts the sections of
  the objects into atoms, drops dead atoms, folds identical code, plans the synthetic tables, lays the atoms
  out in sections and segments, patches the relocations, and writes symbol table, export trie and loader
  opcodes beside the contents. The parts hand each other values: bytes to parsed records, records to the
  symbol table and the atom table, both to the passes that follow.

  \<^bold>\<open>Conventions\<close> (\<open>Prelude\<close>, \<open>Bytes\<close>, \<open>Order\<close>, \<open>Constants\<close>). A Rust function returns \<open>Ok\<close>, \<open>Err\<close> with its error value, or
  \<open>Panic\<close>, which stands for every panic: an index or a slice out of range, an unsigned addition or
  subtraction that overflows (a build with overflow checks), \<^verbatim>\<open>expect\<close> and \<^verbatim>\<open>unreachable!\<close>. Machine integers are
  words of their width, \<^verbatim>\<open>usize\<close> is a natural number whose checked operations test the 64-bit bound, strings and
  paths are their bytes, a \<^verbatim>\<open>HashMap\<close> is a partial map. Loops are recursive functions with a termination proof,
  \<open>partial_function (option)\<close> where termination is itself a theorem, or have the code's own bound as an argument
  (32 alias steps in \<open>chain_walk\<close>, 32 nested thin archives, 128 levels of an export trie). There is no other fuel.

  \<^bold>\<open>Parameters.\<close> What the code does not determine is an argument of the definitions: the file system of thin archives
  (\<open>fs\<close>), the order in which loader threads deliver (\<open>arrival\<close>) and the orders in which hash maps are walked
  (\<open>order\<close> of \<open>Dead_Strip\<close>, \<open>Icf\<close> and the unwind theories). The theorems hold for all of them; \<open>fair\<close> only says that a
  thread's result arrives exactly once.

  \<^bold>\<open>Codecs and readers.\<close>
  \<^item> \<open>Leb\<close> (\<^verbatim>\<open>leb.rs\<close>): the two LEB128 codecs, interpreted in the locale \<open>prefix_codec\<close> of \<open>Bytes\<close>.
  \<^item> \<open>String_Table\<close> (\<^verbatim>\<open>string_table.rs\<close>): reading and the two builders; the suffix-sharing builder returns an
    offset at which each name is read back, and shares exactly the names that are suffixes.
  \<^item> \<open>Nlist\<close> (\<^verbatim>\<open>symbol.rs\<close>), \<open>Reloc\<close> (\<^verbatim>\<open>reloc/mod.rs\<close>), \<open>Reader\<close> (\<^verbatim>\<open>macho/reader.rs\<close>): symbol records, relocation records
    and their fusion, header and load commands; round trips in both directions and absence of panics on
    arbitrary bytes. The record tables are interpretations of the locale \<open>record_codec\<close>.
  \<^item> \<open>Exports\<close> (\<^verbatim>\<open>macho/exports.rs\<close>), \<open>Export_Trie\<close> and \<open>Export_Trie_Total\<close> (\<^verbatim>\<open>synth/dyld_info.rs\<close>): the trie reader is
    total and bounded on hostile bytes, the builder's offset iteration reaches its fixed point, and reading
    a built trie gives back its entries.
  \<^item> \<open>Section\<close> (\<^verbatim>\<open>section.rs\<close>), \<open>Object_File\<close> (\<^verbatim>\<open>input.rs\<close>, \<^verbatim>\<open>loh.rs\<close>), \<open>Dylib_File\<close> (\<^verbatim>\<open>macho/dylib.rs\<close>): parsed inputs are
    well formed.
  \<^item> \<open>Archive\<close>, \<open>Archive_Sound\<close>, \<open>Archive_Written\<close>, \<open>Archive_Panics\<close> (\<^verbatim>\<open>archive.rs\<close>): member headers, names of the three
    flavours, symbol indexes and member loading; members lie disjoint in the file, written archives are
    read back, opening panics in one way only, and a reference into the long-name table is characterised on
    every table and position.

  \<^bold>\<open>Symbols.\<close>
  \<^item> \<open>Interner\<close>, \<open>Symbol_Table\<close>, \<open>Resolution\<close> (\<^verbatim>\<open>resolve.rs\<close>): the record \<open>symbol_table\<close> holds slots, name map, interner and
    transitions as \<^verbatim>\<open>SymbolTable\<close> does; \<open>insert_sym\<close> with its matrix of actions refines an abstract rule on maps from
    names to symbols in which the stronger symbol wins. \<open>reachable\<close> is the set of tables the linker can
    build by interning, inserting, binding atoms, materializing commons and promoting what stays undefined; names, slots and aliases are consistent in all of them while the 32-bit identifiers last.
  \<^item> \<open>Inputs\<close>, \<open>Fetching\<close>, \<open>Link_Order\<close> (\<^verbatim>\<open>resolve.rs\<close>): the registry of inputs, seeding, the pool of loader threads, the
    queue of pending fetches and the pass over the inputs in command-line order, with the state
    \<open>link_state\<close> (registry, table, report). The loops are total because a member is fetched at most once.
    \<open>Link_Determinism\<close>, \<open>Link_Order_Sound\<close> and \<open>Link_Sample\<close> show that threads do not show in the result, that every
    archive is exhausted, that members are accounted for and that the table stays reachable; the last also
    runs a whole link in the kernel.
  \<^item> \<open>Undefineds\<close>: classification of what stays undefined, and the edit distance of the suggestions against the
    least cost of an alignment.
  \<^item> \<open>Visibility\<close> (\<^verbatim>\<open>symbol_visibility.rs\<close>): the backtracking wildcard matcher reports only matches of the declarative one
    and agrees with it on names without a literal star.

  \<^bold>\<open>Atoms and passes.\<close>
  \<^item> \<open>Atom\<close>, \<open>Atomize\<close>, \<open>Atom_Tiling\<close>, \<open>Unwind_Link\<close> (\<^verbatim>\<open>atom.rs\<close>): cutting sections into atoms; the four record-wise
    splitters are interpretations of the locale \<open>record_splitter\<close>, in which tiling is proved once.
  \<^item> \<open>Live_Graph\<close>, \<open>Dead_Strip\<close>, \<open>Dead_Strip_Exact\<close> (\<^verbatim>\<open>why_live.rs\<close>): the worklist marks exactly the atoms reachable from
    the roots, and every explanation ends at a root.
  \<^item> \<open>Icf\<close>, \<open>Icf_Sound\<close> (\<^verbatim>\<open>icf.rs\<close>): the folding loop returns, folds only unexported atoms with the same content whose
    relocations lead to the same places in the rebound symbol table (\<open>refers_to\<close>), and leaves no symbol on a folded atom.
    The theorem assumes that the symbols an atom lists are bound to it (\<open>owners_bound\<close>).
  \<^item> \<open>Synth\<close>, \<open>Synth_Sound\<close> (\<^verbatim>\<open>synth/got.rs\<close>, \<^verbatim>\<open>stubs.rs\<close>, \<^verbatim>\<open>tlv.rs\<close>, \<^verbatim>\<open>mod.rs\<close>): the four slot tables interpret the locale
    \<open>slot_table\<close>; a plan holds exactly the slots asked for.
  \<^item> \<open>Layout\<close> and its successors up to \<open>Layout_Placement\<close> (\<^verbatim>\<open>layout.rs\<close>): every live atom is placed once, at an
    aligned address inside its section; sections and segments do not overlap, and file offsets follow
    addresses as long as no section asks for more than the page alignment.
  \<^item> \<open>Arm64_Patch\<close> (\<^verbatim>\<open>reloc/arm64.rs\<close>): the patchers and the encoders of stubs; decoding what they write, with the
    units of a table of the architecture's loads and stores, gives the target. \<open>Dyld_Opcodes\<close> (\<^verbatim>\<open>synth/dyld_info.rs\<close>, parts of \<^verbatim>\<open>macho/writer.rs\<close>): an interpreter of the rebase and bind
    opcodes recovers the fixups that were encoded.
  \<^item> \<open>Code_Sign\<close>, \<open>Code_Sign_Sound\<close> (\<^verbatim>\<open>synth/code_sig.rs\<close>): the digest is SHA-256 on the padded message, stated bit by bit and with
    constants that are roots of primes, and a blob
    built by any number of threads has the planned size and verifies against the file.
  \<^item> \<open>Unwind_Table\<close>, \<open>Unwind_Synth\<close>, \<open>Unwind_Table_Sound\<close>, \<open>Unwind_Section\<close> (\<^verbatim>\<open>synth/unwind.rs\<close>): collection of compact-unwind
    records, the compressed pages and their decoder; a written table decodes to the functions it was built
    from, and the section in the layout is that table.

  \<^bold>\<open>Bounds.\<close> Handles are 32-bit words, so statements about identifiers assume fewer than \<open>2 ^ 32\<close> symbols, names or
  atoms where the code casts a counter with \<^verbatim>\<open>as u32\<close>; file sizes are below \<open>2 ^ 64\<close>, archives with an index of 32-bit
  offsets below \<open>2 ^ 32\<close>. Evaluation in witnesses compares 64-bit bounds as integers (\<open>checked_add_code\<close>).

  \<^bold>\<open>Not modelled.\<close> The command line (\<^verbatim>\<open>args.rs\<close>), the driver and its dumps, maps and diagnostics (\<^verbatim>\<open>lib.rs\<close>, \<^verbatim>\<open>diag.rs\<close>,
  \<^verbatim>\<open>dump.rs\<close>, \<^verbatim>\<open>link_map.rs\<close>) and the replacement of the output file (\<^verbatim>\<open>output.rs\<close>) are text or operating-system
  interaction. The assembly of the output image (the rest of \<^verbatim>\<open>macho/writer.rs\<close>), the relocation driver with
  its thunks (the rest of \<^verbatim>\<open>reloc/arm64.rs\<close>), the rewriting of optimization hints
  and the text-stub parser are left out, as is the ELF linker (\<^verbatim>\<open>elf.rs\<close>), which is a
  program of its own. Error messages are kept as values, not as text.
\<close>

end
